(* ===== verification/Prelude.thy ===== *)
theory Prelude
  imports Main "HOL-Library.Word"
begin

text \<open>
  The prelude of the development: the values and results every component shares, and the
  generic lemmas about arrays and pointer chains.

  A JavaScript number that is used as an index or a link is a \<open>jsnum\<close>: \<open>Some j\<close> is the
  integer \<open>j\<close> and \<open>None\<close> is \<open>undefined\<close>, which is what a typed array returns when it
  is read outside its bounds.  A read is \<open>rd\<close>, a write is \<open>wr\<close>: a typed array ignores
  a write outside its bounds, and an array index computed from \<open>undefined\<close> is outside them.
  Array lengths are below \<open>2 ^ 31\<close>, so a link stored in an \<open>Int32Array\<close> never wraps.

  A call that ends with a thrown error, or that does not return, is an \<open>Inl\<close> of the result
  type \<open>js_error + 'a\<close>; \<open>bindr\<close> is the sequencing of two such calls.
\<close>

named_theorems rd_wr "reads after writes of arrays"
named_theorems chain_laws "laws of pointer chains in a link array"

type_synonym jsnum = "int option"

datatype js_error =
    JsError string      \<comment> \<open>\<open>throw new Error(msg)\<close>\<close>
  | TypeError           \<comment> \<open>a property of \<open>undefined\<close> or \<open>null\<close>\<close>
  | NoReturn            \<comment> \<open>an endless loop or an exhausted call stack\<close>

type_synonym 'a result = "js_error + 'a"

definition bindr :: "'a result \<Rightarrow> ('a \<Rightarrow> 'b result) \<Rightarrow> 'b result" where
  "bindr m f = (case m of Inl e \<Rightarrow> Inl e | Inr a \<Rightarrow> f a)"

lemma bindr_simps [simp]: "bindr (Inl e) f = Inl e" "bindr (Inr a) f = f a"
  by (simp_all add: bindr_def)

lemma bindr_eq_Inr: "bindr m f = Inr y \<longleftrightarrow> (\<exists>x. m = Inr x \<and> f x = Inr y)"
  by (cases m) auto

lemma bindr_eq_Inl: "bindr m f = Inl e \<longleftrightarrow> m = Inl e \<or> (\<exists>x. m = Inr x \<and> f x = Inl e)"
  by (cases m) auto

subsection \<open>Typed arrays\<close>

definition rd :: "'a list \<Rightarrow> jsnum \<Rightarrow> 'a option" where
  "rd a i = (case i of None \<Rightarrow> None
             | Some j \<Rightarrow> if 0 \<le> j \<and> j < int (length a) then Some (a ! nat j) else None)"

definition wr :: "'a list \<Rightarrow> jsnum \<Rightarrow> 'a \<Rightarrow> 'a list" where
  "wr a i v = (case i of None \<Rightarrow> a
               | Some j \<Rightarrow> if 0 \<le> j \<and> j < int (length a) then a[nat j := v] else a)"

text \<open>A store of a possibly \<open>undefined\<close> number into an \<open>Int32Array\<close> (ToInt32 of it is 0).\<close>

definition wrn :: "int list \<Rightarrow> jsnum \<Rightarrow> jsnum \<Rightarrow> int list" where
  "wrn a i v = wr a i (case v of None \<Rightarrow> 0 | Some x \<Rightarrow> x)"

text \<open>The loop guard \<open>m >= 0\<close>: false for \<open>undefined\<close>.\<close>

definition ge0 :: "jsnum \<Rightarrow> bool" where
  "ge0 m = (case m of None \<Rightarrow> False | Some j \<Rightarrow> 0 \<le> j)"

lemma ge0_simps [simp]: "ge0 None = False" "ge0 (Some j) = (0 \<le> j)"
  by (simp_all add: ge0_def)

lemma rd_nat [simp]: "i < length a \<Longrightarrow> rd a (Some (int i)) = Some (a ! i)"
  by (simp add: rd_def)

lemma rd_Some: "0 \<le> j \<Longrightarrow> j < int (length a) \<Longrightarrow> rd a (Some j) = Some (a ! nat j)"
  by (simp add: rd_def)

lemma rd_None [simp]: "rd a None = None"
  by (simp add: rd_def)

lemma rd_neg [simp]: "j < 0 \<Longrightarrow> rd a (Some j) = None"
  by (simp add: rd_def)

lemma rd_zero [simp]: "a \<noteq> [] \<Longrightarrow> rd a (Some 0) = Some (a ! 0)"
  by (simp add: rd_def)

lemma wr_nat [simp]: "i < length a \<Longrightarrow> wr a (Some (int i)) v = a[i := v]"
  by (simp add: wr_def)

lemma wr_neg [simp]: "j < 0 \<Longrightarrow> wr a (Some j) v = a"
  by (simp add: wr_def)

lemma wr_None [simp]: "wr a None v = a"
  by (simp add: wr_def)

lemma wrn_Some [simp]: "wrn a i (Some x) = wr a i x"
  by (simp add: wrn_def)

lemma length_wr [simp]: "length (wr a i v) = length a"
  by (simp add: wr_def split: option.splits)

lemma length_wrn [simp]: "length (wrn a i v) = length a"
  by (simp add: wrn_def)

subsection \<open>Pointer chains\<close>

text \<open>
  \<open>path nx i xs j\<close>: starting at the link \<open>i\<close> and following the link array \<open>nx\<close>, the
  slots \<open>xs\<close> are visited in this order, and the link after the last of them is \<open>j\<close>.
\<close>

fun path :: "int list \<Rightarrow> int \<Rightarrow> nat list \<Rightarrow> int \<Rightarrow> bool" where
  "path nx i [] j = (i = j)"
| "path nx i (x # xs) j = (i = int x \<and> x < length nx \<and> path nx (nx ! x) xs j)"

lemma path_append [chain_laws]:
  "path nx i (xs @ ys) j \<longleftrightarrow> (\<exists>k. path nx i xs k \<and> path nx k ys j)"
  by (induction xs arbitrary: i) auto

lemma path_update [chain_laws]: "u \<notin> set xs \<Longrightarrow> path (nx[u := v]) i xs j = path nx i xs j"
  by (induction xs arbitrary: i) auto

lemma path_bound: "path nx i xs j \<Longrightarrow> x \<in> set xs \<Longrightarrow> x < length nx"
  by (induction xs arbitrary: i) auto

lemma path_neg: "j < 0 \<Longrightarrow> i < 0 \<Longrightarrow> path nx i xs j \<longleftrightarrow> xs = [] \<and> i = j"
  by (cases xs) auto

lemma path_nonneg: "j < 0 \<Longrightarrow> 0 \<le> i \<Longrightarrow> path nx i xs j \<longleftrightarrow>
   (\<exists>ys. xs = nat i # ys \<and> nat i < length nx \<and> path nx (nx ! nat i) ys j)"
  by (cases xs) auto

text \<open>A chain that ends at a negative link is determined by its first link.\<close>

lemma path_unique: "path nx i xs j \<Longrightarrow> j < 0 \<Longrightarrow> path nx i ys j' \<Longrightarrow> j' < 0 \<Longrightarrow> xs = ys \<and> j = j'"
proof (induction xs arbitrary: i ys)
  case Nil
  then show ?case by (cases ys) auto
next
  case (Cons x xs)
  then show ?case by (cases ys) auto
qed

lemma path_hd_notin: "path nx (nx ! x) xs j \<Longrightarrow> j < 0 \<Longrightarrow> x < length nx \<Longrightarrow> x \<notin> set xs"
proof
  assume p: "path nx (nx ! x) xs j" and j: "j < 0" and "x < length nx" and "x \<in> set xs"
  then obtain us vs where xs: "xs = us @ x # vs" by (meson split_list)
  with p have "path nx (nx ! x) vs j" by (auto simp: path_append)
  with p j have "vs = xs" by (blast dest: path_unique)
  with xs show False by simp
qed

lemma path_distinct: "path nx i xs j \<Longrightarrow> j < 0 \<Longrightarrow> distinct xs"
  by (induction xs arbitrary: i) (auto dest: path_hd_notin)

end
