(* ===== verification/FixedStack.thy ===== *)
theory FixedStack
  imports Prelude
begin

text \<open>
  The class \<open>FixedStack\<close> of mwg.js: the least-recently-used queue of the chunk space, a
  doubly linked list threaded through two \<open>Int32Array\<close>s.  The links \<open>_next\<close>, \<open>_prev\<close>,
  the two ends \<open>_first\<close>, \<open>_last\<close> and the counter are the fields of the record.
\<close>

record fixed_stack =
  fs_next :: "int list"
  fs_prev :: "int list"
  fs_first :: jsnum
  fs_last :: jsnum
  fs_count :: int
  fs_capacity :: int

text \<open>One turn of the second loop of the constructor: slot \<open>i\<close> is appended.\<close>

definition fs_init_step :: "fixed_stack \<Rightarrow> nat \<Rightarrow> fixed_stack" where
  "fs_init_step s i =
     (let l = fs_last s;
          s1 = s\<lparr>fs_prev := wrn (fs_prev s) (Some (int i)) l, fs_last := Some (int i)\<rparr>
      in if fs_first s1 = Some (-1) then s1\<lparr>fs_first := Some (int i)\<rparr>
         else s1\<lparr>fs_next := wr (fs_next s1) l (int i)\<rparr>)"

definition newFixedStack :: "nat \<Rightarrow> fixed_stack" where
  "newFixedStack capacity =
     (let s0 = \<lparr>fs_next = replicate capacity (-1), fs_prev = replicate capacity (-1),
                fs_first = Some (-1), fs_last = Some (-1), fs_count = 0,
                fs_capacity = int capacity\<rparr>
      in (foldl fs_init_step s0 [0..<capacity])\<lparr>fs_count := int capacity\<rparr>)"

definition enqueue :: "fixed_stack \<Rightarrow> int \<Rightarrow> bool \<times> fixed_stack" where
  "enqueue s index =
     (if fs_count s \<ge> fs_capacity s then (False, s)
      else if fs_first s = Some index \<or> fs_last s = Some index then (False, s)
      else if rd (fs_prev s) (Some index) \<noteq> Some (-1) \<or> rd (fs_next s) (Some index) \<noteq> Some (-1)
        then (False, s)
      else
        let l = fs_last s;
            s1 = s\<lparr>fs_prev := wrn (fs_prev s) (Some index) l, fs_last := Some index\<rparr>;
            s2 = (if fs_first s1 = Some (-1) then s1\<lparr>fs_first := Some index\<rparr>
                  else s1\<lparr>fs_next := wr (fs_next s1) l index\<rparr>)
        in (True, s2\<lparr>fs_count := fs_count s2 + 1\<rparr>))"

definition dequeueTail :: "fixed_stack \<Rightarrow> jsnum \<times> fixed_stack" where
  "dequeueTail s =
     (let f = fs_first s in
      if f = Some (-1) then (Some (-1), s)
      else
        let n = rd (fs_next s) f;
            s1 = s\<lparr>fs_next := wr (fs_next s) f (-1), fs_prev := wr (fs_prev s) f (-1),
                   fs_first := n\<rparr>;
            s2 = (if n = Some (-1) then s1\<lparr>fs_last := Some (-1)\<rparr>
                  else s1\<lparr>fs_prev := wr (fs_prev s1) n (-1)\<rparr>)
        in (f, s2\<lparr>fs_count := fs_count s2 - 1\<rparr>))"

definition dequeue :: "fixed_stack \<Rightarrow> int \<Rightarrow> bool \<times> fixed_stack" where
  "dequeue s index =
     (let p = rd (fs_prev s) (Some index); n = rd (fs_next s) (Some index) in
      if p = Some (-1) \<and> n = Some (-1) then (False, s)
      else if p = Some (-1) then
        (let f = fs_first s in
         if f = Some (-1) then (False, s)
         else
           let n2 = rd (fs_next s) f;
               s1 = s\<lparr>fs_next := wr (fs_next s) f (-1), fs_prev := wr (fs_prev s) f (-1),
                      fs_first := n2\<rparr>;
               s2 = (if n2 = Some (-1) then s1\<lparr>fs_last := Some (-1)\<rparr>
                     else s1\<lparr>fs_prev := wr (fs_prev s1) n2 (-1)\<rparr>)
           in (True, s2\<lparr>fs_count := fs_count s2 - 1\<rparr>))
      else if n = Some (-1) then
        (let l = fs_last s in
         if l = Some (-1) then (False, s)
         else
           let p2 = rd (fs_prev s) l;
               s1 = s\<lparr>fs_prev := wr (fs_prev s) l (-1), fs_next := wr (fs_next s) l (-1),
                      fs_last := p2\<rparr>;
               s2 = (if p2 = Some (-1) then s1\<lparr>fs_first := Some (-1)\<rparr>
                     else s1\<lparr>fs_next := wr (fs_next s1) p2 (-1)\<rparr>)
           in (True, s2\<lparr>fs_count := fs_count s2 - 1\<rparr>))
      else
        (let s1 = s\<lparr>fs_next := wrn (fs_next s) p n\<rparr>;
             s2 = s1\<lparr>fs_prev := wrn (fs_prev s1) n p\<rparr>;
             s3 = s2\<lparr>fs_prev := wr (fs_prev s2) (Some index) (-1)\<rparr>;
             s4 = s3\<lparr>fs_next := wr (fs_next s3) (Some index) (-1)\<rparr>
         in (True, s4\<lparr>fs_count := fs_count s4 - 1\<rparr>)))"

definition fs_size :: "fixed_stack \<Rightarrow> int" where
  "fs_size s = fs_count s"

subsection \<open>Abstraction to a list of slots\<close>

text \<open>
  \<open>fs_rel s xs\<close>: the queue \<open>s\<close> holds the slots \<open>xs\<close>, oldest first.  Forward links from
  \<open>_first\<close> visit \<open>xs\<close>, backward links from \<open>_last\<close> visit it in reverse, the slots outside
  the queue have both links cleared, and the counter is the length.
\<close>

definition fs_rel :: "fixed_stack \<Rightarrow> nat list \<Rightarrow> bool" where
  "fs_rel s xs \<longleftrightarrow>
     length (fs_prev s) = length (fs_next s) \<and>
     fs_capacity s = int (length (fs_next s)) \<and>
     fs_count s = int (length xs) \<and>
     (\<exists>f l. fs_first s = Some f \<and> fs_last s = Some l \<and>
        path (fs_next s) f xs (-1) \<and> path (fs_prev s) l (rev xs) (-1)) \<and>
     (\<forall>i < length (fs_next s). i \<notin> set xs \<longrightarrow> fs_next s ! i = -1 \<and> fs_prev s ! i = -1)"

lemma fs_relI:
  assumes "length (fs_prev s) = length (fs_next s)" "fs_capacity s = int (length (fs_next s))"
    and "fs_count s = int (length xs)" "fs_first s = Some f" "fs_last s = Some l"
    and "path (fs_next s) f xs (-1)" "path (fs_prev s) l (rev xs) (-1)"
    and "\<And>i. i < length (fs_next s) \<Longrightarrow> i \<notin> set xs \<Longrightarrow> fs_next s ! i = -1 \<and> fs_prev s ! i = -1"
  shows "fs_rel s xs"
  using assms by (auto simp: fs_rel_def)

lemma fs_relE:
  assumes "fs_rel s xs"
  obtains f l where "length (fs_prev s) = length (fs_next s)"
    "fs_capacity s = int (length (fs_next s))" "fs_count s = int (length xs)"
    "fs_first s = Some f" "fs_last s = Some l"
    "path (fs_next s) f xs (-1)" "path (fs_prev s) l (rev xs) (-1)"
    "\<And>i. i < length (fs_next s) \<Longrightarrow> i \<notin> set xs \<Longrightarrow> fs_next s ! i = -1 \<and> fs_prev s ! i = -1"
    "distinct xs" "\<And>i. i \<in> set xs \<Longrightarrow> i < length (fs_next s)"
proof -
  from assms obtain f l where *: "fs_first s = Some f" "fs_last s = Some l"
    "path (fs_next s) f xs (-1)" "path (fs_prev s) l (rev xs) (-1)"
    by (auto simp: fs_rel_def)
  have "distinct xs" "\<And>i. i \<in> set xs \<Longrightarrow> i < length (fs_next s)"
    using *(3) by (auto intro: path_distinct dest: path_bound)
  with * assms show ?thesis by (intro that [of f l]) (auto simp: fs_rel_def)
qed

lemma fs_rel_unique: "fs_rel s xs \<Longrightarrow> fs_rel s ys \<Longrightarrow> xs = ys"
  by (auto simp: fs_rel_def dest: path_unique)

lemma fs_rel_cong:
  "fs_rel t xs \<Longrightarrow> fs_next s = fs_next t \<Longrightarrow> fs_prev s = fs_prev t \<Longrightarrow> fs_first s = fs_first t \<Longrightarrow>
   fs_last s = fs_last t \<Longrightarrow> fs_count s = fs_count t \<Longrightarrow> fs_capacity s = fs_capacity t \<Longrightarrow> fs_rel s xs"
  by (simp add: fs_rel_def)

lemma fs_rel_distinct: "fs_rel s xs \<Longrightarrow> distinct xs"
  by (auto elim: fs_relE)

lemma fs_rel_bound: "fs_rel s xs \<Longrightarrow> i \<in> set xs \<Longrightarrow> i < length (fs_next s)"
  by (auto elim: fs_relE)

lemma fs_rel_length: "fs_rel s xs \<Longrightarrow> length xs \<le> length (fs_next s)"
proof -
  assume r: "fs_rel s xs"
  then have "set xs \<subseteq> {..< length (fs_next s)}" by (auto dest: fs_rel_bound)
  then have "card (set xs) \<le> card {..< length (fs_next s)}" by (intro card_mono) auto
  with r show ?thesis by (simp add: distinct_card fs_rel_distinct)
qed

lemma fs_rel_full:
  assumes "fs_rel s xs" "length xs = length (fs_next s)" "i < length (fs_next s)"
  shows "i \<in> set xs"
proof -
  have "set xs \<subseteq> {..< length (fs_next s)}" using assms(1) by (auto dest: fs_rel_bound)
  moreover have "card (set xs) = length (fs_next s)"
    using assms by (simp add: distinct_card fs_rel_distinct)
  ultimately have "set xs = {..< length (fs_next s)}"
    by (intro card_subset_eq) auto
  with assms show ?thesis by auto
qed

text \<open>The ends of the queue, read off the abstraction.\<close>

lemma fs_first_eq: "fs_rel s xs \<Longrightarrow> fs_first s = Some (case xs of [] \<Rightarrow> -1 | x # _ \<Rightarrow> int x)"
  by (auto elim!: fs_relE split: list.splits)

lemma fs_last_eq: "fs_rel s xs \<Longrightarrow> fs_last s = Some (if xs = [] then -1 else int (last xs))"
  by (cases xs rule: rev_cases) (auto elim!: fs_relE)

lemma path_last: "path nx i (xs @ [x]) (-1) \<Longrightarrow> nx ! x = -1"
  by (auto simp: path_append)

lemma path_snoc_bound: "path nx i (xs @ [x]) j \<Longrightarrow> x < length nx"
  by (auto simp: path_append)

lemma path_snoc_update:
  assumes "path nx i xs (-1)" "l = (if xs = [] then i else int (last xs))" "distinct xs"
    and "x < length nx" "x \<notin> set xs" "nx ! x = -1" "i = -1 \<longleftrightarrow> xs = []"
  shows "path (if xs = [] then nx else nx[last xs := int x])
           (if xs = [] then int x else i) (xs @ [x]) (-1)"
proof (cases xs rule: rev_cases)
  case Nil
  with assms show ?thesis by simp
next
  case (snoc ys y)
  with assms have "path nx i ys (int y)" "y < length nx" "y \<notin> set ys" "x \<noteq> y"
    by (auto simp: path_append)
  with snoc assms show ?thesis
    by (simp add: path_append path_update)
qed

subsection \<open>Each operation refines the list operation\<close>

lemma rd_in: "i < length a \<Longrightarrow> rd a (Some (int i)) = Some (a ! i)"
  by simp

lemma rd_out: "\<not> (0 \<le> i \<and> i < int (length a)) \<Longrightarrow> rd a (Some i) = None"
  by (auto simp: rd_def)

lemma enqueue_member:
  assumes r: "fs_rel s xs" and i: "i \<in> set xs"
  shows "enqueue s (int i) = (False, s)"
proof -
  obtain us vs where xs: "xs = us @ i # vs" using i by (meson split_list)
  show ?thesis
  proof (cases us rule: rev_cases)
    case Nil
    then show ?thesis using r xs by (simp add: enqueue_def fs_first_eq)
  next
    case (snoc us' u)
    with r xs have "fs_prev s ! i = int u" "i < length (fs_prev s)"
      by (auto elim!: fs_relE simp: path_append)
    then show ?thesis by (simp add: enqueue_def)
  qed
qed

lemma enqueue_outside:
  assumes r: "fs_rel s xs" and i: "\<not> (0 \<le> i \<and> i < int (length (fs_next s)))"
  shows "enqueue s i = (False, s)"
  using i by (simp add: enqueue_def rd_out)

lemma enqueue_fresh:
  assumes r: "fs_rel s xs" and i: "i < length (fs_next s)" "i \<notin> set xs"
  shows "\<exists>s'. enqueue s (int i) = (True, s') \<and> fs_rel s' (xs @ [i])
           \<and> fs_capacity s' = fs_capacity s \<and> length (fs_next s') = length (fs_next s)"
proof -
  from r obtain f l where R: "length (fs_prev s) = length (fs_next s)"
    "fs_capacity s = int (length (fs_next s))" "fs_count s = int (length xs)"
    "fs_first s = Some f" "fs_last s = Some l"
    "path (fs_next s) f xs (-1)" "path (fs_prev s) l (rev xs) (-1)"
    "\<And>i. i < length (fs_next s) \<Longrightarrow> i \<notin> set xs \<Longrightarrow> fs_next s ! i = -1 \<and> fs_prev s ! i = -1"
    "distinct xs" "\<And>i. i \<in> set xs \<Longrightarrow> i < length (fs_next s)" by (rule fs_relE) blast
  have f: "f = (case xs of [] \<Rightarrow> -1 | x # _ \<Rightarrow> int x)" using fs_first_eq [OF r] R by simp
  have l: "l = (if xs = [] then -1 else int (last xs))" using fs_last_eq [OF r] R by simp
  have cap: "length xs < length (fs_next s)"
    using fs_rel_length [OF r] fs_rel_full [OF r] i by fastforce
  have ends: "f \<noteq> int i" "l \<noteq> int i" using f l i by (auto split: list.splits)
  have fm: "f = -1 \<longleftrightarrow> xs = []" using f by (auto split: list.splits)
  let ?nx = "if xs = [] then fs_next s else (fs_next s)[last xs := int i]"
  have lx: "xs \<noteq> [] \<Longrightarrow> last xs < length (fs_next s)" using R(10) by simp
  have lastin: "last xs \<noteq> j" if "xs \<noteq> []" "j \<notin> set xs" for j using that by auto
  define s' where "s' = s\<lparr>fs_next := ?nx, fs_prev := (fs_prev s)[i := l],
    fs_first := Some (if xs = [] then int i else f), fs_last := Some (int i),
    fs_count := fs_count s + 1\<rparr>"
  have "enqueue s (int i) = (True, s')"
    using R i cap ends fm lx by (auto simp: enqueue_def s'_def Let_def l)
  moreover have "fs_rel s' (xs @ [i])"
  proof (rule fs_relI [where f = "if xs = [] then int i else f" and l = "int i"])
    show "path (fs_next s') (if xs = [] then int i else f) (xs @ [i]) (-1)"
      using path_snoc_update [of "fs_next s" f xs "if xs = [] then f else int (last xs)" i] R i fm
      by (simp add: s'_def)
    show "path (fs_prev s') (int i) (rev (xs @ [i])) (-1)"
      using R i by (simp add: s'_def path_update)
  qed (use R i lx lastin in \<open>auto simp: s'_def split: if_splits\<close>)
  ultimately show ?thesis by (auto simp: s'_def)
qed

lemma dequeueTail_Nil: "fs_rel s [] \<Longrightarrow> dequeueTail s = (Some (-1), s)"
  by (simp add: dequeueTail_def fs_first_eq)

lemma fs_rel_tl:
  assumes r: "fs_rel s (x # xs)"
  defines "n \<equiv> (case xs of [] \<Rightarrow> -1 | y # _ \<Rightarrow> int y)"
  shows "fs_rel (s\<lparr>fs_next := (fs_next s)[x := -1],
            fs_prev := (if xs = [] then (fs_prev s)[x := -1] else (fs_prev s)[x := -1, hd xs := -1]),
            fs_first := Some n, fs_last := (if xs = [] then Some (-1) else fs_last s),
            fs_count := fs_count s - 1\<rparr>) xs"
    and "rd (fs_next s) (Some (int x)) = Some n"
proof -
  from r obtain f l where R: "length (fs_prev s) = length (fs_next s)"
    "fs_capacity s = int (length (fs_next s))" "fs_count s = int (length (x # xs))"
    "fs_first s = Some f" "fs_last s = Some l"
    "path (fs_next s) f (x # xs) (-1)" "path (fs_prev s) l (rev (x # xs)) (-1)"
    "\<And>i. i < length (fs_next s) \<Longrightarrow> i \<notin> set (x # xs) \<Longrightarrow> fs_next s ! i = -1 \<and> fs_prev s ! i = -1"
    "distinct (x # xs)" "\<And>i. i \<in> set (x # xs) \<Longrightarrow> i < length (fs_next s)" by (rule fs_relE) blast
  have nx: "fs_next s ! x = n" using R by (cases xs) (auto simp: n_def)
  then show "rd (fs_next s) (Some (int x)) = Some n" using R by simp
  show "fs_rel (s\<lparr>fs_next := (fs_next s)[x := -1],
            fs_prev := (if xs = [] then (fs_prev s)[x := -1] else (fs_prev s)[x := -1, hd xs := -1]),
            fs_first := Some n, fs_last := (if xs = [] then Some (-1) else fs_last s),
            fs_count := fs_count s - 1\<rparr>) xs"
  proof (cases xs)
    case Nil
    then show ?thesis using R nx
      by (intro fs_relI [where f = n and l = "-1"]) (auto simp: n_def nth_list_update)
  next
    case (Cons y ys)
    have "path (fs_prev s) l (rev ys) (int y)"
      using R Cons by (auto simp: path_append)
    then have "path ((fs_prev s)[x := -1, y := -1]) l (rev ys @ [y]) (-1)"
      using R Cons by (auto simp: path_append path_update)
    then show ?thesis using R nx Cons
      by (intro fs_relI [where f = n and l = l]) (auto simp: n_def nth_list_update path_update)
  qed
qed

lemma dequeueTail_Cons:
  assumes r: "fs_rel s (x # xs)"
  shows "\<exists>s'. dequeueTail s = (Some (int x), s') \<and> fs_rel s' xs
           \<and> fs_capacity s' = fs_capacity s \<and> length (fs_next s') = length (fs_next s)"
proof -
  have x: "x < length (fs_next s)" "length (fs_prev s) = length (fs_next s)"
    "fs_first s = Some (int x)" "xs \<noteq> [] \<Longrightarrow> hd xs < length (fs_next s)"
    using r by (auto elim!: fs_relE)
  note t = fs_rel_tl [OF r]
  show ?thesis
  proof (cases xs)
    case Nil
    with t x show ?thesis
      by (auto simp: dequeueTail_def Let_def intro: fs_rel_cong [OF t(1) [unfolded Nil]])
  next
    case (Cons y ys)
    with t x show ?thesis
      by (auto simp: dequeueTail_def Let_def intro: fs_rel_cong [OF t(1) [unfolded Cons]])
  qed
qed

lemma path_rev_hd:
  "path nx i (xs @ y # ys) (-1) \<Longrightarrow> nx ! y = (case ys of [] \<Rightarrow> -1 | z # _ \<Rightarrow> int z) \<and> y < length nx"
  by (auto simp: path_append split: list.splits)

lemma fs_links:
  assumes r: "fs_rel s (us @ i # vs)"
  shows "rd (fs_prev s) (Some (int i)) = Some (if us = [] then -1 else int (last us))"
    and "rd (fs_next s) (Some (int i)) = Some (case vs of [] \<Rightarrow> -1 | v # _ \<Rightarrow> int v)"
proof -
  from r obtain f l where n: "path (fs_next s) f (us @ i # vs) (-1)"
    and p: "path (fs_prev s) l (rev vs @ i # rev us) (-1)" by (auto simp: fs_rel_def)
  from path_rev_hd [OF n] show "rd (fs_next s) (Some (int i)) = Some (case vs of [] \<Rightarrow> -1 | v # _ \<Rightarrow> int v)"
    by simp
  from path_rev_hd [OF p] show "rd (fs_prev s) (Some (int i)) = Some (if us = [] then -1 else int (last us))"
    by (cases us rule: rev_cases) simp_all
qed

lemma dequeue_single: "fs_rel s [i] \<Longrightarrow> dequeue s (int i) = (False, s)"
  using fs_links [of s "[]" i "[]"] by (simp add: dequeue_def)

lemma dequeue_fresh: "fs_rel s xs \<Longrightarrow> i < length (fs_next s) \<Longrightarrow> i \<notin> set xs \<Longrightarrow> dequeue s (int i) = (False, s)"
  by (auto simp: dequeue_def elim!: fs_relE)

text \<open>A slot outside the arrays: nothing is removed and yet the counter goes down.\<close>

lemma dequeue_outside:
  "fs_rel s xs \<Longrightarrow> \<not> (0 \<le> i \<and> i < int (length (fs_next s))) \<Longrightarrow>
   dequeue s i = (True, s\<lparr>fs_count := fs_count s - 1\<rparr>)"
  by (auto simp: dequeue_def rd_out wrn_def wr_def Let_def elim!: fs_relE)

lemma dequeue_first:
  assumes r: "fs_rel s (x # y # ys)"
  shows "\<exists>s'. dequeue s (int x) = (True, s') \<and> fs_rel s' (y # ys)
           \<and> fs_capacity s' = fs_capacity s \<and> length (fs_next s') = length (fs_next s)"
proof -
  have x: "x < length (fs_next s)" "length (fs_prev s) = length (fs_next s)"
    "fs_first s = Some (int x)" "y < length (fs_next s)"
    using r by (auto elim!: fs_relE)
  note l = fs_links [of s "[]" x "y # ys"]
  note t = fs_rel_tl [OF r]
  from r t x l show ?thesis
    by (auto simp: dequeue_def Let_def intro: fs_rel_cong [OF t(1)])
qed

lemma fs_rel_butlast:
  assumes r: "fs_rel s (xs @ [y, x])"
  shows "fs_rel (s\<lparr>fs_prev := (fs_prev s)[x := -1], fs_next := (fs_next s)[x := -1, y := -1],
            fs_last := Some (int y), fs_count := fs_count s - 1\<rparr>) (xs @ [y])"
proof -
  from r obtain f l where R: "length (fs_prev s) = length (fs_next s)"
    "fs_capacity s = int (length (fs_next s))" "fs_count s = int (length (xs @ [y, x]))"
    "fs_first s = Some f" "fs_last s = Some l"
    "path (fs_next s) f (xs @ [y, x]) (-1)" "path (fs_prev s) l (rev (xs @ [y, x])) (-1)"
    "\<And>i. i < length (fs_next s) \<Longrightarrow> i \<notin> set (xs @ [y, x]) \<Longrightarrow> fs_next s ! i = -1 \<and> fs_prev s ! i = -1"
    "distinct (xs @ [y, x])" "\<And>i. i \<in> set (xs @ [y, x]) \<Longrightarrow> i < length (fs_next s)"
    by (rule fs_relE) blast
  then show ?thesis
    by (intro fs_relI [where f = f and l = "int y"])
       (auto simp: path_append path_update nth_list_update)
qed

lemma dequeue_last:
  assumes r: "fs_rel s (xs @ [y, x])"
  shows "\<exists>s'. dequeue s (int x) = (True, s') \<and> fs_rel s' (xs @ [y])
           \<and> fs_capacity s' = fs_capacity s \<and> length (fs_next s') = length (fs_next s)"
proof -
  have x: "x < length (fs_next s)" "length (fs_prev s) = length (fs_next s)"
    "fs_last s = Some (int x)" "y < length (fs_next s)"
    using r by (auto elim!: fs_relE)
  note l = fs_links [of s "xs @ [y]" x "[]"]
  note t = fs_rel_butlast [OF r]
  from r t x l show ?thesis
    by (auto simp: dequeue_def Let_def intro: fs_rel_cong [OF t])
qed

lemma fs_rel_mid:
  assumes r: "fs_rel s ((us @ [p]) @ x # n # vs)"
  shows "fs_rel (s\<lparr>fs_next := (fs_next s)[p := int n, x := -1],
            fs_prev := (fs_prev s)[n := int p, x := -1],
            fs_count := fs_count s - 1\<rparr>) (us @ p # n # vs)"
proof -
  from r obtain f l where R: "length (fs_prev s) = length (fs_next s)"
    "fs_capacity s = int (length (fs_next s))" "fs_count s = int (length (us @ p # x # n # vs))"
    "fs_first s = Some f" "fs_last s = Some l"
    "path (fs_next s) f (us @ p # x # n # vs) (-1)" "path (fs_prev s) l (rev (us @ p # x # n # vs)) (-1)"
    "\<And>i. i < length (fs_next s) \<Longrightarrow> i \<notin> set (us @ p # x # n # vs) \<Longrightarrow> fs_next s ! i = -1 \<and> fs_prev s ! i = -1"
    "distinct (us @ p # x # n # vs)" "\<And>i. i \<in> set (us @ p # x # n # vs) \<Longrightarrow> i < length (fs_next s)"
    by (auto elim!: fs_relE)
  then show ?thesis
    by (intro fs_relI [where f = f and l = l])
       (auto simp: path_append path_update nth_list_update)
qed

lemma dequeue_mid:
  assumes r: "fs_rel s ((us @ [p]) @ x # n # vs)"
  shows "\<exists>s'. dequeue s (int x) = (True, s') \<and> fs_rel s' (us @ p # n # vs)
           \<and> fs_capacity s' = fs_capacity s \<and> length (fs_next s') = length (fs_next s)"
proof -
  have x: "x < length (fs_next s)" "length (fs_prev s) = length (fs_next s)"
    "p < length (fs_next s)" "n < length (fs_next s)"
    using r by (auto elim!: fs_relE)
  note l = fs_links [OF r]
  note t = fs_rel_mid [OF r]
  from r t x l show ?thesis
    by (auto simp: dequeue_def Let_def intro: fs_rel_cong [OF t])
qed

lemma dequeue_member:
  assumes r: "fs_rel s xs" and i: "i \<in> set xs" and n: "length xs \<noteq> 1"
  shows "\<exists>s'. dequeue s (int i) = (True, s') \<and> fs_rel s' (remove1 i xs)
           \<and> fs_capacity s' = fs_capacity s \<and> length (fs_next s') = length (fs_next s)"
proof -
  obtain us vs where xs: "xs = us @ i # vs" and u: "i \<notin> set us" using i by (meson split_list_first)
  then have rm: "remove1 i xs = us @ vs" by (simp add: remove1_append)
  show ?thesis
  proof (cases us rule: rev_cases)
    case Nil
    with xs n obtain v vs' where "vs = v # vs'" by (cases vs) auto
    with dequeue_first [of s i v vs'] r xs rm Nil show ?thesis by simp
  next
    case us: (snoc us' p)
    show ?thesis
    proof (cases vs)
      case Nil
      with dequeue_last [of s us' p i] r xs rm us show ?thesis by simp
    next
      case (Cons v vs')
      with dequeue_mid [of s us' p i v vs'] r xs rm us show ?thesis by simp
    qed
  qed
qed

subsection \<open>The constructor\<close>

lemma enqueue_step:
  assumes "fs_count s < fs_capacity s" "fs_first s \<noteq> Some (int i)" "fs_last s \<noteq> Some (int i)"
    and "rd (fs_prev s) (Some (int i)) = Some (-1)" "rd (fs_next s) (Some (int i)) = Some (-1)"
  shows "enqueue s (int i) = (True, (fs_init_step s i)\<lparr>fs_count := fs_count s + 1\<rparr>)"
  using assms by (auto simp: enqueue_def fs_init_step_def Let_def)

lemma fs_init_step_count: "fs_init_step (s\<lparr>fs_count := c\<rparr>) i = (fs_init_step s i)\<lparr>fs_count := c\<rparr>"
  by (auto simp: fs_init_step_def Let_def)

lemma fs_rel_init_step:
  assumes r: "fs_rel s xs" and i: "i < length (fs_next s)" "i \<notin> set xs"
  shows "fs_rel ((fs_init_step s i)\<lparr>fs_count := fs_count s + 1\<rparr>) (xs @ [i])
       \<and> length (fs_next (fs_init_step s i)) = length (fs_next s)"
proof -
  obtain s' where e: "enqueue s (int i) = (True, s')" and s': "fs_rel s' (xs @ [i])"
    "length (fs_next s') = length (fs_next s)"
    using enqueue_fresh [OF assms] by blast
  have "fs_count s < fs_capacity s" "fs_first s \<noteq> Some (int i)" "fs_last s \<noteq> Some (int i)"
    "rd (fs_prev s) (Some (int i)) = Some (-1)" "rd (fs_next s) (Some (int i)) = Some (-1)"
    using e by (auto simp: enqueue_def split: if_splits)
  from enqueue_step [OF this] e s' show ?thesis by (auto simp: fs_init_step_def Let_def)
qed

lemma fs_init_loop:
  assumes "k \<le> n"
  shows "fs_rel ((foldl fs_init_step
            \<lparr>fs_next = replicate n (-1), fs_prev = replicate n (-1), fs_first = Some (-1),
             fs_last = Some (-1), fs_count = 0, fs_capacity = int n\<rparr> [0..<k])\<lparr>fs_count := int k\<rparr>) [0..<k]
       \<and> length (fs_next (foldl fs_init_step
            \<lparr>fs_next = replicate n (-1), fs_prev = replicate n (-1), fs_first = Some (-1),
             fs_last = Some (-1), fs_count = 0, fs_capacity = int n\<rparr> [0..<k])) = n"
    (is "fs_rel ((?loop k)\<lparr>fs_count := int k\<rparr>) [0..<k] \<and> length (fs_next (?loop k)) = n")
  using assms
proof (induction k)
  case 0
  show ?case by (auto intro: fs_relI)
next
  case (Suc k)
  then have IH: "fs_rel ((?loop k)\<lparr>fs_count := int k\<rparr>) [0..<k]" "length (fs_next (?loop k)) = n"
    by simp_all
  with Suc.prems fs_rel_init_step [OF IH(1), of k] show ?case
    by (simp add: fs_init_step_count algebra_simps)
qed

lemma fs_rel_new: "fs_rel (newFixedStack n) [0..<n] \<and> length (fs_next (newFixedStack n)) = n"
  using fs_init_loop [of n n] by (simp add: newFixedStack_def Let_def)

subsection \<open>The queue interface the chunk space relies on\<close>

text \<open>
  \<open>rel q xs\<close>: the queue \<open>q\<close> holds \<open>xs\<close>.  A queue of at most \<open>cap q\<close> slots; the laws say
  what the three operations do on every argument below \<open>cap q\<close>.  A queue with exactly one
  element refuses to give it up by name (\<open>deq_only\<close>), as the code does.
\<close>

locale lru_queue =
  fixes rel :: "'q \<Rightarrow> nat list \<Rightarrow> bool"
    and cap :: "'q \<Rightarrow> nat"
    and enq :: "'q \<Rightarrow> int \<Rightarrow> bool \<times> 'q"
    and deq_tail :: "'q \<Rightarrow> jsnum \<times> 'q"
    and deq :: "'q \<Rightarrow> int \<Rightarrow> bool \<times> 'q"
  assumes rel_unique: "rel q xs \<Longrightarrow> rel q ys \<Longrightarrow> xs = ys"
    and rel_distinct: "rel q xs \<Longrightarrow> distinct xs"
    and rel_bound: "rel q xs \<Longrightarrow> i \<in> set xs \<Longrightarrow> i < cap q"
    and enq_fresh: "rel q xs \<Longrightarrow> i < cap q \<Longrightarrow> i \<notin> set xs \<Longrightarrow>
        \<exists>q'. enq q (int i) = (True, q') \<and> rel q' (xs @ [i]) \<and> cap q' = cap q"
    and enq_member: "rel q xs \<Longrightarrow> i \<in> set xs \<Longrightarrow> enq q (int i) = (False, q)"
    and deq_tail_empty: "rel q [] \<Longrightarrow> deq_tail q = (Some (-1), q)"
    and deq_tail_oldest: "rel q (x # xs) \<Longrightarrow>
        \<exists>q'. deq_tail q = (Some (int x), q') \<and> rel q' xs \<and> cap q' = cap q"
    and deq_member: "rel q xs \<Longrightarrow> i \<in> set xs \<Longrightarrow> length xs \<noteq> 1 \<Longrightarrow>
        \<exists>q'. deq q (int i) = (True, q') \<and> rel q' (remove1 i xs) \<and> cap q' = cap q"
    and deq_only: "rel q [i] \<Longrightarrow> deq q (int i) = (False, q)"
    and deq_fresh: "rel q xs \<Longrightarrow> i < cap q \<Longrightarrow> i \<notin> set xs \<Longrightarrow> deq q (int i) = (False, q)"
begin

text \<open>Taking a slot by name and handing it back makes it the youngest.\<close>

lemma touch:
  assumes "rel q xs" "i \<in> set xs" "length xs \<noteq> 1"
  shows "\<exists>q1 q2. deq q (int i) = (True, q1) \<and> enq q1 (int i) = (True, q2)
           \<and> rel q2 (remove1 i xs @ [i]) \<and> cap q2 = cap q"
proof -
  obtain q1 where q1: "deq q (int i) = (True, q1)" "rel q1 (remove1 i xs)" "cap q1 = cap q"
    using deq_member [OF assms] by blast
  moreover have "i < cap q1" "i \<notin> set (remove1 i xs)"
    using assms rel_bound rel_distinct [OF assms(1)] q1(3) by auto
  ultimately show ?thesis using enq_fresh by metis
qed

text \<open>A queue gives up a slot by name only when it holds it and another one besides.\<close>

lemma deq_True_iff:
  assumes "rel q xs" "i < cap q"
  shows "fst (deq q (int i)) \<longleftrightarrow> i \<in> set xs \<and> xs \<noteq> [i]"
proof (cases "i \<in> set xs")
  case True
  then have "length xs = 1 \<longleftrightarrow> xs = [i]" by (cases xs) auto
  then show ?thesis using True assms deq_member [of q xs i] deq_only [of q i] by auto
next
  case False
  then show ?thesis using assms deq_fresh by simp
qed

lemma deq_tail_rel:
  assumes "rel q xs"
  shows "rel (snd (deq_tail q)) (tl xs) \<and> cap (snd (deq_tail q)) = cap q
       \<and> fst (deq_tail q) = Some (case xs of [] \<Rightarrow> -1 | x # _ \<Rightarrow> int x)"
  using assms deq_tail_empty [of q] deq_tail_oldest [of q] by (cases xs) fastforce+

lemma enq_rel:
  assumes "rel q xs" "i < cap q"
  shows "rel (snd (enq q (int i))) (if i \<in> set xs then xs else xs @ [i])
       \<and> cap (snd (enq q (int i))) = cap q \<and> (fst (enq q (int i)) \<longleftrightarrow> i \<notin> set xs)"
  using assms enq_fresh [of q xs i] enq_member [of q xs i] by auto

lemma deq_rel:
  assumes "rel q xs" "i < cap q"
  shows "rel (snd (deq q (int i))) (if i \<in> set xs \<and> xs \<noteq> [i] then remove1 i xs else xs)
       \<and> cap (snd (deq q (int i))) = cap q"
proof (cases "i \<in> set xs")
  case True
  then have "length xs = 1 \<longleftrightarrow> xs = [i]" by (cases xs) auto
  then show ?thesis using True assms deq_member [of q xs i] deq_only [of q i] by auto
next
  case False
  then show ?thesis using assms deq_fresh by simp
qed

end

interpretation lru: lru_queue fs_rel "\<lambda>s. length (fs_next s)" enqueue dequeueTail dequeue
proof (unfold_locales, goal_cases)
  case (4 q xs i) then show ?case using enqueue_fresh by blast
next
  case (7 q x xs) then show ?case using dequeueTail_Cons by blast
next
  case (8 q xs i) then show ?case using dequeue_member by blast
qed (auto dest: fs_rel_unique fs_rel_distinct fs_rel_bound enqueue_member dequeueTail_Nil
      dequeue_single dequeue_fresh)

subsection \<open>Runs of operations\<close>

datatype fs_op = Enq nat | DeqTail | Deq nat

fun fs_step :: "fixed_stack \<Rightarrow> fs_op \<Rightarrow> fixed_stack" where
  "fs_step s (Enq i) = snd (enqueue s (int i))"
| "fs_step s DeqTail = snd (dequeueTail s)"
| "fs_step s (Deq i) = snd (dequeue s (int i))"

text \<open>The abstract queue: a list of slots, oldest first.\<close>

fun queue_step :: "nat list \<Rightarrow> fs_op \<Rightarrow> nat list" where
  "queue_step xs (Enq i) = (if i \<in> set xs then xs else xs @ [i])"
| "queue_step xs DeqTail = tl xs"
| "queue_step xs (Deq i) = (if i \<in> set xs \<and> xs \<noteq> [i] then remove1 i xs else xs)"

fun op_in_range :: "nat \<Rightarrow> fs_op \<Rightarrow> bool" where
  "op_in_range n (Enq i) = (i < n)"
| "op_in_range n DeqTail = True"
| "op_in_range n (Deq i) = (i < n)"

lemma fs_step_rel:
  assumes "fs_rel s xs" "op_in_range (length (fs_next s)) op"
  shows "fs_rel (fs_step s op) (queue_step xs op) \<and> length (fs_next (fs_step s op)) = length (fs_next s)"
  using assms by (cases op) (simp_all add: lru.enq_rel lru.deq_rel lru.deq_tail_rel)

lemma fs_run_rel:
  "fs_rel s xs \<Longrightarrow> list_all (op_in_range (length (fs_next s))) ops \<Longrightarrow>
   fs_rel (foldl fs_step s ops) (foldl queue_step xs ops)"
proof (induction ops arbitrary: s xs)
  case (Cons op ops)
  with fs_step_rel [of s xs op] show ?case by simp
qed simp

subsection \<open>Properties\<close>

text \<open>Property C20.
  A stack of capacity \<open>n\<close> that has gone through any sequence of \<open>enqueue\<close>, \<open>dequeueTail\<close>
  and \<open>dequeue\<close> calls on slots below \<open>n\<close> holds exactly the slots that the list
  specification of the queue holds, in the same order, with consistent forward and backward
  links and an exact counter.\<close>

theorem fixedstack_run_refines:
  assumes "list_all (op_in_range n) ops"
  shows "fs_rel (foldl fs_step (newFixedStack n) ops) (foldl queue_step [0..<n] ops)"
  using fs_run_rel [of "newFixedStack n" "[0..<n]" ops] fs_rel_new [of n] assms by simp

theorem fixedstack_run_refines_witness:
  "fs_rel (foldl fs_step (newFixedStack 3) [DeqTail, Deq 2, Enq 0, Enq 0])
     (foldl queue_step [0..<3] [DeqTail, Deq 2, Enq 0, Enq 0])
   \<and> foldl queue_step [0..<3] [DeqTail, Deq 2, Enq 0, Enq 0] = [1, 0]"
  using fixedstack_run_refines [of 3 "[DeqTail, Deq 2, Enq 0, Enq 0]"] by (simp add: upt_rec)

text \<open>Further fact.
  \<open>enqueue\<close> on every argument: a slot of the arrays that is not in the queue is appended as
  the youngest and \<open>true\<close> is returned; a slot already in the queue (in particular when the
  queue is full) or an index outside the arrays changes nothing and returns \<open>false\<close>.\<close>

theorem enqueue_spec:
  assumes "fs_rel s xs"
  shows "if 0 \<le> i \<and> i < int (length (fs_next s)) \<and> nat i \<notin> set xs
         then fst (enqueue s i) \<and> fs_rel (snd (enqueue s i)) (xs @ [nat i])
         else enqueue s i = (False, s)"
proof (cases "0 \<le> i \<and> i < int (length (fs_next s))")
  case True
  then obtain k where "i = int k" "k < length (fs_next s)" by (metis zero_le_imp_eq_int of_nat_less_iff)
  with assms show ?thesis
    using lru.enq_fresh [OF assms, of k] lru.enq_member [OF assms, of k] by auto
next
  case False
  with enqueue_outside [OF assms False] show ?thesis by auto
qed

theorem enqueue_spec_witness:
  "fst (enqueue (snd (dequeueTail (newFixedStack 2))) 0)
   \<and> fs_rel (snd (enqueue (snd (dequeueTail (newFixedStack 2))) 0)) [1, 0]"
proof -
  have "[0..<2] = [0, 1::nat]" by (simp add: upt_rec)
  then have r: "fs_rel (snd (dequeueTail (newFixedStack 2))) [1]"
    using lru.deq_tail_rel [of "newFixedStack 2" "[0..<2]"] fs_rel_new [of 2] by simp
  have "length (fs_next (snd (dequeueTail (newFixedStack 2)))) = 2"
    by code_simp
  with enqueue_spec [OF r, of 0] show ?thesis by simp
qed

text \<open>Further fact.
  \<open>dequeue\<close> by slot removes a slot that is in the queue together with another one and
  returns \<open>true\<close>; but the only slot of a queue is never given up: its two links are both
  -1, which the code takes for "not in the queue", so the call returns \<open>false\<close> and changes
  nothing, although \<open>dequeueTail\<close> hands the same slot out.\<close>

theorem dequeue_spec:
  assumes "fs_rel s xs" "i < length (fs_next s)"
  shows "(i \<in> set xs \<and> xs \<noteq> [i] \<longrightarrow>
            fst (dequeue s (int i)) \<and> fs_rel (snd (dequeue s (int i))) (remove1 i xs))
       \<and> (i \<notin> set xs \<longrightarrow> dequeue s (int i) = (False, s))
       \<and> (xs = [i] \<longrightarrow> dequeue s (int i) = (False, s) \<and> fst (dequeueTail s) = Some (int i))"
  using lru.deq_rel [OF assms] lru.deq_True_iff [OF assms] lru.deq_tail_rel [OF assms(1)]
    lru.deq_fresh [OF assms] lru.deq_only [of s i] assms by auto

theorem dequeue_spec_witness:
  "dequeue (newFixedStack 1) 0 = (False, newFixedStack 1)
   \<and> fst (dequeueTail (newFixedStack 1)) = Some 0"
proof -
  have "fs_rel (newFixedStack 1) [0]" "0 < length (fs_next (newFixedStack 1))"
    using fs_rel_new [of 1] by simp_all
  from dequeue_spec [OF this] show ?thesis by simp
qed

end
