(* ===== verification/JsLong.thy ===== *)
theory JsLong
  imports Prelude "HOL-Library.Log_Nat" "HOL-Library.Monad_Syntax"
begin

text \<open>
  The class \<open>Long\<close> of mwg.js: 64-bit integers as two JavaScript numbers, used by the hash
  functions, the base-64 decoder and the key generator.  JavaScript's numbers are doubles; all
  the numbers of this class are integers, so they are \<open>int\<close> here, with the 32-bit conversions
  of the bitwise operators and the rounding of the double operations written out.  A call that
  does not return (endless recursion or loop) is \<open>None\<close>.

  The two halves of a \<open>Long\<close> are normally signed 32-bit numbers, but \<open>fromBits\<close> stores what
  it is given: \<open>MIN_VALUE\<close>, \<open>MAX_VALUE\<close> and the seeds of the string hash hold halves above
  \<open>2 ^ 31\<close>, which the comparisons see.
\<close>

unbundle bit_operations_syntax

subsection \<open>The 32-bit operators\<close>

definition to_uint32 :: "int \<Rightarrow> int" where
  "to_uint32 x = x mod 2 ^ 32"

definition to_int32 :: "int \<Rightarrow> int" where
  "to_int32 x = (x + 2 ^ 31) mod 2 ^ 32 - 2 ^ 31"

definition js_and :: "int \<Rightarrow> int \<Rightarrow> int" where
  "js_and a b = to_int32 a AND to_int32 b"

definition js_or :: "int \<Rightarrow> int \<Rightarrow> int" where
  "js_or a b = to_int32 a OR to_int32 b"

definition js_xor :: "int \<Rightarrow> int \<Rightarrow> int" where
  "js_xor a b = to_int32 a XOR to_int32 b"

definition js_not :: "int \<Rightarrow> int" where
  "js_not a = NOT (to_int32 a)"

definition js_shl :: "int \<Rightarrow> int \<Rightarrow> int" where
  "js_shl a n = to_int32 (to_int32 a * 2 ^ nat (n mod 32))"

definition js_shr :: "int \<Rightarrow> int \<Rightarrow> int" where
  "js_shr a n = to_int32 a div 2 ^ nat (n mod 32)"

definition js_ushr :: "int \<Rightarrow> int \<Rightarrow> int" where
  "js_ushr a n = to_uint32 a div 2 ^ nat (n mod 32)"

subsection \<open>Doubles\<close>

text \<open>
  \<open>rnd x\<close>: the double nearest to the integer \<open>x\<close> (53 significant bits, ties to even).
\<close>

definition rnd :: "int \<Rightarrow> int" where
  "rnd x =
     (let m = \<bar>x\<bar>; e = nat (bitlen m) - 53; q = m div 2 ^ e; r = 2 * (m mod 2 ^ e);
          q' = (if r > 2 ^ e \<or> (r = 2 ^ e \<and> odd q) then q + 1 else q)
      in sgn x * (q' * 2 ^ e))"

text \<open>
  \<open>fdiv_floor a b\<close>: \<open>Math.floor (a / b)\<close> for positive integer-valued doubles: the quotient
  is scaled to 53 or 54 bits, rounded to 53 bits (ties to even), scaled back and floored.
\<close>

definition fdiv_floor :: "int \<Rightarrow> int \<Rightarrow> int" where
  "fdiv_floor a b =
     (let k0 = 53 + bitlen b - bitlen a;
          k = (if a * 2 ^ nat k0 div (b * 2 ^ nat (- k0)) < 2 ^ 53 then k0 else k0 - 1);
          n = a * 2 ^ nat k; d = b * 2 ^ nat (- k);
          q = n div d; r = 2 * (n mod d);
          q' = (if r > d \<or> (r = d \<and> odd q) then q + 1 else q)
      in q' * 2 ^ nat (- k) div 2 ^ nat k)"

text \<open>
  \<open>Math.ceil (Math.log (x) / Math.LN2)\<close> for a positive integer, without the rounding of the two logarithms, which near a power of
  2 may give one more.  The result only sets the step \<open>delta\<close> of the correction in \<open>divide\<close>.
\<close>

definition ceil_log2 :: "int \<Rightarrow> int" where
  "ceil_log2 x = bitlen (x - 1)"

subsection \<open>Construction\<close>

record long =
  low :: int
  high :: int
  uns :: bool

definition fromBits :: "int \<Rightarrow> int \<Rightarrow> bool \<Rightarrow> long" where
  "fromBits lowBits highBits u = \<lparr>low = lowBits, high = highBits, uns = u\<rparr>"

text \<open>The caches \<open>INT_CACHE\<close>, \<open>UINT_CACHE\<close> only save the allocation of equal objects.\<close>

definition fromInt :: "int \<Rightarrow> bool \<Rightarrow> long" where
  "fromInt value u =
     (if u then let v = to_uint32 value in fromBits v (if to_int32 v < 0 then -1 else 0) True
      else let v = to_int32 value in fromBits v (if v < 0 then -1 else 0) False)"

definition TWO_PWR_24 :: long where "TWO_PWR_24 = fromInt (2 ^ 24) False"
definition ZERO :: long where "ZERO = fromInt 0 False"
definition UZERO :: long where "UZERO = fromInt 0 True"
definition ONE :: long where "ONE = fromInt 1 False"
definition UONE :: long where "UONE = fromInt 1 True"
definition NEG_ONE :: long where "NEG_ONE = fromInt (-1) False"
definition MAX_VALUE :: long where "MAX_VALUE = fromBits 0x7FFFFFFF 0xFFFFFFFF False"
definition MAX_UNSIGNED_VALUE :: long where
  "MAX_UNSIGNED_VALUE = fromBits 0xFFFFFFFF 0xFFFFFFFF True"
definition MIN_VALUE :: long where "MIN_VALUE = fromBits 0x80000000 0 False"

subsection \<open>Conversions and tests\<close>

definition toInt :: "long \<Rightarrow> int" where
  "toInt l = (if uns l then to_uint32 (low l) else low l)"

definition toNumber :: "long \<Rightarrow> int" where
  "toNumber l = (if uns l then rnd (to_uint32 (high l) * 2 ^ 32 + to_uint32 (low l))
                 else rnd (high l * 2 ^ 32 + to_uint32 (low l)))"

definition getHighBits :: "long \<Rightarrow> int" where "getHighBits l = high l"
definition getHighBitsUnsigned :: "long \<Rightarrow> int" where "getHighBitsUnsigned l = js_ushr (high l) 0"
definition getLowBits :: "long \<Rightarrow> int" where "getLowBits l = low l"
definition getLowBitsUnsigned :: "long \<Rightarrow> int" where "getLowBitsUnsigned l = js_ushr (low l) 0"

definition isZero :: "long \<Rightarrow> bool" where
  "isZero l \<longleftrightarrow> high l = 0 \<and> low l = 0"

definition isNegative :: "long \<Rightarrow> bool" where
  "isNegative l \<longleftrightarrow> \<not> uns l \<and> high l < 0"

definition isPositive :: "long \<Rightarrow> bool" where
  "isPositive l \<longleftrightarrow> uns l \<or> high l \<ge> 0"

definition isOdd :: "long \<Rightarrow> bool" where
  "isOdd l \<longleftrightarrow> js_and (low l) 1 = 1"

definition isEven :: "long \<Rightarrow> bool" where
  "isEven l \<longleftrightarrow> js_and (low l) 1 = 0"

definition equals :: "long \<Rightarrow> long \<Rightarrow> bool" where
  "equals a b =
     (if uns a \<noteq> uns b \<and> js_ushr (high a) 31 = 1 \<and> js_ushr (high b) 31 = 1 then False
      else high a = high b \<and> low a = low b)"

definition notEquals :: "long \<Rightarrow> long \<Rightarrow> bool" where
  "notEquals a b \<longleftrightarrow> \<not> equals a b"

subsection \<open>Bitwise operations and shifts\<close>

definition long_not :: "long \<Rightarrow> long" where
  "long_not a = fromBits (js_not (low a)) (js_not (high a)) (uns a)"

definition long_and :: "long \<Rightarrow> long \<Rightarrow> long" where
  "long_and a b = fromBits (js_and (low a) (low b)) (js_and (high a) (high b)) (uns a)"

definition long_or :: "long \<Rightarrow> long \<Rightarrow> long" where
  "long_or a b = fromBits (js_or (low a) (low b)) (js_or (high a) (high b)) (uns a)"

definition long_xor :: "long \<Rightarrow> long \<Rightarrow> long" where
  "long_xor a b = fromBits (js_xor (low a) (low b)) (js_xor (high a) (high b)) (uns a)"

definition shiftLeft :: "long \<Rightarrow> int \<Rightarrow> long" where
  "shiftLeft a numBits =
     (let n = js_and numBits 63 in
      if n = 0 then a
      else if n < 32 then
        fromBits (js_shl (low a) n) (js_or (js_shl (high a) n) (js_ushr (low a) (32 - n))) (uns a)
      else fromBits 0 (js_shl (low a) (n - 32)) (uns a))"

definition shiftRight :: "long \<Rightarrow> int \<Rightarrow> long" where
  "shiftRight a numBits =
     (let n = js_and numBits 63 in
      if n = 0 then a
      else if n < 32 then
        fromBits (js_or (js_ushr (low a) n) (js_shl (high a) (32 - n))) (js_shr (high a) n) (uns a)
      else fromBits (js_shr (high a) (n - 32)) (if high a \<ge> 0 then 0 else -1) (uns a))"

definition shiftRightUnsigned :: "long \<Rightarrow> int \<Rightarrow> long" where
  "shiftRightUnsigned a numBits =
     (let n = js_and numBits 63 in
      if n = 0 then a
      else if n < 32 then
        fromBits (js_or (js_ushr (low a) n) (js_shl (high a) (32 - n))) (js_ushr (high a) n) (uns a)
      else if n = 32 then fromBits (high a) 0 (uns a)
      else fromBits (js_ushr (high a) (n - 32)) 0 (uns a))"

definition toSigned :: "long \<Rightarrow> long" where
  "toSigned a = (if \<not> uns a then a else fromBits (low a) (high a) False)"

definition toUnsigned :: "long \<Rightarrow> long" where
  "toUnsigned a = (if uns a then a else fromBits (low a) (high a) True)"

subsection \<open>Addition, negation, comparison\<close>

definition add :: "long \<Rightarrow> long \<Rightarrow> long" where
  "add a b =
     (let a48 = js_ushr (high a) 16; a32 = js_and (high a) 0xFFFF;
          a16 = js_ushr (low a) 16; a00 = js_and (low a) 0xFFFF;
          b48 = js_ushr (high b) 16; b32 = js_and (high b) 0xFFFF;
          b16 = js_ushr (low b) 16; b00 = js_and (low b) 0xFFFF;
          c00 = a00 + b00;
          c16 = js_ushr c00 16; c00 = js_and c00 0xFFFF;
          c16 = c16 + (a16 + b16);
          c32 = js_ushr c16 16; c16 = js_and c16 0xFFFF;
          c32 = c32 + (a32 + b32);
          c48 = js_ushr c32 16; c32 = js_and c32 0xFFFF;
          c48 = c48 + (a48 + b48);
          c48 = js_and c48 0xFFFF
      in fromBits (js_or (js_shl c16 16) c00) (js_or (js_shl c48 16) c32) (uns a))"

definition negate :: "long \<Rightarrow> long" where
  "negate a = (if \<not> uns a \<and> equals a MIN_VALUE then MIN_VALUE else add (long_not a) ONE)"

definition subtract :: "long \<Rightarrow> long \<Rightarrow> long" where
  "subtract a b = add a (negate b)"

definition compare :: "long \<Rightarrow> long \<Rightarrow> int" where
  "compare a b =
     (if equals a b then 0
      else if isNegative a \<and> \<not> isNegative b then -1
      else if \<not> isNegative a \<and> isNegative b then 1
      else if \<not> uns a then (if isNegative (subtract a b) then -1 else 1)
      else if js_ushr (high b) 0 > js_ushr (high a) 0
              \<or> (high b = high a \<and> js_ushr (low b) 0 > js_ushr (low a) 0) then -1 else 1)"

definition lessThan :: "long \<Rightarrow> long \<Rightarrow> bool" where
  "lessThan a b \<longleftrightarrow> compare a b < 0"
definition lessThanOrEqual :: "long \<Rightarrow> long \<Rightarrow> bool" where
  "lessThanOrEqual a b \<longleftrightarrow> compare a b \<le> 0"
definition greaterThan :: "long \<Rightarrow> long \<Rightarrow> bool" where
  "greaterThan a b \<longleftrightarrow> compare a b > 0"
definition greaterThanOrEqual :: "long \<Rightarrow> long \<Rightarrow> bool" where
  "greaterThanOrEqual a b \<longleftrightarrow> compare a b \<ge> 0"

function fromNumber :: "int \<Rightarrow> bool \<Rightarrow> long" where
  "fromNumber value u =
     (if u \<and> value < 0 then UZERO
      else if u \<and> value \<ge> 2 ^ 64 then MAX_UNSIGNED_VALUE
      else if \<not> u \<and> value \<le> - (2 ^ 63) then MIN_VALUE
      else if \<not> u \<and> rnd (value + 1) \<ge> 2 ^ 63 then MAX_VALUE
      else if value < 0 then negate (fromNumber (- value) u)
      else fromBits (to_int32 (value mod 2 ^ 32)) (to_int32 (value div 2 ^ 32)) u)"
  by pat_completeness auto
termination
  by (relation "measure (\<lambda>(v, u). if v < 0 then 1 else 0)") auto

declare fromNumber.simps [simp del]

subsection \<open>Multiplication, division, remainder\<close>

text \<open>
  The 4 x 4 product of 16-bit digits, the last part of \<open>multiply\<close>: products that would
  overflow are skipped.
\<close>

definition multiply_digits :: "long \<Rightarrow> long \<Rightarrow> long" where
  "multiply_digits a b =
     (let a48 = js_ushr (high a) 16; a32 = js_and (high a) 0xFFFF;
          a16 = js_ushr (low a) 16; a00 = js_and (low a) 0xFFFF;
          b48 = js_ushr (high b) 16; b32 = js_and (high b) 0xFFFF;
          b16 = js_ushr (low b) 16; b00 = js_and (low b) 0xFFFF;
          c00 = a00 * b00;
          c16 = js_ushr c00 16; c00 = js_and c00 0xFFFF;
          c16 = c16 + a16 * b00;
          c32 = js_ushr c16 16; c16 = js_and c16 0xFFFF;
          c16 = c16 + a00 * b16;
          c32 = c32 + js_ushr c16 16; c16 = js_and c16 0xFFFF;
          c32 = c32 + a32 * b00;
          c48 = js_ushr c32 16; c32 = js_and c32 0xFFFF;
          c32 = c32 + a16 * b16;
          c48 = c48 + js_ushr c32 16; c32 = js_and c32 0xFFFF;
          c32 = c32 + a00 * b32;
          c48 = c48 + js_ushr c32 16; c32 = js_and c32 0xFFFF;
          c48 = c48 + (a48 * b00 + a32 * b16 + a16 * b32 + a00 * b48);
          c48 = js_and c48 0xFFFF
      in fromBits (js_or (js_shl c16 16) c00) (js_or (js_shl c48 16) c32) (uns a))"

partial_function (option) multiply :: "long \<Rightarrow> long \<Rightarrow> long option" where
  "multiply a b =
     (if isZero a then Some ZERO
      else if isZero b then Some ZERO
      else if equals a MIN_VALUE then Some (if isOdd b then MIN_VALUE else ZERO)
      else if equals b MIN_VALUE then Some (if isOdd a then MIN_VALUE else ZERO)
      else if isNegative a then
        (if isNegative b then multiply (negate a) (negate b)
         else do { c \<leftarrow> multiply (negate a) b; Some (negate c) })
      else if isNegative b then do { c \<leftarrow> multiply a (negate b); Some (negate c) }
      else if lessThan a TWO_PWR_24 \<and> lessThan b TWO_PWR_24
        then Some (fromNumber (rnd (toNumber a * toNumber b)) (uns a))
      else Some (multiply_digits a b))"

text \<open>
  The inner loop of \<open>divide\<close>: the approximation is lowered by \<open>delta\<close> until its product
  with the divisor is not above the remainder.  The result is the approximation as a \<open>Long\<close>
  and the product.
\<close>

partial_function (option) divide_lower ::
    "int \<Rightarrow> int \<Rightarrow> long \<Rightarrow> long \<Rightarrow> long \<Rightarrow> long \<Rightarrow> bool \<Rightarrow> (long \<times> long) option" where
  "divide_lower approx delta approxRes approxRem rem divisor u =
     (if isNegative approxRem \<or> greaterThan approxRem rem then
        do { let approx = rnd (approx - delta);
             let approxRes = fromNumber approx u;
             approxRem \<leftarrow> multiply approxRes divisor;
             divide_lower approx delta approxRes approxRem rem divisor u }
      else Some (approxRes, approxRem))"

partial_function (option) divide_loop :: "long \<Rightarrow> long \<Rightarrow> long \<Rightarrow> bool \<Rightarrow> long option" where
  "divide_loop rem divisor res u =
     (if greaterThanOrEqual rem divisor then
        do { let approx = max 1 (fdiv_floor (toNumber rem) (toNumber divisor));
             let log2 = ceil_log2 approx;
             let delta = (if log2 \<le> 48 then 1 else 2 ^ nat (log2 - 48));
             let approxRes = fromNumber approx False;
             approxRem \<leftarrow> multiply approxRes divisor;
             (approxRes, approxRem) \<leftarrow> divide_lower approx delta approxRes approxRem rem divisor u;
             let approxRes = (if isZero approxRes then ONE else approxRes);
             divide_loop (subtract rem approxRem) divisor (add res approxRes) u }
      else Some res)"

text \<open>\<open>None\<close> also stands for the thrown "division by zero".\<close>

partial_function (option) divide :: "long \<Rightarrow> long \<Rightarrow> long option" where
  "divide a divisor =
     (if isZero divisor then None
      else if isZero a then Some (if uns a then UZERO else ZERO)
      else if \<not> uns a then
        (if equals a MIN_VALUE then
           (if equals divisor ONE \<or> equals divisor NEG_ONE then Some MIN_VALUE
            else if equals divisor MIN_VALUE then Some ONE
            else
              do { halfDiv \<leftarrow> divide (shiftRight a 1) divisor;
                   let approx = shiftLeft halfDiv 1;
                   if equals approx ZERO
                   then Some (if isNegative divisor then ONE else NEG_ONE)
                   else do { p \<leftarrow> multiply divisor approx;
                             let rem = subtract a p;
                             q \<leftarrow> divide rem divisor;
                             Some (add approx q) } })
         else if equals divisor MIN_VALUE then Some (if uns a then UZERO else ZERO)
         else if isNegative a then
           (if isNegative divisor then divide (negate a) (negate divisor)
            else do { q \<leftarrow> divide (negate a) divisor; Some (negate q) })
         else if isNegative divisor then do { q \<leftarrow> divide a (negate divisor); Some (negate q) }
         else divide_loop a divisor ZERO (uns a))
      else
        (let divisor = (if \<not> uns divisor then toUnsigned divisor else divisor) in
         if greaterThan divisor a then Some UZERO
         else if greaterThan divisor (shiftRightUnsigned a 1) then Some UONE
         else divide_loop a divisor UZERO (uns a)))"

declare multiply.simps [code] divide_lower.simps [code] divide_loop.simps [code] divide.simps [code]

definition modulo :: "long \<Rightarrow> long \<Rightarrow> long option" where
  "modulo a divisor =
     do { q \<leftarrow> divide a divisor; p \<leftarrow> multiply q divisor; Some (subtract a p) }"

end
