(* ===== verification/LongWord.thy ===== *)
theory LongWord
  imports JsLong
begin

text \<open>
  The reference for the class \<open>Long\<close>: 64-bit words of HOL-Library.Word.  \<open>word_of_long\<close>
  reads the two halves of a \<open>Long\<close> as one word; each operation of \<open>Long\<close>, computed with 16-bit
  digits or 32-bit shifts, is the word operation.  \<open>int32s\<close> says that both halves are signed
  32-bit numbers, which every operation establishes.
\<close>

unbundle bit_operations_syntax

subsection \<open>32-bit conversions and the word of a Long\<close>

definition word_of_long :: "long \<Rightarrow> 64 word" where
  "word_of_long l = word_of_int (concat_bit 32 (low l) (high l))"

definition int32s :: "long \<Rightarrow> bool" where
  "int32s l \<longleftrightarrow> to_int32 (low l) = low l \<and> to_int32 (high l) = high l"

lemma to_int32_bits: "to_int32 x = signed_take_bit 31 x"
  by (simp add: to_int32_def signed_take_bit_eq_take_bit_shift take_bit_eq_mod)

lemma to_uint32_bits: "to_uint32 x = take_bit 32 x"
  by (simp add: to_uint32_def take_bit_eq_mod)

lemma take_bit_to_int32 [simp]: "take_bit 32 (to_int32 x) = take_bit 32 x"
  by (simp add: to_int32_bits take_bit_signed_take_bit)

lemma to_int32_mod: "to_int32 x mod 2 ^ 32 = x mod 2 ^ 32"
  using take_bit_to_int32 [of x] by (simp only: take_bit_eq_mod)

lemma to_int32_cong: "x mod 2 ^ 32 = y mod 2 ^ 32 \<Longrightarrow> to_int32 x = to_int32 y"
  unfolding to_int32_def by (metis mod_add_left_eq)

lemma to_int32_idem [simp]: "to_int32 (to_int32 x) = to_int32 x"
  by (rule to_int32_cong) (rule to_int32_mod)

lemma to_int32_range: "- (2 ^ 31) \<le> to_int32 x \<and> to_int32 x < 2 ^ 31"
  by (simp add: to_int32_def)

lemma to_int32_id: "- (2 ^ 31) \<le> x \<Longrightarrow> x < 2 ^ 31 \<Longrightarrow> to_int32 x = x"
  by (simp add: to_int32_def)

lemma uint_word_of_long: "uint (word_of_long l) = to_uint32 (low l) + 2 ^ 32 * to_uint32 (high l)"
proof -
  have "uint (word_of_long l) = take_bit 64 (concat_bit 32 (low l) (high l))"
    by (simp add: word_of_long_def uint_word_of_int take_bit_eq_mod)
  also have "\<dots> = concat_bit 32 (low l) (take_bit 32 (high l))"
    by (simp add: take_bit_concat_bit_eq)
  finally show ?thesis by (simp add: concat_bit_eq to_uint32_bits push_bit_eq_mult)
qed

lemma js_and_16: "js_and x 0xFFFF = x mod 2 ^ 16"
proof -
  have "js_and x 0xFFFF = take_bit 16 (to_int32 x)"
    by (simp add: js_and_def take_bit_eq_mask mask_eq_exp_minus_1 to_int32_def)
  also have "\<dots> = take_bit 16 x" by (simp add: to_int32_bits take_bit_signed_take_bit)
  finally show ?thesis by (simp add: take_bit_eq_mod)
qed

lemma js_ushr_16: "js_ushr x 16 = x mod 2 ^ 32 div 2 ^ 16"
  by (simp add: js_ushr_def to_uint32_def)

lemma js_shl_or_16:
  assumes "0 \<le> c" "c < 2 ^ 16" "0 \<le> d" "d < 2 ^ 16"
  shows "js_or (js_shl c 16) d mod 2 ^ 32 = c * 2 ^ 16 + d"
proof -
  have d: "to_int32 d = d" "to_int32 c = c" using assms by (simp_all add: to_int32_id)
  have "js_or (js_shl c 16) d mod 2 ^ 32 = take_bit 32 (to_int32 (c * 2 ^ 16) OR d)"
    using d by (simp add: js_or_def js_shl_def take_bit_eq_mod)
  also have "\<dots> = take_bit 32 (push_bit 16 c) OR take_bit 32 d"
    by (simp add: take_bit_or push_bit_eq_mult)
  also have "take_bit 32 d = take_bit 16 d"
    using assms by (simp add: take_bit_int_eq_self)
  also have "take_bit 32 (push_bit 16 c) = push_bit 16 c"
    using assms by (intro take_bit_int_eq_self) (auto simp: push_bit_eq_mult)
  also have "push_bit 16 c OR take_bit 16 d = concat_bit 16 d c"
    by (rule bit_eqI) (auto simp: bit_simps)
  finally show ?thesis
    using assms by (simp add: concat_bit_eq push_bit_eq_mult take_bit_int_eq_self)
qed

subsection \<open>Addition and negation\<close>

lemma word_of_long_eqI: "uint (word_of_long a) = uint w \<Longrightarrow> word_of_long a = w"
  by (simp add: word_uint_eq_iff)

lemma word_of_long_cong:
  "low a mod 2 ^ 32 = low b mod 2 ^ 32 \<Longrightarrow> high a mod 2 ^ 32 = high b mod 2 ^ 32 \<Longrightarrow>
   word_of_long a = word_of_long b"
  by (rule word_of_long_eqI) (simp add: uint_word_of_long to_uint32_def)

lemma digit_split: "(x :: int) mod 2 ^ 32 = x mod 2 ^ 32 div 2 ^ 16 * 2 ^ 16 + x mod 2 ^ 16"
proof -
  have "x mod 2 ^ 32 mod 2 ^ 16 = x mod 2 ^ 16" by (simp add: mod_mod_cancel)
  then show ?thesis by (metis div_mult_mod_eq)
qed

definition digits :: "int \<Rightarrow> int \<Rightarrow> int \<Rightarrow> int \<Rightarrow> int" where
  "digits d48 d32 d16 d00 = d48 * 2 ^ 48 + d32 * 2 ^ 32 + d16 * 2 ^ 16 + d00"

lemma uint_digits:
  "uint (word_of_long a) = digits (js_ushr (high a) 16) (js_and (high a) 0xFFFF)
      (js_ushr (low a) 16) (js_and (low a) 0xFFFF)"
  using digit_split [of "low a"] digit_split [of "high a"]
  by (simp add: uint_word_of_long to_uint32_def digits_def js_and_16 js_ushr_16)

lemma uint_fromBits_digits:
  assumes "c16 = x mod 2 ^ 16" "c00 = y mod 2 ^ 16" "c48 = z mod 2 ^ 16" "c32 = w mod 2 ^ 16"
  shows "uint (word_of_long (fromBits (js_or (js_shl c16 16) c00) (js_or (js_shl c48 16) c32) u))
       = digits c48 c32 c16 c00"
  using assms js_shl_or_16 [of c16 c00] js_shl_or_16 [of c48 c32]
  by (simp add: uint_word_of_long to_uint32_def digits_def fromBits_def)

lemma js_ushr_small: "0 \<le> x \<Longrightarrow> x < 2 ^ 32 \<Longrightarrow> js_ushr x 16 = x div 2 ^ 16"
  by (simp add: js_ushr_16)

lemma digit_range: "0 \<le> js_ushr x 16" "js_ushr x 16 < 2 ^ 16" "0 \<le> js_and x 0xFFFF" "js_and x 0xFFFF < 2 ^ 16"
proof -
  have "x mod 2 ^ 32 div 2 ^ 16 < 2 ^ 16"
    by (simp add: div_less_iff_less_mult)
  then show "0 \<le> js_ushr x 16" "js_ushr x 16 < 2 ^ 16" "0 \<le> js_and x 0xFFFF" "js_and x 0xFFFF < 2 ^ 16"
    by (simp_all add: js_and_16 js_ushr_16 pos_imp_zdiv_nonneg_iff)
qed


text \<open>Four digits with the carries pushed upwards; the carry out of the last one is dropped.\<close>

lemma digits_carry_eq:
  assumes "c0 = 2 ^ 16 * q0 + r0" "c1 = 2 ^ 16 * q1 + r1" "c2 = 2 ^ 16 * q2 + r2" "c3 = 2 ^ 16 * q3 + r3"
    and "c1 = q0 + s1" "c2 = q1 + s2" "c3 = q2 + s3"
  shows "digits s3 s2 s1 c0 = digits r3 r2 r1 r0 + 2 ^ 64 * q3"
proof -
  have "s1 = 2 ^ 16 * q1 + r1 - q0" "s2 = 2 ^ 16 * q2 + r2 - q1" "s3 = 2 ^ 16 * q3 + r3 - q2"
    using assms by simp_all
  then show ?thesis unfolding digits_def assms(1) by (simp add: algebra_simps)
qed

lemma digits_carry:
  assumes "c1 = c0 div 2 ^ 16 + s1" "c2 = c1 div 2 ^ 16 + s2" "c3 = c2 div 2 ^ 16 + s3"
  shows "digits (c3 mod 2 ^ 16) (c2 mod 2 ^ 16) (c1 mod 2 ^ 16) (c0 mod 2 ^ 16)
       = digits s3 s2 s1 c0 mod 2 ^ 64"
proof -
  let ?d = "digits (c3 mod 2 ^ 16) (c2 mod 2 ^ 16) (c1 mod 2 ^ 16) (c0 mod 2 ^ 16)"
  have "digits s3 s2 s1 c0 = ?d + 2 ^ 64 * (c3 div 2 ^ 16)"
    by (rule digits_carry_eq [OF mult_div_mod_eq [symmetric] mult_div_mod_eq [symmetric]
          mult_div_mod_eq [symmetric] mult_div_mod_eq [symmetric] assms])
  moreover have "0 \<le> ?d" "?d < 2 ^ 64"
    using pos_mod_bound [of "2 ^ 16" c0] pos_mod_bound [of "2 ^ 16" c1]
      pos_mod_bound [of "2 ^ 16" c2] pos_mod_bound [of "2 ^ 16" c3]
    by (simp_all add: digits_def)
  ultimately show ?thesis by simp
qed

lemma uint_add_mod: "uint (word_of_long (add a b)) =
   (uint (word_of_long a) + uint (word_of_long b)) mod 2 ^ 64"
proof -
  define a48 a32 a16 a00 where d: "a48 = js_ushr (high a) 16" "a32 = js_and (high a) 0xFFFF"
    "a16 = js_ushr (low a) 16" "a00 = js_and (low a) 0xFFFF"
  define b48 b32 b16 b00 where e: "b48 = js_ushr (high b) 16" "b32 = js_and (high b) 0xFFFF"
    "b16 = js_ushr (low b) 16" "b00 = js_and (low b) 0xFFFF"
  have r: "0 \<le> a48" "a48 < 2 ^ 16" "0 \<le> a32" "a32 < 2 ^ 16" "0 \<le> a16" "a16 < 2 ^ 16" "0 \<le> a00" "a00 < 2 ^ 16"
    "0 \<le> b48" "b48 < 2 ^ 16" "0 \<le> b32" "b32 < 2 ^ 16" "0 \<le> b16" "b16 < 2 ^ 16" "0 \<le> b00" "b00 < 2 ^ 16"
    unfolding d e by (simp_all add: digit_range [simplified])
  define c0 where "c0 = a00 + b00"
  define c1 where "c1 = c0 div 2 ^ 16 + (a16 + b16)"
  define c2 where "c2 = c1 div 2 ^ 16 + (a32 + b32)"
  define c3 where "c3 = c2 div 2 ^ 16 + (a48 + b48)"
  have b: "0 \<le> c0" "c0 < 2 ^ 17" "0 \<le> c1" "c1 < 2 ^ 18" "0 \<le> c2" "c2 < 2 ^ 18"
    using r unfolding c0_def c1_def c2_def by simp_all
  have u: "js_ushr c0 16 = c0 div 2 ^ 16" "js_ushr c1 16 = c1 div 2 ^ 16" "js_ushr c2 16 = c2 div 2 ^ 16"
    using b by (simp_all add: js_ushr_small)
  have "add a b = fromBits (js_or (js_shl (c1 mod 2 ^ 16) 16) (c0 mod 2 ^ 16))
                    (js_or (js_shl (c3 mod 2 ^ 16) 16) (c2 mod 2 ^ 16)) (uns a)"
    unfolding add_def Let_def d [symmetric] e [symmetric]
    unfolding c0_def [symmetric] u(1) unfolding c1_def [symmetric] u(2)
    unfolding c2_def [symmetric] u(3) unfolding c3_def [symmetric] js_and_16 ..
  also have "uint (word_of_long \<dots>) = digits (c3 mod 2 ^ 16) (c2 mod 2 ^ 16) (c1 mod 2 ^ 16) (c0 mod 2 ^ 16)"
    by (rule uint_fromBits_digits) (rule refl)+
  also have "\<dots> = digits (a48 + b48) (a32 + b32) (a16 + b16) (a00 + b00) mod 2 ^ 64"
    using digits_carry [OF c1_def c2_def c3_def] by (simp add: c0_def)
  also have "digits (a48 + b48) (a32 + b32) (a16 + b16) (a00 + b00) =
      uint (word_of_long a) + uint (word_of_long b)"
    unfolding uint_digits d [symmetric] e [symmetric] by (simp add: digits_def)
  finally show ?thesis .
qed

lemma word_of_long_add [simp]: "word_of_long (add a b) = word_of_long a + word_of_long b"
  by (rule word_of_long_eqI) (simp add: uint_add_mod uint_word_ariths)

subsection \<open>Bits\<close>

lemma bit_word_of_long:
  "bit (word_of_long l) n \<longleftrightarrow> n < 64 \<and> (if n < 32 then bit (low l) n else bit (high l) (n - 32))"
  by (auto simp: word_of_long_def bit_word_of_int_iff bit_concat_bit_iff)

lemma bit_to_int32 [simp]: "bit (to_int32 x) n = bit x (min 31 n)"
  by (simp add: to_int32_bits bit_signed_take_bit_iff)

lemma js_and_mask6: "js_and x 63 = x mod 64"
proof -
  have "js_and x 63 = take_bit 6 (to_int32 x)"
    by (simp add: js_and_def take_bit_eq_mask mask_eq_exp_minus_1 to_int32_def)
  also have "\<dots> = take_bit 6 x" by (simp add: to_int32_bits take_bit_signed_take_bit)
  finally show ?thesis by (simp add: take_bit_eq_mod)
qed

lemma to_int32_js [simp]:
  "to_int32 (js_and a b) = js_and a b" "to_int32 (js_or a b) = js_or a b"
  "to_int32 (js_xor a b) = js_xor a b" "to_int32 (js_not a) = js_not a"
  "to_int32 (js_shl a n) = js_shl a n" "to_int32 (js_shr a n) = js_shr a n"
proof -
  show "to_int32 (js_shr a n) = js_shr a n"
    unfolding js_shr_def drop_bit_eq_div [symmetric]
    by (rule bit_eqI) (simp add: bit_simps min_def)
  show "to_int32 (js_shl a n) = js_shl a n" by (simp add: js_shl_def)
qed (simp_all add: js_and_def js_or_def js_xor_def js_not_def bit_eq_iff bit_simps)

lemma to_int32_ushr: "0 < n \<Longrightarrow> n < 32 \<Longrightarrow> to_int32 (js_ushr a n) = js_ushr a n"
  unfolding js_ushr_def to_uint32_bits drop_bit_eq_div [symmetric]
  by (rule bit_eqI) (auto simp: bit_simps min_def)

lemma min31: "k < 32 \<Longrightarrow> min 31 k = (k :: nat)"
  by simp

lemma word_of_long_bitwise [simp]:
  "word_of_long (long_not a) = NOT (word_of_long a)"
  "word_of_long (long_and a b) = word_of_long a AND word_of_long b"
  "word_of_long (long_or a b) = word_of_long a OR word_of_long b"
  "word_of_long (long_xor a b) = word_of_long a XOR word_of_long b"
  by (rule bit_word_eqI; simp add: bit_word_of_long bit_simps long_not_def long_and_def long_or_def
      long_xor_def fromBits_def js_not_def js_and_def js_or_def js_xor_def min31)+

lemma bit_js_shl: "0 \<le> n \<Longrightarrow> n < 32 \<Longrightarrow> k < 32 \<Longrightarrow>
   bit (js_shl a n) k \<longleftrightarrow> nat n \<le> k \<and> bit a (k - nat n)"
  unfolding js_shl_def push_bit_eq_mult [symmetric] by (auto simp: bit_simps min31)

lemma bit_js_ushr: "0 \<le> n \<Longrightarrow> n < 32 \<Longrightarrow>
   bit (js_ushr a n) k \<longleftrightarrow> nat n + k < 32 \<and> bit a (nat n + k)"
  unfolding js_ushr_def to_uint32_bits drop_bit_eq_div [symmetric] by (auto simp: bit_simps)

lemma bit_js_shr: "0 \<le> n \<Longrightarrow> n < 32 \<Longrightarrow> bit (js_shr a n) k \<longleftrightarrow> bit a (min 31 (nat n + k))"
  unfolding js_shr_def drop_bit_eq_div [symmetric] by (auto simp: bit_simps)

lemma bit_js_or: "k < 32 \<Longrightarrow> bit (js_or a b) k \<longleftrightarrow> bit a k \<or> bit b k"
  by (simp add: js_or_def bit_simps min31)

lemmas js_bits = bit_js_shl bit_js_ushr bit_js_shr bit_js_or

lemma word_of_long_shiftLeft:
  "word_of_long (shiftLeft a k) = push_bit (nat (k mod 64)) (word_of_long a)"
proof (rule bit_word_eqI)
  fix n :: nat assume "n < LENGTH(64)"
  then have n: "n < 64" by simp
  define m where "m = k mod 64"
  have m: "0 \<le> m" "m < 64" by (simp_all add: m_def)
  show "bit (word_of_long (shiftLeft a k)) n = bit (push_bit (nat (k mod 64)) (word_of_long a)) n"
    unfolding m_def [symmetric] using n m
    by (auto simp: bit_word_of_long bit_simps shiftLeft_def js_and_mask6 m_def [symmetric] fromBits_def
        js_bits nat_diff_distrib Suc_le_eq not_less)
       (auto simp: nat_less_iff le_nat_iff nat_le_iff algebra_simps)
qed

lemma word_of_long_shiftRightUnsigned:
  "word_of_long (shiftRightUnsigned a k) = drop_bit (nat (k mod 64)) (word_of_long a)"
proof (rule bit_word_eqI)
  fix n :: nat assume "n < LENGTH(64)"
  then have n: "n < 64" by simp
  define m where "m = k mod 64"
  have m: "0 \<le> m" "m < 64" by (simp_all add: m_def)
  show "bit (word_of_long (shiftRightUnsigned a k)) n = bit (drop_bit (nat (k mod 64)) (word_of_long a)) n"
    unfolding m_def [symmetric] using n m
    by (auto simp: bit_word_of_long bit_simps shiftRightUnsigned_def js_and_mask6 m_def [symmetric]
        fromBits_def js_bits nat_diff_distrib Suc_le_eq not_less)
       (auto simp: nat_less_iff le_nat_iff nat_le_iff algebra_simps)
qed

lemma bit_int32_high: "32 \<le> n \<Longrightarrow> to_int32 x = x \<Longrightarrow> bit x n = bit x 31"
  using bit_to_int32 [of x n] by (simp del: bit_to_int32)

lemma bit_js_shr_int32:
  "to_int32 a = a \<Longrightarrow> 0 \<le> n \<Longrightarrow> n < 32 \<Longrightarrow> bit (js_shr a n) k \<longleftrightarrow> bit a (nat n + k)"
  unfolding js_shr_def drop_bit_eq_div [symmetric] by (simp add: bit_drop_bit_eq)

lemma bit_signed_drop_bit64:
  "n < 64 \<Longrightarrow> bit (signed_drop_bit M (w :: 64 word)) n \<longleftrightarrow> bit w (if 64 \<le> M + n then 63 else M + n)"
  by (simp add: bit_signed_drop_bit_iff del: One_nat_def) (auto simp: le_diff_conv2 le_diff_conv)

lemma word_of_long_shiftRight:
  assumes "to_int32 (high a) = high a"
  shows "word_of_long (shiftRight a k) = signed_drop_bit (nat (k mod 64)) (word_of_long a)"
proof (rule bit_word_eqI)
  fix n :: nat assume "n < LENGTH(64)"
  then have n: "n < 64" by simp
  obtain M where k: "k mod 64 = int M" by (metis nonneg_int_cases pos_mod_sign zero_less_numeral)
  have M: "M < 64" using pos_mod_bound [of 64 k] k by simp
  have s: "high a \<ge> 0 \<longleftrightarrow> \<not> bit (high a) 31"
    using assms by (metis bit_to_int32 to_int32_bits signed_take_bit_nonnegative_iff)
  have hi: "bit (high a) (M + n - 32) = bit (high a) 31" if "64 \<le> M + n"
    using that by (intro bit_int32_high [OF _ assms]) simp
  consider "M = 0" | "0 < M" "M < 32" "n < 32" | "0 < M" "M < 32" "32 \<le> n" | "32 \<le> M" by linarith
  then show "bit (word_of_long (shiftRight a k)) n = bit (signed_drop_bit (nat (k mod 64)) (word_of_long a)) n"
  proof cases
    case 1
    then show ?thesis using k by (simp add: shiftRight_def Let_def js_and_mask6)
  next
    case 2
    then have "bit (word_of_long (shiftRight a k)) n \<longleftrightarrow>
        (if M + n < 32 then bit (low a) (M + n) else bit (high a) (M + n - 32))"
      using n k by (auto simp: bit_word_of_long shiftRight_def Let_def js_and_mask6 fromBits_def bit_js_or
          bit_js_ushr bit_js_shl nat_diff_distrib add.commute)
    then show ?thesis using 2 n k M by (simp add: bit_signed_drop_bit64 bit_word_of_long)
  next
    case 3
    then have "bit (word_of_long (shiftRight a k)) n \<longleftrightarrow> bit (high a) (M + n - 32)"
      using n k by (simp add: bit_word_of_long shiftRight_def Let_def js_and_mask6 fromBits_def
          bit_js_shr_int32 [OF assms])
    then show ?thesis using 3 n k M hi by (auto simp: bit_signed_drop_bit64 bit_word_of_long)
  next
    case 4
    then have "bit (word_of_long (shiftRight a k)) n \<longleftrightarrow>
        (if n < 32 then bit (high a) (M - 32 + n) else bit (high a) 31)"
      using n k M s by (auto simp: bit_word_of_long shiftRight_def Let_def js_and_mask6 fromBits_def
          bit_js_shr_int32 [OF assms] nat_diff_distrib)
    then show ?thesis using 4 n k M hi by (auto simp: bit_signed_drop_bit64 bit_word_of_long)
  qed
qed

subsection \<open>Signed 32-bit halves\<close>

lemma int32s_fromBits [simp]: "int32s (fromBits l h u) \<longleftrightarrow> to_int32 l = l \<and> to_int32 h = h"
  by (simp add: int32s_def fromBits_def)

lemma to_int32_const [simp]: "to_int32 0 = 0" "to_int32 (-1) = -1" "to_int32 1 = 1"
  by (simp_all add: to_int32_def)

lemma int32s_add [simp]: "int32s (add a b)"
  by (simp add: add_def Let_def)

lemma int32s_multiply_digits [simp]: "int32s (multiply_digits a b)"
  by (simp add: multiply_digits_def Let_def)

lemma int32s_bitwise [simp]: "int32s (long_not a)" "int32s (long_and a b)" "int32s (long_or a b)"
  "int32s (long_xor a b)"
  by (simp_all add: long_not_def long_and_def long_or_def long_xor_def)

lemma int32s_shifts [simp]:
  "int32s a \<Longrightarrow> int32s (shiftLeft a k)"
  "int32s a \<Longrightarrow> int32s (shiftRight a k)"
  "int32s a \<Longrightarrow> int32s (shiftRightUnsigned a k)"
  by (auto simp: shiftLeft_def shiftRight_def shiftRightUnsigned_def Let_def js_and_mask6
      to_int32_ushr int32s_def fromBits_def)

lemma int32s_consts [simp]: "int32s ZERO" "int32s ONE" "int32s NEG_ONE" "int32s TWO_PWR_24"
  by (simp_all add: ZERO_def ONE_def NEG_ONE_def TWO_PWR_24_def fromInt_def Let_def to_int32_def)

lemma uns_ops [simp]: "uns (fromBits l h u) = u" "uns (add a b) = uns a" "uns (long_not a) = uns a"
  "uns (long_and a b) = uns a" "uns (long_or a b) = uns a" "uns (long_xor a b) = uns a"
  "uns (multiply_digits a b) = uns a" "uns (shiftLeft a k) = uns a"
  "uns (shiftRight a k) = uns a" "uns (shiftRightUnsigned a k) = uns a"
  by (simp_all add: fromBits_def add_def long_not_def long_and_def long_or_def long_xor_def
      multiply_digits_def shiftLeft_def shiftRight_def shiftRightUnsigned_def Let_def)

lemma uns_consts [simp]: "\<not> uns ZERO" "\<not> uns ONE" "\<not> uns NEG_ONE" "\<not> uns TWO_PWR_24" "\<not> uns MIN_VALUE"
  "\<not> uns MAX_VALUE"
  by (simp_all add: ZERO_def ONE_def NEG_ONE_def TWO_PWR_24_def MIN_VALUE_def MAX_VALUE_def
      fromInt_def Let_def)

lemma word_consts [simp]: "word_of_long ZERO = 0" "word_of_long ONE = 1" "word_of_long NEG_ONE = -1"
  "word_of_long TWO_PWR_24 = 2 ^ 24"
  by (rule word_of_long_eqI, simp add: uint_word_of_long ZERO_def ONE_def NEG_ONE_def TWO_PWR_24_def
      fromInt_def fromBits_def to_int32_def to_uint32_def Let_def unsigned_minus_1_eq_mask mask_eq_exp_minus_1)+

text \<open>The signed value of a \<open>Long\<close>.\<close>

definition lval :: "long \<Rightarrow> int" where
  "lval l = sint (word_of_long l)"

lemma uint64_range: "0 \<le> uint (w :: 64 word) \<and> uint w < 2 ^ 64"
  using unsigned_less [of w, where 'a = int] by simp

lemma sint64: "sint (w :: 64 word) = (if uint w < 2 ^ 63 then uint w else uint w - 2 ^ 64)"
proof -
  have "0 \<le> uint w" "uint w < 2 ^ 64" using uint64_range [of w] by simp_all
  moreover have "(uint w + 2 ^ 63) mod 2 ^ 64 = uint w + 2 ^ 63 - 2 ^ 64" if "2 ^ 63 \<le> uint w"
    using that calculation mod_add_self2 [of "uint w + 2 ^ 63 - 2 ^ 64" "2 ^ 64"]
    by (simp del: mod_add_self2 add: add.commute)
  ultimately show ?thesis
    by (auto simp: sint_uint signed_take_bit_eq_take_bit_shift take_bit_eq_mod)
qed

lemma lval_eq: "int32s l \<Longrightarrow> lval l = high l * 2 ^ 32 + to_uint32 (low l)"
proof -
  assume "int32s l"
  then have h: "- (2 ^ 31) \<le> high l" "high l < 2 ^ 31"
    using to_int32_range [of "high l"] by (simp_all add: int32s_def)
  have l: "0 \<le> to_uint32 (low l)" "to_uint32 (low l) < 2 ^ 32" by (simp_all add: to_uint32_def)
  have "to_uint32 (high l) = (if high l < 0 then high l + 2 ^ 32 else high l)"
    using h mod_add_self2 [of "high l" "2 ^ 32"] by (auto simp: to_uint32_def simp del: mod_add_self2)
  then show ?thesis using h l by (simp add: lval_def sint64 uint_word_of_long)
qed

lemma lval_range: "- (2 ^ 63) \<le> lval l \<and> lval l < 2 ^ 63"
  using uint64_range [of "word_of_long l"] unfolding lval_def sint64 by (simp; linarith)

lemma isNegative_iff: "int32s l \<Longrightarrow> \<not> uns l \<Longrightarrow> isNegative l \<longleftrightarrow> lval l < 0"
proof -
  assume i: "int32s l" "\<not> uns l"
  have l: "0 \<le> to_uint32 (low l)" "to_uint32 (low l) < 2 ^ 32" by (simp_all add: to_uint32_def)
  show ?thesis using l i by (auto simp: isNegative_def lval_eq)
qed

lemma word_of_long_inj: "int32s a \<Longrightarrow> int32s b \<Longrightarrow> word_of_long a = word_of_long b \<Longrightarrow> low a = low b \<and> high a = high b"
proof -
  assume i: "int32s a" "int32s b" "word_of_long a = word_of_long b"
  have "low l mod 2 ^ 32 = uint (word_of_long l) mod 2 ^ 32" for l
    by (simp add: uint_word_of_long to_uint32_def)
  moreover have "high l mod 2 ^ 32 = uint (word_of_long l) div 2 ^ 32" for l
    by (simp add: uint_word_of_long to_uint32_def div_mult_self2)
  ultimately have "low a mod 2 ^ 32 = low b mod 2 ^ 32 \<and> high a mod 2 ^ 32 = high b mod 2 ^ 32"
    using i(3) by presburger
  then show ?thesis using i unfolding int32s_def by (metis to_int32_cong)
qed

lemma lval_inj: "lval a = lval b \<longleftrightarrow> word_of_long a = word_of_long b"
  by (auto simp: lval_def intro: signed_word_eqI)

lemma equals_iff: "int32s a \<Longrightarrow> int32s b \<Longrightarrow> \<not> uns a \<Longrightarrow> \<not> uns b \<Longrightarrow> equals a b \<longleftrightarrow> lval a = lval b"
  by (auto simp: equals_def lval_inj dest: word_of_long_inj intro: word_of_long_cong)

lemma not_equals_MIN_VALUE [simp]: "int32s a \<Longrightarrow> \<not> equals a MIN_VALUE"
  using to_int32_range [of "low a"]
  by (auto simp: equals_def MIN_VALUE_def fromBits_def int32s_def)

lemma word_of_long_negate [simp]: "int32s a \<Longrightarrow> word_of_long (negate a) = - word_of_long a"
  by (simp add: negate_def flip: minus_eq_not_plus_1)

lemma int32s_negate [simp]: "int32s a \<Longrightarrow> int32s (negate a)"
  by (simp add: negate_def)

lemma uns_negate [simp]: "int32s a \<Longrightarrow> uns (negate a) = uns a"
  by (simp add: negate_def)

lemma word_of_long_subtract [simp]: "int32s b \<Longrightarrow> word_of_long (subtract a b) = word_of_long a - word_of_long b"
  by (simp add: subtract_def)

lemma int32s_subtract [simp]: "int32s (subtract a b)" "uns (subtract a b) = uns a"
  by (simp_all add: subtract_def)

end
