(* ===== verification/LongMul.thy ===== *)
theory LongMul
  imports LongWord
begin

text \<open>
  Doubles, comparisons and multiplication of \<open>Long\<close>: \<open>rnd\<close> is within half a unit of the 53rd
  bit, the comparisons are those of the signed values, and \<open>multiply\<close> is the word product, on
  every pair of arguments but the ones that hold the smallest signed value, on which the code
  recurses for ever.
\<close>

unbundle bit_operations_syntax

subsection \<open>Rounding\<close>

lemma bitlen_0 [simp]: "bitlen 0 = 0"
  by (simp add: bitlen_def floorlog_def)

lemma bitlen_bound: "0 < m \<Longrightarrow> 2 ^ nat (bitlen m - 1) \<le> m \<and> m < 2 ^ nat (bitlen m) \<and> 1 \<le> bitlen m"
proof -
  assume m: "0 < m"
  then have b: "2 ^ nat (bitlen m - 1) \<le> m \<and> m < 2 ^ nat (bitlen m)" using bitlen_bounds [of m] by simp
  moreover have "1 \<le> bitlen m"
  proof (rule ccontr)
    assume "\<not> 1 \<le> bitlen m"
    then have "nat (bitlen m) = 0" by simp
    with b m show False by simp
  qed
  ultimately show ?thesis by simp
qed

lemma rnd_parts:
  assumes "m = \<bar>x\<bar>" "e = nat (bitlen m) - 53" "q = m div 2 ^ e" "r = m mod 2 ^ e"
  shows "rnd x = sgn x * ((if 2 * r > 2 ^ e \<or> (2 * r = 2 ^ e \<and> odd q) then q + 1 else q) * 2 ^ e)"
  unfolding rnd_def Let_def assms ..

lemma rnd_id: "\<bar>x\<bar> < 2 ^ 53 \<Longrightarrow> rnd x = x"
proof -
  assume x: "\<bar>x\<bar> < 2 ^ 53"
  have "nat (bitlen \<bar>x\<bar>) - 53 = 0"
  proof (cases "x = 0")
    case False
    then have b: "2 ^ nat (bitlen \<bar>x\<bar> - 1) \<le> \<bar>x\<bar>" "1 \<le> bitlen \<bar>x\<bar>" using bitlen_bound [of "\<bar>x\<bar>"] by auto
    then have "(2::int) ^ nat (bitlen \<bar>x\<bar> - 1) < 2 ^ 53" using x by linarith
    then have "nat (bitlen \<bar>x\<bar> - 1) < 53" by (rule power_less_imp_less_exp [rotated]) simp
    then show ?thesis by simp
  qed simp
  then show ?thesis by (simp add: rnd_def Let_def sgn_mult_abs)
qed

lemma half_power: "0 < e \<Longrightarrow> (2::int) ^ e = 2 * 2 ^ (e - 1)"
  by (cases e) auto

text \<open>The relative error of a rounding is at most \<open>2 ^ -53\<close>.\<close>

lemma rnd_error: "2 ^ 53 * \<bar>rnd x - x\<bar> \<le> \<bar>x\<bar>"
proof -
  define m where "m = \<bar>x\<bar>"
  define e where "e = nat (bitlen m) - 53"
  define q where "q = m div 2 ^ e"
  define r where "r = m mod 2 ^ e"
  define q' where "q' = (if 2 * r > 2 ^ e \<or> (2 * r = 2 ^ e \<and> odd q) then q + 1 else q)"
  have rx: "rnd x = sgn x * (q' * 2 ^ e)"
    using rnd_parts [OF m_def e_def q_def r_def] by (simp add: q'_def)
  have m: "m = q * 2 ^ e + r" "0 \<le> r" "r < 2 ^ e" by (simp_all add: q_def r_def minus_mod_eq_div_mult [symmetric])
  have "\<bar>rnd x - x\<bar> = \<bar>q' * 2 ^ e - m\<bar>"
    unfolding rx m_def by (cases "x = 0") (auto simp: sgn_if q'_def q_def m_def r_def)
  moreover have "2 ^ 53 * \<bar>q' * 2 ^ e - m\<bar> \<le> m"
  proof (cases "e = 0")
    case True
    then have "r = 0" using m by simp
    moreover have "0 \<le> m" by (simp add: m_def)
    ultimately show ?thesis using m True by (simp add: q'_def)
  next
    case False
    then have "nat (bitlen m) = 53 + e" by (simp add: e_def)
    moreover have "0 < m" using False by (cases "m = 0") (auto simp: e_def m_def)
    ultimately have "2 ^ (52 + e) \<le> m" using bitlen_bound [of m] by (simp add: nat_diff_distrib)
    moreover have "2 * \<bar>q' * 2 ^ e - m\<bar> \<le> 2 ^ e"
      using m by (auto simp: q'_def algebra_simps abs_le_iff)
    ultimately show ?thesis by (simp add: power_add)
  qed
  ultimately show ?thesis by (simp add: m_def)
qed

lemma rnd_bounds:
  assumes "0 \<le> x"
  shows "2 ^ 53 * rnd x \<le> (2 ^ 53 + 1) * x" "(2 ^ 53 - 1) * x \<le> 2 ^ 53 * rnd x"
  using rnd_error [of x] assms by (auto simp: abs_if algebra_simps split: if_splits)

lemma rnd_nonneg: "0 \<le> x \<Longrightarrow> 0 \<le> rnd x"
  using rnd_bounds(2) [of x] by (simp add: zero_le_mult_iff)

subsection \<open>Signed values\<close>

lemma word_of_lval: "word_of_long l = word_of_int (lval l)"
  by (simp add: lval_def)

lemma lvalI: "word_of_long l = word_of_int x \<Longrightarrow> - (2 ^ 63) \<le> x \<Longrightarrow> x < 2 ^ 63 \<Longrightarrow> lval l = x"
  by (simp add: lval_def sint_sbintrunc' signed_take_bit_int_eq_self)

lemma lval_negate: "int32s a \<Longrightarrow> lval a \<noteq> - (2 ^ 63) \<Longrightarrow> lval (negate a) = - lval a"
  using lval_range [of a] by (intro lvalI) (auto simp: word_of_lval [of a])

lemma lval_subtract:
  "int32s b \<Longrightarrow> - (2 ^ 63) \<le> lval a - lval b \<Longrightarrow> lval a - lval b < 2 ^ 63 \<Longrightarrow>
   lval (subtract a b) = lval a - lval b"
  by (intro lvalI) (auto simp: word_of_lval [of a] word_of_lval [of b])

lemma lval_add:
  "- (2 ^ 63) \<le> lval a + lval b \<Longrightarrow> lval a + lval b < 2 ^ 63 \<Longrightarrow> lval (add a b) = lval a + lval b"
  by (intro lvalI) (auto simp: word_of_lval [of a] word_of_lval [of b])

lemma lval_consts [simp]: "lval ZERO = 0" "lval ONE = 1" "lval TWO_PWR_24 = 2 ^ 24"
  by (rule lvalI; simp)+

lemma isZero_iff: "int32s a \<Longrightarrow> \<not> uns a \<Longrightarrow> isZero a \<longleftrightarrow> lval a = 0"
proof -
  assume a: "int32s a" "\<not> uns a"
  have "isZero a \<longleftrightarrow> equals a ZERO"
    using a by (auto simp: isZero_def equals_def ZERO_def fromInt_def fromBits_def to_int32_def Let_def)
  then show ?thesis using a by (simp add: equals_iff)
qed

lemma compare_sgn:
  assumes "int32s a" "int32s b" "\<not> uns a" "\<not> uns b"
  shows "compare a b = sgn (lval a - lval b)"
proof -
  have s: "lval (subtract a b) = lval a - lval b" if "lval a < 0 \<longleftrightarrow> lval b < 0"
    using that assms lval_range [of a] lval_range [of b] by (intro lval_subtract) auto
  have "isNegative (subtract a b) \<longleftrightarrow> lval a < lval b" if "lval a < 0 \<longleftrightarrow> lval b < 0"
    using s [OF that] assms by (simp add: isNegative_iff)
  then show ?thesis using assms by (auto simp: compare_def equals_iff isNegative_iff sgn_if)
qed

lemma comparisons:
  assumes "int32s a" "int32s b" "\<not> uns a" "\<not> uns b"
  shows "lessThan a b \<longleftrightarrow> lval a < lval b" "lessThanOrEqual a b \<longleftrightarrow> lval a \<le> lval b"
    "greaterThan a b \<longleftrightarrow> lval a > lval b" "greaterThanOrEqual a b \<longleftrightarrow> lval a \<ge> lval b"
  using compare_sgn [OF assms]
  by (auto simp: lessThan_def lessThanOrEqual_def greaterThan_def greaterThanOrEqual_def sgn_if)

subsection \<open>Conversion of numbers\<close>

lemma fromNumber_nonneg:
  assumes "0 \<le> x" "x < 2 ^ 63" "rnd (x + 1) < 2 ^ 63"
  shows "int32s (fromNumber x False)" "\<not> uns (fromNumber x False)" "lval (fromNumber x False) = x"
proof -
  have e: "fromNumber x False = fromBits (to_int32 (x mod 2 ^ 32)) (to_int32 (x div 2 ^ 32)) False"
    using assms by (subst fromNumber.simps) simp
  then show "int32s (fromNumber x False)" "\<not> uns (fromNumber x False)" by simp_all
  have "uint (word_of_long (fromNumber x False)) = x mod 2 ^ 32 + 2 ^ 32 * (x div 2 ^ 32)"
    unfolding e using assms
    by (simp add: uint_word_of_long to_uint32_def fromBits_def to_int32_mod [simplified] div_less_iff_less_mult)
  then have "uint (word_of_long (fromNumber x False)) = x" by simp
  then show "lval (fromNumber x False) = x" using assms by (simp add: lval_def sint64)
qed

lemma fromNumber_small: "\<bar>x\<bar> < 2 ^ 53 \<Longrightarrow>
   int32s (fromNumber x False) \<and> \<not> uns (fromNumber x False) \<and> lval (fromNumber x False) = x"
proof -
  assume x: "\<bar>x\<bar> < 2 ^ 53"
  have r: "rnd (y + 1) < 2 ^ 63" if "0 \<le> y" "y < 2 ^ 53" for y
    using rnd_bounds(1) [of "y + 1"] that by simp
  show ?thesis
  proof (cases "0 \<le> x")
    case True
    then show ?thesis using fromNumber_nonneg [of x] r [of x] x by simp
  next
    case False
    then have n: "0 \<le> - x" "- x < 2 ^ 53" using x by auto
    have "fromNumber x False = negate (fromNumber (- x) False)"
      using False x n by (subst fromNumber.simps) (simp add: rnd_id)
    then show ?thesis using fromNumber_nonneg [of "- x"] r [OF n] n by (simp add: lval_negate)
  qed
qed

lemma toNumber_rnd: "int32s a \<Longrightarrow> \<not> uns a \<Longrightarrow> toNumber a = rnd (lval a)"
  by (simp add: toNumber_def lval_eq)

lemma toNumber_small: "int32s a \<Longrightarrow> \<not> uns a \<Longrightarrow> \<bar>lval a\<bar> < 2 ^ 53 \<Longrightarrow> toNumber a = lval a"
  by (simp add: toNumber_rnd rnd_id)

subsection \<open>Multiplication\<close>

text \<open>Partial products with the carries moved back: a linear identity.\<close>

lemma digits_shuffle:
  assumes "c1 = q0 + p1" "c1' = r1 + p1'" "c2 = q1 + q1' + p2" "c2' = r2 + p2'" "c2'' = r2' + p2''"
    and "c3 = q2 + q2' + q2'' + p3"
    and "c1 = 2 ^ 16 * q1 + r1" "c2 = 2 ^ 16 * q2 + r2" "c2' = 2 ^ 16 * q2' + r2'"
  shows "digits (c3 - q2'') (c2'' - q1') (c1' - q0) c0 = digits p3 (p2 + p2' + p2'') (p1 + p1') c0"
  using assms unfolding digits_def by (simp add: algebra_simps)

lemma uint_multiply_digits: "uint (word_of_long (multiply_digits a b)) =
   (uint (word_of_long a) * uint (word_of_long b)) mod 2 ^ 64"
proof -
  define a48 a32 a16 a00 where d: "a48 = js_ushr (high a) 16" "a32 = js_and (high a) 0xFFFF"
    "a16 = js_ushr (low a) 16" "a00 = js_and (low a) 0xFFFF"
  define b48 b32 b16 b00 where e: "b48 = js_ushr (high b) 16" "b32 = js_and (high b) 0xFFFF"
    "b16 = js_ushr (low b) 16" "b00 = js_and (low b) 0xFFFF"
  have r: "0 \<le> a48" "a48 < 2 ^ 16" "0 \<le> a32" "a32 < 2 ^ 16" "0 \<le> a16" "a16 < 2 ^ 16" "0 \<le> a00" "a00 < 2 ^ 16"
    "0 \<le> b48" "b48 < 2 ^ 16" "0 \<le> b32" "b32 < 2 ^ 16" "0 \<le> b16" "b16 < 2 ^ 16" "0 \<le> b00" "b00 < 2 ^ 16"
    unfolding d e by (simp_all add: digit_range [simplified])
  have prod: "0 \<le> x * y \<and> x * y \<le> (2 ^ 16 - 1) * (2 ^ 16 - 1)"
    if "0 \<le> x" "x < 2 ^ 16" "0 \<le> y" "y < 2 ^ 16" for x y :: int
    using that mult_mono [of x "2 ^ 16 - 1" y "2 ^ 16 - 1"] by simp
  define c0 where "c0 = a00 * b00"
  define c1 where "c1 = c0 div 2 ^ 16 + a16 * b00"
  define c1' where "c1' = c1 mod 2 ^ 16 + a00 * b16"
  define c2 where "c2 = c1 div 2 ^ 16 + c1' div 2 ^ 16 + a32 * b00"
  define c2' where "c2' = c2 mod 2 ^ 16 + a16 * b16"
  define c2'' where "c2'' = c2' mod 2 ^ 16 + a00 * b32"
  define c3 where "c3 = c2 div 2 ^ 16 + c2' div 2 ^ 16 + c2'' div 2 ^ 16
                         + (a48 * b00 + a32 * b16 + a16 * b32 + a00 * b48)"
  have carry: "0 \<le> c \<Longrightarrow> c < 2 ^ 32 \<Longrightarrow> 0 \<le> c div 2 ^ 16 \<and> c div 2 ^ 16 < 2 ^ 16"
    and rest: "0 \<le> c mod 2 ^ 16 \<and> c mod 2 ^ 16 < 2 ^ 16" for c :: int
    by (simp_all add: div_less_iff_less_mult pos_imp_zdiv_nonneg_iff)
  have c0: "0 \<le> c0 \<and> c0 < 2 ^ 32"
    using prod [OF r(7,8) r(15,16)] unfolding c0_def by auto
  have c1: "0 \<le> c1 \<and> c1 < 2 ^ 32"
    using prod [OF r(5,6) r(15,16)] carry [OF c0 [THEN conjunct1] c0 [THEN conjunct2]] unfolding c1_def by auto
  have c1': "0 \<le> c1' \<and> c1' < 2 ^ 32"
    using prod [OF r(7,8) r(13,14)] rest [of c1] unfolding c1'_def by auto
  have c2: "0 \<le> c2 \<and> c2 < 2 ^ 32"
    using prod [OF r(3,4) r(15,16)] carry [OF c1 [THEN conjunct1] c1 [THEN conjunct2]]
      carry [OF c1' [THEN conjunct1] c1' [THEN conjunct2]] unfolding c2_def by auto
  have c2': "0 \<le> c2' \<and> c2' < 2 ^ 32"
    using prod [OF r(5,6) r(13,14)] rest [of c2] unfolding c2'_def by auto
  have c2'': "0 \<le> c2'' \<and> c2'' < 2 ^ 32"
    using prod [OF r(7,8) r(11,12)] rest [of c2'] unfolding c2''_def by auto
  have u: "js_ushr c0 16 = c0 div 2 ^ 16" "js_ushr c1 16 = c1 div 2 ^ 16" "js_ushr c1' 16 = c1' div 2 ^ 16"
    "js_ushr c2 16 = c2 div 2 ^ 16" "js_ushr c2' 16 = c2' div 2 ^ 16" "js_ushr c2'' 16 = c2'' div 2 ^ 16"
    using c0 c1 c1' c2 c2' c2'' by (simp_all add: js_ushr_small)
  have "multiply_digits a b = fromBits (js_or (js_shl (c1' mod 2 ^ 16) 16) (c0 mod 2 ^ 16))
                    (js_or (js_shl (c3 mod 2 ^ 16) 16) (c2'' mod 2 ^ 16)) (uns a)"
    unfolding multiply_digits_def Let_def d [symmetric] e [symmetric]
    unfolding c0_def [symmetric] u(1) js_and_16 unfolding c1_def [symmetric] u(2)
    unfolding c1'_def [symmetric] u(3) unfolding c2_def [symmetric] u(4)
    unfolding c2'_def [symmetric] u(5) unfolding c2''_def [symmetric] u(6)
    unfolding c3_def [symmetric] ..
  also have "uint (word_of_long \<dots>) =
      digits (c3 mod 2 ^ 16) (c2'' mod 2 ^ 16) (c1' mod 2 ^ 16) (c0 mod 2 ^ 16)"
    by (rule uint_fromBits_digits) (rule refl)+
  also have "\<dots> = digits (c3 - c2'' div 2 ^ 16) (c2'' - c1' div 2 ^ 16) (c1' - c0 div 2 ^ 16) c0 mod 2 ^ 64"
    by (rule digits_carry) simp_all
  also have "digits (c3 - c2'' div 2 ^ 16) (c2'' - c1' div 2 ^ 16) (c1' - c0 div 2 ^ 16) c0 =
      digits (a48 * b00 + a32 * b16 + a16 * b32 + a00 * b48) (a32 * b00 + a16 * b16 + a00 * b32)
        (a16 * b00 + a00 * b16) (a00 * b00)"
    unfolding c0_def [symmetric]
    by (rule digits_shuffle [OF c1_def c1'_def c2_def c2'_def c2''_def c3_def]) simp_all
  also have "\<dots> mod 2 ^ 64 = (digits a48 a32 a16 a00 * digits b48 b32 b16 b00) mod 2 ^ 64"
  proof -
    have "digits a48 a32 a16 a00 * digits b48 b32 b16 b00 =
        digits (a48 * b00 + a32 * b16 + a16 * b32 + a00 * b48) (a32 * b00 + a16 * b16 + a00 * b32)
          (a16 * b00 + a00 * b16) (a00 * b00)
        + 2 ^ 64 * (a48 * b48 * 2 ^ 32 + (a48 * b32 + a32 * b48) * 2 ^ 16
                    + (a48 * b16 + a32 * b32 + a16 * b48))"
      by (simp add: digits_def algebra_simps)
    then show ?thesis by (simp only: mod_mult_self2)
  qed
  finally show ?thesis unfolding uint_digits d [symmetric] e [symmetric] .
qed

lemma word_of_long_multiply_digits [simp]:
  "word_of_long (multiply_digits a b) = word_of_long a * word_of_long b"
  by (rule word_of_long_eqI) (simp add: uint_multiply_digits uint_word_ariths)

lemma fromNumber_product:
  assumes "int32s a" "int32s b" "\<not> uns a" "\<not> uns b" "0 \<le> lval a" "0 \<le> lval b"
    and "lval a < 2 ^ 24" "lval b < 2 ^ 24"
  defines "c \<equiv> fromNumber (rnd (toNumber a * toNumber b)) (uns a)"
  shows "int32s c \<and> \<not> uns c \<and> word_of_long c = word_of_long a * word_of_long b"
proof -
  have "lval a * lval b \<le> (2 ^ 24 - 1) * (2 ^ 24 - 1)"
    using assms by (intro mult_mono) auto
  then have p: "\<bar>lval a * lval b\<bar> < 2 ^ 53" using assms by simp
  have "c = fromNumber (lval a * lval b) False"
    using assms p by (simp add: c_def toNumber_small rnd_id)
  then show ?thesis using fromNumber_small [OF p] by (simp add: word_of_lval)
qed

lemma multiply_nonneg:
  assumes "int32s a" "int32s b" "\<not> uns a" "\<not> uns b" "0 \<le> lval a" "0 \<le> lval b"
  shows "\<exists>c. multiply a b = Some c \<and> int32s c \<and> \<not> uns c \<and> word_of_long c = word_of_long a * word_of_long b"
  using assms fromNumber_product [OF assms]
  by (subst multiply.simps)
     (auto simp: isZero_iff isNegative_iff comparisons word_of_lval [of a] word_of_lval [of b])

text \<open>
  The product of two signed numbers of 64 bits, none of which is the smallest one: the call
  returns, and its result is the word product.
\<close>

lemma multiply_word:
  assumes "int32s a" "int32s b" "\<not> uns a" "\<not> uns b" "lval a \<noteq> - (2 ^ 63)" "lval b \<noteq> - (2 ^ 63)"
  shows "\<exists>c. multiply a b = Some c \<and> int32s c \<and> \<not> uns c \<and> word_of_long c = word_of_long a * word_of_long b"
proof -
  consider "0 \<le> lval a" "0 \<le> lval b" | "lval a < 0" "lval b < 0" | "lval a < 0" "0 \<le> lval b"
    | "0 \<le> lval a" "lval b < 0" by linarith
  then show ?thesis
  proof cases
    case 1
    then show ?thesis using assms by (intro multiply_nonneg)
  next
    case 2
    with multiply_nonneg [of "negate a" "negate b"] assms show ?thesis
      by (subst multiply.simps) (auto simp: isZero_iff isNegative_iff lval_negate word_of_lval [of a] word_of_lval [of b])
  next
    case 3
    with multiply_nonneg [of "negate a" b] assms show ?thesis
      by (subst multiply.simps) (auto simp: isZero_iff isNegative_iff lval_negate word_of_lval [of a] word_of_lval [of b])
  next
    case 4
    with multiply_nonneg [of a "negate b"] assms show ?thesis
      by (subst multiply.simps) (auto simp: isZero_iff isNegative_iff lval_negate word_of_lval [of a] word_of_lval [of b])
  qed
qed

subsection \<open>The smallest signed value\<close>

text \<open>
  \<open>MIN_VALUE\<close> is \<open>fromBits 0x80000000 0\<close>, which is \<open>2 ^ 31\<close> and not the smallest signed value,
  so the guards of \<open>multiply\<close> against it never fire on a \<open>Long\<close> with signed halves, and the
  negation of the smallest value, which is itself, is multiplied again and again.
\<close>

lemma lval_negate_min: "int32s a \<Longrightarrow> lval a = - (2 ^ 63) \<Longrightarrow> lval (negate a) = - (2 ^ 63)"
proof -
  assume a: "int32s a" "lval a = - (2 ^ 63)"
  have "(2 ^ 63 :: 64 word) = - (2 ^ 63)" by simp
  then show ?thesis
    using a by (intro lvalI) (auto simp: word_of_lval [of a])
qed

definition min_factor :: "long \<Rightarrow> long \<Rightarrow> bool" where
  "min_factor a b \<longleftrightarrow> lval a = - (2 ^ 63) \<and> lval b \<noteq> 0 \<or> lval b = - (2 ^ 63) \<and> lval a \<noteq> 0"

lemma lval_negate_nonzero: "int32s a \<Longrightarrow> lval a \<noteq> 0 \<Longrightarrow> lval (negate a) \<noteq> 0"
  using lval_negate_min [of a] lval_negate [of a] by (cases "lval a = - (2 ^ 63)") auto

lemma min_factor_negate:
  assumes "int32s a" "int32s b" "min_factor a b"
  shows "min_factor (negate a) b" "min_factor a (negate b)" "min_factor (negate a) (negate b)"
  using assms lval_negate_nonzero [of a] lval_negate_nonzero [of b] lval_negate_min [of a] lval_negate_min [of b]
  by (auto simp: min_factor_def)

lemma multiply_min_None:
  assumes "multiply a b = Some c" "int32s a" "int32s b" "\<not> uns a" "\<not> uns b"
  shows "\<not> min_factor a b"
proof -
  have "int32s a \<longrightarrow> int32s b \<longrightarrow> \<not> uns a \<longrightarrow> \<not> uns b \<longrightarrow> \<not> min_factor a b"
  proof (rule multiply.raw_induct [OF _ assms(1), where P = "\<lambda>a b _. int32s a \<longrightarrow> int32s b \<longrightarrow>
        \<not> uns a \<longrightarrow> \<not> uns b \<longrightarrow> \<not> min_factor a b"], intro impI notI)
    fix f a b c
    assume IH: "\<And>a b c. f a b = Some c \<Longrightarrow> int32s a \<longrightarrow> int32s b \<longrightarrow> \<not> uns a \<longrightarrow> \<not> uns b \<longrightarrow> \<not> min_factor a b"
      and i: "int32s a" "int32s b" "\<not> uns a" "\<not> uns b" and m: "min_factor a b"
      and e: "(if isZero a then Some ZERO
      else if isZero b then Some ZERO
      else if equals a MIN_VALUE then Some (if isOdd b then MIN_VALUE else ZERO)
      else if equals b MIN_VALUE then Some (if isOdd a then MIN_VALUE else ZERO)
      else if isNegative a then
        (if isNegative b then f (negate a) (negate b)
         else do { c \<leftarrow> f (negate a) b; Some (negate c) })
      else if isNegative b then do { c \<leftarrow> f a (negate b); Some (negate c) }
      else if lessThan a TWO_PWR_24 \<and> lessThan b TWO_PWR_24
        then Some (fromNumber (rnd (toNumber a * toNumber b)) (uns a))
      else Some (multiply_digits a b)) = Some c"
    have n: "\<not> isZero a" "\<not> isZero b" "lval a < 0 \<or> lval b < 0"
      using m i by (auto simp: min_factor_def isZero_iff)
    have "\<exists>a' b' c'. f a' b' = Some c' \<and> int32s a' \<and> int32s b' \<and> \<not> uns a' \<and> \<not> uns b' \<and> min_factor a' b'"
      using e n i min_factor_negate [OF i(1,2) m] m
      by (auto simp: isNegative_iff bind_eq_Some_conv split: if_splits) (metis int32s_negate uns_negate)+
    with IH show False by blast
  qed
  with assms show ?thesis by simp
qed

subsection \<open>Properties\<close>

text \<open>Further fact.
  \<open>multiply\<close> of two signed \<open>Long\<close>s: when one factor is the smallest value and the other is not
  zero, the call never returns; on all the other pairs, it returns a signed \<open>Long\<close> that is
  the product modulo \<open>2 ^ 64\<close>, both through the small-number shortcut on doubles and
  through the 16-bit digits.\<close>

theorem multiply_spec:
  assumes "int32s a" "int32s b" "\<not> uns a" "\<not> uns b"
  shows "if lval a = - (2 ^ 63) \<and> lval b \<noteq> 0 \<or> lval b = - (2 ^ 63) \<and> lval a \<noteq> 0
         then multiply a b = None
         else \<exists>c. multiply a b = Some c \<and> int32s c \<and> \<not> uns c
                \<and> word_of_long c = word_of_long a * word_of_long b"
proof (cases "min_factor a b")
  case True
  then show ?thesis using multiply_min_None [of a b] assms
    unfolding min_factor_def [symmetric] by (cases "multiply a b") auto
next
  case False
  have z: "multiply a b = Some ZERO" if "lval a = 0 \<or> lval b = 0"
    using that assms by (subst multiply.simps) (auto simp: isZero_iff)
  have "\<exists>c. multiply a b = Some c \<and> int32s c \<and> \<not> uns c \<and> word_of_long c = word_of_long a * word_of_long b"
    using multiply_word [OF assms] False z
    by (cases "lval a = 0 \<or> lval b = 0") (auto simp: min_factor_def word_of_lval [of a] word_of_lval [of b])
  then show ?thesis using False unfolding min_factor_def [symmetric] by simp
qed

theorem multiply_spec_witness:
  "multiply (fromBits 0 (- (2 ^ 31)) False) ONE = None
   \<and> (\<exists>c. multiply (fromInt (-7) False) (fromInt 6 False) = Some c \<and> word_of_long c = - 42)"
proof
  let ?m = "fromBits 0 (- (2 ^ 31)) False"
  have "int32s ?m" by (simp add: to_int32_def)
  moreover from this have "lval ?m = - (2 ^ 63)" by (simp add: lval_eq fromBits_def to_uint32_def)
  ultimately show "multiply ?m ONE = None" using multiply_spec [of ?m ONE] by simp
next
  let ?a = "fromInt (-7) False" and ?b = "fromInt 6 False"
  have i: "int32s ?a" "int32s ?b" "\<not> uns ?a" "\<not> uns ?b"
    by (simp_all add: fromInt_def to_int32_def)
  then have l: "lval ?a = -7" "lval ?b = 6"
    by (simp_all add: lval_eq fromInt_def fromBits_def to_uint32_def to_int32_def)
  show "\<exists>c. multiply ?a ?b = Some c \<and> word_of_long c = - 42"
    using multiply_spec [OF i] l by (auto simp: word_of_lval [of ?a] word_of_lval [of ?b])
qed

end
