(* ===== verification/LongDiv.thy ===== *)
theory LongDiv
  imports LongMul "HOL-Library.Signed_Division"
begin

text \<open>
  Division and remainder of \<open>Long\<close>.  The code divides by repeated approximation: the quotient
  of the two numbers as doubles is lowered until its product with the divisor is at most
  the remainder.  The bounds on the rounding of the doubles show that one lowering is enough,
  that the partial quotient is at least one, and so that the loop ends with the truncated
  quotient.
\<close>

subsection \<open>The quotient of doubles\<close>

lemma power_mono_le: "m \<le> n \<Longrightarrow> (2::int) ^ m \<le> 2 ^ n"
  by (simp add: power_increasing)

lemma fdiv_scale:
  assumes "0 < a" "0 < b" "k0 = 53 + bitlen b - bitlen a"
  shows "2 ^ 52 * (b * 2 ^ nat (- k0)) \<le> a * 2 ^ nat k0"
proof -
  have a: "2 ^ nat (bitlen a - 1) \<le> a" "1 \<le> bitlen a" and b: "b \<le> 2 ^ nat (bitlen b)" "1 \<le> bitlen b"
    using bitlen_bound [of a] bitlen_bound [of b] assms by auto
  have "2 ^ 52 * (b * 2 ^ nat (- k0)) \<le> 2 ^ 52 * (2 ^ nat (bitlen b) * 2 ^ nat (- k0))"
    using b by simp
  also have "\<dots> = 2 ^ (52 + nat (bitlen b) + nat (- k0))" by (simp add: power_add)
  also have "52 + nat (bitlen b) + nat (- k0) = nat (bitlen a - 1) + nat k0"
    using a b assms(3) by linarith
  also have "(2::int) ^ \<dots> = 2 ^ nat (bitlen a - 1) * 2 ^ nat k0" by (simp add: power_add)
  also have "\<dots> \<le> a * 2 ^ nat k0" using a by simp
  finally show ?thesis .
qed

lemma fdiv_scale_half:
  fixes a b k :: int
  assumes "2 ^ 53 \<le> a * 2 ^ nat k div (b * 2 ^ nat (- k))" "0 < b"
  shows "2 ^ 52 * (b * 2 ^ nat (- (k - 1))) \<le> a * 2 ^ nat (k - 1)"
proof -
  have "2 ^ 53 * (b * 2 ^ nat (- k)) \<le> (a * 2 ^ nat k div (b * 2 ^ nat (- k))) * (b * 2 ^ nat (- k))"
    using assms by (intro mult_right_mono) auto
  also have "\<dots> \<le> a * 2 ^ nat k" using assms by (simp add: minus_mod_eq_div_mult [symmetric])
  finally have "2 ^ 53 * (b * 2 ^ nat (- k)) \<le> a * 2 ^ nat k" .
  moreover have "nat k = Suc (nat (k - 1)) \<and> nat (- k) = 0 \<and> nat (- (k - 1)) = 0
     \<or> nat k = 0 \<and> nat (k - 1) = 0 \<and> nat (- (k - 1)) = Suc (nat (- k))" by linarith
  ultimately show ?thesis by auto
qed

lemma fdiv_parts:
  assumes "k0 = 53 + bitlen b - bitlen a"
    "k = (if a * 2 ^ nat k0 div (b * 2 ^ nat (- k0)) < 2 ^ 53 then k0 else k0 - 1)"
    "n = a * 2 ^ nat k" "d = b * 2 ^ nat (- k)" "q = n div d" "r = n mod d"
  shows "fdiv_floor a b = (if 2 * r > d \<or> (2 * r = d \<and> odd q) then q + 1 else q) * 2 ^ nat (- k) div 2 ^ nat k"
  unfolding fdiv_floor_def Let_def assms ..

lemma fdiv_bound:
  assumes "0 < a" "0 < b"
  shows "2 ^ 53 * (b * fdiv_floor a b) \<le> (2 ^ 53 + 1) * a" "0 \<le> fdiv_floor a b"
proof -
  define k0 where "k0 = 53 + bitlen b - bitlen a"
  define k where "k = (if a * 2 ^ nat k0 div (b * 2 ^ nat (- k0)) < 2 ^ 53 then k0 else k0 - 1)"
  define n where "n = a * 2 ^ nat k"
  define d where "d = b * 2 ^ nat (- k)"
  define q where "q = n div d"
  define r where "r = n mod d"
  define q' where "q' = (if 2 * r > d \<or> (2 * r = d \<and> odd q) then q + 1 else q)"
  have f: "fdiv_floor a b = q' * 2 ^ nat (- k) div 2 ^ nat k"
    unfolding q'_def by (rule fdiv_parts [OF k0_def k_def n_def d_def q_def r_def])
  have d0: "0 < d" "0 < n" using assms by (simp_all add: d_def n_def)
  have s: "2 ^ 52 * d \<le> n"
    using fdiv_scale [OF assms k0_def] fdiv_scale_half [of a k0 b] assms unfolding d_def n_def k_def by auto
  have qr: "n = q * d + r" "0 \<le> r" "r < d" using d0 by (simp_all add: q_def r_def)
  have q0: "0 \<le> q" using d0 by (simp add: q_def pos_imp_zdiv_nonneg_iff)
  then have q1: "0 \<le> q'" by (simp add: q'_def)
  show "0 \<le> fdiv_floor a b" using q1 by (simp add: f pos_imp_zdiv_nonneg_iff)
  have "2 * (q' * d) \<le> 2 * n + d" using qr by (auto simp: q'_def algebra_simps)
  then have m: "2 ^ 53 * (q' * d) \<le> (2 ^ 53 + 1) * n" using s by simp
  have "fdiv_floor a b * 2 ^ nat k \<le> q' * 2 ^ nat (- k)"
    unfolding f by (simp add: minus_mod_eq_div_mult [symmetric])
  then have "b * (fdiv_floor a b * 2 ^ nat k) \<le> b * (q' * 2 ^ nat (- k))" using assms by simp
  then have "2 ^ 53 * (b * fdiv_floor a b) * 2 ^ nat k \<le> 2 ^ 53 * (q' * d)"
    by (simp add: d_def algebra_simps)
  also note m
  finally have "2 ^ 53 * (b * fdiv_floor a b) * 2 ^ nat k \<le> (2 ^ 53 + 1) * a * 2 ^ nat k"
    by (simp add: n_def algebra_simps)
  then show "2 ^ 53 * (b * fdiv_floor a b) \<le> (2 ^ 53 + 1) * a" by simp
qed

text \<open>
  The first approximation of \<open>R / D\<close> for numbers of 63 bits: its product with \<open>D\<close> exceeds
  \<open>R\<close> by a factor of less than \<open>1 + 2 ^ -51\<close>.
\<close>

lemma approx_bound:
  assumes "0 < R" "0 < D" "D \<le> R" and A: "A = max 1 (fdiv_floor (rnd R) (rnd D))"
  shows "2 ^ 51 * (A * D) \<le> (2 ^ 51 + 1) * R"
proof (cases "A = 1")
  case True
  then show ?thesis using assms by simp
next
  case False
  then have A: "A = fdiv_floor (rnd R) (rnd D)" "1 < A" using A by auto
  have R: "2 ^ 53 * rnd R \<le> (2 ^ 53 + 1) * R" "0 < rnd R"
    using rnd_bounds [of R] assms by auto
  have D: "(2 ^ 53 - 1) * D \<le> 2 ^ 53 * rnd D" "0 < rnd D"
    using rnd_bounds [of D] assms by auto
  have f: "2 ^ 53 * (rnd D * A) \<le> (2 ^ 53 + 1) * rnd R" unfolding A by (rule fdiv_bound) fact+
  have "((2 ^ 53 - 1) * D) * (2 ^ 53 * A) \<le> (2 ^ 53 * rnd D) * (2 ^ 53 * A)"
    using D A by (intro mult_right_mono) auto
  also have "\<dots> = 2 ^ 53 * (2 ^ 53 * (rnd D * A))" by simp
  also have "\<dots> \<le> 2 ^ 53 * ((2 ^ 53 + 1) * rnd R)" using f by (intro mult_left_mono) auto
  also have "\<dots> \<le> (2 ^ 53 + 1) * ((2 ^ 53 + 1) * R)" using R(1) by simp
  finally have "(2 ^ 53 - 1) * 2 ^ 53 * (A * D) \<le> (2 ^ 53 + 1) * (2 ^ 53 + 1) * R" by (simp add: algebra_simps)
  moreover have "0 < A * D" using A assms by simp
  ultimately show ?thesis using \<open>0 < R\<close> by simp
qed

text \<open>One lowering is enough, and leaves a positive approximation.\<close>

lemma ceil_log2_bounds:
  assumes "1 \<le> A"
  shows "A \<le> 2 ^ nat (ceil_log2 A)" "1 < A \<Longrightarrow> 2 ^ nat (ceil_log2 A) < 2 * A" "0 \<le> ceil_log2 A"
proof -
  have b: "2 ^ nat (bitlen (A - 1) - 1) \<le> A - 1 \<and> A - 1 < 2 ^ nat (bitlen (A - 1)) \<and> 1 \<le> bitlen (A - 1)"
    if "1 < A" using that bitlen_bound [of "A - 1"] by simp
  moreover have "nat (bitlen (A - 1)) = Suc (nat (bitlen (A - 1) - 1))" if "1 < A"
    using b [OF that] by linarith
  ultimately have c: "A \<le> 2 ^ nat (ceil_log2 A) \<and> 2 ^ nat (ceil_log2 A) < 2 * A \<and> 0 \<le> ceil_log2 A" if "1 < A"
    using that by (auto simp: ceil_log2_def)
  have "A = 1 \<or> 1 < A" using assms by linarith
  then show "A \<le> 2 ^ nat (ceil_log2 A)" "1 < A \<Longrightarrow> 2 ^ nat (ceil_log2 A) < 2 * A" "0 \<le> ceil_log2 A"
    using c by (auto simp: ceil_log2_def)
qed

lemma lower_linear:
  fixes u v w R :: int
  assumes "2 ^ 53 * u \<le> (2 ^ 53 + 1) * v" "2 ^ 48 * v \<le> (2 ^ 48 - 1) * w" "2 ^ 51 * w \<le> (2 ^ 51 + 1) * R" "0 < R"
  shows "u \<le> R"
  using assms by simp

lemma bound_trans: "a \<le> b \<Longrightarrow> 2 ^ 51 * b \<le> (2 ^ 51 + 1) * (R :: int) \<Longrightarrow> 2 ^ 51 * a \<le> (2 ^ 51 + 1) * R"
  by simp

lemma lower_bound:
  assumes "0 < D" "D \<le> R" "1 \<le> A" "R < A * D \<or> 2 ^ 50 \<le> A" and P: "2 ^ 51 * (A * D) \<le> (2 ^ 51 + 1) * R"
    and delta: "delta = (if ceil_log2 A \<le> 48 then 1 else 2 ^ nat (ceil_log2 A - 48))"
  shows "1 \<le> rnd (A - delta) \<and> rnd (A - delta) * D \<le> R \<and> 2 ^ 49 * rnd (A - delta) \<le> max (2 ^ 97) ((2 ^ 49 - 1) * A)"
proof (cases "ceil_log2 A \<le> 48")
  case True
  have "A \<le> 2 ^ nat (ceil_log2 A)" using ceil_log2_bounds [OF assms(3)] by simp
  also have "\<dots> \<le> 2 ^ 48" using True by (intro power_mono_le) simp
  finally have A: "A \<le> 2 ^ 48" .
  with assms(4) have R: "R < A * D" by simp
  have "A * D \<le> 2 ^ 48 * D" using A assms(1) by (intro mult_right_mono) auto
  then have m: "(A - 1) * D \<le> R" using R P by (simp add: algebra_simps)
  have "A \<noteq> 1" using R assms(2) by auto
  moreover have "rnd (A - 1) = A - 1" using A assms(3) by (simp add: rnd_id)
  ultimately show ?thesis using True m A assms(3) by (simp add: delta)
next
  case False
  let ?l = "ceil_log2 A"
  have l: "nat ?l = 48 + nat (?l - 48)" using False by linarith
  have "A \<noteq> 1" using False by (auto simp: ceil_log2_def)
  then have b: "A \<le> 2 ^ 48 * delta" "2 ^ 48 * delta < 2 * A"
    using ceil_log2_bounds [OF assms(3)] assms(3) False unfolding delta l power_add by auto
  define x where "x = A - delta"
  have x: "0 < x" "2 ^ 48 * x \<le> (2 ^ 48 - 1) * A" using b assms(3) by (simp_all add: x_def)
  have r: "2 ^ 53 * rnd x \<le> (2 ^ 53 + 1) * x" "(2 ^ 53 - 1) * x \<le> 2 ^ 53 * rnd x"
    using rnd_bounds [of x] x by auto
  have "2 ^ 53 * (rnd x * D) \<le> (2 ^ 53 + 1) * (x * D)"
    using mult_right_mono [OF r(1), of D] assms(1) by (simp only: mult.assoc)
  moreover have "2 ^ 48 * (x * D) \<le> (2 ^ 48 - 1) * (A * D)"
    using mult_right_mono [OF x(2), of D] assms(1) by (simp only: mult.assoc)
  ultimately have "rnd x * D \<le> R" using P assms(1,2) lower_linear by fastforce
  then show ?thesis using r x by (simp add: x_def [symmetric])
qed

lemma rnd_ge_63: "2 ^ 63 \<le> x \<Longrightarrow> 2 ^ 63 \<le> rnd x"
proof -
  assume x: "2 ^ 63 \<le> x"
  have b: "2 ^ nat (bitlen x - 1) \<le> x" "x < 2 ^ nat (bitlen x)" using bitlen_bound [of x] x by auto
  then have "(2::int) ^ 63 < 2 ^ nat (bitlen x)" using x by linarith
  then have "63 < nat (bitlen x)" by (rule power_less_imp_less_exp [rotated]) simp
  then have l: "nat (bitlen x - 1) = 52 + (nat (bitlen x) - 53)" "63 \<le> nat (bitlen x - 1)" by linarith+
  define e where "e = nat (bitlen x) - 53"
  have "2 ^ 52 * 2 ^ e \<le> x" using b(1) unfolding l(1) e_def power_add .
  then have q: "2 ^ 52 \<le> x div 2 ^ e" using zdiv_mono1 [of "2 ^ 52 * 2 ^ e" x "2 ^ e"] by simp
  have "(2::int) ^ 63 \<le> 2 ^ nat (bitlen x - 1)" using l(2) by (rule power_mono_le)
  also have "\<dots> = 2 ^ 52 * 2 ^ e" unfolding l(1) e_def power_add ..
  also have "\<dots> \<le> x div 2 ^ e * 2 ^ e" using q by (intro mult_right_mono) auto
  also have "\<dots> \<le> rnd x"
    using x by (auto simp: rnd_parts [OF refl refl refl refl] e_def sgn_if abs_of_pos algebra_simps)
  finally show ?thesis .
qed

subsection \<open>One round of the loop\<close>

abbreviation slong :: "long \<Rightarrow> int \<Rightarrow> bool" where
  "slong a x \<equiv> int32s a \<and> \<not> uns a \<and> lval a = x"

lemma slong_range: "slong a x \<Longrightarrow> - (2 ^ 63) \<le> x \<and> x < 2 ^ 63"
  using lval_range [of a] by simp

lemma fromNumber_fits: "0 \<le> x \<Longrightarrow> x \<le> 2 ^ 63 - 2 ^ 13 \<Longrightarrow> slong (fromNumber x False) x"
  using fromNumber_nonneg [of x] rnd_bounds(1) [of "x + 1"] by auto

lemma multiply_slong:
  assumes "slong a x" "slong b y" "0 \<le> x" "0 \<le> y" "x * y < 2 ^ 63"
  shows "\<exists>c. multiply a b = Some c \<and> slong c (x * y)"
proof -
  obtain c where c: "multiply a b = Some c" "int32s c" "\<not> uns c" "word_of_long c = word_of_long a * word_of_long b"
    using multiply_nonneg [of a b] assms by auto
  moreover have "lval c = x * y"
  proof (rule lvalI)
    show "word_of_long c = word_of_int (x * y)"
      using c(4) assms word_of_lval [of a] word_of_lval [of b] by simp
    have "0 \<le> x * y" using assms by simp
    then show "- (2 ^ 63) \<le> x * y" by (rule order.trans [rotated]) simp
    show "x * y < 2 ^ 63" by fact
  qed
  ultimately show ?thesis by blast
qed

lemma multiply_slong_overflow:
  assumes "slong a x" "slong b y" "0 \<le> x" "0 \<le> y" "2 ^ 63 \<le> x * y" "x * y < 2 ^ 64"
  shows "\<exists>c. multiply a b = Some c \<and> slong c (x * y - 2 ^ 64)"
proof -
  obtain c where c: "multiply a b = Some c" "int32s c" "\<not> uns c" "word_of_long c = word_of_long a * word_of_long b"
    using multiply_nonneg [of a b] assms by auto
  moreover have "lval c = x * y - 2 ^ 64"
  proof (rule lvalI)
    have "word_of_int (x * y - 2 ^ 64) = (word_of_int (x * y) :: 64 word) - 2 ^ 64" by simp
    then show "word_of_long c = word_of_int (x * y - 2 ^ 64)"
      using c(4) assms word_of_lval [of a] word_of_lval [of b] by simp
    show "- (2 ^ 63) \<le> x * y - 2 ^ 64" "x * y - 2 ^ 64 < 2 ^ 63" using assms by simp_all
  qed
  ultimately show ?thesis by blast
qed

lemma max_value_times_one: "multiply MAX_VALUE ONE = Some MAX_VALUE"
  by code_simp

lemma slong_ONE: "slong d 1 \<Longrightarrow> d = ONE"
proof -
  assume d: "slong d 1"
  then have "word_of_long d = word_of_long ONE" using word_of_lval [of d] by simp
  then have "low d = low ONE \<and> high d = high ONE" using d word_of_long_inj [of d ONE] by simp
  then show ?thesis using d by (auto intro: long.equality)
qed

lemma max_value_greater: "slong r R \<Longrightarrow> 2 ^ 63 - 2 ^ 14 \<le> R \<Longrightarrow> greaterThan MAX_VALUE r"
proof -
  assume r: "slong r R" and R: "2 ^ 63 - 2 ^ 14 \<le> R"
  have R': "R < 2 ^ 63" using slong_range [OF r] by simp
  have m: "MAX_VALUE = fromBits 0x7FFFFFFF 0xFFFFFFFF False" by (simp add: MAX_VALUE_def)
  have w: "word_of_long MAX_VALUE = word_of_int (0x7FFFFFFF - 2 ^ 32)"
    by (rule word_of_long_eqI)
       (simp add: m uint_word_of_long fromBits_def to_uint32_def uint_word_of_int)
  have "word_of_long (subtract MAX_VALUE r) = word_of_int (0x7FFFFFFF - 2 ^ 32 + 2 ^ 64 - R)"
  proof -
    have "(word_of_int (0x7FFFFFFF - 2 ^ 32 + 2 ^ 64 - R) :: 64 word)
        = word_of_int (0x7FFFFFFF - 2 ^ 32) + 2 ^ 64 - word_of_int R" by simp
    then show ?thesis using r w word_of_lval [of r] by simp
  qed
  then have "lval (subtract MAX_VALUE r) = 0x7FFFFFFF - 2 ^ 32 + 2 ^ 64 - R"
    using R R' by (intro lvalI) simp_all
  then have "\<not> isNegative (subtract MAX_VALUE r)" using R' by (simp add: isNegative_iff)
  moreover have "\<not> isNegative MAX_VALUE" by (simp add: m isNegative_def fromBits_def)
  moreover have "\<not> equals MAX_VALUE r"
    using r to_int32_range [of "high r"] by (auto simp: m equals_def fromBits_def int32s_def)
  moreover have "\<not> isNegative r" using r R by (simp add: isNegative_iff)
  ultimately show ?thesis by (simp add: greaterThan_def compare_def)
qed

lemma lower_once:
  assumes r: "slong rem R" "slong divisor D" "0 < D" "D \<le> R" "1 \<le> A"
    and A: "R < A * D \<or> 2 ^ 50 \<le> A" "2 ^ 51 * (A * D) \<le> (2 ^ 51 + 1) * R"
    and delta: "delta = (if ceil_log2 A \<le> 48 then 1 else 2 ^ nat (ceil_log2 A - 48))"
    and c: "isNegative p \<or> greaterThan p rem"
  shows "\<exists>ar' p' A'. divide_lower A delta ar p rem divisor False = Some (ar', p') \<and> slong ar' A'
           \<and> 1 \<le> A' \<and> slong p' (A' * D) \<and> A' * D \<le> R"
proof -
  define A' where "A' = rnd (A - delta)"
  have l: "1 \<le> A'" "A' * D \<le> R" "2 ^ 49 * A' \<le> max (2 ^ 97) ((2 ^ 49 - 1) * A)"
    using lower_bound [OF r(3-5) A delta] by (simp_all add: A'_def)
  have "A \<le> A * D" using r by (simp add: mult_le_cancel_left1)
  then have "2 ^ 51 * A \<le> (2 ^ 51 + 1) * R" using A(2) by (rule bound_trans)
  then have "A \<le> 2 ^ 63 + 2 ^ 12" using slong_range [OF r(1)] by simp
  then have f: "slong (fromNumber A' False) A'" using l by (intro fromNumber_fits) auto
  have R: "A' * D < 2 ^ 63" using l slong_range [OF r(1)] by linarith
  obtain p' where p': "multiply (fromNumber A' False) divisor = Some p'" "slong p' (A' * D)"
    using multiply_slong [OF f r(2) _ _ R] l r by auto
  have "\<not> isNegative p' \<and> \<not> greaterThan p' rem"
    using p' l r mult_nonneg_nonneg [of A' D] by (simp add: isNegative_iff comparisons not_less)
  then have "divide_lower A' delta (fromNumber A' False) p' rem divisor False = Some (fromNumber A' False, p')"
    by (subst divide_lower.simps) simp
  then have "divide_lower A delta ar p rem divisor False = Some (fromNumber A' False, p')"
    using c p'(1) by (subst divide_lower.simps) (simp add: A'_def [symmetric])
  then show ?thesis using f p' l by blast
qed

lemma divide_round:
  assumes r: "slong rem R" "slong divisor D" "0 < D" "D \<le> R" "1 \<le> A"
    and A: "2 ^ 51 * (A * D) \<le> (2 ^ 51 + 1) * R"
    and delta: "delta = (if ceil_log2 A \<le> 48 then 1 else 2 ^ nat (ceil_log2 A - 48))"
  shows "\<exists>p ar' p' A'. multiply (fromNumber A False) divisor = Some p
           \<and> divide_lower A delta (fromNumber A False) p rem divisor False = Some (ar', p')
           \<and> slong ar' A' \<and> 1 \<le> A' \<and> slong p' (A' * D) \<and> A' * D \<le> R"
proof (cases "A < 2 ^ 63 \<and> rnd (A + 1) < 2 ^ 63")
  case True
  then have f: "slong (fromNumber A False) A" using fromNumber_nonneg [of A] r by simp
  have Rr: "R < 2 ^ 63" using slong_range [OF r(1)] by simp
  then have P: "A * D < 2 ^ 64" using A by simp
  show ?thesis
  proof (cases "A * D < 2 ^ 63")
    case True
    obtain p where p: "multiply (fromNumber A False) divisor = Some p" "slong p (A * D)"
      using multiply_slong [OF f r(2) _ _ True] r by auto
    have g: "greaterThan p rem \<longleftrightarrow> R < A * D" "\<not> isNegative p"
      using p r mult_nonneg_nonneg [of A D] by (simp_all add: isNegative_iff comparisons not_less)
    show ?thesis
    proof (cases "R < A * D")
      case True
      with lower_once [OF r _ A delta, of p "fromNumber A False"] g p show ?thesis by simp
    next
      case False
      then have "divide_lower A delta (fromNumber A False) p rem divisor False = Some (fromNumber A False, p)"
        using g by (subst divide_lower.simps) simp
      then show ?thesis using p f False r by auto
    qed
  next
    case False
    then obtain p where p: "multiply (fromNumber A False) divisor = Some p" "slong p (A * D - 2 ^ 64)"
      using multiply_slong_overflow [OF f r(2)] r P by auto
    then have "isNegative p" using P by (simp add: isNegative_iff)
    moreover have "R < A * D" using Rr False by simp
    ultimately show ?thesis using lower_once [OF r _ A delta, of p "fromNumber A False"] p by simp
  qed
next
  case False
  then have n: "2 ^ 63 \<le> rnd (A + 1)" using rnd_ge_63 [of "A + 1"] by auto
  then have A1: "2 ^ 63 - 2 ^ 11 \<le> A" using rnd_bounds(1) [of "A + 1"] r by simp
  have Rr: "R < 2 ^ 63" using slong_range [OF r(1)] by simp
  have "D = 1"
  proof (rule ccontr)
    assume "D \<noteq> 1"
    then have "A * 2 \<le> A * D" using r by (intro mult_left_mono) auto
    then show False using A A1 Rr by simp
  qed
  then have "divisor = ONE" "2 ^ 63 - 2 ^ 14 \<le> R" using r slong_ONE [of divisor] A A1 by auto
  moreover have "fromNumber A False = MAX_VALUE" using n A1 by (subst fromNumber.simps) simp
  ultimately show ?thesis
    using lower_once [OF r _ A delta, of MAX_VALUE MAX_VALUE] max_value_greater [OF r(1)]
      max_value_times_one A1 by simp
qed

subsection \<open>The loop\<close>

lemma divide_loop_spec:
  assumes "slong rem R" "slong divisor D" "slong res S" "0 < D" "0 \<le> R" "0 \<le> S" "S + R < 2 ^ 63"
  shows "\<exists>q. divide_loop rem divisor res False = Some q \<and> slong q (S + R div D)"
  using assms
proof (induction "nat R" arbitrary: rem R res S rule: less_induct)
  case less
  note r = less.prems
  show ?case
  proof (cases "D \<le> R")
    case False
    then have "\<not> greaterThanOrEqual rem divisor" "R div D = 0"
      using r by (simp_all add: comparisons div_pos_pos_trivial)
    then show ?thesis using r by (subst divide_loop.simps) simp
  next
    case True
    define A where "A = max 1 (fdiv_floor (toNumber rem) (toNumber divisor))"
    define delta where "delta = (if ceil_log2 A \<le> 48 then 1 else (2::int) ^ nat (ceil_log2 A - 48))"
    have A: "A = max 1 (fdiv_floor (rnd R) (rnd D))" using r by (simp add: A_def toNumber_rnd)
    have b: "2 ^ 51 * (A * D) \<le> (2 ^ 51 + 1) * R" using approx_bound [OF _ _ True A] r True by simp
    have "1 \<le> A" by (simp add: A_def)
    from divide_round [OF r(1,2,4) True this b delta_def]
    obtain p ar p' A' where d: "multiply (fromNumber A False) divisor = Some p"
      "divide_lower A delta (fromNumber A False) p rem divisor False = Some (ar, p')"
      and s: "slong ar A'" "1 \<le> A'" "slong p' (A' * D)" "A' * D \<le> R" by blast
    have z: "\<not> isZero ar" using s by (simp add: isZero_iff)
    have AD: "A' \<le> A' * D" "0 < A' * D" using s r by (simp_all add: mult_le_cancel_left1)
    have R: "R < 2 ^ 63" using slong_range [OF r(1)] by simp
    have sub_range: "R - A' * D < 2 ^ 63" by (rule le_less_trans [OF _ R]) (use AD(2) in linarith)
    have sub: "slong (subtract rem p') (R - A' * D)"
      using r s sub_range lval_subtract [of p' rem] by simp
    have add_range: "S + A' < 2 ^ 63" by (rule le_less_trans [OF _ r(7)]) (use AD(1) s(4) in linarith)
    have ad: "slong (add res ar) (S + A')"
      using r s add_range lval_add [of res ar] by simp
    have "\<exists>q. divide_loop (subtract rem p') divisor (add res ar) False = Some q
            \<and> slong q (S + A' + (R - A' * D) div D)"
    proof (rule less.hyps [OF _ sub r(2) ad r(4)])
      show "nat (R - A' * D) < nat R" using AD(2) r(4) True by linarith
      show "0 \<le> R - A' * D" using s(4) by simp
      show "0 \<le> S + A'" using s(2) r(6) by simp
      show "S + A' + (R - A' * D) < 2 ^ 63" by (rule le_less_trans [OF _ r(7)]) (use AD(1) in linarith)
    qed
    moreover have "(R - A' * D) div D = R div D - A'"
    proof -
      have "(R + (- A') * D) div D = - A' + R div D" using r by (intro div_mult_self1) simp
      then show ?thesis by simp
    qed
    moreover have "divide_loop rem divisor res False = divide_loop (subtract rem p') divisor (add res ar) False"
    proof -
      have "greaterThanOrEqual rem divisor" using r True by (simp add: comparisons)
      then show ?thesis
        using d z by (subst divide_loop.simps) (simp add: Let_def A_def [symmetric] delta_def [symmetric])
    qed
    ultimately show ?thesis by simp
  qed
qed

subsection \<open>Division\<close>

lemma divide_nonneg:
  assumes "slong a x" "slong b y" "0 \<le> x" "0 < y"
  shows "\<exists>q. divide a b = Some q \<and> slong q (x div y)"
  using assms divide_loop_spec [of a x b y ZERO 0] slong_range [of a x]
  by (subst divide.simps) (auto simp: isZero_iff isNegative_iff)

lemma slong_negate: "slong a x \<Longrightarrow> x \<noteq> - (2 ^ 63) \<Longrightarrow> slong (negate a) (- x)"
  by (simp add: lval_negate)

lemma sdiv_abs: "(x :: int) sdiv y = sgn x * sgn y * (\<bar>x\<bar> div \<bar>y\<bar>)"
  by (simp add: signed_divide_int_def)

lemma divide_slong:
  assumes "slong a x" "slong b y" "y \<noteq> 0" "x \<noteq> - (2 ^ 63)" "y \<noteq> - (2 ^ 63)"
  shows "\<exists>q. divide a b = Some q \<and> slong q (x sdiv y)"
proof -
  have nz: "x div y \<noteq> - (2 ^ 63)" if "0 \<le> x" "0 < y" for x y :: int
    using that pos_imp_zdiv_nonneg_iff [of y x] by auto
  have step: "divide a b = (if isNegative a then (if isNegative b then divide (negate a) (negate b)
                 else do { q \<leftarrow> divide (negate a) b; Some (negate q) })
              else do { q \<leftarrow> divide a (negate b); Some (negate q) })" if "x < 0 \<or> 0 < x \<and> y < 0"
    using that assms by (subst divide.simps) (auto simp: isZero_iff isNegative_iff)
  have na: "slong (negate a) (- x)" and nb: "slong (negate b) (- y)"
    using slong_negate assms by simp_all
  consider "0 \<le> x" "0 < y" | "x < 0" "y < 0" | "x < 0" "0 < y" | "0 < x" "y < 0" | "x = 0" "y < 0"
    using assms by linarith
  then show ?thesis
  proof cases
    case 1
    then show ?thesis using divide_nonneg [OF assms(1,2)] by (cases "x = 0") (auto simp: sdiv_abs sgn_if)
  next
    case 2
    then show ?thesis using divide_nonneg [OF na nb] step assms by (simp add: sdiv_abs isNegative_iff)
  next
    case 3
    then obtain q where "divide (negate a) b = Some q" "slong q ((- x) div y)"
      using divide_nonneg [OF na assms(2)] by auto
    then show ?thesis using 3 step assms slong_negate [of q] nz [of "- x" y]
      by (simp add: sdiv_abs isNegative_iff)
  next
    case 4
    then obtain q where "divide a (negate b) = Some q" "slong q (x div (- y))"
      using divide_nonneg [OF assms(1) nb] by auto
    then show ?thesis using 4 step assms slong_negate [of q] nz [of x "- y"]
      by (simp add: sdiv_abs isNegative_iff)
  next
    case 5
    then show ?thesis using assms by (subst divide.simps) (simp add: isZero_iff)
  qed
qed

lemma abs_div_le: "\<bar>x sdiv y\<bar> \<le> \<bar>x :: int\<bar>"
proof (cases "y = 0")
  case False
  then have "\<bar>x\<bar> div \<bar>y\<bar> \<le> \<bar>x\<bar>" using zdiv_mono2 [of "\<bar>x\<bar>" 1 "\<bar>y\<bar>"] by simp
  moreover have "0 \<le> \<bar>x\<bar> div \<bar>y\<bar>" by (simp add: div_int_pos_iff)
  ultimately show ?thesis by (auto simp: sdiv_abs abs_mult sgn_if)
qed (simp add: sdiv_abs)

lemma modulo_slong:
  assumes "slong a x" "slong b y" "y \<noteq> 0" "x \<noteq> - (2 ^ 63)" "y \<noteq> - (2 ^ 63)"
  shows "\<exists>r. modulo a b = Some r \<and> slong r (x smod y)"
proof -
  obtain q where q: "divide a b = Some q" "slong q (x sdiv y)" using divide_slong [OF assms] by blast
  have "x sdiv y \<noteq> - (2 ^ 63)" using abs_div_le [of x y] slong_range [OF assms(1)] assms(4) by auto
  then obtain c where c: "multiply q b = Some c" "int32s c" "\<not> uns c"
    "word_of_long c = word_of_long q * word_of_long b"
    using multiply_word [of q b] q assms by auto
  have "lval (subtract a c) = x smod y"
  proof (rule lvalI)
    have "x smod y = x - x sdiv y * y" by (simp add: minus_sdiv_mult_eq_smod)
    then show "word_of_long (subtract a c) = word_of_int (x smod y)"
      using c q assms word_of_lval [of q] word_of_lval [of b] word_of_lval [of a] by simp
    have "\<bar>x smod y\<bar> \<le> \<bar>x\<bar>"
      using zmod_le_nonneg_dividend [of "\<bar>x\<bar>" "\<bar>y\<bar>"] assms(3)
      by (auto simp: smod_int_alt_def abs_mult sgn_if)
    then show "- (2 ^ 63) \<le> x smod y" "x smod y < 2 ^ 63" using slong_range [OF assms(1)] assms(4) by auto
  qed
  then show ?thesis using q c assms by (simp add: modulo_def)
qed

text \<open>The smallest value, on either side, sends \<open>divide\<close> into an endless recursion.\<close>

lemma divide_min_None:
  assumes "divide a b = Some c" "int32s a" "int32s b" "\<not> uns a" "\<not> uns b"
  shows "\<not> min_factor a b"
proof -
  have "int32s a \<longrightarrow> int32s b \<longrightarrow> \<not> uns a \<longrightarrow> \<not> uns b \<longrightarrow> \<not> min_factor a b"
    apply (rule divide.raw_induct [OF _ assms(1), where P = "\<lambda>a b _. int32s a \<longrightarrow> int32s b \<longrightarrow>
        \<not> uns a \<longrightarrow> \<not> uns b \<longrightarrow> \<not> min_factor a b"])
    subgoal premises p for f a b c
    proof (intro impI notI)
      assume i: "int32s a" "int32s b" "\<not> uns a" "\<not> uns b" and m: "min_factor a b"
      have n: "\<not> isZero a" "\<not> isZero b" "lval a < 0 \<or> lval b < 0"
        using m i by (auto simp: min_factor_def isZero_iff)
      have "\<exists>a' b' c'. f a' b' = Some c' \<and> int32s a' \<and> int32s b' \<and> \<not> uns a' \<and> \<not> uns b' \<and> min_factor a' b'"
        using p(2) n i min_factor_negate [OF i(1,2) m] m
        by (auto simp: isNegative_iff bind_eq_Some_conv split: if_splits) (metis int32s_negate uns_negate)+
      then show False using p(1) by blast
    qed
    done
  with assms show ?thesis by simp
qed

subsection \<open>Properties\<close>

text \<open>Property C31.
  \<open>divide\<close> of two signed \<open>Long\<close>s whose divisor is not zero: when one of them is the
  smallest value (and the dividend is not zero) the call never returns; otherwise it returns,
  and its result is the quotient truncated towards zero, although every partial quotient is
  computed on rounded doubles.\<close>

theorem divide_spec:
  assumes "int32s a" "int32s b" "\<not> uns a" "\<not> uns b" "lval b \<noteq> 0"
  shows "if lval a = - (2 ^ 63) \<or> lval b = - (2 ^ 63) \<and> lval a \<noteq> 0
         then divide a b = None
         else \<exists>q. divide a b = Some q \<and> int32s q \<and> \<not> uns q \<and> lval q = lval a sdiv lval b"
proof (cases "lval a = - (2 ^ 63) \<or> lval b = - (2 ^ 63) \<and> lval a \<noteq> 0")
  case True
  then have "min_factor a b" using assms by (auto simp: min_factor_def)
  then show ?thesis using True divide_min_None [of a b] assms by (cases "divide a b") auto
next
  case False
  have "divide a b = Some ZERO" if "lval a = 0"
    using that assms by (subst divide.simps) (simp add: isZero_iff)
  then show ?thesis using False divide_slong [of a "lval a" b "lval b"] assms by (cases "lval a = 0") auto
qed

theorem divide_spec_witness:
  "divide (fromBits 0 (- (2 ^ 31)) False) NEG_ONE = None
   \<and> (\<exists>q. divide (fromInt (-7) False) (fromInt 2 False) = Some q \<and> lval q = -3)"
proof
  let ?m = "fromBits 0 (- (2 ^ 31)) False"
  have m: "int32s ?m" by (simp add: to_int32_def)
  moreover from this have "lval ?m = - (2 ^ 63)" by (simp add: lval_eq fromBits_def to_uint32_def)
  moreover have "lval NEG_ONE = -1" by (rule lvalI) simp_all
  ultimately show "divide ?m NEG_ONE = None" using divide_spec [of ?m NEG_ONE] by simp
next
  let ?a = "fromInt (-7) False" and ?b = "fromInt 2 False"
  have i: "int32s ?a" "int32s ?b" "\<not> uns ?a" "\<not> uns ?b"
    by (simp_all add: fromInt_def to_int32_def)
  then have l: "lval ?a = -7" "lval ?b = 2"
    by (simp_all add: lval_eq fromInt_def fromBits_def to_uint32_def to_int32_def)
  show "\<exists>q. divide ?a ?b = Some q \<and> lval q = -3"
    using divide_spec [OF i] l by (auto simp: sdiv_abs)
qed

text \<open>Further fact.
  \<open>modulo\<close> of two signed \<open>Long\<close>s that are not the smallest value, by a divisor that is not
  zero: the call returns the remainder with the sign of the dividend.  In particular the
  remainder of a non-negative number by a positive one lies below the divisor, which the hash
  tables rely on.\<close>

theorem modulo_spec:
  assumes "int32s a" "int32s b" "\<not> uns a" "\<not> uns b"
    and "lval b \<noteq> 0" "lval a \<noteq> - (2 ^ 63)" "lval b \<noteq> - (2 ^ 63)"
  shows "\<exists>r. modulo a b = Some r \<and> int32s r \<and> \<not> uns r \<and> lval r = lval a smod lval b
           \<and> (0 \<le> lval a \<and> 0 < lval b \<longrightarrow> 0 \<le> lval r \<and> lval r < lval b \<and> lval r = lval a mod lval b)"
proof -
  obtain r where "modulo a b = Some r" "slong r (lval a smod lval b)"
    using modulo_slong [of a "lval a" b "lval b"] assms by blast
  moreover have "lval a smod lval b = lval a mod lval b" if "0 \<le> lval a" "0 < lval b"
    using that by (cases "lval a = 0") (simp_all add: smod_int_alt_def)
  ultimately show ?thesis by auto
qed

theorem modulo_spec_witness:
  "\<exists>r. modulo (fromInt (-7) False) (fromInt 5 False) = Some r \<and> lval r = -2"
proof -
  let ?a = "fromInt (-7) False" and ?b = "fromInt 5 False"
  have i: "int32s ?a" "int32s ?b" "\<not> uns ?a" "\<not> uns ?b"
    by (simp_all add: fromInt_def to_int32_def)
  then have l: "lval ?a = -7" "lval ?b = 5"
    by (simp_all add: lval_eq fromInt_def fromBits_def to_uint32_def to_int32_def)
  show ?thesis using modulo_spec [OF i] l by (auto simp: smod_int_alt_def)
qed

end
