(* ===== verification/Hashing.thy ===== *)
theory Hashing
  imports LongDiv
begin

text \<open>
  The hash functions of mwg.js: \<open>PrimitiveHelper.longHash\<close> and \<open>tripleHash\<close>, which place a key
  in a table of a given capacity, and \<open>DataHasher.hash\<close>, which turns an attribute name into a
  number.  All three multiply \<open>Long\<close>s, so each has arguments on which it does not return (the
  ones that bring an intermediate product to the smallest signed value); on the others
  \<open>longHash\<close> and \<open>tripleHash\<close> return an index of the table, which is the interface
  \<open>hash_slots\<close> of the hash maps.
\<close>

unbundle bit_operations_syntax

subsection \<open>The constants\<close>

definition PRIME1 :: long where "PRIME1 = fromNumber 2654435761 False"
definition PRIME2 :: long where "PRIME2 = fromNumber 2246822519 False"
definition PRIME3 :: long where "PRIME3 = fromNumber 3266489917 False"
definition PRIME4 :: long where "PRIME4 = fromNumber 668265263 False"
definition PRIME5 :: long where "PRIME5 = fromNumber 0x165667b1 False"
definition hash_len :: long where "hash_len = fromNumber 24 False"

subsection \<open>longHash\<close>

text \<open>The part of \<open>longHash\<close> that does not depend on \<open>max\<close>.\<close>

definition long_crc :: "int \<Rightarrow> long option" where
  "long_crc number =
     (let n = fromNumber number False;
          crc = PRIME5;
          crc = add crc n;
          crc = add crc (shiftLeft crc 17)
      in do {
        crc \<leftarrow> multiply crc PRIME4;
        crc \<leftarrow> multiply crc PRIME1;
        let crc = add crc n;
        let crc = add crc (shiftLeft crc 17);
        crc \<leftarrow> multiply crc PRIME4;
        crc \<leftarrow> multiply crc PRIME1;
        let crc = add crc hash_len;
        let crc = long_xor crc (shiftRightUnsigned crc 15);
        crc \<leftarrow> multiply crc PRIME2;
        let crc = add crc n;
        let crc = long_xor crc (shiftRightUnsigned crc 13);
        crc \<leftarrow> multiply crc PRIME3;
        let crc = long_xor crc (shiftRightUnsigned crc 16);
        if isNegative crc then multiply crc (fromNumber (-1) False) else Some crc })"

definition hash_mod :: "long option \<Rightarrow> int \<Rightarrow> int result" where
  "hash_mod crc mx =
     (case do { c \<leftarrow> crc; modulo c (fromNumber mx False) } of
        None \<Rightarrow> Inl NoReturn | Some r \<Rightarrow> Inr (toNumber r))"

definition longHash :: "int \<Rightarrow> int \<Rightarrow> int result" where
  "longHash number mx =
     (if mx \<le> 0 then Inl (JsError ''Max must be > 0'') else hash_mod (long_crc number) mx)"

subsection \<open>tripleHash\<close>

abbreviation rotl :: "long \<Rightarrow> int \<Rightarrow> int \<Rightarrow> long" where
  "rotl v l r \<equiv> long_or (shiftLeft v l) (shiftRightUnsigned v r)"

definition triple_crc :: "int \<Rightarrow> int \<Rightarrow> int \<Rightarrow> int \<Rightarrow> long option" where
  "triple_crc p0 p1 p2 p3 =
     (let v1 = PRIME5 in
      do {
        v2 \<leftarrow> multiply v1 PRIME2;
        let v2 = add v2 hash_len;
        v3 \<leftarrow> multiply v2 PRIME3;
        v4 \<leftarrow> multiply v3 PRIME4;
        let v1 = add (rotl v1 13 51) (fromNumber p1 False);
        let v2 = add (rotl v2 11 53) (fromNumber p2 False);
        let v3 = add (rotl v3 17 47) (fromNumber p3 False);
        let v4 = add (rotl v4 19 45) (fromNumber p0 False);
        let v1 = add v1 (rotl v1 17 47);
        let v2 = add v2 (rotl v2 19 45);
        let v3 = add v3 (rotl v3 13 51);
        let v4 = add v4 (rotl v4 11 53);
        v1 \<leftarrow> multiply v1 PRIME1;
        let v1 = add v1 (fromNumber p1 False);
        v2 \<leftarrow> multiply v2 PRIME1;
        let v2 = add v2 (fromNumber p2 False);
        v3 \<leftarrow> multiply v3 PRIME1;
        let v3 = add v3 (fromNumber p3 False);
        v4 \<leftarrow> multiply v4 PRIME1;
        let v4 = add v4 PRIME5;
        v1 \<leftarrow> multiply v1 PRIME2;
        v2 \<leftarrow> multiply v2 PRIME2;
        v3 \<leftarrow> multiply v3 PRIME2;
        v4 \<leftarrow> multiply v4 PRIME2;
        let v1 = add v1 (rotl v1 11 53);
        let v2 = add v2 (rotl v2 17 47);
        let v3 = add v3 (rotl v3 19 45);
        let v4 = add v4 (rotl v4 13 51);
        v1 \<leftarrow> multiply v1 PRIME3;
        v2 \<leftarrow> multiply v2 PRIME3;
        v3 \<leftarrow> multiply v3 PRIME3;
        v4 \<leftarrow> multiply v4 PRIME3;
        let crc = v1;
        let crc = add crc (rotl v2 3 61);
        let crc = add crc (rotl v3 6 58);
        let crc = add crc (rotl v4 9 55);
        let crc = long_xor crc (shiftRightUnsigned crc 11);
        s \<leftarrow> multiply (add PRIME4 hash_len) PRIME1;
        let crc = add crc s;
        let crc = long_xor crc (shiftRightUnsigned crc 15);
        crc \<leftarrow> multiply crc PRIME2;
        let crc = long_xor crc (shiftRightUnsigned crc 13);
        if isNegative crc then multiply crc (fromNumber (-1) False) else Some crc })"

definition tripleHash :: "int \<Rightarrow> int \<Rightarrow> int \<Rightarrow> int \<Rightarrow> int \<Rightarrow> int result" where
  "tripleHash p0 p1 p2 p3 mx =
     (if mx \<le> 0 then Inl (JsError ''Max must be > 0'') else hash_mod (triple_crc p0 p1 p2 p3) mx)"

subsection \<open>DataHasher\<close>

text \<open>A JavaScript string is the list of its UTF-16 code units.\<close>

type_synonym jsstring = "int list"

definition HSTART :: long where "HSTART = fromBits 0xA205B064 0xBB40E64D False"
definition HMULT :: long where "HMULT = fromBits 0xE116586D 0x6A5D39EA False"

definition byte_round :: "long \<Rightarrow> long" where
  "byte_round h =
     (let h = long_xor (shiftRightUnsigned h 7) h;
          h = long_xor (shiftLeft h 11) h;
          h = long_xor (shiftRightUnsigned h 10) h
      in h)"

fun byte_rounds :: "nat \<Rightarrow> long \<Rightarrow> long" where
  "byte_rounds 0 h = h"
| "byte_rounds (Suc j) h = byte_rounds j (byte_round h)"

fun byte_table_loop :: "nat \<Rightarrow> long \<Rightarrow> long list" where
  "byte_table_loop 0 h = []"
| "byte_table_loop (Suc n) h = (let h = byte_rounds 31 h in toSigned h # byte_table_loop n h)"

definition byteTable :: "long list" where
  "byteTable = byte_table_loop 256 (fromBits 0xCAAF1684 0x544B2FBA False)"

fun data_hash_loop :: "long \<Rightarrow> jsstring \<Rightarrow> long option" where
  "data_hash_loop h [] = Some h"
| "data_hash_loop h (c # cs) =
     do { p \<leftarrow> multiply h HMULT;
          data_hash_loop (long_xor p (byteTable ! nat (js_and c 0xff))) cs }"

definition END_OF_TIME :: int where "END_OF_TIME = 0x1FFFFFFFFFFFFE"

definition data_hash :: "jsstring \<Rightarrow> int option" where
  "data_hash data =
     do { h \<leftarrow> data_hash_loop HSTART data;
          r \<leftarrow> modulo h (fromNumber END_OF_TIME False);
          Some (toNumber r) }"

end
