(* ===== verification/HashSpec.thy ===== *)
theory HashSpec
  imports Hashing
begin

text \<open>
  The hash functions against their reference on 64-bit words: \<open>lrel\<close> relates a \<open>Long\<close> to a word,
  every operation of the hashes preserves the relation (collection \<open>lrel_intros\<close>), so each hash is
  its word version, and the locale \<open>hash_slots\<close> is interpreted on both table hashes.
\<close>

unbundle bit_operations_syntax

subsection \<open>The reference on words\<close>

text \<open>
  The same hashes on 64-bit words.  The only trace of the implementation is \<open>wmul\<close>: a product
  whose first factor is the smallest signed value does not return.
\<close>

definition wmul :: "64 word \<Rightarrow> 64 word \<Rightarrow> 64 word option" where
  "wmul x y = (if x = - (2 ^ 63) then None else Some (x * y))"

lemma wmul_code [code]: "wmul x y = (if x = 9223372036854775808 then None else Some (x * y))"
  by (simp add: wmul_def)

definition wabs :: "64 word \<Rightarrow> 64 word option" where
  "wabs x = (if sint x < 0 then wmul x (-1) else Some x)"

definition rotate_left :: "nat \<Rightarrow> 64 word \<Rightarrow> 64 word" where
  "rotate_left k x = push_bit k x OR drop_bit (64 - k) x"

definition long_crc_word :: "int \<Rightarrow> 64 word option" where
  "long_crc_word number =
     (let n = word_of_int number;
          crc = 0x165667b1 + n;
          crc = crc + push_bit 17 crc
      in do {
        crc \<leftarrow> wmul crc 668265263;
        crc \<leftarrow> wmul crc 2654435761;
        let crc = crc + n;
        let crc = crc + push_bit 17 crc;
        crc \<leftarrow> wmul crc 668265263;
        crc \<leftarrow> wmul crc 2654435761;
        let crc = crc + 24;
        let crc = crc XOR drop_bit 15 crc;
        crc \<leftarrow> wmul crc 2246822519;
        let crc = crc + n;
        let crc = crc XOR drop_bit 13 crc;
        crc \<leftarrow> wmul crc 3266489917;
        let crc = crc XOR drop_bit 16 crc;
        wabs crc })"

definition triple_crc_word :: "int \<Rightarrow> int \<Rightarrow> int \<Rightarrow> int \<Rightarrow> 64 word option" where
  "triple_crc_word p0 p1 p2 p3 =
     (let P1 = 2654435761; P2 = 2246822519; P3 = 3266489917; P4 = 668265263; P5 = 0x165667b1;
          v1 = P5
      in do {
        v2 \<leftarrow> wmul v1 P2; let v2 = v2 + 24;
        v3 \<leftarrow> wmul v2 P3;
        v4 \<leftarrow> wmul v3 P4;
        let v1 = rotate_left 13 v1 + word_of_int p1;
        let v2 = rotate_left 11 v2 + word_of_int p2;
        let v3 = rotate_left 17 v3 + word_of_int p3;
        let v4 = rotate_left 19 v4 + word_of_int p0;
        let v1 = v1 + rotate_left 17 v1;
        let v2 = v2 + rotate_left 19 v2;
        let v3 = v3 + rotate_left 13 v3;
        let v4 = v4 + rotate_left 11 v4;
        v1 \<leftarrow> wmul v1 P1; let v1 = v1 + word_of_int p1;
        v2 \<leftarrow> wmul v2 P1; let v2 = v2 + word_of_int p2;
        v3 \<leftarrow> wmul v3 P1; let v3 = v3 + word_of_int p3;
        v4 \<leftarrow> wmul v4 P1; let v4 = v4 + P5;
        v1 \<leftarrow> wmul v1 P2;
        v2 \<leftarrow> wmul v2 P2;
        v3 \<leftarrow> wmul v3 P2;
        v4 \<leftarrow> wmul v4 P2;
        v1 \<leftarrow> wmul (v1 + rotate_left 11 v1) P3;
        v2 \<leftarrow> wmul (v2 + rotate_left 17 v2) P3;
        v3 \<leftarrow> wmul (v3 + rotate_left 19 v3) P3;
        v4 \<leftarrow> wmul (v4 + rotate_left 13 v4) P3;
        let crc = v1 + rotate_left 3 v2 + rotate_left 6 v3 + rotate_left 9 v4;
        let crc = crc XOR drop_bit 11 crc;
        s \<leftarrow> wmul (P4 + 24) P1;
        let crc = crc + s;
        let crc = crc XOR drop_bit 15 crc;
        crc \<leftarrow> wmul crc P2;
        let crc = crc XOR drop_bit 13 crc;
        wabs crc })"

definition key_range :: "int \<Rightarrow> bool" where
  "key_range k \<longleftrightarrow> \<bar>k\<bar> < 2 ^ 53"

subsection \<open>Longs and words\<close>

definition lrel :: "long \<Rightarrow> 64 word \<Rightarrow> bool" where
  "lrel l w \<longleftrightarrow> int32s l \<and> \<not> uns l \<and> word_of_long l = w"

named_theorems lrel_intros "the operations of Long and of words are related"

lemma lrel_lval: "lrel l w \<Longrightarrow> lval l = sint w"
  by (auto simp: lrel_def lval_def)

lemma lrel_fromNumber [lrel_intros]: "key_range k \<Longrightarrow> lrel (fromNumber k False) (word_of_int k)"
  using fromNumber_small [of k] by (simp add: lrel_def key_range_def word_of_lval)

lemma lrel_numeral:
  "key_range (numeral n) \<Longrightarrow> lrel (fromNumber (numeral n) False) (numeral n)"
  "lrel (fromNumber (-1) False) (-1)"
  using lrel_fromNumber [of "numeral n"] lrel_fromNumber [of "-1"] by (simp_all add: key_range_def)

lemma lrel_consts [lrel_intros]:
  "lrel PRIME1 2654435761" "lrel PRIME2 2246822519" "lrel PRIME3 3266489917"
  "lrel PRIME4 668265263" "lrel PRIME5 0x165667b1" "lrel hash_len 24"
  unfolding PRIME1_def PRIME2_def PRIME3_def PRIME4_def PRIME5_def hash_len_def
  by (rule lrel_numeral(1); simp add: key_range_def)+

lemma lrel_ops [lrel_intros]:
  "lrel a x \<Longrightarrow> lrel b y \<Longrightarrow> lrel (add a b) (x + y)"
  "lrel a x \<Longrightarrow> lrel b y \<Longrightarrow> lrel (long_xor a b) (x XOR y)"
  "lrel a x \<Longrightarrow> lrel b y \<Longrightarrow> lrel (long_or a b) (x OR y)"
  by (simp_all add: lrel_def)

lemma lrel_shiftLeft [lrel_intros]:
  "lrel a x \<Longrightarrow> k = nat (n mod 64) \<Longrightarrow> lrel (shiftLeft a n) (push_bit k x)"
  by (simp add: lrel_def word_of_long_shiftLeft)

lemma lrel_shiftRightUnsigned [lrel_intros]:
  "lrel a x \<Longrightarrow> k = nat (n mod 64) \<Longrightarrow> lrel (shiftRightUnsigned a n) (drop_bit k x)"
  by (simp add: lrel_def word_of_long_shiftRightUnsigned)

lemma lrel_rotl [lrel_intros]:
  "lrel a x \<Longrightarrow> 0 < l \<Longrightarrow> l < 64 \<Longrightarrow> k = nat l \<Longrightarrow> r = 64 - l \<Longrightarrow> lrel (rotl a l r) (rotate_left k x)"
proof -
  assume a: "lrel a x" "0 < l" "l < 64" "k = nat l" "r = 64 - l"
  then have "0 \<le> r" "r < 64" by auto
  then have "r mod 64 = r" by (rule mod_pos_pos_trivial)
  moreover have "l mod 64 = l" using a by (intro mod_pos_pos_trivial) auto
  ultimately show "lrel (rotl a l r) (rotate_left k x)"
    unfolding rotate_left_def using a by (intro lrel_intros) (simp_all add: nat_diff_distrib)
qed

lemma sint_min: "sint (x :: 64 word) = - (2 ^ 63) \<longleftrightarrow> x = - (2 ^ 63)"
proof -
  have "sint (- (2 ^ 63) :: 64 word) = - (2 ^ 63)" by simp
  then show ?thesis by (metis signed_word_eqI)
qed

lemma multiply_lrel [lrel_intros]:
  assumes "lrel a x" "lrel b y" "sint y \<noteq> 0" "sint y \<noteq> - (2 ^ 63)"
  shows "rel_option lrel (multiply a b) (wmul x y)"
proof (cases "x = - (2 ^ 63)")
  case True
  then have "min_factor a b" using assms by (simp add: min_factor_def lrel_lval)
  then have "multiply a b = None"
    using multiply_min_None [of a b] assms by (cases "multiply a b") (auto simp: lrel_def)
  then show ?thesis using True by (simp add: wmul_def)
next
  case False
  then have "lval a \<noteq> - (2 ^ 63)" using sint_min [of x] lrel_lval [OF assms(1)] by simp
  moreover have "lval b \<noteq> - (2 ^ 63)" using assms by (simp add: lrel_lval)
  ultimately obtain c where "multiply a b = Some c" "int32s c" "\<not> uns c"
    "word_of_long c = word_of_long a * word_of_long b"
    using multiply_word [of a b] assms by (auto simp: lrel_def)
  then show ?thesis using False assms by (simp add: wmul_def lrel_def)
qed

lemma bind_lrel [lrel_intros]:
  "rel_option lrel m m' \<Longrightarrow> (\<And>x y. lrel x y \<Longrightarrow> rel_option lrel (f x) (g y)) \<Longrightarrow>
   rel_option lrel (Option.bind m f) (Option.bind m' g)"
  by (cases m; cases m') auto

lemma isNegative_lrel: "lrel a x \<Longrightarrow> isNegative a \<longleftrightarrow> sint x < 0"
  by (simp add: isNegative_iff lrel_def lval_def)

lemma abs_lrel [lrel_intros]:
  "lrel a x \<Longrightarrow> rel_option lrel (if isNegative a then multiply a (fromNumber (-1) False) else Some a) (wabs x)"
  unfolding wabs_def
  by (auto simp: isNegative_lrel intro!: multiply_lrel lrel_numeral(2))

lemma long_crc_lrel: "key_range k \<Longrightarrow> rel_option lrel (long_crc k) (long_crc_word k)"
  unfolding long_crc_def long_crc_word_def Let_def
  by (intro lrel_intros) simp_all

lemma triple_crc_lrel:
  "key_range p0 \<Longrightarrow> key_range p1 \<Longrightarrow> key_range p2 \<Longrightarrow> key_range p3 \<Longrightarrow>
   rel_option lrel (triple_crc p0 p1 p2 p3) (triple_crc_word p0 p1 p2 p3)"
  unfolding triple_crc_def triple_crc_word_def Let_def
  by (intro lrel_intros) simp_all

lemma sint_of_int: "- (2 ^ 63) \<le> z \<Longrightarrow> z < 2 ^ 63 \<Longrightarrow> sint (word_of_int z :: 64 word) = z"
  by (simp add: sint_sbintrunc' signed_take_bit_int_eq_self)

lemma sint_range: "- (2 ^ 63) \<le> sint (x :: 64 word) \<and> sint x < 2 ^ 63"
  using sint_ge [of x] sint_lt [of x] by simp

lemma wabs_nonneg: "wabs x = Some y \<Longrightarrow> 0 \<le> sint y"
proof -
  assume a: "wabs x = Some y"
  show ?thesis
  proof (cases "sint x < 0")
    case True
    then have y: "x \<noteq> - (2 ^ 63)" "y = - x" using a by (auto simp: wabs_def wmul_def split: if_splits)
    have "- x = word_of_int (- sint x)" by simp
    then have "sint y = - sint x"
      using y True sint_range [of x] sint_min [of x] by (simp only: y) (rule sint_of_int; simp)
    then show ?thesis using True by simp
  qed (use a in \<open>simp add: wabs_def\<close>)
qed

lemma long_crc_word_nonneg: "long_crc_word k = Some w \<Longrightarrow> 0 \<le> sint w"
  unfolding long_crc_word_def Let_def by (auto simp: bind_eq_Some_conv dest: wabs_nonneg)

lemma triple_crc_word_nonneg: "triple_crc_word p0 p1 p2 p3 = Some w \<Longrightarrow> 0 \<le> sint w"
  unfolding triple_crc_word_def Let_def by (auto simp: bind_eq_Some_conv dest: wabs_nonneg)

lemma hash_mod_lrel:
  assumes "rel_option lrel m m'" "\<And>w. m' = Some w \<Longrightarrow> 0 \<le> sint w" "0 < mx" "key_range mx"
  shows "hash_mod m mx = (case m' of None \<Rightarrow> Inl NoReturn | Some w \<Rightarrow> Inr (sint w mod mx))"
proof (cases m')
  case None
  then show ?thesis using assms by (simp add: hash_mod_def)
next
  case (Some w)
  then obtain c where c: "m = Some c" "lrel c w" using assms(1) by (auto simp: option_rel_Some2)
  have w: "0 \<le> sint w" using assms(2) Some by simp
  have mx: "slong (fromNumber mx False) mx" using fromNumber_small [of mx] assms by (simp add: key_range_def)
  obtain r where r: "modulo c (fromNumber mx False) = Some r" "slong r (sint w smod mx)"
    using modulo_slong [OF _ mx, of c "sint w"] c w assms by (auto simp: lrel_def lval_def key_range_def)
  have s: "sint w smod mx = sint w mod mx"
    using w assms by (cases "sint w = 0") (simp_all add: smod_int_alt_def)
  have "0 \<le> sint w mod mx" "sint w mod mx < mx" using assms by simp_all
  then have "\<bar>sint w mod mx\<bar> < 2 ^ 53" using assms(3,4) unfolding key_range_def by linarith
  then have "toNumber r = sint w mod mx" using r s toNumber_small [of r] by simp
  then show ?thesis using Some c r by (simp add: hash_mod_def)
qed

subsection \<open>The slots of a hash table\<close>

text \<open>
  What the hash tables rely on: on every key that is \<open>ok\<close>, and every capacity \<open>n\<close>, the hash
  is a slot below \<open>n\<close>.
\<close>

locale hash_slots =
  fixes h :: "'k \<Rightarrow> int \<Rightarrow> int result" and ok :: "'k \<Rightarrow> bool"
  assumes slot: "ok k \<Longrightarrow> 0 < n \<Longrightarrow> n < 2 ^ 31 \<Longrightarrow> \<exists>i. h k n = Inr i \<and> 0 \<le> i \<and> i < n"
begin

lemma slot_nat: "ok k \<Longrightarrow> 0 < n \<Longrightarrow> n < 2 ^ 31 \<Longrightarrow> \<exists>i < n. h k (int n) = Inr (int i)"
proof -
  assume "ok k" "0 < n" "n < 2 ^ 31"
  then obtain i where "h k (int n) = Inr i" "0 \<le> i" "i < int n" using slot [of k "int n"] by auto
  then show ?thesis by (intro exI [of _ "nat i"]) auto
qed

lemma slot_one: "ok k \<Longrightarrow> h k 1 = Inr 0"
  using slot [of k 1] by fastforce

end

definition hashable :: "int \<Rightarrow> bool" where
  "hashable k \<longleftrightarrow> key_range k \<and> long_crc k \<noteq> None"

definition triple_hashable :: "int \<times> int \<times> int \<times> int \<Rightarrow> bool" where
  "triple_hashable = (\<lambda>(p0, p1, p2, p3). key_range p0 \<and> key_range p1 \<and> key_range p2 \<and> key_range p3
                       \<and> triple_crc p0 p1 p2 p3 \<noteq> None)"

lemma longHash_ok:
  assumes "key_range k" "0 < mx" "key_range mx"
  shows "longHash k mx = (case long_crc_word k of None \<Rightarrow> Inl NoReturn | Some w \<Rightarrow> Inr (sint w mod mx))"
  using assms hash_mod_lrel [OF long_crc_lrel [of k] long_crc_word_nonneg [of k], where mx = mx] by (simp add: longHash_def)

lemma tripleHash_ok:
  assumes "key_range p0" "key_range p1" "key_range p2" "key_range p3" "0 < mx" "key_range mx"
  shows "tripleHash p0 p1 p2 p3 mx =
    (case triple_crc_word p0 p1 p2 p3 of None \<Rightarrow> Inl NoReturn | Some w \<Rightarrow> Inr (sint w mod mx))"
  using assms hash_mod_lrel [OF triple_crc_lrel [of p0 p1 p2 p3] triple_crc_word_nonneg [of p0 p1 p2 p3], where mx = mx]
  by (simp add: tripleHash_def)

lemma long_crc_None: "key_range k \<Longrightarrow> long_crc k = None \<longleftrightarrow> long_crc_word k = None"
  using long_crc_lrel [of k] by (cases "long_crc k"; cases "long_crc_word k") auto

lemma triple_crc_None: "key_range p0 \<Longrightarrow> key_range p1 \<Longrightarrow> key_range p2 \<Longrightarrow> key_range p3 \<Longrightarrow>
   triple_crc p0 p1 p2 p3 = None \<longleftrightarrow> triple_crc_word p0 p1 p2 p3 = None"
  using triple_crc_lrel [of p0 p1 p2 p3]
  by (cases "triple_crc p0 p1 p2 p3"; cases "triple_crc_word p0 p1 p2 p3") auto

text \<open>Evaluated on words.\<close>

lemma hashable_code [code]: "hashable k \<longleftrightarrow> key_range k \<and> long_crc_word k \<noteq> None"
  by (simp add: hashable_def long_crc_None cong: conj_cong del: not_None_eq)

lemma triple_hashable_code [code]:
  "triple_hashable (p0, p1, p2, p3) \<longleftrightarrow> key_range p0 \<and> key_range p1 \<and> key_range p2 \<and> key_range p3
     \<and> triple_crc_word p0 p1 p2 p3 \<noteq> None"
  by (simp add: triple_hashable_def triple_crc_None cong: conj_cong del: not_None_eq)

lemma capacity_key_range: "0 < n \<Longrightarrow> n < 2 ^ 31 \<Longrightarrow> key_range n"
  by (simp add: key_range_def)

interpretation key_hash: hash_slots longHash hashable
proof
  fix k n :: int assume "hashable k" "0 < n" "n < 2 ^ 31"
  then show "\<exists>i. longHash k n = Inr i \<and> 0 \<le> i \<and> i < n"
    using longHash_ok [of k n] capacity_key_range [of n] long_crc_None [of k]
    by (auto simp: hashable_def)
qed

interpretation chunk_hash: hash_slots "\<lambda>(p0, p1, p2, p3). tripleHash p0 p1 p2 p3" triple_hashable
proof
  fix k :: "int \<times> int \<times> int \<times> int" and n :: int
  assume k: "triple_hashable k" and n: "0 < n" "n < 2 ^ 31"
  obtain p0 p1 p2 p3 where "k = (p0, p1, p2, p3)" by (cases k) auto
  then show "\<exists>i. (case k of (p0, p1, p2, p3) \<Rightarrow> tripleHash p0 p1 p2 p3) n = Inr i \<and> 0 \<le> i \<and> i < n"
    using k n tripleHash_ok [of p0 p1 p2 p3 n] capacity_key_range [of n] triple_crc_None [of p0 p1 p2 p3]
    by (auto simp: triple_hashable_def)
qed

subsection \<open>The string hash\<close>

definition byte_round_word :: "64 word \<Rightarrow> 64 word" where
  "byte_round_word h =
     (let h = drop_bit 7 h XOR h; h = push_bit 11 h XOR h in drop_bit 10 h XOR h)"

definition byte_word :: "nat \<Rightarrow> 64 word" where
  "byte_word i = (byte_round_word ^^ (31 * Suc i)) 0x544B2FBACAAF1684"

fun data_word_loop :: "64 word \<Rightarrow> jsstring \<Rightarrow> 64 word option" where
  "data_word_loop h [] = Some h"
| "data_word_loop h (c # cs) =
     do { p \<leftarrow> wmul h 0x6A5D39EAE116586D;
          data_word_loop (p XOR byte_word (nat (c mod 256))) cs }"

text \<open>The table holds halves that are signed 32-bit numbers, but for the seed itself.\<close>

definition wrel :: "long \<Rightarrow> 64 word \<Rightarrow> bool" where
  "wrel l w \<longleftrightarrow> \<not> uns l \<and> word_of_long l = w"

lemma byte_round_lrel: "wrel h w \<Longrightarrow> lrel (byte_round h) (byte_round_word w)"
  by (simp add: byte_round_def byte_round_word_def Let_def lrel_def wrel_def
      word_of_long_shiftLeft word_of_long_shiftRightUnsigned)

lemma lrel_wrel: "lrel h w \<Longrightarrow> wrel h w"
  by (simp add: lrel_def wrel_def)

lemma byte_rounds_lrel: "wrel h w \<Longrightarrow> lrel (byte_rounds (Suc n) h) ((byte_round_word ^^ Suc n) w)"
proof (induction n arbitrary: h w)
  case 0
  then show ?case by (simp add: byte_round_lrel)
next
  case (Suc n)
  from Suc.IH [OF lrel_wrel [OF byte_round_lrel [OF Suc.prems]]] show ?case
    by (simp add: funpow_swap1)
qed

lemma byte_table_loop_lrel:
  "wrel h w \<Longrightarrow> i < n \<Longrightarrow> lrel (byte_table_loop n h ! i) ((byte_round_word ^^ (31 * Suc i)) w)"
proof (induction n arbitrary: h w i)
  case (Suc n)
  have b: "lrel (byte_rounds 31 h) ((byte_round_word ^^ 31) w)"
    using byte_rounds_lrel [OF Suc.prems(1), of 30] by (simp only: eval_nat_numeral)
  show ?case
  proof (cases i)
    case 0
    then show ?thesis using b by (simp add: toSigned_def lrel_def Let_def)
  next
    case (Suc k)
    have "lrel (byte_table_loop n (byte_rounds 31 h) ! k) ((byte_round_word ^^ (31 * Suc k)) ((byte_round_word ^^ 31) w))"
      using Suc.IH [OF lrel_wrel [OF b], of k] Suc.prems Suc by simp
    also have "(byte_round_word ^^ (31 * Suc k)) ((byte_round_word ^^ 31) w) = (byte_round_word ^^ (31 * Suc i)) w"
    proof -
      have "31 * Suc i = 31 * Suc k + 31" using Suc by simp
      then show ?thesis by (simp only: funpow_add comp_apply)
    qed
    finally show ?thesis using Suc by (simp add: Let_def)
  qed
qed simp

lemma byteTable_lrel: "i < 256 \<Longrightarrow> lrel (byteTable ! i) (byte_word i)"
  unfolding byteTable_def byte_word_def
  by (rule byte_table_loop_lrel)
     (simp_all add: wrel_def word_of_long_eqI uint_word_of_long fromBits_def to_uint32_def)

lemma HMULT_facts: "\<not> isZero HMULT" "\<not> equals HMULT MIN_VALUE" "\<not> isNegative HMULT"
  "\<not> lessThan HMULT TWO_PWR_24" "\<not> uns HMULT"
  by code_simp+

lemma word_HMULT: "word_of_long HMULT = 0x6A5D39EAE116586D"
  by (rule word_of_long_eqI) (simp add: uint_word_of_long HMULT_def fromBits_def to_uint32_def)

lemma minus_min: "- (- (2 ^ 63)) = (- (2 ^ 63) :: 64 word)"
  by simp

lemma lrel_negate: "lrel a x \<Longrightarrow> lrel (negate a) (- x)"
  by (simp add: lrel_def)

lemma multiply_HMULT_min:
  assumes "multiply a b = Some c"
  shows "\<not> (b = HMULT \<and> lrel a (- (2 ^ 63)))"
  apply (rule multiply.raw_induct [OF _ assms, where P = "\<lambda>a b _. \<not> (b = HMULT \<and> lrel a (- (2 ^ 63)))"])
  subgoal premises p for f a b c
  proof
    assume a: "b = HMULT \<and> lrel a (- (2 ^ 63))"
    then have "isNegative a" "\<not> isZero a" "\<not> equals a MIN_VALUE"
      by (simp_all add: isNegative_lrel isZero_iff lrel_def lval_def)
    then obtain c' where "f (negate a) HMULT = Some c'"
      using p(2) a HMULT_facts by (auto simp: bind_eq_Some_conv split: if_splits)
    moreover have "lrel (negate a) (- (2 ^ 63))"
      using lrel_negate [of a "- (2 ^ 63)"] a by (simp only: minus_min)
    ultimately show False using p(1) by blast
  qed
  done

lemma multiply_HMULT_nonneg:
  assumes "lrel a x" "0 \<le> sint x"
  shows "\<exists>c. multiply a HMULT = Some c \<and> lrel c (x * 0x6A5D39EAE116586D)"
proof (cases "isZero a")
  case True
  then have "x = 0" using assms signed_word_eqI [of x 0] by (simp add: isZero_iff lrel_def lval_def)
  then show ?thesis using True by (subst multiply.simps) (simp add: lrel_def)
next
  case False
  then have "multiply a HMULT = Some (multiply_digits a HMULT)"
    using assms HMULT_facts by (subst multiply.simps) (simp add: isNegative_lrel lrel_def isNegative_iff lval_def)
  then show ?thesis using assms by (simp add: lrel_def word_HMULT)
qed

lemma multiply_HMULT: "lrel a x \<Longrightarrow> rel_option lrel (multiply a HMULT) (wmul x 0x6A5D39EAE116586D)"
proof -
  assume a: "lrel a x"
  consider "x = - (2 ^ 63)" | "0 \<le> sint x" | "sint x < 0" "x \<noteq> - (2 ^ 63)" by linarith
  then show ?thesis
  proof cases
    case 1
    then have "multiply a HMULT = None" using multiply_HMULT_min [of a HMULT] a by (cases "multiply a HMULT") auto
    then show ?thesis using 1 by (simp add: wmul_def)
  next
    case 2
    then have "x \<noteq> - (2 ^ 63)" by auto
    then show ?thesis using multiply_HMULT_nonneg [OF a 2] by (auto simp: wmul_def)
  next
    case 3
    have "- x = word_of_int (- sint x)" by simp
    then have "sint (- x) = - sint x"
      using 3 sint_range [of x] sint_min [of x] by (simp only:) (rule sint_of_int; simp)
    then obtain c where c: "multiply (negate a) HMULT = Some c" "lrel c (- x * 0x6A5D39EAE116586D)"
      using multiply_HMULT_nonneg [OF lrel_negate [OF a]] 3 by auto
    have "isNegative a" "\<not> isZero a" using a 3 by (auto simp: isNegative_lrel isZero_iff lrel_def lval_def)
    then have "multiply a HMULT = Some (negate c)"
      using c a HMULT_facts by (subst multiply.simps) (simp add: lrel_def)
    then show ?thesis using lrel_negate [OF c(2)] 3 by (simp add: wmul_def)
  qed
qed

lemma HSTART_times: "multiply HSTART HMULT = Some (multiply_digits HSTART HMULT)"
  by code_simp

lemma HSTART_times_lrel: "lrel (multiply_digits HSTART HMULT) (0xBB40E64DA205B064 * 0x6A5D39EAE116586D)"
proof -
  have "word_of_long HSTART = 0xBB40E64DA205B064"
    by (rule word_of_long_eqI) (simp add: uint_word_of_long HSTART_def fromBits_def to_uint32_def)
  then show ?thesis by (simp add: lrel_def word_HMULT) (simp add: HSTART_def)
qed

lemma js_and_byte: "js_and c 0xff = c mod 256"
proof -
  have "js_and c 0xff = take_bit 8 (to_int32 c)"
    by (simp add: js_and_def take_bit_eq_mask mask_eq_exp_minus_1 to_int32_def)
  also have "\<dots> = take_bit 8 c" by (simp add: to_int32_bits take_bit_signed_take_bit)
  finally show ?thesis by (simp add: take_bit_eq_mod)
qed

lemma byteTable_char: "lrel (byteTable ! nat (js_and c 0xff)) (byte_word (nat (c mod 256)))"
  unfolding js_and_byte by (rule byteTable_lrel) (simp add: nat_less_iff)

lemma data_hash_loop_lrel: "lrel h w \<Longrightarrow> rel_option lrel (data_hash_loop h cs) (data_word_loop w cs)"
proof (induction cs arbitrary: h w)
  case (Cons c cs)
  show ?case
    unfolding data_hash_loop.simps data_word_loop.simps
    by (rule bind_lrel [OF multiply_HMULT [OF Cons.prems]]) (intro Cons.IH lrel_ops byteTable_char)
qed simp

definition data_word :: "int \<Rightarrow> jsstring \<Rightarrow> 64 word option" where
  "data_word c cs = data_word_loop (0xBB40E64DA205B064 * 0x6A5D39EAE116586D XOR byte_word (nat (c mod 256))) cs"

lemma data_hash_Cons: "rel_option lrel (data_hash_loop HSTART (c # cs)) (data_word c cs)"
  unfolding data_word_def data_hash_loop.simps HSTART_times Option.bind.bind_lunit
  by (rule data_hash_loop_lrel) (intro lrel_ops HSTART_times_lrel byteTable_char)

lemma END_OF_TIME_slong: "slong (fromNumber END_OF_TIME False) END_OF_TIME"
  using fromNumber_small [of END_OF_TIME] by (simp add: END_OF_TIME_def)

lemma data_hash_word:
  "data_hash (c # cs) =
     (case data_word c cs of None \<Rightarrow> None
      | Some w \<Rightarrow> if w = - (2 ^ 63) then None else Some (sint w smod END_OF_TIME))
   \<and> (case data_hash (c # cs) of None \<Rightarrow> True | Some r \<Rightarrow> \<bar>r\<bar> < END_OF_TIME)"
proof (cases "data_word c cs")
  case None
  then have "data_hash_loop HSTART (c # cs) = None" using data_hash_Cons [of c cs] by simp
  then show ?thesis using None by (simp add: data_hash_def)
next
  case (Some w)
  then obtain h where h: "data_hash_loop HSTART (c # cs) = Some h" "lrel h w"
    using data_hash_Cons [of c cs] by (auto simp: option_rel_Some2)
  show ?thesis
  proof (cases "w = - (2 ^ 63)")
    case True
    then have "min_factor h (fromNumber END_OF_TIME False)"
      using h END_OF_TIME_slong by (simp add: min_factor_def lrel_lval END_OF_TIME_def)
    then have "divide h (fromNumber END_OF_TIME False) = None"
      using divide_min_None [of h "fromNumber END_OF_TIME False"] h END_OF_TIME_slong
      by (cases "divide h (fromNumber END_OF_TIME False)") (auto simp: lrel_def)
    then show ?thesis using True Some h by (simp add: data_hash_def modulo_def del: data_hash_loop.simps)
  next
    case False
    then obtain r where r: "modulo h (fromNumber END_OF_TIME False) = Some r" "slong r (sint w smod END_OF_TIME)"
      using modulo_slong [OF _ END_OF_TIME_slong, of h "sint w"] h sint_min [of w]
      by (auto simp: lrel_def lval_def END_OF_TIME_def)
    have b: "\<bar>sint w smod END_OF_TIME\<bar> < END_OF_TIME"
      using smod_int_range [of END_OF_TIME "sint w"] by (auto simp: END_OF_TIME_def)
    then have "toNumber r = sint w smod END_OF_TIME"
      using r toNumber_small [of r] by (simp add: END_OF_TIME_def)
    then show ?thesis using False Some h r b by (simp add: data_hash_def del: data_hash_loop.simps)
  qed
qed

lemma byteTable_0: "byteTable ! nat (js_and 0 0xff) = toSigned (byte_rounds 31 (fromBits 0xCAAF1684 0x544B2FBA False))"
proof -
  have "nat (js_and 0 0xff) = 0" by code_simp
  moreover have "(256 :: nat) = Suc 255" by simp
  ultimately show ?thesis unfolding byteTable_def by (simp only: byte_table_loop.simps Let_def nth_Cons_0)
qed

subsection \<open>Properties\<close>

text \<open>Property C30.
  \<open>longHash\<close> of a key in the range of identifiers and times: a capacity that is not positive is
  refused with the error; otherwise the result is the absolute value of the reference
  hash on 64-bit words, modulo the capacity, hence a slot of the table; the only calls that do
  not return are those where the reference meets the smallest signed value.\<close>

theorem longHash_spec:
  assumes "key_range k" "key_range mx"
  shows "longHash k mx =
     (if mx \<le> 0 then Inl (JsError ''Max must be > 0'')
      else case long_crc_word k of None \<Rightarrow> Inl NoReturn | Some w \<Rightarrow> Inr (sint w mod mx))
   \<and> (\<forall>i. longHash k mx = Inr i \<longrightarrow> 0 \<le> i \<and> i < mx)"
  using longHash_ok [OF assms(1) _ assms(2)]
  by (cases "mx \<le> 0") (auto simp: longHash_def [of k mx] split: option.splits)

theorem longHash_spec_witness:
  "(\<exists>w. long_crc_word 1 = Some w \<and> longHash 1 16 = Inr (sint w mod 16))
   \<and> longHash 1 0 = Inl (JsError ''Max must be > 0'')"
proof -
  have "key_range 1" "key_range 16" "key_range 0" by code_simp+
  moreover have "long_crc_word 1 \<noteq> None" by code_simp
  ultimately show ?thesis
    using longHash_spec [of 1 16] longHash_spec [of 1 0] by auto
qed

text \<open>Further fact.
  \<open>tripleHash\<close>, the hash of a chunk's type, world, time and id: the same contract against its
  reference on words.\<close>

theorem tripleHash_spec:
  assumes "key_range p0" "key_range p1" "key_range p2" "key_range p3" "key_range mx"
  shows "tripleHash p0 p1 p2 p3 mx =
     (if mx \<le> 0 then Inl (JsError ''Max must be > 0'')
      else case triple_crc_word p0 p1 p2 p3 of None \<Rightarrow> Inl NoReturn | Some w \<Rightarrow> Inr (sint w mod mx))
   \<and> (\<forall>i. tripleHash p0 p1 p2 p3 mx = Inr i \<longrightarrow> 0 \<le> i \<and> i < mx)"
  using tripleHash_ok [OF assms(1-4) _ assms(5)]
  by (cases "mx \<le> 0") (auto simp: tripleHash_def [of p0 p1 p2 p3 mx] split: option.splits)

theorem tripleHash_spec_witness:
  "\<exists>w. triple_crc_word 2 0 0 7 = Some w \<and> tripleHash 2 0 0 7 100 = Inr (sint w mod 100)"
proof -
  have "key_range 2" "key_range 0" "key_range 7" "key_range 100" by code_simp+
  moreover have "triple_crc_word 2 0 0 7 \<noteq> None" by code_simp
  ultimately show ?thesis
    using tripleHash_spec [of 2 0 0 7 100] by auto
qed

text \<open>Further fact.
  \<open>DataHasher.hash\<close>: on a non-empty string it is the reference hash on 64-bit words, reduced
  modulo \<open>END_OF_TIME\<close> with the sign of the dividend, so its result lies strictly between
  \<open>- END_OF_TIME\<close> and \<open>END_OF_TIME\<close> and may be negative; it does not return when an
  intermediate state is the smallest signed value.\<close>

theorem data_hash_spec:
  "data_hash (c # cs) =
     (case data_word c cs of None \<Rightarrow> None
      | Some w \<Rightarrow> if w = - (2 ^ 63) then None else Some (sint w smod END_OF_TIME))
   \<and> (case data_hash (c # cs) of None \<Rightarrow> True | Some r \<Rightarrow> \<bar>r\<bar> < END_OF_TIME)"
  by (rule data_hash_word)

text \<open>Further fact.
  The empty string: the seed of \<open>DataHasher.hash\<close> has a high half that is not a signed 32-bit
  number, so the division takes the seed for a positive number below the modulus and the
  "remainder" is the seed itself, far outside the range of the other hashes.\<close>

theorem data_hash_empty:
  "data_hash [] = Some (- 4953706369002393600) \<and> \<not> - END_OF_TIME < (- 4953706369002393600 :: int)"
  by code_simp

end
