(* ===== verification/Buffers.thy ===== *)
theory Buffers
  imports Prelude "HOL-Library.Monad_Syntax"
begin

text \<open>
  The byte buffers of mwg.js (\<open>org.mwg.core.utility\<close>): \<open>HeapBuffer\<close>, an \<open>Int8Array\<close> that doubles
  when it is full, \<open>BufferView\<close>, a window on a buffer, \<open>CoreBufferIterator\<close>, which splits a
  buffer at the separators, and \<open>BufferBuilder.getNewSize\<close>.
\<close>

subsection \<open>Bytes and array copies\<close>

definition to_int8 :: "int \<Rightarrow> int" where
  "to_int8 x = (x + 128) mod 256 - 128"

text \<open>
  \<open>System.arraycopy\<close> into a typed array: an element read outside the source is \<open>undefined\<close>,
  which the array stores as \<open>undef\<close>; an element written outside the destination is dropped.
\<close>

fun arraycopy :: "'a \<Rightarrow> 'a list \<Rightarrow> int \<Rightarrow> 'a list \<Rightarrow> int \<Rightarrow> nat \<Rightarrow> 'a list" where
  "arraycopy undef src srcPos dest destPos 0 = dest"
| "arraycopy undef src srcPos dest destPos (Suc n) =
     arraycopy undef src (srcPos + 1)
       (wr dest (Some destPos) (case rd src (Some srcPos) of None \<Rightarrow> undef | Some v \<Rightarrow> v)) (destPos + 1) n"

lemma wr_append: "wr (a @ b) (Some (int (length a))) v = a @ (case b of [] \<Rightarrow> [] | _ # b' \<Rightarrow> v # b')"
  by (auto simp: wr_def nat_add_distrib split: list.splits)

lemma arraycopy_append:
  "length ys = n \<Longrightarrow> n \<le> length b \<Longrightarrow>
   arraycopy u (xs @ ys @ zs) (int (length xs)) (a @ b) (int (length a)) n = a @ ys @ drop n b"
proof (induction n arbitrary: xs ys a b)
  case (Suc n)
  then obtain y ys' c b' where e: "ys = y # ys'" "b = c # b'" by (cases ys; cases b) auto
  have "rd (xs @ y # ys' @ zs) (Some (int (length xs))) = Some y" by (simp add: rd_def nat_add_distrib)
  moreover have "wr (a @ c # b') (Some (int (length a))) y = (a @ [y]) @ b'"
    using wr_append [of a "c # b'" y] by simp
  ultimately show ?case
    using Suc.IH [of ys' b' "xs @ [y]" "a @ [y]"] Suc.prems e by (simp add: add.commute)
qed simp

text \<open>The copy of a whole array to the start of another one.\<close>

lemma arraycopy_prefix: "length xs = n \<Longrightarrow> n \<le> length b \<Longrightarrow> arraycopy u xs 0 b 0 n = xs @ drop n b"
  using arraycopy_append [of xs n b u "[]" "[]" "[]"] by simp

lemma arraycopy_slice:
  assumes "length b = n" "k + n \<le> length xs"
  shows "arraycopy u xs (int k) b 0 n = take n (drop k xs)"
proof -
  have "take k xs @ take n (drop k xs) @ drop n (drop k xs) = xs"
    by (simp only: append_take_drop_id)
  then show ?thesis
    using arraycopy_append [of "take n (drop k xs)" n b u "take k xs" "drop n (drop k xs)" "[]"] assms by simp
qed

subsection \<open>BufferBuilder.getNewSize\<close>

partial_function (option) getNewSize :: "int \<Rightarrow> int \<Rightarrow> int option" where
  "getNewSize old target = (if old < target then getNewSize (old * 2) target else Some old)"

declare getNewSize.simps [code]

lemma getNewSize_pos:
  "0 < old \<Longrightarrow> \<exists>k. getNewSize old target = Some (old * 2 ^ k) \<and> target \<le> old * 2 ^ k
      \<and> (k = 0 \<or> old * 2 ^ (k - 1) < target)"
proof (induction "nat (target - old)" arbitrary: old rule: less_induct)
  case less
  show ?case
  proof (cases "old < target")
    case False
    then show ?thesis by (subst getNewSize.simps) (auto intro: exI [of _ 0])
  next
    case True
    with less.hyps [of "old * 2"] less.prems obtain k where
      k: "getNewSize (old * 2) target = Some (old * 2 * 2 ^ k)" "target \<le> old * 2 * 2 ^ k"
      "k = 0 \<or> old * 2 * 2 ^ (k - 1) < target" by auto
    have "old * 2 ^ (Suc k - 1) < target"
      using k(3) True by (cases k) auto
    then show ?thesis using k True by (subst getNewSize.simps) (auto intro!: exI [of _ "Suc k"] simp: mult.assoc)
  qed
qed

subsection \<open>HeapBuffer\<close>

text \<open>\<open>None\<close> is \<open>null\<close> for the array; the cursor is \<open>undefined\<close> until the first write.\<close>

record heap_buffer =
  hb_buffer :: "int list option"
  hb_cursor :: jsnum

definition newHeapBuffer :: heap_buffer where
  "newHeapBuffer = \<lparr>hb_buffer = None, hb_cursor = None\<rparr>"

definition MAP_INITIAL_CAPACITY :: int where "MAP_INITIAL_CAPACITY = 16"

definition js_inc :: "jsnum \<Rightarrow> jsnum" where
  "js_inc = map_option (\<lambda>x. x + 1)"

definition hb_write :: "heap_buffer \<Rightarrow> int \<Rightarrow> heap_buffer" where
  "hb_write h b =
     (case hb_buffer h of
        None \<Rightarrow> \<lparr>hb_buffer = Some (wr (replicate (nat MAP_INITIAL_CAPACITY) 0) (Some 0) (to_int8 b)),
                  hb_cursor = Some 1\<rparr>
      | Some buffer \<Rightarrow>
          if hb_cursor h = Some (int (length buffer)) then
            let temp = replicate (length buffer * 2) 0;
                temp = arraycopy 0 buffer 0 temp 0 (length buffer);
                temp = wr temp (hb_cursor h) (to_int8 b)
            in \<lparr>hb_buffer = Some temp, hb_cursor = js_inc (hb_cursor h)\<rparr>
          else \<lparr>hb_buffer = Some (wr buffer (hb_cursor h) (to_int8 b)), hb_cursor = js_inc (hb_cursor h)\<rparr>)"

text \<open>\<open>writeAll\<close> takes an \<open>Int8Array\<close>, so its elements are bytes already.\<close>

definition hb_writeAll :: "heap_buffer \<Rightarrow> int list \<Rightarrow> heap_buffer option" where
  "hb_writeAll h bytes =
     (case hb_buffer h of
        None \<Rightarrow>
          do { initSize \<leftarrow> getNewSize MAP_INITIAL_CAPACITY (int (length bytes));
               Some \<lparr>hb_buffer = Some (arraycopy 0 bytes 0 (replicate (nat initSize) 0) 0 (length bytes)),
                     hb_cursor = Some (int (length bytes))\<rparr> }
      | Some buffer \<Rightarrow>
          (case hb_cursor h of
             None \<Rightarrow> Some h
           | Some c \<Rightarrow>
               if c + int (length bytes) > int (length buffer) then
                 do { newSize \<leftarrow> getNewSize (int (length buffer)) (int (length buffer) + int (length bytes));
                      let tmp = arraycopy 0 buffer 0 (replicate (nat newSize) 0) 0 (length buffer);
                      Some \<lparr>hb_buffer = Some (arraycopy 0 bytes 0 tmp c (length bytes)),
                            hb_cursor = Some (c + int (length bytes))\<rparr> }
               else Some \<lparr>hb_buffer = Some (arraycopy 0 bytes 0 buffer c (length bytes)),
                          hb_cursor = Some (c + int (length bytes))\<rparr>))"

definition hb_read :: "heap_buffer \<Rightarrow> int \<Rightarrow> jsnum result" where
  "hb_read h position =
     (case hb_buffer h of None \<Rightarrow> Inl TypeError | Some buffer \<Rightarrow> Inr (rd buffer (Some position)))"

definition hb_data :: "heap_buffer \<Rightarrow> int list result" where
  "hb_data h =
     (case hb_cursor h of
        None \<Rightarrow> Inr []
      | Some c \<Rightarrow>
          if c < 0 then Inl (JsError ''Invalid typed array length'')
          else case hb_buffer h of
                 None \<Rightarrow> if c = 0 then Inr [] else Inl TypeError
               | Some buffer \<Rightarrow> Inr (arraycopy 0 buffer 0 (replicate (nat c) 0) 0 (nat c)))"

definition hb_slice :: "heap_buffer \<Rightarrow> int \<Rightarrow> int \<Rightarrow> int list result" where
  "hb_slice h initPos endPos =
     (let newSize = endPos - initPos + 1 in
      if newSize < 0 then Inl (JsError ''Invalid typed array length'')
      else case hb_buffer h of
             None \<Rightarrow> if newSize = 0 then Inr [] else Inl TypeError
           | Some buffer \<Rightarrow> Inr (arraycopy 0 buffer initPos (replicate (nat newSize) 0) 0 (nat newSize)))"

definition hb_size :: "heap_buffer \<Rightarrow> jsnum" where
  "hb_size h = hb_cursor h"

definition hb_free :: "heap_buffer \<Rightarrow> heap_buffer" where
  "hb_free h = h\<lparr>hb_buffer := None\<rparr>"

definition hb_removeLast :: "heap_buffer \<Rightarrow> heap_buffer" where
  "hb_removeLast h = h\<lparr>hb_cursor := map_option (\<lambda>x. x - 1) (hb_cursor h)\<rparr>"

subsection \<open>What a buffer holds\<close>

text \<open>\<open>hb_rel h bs\<close>: the bytes written to \<open>h\<close> are \<open>bs\<close>; the array is never shorter.\<close>

definition hb_rel :: "heap_buffer \<Rightarrow> int list \<Rightarrow> bool" where
  "hb_rel h bs \<longleftrightarrow>
     (case hb_buffer h of
        None \<Rightarrow> bs = []
      | Some b \<Rightarrow> b \<noteq> [] \<and> hb_cursor h = Some (int (length bs)) \<and> (\<exists>r. b = bs @ r))"

lemma hb_rel_new: "hb_rel newHeapBuffer []"
  by (simp add: hb_rel_def newHeapBuffer_def)

lemma hb_rel_write:
  assumes "hb_rel h bs"
  shows "hb_rel (hb_write h b) (bs @ [to_int8 b]) \<and> hb_buffer (hb_write h b) \<noteq> None"
proof (cases "hb_buffer h")
  case None
  then show ?thesis using assms
    by (auto simp: hb_rel_def hb_write_def MAP_INITIAL_CAPACITY_def wr_def eval_nat_numeral)
next
  case (Some buf)
  then obtain r where r: "buf = bs @ r" "hb_cursor h = Some (int (length bs))" "buf \<noteq> []"
    using assms by (auto simp: hb_rel_def)
  show ?thesis
  proof (cases r)
    case Nil
    have c: "arraycopy 0 buf 0 (replicate (length buf * 2) 0) 0 (length buf) = buf @ replicate (length buf) 0"
      by (simp add: arraycopy_prefix)
    obtain k where "length buf = Suc k" using r(3) by (cases buf) auto
    then show ?thesis using Some r Nil c wr_append [of bs "replicate (length buf) 0" "to_int8 b"]
      by (auto simp: hb_rel_def hb_write_def js_inc_def Let_def)
  next
    case (Cons x r')
    then show ?thesis using Some r wr_append [of bs r "to_int8 b"]
      by (auto simp: hb_rel_def hb_write_def js_inc_def)
  qed
qed

lemma hb_rel_writeAll:
  assumes "hb_rel h bs" "bytes \<noteq> []"
  shows "\<exists>h'. hb_writeAll h bytes = Some h' \<and> hb_rel h' (bs @ bytes) \<and> hb_buffer h' \<noteq> None"
proof (cases "hb_buffer h")
  case None
  obtain k where k: "getNewSize MAP_INITIAL_CAPACITY (int (length bytes)) = Some (16 * 2 ^ k)"
    "int (length bytes) \<le> 16 * 2 ^ k"
    using getNewSize_pos [of 16 "int (length bytes)"] by (auto simp: MAP_INITIAL_CAPACITY_def)
  have "nat (16 * 2 ^ k) \<noteq> 0" by simp
  then show ?thesis using None assms k
    by (auto simp: hb_writeAll_def hb_rel_def arraycopy_prefix nat_le_iff le_nat_iff)
next
  case (Some buf)
  then obtain r where r: "buf = bs @ r" "hb_cursor h = Some (int (length bs))" "buf \<noteq> []"
    using assms by (auto simp: hb_rel_def)
  show ?thesis
  proof (cases "length bs + length bytes > length buf")
    case True
    obtain k where k: "getNewSize (int (length buf)) (int (length buf) + int (length bytes)) = Some (int (length buf) * 2 ^ k)"
      "int (length buf) + int (length bytes) \<le> int (length buf) * 2 ^ k"
    proof -
      have "0 < int (length buf)" using r(3) by simp
      from getNewSize_pos [OF this, of "int (length buf) + int (length bytes)"] that show ?thesis by blast
    qed
    define n where "n = nat (int (length buf) * 2 ^ k)"
    have n: "length buf + length bytes \<le> n" using k(2) by (simp add: n_def le_nat_iff)
    have "arraycopy 0 buf 0 (replicate n 0) 0 (length buf) = buf @ replicate (n - length buf) 0"
      using n by (simp add: arraycopy_prefix)
    moreover have "arraycopy 0 bytes 0 (bs @ (r @ replicate (n - length buf) 0)) (int (length bs)) (length bytes)
        = bs @ bytes @ drop (length bytes) (r @ replicate (n - length buf) 0)"
      using arraycopy_append [of bytes "length bytes" "r @ replicate (n - length buf) 0" 0 "[]" "[]" bs] n r(1)
      by simp
    moreover have "nat (int (length bs + length r) * 2 ^ k) = n" by (simp add: n_def r(1))
    ultimately show ?thesis using Some True r k assms
      by (simp add: hb_writeAll_def hb_rel_def Let_def flip: of_nat_add)
  next
    case False
    then have "arraycopy 0 bytes 0 buf (int (length bs)) (length bytes) = bs @ bytes @ drop (length bytes) r"
      using arraycopy_append [of bytes "length bytes" r 0 "[]" "[]" bs] r(1) by simp
    then show ?thesis using Some False r assms
      by (auto simp: hb_writeAll_def hb_rel_def simp flip: of_nat_add)
  qed
qed

lemma hb_rel_removeLast: "hb_rel h (bs @ [b]) \<Longrightarrow> hb_rel (hb_removeLast h) bs \<and> hb_buffer (hb_removeLast h) \<noteq> None"
  by (auto simp: hb_rel_def hb_removeLast_def split: option.splits)

lemma hb_rel_data: "hb_rel h bs \<Longrightarrow> hb_buffer h \<noteq> None \<or> hb_cursor h = None \<Longrightarrow> hb_data h = Inr bs"
proof -
  assume h: "hb_rel h bs" "hb_buffer h \<noteq> None \<or> hb_cursor h = None"
  have "arraycopy 0 (bs @ r) 0 (replicate (length bs) 0) 0 (length bs) = bs" for r
    using arraycopy_slice [of "replicate (length bs) 0" "length bs" 0 "bs @ r" 0] by simp
  then show ?thesis using h by (auto simp: hb_rel_def hb_data_def split: option.splits)
qed

lemma hb_rel_read: "hb_rel h bs \<Longrightarrow> i < length bs \<Longrightarrow> hb_read h (int i) = Inr (Some (bs ! i))"
  by (auto simp: hb_rel_def hb_read_def nth_append split: option.splits)

lemma hb_rel_slice:
  assumes "hb_rel h bs" "hb_buffer h \<noteq> None" "i \<le> j" "j \<le> length bs"
  shows "hb_slice h (int i) (int j - 1) = Inr (take (j - i) (drop i bs))"
proof -
  obtain r where "hb_buffer h = Some (bs @ r)" using assms by (auto simp: hb_rel_def)
  moreover have "nat (int j - 1 - int i + 1) = j - i" by simp
  ultimately show ?thesis using assms arraycopy_slice [of "replicate (j - i) 0" "j - i" i "bs @ r" 0]
    by (simp add: hb_slice_def Let_def)
qed

subsection \<open>BufferView\<close>

text \<open>
  A view refers to its origin, so the operations take the origin as it is at the time of the
  call.  Only the upper bound is checked on a read.
\<close>

record buffer_view =
  bv_initPos :: int
  bv_endPos :: int

fun show_nat_digits :: "nat \<Rightarrow> nat \<Rightarrow> string" where
  "show_nat_digits 0 n = []"
| "show_nat_digits (Suc k) n =
     (if n < 10 then [char_of (48 + n)] else show_nat_digits k (n div 10) @ [char_of (48 + n mod 10)])"

definition show_int :: "int \<Rightarrow> string" where
  "show_int i = (if i < 0 then CHR ''-'' # show_nat_digits (nat (- i) + 1) (nat (- i))
                 else show_nat_digits (nat i + 1) (nat i))"

definition bv_read :: "heap_buffer \<Rightarrow> buffer_view \<Rightarrow> int \<Rightarrow> jsnum result" where
  "bv_read origin v position =
     (if bv_initPos v + position > bv_endPos v then Inl (JsError (show_int position))
      else hb_read origin (bv_initPos v + position))"

definition bv_data :: "heap_buffer \<Rightarrow> buffer_view \<Rightarrow> int list result" where
  "bv_data origin v = hb_slice origin (bv_initPos v) (bv_endPos v)"

definition bv_size :: "buffer_view \<Rightarrow> int" where
  "bv_size v = bv_endPos v - bv_initPos v + 1"

definition bv_write :: "heap_buffer \<Rightarrow> buffer_view \<Rightarrow> int \<Rightarrow> heap_buffer result" where
  "bv_write origin v b = Inl (JsError ''Write operation forbidden during iteration'')"

definition bv_free :: "heap_buffer \<Rightarrow> buffer_view \<Rightarrow> heap_buffer result" where
  "bv_free origin v = Inl (JsError ''Free operation forbidden during iteration'')"

subsection \<open>CoreBufferIterator\<close>

definition BUFFER_SEP :: int where "BUFFER_SEP = 35"

record buffer_iterator =
  it_cursor :: int
  it_originSize :: jsnum

definition newBufferIterator :: "heap_buffer \<Rightarrow> buffer_iterator" where
  "newBufferIterator origin = \<lparr>it_cursor = -1, it_originSize = hb_size origin\<rparr>"

definition js_less :: "int \<Rightarrow> jsnum \<Rightarrow> bool" where
  "js_less i m = (case m of None \<Rightarrow> False | Some j \<Rightarrow> i < j)"

definition it_hasNext :: "buffer_iterator \<Rightarrow> bool" where
  "it_hasNext it \<longleftrightarrow> js_less 0 (it_originSize it) \<and> js_less (it_cursor it + 1) (it_originSize it)"

text \<open>The scan of \<open>next\<close>: whether a separator was met, and the cursor.\<close>

function it_scan :: "heap_buffer \<Rightarrow> int \<Rightarrow> jsnum \<Rightarrow> (bool \<times> int) result" where
  "it_scan origin cursor sz =
     (if js_less (cursor + 1) sz then
        bindr (hb_read origin (cursor + 1)) (\<lambda>current.
          if current = Some BUFFER_SEP then Inr (True, cursor + 1)
          else it_scan origin (cursor + 1) sz)
      else Inr (False, cursor))"
  by pat_completeness auto
termination
  by (relation "measure (\<lambda>(_, c, s). case s of None \<Rightarrow> 0 | Some n \<Rightarrow> nat (n - c))")
     (auto simp: js_less_def split: option.splits)

declare it_scan.simps [simp del]

definition it_next :: "heap_buffer \<Rightarrow> buffer_iterator \<Rightarrow> (buffer_view option \<times> buffer_iterator) result" where
  "it_next origin it =
     bindr (it_scan origin (it_cursor it) (it_originSize it)) (\<lambda>(found, cursor).
       Inr (if found then Some \<lparr>bv_initPos = it_cursor it + 1, bv_endPos = cursor - 1\<rparr>
            else if js_less (it_cursor it) (it_originSize it)
              then Some \<lparr>bv_initPos = it_cursor it + 1, bv_endPos = cursor\<rparr>
            else None,
            it\<lparr>it_cursor := cursor\<rparr>))"

text \<open>The loop \<open>while (it.hasNext())\<close> of the callers, collecting the data of the views.\<close>

fun it_collect :: "nat \<Rightarrow> heap_buffer \<Rightarrow> buffer_iterator \<Rightarrow> int list list result" where
  "it_collect 0 origin it = Inl NoReturn"
| "it_collect (Suc n) origin it =
     (if it_hasNext it then
        bindr (it_next origin it) (\<lambda>(v, it').
          case v of
            None \<Rightarrow> Inl TypeError
          | Some v \<Rightarrow> bindr (bv_data origin v) (\<lambda>d.
                        bindr (it_collect n origin it') (\<lambda>ds. Inr (d # ds))))
      else Inr [])"

text \<open>The segments of a byte sequence; a separator at its very end opens no further segment.\<close>

function segments :: "int list \<Rightarrow> int list list" where
  "segments bs =
     (if bs = [] then []
      else takeWhile (\<lambda>b. b \<noteq> BUFFER_SEP) bs # segments (drop 1 (dropWhile (\<lambda>b. b \<noteq> BUFFER_SEP) bs)))"
  by pat_completeness auto
termination
proof (relation "measure length")
  show "wf (measure length)" by simp
next
  fix bs :: "int list" assume "bs \<noteq> []"
  moreover have "length (dropWhile (\<lambda>b. b \<noteq> BUFFER_SEP) bs) \<le> length bs" by (rule length_dropWhile_le)
  moreover have "0 < length bs" using \<open>bs \<noteq> []\<close> by simp
  ultimately show "(drop 1 (dropWhile (\<lambda>b. b \<noteq> BUFFER_SEP) bs), bs) \<in> measure length"
    by (simp only: in_measure length_drop)
qed

declare segments.simps [simp del]

subsection \<open>The scan\<close>

lemma it_scan_spec:
  assumes "hb_rel h bs" "p \<le> length bs"
  defines "s \<equiv> takeWhile (\<lambda>b. b \<noteq> BUFFER_SEP) (drop p bs)"
  shows "it_scan h (int p - 1) (Some (int (length bs))) =
     Inr (if p + length s < length bs then (True, int (p + length s)) else (False, int (length bs) - 1))"
  using assms(2) unfolding s_def
proof (induction "length bs - p" arbitrary: p)
  case 0
  then show ?case by (subst it_scan.simps) (simp add: js_less_def)
next
  case (Suc n)
  then have p: "p < length bs" by simp
  have d: "drop p bs = bs ! p # drop (Suc p) bs" using p by (simp add: Cons_nth_drop_Suc)
  have r: "hb_read h (int p) = Inr (Some (bs ! p))" using hb_rel_read [OF assms(1) p] .
  show ?case
  proof (cases "bs ! p = BUFFER_SEP")
    case True
    then show ?thesis using p r d by (subst it_scan.simps) (simp add: js_less_def)
  next
    case False
    have "it_scan h (int p - 1) (Some (int (length bs))) = it_scan h (int (Suc p) - 1) (Some (int (length bs)))"
      using p r False by (subst it_scan.simps) (simp add: js_less_def)
    then show ?thesis using Suc.hyps(1) [of "Suc p"] Suc.hyps(2) p d False by simp
  qed
qed

lemma it_next_spec:
  assumes "hb_rel h bs" "p < length bs" "it_cursor it = int p - 1" "it_originSize it = Some (int (length bs))"
  defines "s \<equiv> takeWhile (\<lambda>b. b \<noteq> BUFFER_SEP) (drop p bs)"
  shows "it_next h it =
     Inr (Some \<lparr>bv_initPos = int p, bv_endPos = int (p + length s) - 1\<rparr>,
          it\<lparr>it_cursor := int (min (p + length s + 1) (length bs)) - 1\<rparr>)"
proof -
  have l: "length s \<le> length bs - p" unfolding s_def by (metis length_drop length_takeWhile_le)
  then show ?thesis
    using it_scan_spec [OF assms(1), of p] assms
    by (auto simp: it_next_def js_less_def min_def)
qed

lemma takeWhile_take: "take (length (takeWhile P xs)) xs = takeWhile P xs"
  by (metis takeWhile_dropWhile_id append_eq_conv_conj)

lemma it_collect_spec:
  assumes "hb_rel h bs" "hb_buffer h \<noteq> None"
  shows "length bs - p < n \<Longrightarrow> p \<le> length bs \<Longrightarrow> it_cursor it = int p - 1 \<Longrightarrow>
     it_originSize it = Some (int (length bs)) \<Longrightarrow> it_collect n h it = Inr (segments (drop p bs))"
proof (induction n arbitrary: p it)
  case (Suc n)
  show ?case
  proof (cases "p < length bs")
    case False
    then show ?thesis using Suc.prems by (simp add: it_hasNext_def js_less_def segments.simps [of "[]"])
  next
    case True
    define s where "s = takeWhile (\<lambda>b. b \<noteq> BUFFER_SEP) (drop p bs)"
    define q where "q = min (p + length s + 1) (length bs)"
    have l: "p + length s \<le> length bs"
      unfolding s_def using True by (metis add_le_cancel_left le_add_diff_inverse length_drop length_takeWhile_le less_imp_le)
    have nx: "it_next h it = Inr (Some \<lparr>bv_initPos = int p, bv_endPos = int (p + length s) - 1\<rparr>,
        it\<lparr>it_cursor := int q - 1\<rparr>)"
      using it_next_spec [OF assms(1) True Suc.prems(3,4)] by (simp add: s_def q_def)
    have data: "bv_data h \<lparr>bv_initPos = int p, bv_endPos = int (p + length s) - 1\<rparr> = Inr s"
      using hb_rel_slice [OF assms, of p "p + length s"] l
      by (simp add: bv_data_def s_def takeWhile_take)
    have "it_collect n h (it\<lparr>it_cursor := int q - 1\<rparr>) = Inr (segments (drop q bs))"
      using Suc.prems True l by (intro Suc.IH) (auto simp: q_def)
    moreover have "drop q bs = drop 1 (dropWhile (\<lambda>b. b \<noteq> BUFFER_SEP) (drop p bs))"
      unfolding dropWhile_eq_drop s_def [symmetric] using l by (simp add: q_def min_def add.commute)
    moreover have "bs \<noteq> []" using True by auto
    moreover have "it_hasNext it" using True Suc.prems \<open>bs \<noteq> []\<close> by (simp add: it_hasNext_def js_less_def)
    moreover have "segments (drop p bs) = s # segments (drop q bs)"
      using calculation(2) True by (subst segments.simps) (simp add: s_def)
    ultimately show ?thesis
      using nx data True by simp
  qed
qed simp

subsection \<open>Byte sources\<close>

text \<open>
  What the decoders need of the buffer they read: \<open>reads rd_at b bs\<close> says that the positions from
  \<open>b\<close> on hold the bytes \<open>bs\<close>.  A buffer and a view on it are both such sources.
\<close>

definition reads :: "(int \<Rightarrow> jsnum result) \<Rightarrow> int \<Rightarrow> int list \<Rightarrow> bool" where
  "reads rd_at b bs \<longleftrightarrow> (\<forall>i < length bs. rd_at (b + int i) = Inr (Some (bs ! i)))"

lemma reads_append: "reads r b (xs @ ys) \<longleftrightarrow> reads r b xs \<and> reads r (b + int (length xs)) ys"
proof
  assume a: "reads r b (xs @ ys)"
  have "r (b + int (length xs) + int i) = Inr (Some (ys ! i))" if "i < length ys" for i
    using a that by (simp add: reads_def nth_append add.assoc flip: of_nat_add)
  moreover have "r (b + int i) = Inr (Some (xs ! i))" if "i < length xs" for i
    using a that by (auto simp: reads_def nth_append)
  ultimately show "reads r b xs \<and> reads r (b + int (length xs)) ys" by (simp add: reads_def)
next
  assume a: "reads r b xs \<and> reads r (b + int (length xs)) ys"
  show "reads r b (xs @ ys)" unfolding reads_def
  proof (intro allI impI)
    fix i assume i: "i < length (xs @ ys)"
    show "r (b + int i) = Inr (Some ((xs @ ys) ! i))"
    proof (cases "i < length xs")
      case False
      then have e: "b + int i = b + int (length xs) + int (i - length xs)" by simp
      have "r (b + int (length xs) + int (i - length xs)) = Inr (Some (ys ! (i - length xs)))"
      proof -
        have "i - length xs < length ys" using i False by simp
        then show ?thesis using a unfolding reads_def by blast
      qed
      then show ?thesis using False by (simp only: e nth_append if_False)
    qed (use a in \<open>simp add: reads_def nth_append\<close>)
  qed
qed

lemma reads_Cons: "reads r b (x # xs) \<longleftrightarrow> r b = Inr (Some x) \<and> reads r (b + 1) xs"
  using reads_append [of r b "[x]" xs] by (simp add: reads_def)

lemma reads_Nil [simp]: "reads r b []"
  by (simp add: reads_def)

locale byte_source =
  fixes rd_at :: "'s \<Rightarrow> int \<Rightarrow> jsnum result"
    and sz :: "'s \<Rightarrow> jsnum"
    and holds :: "'s \<Rightarrow> int list \<Rightarrow> bool"
  assumes holds_read: "holds s bs \<Longrightarrow> i < length bs \<Longrightarrow> rd_at s (int i) = Inr (Some (bs ! i))"
    and holds_size: "holds s bs \<Longrightarrow> sz s = Some (int (length bs))"
begin

lemma holds_reads: "holds s bs \<Longrightarrow> reads (rd_at s) 0 bs"
  by (simp add: reads_def holds_read)

lemma holds_unique: "holds s bs \<Longrightarrow> holds s bs' \<Longrightarrow> bs = bs'"
proof (rule nth_equalityI)
  assume h: "holds s bs" "holds s bs'"
  then show "length bs = length bs'" using holds_size [of s bs] holds_size [of s bs'] by simp
  then show "bs ! i = bs' ! i" if "i < length bs" for i
    using that h holds_read [of s bs i] holds_read [of s bs' i] by simp
qed

end

definition heap_holds :: "heap_buffer \<Rightarrow> int list \<Rightarrow> bool" where
  "heap_holds h bs \<longleftrightarrow> hb_rel h bs \<and> hb_buffer h \<noteq> None"

definition view_holds :: "heap_buffer \<times> buffer_view \<Rightarrow> int list \<Rightarrow> bool" where
  "view_holds = (\<lambda>(h, v) bs. \<exists>us vs. heap_holds h (us @ bs @ vs) \<and> bv_initPos v = int (length us)
                    \<and> bv_endPos v = int (length us + length bs) - 1)"

interpretation heap_source: byte_source hb_read hb_size heap_holds
  by standard (auto simp: heap_holds_def hb_rel_read, auto simp: hb_rel_def hb_size_def)

interpretation view_source: byte_source "\<lambda>(h, v). bv_read h v" "\<lambda>(h, v). Some (bv_size v)" view_holds
proof (standard, goal_cases)
  case (1 s bs i)
  then obtain h v us vs where s: "s = (h, v)" "heap_holds h (us @ bs @ vs)" "bv_initPos v = int (length us)"
    "bv_endPos v = int (length us + length bs) - 1" by (auto simp: view_holds_def split: prod.splits)
  then have "hb_read h (int (length us + i)) = Inr (Some (bs ! i))"
    using 1 heap_source.holds_read [of h "us @ bs @ vs" "length us + i"] by (simp add: nth_append)
  then show ?case using s 1 by (simp add: bv_read_def)
next
  case (2 s bs)
  then show ?case by (auto simp: view_holds_def bv_size_def)
qed

subsection \<open>Properties\<close>

datatype buffer_op = Write int | WriteAll "int list" | RemoveLast

fun buffer_step :: "heap_buffer option \<Rightarrow> buffer_op \<Rightarrow> heap_buffer option" where
  "buffer_step None op = None"
| "buffer_step (Some h) (Write b) = Some (hb_write h b)"
| "buffer_step (Some h) (WriteAll bs) = hb_writeAll h bs"
| "buffer_step (Some h) RemoveLast = Some (hb_removeLast h)"

fun bytes_step :: "int list \<Rightarrow> buffer_op \<Rightarrow> int list" where
  "bytes_step bs (Write b) = bs @ [to_int8 b]"
| "bytes_step bs (WriteAll cs) = bs @ cs"
| "bytes_step bs RemoveLast = butlast bs"

text \<open>Nothing is removed from an empty buffer and no empty array is appended.\<close>

fun buffer_ops_ok :: "int list \<Rightarrow> buffer_op list \<Rightarrow> bool" where
  "buffer_ops_ok bs [] = True"
| "buffer_ops_ok bs (op # ops) =
     ((case op of Write b \<Rightarrow> True | WriteAll cs \<Rightarrow> cs \<noteq> [] | RemoveLast \<Rightarrow> bs \<noteq> []) \<and>
      buffer_ops_ok (bytes_step bs op) ops)"

lemma buffer_step_rel:
  assumes "hb_rel h bs" "buffer_ops_ok bs (op # ops)"
  shows "\<exists>h'. buffer_step (Some h) op = Some h' \<and> heap_holds h' (bytes_step bs op)"
proof (cases op)
  case (Write b)
  then show ?thesis using assms hb_rel_write by (simp add: heap_holds_def)
next
  case (WriteAll cs)
  then show ?thesis using assms hb_rel_writeAll [of h bs cs] by (auto simp: heap_holds_def)
next
  case RemoveLast
  then show ?thesis using assms hb_rel_removeLast [of h "butlast bs" "last bs"] by (simp add: heap_holds_def)
qed

lemma buffer_run_rel:
  "heap_holds h bs \<Longrightarrow> buffer_ops_ok bs ops \<Longrightarrow>
   \<exists>h'. foldl buffer_step (Some h) ops = Some h' \<and> heap_holds h' (foldl bytes_step bs ops)"
proof (induction ops arbitrary: h bs)
  case (Cons op ops)
  then obtain h' where "buffer_step (Some h) op = Some h'" "heap_holds h' (bytes_step bs op)"
    using buffer_step_rel [of h bs op ops] by (auto simp: heap_holds_def)
  with Cons.IH [of h'] Cons.prems show ?case by simp
qed simp

text \<open>Property C34.
  A \<open>HeapBuffer\<close> after any non-empty sequence of \<open>write\<close>, \<open>writeAll\<close> and \<open>removeLast\<close> calls
  (none removing from an empty buffer, none appending an empty array): no call fails,
  whatever the number of times the array is doubled, \<open>data\<close> and \<open>size\<close> are those of the
  sequence of bytes, and each \<open>read\<close> is the byte at that position.\<close>

theorem heap_buffer_refines:
  assumes "buffer_ops_ok [] (op # ops)"
  defines "bs \<equiv> foldl bytes_step [] (op # ops)"
  shows "\<exists>h. foldl buffer_step (Some newHeapBuffer) (op # ops) = Some h \<and> hb_data h = Inr bs
           \<and> hb_size h = Some (int (length bs)) \<and> (\<forall>i < length bs. hb_read h (int i) = Inr (Some (bs ! i)))"
proof -
  obtain h where h: "buffer_step (Some newHeapBuffer) op = Some h" "heap_holds h (bytes_step [] op)"
    using buffer_step_rel [OF hb_rel_new assms(1)] by blast
  moreover have "buffer_ops_ok (bytes_step [] op) ops" using assms(1) by simp
  ultimately obtain h' where "foldl buffer_step (Some newHeapBuffer) (op # ops) = Some h'" "heap_holds h' bs"
    using buffer_run_rel [of h "bytes_step [] op" ops] by (auto simp: bs_def)
  then show ?thesis
    using hb_rel_data heap_source.holds_size heap_source.holds_read by (fastforce simp: heap_holds_def)
qed

theorem heap_buffer_refines_witness:
  "\<exists>h. foldl buffer_step (Some newHeapBuffer) [Write 200, WriteAll [1, 2, 3], RemoveLast] = Some h
      \<and> hb_data h = Inr [-56, 1, 2]"
  using heap_buffer_refines [of "Write 200" "[WriteAll [1, 2, 3], RemoveLast]"] by (auto simp: to_int8_def)

text \<open>Further fact.
  Iterating over a buffer (\<open>hasNext\<close>, \<open>next\<close> and the data of the views): the loop ends
  and yields the segments between the separators, in order, empty ones included; nothing is
  yielded after a separator at the very end, nor for a buffer never written.\<close>

theorem buffer_iterator_segments:
  assumes "heap_holds h bs"
  shows "it_collect (Suc (length bs)) h (newBufferIterator h) = Inr (segments bs)
       \<and> it_collect 1 newHeapBuffer (newBufferIterator newHeapBuffer) = Inr []"
  using it_collect_spec [of h bs 0 "Suc (length bs)" "newBufferIterator h"] assms heap_source.holds_size [OF assms]
  by (simp add: heap_holds_def newBufferIterator_def newHeapBuffer_def hb_size_def it_hasNext_def js_less_def)

theorem buffer_iterator_segments_witness:
  "it_collect 6 (hb_write (hb_write (hb_write (hb_write (hb_write newHeapBuffer 65) 35) 35) 66) 35)
     (newBufferIterator (hb_write (hb_write (hb_write (hb_write (hb_write newHeapBuffer 65) 35) 35) 66) 35))
   = Inr [[65], [], [66]]"
proof -
  let ?h = "hb_write (hb_write (hb_write (hb_write (hb_write newHeapBuffer 65) 35) 35) 66) 35"
  have "hb_rel ?h [65, 35, 35, 66, 35] \<and> hb_buffer ?h \<noteq> None"
    using hb_rel_write [of _ "[65, 35, 35, 66]" 35] hb_rel_write [of _ "[65, 35, 35]" 66]
      hb_rel_write [of _ "[65, 35]" 35] hb_rel_write [of _ "[65]" 35] hb_rel_write [OF hb_rel_new, of 65]
    by (simp add: to_int8_def)
  then have "heap_holds ?h [65, 35, 35, 66, 35]" by (simp add: heap_holds_def)
  moreover have "segments [65, 35, 35, 66, 35] = [[65], [], [66]]"
    by (simp add: segments.simps BUFFER_SEP_def)
  ultimately show ?thesis using buffer_iterator_segments [of ?h "[65, 35, 35, 66, 35]"] by (simp add: eval_nat_numeral)
qed

end
