(* ===== verification/Base64.thy ===== *)
theory Base64
  imports Buffers HashSpec Complex_Main
begin

text \<open>
  The codec \<open>org.mwg.plugin.Base64\<close> of mwg.js, which writes chunks and keys: numbers, arrays of
  booleans, strings and doubles as sequences of 64 symbols.  The encoders write to a
  \<open>HeapBuffer\<close>; the decoders read any byte source (a buffer or a view) between two offsets.
\<close>

unbundle bit_operations_syntax

subsection \<open>The dictionary\<close>

definition dictionary :: "int list" where
  "dictionary = [65..90] @ [97..122] @ [48..57] @ [43, 47]"

definition dict :: "int \<Rightarrow> int" where
  "dict i = dictionary ! nat i"

fun index_of :: "int list \<Rightarrow> jsnum \<Rightarrow> int \<Rightarrow> int" where
  "index_of [] v k = -1"
| "index_of (x # xs) v k = (if v = Some x then k else index_of xs v (k + 1))"

text \<open>\<open>Base64.dictionary.indexOf(v) & 0xFF\<close>: 255 for a byte outside the dictionary.\<close>

definition dict_index :: "jsnum \<Rightarrow> int" where
  "dict_index v = js_and (index_of dictionary v 0) 0xFF"

text \<open>The object \<open>powTwo\<close> has the keys 0 to 53.\<close>

definition powTwo :: "int \<Rightarrow> int option" where
  "powTwo i = (if 0 \<le> i \<and> i \<le> 53 then Some (2 ^ nat i) else None)"

definition longIndexes :: "long list" where
  "longIndexes = map (\<lambda>i. fromNumber i False) [0..63]"

subsection \<open>Integers\<close>

text \<open>
  The loop of the encoders: the digit of six bits at position \<open>i\<close> of \<open>tmp\<close>, written unless all
  the digits before it were zero.
\<close>

function encode_loop :: "int \<Rightarrow> int \<Rightarrow> bool \<Rightarrow> heap_buffer \<Rightarrow> heap_buffer" where
  "encode_loop i tmp emp buffer =
     (if i \<ge> 5 then
        let d = js_and (tmp div 2 ^ nat i) 0x3F in
        if \<not> (emp \<and> d = 0) then encode_loop (i - 6) tmp False (hb_write buffer (dict d))
        else encode_loop (i - 6) tmp emp buffer
      else buffer)"
  by pat_completeness auto
termination by (relation "measure (\<lambda>(i, _). nat i)") auto

declare encode_loop.simps [simp del]

definition encode_last :: "int \<Rightarrow> int \<Rightarrow> heap_buffer \<Rightarrow> heap_buffer" where
  "encode_last l tmp buffer = hb_write buffer (dict (js_and tmp 0x1F * 2 + (if l < 0 then 1 else 0)))"

definition encodeLongToBuffer :: "int \<Rightarrow> heap_buffer \<Rightarrow> heap_buffer" where
  "encodeLongToBuffer l buffer =
     (let tmp = (if l < 0 then - l else l) in encode_last l tmp (encode_loop 47 tmp True buffer))"

definition encodeIntToBuffer :: "int \<Rightarrow> heap_buffer \<Rightarrow> heap_buffer" where
  "encodeIntToBuffer l buffer =
     (let tmp = (if l < 0 then - l else l) in encode_last l tmp (encode_loop 29 tmp True buffer))"

definition long_index :: "jsnum \<Rightarrow> long result" where
  "long_index v = (case rd longIndexes (Some (dict_index v)) of None \<Rightarrow> Inl TypeError | Some l \<Rightarrow> Inr l)"

function decode_long_loop :: "(int \<Rightarrow> jsnum result) \<Rightarrow> int \<Rightarrow> int \<Rightarrow> int \<Rightarrow> long \<Rightarrow> long result" where
  "decode_long_loop s offsetBegin offsetEnd i result =
     (if i < offsetEnd - offsetBegin then
        bindr (s ((offsetEnd - 1) - i)) (\<lambda>v. bindr (long_index v) (\<lambda>l.
          decode_long_loop s offsetBegin offsetEnd (i + 1) (add result (shiftLeft l (6 * i - 1)))))
      else Inr result)"
  by pat_completeness auto
termination by (relation "measure (\<lambda>(s, b, e, i, r). nat (e - b - i))") auto

declare decode_long_loop.simps [simp del]

definition decodeToLongWithBounds :: "(int \<Rightarrow> jsnum result) \<Rightarrow> int \<Rightarrow> int \<Rightarrow> int result" where
  "decodeToLongWithBounds s offsetBegin offsetEnd =
     bindr (s (offsetEnd - 1)) (\<lambda>v. bindr (long_index v) (\<lambda>l.
     bindr (decode_long_loop s offsetBegin offsetEnd 1 (add ZERO (shiftRightUnsigned l 1))) (\<lambda>result.
     bindr (s (offsetEnd - 1)) (\<lambda>v.
       if js_and (dict_index v) 0x1 \<noteq> 0 then
         (case multiply result (fromNumber (-1) False) of
            None \<Rightarrow> Inl NoReturn | Some r \<Rightarrow> Inr (toNumber r))
       else Inr (toNumber result)))))"

text \<open>
  \<open>decodeToInt\<close> works on numbers: halving the last symbol is an exact division, so the result is a
  rational; \<open>None\<close> is NaN.
\<close>

function decode_int_loop :: "(int \<Rightarrow> jsnum result) \<Rightarrow> int \<Rightarrow> int \<Rightarrow> int \<Rightarrow> rat option \<Rightarrow> rat option result" where
  "decode_int_loop s offsetBegin offsetEnd i result =
     (if i < offsetEnd - offsetBegin then
        bindr (s ((offsetEnd - 1) - i)) (\<lambda>v.
          decode_int_loop s offsetBegin offsetEnd (i + 1)
            (do { r \<leftarrow> result; p \<leftarrow> powTwo (6 * i - 1); Some (r + of_int (dict_index v * p)) }))
      else Inr result)"
  by pat_completeness auto
termination by (relation "measure (\<lambda>(s, b, e, i, r). nat (e - b - i))") auto

declare decode_int_loop.simps [simp del]

definition decodeToIntWithBounds :: "(int \<Rightarrow> jsnum result) \<Rightarrow> int \<Rightarrow> int \<Rightarrow> rat option result" where
  "decodeToIntWithBounds s offsetBegin offsetEnd =
     bindr (s (offsetEnd - 1)) (\<lambda>v.
     bindr (decode_int_loop s offsetBegin offsetEnd 1 (Some (of_int (dict_index v) / 2))) (\<lambda>result.
     bindr (s (offsetEnd - 1)) (\<lambda>v.
       Inr (if js_and (dict_index v) 0x1 \<noteq> 0 then map_option uminus result else result))))"

subsection \<open>Doubles\<close>

text \<open>
  The eight bytes of a double, lowest first (the \<open>Uint8Array\<close> over a \<open>Float64Array\<close>).  The
  loop that should drop trailing zeros reads \<open>result[i]\<close> before \<open>i\<close> has a value, so its
  guard is false and all eleven symbols are written.
\<close>

definition double_symbols :: "int list \<Rightarrow> int list" where
  "double_symbols bytes =
     (let exponent = js_or (js_and (bytes ! 7) 0x7f * 16) (bytes ! 6 div 16) - 0x3ff;
          signAndExp = js_and (bytes ! 7 div 128) 0x1 * 2048 + (exponent + 1023)
      in [dict (js_and (signAndExp div 64) 0x3F),
          dict (js_and signAndExp 0x3F),
          dict (js_and (bytes ! 6) 0x0F),
          dict (js_and (bytes ! 5 div 4) 0x3F),
          dict (js_or (js_and (bytes ! 5) 0x3 * 16) (bytes ! 4 div 16)),
          dict (js_or (js_and (bytes ! 4) 0x0F * 4) (bytes ! 3 div 64)),
          dict (js_and (bytes ! 3) 0x3F),
          dict (js_and (bytes ! 2 div 4) 0x3F),
          dict (js_or (js_and (bytes ! 2) 0x3 * 16) (bytes ! 1 div 16)),
          dict (js_or (js_and (bytes ! 1) 0x0F * 4) (bytes ! 0 div 64)),
          dict (js_and (bytes ! 0) 0x3F)])"

definition encodeDoubleToBuffer :: "int list \<Rightarrow> heap_buffer \<Rightarrow> heap_buffer" where
  "encodeDoubleToBuffer bytes buffer = foldl hb_write buffer (double_symbols bytes)"

datatype js_double = Finite rat | Infinite int | NotANumber

text \<open>\<open>Math.pow(2, e)\<close>, exact on the exponents that occur.\<close>

definition pow2 :: "int \<Rightarrow> rat" where
  "pow2 e = (if 0 \<le> e then 2 ^ nat e else 1 / 2 ^ nat (- e))"

function decode_mantissa :: "(int \<Rightarrow> jsnum result) \<Rightarrow> int \<Rightarrow> int \<Rightarrow> int \<Rightarrow> int option \<Rightarrow> int option result" where
  "decode_mantissa s offsetBegin offsetEnd i mantissaBits =
     (if i < offsetEnd - offsetBegin then
        bindr (s (offsetBegin + i)) (\<lambda>v.
          decode_mantissa s offsetBegin offsetEnd (i + 1)
            (do { m \<leftarrow> mantissaBits; p \<leftarrow> powTwo (48 - 6 * (i - 2)); Some (m + dict_index v * p) }))
      else Inr mantissaBits)"
  by pat_completeness auto
termination by (relation "measure (\<lambda>(s, b, e, i, r). nat (e - b - i))") auto

declare decode_mantissa.simps [simp del]

definition double_value :: "int \<Rightarrow> int \<Rightarrow> int \<Rightarrow> js_double" where
  "double_value sign expo mantissaBits =
     (if expo \<noteq> 0 then
        if expo - 1023 \<ge> 1024 then Infinite sign
        else Finite (of_int sign * pow2 (expo - 1023) * (1 + of_int mantissaBits / 2 ^ 52))
      else Finite (of_int sign * pow2 (-1022) * (0 + of_int mantissaBits / 2 ^ 52)))"

definition decodeToDoubleWithBounds :: "(int \<Rightarrow> jsnum result) \<Rightarrow> int \<Rightarrow> int \<Rightarrow> js_double result" where
  "decodeToDoubleWithBounds s offsetBegin offsetEnd =
     bindr (s offsetBegin) (\<lambda>v0. bindr (s (offsetBegin + 1)) (\<lambda>v1.
       let signAndExp = dict_index v0 * 64 + dict_index v1;
           sign = (if js_and signAndExp 0x800 \<noteq> 0 then -1 else 1);
           expo = js_and signAndExp 0x7FF
       in bindr (decode_mantissa s offsetBegin offsetEnd 2 (Some 0)) (\<lambda>m.
            Inr (case m of None \<Rightarrow> NotANumber | Some m \<Rightarrow> double_value sign expo m))))"

subsection \<open>Arrays of booleans\<close>

fun encode_bool_loop :: "int \<Rightarrow> int \<Rightarrow> int \<Rightarrow> bool list \<Rightarrow> heap_buffer \<Rightarrow> heap_buffer" where
  "encode_bool_loop n i tmpVal [] buffer = buffer"
| "encode_bool_loop n i tmpVal (b # bs) buffer =
     (let tmpVal = js_or tmpVal ((if b then 1 else 0) * 2 ^ nat (i mod 6)) in
      if i mod 6 = 5 \<or> i = n - 1
      then encode_bool_loop n (i + 1) 0 bs (hb_write buffer (dict tmpVal))
      else encode_bool_loop n (i + 1) tmpVal bs buffer)"

definition encodeBoolArrayToBuffer :: "bool list \<Rightarrow> heap_buffer \<Rightarrow> heap_buffer" where
  "encodeBoolArrayToBuffer boolArr buffer = encode_bool_loop (int (length boolArr)) 0 0 boolArr buffer"

text \<open>The inner loop stops at \<open>arraySize\<close>; the stores are at the end of the result.\<close>

function decode_bits :: "int \<Rightarrow> int \<Rightarrow> int \<Rightarrow> int \<Rightarrow> bool list \<Rightarrow> bool list" where
  "decode_bits bitarray i bit_i arraySize resultTmp =
     (if bit_i < 6 then
        if 6 * i + bit_i < arraySize
        then decode_bits bitarray i (bit_i + 1) arraySize
               (resultTmp @ [js_and bitarray (1 * 2 ^ nat bit_i) \<noteq> 0])
        else resultTmp
      else resultTmp)"
  by pat_completeness auto
termination by (relation "measure (\<lambda>(b, i, k, a, r). nat (6 - k))") auto

declare decode_bits.simps [simp del]

function decode_bool_loop :: "(int \<Rightarrow> jsnum result) \<Rightarrow> int \<Rightarrow> int \<Rightarrow> int \<Rightarrow> int \<Rightarrow> bool list \<Rightarrow> bool list result" where
  "decode_bool_loop s offsetBegin offsetEnd arraySize i resultTmp =
     (if i < offsetEnd - offsetBegin then
        bindr (s (offsetBegin + i)) (\<lambda>v.
          decode_bool_loop s offsetBegin offsetEnd arraySize (i + 1)
            (decode_bits (dict_index v) i 0 arraySize resultTmp))
      else Inr resultTmp)"
  by pat_completeness auto
termination by (relation "measure (\<lambda>(s, b, e, a, i, r). nat (e - b - i))") auto

declare decode_bool_loop.simps [simp del]

definition decodeToBoolArrayWithBounds :: "(int \<Rightarrow> jsnum result) \<Rightarrow> int \<Rightarrow> int \<Rightarrow> int \<Rightarrow> bool list result" where
  "decodeToBoolArrayWithBounds s offsetBegin offsetEnd arraySize =
     decode_bool_loop s offsetBegin offsetEnd arraySize 0 []"

subsection \<open>Strings\<close>

text \<open>A string is the list of its code units; the loop state is the pending symbol and its free bits.\<close>

fun encode_string_loop :: "jsstring \<Rightarrow> int \<Rightarrow> int \<Rightarrow> heap_buffer \<Rightarrow> heap_buffer" where
  "encode_string_loop [] currentEncodedChar freeBits buffer =
     (if freeBits \<noteq> 6 then hb_write buffer (dict currentEncodedChar) else buffer)"
| "encode_string_loop (c # cs) currentEncodedChar freeBits buffer =
     (if freeBits = 6 then
        encode_string_loop cs (js_and c 0x3 * 16) 4 (hb_write buffer (dict (js_and (c div 4) 0x3F)))
      else if freeBits = 4 then
        encode_string_loop cs (js_and c 0xF * 4) 2
          (hb_write buffer (dict (js_and (js_or currentEncodedChar (js_and (c div 16) 0xF)) 0x3F)))
      else if freeBits = 2 then
        encode_string_loop cs currentEncodedChar 6
          (hb_write (hb_write buffer (dict (js_and (js_or currentEncodedChar (js_and (c div 64) 0x3)) 0x3F)))
             (dict (js_and c 0x3F)))
      else encode_string_loop cs currentEncodedChar freeBits buffer)"

definition encodeStringToBuffer :: "jsstring \<Rightarrow> heap_buffer \<Rightarrow> heap_buffer" where
  "encodeStringToBuffer s buffer = encode_string_loop s 0 6 buffer"

definition to_uint16 :: "int \<Rightarrow> int" where
  "to_uint16 x = x mod 2 ^ 16"

text \<open>\<open>a / b\<close> truncated to an integer, as the bitwise operators do with their operands.\<close>

definition js_trunc_div :: "int \<Rightarrow> int \<Rightarrow> int" where
  "js_trunc_div a b = a sdiv b"

function decode_string_loop ::
    "(int \<Rightarrow> jsnum result) \<Rightarrow> int \<Rightarrow> int \<Rightarrow> int \<Rightarrow> int \<Rightarrow> jsstring \<Rightarrow> jsstring result" where
  "decode_string_loop s charIdx offsetEnd currentDecodedChar freeBits result =
     (if charIdx < offsetEnd then
        bindr (s charIdx) (\<lambda>v.
          let c = index_of dictionary v 0 in
          if freeBits = 8 then decode_string_loop s (charIdx + 1) offsetEnd (c * 4) 2 result
          else if freeBits = 2 then
            decode_string_loop s (charIdx + 1) offsetEnd (js_and c 0xF * 16) 4
              (result @ [to_uint16 (js_or currentDecodedChar (js_trunc_div c 16))])
          else if freeBits = 4 then
            decode_string_loop s (charIdx + 1) offsetEnd (js_and c 0x3 * 64) 6
              (result @ [to_uint16 (js_or currentDecodedChar (js_trunc_div c 4))])
          else if freeBits = 6 then
            decode_string_loop s (charIdx + 1) offsetEnd currentDecodedChar 8
              (result @ [to_uint16 (js_or currentDecodedChar c)])
          else decode_string_loop s (charIdx + 1) offsetEnd currentDecodedChar freeBits result)
      else Inr result)"
  by pat_completeness auto
termination by (relation "measure (\<lambda>(s, i, e, c, f, r). nat (e - i))") auto

declare decode_string_loop.simps [simp del]

definition decodeToStringWithBounds :: "(int \<Rightarrow> jsnum result) \<Rightarrow> int \<Rightarrow> int \<Rightarrow> jsstring result" where
  "decodeToStringWithBounds s offsetBegin offsetEnd = decode_string_loop s offsetBegin offsetEnd 0 8 []"

subsection \<open>Keys\<close>

definition KEY_SEP :: int where "KEY_SEP = 59"

definition keyToBuffer :: "heap_buffer \<Rightarrow> int \<Rightarrow> int \<Rightarrow> int \<Rightarrow> int \<Rightarrow> heap_buffer" where
  "keyToBuffer buffer chunkType world time ident =
     (let buffer = hb_write buffer chunkType;
          buffer = hb_write buffer KEY_SEP;
          buffer = encodeLongToBuffer world buffer;
          buffer = hb_write buffer KEY_SEP;
          buffer = encodeLongToBuffer time buffer;
          buffer = hb_write buffer KEY_SEP
      in encodeLongToBuffer ident buffer)"

end
