(* ===== verification/Base64Spec.thy ===== *)
theory Base64Spec
  imports Base64
begin

text \<open>
  The round trips of the codec: what is decoded from the symbols an encoder writes.  An encoder
  is a sequence of writes of dictionary symbols (\<open>syms\<close>), so the buffer holds them; a decoder is
  run on any byte source that reads them.
\<close>

unbundle bit_operations_syntax

subsection \<open>Symbols\<close>

definition sym :: "int \<Rightarrow> bool" where
  "sym d \<longleftrightarrow> 0 \<le> d \<and> d < 64"

abbreviation syms :: "int list \<Rightarrow> int list" where
  "syms \<equiv> map dict"

lemma dict_all: "\<forall>d \<in> set [0..63]. dict_index (Some (dict d)) = d \<and> index_of dictionary (Some (dict d)) 0 = d
    \<and> to_int8 (dict d) = dict d \<and> dict d \<noteq> KEY_SEP \<and> dict d \<noteq> BUFFER_SEP"
  by code_simp

lemma dict_sym [simp]:
  assumes "sym d"
  shows "dict_index (Some (dict d)) = d" "index_of dictionary (Some (dict d)) 0 = d"
    "to_int8 (dict d) = dict d" "dict d \<noteq> KEY_SEP" "dict d \<noteq> BUFFER_SEP"
  using dict_all assms unfolding sym_def by auto

lemma sym_mod [simp]: "sym (x mod 64)"
  by (simp add: sym_def)

lemma syms_int8: "\<forall>d \<in> set ds. sym d \<Longrightarrow> map to_int8 (syms ds) = syms ds"
  by simp

lemma hb_rel_writes: "hb_rel h bs \<Longrightarrow> hb_rel (foldl hb_write h cs) (bs @ map to_int8 cs)"
proof (induction cs arbitrary: h bs)
  case (Cons c cs)
  from Cons.IH [OF conjunct1 [OF hb_rel_write [OF Cons.prems, of c]]] show ?case by simp
qed simp

lemma heap_holds_writes:
  assumes "hb_rel h bs" "cs \<noteq> []"
  shows "heap_holds (foldl hb_write h cs) (bs @ map to_int8 cs)"
proof -
  obtain cs' c where c: "cs = cs' @ [c]" using assms(2) by (cases cs rule: rev_cases) auto
  with hb_rel_write [OF hb_rel_writes [OF assms(1), of cs'], of c] show ?thesis
    by (simp add: heap_holds_def)
qed

text \<open>Low bits of a non-negative number.\<close>

lemma js_and_mask: "n \<le> 31 \<Longrightarrow> js_and x (2 ^ n - 1) = x mod 2 ^ n"
proof -
  assume n: "n \<le> 31"
  have m: "(0::int) \<le> 2 ^ n - 1" by simp
  have "(2::int) ^ n \<le> 2 ^ 31" using n by (rule power_mono_le)
  then have u: "(2::int) ^ n - 1 < 2 ^ 31" by linarith
  have "- (2 ^ 31) \<le> (2::int) ^ n - 1" using m by (rule order.trans [rotated]) simp
  then have "to_int32 (2 ^ n - 1) = 2 ^ n - 1" using u by (rule to_int32_id)
  then have "js_and x (2 ^ n - 1) = take_bit n (to_int32 x)"
    by (simp add: js_and_def take_bit_eq_mask mask_eq_exp_minus_1)
  also have "\<dots> = take_bit n x" using n by (simp add: to_int32_bits take_bit_signed_take_bit)
  finally show ?thesis by (simp add: take_bit_eq_mod)
qed

lemma js_and_masks:
  "js_and x 1 = x mod 2" "js_and x 3 = x mod 4" "js_and x 15 = x mod 16" "js_and x 31 = x mod 32"
  "js_and x 63 = x mod 64" "js_and x 127 = x mod 128" "js_and x 0x7FF = x mod 2048"
  by (rule js_and_mask [of 1 x, simplified] js_and_mask [of 2 x, simplified] js_and_mask [of 4 x, simplified]
      js_and_mask [of 5 x, simplified] js_and_mask [of 6 x, simplified] js_and_mask [of 7 x, simplified]
      js_and_mask [of 11 x, simplified])+

text \<open>An \<open>or\<close> of disjoint bits is a sum.\<close>

lemma js_or_add:
  assumes "0 \<le> a" "a mod 2 ^ n = 0" "0 \<le> b" "b < 2 ^ n" "a + b < 2 ^ 31"
  shows "js_or a b = a + b"
proof -
  have i: "to_int32 a = a" "to_int32 b = b" using assms by (simp_all add: to_int32_id)
  have a: "a = push_bit n (a div 2 ^ n)" using assms(2) by (simp add: push_bit_eq_mult minus_mod_eq_div_mult [symmetric])
  have "js_or a b = b OR push_bit n (a div 2 ^ n)" using i a by (simp add: js_or_def or.commute)
  also have "\<dots> = concat_bit n b (a div 2 ^ n)"
    using assms by (simp add: concat_bit_def take_bit_int_eq_self)
  also have "\<dots> = b + a"
    using assms a by (simp add: concat_bit_eq take_bit_int_eq_self)
  finally show ?thesis by simp
qed

subsection \<open>Numbers\<close>

text \<open>The digits in base 64 of \<open>t div 32\<close> at the positions below \<open>k\<close>, without leading zeros if \<open>e\<close>.\<close>

fun digits64 :: "nat \<Rightarrow> int \<Rightarrow> bool \<Rightarrow> int list" where
  "digits64 0 t e = []"
| "digits64 (Suc k) t e =
     (let d = t div 2 ^ (6 * k + 5) mod 64 in
      if e \<and> d = 0 then digits64 k t e else d # digits64 k t False)"

fun val64 :: "int list \<Rightarrow> int" where
  "val64 [] = 0"
| "val64 (d # ds) = d * 64 ^ length ds + val64 ds"

lemma sym_digits64 [simp]: "d \<in> set (digits64 k t e) \<Longrightarrow> sym d"
  by (induction k t e rule: digits64.induct) (auto simp: Let_def split: if_splits)

lemma length_digits64: "length (digits64 k t e) \<le> k" "length (digits64 k t False) = k"
proof -
  show l: "length (digits64 k t False) = k" for k by (induction k) (auto simp: Let_def)
  show "length (digits64 k t e) \<le> k"
    by (induction k t e rule: digits64.induct) (auto simp: Let_def l)
qed

lemma encode_loop_digits:
  "encode_loop (6 * int k - 1) t e buffer = foldl hb_write buffer (syms (digits64 k t e))"
proof (induction k arbitrary: e buffer)
  case 0
  show ?case by (subst encode_loop.simps) simp
next
  case (Suc k)
  have n: "nat (6 * int (Suc k) - 1) = 6 * k + 5" and s: "6 * int (Suc k) - 1 - 6 = 6 * int k - 1" by simp_all
  show ?case
    by (subst encode_loop.simps) (simp only: n s Suc.IH, simp add: Let_def js_and_masks)
qed

lemma val64_digits64: "val64 (digits64 k t e) = (t div 32) mod 64 ^ k"
proof (induction k t e rule: digits64.induct)
  case (2 k t e)
  define d where "d = t div 2 ^ (6 * k + 5) mod 64"
  have d: "d = (t div 32) div 64 ^ k mod 64"
  proof -
    have "(2::int) ^ (6 * k + 5) = 32 * 64 ^ k" by (simp add: power_add power_mult)
    then show ?thesis by (simp add: d_def zdiv_zmult2_eq)
  qed
  have m: "(t div 32) mod 64 ^ Suc k = d * 64 ^ k + (t div 32) mod 64 ^ k"
    unfolding d by (simp add: zmod_zmult2_eq power_Suc2 del: power_Suc)
  show ?case
  proof (cases "e \<and> d = 0")
    case True
    then show ?thesis using 2(1) m by (simp add: Let_def d_def [symmetric])
  next
    case False
    then show ?thesis using 2(2) m length_digits64(2) by (auto simp: Let_def d_def [symmetric])
  qed
qed simp

text \<open>Digits and a last symbol, read back from the right.\<close>

fun rval64 :: "int list \<Rightarrow> int" where
  "rval64 [] = 0"
| "rval64 (d # ds) = d + 64 * rval64 ds"

lemma rval64_snoc: "rval64 (ds @ [d]) = rval64 ds + d * 64 ^ length ds"
  by (induction ds) (simp_all add: algebra_simps)

lemma rval64_rev: "rval64 (rev ds) = val64 ds"
  by (induction ds) (simp_all add: rval64_snoc)

lemma val64_bounds: "\<forall>d \<in> set ds. sym d \<Longrightarrow> 0 \<le> val64 ds \<and> val64 ds < 64 ^ length ds"
proof (induction ds)
  case (Cons d ds)
  then have d: "0 \<le> d" "d \<le> 63" and v: "0 \<le> val64 ds" "val64 ds < 64 ^ length ds" by (auto simp: sym_def)
  have le: "d * 64 ^ length ds \<le> 63 * 64 ^ length ds" using d by (intro mult_right_mono) auto
  have "d * 64 ^ length ds + val64 ds < 64 * 64 ^ length ds" using le v(2) by linarith
  then show ?case using d v by simp
qed simp

lemma long_index_sym: "sym d \<Longrightarrow> long_index (Some (dict d)) = Inr (fromNumber d False)"
proof -
  assume d: "sym d"
  have "\<forall>d \<in> set [0..63]. rd longIndexes (Some d) = Some (fromNumber d False)" by code_simp
  then have "rd longIndexes (Some d) = Some (fromNumber d False)" using d by (simp add: sym_def del: upto_rec_numeral)
  then show ?thesis using d by (simp add: long_index_def)
qed

lemma lrel_sym: "sym d \<Longrightarrow> lrel (fromNumber d False) (word_of_int d)"
  by (rule lrel_fromNumber) (simp add: sym_def key_range_def)

lemma decode_long_loop_spec:
  assumes "\<And>j. j < length rs \<Longrightarrow> s (e - 1 - (int i + int j)) = Inr (Some (dict (rs ! j)))"
    and "\<forall>d \<in> set rs. sym d" "e - b = int i + int (length rs)" "0 < i" "i + length rs \<le> 10" "lrel res w"
  shows "\<exists>res'. decode_long_loop s b e (int i) res = Inr res'
           \<and> lrel res' (w + word_of_int (2 ^ (6 * i - 1) * rval64 rs))"
  using assms
proof (induction rs arbitrary: i res w)
  case Nil
  then show ?case by (subst decode_long_loop.simps) simp
next
  case (Cons d rs)
  have d: "sym d" using Cons.prems by simp
  have r: "s (e - 1 - int i) = Inr (Some (dict d))" using Cons.prems(1) [of 0] by simp
  have k: "nat ((6 * int i - 1) mod 64) = 6 * i - 1"
    using Cons.prems(4,5) by (subst mod_pos_pos_trivial) auto
  have l: "lrel (add res (shiftLeft (fromNumber d False) (6 * int i - 1))) (w + push_bit (6 * i - 1) (word_of_int d))"
    by (intro lrel_ops lrel_shiftLeft Cons.prems lrel_sym d k [symmetric])
  have "\<exists>res'. decode_long_loop s b e (int (Suc i)) (add res (shiftLeft (fromNumber d False) (6 * int i - 1))) = Inr res'
      \<and> lrel res' (w + push_bit (6 * i - 1) (word_of_int d) + word_of_int (2 ^ (6 * Suc i - 1) * rval64 rs))"
  proof (rule Cons.IH [OF _ _ _ _ _ l])
    show "s (e - 1 - (int (Suc i) + int j)) = Inr (Some (dict (rs ! j)))" if "j < length rs" for j
      using Cons.prems(1) [of "Suc j"] that by (simp add: algebra_simps)
  qed (use Cons.prems in auto)
  moreover have "decode_long_loop s b e (int i) res =
      decode_long_loop s b e (int (Suc i)) (add res (shiftLeft (fromNumber d False) (6 * int i - 1)))"
    using Cons.prems(3) r long_index_sym [OF d] by (subst decode_long_loop.simps) (simp add: add.commute)
  moreover have "w + push_bit (6 * i - 1) (word_of_int d) + word_of_int (2 ^ (6 * Suc i - 1) * rval64 rs)
      = w + word_of_int (2 ^ (6 * i - 1) * rval64 (d # rs))"
  proof -
    have e: "6 * Suc i - 1 = (6 * i - 1) + 6" using Cons.prems(4) by simp
    have "(2::int) ^ (6 * i - 1) * rval64 (d # rs) = d * 2 ^ (6 * i - 1) + 2 ^ (6 * Suc i - 1) * rval64 rs"
      unfolding e power_add by (simp add: algebra_simps)
    then show ?thesis by (simp only: push_bit_eq_mult of_int_add of_int_mult of_int_power of_int_numeral add.assoc)
  qed
  ultimately show ?case by (simp only:)
qed

text \<open>
  What a reader sees of the digits \<open>ds\<close> followed by a last symbol, which carries five bits and
  the sign.
\<close>

lemma reads_last:
  assumes "reads s b (syms (ds @ [d]))" "e = b + int (length ds) + 1"
  shows "s (e - 1) = Inr (Some (dict d))"
    and "j < length ds \<Longrightarrow> s (e - 1 - (1 + int j)) = Inr (Some (dict (rev ds ! j)))"
proof -
  show "s (e - 1) = Inr (Some (dict d))"
    using assms by (simp add: reads_append reads_Cons)
  assume j: "j < length ds"
  then have "s (b + int (length ds - Suc j)) = Inr (Some (dict (ds ! (length ds - Suc j))))"
  proof -
    have "reads s b (syms ds)" using assms(1) by (simp add: reads_append)
    moreover have "length ds - Suc j < length (syms ds)" using j by simp
    ultimately show ?thesis unfolding reads_def by (metis nth_map length_map)
  qed
  moreover have "b + int (length ds - Suc j) = e - 1 - (1 + int j)" using j assms(2) by simp
  ultimately have "s (e - 1 - (1 + int j)) = Inr (Some (dict (ds ! (length ds - Suc j))))" by simp
  then show "s (e - 1 - (1 + int j)) = Inr (Some (dict (rev ds ! j)))"
    using j by (simp only: rev_nth)
qed

lemma uint_of_int64: "0 \<le> z \<Longrightarrow> z < 2 ^ 64 \<Longrightarrow> uint (word_of_int z :: 64 word) = z"
  by (simp add: uint_word_of_int mod_pos_pos_trivial)

lemma decode_long_spec:
  assumes r: "reads s b (syms (ds @ [d]))" and d: "\<forall>x \<in> set (ds @ [d]). sym x" and l: "length ds \<le> 8"
  shows "decodeToLongWithBounds s b (b + int (length ds) + 1) =
     Inr ((if odd d then -1 else 1) * (32 * val64 ds + d div 2))"
proof -
  define e where "e = b + int (length ds) + 1"
  define v where "v = 32 * val64 ds + d div 2"
  note g = reads_last [OF r e_def]
  have ds: "sym d" using d by simp
  have w0: "lrel (add ZERO (shiftRightUnsigned (fromNumber d False) 1)) (0 + drop_bit 1 (word_of_int d))"
    by (intro lrel_ops lrel_shiftRightUnsigned lrel_sym ds) (simp_all add: lrel_def)
  have "\<exists>res'. decode_long_loop s b e (int 1) (add ZERO (shiftRightUnsigned (fromNumber d False) 1)) = Inr res'
      \<and> lrel res' (0 + drop_bit 1 (word_of_int d) + word_of_int (2 ^ (6 * 1 - 1) * rval64 (rev ds)))"
    by (rule decode_long_loop_spec [OF _ _ _ _ _ w0]) (use g d l in \<open>auto simp: e_def\<close>)
  moreover have "0 + drop_bit 1 (word_of_int d) + word_of_int (2 ^ (6 * 1 - 1) * rval64 (rev ds)) = (word_of_int v :: 64 word)"
  proof -
    have "drop_bit 1 (word_of_int d :: 64 word) = word_of_int (d div 2)"
    proof (rule word_uint_eqI)
      have "0 \<le> d" "d < 64" "d div 2 < 64" "0 \<le> d div 2" using ds by (auto simp: sym_def)
      then have "uint (word_of_int d :: 64 word) = d" "uint (word_of_int (d div 2) :: 64 word) = d div 2"
        using uint_of_int64 by simp_all
      then show "uint (drop_bit 1 (word_of_int d :: 64 word)) = uint (word_of_int (d div 2) :: 64 word)"
        by (simp only: drop_bit_eq_div uint_div) simp
    qed
    then show ?thesis by (simp add: v_def rval64_rev)
  qed
  ultimately obtain res where res: "decode_long_loop s b e 1 (add ZERO (shiftRightUnsigned (fromNumber d False) 1)) = Inr res"
    "lrel res (word_of_int v)" by auto
  have "0 \<le> val64 ds" "val64 ds < 64 ^ length ds" using val64_bounds [of ds] d by simp_all
  moreover have "(64::int) ^ length ds \<le> 64 ^ 8" using l by (intro power_increasing) simp_all
  moreover have "0 \<le> d div 2" "d div 2 \<le> 31" using ds by (auto simp: sym_def)
  ultimately have v: "0 \<le> v" "v < 2 ^ 53" by (simp_all add: v_def)
  then have lv: "lval res = v" using lrel_lval [OF res(2)] by (simp add: sint_of_int)
  then have tn: "toNumber res = v" using res(2) v by (simp add: toNumber_small lrel_def)
  have neg: "\<exists>r. multiply res (fromNumber (-1) False) = Some r \<and> toNumber r = - v"
  proof -
    have m: "lrel (fromNumber (-1) False) (-1)" by (rule lrel_numeral)
    have "lval res \<noteq> - (2 ^ 63)" "lval (fromNumber (-1) False) \<noteq> - (2 ^ 63)"
      using lv v lrel_lval [OF m] by simp_all
    then obtain r where r: "multiply res (fromNumber (-1) False) = Some r" "int32s r" "\<not> uns r"
      "word_of_long r = word_of_long res * word_of_long (fromNumber (-1) False)"
      using multiply_word [of res "fromNumber (-1) False"] res(2) m by (auto simp: lrel_def)
    have "word_of_long r = word_of_int (- v)" using r(4) res(2) m by (simp add: lrel_def)
    then have "lval r = - v" using v by (intro lvalI) simp_all
    then show ?thesis using r v by (simp add: toNumber_small)
  qed
  have "decodeToLongWithBounds s b e = Inr ((if odd d then -1 else 1) * v)"
    using g(1) long_index_sym [OF ds] ds res(1) neg tn
    by (auto simp: decodeToLongWithBounds_def js_and_masks odd_iff_mod_2_eq_one)
  then show ?thesis by (simp add: e_def v_def)
qed

text \<open>What the two integer encoders write: the digits, then five bits and the sign.\<close>

definition int_symbols :: "nat \<Rightarrow> int \<Rightarrow> int list" where
  "int_symbols k l = digits64 k \<bar>l\<bar> True @ [\<bar>l\<bar> mod 32 * 2 + (if l < 0 then 1 else 0)]"

lemma sym_int_symbols: "\<forall>d \<in> set (int_symbols k l). sym d"
  by (auto simp: int_symbols_def sym_def [of "_ * 2"] sym_def [of "_ * 2 + 1"] intro: order.strict_trans1)
     (presburger+)?

lemma encode_symbols:
  "encodeLongToBuffer l buffer = foldl hb_write buffer (syms (int_symbols 8 l))"
  "encodeIntToBuffer l buffer = foldl hb_write buffer (syms (int_symbols 5 l))"
  using encode_loop_digits [of 8] encode_loop_digits [of 5]
  by (auto simp: encodeLongToBuffer_def encodeIntToBuffer_def encode_last_def int_symbols_def
      js_and_masks abs_if Let_def)

lemma holds_encoded:
  assumes "hb_rel h pre" "\<forall>d \<in> set ds. sym d" "ds \<noteq> []"
  shows "heap_holds (foldl hb_write h (syms ds)) (pre @ syms ds)"
    and "reads (hb_read (foldl hb_write h (syms ds))) (int (length pre)) (syms ds)"
proof -
  show h: "heap_holds (foldl hb_write h (syms ds)) (pre @ syms ds)"
    using heap_holds_writes [OF assms(1), of "syms ds"] assms(2,3) by (simp add: syms_int8 del: map_map)
  show "reads (hb_read (foldl hb_write h (syms ds))) (int (length pre)) (syms ds)"
    using heap_source.holds_reads [OF h] by (simp add: reads_append)
qed

lemma val_int_symbols: "0 \<le> t \<Longrightarrow> t < 2 ^ (6 * k + 5) \<Longrightarrow> 32 * val64 (digits64 k t True) + (t mod 32 * 2 + s) div 2 = t + s div 2"
proof -
  assume t: "0 \<le> t" "t < 2 ^ (6 * k + 5)"
  have "(2::int) ^ (6 * k + 5) = 64 ^ k * 32" by (simp add: power_add power_mult)
  then have "t div 32 < 64 ^ k" using t by (simp add: div_less_iff_less_mult)
  then have "t div 32 mod 64 ^ k = t div 32" using t by (intro mod_pos_pos_trivial) (simp_all add: pos_imp_zdiv_nonneg_iff)
  then show ?thesis by (simp add: val64_digits64)
qed

lemma decode_int_loop_spec:
  assumes "\<And>j. j < length rs \<Longrightarrow> s (e - 1 - (int i + int j)) = Inr (Some (dict (rs ! j)))"
    and "\<forall>d \<in> set rs. sym d" "e - b = int i + int (length rs)" "0 < i" "i + length rs \<le> 10"
  shows "decode_int_loop s b e (int i) (Some q) = Inr (Some (q + of_int (2 ^ (6 * i - 1) * rval64 rs)))"
  using assms
proof (induction rs arbitrary: i q)
  case Nil
  then show ?case by (subst decode_int_loop.simps) simp
next
  case (Cons d rs)
  have d: "sym d" using Cons.prems by simp
  have r: "s (e - 1 - int i) = Inr (Some (dict d))" using Cons.prems(1) [of 0] by simp
  have k: "nat (6 * int i - 1) = 6 * i - 1" by simp
  have p: "powTwo (6 * int i - 1) = Some (2 ^ (6 * i - 1))"
    using Cons.prems(4,5) by (simp add: powTwo_def k)
  have "decode_int_loop s b e (int i) (Some q) =
      decode_int_loop s b e (int (Suc i)) (Some (q + of_int (d * 2 ^ (6 * i - 1))))"
    using Cons.prems(3) r d p by (subst decode_int_loop.simps) (simp add: add.commute)
  also have "\<dots> = Inr (Some (q + of_int (d * 2 ^ (6 * i - 1)) + of_int (2 ^ (6 * Suc i - 1) * rval64 rs)))"
  proof (rule Cons.IH)
    show "s (e - 1 - (int (Suc i) + int j)) = Inr (Some (dict (rs ! j)))" if "j < length rs" for j
      using Cons.prems(1) [of "Suc j"] that by (simp add: algebra_simps)
  qed (use Cons.prems in auto)
  also have "q + of_int (d * 2 ^ (6 * i - 1)) + of_int (2 ^ (6 * Suc i - 1) * rval64 rs)
      = q + of_int (2 ^ (6 * i - 1) * rval64 (d # rs))"
  proof -
    have e: "6 * Suc i - 1 = (6 * i - 1) + 6" using Cons.prems(4) by simp
    have "(2::int) ^ (6 * i - 1) * rval64 (d # rs) = d * 2 ^ (6 * i - 1) + 2 ^ (6 * Suc i - 1) * rval64 rs"
      unfolding e power_add by (simp add: algebra_simps)
    then show ?thesis by (simp only: of_int_add add.assoc)
  qed
  finally show ?case .
qed

lemma decode_int_spec:
  assumes r: "reads s b (syms (ds @ [d]))" and d: "\<forall>x \<in> set (ds @ [d]). sym x" and l: "length ds \<le> 8"
  shows "decodeToIntWithBounds s b (b + int (length ds) + 1) =
     Inr (Some ((if odd d then -1 else 1) * (of_int d / 2 + of_int (32 * val64 ds))))"
proof -
  define e where "e = b + int (length ds) + 1"
  note g = reads_last [OF r e_def]
  have ds: "sym d" using d by simp
  have "decode_int_loop s b e (int 1) (Some (of_int d / 2))
      = Inr (Some (of_int d / 2 + of_int (2 ^ (6 * 1 - 1) * rval64 (rev ds))))"
    by (rule decode_int_loop_spec) (use g d l in \<open>auto simp: e_def\<close>)
  then have "decodeToIntWithBounds s b e = Inr (Some ((if odd d then -1 else 1) * (of_int d / 2 + of_int (32 * val64 ds))))"
    using g(1) ds by (simp add: decodeToIntWithBounds_def js_and_masks odd_iff_mod_2_eq_one rval64_rev)
  then show ?thesis by (simp add: e_def)
qed

subsection \<open>Arrays of booleans\<close>

text \<open>Up to six booleans in one symbol, the first one in the lowest bit.\<close>

fun bval :: "bool list \<Rightarrow> int" where
  "bval [] = 0"
| "bval (b # bs) = (if b then 1 else 0) + 2 * bval bs"

fun bool_symbols :: "nat \<Rightarrow> int \<Rightarrow> bool list \<Rightarrow> int list" where
  "bool_symbols r t [] = []"
| "bool_symbols r t (b # bs) =
     (let t' = t + (if b then 1 else 0) * 2 ^ r in
      if r = 5 \<or> bs = [] then t' # bool_symbols 0 0 bs else bool_symbols (Suc r) t' bs)"

lemma bval_bounds: "0 \<le> bval bs \<and> bval bs < 2 ^ length bs"
  by (induction bs) auto

lemma bit_bval: "bit (bval bs) j \<longleftrightarrow> j < length bs \<and> bs ! j"
proof (induction bs arbitrary: j)
  case (Cons b bs)
  show ?case
  proof (cases j)
    case 0
    then show ?thesis by (simp add: bit_0)
  next
    case (Suc k)
    have "((if b then 1 else 0) + 2 * bval bs) div 2 = bval bs" by auto
    then show ?thesis using Suc Cons.IH [of k] by (simp add: bit_Suc del: div_mult_self4)
  qed
qed simp

lemma encode_bool_loop_symbols:
  assumes "i + length bs = n" "0 \<le> t" "t < 2 ^ (i mod 6)"
  shows "encode_bool_loop (int n) (int i) t bs buffer =
     foldl hb_write buffer (syms (bool_symbols (i mod 6) t bs))"
  using assms
proof (induction bs arbitrary: i t buffer)
  case (Cons b bs)
  define t' where "t' = t + (if b then 1 else 0) * 2 ^ (i mod 6)"
  have p: "(2::int) ^ (i mod 6) \<le> 2 ^ 5" by (rule power_mono_le) linarith
  have m: "nat (int i mod 6) = i mod 6" "(int i mod 6 = 5) = (i mod 6 = 5)" by (simp_all add: nat_mod_distrib, presburger)
  have o: "js_or t ((if b then 1 else 0) * 2 ^ nat (int i mod 6)) = t'"
  proof (cases b)
    case True
    have "js_or (2 ^ (i mod 6)) t = 2 ^ (i mod 6) + t"
      using Cons.prems p by (intro js_or_add [where n = "i mod 6"]) auto
    moreover have "js_or t (2 ^ (i mod 6)) = js_or (2 ^ (i mod 6)) t" by (simp add: js_or_def or.commute)
    ultimately show ?thesis using True m by (simp add: t'_def)
  next
    case False
    have "js_or 0 t = 0 + t"
      using Cons.prems p by (intro js_or_add [where n = "i mod 6"]) auto
    moreover have "js_or t 0 = js_or 0 t" by (simp add: js_or_def or.commute)
    ultimately show ?thesis using False by (simp add: t'_def)
  qed
  have t': "0 \<le> t'" "t' < 2 ^ Suc (i mod 6)" using Cons.prems by (auto simp: t'_def)
  have l: "int i = int n - 1 \<longleftrightarrow> bs = []" using Cons.prems(1) by auto
  show ?case
  proof (cases "i mod 6 = 5")
    case True
    then have "Suc i mod 6 = 0" by presburger
    then show ?thesis using Cons.IH [of "Suc i" 0] Cons.prems(1) True o m
      by (simp add: Let_def t'_def add.commute)
  next
    case False
    then have s: "Suc i mod 6 = Suc (i mod 6)" by (simp add: mod_Suc)
    show ?thesis
    proof (cases "bs = []")
      case True
      then show ?thesis using l o m by (simp add: Let_def t'_def)
    next
      case bs: False
      have "encode_bool_loop (int n) (int i) t (b # bs) buffer = encode_bool_loop (int n) (int (Suc i)) t' bs buffer"
        using o m False bs l by (simp add: Let_def add.commute)
      then show ?thesis using Cons.IH [of "Suc i" t'] Cons.prems(1) t' s False bs
        by (simp add: Let_def t'_def)
    qed
  qed
qed simp

lemma bool_symbols_chunk:
  "bs \<noteq> [] \<Longrightarrow> r \<le> 5 \<Longrightarrow>
   bool_symbols r t bs = (t + 2 ^ r * bval (take (6 - r) bs)) # bool_symbols 0 0 (drop (6 - r) bs)"
proof (induction bs arbitrary: r t)
  case (Cons b bs)
  define t' where "t' = t + (if b then 1 else 0) * 2 ^ r"
  show ?case
  proof (cases "r = 5 \<or> bs = []")
    case True
    then have "take (6 - r) (b # bs) = [b]" "drop (6 - r) (b # bs) = bs" using Cons.prems by (auto simp: take_Cons' drop_Cons')
    then show ?thesis using True by (simp add: Let_def)
  next
    case False
    then have k: "6 - r = Suc (6 - Suc r)" "Suc r \<le> 5" using Cons.prems by auto
    have "bool_symbols r t (b # bs) = bool_symbols (Suc r) t' bs" using False by (simp add: Let_def t'_def)
    then show ?thesis using Cons.IH [of "Suc r" t'] False k by (simp add: t'_def algebra_simps)
  qed
qed simp

lemma sym_bool_symbols: "d \<in> set (bool_symbols 0 0 bs) \<Longrightarrow> sym d"
proof (induction "length bs" arbitrary: bs rule: less_induct)
  case less
  show ?case
  proof (cases "bs = []")
    case False
    have b: "0 \<le> bval (take 6 bs)" "bval (take 6 bs) < 2 ^ length (take 6 bs)"
      using bval_bounds [of "take 6 bs"] by (simp_all del: length_take)
    moreover have "(2::int) ^ length (take 6 bs) \<le> 2 ^ 6" by (rule power_mono_le) simp
    ultimately have "sym (bval (take 6 bs))" by (simp add: sym_def)
    then show ?thesis
      using less.prems False bool_symbols_chunk [OF False, of 0 0] less.hyps [of "drop 6 bs"] by auto
  qed (use less.prems in simp)
qed

lemma decode_bits_spec:
  "k \<le> 6 \<Longrightarrow> decode_bits t (int i) (int k) (int n) res
     = res @ map (\<lambda>j. js_and t (2 ^ j) \<noteq> 0) [k..<min 6 (n - 6 * i)]"
proof (induction "6 - k" arbitrary: k res)
  case 0
  then have "[k..<min 6 (n - 6 * i)] = []" by simp
  then show ?case using 0 by (subst decode_bits.simps) simp
next
  case (Suc m)
  show ?case
  proof (cases "6 * i + k < n")
    case True
    have "decode_bits t (int i) (int k) (int n) res = decode_bits t (int i) (int (Suc k)) (int n) (res @ [js_and t (2 ^ k) \<noteq> 0])"
    proof -
      have "k < 6" using Suc.hyps(2) by simp
      then show ?thesis using True by (subst decode_bits.simps) (simp add: add.commute)
    qed
    moreover have "[k..<min 6 (n - 6 * i)] = k # [Suc k..<min 6 (n - 6 * i)]"
    proof (rule upt_conv_Cons)
      show "k < min 6 (n - 6 * i)" using True Suc.hyps(2) by linarith
    qed
    ultimately show ?thesis using Suc.hyps(1) [of "Suc k"] Suc.hyps(2) by simp
  next
    case False
    then have "[k..<min 6 (n - 6 * i)] = []" by simp
    then show ?thesis using False by (subst decode_bits.simps) simp
  qed
qed

lemma js_and_bit: "0 \<le> t \<Longrightarrow> t < 64 \<Longrightarrow> j < 6 \<Longrightarrow> js_and t (2 ^ j) \<noteq> 0 \<longleftrightarrow> bit t j"
proof -
  assume a: "0 \<le> t" "t < 64" "j < 6"
  have "(2::int) ^ j \<le> 2 ^ 5" using a by (intro power_mono_le) simp
  then have u: "(2::int) ^ j < 2 ^ 31" by simp
  have "- (2 ^ 31) \<le> (2::int) ^ j" by (rule order.trans [of _ 0]) simp_all
  then have "to_int32 (2 ^ j) = 2 ^ j" using u by (rule to_int32_id)
  moreover have "to_int32 t = t" using a by (intro to_int32_id) simp_all
  ultimately have "js_and t (2 ^ j) = t AND 2 ^ j" by (simp add: js_and_def)
  then show ?thesis by (auto simp: and_exp_eq_0_iff_not_bit)
qed

lemma decode_bool_loop_spec:
  assumes "reads s (b + int i) (syms (bool_symbols 0 0 bs))"
    and "e - b = int i + int (length (bool_symbols 0 0 bs))" "bs \<noteq> [] \<Longrightarrow> n = 6 * i + length bs"
  shows "decode_bool_loop s b e (int n) (int i) res = Inr (res @ bs)"
  using assms
proof (induction "length bs" arbitrary: bs i res rule: less_induct)
  case less
  show ?case
  proof (cases "bs = []")
    case True
    then show ?thesis using less.prems by (subst decode_bool_loop.simps) simp
  next
    case False
    define t where "t = bval (take 6 bs)"
    have c: "bool_symbols 0 0 bs = t # bool_symbols 0 0 (drop 6 bs)"
      using bool_symbols_chunk [OF False, of 0 0] by (simp add: t_def)
    have st: "sym t" using sym_bool_symbols [of t bs] c by simp
    have s: "s (b + int i) = Inr (Some (dict t))" "reads s (b + int (Suc i)) (syms (bool_symbols 0 0 (drop 6 bs)))"
      using less.prems(1) c by (simp_all add: reads_Cons add_ac)
    have "decode_bits t (int i) 0 (int n) res = res @ map (\<lambda>j. js_and t (2 ^ j) \<noteq> 0) [0..<min 6 (n - 6 * i)]"
      using decode_bits_spec [of 0 t i n res] by simp
    also have "map (\<lambda>j. js_and t (2 ^ j) \<noteq> 0) [0..<min 6 (n - 6 * i)] = take 6 bs"
      using st less.prems(3) [OF False] js_and_bit [of t]
      by (intro nth_equalityI) (auto simp: t_def bit_bval sym_def)
    finally have "decode_bool_loop s b e (int n) (int i) res = decode_bool_loop s b e (int n) (int (Suc i)) (res @ take 6 bs)"
      using s(1) st less.prems(2) c by (subst decode_bool_loop.simps) (simp add: add.commute)
    also have "\<dots> = Inr ((res @ take 6 bs) @ drop 6 bs)"
      using less.prems(2) less.prems(3) [OF False] s(2) c False by (intro less.hyps) auto
    finally show ?thesis by simp
  qed
qed

subsection \<open>Strings\<close>

text \<open>Three characters in four symbols; of each character only the low eight bits are kept.\<close>

fun string_symbols :: "jsstring \<Rightarrow> int list" where
  "string_symbols (a # b # c # cs) =
     [a div 4 mod 64, a mod 4 * 16 + b div 16 mod 16, b mod 16 * 4 + c div 64 mod 4, c mod 64] @ string_symbols cs"
| "string_symbols [a, b] = [a div 4 mod 64, a mod 4 * 16 + b div 16 mod 16, b mod 16 * 4]"
| "string_symbols [a] = [a div 4 mod 64, a mod 4 * 16]"
| "string_symbols [] = []"

lemma js_or_small:
  "0 \<le> p \<Longrightarrow> p < 1024 \<Longrightarrow> 0 \<le> q \<Longrightarrow> q < 4 \<Longrightarrow> js_or (p * 4) q = p * 4 + q"
  "0 \<le> p \<Longrightarrow> p < 1024 \<Longrightarrow> 0 \<le> q \<Longrightarrow> q < 16 \<Longrightarrow> js_or (p * 16) q = p * 16 + q"
  "0 \<le> p \<Longrightarrow> p < 1024 \<Longrightarrow> 0 \<le> q \<Longrightarrow> q < 64 \<Longrightarrow> js_or (p * 64) q = p * 64 + q"
  using js_or_add [of "p * 4" 2 q] js_or_add [of "p * 16" 4 q] js_or_add [of "p * 64" 6 q] by simp_all

lemma mod_small: "0 < m \<Longrightarrow> m \<le> n \<Longrightarrow> 0 \<le> x mod m \<and> x mod m < (n :: int)"
  using pos_mod_bound [of m x] pos_mod_sign [of m x] by linarith

lemma js_or_parts:
  "js_or (a mod 4 * 16) (b mod 16) = a mod 4 * 16 + b mod 16"
  "js_or (a mod 16 * 4) (b mod 4) = a mod 16 * 4 + b mod 4"
  by (rule js_or_small; simp add: mod_small)+

lemma mod64_parts:
  "(a mod 4 * 16 + b mod 16) mod 64 = a mod 4 * 16 + b mod (16 :: int)"
  "(a mod 16 * 4 + b mod 4) mod 64 = a mod 16 * 4 + b mod (4 :: int)"
proof -
  have p: "0 \<le> p \<Longrightarrow> p < 4 \<Longrightarrow> 0 \<le> q \<Longrightarrow> q < 16 \<Longrightarrow> (p * 16 + q) mod 64 = p * 16 + q"
    "0 \<le> p \<Longrightarrow> p < 16 \<Longrightarrow> 0 \<le> q \<Longrightarrow> q < 4 \<Longrightarrow> (p * 4 + q) mod 64 = p * 4 + q" for p q :: int
    by (rule mod_pos_pos_trivial; simp)+
  show "(a mod 4 * 16 + b mod 16) mod 64 = a mod 4 * 16 + b mod (16 :: int)"
    "(a mod 16 * 4 + b mod 4) mod 64 = a mod 16 * 4 + b mod (4 :: int)"
    by (rule p; rule pos_mod_sign pos_mod_bound; simp)+
qed

lemma encode_string_loop_symbols:
  "encode_string_loop cs cur 6 buffer = foldl hb_write buffer (syms (string_symbols cs))"
  by (induction cs arbitrary: cur buffer rule: string_symbols.induct)
     (simp_all add: js_and_masks js_or_parts mod64_parts)

lemma sym_string_symbols: "d \<in> set (string_symbols cs) \<Longrightarrow> sym d"
  by (induction cs rule: string_symbols.induct) (auto simp: sym_def; presburger)+

lemma decode_step:
  assumes "s b = Inr (Some (dict d))" "sym d" "b < e"
  shows "decode_string_loop s b e cur 8 res = decode_string_loop s (b + 1) e (d * 4) 2 res"
    "decode_string_loop s b e cur 2 res = decode_string_loop s (b + 1) e (js_and d 0xF * 16) 4
       (res @ [to_uint16 (js_or cur (js_trunc_div d 16))])"
    "decode_string_loop s b e cur 4 res = decode_string_loop s (b + 1) e (js_and d 0x3 * 64) 6
       (res @ [to_uint16 (js_or cur (js_trunc_div d 4))])"
    "decode_string_loop s b e cur 6 res = decode_string_loop s (b + 1) e cur 8
       (res @ [to_uint16 (js_or cur d)])"
  using assms by (subst decode_string_loop.simps; simp add: Let_def)+

lemma trunc_div_nonneg: "0 \<le> d \<Longrightarrow> 0 < n \<Longrightarrow> js_trunc_div d n = d div n"
  by (cases "d = 0") (simp_all add: js_trunc_div_def sdiv_abs)

lemma trunc_div_part: "0 \<le> p \<Longrightarrow> 0 \<le> q \<Longrightarrow> q < n \<Longrightarrow> js_trunc_div (p * n + q) n = p"
  by (subst trunc_div_nonneg) simp_all

text \<open>The four characters' parts put together.\<close>

lemma char_parts:
  fixes a b c :: int
  shows "to_uint16 (js_or (a div 4 mod 64 * 4) (js_trunc_div (a mod 4 * 16 + b div 16 mod 16) 16)) = a mod 256"
    "to_uint16 (js_or (a div 4 mod 64 * 4) (js_trunc_div (a mod 4 * 16) 16)) = a mod 256"
    "to_uint16 (js_or (js_and (a mod 4 * 16 + b div 16 mod 16) 0xF * 16) (js_trunc_div (b mod 16 * 4 + c div 64 mod 4) 4)) = b mod 256"
    "to_uint16 (js_or (js_and (a mod 4 * 16 + b div 16 mod 16) 0xF * 16) (js_trunc_div (b mod 16 * 4) 4)) = b mod 256"
    "to_uint16 (js_or (js_and (b mod 16 * 4 + c div 64 mod 4) 0x3 * 64) (c mod 64)) = c mod 256"
proof -
  have t: "js_trunc_div (a mod 4 * 16 + b div 16 mod 16) 16 = a mod 4"
    "js_trunc_div (a mod 4 * 16) 16 = a mod 4"
    "js_trunc_div (b mod 16 * 4 + c div 64 mod 4) 4 = b mod 16"
    "js_trunc_div (b mod 16 * 4) 4 = b mod 16"
    using trunc_div_part [of "a mod 4" "b div 16 mod 16" 16] trunc_div_part [of "a mod 4" 0 16]
      trunc_div_part [of "b mod 16" "c div 64 mod 4" 4] trunc_div_part [of "b mod 16" 0 4] by simp_all
  have m: "(a mod 4 * 16 + b div 16 mod 16) mod 16 = b div 16 mod 16"
    "(b mod 16 * 4 + c div 64 mod 4) mod 4 = c div 64 mod 4"
    by (simp_all only: mod_mult_self3 mod_mod_trivial)
  have o: "js_or (x mod 64 * 4) (y mod 4) = x mod 64 * 4 + y mod 4" for x y :: int
    by (rule js_or_small) (simp_all add: mod_small)
  have o2: "js_or (x mod 16 * 16) (y mod 16) = x mod 16 * 16 + y mod 16" for x y :: int
    by (rule js_or_small) (simp_all add: mod_small)
  have o3: "js_or (x mod 4 * 64) (y mod 64) = x mod 4 * 64 + y mod 64" for x y :: int
    by (rule js_or_small) (simp_all add: mod_small)
  have u: "to_uint16 (x mod 256) = x mod 256" for x
    unfolding to_uint16_def by (rule mod_pos_pos_trivial) (simp_all add: order.strict_trans1 [OF pos_mod_bound [THEN less_imp_le]])
  have z: "x div 4 mod 64 * 4 + x mod 4 = x mod 256" "x div 16 mod 16 * 16 + x mod 16 = x mod 256"
    "x div 64 mod 4 * 64 + x mod 64 = x mod 256" for x :: int
    using zmod_zmult2_eq [of 64 x 4] zmod_zmult2_eq [of 16 x 16] zmod_zmult2_eq [of 4 x 64] by simp_all
  show "to_uint16 (js_or (a div 4 mod 64 * 4) (js_trunc_div (a mod 4 * 16 + b div 16 mod 16) 16)) = a mod 256"
    "to_uint16 (js_or (a div 4 mod 64 * 4) (js_trunc_div (a mod 4 * 16) 16)) = a mod 256"
    unfolding t o z u by (rule refl)+
  show "to_uint16 (js_or (js_and (a mod 4 * 16 + b div 16 mod 16) 0xF * 16) (js_trunc_div (b mod 16 * 4 + c div 64 mod 4) 4)) = b mod 256"
    "to_uint16 (js_or (js_and (a mod 4 * 16 + b div 16 mod 16) 0xF * 16) (js_trunc_div (b mod 16 * 4) 4)) = b mod 256"
    unfolding js_and_masks t m o2 z u by (rule refl)+
  show "to_uint16 (js_or (js_and (b mod 16 * 4 + c div 64 mod 4) 0x3 * 64) (c mod 64)) = c mod 256"
    unfolding js_and_masks m o3 z u by (rule refl)
qed

lemma decode_string_end: "decode_string_loop s e e cur f res = Inr res"
  by (subst decode_string_loop.simps) simp

lemma decode_string_loop_spec:
  "reads s b (syms (string_symbols cs)) \<Longrightarrow> e = b + int (length (string_symbols cs)) \<Longrightarrow>
   decode_string_loop s b e cur 8 res = Inr (res @ map (\<lambda>c. c mod 256) cs)"
proof (induction cs arbitrary: b cur res rule: string_symbols.induct)
  case (1 x y z cs)
  have l: "sym (x div 4 mod 64)" "sym (x mod 4 * 16 + y div 16 mod 16)"
    "sym (y mod 16 * 4 + z div 64 mod 4)" "sym (z mod 64)"
    using sym_string_symbols [of _ "x # y # z # cs"] by auto
  have r: "s b = Inr (Some (dict (x div 4 mod 64)))"
    "s (b + 1) = Inr (Some (dict (x mod 4 * 16 + y div 16 mod 16)))"
    "s (b + 1 + 1) = Inr (Some (dict (y mod 16 * 4 + z div 64 mod 4)))"
    "s (b + 1 + 1 + 1) = Inr (Some (dict (z mod 64)))"
    "reads s (b + 1 + 1 + 1 + 1) (syms (string_symbols cs))"
    using 1(2) by (simp_all only: string_symbols.simps append_Cons append_Nil list.map reads_Cons)
  have e: "e = b + 1 + 1 + 1 + 1 + int (length (string_symbols cs))" using 1(3) by simp
  then have b: "b < e" "b + 1 < e" "b + 1 + 1 < e" "b + 1 + 1 + 1 < e" by simp_all
  have "decode_string_loop s b e cur 8 res
      = decode_string_loop s (b + 1 + 1 + 1 + 1) e (js_and (y mod 16 * 4 + z div 64 mod 4) 0x3 * 64) 8
          (((res @ [x mod 256]) @ [y mod 256]) @ [z mod 256])"
    unfolding decode_step(1) [where s = s, OF r(1) l(1) b(1)] decode_step(2) [where s = s, OF r(2) l(2) b(2)]
      decode_step(3) [where s = s, OF r(3) l(3) b(3)] decode_step(4) [where s = s, OF r(4) l(4) b(4)] char_parts ..
  then show ?case using 1(1) [OF r(5) e] by simp
next
  case (2 x y)
  have l: "sym (x div 4 mod 64)" "sym (x mod 4 * 16 + y div 16 mod 16)" "sym (y mod 16 * 4)"
    using sym_string_symbols [of _ "[x, y]"] by auto
  have r: "s b = Inr (Some (dict (x div 4 mod 64)))"
    "s (b + 1) = Inr (Some (dict (x mod 4 * 16 + y div 16 mod 16)))"
    "s (b + 1 + 1) = Inr (Some (dict (y mod 16 * 4)))"
    using 2(1) by (simp_all only: string_symbols.simps list.map reads_Cons)
  have b: "b < e" "b + 1 < e" "b + 1 + 1 < e" using 2(2) by simp_all
  have "decode_string_loop s b e cur 8 res
      = decode_string_loop s (b + 1 + 1 + 1) e (js_and (y mod 16 * 4) 0x3 * 64) 6 ((res @ [x mod 256]) @ [y mod 256])"
    unfolding decode_step(1) [where s = s, OF r(1) l(1) b(1)] decode_step(2) [where s = s, OF r(2) l(2) b(2)]
      decode_step(3) [where s = s, OF r(3) l(3) b(3)] char_parts ..
  moreover have "e = b + 1 + 1 + 1" using 2(2) by simp
  ultimately show ?case by (simp only: decode_string_end) simp
next
  case (3 x)
  have l: "sym (x div 4 mod 64)" "sym (x mod 4 * 16)"
    using sym_string_symbols [of _ "[x]"] by auto
  have r: "s b = Inr (Some (dict (x div 4 mod 64)))" "s (b + 1) = Inr (Some (dict (x mod 4 * 16)))"
    using 3(1) by (simp_all only: string_symbols.simps list.map reads_Cons)
  have b: "b < e" "b + 1 < e" using 3(2) by simp_all
  have "decode_string_loop s b e cur 8 res
      = decode_string_loop s (b + 1 + 1) e (js_and (x mod 4 * 16) 0xF * 16) 4 (res @ [x mod 256])"
    unfolding decode_step(1) [where s = s, OF r(1) l(1) b(1)] decode_step(2) [where s = s, OF r(2) l(2) b(2)] char_parts ..
  moreover have "e = b + 1 + 1" using 3(2) by simp
  ultimately show ?case by (simp only: decode_string_end) simp
next
  case 4
  then show ?case by (subst decode_string_loop.simps) simp
qed

subsection \<open>Doubles\<close>

definition is_byte :: "int \<Rightarrow> bool" where
  "is_byte x \<longleftrightarrow> 0 \<le> x \<and> x < 256"

text \<open>The fields of the IEEE number with these eight bytes.\<close>

definition ieee_exponent :: "int list \<Rightarrow> int" where
  "ieee_exponent bytes = bytes ! 7 mod 128 * 16 + bytes ! 6 div 16"

definition ieee_mantissa :: "int list \<Rightarrow> int" where
  "ieee_mantissa bytes = bytes ! 6 mod 16 * 2 ^ 48 + bytes ! 5 * 2 ^ 40 + bytes ! 4 * 2 ^ 32
     + bytes ! 3 * 2 ^ 24 + bytes ! 2 * 2 ^ 16 + bytes ! 1 * 2 ^ 8 + bytes ! 0"

definition ieee_sign :: "int list \<Rightarrow> int" where
  "ieee_sign bytes = (if bytes ! 7 \<ge> 128 then -1 else 1)"

definition double_digits :: "int list \<Rightarrow> int list" where
  "double_digits bytes =
     [(bytes ! 7 div 128 * 2048 + ieee_exponent bytes) div 64, ieee_exponent bytes mod 64,
      bytes ! 6 mod 16, bytes ! 5 div 4, bytes ! 5 mod 4 * 16 + bytes ! 4 div 16,
      bytes ! 4 mod 16 * 4 + bytes ! 3 div 64, bytes ! 3 mod 64,
      bytes ! 2 div 4, bytes ! 2 mod 4 * 16 + bytes ! 1 div 16,
      bytes ! 1 mod 16 * 4 + bytes ! 0 div 64, bytes ! 0 mod 64]"

lemma byte_parts:
  assumes "is_byte x"
  shows "0 \<le> x div 4 \<and> x div 4 < 64" "0 \<le> x div 16 \<and> x div 16 < 16" "0 \<le> x div 64 \<and> x div 64 < 4"
    "0 \<le> x div 128 \<and> x div 128 < 2" "x div 128 = (if x \<ge> 128 then 1 else 0)"
  using assms unfolding is_byte_def by (auto; presburger)+

lemma js_or_byte:
  assumes "is_byte b"
  shows "js_or (a mod 4 * 16) (b div 16) = a mod 4 * 16 + b div 16"
    "js_or (a mod 16 * 4) (b div 64) = a mod 16 * 4 + b div 64"
    "js_or (a mod 128 * 16) (b div 16) = a mod 128 * 16 + b div 16"
proof -
  note p = byte_parts [OF assms]
  show "js_or (a mod 4 * 16) (b div 16) = a mod 4 * 16 + b div 16"
    "js_or (a mod 16 * 4) (b div 64) = a mod 16 * 4 + b div 64"
    "js_or (a mod 128 * 16) (b div 16) = a mod 128 * 16 + b div 16"
    using p by (intro js_or_small; simp add: mod_small)+
qed

lemma exponent_range: "is_byte (bytes ! 6) \<Longrightarrow> 0 \<le> ieee_exponent bytes \<and> ieee_exponent bytes < 2048"
  using byte_parts(2) [of "bytes ! 6"] mod_small [of 128 128 "bytes ! 7"]
  unfolding ieee_exponent_def by linarith

lemma sym_parts:
  "0 \<le> p \<Longrightarrow> p < 4 \<Longrightarrow> 0 \<le> q \<Longrightarrow> q < 16 \<Longrightarrow> sym (p * 16 + q)"
  "0 \<le> p \<Longrightarrow> p < 16 \<Longrightarrow> 0 \<le> q \<Longrightarrow> q < 4 \<Longrightarrow> sym (p * 4 + q)"
  by (simp_all add: sym_def)

lemma double_symbols_digits:
  assumes "\<forall>i < 8. is_byte (bytes ! i)"
  shows "double_symbols bytes = syms (double_digits bytes)" "\<forall>d \<in> set (double_digits bytes). sym d"
proof -
  have b: "is_byte (bytes ! 0)" "is_byte (bytes ! 1)" "is_byte (bytes ! 2)" "is_byte (bytes ! 3)"
    "is_byte (bytes ! 4)" "is_byte (bytes ! 5)" "is_byte (bytes ! 6)" "is_byte (bytes ! 7)"
    using assms by simp_all
  note e = exponent_range [OF b(7)]
  have p7: "0 \<le> bytes ! 7 div 128" "bytes ! 7 div 128 < 2" using byte_parts(4) [OF b(8)] by simp_all
  have d7: "bytes ! 7 div 128 mod 2 = bytes ! 7 div 128" "bytes ! 5 div 4 mod 64 = bytes ! 5 div 4"
    "bytes ! 2 div 4 mod 64 = bytes ! 2 div 4"
    using p7 byte_parts(1) [OF b(6)] byte_parts(1) [OF b(3)] by (intro mod_pos_pos_trivial; simp)+
  have s: "(bytes ! 7 div 128 * 2048 + ieee_exponent bytes) div 64 mod 64
      = (bytes ! 7 div 128 * 2048 + ieee_exponent bytes) div 64"
    "(bytes ! 7 div 128 * 2048 + ieee_exponent bytes) mod 64 = ieee_exponent bytes mod 64"
  proof -
    define E where "E = bytes ! 7 div 128 * 2048 + ieee_exponent bytes"
    have "0 \<le> E" "E < 64 * 64" using p7 e by (simp_all add: E_def)
    then have "0 \<le> E div 64" "E div 64 < 64" by (simp_all add: div_less_iff_less_mult)
    then show "(bytes ! 7 div 128 * 2048 + ieee_exponent bytes) div 64 mod 64
        = (bytes ! 7 div 128 * 2048 + ieee_exponent bytes) div 64"
      unfolding E_def [symmetric] by (rule mod_pos_pos_trivial)
    have "bytes ! 7 div 128 * 2048 + ieee_exponent bytes = ieee_exponent bytes + 64 * (bytes ! 7 div 128 * 32)" by simp
    then show "(bytes ! 7 div 128 * 2048 + ieee_exponent bytes) mod 64 = ieee_exponent bytes mod 64"
      by (simp only: mod_mult_self2)
  qed
  have x: "js_or (js_and (bytes ! 7) 0x7f * 16) (bytes ! 6 div 16) = ieee_exponent bytes"
    using js_or_byte(3) [OF b(7)] by (simp add: js_and_masks ieee_exponent_def)
  show "double_symbols bytes = syms (double_digits bytes)"
    unfolding double_symbols_def x Let_def
    by (simp only: js_and_masks d7 diff_add_cancel s js_or_byte [OF b(5)] js_or_byte [OF b(4)]
        js_or_byte [OF b(2)] js_or_byte [OF b(1)] double_digits_def list.map)
  have q: "sym (y div 4)" "sym (x mod 4 * 16 + y div 16)" "sym (x mod 16 * 4 + y div 64)" if "is_byte y" for x y
    using byte_parts(1-3) [OF that] sym_parts by (simp_all add: sym_def [of "y div 4"] mod_small)
  have m: "sym (x mod 16)" for x using mod_small [of 16 64 x] by (simp add: sym_def)
  have s1: "sym ((bytes ! 7 div 128 * 2048 + ieee_exponent bytes) div 64)"
    using sym_mod [of "(bytes ! 7 div 128 * 2048 + ieee_exponent bytes) div 64"] by (simp only: s(1))
  show "\<forall>d \<in> set (double_digits bytes). sym d"
    unfolding double_digits_def using s1 q b m by (simp del: One_nat_def)
qed

lemma decode_mantissa_step:
  assumes "s (b + i) = Inr (Some (dict d))" "sym d" "i < e - b" "2 \<le> i" "i \<le> 10"
  shows "decode_mantissa s b e i (Some m) = decode_mantissa s b e (i + 1) (Some (m + d * 2 ^ nat (48 - 6 * (i - 2))))"
  using assms by (subst decode_mantissa.simps) (simp add: powTwo_def)

lemma decode_mantissa_end: "decode_mantissa s b e (e - b) m = Inr m"
  by (subst decode_mantissa.simps) simp

lemma decode_mantissa_spec:
  assumes "reads s (b + 2) (syms [d2, d3, d4, d5, d6, d7, d8, d9, d10])" "\<forall>d \<in> set [d2, d3, d4, d5, d6, d7, d8, d9, d10]. sym d"
    and "e = b + 11"
  shows "decode_mantissa s b e 2 (Some 0) = Inr (Some (d2 * 2 ^ 48 + d3 * 2 ^ 42 + d4 * 2 ^ 36 + d5 * 2 ^ 30
     + d6 * 2 ^ 24 + d7 * 2 ^ 18 + d8 * 2 ^ 12 + d9 * 2 ^ 6 + d10))"
proof -
  have r: "s (b + 2) = Inr (Some (dict d2))" "s (b + 3) = Inr (Some (dict d3))" "s (b + 4) = Inr (Some (dict d4))"
    "s (b + 5) = Inr (Some (dict d5))" "s (b + 6) = Inr (Some (dict d6))" "s (b + 7) = Inr (Some (dict d7))"
    "s (b + 8) = Inr (Some (dict d8))" "s (b + 9) = Inr (Some (dict d9))" "s (b + 10) = Inr (Some (dict d10))"
    using assms(1) by (simp_all add: reads_Cons add.commute [of b])
  have "decode_mantissa s b e 11 m = Inr m" for m using decode_mantissa_end [of s b e m] assms(3) by simp
  then show ?thesis
    using assms(2) r by (simp add: decode_mantissa_step assms(3))
qed

lemma mantissa_linear:
  fixes a :: int
  assumes "x5 = p5 * 4 + q5" "x4 = p4 * 16 + q4" "x3 = p3 * 64 + q3" "x2 = p2 * 4 + q2" "x1 = p1 * 16 + q1" "x0 = p0 * 64 + q0"
  shows "a * 2 ^ 48 + p5 * 2 ^ 42 + (q5 * 16 + p4) * 2 ^ 36 + (q4 * 4 + p3) * 2 ^ 30 + q3 * 2 ^ 24
     + p2 * 2 ^ 18 + (q2 * 16 + p1) * 2 ^ 12 + (q1 * 4 + p0) * 2 ^ 6 + q0
   = a * 2 ^ 48 + x5 * 2 ^ 40 + x4 * 2 ^ 32 + x3 * 2 ^ 24 + x2 * 2 ^ 16 + x1 * 2 ^ 8 + x0"
  unfolding assms by (simp add: algebra_simps)

lemma double_digits_mantissa:
  assumes "\<forall>i < 8. is_byte (bytes ! i)"
  shows "(case double_digits bytes of [d0, d1, d2, d3, d4, d5, d6, d7, d8, d9, d10] \<Rightarrow>
       d2 * 2 ^ 48 + d3 * 2 ^ 42 + d4 * 2 ^ 36 + d5 * 2 ^ 30 + d6 * 2 ^ 24 + d7 * 2 ^ 18 + d8 * 2 ^ 12 + d9 * 2 ^ 6 + d10)
     = ieee_mantissa bytes"
proof -
  show ?thesis
    unfolding double_digits_def ieee_mantissa_def list.case
    by (rule mantissa_linear) (rule div_mult_mod_eq [symmetric])+
qed

lemma decode_double_spec:
  assumes b: "\<forall>i < 8. is_byte (bytes ! i)" and r: "reads s b (syms (double_digits bytes))"
  shows "decodeToDoubleWithBounds s b (b + 11) =
     Inr (double_value (ieee_sign bytes) (ieee_exponent bytes) (ieee_mantissa bytes))"
proof -
  define E where "E = bytes ! 7 div 128 * 2048 + ieee_exponent bytes"
  have b6: "is_byte (bytes ! 6)" and b7: "is_byte (bytes ! 7)" using b by simp_all
  note x = exponent_range [of bytes, OF b6]
  have h: "bytes ! 7 div 128 = (if bytes ! 7 \<ge> 128 then 1 else 0)" using byte_parts(5) [OF b7] .
  have E: "0 \<le> E" "E < 4096" using x by (simp_all add: E_def h)
  obtain d2 d3 d4 d5 d6 d7 d8 d9 d10 where ds: "double_digits bytes = [E div 64, ieee_exponent bytes mod 64, d2, d3, d4, d5, d6, d7, d8, d9, d10]"
    by (simp add: double_digits_def E_def)
  have sy: "\<forall>d \<in> set (double_digits bytes). sym d" using double_symbols_digits [OF b] by simp
  have m: "decode_mantissa s b (b + 11) 2 (Some 0) = Inr (Some (ieee_mantissa bytes))"
  proof -
    have "reads s (b + 2) (syms [d2, d3, d4, d5, d6, d7, d8, d9, d10])"
      using r by (simp add: ds reads_Cons add.commute [of b])
    moreover have "\<forall>d \<in> set [d2, d3, d4, d5, d6, d7, d8, d9, d10]. sym d" using sy by (simp add: ds)
    ultimately show ?thesis
      using decode_mantissa_spec [of s b d2 d3 d4 d5 d6 d7 d8 d9 d10 "b + 11"] double_digits_mantissa [OF b] by (simp add: ds)
  qed
  have e: "ieee_exponent bytes mod 64 = E mod 64" by (simp add: E_def mod_add_eq [symmetric])
  then have se: "E div 64 * 64 + ieee_exponent bytes mod 64 = E" by simp
  have s0: "js_and E 0x800 \<noteq> 0 \<longleftrightarrow> bytes ! 7 \<ge> 128"
  proof -
    have "to_int32 E = E" "to_int32 (2 ^ 11) = 2 ^ 11" using E by (simp_all add: to_int32_id)
    then have "js_and E 0x800 = E AND 2 ^ 11" by (simp add: js_and_def)
    then have "js_and E 0x800 \<noteq> 0 \<longleftrightarrow> odd (E div 2048)" using and_exp_eq_0_iff_not_bit [of E 11] bit_iff_odd [of E 11] by simp
    moreover have "E div 2048 = bytes ! 7 div 128" using x by (simp add: E_def)
    ultimately show ?thesis using h by simp
  qed
  have s1: "js_and E 0x7FF = ieee_exponent bytes" using x by (simp add: js_and_masks E_def)
  have "s b = Inr (Some (dict (E div 64)))" "s (b + 1) = Inr (Some (dict (ieee_exponent bytes mod 64)))"
    "sym (E div 64)" using r sy by (simp_all add: ds reads_Cons)
  then show ?thesis
    using s0 s1 m se by (simp add: decodeToDoubleWithBounds_def Let_def ieee_sign_def)
qed

subsection \<open>Keys\<close>

lemma in_dictionary: "sym d \<Longrightarrow> dict d \<in> set dictionary"
proof -
  assume "sym d"
  moreover have "length dictionary = 64" by code_simp
  ultimately show ?thesis by (simp add: dict_def sym_def nat_less_iff)
qed

lemma syms_dictionary: "\<forall>d \<in> set ds. sym d \<Longrightarrow> set (syms ds) \<subseteq> set dictionary"
  using in_dictionary by auto

lemma KEY_SEP_dictionary: "KEY_SEP \<notin> set dictionary"
  by code_simp

definition key_bytes :: "int \<Rightarrow> int \<Rightarrow> int \<Rightarrow> int \<Rightarrow> int list" where
  "key_bytes t w i k = to_int8 t # KEY_SEP # syms (int_symbols 8 w) @ KEY_SEP # syms (int_symbols 8 i)
     @ KEY_SEP # syms (int_symbols 8 k)"

lemma hb_rel_syms: "hb_rel h bs \<Longrightarrow> \<forall>d \<in> set ds. sym d \<Longrightarrow> hb_rel (foldl hb_write h (syms ds)) (bs @ syms ds)"
  using hb_rel_writes [of h bs "syms ds"] by (simp add: syms_int8 del: map_map)

lemma keyToBuffer_bytes:
  assumes "hb_rel h pre"
  shows "heap_holds (keyToBuffer h t w i k) (pre @ key_bytes t w i k)"
proof -
  have sep: "hb_rel (hb_write g KEY_SEP) (bs @ [KEY_SEP])" if "hb_rel g bs" for g bs
    using hb_rel_write [OF that, of KEY_SEP] by (simp add: KEY_SEP_def to_int8_def)
  note num = hb_rel_syms [OF _ sym_int_symbols]
  have "hb_rel (hb_write h t) (pre @ [to_int8 t])" using hb_rel_write [OF assms] by simp
  note 1 = sep [OF num [OF sep [OF num [OF sep [OF this], of 8 w]], of 8 i]]
  have "int_symbols 8 k \<noteq> []" by (simp add: int_symbols_def)
  from holds_encoded(1) [OF 1 sym_int_symbols this] show ?thesis
    unfolding keyToBuffer_def Let_def encode_symbols key_bytes_def by simp
qed

text \<open>A sequence without the separator is determined by what it and the rest after a separator are.\<close>

lemma split_sep:
  "xs @ c # ys = xs' @ c # ys' \<Longrightarrow> c \<notin> set xs \<Longrightarrow> c \<notin> set xs' \<Longrightarrow> xs = xs' \<and> ys = ys'"
proof (induction xs arbitrary: xs')
  case Nil
  then show ?case by (cases xs') auto
next
  case (Cons x xs)
  then show ?case by (cases xs') auto
qed

lemma last_symbol: "odd (t mod 32 * 2 + (if (l :: int) < 0 then 1 else 0)) \<longleftrightarrow> l < 0" for t :: int
  by simp

lemma decode_int_symbols:
  assumes "reads s b (syms (int_symbols 8 l))" "\<bar>l\<bar> < 2 ^ 53" "e = b + int (length (int_symbols 8 l))"
  shows "decodeToLongWithBounds s b e = Inr l"
proof -
  define ds where "ds = digits64 8 \<bar>l\<bar> True"
  define d where "d = \<bar>l\<bar> mod 32 * 2 + (if l < 0 then 1 else 0)"
  have i: "int_symbols 8 l = ds @ [d]" by (simp add: int_symbols_def ds_def d_def)
  have "32 * val64 ds + d div 2 = \<bar>l\<bar>"
    using val_int_symbols [of "\<bar>l\<bar>" 8 "if l < 0 then 1 else 0"] assms(2) by (simp add: ds_def d_def)
  moreover have "length ds \<le> 8" using length_digits64(1) by (simp add: ds_def)
  moreover have "odd d \<longleftrightarrow> l < 0" unfolding d_def by (rule last_symbol)
  moreover have e: "e = b + int (length ds) + 1" using assms(3) by (simp add: i)
  moreover have "decodeToLongWithBounds s b e = Inr ((if odd d then -1 else 1) * (32 * val64 ds + d div 2))"
    unfolding e using assms(1) sym_int_symbols [of 8 l] calculation by (intro decode_long_spec) (simp_all add: i)
  ultimately show ?thesis by (simp add: abs_if)
qed

lemma int_symbols_inj:
  assumes "syms (int_symbols 8 l) = syms (int_symbols 8 l')" "\<bar>l\<bar> < 2 ^ 53" "\<bar>l'\<bar> < 2 ^ 53"
  shows "l = l'"
proof -
  define s :: "int \<Rightarrow> jsnum result" where "s i = Inr (rd (syms (int_symbols 8 l)) (Some i))" for i
  have r: "reads s 0 (syms (int_symbols 8 l))" by (simp add: reads_def s_def del: map_map)
  have "length (int_symbols 8 l) = length (int_symbols 8 l')" using assms(1) by (rule map_eq_imp_length_eq)
  then have "decodeToLongWithBounds s 0 (int (length (int_symbols 8 l))) = Inr l'"
    using decode_int_symbols [of s 0 l'] r assms by simp
  moreover have "decodeToLongWithBounds s 0 (int (length (int_symbols 8 l))) = Inr l"
    using decode_int_symbols [OF r assms(2)] by simp
  ultimately show ?thesis by simp
qed

lemma decode_int_symbols_rat:
  assumes "reads s b (syms (int_symbols 5 l))" "\<bar>l\<bar> < 2 ^ 35" "e = b + int (length (int_symbols 5 l))"
  shows "decodeToIntWithBounds s b e = Inr (Some (if l < 0 then of_int l - 1 / 2 else of_int l))"
proof -
  define t where "t = \<bar>l\<bar>"
  define ds where "ds = digits64 5 t True"
  define d where "d = t mod 32 * 2 + (if l < 0 then 1 else 0)"
  have i: "int_symbols 5 l = ds @ [d]" by (simp add: int_symbols_def ds_def d_def t_def)
  have "32 * val64 ds + d div 2 = t"
    using val_int_symbols [of t 5 "if l < 0 then 1 else 0"] assms(2) by (simp add: ds_def d_def t_def)
  moreover have "d = 2 * (d div 2) + (if l < 0 then 1 else 0)" by (simp add: d_def)
  ultimately have "2 * (32 * val64 ds) + d = 2 * t + (if l < 0 then 1 else 0)" by linarith
  then have "2 * of_int (32 * val64 ds) + (of_int d :: rat) = of_int (2 * t + (if l < 0 then 1 else 0))"
    by (metis of_int_add of_int_mult of_int_numeral)
  then have v: "of_int d / 2 + of_int (32 * val64 ds) = (of_int t + (if l < 0 then 1 / 2 else 0) :: rat)"
    by (simp split: if_splits)
  have "length ds \<le> 8" using length_digits64(1) [of 5 t True] by (simp add: ds_def)
  moreover have "odd d \<longleftrightarrow> l < 0" unfolding d_def by (rule last_symbol)
  moreover have e: "e = b + int (length ds) + 1" using assms(3) by (simp add: i)
  moreover have "decodeToIntWithBounds s b e = Inr (Some ((if odd d then -1 else 1) * (of_int d / 2 + of_int (32 * val64 ds))))"
    unfolding e using assms(1) sym_int_symbols [of 5 l] calculation by (intro decode_int_spec) (simp_all add: i)
  ultimately show ?thesis unfolding v by (simp add: t_def abs_if)
qed

lemma length_syms_int: "length (syms (int_symbols k l)) = length (int_symbols k l)" "int_symbols k l \<noteq> []"
  by (simp_all add: int_symbols_def)

subsection \<open>Properties\<close>

text \<open>Further fact.
  \<open>encodeLongToBuffer\<close> appends to any buffer symbols of the dictionary only (so none of the
  separators), and \<open>decodeToLongWithBounds\<close> on the offsets of these symbols returns the
  number, for every integer of 53 bits, negative ones included.\<close>

theorem long_roundtrip:
  assumes "hb_rel h pre" "\<bar>l\<bar> < 2 ^ 53"
  shows "\<exists>cs. heap_holds (encodeLongToBuffer l h) (pre @ cs) \<and> set cs \<subseteq> set dictionary
     \<and> decodeToLongWithBounds (hb_read (encodeLongToBuffer l h)) (int (length pre)) (int (length (pre @ cs))) = Inr l"
  using holds_encoded [OF assms(1) sym_int_symbols length_syms_int(2), of 8 l] syms_dictionary [OF sym_int_symbols, of 8 l]
    decode_int_symbols [OF _ assms(2)]
  by (intro exI [of _ "syms (int_symbols 8 l)"]) (simp add: encode_symbols)

theorem long_roundtrip_witness:
  "\<exists>cs :: int list. decodeToLongWithBounds (hb_read (encodeLongToBuffer (-9007199254740990) newHeapBuffer)) 0 (int (length cs))
      = Inr (-9007199254740990)"
  using long_roundtrip [OF hb_rel_new, of "-9007199254740990"] by auto

text \<open>Further fact.
  The same for \<open>encodeIntToBuffer\<close> and \<open>decodeToIntWithBounds\<close> on 32-bit integers, but with a
  half too many on the negative ones: the decoder halves the last symbol without dropping its
  sign bit, so a negative \<open>l\<close> comes back as \<open>l - 1/2\<close>.\<close>

theorem int_roundtrip:
  assumes "hb_rel h pre" "- (2 ^ 31) \<le> l" "l < 2 ^ 31"
  shows "\<exists>cs. heap_holds (encodeIntToBuffer l h) (pre @ cs) \<and> set cs \<subseteq> set dictionary
     \<and> decodeToIntWithBounds (hb_read (encodeIntToBuffer l h)) (int (length pre)) (int (length (pre @ cs)))
       = Inr (Some (if l < 0 then of_int l - 1 / 2 else of_int l))"
  using holds_encoded [OF assms(1) sym_int_symbols length_syms_int(2), of 5 l] syms_dictionary [OF sym_int_symbols, of 5 l]
    decode_int_symbols_rat [of _ _ l] assms(2,3)
  by (intro exI [of _ "syms (int_symbols 5 l)"]) (simp add: encode_symbols)

theorem int_roundtrip_witness:
  "\<exists>cs :: int list. decodeToIntWithBounds (hb_read (encodeIntToBuffer (-5) newHeapBuffer)) 0 (int (length cs)) = Inr (Some (- 11 / 2))"
  using int_roundtrip [OF hb_rel_new, of "-5"] by auto

text \<open>Property C35.
  A double: \<open>encodeDoubleToBuffer\<close> appends eleven symbols, and \<open>decodeToDoubleWithBounds\<close> rebuilds the
  number from its sign, exponent and mantissa; a finite number comes back exactly, and every
  number with the largest exponent comes back as an infinity, so NaN is not preserved.\<close>

theorem double_roundtrip:
  assumes "hb_rel h pre" "\<forall>i < 8. is_byte (bytes ! i)"
  shows "\<exists>cs. heap_holds (encodeDoubleToBuffer bytes h) (pre @ cs) \<and> length cs = 11 \<and> set cs \<subseteq> set dictionary
     \<and> decodeToDoubleWithBounds (hb_read (encodeDoubleToBuffer bytes h)) (int (length pre)) (int (length (pre @ cs)))
       = Inr (if ieee_exponent bytes = 2047 then Infinite (ieee_sign bytes)
              else if ieee_exponent bytes = 0
                then Finite (of_int (ieee_sign bytes) * (of_int (ieee_mantissa bytes) / 2 ^ 52) / 2 ^ 1022)
              else Finite (of_int (ieee_sign bytes) * pow2 (ieee_exponent bytes - 1023)
                           * (1 + of_int (ieee_mantissa bytes) / 2 ^ 52)))"
proof -
  note d = double_symbols_digits [OF assms(2)]
  have ne: "double_digits bytes \<noteq> []" "length (double_digits bytes) = 11" by (simp_all add: double_digits_def)
  note h = holds_encoded [OF assms(1) d(2) ne(1)]
  have e: "encodeDoubleToBuffer bytes h = foldl hb_write h (syms (double_digits bytes))"
    by (simp add: encodeDoubleToBuffer_def d(1))
  have "0 \<le> ieee_exponent bytes" "ieee_exponent bytes < 2048" using exponent_range [of bytes] assms(2) by simp_all
  then have v: "double_value (ieee_sign bytes) (ieee_exponent bytes) (ieee_mantissa bytes)
     = (if ieee_exponent bytes = 2047 then Infinite (ieee_sign bytes)
              else if ieee_exponent bytes = 0
                then Finite (of_int (ieee_sign bytes) * (of_int (ieee_mantissa bytes) / 2 ^ 52) / 2 ^ 1022)
              else Finite (of_int (ieee_sign bytes) * pow2 (ieee_exponent bytes - 1023)
                           * (1 + of_int (ieee_mantissa bytes) / 2 ^ 52)))"
    by (simp add: double_value_def pow2_def)
  have l: "int (length (pre @ syms (double_digits bytes))) = int (length pre) + 11" using ne by simp
  show ?thesis
    unfolding e v [symmetric]
    by (intro exI [of _ "syms (double_digits bytes)"])
       (use h(1) ne syms_dictionary [OF d(2)] decode_double_spec [OF assms(2) h(2)] l in simp)
qed

theorem double_roundtrip_witness:
  "\<exists>cs :: int list. decodeToDoubleWithBounds (hb_read (encodeDoubleToBuffer [0, 0, 0, 0, 0, 0, 248, 191] newHeapBuffer)) 0
      (int (length cs)) = Inr (Finite (- 3 / 2))"
proof -
  let ?b = "[0, 0, 0, 0, 0, 0, 248, 191] :: int list"
  have b: "\<forall>i < 8. is_byte (?b ! i)" by (simp add: All_less_Suc eval_nat_numeral is_byte_def)
  have "ieee_exponent ?b = 1023" "ieee_sign ?b = -1" "ieee_mantissa ?b = 2 ^ 51"
    by (simp_all add: ieee_exponent_def ieee_sign_def ieee_mantissa_def)
  with double_roundtrip [OF hb_rel_new b] show ?thesis by (auto simp: pow2_def)
qed

text \<open>Further fact.
  An array of booleans: what \<open>encodeBoolArrayToBuffer\<close> appends, \<open>decodeToBoolArrayWithBounds\<close> with
  the length of the array returns, whatever the length (the last symbol may be partly used).\<close>

theorem bool_roundtrip:
  assumes "hb_rel h pre" "bs \<noteq> []"
  shows "\<exists>cs. heap_holds (encodeBoolArrayToBuffer bs h) (pre @ cs) \<and> set cs \<subseteq> set dictionary
     \<and> decodeToBoolArrayWithBounds (hb_read (encodeBoolArrayToBuffer bs h)) (int (length pre))
         (int (length (pre @ cs))) (int (length bs)) = Inr bs"
proof -
  define ds where "ds = bool_symbols 0 0 bs"
  have s: "\<forall>d \<in> set ds. sym d" using sym_bool_symbols by (auto simp: ds_def)
  have ne: "ds \<noteq> []" using bool_symbols_chunk [OF assms(2), of 0 0] by (simp add: ds_def)
  note h = holds_encoded [OF assms(1) s ne]
  have e: "encodeBoolArrayToBuffer bs h = foldl hb_write h (syms ds)"
    using encode_bool_loop_symbols [of 0 bs "length bs" 0 h] by (simp add: encodeBoolArrayToBuffer_def ds_def)
  have "decode_bool_loop (hb_read (foldl hb_write h (syms ds))) (int (length pre)) (int (length (pre @ syms ds)))
      (int (length bs)) (int 0) [] = Inr ([] @ bs)"
    using h(2) by (intro decode_bool_loop_spec) (simp_all add: ds_def)
  then show ?thesis
    using h(1) syms_dictionary [OF s] by (intro exI [of _ "syms ds"]) (simp add: e decodeToBoolArrayWithBounds_def)
qed

theorem bool_roundtrip_witness:
  "\<exists>cs :: int list. decodeToBoolArrayWithBounds (hb_read (encodeBoolArrayToBuffer [True, False, True, True, False, False, True] newHeapBuffer))
      0 (int (length cs)) 7 = Inr [True, False, True, True, False, False, True]"
  using bool_roundtrip [OF hb_rel_new, of "[True, False, True, True, False, False, True]"] by auto

text \<open>Further fact.
  A string: what \<open>encodeStringToBuffer\<close> appends, \<open>decodeToStringWithBounds\<close> reads back with each code
  unit reduced to its low eight bits: Latin-1 strings are preserved, the others are not.\<close>

theorem string_roundtrip:
  assumes "hb_rel h pre" "cs \<noteq> []"
  shows "\<exists>ds. heap_holds (encodeStringToBuffer cs h) (pre @ ds) \<and> set ds \<subseteq> set dictionary
     \<and> decodeToStringWithBounds (hb_read (encodeStringToBuffer cs h)) (int (length pre)) (int (length (pre @ ds)))
       = Inr (map (\<lambda>c. c mod 256) cs)"
proof -
  have s: "\<forall>d \<in> set (string_symbols cs). sym d" using sym_string_symbols by auto
  have ne: "string_symbols cs \<noteq> []" using assms(2) by (cases cs rule: string_symbols.cases) auto
  note h = holds_encoded [OF assms(1) s ne]
  show ?thesis
    using h(1) syms_dictionary [OF s] decode_string_loop_spec [OF h(2), of _ 0 "[]"]
    by (intro exI [of _ "syms (string_symbols cs)"])
       (simp add: encodeStringToBuffer_def encode_string_loop_symbols decodeToStringWithBounds_def)
qed

theorem string_roundtrip_witness:
  "\<exists>ds :: int list. decodeToStringWithBounds (hb_read (encodeStringToBuffer [109, 119, 68, 66, 8364] newHeapBuffer)) 0 (int (length ds))
      = Inr [109, 119, 68, 66, 172]"
  using string_roundtrip [OF hb_rel_new, of "[109, 119, 68, 66, 8364]"] by auto

text \<open>Property C36.
  The storage key of a chunk (\<open>BufferBuilder.keyToBuffer\<close>) determines the chunk: equal keys
  are those of the same type, world, time and id.\<close>

theorem key_injective:
  assumes "hb_data (keyToBuffer newHeapBuffer t w i k) = hb_data (keyToBuffer newHeapBuffer t' w' i' k')"
    and "- 128 \<le> t" "t < 128" "- 128 \<le> t'" "t' < 128"
    and "\<bar>w\<bar> < 2 ^ 53" "\<bar>i\<bar> < 2 ^ 53" "\<bar>k\<bar> < 2 ^ 53" "\<bar>w'\<bar> < 2 ^ 53" "\<bar>i'\<bar> < 2 ^ 53" "\<bar>k'\<bar> < 2 ^ 53"
  shows "t = t' \<and> w = w' \<and> i = i' \<and> k = k'"
proof -
  have "hb_data (keyToBuffer newHeapBuffer t w i k) = Inr (key_bytes t w i k)" for t w i k
    using keyToBuffer_bytes [OF hb_rel_new, of t w i k] hb_rel_data by (simp add: heap_holds_def)
  then have e: "key_bytes t w i k = key_bytes t' w' i' k'" using assms(1) by simp
  have n: "KEY_SEP \<notin> set (syms (int_symbols 8 l))" for l
    using syms_dictionary [OF sym_int_symbols, of 8 l] KEY_SEP_dictionary by auto
  have b: "- 128 \<le> x \<Longrightarrow> x < 128 \<Longrightarrow> to_int8 x = x" for x by (simp add: to_int8_def)
  have "t = t'" using e b assms(2-5) by (simp add: key_bytes_def)
  moreover have "syms (int_symbols 8 w) = syms (int_symbols 8 w') \<and> syms (int_symbols 8 i) @ KEY_SEP # syms (int_symbols 8 k)
      = syms (int_symbols 8 i') @ KEY_SEP # syms (int_symbols 8 k')"
    using e by (intro split_sep [where c = KEY_SEP] n) (simp add: key_bytes_def)
  moreover from this have "syms (int_symbols 8 i) = syms (int_symbols 8 i') \<and> syms (int_symbols 8 k) = syms (int_symbols 8 k')"
    by (intro split_sep [where c = KEY_SEP] n) simp
  ultimately show ?thesis using int_symbols_inj assms(6-) by blast
qed

theorem key_injective_witness:
  "hb_data (keyToBuffer newHeapBuffer 1 2 3 4) \<noteq> hb_data (keyToBuffer newHeapBuffer 1 2 3 (-4))"
  using key_injective [of 1 2 3 4 1 2 3 "-4"] by auto

end
