(* ===== verification/HashChain.thy ===== *)
theory HashChain
  imports HashSpec
begin

text \<open>
  What the hash tables of mwg.js share: an array of bucket heads (\<open>_elementHash\<close>) and an array of
  links (\<open>_elementNext\<close>), with a negative link at the end of a chain.  \<open>buckets\<close> is their
  invariant; the lookup loop and the insertion at the head of a bucket are proved on it once.
\<close>

subsection \<open>The loops of the code\<close>

text \<open>
  The lookup loop \<open>while (m >= 0) { if (p(m)) return m; m = next[m]; }\<close>; the result is -1 when no
  element satisfies \<open>p\<close>, and \<open>None\<close> when the chain is a cycle without such an element.
\<close>

partial_function (option) chain_find :: "(int \<Rightarrow> bool) \<Rightarrow> int list \<Rightarrow> jsnum \<Rightarrow> int option" where
  "chain_find p nx m =
     (case m of
        None \<Rightarrow> Some (-1)
      | Some j \<Rightarrow> if j \<ge> 0 then (if p j then Some j else chain_find p nx (rd nx m)) else Some (-1))"

declare chain_find.simps [code]

definition of_loop :: "'a option \<Rightarrow> 'a result" where
  "of_loop m = (case m of None \<Rightarrow> Inl NoReturn | Some x \<Rightarrow> Inr x)"

lemma of_loop_simps [simp]: "of_loop None = Inl NoReturn" "of_loop (Some x) = Inr x"
  by (simp_all add: of_loop_def)

text \<open>
  The insertion of slot \<open>i\<close> at the head of bucket \<open>b\<close>: the link of \<open>i\<close> becomes the previous
  head, or \<open>e\<close> when the bucket was empty (\<open>None\<close>: it is left as it is).
\<close>

definition bucket_link :: "int option \<Rightarrow> int \<Rightarrow> int \<Rightarrow> int list \<times> int list \<Rightarrow> int list \<times> int list" where
  "bucket_link e b i = (\<lambda>(nx, hs).
     let current = rd hs (Some b);
         nx = (if current \<noteq> Some (-1) then wrn nx (Some i) current
               else case e of None \<Rightarrow> nx | Some v \<Rightarrow> wr nx (Some i) v)
     in (nx, wr hs (Some b) i))"

text \<open>
  The rehash loops: the elements of the list \<open>is\<close> that are live are inserted, in this order, each
  in the bucket its hash names.
\<close>

fun relink :: "int option \<Rightarrow> (nat \<Rightarrow> bool) \<Rightarrow> (nat \<Rightarrow> int result) \<Rightarrow> nat list \<Rightarrow> int list \<times> int list
    \<Rightarrow> (int list \<times> int list) result" where
  "relink v live hash [] a = Inr a"
| "relink v live hash (i # is) a =
     (if live i then bindr (hash i) (\<lambda>b. relink v live hash is (bucket_link v b (int i) a))
      else relink v live hash is a)"

subsection \<open>The invariant\<close>

text \<open>
  \<open>buckets e own S nx hs\<close>: the slots of \<open>S\<close> are in the chains, slot \<open>i\<close> in the chain of bucket
  \<open>own i\<close>; a chain ends with the link \<open>e\<close>, and a bucket that never held a slot with -1.
\<close>

definition chain_end :: "int \<Rightarrow> nat list \<Rightarrow> int \<Rightarrow> bool" where
  "chain_end e xs j \<longleftrightarrow> j = e \<or> xs = [] \<and> j = -1"

definition buckets :: "int \<Rightarrow> (nat \<Rightarrow> nat) \<Rightarrow> nat set \<Rightarrow> int list \<Rightarrow> int list \<Rightarrow> bool" where
  "buckets e own S nx hs \<longleftrightarrow>
     e < 0 \<and> (\<forall>i \<in> S. i < length nx \<and> own i < length hs) \<and>
     (\<forall>b < length hs. \<exists>xs j. path nx (hs ! b) xs j \<and> chain_end e xs j \<and> set xs = {i \<in> S. own i = b})"

lemma chain_end_neg: "e < 0 \<Longrightarrow> chain_end e xs j \<Longrightarrow> j < 0"
  by (auto simp: chain_end_def)

lemma buckets_empty: "e < 0 \<Longrightarrow> (\<And>b. b < length hs \<Longrightarrow> hs ! b = -1) \<Longrightarrow> buckets e own {} nx hs"
  by (auto simp: buckets_def chain_end_def intro: exI [of _ "[]"])

lemma bucketsD:
  assumes "buckets e own S nx hs" "b < length hs"
  obtains xs j where "path nx (hs ! b) xs j" "chain_end e xs j" "j < 0" "set xs = {i \<in> S. own i = b}" "distinct xs"
  using assms path_distinct chain_end_neg unfolding buckets_def by metis

lemma buckets_bound: "buckets e own S nx hs \<Longrightarrow> i \<in> S \<Longrightarrow> i < length nx \<and> own i < length hs"
  by (simp add: buckets_def)

lemma buckets_cong: "(\<And>i. i \<in> S \<Longrightarrow> own i = own' i) \<Longrightarrow> buckets e own S nx hs = buckets e own' S nx hs"
  by (auto simp: buckets_def cong: conj_cong)

text \<open>The links of the slots in the chains: never -1 when \<open>e\<close> is another number.\<close>

lemma path_link: "path nx i xs j \<Longrightarrow> x \<in> set xs \<Longrightarrow> nx ! x = j \<or> (\<exists>y \<in> set xs. nx ! x = int y)"
proof (induction xs arbitrary: i)
  case (Cons a xs)
  then show ?case by (cases xs) auto
qed simp

lemma buckets_link:
  assumes "buckets e own S nx hs" "i \<in> S"
  shows "nx ! i = e \<or> 0 \<le> nx ! i"
proof -
  have "own i < length hs" using buckets_bound [OF assms] by simp
  then obtain xs j where xs: "path nx (hs ! own i) xs j" "chain_end e xs j" "set xs = {j \<in> S. own j = own i}"
    by (rule bucketsD [OF assms(1)])
  then have "i \<in> set xs" "j = e" using assms(2) by (auto simp: chain_end_def)
  then have "nx ! i = e \<or> (\<exists>y \<in> set xs. nx ! i = int y)" using path_link [OF xs(1)] by blast
  then show ?thesis by auto
qed

lemma update_only:
  assumes "length ys = length xs" "\<forall>j. j \<noteq> i \<longrightarrow> ys ! j = xs ! j"
  shows "ys = xs[i := ys ! i]"
proof (rule nth_equalityI)
  fix j assume "j < length ys"
  then show "ys ! j = xs[i := ys ! i] ! j" using assms by (cases "j = i") auto
qed (simp add: assms)

text \<open>The links of the slots that are in no chain do not matter.\<close>

lemma buckets_outside: "i \<notin> S \<Longrightarrow> buckets e own S (nx[i := v]) hs = buckets e own S nx hs"
proof -
  assume i: "i \<notin> S"
  have "(\<exists>xs j. path (nx[i := v]) (hs ! b) xs j \<and> chain_end e xs j \<and> set xs = {i \<in> S. own i = b})
     \<longleftrightarrow> (\<exists>xs j. path nx (hs ! b) xs j \<and> chain_end e xs j \<and> set xs = {i \<in> S. own i = b})" for b
    using i path_update [of i _ nx v] by (metis (mono_tags, lifting) mem_Collect_eq)
  then show ?thesis by (simp add: buckets_def)
qed

subsection \<open>Lookup\<close>

lemma chain_find_path:
  assumes "path nx i xs j" "j < 0"
  shows "\<exists>m. chain_find p nx (Some i) = Some m \<and>
     (if \<exists>x \<in> set xs. p (int x) then 0 \<le> m \<and> nat m \<in> set xs \<and> p m else m = -1)"
  using assms
proof (induction xs arbitrary: i)
  case Nil
  then show ?case by (subst chain_find.simps) simp
next
  case (Cons x xs)
  then have i: "i = int x" "x < length nx" "path nx (nx ! x) xs j" by auto
  show ?case
  proof (cases "p i")
    case True
    then show ?thesis using i by (subst chain_find.simps) auto
  next
    case False
    then have "chain_find p nx (Some i) = chain_find p nx (Some (nx ! x))"
      using i by (subst chain_find.simps) simp
    moreover obtain m where "chain_find p nx (Some (nx ! x)) = Some m"
      "if \<exists>y \<in> set xs. p (int y) then 0 \<le> m \<and> nat m \<in> set xs \<and> p m else m = -1"
      using Cons.IH [OF i(3) Cons.prems(2)] by blast
    ultimately show ?thesis using False i by (intro exI [of _ m]) auto
  qed
qed

lemma buckets_find:
  assumes "buckets e own S nx hs" "b < length hs"
  shows "\<exists>m. chain_find p nx (rd hs (Some (int b))) = Some m \<and>
     (if \<exists>i \<in> S. own i = b \<and> p (int i) then 0 \<le> m \<and> nat m \<in> S \<and> own (nat m) = b \<and> p m else m = -1)"
proof -
  obtain xs j where xs: "path nx (hs ! b) xs j" "j < 0" "set xs = {i \<in> S. own i = b}"
    using assms by (rule bucketsD)
  then obtain m where "chain_find p nx (Some (hs ! b)) = Some m"
    "if \<exists>x \<in> set xs. p (int x) then 0 \<le> m \<and> nat m \<in> set xs \<and> p m else m = -1"
    using chain_find_path [OF xs(1,2), of p] by blast
  then show ?thesis using xs(3) assms(2) by (auto split: if_splits)
qed

subsection \<open>Insertion\<close>

lemma buckets_insert:
  assumes b: "buckets e own S nx hs" "i \<notin> S" "i < length nx" "own i < length hs"
  shows "buckets e own (insert i S) (nx[i := if hs ! own i = -1 then e else hs ! own i]) (hs[own i := int i])"
proof -
  let ?l = "if hs ! own i = -1 then e else hs ! own i"
  let ?nx = "nx[i := ?l]" and ?hs = "hs[own i := int i]"
  have e: "e < 0" using b by (simp add: buckets_def)
  have "\<exists>xs j. path ?nx (?hs ! c) xs j \<and> chain_end e xs j \<and> set xs = {j \<in> insert i S. own j = c}"
    if c: "c < length hs" for c
  proof -
    obtain xs j where xs: "path nx (hs ! c) xs j" "chain_end e xs j" "set xs = {j \<in> S. own j = c}"
      by (rule bucketsD [OF b(1) c])
    have i: "i \<notin> set xs" using xs(3) b(2) by simp
    show ?thesis
    proof (cases "c = own i")
      case False
      then have "?hs ! c = hs ! c" "{j \<in> insert i S. own j = c} = {j \<in> S. own j = c}" by auto
      then show ?thesis using xs path_update [OF i] by metis
    next
      case True
      have "path ?nx ?l xs e"
      proof (cases xs)
        case Nil
        then show ?thesis using xs True by (auto simp: chain_end_def)
      next
        case (Cons x ys)
        then have "hs ! own i \<noteq> -1" "path nx (hs ! own i) xs e" using xs True by (auto simp: chain_end_def)
        then show ?thesis using path_update [OF i] by simp
      qed
      then have "path ?nx (?hs ! c) (i # xs) e" "chain_end e (i # xs) e"
        using True b by (simp_all add: chain_end_def)
      moreover have "set (i # xs) = {j \<in> insert i S. own j = c}" using xs(3) True by auto
      ultimately show ?thesis by blast
    qed
  qed
  then show ?thesis using b e by (auto simp: buckets_def)
qed

lemma bucket_link_insert:
  assumes b: "buckets e own S nx hs" "i \<notin> S" "i < length nx" "own i < length hs"
    and v: "v = Some e \<or> v = None \<and> nx ! i = e"
  shows "\<exists>nx' hs'. bucket_link v (int (own i)) (int i) (nx, hs) = (nx', hs')
           \<and> buckets e own (insert i S) nx' hs' \<and> length nx' = length nx \<and> length hs' = length hs
           \<and> (\<forall>j. j \<noteq> i \<longrightarrow> nx' ! j = nx ! j)"
proof -
  have "nx = nx[i := e]" if "nx ! i = e" using that by auto
  then have "bucket_link v (int (own i)) (int i) (nx, hs)
      = (nx[i := if hs ! own i = -1 then e else hs ! own i], hs[own i := int i])"
    using assms by (auto simp: bucket_link_def)
  then show ?thesis using buckets_insert [OF b] by simp
qed

subsection \<open>Removal\<close>

text \<open>A slot is taken out of its chain by redirecting the link (or the head) before it.\<close>

lemma path_remove:
  assumes "path nx i (us @ x # vs) j" "distinct (us @ x # vs)" "us \<noteq> []"
  shows "path (nx[last us := nx ! x]) i (us @ vs) j"
proof -
  obtain ws u where us: "us = ws @ [u]" using assms(3) by (metis append_butlast_last_id)
  have "path nx i ws (int u)" "u < length nx" "path nx (nx ! x) vs j" using assms(1) us by (auto simp: path_append)
  then show ?thesis using assms(2) us by (simp add: path_append path_update)
qed

lemma buckets_remove:
  assumes b: "buckets e own S nx hs" "own x < length hs"
    and c: "path nx (hs ! own x) (us @ x # vs) j" "j < 0"
  shows "buckets e own (S - {x}) (if us = [] then nx else nx[last us := nx ! x])
           (if us = [] then hs[own x := nx ! x] else hs)"
proof -
  let ?nx = "if us = [] then nx else nx[last us := nx ! x]" and ?hs = "if us = [] then hs[own x := nx ! x] else hs"
  obtain xs k where xs: "path nx (hs ! own x) xs k" "chain_end e xs k" "k < 0" "set xs = {i \<in> S. own i = own x}" "distinct xs"
    by (rule bucketsD [OF b])
  have "xs = us @ x # vs" "k = j" using path_unique [OF xs(1,3) c] by simp_all
  note xs = xs [unfolded this]
  have "\<exists>ys j. path ?nx (?hs ! d) ys j \<and> chain_end e ys j \<and> set ys = {i \<in> S - {x}. own i = d}" if d: "d < length hs" for d
  proof (cases "d = own x")
    case True
    have "path ?nx (?hs ! d) (us @ vs) j"
      using True d xs(1,5) path_remove [OF xs(1,5)] by (auto simp: path_append)
    moreover have "chain_end e (us @ vs) j" using xs(2) by (simp add: chain_end_def)
    moreover have "set (us @ vs) = {i \<in> S - {x}. own i = d}" using xs(4,5) True by auto
    ultimately show ?thesis by blast
  next
    case False
    obtain ys k where ys: "path nx (hs ! d) ys k" "chain_end e ys k" "set ys = {i \<in> S. own i = d}"
      by (rule bucketsD [OF b(1) d])
    have "last us \<notin> set ys" if "us \<noteq> []" using last_in_set [OF that] xs(4) ys(3) False by auto
    then have "path ?nx (?hs ! d) ys k" using ys(1) False by (simp add: path_update)
    moreover have "set ys = {i \<in> S - {x}. own i = d}" using ys(3) False by auto
    ultimately show ?thesis using ys(2) by blast
  qed
  then show ?thesis using b(1) by (auto simp: buckets_def)
qed

subsection \<open>Rehashing\<close>

lemma relink_buckets:
  assumes "buckets e own S nx hs" "distinct is" "S \<inter> set is = {}"
    and "\<And>i. i \<in> set is \<Longrightarrow> live i \<Longrightarrow> i < length nx \<and> own i < length hs \<and> hash i = Inr (int (own i))"
    and "v = Some e \<or> v = None \<and> (\<forall>i \<in> set is. nx ! i = e)"
  shows "\<exists>nx' hs'. relink v live hash is (nx, hs) = Inr (nx', hs')
           \<and> buckets e own (S \<union> set (filter live is)) nx' hs' \<and> length nx' = length nx
           \<and> length hs' = length hs \<and> (\<forall>j. j \<notin> set (filter live is) \<longrightarrow> nx' ! j = nx ! j)"
  using assms
proof (induction "is" arbitrary: S nx hs)
  case Nil
  then show ?case by simp
next
  case (Cons i "is")
  show ?case
  proof (cases "live i")
    case False
    have "v = Some e \<or> v = None \<and> (\<forall>i \<in> set is. nx ! i = e)" using Cons.prems(5) by auto
    then show ?thesis using Cons.IH [OF Cons.prems(1)] Cons.prems False by simp
  next
    case True
    then have i: "i < length nx" "own i < length hs" "hash i = Inr (int (own i))"
      "i \<notin> S" "i \<notin> set is" "v = Some e \<or> v = None \<and> nx ! i = e" using Cons.prems by auto
    obtain nx1 hs1 where one: "bucket_link v (int (own i)) (int i) (nx, hs) = (nx1, hs1)"
      "buckets e own (insert i S) nx1 hs1" "length nx1 = length nx" "length hs1 = length hs"
      "\<forall>j. j \<noteq> i \<longrightarrow> nx1 ! j = nx ! j"
      using bucket_link_insert [OF Cons.prems(1) i(4,1,2,6)] by blast
    have "v = Some e \<or> v = None \<and> (\<forall>j \<in> set is. nx1 ! j = e)" using Cons.prems(5) one(5) i(5) by auto
    then have "\<exists>nx2 hs2. relink v live hash is (nx1, hs1) = Inr (nx2, hs2)
        \<and> buckets e own (insert i S \<union> set (filter live is)) nx2 hs2 \<and> length nx2 = length nx1
        \<and> length hs2 = length hs1 \<and> (\<forall>j. j \<notin> set (filter live is) \<longrightarrow> nx2 ! j = nx1 ! j)"
      using Cons.prems one(3,4) i by (intro Cons.IH [OF one(2)]) auto
    then show ?thesis using True i(3) one by fastforce
  qed
qed

subsection \<open>Tables\<close>

text \<open>
  The table of a hash function \<open>h\<close> with \<open>N\<close> buckets: the slots of \<open>S\<close>, where slot \<open>i\<close> has
  the key \<open>key i\<close>, chained by \<open>nx\<close> and \<open>hs\<close>.
\<close>

definition slot_of :: "('k \<Rightarrow> int \<Rightarrow> int result) \<Rightarrow> nat \<Rightarrow> 'k \<Rightarrow> nat" where
  "slot_of h N k = (case h k (int N) of Inl _ \<Rightarrow> 0 | Inr b \<Rightarrow> nat b)"

definition table :: "('k \<Rightarrow> int \<Rightarrow> int result) \<Rightarrow> ('k \<Rightarrow> bool) \<Rightarrow> int \<Rightarrow> nat \<Rightarrow> nat set \<Rightarrow> (nat \<Rightarrow> 'k)
    \<Rightarrow> int list \<Rightarrow> int list \<Rightarrow> bool" where
  "table h ok e N S key nx hs \<longleftrightarrow>
     N < 2 ^ 31 \<and> length nx = N \<and> length hs = N \<and> (\<forall>i \<in> S. i < N \<and> ok (key i))
     \<and> buckets e (\<lambda>i. slot_of h N (key i)) S nx hs"

lemma table_cong: "(\<And>i. i \<in> S \<Longrightarrow> key i = key' i) \<Longrightarrow> table h ok e N S key nx hs = table h ok e N S key' nx hs"
  using buckets_cong [of S "\<lambda>i. slot_of h N (key i)" "\<lambda>i. slot_of h N (key' i)"] by (auto simp: table_def)

context hash_slots
begin

lemma slot_of: "ok k \<Longrightarrow> 0 < N \<Longrightarrow> N < 2 ^ 31 \<Longrightarrow> h k (int N) = Inr (int (slot_of h N k)) \<and> slot_of h N k < N"
  using slot_nat [of k N] by (auto simp: slot_of_def)

lemma table_find:
  assumes "table h ok e N S key nx hs" "ok k" "0 < N"
  shows "\<exists>m. chain_find p nx (rd hs (Some (int (slot_of h N k)))) = Some m \<and>
    (if \<exists>i \<in> S. slot_of h N (key i) = slot_of h N k \<and> p (int i) then 0 \<le> m \<and> nat m \<in> S \<and> p m else m = -1)"
proof -
  have "slot_of h N k < length hs" using assms slot_of [of k N] by (simp add: table_def)
  then obtain m where m: "chain_find p nx (rd hs (Some (int (slot_of h N k)))) = Some m"
    "if \<exists>i \<in> S. slot_of h N (key i) = slot_of h N k \<and> p (int i)
     then 0 \<le> m \<and> nat m \<in> S \<and> slot_of h N (key (nat m)) = slot_of h N k \<and> p m else m = -1"
    using assms(1) buckets_find [of e "\<lambda>i. slot_of h N (key i)" S nx hs "slot_of h N k" p]
    unfolding table_def by blast
  then show ?thesis by (intro exI [of _ m]) (simp split: if_splits)
qed

text \<open>The lookup of a key: the slot that holds it, or -1.\<close>

lemma table_lookup:
  assumes "table h ok e N S key nx hs" "ok k" "0 < N" "\<And>i. i \<in> S \<Longrightarrow> p (int i) \<longleftrightarrow> key i = k"
  shows "\<exists>m. chain_find p nx (rd hs (Some (int (slot_of h N k)))) = Some m \<and>
    (if \<exists>i \<in> S. key i = k then 0 \<le> m \<and> nat m \<in> S \<and> key (nat m) = k else m = -1)"
proof -
  obtain m where m: "chain_find p nx (rd hs (Some (int (slot_of h N k)))) = Some m"
    "if \<exists>i \<in> S. slot_of h N (key i) = slot_of h N k \<and> p (int i) then 0 \<le> m \<and> nat m \<in> S \<and> p m else m = -1"
    using table_find [OF assms(1-3)] by blast
  show ?thesis
  proof (cases "\<exists>i \<in> S. key i = k")
    case True
    then have "0 \<le> m" "nat m \<in> S" "p m" using m(2) assms(4) by (auto split: if_splits)
    then show ?thesis using m(1) True assms(4) [of "nat m"] by auto
  next
    case False
    then have "\<not> (\<exists>i \<in> S. slot_of h N (key i) = slot_of h N k \<and> p (int i))" using assms(4) by auto
    then show ?thesis using m False by auto
  qed
qed

lemma table_insert:
  assumes "table h ok e N S key nx hs" "i \<notin> S" "i < N" "ok k" "key' i = k" "\<And>j. j \<in> S \<Longrightarrow> key' j = key j"
    and "v = Some e \<or> v = None \<and> nx ! i = e"
  shows "\<exists>nx' hs'. bucket_link v (int (slot_of h N k)) (int i) (nx, hs) = (nx', hs')
           \<and> table h ok e N (insert i S) key' nx' hs' \<and> (\<forall>j. j \<noteq> i \<longrightarrow> nx' ! j = nx ! j)"
proof -
  have t: "table h ok e N S key' nx hs" using assms(1,6) table_cong by (metis (no_types))
  have "slot_of h N k < N" using slot_of [of k N] assms t by (simp add: table_def)
  then obtain nx' hs' where "bucket_link v (int (slot_of h N (key' i))) (int i) (nx, hs) = (nx', hs')"
    "buckets e (\<lambda>i. slot_of h N (key' i)) (insert i S) nx' hs'" "length nx' = length nx"
    "length hs' = length hs" "\<forall>j. j \<noteq> i \<longrightarrow> nx' ! j = nx ! j"
    using bucket_link_insert [of e "\<lambda>i. slot_of h N (key' i)" S nx hs i v] t assms(2,3,5,7)
    by (auto simp: table_def)
  then show ?thesis using t assms(3-5) by (simp add: table_def)
qed

text \<open>A rehash puts every live slot into the larger table.\<close>

lemma table_relink:
  assumes "0 < N" "N < 2 ^ 31" "n \<le> N" "\<And>i. i < n \<Longrightarrow> live i \<Longrightarrow> ok (key i) \<and> hash i = h (key i) (int N)"
    and "e < 0" "v = Some e \<or> v = None \<and> e = -1"
  shows "\<exists>nx hs. relink v live hash [0..<n] (replicate N (-1), replicate N (-1)) = Inr (nx, hs)
     \<and> table h ok e N {i. i < n \<and> live i} key nx hs \<and> (\<forall>j < N. j < n \<and> live j \<or> nx ! j = -1)"
proof -
  have b: "buckets e (\<lambda>i. slot_of h N (key i)) {} (replicate N (-1)) (replicate N (-1))"
    using assms(5) by (intro buckets_empty) auto
  have "\<exists>nx hs. relink v live hash [0..<n] (replicate N (-1), replicate N (-1)) = Inr (nx, hs)
     \<and> buckets e (\<lambda>i. slot_of h N (key i)) ({} \<union> set (filter live [0..<n])) nx hs \<and> length nx = N
     \<and> length hs = N \<and> (\<forall>j. j \<notin> set (filter live [0..<n]) \<longrightarrow> nx ! j = replicate N (-1) ! j)"
    using relink_buckets [OF b, of "[0..<n]" live hash v] assms slot_of by auto
  then obtain nx hs where r: "relink v live hash [0..<n] (replicate N (-1), replicate N (-1)) = Inr (nx, hs)"
    "buckets e (\<lambda>i. slot_of h N (key i)) {i. i < n \<and> live i} nx hs" "length nx = N" "length hs = N"
    "\<forall>j. j < n \<and> live j \<or> nx ! j = replicate N (-1) ! j"
    by (auto simp: conj_commute)
  then have "table h ok e N {i. i < n \<and> live i} key nx hs" using assms by (auto simp: table_def)
  then show ?thesis using r by auto
qed

lemma table_empty: "N < 2 ^ 31 \<Longrightarrow> e < 0 \<Longrightarrow> length nx = N \<Longrightarrow> table h ok e N {} key nx (replicate N (-1))"
  by (auto simp: table_def intro: buckets_empty)

end

end
