(* ===== verification/MapObject.thy ===== *)
theory MapObject
  imports HashChain Buffers
begin

text \<open>
  The map objects of the heap chunks.  A map object holds a reference to a state; a copy made with an
  origin shares the origin's state and is not aligned, and the first write through it clones the
  state.  The states live in a store (a list, a reference is an index).  The locale
  \<open>number_map\<close> is the contract of the two maps to numbers.
\<close>

definition NULL_LONG :: int where "NULL_LONG = 0x1FFFFFFFFFFFFF"

text \<open>A new array of \<open>m\<close> elements with a copy of the first \<open>n\<close> elements of \<open>a\<close>.\<close>

definition grown :: "'a \<Rightarrow> nat \<Rightarrow> nat \<Rightarrow> 'a list \<Rightarrow> 'a list" where
  "grown d n m a = arraycopy d a 0 (replicate m d) 0 n"

lemma grown: "length a = n \<Longrightarrow> n \<le> m \<Longrightarrow> grown d n m a = a @ replicate (m - n) d"
  by (simp add: grown_def arraycopy_prefix)

lemma length_grown [simp]: "length a = n \<Longrightarrow> n \<le> m \<Longrightarrow> length (grown d n m a) = m"
  by (simp add: grown)

lemma grown_same [simp]: "length a = n \<Longrightarrow> grown d n n a = a"
  by (simp add: grown)

lemma nth_grown [simp]: "length a = n \<Longrightarrow> n \<le> m \<Longrightarrow> i < n \<Longrightarrow> grown d n m a ! i = a ! i"
  by (simp add: grown nth_append)

lemma nth_grown_new [simp]: "length a = n \<Longrightarrow> n \<le> i \<Longrightarrow> i < m \<Longrightarrow> grown d n m a ! i = d"
  by (simp add: grown nth_append)

lemma take_grown [simp]: "length a = n \<Longrightarrow> n \<le> m \<Longrightarrow> c \<le> n \<Longrightarrow> take c (grown d n m a) = take c a"
  by (simp add: grown)

text \<open>A write beyond the end of a JavaScript array extends it; at -1 it leaves the elements alone.\<close>

definition wr_js :: "'a option list \<Rightarrow> jsnum \<Rightarrow> 'a \<Rightarrow> 'a option list" where
  "wr_js a p v =
     (case p of None \<Rightarrow> a
      | Some j \<Rightarrow> if j < 0 then a
                  else if nat j < length a then a[nat j := Some v]
                  else a @ replicate (nat j - length a) None @ [Some v])"

text \<open>\<open>longHash\<close> of an element that may be undefined, on which \<open>Long.fromValue\<close> throws.\<close>

definition hash_elem :: "jsnum \<Rightarrow> int \<Rightarrow> int result" where
  "hash_elem x mx =
     (case x of None \<Rightarrow> Inl (if mx \<le> 0 then JsError ''Max must be > 0'' else TypeError) | Some k \<Rightarrow> longHash k mx)"

lemma hash_elem_Some [simp]: "hash_elem (Some k) mx = longHash k mx"
  by (simp add: hash_elem_def)

lemma map_of_snoc: "map_of xs k = None \<Longrightarrow> map_of (xs @ [(k, v)]) = (map_of xs)(k \<mapsto> v)"
  by (rule ext) (simp add: map_add_def split: option.split)

lemma map_eq_iff: "f = g \<longleftrightarrow> (\<forall>k v. f k = Some v \<longleftrightarrow> g k = Some v)" for f g :: "'a \<rightharpoonup> 'b"
  by (metis ext not_None_eq)

lemma hashable_1: "hashable 1"
  by code_simp

subsection \<open>Objects\<close>

record map_object =
  mo_listener :: bool    \<comment> \<open>\<open>_listener\<close> is not null\<close>
  mo_state :: nat
  mo_aligned :: bool

text \<open>The two branches of the constructors.\<close>

definition mo_create :: "'s \<Rightarrow> bool \<Rightarrow> 's list \<Rightarrow> 's list \<times> map_object" where
  "mo_create newstate listener st =
     (st @ [newstate], \<lparr>mo_listener = listener, mo_state = length st, mo_aligned = True\<rparr>)"

definition mo_copy :: "bool \<Rightarrow> map_object \<Rightarrow> map_object" where
  "mo_copy listener origin = \<lparr>mo_listener = listener, mo_state = mo_state origin, mo_aligned = False\<rparr>"

definition mo_align :: "('s \<Rightarrow> 's) \<Rightarrow> 's list \<times> map_object \<Rightarrow> 's list \<times> map_object" where
  "mo_align clone = (\<lambda>(st, m).
     if mo_aligned m then (st, m)
     else (st @ [clone (st ! mo_state m)], m\<lparr>mo_state := length st, mo_aligned := True\<rparr>))"

text \<open>
  What \<open>put\<close> did to a state: an insertion may have replaced the state by a new, larger one.  The
  listener is called after an insertion and an update; \<open>guarded\<close> says whether the call is under a
  null check (if not, a missing listener is a \<open>TypeError\<close>, thrown after the write).
\<close>

datatype put_effect = Inserted bool | Updated | Unchanged

definition mo_notify :: "(put_effect \<Rightarrow> bool) \<Rightarrow> map_object \<Rightarrow> put_effect \<Rightarrow> bool result" where
  "mo_notify guarded m eff =
     (if eff = Unchanged then Inr False
      else if mo_listener m then Inr True
      else if guarded eff then Inr False else Inl TypeError)"

text \<open>The outcome is whether the listener was told; the store and the object are as they are then, also after a throw.\<close>

definition mo_put :: "('s \<Rightarrow> 's) \<Rightarrow> ('s \<Rightarrow> ('s \<times> put_effect) result) \<Rightarrow> (put_effect \<Rightarrow> bool) \<Rightarrow>
    's list \<times> map_object \<Rightarrow> ('s list \<times> map_object) \<times> bool result" where
  "mo_put clone modify guarded w =
     (let (st, m) = mo_align clone w in
      case modify (st ! mo_state m) of
        Inl e \<Rightarrow> ((st, m), Inl e)
      | Inr (s, eff) \<Rightarrow>
          (if eff = Inserted True
           then (st @ [s], m\<lparr>mo_state := length st\<rparr>)
           else (st[mo_state m := s], m), mo_notify guarded m eff))"

lemma mo_put_isolated:
  assumes "\<not> mo_aligned m" "r < length st"
  shows "fst (fst (mo_put clone modify guarded (st, m))) ! r = st ! r"
  using assms by (auto simp: mo_put_def mo_align_def nth_append split: sum.split)

lemma mo_put_state:
  assumes "mo_state m < length st" "modify (if mo_aligned m then st ! mo_state m else clone (st ! mo_state m)) = Inr (s, eff)"
    "mo_put clone modify guarded (st, m) = ((st', m'), out)"
  shows "mo_state m' < length st'" "st' ! mo_state m' = s" "mo_aligned m'" "mo_listener m' = mo_listener m"
    "out = mo_notify guarded m eff" "length st \<le> length st'"
  using assms by (auto simp: mo_put_def mo_align_def mo_notify_def nth_append split: if_splits)

subsection \<open>The contract of a map to numbers\<close>

text \<open>A sequence of puts, and what a map holds after it.\<close>

fun run_puts :: "('k \<Rightarrow> int \<Rightarrow> 's \<Rightarrow> ('s \<times> put_effect) result) \<Rightarrow> ('k \<times> int) list \<Rightarrow> 's \<Rightarrow> 's result" where
  "run_puts put [] s = Inr s"
| "run_puts put ((k, v) # kvs) s = bindr (put k v s) (\<lambda>(s, eff). run_puts put kvs s)"

text \<open>
  The contract: \<open>key\<close> is what the map identifies its keys by (the hash of a string, the number
  itself), \<open>room n\<close> leaves place for \<open>n\<close> more keys.
\<close>

locale number_map =
  fixes wf :: "'s \<Rightarrow> bool" and abs :: "'s \<Rightarrow> 'h \<rightharpoonup> int" and key :: "'k \<Rightarrow> 'h" and ok :: "'k \<Rightarrow> bool"
    and room :: "nat \<Rightarrow> 's \<Rightarrow> bool" and get :: "'k \<Rightarrow> 's \<Rightarrow> jsnum result"
    and put :: "'k \<Rightarrow> int \<Rightarrow> 's \<Rightarrow> ('s \<times> put_effect) result"
  assumes get_law: "wf s \<Longrightarrow> ok k \<Longrightarrow> get k s = Inr (Some (case abs s (key k) of None \<Rightarrow> NULL_LONG | Some v \<Rightarrow> v))"
    and put_law: "wf s \<Longrightarrow> ok k \<Longrightarrow> v \<noteq> NULL_LONG \<Longrightarrow> room (Suc n) s \<Longrightarrow>
      \<exists>s' eff. put k v s = Inr (s', eff) \<and> wf s' \<and> room n s' \<and> abs s' = (abs s)(key k \<mapsto> v)"
begin

definition put_log :: "('k \<times> int) list \<Rightarrow> 'h \<rightharpoonup> int" where
  "put_log kvs = map_of (rev (map (\<lambda>(k, v). (key k, v)) kvs))"

lemma run_puts:
  assumes "wf s" "room (length kvs) s" "\<And>k v. (k, v) \<in> set kvs \<Longrightarrow> ok k \<and> v \<noteq> NULL_LONG"
  shows "\<exists>s'. run_puts put kvs s = Inr s' \<and> wf s' \<and> abs s' = abs s ++ put_log kvs"
  using assms
proof (induction kvs arbitrary: s)
  case Nil
  then show ?case by (simp add: put_log_def)
next
  case (Cons kv kvs)
  obtain k v where kv: "kv = (k, v)" by (cases kv)
  then obtain s1 eff where s1: "put k v s = Inr (s1, eff)" "wf s1" "room (length kvs) s1" "abs s1 = (abs s)(key k \<mapsto> v)"
    using put_law [of s k v "length kvs"] Cons.prems by auto
  have "ok k \<and> v \<noteq> NULL_LONG" if "(k, v) \<in> set kvs" for k v
    using that Cons.prems(3) [of k v] by simp
  then obtain s' where "run_puts put kvs s1 = Inr s'" "wf s'" "abs s' = abs s1 ++ put_log kvs"
    using Cons.IH [OF s1(2,3)] by blast
  then show ?case using s1 kv
    by (intro exI [of _ s']) (simp add: put_log_def map_add_def fun_eq_iff split: option.split)
qed

text \<open>After a sequence of puts, the lookup of a key returns the last value put for it.\<close>

lemma last_put:
  assumes "wf s" "room (length kvs) s" "\<And>k v. (k, v) \<in> set kvs \<Longrightarrow> ok k \<and> v \<noteq> NULL_LONG" "ok k"
  shows "bindr (run_puts put kvs s) (get k)
    = (case map_of (rev (map (\<lambda>(k, v). (key k, v)) kvs)) (key k) of None \<Rightarrow> get k s | Some v \<Rightarrow> Inr (Some v))"
proof -
  obtain s' where "run_puts put kvs s = Inr s'" "wf s'" "abs s' = abs s ++ put_log kvs"
    using run_puts [OF assms(1-3)] by blast
  then show ?thesis using assms(1,4) by (simp add: get_law put_log_def map_add_def split: option.split)
qed

end

end
