(* ===== verification/LongLongMap.thy ===== *)
theory LongLongMap
  imports MapObject
begin

text \<open>
  \<open>ArrayLongLongMap\<close>, the hash map from numbers to numbers of the world hierarchy and of the state
  chunks: its state, the operations on a state, its invariant \<open>llm_wf\<close> and its abstraction
  \<open>llm_abs\<close>; every operation refines the abstract map (\<open>map_put\<close>), so the contract \<open>number_map\<close> holds.
\<close>

subsection \<open>The state and its operations\<close>

record llm_state =
  ll_stateSize :: nat
  ll_elementK :: "int list"
  ll_elementV :: "int list"
  ll_elementNext :: "int list"
  ll_elementHash :: "int list"
  ll_elementCount :: nat

definition llm_new :: "nat \<Rightarrow> llm_state" where
  "llm_new initialCapacity =
     \<lparr>ll_stateSize = initialCapacity, ll_elementK = replicate initialCapacity 0,
      ll_elementV = replicate initialCapacity 0, ll_elementNext = replicate initialCapacity (-1),
      ll_elementHash = replicate initialCapacity (-1), ll_elementCount = 0\<rparr>"

definition llm_clone :: "llm_state \<Rightarrow> llm_state" where
  "llm_clone s = (let n = ll_stateSize s in
     s\<lparr>ll_elementK := grown 0 n n (ll_elementK s), ll_elementV := grown 0 n n (ll_elementV s),
       ll_elementNext := grown 0 n n (ll_elementNext s), ll_elementHash := grown 0 n n (ll_elementHash s)\<rparr>)"

text \<open>The lookup loop of \<open>get\<close> and \<open>put\<close>: the entry of a key, or -1.\<close>

definition llm_entry :: "int \<Rightarrow> int \<Rightarrow> llm_state \<Rightarrow> int result" where
  "llm_entry key hashIndex s =
     of_loop (chain_find (\<lambda>m. rd (ll_elementK s) (Some m) = Some key) (ll_elementNext s)
                (rd (ll_elementHash s) (Some hashIndex)))"

definition llm_get :: "int \<Rightarrow> llm_state \<Rightarrow> jsnum result" where
  "llm_get key s =
     (if ll_stateSize s = 0 then Inr (Some NULL_LONG)
      else bindr (longHash key (int (ll_stateSize s))) (\<lambda>hashIndex.
           bindr (llm_entry key hashIndex s) (\<lambda>m.
             Inr (if m \<ge> 0 then rd (ll_elementV s) (Some m) else Some NULL_LONG))))"

definition llm_each :: "llm_state \<Rightarrow> (jsnum \<times> jsnum) list" where
  "llm_each s = map (\<lambda>i. (rd (ll_elementK s) (Some (int i)), rd (ll_elementV s) (Some (int i))))
     (filter (\<lambda>i. rd (ll_elementNext s) (Some (int i)) \<noteq> Some (-1)) [0..<ll_elementCount s])"

definition llm_size :: "llm_state \<Rightarrow> nat" where
  "llm_size s = ll_elementCount s"

text \<open>The new state of the rehash, with twice the capacity.\<close>

definition llm_rehash :: "llm_state \<Rightarrow> llm_state result" where
  "llm_rehash s =
     (let newCapacity = ll_stateSize s * 2;
          newElementK = grown 0 (ll_stateSize s) newCapacity (ll_elementK s);
          newElementV = grown 0 (ll_stateSize s) newCapacity (ll_elementV s);
          newElementNext = replicate newCapacity (-1);
          newElementHash = replicate newCapacity (-1)
      in bindr (relink (Some (-2)) (\<lambda>i. rd (ll_elementNext s) (Some (int i)) \<noteq> Some (-1))
                  (\<lambda>i. hash_elem (rd (ll_elementK s) (Some (int i))) (int newCapacity)) [0..<ll_elementCount s]
                  (newElementNext, newElementHash)) (\<lambda>(nx, hs).
         Inr (s\<lparr>ll_stateSize := newCapacity, ll_elementK := newElementK, ll_elementV := newElementV,
                ll_elementNext := nx, ll_elementHash := hs\<rparr>)))"

text \<open>
  \<open>internal_modify_map\<close> on an aligned map.  The threshold is three quarters of the capacity.
  The result is the state after it (a new one after a rehash) and what happened.
\<close>

definition llm_insert :: "int \<Rightarrow> int \<Rightarrow> int \<Rightarrow> llm_state \<Rightarrow> llm_state" where
  "llm_insert key value hashIndex s =
     (let newIndex = int (ll_elementCount s);
          (nx, hs) = bucket_link (Some (-2)) hashIndex newIndex (ll_elementNext s, ll_elementHash s)
      in s\<lparr>ll_elementK := wr (ll_elementK s) (Some newIndex) key,
           ll_elementV := wr (ll_elementV s) (Some newIndex) (if value = NULL_LONG then newIndex else value),
           ll_elementNext := nx, ll_elementHash := hs, ll_elementCount := ll_elementCount s + 1\<rparr>)"

definition llm_modify :: "int \<Rightarrow> int \<Rightarrow> llm_state \<Rightarrow> (llm_state \<times> put_effect) result" where
  "llm_modify key value s =
     bindr (if ll_stateSize s > 0
            then bindr (longHash key (int (ll_stateSize s))) (\<lambda>hashIndex.
                 bindr (llm_entry key hashIndex s) (\<lambda>entry. Inr (entry, hashIndex)))
            else Inr (-1, -1)) (\<lambda>(entry, hashIndex).
       if entry = -1
       then bindr (if 4 * (ll_elementCount s + 1) > 3 * ll_stateSize s
                   then bindr (llm_rehash s) (\<lambda>s.
                        bindr (longHash key (int (ll_stateSize s))) (\<lambda>hashIndex. Inr (s, hashIndex, True)))
                   else Inr (s, hashIndex, False)) (\<lambda>(s, hashIndex, rehashed).
              Inr (llm_insert key value hashIndex s, Inserted rehashed))
       else if rd (ll_elementV s) (Some entry) \<noteq> Some value \<and> value \<noteq> NULL_LONG
       then Inr (s\<lparr>ll_elementV := wr (ll_elementV s) (Some entry) value\<rparr>, Updated)
       else Inr (s, Unchanged))"

text \<open>\<open>put\<close> on a map object: only the insertion tests the listener.\<close>

definition llm_put :: "int \<Rightarrow> int \<Rightarrow> llm_state list \<times> map_object \<Rightarrow> (llm_state list \<times> map_object) \<times> bool result" where
  "llm_put key value = mo_put llm_clone (llm_modify key value) (\<lambda>eff. eff \<noteq> Updated)"

text \<open>\<open>remove\<close> is not implemented.\<close>

definition llm_remove :: "int \<Rightarrow> llm_state \<Rightarrow> llm_state result" where
  "llm_remove key s = Inl (JsError ''Not implemented yet!!!'')"

subsection \<open>Invariant and abstraction\<close>

definition llm_wf :: "llm_state \<Rightarrow> bool" where
  "llm_wf s \<longleftrightarrow>
     length (ll_elementK s) = ll_stateSize s \<and> length (ll_elementV s) = ll_stateSize s
     \<and> ll_elementCount s \<le> ll_stateSize s \<and> distinct (take (ll_elementCount s) (ll_elementK s))
     \<and> table longHash hashable (-2) (ll_stateSize s) {0..<ll_elementCount s} ((!) (ll_elementK s))
         (ll_elementNext s) (ll_elementHash s)"

definition llm_pairs :: "llm_state \<Rightarrow> (int \<times> int) list" where
  "llm_pairs s = take (ll_elementCount s) (zip (ll_elementK s) (ll_elementV s))"

definition llm_abs :: "llm_state \<Rightarrow> int \<rightharpoonup> int" where
  "llm_abs s = map_of (llm_pairs s)"


lemma llm_wf_lengths:
  assumes "llm_wf s"
  shows "length (ll_elementK s) = ll_stateSize s" "length (ll_elementV s) = ll_stateSize s"
    "length (ll_elementNext s) = ll_stateSize s" "length (ll_elementHash s) = ll_stateSize s"
    "ll_elementCount s \<le> ll_stateSize s" "ll_stateSize s < 2 ^ 31"
  using assms by (simp_all add: llm_wf_def table_def)

lemma llm_new_wf: "n < 2 ^ 31 \<Longrightarrow> llm_wf (llm_new n)"
  using key_hash.table_empty [of n "-2" "replicate n (-1)"] by (simp add: llm_wf_def llm_new_def)

lemma llm_clone_same: "llm_wf s \<Longrightarrow> llm_clone s = s"
  using llm_wf_lengths [of s] by (simp add: llm_clone_def)

lemma llm_pairs_nth: "llm_wf s \<Longrightarrow> i < ll_elementCount s \<Longrightarrow> llm_pairs s ! i = (ll_elementK s ! i, ll_elementV s ! i)"
  using llm_wf_lengths [of s] by (simp add: llm_pairs_def)

lemma length_llm_pairs [simp]: "llm_wf s \<Longrightarrow> length (llm_pairs s) = ll_elementCount s"
  using llm_wf_lengths [of s] by (simp add: llm_pairs_def)

lemma llm_keys: "llm_wf s \<Longrightarrow> map fst (llm_pairs s) = take (ll_elementCount s) (ll_elementK s)"
  using llm_wf_lengths [of s] by (simp add: llm_pairs_def flip: take_map)

lemma llm_pairs_distinct: "llm_wf s \<Longrightarrow> distinct (map fst (llm_pairs s))"
  by (simp only: llm_keys) (simp add: llm_wf_def)

lemma llm_abs_iff:
  assumes "llm_wf s"
  shows "llm_abs s k = Some v \<longleftrightarrow> (\<exists>i < ll_elementCount s. ll_elementK s ! i = k \<and> ll_elementV s ! i = v)"
proof -
  have "llm_abs s k = Some v \<longleftrightarrow> (k, v) \<in> set (llm_pairs s)"
    unfolding llm_abs_def using llm_pairs_distinct [OF assms] by (rule map_of_eq_Some_iff)
  also have "\<dots> \<longleftrightarrow> (\<exists>i < ll_elementCount s. ll_elementK s ! i = k \<and> ll_elementV s ! i = v)"
    using assms by (auto simp: in_set_conv_nth llm_pairs_nth)
  finally show ?thesis .
qed

lemma llm_abs_None: "llm_wf s \<Longrightarrow> llm_abs s k = None \<longleftrightarrow> (\<forall>i < ll_elementCount s. ll_elementK s ! i \<noteq> k)"
  using llm_abs_iff by (metis not_None_eq)

lemma llm_abs_empty: "ll_elementCount s = 0 \<Longrightarrow> llm_abs s = Map.empty"
  by (simp add: llm_abs_def llm_pairs_def)

subsection \<open>Lookup\<close>

lemma llm_entry:
  assumes "llm_wf s" "hashable k" "0 < ll_stateSize s"
  shows "\<exists>m. llm_entry k (int (slot_of longHash (ll_stateSize s) k)) s = Inr m \<and>
    (if \<exists>i < ll_elementCount s. ll_elementK s ! i = k
     then 0 \<le> m \<and> nat m < ll_elementCount s \<and> ll_elementK s ! nat m = k else m = -1)"
proof -
  have t: "table longHash hashable (-2) (ll_stateSize s) {0..<ll_elementCount s} ((!) (ll_elementK s))
      (ll_elementNext s) (ll_elementHash s)" using assms by (simp add: llm_wf_def)
  have "rd (ll_elementK s) (Some (int i)) = Some k \<longleftrightarrow> ll_elementK s ! i = k" if "i \<in> {0..<ll_elementCount s}" for i
    using that llm_wf_lengths [OF assms(1)] by simp
  from key_hash.table_lookup [OF t assms(2,3), of "\<lambda>m. rd (ll_elementK s) (Some m) = Some k", OF this]
  obtain m where "chain_find (\<lambda>m. rd (ll_elementK s) (Some m) = Some k) (ll_elementNext s)
      (rd (ll_elementHash s) (Some (int (slot_of longHash (ll_stateSize s) k)))) = Some m"
    "if \<exists>i \<in> {0..<ll_elementCount s}. ll_elementK s ! i = k
     then 0 \<le> m \<and> nat m \<in> {0..<ll_elementCount s} \<and> ll_elementK s ! nat m = k else m = -1" by blast
  then show ?thesis unfolding llm_entry_def by (intro exI [of _ m]) (auto split: if_splits)
qed

lemma llm_hash:
  "llm_wf s \<Longrightarrow> hashable k \<Longrightarrow> 0 < ll_stateSize s \<Longrightarrow>
   longHash k (int (ll_stateSize s)) = Inr (int (slot_of longHash (ll_stateSize s) k))"
  using key_hash.slot_of llm_wf_lengths(6) by blast

lemma llm_get_abs:
  assumes "llm_wf s" "hashable k"
  shows "llm_get k s = Inr (Some (case llm_abs s k of None \<Rightarrow> NULL_LONG | Some v \<Rightarrow> v))"
proof (cases "ll_stateSize s = 0")
  case True
  then show ?thesis using llm_abs_empty [of s] llm_wf_lengths [OF assms(1)] by (simp add: llm_get_def)
next
  case False
  then obtain m where m: "llm_entry k (int (slot_of longHash (ll_stateSize s) k)) s = Inr m"
    "if \<exists>i < ll_elementCount s. ll_elementK s ! i = k
     then 0 \<le> m \<and> nat m < ll_elementCount s \<and> ll_elementK s ! nat m = k else m = -1"
    using llm_entry [OF assms] by blast
  have g: "llm_get k s = Inr (if m \<ge> 0 then rd (ll_elementV s) (Some m) else Some NULL_LONG)"
    using False assms m(1) by (simp add: llm_get_def llm_hash)
  show ?thesis
  proof (cases "\<exists>i < ll_elementCount s. ll_elementK s ! i = k")
    case True
    then have "0 \<le> m" "nat m < ll_elementCount s" "ll_elementK s ! nat m = k" using m(2) by simp_all
    moreover then have "llm_abs s k = Some (ll_elementV s ! nat m)" using llm_abs_iff [OF assms(1)] by auto
    ultimately show ?thesis using g llm_wf_lengths [OF assms(1)] by (simp add: rd_def)
  next
    case False
    then have "m = -1" "llm_abs s k = None" using m(2) llm_abs_None [OF assms(1)] by (auto split: if_splits)
    then show ?thesis using g by simp
  qed
qed

subsection \<open>Insertion and update\<close>

lemma llm_insert:
  fixes v :: int
  assumes s: "llm_wf s" "hashable k" "llm_abs s k = None" "ll_elementCount s < ll_stateSize s"
  defines "s' \<equiv> llm_insert k v (int (slot_of longHash (ll_stateSize s) k)) s"
  shows "llm_wf s'" "llm_pairs s' = llm_pairs s @ [(k, if v = NULL_LONG then int (ll_elementCount s) else v)]"
    "ll_stateSize s' = ll_stateSize s" "ll_elementCount s' = ll_elementCount s + 1"
proof -
  let ?c = "ll_elementCount s" and ?K = "ll_elementK s" and ?V = "ll_elementV s"
  let ?w = "if v = NULL_LONG then int ?c else v"
  note l = llm_wf_lengths [OF s(1)]
  have t: "table longHash hashable (-2) (ll_stateSize s) {0..<?c} ((!) ?K) (ll_elementNext s) (ll_elementHash s)"
    using s(1) by (simp add: llm_wf_def)
  obtain nx hs where b: "bucket_link (Some (-2)) (int (slot_of longHash (ll_stateSize s) k)) (int ?c)
      (ll_elementNext s, ll_elementHash s) = (nx, hs)"
    "table longHash hashable (-2) (ll_stateSize s) (insert ?c {0..<?c}) ((!) (?K[?c := k])) nx hs"
    using key_hash.table_insert [OF t, of ?c k "(!) (?K[?c := k])" "Some (-2)"] s(2,4) l by auto
  have s': "s' = s\<lparr>ll_elementK := ?K[?c := k], ll_elementV := ?V[?c := ?w],
      ll_elementNext := nx, ll_elementHash := hs, ll_elementCount := ?c + 1\<rparr>"
    using b(1) s(4) l by (simp add: s'_def llm_insert_def)
  have "insert ?c {0..<?c} = {0..<Suc ?c}" by auto
  moreover have "k \<notin> set (take ?c ?K)" using s l by (auto simp: llm_abs_None in_set_conv_nth)
  ultimately show "llm_wf s'" using s l b(2) unfolding s' by (simp add: llm_wf_def take_Suc_conv_app_nth)
  show "llm_pairs s' = llm_pairs s @ [(k, ?w)]"
    using s(4) l unfolding s' by (simp add: llm_pairs_def take_Suc_conv_app_nth take_zip)
  show "ll_stateSize s' = ll_stateSize s" "ll_elementCount s' = ?c + 1" by (simp_all add: s')
qed


lemma llm_rehash:
  assumes s: "llm_wf s" "0 < ll_stateSize s" "2 * ll_stateSize s < 2 ^ 31"
  shows "\<exists>s'. llm_rehash s = Inr s' \<and> llm_wf s' \<and> llm_pairs s' = llm_pairs s
    \<and> ll_stateSize s' = 2 * ll_stateSize s \<and> ll_elementCount s' = ll_elementCount s"
proof -
  let ?n = "ll_stateSize s" and ?c = "ll_elementCount s" and ?K = "ll_elementK s"
  note l = llm_wf_lengths [OF s(1)]
  let ?N = "?n * 2"
  let ?K' = "grown 0 ?n ?N ?K" and ?V' = "grown 0 ?n ?N (ll_elementV s)"
  let ?live = "\<lambda>i. rd (ll_elementNext s) (Some (int i)) \<noteq> Some (-1)"
  let ?hash = "\<lambda>i. hash_elem (rd ?K (Some (int i))) (int ?N)"
  have t: "table longHash hashable (-2) ?n {0..<?c} ((!) ?K) (ll_elementNext s) (ll_elementHash s)"
    using s(1) by (simp add: llm_wf_def)
  have live: "?live i" if "i < ?c" for i
    using that l buckets_link [of "-2" _ "{0..<?c}" "ll_elementNext s" "ll_elementHash s" i] t
    by (auto simp: table_def)
  have "\<exists>nx hs. relink (Some (-2)) ?live ?hash [0..<?c] (replicate ?N (-1), replicate ?N (-1)) = Inr (nx, hs)
     \<and> table longHash hashable (-2) ?N {i. i < ?c \<and> ?live i} ((!) ?K') nx hs
     \<and> (\<forall>j < ?N. j < ?c \<and> ?live j \<or> nx ! j = -1)"
    using s l t by (intro key_hash.table_relink) (auto simp: table_def)
  then obtain nx hs where r: "relink (Some (-2)) ?live ?hash [0..<?c] (replicate ?N (-1), replicate ?N (-1)) = Inr (nx, hs)"
    "table longHash hashable (-2) ?N {i. i < ?c \<and> ?live i} ((!) ?K') nx hs" by blast
  have "{i. i < ?c \<and> ?live i} = {0..<?c}" using live by auto
  then have w: "table longHash hashable (-2) ?N {0..<?c} ((!) ?K') nx hs" using r(2) by simp
  let ?s' = "s\<lparr>ll_stateSize := ?N, ll_elementK := ?K', ll_elementV := ?V',
                ll_elementNext := nx, ll_elementHash := hs\<rparr>"
  have "llm_rehash s = Inr ?s'" using r(1) by (simp add: llm_rehash_def Let_def)
  moreover have "llm_wf ?s'" using w l s(1) by (simp add: llm_wf_def)
  moreover have "llm_pairs ?s' = llm_pairs s" using l by (simp add: llm_pairs_def take_zip)
  ultimately show ?thesis by (intro exI [of _ ?s']) simp
qed

lemma llm_update:
  assumes s: "llm_wf s" "i < ll_elementCount s"
  shows "llm_wf (s\<lparr>ll_elementV := (ll_elementV s)[i := v]\<rparr>)"
    "llm_abs (s\<lparr>ll_elementV := (ll_elementV s)[i := v]\<rparr>) = (llm_abs s)(ll_elementK s ! i \<mapsto> v)"
proof -
  let ?s' = "s\<lparr>ll_elementV := (ll_elementV s)[i := v]\<rparr>"
  note l = llm_wf_lengths [OF s(1)]
  show w: "llm_wf ?s'" using s(1) by (simp add: llm_wf_def)
  have d: "ll_elementK s ! j = ll_elementK s ! i \<longleftrightarrow> j = i" if "j < ll_elementCount s" for j
    using s that l nth_eq_iff_index_eq [of "take (ll_elementCount s) (ll_elementK s)" j i]
    by (simp add: llm_wf_def)
  show "llm_abs ?s' = (llm_abs s)(ll_elementK s ! i \<mapsto> v)"
    unfolding map_eq_iff using s l d by (auto simp: llm_abs_iff [OF w] llm_abs_iff [OF s(1)] nth_list_update)
qed

subsection \<open>Refinement\<close>

text \<open>
  The abstract \<open>put\<close>: an absent key is inserted, with the number of keys for the value \<open>NULL_LONG\<close>;
  a present key is updated unless the value is \<open>NULL_LONG\<close> or already there.
\<close>

definition map_put :: "int \<Rightarrow> int \<Rightarrow> (int \<rightharpoonup> int) \<Rightarrow> int \<rightharpoonup> int" where
  "map_put k v f =
     (case f k of None \<Rightarrow> f(k \<mapsto> if v = NULL_LONG then int (card (dom f)) else v)
      | Some w \<Rightarrow> if v = NULL_LONG then f else f(k \<mapsto> v))"

text \<open>Room for \<open>n\<close> more keys without a table of \<open>2 ^ 31\<close> buckets.\<close>

definition llm_room :: "nat \<Rightarrow> llm_state \<Rightarrow> bool" where
  "llm_room n s \<longleftrightarrow> 0 < ll_stateSize s \<and> 8 * (ll_elementCount s + n) \<le> 3 * 2 ^ 31"

lemma llm_card: "llm_wf s \<Longrightarrow> card (dom (llm_abs s)) = ll_elementCount s"
proof -
  assume "llm_wf s"
  then show ?thesis
    using llm_pairs_distinct [of s] length_llm_pairs [of s] distinct_card [of "map fst (llm_pairs s)"]
    by (simp add: llm_abs_def dom_map_of_conv_image_fst)
qed

lemma llm_insert_step:
  assumes s: "llm_wf s" "hashable k" "llm_abs s k = None" "ll_elementCount s < ll_stateSize s"
    and "llm_room (Suc n) s"
  shows "\<exists>s'. llm_insert k v (int (slot_of longHash (ll_stateSize s) k)) s = s' \<and> llm_wf s' \<and> llm_room n s'
    \<and> llm_abs s' = map_put k v (llm_abs s)"
proof -
  let ?s' = "llm_insert k v (int (slot_of longHash (ll_stateSize s) k)) s"
  have "llm_abs ?s' = (llm_abs s)(k \<mapsto> if v = NULL_LONG then int (ll_elementCount s) else v)"
    unfolding llm_abs_def llm_insert(2) [OF s, of v] using s(3) by (intro map_of_snoc) (simp add: llm_abs_def)
  then have "llm_abs ?s' = map_put k v (llm_abs s)" using s(1,3) by (simp add: map_put_def llm_card)
  then show ?thesis using llm_insert(1,3,4) [OF s, of v] assms(5) by (simp add: llm_room_def)
qed

lemma llm_modify_refines:
  assumes s: "llm_wf s" "hashable k" "llm_room (Suc n) s"
  shows "\<exists>s' eff. llm_modify k v s = Inr (s', eff) \<and> llm_wf s' \<and> llm_room n s' \<and> llm_abs s' = map_put k v (llm_abs s)
    \<and> (eff = Unchanged \<longleftrightarrow> llm_abs s' = llm_abs s) \<and> (llm_abs s k \<noteq> None \<longleftrightarrow> eff \<in> {Updated, Unchanged})"
proof -
  let ?c = "ll_elementCount s" and ?n = "ll_stateSize s"
  note l = llm_wf_lengths [OF s(1)]
  have n: "0 < ?n" using s(3) by (simp add: llm_room_def)
  obtain m where m: "llm_entry k (int (slot_of longHash ?n k)) s = Inr m"
    "if \<exists>i < ?c. ll_elementK s ! i = k then 0 \<le> m \<and> nat m < ?c \<and> ll_elementK s ! nat m = k else m = -1"
    using llm_entry [OF s(1,2) n] by blast
  show ?thesis
  proof (cases "llm_abs s k")
    case (Some w)
    then have "\<exists>i < ?c. ll_elementK s ! i = k" using llm_abs_iff [OF s(1)] by auto
    then obtain i where i: "m = int i" "i < ?c" "ll_elementK s ! i = k" using m(2) by (auto intro: that [of "nat m"])
    then have w: "ll_elementV s ! i = w" using Some llm_abs_iff [OF s(1), of k "ll_elementV s ! i"] by auto
    have mo: "llm_modify k v s = Inr (if w \<noteq> v \<and> v \<noteq> NULL_LONG then (s\<lparr>ll_elementV := (ll_elementV s)[i := v]\<rparr>, Updated)
        else (s, Unchanged))"
      using m(1) i w n l llm_hash [OF s(1,2) n] by (simp add: llm_modify_def)
    have r: "llm_room n s" using s(3) by (simp add: llm_room_def)
    show ?thesis
    proof (cases "w \<noteq> v \<and> v \<noteq> NULL_LONG")
      case True
      then have "(llm_abs s)(k \<mapsto> v) \<noteq> llm_abs s" using Some by (metis fun_upd_same option.inject)
      then show ?thesis using True mo r Some llm_update [OF s(1) i(2), of v] i(3)
        by (simp add: map_put_def llm_room_def)
    next
      case False
      then have "map_put k v (llm_abs s) = llm_abs s" using Some by (auto simp: map_put_def)
      then show ?thesis using False mo r s(1) Some by auto
    qed
  next
    case None
    then have m1: "m = -1" using m(2) llm_abs_None [OF s(1)] by (auto split: if_splits)
    have ne: "map_put k v (llm_abs s) \<noteq> llm_abs s" using None by (auto simp: map_put_def dest: fun_cong [of _ _ k])
    show ?thesis
    proof (cases "4 * (?c + 1) > 3 * ?n")
      case True
      then have "2 * ?n < 2 ^ 31" using s(3) by (simp add: llm_room_def)
      then obtain s1 where s1: "llm_rehash s = Inr s1" "llm_wf s1" "llm_pairs s1 = llm_pairs s"
        "ll_stateSize s1 = 2 * ?n" "ll_elementCount s1 = ?c"
        using llm_rehash [OF s(1) n] by blast
      then have a: "llm_abs s1 = llm_abs s" "llm_room (Suc n) s1" "ll_elementCount s1 < ll_stateSize s1" "0 < ll_stateSize s1"
        using s(3) n l by (simp_all add: llm_abs_def llm_room_def)
      have "llm_modify k v s = Inr (llm_insert k v (int (slot_of longHash (ll_stateSize s1) k)) s1, Inserted True)"
        using True m(1) m1 n s1(1) llm_hash [OF s(1,2) n] llm_hash [OF s1(2) s(2) a(4)] by (simp add: llm_modify_def)
      then show ?thesis using llm_insert_step [OF s1(2) s(2) _ a(3,2), of v] None a(1) ne by simp
    next
      case False
      then have "llm_modify k v s = Inr (llm_insert k v (int (slot_of longHash ?n k)) s, Inserted False)"
        using m(1) m1 n llm_hash [OF s(1,2) n] by (simp add: llm_modify_def)
      then show ?thesis using llm_insert_step [OF s(1,2) None _ s(3), of v] False ne None by simp
    qed
  qed
qed

interpretation ll: number_map llm_wf llm_abs "\<lambda>k. k" hashable llm_room llm_get llm_modify
proof
  fix s k and v :: int and n assume a: "llm_wf s" "hashable k"
  show "llm_get k s = Inr (Some (case llm_abs s k of None \<Rightarrow> NULL_LONG | Some v \<Rightarrow> v))"
    using a by (rule llm_get_abs)
  assume "v \<noteq> NULL_LONG" "llm_room (Suc n) s"
  then show "\<exists>s' eff. llm_modify k v s = Inr (s', eff) \<and> llm_wf s' \<and> llm_room n s' \<and> llm_abs s' = (llm_abs s)(k \<mapsto> v)"
    using llm_modify_refines [OF a, of n v] by (auto simp: map_put_def split: option.splits)
qed


subsection \<open>Properties\<close>

lemma llm_each_pairs:
  assumes "llm_wf s"
  shows "llm_each s = map (\<lambda>(k, v). (Some k, Some v)) (llm_pairs s)"
proof -
  note l = llm_wf_lengths [OF assms]
  have "rd (ll_elementNext s) (Some (int i)) \<noteq> Some (-1)" if "i < ll_elementCount s" for i
    using that l assms buckets_link [of "-2" _ "{0..<ll_elementCount s}" "ll_elementNext s" "ll_elementHash s" i]
    by (auto simp: llm_wf_def table_def)
  then have "filter (\<lambda>i. rd (ll_elementNext s) (Some (int i)) \<noteq> Some (-1)) [0..<ll_elementCount s] = [0..<ll_elementCount s]"
    by (intro filter_True) simp
  then show ?thesis using assms l
    by (intro nth_equalityI) (simp_all add: llm_each_def llm_pairs_nth)
qed

lemma llm_each_abs:
  assumes "llm_wf s"
  shows "set (llm_each s) = {(Some k, Some v) | k v. llm_abs s k = Some v}" "distinct (llm_each s)"
    "length (llm_each s) = llm_size s"
proof -
  have "set (llm_pairs s) = {(k, v). llm_abs s k = Some v}"
    using map_of_eq_Some_iff [OF llm_pairs_distinct [OF assms]] by (auto simp: llm_abs_def)
  then show "set (llm_each s) = {(Some k, Some v) | k v. llm_abs s k = Some v}"
    by (auto simp: llm_each_pairs [OF assms] image_def)
  show "distinct (llm_each s)" using llm_pairs_distinct [OF assms]
    by (auto simp: llm_each_pairs [OF assms] distinct_map inj_on_def)
qed (simp add: llm_each_pairs assms llm_size_def)

text \<open>Property C12.
  \<open>put\<close> and the reads of \<open>ArrayLongLongMap\<close> refine an abstract map: on a well-formed state and a
  key in range, with room for one more key, \<open>put\<close> returns, keeps the state well-formed and is
  \<open>map_put\<close> on the abstract map (insert, with the number of keys in place of \<open>NULL_LONG\<close>, or update,
  with \<open>NULL_LONG\<close> ignored); it reports no change exactly when there is none.  Then \<open>get\<close> is the
  lookup of the abstract map (or \<open>NULL_LONG\<close>), and \<open>each\<close> visits every pair of it once.\<close>

theorem llm_put_refines:
  assumes "llm_wf s" "hashable k" "llm_room 1 s"
  shows "\<exists>s' eff. llm_modify k v s = Inr (s', eff) \<and> llm_wf s' \<and> llm_abs s' = map_put k v (llm_abs s)
    \<and> (eff = Unchanged \<longleftrightarrow> llm_abs s' = llm_abs s)
    \<and> (\<forall>k'. hashable k' \<longrightarrow> llm_get k' s' = Inr (Some (case llm_abs s' k' of None \<Rightarrow> NULL_LONG | Some w \<Rightarrow> w)))
    \<and> set (llm_each s') = {(Some k', Some w) | k' w. llm_abs s' k' = Some w} \<and> distinct (llm_each s')
    \<and> llm_size s' = card (dom (llm_abs s'))"
proof -
  obtain s' eff where s': "llm_modify k v s = Inr (s', eff)" "llm_wf s'" "llm_abs s' = map_put k v (llm_abs s)"
    "eff = Unchanged \<longleftrightarrow> llm_abs s' = llm_abs s"
    using llm_modify_refines [of s k 0 v] assms by auto
  then have "\<forall>k'. hashable k' \<longrightarrow> llm_get k' s' = Inr (Some (case llm_abs s' k' of None \<Rightarrow> NULL_LONG | Some w \<Rightarrow> w))"
    "llm_size s' = card (dom (llm_abs s'))"
    using llm_card [OF s'(2)] by (simp_all add: llm_get_abs llm_size_def)
  then show ?thesis using s' llm_each_abs [OF s'(2)] by blast
qed

theorem llm_put_refines_witness:
  "\<exists>s' eff. llm_modify 1 7 (llm_new 16) = Inr (s', eff) \<and> llm_get 1 s' = Inr (Some 7)"
proof -
  have "llm_wf (llm_new 16)" by (simp add: llm_new_wf)
  moreover have "llm_room 1 (llm_new 16)" "llm_abs (llm_new 16) = Map.empty"
    by (simp_all add: llm_room_def llm_new_def llm_abs_empty)
  ultimately have "\<exists>s' eff. llm_modify 1 7 (llm_new 16) = Inr (s', eff) \<and> llm_abs s' = map_put 1 7 Map.empty
    \<and> llm_get 1 s' = Inr (Some (case llm_abs s' 1 of None \<Rightarrow> NULL_LONG | Some w \<Rightarrow> w))"
    using llm_put_refines [of "llm_new 16" 1 7] hashable_1 by auto
  then show ?thesis by (auto simp: map_put_def NULL_LONG_def)
qed

text \<open>Further fact.
  Copy on write: the first \<open>put\<close> through a copy of a map leaves every existing state as it is (so the
  origin too), and the copy then holds the origin's pairs with the new one.  The converse fails: the
  origin stays aligned, so it writes the shared state in place, and when it updates the value of a
  key, the copy reads the new value.\<close>

theorem llm_copy_on_write:
  assumes "mo_state m < length st" "llm_wf (st ! mo_state m)" "hashable k" "llm_room 1 (st ! mo_state m)"
  shows "(\<exists>st' c. fst (llm_put k v (st, mo_copy l m)) = (st', c) \<and> (\<forall>r < length st. st' ! r = st ! r)
      \<and> mo_aligned c \<and> llm_abs (st' ! mo_state c) = map_put k v (llm_abs (st ! mo_state m)))
    \<and> (mo_aligned m \<and> llm_abs (st ! mo_state m) k \<noteq> None \<and> v \<noteq> NULL_LONG \<longrightarrow>
      llm_get k (fst (fst (llm_put k v (st, m))) ! mo_state (mo_copy l m)) = Inr (Some v))"
proof -
  let ?s = "st ! mo_state m"
  obtain s' eff where s': "llm_modify k v ?s = Inr (s', eff)" "llm_wf s'" "llm_abs s' = map_put k v (llm_abs ?s)"
    "llm_abs ?s k \<noteq> None \<longleftrightarrow> eff \<in> {Updated, Unchanged}"
    using llm_modify_refines [of ?s k 0 v] assms by auto
  obtain st' c out where put: "llm_put k v (st, mo_copy l m) = ((st', c), out)" by (metis prod.collapse)
  have c: "\<not> mo_aligned (mo_copy l m)" "mo_state (mo_copy l m) = mo_state m" by (simp_all add: mo_copy_def)
  have "llm_modify k v (if mo_aligned (mo_copy l m) then st ! mo_state (mo_copy l m)
      else llm_clone (st ! mo_state (mo_copy l m))) = Inr (s', eff)"
    using c s'(1) assms(2) by (simp add: llm_clone_same)
  from mo_put_state [OF _ this put [unfolded llm_put_def]] assms(1) c
  have "st' ! mo_state c = s'" "mo_aligned c" by simp_all
  moreover have "\<forall>r < length st. st' ! r = st ! r"
    using mo_put_isolated [OF c(1), where st = st and modify = "llm_modify k v"] put by (metis fst_conv llm_put_def)
  ultimately have one: "\<exists>st' c. fst (llm_put k v (st, mo_copy l m)) = (st', c) \<and> (\<forall>r < length st. st' ! r = st ! r)
      \<and> mo_aligned c \<and> llm_abs (st' ! mo_state c) = map_put k v (llm_abs ?s)"
    using put s'(3) by auto
  have "llm_get k (fst (fst (llm_put k v (st, m))) ! mo_state m) = Inr (Some v)"
    if "mo_aligned m" "llm_abs ?s k \<noteq> None" "v \<noteq> NULL_LONG"
  proof -
    have "fst (fst (llm_put k v (st, m))) ! mo_state m = s'"
      using that s'(1,4) assms(1) by (auto simp: llm_put_def mo_put_def mo_align_def)
    moreover have "llm_abs s' k = Some v" using that s'(3) by (auto simp: map_put_def)
    ultimately show ?thesis using llm_get_abs [OF s'(2) assms(3)] by simp
  qed
  with one c(2) show ?thesis by simp
qed

lemma llm_one: "\<exists>s. llm_wf s \<and> llm_room 1 s \<and> llm_abs s = [1 \<mapsto> 5]"
proof -
  have "llm_wf (llm_new 16)" by (simp add: llm_new_wf)
  moreover have "llm_room 2 (llm_new 16)" "llm_abs (llm_new 16) = Map.empty"
    by (simp_all add: llm_room_def llm_new_def llm_abs_empty)
  ultimately obtain s where "llm_wf s" "llm_room 1 s" "llm_abs s = map_put 1 5 Map.empty"
    using llm_modify_refines [of "llm_new 16" 1 1 5] hashable_1 by (auto simp: numeral_2_eq_2)
  then show ?thesis by (auto simp: map_put_def NULL_LONG_def)
qed

theorem llm_copy_on_write_witness:
  "\<exists>s m l. mo_aligned m \<and> llm_abs s 1 = Some 5
     \<and> (\<exists>st' c. fst (llm_put 1 7 ([s], mo_copy l m)) = (st', c) \<and> st' ! 0 = s \<and> llm_abs (st' ! mo_state c) 1 = Some 7)
     \<and> llm_get 1 (fst (fst (llm_put 1 7 ([s], m))) ! mo_state (mo_copy l m)) = Inr (Some 7)"
proof -
  obtain s where s: "llm_wf s" "llm_room 1 s" "llm_abs s = [1 \<mapsto> 5]" using llm_one by blast
  let ?m = "\<lparr>mo_listener = True, mo_state = 0, mo_aligned = True\<rparr>"
  show ?thesis
    using llm_copy_on_write [of ?m "[s]" 1 7 True] s hashable_1
    by (intro exI [of _ s] exI [of _ ?m] exI [of _ True]) (auto simp: map_put_def NULL_LONG_def)
qed

text \<open>Further fact.
  The errors of \<open>ArrayLongLongMap\<close>: with capacity 0, \<open>put\<close> throws although \<open>get\<close> answers; an update
  of a present key through a map without a listener writes the value and then throws a \<open>TypeError\<close>,
  while the insertion of an absent key returns; \<open>remove\<close> always throws.\<close>

theorem llm_errors:
  "llm_modify k v (llm_new 0) = Inl (JsError ''Max must be > 0'') \<and> llm_get k (llm_new 0) = Inr (Some NULL_LONG)
   \<and> llm_remove k s = Inl (JsError ''Not implemented yet!!!'')
   \<and> (mo_aligned m \<and> \<not> mo_listener m \<and> mo_state m < length st \<and> llm_wf (st ! mo_state m) \<and> hashable k
      \<and> llm_room 1 (st ! mo_state m) \<and> v \<noteq> NULL_LONG \<and> llm_abs (st ! mo_state m) k \<noteq> Some v \<longrightarrow>
      (\<exists>st' m'. llm_put k v (st, m) = ((st', m'), if llm_abs (st ! mo_state m) k = None then Inr False else Inl TypeError)
        \<and> llm_abs (st' ! mo_state m') k = Some v))"
proof -
  let ?s = "st ! mo_state m"
  have "\<exists>st' m'. llm_put k v (st, m) = ((st', m'), if llm_abs ?s k = None then Inr False else Inl TypeError)
        \<and> llm_abs (st' ! mo_state m') k = Some v"
    if m: "mo_aligned m" "\<not> mo_listener m" "mo_state m < length st" and s: "llm_wf ?s" "hashable k" "llm_room 1 ?s"
      and v: "v \<noteq> NULL_LONG" "llm_abs ?s k \<noteq> Some v"
  proof -
    obtain s' eff where s': "llm_modify k v ?s = Inr (s', eff)" "llm_abs s' = map_put k v (llm_abs ?s)"
      "eff = Unchanged \<longleftrightarrow> llm_abs s' = llm_abs ?s" "llm_abs ?s k \<noteq> None \<longleftrightarrow> eff \<in> {Updated, Unchanged}"
      using llm_modify_refines [of ?s k 0 v] s unfolding One_nat_def by blast
    obtain st' m' out where put: "llm_put k v (st, m) = ((st', m'), out)" by (metis prod.collapse)
    have "llm_modify k v (if mo_aligned m then ?s else llm_clone ?s) = Inr (s', eff)" using m(1) s'(1) by simp
    from mo_put_state [OF m(3) this put [unfolded llm_put_def]]
    have p: "st' ! mo_state m' = s'" "out = mo_notify (\<lambda>eff. eff \<noteq> Updated) m eff" by simp_all
    have k: "llm_abs s' k = Some v" using s'(2) v(1) by (auto simp: map_put_def split: option.splits)
    then have "eff \<noteq> Unchanged" using s'(3) v(2) by auto
    then have "out = (if llm_abs ?s k = None then Inr False else Inl TypeError)"
      using p(2) m(2) s'(4) by (auto simp: mo_notify_def)
    then show ?thesis using put p(1) k by simp
  qed
  moreover have "llm_modify k v (llm_new 0) = Inl (JsError ''Max must be > 0'')"
    by (simp add: llm_modify_def llm_new_def llm_rehash_def longHash_def)
  ultimately show ?thesis by (simp add: llm_get_def llm_new_def llm_remove_def)
qed

theorem llm_errors_witness:
  "\<exists>s m. llm_abs s 1 = Some 5 \<and> (\<exists>st' m'. llm_put 1 7 ([s], m) = ((st', m'), Inl TypeError)
        \<and> llm_abs (st' ! mo_state m') 1 = Some 7)"
proof -
  obtain s where s: "llm_wf s" "llm_room 1 s" "llm_abs s = [1 \<mapsto> 5]" using llm_one by blast
  let ?m = "\<lparr>mo_listener = False, mo_state = 0, mo_aligned = True\<rparr>"
  show ?thesis
    using llm_errors [of 1 7 s ?m "[s]"] s hashable_1
    by (intro exI [of _ s] exI [of _ ?m]) (auto simp: NULL_LONG_def)
qed

end
