(* ===== verification/StringLongMap.thy ===== *)
theory StringLongMap
  imports MapObject
begin

text \<open>
  \<open>ArrayStringLongMap\<close>, the map from strings to numbers of the global dictionary and of the string
  attributes: its state, its operations, its invariant \<open>slm_wf\<close> and its abstraction \<open>slm_abs\<close>.  A
  string is identified by its hash alone, so two strings with one hash are one key; a chain ends
  with the link -1.
\<close>

subsection \<open>The state and its operations\<close>

record slm_state =
  sl_stateSize :: nat
  sl_elementK :: "jsstring option list"
  sl_elementKH :: "int list"
  sl_elementV :: "int list"
  sl_elementNext :: "int list"
  sl_elementHash :: "int list"
  sl_elementCount :: nat

definition slm_new :: "nat \<Rightarrow> slm_state" where
  "slm_new initialCapacity =
     \<lparr>sl_stateSize = initialCapacity, sl_elementK = replicate initialCapacity None,
      sl_elementKH = replicate initialCapacity 0, sl_elementV = replicate initialCapacity 0,
      sl_elementNext = replicate initialCapacity (-1), sl_elementHash = replicate initialCapacity (-1),
      sl_elementCount = 0\<rparr>"

definition slm_clone :: "slm_state \<Rightarrow> slm_state" where
  "slm_clone s = (let n = sl_stateSize s in
     s\<lparr>sl_elementK := grown None n n (sl_elementK s), sl_elementKH := grown 0 n n (sl_elementKH s),
       sl_elementV := grown 0 n n (sl_elementV s), sl_elementNext := grown 0 n n (sl_elementNext s),
       sl_elementHash := grown 0 n n (sl_elementHash s)\<rparr>)"

definition string_hash :: "jsstring \<Rightarrow> int result" where
  "string_hash key = of_loop (data_hash key)"

text \<open>The lookup loop of every operation: the entry of a hash, or -1.\<close>

definition slm_entry :: "int \<Rightarrow> int \<Rightarrow> slm_state \<Rightarrow> int result" where
  "slm_entry keyHash hashIndex s =
     of_loop (chain_find (\<lambda>m. rd (sl_elementKH s) (Some m) = Some keyHash) (sl_elementNext s)
                (rd (sl_elementHash s) (Some hashIndex)))"

definition slm_getValue :: "jsstring \<Rightarrow> slm_state \<Rightarrow> jsnum result" where
  "slm_getValue key s =
     (if sl_stateSize s = 0 then Inr (Some NULL_LONG)
      else bindr (string_hash key) (\<lambda>keyHash.
           bindr (longHash keyHash (int (sl_stateSize s))) (\<lambda>hashIndex.
           bindr (slm_entry keyHash hashIndex s) (\<lambda>m.
             Inr (if m \<ge> 0 then rd (sl_elementV s) (Some m) else Some NULL_LONG)))))"

text \<open>\<open>getByHash\<close>: \<open>None\<close> is \<open>null\<close>.  Neither it nor \<open>containsHash\<close> tests for a capacity of 0.\<close>

definition slm_getByHash :: "int \<Rightarrow> slm_state \<Rightarrow> jsstring option result" where
  "slm_getByHash keyHash s =
     bindr (longHash keyHash (int (sl_stateSize s))) (\<lambda>hashIndex.
     bindr (slm_entry keyHash hashIndex s) (\<lambda>m.
       Inr (if m \<ge> 0 then Option.bind (rd (sl_elementK s) (Some m)) (\<lambda>k. k) else None)))"

definition slm_containsHash :: "int \<Rightarrow> slm_state \<Rightarrow> bool result" where
  "slm_containsHash keyHash s =
     bindr (longHash keyHash (int (sl_stateSize s))) (\<lambda>hashIndex.
     bindr (slm_entry keyHash hashIndex s) (\<lambda>m. Inr (m \<ge> 0)))"

definition slm_each :: "slm_state \<Rightarrow> (jsstring \<times> jsnum) list" where
  "slm_each s = List.map_filter (\<lambda>i. map_option (\<lambda>k. (k, rd (sl_elementV s) (Some (int i))))
     (Option.bind (rd (sl_elementK s) (Some (int i))) (\<lambda>k. k))) [0..<sl_elementCount s]"

definition slm_size :: "slm_state \<Rightarrow> nat" where
  "slm_size s = sl_elementCount s"

definition slm_rehash :: "slm_state \<Rightarrow> slm_state result" where
  "slm_rehash s =
     (let newCapacity = sl_stateSize s * 2;
          newElementK = grown None (sl_stateSize s) newCapacity (sl_elementK s);
          newElementKH = grown 0 (sl_stateSize s) newCapacity (sl_elementKH s);
          newElementV = grown 0 (sl_stateSize s) newCapacity (sl_elementV s);
          newElementNext = replicate newCapacity (-1);
          newElementHash = replicate newCapacity (-1)
      in bindr (relink None (\<lambda>i. Option.bind (rd (sl_elementK s) (Some (int i))) (\<lambda>k. k) \<noteq> None)
                  (\<lambda>i. hash_elem (rd (sl_elementKH s) (Some (int i))) (int newCapacity)) [0..<sl_elementCount s]
                  (newElementNext, newElementHash)) (\<lambda>(nx, hs).
         Inr (s\<lparr>sl_stateSize := newCapacity, sl_elementK := newElementK, sl_elementKH := newElementKH,
                sl_elementV := newElementV, sl_elementNext := nx, sl_elementHash := hs\<rparr>)))"

definition slm_insert :: "jsstring \<Rightarrow> int \<Rightarrow> int \<Rightarrow> int \<Rightarrow> slm_state \<Rightarrow> slm_state" where
  "slm_insert key keyHash value hashIndex s =
     (let newIndex = sl_elementCount s;
          (nx, hs) = bucket_link None hashIndex (int newIndex) (sl_elementNext s, sl_elementHash s)
      in s\<lparr>sl_elementK := wr_js (sl_elementK s) (Some (int newIndex)) key,
           sl_elementKH := wr (sl_elementKH s) (Some (int newIndex)) keyHash,
           sl_elementV := wr (sl_elementV s) (Some (int newIndex)) value,
           sl_elementNext := nx, sl_elementHash := hs, sl_elementCount := sl_elementCount s + 1\<rparr>)"

definition slm_modify :: "jsstring \<Rightarrow> int \<Rightarrow> slm_state \<Rightarrow> (slm_state \<times> put_effect) result" where
  "slm_modify key value s =
     bindr (string_hash key) (\<lambda>keyHash.
     bindr (if sl_stateSize s > 0
            then bindr (longHash keyHash (int (sl_stateSize s))) (\<lambda>hashIndex.
                 bindr (slm_entry keyHash hashIndex s) (\<lambda>entry. Inr (entry, hashIndex)))
            else Inr (-1, -1)) (\<lambda>(entry, hashIndex).
       if entry = -1
       then bindr (if 4 * (sl_elementCount s + 1) > 3 * sl_stateSize s
                   then bindr (slm_rehash s) (\<lambda>s.
                        bindr (longHash keyHash (int (sl_stateSize s))) (\<lambda>hashIndex. Inr (s, hashIndex, True)))
                   else Inr (s, hashIndex, False)) (\<lambda>(s, hashIndex, rehashed).
              Inr (slm_insert key keyHash value hashIndex s, Inserted rehashed))
       else if rd (sl_elementV s) (Some entry) \<noteq> Some value \<and> value \<noteq> NULL_LONG
       then Inr (s\<lparr>sl_elementV := wr (sl_elementV s) (Some entry) value\<rparr>, Updated)
       else Inr (s, Unchanged)))"

text \<open>\<open>put\<close> on a map object: the listener is never tested.\<close>

definition slm_put :: "jsstring \<Rightarrow> int \<Rightarrow> slm_state list \<times> map_object \<Rightarrow> (slm_state list \<times> map_object) \<times> bool result" where
  "slm_put key value = mo_put slm_clone (slm_modify key value) (\<lambda>eff. False)"

definition slm_remove :: "jsstring \<Rightarrow> slm_state \<Rightarrow> slm_state result" where
  "slm_remove key s = Inl (JsError ''Not implemented yet!!!'')"

subsection \<open>Invariant and abstraction\<close>

definition string_ok :: "jsstring \<Rightarrow> bool" where
  "string_ok k = (case data_hash k of None \<Rightarrow> False | Some h \<Rightarrow> hashable h)"

abbreviation key_hash_of :: "jsstring \<Rightarrow> int" where
  "key_hash_of k \<equiv> the (data_hash k)"

definition slm_wf :: "slm_state \<Rightarrow> bool" where
  "slm_wf s \<longleftrightarrow>
     length (sl_elementK s) = sl_stateSize s \<and> length (sl_elementKH s) = sl_stateSize s
     \<and> length (sl_elementV s) = sl_stateSize s \<and> sl_elementCount s \<le> sl_stateSize s
     \<and> (\<forall>i < sl_elementCount s. \<exists>k. sl_elementK s ! i = Some k \<and> data_hash k = Some (sl_elementKH s ! i))
     \<and> distinct (take (sl_elementCount s) (sl_elementKH s))
     \<and> (\<forall>i < sl_stateSize s. i < sl_elementCount s \<or> sl_elementNext s ! i = -1)
     \<and> table longHash hashable (-1) (sl_stateSize s) {0..<sl_elementCount s} ((!) (sl_elementKH s))
         (sl_elementNext s) (sl_elementHash s)"

text \<open>The abstract map: from a hash to the first string put with it and the value.\<close>

definition slm_pairs :: "slm_state \<Rightarrow> (int \<times> jsstring \<times> int) list" where
  "slm_pairs s = take (sl_elementCount s) (zip (sl_elementKH s) (zip (map the (sl_elementK s)) (sl_elementV s)))"

definition slm_abs :: "slm_state \<Rightarrow> int \<rightharpoonup> jsstring \<times> int" where
  "slm_abs s = map_of (slm_pairs s)"

definition str_put :: "jsstring \<Rightarrow> int \<Rightarrow> (int \<rightharpoonup> jsstring \<times> int) \<Rightarrow> int \<rightharpoonup> jsstring \<times> int" where
  "str_put k v f =
     (case f (key_hash_of k) of None \<Rightarrow> f(key_hash_of k \<mapsto> (k, v))
      | Some (k0, w) \<Rightarrow> if v = NULL_LONG then f else f(key_hash_of k \<mapsto> (k0, v)))"

lemma slm_wf_lengths:
  assumes "slm_wf s"
  shows "length (sl_elementK s) = sl_stateSize s" "length (sl_elementKH s) = sl_stateSize s"
    "length (sl_elementV s) = sl_stateSize s" "length (sl_elementNext s) = sl_stateSize s"
    "length (sl_elementHash s) = sl_stateSize s" "sl_elementCount s \<le> sl_stateSize s" "sl_stateSize s < 2 ^ 31"
  using assms by (simp_all add: slm_wf_def table_def)

lemma slm_wf_table: "slm_wf s \<Longrightarrow> table longHash hashable (-1) (sl_stateSize s) {0..<sl_elementCount s}
    ((!) (sl_elementKH s)) (sl_elementNext s) (sl_elementHash s)"
  by (simp add: slm_wf_def)

lemma slm_wf_key:
  "slm_wf s \<Longrightarrow> i < sl_elementCount s \<Longrightarrow> \<exists>k. sl_elementK s ! i = Some k \<and> data_hash k = Some (sl_elementKH s ! i)"
  by (simp add: slm_wf_def)

lemma slm_new_wf: "n < 2 ^ 31 \<Longrightarrow> slm_wf (slm_new n)"
  using key_hash.table_empty [of n "-1" "replicate n (-1)"] by (simp add: slm_wf_def slm_new_def)

lemma slm_clone_same: "slm_wf s \<Longrightarrow> slm_clone s = s"
  using slm_wf_lengths [of s] by (simp add: slm_clone_def)

lemma slm_pairs_nth: "slm_wf s \<Longrightarrow> i < sl_elementCount s \<Longrightarrow>
    slm_pairs s ! i = (sl_elementKH s ! i, the (sl_elementK s ! i), sl_elementV s ! i)"
  using slm_wf_lengths [of s] by (simp add: slm_pairs_def)

lemma length_slm_pairs [simp]: "slm_wf s \<Longrightarrow> length (slm_pairs s) = sl_elementCount s"
  using slm_wf_lengths [of s] by (simp add: slm_pairs_def)

lemma slm_pairs_distinct: "slm_wf s \<Longrightarrow> distinct (map fst (slm_pairs s))"
proof -
  assume "slm_wf s"
  then have "map fst (slm_pairs s) = take (sl_elementCount s) (sl_elementKH s)"
    using slm_wf_lengths [of s] by (simp add: slm_pairs_def flip: take_map)
  then show ?thesis using \<open>slm_wf s\<close> by (simp add: slm_wf_def)
qed

lemma slm_abs_iff:
  assumes "slm_wf s"
  shows "slm_abs s h = Some x \<longleftrightarrow>
    (\<exists>i < sl_elementCount s. sl_elementKH s ! i = h \<and> x = (the (sl_elementK s ! i), sl_elementV s ! i))"
proof -
  have "slm_abs s h = Some x \<longleftrightarrow> (h, x) \<in> set (slm_pairs s)"
    unfolding slm_abs_def using slm_pairs_distinct [OF assms] by (rule map_of_eq_Some_iff)
  also have "\<dots> \<longleftrightarrow> (\<exists>i < sl_elementCount s. sl_elementKH s ! i = h \<and> x = (the (sl_elementK s ! i), sl_elementV s ! i))"
    using assms by (auto simp: in_set_conv_nth slm_pairs_nth)
  finally show ?thesis .
qed

lemma slm_abs_None: "slm_wf s \<Longrightarrow> slm_abs s h = None \<longleftrightarrow> (\<forall>i < sl_elementCount s. sl_elementKH s ! i \<noteq> h)"
  using slm_abs_iff by (metis not_None_eq)

lemma slm_abs_empty: "sl_elementCount s = 0 \<Longrightarrow> slm_abs s = Map.empty"
  by (simp add: slm_abs_def slm_pairs_def)

subsection \<open>Lookup\<close>

text \<open>The entry of a hash: its slot in the arrays, or -1.\<close>

definition slm_found :: "slm_state \<Rightarrow> int \<Rightarrow> int \<Rightarrow> bool" where
  "slm_found s h m \<longleftrightarrow> (case slm_abs s h of None \<Rightarrow> m = -1
     | Some (k, v) \<Rightarrow> 0 \<le> m \<and> nat m < sl_elementCount s \<and> sl_elementKH s ! nat m = h
         \<and> sl_elementK s ! nat m = Some k \<and> sl_elementV s ! nat m = v)"

lemma slm_entry:
  assumes "slm_wf s" "hashable h" "0 < sl_stateSize s"
  shows "\<exists>m. slm_entry h (int (slot_of longHash (sl_stateSize s) h)) s = Inr m \<and> slm_found s h m"
proof -
  have "rd (sl_elementKH s) (Some (int i)) = Some h \<longleftrightarrow> sl_elementKH s ! i = h" if "i \<in> {0..<sl_elementCount s}" for i
    using that slm_wf_lengths [OF assms(1)] by simp
  from key_hash.table_lookup [OF slm_wf_table [OF assms(1)] assms(2,3), of "\<lambda>m. rd (sl_elementKH s) (Some m) = Some h", OF this]
  obtain m where m: "slm_entry h (int (slot_of longHash (sl_stateSize s) h)) s = Inr m"
    "if \<exists>i \<in> {0..<sl_elementCount s}. sl_elementKH s ! i = h
     then 0 \<le> m \<and> nat m \<in> {0..<sl_elementCount s} \<and> sl_elementKH s ! nat m = h else m = -1"
    unfolding slm_entry_def by (metis of_loop_simps(2))
  have "slm_found s h m"
  proof (cases "slm_abs s h")
    case None
    then have "\<not> (\<exists>i \<in> {0..<sl_elementCount s}. sl_elementKH s ! i = h)" using slm_abs_None [OF assms(1)] by auto
    then show ?thesis using m(2) None by (simp add: slm_found_def)
  next
    case (Some x)
    then have "\<exists>i \<in> {0..<sl_elementCount s}. sl_elementKH s ! i = h" using slm_abs_iff [OF assms(1)] by auto
    then have p: "0 \<le> m" "nat m < sl_elementCount s" "sl_elementKH s ! nat m = h" using m(2) by auto
    then have "x = (the (sl_elementK s ! nat m), sl_elementV s ! nat m)"
      using Some slm_abs_iff [OF assms(1), of h "(the (sl_elementK s ! nat m), sl_elementV s ! nat m)"] by auto
    then show ?thesis using p Some slm_wf_key [OF assms(1) p(2)] by (auto simp: slm_found_def)
  qed
  then show ?thesis using m(1) by blast
qed

lemma slm_hash:
  "slm_wf s \<Longrightarrow> hashable h \<Longrightarrow> 0 < sl_stateSize s \<Longrightarrow>
   longHash h (int (sl_stateSize s)) = Inr (int (slot_of longHash (sl_stateSize s) h))"
  using key_hash.slot_of slm_wf_lengths(7) by blast

lemma string_okD: "string_ok k \<Longrightarrow> string_hash k = Inr (key_hash_of k) \<and> hashable (key_hash_of k)"
  by (auto simp: string_ok_def string_hash_def split: option.splits)

lemma slm_reads:
  assumes "slm_wf s" "hashable h" "0 < sl_stateSize s"
  shows "slm_getByHash h s = Inr (map_option fst (slm_abs s h))"
    "slm_containsHash h s = Inr (slm_abs s h \<noteq> None)"
proof -
  obtain m where m: "slm_entry h (int (slot_of longHash (sl_stateSize s) h)) s = Inr m" "slm_found s h m"
    using slm_entry [OF assms] by blast
  show "slm_getByHash h s = Inr (map_option fst (slm_abs s h))" "slm_containsHash h s = Inr (slm_abs s h \<noteq> None)"
    using m slm_wf_lengths [OF assms(1)] slm_hash [OF assms]
    by (cases "slm_abs s h"; auto simp: slm_getByHash_def slm_containsHash_def slm_found_def rd_def)+
qed

lemma slm_getValue_abs:
  assumes "slm_wf s" "string_ok k"
  shows "slm_getValue k s = Inr (Some (case slm_abs s (key_hash_of k) of None \<Rightarrow> NULL_LONG | Some (_, v) \<Rightarrow> v))"
proof (cases "sl_stateSize s = 0")
  case True
  then show ?thesis using slm_abs_empty [of s] slm_wf_lengths [OF assms(1)] by (simp add: slm_getValue_def)
next
  case False
  then show ?thesis
    using slm_entry [OF assms(1), of "key_hash_of k"] slm_wf_lengths [OF assms(1)]
      slm_hash [OF assms(1), of "key_hash_of k"] string_okD [OF assms(2)]
    by (auto simp: slm_getValue_def slm_found_def rd_def split: option.splits)
qed

subsection \<open>Insertion and update\<close>

lemma slm_insert:
  assumes s: "slm_wf s" "string_ok k" "slm_abs s (key_hash_of k) = None" "sl_elementCount s < sl_stateSize s"
  defines "h \<equiv> key_hash_of k"
  shows "\<exists>s'. slm_insert k h v (int (slot_of longHash (sl_stateSize s) h)) s = s' \<and> slm_wf s'
    \<and> slm_abs s' = (slm_abs s)(h \<mapsto> (k, v)) \<and> sl_stateSize s' = sl_stateSize s \<and> sl_elementCount s' = sl_elementCount s + 1"
proof -
  let ?c = "sl_elementCount s" and ?K = "sl_elementK s" and ?KH = "sl_elementKH s" and ?V = "sl_elementV s"
  note l = slm_wf_lengths [OF s(1)]
  have h: "hashable h" "data_hash k = Some h" using s(2) by (auto simp: h_def string_ok_def split: option.splits)
  have "sl_elementNext s ! ?c = -1" using s(1,4) by (auto simp: slm_wf_def)
  then obtain nx hs where b: "bucket_link None (int (slot_of longHash (sl_stateSize s) h)) (int ?c)
      (sl_elementNext s, sl_elementHash s) = (nx, hs)"
    "table longHash hashable (-1) (sl_stateSize s) (insert ?c {0..<?c}) ((!) (?KH[?c := h])) nx hs"
    "\<forall>j. j \<noteq> ?c \<longrightarrow> nx ! j = sl_elementNext s ! j"
    using key_hash.table_insert [OF slm_wf_table [OF s(1)], of ?c h "(!) (?KH[?c := h])" None] h s(4) l by auto
  let ?s' = "s\<lparr>sl_elementK := ?K[?c := Some k], sl_elementKH := ?KH[?c := h], sl_elementV := ?V[?c := v],
      sl_elementNext := nx, sl_elementHash := hs, sl_elementCount := ?c + 1\<rparr>"
  have s': "slm_insert k h v (int (slot_of longHash (sl_stateSize s) h)) s = ?s'"
    using b(1) s(4) l by (simp add: slm_insert_def wr_js_def Let_def)
  have "insert ?c {0..<?c} = {0..<Suc ?c}" by auto
  moreover have "h \<notin> set (take ?c ?KH)" using s l by (auto simp: h_def slm_abs_None in_set_conv_nth)
  moreover have "\<exists>k'. ?K[?c := Some k] ! i = Some k' \<and> data_hash k' = Some (?KH[?c := h] ! i)" if "i < Suc ?c" for i
    using that slm_wf_key [OF s(1), of i] h(2) s(4) l by (cases "i = ?c") auto
  moreover have "i < Suc ?c \<or> nx ! i = -1" if "i < sl_stateSize s" for i
    using that b(3) s(1) by (cases "i = ?c") (auto simp: slm_wf_def)
  ultimately have w: "slm_wf ?s'" using s l b(2) by (simp add: slm_wf_def take_Suc_conv_app_nth)
  have "slm_pairs ?s' = slm_pairs s @ [(h, k, v)]"
    using s(4) l by (simp add: slm_pairs_def take_Suc_conv_app_nth take_zip take_map)
  then have "slm_abs ?s' = (slm_abs s)(h \<mapsto> (k, v))"
    unfolding slm_abs_def using s(3) by (simp only: h_def slm_abs_def map_of_snoc)
  then show ?thesis using s' w by simp
qed

lemma slm_rehash:
  assumes s: "slm_wf s" "0 < sl_stateSize s" "2 * sl_stateSize s < 2 ^ 31"
  shows "\<exists>s'. slm_rehash s = Inr s' \<and> slm_wf s' \<and> slm_abs s' = slm_abs s
    \<and> sl_stateSize s' = 2 * sl_stateSize s \<and> sl_elementCount s' = sl_elementCount s"
proof -
  let ?n = "sl_stateSize s" and ?c = "sl_elementCount s"
  note l = slm_wf_lengths [OF s(1)] and t = slm_wf_table [OF s(1)]
  let ?N = "?n * 2"
  let ?K' = "grown None ?n ?N (sl_elementK s)" and ?KH' = "grown 0 ?n ?N (sl_elementKH s)"
    and ?V' = "grown 0 ?n ?N (sl_elementV s)"
  let ?live = "\<lambda>i. Option.bind (rd (sl_elementK s) (Some (int i))) (\<lambda>k. k) \<noteq> None"
  let ?hash = "\<lambda>i. hash_elem (rd (sl_elementKH s) (Some (int i))) (int ?N)"
  have live: "?live i" if "i < ?c" for i using that l slm_wf_key [OF s(1) that] by auto
  have "\<exists>nx hs. relink None ?live ?hash [0..<?c] (replicate ?N (-1), replicate ?N (-1)) = Inr (nx, hs)
     \<and> table longHash hashable (-1) ?N {i. i < ?c \<and> ?live i} ((!) ?KH') nx hs
     \<and> (\<forall>j < ?N. j < ?c \<and> ?live j \<or> nx ! j = -1)"
    using s l t by (intro key_hash.table_relink) (auto simp: table_def)
  then obtain nx hs where r: "relink None ?live ?hash [0..<?c] (replicate ?N (-1), replicate ?N (-1)) = Inr (nx, hs)"
    "table longHash hashable (-1) ?N {i. i < ?c \<and> ?live i} ((!) ?KH') nx hs"
    "\<forall>j < ?N. j < ?c \<or> nx ! j = -1" by blast
  have "{i. i < ?c \<and> ?live i} = {0..<?c}" using live by auto
  then have w: "table longHash hashable (-1) ?N {0..<?c} ((!) ?KH') nx hs" using r(2) by simp
  let ?s' = "s\<lparr>sl_stateSize := ?N, sl_elementK := ?K', sl_elementKH := ?KH', sl_elementV := ?V',
                sl_elementNext := nx, sl_elementHash := hs\<rparr>"
  have "slm_rehash s = Inr ?s'" using r(1) by (simp add: slm_rehash_def Let_def)
  moreover have "slm_wf ?s'" using w l s(1) r(3) by (simp add: slm_wf_def)
  moreover have "slm_pairs ?s' = slm_pairs s" using l by (simp add: slm_pairs_def take_zip take_map)
  ultimately show ?thesis by (intro exI [of _ ?s']) (simp add: slm_abs_def)
qed

lemma slm_update:
  assumes s: "slm_wf s" "i < sl_elementCount s" "sl_elementK s ! i = Some k"
  shows "slm_wf (s\<lparr>sl_elementV := (sl_elementV s)[i := v]\<rparr>)"
    "slm_abs (s\<lparr>sl_elementV := (sl_elementV s)[i := v]\<rparr>) = (slm_abs s)(sl_elementKH s ! i \<mapsto> (k, v))"
proof -
  let ?s' = "s\<lparr>sl_elementV := (sl_elementV s)[i := v]\<rparr>"
  note l = slm_wf_lengths [OF s(1)]
  show w: "slm_wf ?s'" using s(1) by (simp add: slm_wf_def)
  have d: "sl_elementKH s ! j = sl_elementKH s ! i \<longleftrightarrow> j = i" if "j < sl_elementCount s" for j
    using s that l nth_eq_iff_index_eq [of "take (sl_elementCount s) (sl_elementKH s)" j i]
    by (simp add: slm_wf_def)
  show "slm_abs ?s' = (slm_abs s)(sl_elementKH s ! i \<mapsto> (k, v))"
    unfolding map_eq_iff using s l d
    by (auto simp: slm_abs_iff [OF w] slm_abs_iff [OF s(1)] nth_list_update) (rule exI [of _ i], simp)
qed

subsection \<open>Refinement\<close>

definition slm_room :: "nat \<Rightarrow> slm_state \<Rightarrow> bool" where
  "slm_room n s \<longleftrightarrow> 0 < sl_stateSize s \<and> 8 * (sl_elementCount s + n) \<le> 3 * 2 ^ 31"

lemma slm_modify_refines:
  assumes s: "slm_wf s" "string_ok k" "slm_room (Suc n) s"
  shows "\<exists>s' eff. slm_modify k v s = Inr (s', eff) \<and> slm_wf s' \<and> slm_room n s' \<and> slm_abs s' = str_put k v (slm_abs s)
    \<and> (eff = Unchanged \<longleftrightarrow> slm_abs s' = slm_abs s)"
proof -
  let ?c = "sl_elementCount s" and ?n = "sl_stateSize s" and ?h = "key_hash_of k"
  note l = slm_wf_lengths [OF s(1)] and k = string_okD [OF s(2)]
  have n: "0 < ?n" using s(3) by (simp add: slm_room_def)
  obtain m where m: "slm_entry ?h (int (slot_of longHash ?n ?h)) s = Inr m" "slm_found s ?h m"
    using slm_entry [OF s(1) _ n] k by blast
  note hash = slm_hash [OF s(1) k [THEN conjunct2] n]
  show ?thesis
  proof (cases "slm_abs s ?h")
    case (Some x)
    then obtain i k0 w where i: "x = (k0, w)" "m = int i" "i < ?c" "sl_elementKH s ! i = ?h"
      "sl_elementK s ! i = Some k0" "sl_elementV s ! i = w"
      using m(2) by (auto simp: slm_found_def intro: that [of _ _ "nat m"] split: prod.splits)
    have mo: "slm_modify k v s = Inr (if w \<noteq> v \<and> v \<noteq> NULL_LONG then (s\<lparr>sl_elementV := (sl_elementV s)[i := v]\<rparr>, Updated)
        else (s, Unchanged))"
      using m(1) i n l hash k by (simp add: slm_modify_def)
    show ?thesis
    proof (cases "w \<noteq> v \<and> v \<noteq> NULL_LONG")
      case True
      then have "(slm_abs s)(?h \<mapsto> (k0, v)) \<noteq> slm_abs s" using Some i(1) by (metis fun_upd_same option.inject snd_conv)
      then show ?thesis using True mo s(3) Some i(1) slm_update [OF s(1) i(3,5), of v] i(4)
        by (simp add: str_put_def slm_room_def)
    next
      case False
      then have "str_put k v (slm_abs s) = slm_abs s" using Some i(1) by (auto simp: str_put_def)
      then show ?thesis using False mo s(1,3) by (auto simp: slm_room_def)
    qed
  next
    case None
    then have m1: "m = -1" using m(2) by (simp add: slm_found_def)
    have p: "str_put k v (slm_abs s) = (slm_abs s)(?h \<mapsto> (k, v))" "str_put k v (slm_abs s) \<noteq> slm_abs s"
      using None by (auto simp: str_put_def dest: fun_cong [of _ _ ?h])
    show ?thesis
    proof (cases "4 * (?c + 1) > 3 * ?n")
      case True
      then have "2 * ?n < 2 ^ 31" using s(3) by (simp add: slm_room_def)
      then obtain s1 where s1: "slm_rehash s = Inr s1" "slm_wf s1" "slm_abs s1 = slm_abs s"
        "sl_stateSize s1 = 2 * ?n" "sl_elementCount s1 = ?c"
        using slm_rehash [OF s(1) n] by blast
      then have a: "sl_elementCount s1 < sl_stateSize s1" "0 < sl_stateSize s1" using n l by simp_all
      have "slm_modify k v s = Inr (slm_insert k ?h v (int (slot_of longHash (sl_stateSize s1) ?h)) s1, Inserted True)"
        using True m(1) m1 n s1(1) hash slm_hash [OF s1(2) k [THEN conjunct2] a(2)] k by (simp add: slm_modify_def)
      then show ?thesis using slm_insert [OF s1(2) s(2) _ a(1), of v] None s1(3-5) p s(3)
        by (auto simp: slm_room_def)
    next
      case False
      then have "slm_modify k v s = Inr (slm_insert k ?h v (int (slot_of longHash ?n ?h)) s, Inserted False)"
        using m(1) m1 n hash k by (simp add: slm_modify_def)
      then show ?thesis using slm_insert [OF s(1,2) None, of v] False p s(3)
        by (auto simp: slm_room_def)
    qed
  qed
qed

abbreviation slm_values :: "slm_state \<Rightarrow> int \<rightharpoonup> int" where
  "slm_values s \<equiv> \<lambda>h. map_option snd (slm_abs s h)"

interpretation sl: number_map slm_wf slm_values key_hash_of string_ok slm_room slm_getValue slm_modify
proof
  fix s k and v :: int and n assume a: "slm_wf s" "string_ok k"
  show "slm_getValue k s = Inr (Some (case slm_values s (key_hash_of k) of None \<Rightarrow> NULL_LONG | Some v \<Rightarrow> v))"
    using slm_getValue_abs [OF a] by (simp split: option.split)
  assume "v \<noteq> NULL_LONG" "slm_room (Suc n) s"
  then show "\<exists>s' eff. slm_modify k v s = Inr (s', eff) \<and> slm_wf s' \<and> slm_room n s'
      \<and> slm_values s' = (slm_values s)(key_hash_of k \<mapsto> v)"
    using slm_modify_refines [OF a, of n v] by (auto simp: str_put_def fun_eq_iff split: option.splits)
qed

subsection \<open>Properties\<close>

lemma map_filter_Some: "(\<And>x. x \<in> set xs \<Longrightarrow> f x = Some (g x)) \<Longrightarrow> List.map_filter f xs = map g xs"
  by (induction xs) (simp_all add: List.map_filter_simps)

lemma slm_each_abs:
  assumes "slm_wf s"
  shows "slm_each s = map (\<lambda>(h, k, v). (k, Some v)) (slm_pairs s)"
    "set (slm_each s) = {(k, Some v) | h k v. slm_abs s h = Some (k, v)}" "length (slm_each s) = slm_size s"
proof -
  note l = slm_wf_lengths [OF assms]
  let ?g = "\<lambda>i. (the (sl_elementK s ! i), Some (sl_elementV s ! i))"
  have "map_option (\<lambda>k. (k, rd (sl_elementV s) (Some (int i)))) (Option.bind (rd (sl_elementK s) (Some (int i))) (\<lambda>k. k))
      = Some (?g i)" if "i < sl_elementCount s" for i
    using that l slm_wf_key [OF assms that] by auto
  then have "slm_each s = map ?g [0..<sl_elementCount s]"
    unfolding slm_each_def by (intro map_filter_Some) simp
  also have "\<dots> = map (\<lambda>(h, k, v). (k, Some v)) (slm_pairs s)"
    using assms l by (intro nth_equalityI) (simp_all add: slm_pairs_nth)
  finally show e: "slm_each s = map (\<lambda>(h, k, v). (k, Some v)) (slm_pairs s)" .
  have "set (slm_pairs s) = {(h, x). slm_abs s h = Some x}"
    using map_of_eq_Some_iff [OF slm_pairs_distinct [OF assms]] by (auto simp: slm_abs_def)
  then show "set (slm_each s) = {(k, Some v) | h k v. slm_abs s h = Some (k, v)}"
    unfolding e set_map by (auto simp: image_def split_beta)
  show "length (slm_each s) = slm_size s" using e assms by (simp add: slm_size_def)
qed

text \<open>Further fact.
  \<open>put\<close> of \<open>ArrayStringLongMap\<close> refines an abstract map from hashes to a string and a value: the
  string of the first put under a hash stays, later puts of that hash change only the value, and not
  when it is \<open>NULL_LONG\<close>.  After it, \<open>getValue\<close>, \<open>getByHash\<close> and \<open>containsHash\<close> read the abstract map
  at a hash, and \<open>each\<close> visits its pairs.\<close>

theorem slm_put_refines:
  assumes "slm_wf s" "string_ok k" "slm_room 1 s"
  shows "\<exists>s' eff. slm_modify k v s = Inr (s', eff) \<and> slm_wf s' \<and> slm_abs s' = str_put k v (slm_abs s)
    \<and> (eff = Unchanged \<longleftrightarrow> slm_abs s' = slm_abs s)
    \<and> (\<forall>k'. string_ok k' \<longrightarrow> slm_getValue k' s'
          = Inr (Some (case slm_abs s' (key_hash_of k') of None \<Rightarrow> NULL_LONG | Some (_, w) \<Rightarrow> w)))
    \<and> (\<forall>h. hashable h \<longrightarrow> slm_getByHash h s' = Inr (map_option fst (slm_abs s' h))
                       \<and> slm_containsHash h s' = Inr (slm_abs s' h \<noteq> None))
    \<and> set (slm_each s') = {(k, Some v) | h k v. slm_abs s' h = Some (k, v)} \<and> length (slm_each s') = slm_size s'"
proof -
  obtain s' eff where s': "slm_modify k v s = Inr (s', eff)" "slm_wf s'" "slm_room 0 s'"
    "slm_abs s' = str_put k v (slm_abs s)" "eff = Unchanged \<longleftrightarrow> slm_abs s' = slm_abs s"
    using slm_modify_refines [of s k 0 v] assms unfolding One_nat_def by blast
  then have "0 < sl_stateSize s'" by (simp add: slm_room_def)
  then show ?thesis using s' slm_each_abs [OF s'(2)] slm_getValue_abs [OF s'(2)] slm_reads [OF s'(2)] by blast
qed

text \<open>The string of one zero character, for which one entry of the byte table is computed.\<close>

lemma string_ok_0: "string_ok [0]"
  unfolding string_ok_def data_hash_def data_hash_loop.simps byteTable_0 by code_simp

theorem slm_put_refines_witness:
  "\<exists>s' eff. slm_modify [0] 7 (slm_new 16) = Inr (s', eff) \<and> slm_getValue [0] s' = Inr (Some 7)
     \<and> slm_getByHash (key_hash_of [0]) s' = Inr (Some [0])"
proof -
  have "slm_wf (slm_new 16)" by (simp add: slm_new_wf)
  moreover have "slm_room 1 (slm_new 16)" "slm_abs (slm_new 16) = Map.empty"
    by (simp_all add: slm_room_def slm_new_def slm_abs_empty)
  ultimately obtain s' eff where m: "slm_modify [0] 7 (slm_new 16) = Inr (s', eff)" "slm_abs s' = str_put [0] 7 Map.empty"
    and v: "\<forall>k'. string_ok k' \<longrightarrow> slm_getValue k' s'
          = Inr (Some (case slm_abs s' (key_hash_of k') of None \<Rightarrow> NULL_LONG | Some (_, w) \<Rightarrow> w))"
    and h: "\<forall>h. hashable h \<longrightarrow> slm_getByHash h s' = Inr (map_option fst (slm_abs s' h))
                       \<and> slm_containsHash h s' = Inr (slm_abs s' h \<noteq> None)"
    using slm_put_refines [OF _ string_ok_0, of "slm_new 16" 7] by (elim meta_impE exE conjE) simp_all
  have "slm_getValue [0] s' = Inr (Some 7)"
    using v [rule_format, OF string_ok_0] m(2) by (simp add: str_put_def)
  moreover have "slm_getByHash (key_hash_of [0]) s' = Inr (Some [0])"
    using h [rule_format, of "key_hash_of [0]"] string_okD [OF string_ok_0] m(2) by (simp add: str_put_def)
  ultimately show ?thesis using m(1) by blast
qed

text \<open>Further fact.
  After any sequence of puts into a new map, \<open>getValue\<close> of a string returns the last value that was put
  for a string of the same hash, and \<open>NULL_LONG\<close> when there is none: no put is lost through collisions
  of buckets or rehashes.\<close>

theorem slm_last_put:
  assumes "0 < n" "n < 2 ^ 31" "8 * length kvs \<le> 3 * 2 ^ 31"
    and "\<And>k v. (k, v) \<in> set kvs \<Longrightarrow> string_ok k \<and> v \<noteq> NULL_LONG" "string_ok k"
  shows "bindr (run_puts slm_modify kvs (slm_new n)) (slm_getValue k)
    = Inr (Some (case map_of (rev (map (\<lambda>(k, v). (key_hash_of k, v)) kvs)) (key_hash_of k) of
                   None \<Rightarrow> NULL_LONG | Some v \<Rightarrow> v))"
proof -
  have w: "slm_wf (slm_new n)" using assms(2) by (rule slm_new_wf)
  moreover have "slm_room (length kvs) (slm_new n)" using assms(1,3) by (simp add: slm_room_def slm_new_def)
  moreover have "slm_getValue k (slm_new n) = Inr (Some NULL_LONG)"
    using slm_getValue_abs [OF w assms(5)] slm_abs_empty [of "slm_new n"] by (simp add: slm_new_def)
  ultimately show ?thesis using sl.last_put [of "slm_new n" kvs k] assms(4,5) by (simp split: option.split)
qed

theorem slm_last_put_witness:
  "bindr (run_puts slm_modify [([0], 3), ([0], 4)] (slm_new 1)) (slm_getValue [0]) = Inr (Some 4)"
proof -
  have "string_ok k \<and> v \<noteq> NULL_LONG" if "(k, v) \<in> set [([0], 3), ([0], 4)]" for k v
    using that string_ok_0 by (auto simp: NULL_LONG_def)
  then have "bindr (run_puts slm_modify [([0], 3), ([0], 4)] (slm_new 1)) (slm_getValue [0])
    = Inr (Some (case map_of (rev (map (\<lambda>(k, v). (key_hash_of k, v)) [([0], 3), ([0], 4)])) (key_hash_of [0]) of
                   None \<Rightarrow> NULL_LONG | Some v \<Rightarrow> v))"
    using string_ok_0 by (intro slm_last_put) simp_all
  then show ?thesis by (simp del: run_puts.simps)
qed

end
