(* ===== verification/LongLongArrayMap.thy ===== *)
theory LongLongArrayMap
  imports MapObject
begin

text \<open>
  \<open>ArrayLongLongArrayMap\<close>, the multimap from numbers to numbers: its state with the list of free slots
  (chained through \<open>_elementNext\<close>, a free slot has the value \<open>NULL_LONG\<close>), its operations on map
  objects, its invariant \<open>lam_wf\<close> and its abstraction, the set of pairs \<open>lam_abs\<close>.
\<close>

subsection \<open>The state and its operations\<close>

record lam_state =
  la_stateSize :: nat
  la_elementK :: "int list"
  la_elementV :: "int list"
  la_elementNext :: "int list"
  la_elementHash :: "int list"
  la_elementCount :: int
  la_nextAvailableSlot :: jsnum

definition lam_new :: "nat \<Rightarrow> lam_state" where
  "lam_new initialCapacity =
     \<lparr>la_stateSize = initialCapacity, la_elementK = replicate initialCapacity 0,
      la_elementV = replicate initialCapacity NULL_LONG,
      la_elementNext = map (\<lambda>i. if i = initialCapacity - 1 then -1 else int i + 1) [0..<initialCapacity],
      la_elementHash = replicate initialCapacity (-1), la_elementCount = 0, la_nextAvailableSlot = Some 0\<rparr>"

definition lam_clone :: "lam_state \<Rightarrow> lam_state" where
  "lam_clone s = (let n = la_stateSize s in
     s\<lparr>la_elementK := grown 0 n n (la_elementK s), la_elementV := grown 0 n n (la_elementV s),
       la_elementNext := grown 0 n n (la_elementNext s), la_elementHash := grown 0 n n (la_elementHash s)\<rparr>)"

text \<open>
  \<open>get\<close>: the values of the key are collected in an array that doubles (a value read out of bounds is
  \<open>None\<close>), and the array is cut to its length at the end.
\<close>

partial_function (option) lam_get_loop ::
    "int \<Rightarrow> lam_state \<Rightarrow> jsnum list \<Rightarrow> nat \<Rightarrow> jsnum \<Rightarrow> (jsnum list \<times> nat) option" where
  "lam_get_loop key s result resultIndex m =
     (case m of
        None \<Rightarrow> Some (result, resultIndex)
      | Some j \<Rightarrow>
          if j \<ge> 0
          then if rd (la_elementK s) m = Some key
               then let capacity = length result;
                        result = (if resultIndex = capacity
                                  then arraycopy None result 0
                                         (replicate (if capacity = 0 then 1 else capacity * 2) (Some 0)) 0 capacity
                                  else result);
                        result = wr result (Some (int resultIndex)) (rd (la_elementV s) m)
                    in lam_get_loop key s result (resultIndex + 1) (rd (la_elementNext s) m)
               else lam_get_loop key s result resultIndex (rd (la_elementNext s) m)
          else Some (result, resultIndex))"

declare lam_get_loop.simps [code]

definition lam_get :: "int \<Rightarrow> lam_state \<Rightarrow> jsnum list result" where
  "lam_get key s =
     (if la_stateSize s = 0 then Inr []
      else bindr (longHash key (int (la_stateSize s))) (\<lambda>hashIndex.
           bindr (of_loop (lam_get_loop key s [] 0 (rd (la_elementHash s) (Some hashIndex)))) (\<lambda>(result, resultIndex).
             Inr (if resultIndex = length result then result
                  else arraycopy None result 0 (replicate resultIndex (Some 0)) 0 resultIndex))))"

definition lam_each :: "lam_state \<Rightarrow> (jsnum \<times> jsnum) list" where
  "lam_each s = map (\<lambda>i. (rd (la_elementK s) (Some (int i)), rd (la_elementV s) (Some (int i))))
     (filter (\<lambda>i. rd (la_elementV s) (Some (int i)) \<noteq> Some NULL_LONG) [0..<la_stateSize s])"

definition lam_size :: "lam_state \<Rightarrow> int" where
  "lam_size s = la_elementCount s"

text \<open>
  The loop of the rehash over the slots of the new arrays: a slot in use goes to its bucket, a free one
  to the end of the free list (\<open>prev\<close> is its last slot, \<open>slot\<close> its first, -1 when there is none).
\<close>

fun lam_rehash_loop :: "int list \<Rightarrow> int list \<Rightarrow> int \<Rightarrow> nat list \<Rightarrow> (int list \<times> int list) \<times> int \<times> int
    \<Rightarrow> ((int list \<times> int list) \<times> int) result" where
  "lam_rehash_loop K V cap [] (a, prev, slot) = Inr (a, slot)"
| "lam_rehash_loop K V cap (i # is) (a, prev, slot) =
     (if V ! i \<noteq> NULL_LONG
      then bindr (longHash (K ! i) cap) (\<lambda>b. lam_rehash_loop K V cap is (bucket_link (Some (-2)) b (int i) a, prev, slot))
      else if prev = -1
      then lam_rehash_loop K V cap is (a, int i, int i)
      else lam_rehash_loop K V cap is ((wr (fst a) (Some prev) (int i), snd a), int i, slot))"

definition lam_rehash :: "lam_state \<Rightarrow> lam_state result" where
  "lam_rehash s =
     (let newCapacity = la_stateSize s * 2;
          newElementK = grown 0 (la_stateSize s) newCapacity (la_elementK s);
          newElementV = grown 0 (la_stateSize s) newCapacity (la_elementV s);
          newElementV = take (la_stateSize s) newElementV @ replicate (newCapacity - la_stateSize s) NULL_LONG
      in bindr (lam_rehash_loop newElementK newElementV (int newCapacity) [0..<newCapacity]
                  ((replicate newCapacity (-1), replicate newCapacity (-1)), -1, -1)) (\<lambda>((nx, hs), emptySlotHead).
         Inr (s\<lparr>la_stateSize := newCapacity, la_elementK := newElementK, la_elementV := newElementV,
                la_elementNext := nx, la_elementHash := hs, la_nextAvailableSlot := Some emptySlotHead\<rparr>)))"

definition lam_pair_at :: "int \<Rightarrow> int \<Rightarrow> lam_state \<Rightarrow> int \<Rightarrow> bool" where
  "lam_pair_at key value s m \<longleftrightarrow>
     rd (la_elementK s) (Some m) = Some key \<and> rd (la_elementV s) (Some m) = Some value"

text \<open>The insertion into the first free slot.\<close>

definition lam_insert :: "int \<Rightarrow> int \<Rightarrow> int \<Rightarrow> lam_state \<Rightarrow> lam_state result" where
  "lam_insert key value hashIndex s =
     (let newIndex = la_nextAvailableSlot s in
      if newIndex = Some (-1) then Inl (JsError ''Full Map should not happen, implementation error'')
      else let available = rd (la_elementNext s) newIndex;
               nx = wr (la_elementNext s) newIndex (-1);
               current = rd (la_elementHash s) (Some hashIndex);
               nx = (if current \<noteq> Some (-1) then wrn nx newIndex current else wr nx newIndex (-2))
           in Inr (s\<lparr>la_elementK := wr (la_elementK s) newIndex key, la_elementV := wr (la_elementV s) newIndex value,
                     la_elementNext := nx, la_elementHash := wrn (la_elementHash s) (Some hashIndex) newIndex,
                     la_elementCount := la_elementCount s + 1, la_nextAvailableSlot := available\<rparr>))"

text \<open>
  \<open>put\<close> on a map object: the rehash comes before the test of the pair and before the alignment; the
  outcome is whether the listener was told.
\<close>

definition lam_grow :: "lam_state list \<times> map_object \<Rightarrow> (lam_state list \<times> map_object) result" where
  "lam_grow = (\<lambda>(st, m). let s = st ! mo_state m in
     if 4 * (la_elementCount s + 1) > 3 * int (la_stateSize s)
     then bindr (lam_rehash s) (\<lambda>s'. Inr (st @ [s'], m\<lparr>mo_state := length st\<rparr>))
     else Inr (st, m))"

definition lam_put :: "int \<Rightarrow> int \<Rightarrow> lam_state list \<times> map_object \<Rightarrow> (lam_state list \<times> map_object) \<times> bool result" where
  "lam_put key value w =
     (case lam_grow w of
        Inl e \<Rightarrow> (w, Inl e)
      | Inr (st, m) \<Rightarrow> let s = st ! mo_state m in
          case bindr (longHash key (int (la_stateSize s))) (\<lambda>hashIndex.
               bindr (of_loop (chain_find (lam_pair_at key value s) (la_elementNext s)
                  (rd (la_elementHash s) (Some hashIndex)))) (\<lambda>found. Inr (hashIndex, found))) of
            Inl e \<Rightarrow> ((st, m), Inl e)
          | Inr (hashIndex, found) \<Rightarrow>
              if found \<ge> 0 then ((st, m), Inr False)
              else let (st, m) = mo_align lam_clone (st, m) in
                case lam_insert key value hashIndex (st ! mo_state m) of
                  Inl e \<Rightarrow> ((st, m), Inl e)
                | Inr s \<Rightarrow> ((st[mo_state m := s], m), if mo_listener m then Inr True else Inl TypeError))"

text \<open>\<open>remove\<close>: the slot goes back to the free list.  It neither aligns the map nor calls the listener.\<close>

definition lam_unlink :: "int \<Rightarrow> int \<Rightarrow> int \<Rightarrow> lam_state \<Rightarrow> lam_state" where
  "lam_unlink hashIndex previousM m s =
     (let K = wr (la_elementK s) (Some m) NULL_LONG;
          V = wr (la_elementV s) (Some m) NULL_LONG;
          link = rd (la_elementNext s) (Some m);
          hs = (if previousM = -1 then wrn (la_elementHash s) (Some hashIndex) link else la_elementHash s);
          nx = (if previousM = -1 then la_elementNext s else wrn (la_elementNext s) (Some previousM) link)
      in s\<lparr>la_elementK := K, la_elementV := V, la_elementNext := wrn nx (Some m) (la_nextAvailableSlot s),
           la_elementHash := hs, la_elementCount := la_elementCount s - 1, la_nextAvailableSlot := Some m\<rparr>)"

partial_function (option) lam_remove_loop :: "int \<Rightarrow> int \<Rightarrow> int \<Rightarrow> lam_state \<Rightarrow> int \<Rightarrow> jsnum \<Rightarrow> lam_state option" where
  "lam_remove_loop key value hashIndex s previousM m =
     (case m of
        None \<Rightarrow> Some s
      | Some j \<Rightarrow>
          if j \<ge> 0
          then if lam_pair_at key value s j then Some (lam_unlink hashIndex previousM j s)
               else lam_remove_loop key value hashIndex s j (rd (la_elementNext s) m)
          else Some s)"

declare lam_remove_loop.simps [code]

definition lam_remove_state :: "int \<Rightarrow> int \<Rightarrow> lam_state \<Rightarrow> lam_state result" where
  "lam_remove_state key value s =
     bindr (longHash key (int (la_stateSize s))) (\<lambda>hashIndex.
       of_loop (lam_remove_loop key value hashIndex s (-1) (rd (la_elementHash s) (Some hashIndex))))"

definition lam_remove :: "int \<Rightarrow> int \<Rightarrow> lam_state list \<times> map_object \<Rightarrow> (lam_state list \<times> map_object) \<times> unit result" where
  "lam_remove key value = (\<lambda>(st, m).
     case lam_remove_state key value (st ! mo_state m) of
       Inl e \<Rightarrow> ((st, m), Inl e)
     | Inr s \<Rightarrow> ((st[mo_state m := s], m), Inr ()))"

subsection \<open>Invariant and abstraction\<close>

definition lam_live :: "lam_state \<Rightarrow> nat set" where
  "lam_live s = {i. i < la_stateSize s \<and> la_elementV s ! i \<noteq> NULL_LONG}"

definition lam_wf :: "lam_state \<Rightarrow> bool" where
  "lam_wf s \<longleftrightarrow>
     length (la_elementK s) = la_stateSize s \<and> length (la_elementV s) = la_stateSize s
     \<and> la_elementCount s = int (card (lam_live s))
     \<and> inj_on (\<lambda>i. (la_elementK s ! i, la_elementV s ! i)) (lam_live s)
     \<and> table longHash hashable (-2) (la_stateSize s) (lam_live s) ((!) (la_elementK s))
         (la_elementNext s) (la_elementHash s)
     \<and> 0 < la_stateSize s
     \<and> (\<exists>i fs. la_nextAvailableSlot s = Some i \<and> path (la_elementNext s) i fs (-1)
            \<and> set fs = {0..<la_stateSize s} - lam_live s)"

definition lam_abs :: "lam_state \<Rightarrow> (int \<times> int) set" where
  "lam_abs s = (\<lambda>i. (la_elementK s ! i, la_elementV s ! i)) ` lam_live s"

lemma lam_wf_lengths:
  assumes "lam_wf s"
  shows "length (la_elementK s) = la_stateSize s" "length (la_elementV s) = la_stateSize s"
    "length (la_elementNext s) = la_stateSize s" "length (la_elementHash s) = la_stateSize s"
    "0 < la_stateSize s" "la_stateSize s < 2 ^ 31"
  using assms by (simp_all add: lam_wf_def table_def)

lemma lam_wf_table: "lam_wf s \<Longrightarrow> table longHash hashable (-2) (la_stateSize s) (lam_live s)
    ((!) (la_elementK s)) (la_elementNext s) (la_elementHash s)"
  by (simp add: lam_wf_def)

lemma lam_wf_buckets: "lam_wf s \<Longrightarrow>
    buckets (-2) (\<lambda>i. slot_of longHash (la_stateSize s) (la_elementK s ! i)) (lam_live s) (la_elementNext s) (la_elementHash s)"
  using lam_wf_table [of s] by (simp add: table_def)

lemma lam_live_bound: "i \<in> lam_live s \<Longrightarrow> i < la_stateSize s"
  by (simp add: lam_live_def)

lemma finite_lam_live [simp]: "finite (lam_live s)"
  by (simp add: lam_live_def)

lemma lam_hash:
  "lam_wf s \<Longrightarrow> hashable k \<Longrightarrow> longHash k (int (la_stateSize s)) = Inr (int (slot_of longHash (la_stateSize s) k))"
  "lam_wf s \<Longrightarrow> hashable k \<Longrightarrow> slot_of longHash (la_stateSize s) k < la_stateSize s"
  using key_hash.slot_of [of k "la_stateSize s"] lam_wf_lengths [of s] by auto

lemma lam_clone_same: "lam_wf s \<Longrightarrow> lam_clone s = s"
  using lam_wf_lengths [of s] by (simp add: lam_clone_def)

lemma card_lam_abs: "lam_wf s \<Longrightarrow> card (lam_abs s) = card (lam_live s)"
  by (simp add: lam_abs_def lam_wf_def card_image)

text \<open>A new map: the free list holds every slot.\<close>

lemma path_upto: "m \<le> n \<Longrightarrow> path (map (\<lambda>i. if i = n - 1 then -1 else int i + 1) [0..<n]) (if m = n then -1 else int m) [m..<n] (-1)"
proof (induction rule: inc_induct)
  case (step m)
  let ?nx = "map (\<lambda>i. if i = n - 1 then -1 else int i + 1) [0..<n]"
  have "?nx ! m = (if Suc m = n then -1 else int (Suc m))" using step.hyps by auto
  then have "path ?nx (?nx ! m) [Suc m..<n] (-1)" using step.IH by simp
  then show ?case using step.hyps by (simp add: upt_conv_Cons)
qed simp

lemma lam_new_wf: "0 < n \<Longrightarrow> n < 2 ^ 31 \<Longrightarrow> lam_wf (lam_new n) \<and> lam_abs (lam_new n) = {}"
proof -
  assume n: "0 < n" "n < 2 ^ 31"
  have l: "lam_live (lam_new n) = {}" by (auto simp: lam_live_def lam_new_def)
  have "path (la_elementNext (lam_new n)) 0 [0..<n] (-1)" using path_upto [of 0 n] n by (simp add: lam_new_def)
  then show ?thesis
    using n l key_hash.table_empty [of n "-2" "la_elementNext (lam_new n)"]
    by (auto simp: lam_wf_def lam_abs_def lam_new_def intro: exI [of _ "[0..<n]"])
qed

subsection \<open>Lookup\<close>

lemma lam_pair_at: "lam_wf s \<Longrightarrow> i < la_stateSize s \<Longrightarrow> lam_pair_at k v s (int i) \<longleftrightarrow> la_elementK s ! i = k \<and> la_elementV s ! i = v"
  using lam_wf_lengths [of s] by (simp add: lam_pair_at_def)

text \<open>The collecting loop: the values of the key along the chain, in an array that may be longer.\<close>

lemma lam_get_loop:
  assumes "path (la_elementNext s) i xs j" "j < 0" "lam_wf s" "set xs \<subseteq> lam_live s" "n \<le> length r"
  shows "\<exists>r' n'. lam_get_loop k s r n (Some i) = Some (r', n') \<and> n' \<le> length r'
    \<and> take n' r' = take n r @ map (\<lambda>i. Some (la_elementV s ! i)) (filter (\<lambda>i. la_elementK s ! i = k) xs)"
  using assms
proof (induction xs arbitrary: i r n)
  case Nil
  then show ?case by (subst lam_get_loop.simps) simp
next
  case (Cons x xs)
  note l = lam_wf_lengths [OF Cons.prems(3)]
  have i: "i = int x" "x < la_stateSize s" "path (la_elementNext s) (la_elementNext s ! x) xs j"
    using Cons.prems lam_live_bound l by auto
  have xs: "set xs \<subseteq> lam_live s" using Cons.prems by simp
  show ?case
  proof (cases "la_elementK s ! x = k")
    case False
    then have "lam_get_loop k s r n (Some i) = lam_get_loop k s r n (Some (la_elementNext s ! x))"
      using i l by (subst lam_get_loop.simps) simp
    then show ?thesis using Cons.IH [OF i(3) Cons.prems(2,3) xs Cons.prems(5)] False by simp
  next
    case True
    define r1 where "r1 = (if n = length r then r @ replicate (max 1 (length r)) (Some 0) else r)"
    define r2 where "r2 = r1[n := Some (la_elementV s ! x)]"
    have r1: "n < length r1" "take n r1 = take n r" using Cons.prems(5) by (auto simp: r1_def)
    have "arraycopy None r 0 (replicate (if length r = 0 then 1 else length r * 2) (Some 0)) 0 (length r)
        = r @ replicate (max 1 (length r)) (Some 0)"
      by (subst arraycopy_prefix) (auto simp: max_def Suc_le_eq)
    then have "lam_get_loop k s r n (Some i) = lam_get_loop k s r2 (n + 1) (Some (la_elementNext s ! x))"
      using i l True Cons.prems(5)
      by (subst lam_get_loop.simps) (cases "n = length r"; simp add: r2_def r1_def Let_def)
    moreover have "n + 1 \<le> length r2" "take (n + 1) r2 = take n r @ [Some (la_elementV s ! x)]"
      using r1 by (simp_all add: r2_def take_Suc_conv_app_nth)
    ultimately show ?thesis using Cons.IH [OF i(3) Cons.prems(2,3) xs, of "n + 1" r2] True by simp
  qed
qed

lemma lam_get_abs:
  assumes "lam_wf s" "hashable k"
  shows "\<exists>vs. lam_get k s = Inr (map Some vs) \<and> distinct vs \<and> set vs = {v. (k, v) \<in> lam_abs s}"
proof -
  note l = lam_wf_lengths [OF assms(1)]
  let ?b = "slot_of longHash (la_stateSize s) k"
  have b: "?b < length (la_elementHash s)" using lam_hash(2) [OF assms] l by simp
  obtain xs j where xs: "path (la_elementNext s) (la_elementHash s ! ?b) xs j" "j < 0"
    "set xs = {i \<in> lam_live s. slot_of longHash (la_stateSize s) (la_elementK s ! i) = ?b}" "distinct xs"
    by (rule bucketsD [OF lam_wf_buckets [OF assms(1)] b])
  let ?ys = "filter (\<lambda>i. la_elementK s ! i = k) xs"
  let ?vs = "map ((!) (la_elementV s)) ?ys"
  obtain r n where r: "lam_get_loop k s [] 0 (Some (la_elementHash s ! ?b)) = Some (r, n)" "n \<le> length r"
    "take n r = map Some ?vs"
    using lam_get_loop [OF xs(1,2) assms(1), of 0 "[]" k] xs(3) by auto
  have "arraycopy None r 0 (replicate n (Some 0)) 0 n = take n r"
    using arraycopy_slice [of "replicate n (Some 0)" n 0 r] r(2) by simp
  then have "lam_get k s = Inr (map Some ?vs)"
    using r b lam_hash [OF assms] l(5) by (cases "n = length r") (simp_all add: lam_get_def)
  moreover have ys: "set ?ys = {i \<in> lam_live s. la_elementK s ! i = k}" using xs(3) by auto
  then have "set ?vs = {v. (k, v) \<in> lam_abs s}" by (auto simp: lam_abs_def image_iff)
  moreover have "inj_on ((!) (la_elementV s)) (set ?ys)"
    using assms(1) unfolding ys by (auto simp: lam_wf_def inj_on_def)
  then have "distinct ?vs" using xs(4) by (simp add: distinct_map del: set_filter)
  ultimately show ?thesis by blast
qed

subsection \<open>Rehash\<close>

text \<open>
  The loop keeps the chains of the slots in use and the list \<open>fs\<close> of the free slots seen so far; the
  slots still to come have the link -1.
\<close>

definition ends :: "nat list \<Rightarrow> int \<times> int" where
  "ends fs = (if fs = [] then (-1, -1) else (int (last fs), int (hd fs)))"

lemma path_snoc:
  assumes "path nx i fs (-1)" "fs \<noteq> []" "x < length nx" "nx ! x = -1" "x \<notin> set fs"
  shows "path (nx[last fs := int x]) i (fs @ [x]) (-1)"
proof -
  obtain gs l where fs: "fs = gs @ [l]" using assms(2) by (metis append_butlast_last_id)
  have d: "distinct fs" using path_distinct [OF assms(1)] by simp
  have "path nx i gs (int l)" "l < length nx" using assms(1) fs by (auto simp: path_append)
  then show ?thesis using fs d assms(3-5) by (auto simp: path_append path_update)
qed

lemma lam_rehash_loop:
  assumes "buckets (-2) own S nx hs" "path nx (snd (ends fs)) fs (-1)" "distinct is" "(S \<union> set fs) \<inter> set is = {}"
    and "S \<inter> set fs = {}" "\<And>i. i \<in> set is \<Longrightarrow> i < length nx \<and> nx ! i = -1"
    and "\<And>i. i \<in> set is \<Longrightarrow> V ! i \<noteq> NULL_LONG \<Longrightarrow> own i < length hs \<and> longHash (K ! i) cap = Inr (int (own i))"
  shows "\<exists>nx' hs' h' gs. lam_rehash_loop K V cap is ((nx, hs), ends fs) = Inr ((nx', hs'), h')
    \<and> buckets (-2) own (S \<union> {i \<in> set is. V ! i \<noteq> NULL_LONG}) nx' hs' \<and> path nx' h' gs (-1)
    \<and> set gs = set fs \<union> {i \<in> set is. V ! i = NULL_LONG} \<and> length nx' = length nx \<and> length hs' = length hs"
  using assms
proof (induction "is" arbitrary: S nx hs fs)
  case Nil
  then show ?case by (cases "ends fs") auto
next
  case (Cons i "is")
  obtain prev slot where e: "ends fs = (prev, slot)" by (cases "ends fs")
  have i: "i < length nx" "nx ! i = -1" "i \<notin> S" "i \<notin> set fs" "i \<notin> set is" using Cons.prems by auto
  show ?case
  proof (cases "V ! i = NULL_LONG")
    case False
    then have h: "own i < length hs" "longHash (K ! i) cap = Inr (int (own i))" using Cons.prems(7) [of i] by auto
    obtain nx1 hs1 where one: "bucket_link (Some (-2)) (int (own i)) (int i) (nx, hs) = (nx1, hs1)"
      "buckets (-2) own (insert i S) nx1 hs1" "length nx1 = length nx" "length hs1 = length hs"
      "\<forall>j. j \<noteq> i \<longrightarrow> nx1 ! j = nx ! j"
      using bucket_link_insert [OF Cons.prems(1) i(3,1) h(1), of "Some (-2)"] by blast
    have "nx1 = nx[i := nx1 ! i]" using one(3,5) by (rule update_only)
    then have p: "path nx1 (snd (ends fs)) fs (-1)" using Cons.prems(2) path_update [OF i(4)] by metis
    have "\<exists>nx' hs' h' gs. lam_rehash_loop K V cap is ((nx1, hs1), ends fs) = Inr ((nx', hs'), h')
      \<and> buckets (-2) own (insert i S \<union> {i \<in> set is. V ! i \<noteq> NULL_LONG}) nx' hs' \<and> path nx' h' gs (-1)
      \<and> set gs = set fs \<union> {i \<in> set is. V ! i = NULL_LONG} \<and> length nx' = length nx1 \<and> length hs' = length hs1"
    proof (rule Cons.IH [OF one(2) p])
      fix j assume "j \<in> set is"
      then show "j < length nx1 \<and> nx1 ! j = -1" using one(3,5) i(5) Cons.prems(6) [of j] by (cases "j = i") auto
    qed (use Cons.prems one(3,4) i in auto)
    moreover have "insert i S \<union> {i \<in> set is. V ! i \<noteq> NULL_LONG} = S \<union> {j \<in> set (i # is). V ! j \<noteq> NULL_LONG}"
      "{i \<in> set is. V ! i = NULL_LONG} = {j \<in> set (i # is). V ! j = NULL_LONG}" using False by auto
    ultimately show ?thesis using False h(2) one(1,3,4) e by simp
  next
    case True
    let ?nx = "if fs = [] then nx else nx[last fs := int i]"
    have last: "last fs \<in> set fs" if "fs \<noteq> []" using that by simp
    have "last fs \<notin> S" if "fs \<noteq> []" using last [OF that] Cons.prems(5) by blast
    then have b: "buckets (-2) own S ?nx hs"
      using Cons.prems(1) buckets_outside [of "last fs" S "-2" own nx "int i" hs] by (cases "fs = []") auto
    have p: "path ?nx (snd (ends (fs @ [i]))) (fs @ [i]) (-1)"
      using i path_snoc [OF Cons.prems(2) _ i(1,2,4)] by (simp add: ends_def)
    have "last fs < length nx" if "fs \<noteq> []" using path_bound [OF Cons.prems(2) last [OF that]] .
    then have step: "lam_rehash_loop K V cap (i # is) ((nx, hs), ends fs)
        = lam_rehash_loop K V cap is ((?nx, hs), ends (fs @ [i]))"
      using True by (simp add: ends_def)
    have "\<exists>nx' hs' h' gs. lam_rehash_loop K V cap is ((?nx, hs), ends (fs @ [i])) = Inr ((nx', hs'), h')
      \<and> buckets (-2) own (S \<union> {i \<in> set is. V ! i \<noteq> NULL_LONG}) nx' hs' \<and> path nx' h' gs (-1)
      \<and> set gs = set (fs @ [i]) \<union> {i \<in> set is. V ! i = NULL_LONG} \<and> length nx' = length ?nx \<and> length hs' = length hs"
    proof (rule Cons.IH [OF b p])
      fix j assume "j \<in> set is"
      then have "j \<noteq> last fs" if "fs \<noteq> []" using last [OF that] Cons.prems(4) by auto
      then show "j < length ?nx \<and> ?nx ! j = -1" using \<open>j \<in> set is\<close> Cons.prems(6) [of j] by auto
    qed (use Cons.prems i in auto)
    moreover have "S \<union> {i \<in> set is. V ! i \<noteq> NULL_LONG} = S \<union> {j \<in> set (i # is). V ! j \<noteq> NULL_LONG}"
      "set (fs @ [i]) \<union> {i \<in> set is. V ! i = NULL_LONG} = set fs \<union> {j \<in> set (i # is). V ! j = NULL_LONG}"
      using True by auto
    ultimately show ?thesis unfolding step by (cases "fs = []") simp_all
  qed
qed

lemma lam_rehash:
  assumes s: "lam_wf s" "2 * la_stateSize s < 2 ^ 31"
  shows "\<exists>s'. lam_rehash s = Inr s' \<and> lam_wf s' \<and> lam_abs s' = lam_abs s \<and> la_stateSize s' = 2 * la_stateSize s
    \<and> la_elementCount s' = la_elementCount s"
proof -
  let ?n = "la_stateSize s"
  let ?N = "?n * 2"
  note l = lam_wf_lengths [OF s(1)]
  define K where "K = grown 0 ?n ?N (la_elementK s)"
  define V where "V = take ?n (grown 0 ?n ?N (la_elementV s)) @ replicate (?N - ?n) NULL_LONG"
  have K: "length K = ?N" "\<And>i. i < ?n \<Longrightarrow> K ! i = la_elementK s ! i" using l by (simp_all add: K_def)
  have V: "length V = ?N" "\<And>i. i < ?N \<Longrightarrow> V ! i = (if i < ?n then la_elementV s ! i else NULL_LONG)"
    using l by (simp_all add: V_def nth_append)
  have live: "{i \<in> set [0..<?N]. V ! i \<noteq> NULL_LONG} = lam_live s"
    using V(2) by (auto simp: lam_live_def split: if_splits)
  let ?own = "\<lambda>i. slot_of longHash ?N (K ! i)"
  have ok: "hashable (K ! i)" if "i \<in> lam_live s" for i
    using that lam_wf_table [OF s(1)] K(2) [of i] by (auto simp: table_def lam_live_def)
  have "\<exists>nx hs h gs. lam_rehash_loop K V (int ?N) [0..<?N] ((replicate ?N (-1), replicate ?N (-1)), ends []) = Inr ((nx, hs), h)
    \<and> buckets (-2) ?own ({} \<union> {i \<in> set [0..<?N]. V ! i \<noteq> NULL_LONG}) nx hs \<and> path nx h gs (-1)
    \<and> set gs = set [] \<union> {i \<in> set [0..<?N]. V ! i = NULL_LONG} \<and> length nx = length (replicate ?N (-1 :: int)) \<and> length hs = length (replicate ?N (-1 :: int))"
  proof (rule lam_rehash_loop)
    fix i assume "i \<in> set [0..<?N]" "V ! i \<noteq> NULL_LONG"
    then have "i \<in> lam_live s" using live by blast
    then show "?own i < length (replicate ?N (-1 :: int)) \<and> longHash (K ! i) (int ?N) = Inr (int (?own i))"
      using key_hash.slot_of [OF ok, of i ?N] s(2) l(5) by simp
  qed (auto intro: buckets_empty simp: ends_def)
  then obtain nx hs h gs where r: "lam_rehash_loop K V (int ?N) [0..<?N] ((replicate ?N (-1), replicate ?N (-1)), -1, -1) = Inr ((nx, hs), h)"
    "buckets (-2) ?own (lam_live s) nx hs" "path nx h gs (-1)"
    "set gs = {i \<in> set [0..<?N]. V ! i = NULL_LONG}" "length nx = ?N" "length hs = ?N"
    unfolding live by (auto simp: ends_def)
  let ?s' = "s\<lparr>la_stateSize := ?N, la_elementK := K, la_elementV := V, la_elementNext := nx,
      la_elementHash := hs, la_nextAvailableSlot := Some h\<rparr>"
  have l': "lam_live ?s' = lam_live s" using live by (auto simp: lam_live_def)
  have pairs: "(K ! i, V ! i) = (la_elementK s ! i, la_elementV s ! i)" if "i \<in> lam_live s" for i
    using that K(2) V(2) by (simp add: lam_live_def)
  have "set gs = {0..<?N} - lam_live s" unfolding live [symmetric] r(4) by auto
  moreover have "table longHash hashable (-2) ?N (lam_live s) ((!) K) nx hs"
  proof -
    have "\<forall>i \<in> lam_live s. i < ?N \<and> hashable (K ! i)" using ok lam_live_bound by fastforce
    then show ?thesis using r(2,5,6) s(2) by (simp add: table_def mult.commute)
  qed
  moreover have "inj_on (\<lambda>i. (K ! i, V ! i)) (lam_live s)"
    using s(1) pairs by (auto simp: lam_wf_def inj_on_def)
  ultimately have "lam_wf ?s'" using s(1) l' K(1) V(1) r(3) l(5) by (auto simp: lam_wf_def)
  moreover have "lam_rehash s = Inr ?s'" using r(1) by (simp add: lam_rehash_def Let_def K_def V_def)
  moreover have "lam_abs ?s' = lam_abs s"
    unfolding lam_abs_def l' using pairs by (intro image_cong) simp_all
  ultimately show ?thesis by (intro exI [of _ ?s']) simp
qed

subsection \<open>Insertion\<close>

lemma lam_insert:
  assumes s: "lam_wf s" "hashable k" "(k, v) \<notin> lam_abs s" "v \<noteq> NULL_LONG" "la_elementCount s < int (la_stateSize s)"
  shows "\<exists>s'. lam_insert k v (int (slot_of longHash (la_stateSize s) k)) s = Inr s' \<and> lam_wf s'
    \<and> lam_abs s' = insert (k, v) (lam_abs s) \<and> la_stateSize s' = la_stateSize s \<and> la_elementCount s' = la_elementCount s + 1"
proof -
  let ?n = "la_stateSize s" and ?b = "slot_of longHash (la_stateSize s) k" and ?K = "la_elementK s" and ?V = "la_elementV s"
  note l = lam_wf_lengths [OF s(1)]
  obtain i fs where f: "la_nextAvailableSlot s = Some i" "path (la_elementNext s) i fs (-1)"
    "set fs = {0..<?n} - lam_live s" using s(1) by (auto simp: lam_wf_def)
  have "card (lam_live s) < ?n" using s(1,5) by (simp add: lam_wf_def)
  then have "lam_live s \<noteq> {0..<?n}" by auto
  then have "set fs \<noteq> {}" using f(3) lam_live_bound by fastforce
  then obtain x gs where x: "fs = x # gs" "i = int x" "x < ?n" "x \<notin> lam_live s" "path (la_elementNext s) (la_elementNext s ! x) gs (-1)"
    using f l by (cases fs) auto
  have d: "x \<notin> set gs" using path_distinct [OF f(2)] x(1) by simp
  have t: "table longHash hashable (-2) ?n (lam_live s) ((!) ?K) ((la_elementNext s)[x := -1]) (la_elementHash s)"
    using lam_wf_table [OF s(1)] buckets_outside [OF x(4)] by (simp add: table_def)
  have kk: "?K[x := k] ! j = ?K ! j" if "j \<in> lam_live s" for j using x(4) that by (cases "j = x") auto
  obtain nx hs where b: "bucket_link (Some (-2)) (int ?b) (int x) ((la_elementNext s)[x := -1], la_elementHash s) = (nx, hs)"
    "table longHash hashable (-2) ?n (insert x (lam_live s)) ((!) (?K[x := k])) nx hs"
    "\<forall>j. j \<noteq> x \<longrightarrow> nx ! j = (la_elementNext s)[x := -1] ! j"
    using key_hash.table_insert [OF t x(4,3) s(2) _ kk, of "Some (-2)"] x(3) l by auto
  let ?s' = "s\<lparr>la_elementK := ?K[x := k], la_elementV := ?V[x := v], la_elementNext := nx, la_elementHash := hs,
      la_elementCount := la_elementCount s + 1, la_nextAvailableSlot := Some (la_elementNext s ! x)\<rparr>"
  have "lam_insert k v (int ?b) s = Inr ?s'"
    using b(1) x(2,3) f(1) l lam_hash(2) [OF s(1,2)] by (auto simp: lam_insert_def bucket_link_def Let_def split: if_splits)
  moreover have live: "lam_live ?s' = insert x (lam_live s)"
    using x(3) s(4) l by (auto simp: lam_live_def nth_list_update)
  have pairs: "(?K[x := k] ! j, ?V[x := v] ! j) = (if j = x then (k, v) else (?K ! j, ?V ! j))" for j
    using x(3) l by (cases "j = x") auto
  have abs: "lam_abs ?s' = insert (k, v) (lam_abs s)"
    using x(4) pairs live by (auto simp: lam_abs_def image_iff)
  have "length nx = length (la_elementNext s)" "\<forall>j. j \<noteq> x \<longrightarrow> nx ! j = la_elementNext s ! j"
    using b(2,3) l by (auto simp: table_def)
  then have "nx = (la_elementNext s)[x := nx ! x]" by (rule update_only)
  then have "path nx (la_elementNext s ! x) gs (-1)" using x(5) path_update [OF d] by metis
  moreover have "set gs = {0..<?n} - lam_live ?s'" using f(3) x(1,4) d live by auto
  moreover have "inj_on (\<lambda>j. (?K[x := k] ! j, ?V[x := v] ! j)) (insert x (lam_live s))"
    using s(1,3) x(4) unfolding pairs by (auto simp: lam_wf_def inj_on_def lam_abs_def image_iff)
  ultimately have "lam_insert k v (int ?b) s = Inr ?s'" "lam_wf ?s'"
    using s(1) b(2) live x(4) l by (auto simp: lam_wf_def)
  then show ?thesis using abs by (intro exI [of _ ?s']) simp
qed

subsection \<open>Removal\<close>

lemma lam_remove_loop:
  assumes "path (la_elementNext s) i xs j" "j < 0" "lam_wf s" "set xs \<subseteq> lam_live s"
  shows "lam_remove_loop k v h s p (Some i) =
    (case List.extract (\<lambda>x. la_elementK s ! x = k \<and> la_elementV s ! x = v) xs of
       None \<Rightarrow> Some s
     | Some (us, x, vs) \<Rightarrow> Some (lam_unlink h (if us = [] then p else int (last us)) (int x) s))"
  using assms
proof (induction xs arbitrary: i p)
  case Nil
  then show ?case by (subst lam_remove_loop.simps) (simp add: List.extract_def)
next
  case (Cons x xs)
  note l = lam_wf_lengths [OF Cons.prems(3)]
  have i: "i = int x" "x < la_stateSize s" "path (la_elementNext s) (la_elementNext s ! x) xs j" "set xs \<subseteq> lam_live s"
    using Cons.prems lam_live_bound l by auto
  show ?case
  proof (cases "la_elementK s ! x = k \<and> la_elementV s ! x = v")
    case True
    then show ?thesis using i lam_pair_at [OF Cons.prems(3) i(2)]
      by (subst lam_remove_loop.simps) (simp add: extract_Cons_code)
  next
    case False
    then have "\<not> lam_pair_at k v s (int x)" using lam_pair_at [OF Cons.prems(3) i(2)] by simp
    then have "lam_remove_loop k v h s p (Some i) = lam_remove_loop k v h s (int x) (Some (la_elementNext s ! x))"
      using i l by (subst lam_remove_loop.simps) simp
    then show ?thesis using Cons.IH [OF i(3) Cons.prems(2,3) i(4)] False
      by (auto simp: extract_Cons_code split: option.splits)
  qed
qed

lemma lam_unlink:
  assumes s: "lam_wf s" "own = (\<lambda>i. slot_of longHash (la_stateSize s) (la_elementK s ! i))"
    and p: "path (la_elementNext s) (la_elementHash s ! own x) (us @ x # vs) j" "j < 0"
    and x: "x \<in> lam_live s" "us = [] \<or> last us \<in> lam_live s"
  defines "s' \<equiv> lam_unlink (int (own x)) (if us = [] then -1 else int (last us)) (int x) s"
  shows "lam_wf s'" "lam_abs s' = lam_abs s - {(la_elementK s ! x, la_elementV s ! x)}" "la_stateSize s' = la_stateSize s"
proof -
  let ?n = "la_stateSize s" and ?K = "la_elementK s" and ?V = "la_elementV s" and ?nx = "la_elementNext s" and ?hs = "la_elementHash s"
  note l = lam_wf_lengths [OF s(1)]
  obtain i fs where f: "la_nextAvailableSlot s = Some i" "path ?nx i fs (-1)" "set fs = {0..<?n} - lam_live s"
    using s(1) by (auto simp: lam_wf_def)
  have xn: "x < ?n" "own x < length ?hs" "x \<notin> set us" "us = [] \<or> last us < ?n"
    using x lam_live_bound lam_wf_buckets [OF s(1)] path_distinct [OF p] s(2) by (auto simp: buckets_def)
  define nx where "nx = (if us = [] then ?nx else ?nx[last us := ?nx ! x])"
  define hs where "hs = (if us = [] then ?hs[own x := ?nx ! x] else ?hs)"
  have b: "buckets (-2) own (lam_live s - {x}) nx hs"
    unfolding nx_def hs_def using lam_wf_buckets [OF s(1)] s(2) xn(2) p
      by (intro buckets_remove [of "-2" own "lam_live s" ?nx ?hs x us vs j]) simp_all
  have s': "s' = s\<lparr>la_elementK := ?K[x := NULL_LONG], la_elementV := ?V[x := NULL_LONG], la_elementNext := nx[x := i],
      la_elementHash := hs, la_elementCount := la_elementCount s - 1, la_nextAvailableSlot := Some (int x)\<rparr>"
    using xn l f(1) by (cases "us = []") (simp_all add: s'_def lam_unlink_def nx_def hs_def Let_def)
  have live: "lam_live s' = lam_live s - {x}" using xn(1) l by (auto simp: s' lam_live_def nth_list_update)
  have KV: "?K[x := NULL_LONG] ! m = ?K ! m" "?V[x := NULL_LONG] ! m = ?V ! m" if "m \<in> lam_live s - {x}" for m using that by auto
  have "buckets (-2) (\<lambda>i. slot_of longHash ?n (?K[x := NULL_LONG] ! i)) (lam_live s - {x}) (nx[x := i]) hs"
    using b KV(1) s(2) buckets_outside [of x "lam_live s - {x}"]
      buckets_cong [of "lam_live s - {x}" own "\<lambda>i. slot_of longHash ?n (?K[x := NULL_LONG] ! i)"] by simp
  then have t: "table longHash hashable (-2) ?n (lam_live s') ((!) (?K[x := NULL_LONG])) (nx[x := i]) hs"
  proof -
    have "length nx = ?n" "length hs = ?n" using l by (simp_all add: nx_def hs_def)
    moreover have "\<forall>i \<in> lam_live s - {x}. i < ?n \<and> hashable (?K[x := NULL_LONG] ! i)"
      using lam_wf_table [OF s(1)] KV(1) unfolding table_def by simp
    ultimately show ?thesis using \<open>buckets (-2) _ _ (nx[x := i]) hs\<close> l(6) unfolding live table_def by simp
  qed
  have "x \<notin> set fs" "us = [] \<or> last us \<notin> set fs" using f(3) x by blast+
  then have "path (nx[x := i]) i fs (-1)"
    using f(2) by (cases "us = []") (simp_all add: nx_def path_update)
  then have "path (nx[x := i]) (int x) (x # fs) (-1)" using xn(1) l by (simp add: nx_def)
  moreover have "set (x # fs) = {0..<?n} - lam_live s'" using f(3) live xn(1) by auto
  moreover have "inj_on (\<lambda>m. (?K[x := NULL_LONG] ! m, ?V[x := NULL_LONG] ! m)) (lam_live s')"
    using s(1) KV unfolding live by (auto simp: lam_wf_def inj_on_def)
  moreover have "card (lam_live s') = card (lam_live s) - 1" "0 < card (lam_live s)"
    using x(1) live by (auto simp: card_gt_0_iff)
  ultimately show "lam_wf s'" using s(1) t l unfolding lam_wf_def
    by (auto simp: s' intro!: exI [of _ "x # fs"])
  have "inj_on (\<lambda>m. (?K ! m, ?V ! m)) (lam_live s)" using s(1) by (simp add: lam_wf_def)
  then have "(\<lambda>m. (?K ! m, ?V ! m)) ` (lam_live s - {x}) = lam_abs s - {(?K ! x, ?V ! x)}"
    using x(1) by (simp add: lam_abs_def inj_on_image_set_diff)
  moreover have "lam_abs s' = (\<lambda>m. (?K ! m, ?V ! m)) ` (lam_live s - {x})"
    unfolding lam_abs_def live using KV by (intro image_cong) (simp_all add: s')
  ultimately show "lam_abs s' = lam_abs s - {(?K ! x, ?V ! x)}" by simp
  show "la_stateSize s' = ?n" by (simp add: s')
qed

lemma lam_remove_abs:
  assumes s: "lam_wf s" "hashable k" "v \<noteq> NULL_LONG"
  shows "\<exists>s'. lam_remove_state k v s = Inr s' \<and> lam_wf s' \<and> lam_abs s' = lam_abs s - {(k, v)}"
proof -
  note l = lam_wf_lengths [OF s(1)]
  let ?b = "slot_of longHash (la_stateSize s) k" and ?own = "\<lambda>i. slot_of longHash (la_stateSize s) (la_elementK s ! i)"
  let ?P = "\<lambda>x. la_elementK s ! x = k \<and> la_elementV s ! x = v"
  have b: "?b < length (la_elementHash s)" using lam_hash(2) [OF s(1,2)] l by simp
  obtain xs j where xs: "path (la_elementNext s) (la_elementHash s ! ?b) xs j" "j < 0"
    "set xs = {i \<in> lam_live s. ?own i = ?b}"
    by (rule bucketsD [OF lam_wf_buckets [OF s(1)] b])
  have sub: "set xs \<subseteq> lam_live s" using xs(3) by auto
  have r: "lam_remove_state k v s = of_loop (case List.extract ?P xs of None \<Rightarrow> Some s
     | Some (us, x, vs) \<Rightarrow> Some (lam_unlink (int ?b) (if us = [] then -1 else int (last us)) (int x) s))"
    using b lam_hash(1) [OF s(1,2)] lam_remove_loop [OF xs(1,2) s(1) sub] by (simp add: lam_remove_state_def)
  show ?thesis
  proof (cases "List.extract ?P xs")
    case None
    then have "\<forall>x \<in> set xs. \<not> ?P x" by (auto simp: extract_None_iff)
    then have "(k, v) \<notin> lam_abs s" using xs(3) by (auto simp: lam_abs_def)
    then show ?thesis using r None s(1) by simp
  next
    case (Some y)
    obtain us x vs where y: "y = (us, x, vs)" by (cases y)
    then have e: "xs = us @ x # vs" "?P x" using Some by (auto dest: extract_SomeE)
    then have "x \<in> set xs" "us = [] \<or> last us \<in> set xs" by auto
    then have x: "x \<in> lam_live s" "us = [] \<or> last us \<in> lam_live s" "?own x = ?b"
      using xs(3) by blast+
    have "path (la_elementNext s) (la_elementHash s ! ?own x) (us @ x # vs) j" using xs(1) e x(3) by simp
    from lam_unlink [OF s(1) refl this xs(2) x(1,2)] show ?thesis using r Some y e(2) x(3) by simp
  qed
qed

subsection \<open>Objects\<close>

lemma lam_grow:
  assumes "mo_state m < length st" "lam_wf (st ! mo_state m)" "2 * la_stateSize (st ! mo_state m) < 2 ^ 31"
  shows "\<exists>st' m'. lam_grow (st, m) = Inr (st', m') \<and> mo_state m' < length st' \<and> (\<forall>r < length st. st' ! r = st ! r)
    \<and> lam_wf (st' ! mo_state m') \<and> lam_abs (st' ! mo_state m') = lam_abs (st ! mo_state m)
    \<and> la_elementCount (st' ! mo_state m') < int (la_stateSize (st' ! mo_state m'))
    \<and> mo_aligned m' = mo_aligned m \<and> mo_listener m' = mo_listener m \<and> length st \<le> length st'"
proof (cases "4 * (la_elementCount (st ! mo_state m) + 1) > 3 * int (la_stateSize (st ! mo_state m))")
  case True
  let ?s = "st ! mo_state m"
  obtain s' where s': "lam_rehash ?s = Inr s'" "lam_wf s'" "lam_abs s' = lam_abs ?s" "la_stateSize s' = 2 * la_stateSize ?s"
    "la_elementCount s' = la_elementCount ?s"
    using lam_rehash [OF assms(2,3)] by blast
  have "lam_live ?s \<subseteq> {0..<la_stateSize ?s}" using lam_live_bound by auto
  from card_mono [OF _ this] have "la_elementCount ?s \<le> int (la_stateSize ?s)" using assms(2) by (simp add: lam_wf_def)
  then show ?thesis using True s' lam_wf_lengths(5) [OF assms(2)]
    by (intro exI [of _ "st @ [s']"] exI [of _ "m\<lparr>mo_state := length st\<rparr>"]) (simp add: lam_grow_def nth_append)
next
  case False
  then show ?thesis using assms by (intro exI [of _ st] exI [of _ m]) (simp add: lam_grow_def)
qed

text \<open>What \<open>mo_align\<close> does to a map with a well-formed state.\<close>

lemma lam_align:
  assumes "mo_state m < length st" "lam_wf (st ! mo_state m)" "mo_align lam_clone (st, m) = (st', m')"
  shows "mo_state m' < length st'" "st' ! mo_state m' = st ! mo_state m" "\<forall>r < length st. st' ! r = st ! r"
    "mo_aligned m'" "mo_listener m' = mo_listener m" "mo_aligned m \<or> length st \<le> mo_state m'"
  using assms by (auto simp: mo_align_def lam_clone_same nth_append split: if_splits)

lemma lam_find:
  assumes "lam_wf s" "hashable k"
  shows "\<exists>f. chain_find (lam_pair_at k v s) (la_elementNext s)
      (rd (la_elementHash s) (Some (int (slot_of longHash (la_stateSize s) k)))) = Some f
    \<and> (0 \<le> f \<longleftrightarrow> v \<noteq> NULL_LONG \<and> (k, v) \<in> lam_abs s)"
proof -
  obtain f where f: "chain_find (lam_pair_at k v s) (la_elementNext s)
      (rd (la_elementHash s) (Some (int (slot_of longHash (la_stateSize s) k)))) = Some f"
    "if \<exists>i \<in> lam_live s. slot_of longHash (la_stateSize s) (la_elementK s ! i) = slot_of longHash (la_stateSize s) k
       \<and> lam_pair_at k v s (int i) then 0 \<le> f \<and> nat f \<in> lam_live s \<and> lam_pair_at k v s f else f = -1"
    using key_hash.table_find [OF lam_wf_table [OF assms(1)] assms(2) lam_wf_lengths(5) [OF assms(1)]] by blast
  have "lam_pair_at k v s (int i) \<longleftrightarrow> la_elementK s ! i = k \<and> la_elementV s ! i = v" if "i \<in> lam_live s" for i
    using that lam_pair_at [OF assms(1) lam_live_bound] by simp
  then have "(\<exists>i \<in> lam_live s. slot_of longHash (la_stateSize s) (la_elementK s ! i) = slot_of longHash (la_stateSize s) k
       \<and> lam_pair_at k v s (int i)) \<longleftrightarrow> v \<noteq> NULL_LONG \<and> (k, v) \<in> lam_abs s"
    by (auto simp: lam_abs_def lam_live_def)
  then show ?thesis using f by (auto split: if_splits)
qed

lemma lam_each_abs: "lam_wf s \<Longrightarrow> set (lam_each s) = (\<lambda>(k, v). (Some k, Some v)) ` lam_abs s"
proof -
  assume s: "lam_wf s"
  note l = lam_wf_lengths [OF s]
  have "filter (\<lambda>i. rd (la_elementV s) (Some (int i)) \<noteq> Some NULL_LONG) [0..<la_stateSize s]
      = filter (\<lambda>i. i \<in> lam_live s) [0..<la_stateSize s]"
    using l by (intro filter_cong) (auto simp: lam_live_def)
  moreover have "{i \<in> set [0..<la_stateSize s]. i \<in> lam_live s} = lam_live s" using lam_live_bound by auto
  ultimately have "set (lam_each s) = (\<lambda>i. (rd (la_elementK s) (Some (int i)), rd (la_elementV s) (Some (int i)))) ` lam_live s"
    by (simp add: lam_each_def)
  also have "\<dots> = (\<lambda>i. (Some (la_elementK s ! i), Some (la_elementV s ! i))) ` lam_live s"
    using l lam_live_bound by (intro image_cong) auto
  finally show ?thesis by (simp add: lam_abs_def image_image)
qed

text \<open>Property C21.
  \<open>put\<close> on a \<open>ArrayLongLongArrayMap\<close> adds the pair to the set of pairs, whatever the sharing: it never
  reports a full map, keeps the state well-formed, and through a copy leaves every existing state as
  it is.  The listener is told exactly when the pair is new (and a missing listener is a
  \<open>TypeError\<close> then).  After it, \<open>get\<close> returns the values of a key without repetition.\<close>

theorem lam_put_refines:
  assumes "mo_state m < length st" "lam_wf (st ! mo_state m)" "2 * la_stateSize (st ! mo_state m) < 2 ^ 31"
    and "hashable k" "v \<noteq> NULL_LONG"
  shows "\<exists>st' m' s'. lam_put k v (st, m) = ((st', m'), if (k, v) \<in> lam_abs (st ! mo_state m) then Inr False
        else if mo_listener m then Inr True else Inl TypeError)
    \<and> s' = st' ! mo_state m' \<and> lam_wf s' \<and> lam_abs s' = insert (k, v) (lam_abs (st ! mo_state m))
    \<and> (\<not> mo_aligned m \<longrightarrow> (\<forall>r < length st. st' ! r = st ! r))
    \<and> lam_size s' = int (card (lam_abs s')) \<and> set (lam_each s') = (\<lambda>(k, v). (Some k, Some v)) ` lam_abs s'
    \<and> (\<forall>k'. hashable k' \<longrightarrow> (\<exists>vs. lam_get k' s' = Inr (map Some vs) \<and> distinct vs \<and> set vs = {v. (k', v) \<in> lam_abs s'}))"
proof -
  obtain st1 m1 where g: "lam_grow (st, m) = Inr (st1, m1)" "mo_state m1 < length st1" "\<forall>r < length st. st1 ! r = st ! r"
    "lam_wf (st1 ! mo_state m1)" "lam_abs (st1 ! mo_state m1) = lam_abs (st ! mo_state m)"
    "la_elementCount (st1 ! mo_state m1) < int (la_stateSize (st1 ! mo_state m1))"
    "mo_aligned m1 = mo_aligned m" "mo_listener m1 = mo_listener m" "length st \<le> length st1"
    using lam_grow [OF assms(1-3)] by blast
  let ?s1 = "st1 ! mo_state m1"
  obtain f where f: "chain_find (lam_pair_at k v ?s1) (la_elementNext ?s1)
      (rd (la_elementHash ?s1) (Some (int (slot_of longHash (la_stateSize ?s1) k)))) = Some f"
    "0 \<le> f \<longleftrightarrow> (k, v) \<in> lam_abs (st ! mo_state m)"
    using lam_find [OF g(4) assms(4), of v] assms(5) g(5) by auto
  have reads: "lam_size s' = int (card (lam_abs s')) \<and> set (lam_each s') = (\<lambda>(k, v). (Some k, Some v)) ` lam_abs s'
    \<and> (\<forall>k'. hashable k' \<longrightarrow> (\<exists>vs. lam_get k' s' = Inr (map Some vs) \<and> distinct vs \<and> set vs = {v. (k', v) \<in> lam_abs s'}))"
    if "lam_wf s'" for s'
    using lam_get_abs [OF that] lam_each_abs [OF that] card_lam_abs [OF that] that by (simp add: lam_size_def lam_wf_def)
  show ?thesis
  proof (cases "(k, v) \<in> lam_abs (st ! mo_state m)")
    case True
    then have "lam_put k v (st, m) = ((st1, m1), Inr False)"
      using g(1) f lam_hash(1) [OF g(4) assms(4)] by (simp add: lam_put_def Let_def)
    then show ?thesis using True g reads [OF g(4)] by (intro exI [of _ st1] exI [of _ m1] exI [of _ ?s1]) auto
  next
    case False
    obtain st2 m2 where a: "mo_align lam_clone (st1, m1) = (st2, m2)" by (cases "mo_align lam_clone (st1, m1)")
    note al = lam_align [OF g(2,4) a]
    obtain s' where s': "lam_insert k v (int (slot_of longHash (la_stateSize ?s1) k)) ?s1 = Inr s'" "lam_wf s'"
      "lam_abs s' = insert (k, v) (lam_abs ?s1)"
      using lam_insert [OF g(4) assms(4) _ assms(5) g(6)] False g(5) by auto
    have "lam_put k v (st, m) = ((st2[mo_state m2 := s'], m2), if mo_listener m then Inr True else Inl TypeError)"
      using g(1,8) f False lam_hash(1) [OF g(4) assms(4)] a al(2,5) s'(1) by (simp add: lam_put_def Let_def)
    moreover have "\<forall>r < length st. st2[mo_state m2 := s'] ! r = st ! r" if "\<not> mo_aligned m"
      using that al(3,6) g(3,7,9) by auto
    ultimately show ?thesis using False al(1) g(5) s' reads [OF s'(2)]
      by (intro exI [of _ "st2[mo_state m2 := s']"] exI [of _ m2] exI [of _ s']) auto
  qed
qed

theorem lam_put_refines_witness:
  "\<exists>st' m'. lam_put 1 7 ([lam_new 16], \<lparr>mo_listener = True, mo_state = 0, mo_aligned = False\<rparr>) = ((st', m'), Inr True)
     \<and> lam_abs (st' ! mo_state m') = {(1, 7)} \<and> st' ! 0 = lam_new 16"
proof -
  have n: "lam_wf (lam_new 16)" "lam_abs (lam_new 16) = {}" using lam_new_wf [of 16] by simp_all
  moreover have "2 * la_stateSize (lam_new 16) < 2 ^ 31" by (simp add: lam_new_def)
  ultimately show ?thesis
    using lam_put_refines [of "\<lparr>mo_listener = True, mo_state = 0, mo_aligned = False\<rparr>" "[lam_new 16]" 1 7] hashable_1
    by (auto simp: NULL_LONG_def)
qed

text \<open>Further fact.
  \<open>remove\<close> on a \<open>ArrayLongLongArrayMap\<close> takes the pair out of the set of pairs (nothing happens when
  it is absent) and returns the slot to the free list.  Unlike \<open>put\<close> it never aligns: through a copy
  it takes the pair out of the state of the origin, in place.\<close>

theorem lam_remove_refines:
  assumes "mo_state m < length st" "lam_wf (st ! mo_state m)" "hashable k" "v \<noteq> NULL_LONG"
  shows "\<exists>s'. lam_remove k v (st, m) = ((st[mo_state m := s'], m), Inr ())
    \<and> lam_remove k v (st, mo_copy l m) = ((st[mo_state m := s'], mo_copy l m), Inr ())
    \<and> lam_wf s' \<and> lam_abs s' = lam_abs (st ! mo_state m) - {(k, v)}"
proof -
  obtain s' where "lam_remove_state k v (st ! mo_state m) = Inr s'" "lam_wf s'"
    "lam_abs s' = lam_abs (st ! mo_state m) - {(k, v)}"
    using lam_remove_abs [OF assms(2-4)] by blast
  then show ?thesis by (intro exI [of _ s']) (simp add: lam_remove_def mo_copy_def)
qed

theorem lam_remove_refines_witness:
  "\<exists>s s'. lam_abs s = {(1, 7)} \<and> lam_abs s' = {} \<and> fst (lam_remove 1 7
     ([s], mo_copy True \<lparr>mo_listener = True, mo_state = 0, mo_aligned = True\<rparr>))
     = ([s'], mo_copy True \<lparr>mo_listener = True, mo_state = 0, mo_aligned = True\<rparr>)"
proof -
  let ?m = "\<lparr>mo_listener = True, mo_state = 0, mo_aligned = True\<rparr>"
  have n: "lam_wf (lam_new 16)" "lam_abs (lam_new 16) = {}" using lam_new_wf [of 16] by simp_all
  then obtain s where s: "lam_wf s" "lam_abs s = {(1, 7)}"
    using lam_insert [OF n(1) hashable_1, of 7] by (auto simp: NULL_LONG_def lam_new_def)
  with lam_remove_refines [of ?m "[s]" 1 7 True] hashable_1 obtain s'
    where "lam_remove 1 7 ([s], mo_copy True ?m) = (([s'], mo_copy True ?m), Inr ())" "lam_abs s' = {}"
    by (auto simp: NULL_LONG_def)
  then show ?thesis using s(2) by (intro exI [of _ s] exI [of _ s']) simp
qed

end
