(* ===== verification/TimeTree.thy ===== *)
theory TimeTree
  imports MapObject
begin

text \<open>
  \<open>HeapTimeTreeChunk\<close>, the ordered set of the times of a node in a world: a red-black tree in three
  arrays (keys, links, colours), with its chunk state.  This theory holds the definitions; the
  invariant is in \<open>TimeTreeShape\<close> and \<open>TimeTreeSpec\<close>, the payload and the properties in \<open>TimeTreeChunk\<close>.
\<close>

subsection \<open>The state\<close>

text \<open>
  \<open>tt_alloc\<close> is false while the three arrays are undefined.  \<open>tt_capacity\<close> stands for the
  threshold, which is three quarters of it.
\<close>

record time_tree =
  tt_world :: int
  tt_time :: int
  tt_id :: int
  tt_flags :: int
  tt_marks :: int
  tt_magic :: int
  tt_listener :: bool
  tt_root :: jsnum
  tt_size :: nat
  tt_capacity :: nat
  tt_alloc :: bool
  tt_k :: "int list"
  tt_meta :: "int list"
  tt_colors :: "bool option list"

definition new_time_tree :: "int \<Rightarrow> int \<Rightarrow> int \<Rightarrow> bool \<Rightarrow> time_tree" where
  "new_time_tree world time obj listener =
     \<lparr>tt_world = world, tt_time = time, tt_id = obj, tt_flags = 0, tt_marks = 0, tt_magic = 0,
      tt_listener = listener, tt_root = Some (-1), tt_size = 0, tt_capacity = 0, tt_alloc = False,
      tt_k = [], tt_meta = [], tt_colors = []\<rparr>"

definition tt_mark :: "time_tree \<Rightarrow> time_tree \<times> int" where
  "tt_mark s = (let s = s\<lparr>tt_marks := tt_marks s + 1\<rparr> in (s, tt_marks s))"

definition tt_unmark :: "time_tree \<Rightarrow> time_tree \<times> int" where
  "tt_unmark s = (let s = s\<lparr>tt_marks := tt_marks s - 1\<rparr> in (s, tt_marks s))"

text \<open>\<open>val & ~bitsToDisable | bitsToEnable\<close> on 32-bit numbers; the result is whether the flags changed.\<close>

definition chunk_setFlags :: "int \<Rightarrow> int \<Rightarrow> int \<Rightarrow> int \<times> bool" where
  "chunk_setFlags val bitsToEnable bitsToDisable =
     (let nval = js_or (js_and val (js_not bitsToDisable)) bitsToEnable in (nval, val \<noteq> nval))"

definition tt_setFlags :: "int \<Rightarrow> int \<Rightarrow> time_tree \<Rightarrow> time_tree \<times> bool" where
  "tt_setFlags bitsToEnable bitsToDisable s =
     (let (nval, changed) = chunk_setFlags (tt_flags s) bitsToEnable bitsToDisable in (s\<lparr>tt_flags := nval\<rparr>, changed))"

text \<open>The result says whether the listener's \<open>declareDirty\<close> was called.\<close>

definition tt_set_dirty :: "time_tree \<Rightarrow> time_tree \<times> bool" where
  "tt_set_dirty s = (s\<lparr>tt_magic := tt_magic s + 1\<rparr>, tt_listener s \<and> js_and (tt_flags s) 1 \<noteq> 1)"

definition tt_allocate :: "nat \<Rightarrow> time_tree \<Rightarrow> time_tree" where
  "tt_allocate capacity s = s\<lparr>tt_meta := replicate (capacity * 3) 0, tt_k := replicate capacity 0,
     tt_colors := [], tt_capacity := capacity, tt_alloc := True\<rparr>"

text \<open>
  The colours are a JavaScript array: the copied ones, then \<open>false\<close>; they are an empty array when there
  were none.  The new links are -1, or zero when there were no arrays before.
\<close>

definition tt_reallocate :: "nat \<Rightarrow> time_tree \<Rightarrow> time_tree" where
  "tt_reallocate newCapacity s =
     (if tt_alloc s then
        s\<lparr>tt_capacity := newCapacity,
          tt_k := grown 0 (tt_size s) newCapacity (tt_k s),
          tt_colors := map (\<lambda>i. Option.bind (rd (tt_colors s) (Some (int i))) (\<lambda>c. c)) [0..<tt_size s]
             @ replicate (newCapacity - tt_size s) (Some False),
          tt_meta := take (tt_size s * 3) (grown 0 (tt_size s * 3) (newCapacity * 3) (tt_meta s))
             @ replicate (newCapacity * 3 - tt_size s * 3) (-1)\<rparr>
      else
        s\<lparr>tt_capacity := newCapacity, tt_alloc := True, tt_k := replicate newCapacity 0, tt_colors := [],
          tt_meta := replicate (newCapacity * 3) 0\<rparr>)"

subsection \<open>Nodes\<close>

definition tt_key :: "time_tree \<Rightarrow> jsnum \<Rightarrow> jsnum" where
  "tt_key s p = (if p = Some (-1) then Some (-1) else rd (tt_k s) p)"

definition tt_setKey :: "jsnum \<Rightarrow> int \<Rightarrow> time_tree \<Rightarrow> time_tree" where
  "tt_setKey p v s = s\<lparr>tt_k := wr (tt_k s) p v\<rparr>"

definition meta_index :: "jsnum \<Rightarrow> int \<Rightarrow> jsnum" where
  "meta_index p k = map_option (\<lambda>j. j * 3 + k) p"

definition tt_left :: "time_tree \<Rightarrow> jsnum \<Rightarrow> jsnum" where
  "tt_left s p = (if p = Some (-1) then Some (-1) else rd (tt_meta s) (meta_index p 0))"

definition tt_right :: "time_tree \<Rightarrow> jsnum \<Rightarrow> jsnum" where
  "tt_right s p = (if p = Some (-1) then Some (-1) else rd (tt_meta s) (meta_index p 1))"

definition tt_parent :: "time_tree \<Rightarrow> jsnum \<Rightarrow> jsnum" where
  "tt_parent s p = (if p = Some (-1) then Some (-1) else rd (tt_meta s) (meta_index p 2))"

definition tt_setLeft :: "jsnum \<Rightarrow> jsnum \<Rightarrow> time_tree \<Rightarrow> time_tree" where
  "tt_setLeft p v s = s\<lparr>tt_meta := wrn (tt_meta s) (meta_index p 0) v\<rparr>"

definition tt_setRight :: "jsnum \<Rightarrow> jsnum \<Rightarrow> time_tree \<Rightarrow> time_tree" where
  "tt_setRight p v s = s\<lparr>tt_meta := wrn (tt_meta s) (meta_index p 1) v\<rparr>"

definition tt_setParent :: "jsnum \<Rightarrow> jsnum \<Rightarrow> time_tree \<Rightarrow> time_tree" where
  "tt_setParent p v s = s\<lparr>tt_meta := wrn (tt_meta s) (meta_index p 2) v\<rparr>"

text \<open>\<open>true\<close> is black; an undefined colour is only tested with \<open>!\<close>, which takes it for red.\<close>

definition tt_color :: "time_tree \<Rightarrow> jsnum \<Rightarrow> bool" where
  "tt_color s p = (p = Some (-1) \<or> rd (tt_colors s) p = Some (Some True))"

definition tt_setColor :: "jsnum \<Rightarrow> bool \<Rightarrow> time_tree \<Rightarrow> time_tree" where
  "tt_setColor p v s = s\<lparr>tt_colors := wr_js (tt_colors s) p v\<rparr>"

definition tt_grandParent :: "time_tree \<Rightarrow> jsnum \<Rightarrow> jsnum" where
  "tt_grandParent s p =
     (if p = Some (-1) then Some (-1)
      else if tt_parent s p \<noteq> Some (-1) then tt_parent s (tt_parent s p) else Some (-1))"

definition tt_sibling :: "time_tree \<Rightarrow> jsnum \<Rightarrow> jsnum" where
  "tt_sibling s p =
     (if tt_parent s p = Some (-1) then Some (-1)
      else if p = tt_left s (tt_parent s p) then tt_right s (tt_parent s p)
      else tt_left s (tt_parent s p))"

definition tt_uncle :: "time_tree \<Rightarrow> jsnum \<Rightarrow> jsnum" where
  "tt_uncle s p = (if tt_parent s p \<noteq> Some (-1) then tt_sibling s (tt_parent s p) else Some (-1))"

subsection \<open>Search\<close>

text \<open>\<open>while (right(p) != -1) p = right(p)\<close>\<close>

partial_function (option) tt_rightmost :: "time_tree \<Rightarrow> jsnum \<Rightarrow> jsnum option" where
  "tt_rightmost s p = (if tt_right s p \<noteq> Some (-1) then tt_rightmost s (tt_right s p) else Some p)"

text \<open>\<open>while (parent != -1 && ch == left(parent)) { ch = parent; parent = parent(parent); }\<close>\<close>

partial_function (option) tt_climb :: "time_tree \<Rightarrow> jsnum \<Rightarrow> jsnum \<Rightarrow> jsnum option" where
  "tt_climb s ch par =
     (if par \<noteq> Some (-1) \<and> ch = tt_left s par then tt_climb s par (tt_parent s par) else Some par)"

definition tt_previous :: "jsnum \<Rightarrow> time_tree \<Rightarrow> jsnum option" where
  "tt_previous p s =
     (if tt_left s p \<noteq> Some (-1) then tt_rightmost s (tt_left s p)
      else if tt_parent s p \<noteq> Some (-1)
      then (if p = tt_right s (tt_parent s p) then Some (tt_parent s p) else tt_climb s p (tt_parent s p))
      else Some (Some (-1)))"

partial_function (option) tt_search :: "int \<Rightarrow> time_tree \<Rightarrow> jsnum \<Rightarrow> jsnum option" where
  "tt_search key s p =
     (if p = Some (-1) then Some (Some (-1))
      else case tt_key s p of
        None \<Rightarrow> if tt_left s p \<noteq> Some (-1) then tt_search key s (tt_left s p) else tt_climb s p (tt_parent s p)
      | Some k \<Rightarrow>
          if key = k then Some p
          else if key > k
          then (if tt_right s p \<noteq> Some (-1) then tt_search key s (tt_right s p) else Some p)
          else if tt_left s p \<noteq> Some (-1) then tt_search key s (tt_left s p)
          else tt_climb s p (tt_parent s p))"

declare tt_rightmost.simps [code] tt_climb.simps [code] tt_search.simps [code]

definition internal_previousOrEqual_index :: "int \<Rightarrow> time_tree \<Rightarrow> jsnum option" where
  "internal_previousOrEqual_index key s = tt_search key s (tt_root s)"

definition tt_previousOrEqual :: "int \<Rightarrow> time_tree \<Rightarrow> jsnum result" where
  "tt_previousOrEqual key s =
     bindr (of_loop (internal_previousOrEqual_index key s)) (\<lambda>r.
       Inr (if r \<noteq> Some (-1) then tt_key s r else Some NULL_LONG))"

text \<open>\<open>range\<close>: the keys passed to the walker.\<close>

partial_function (option) tt_range_loop :: "int \<Rightarrow> int \<Rightarrow> time_tree \<Rightarrow> int \<Rightarrow> jsnum \<Rightarrow> jsnum list option" where
  "tt_range_loop startKey maxElements s nbElements indexEnd =
     (if indexEnd \<noteq> Some (-1) \<and> (case tt_key s indexEnd of None \<Rightarrow> False | Some k \<Rightarrow> k \<ge> startKey) \<and> nbElements < maxElements
      then Option.bind (tt_previous indexEnd s) (\<lambda>prev.
           Option.bind (tt_range_loop startKey maxElements s (nbElements + 1) prev) (\<lambda>ks.
             Some (tt_key s indexEnd # ks)))
      else Some [])"

declare tt_range_loop.simps [code]

definition tt_range :: "int \<Rightarrow> int \<Rightarrow> int \<Rightarrow> time_tree \<Rightarrow> jsnum list result" where
  "tt_range startKey endKey maxElements s =
     bindr (of_loop (internal_previousOrEqual_index endKey s)) (\<lambda>indexEnd.
       of_loop (tt_range_loop startKey maxElements s 0 indexEnd))"

subsection \<open>Rotations and insertion\<close>

definition tt_replaceNode :: "jsnum \<Rightarrow> jsnum \<Rightarrow> time_tree \<Rightarrow> time_tree" where
  "tt_replaceNode oldn newn s =
     (let s = (if tt_parent s oldn = Some (-1) then s\<lparr>tt_root := newn\<rparr>
               else if oldn = tt_left s (tt_parent s oldn) then tt_setLeft (tt_parent s oldn) newn s
               else tt_setRight (tt_parent s oldn) newn s)
      in if newn \<noteq> Some (-1) then tt_setParent newn (tt_parent s oldn) s else s)"

definition tt_rotateLeft :: "jsnum \<Rightarrow> time_tree \<Rightarrow> time_tree" where
  "tt_rotateLeft n s =
     (let r = tt_right s n;
          s = tt_replaceNode n r s;
          s = tt_setRight n (tt_left s r) s;
          s = (if tt_left s r \<noteq> Some (-1) then tt_setParent (tt_left s r) n s else s);
          s = tt_setLeft r n s
      in tt_setParent n r s)"

definition tt_rotateRight :: "jsnum \<Rightarrow> time_tree \<Rightarrow> time_tree" where
  "tt_rotateRight n s =
     (let l = tt_left s n;
          s = tt_replaceNode n l s;
          s = tt_setLeft n (tt_right s l) s;
          s = (if tt_right s l \<noteq> Some (-1) then tt_setParent (tt_right s l) n s else s);
          s = tt_setRight l n s
      in tt_setParent n l s)"

definition insertCase5 :: "jsnum \<Rightarrow> time_tree \<Rightarrow> time_tree" where
  "insertCase5 n s =
     (let s = tt_setColor (tt_parent s n) True s;
          s = tt_setColor (tt_grandParent s n) False s
      in if n = tt_left s (tt_parent s n) \<and> tt_parent s n = tt_left s (tt_grandParent s n)
         then tt_rotateRight (tt_grandParent s n) s
         else tt_rotateLeft (tt_grandParent s n) s)"

definition insertCase4 :: "jsnum \<Rightarrow> time_tree \<Rightarrow> time_tree" where
  "insertCase4 n s =
     (if n = tt_right s (tt_parent s n) \<and> tt_parent s n = tt_left s (tt_grandParent s n)
      then let s = tt_rotateLeft (tt_parent s n) s in insertCase5 (tt_left s n) s
      else if n = tt_left s (tt_parent s n) \<and> tt_parent s n = tt_right s (tt_grandParent s n)
      then let s = tt_rotateRight (tt_parent s n) s in insertCase5 (tt_right s n) s
      else insertCase5 n s)"

text \<open>\<open>insertCase1\<close>, with the cases 2 and 3, which only it calls.\<close>

partial_function (option) insertCase1 :: "jsnum \<Rightarrow> time_tree \<Rightarrow> time_tree option" where
  "insertCase1 n s =
     (if tt_parent s n = Some (-1) then Some (tt_setColor n True s)
      else if tt_color s (tt_parent s n) then Some s
      else if \<not> tt_color s (tt_uncle s n)
      then let s = tt_setColor (tt_parent s n) True s;
               s = tt_setColor (tt_uncle s n) True s;
               s = tt_setColor (tt_grandParent s n) False s
           in insertCase1 (tt_grandParent s n) s
      else Some (insertCase4 n s))"

definition new_node :: "jsnum \<Rightarrow> int \<Rightarrow> time_tree \<Rightarrow> time_tree" where
  "new_node i key s =
     tt_setParent i (Some (-1)) (tt_setRight i (Some (-1)) (tt_setLeft i (Some (-1)) (tt_setColor i False (tt_setKey i key s))))"

text \<open>
  The loop of \<open>internal_insert\<close>: \<open>Some None\<close> when the key is there, else the state with the new node
  linked below \<open>n\<close> and \<open>n\<close>.  An undefined key compares false.
\<close>

partial_function (option) tt_insert_loop :: "int \<Rightarrow> jsnum \<Rightarrow> time_tree \<Rightarrow> jsnum \<Rightarrow> (time_tree \<times> jsnum) option option" where
  "tt_insert_loop key newIndex s n =
     (if tt_key s n = Some key then Some None
      else if (case tt_key s n of None \<Rightarrow> False | Some k \<Rightarrow> key < k)
      then (if tt_left s n = Some (-1)
            then let s = tt_setLeft n newIndex (new_node newIndex key s) in Some (Some (s\<lparr>tt_size := tt_size s + 1\<rparr>, n))
            else tt_insert_loop key newIndex s (tt_left s n))
      else (if tt_right s n = Some (-1)
            then let s = tt_setRight n newIndex (new_node newIndex key s) in Some (Some (s\<lparr>tt_size := tt_size s + 1\<rparr>, n))
            else tt_insert_loop key newIndex s (tt_right s n)))"

declare insertCase1.simps [code] tt_insert_loop.simps [code]

definition tt_grow :: "time_tree \<Rightarrow> time_tree" where
  "tt_grow s = (if 4 * (tt_size s + 1) > 3 * tt_capacity s
     then tt_reallocate (if tt_size s = 0 then 1 else tt_size s * 2) s else s)"

definition internal_insert :: "int \<Rightarrow> time_tree \<Rightarrow> (time_tree \<times> bool) result" where
  "internal_insert key s =
     (let s = tt_grow s;
          newIndex = Some (int (tt_size s))
      in if tt_size s = 0
         then bindr (of_loop (insertCase1 newIndex ((new_node newIndex key s)\<lparr>tt_root := newIndex, tt_size := 1\<rparr>)))
                (\<lambda>s. Inr (s, True))
         else bindr (of_loop (tt_insert_loop key newIndex s (tt_root s))) (\<lambda>r.
                case r of
                  None \<Rightarrow> Inr (s, False)
                | Some (s, n) \<Rightarrow> bindr (of_loop (insertCase1 newIndex (tt_setParent newIndex n s))) (\<lambda>s. Inr (s, True))))"

text \<open>\<open>insert\<close>: the result is whether the listener was told.\<close>

definition tt_insert :: "int \<Rightarrow> time_tree \<Rightarrow> (time_tree \<times> bool) result" where
  "tt_insert key s = bindr (internal_insert key s) (\<lambda>(s, toSetDirty).
     Inr (if toSetDirty then tt_set_dirty s else (s, False)))"

definition tt_unsafe_insert :: "int \<Rightarrow> time_tree \<Rightarrow> time_tree result" where
  "tt_unsafe_insert key s = bindr (internal_insert key s) (\<lambda>(s, _). Inr s)"

text \<open>\<open>clearAt\<close> reads the length of the key array, so it throws before the first insertion.\<close>

fun tt_clear_loop :: "int \<Rightarrow> int list \<Rightarrow> time_tree \<Rightarrow> time_tree result" where
  "tt_clear_loop mx [] s = Inr s"
| "tt_clear_loop mx (k # ks) s =
     (if k \<noteq> NULL_LONG \<and> k < mx then bindr (internal_insert k s) (\<lambda>(s, _). tt_clear_loop mx ks s)
      else tt_clear_loop mx ks s)"

definition tt_clearAt :: "int \<Rightarrow> time_tree \<Rightarrow> (time_tree \<times> bool) result" where
  "tt_clearAt mx s =
     (if \<not> tt_alloc s then Inl TypeError
      else let previousValue = tt_k s;
               s' = s\<lparr>tt_k := replicate (length (tt_k s)) 0, tt_meta := replicate (length (tt_k s) * 3) 0,
                      tt_colors := [], tt_root := Some (-1), tt_size := 0\<rparr>
           in bindr (tt_clear_loop mx (take (tt_size s) previousValue) s') (\<lambda>s. Inr (tt_set_dirty s)))"

end
