(* ===== verification/TimeTreeShape.thy ===== *)
theory TimeTreeShape
  imports TimeTree
begin

text \<open>
  The arrays of the time tree as a tree: the shape of the nodes (indices only; keys and colours are
  read from the arrays), the contexts of a node on its path to the root, and what the link
  operations (\<open>replaceNode\<close>, the rotations) do to them.
\<close>

subsection \<open>Links as functions of node numbers\<close>

definition tt_fits :: "time_tree \<Rightarrow> bool" where
  "tt_fits s \<longleftrightarrow> length (tt_meta s) = length (tt_k s) * 3"

abbreviation "tcap s \<equiv> length (tt_k s)"

definition LF :: "time_tree \<Rightarrow> nat \<Rightarrow> int" where "LF s i = tt_meta s ! (i * 3)"
definition RF :: "time_tree \<Rightarrow> nat \<Rightarrow> int" where "RF s i = tt_meta s ! (i * 3 + 1)"
definition PF :: "time_tree \<Rightarrow> nat \<Rightarrow> int" where "PF s i = tt_meta s ! (i * 3 + 2)"
definition CF :: "time_tree \<Rightarrow> nat \<Rightarrow> bool" where "CF s i = tt_color s (Some (int i))"

lemma nat_index: "nat (int i * 3) = i * 3" "nat (int i * 3 + 1) = i * 3 + 1" "nat (int i * 3 + 2) = i * 3 + 2"
  by simp_all

lemma tt_links [simp]:
  assumes "tt_fits s" "i < tcap s"
  shows "tt_left s (Some (int i)) = Some (LF s i)" "tt_right s (Some (int i)) = Some (RF s i)"
    "tt_parent s (Some (int i)) = Some (PF s i)"
  using assms by (simp_all add: tt_left_def tt_right_def tt_parent_def meta_index_def rd_def tt_fits_def
      LF_def RF_def PF_def nat_index)

lemma tt_links_nil [simp]:
  "tt_left s (Some (-1)) = Some (-1)" "tt_right s (Some (-1)) = Some (-1)" "tt_parent s (Some (-1)) = Some (-1)"
  "tt_color s (Some (-1))"
  by (simp_all add: tt_left_def tt_right_def tt_parent_def tt_color_def)

lemma tt_color_node [simp]: "tt_color s (Some (int i)) = CF s i"
  by (simp add: CF_def)

text \<open>The rest of the state, which the link operations leave alone.\<close>

definition same :: "time_tree \<Rightarrow> time_tree \<Rightarrow> bool" where
  "same s s' \<longleftrightarrow> s' = s\<lparr>tt_root := tt_root s', tt_meta := tt_meta s', tt_colors := tt_colors s'\<rparr>
     \<and> length (tt_meta s') = length (tt_meta s)"

lemma same_refl [simp]: "same s s"
  by (simp add: same_def)

lemma same_trans: "same s t \<Longrightarrow> same t u \<Longrightarrow> same s u"
  unfolding same_def by (cases s; cases t; cases u) simp

lemma same_sets [simp]:
  "same s (tt_setLeft p v s)" "same s (tt_setRight p v s)" "same s (tt_setParent p v s)" "same s (tt_setColor p c s)"
  "same s (s\<lparr>tt_root := r\<rparr>)"
  by (simp_all add: same_def tt_setLeft_def tt_setRight_def tt_setParent_def tt_setColor_def)

lemma sameD: "same s s' \<Longrightarrow> tt_k s' = tt_k s \<and> tt_size s' = tt_size s \<and> (tt_fits s' \<longleftrightarrow> tt_fits s)"
  unfolding same_def tt_fits_def by (cases s; cases s') simp

lemma tt_k_sets [simp]:
  "tt_k (tt_setLeft p v s) = tt_k s" "tt_k (tt_setRight p v s) = tt_k s" "tt_k (tt_setParent p v s) = tt_k s"
  "tt_k (tt_setColor p c s) = tt_k s"
  by (simp_all add: tt_setLeft_def tt_setRight_def tt_setParent_def tt_setColor_def)

lemma tt_root_sets [simp]:
  "tt_root (tt_setLeft p v s) = tt_root s" "tt_root (tt_setRight p v s) = tt_root s"
  "tt_root (tt_setParent p v s) = tt_root s" "tt_root (tt_setColor p c s) = tt_root s"
  by (simp_all add: tt_setLeft_def tt_setRight_def tt_setParent_def tt_setColor_def)

lemma tt_fits_sets [simp]:
  "tt_fits (tt_setLeft p v s) = tt_fits s" "tt_fits (tt_setRight p v s) = tt_fits s"
  "tt_fits (tt_setParent p v s) = tt_fits s" "tt_fits (tt_setColor p c s) = tt_fits s"
  "tt_fits (s\<lparr>tt_root := r\<rparr>) = tt_fits s"
  by (simp_all add: tt_fits_def tt_setLeft_def tt_setRight_def tt_setParent_def tt_setColor_def)

lemma set_index: "tt_fits s \<Longrightarrow> i < tcap s \<Longrightarrow> k < 3 \<Longrightarrow>
    wrn (tt_meta s) (meta_index (Some (int i)) (int k)) (Some x) = (tt_meta s)[i * 3 + k := x]"
  by (simp add: meta_index_def wr_def tt_fits_def nat_add_distrib nat_mult_distrib)

lemma links_sets [simp]:
  assumes "tt_fits s" "i < tcap s"
  shows "LF (tt_setLeft (Some (int i)) (Some x) s) j = (if j = i then x else LF s j)"
    "RF (tt_setLeft (Some (int i)) (Some x) s) j = RF s j" "PF (tt_setLeft (Some (int i)) (Some x) s) j = PF s j"
    "LF (tt_setRight (Some (int i)) (Some x) s) j = LF s j"
    "RF (tt_setRight (Some (int i)) (Some x) s) j = (if j = i then x else RF s j)"
    "PF (tt_setRight (Some (int i)) (Some x) s) j = PF s j"
    "LF (tt_setParent (Some (int i)) (Some x) s) j = LF s j" "RF (tt_setParent (Some (int i)) (Some x) s) j = RF s j"
    "PF (tt_setParent (Some (int i)) (Some x) s) j = (if j = i then x else PF s j)"
proof -
  have l: "i * 3 < length (tt_meta s)" "i * 3 + 1 < length (tt_meta s)" "i * 3 + 2 < length (tt_meta s)"
    using assms by (simp_all add: tt_fits_def)
  have n: "i * 3 + a \<noteq> j * 3 + b" if "a < 3" "b < 3" "a \<noteq> b" for a b
  proof
    assume "i * 3 + a = j * 3 + b"
    then have "(i * 3 + a) mod 3 = (j * 3 + b) mod 3" by simp
    then show False using that by (simp add: mod_mult_self2)
  qed
  note w = set_index [OF assms, of 0 x] set_index [OF assms, of 1 x] set_index [OF assms, of 2 x]
  show "LF (tt_setLeft (Some (int i)) (Some x) s) j = (if j = i then x else LF s j)"
    "RF (tt_setLeft (Some (int i)) (Some x) s) j = RF s j" "PF (tt_setLeft (Some (int i)) (Some x) s) j = PF s j"
    "LF (tt_setRight (Some (int i)) (Some x) s) j = LF s j"
    "RF (tt_setRight (Some (int i)) (Some x) s) j = (if j = i then x else RF s j)"
    "PF (tt_setRight (Some (int i)) (Some x) s) j = PF s j"
    "LF (tt_setParent (Some (int i)) (Some x) s) j = LF s j" "RF (tt_setParent (Some (int i)) (Some x) s) j = RF s j"
    "PF (tt_setParent (Some (int i)) (Some x) s) j = (if j = i then x else PF s j)"
    using w l n [of 0 1] n [of 0 2] n [of 1 0] n [of 1 2] n [of 2 0] n [of 2 1]
    by (simp_all add: tt_setLeft_def tt_setRight_def tt_setParent_def LF_def RF_def PF_def nth_list_update)
qed

lemma links_color [simp]:
  "LF (tt_setColor p c s) = LF s" "RF (tt_setColor p c s) = RF s" "PF (tt_setColor p c s) = PF s"
  "LF (s\<lparr>tt_root := r\<rparr>) = LF s" "RF (s\<lparr>tt_root := r\<rparr>) = RF s" "PF (s\<lparr>tt_root := r\<rparr>) = PF s"
  by (simp_all add: fun_eq_iff tt_setColor_def LF_def RF_def PF_def)

lemma CF_sets [simp]:
  "CF (tt_setLeft p v s) = CF s" "CF (tt_setRight p v s) = CF s" "CF (tt_setParent p v s) = CF s"
  "CF (s\<lparr>tt_root := r\<rparr>) = CF s"
  by (simp_all add: fun_eq_iff CF_def tt_color_def tt_setLeft_def tt_setRight_def tt_setParent_def)

lemma CF_setColor [simp]: "CF (tt_setColor (Some (int i)) c s) j = (if j = i then c else CF s j)"
  by (auto simp: CF_def tt_color_def tt_setColor_def wr_js_def rd_def nth_append nth_list_update nth_Cons')

subsection \<open>Shapes and contexts\<close>

datatype shape = Lf | Nd shape nat shape

fun ptr :: "shape \<Rightarrow> int" where
  "ptr Lf = -1"
| "ptr (Nd l i r) = int i"

fun ino :: "shape \<Rightarrow> nat list" where
  "ino Lf = []"
| "ino (Nd l i r) = ino l @ i # ino r"

fun linked :: "time_tree \<Rightarrow> shape \<Rightarrow> int \<Rightarrow> bool" where
  "linked s Lf par = True"
| "linked s (Nd l i r) par =
     (i < tcap s \<and> LF s i = ptr l \<and> RF s i = ptr r \<and> PF s i = par \<and> linked s l (int i) \<and> linked s r (int i))"

text \<open>A frame of a context: the hole is the left (\<open>FL\<close>) or the right (\<open>FR\<close>) child of its node.\<close>

datatype frame = FL nat shape | FR shape nat

fun fnode :: "frame \<Rightarrow> nat" where
  "fnode (FL i r) = i"
| "fnode (FR l i) = i"

fun cptr :: "frame list \<Rightarrow> int" where
  "cptr [] = -1"
| "cptr (f # c) = int (fnode f)"

fun linked_ctx :: "time_tree \<Rightarrow> frame list \<Rightarrow> int \<Rightarrow> bool" where
  "linked_ctx s [] p = (tt_root s = Some p)"
| "linked_ctx s (FL i r # c) p = (i < tcap s \<and> LF s i = p \<and> RF s i = ptr r \<and> PF s i = cptr c
     \<and> linked s r (int i) \<and> linked_ctx s c (int i))"
| "linked_ctx s (FR l i # c) p = (i < tcap s \<and> LF s i = ptr l \<and> RF s i = p \<and> PF s i = cptr c
     \<and> linked s l (int i) \<and> linked_ctx s c (int i))"

fun plug :: "frame list \<Rightarrow> shape \<Rightarrow> shape" where
  "plug [] t = t"
| "plug (FL i r # c) t = plug c (Nd t i r)"
| "plug (FR l i # c) t = plug c (Nd l i t)"

fun cleft :: "frame list \<Rightarrow> nat list" where
  "cleft [] = []"
| "cleft (FL i r # c) = cleft c"
| "cleft (FR l i # c) = cleft c @ ino l @ [i]"

fun cright :: "frame list \<Rightarrow> nat list" where
  "cright [] = []"
| "cright (FL i r # c) = i # ino r @ cright c"
| "cright (FR l i # c) = cright c"

abbreviation cnodes :: "frame list \<Rightarrow> nat set" where
  "cnodes c \<equiv> set (cleft c) \<union> set (cright c)"

lemma ino_plug: "ino (plug c t) = cleft c @ ino t @ cright c"
  by (induction c t rule: plug.induct) simp_all

lemma linked_plug:
  "linked s (plug c t) (-1) \<and> tt_root s = Some (ptr (plug c t)) \<longleftrightarrow> linked s t (cptr c) \<and> linked_ctx s c (ptr t)"
  by (induction c t rule: plug.induct) auto

lemma ptr_notin: "i \<notin> set (ino t) \<Longrightarrow> ptr t \<noteq> int i"
  by (cases t) auto

lemma ptr_Lf [simp]: "ptr t = -1 \<longleftrightarrow> t = Lf"
  by (cases t) auto

text \<open>The links of a subtree depend only on the entries of its nodes.\<close>

definition agree :: "nat set \<Rightarrow> time_tree \<Rightarrow> time_tree \<Rightarrow> bool" where
  "agree A s s' \<longleftrightarrow> tcap s' = tcap s \<and> (\<forall>i \<in> A. LF s' i = LF s i \<and> RF s' i = RF s i \<and> PF s' i = PF s i)"

lemma agree_subset: "agree A s s' \<Longrightarrow> B \<subseteq> A \<Longrightarrow> agree B s s'"
  by (auto simp: agree_def)

lemma linked_agree: "agree (set (ino t)) s s' \<Longrightarrow> linked s' t p = linked s t p"
  by (induction t arbitrary: p) (auto simp: agree_def)

lemma linked_ctx_agree: "agree (cnodes c) s s' \<Longrightarrow> tt_root s' = tt_root s \<Longrightarrow> linked_ctx s' c p = linked_ctx s c p"
proof (induction c arbitrary: p)
  case (Cons f c)
  show ?case
  proof (cases f)
    case (FL i r)
    have "agree (cnodes c) s s'" "agree (set (ino r)) s s'" "agree {i} s s'"
      using Cons.prems(1) FL by (auto intro: agree_subset)
    then show ?thesis using Cons.IH Cons.prems(2) FL by (auto simp: linked_agree agree_def [of "{i}"])
  next
    case (FR l i)
    have "agree (cnodes c) s s'" "agree (set (ino l)) s s'" "agree {i} s s'"
      using Cons.prems(1) FR by (auto intro: agree_subset)
    then show ?thesis using Cons.IH Cons.prems(2) FR by (auto simp: linked_agree agree_def [of "{i}"])
  qed
qed simp

lemma linked_bound: "linked s t p \<Longrightarrow> i \<in> set (ino t) \<Longrightarrow> i < tcap s"
  by (induction t arbitrary: p) auto

lemma linked_ctx_bound: "linked_ctx s c p \<Longrightarrow> i \<in> cnodes c \<Longrightarrow> i < tcap s"
  by (induction s c p rule: linked_ctx.induct) (auto dest: linked_bound)

lemma linked_parent: "linked s t p \<Longrightarrow> t \<noteq> Lf \<Longrightarrow> nat (ptr t) < tcap s \<and> PF s (nat (ptr t)) = p"
  by (cases t) auto

text \<open>The state with the root's parent changed.\<close>

lemma linked_reparent:
  assumes "linked s t p" "tt_fits s" "distinct (ino t)"
  shows "linked (if t = Lf then s else tt_setParent (Some (ptr t)) (Some q) s) t q"
proof (cases t)
  case (Nd l i r)
  have "agree (set (ino l)) s (tt_setParent (Some (int i)) (Some q) s)" "agree (set (ino r)) s (tt_setParent (Some (int i)) (Some q) s)"
    using assms Nd by (auto simp: agree_def)
  then show ?thesis using assms Nd by (auto simp: linked_agree)
qed simp

subsection \<open>Replacing a node\<close>

lemma replaceNode:
  assumes "tt_fits s" "linked_ctx s c (int i)" "PF s i = cptr c" "i < tcap s" "j < tcap s"
    and "i \<notin> cnodes c" "j \<notin> cnodes c" "distinct (cleft c @ cright c)" "i \<noteq> j"
  defines "s' \<equiv> tt_replaceNode (Some (int i)) (Some (int j)) s"
  shows "linked_ctx s' c (int j)" "agree (- cnodes c - {j}) s s'" "LF s' j = LF s j" "RF s' j = RF s j" "PF s' j = cptr c"
    "same s s'" "CF s' = CF s"
proof -
  have "linked_ctx s' c (int j) \<and> agree (- cnodes c - {j}) s s' \<and> LF s' j = LF s j \<and> RF s' j = RF s j \<and> PF s' j = cptr c
    \<and> same s s' \<and> CF s' = CF s"
  proof (cases c)
    case Nil
    have "s' = tt_setParent (Some (int j)) (Some (-1)) (s\<lparr>tt_root := Some (int j)\<rparr>)"
    proof -
      have "tt_parent (s\<lparr>tt_root := Some (int j)\<rparr>) (Some (int i)) = Some (-1)"
        using assms(1,3,4) Nil tt_links(3) [of "s\<lparr>tt_root := Some (int j)\<rparr>" i] by simp
      then show ?thesis using assms(1,3,4) Nil by (simp add: s'_def tt_replaceNode_def)
    qed
    then show ?thesis using assms Nil by (auto simp: agree_def intro: same_trans [OF same_sets(5) same_sets(3)])
  next
    case (Cons f d)
    show ?thesis
    proof (cases f)
      case (FL k r)
      let ?s1 = "tt_setLeft (Some (int k)) (Some (int j)) s"
      have k: "k < tcap s" "LF s k = int i" "RF s k = ptr r" "PF s k = cptr d" "linked s r (int k)" "linked_ctx s d (int k)"
        "k \<noteq> j" "k \<noteq> i" "k \<notin> set (ino r)" "k \<notin> cnodes d" "j \<notin> set (ino r)" "j \<notin> cnodes d"
        using assms(2,6,7,8) Cons FL by auto
      have s': "s' = tt_setParent (Some (int j)) (Some (int k)) ?s1"
        using assms(1,3,4) Cons FL k tt_links(3) [of ?s1 i] by (simp add: s'_def tt_replaceNode_def)
      have a: "agree (set (ino r)) s s'" "agree (cnodes d) s s'"
        using k assms(1,5) by (auto simp: s' agree_def)
      have "linked_ctx s' d (int k)" using linked_ctx_agree [OF a(2), of "int k"] k by (simp add: s')
      then show ?thesis using assms(1,5) Cons FL k linked_agree [OF a(1)]
        by (auto simp: s' agree_def intro: same_trans [OF same_sets(1) same_sets(3)])
    next
      case (FR l k)
      let ?s1 = "tt_setRight (Some (int k)) (Some (int j)) s"
      have k: "k < tcap s" "LF s k = ptr l" "RF s k = int i" "PF s k = cptr d" "linked s l (int k)" "linked_ctx s d (int k)"
        "k \<noteq> j" "k \<noteq> i" "k \<notin> set (ino l)" "k \<notin> cnodes d" "j \<notin> set (ino l)" "j \<notin> cnodes d"
        using assms(2,6,7,8) Cons FR by auto
      have "ptr l \<noteq> int i" using assms(6) Cons FR by (intro ptr_notin) simp
      then have s': "s' = tt_setParent (Some (int j)) (Some (int k)) ?s1"
        using assms(1,3,4) Cons FR k tt_links(3) [of ?s1 i] by (simp add: s'_def tt_replaceNode_def)
      have a: "agree (set (ino l)) s s'" "agree (cnodes d) s s'"
        using k assms(1,5) by (auto simp: s' agree_def)
      have "linked_ctx s' d (int k)" using linked_ctx_agree [OF a(2), of "int k"] k by (simp add: s')
      then show ?thesis using assms(1,5) Cons FR k linked_agree [OF a(1)]
        by (auto simp: s' agree_def intro: same_trans [OF same_sets(2) same_sets(3)])
    qed
  qed
  then show "linked_ctx s' c (int j)" "agree (- cnodes c - {j}) s s'" "LF s' j = LF s j" "RF s' j = RF s j" "PF s' j = cptr c"
    "same s s'" "CF s' = CF s" by auto
qed

subsection \<open>Rotations\<close>

lemma rotateRight:
  assumes "tt_fits s" "linked s (Nd (Nd a j b) i r) (cptr c)" "linked_ctx s c (int i)"
    and "distinct (cleft c @ ino (Nd (Nd a j b) i r) @ cright c)"
  defines "s' \<equiv> tt_rotateRight (Some (int i)) s"
  shows "linked s' (Nd a j (Nd b i r)) (cptr c)" "linked_ctx s' c (int j)" "same s s'" "CF s' = CF s"
proof -
  define s1 where "s1 = tt_replaceNode (Some (int i)) (Some (int j)) s"
  define s2 where "s2 = tt_setLeft (Some (int i)) (Some (ptr b)) s1"
  define s3 where "s3 = (if b = Lf then s2 else tt_setParent (Some (ptr b)) (Some (int i)) s2)"
  define s4 where "s4 = tt_setRight (Some (int j)) (Some (int i)) s3"
  have i: "i < tcap s" "j < tcap s" "i \<noteq> j" "i \<notin> cnodes c" "j \<notin> cnodes c" "distinct (cleft c @ cright c)"
    "PF s i = cptr c" "linked s a (int j)" "linked s b (int j)" "linked s r (int i)"
    "LF s i = int j" "RF s i = ptr r" "LF s j = ptr a" "RF s j = ptr b" "PF s j = int i"
    using assms(2,4) by auto
  note r1 = replaceNode [OF assms(1,3) i(7,1,2,4,5,6,3), folded s1_def]
  have d: "i \<notin> set (ino a)" "j \<notin> set (ino a)" "i \<notin> set (ino b)" "j \<notin> set (ino b)" "i \<notin> set (ino r)" "j \<notin> set (ino r)"
    "set (ino a) \<inter> set (ino b) = {}" "set (ino r) \<inter> set (ino b) = {}" "distinct (ino b)"
    "cnodes c \<inter> set (ino a) = {}" "cnodes c \<inter> set (ino b) = {}" "cnodes c \<inter> set (ino r) = {}"
    using assms(4) by auto
  have f1: "tt_fits s1" "tcap s1 = tcap s" using sameD [OF r1(6)] assms(1) by simp_all
  have b: "nat (ptr b) < tcap s" "Some (ptr b) = Some (int (nat (ptr b)))" "nat (ptr b) \<in> set (ino b)" if "b \<noteq> Lf"
    using that i(9) by (cases b; auto)+
  have f2: "tt_fits s2" "tcap s2 = tcap s" and f3: "tt_fits s3" "tcap s3 = tcap s" and f4: "tt_fits s4" "tcap s4 = tcap s"
    using f1 by (simp_all add: s2_def s3_def s4_def)
  have m2: "LF s2 x = LF s1 x \<and> RF s2 x = RF s1 x \<and> PF s2 x = PF s1 x" if "x \<noteq> i" for x
    using that f1 i(1) by (simp add: s2_def)
  have m2i: "LF s2 i = ptr b" "RF s2 i = RF s1 i" "PF s2 i = PF s1 i"
    using f1 i(1) by (simp_all add: s2_def)
  have m3: "LF s3 x = LF s2 x" "RF s3 x = RF s2 x" "PF s3 x = (if b \<noteq> Lf \<and> x = nat (ptr b) then int i else PF s2 x)" for x
    using f2 b(1) links_sets(7-9) [of s2 "nat (ptr b)" "int i" x] by (cases b; simp add: s3_def)+
  have l: "tt_right s1 (Some (int j)) = Some (ptr b)" "tt_right s2 (Some (int j)) = Some (ptr b)"
    using f1 f2 i(2,3,14) r1(3,4) m2 [of j] by simp_all
  have s': "s' = tt_setParent (Some (int i)) (Some (int j)) s4"
    using assms(1) i(1,11) l unfolding s'_def tt_rotateRight_def Let_def
    by (cases "b = Lf") (simp_all add: s1_def [symmetric] s2_def s3_def s4_def)
  have m: "LF s' x = LF s1 x \<and> RF s' x = RF s1 x \<and> PF s' x = (if b \<noteq> Lf \<and> x = nat (ptr b) then int i else PF s1 x)"
    if "x \<noteq> i" "x \<noteq> j" for x
    using that f3 f4 i(1,2) m2 [of x] m3 [of x] by (simp add: s' s4_def)
  have mi: "LF s' i = ptr b" "RF s' i = ptr r" "PF s' i = int j"
    using f3 f4 i(1,2,3,12) m2i m3 [of i] r1(2) i(4) by (simp_all add: s' s4_def agree_def)
  have mj: "LF s' j = ptr a" "RF s' j = int i" "PF s' j = cptr c"
    using f3 f4 i(1,2,3,13) m2 [of j] m3 [of j] r1(3-5) b(3) d(4) by (auto simp: s' s4_def)
  have cap: "tcap s' = tcap s" using f4 by (simp add: s')
  have s1x: "LF s1 x = LF s x \<and> RF s1 x = RF s x \<and> PF s1 x = PF s x" if "x \<notin> cnodes c" "x \<noteq> j" for x
    using r1(2) that by (simp add: agree_def)
  have ag: "agree A s s'" if A: "A \<inter> cnodes c = {}" "i \<notin> A" "j \<notin> A" "b \<noteq> Lf \<longrightarrow> nat (ptr b) \<notin> A" for A
    unfolding agree_def
  proof (intro conjI ballI cap)
    fix x assume x: "x \<in> A"
    then have "x \<noteq> i" "x \<noteq> j" "x \<notin> cnodes c" "b \<noteq> Lf \<longrightarrow> x \<noteq> nat (ptr b)" using A by auto
    then show "LF s' x = LF s x" "RF s' x = RF s x" "PF s' x = PF s x" using m [of x] s1x [of x] by auto
  qed
  have aa: "agree (set (ino a)) s s'" and ar: "agree (set (ino r)) s s'"
    using d b(3) by (auto intro!: ag)
  have ac: "agree (cnodes c) s1 s'"
    unfolding agree_def
  proof (intro conjI ballI)
    show "tcap s' = tcap s1" using cap f1 by simp
    fix x assume x: "x \<in> cnodes c"
    then have "x \<noteq> i" "x \<noteq> j" "b \<noteq> Lf \<longrightarrow> x \<noteq> nat (ptr b)" using d b(3) i by auto
    then show "LF s' x = LF s1 x" "RF s' x = RF s1 x" "PF s' x = PF s1 x" using m [of x] by auto
  qed
  have lb: "linked s' b (int i)"
  proof (cases b)
    case (Nd bl k br)
    have ab: "agree (set (ino bl)) s s'" "agree (set (ino br)) s s'"
      using d Nd by (auto intro!: ag)
    have "k \<noteq> i" "k \<noteq> j" "k \<notin> cnodes c" using d Nd by auto
    then show ?thesis using i(9) Nd m [of k] s1x [of k] linked_agree [OF ab(1)] linked_agree [OF ab(2)] cap by simp
  qed simp
  show "linked s' (Nd a j (Nd b i r)) (cptr c)"
    using i(1,2,8,10) mi mj lb cap linked_agree [OF aa] linked_agree [OF ar] by simp
  have "tt_root s' = tt_root s1" by (simp add: s' s4_def s3_def s2_def)
  then show "linked_ctx s' c (int j)" using r1(1) linked_ctx_agree [OF ac] by simp
  have "same s1 s2" "same s2 s3" "same s3 s4" "same s4 s'" by (simp_all add: s2_def s3_def s4_def s')
  then show "same s s'" using r1(6) by (blast intro: same_trans)
  show "CF s' = CF s" using r1(7) by (simp add: s' s4_def s3_def s2_def)
qed

lemma rotateLeft:
  assumes "tt_fits s" "linked s (Nd r i (Nd b j a)) (cptr c)" "linked_ctx s c (int i)"
    and "distinct (cleft c @ ino (Nd r i (Nd b j a)) @ cright c)"
  defines "s' \<equiv> tt_rotateLeft (Some (int i)) s"
  shows "linked s' (Nd (Nd r i b) j a) (cptr c)" "linked_ctx s' c (int j)" "same s s'" "CF s' = CF s"
proof -
  define s1 where "s1 = tt_replaceNode (Some (int i)) (Some (int j)) s"
  define s2 where "s2 = tt_setRight (Some (int i)) (Some (ptr b)) s1"
  define s3 where "s3 = (if b = Lf then s2 else tt_setParent (Some (ptr b)) (Some (int i)) s2)"
  define s4 where "s4 = tt_setLeft (Some (int j)) (Some (int i)) s3"
  have i: "i < tcap s" "j < tcap s" "i \<noteq> j" "i \<notin> cnodes c" "j \<notin> cnodes c" "distinct (cleft c @ cright c)"
    "PF s i = cptr c" "linked s a (int j)" "linked s b (int j)" "linked s r (int i)"
    "RF s i = int j" "LF s i = ptr r" "RF s j = ptr a" "LF s j = ptr b" "PF s j = int i"
    using assms(2,4) by auto
  note r1 = replaceNode [OF assms(1,3) i(7,1,2,4,5,6,3), folded s1_def]
  have d: "i \<notin> set (ino a)" "j \<notin> set (ino a)" "i \<notin> set (ino b)" "j \<notin> set (ino b)" "i \<notin> set (ino r)" "j \<notin> set (ino r)"
    "set (ino a) \<inter> set (ino b) = {}" "set (ino r) \<inter> set (ino b) = {}" "distinct (ino b)"
    "cnodes c \<inter> set (ino a) = {}" "cnodes c \<inter> set (ino b) = {}" "cnodes c \<inter> set (ino r) = {}"
    using assms(4) by auto
  have f1: "tt_fits s1" "tcap s1 = tcap s" using sameD [OF r1(6)] assms(1) by simp_all
  have b: "nat (ptr b) < tcap s" "Some (ptr b) = Some (int (nat (ptr b)))" "nat (ptr b) \<in> set (ino b)" if "b \<noteq> Lf"
    using that i(9) by (cases b; auto)+
  have f2: "tt_fits s2" "tcap s2 = tcap s" and f3: "tt_fits s3" "tcap s3 = tcap s" and f4: "tt_fits s4" "tcap s4 = tcap s"
    using f1 by (simp_all add: s2_def s3_def s4_def)
  have m2: "LF s2 x = LF s1 x \<and> RF s2 x = RF s1 x \<and> PF s2 x = PF s1 x" if "x \<noteq> i" for x
    using that f1 i(1) by (simp add: s2_def)
  have m2i: "RF s2 i = ptr b" "LF s2 i = LF s1 i" "PF s2 i = PF s1 i"
    using f1 i(1) by (simp_all add: s2_def)
  have m3: "LF s3 x = LF s2 x" "RF s3 x = RF s2 x" "PF s3 x = (if b \<noteq> Lf \<and> x = nat (ptr b) then int i else PF s2 x)" for x
    using f2 b(1) links_sets(7-9) [of s2 "nat (ptr b)" "int i" x] by (cases b; simp add: s3_def)+
  have l: "tt_left s1 (Some (int j)) = Some (ptr b)" "tt_left s2 (Some (int j)) = Some (ptr b)"
    using f1 f2 i(2,3,14) r1(3,4) m2 [of j] by simp_all
  have s': "s' = tt_setParent (Some (int i)) (Some (int j)) s4"
    using assms(1) i(1,11) l unfolding s'_def tt_rotateLeft_def Let_def
    by (cases "b = Lf") (simp_all add: s1_def [symmetric] s2_def s3_def s4_def)
  have m: "LF s' x = LF s1 x \<and> RF s' x = RF s1 x \<and> PF s' x = (if b \<noteq> Lf \<and> x = nat (ptr b) then int i else PF s1 x)"
    if "x \<noteq> i" "x \<noteq> j" for x
    using that f3 f4 i(1,2) m2 [of x] m3 [of x] by (simp add: s' s4_def)
  have mi: "RF s' i = ptr b" "LF s' i = ptr r" "PF s' i = int j"
    using f3 f4 i(1,2,3,12) m2i m3 [of i] r1(2) i(4) by (simp_all add: s' s4_def agree_def)
  have mj: "RF s' j = ptr a" "LF s' j = int i" "PF s' j = cptr c"
    using f3 f4 i(1,2,3,13) m2 [of j] m3 [of j] r1(3-5) b(3) d(4) by (auto simp: s' s4_def)
  have cap: "tcap s' = tcap s" using f4 by (simp add: s')
  have s1x: "LF s1 x = LF s x \<and> RF s1 x = RF s x \<and> PF s1 x = PF s x" if "x \<notin> cnodes c" "x \<noteq> j" for x
    using r1(2) that by (simp add: agree_def)
  have ag: "agree A s s'" if A: "A \<inter> cnodes c = {}" "i \<notin> A" "j \<notin> A" "b \<noteq> Lf \<longrightarrow> nat (ptr b) \<notin> A" for A
    unfolding agree_def
  proof (intro conjI ballI cap)
    fix x assume x: "x \<in> A"
    then have "x \<noteq> i" "x \<noteq> j" "x \<notin> cnodes c" "b \<noteq> Lf \<longrightarrow> x \<noteq> nat (ptr b)" using A by auto
    then show "LF s' x = LF s x" "RF s' x = RF s x" "PF s' x = PF s x" using m [of x] s1x [of x] by auto
  qed
  have aa: "agree (set (ino a)) s s'" and ar: "agree (set (ino r)) s s'"
    using d b(3) by (auto intro!: ag)
  have ac: "agree (cnodes c) s1 s'"
    unfolding agree_def
  proof (intro conjI ballI)
    show "tcap s' = tcap s1" using cap f1 by simp
    fix x assume x: "x \<in> cnodes c"
    then have "x \<noteq> i" "x \<noteq> j" "b \<noteq> Lf \<longrightarrow> x \<noteq> nat (ptr b)" using d b(3) i by auto
    then show "LF s' x = LF s1 x" "RF s' x = RF s1 x" "PF s' x = PF s1 x" using m [of x] by auto
  qed
  have lb: "linked s' b (int i)"
  proof (cases b)
    case (Nd bl k br)
    have ab: "agree (set (ino bl)) s s'" "agree (set (ino br)) s s'"
      using d Nd by (auto intro!: ag)
    have "k \<noteq> i" "k \<noteq> j" "k \<notin> cnodes c" using d Nd by auto
    then show ?thesis using i(9) Nd m [of k] s1x [of k] linked_agree [OF ab(1)] linked_agree [OF ab(2)] cap by simp
  qed simp
  show "linked s' (Nd (Nd r i b) j a) (cptr c)"
    using i(1,2,8,10) mi mj lb cap linked_agree [OF aa] linked_agree [OF ar] by simp
  have "tt_root s' = tt_root s1" by (simp add: s' s4_def s3_def s2_def)
  then show "linked_ctx s' c (int j)" using r1(1) linked_ctx_agree [OF ac] by simp
  have "same s1 s2" "same s2 s3" "same s3 s4" "same s4 s'" by (simp_all add: s2_def s3_def s4_def s')
  then show "same s s'" using r1(6) by (blast intro: same_trans)
  show "CF s' = CF s" using r1(7) by (simp add: s' s4_def s3_def s2_def)
qed

end
