(* ===== verification/TimeTreeSpec.thy ===== *)
theory TimeTreeSpec
  imports TimeTreeShape
begin

text \<open>
  The red-black invariant of the time tree (\<open>tt_inv\<close>), that the insertion keeps it, and the contract of
  the operations on the set of times (\<open>tt_keys\<close>): insertion, the last time before a given one, ranges,
  and clearing.
\<close>

subsection \<open>Colours\<close>

primrec blk :: "(nat \<Rightarrow> bool) \<Rightarrow> shape \<Rightarrow> bool" where
  "blk C Lf = True"
| "blk C (Nd l i r) = C i"

primrec bh :: "(nat \<Rightarrow> bool) \<Rightarrow> shape \<Rightarrow> nat" where
  "bh C Lf = 0"
| "bh C (Nd l i r) = bh C l + (if C i then 1 else 0)"

primrec rb :: "(nat \<Rightarrow> bool) \<Rightarrow> shape \<Rightarrow> bool" where
  "rb C Lf = True"
| "rb C (Nd l i r) = (rb C l \<and> rb C r \<and> bh C l = bh C r \<and> (C i \<or> blk C l \<and> blk C r))"

text \<open>The context of a hole of black height \<open>h\<close>; a red node needs a black parent.\<close>

fun cblk :: "(nat \<Rightarrow> bool) \<Rightarrow> frame list \<Rightarrow> bool" where
  "cblk C [] = False"
| "cblk C (f # c) = C (fnode f)"

fun rbc :: "(nat \<Rightarrow> bool) \<Rightarrow> frame list \<Rightarrow> nat \<Rightarrow> bool" where
  "rbc C [] h = True"
| "rbc C (FL i r # c) h = (rb C r \<and> bh C r = h \<and> (C i \<or> blk C r \<and> cblk C c) \<and> rbc C c (h + (if C i then 1 else 0)))"
| "rbc C (FR l i # c) h = (rb C l \<and> bh C l = h \<and> (C i \<or> blk C l \<and> cblk C c) \<and> rbc C c (h + (if C i then 1 else 0)))"

lemma rb_plug: "rb C (plug c t) \<and> blk C (plug c t) \<longleftrightarrow> rb C t \<and> rbc C c (bh C t) \<and> (blk C t \<or> cblk C c)"
proof (induction c t rule: plug.induct)
  case (2 i r c t)
  then show ?case by auto
next
  case (3 l i c t)
  then show ?case by auto
qed simp

lemma color_outside [simp]:
  "x \<notin> set (ino t) \<Longrightarrow> blk (C(x := v)) t = blk C t"
  "x \<notin> set (ino t) \<Longrightarrow> bh (C(x := v)) t = bh C t"
  "x \<notin> set (ino t) \<Longrightarrow> rb (C(x := v)) t = rb C t"
proof -
  show b: "x \<notin> set (ino t) \<Longrightarrow> blk (C(x := v)) t = blk C t" for t by (cases t) auto
  show h: "x \<notin> set (ino t) \<Longrightarrow> bh (C(x := v)) t = bh C t" for t by (induction t) auto
  show "x \<notin> set (ino t) \<Longrightarrow> rb (C(x := v)) t = rb C t" by (induction t) (auto simp: b h)
qed

lemma cblk_outside [simp]: "x \<notin> cnodes c \<Longrightarrow> cblk (C(x := v)) c = cblk C c"
  by (cases c; cases "hd c") auto

lemma rbc_outside [simp]: "x \<notin> cnodes c \<Longrightarrow> rbc (C(x := v)) c h = rbc C c h"
  by (induction C c h rule: rbc.induct) auto

subsection \<open>The last case of the insertion\<close>

text \<open>A tree below its context, in the state.\<close>

definition placed :: "time_tree \<Rightarrow> frame list \<Rightarrow> shape \<Rightarrow> bool" where
  "placed s c t \<longleftrightarrow> tt_fits s \<and> linked s t (cptr c) \<and> linked_ctx s c (ptr t) \<and> distinct (cleft c @ ino t @ cright c)"

lemma placed_FL: "placed s (FL i r # c) t \<longleftrightarrow> placed s c (Nd t i r)"
  by (auto simp: placed_def)

lemma placed_FR: "placed s (FR l i # c) t \<longleftrightarrow> placed s c (Nd l i t)"
  by (auto simp: placed_def)

lemma placed_plug: "placed s c t \<longleftrightarrow> placed s [] (plug c t)"
  by (induction c t rule: plug.induct) (simp_all add: placed_FL placed_FR)

lemma placed_color [simp]: "placed (tt_setColor p v s) c t = placed s c t"
proof -
  have "agree A s (tt_setColor p v s)" for A by (simp add: agree_def)
  then show ?thesis using linked_agree linked_ctx_agree unfolding placed_def by (metis tt_fits_sets(4) tt_root_sets(4))
qed

lemma placed_rotateRight:
  assumes "placed s c (Nd (Nd a j b) i r)"
  shows "placed (tt_rotateRight (Some (int i)) s) c (Nd a j (Nd b i r))"
    "same s (tt_rotateRight (Some (int i)) s)" "CF (tt_rotateRight (Some (int i)) s) = CF s"
  using rotateRight [of s a j b i r c] assms sameD [of s "tt_rotateRight (Some (int i)) s"] by (auto simp: placed_def)

lemma placed_rotateLeft:
  assumes "placed s c (Nd r i (Nd b j a))"
  shows "placed (tt_rotateLeft (Some (int i)) s) c (Nd (Nd r i b) j a)"
    "same s (tt_rotateLeft (Some (int i)) s)" "CF (tt_rotateLeft (Some (int i)) s) = CF s"
  using rotateLeft [of s r i b j a c] assms sameD [of s "tt_rotateLeft (Some (int i)) s"] by (auto simp: placed_def)

text \<open>The links around a node \<open>n\<close> with a parent \<open>i\<close> and a grandparent \<open>g\<close>.\<close>

lemma placed_links:
  assumes "placed s c (Nd l n r)"
  shows "tt_parent s (Some (int n)) = Some (cptr c)" "tt_left s (Some (int n)) = Some (ptr l)"
    "tt_right s (Some (int n)) = Some (ptr r)"
  using assms by (auto simp: placed_def)

lemma placed_frame:
  assumes "placed s (f # c) t"
  shows "tt_parent s (Some (int (fnode f))) = Some (cptr c)"
    "tt_left s (Some (int (fnode f))) = Some (case f of FL i r \<Rightarrow> ptr t | FR l i \<Rightarrow> ptr l)"
    "tt_right s (Some (int (fnode f))) = Some (case f of FL i r \<Rightarrow> ptr r | FR l i \<Rightarrow> ptr t)"
  using assms by (cases f; auto simp: placed_def)+

lemma placed_grandParent:
  assumes "placed s (f # g # c) (Nd l n r)"
  shows "tt_grandParent s (Some (int n)) = Some (int (fnode g))"
  using placed_links [OF assms] placed_frame [OF assms] by (simp add: tt_grandParent_def)

lemma placed_siblings:
  assumes "placed s (f # c) t" "t \<noteq> Lf"
  shows "(case f of FL i r \<Rightarrow> ptr r \<noteq> ptr t | FR l i \<Rightarrow> ptr l \<noteq> ptr t)"
proof -
  obtain l n r where "t = Nd l n r" using assms(2) by (cases t) auto
  moreover have "case f of FL i r \<Rightarrow> n \<notin> set (ino r) | FR l i \<Rightarrow> n \<notin> set (ino l)"
    using assms(1) calculation by (cases f) (auto simp: placed_def)
  ultimately show ?thesis using ptr_notin by (cases f) fastforce+
qed

lemma insertCase5_LL:
  assumes "placed s c (Nd (Nd (Nd l n r) i b) g u)"
  defines "s' \<equiv> insertCase5 (Some (int n)) s"
  shows "placed s' c (Nd (Nd l n r) i (Nd b g u))" "same s s'" "CF s' = (CF s)(i := True, g := False)"
proof -
  define s2 where "s2 = tt_setColor (Some (int g)) False (tt_setColor (Some (int i)) True s)"
  have a: "placed s2 c (Nd (Nd (Nd l n r) i b) g u)" "placed (tt_setColor (Some (int i)) True s) c (Nd (Nd (Nd l n r) i b) g u)"
    using assms(1) by (simp_all add: s2_def)
  have n: "placed s (FL i b # FL g u # c) (Nd l n r)" "placed (tt_setColor (Some (int i)) True s) (FL i b # FL g u # c) (Nd l n r)"
    "placed s2 (FL i b # FL g u # c) (Nd l n r)" using assms(1) a by (simp_all add: placed_FL)
  have "s' = tt_rotateRight (Some (int g)) s2"
    using placed_links(1) [OF n(1)] placed_grandParent [OF n(2)] placed_links(1) [OF n(3)] placed_grandParent [OF n(3)]
      placed_frame(2) [OF n(3)] placed_frame(2) [of s2 "FL g u" c "Nd (Nd l n r) i b"] a(1)
    by (simp add: s'_def insertCase5_def Let_def placed_FL flip: s2_def)
  then show "placed s' c (Nd (Nd l n r) i (Nd b g u))" "same s s'" "CF s' = (CF s)(i := True, g := False)"
    using placed_rotateRight [OF a(1)] by (auto simp: s2_def fun_eq_iff intro: same_trans [OF same_sets(4) same_trans [OF same_sets(4)]])
qed

lemma insertCase5_RR:
  assumes "placed s c (Nd u g (Nd b i (Nd l n r)))"
  defines "s' \<equiv> insertCase5 (Some (int n)) s"
  shows "placed s' c (Nd (Nd u g b) i (Nd l n r))" "same s s'" "CF s' = (CF s)(i := True, g := False)"
proof -
  define s2 where "s2 = tt_setColor (Some (int g)) False (tt_setColor (Some (int i)) True s)"
  have a: "placed s2 c (Nd u g (Nd b i (Nd l n r)))" "placed (tt_setColor (Some (int i)) True s) c (Nd u g (Nd b i (Nd l n r)))"
    using assms(1) by (simp_all add: s2_def)
  have n: "placed s (FR b i # FR u g # c) (Nd l n r)" "placed (tt_setColor (Some (int i)) True s) (FR b i # FR u g # c) (Nd l n r)"
    "placed s2 (FR b i # FR u g # c) (Nd l n r)" using assms(1) a by (simp_all add: placed_FR)
  have "s' = tt_rotateLeft (Some (int g)) s2"
    using placed_links(1) [OF n(1)] placed_grandParent [OF n(2)] placed_links(1) [OF n(3)] placed_grandParent [OF n(3)]
      placed_frame(2) [OF n(3)] placed_siblings [OF n(3)]
    by (simp add: s'_def insertCase5_def Let_def flip: s2_def)
  then show "placed s' c (Nd (Nd u g b) i (Nd l n r))" "same s s'" "CF s' = (CF s)(i := True, g := False)"
    using placed_rotateLeft [OF a(1)] by (auto simp: s2_def fun_eq_iff intro: same_trans [OF same_sets(4) same_trans [OF same_sets(4)]])
qed

text \<open>
  \<open>insertCase4\<close>: a red node below a red parent whose sibling is black.  The subtree of the grandparent
  becomes a valid one of the same black height with a black root.
\<close>

definition repaired :: "time_tree \<Rightarrow> time_tree \<Rightarrow> frame list \<Rightarrow> shape \<Rightarrow> shape \<Rightarrow> bool" where
  "repaired s s' c t t' \<longleftrightarrow> placed s' c t' \<and> same s s' \<and> ino t' = ino t \<and> rb (CF s') t' \<and> blk (CF s') t'
     \<and> bh (CF s') t' = bh (CF s) t \<and> (\<forall>x. x \<notin> set (ino t) \<longrightarrow> CF s' x = CF s x)"

lemma insertCase4:
  assumes "placed s (f # g # c) t" "t = Nd l n r" "\<not> CF s n" "\<not> CF s (fnode f)" "CF s (fnode g)"
    and "rb (CF s) t" "rbc (CF s) (f # g # c) (bh (CF s) t)" "blk (CF s) (case g of FL i u \<Rightarrow> u | FR u i \<Rightarrow> u)"
  shows "\<exists>t'. repaired s (insertCase4 (Some (int n)) s) c (plug [f, g] t) t'"
proof -
  note n = placed_links [OF assms(1) [unfolded assms(2)]] and p = placed_frame [OF assms(1)]
  have gp: "placed s (g # c) (plug [f] t)" using assms(1) by (cases f) (simp_all add: placed_FL placed_FR)
  have G: "placed s c (plug [f, g] t)" using gp by (cases f; cases g) (simp_all add: placed_FL placed_FR)
  note q = placed_frame [OF gp] and gg = placed_grandParent [OF assms(1) [unfolded assms(2)]]
  have sib: "case f of FL i r \<Rightarrow> ptr r \<noteq> ptr t | FR l i \<Rightarrow> ptr l \<noteq> ptr t"
    using placed_siblings [OF assms(1)] assms(2) by simp
  have "plug [f] t \<noteq> Lf" by (cases f) auto
  then have sib2: "case g of FL i r \<Rightarrow> ptr r \<noteq> ptr (plug [f] t) | FR l i \<Rightarrow> ptr l \<noteq> ptr (plug [f] t)"
    using placed_siblings [OF gp] by blast
  have ptr: "ptr (plug [f] t) = int (fnode f)" by (cases f) auto
  show ?thesis
  proof (cases f)
    case f: (FL i b)
    show ?thesis
    proof (cases g)
      case g: (FL k u)
      have e: "insertCase4 (Some (int n)) s = insertCase5 (Some (int n)) s"
        using n p q gg sib sib2 f g assms(2) ptr by (simp add: insertCase4_def)
      have "placed s c (Nd (Nd (Nd l n r) i b) k u)" using G f g assms(2) by simp
      note r5 = insertCase5_LL [OF this]
      have "repaired s (insertCase4 (Some (int n)) s) c (plug [f, g] t) (Nd (Nd l n r) i (Nd b k u))"
        using r5 assms f g by (auto simp: e repaired_def placed_def)
      then show ?thesis by blast
    next
      case g: (FR u k)
      define s1 where "s1 = tt_rotateRight (Some (int i)) s"
      have "placed s (FR u k # c) (Nd (Nd l n r) i b)" using G f g assms(2) by (simp add: placed_FR)
      note r1 = placed_rotateRight [OF this, folded s1_def]
      then have p1: "placed s1 (FR l n # FR u k # c) (Nd r i b)" by (simp add: placed_FR)
      have e: "insertCase4 (Some (int n)) s = insertCase5 (Some (int i)) s1"
        using n p q gg sib sib2 f g assms(2) ptr placed_frame(3) [OF p1]
        by (simp add: insertCase4_def Let_def flip: s1_def)
      have "placed s1 c (Nd u k (Nd l n (Nd r i b)))" using p1 by (simp add: placed_FR)
      note r5 = insertCase5_RR [OF this]
      have "repaired s (insertCase4 (Some (int n)) s) c (plug [f, g] t) (Nd (Nd u k l) n (Nd r i b))"
        using r5 r1(2,3) assms f g by (auto simp: e repaired_def placed_def intro: same_trans)
      then show ?thesis by blast
    qed
  next
    case f: (FR b i)
    show ?thesis
    proof (cases g)
      case g: (FR u k)
      have e: "insertCase4 (Some (int n)) s = insertCase5 (Some (int n)) s"
        using n p q gg sib sib2 f g assms(2) ptr by (simp add: insertCase4_def)
      have "placed s c (Nd u k (Nd b i (Nd l n r)))" using G f g assms(2) by simp
      note r5 = insertCase5_RR [OF this]
      have "repaired s (insertCase4 (Some (int n)) s) c (plug [f, g] t) (Nd (Nd u k b) i (Nd l n r))"
        using r5 assms f g by (auto simp: e repaired_def placed_def)
      then show ?thesis by blast
    next
      case g: (FL k u)
      define s1 where "s1 = tt_rotateLeft (Some (int i)) s"
      have "placed s (FL k u # c) (Nd b i (Nd l n r))" using G f g assms(2) by (simp add: placed_FL)
      note r1 = placed_rotateLeft [OF this, folded s1_def]
      then have p1: "placed s1 (FL n r # FL k u # c) (Nd b i l)" by (simp add: placed_FL)
      have e: "insertCase4 (Some (int n)) s = insertCase5 (Some (int i)) s1"
        using n p q gg sib sib2 f g assms(2) ptr placed_frame(2) [OF p1]
        by (simp add: insertCase4_def Let_def flip: s1_def)
      have "placed s1 c (Nd (Nd (Nd b i l) n r) k u)" using p1 by (simp add: placed_FL)
      note r5 = insertCase5_LL [OF this]
      have "repaired s (insertCase4 (Some (int n)) s) c (plug [f, g] t) (Nd (Nd b i l) n (Nd r k u))"
        using r5 r1(2,3) assms f g by (auto simp: e repaired_def placed_def intro: same_trans)
      then show ?thesis by blast
    qed
  qed
qed

subsection \<open>The repair after an insertion\<close>

lemma color_cong:
  assumes "\<forall>x \<in> set (ino t). C' x = C x"
  shows "blk C' t = blk C t" "bh C' t = bh C t" "rb C' t = rb C t"
proof -
  show b: "blk C' t = blk C t" using assms by (cases t) auto
  have b: "(\<forall>x \<in> set (ino t). C' x = C x) \<Longrightarrow> blk C' t = blk C t" for t by (cases t) auto
  have h: "(\<forall>x \<in> set (ino t). C' x = C x) \<Longrightarrow> bh C' t = bh C t" for t by (induction t) auto
  show "bh C' t = bh C t" using h [OF assms] .
  show "rb C' t = rb C t" using assms by (induction t) (auto simp: b h)
qed

lemma rbc_cong: "(\<forall>x \<in> cnodes c. C' x = C x) \<Longrightarrow> rbc C' c h = rbc C c h"
proof -
  have c: "(\<forall>x \<in> cnodes c. C' x = C x) \<Longrightarrow> cblk C' c = cblk C c" for c by (cases c; cases "hd c") auto
  show "(\<forall>x \<in> cnodes c. C' x = C x) \<Longrightarrow> rbc C' c h = rbc C c h"
  proof (induction c arbitrary: h)
    case (Cons f d)
    have d: "\<forall>x \<in> cnodes d. C' x = C x" using Cons.prems by (cases f) auto
    note IH = Cons.IH [OF d] c [OF d]
    show ?case
    proof (cases f)
      case (FL i t)
      then have "\<forall>x \<in> set (ino t). C' x = C x" "C' i = C i" using Cons.prems by auto
      then show ?thesis using IH FL color_cong [of t C' C] by simp
    next
      case (FR t i)
      then have "\<forall>x \<in> set (ino t). C' x = C x" "C' i = C i" using Cons.prems by auto
      then show ?thesis using IH FR color_cong [of t C' C] by simp
    qed
  qed simp
qed

lemma placed_uncle:
  assumes "placed s (f # g # c) (Nd l n r)"
  shows "tt_uncle s (Some (int n)) = Some (case g of FL i u \<Rightarrow> ptr u | FR u i \<Rightarrow> ptr u)"
proof -
  have p: "placed s (g # c) (plug [f] (Nd l n r))" using assms by (cases f) (simp_all add: placed_FL placed_FR)
  have "plug [f] (Nd l n r) \<noteq> Lf" "ptr (plug [f] (Nd l n r)) = int (fnode f)" by (cases f; simp)+
  then show ?thesis
    using placed_links [OF assms] placed_frame [OF assms] placed_frame [OF p] placed_siblings [OF p]
    by (cases g) (auto simp: tt_uncle_def tt_sibling_def)
qed

lemma tt_color_ptr: "tt_color s (Some (ptr t)) = blk (CF s) t"
  by (cases t) simp_all

lemma insertCase1:
  assumes "placed s c t" "t = Nd l n r" "\<not> CF s n" "rb (CF s) t" "rbc (CF s) c (bh (CF s) t)"
  shows "\<exists>s' T. insertCase1 (Some (int n)) s = Some s' \<and> placed s' [] T \<and> same s s' \<and> ino T = ino (plug c t)
    \<and> rb (CF s') T \<and> blk (CF s') T"
  using assms
proof (induction "length c" arbitrary: s c t l n r rule: less_induct)
  case less
  note n = placed_links [OF less.prems(1) [unfolded less.prems(2)]]
  show ?case
  proof (cases c)
    case Nil
    then have "insertCase1 (Some (int n)) s = Some (tt_setColor (Some (int n)) True s)"
      using n by (subst insertCase1.simps) simp
    moreover have "n \<notin> set (ino l)" "n \<notin> set (ino r)" using less.prems(1,2) by (auto simp: placed_def)
    moreover have "CF (tt_setColor (Some (int n)) True s) = (CF s)(n := True)" by (simp add: fun_eq_iff)
    ultimately show ?thesis using less.prems Nil by (intro exI [of _ "tt_setColor (Some (int n)) True s"] exI [of _ t]) simp
  next
    case f: (Cons f c')
    show ?thesis
    proof (cases "CF s (fnode f)")
      case True
      then have "insertCase1 (Some (int n)) s = Some s" using n f by (subst insertCase1.simps) simp
      moreover have "rb (CF s) (plug c t) \<and> blk (CF s) (plug c t)" using less.prems f True by (subst rb_plug) simp
      ultimately show ?thesis using less.prems(1) placed_plug by (intro exI [of _ s] exI [of _ "plug c t"]) auto
    next
      case False
      then have "cblk (CF s) c'" using less.prems(5) f by (cases f) auto
      then obtain g d where g: "c' = g # d" "CF s (fnode g)" by (cases c') auto
      define u where "u = (case g of FL i u \<Rightarrow> u | FR u i \<Rightarrow> u)"
      have pl: "placed s (f # g # d) (Nd l n r)" using less.prems(1,2) f g by simp
      have un: "tt_uncle s (Some (int n)) = Some (ptr u)" using placed_uncle [OF pl] by (cases g) (simp_all add: u_def)
      note gp = placed_grandParent [OF pl]
      show ?thesis
      proof (cases "blk (CF s) u")
        case True
        obtain t' where t': "repaired s (insertCase4 (Some (int n)) s) d (plug [f, g] t) t'"
          using insertCase4 [of s f g d t l n r] less.prems f g False True u_def by auto
        have "insertCase1 (Some (int n)) s = Some (insertCase4 (Some (int n)) s)"
          using n f False un True by (subst insertCase1.simps) (simp add: tt_color_ptr)
        moreover have "rbc (CF (insertCase4 (Some (int n)) s)) d (bh (CF (insertCase4 (Some (int n)) s)) t')"
        proof -
          have "rbc (CF s) d (bh (CF s) (plug [f, g] t))" using less.prems(5) f g by (cases f; cases g) auto
          moreover have "distinct (cleft d @ ino (plug [f, g] t) @ cright d)"
            using less.prems(1) f g by (cases f; cases g) (auto simp: placed_def)
          then have "\<forall>x \<in> cnodes d. CF (insertCase4 (Some (int n)) s) x = CF s x" using t' by (auto simp: repaired_def)
          from rbc_cong [OF this] show ?thesis using t' calculation by (simp add: repaired_def)
        qed
        then have "rb (CF (insertCase4 (Some (int n)) s)) (plug d t') \<and> blk (CF (insertCase4 (Some (int n)) s)) (plug d t')"
          using t' by (subst rb_plug) (simp add: repaired_def)
        moreover have "ino (plug d t') = ino (plug c t)"
          using t' f g by (cases f; cases g) (simp_all add: ino_plug repaired_def)
        ultimately show ?thesis using t' placed_plug
          by (intro exI [of _ "insertCase4 (Some (int n)) s"] exI [of _ "plug d t'"]) (auto simp: repaired_def)
      next
        case red: False
        then obtain ul k ur where u: "u = Nd ul k ur" "\<not> CF s k" by (cases u) auto
        define s1 where "s1 = tt_setColor (Some (int (fnode f))) True s"
        define s2 where "s2 = tt_setColor (Some (int k)) True s1"
        define s3 where "s3 = tt_setColor (Some (int (fnode g))) False s2"
        have pl2: "placed s1 (f # g # d) (Nd l n r)" "placed s2 (f # g # d) (Nd l n r)" "placed s3 (f # g # d) (Nd l n r)"
          using pl by (simp_all add: s1_def s2_def s3_def)
        have un2: "tt_uncle s1 (Some (int n)) = Some (int k)"
          using placed_uncle [OF pl2(1)] u(1) by (cases g) (simp_all add: u_def)
        have step: "insertCase1 (Some (int n)) s = insertCase1 (Some (int (fnode g))) s3"
          using n f False un u red un2 placed_grandParent [OF pl2(2)] placed_grandParent [OF pl2(3)]
          by (subst insertCase1.simps) (simp add: Let_def flip: s1_def s2_def s3_def)
        have C3: "CF s3 = (CF s)(fnode f := True, k := True, fnode g := False)"
          by (simp add: fun_eq_iff s1_def s2_def s3_def)
        let ?t3 = "plug [f, g] t"
        have p3: "placed s3 d ?t3" using pl2(3) less.prems(2) by (cases f; cases g) (simp_all add: placed_FL placed_FR)
        obtain l3 r3 where t3: "?t3 = Nd l3 (fnode g) r3" by (cases f; cases g) auto
        have D: "distinct (cleft d @ ino ?t3 @ cright d)" using p3 by (simp add: placed_def)
        have P: "rb (CF s) t" "rbc (CF s) (f # g # d) (bh (CF s) t)" "blk (CF s) t \<or> True"
          using less.prems f g by simp_all
        have "rb (CF s3) ?t3"
          using P D u u_def False g(2) unfolding C3 by (cases f; cases g) auto
        moreover have "bh (CF s3) ?t3 = bh (CF s) ?t3"
          using P D u u_def False g(2) unfolding C3 by (cases f; cases g) auto
        then have "rbc (CF s3) d (bh (CF s3) ?t3)"
          using P D u u_def False g(2) unfolding C3 by (cases f; cases g) auto
        moreover have "\<not> CF s3 (fnode g)" by (simp add: C3)
        ultimately obtain s' T where r: "insertCase1 (Some (int (fnode g))) s3 = Some s'" "placed s' [] T" "same s3 s'"
          "ino T = ino (plug d ?t3)" "rb (CF s') T" "blk (CF s') T"
          using less.hyps [OF _ p3 t3] f g by auto
        have "plug d ?t3 = plug c t" using f g by (cases f; cases g) simp_all
        moreover have "same s s3" unfolding s3_def s2_def s1_def
          by (intro same_trans [OF same_sets(4) same_trans [OF same_sets(4) same_sets(4)]])
        ultimately show ?thesis using step r same_trans by (intro exI [of _ s'] exI [of _ T]) auto
      qed
    qed
  qed
qed

subsection \<open>The invariant\<close>

definition tt_list :: "time_tree \<Rightarrow> int list" where
  "tt_list s = take (tt_size s) (tt_k s)"

text \<open>A shape of the nodes with the keys in increasing order, red-black with a black root.\<close>

definition tt_tree :: "time_tree \<Rightarrow> shape \<Rightarrow> bool" where
  "tt_tree s T \<longleftrightarrow> placed s [] T \<and> set (ino T) = {0..<tt_size s} \<and> sorted_wrt (<) (map (\<lambda>i. tt_k s ! i) (ino T))
     \<and> rb (CF s) T \<and> blk (CF s) T"

definition tt_inv :: "time_tree \<Rightarrow> bool" where
  "tt_inv s \<longleftrightarrow> tt_capacity s = tcap s \<and> tt_size s \<le> tcap s \<and> (tt_alloc s \<or> tcap s = 0) \<and> (\<exists>T. tt_tree s T)"

text \<open>The part of the state that is not the tree.\<close>

definition chunk_part :: "time_tree \<Rightarrow> (int \<times> int \<times> int) \<times> int \<times> int \<times> int \<times> bool" where
  "chunk_part s = ((tt_world s, tt_time s, tt_id s), tt_flags s, tt_marks s, tt_magic s, tt_listener s)"

lemma same_part: "same s s' \<Longrightarrow> chunk_part s' = chunk_part s \<and> tt_capacity s' = tt_capacity s \<and> tt_alloc s' = tt_alloc s"
  unfolding same_def chunk_part_def by (cases s; cases s') simp

lemma new_time_tree_inv: "tt_inv (new_time_tree w t i l)" "tt_list (new_time_tree w t i l) = []"
proof -
  have "tt_tree (new_time_tree w t i l) Lf" by (simp add: tt_tree_def placed_def new_time_tree_def tt_fits_def)
  then show "tt_inv (new_time_tree w t i l)" by (auto simp: tt_inv_def new_time_tree_def)
  show "tt_list (new_time_tree w t i l) = []" by (simp add: tt_list_def new_time_tree_def)
qed

lemma tt_list_nth: "tt_inv s \<Longrightarrow> i < tt_size s \<Longrightarrow> tt_list s ! i = tt_k s ! i"
  by (simp add: tt_list_def)

lemma tt_list_keys: "tt_tree s T \<Longrightarrow> tt_size s \<le> tcap s \<Longrightarrow> set (tt_list s) = (\<lambda>i. tt_k s ! i) ` set (ino T)"
  by (simp add: tt_tree_def tt_list_def nth_image)

lemma grown_take: "n \<le> length a \<Longrightarrow> n \<le> m \<Longrightarrow> grown d n m a = take n a @ replicate (m - n) d"
  using arraycopy_append [of "take n a" n "replicate m d" d "[]" "drop n a" "[]"] by (simp add: grown_def)

lemma reallocate:
  assumes "tt_inv s" "tt_size s \<le> N" "0 < N"
  defines "s' \<equiv> tt_reallocate N s"
  shows "tt_inv s'" "tt_list s' = tt_list s" "tcap s' = N" "tt_size s' = tt_size s" "chunk_part s' = chunk_part s" "tt_alloc s'"
proof -
  obtain T where T: "tt_tree s T" and inv: "tt_capacity s = tcap s" "tt_size s \<le> tcap s" "tt_alloc s \<or> tcap s = 0"
    using assms(1) by (auto simp: tt_inv_def)
  have "tt_inv s' \<and> tt_list s' = tt_list s \<and> tcap s' = N \<and> tt_size s' = tt_size s \<and> chunk_part s' = chunk_part s \<and> tt_alloc s'"
  proof (cases "tt_alloc s")
    case False
    then have z: "tt_size s = 0" using inv by simp
    then have "T = Lf" using T by (cases T) (auto simp: tt_tree_def)
    then have "tt_tree s' Lf" using T False by (simp add: tt_tree_def placed_def s'_def tt_reallocate_def tt_fits_def)
    then show ?thesis using False z by (auto simp: tt_inv_def s'_def tt_reallocate_def tt_list_def chunk_part_def)
  next
    case True
    have f: "tt_fits s" "length (tt_meta s) = tcap s * 3" using T by (auto simp: tt_tree_def placed_def tt_fits_def)
    have k: "tt_k s' = take (tt_size s) (tt_k s) @ replicate (N - tt_size s) 0"
      and m: "tt_meta s' = take (tt_size s * 3) (tt_meta s) @ replicate (N * 3 - tt_size s * 3) (-1)"
      using True inv f assms(2) by (simp_all add: s'_def tt_reallocate_def grown_take)
    have o: "tt_size s' = tt_size s" "tt_root s' = tt_root s" "tt_capacity s' = N" "tt_alloc s'" "chunk_part s' = chunk_part s"
      using True by (simp_all add: s'_def tt_reallocate_def chunk_part_def)
    have l: "tcap s' = N" "tt_fits s'" using k m inv f assms(2) by (simp_all add: tt_fits_def)
    have n: "LF s' i = LF s i \<and> RF s' i = RF s i \<and> PF s' i = PF s i \<and> tt_k s' ! i = tt_k s ! i \<and> CF s' i = CF s i"
      if "i < tt_size s" for i
    proof -
      have "tt_colors s' = map (\<lambda>i. Option.bind (rd (tt_colors s) (Some (int i))) (\<lambda>c. c)) [0..<tt_size s]
             @ replicate (N - tt_size s) (Some False)"
        using True by (simp add: s'_def tt_reallocate_def)
      then have "rd (tt_colors s') (Some (int i)) = Some (Option.bind (rd (tt_colors s) (Some (int i))) (\<lambda>c. c))"
        using that by (simp add: rd_def nth_append)
      then have "CF s' i = CF s i" by (auto simp: CF_def tt_color_def bind_eq_Some_conv)
      then show ?thesis using that inv f by (simp add: LF_def RF_def PF_def k m nth_append)
    qed
    have nT: "i < tt_size s" if "i \<in> set (ino T)" for i using that T by (auto simp: tt_tree_def)
    have "linked s t p \<Longrightarrow> set (ino t) \<subseteq> {0..<tt_size s} \<Longrightarrow> linked s' t p" for t p
      using n l(1) assms(2) by (induction t arbitrary: p) auto
    then have "linked s' T (-1)" using T by (simp add: tt_tree_def placed_def)
    moreover have "\<forall>x \<in> set (ino T). CF s' x = CF s x" using n nT by blast
    note c = color_cong [OF this]
    moreover have "map (\<lambda>i. tt_k s' ! i) (ino T) = map (\<lambda>i. tt_k s ! i) (ino T)" using n nT by simp
    then have "sorted_wrt (<) (map (\<lambda>i. tt_k s' ! i) (ino T))" using T unfolding tt_tree_def by metis
    ultimately have "tt_tree s' T" using T l o c by (simp add: tt_tree_def placed_def)
    then have "tt_inv s'" using l(1) o assms(2) by (auto simp: tt_inv_def)
    moreover have "tt_list s' = tt_list s" using k o inv(2) by (simp add: tt_list_def)
    ultimately show ?thesis using l o by simp
  qed
  then show "tt_inv s'" "tt_list s' = tt_list s" "tcap s' = N" "tt_size s' = tt_size s" "chunk_part s' = chunk_part s" "tt_alloc s'"
    by simp_all
qed

subsection \<open>Insertion\<close>

text \<open>The link from a frame to a new node.\<close>

fun link_frame :: "frame \<Rightarrow> int \<Rightarrow> time_tree \<Rightarrow> time_tree" where
  "link_frame (FL i r) x s = tt_setLeft (Some (int i)) (Some x) s"
| "link_frame (FR l i) x s = tt_setRight (Some (int i)) (Some x) s"

abbreviation linked_node :: "frame \<Rightarrow> nat \<Rightarrow> int \<Rightarrow> time_tree \<Rightarrow> time_tree" where
  "linked_node f new key s \<equiv>
     (link_frame f (int new) (new_node (Some (int new)) key s))\<lparr>tt_size := tt_size s + 1\<rparr>"

lemma tt_size_sets [simp]:
  "tt_size (tt_setLeft p v s) = tt_size s" "tt_size (tt_setRight p v s) = tt_size s"
  "tt_size (tt_setParent p v s) = tt_size s" "tt_size (tt_setColor p c s) = tt_size s" "tt_size (tt_setKey p k s) = tt_size s"
  "tt_size (new_node p k s) = tt_size s"
  by (simp_all add: tt_setLeft_def tt_setRight_def tt_setParent_def tt_setColor_def tt_setKey_def new_node_def)

lemma tt_key_node [simp]: "i < tcap s \<Longrightarrow> tt_key s (Some (int i)) = Some (tt_k s ! i)"
  by (simp add: tt_key_def)

lemma sorted_tree:
  assumes "sorted_wrt (<) (map K (ino (Nd l n r)))"
  shows "sorted_wrt (<) (map K (ino l))" "sorted_wrt (<) (map K (ino r))" "\<forall>x \<in> set (ino l). K x < K n"
    "\<forall>x \<in> set (ino r). K n < (K x :: int)"
  using assms by (auto simp: sorted_wrt_append)

lemma tt_insert_loop:
  assumes "placed s c t" "t = Nd l n r" "sorted_wrt (<) (map (\<lambda>i. tt_k s ! i) (ino t))"
    and "\<forall>x \<in> set (cleft c). tt_k s ! x < key" "\<forall>x \<in> set (cright c). key < tt_k s ! x"
  shows "key \<in> (\<lambda>i. tt_k s ! i) ` set (ino t) \<and> tt_insert_loop key (Some (int new)) s (Some (int n)) = Some None
    \<or> key \<notin> (\<lambda>i. tt_k s ! i) ` set (ino t) \<and> (\<exists>f d. plug (f # d) Lf = plug c t
        \<and> tt_insert_loop key (Some (int new)) s (Some (int n)) = Some (Some (linked_node f new key s, Some (int (fnode f))))
        \<and> (\<forall>x \<in> set (cleft (f # d)). tt_k s ! x < key) \<and> (\<forall>x \<in> set (cright (f # d)). key < tt_k s ! x))"
  using assms
proof (induction t arbitrary: c l n r)
  case (Nd tl i tr)
  then have e: "l = tl" "n = i" "r = tr" by simp_all
  note n = placed_links [OF Nd.prems(1)] and o = sorted_tree [OF Nd.prems(3)]
  have i: "i < tcap s" using Nd.prems(1) by (simp add: placed_def)
  let ?K = "\<lambda>i. tt_k s ! i" and ?loop = "\<lambda>p. tt_insert_loop key (Some (int new)) s p"
  consider "key = ?K i" | "key < ?K i" | "?K i < key" by linarith
  then show ?case
  proof cases
    case 1
    then have "?loop (Some (int i)) = Some None" using i by (subst tt_insert_loop.simps) simp
    then show ?thesis using 1 e by auto
  next
    case 2
    then have out: "key \<notin> ?K ` set (ino tr)" "key \<noteq> ?K i" using o by force+
    show ?thesis
    proof (cases tl)
      case Lf
      then have "?loop (Some (int i)) = Some (Some (linked_node (FL i tr) new key s, Some (int i)))"
        using 2 i n by (subst tt_insert_loop.simps) (simp add: Let_def)
      moreover have "\<forall>x \<in> set (cright (FL i tr # c)). key < ?K x" using 2 o Nd.prems(5) by fastforce
      ultimately show ?thesis using out Lf e Nd.prems(4) by (intro disjI2 conjI exI [of _ "FL i tr"] exI [of _ c]) auto
    next
      case l: (Nd ll j lr)
      have p: "placed s (FL i tr # c) tl" using Nd.prems(1) by (simp add: placed_FL)
      have "?loop (Some (int i)) = ?loop (Some (int j))"
        using 2 i n l by (subst tt_insert_loop.simps) simp
      moreover have "\<forall>x \<in> set (cright (FL i tr # c)). key < ?K x" using 2 o Nd.prems(5) by fastforce
      ultimately show ?thesis using Nd.IH(1) [OF p l o(1)] Nd.prems(4) out e by auto
    qed
  next
    case 3
    then have out: "key \<notin> ?K ` set (ino tl)" "key \<noteq> ?K i" using o by force+
    show ?thesis
    proof (cases tr)
      case Lf
      then have "?loop (Some (int i)) = Some (Some (linked_node (FR tl i) new key s, Some (int i)))"
        using 3 i n by (subst tt_insert_loop.simps) (simp add: Let_def)
      moreover have "\<forall>x \<in> set (cleft (FR tl i # c)). ?K x < key" using 3 o Nd.prems(4) by fastforce
      ultimately show ?thesis using out Lf e Nd.prems(5) by (intro disjI2 conjI exI [of _ "FR tl i"] exI [of _ c]) auto
    next
      case r: (Nd rl j rr)
      have p: "placed s (FR tl i # c) tr" using Nd.prems(1) by (simp add: placed_FR)
      have "?loop (Some (int i)) = ?loop (Some (int j))"
        using 3 i n r by (subst tt_insert_loop.simps) simp
      moreover have "\<forall>x \<in> set (cleft (FR tl i # c)). ?K x < key" using 3 o Nd.prems(4) by fastforce
      ultimately show ?thesis using Nd.IH(2) [OF p r o(2)] Nd.prems(5) out e by auto
    qed
  qed
qed simp

text \<open>The new node in its place.\<close>

lemma new_node_fields:
  fixes key :: int
  assumes "tt_fits s" "new < tcap s"
  defines "s1 \<equiv> new_node (Some (int new)) key s"
  shows "tt_fits s1" "tt_k s1 = (tt_k s)[new := key]" "tt_root s1 = tt_root s"
    "LF s1 j = (if j = new then -1 else LF s j)" "RF s1 j = (if j = new then -1 else RF s j)"
    "PF s1 j = (if j = new then -1 else PF s j)" "CF s1 j = (if j = new then False else CF s j)"
    "same (s\<lparr>tt_k := (tt_k s)[new := key]\<rparr>) s1"
proof -
  define s0 where "s0 = tt_setKey (Some (int new)) key s"
  have s0: "s0 = s\<lparr>tt_k := (tt_k s)[new := key]\<rparr>" using assms(2) by (simp add: s0_def tt_setKey_def)
  have f: "tt_fits s0" "tcap s0 = tcap s" using assms(1) by (simp_all add: s0 tt_fits_def)
  have z: "LF s0 = LF s" "RF s0 = RF s" "PF s0 = PF s" "CF s0 = CF s" "tt_root s0 = tt_root s"
    by (simp_all add: fun_eq_iff s0 LF_def RF_def PF_def CF_def tt_color_def)
  have s1: "s1 = tt_setParent (Some (int new)) (Some (-1)) (tt_setRight (Some (int new)) (Some (-1))
      (tt_setLeft (Some (int new)) (Some (-1)) (tt_setColor (Some (int new)) False s0)))"
    by (simp add: s1_def new_node_def s0_def)
  show "tt_fits s1" "tt_k s1 = (tt_k s)[new := key]" "tt_root s1 = tt_root s"
    "LF s1 j = (if j = new then -1 else LF s j)" "RF s1 j = (if j = new then -1 else RF s j)"
    "PF s1 j = (if j = new then -1 else PF s j)" "CF s1 j = (if j = new then False else CF s j)"
    using f assms(2) z by (simp_all add: s1) (simp add: s0)
  have "same s0 s1" unfolding s1
    by (intro same_trans [OF same_sets(4) same_trans [OF same_sets(1) same_trans [OF same_sets(2) same_sets(3)]]])
  then show "same (s\<lparr>tt_k := (tt_k s)[new := key]\<rparr>) s1" by (simp add: s0)
qed

lemma size_fields [simp]:
  "tt_fits (s\<lparr>tt_size := n\<rparr>) = tt_fits s" "LF (s\<lparr>tt_size := n\<rparr>) = LF s" "RF (s\<lparr>tt_size := n\<rparr>) = RF s"
  "PF (s\<lparr>tt_size := n\<rparr>) = PF s" "CF (s\<lparr>tt_size := n\<rparr>) = CF s"
  by (simp_all add: fun_eq_iff tt_fits_def LF_def RF_def PF_def CF_def tt_color_def)

lemma same_size: "same s t \<Longrightarrow> same (s\<lparr>tt_size := n\<rparr>) (t\<lparr>tt_size := n\<rparr>)"
  unfolding same_def by (cases s; cases t) simp

lemma link_frame_fields:
  assumes "tt_fits s" "fnode f < tcap s"
  shows "tt_fits (link_frame f x s)" "tt_k (link_frame f x s) = tt_k s" "tt_root (link_frame f x s) = tt_root s"
    "LF (link_frame f x s) j = (if j = fnode f \<and> (\<exists>i r. f = FL i r) then x else LF s j)"
    "RF (link_frame f x s) j = (if j = fnode f \<and> (\<exists>l i. f = FR l i) then x else RF s j)"
    "PF (link_frame f x s) j = PF s j" "CF (link_frame f x s) = CF s" "same s (link_frame f x s)"
  using assms by (cases f; simp)+

lemma place_new:
  fixes key :: int
  assumes "placed s (f # d) Lf" "new < tcap s" "new \<notin> cnodes (f # d)"
  defines "s2 \<equiv> tt_setParent (Some (int new)) (Some (int (fnode f))) (linked_node f new key s)"
  shows "placed s2 (f # d) (Nd Lf new Lf)" "CF s2 = (CF s)(new := False)"
    "same (s\<lparr>tt_k := (tt_k s)[new := key], tt_size := tt_size s + 1\<rparr>) s2"
proof -
  have fits: "tt_fits s" using assms(1) by (simp add: placed_def)
  define s1 where "s1 = new_node (Some (int new)) key s"
  note n1 = new_node_fields [OF fits assms(2), of key, folded s1_def]
  have f: "fnode f < tcap s" "fnode f \<noteq> new" using assms(1,3) by (cases f; auto simp: placed_def)+
  have f1: "fnode f < tcap s1" using f n1(2) by simp
  note l1 = link_frame_fields [OF n1(1) f1, of "int new"]
  let ?s1 = "(link_frame f (int new) s1)\<lparr>tt_size := tt_size s + 1\<rparr>"
  have s2: "s2 = tt_setParent (Some (int new)) (Some (int (fnode f))) ?s1"
    by (simp add: s2_def s1_def)
  have g: "tt_fits ?s1" "new < tcap ?s1" using l1(1,2) n1(2) assms(2) by simp_all
  have m: "LF s2 x = (if x = fnode f \<and> (\<exists>i r. f = FL i r) then int new else if x = new then -1 else LF s x)"
    "RF s2 x = (if x = fnode f \<and> (\<exists>l i. f = FR l i) then int new else if x = new then -1 else RF s x)"
    "PF s2 x = (if x = new then int (fnode f) else PF s x)" for x
    using links_sets(7-9) [OF g, of "int (fnode f)" x] l1(4-6) n1(4-6) f(2) by (cases f; simp add: s2)+
  have k: "tt_k s2 = (tt_k s)[new := key]" "tt_root s2 = tt_root s" "tt_fits s2"
    using l1(1-3) n1(1-3) by (simp_all add: s2)
  have ag: "agree A s s2" if "new \<notin> A" "fnode f \<notin> A" for A using that m k(1) by (auto simp: agree_def)
  have "linked_ctx s2 (f # d) (int new)"
  proof (cases f)
    case (FL i r)
    have "agree (set (ino r)) s s2" "agree (cnodes d) s s2" using assms(1,3) FL by (auto intro!: ag simp: placed_def)
    then show ?thesis using assms(1) FL m k f by (auto simp: placed_def linked_agree linked_ctx_agree)
  next
    case (FR l i)
    have "agree (set (ino l)) s s2" "agree (cnodes d) s s2" using assms(1,3) FR by (auto intro!: ag simp: placed_def)
    then show ?thesis using assms(1) FR m k f by (auto simp: placed_def linked_agree linked_ctx_agree)
  qed
  moreover have "distinct (cleft (f # d) @ [new] @ cright (f # d))" using assms(1,3) by (auto simp: placed_def)
  ultimately show "placed s2 (f # d) (Nd Lf new Lf)"
    using m f assms(2) k by (auto simp: placed_def)
  show "CF s2 = (CF s)(new := False)" using l1(7) n1(7) by (simp add: s2 fun_eq_iff)
  have "same s2' s2" if "s2' = ?s1" for s2' using that by (simp add: s2)
  moreover have "same (s1\<lparr>tt_size := tt_size s + 1\<rparr>) ?s1" using l1(8) by (rule same_size)
  moreover have "same (s\<lparr>tt_k := (tt_k s)[new := key], tt_size := tt_size s + 1\<rparr>) (s1\<lparr>tt_size := tt_size s + 1\<rparr>)"
    using same_size [OF n1(8), of "tt_size s + 1"] by simp
  ultimately show "same (s\<lparr>tt_k := (tt_k s)[new := key], tt_size := tt_size s + 1\<rparr>) s2" by (blast intro: same_trans)
qed

text \<open>The tree after the repair.\<close>

lemma tree_extended:
  fixes key :: int
  assumes s: "tt_tree s T" "tt_capacity s = tcap s" "tt_size s < tcap s" "tt_alloc s"
    and p: "plug c Lf = T" "placed s2 c (Nd Lf (tt_size s) Lf)" "CF s2 = (CF s)(tt_size s := False)"
      "same (s\<lparr>tt_k := (tt_k s)[tt_size s := key], tt_size := tt_size s + 1\<rparr>) s2"
    and b: "\<forall>x \<in> set (cleft c). tt_k s ! x < key" "\<forall>x \<in> set (cright c). key < tt_k s ! x"
  shows "\<exists>s'. insertCase1 (Some (int (tt_size s))) s2 = Some s' \<and> tt_inv s' \<and> tt_list s' = tt_list s @ [key]
    \<and> chunk_part s' = chunk_part s \<and> tt_alloc s'"
proof -
  let ?n = "tt_size s"
  have T: "placed s [] T" "set (ino T) = {0..<?n}" "sorted_wrt (<) (map (\<lambda>i. tt_k s ! i) (ino T))" "rb (CF s) T" "blk (CF s) T"
    using s(1) by (simp_all add: tt_tree_def)
  have ino: "ino T = cleft c @ cright c" using p(1) ino_plug [of c Lf] by simp
  note sm = p(4)
  have nn: "?n \<notin> cnodes c" using T(2) ino by auto
  have "rb (CF s) (plug c Lf) \<and> blk (CF s) (plug c Lf)" using T(4,5) p(1) by simp
  then have "rbc (CF s) c 0" by (simp add: rb_plug)
  then have "rbc (CF s2) c (bh (CF s2) (Nd Lf ?n Lf))" using nn p(3) by simp
  moreover have "\<not> CF s2 ?n" "rb (CF s2) (Nd Lf ?n Lf)" using p(3) by simp_all
  ultimately obtain s' T' where r: "insertCase1 (Some (int ?n)) s2 = Some s'" "placed s' [] T'" "same s2 s'"
    "ino T' = ino (plug c (Nd Lf ?n Lf))" "rb (CF s') T'" "blk (CF s') T'"
    using insertCase1 [OF p(2) refl] by blast
  have sm': "same (s\<lparr>tt_k := (tt_k s)[?n := key], tt_size := ?n + 1\<rparr>) s'" using same_trans [OF sm r(3)] .
  have k: "tt_k s' = (tt_k s)[?n := key]" "tt_size s' = ?n + 1" using sameD [OF sm'] by simp_all
  have part: "chunk_part s' = chunk_part s" "tt_capacity s' = tt_capacity s" "tt_alloc s' = tt_alloc s"
    using same_part [OF sm'] by (simp_all add: chunk_part_def)
  have ino': "ino T' = cleft c @ [?n] @ cright c" using r(4) by (simp add: ino_plug)
  have old: "tt_k s' ! i = tt_k s ! i" if "i \<in> cnodes c" for i
    using that nn k(1) by (metis nth_list_update_neq)
  have "map (\<lambda>i. tt_k s' ! i) (ino T') = map (\<lambda>i. tt_k s ! i) (cleft c) @ [key] @ map (\<lambda>i. tt_k s ! i) (cright c)"
    using old s(3) by (simp add: ino' k)
  moreover have "sorted_wrt (<) \<dots>" using T(3) b unfolding ino by (auto simp: sorted_wrt_append)
  ultimately have "sorted_wrt (<) (map (\<lambda>i. tt_k s' ! i) (ino T'))" by metis
  moreover have "set (ino T') = {0..<tt_size s'}" using T(2) unfolding ino ino' k by auto
  ultimately have "tt_tree s' T'" using r(2,5,6) by (simp add: tt_tree_def)
  then have "tt_inv s'" using part s k by (auto simp: tt_inv_def)
  moreover have "tt_list s' = tt_list s @ [key]" using s(3) by (simp add: tt_list_def k take_Suc_conv_app_nth)
  ultimately show ?thesis using r(1) part s(4) by blast
qed

lemma internal_insert:
  assumes "tt_inv s"
  shows "\<exists>s'. internal_insert k s = Inr (s', k \<notin> set (tt_list s)) \<and> tt_inv s'
    \<and> tt_list s' = (if k \<in> set (tt_list s) then tt_list s else tt_list s @ [k]) \<and> chunk_part s' = chunk_part s \<and> tt_alloc s'"
proof -
  define s0 where "s0 = tt_grow s"
  have s0: "tt_inv s0" "tt_list s0 = tt_list s" "tt_size s0 = tt_size s" "chunk_part s0 = chunk_part s" "tt_alloc s0" "tt_size s0 < tcap s0"
    using reallocate [OF assms, of "if tt_size s = 0 then 1 else tt_size s * 2"] assms
    by (auto simp: s0_def tt_grow_def tt_inv_def split: if_splits)
  obtain T where T: "tt_tree s0 T" "tt_capacity s0 = tcap s0" using s0(1) by (auto simp: tt_inv_def)
  let ?n = "tt_size s0"
  have keys: "set (tt_list s) = (\<lambda>i. tt_k s0 ! i) ` set (ino T)" using tt_list_keys [OF T(1)] s0(2,6) by simp
  have fits: "tt_fits s0" using T(1) by (simp add: tt_tree_def placed_def)
  show ?thesis
  proof (cases T)
    case Lf
    then have z: "?n = 0" using T(1) by (simp add: tt_tree_def)
    define s1 where "s1 = (new_node (Some (int ?n)) k s0)\<lparr>tt_root := Some (int ?n), tt_size := 1\<rparr>"
    note n1 = new_node_fields [OF fits s0(6), of k]
    have f: "tt_fits s1" "tt_k s1 = (tt_k s0)[?n := k]" "LF s1 ?n = -1" "RF s1 ?n = -1" "PF s1 ?n = -1"
      "CF s1 = (CF s0)(?n := False)" "tt_root s1 = Some (int ?n)"
      using n1 by (simp_all add: s1_def fun_eq_iff)
    have "placed s1 [] (Nd Lf ?n Lf)" using f s0(6) by (simp add: placed_def)
    moreover have "same (s0\<lparr>tt_k := (tt_k s0)[?n := k], tt_size := ?n + 1\<rparr>) s1"
      using same_size [OF same_trans [OF n1(8) same_sets(5)], of "?n + 1" "Some (int ?n)"] z by (simp add: s1_def)
    ultimately obtain s' where "insertCase1 (Some (int ?n)) s1 = Some s'" "tt_inv s'" "tt_list s' = tt_list s0 @ [k]"
      "chunk_part s' = chunk_part s0" "tt_alloc s'"
      using tree_extended [of s0 T "[]" s1 k] T s0(5,6) Lf f(6) by auto
    moreover have "internal_insert k s = bindr (of_loop (insertCase1 (Some (int ?n)) s1)) (\<lambda>s. Inr (s, True))"
      using z s0(3) by (simp add: internal_insert_def Let_def s1_def flip: s0_def)
    ultimately show ?thesis using keys Lf s0 by simp
  next
    case (Nd l n r)
    have "n \<in> set (ino T)" using Nd by simp
    then have z: "0 < ?n" using T(1) by (auto simp: tt_tree_def)
    have p: "placed s0 [] T" "sorted_wrt (<) (map (\<lambda>i. tt_k s0 ! i) (ino T))" using T(1) by (simp_all add: tt_tree_def)
    have root: "tt_root s0 = Some (int n)" using p(1) Nd by (simp add: placed_def)
    have step: "internal_insert k s = bindr (of_loop (tt_insert_loop k (Some (int ?n)) s0 (Some (int n)))) (\<lambda>r.
                case r of None \<Rightarrow> Inr (s0, False)
                | Some (s, n) \<Rightarrow> bindr (of_loop (insertCase1 (Some (int ?n)) (tt_setParent (Some (int ?n)) n s))) (\<lambda>s. Inr (s, True)))"
      using z root by (simp add: internal_insert_def Let_def flip: s0_def)
    from tt_insert_loop [OF p(1) Nd p(2), of k ?n] consider
      "k \<in> set (tt_list s)" "tt_insert_loop k (Some (int ?n)) s0 (Some (int n)) = Some None"
    | f d where "k \<notin> set (tt_list s)" "plug (f # d) Lf = T"
      "tt_insert_loop k (Some (int ?n)) s0 (Some (int n)) = Some (Some (linked_node f ?n k s0, Some (int (fnode f))))"
      "\<forall>x \<in> set (cleft (f # d)). tt_k s0 ! x < k" "\<forall>x \<in> set (cright (f # d)). k < tt_k s0 ! x"
      unfolding keys by auto
    then show ?thesis
    proof cases
      case 1
      then show ?thesis using step s0 by simp
    next
      case 2
      have pl: "placed s0 (f # d) Lf" using p(1) 2(2) placed_plug [of s0 "f # d" Lf] by simp
      have "ino T = cleft (f # d) @ cright (f # d)" using ino_plug [of "f # d" Lf] 2(2) by simp
      then have nn: "?n \<notin> cnodes (f # d)" using T(1) by (auto simp: tt_tree_def)
      obtain s' where "insertCase1 (Some (int ?n)) (tt_setParent (Some (int ?n)) (Some (int (fnode f))) (linked_node f ?n k s0)) = Some s'"
        "tt_inv s'" "tt_list s' = tt_list s0 @ [k]" "chunk_part s' = chunk_part s0" "tt_alloc s'"
        using tree_extended [OF T(1,2) s0(6,5) 2(2) place_new [OF pl s0(6) nn, of k] 2(4,5)] by blast
      then show ?thesis using step 2 s0 by simp
    qed
  qed
qed

subsection \<open>Search\<close>

text \<open>The last node of a list of nodes, or -1.\<close>

definition lastp :: "nat list \<Rightarrow> int" where
  "lastp xs = (if xs = [] then -1 else int (last xs))"

lemma lastp_snoc [simp]: "lastp (xs @ [x]) = int x" "lastp (xs @ ys @ [x]) = int x"
  by (simp_all add: lastp_def)

lemma tt_climb:
  assumes "placed s c t" "t \<noteq> Lf"
  shows "tt_climb s (Some (ptr t)) (Some (cptr c)) = Some (Some (lastp (cleft c)))"
  using assms
proof (induction c arbitrary: t)
  case Nil
  then show ?case by (subst tt_climb.simps) (simp add: lastp_def)
next
  case (Cons f c)
  note p = placed_frame [OF Cons.prems(1)] and sib = placed_siblings [OF Cons.prems]
  show ?case
  proof (cases f)
    case (FL i r)
    have "tt_climb s (Some (ptr (Nd t i r))) (Some (cptr c)) = Some (Some (lastp (cleft c)))"
      using Cons.IH [of "Nd t i r"] Cons.prems(1) FL by (simp add: placed_FL)
    then show ?thesis using p FL by (subst tt_climb.simps) simp
  next
    case (FR l i)
    then show ?thesis using p sib by (subst tt_climb.simps) simp
  qed
qed

lemma tt_search:
  assumes "placed s c t" "t \<noteq> Lf" "sorted_wrt (<) (map (\<lambda>i. tt_k s ! i) (ino t))"
    and "\<forall>x \<in> set (cleft c). tt_k s ! x < key" "\<forall>x \<in> set (cright c). key < tt_k s ! x"
  shows "tt_search key s (Some (ptr t)) = Some (Some (lastp (cleft c @ filter (\<lambda>i. tt_k s ! i \<le> key) (ino t))))"
  using assms
proof (induction t arbitrary: c)
  case (Nd l i r)
  note n = placed_links [OF Nd.prems(1)] and o = sorted_tree [OF Nd.prems(3)]
  let ?K = "\<lambda>i. tt_k s ! i"
  have i: "tt_key s (Some (int i)) = Some (?K i)" using Nd.prems(1) by (simp add: placed_def)
  have less: "filter (\<lambda>i. ?K i \<le> key) (ino l) = ino l" if "?K i \<le> key" using o(3) that by (intro filter_True) fastforce
  have more: "filter (\<lambda>i. ?K i \<le> key) (ino r) = []" if "key \<le> ?K i" using o(4) that by (intro filter_False) fastforce
  consider "key = ?K i" | "key > ?K i" | "key < ?K i" by linarith
  then show ?case
  proof cases
    case 1
    then have "tt_search key s (Some (int i)) = Some (Some (int i))" using i by (subst tt_search.simps) simp
    then show ?thesis using 1 less more by simp
  next
    case 2
    show ?thesis
    proof (cases "r = Lf")
      case True
      then have "tt_search key s (Some (int i)) = Some (Some (int i))" using 2 i n by (subst tt_search.simps) simp
      then show ?thesis using 2 less True by simp
    next
      case False
      have "tt_search key s (Some (int i)) = tt_search key s (Some (ptr r))"
        using 2 i n False by (subst tt_search.simps) simp
      moreover have "\<forall>x \<in> set (cleft (FR l i # c)). ?K x < key" using 2 o Nd.prems(4) by fastforce
      ultimately show ?thesis using Nd.IH(2) [of "FR l i # c"] Nd.prems False o(2) 2 less by (simp add: placed_FR)
    qed
  next
    case 3
    show ?thesis
    proof (cases "l = Lf")
      case True
      then have "tt_search key s (Some (int i)) = tt_climb s (Some (int i)) (Some (cptr c))"
        using 3 i n by (subst tt_search.simps) simp
      then show ?thesis using tt_climb [OF Nd.prems(1)] 3 more True by simp
    next
      case False
      have "tt_search key s (Some (int i)) = tt_search key s (Some (ptr l))"
        using 3 i n False by (subst tt_search.simps) simp
      moreover have "\<forall>x \<in> set (cright (FL i r # c)). key < ?K x" using 3 o Nd.prems(5) by fastforce
      ultimately show ?thesis using Nd.IH(1) [of "FL i r # c"] Nd.prems False o(1) 3 more by (simp add: placed_FL)
    qed
  qed
qed simp

lemma tt_rightmost:
  assumes "placed s c t" "t \<noteq> Lf"
  shows "tt_rightmost s (Some (ptr t)) = Some (Some (int (last (ino t))))"
  using assms
proof (induction t arbitrary: c)
  case (Nd l i r)
  note n = placed_links [OF Nd.prems(1)]
  show ?case
  proof (cases "r = Lf")
    case True
    then show ?thesis using n by (subst tt_rightmost.simps) simp
  next
    case False
    then have "ino r \<noteq> []" by (cases r) auto
    moreover have "tt_rightmost s (Some (int i)) = tt_rightmost s (Some (ptr r))"
      using n False by (subst tt_rightmost.simps) simp
    ultimately show ?thesis using Nd.IH(2) [of "FR l i # c"] Nd.prems False by (simp add: placed_FR)
  qed
qed simp

lemma tt_previous:
  assumes "placed s c (Nd l n r)"
  shows "tt_previous (Some (int n)) s = Some (Some (lastp (cleft c @ ino l)))"
proof (cases "l = Lf")
  case False
  then have "ino l \<noteq> []" by (cases l) auto
  then show ?thesis using False placed_links [OF assms] tt_rightmost [of s "FL n r # c" l] assms
    by (simp add: tt_previous_def placed_FL lastp_def)
next
  case True
  note p = placed_links [OF assms]
  show ?thesis
  proof (cases c)
    case Nil
    then show ?thesis using True p by (simp add: tt_previous_def lastp_def)
  next
    case (Cons f d)
    note q = placed_frame [OF assms [unfolded Cons]] and sib = placed_siblings [OF assms [unfolded Cons]]
    show ?thesis using True p q sib Cons tt_climb [OF assms] by (cases f) (auto simp: tt_previous_def)
  qed
qed

text \<open>Every node has a place.\<close>

lemma node_place: "x \<in> set (ino t) \<Longrightarrow> \<exists>c l r. plug c (Nd l x r) = t"
proof (induction t)
  case (Nd l i r)
  consider "x = i" | "x \<in> set (ino l)" | "x \<in> set (ino r)" using Nd.prems by auto
  then show ?case
  proof cases
    case 1
    then have "plug [] (Nd l x r) = Nd l i r" by simp
    then show ?thesis by blast
  next
    case 2
    then obtain c a b where "plug c (Nd a x b) = l" using Nd.IH(1) by blast
    moreover have "plug (c @ [FL i r]) t = Nd (plug c t) i r" for t by (induction c t rule: plug.induct) simp_all
    ultimately show ?thesis by metis
  next
    case 3
    then obtain c a b where "plug c (Nd a x b) = r" using Nd.IH(2) by blast
    moreover have "plug (c @ [FR l i]) t = Nd l i (plug c t)" for t by (induction c t rule: plug.induct) simp_all
    ultimately show ?thesis by metis
  qed
qed simp

lemma tt_previous_list:
  assumes "tt_tree s T" "ino T = us @ x # vs"
  shows "tt_previous (Some (int x)) s = Some (Some (lastp us))"
proof -
  obtain c l r where c: "plug c (Nd l x r) = T" using node_place [of x T] assms(2) by auto
  have p: "placed s c (Nd l x r)" using assms(1) c placed_plug [of s c "Nd l x r"] by (simp add: tt_tree_def)
  have "(cleft c @ ino l) @ x # ino r @ cright c = us @ x # vs" using ino_plug [of c "Nd l x r"] c assms(2) by simp
  moreover have "distinct (us @ x # vs)" using assms by (simp add: placed_def tt_tree_def)
  ultimately have "us = cleft c @ ino l" using append_Cons_eq_iff [of x us vs "cleft c @ ino l" "ino r @ cright c"] by auto
  then show ?thesis using tt_previous [OF p] by simp
qed

end
