(* ===== verification/TimeTreeChunk.thy ===== *)
theory TimeTreeChunk
  imports TimeTreeSpec Base64Spec
begin

text \<open>
  The payload of \<open>HeapTimeTreeChunk\<close> (constructor, \<open>save\<close>, \<open>load\<close>, \<open>merge\<close>) and the properties of
  the tree: what its operations do to the set of its times.
\<close>

subsection \<open>Payloads\<close>

definition CHUNK_SUB_SEP :: int where "CHUNK_SUB_SEP = 44"

text \<open>
  A payload is a byte source with its size, or null.  \<open>payload_loop\<close> is the loop that \<open>load\<close> and \<open>merge\<close>
  share: \<open>step previous cursor\<close> at every separator and at the end.  A \<open>step\<close> that throws leaves the
  state reached so far.
\<close>

type_synonym payload = "((int \<Rightarrow> jsnum result) \<times> jsnum) option"

definition try_step :: "('a \<Rightarrow> 'a result) \<Rightarrow> 'a \<Rightarrow> 'a \<times> js_error option" where
  "try_step f s = (case f s of Inl e \<Rightarrow> (s, Some e) | Inr s' \<Rightarrow> (s', None))"

definition and_then :: "'a \<times> js_error option \<Rightarrow> ('a \<Rightarrow> 'a \<times> js_error option) \<Rightarrow> 'a \<times> js_error option" where
  "and_then r f = (case r of (s, None) \<Rightarrow> f s | (s, Some e) \<Rightarrow> (s, Some e))"

lemma and_then_simps [simp]: "and_then (s, None) f = f s" "and_then (s, Some e) f = (s, Some e)"
  by (simp_all add: and_then_def)

function payload_loop :: "(int \<Rightarrow> int \<Rightarrow> 'a \<Rightarrow> 'a result) \<Rightarrow> (int \<Rightarrow> jsnum result) \<Rightarrow> jsnum \<Rightarrow> int \<Rightarrow> int \<Rightarrow> 'a \<Rightarrow> 'a \<times> js_error option" where
  "payload_loop step src payloadSize previous cursor s =
     (if js_less cursor payloadSize then
        case src cursor of
          Inl e \<Rightarrow> (s, Some e)
        | Inr current \<Rightarrow>
            if current = Some CHUNK_SUB_SEP
            then and_then (try_step (step previous cursor) s) (payload_loop step src payloadSize (cursor + 1) (cursor + 1))
            else payload_loop step src payloadSize previous (cursor + 1) s
      else try_step (step previous cursor) s)"
  by pat_completeness auto
termination
  by (relation "measure (\<lambda>(_, _, sz, _, c, _). case sz of None \<Rightarrow> 0 | Some n \<Rightarrow> nat (n - c))")
     (auto simp: js_less_def split: option.splits)

declare payload_loop.simps [simp del]

definition load_step :: "(int \<Rightarrow> jsnum result) \<Rightarrow> int \<Rightarrow> int \<Rightarrow> time_tree \<Rightarrow> time_tree result" where
  "load_step src previous cursor s =
     bindr (decodeToLongWithBounds src previous cursor) (\<lambda>k. bindr (internal_insert k s) (\<lambda>(s, _). Inr s))"

definition tt_load :: "payload \<Rightarrow> time_tree \<Rightarrow> time_tree \<times> js_error option" where
  "tt_load buffer s =
     (case buffer of
        None \<Rightarrow> (s, None)
      | Some (src, sz) \<Rightarrow>
          if sz = Some 0 then (s, None)
          else payload_loop (load_step src) src sz 0 0 (s\<lparr>tt_size := 0\<rparr>))"

text \<open>The constructor logs an error of the load and goes on; only not returning goes through.\<close>

definition HeapTimeTreeChunk :: "int \<Rightarrow> int \<Rightarrow> int \<Rightarrow> bool \<Rightarrow> payload \<Rightarrow> time_tree result" where
  "HeapTimeTreeChunk world time obj listener initialPayload =
     (case tt_load initialPayload (new_time_tree world time obj listener) of
        (s, Some NoReturn) \<Rightarrow> Inl NoReturn | (s, _) \<Rightarrow> Inr s)"

text \<open>
  In \<open>merge\<close> the step is \<open>isDirty = isDirty || this.internal_insert(...)\<close>: once a key was new, the
  remaining ones are not decoded.  The \<open>finally\<close> block marks the chunk also when the loop threw.
\<close>

definition merge_step :: "(int \<Rightarrow> jsnum result) \<Rightarrow> int \<Rightarrow> int \<Rightarrow> time_tree \<times> bool \<Rightarrow> (time_tree \<times> bool) result" where
  "merge_step src previous cursor = (\<lambda>(s, isDirty).
     if isDirty then Inr (s, True)
     else bindr (decodeToLongWithBounds src previous cursor) (\<lambda>k. internal_insert k s))"

definition tt_merge :: "payload \<Rightarrow> time_tree \<Rightarrow> (time_tree \<times> bool) \<times> js_error option" where
  "tt_merge buffer s =
     (let ((s, isDirty), err) =
            (case buffer of
               None \<Rightarrow> ((s, False), Some TypeError)
             | Some (src, sz) \<Rightarrow> payload_loop (merge_step src) src sz 0 0 (s, False))
      in (if isDirty then tt_set_dirty s else (s, False), err))"

fun save_keys :: "bool \<Rightarrow> int list \<Rightarrow> heap_buffer \<Rightarrow> heap_buffer" where
  "save_keys isFirst [] buffer = buffer"
| "save_keys isFirst (k # ks) buffer =
     save_keys False ks (encodeLongToBuffer k (if isFirst then buffer else hb_write buffer CHUNK_SUB_SEP))"

definition tt_save :: "time_tree \<Rightarrow> heap_buffer \<Rightarrow> heap_buffer" where
  "tt_save s buffer =
     (if tt_root s = Some (-1) then buffer else save_keys True (take (tt_size s) (tt_k s)) buffer)"

subsection \<open>The bytes of a payload\<close>

abbreviation kb :: "int \<Rightarrow> int list" where
  "kb k \<equiv> syms (int_symbols 8 k)"

fun keys_bytes :: "int list \<Rightarrow> int list" where
  "keys_bytes [] = []"
| "keys_bytes [k] = kb k"
| "keys_bytes (k # k' # ks) = kb k @ CHUNK_SUB_SEP # keys_bytes (k' # ks)"

lemma SUB_SEP_dictionary: "CHUNK_SUB_SEP \<notin> set dictionary"
  by code_simp

lemma SUB_SEP_kb: "CHUNK_SUB_SEP \<notin> set (kb k)"
  using SUB_SEP_dictionary syms_dictionary [OF sym_int_symbols, of 8 k] by blast

lemma save_keys_bytes:
  "hb_rel h bs \<Longrightarrow> hb_rel (save_keys False ks h) (bs @ concat (map (\<lambda>k. CHUNK_SUB_SEP # kb k) ks))"
proof (induction ks arbitrary: h bs)
  case (Cons k ks)
  have "hb_rel (hb_write h CHUNK_SUB_SEP) (bs @ [CHUNK_SUB_SEP])"
    using hb_rel_write [OF Cons.prems, of CHUNK_SUB_SEP] by (simp add: CHUNK_SUB_SEP_def to_int8_def)
  then have "hb_rel (encodeLongToBuffer k (hb_write h CHUNK_SUB_SEP)) ((bs @ [CHUNK_SUB_SEP]) @ kb k)"
    unfolding encode_symbols by (rule hb_rel_syms [OF _ sym_int_symbols])
  from Cons.IH [OF this] show ?case by simp
qed simp

lemma keys_bytes_Cons: "keys_bytes (k # ks) = kb k @ concat (map (\<lambda>k. CHUNK_SUB_SEP # kb k) ks)"
  by (induction ks arbitrary: k) simp_all

lemma save_keys_first: "hb_rel h bs \<Longrightarrow> ks \<noteq> [] \<Longrightarrow> hb_rel (save_keys True ks h) (bs @ keys_bytes ks)"
proof (cases ks)
  case (Cons k ks')
  assume h: "hb_rel h bs"
  then have "hb_rel (encodeLongToBuffer k h) (bs @ kb k)"
    unfolding encode_symbols by (rule hb_rel_syms [OF _ sym_int_symbols])
  from save_keys_bytes [OF this, of ks'] show ?thesis by (simp add: Cons keys_bytes_Cons)
qed simp

subsection \<open>The payload loop on the bytes of keys\<close>

lemma payload_skip:
  "reads src cursor xs \<Longrightarrow> CHUNK_SUB_SEP \<notin> set xs \<Longrightarrow> cursor + int (length xs) \<le> n \<Longrightarrow>
   payload_loop step src (Some n) previous cursor s = payload_loop step src (Some n) previous (cursor + int (length xs)) s"
proof (induction xs arbitrary: cursor)
  case (Cons x xs)
  then have "payload_loop step src (Some n) previous cursor s = payload_loop step src (Some n) previous (cursor + 1) s"
    by (subst payload_loop.simps) (simp add: reads_Cons js_less_def)
  then show ?case using Cons.IH [of "cursor + 1"] Cons.prems by (simp add: reads_Cons add.assoc)
qed simp

text \<open>The steps in order, up to the first that throws.\<close>

fun run_steps :: "(int \<Rightarrow> 'a \<Rightarrow> 'a result) \<Rightarrow> int list \<Rightarrow> 'a \<Rightarrow> 'a \<times> js_error option" where
  "run_steps f [] s = (s, None)"
| "run_steps f (k # ks) s = and_then (try_step (f k) s) (run_steps f ks)"

lemma payload_keys:
  assumes step: "\<And>p c k s. reads src p (kb k) \<Longrightarrow> c = p + int (length (kb k)) \<Longrightarrow> k \<in> K \<Longrightarrow> step p c s = f k s"
  shows "reads src p (keys_bytes ks) \<Longrightarrow> ks \<noteq> [] \<Longrightarrow> set ks \<subseteq> K \<Longrightarrow>
    payload_loop step src (Some (p + int (length (keys_bytes ks)))) p p s = run_steps f ks s"
proof (induction ks arbitrary: p s rule: keys_bytes.induct)
  case (2 k)
  let ?c = "p + int (length (kb k))"
  have r: "reads src p (kb k)" "k \<in> K" using "2.prems" by simp_all
  have "payload_loop step src (Some ?c) p p s = payload_loop step src (Some ?c) p ?c s"
    using r SUB_SEP_kb [of k] by (intro payload_skip) (simp_all del: map_map length_map)
  also have "\<dots> = try_step (f k) s"
    by (subst payload_loop.simps) (simp add: js_less_def try_step_def step [OF r(1) refl r(2)] del: length_map)
  also have "\<dots> = run_steps f [k] s" by (simp add: and_then_def split: prod.split option.split)
  finally show ?case by simp
next
  case (3 k k' ks)
  let ?n = "p + int (length (keys_bytes (k # k' # ks)))" and ?c = "p + int (length (kb k))"
  have r: "reads src p (kb k)" "src ?c = Inr (Some CHUNK_SUB_SEP)" "reads src (?c + 1) (keys_bytes (k' # ks))"
    using "3.prems"(1) by (simp_all add: reads_append reads_Cons)
  have IH: "payload_loop step src (Some ?n) (?c + 1) (?c + 1) s' = run_steps f (k' # ks) s'" for s'
    using "3.IH" [OF r(3)] "3.prems"(3) by (simp add: ac_simps)
  have "payload_loop step src (Some ?n) p p s = payload_loop step src (Some ?n) p ?c s"
    using r(1) SUB_SEP_kb [of k] by (intro payload_skip) (simp_all del: map_map length_map)
  also have "\<dots> = and_then (try_step (step p ?c) s) (payload_loop step src (Some ?n) (?c + 1) (?c + 1))"
    using r(2) by (subst payload_loop.simps) (simp add: js_less_def)
  also have "\<dots> = run_steps f (k # k' # ks) s"
    using step [OF r(1) refl, of s] "3.prems"(3) IH by (simp add: try_step_def split: sum.split)
  finally show ?case .
qed simp

lemma decode_kb: "reads src p (kb k) \<Longrightarrow> c = p + int (length (kb k)) \<Longrightarrow> \<bar>k\<bar> < 2 ^ 53 \<Longrightarrow>
   decodeToLongWithBounds src p c = Inr k"
  by (rule decode_int_symbols) simp_all

text \<open>The list of keys after insertions in order.\<close>

definition add_key :: "int \<Rightarrow> int list \<Rightarrow> int list" where
  "add_key k xs = (if k \<in> set xs then xs else xs @ [k])"

lemma add_keys_distinct: "distinct (xs @ ks) \<Longrightarrow> fold add_key ks xs = xs @ ks"
  by (induction ks arbitrary: xs) (simp_all add: add_key_def)

abbreviation insert_step :: "int \<Rightarrow> time_tree \<Rightarrow> time_tree result" where
  "insert_step k s \<equiv> bindr (internal_insert k s) (\<lambda>(s, _). Inr s)"

lemma insert_steps:
  "tt_inv s \<Longrightarrow> \<exists>s'. run_steps insert_step ks s = (s', None) \<and> tt_inv s' \<and> tt_list s' = fold add_key ks (tt_list s)
     \<and> chunk_part s' = chunk_part s"
proof (induction ks arbitrary: s)
  case (Cons k ks)
  obtain s1 where s1: "internal_insert k s = Inr (s1, k \<notin> set (tt_list s))" "tt_inv s1"
    "tt_list s1 = add_key k (tt_list s)" "chunk_part s1 = chunk_part s"
    using internal_insert [OF Cons.prems, of k] by (auto simp: add_key_def)
  show ?case using Cons.IH [OF s1(2)] s1 by (simp add: try_step_def)
qed simp

lemma merge_steps:
  "tt_inv s \<Longrightarrow> \<exists>s'. run_steps (\<lambda>k (s, d). if d then Inr (s, True) else internal_insert k s) ks (s, False)
      = ((s', \<exists>k \<in> set ks. k \<notin> set (tt_list s)), None) \<and> tt_inv s'
     \<and> tt_list s' = tt_list s @ take 1 (filter (\<lambda>k. k \<notin> set (tt_list s)) ks) \<and> chunk_part s' = chunk_part s"
proof (induction ks arbitrary: s)
  case (Cons k ks)
  have stop: "run_steps (\<lambda>k (s, d). if d then Inr (s, True) else internal_insert k s) ks (t, True) = ((t, True), None)"
    for t ks by (induction ks) (simp_all add: try_step_def)
  obtain s1 where s1: "internal_insert k s = Inr (s1, k \<notin> set (tt_list s))" "tt_inv s1"
    "tt_list s1 = add_key k (tt_list s)" "chunk_part s1 = chunk_part s"
    using internal_insert [OF Cons.prems, of k] by (auto simp: add_key_def)
  show ?case
  proof (cases "k \<in> set (tt_list s)")
    case True
    then show ?thesis using Cons.IH [OF s1(2)] s1 by (simp add: try_step_def add_key_def)
  next
    case False
    then show ?thesis using s1 stop by (simp add: try_step_def add_key_def)
  qed
qed simp

lemma clear_loop_run: "tt_clear_loop mx ks s =
   (case run_steps insert_step (filter (\<lambda>k. k \<noteq> NULL_LONG \<and> k < mx) ks) s of (s', None) \<Rightarrow> Inr s' | (s', Some e) \<Rightarrow> Inl e)"
proof (induction ks arbitrary: s)
  case (Cons k ks)
  show ?case
  proof (cases "internal_insert k s")
    case (Inl e)
    then show ?thesis using Cons.IH by (simp add: try_step_def)
  next
    case (Inr r)
    then show ?thesis using Cons.IH by (cases r) (simp add: try_step_def)
  qed
qed simp

lemma distinct_tt_list: assumes "tt_inv s" shows "distinct (tt_list s)"
proof -
  obtain T where T: "tt_tree s T" "tt_size s \<le> tcap s" using assms by (auto simp: tt_inv_def)
  have "distinct (map (\<lambda>i. tt_k s ! i) (ino T))"
    using T(1) strict_sorted_iff by (auto simp: tt_tree_def)
  then have "inj_on (\<lambda>i. tt_k s ! i) {0..<tt_size s}" using T(1) by (simp add: tt_tree_def distinct_map)
  then show ?thesis using T(2) by (auto simp: tt_list_def distinct_conv_nth inj_on_def)
qed

lemma tree_keys:
  assumes "tt_inv s"
  obtains T where "tt_tree s T" "map (\<lambda>i. tt_k s ! i) (ino T) = sorted_list_of_set (set (tt_list s))" "tt_root s = Some (ptr T)"
    "\<forall>i \<in> set (ino T). i < tcap s"
proof -
  obtain T where T: "tt_tree s T" "tt_size s \<le> tcap s" using assms by (auto simp: tt_inv_def)
  have "sorted_list_of_set (set (map (\<lambda>i. tt_k s ! i) (ino T))) = map (\<lambda>i. tt_k s ! i) (ino T)"
    using T(1) strict_sorted_iff by (intro sorted_list_of_set.idem_if_sorted_distinct) (auto simp: tt_tree_def)
  then have "map (\<lambda>i. tt_k s ! i) (ino T) = sorted_list_of_set (set (tt_list s))" using tt_list_keys [OF T] by simp
  moreover have "tt_root s = Some (ptr T)" "\<forall>i \<in> set (ino T). i < tcap s"
    using T by (auto simp: tt_tree_def placed_def)
  ultimately show thesis using T(1) that by blast
qed

subsection \<open>Searches on the sorted keys\<close>

lemma previous_or_equal:
  assumes "tt_inv s" "tt_tree s T"
  shows "internal_previousOrEqual_index key s = Some (Some (lastp (filter (\<lambda>i. tt_k s ! i \<le> key) (ino T))))"
proof (cases "T = Lf")
  case True
  then have "tt_root s = Some (-1)" using assms(2) by (simp add: tt_tree_def placed_def)
  then show ?thesis using True by (simp add: internal_previousOrEqual_index_def lastp_def tt_search.simps)
next
  case False
  have T: "placed s [] T" "sorted_wrt (<) (map (\<lambda>i. tt_k s ! i) (ino T))" "tt_root s = Some (ptr T)"
    using assms(2) by (simp_all add: tt_tree_def placed_def)
  show ?thesis using tt_search [OF T(1) False T(2), of key] T(3) by (simp add: internal_previousOrEqual_index_def)
qed

lemma lastp_map:
  assumes "xs \<noteq> []" "\<forall>i \<in> set xs. i < tcap s"
  shows "tt_key s (Some (lastp xs)) = Some (last (map (\<lambda>i. tt_k s ! i) xs))" "lastp xs \<noteq> -1"
  using assms by (simp_all add: lastp_def last_map)

lemma sorted_last_Max: "sorted_wrt (<) xs \<Longrightarrow> xs \<noteq> [] \<Longrightarrow> last xs = (Max (set xs) :: int)"
proof (induction xs rule: rev_induct)
  case (snoc x xs)
  then have "Max (insert x (set xs)) = x" by (intro Max_eqI) (auto simp: sorted_wrt_append less_imp_le)
  then show ?case by simp
qed simp

lemma takeWhile_rev_sorted: "sorted_wrt (<) xs \<Longrightarrow> takeWhile (\<lambda>x. a \<le> x) (rev xs) = rev (filter (\<lambda>x. a \<le> (x :: int)) xs)"
proof (induction xs rule: rev_induct)
  case (snoc x xs)
  have "filter (\<lambda>x. a \<le> x) xs = []" if "\<not> a \<le> x" using snoc.prems that by (auto simp: sorted_wrt_append filter_empty_conv)
  then show ?case using snoc by (auto simp: sorted_wrt_append)
qed simp

lemma range_loop:
  assumes "tt_tree s T" "\<forall>i \<in> set (ino T). i < tcap s"
  shows "ino T = us @ vs \<Longrightarrow> tt_range_loop a m s n (Some (lastp us)) =
    Some (map Some (take (nat (m - n)) (takeWhile (\<lambda>x. a \<le> x) (rev (map (\<lambda>i. tt_k s ! i) us)))))"
proof (induction us arbitrary: n vs rule: rev_induct)
  case Nil
  then show ?case by (subst tt_range_loop.simps) (simp add: lastp_def)
next
  case (snoc x us)
  have x: "tt_key s (Some (int x)) = Some (tt_k s ! x)" using assms(2) snoc.prems by simp
  have p: "tt_previous (Some (int x)) s = Some (Some (lastp us))" using tt_previous_list [OF assms(1)] snoc.prems by simp
  show ?case
  proof (cases "a \<le> tt_k s ! x \<and> n < m")
    case True
    then have "nat (m - n) = Suc (nat (m - (n + 1)))" by linarith
    then show ?thesis using True x p snoc.IH [of "x # vs" "n + 1"] snoc.prems by (subst tt_range_loop.simps) simp
  next
    case False
    then show ?thesis using x by (subst tt_range_loop.simps) auto
  qed
qed

lemma filter_le_takeWhile: "sorted_wrt (<) (map K xs) \<Longrightarrow> filter (\<lambda>i. K i \<le> (b :: int)) xs = takeWhile (\<lambda>i. K i \<le> b) xs"
proof (induction xs)
  case (Cons x xs)
  have "filter (\<lambda>i. K i \<le> b) xs = []" if "\<not> K x \<le> b" using Cons.prems that by (auto simp: filter_empty_conv)
  then show ?case using Cons by auto
qed simp

lemma js_and_0_1: "js_and 0 1 = 0"
  by code_simp

lemma set_magic [simp]: "tt_list (s\<lparr>tt_magic := n\<rparr>) = tt_list s" "tt_inv (s\<lparr>tt_magic := n\<rparr>) = tt_inv s"
proof -
  have "linked (s\<lparr>tt_magic := n\<rparr>) t p = linked s t p" for t p
    by (induction t arbitrary: p) (simp_all add: LF_def RF_def PF_def)
  then show "tt_inv (s\<lparr>tt_magic := n\<rparr>) = tt_inv s"
    by (simp add: tt_inv_def tt_tree_def placed_def tt_fits_def CF_def [abs_def] tt_color_def)
qed (simp add: tt_list_def)

text \<open>A tree with three times, for the witnesses.\<close>

lemma sample_tree: "\<exists>s. tt_inv s \<and> tt_list s = [5, 3, 8] \<and> tt_alloc s"
proof -
  obtain s where s: "tt_inv s" "tt_list s = [5, 3]"
    using insert_steps [OF new_time_tree_inv(1), of "[5, 3]" 0 0 0 True] new_time_tree_inv(2) [of 0 0 0 True]
    by (auto simp: add_key_def)
  then show ?thesis using internal_insert [OF s(1), of 8] by fastforce
qed

text \<open>The latest time of a set that is not after a bound, as the resolver looks for it.\<close>

definition latest_upto :: "int \<Rightarrow> int set \<Rightarrow> int" where
  "latest_upto k T = (if \<exists>t \<in> T. t \<le> k then Max {t \<in> T. t \<le> k} else NULL_LONG)"

lemma previousOrEqual_latest:
  assumes "tt_inv s"
  shows "tt_previousOrEqual k s = Inr (Some (latest_upto k (set (tt_list s))))"
proof -
  obtain T where T: "tt_tree s T" "map (\<lambda>i. tt_k s ! i) (ino T) = sorted_list_of_set (set (tt_list s))" "\<forall>i \<in> set (ino T). i < tcap s"
    by (rule tree_keys [OF assms])
  define us where "us = filter (\<lambda>i. tt_k s ! i \<le> k) (ino T)"
  have m: "map (\<lambda>i. tt_k s ! i) us = filter (\<lambda>t. t \<le> k) (sorted_list_of_set (set (tt_list s)))"
    unfolding us_def T(2) [symmetric] by (simp add: filter_map comp_def)
  have set: "set (map (\<lambda>i. tt_k s ! i) us) = {t \<in> set (tt_list s). t \<le> k}" unfolding m by auto
  show ?thesis
  proof (cases "us = []")
    case True
    then have "\<not> (\<exists>t \<in> set (tt_list s). t \<le> k)" using set by auto
    then show ?thesis using previous_or_equal [OF assms T(1), of k] True
      by (simp add: latest_upto_def tt_previousOrEqual_def of_loop_def us_def [symmetric] lastp_def)
  next
    case False
    then have "\<exists>t \<in> set (tt_list s). t \<le> k" using set by (cases "us") auto
    moreover have "sorted_wrt (<) (map (\<lambda>i. tt_k s ! i) us)" unfolding m by (intro sorted_wrt_filter) simp
    then have "last (map (\<lambda>i. tt_k s ! i) us) = Max {t \<in> set (tt_list s). t \<le> k}"
      using sorted_last_Max [of "map (\<lambda>i. tt_k s ! i) us"] False set by simp
    moreover have "\<forall>i \<in> set us. i < tcap s" using T(3) by (simp add: us_def)
    ultimately show ?thesis using previous_or_equal [OF assms T(1), of k] lastp_map [OF False]
      by (simp add: latest_upto_def tt_previousOrEqual_def of_loop_def us_def [symmetric])
  qed
qed

subsection \<open>Properties\<close>

text \<open>Property C4.
  \<open>insert\<close> keeps the red-black invariant, adds exactly the new time, bumps the magic number exactly when
  the time was new, and tells the listener exactly when there is one, the time was new and the chunk was
  not dirty already; the rest of the chunk is left as it is.\<close>

theorem tt_insert_invariant:
  assumes "tt_inv s"
  shows "\<exists>s'. tt_insert k s = Inr (s', k \<notin> set (tt_list s) \<and> tt_listener s \<and> js_and (tt_flags s) 1 \<noteq> 1)
     \<and> tt_inv s' \<and> tt_list s' = add_key k (tt_list s)
     \<and> tt_magic s' = tt_magic s + (if k \<in> set (tt_list s) then 0 else 1)
     \<and> tt_flags s' = tt_flags s \<and> tt_marks s' = tt_marks s \<and> (tt_world s', tt_time s', tt_id s') = (tt_world s, tt_time s, tt_id s)"
proof -
  obtain s' where "internal_insert k s = Inr (s', k \<notin> set (tt_list s))" "tt_inv s'"
    "tt_list s' = add_key k (tt_list s)" "chunk_part s' = chunk_part s"
    using internal_insert [OF assms, of k] by (auto simp: add_key_def)
  then show ?thesis by (simp add: tt_insert_def tt_set_dirty_def chunk_part_def)
qed

theorem tt_insert_invariant_witness:
  "\<exists>s'. tt_insert 5 (new_time_tree 0 0 0 True) = Inr (s', True) \<and> tt_list s' = [5]"
  using tt_insert_invariant [OF new_time_tree_inv(1), of 5 0 0 0 True] new_time_tree_inv(2) [of 0 0 0 True]
  by (auto simp: new_time_tree_def add_key_def js_and_0_1)

text \<open>Property C24.
  \<open>previousOrEqual\<close> returns the greatest time of the tree that is at most the key, and \<open>NULL_LONG\<close> when
  there is none.\<close>

theorem tt_previousOrEqual_max:
  assumes "tt_inv s"
  shows "tt_previousOrEqual k s = Inr (Some (if \<exists>t \<in> set (tt_list s). t \<le> k then Max {t \<in> set (tt_list s). t \<le> k} else NULL_LONG))"
  using previousOrEqual_latest [OF assms, of k] by (simp only: latest_upto_def)

theorem tt_previousOrEqual_max_witness: "\<exists>s. tt_list s = [5, 3, 8] \<and> tt_previousOrEqual 7 s = Inr (Some 5)"
proof -
  obtain s where s: "tt_inv s" "tt_list s = [5, 3, 8]" using sample_tree by auto
  moreover have "{t \<in> set [5, 3, 8]. t \<le> 7} = {5, 3 :: int}" by auto
  ultimately show ?thesis using tt_previousOrEqual_max [OF s(1), of 7] by auto
qed

text \<open>Property C25.
  \<open>range\<close> walks the times between the two keys, both included, from the latest to the earliest, and stops
  after \<open>maxElements\<close> of them.\<close>

theorem tt_range_spec:
  assumes "tt_inv s"
  shows "tt_range a b m s = Inr (map Some (take (nat m) (rev (filter (\<lambda>t. a \<le> t \<and> t \<le> b) (sorted_list_of_set (set (tt_list s)))))))"
proof -
  obtain T where T: "tt_tree s T" "map (\<lambda>i. tt_k s ! i) (ino T) = sorted_list_of_set (set (tt_list s))" "\<forall>i \<in> set (ino T). i < tcap s"
    by (rule tree_keys [OF assms])
  define us where "us = takeWhile (\<lambda>i. tt_k s ! i \<le> b) (ino T)"
  have srt: "sorted_wrt (<) (map (\<lambda>i. tt_k s ! i) (ino T))" using T(1) by (simp add: tt_tree_def)
  have us: "filter (\<lambda>i. tt_k s ! i \<le> b) (ino T) = us"
    unfolding us_def by (rule filter_le_takeWhile [OF srt])
  have m: "map (\<lambda>i. tt_k s ! i) us = filter (\<lambda>t. t \<le> b) (sorted_list_of_set (set (tt_list s)))"
    unfolding us [symmetric] T(2) [symmetric] by (simp add: filter_map comp_def)
  have "tt_range_loop a m s 0 (Some (lastp us)) = Some (map Some (take (nat (m - 0)) (takeWhile (\<lambda>x. a \<le> x) (rev (map (\<lambda>i. tt_k s ! i) us)))))"
    by (rule range_loop [OF T(1,3), of us "dropWhile (\<lambda>i. tt_k s ! i \<le> b) (ino T)"]) (simp add: us_def)
  moreover have "takeWhile (\<lambda>x. a \<le> x) (rev (map (\<lambda>i. tt_k s ! i) us)) =
      rev (filter (\<lambda>t. a \<le> t \<and> t \<le> b) (sorted_list_of_set (set (tt_list s))))"
    unfolding m by (subst takeWhile_rev_sorted) (auto intro: sorted_wrt_filter simp: conj_commute)
  ultimately show ?thesis using previous_or_equal [OF assms T(1), of b] by (simp add: tt_range_def of_loop_def us)
qed

theorem tt_range_spec_witness: "\<exists>s. tt_list s = [5, 3, 8] \<and> tt_range 4 9 10 s = Inr [Some 8, Some 5]"
proof -
  obtain s where s: "tt_inv s" "tt_list s = [5, 3, 8]" using sample_tree by auto
  then show ?thesis using tt_range_spec [OF s(1), of 4 9 10] by (intro exI [of _ s]) (simp add: insort_key.simps)
qed

text \<open>Property C22.
  A chunk that is saved and loaded again, by the constructor of the replica, has the same times in the same
  order and a valid tree; an empty one too, where the load fails on the empty payload and the constructor
  logs the error.\<close>

theorem tt_save_load_roundtrip:
  assumes "tt_inv s" "\<forall>t \<in> set (tt_list s). \<bar>t\<bar> < 2 ^ 53"
  shows "\<exists>s'. HeapTimeTreeChunk w t i l (Some (hb_read (tt_save s newHeapBuffer), hb_size (tt_save s newHeapBuffer))) = Inr s'
     \<and> tt_inv s' \<and> tt_list s' = tt_list s \<and> chunk_part s' = ((w, t, i), 0, 0, 0, l)"
proof (cases "tt_list s = []")
  case True
  have "tt_save s newHeapBuffer = newHeapBuffer"
    using True by (simp add: tt_save_def flip: tt_list_def)
  moreover have "tt_load (Some (hb_read newHeapBuffer, hb_size newHeapBuffer)) (new_time_tree w t i l) =
      (new_time_tree w t i l, Some TypeError)"
    by (simp add: tt_load_def hb_size_def newHeapBuffer_def payload_loop.simps js_less_def try_step_def load_step_def
        decodeToLongWithBounds_def hb_read_def new_time_tree_def)
  ultimately show ?thesis using True new_time_tree_inv [of w t i l]
    by (simp add: HeapTimeTreeChunk_def chunk_part_def new_time_tree_def)
next
  case False
  let ?b = "tt_save s newHeapBuffer" and ?ks = "tt_list s" and ?s = "new_time_tree w t i l"
  obtain T where T: "tt_tree s T" "tt_root s = Some (ptr T)" "map (\<lambda>i. tt_k s ! i) (ino T) = sorted_list_of_set (set ?ks)"
    by (rule tree_keys [OF assms(1)])
  have "ino T \<noteq> []" using tt_list_keys [OF T(1)] assms(1) False by (auto simp: tt_inv_def)
  then have "T \<noteq> Lf" by auto
  then have save: "?b = save_keys True ?ks newHeapBuffer" using T(2) by (simp add: tt_save_def tt_list_def)
  have b: "hb_rel ?b (keys_bytes ?ks)" "keys_bytes ?ks \<noteq> []"
    using save_keys_first [OF hb_rel_new False] False save by (cases ?ks; simp add: keys_bytes_Cons length_syms_int)+
  then have h: "heap_holds ?b (keys_bytes ?ks)" by (auto simp: heap_holds_def hb_rel_def split: option.splits)
  note src = heap_source.holds_reads [OF h] heap_source.holds_size [OF h]
  have "payload_loop (load_step (hb_read ?b)) (hb_read ?b) (Some (0 + int (length (keys_bytes ?ks)))) 0 0 ?s = run_steps insert_step ?ks ?s"
    by (rule payload_keys [OF _ src(1) False, where K = "set ?ks"]) (use assms(2) in \<open>simp_all add: load_step_def decode_kb\<close>)
  moreover obtain s' where s': "run_steps insert_step ?ks ?s = (s', None)" "tt_inv s'" "tt_list s' = fold add_key ?ks []"
    "chunk_part s' = chunk_part ?s" using insert_steps [OF new_time_tree_inv(1), of ?ks w t i l] new_time_tree_inv(2) by auto
  moreover have "?s\<lparr>tt_size := 0\<rparr> = ?s" by (simp add: new_time_tree_def)
  ultimately have "tt_load (Some (hb_read ?b, hb_size ?b)) ?s = (s', None)" using src(2) b(2) by (simp add: tt_load_def)
  then show ?thesis using s' add_keys_distinct [of "[]" ?ks] distinct_tt_list [OF assms(1)]
    by (simp add: HeapTimeTreeChunk_def chunk_part_def new_time_tree_def)
qed

theorem tt_save_load_roundtrip_witness:
  "\<exists>s s'. HeapTimeTreeChunk 1 2 3 True (Some (hb_read (tt_save s newHeapBuffer), hb_size (tt_save s newHeapBuffer))) = Inr s'
     \<and> tt_list s' = [5, 3, 8]"
proof -
  obtain s where s: "tt_inv s" "tt_list s = [5, 3, 8]" using sample_tree by auto
  then show ?thesis using tt_save_load_roundtrip [OF s(1), of 1 2 3 True] by auto
qed

text \<open>Further fact.
  \<open>merge\<close> of a payload of times adds the first time of the payload that the tree did not have, and none of
  those after it: once one was new, \<open>isDirty || internal_insert(...)\<close> no longer inserts.\<close>

theorem tt_merge_first_only:
  assumes "tt_inv s" "reads src 0 (keys_bytes ks)" "ks \<noteq> []" "\<forall>t \<in> set ks. \<bar>t\<bar> < 2 ^ 53"
  shows "\<exists>s'. tt_merge (Some (src, Some (int (length (keys_bytes ks))))) s
        = ((s', (\<exists>k \<in> set ks. k \<notin> set (tt_list s)) \<and> tt_listener s \<and> js_and (tt_flags s) 1 \<noteq> 1), None)
     \<and> tt_inv s' \<and> tt_list s' = tt_list s @ take 1 (filter (\<lambda>k. k \<notin> set (tt_list s)) ks)"
proof -
  let ?f = "\<lambda>k (s, d). if d then Inr (s, True) else internal_insert k s"
  have "payload_loop (merge_step src) src (Some (0 + int (length (keys_bytes ks)))) 0 0 (s, False) = run_steps ?f ks (s, False)"
    by (rule payload_keys [OF _ assms(2,3), where K = "set ks"])
      (use assms(4) in \<open>simp_all add: merge_step_def decode_kb split: prod.split\<close>)
  moreover obtain s' where "run_steps ?f ks (s, False) = ((s', \<exists>k \<in> set ks. k \<notin> set (tt_list s)), None)" "tt_inv s'"
     "tt_list s' = tt_list s @ take 1 (filter (\<lambda>k. k \<notin> set (tt_list s)) ks)" "chunk_part s' = chunk_part s"
    using merge_steps [OF assms(1), of ks] by blast
  ultimately show ?thesis by (simp add: tt_merge_def tt_set_dirty_def chunk_part_def)
qed

theorem tt_merge_first_only_witness:
  "\<exists>s'. tt_merge (Some (\<lambda>i. Inr (rd (keys_bytes [1, 2, 3]) (Some i)), Some (int (length (keys_bytes [1, 2, 3])))))
     (new_time_tree 0 0 0 True) = ((s', True), None) \<and> tt_list s' = [1]"
  using tt_merge_first_only [OF new_time_tree_inv(1), of "\<lambda>i. Inr (rd (keys_bytes [1, 2, 3]) (Some i))" "[1, 2, 3]" 0 0 0 True]
    new_time_tree_inv(2) [of 0 0 0 True]
  by (auto simp: reads_def new_time_tree_def js_and_0_1 simp del: keys_bytes.simps)

text \<open>Further fact.
  \<open>clearAt\<close> keeps, in their order, the times below \<open>max\<close> (and not \<open>NULL_LONG\<close>) in a valid tree and bumps the
  magic number; on a tree that never had a time it throws, because the arrays are undefined.\<close>

theorem tt_clearAt_spec:
  assumes "tt_inv s"
  shows "if tt_alloc s
    then \<exists>s'. tt_clearAt mx s = Inr (s', tt_listener s \<and> js_and (tt_flags s) 1 \<noteq> 1) \<and> tt_inv s'
       \<and> tt_list s' = filter (\<lambda>t. t \<noteq> NULL_LONG \<and> t < mx) (tt_list s) \<and> tt_magic s' = tt_magic s + 1
    else tt_clearAt mx s = Inl TypeError"
proof (cases "tt_alloc s")
  case True
  define s0 where "s0 = s\<lparr>tt_k := replicate (tcap s) 0, tt_meta := replicate (tcap s * 3) 0, tt_colors := [],
    tt_root := Some (-1), tt_size := 0\<rparr>"
  have "tt_tree s0 Lf" by (simp add: tt_tree_def placed_def tt_fits_def s0_def)
  then have s0: "tt_inv s0" "tt_list s0 = []" "chunk_part s0 = chunk_part s"
    using assms True by (auto simp: tt_inv_def s0_def tt_list_def chunk_part_def)
  define ks where "ks = filter (\<lambda>t. t \<noteq> NULL_LONG \<and> t < mx) (tt_list s)"
  obtain s' where s': "run_steps insert_step ks s0 = (s', None)" "tt_inv s'" "tt_list s' = fold add_key ks []"
     "chunk_part s' = chunk_part s0" using insert_steps [OF s0(1), of ks] s0(2) by auto
  have "tt_clearAt mx s = Inr (tt_set_dirty s')"
    using True s'(1) by (simp add: tt_clearAt_def clear_loop_run ks_def s0_def tt_list_def Let_def)
  moreover have "fold add_key ks [] = ks"
    using add_keys_distinct [of "[]" ks] distinct_tt_list [OF assms] by (simp add: ks_def)
  ultimately show ?thesis using True s' s0(3) by (simp add: tt_set_dirty_def chunk_part_def ks_def)
qed (simp add: tt_clearAt_def)

theorem tt_clearAt_spec_witness: "\<exists>s s' b. tt_list s = [5, 3, 8] \<and> tt_clearAt 6 s = Inr (s', b) \<and> tt_list s' = [5, 3]"
proof -
  obtain s where s: "tt_inv s" "tt_list s = [5, 3, 8]" "tt_alloc s" using sample_tree by auto
  then show ?thesis using tt_clearAt_spec [OF s(1), of 6] by (auto simp: NULL_LONG_def)
qed

end
