(* ===== verification/WorldOrder.thy ===== *)
theory WorldOrder
  imports TimeTreeChunk
begin

text \<open>
  \<open>HeapWorldOrderChunk\<close>, the worlds of a node and, for each, where its time tree begins: a hash map from
  numbers to numbers whose keys and values alternate in one array, with the state of a chunk and its
  payload.  The tables are those of \<open>HashChain\<close>; a chunk that was filled by \<open>put\<close> ends its chains
  with -2, a chunk that was loaded with -1.
\<close>

definition CHUNK_SEP :: int where "CHUNK_SEP = 124"
definition CHUNK_SUB_SUB_SEP :: int where "CHUNK_SUB_SUB_SEP = 58"

subsection \<open>The state and its operations\<close>

text \<open>The threshold is three quarters of \<open>ws_size\<close>.\<close>

record wo_state =
  ws_size :: nat
  ws_kv :: "int list"
  ws_next :: "int list"
  ws_hash :: "int list"
  ws_count :: nat

text \<open>\<open>None\<close> for the state is \<open>undefined\<close>: a payload without a \<open>CHUNK_SEP\<close> leaves it so.\<close>

record wo_chunk =
  wc_world :: int
  wc_time :: int
  wc_id :: int
  wc_flags :: int
  wc_marks :: int
  wc_magic :: int
  wc_extra :: int
  wc_listener :: bool
  wc_state :: "wo_state option"

definition wo_fresh :: "nat \<Rightarrow> nat \<Rightarrow> wo_state" where
  "wo_fresh capacity count = \<lparr>ws_size = capacity, ws_kv = replicate (capacity * 2) 0,
     ws_next = replicate capacity (-1), ws_hash = replicate capacity (-1), ws_count = count\<rparr>"

definition wo_mark :: "wo_chunk \<Rightarrow> wo_chunk \<times> int" where
  "wo_mark c = (let c = c\<lparr>wc_marks := wc_marks c + 1\<rparr> in (c, wc_marks c))"

definition wo_unmark :: "wo_chunk \<Rightarrow> wo_chunk \<times> int" where
  "wo_unmark c = (let c = c\<lparr>wc_marks := wc_marks c - 1\<rparr> in (c, wc_marks c))"

definition wo_setExtra :: "int \<Rightarrow> wo_chunk \<Rightarrow> wo_chunk" where
  "wo_setExtra extraValue c = c\<lparr>wc_extra := extraValue\<rparr>"

definition wo_setFlags :: "int \<Rightarrow> int \<Rightarrow> wo_chunk \<Rightarrow> wo_chunk \<times> bool" where
  "wo_setFlags bitsToEnable bitsToDisable c =
     (let (nval, changed) = chunk_setFlags (wc_flags c) bitsToEnable bitsToDisable in (c\<lparr>wc_flags := nval\<rparr>, changed))"

definition wo_set_dirty :: "wo_chunk \<Rightarrow> wo_chunk \<times> bool" where
  "wo_set_dirty c = (c\<lparr>wc_magic := wc_magic c + 1\<rparr>, wc_listener c \<and> js_and (wc_flags c) 1 \<noteq> 1)"

text \<open>\<open>rehashCapacity\<close>: the new state; it goes over all the slots of the previous one.\<close>

definition wo_rehash :: "wo_state \<Rightarrow> wo_state result" where
  "wo_rehash s =
     (let len = (if ws_size s = 0 then 1 else ws_size s * 2);
          newElementKV = grown 0 (length (ws_kv s)) (len * 2) (ws_kv s)
      in bindr (relink (Some (-2)) (\<lambda>i. rd (ws_next s) (Some (int i)) \<noteq> Some (-1))
                  (\<lambda>i. hash_elem (rd (ws_kv s) (Some (int i * 2))) (int len)) [0..<length (ws_next s)]
                  (replicate len (-1), replicate len (-1))) (\<lambda>(nx, hs).
         Inr \<lparr>ws_size = len, ws_kv = newElementKV, ws_next = nx, ws_hash = hs, ws_count = ws_count s\<rparr>))"

definition wo_each :: "wo_state \<Rightarrow> (jsnum \<times> jsnum) list" where
  "wo_each s = map (\<lambda>i. (rd (ws_kv s) (Some (int i * 2)), rd (ws_kv s) (Some (int i * 2 + 1)))) [0..<ws_count s]"

text \<open>\<open>findNonNullKeyEntry\<close>\<close>

definition wo_find :: "int \<Rightarrow> int \<Rightarrow> wo_state \<Rightarrow> int result" where
  "wo_find key index s = of_loop (chain_find (\<lambda>m. rd (ws_kv s) (Some (m * 2)) = Some key) (ws_next s)
     (rd (ws_hash s) (Some index)))"

definition wo_get :: "int \<Rightarrow> wo_chunk \<Rightarrow> jsnum result" where
  "wo_get key c =
     (case wc_state c of
        None \<Rightarrow> Inl TypeError
      | Some s \<Rightarrow>
          if ws_size s = 0 then Inr (Some NULL_LONG)
          else bindr (longHash key (int (ws_size s))) (\<lambda>index. bindr (wo_find key index s) (\<lambda>m.
               Inr (if m \<ge> 0 then rd (ws_kv s) (Some (m * 2 + 1)) else Some NULL_LONG))))"

definition wo_size :: "wo_chunk \<Rightarrow> nat result" where
  "wo_size c = (case wc_state c of None \<Rightarrow> Inl TypeError | Some s \<Rightarrow> Inr (ws_count s))"

text \<open>The store of a pair in slot \<open>i\<close>; \<open>e\<close> is the link it gets in an empty bucket.\<close>

definition wo_store :: "int option \<Rightarrow> int \<Rightarrow> int \<Rightarrow> int \<Rightarrow> int \<Rightarrow> wo_state \<Rightarrow> wo_state" where
  "wo_store e key value index i s =
     (let (nx, hs) = bucket_link e index i (ws_next s, ws_hash s)
      in s\<lparr>ws_kv := wr (wr (ws_kv s) (Some (i * 2)) key) (Some (i * 2 + 1)) value, ws_next := nx, ws_hash := hs\<rparr>)"

text \<open>An update writes \<open>elementKV[entry + 1]\<close>, where the value of the entry is at \<open>entry * 2 + 1\<close>.\<close>

definition wo_put :: "int \<Rightarrow> int \<Rightarrow> wo_chunk \<Rightarrow> (wo_chunk \<times> bool) result" where
  "wo_put key value c =
     (let s = (case wc_state c of None \<Rightarrow> wo_fresh 0 0 | Some s \<Rightarrow> s) in
      bindr (if ws_size s \<noteq> 0
             then bindr (longHash key (int (ws_size s))) (\<lambda>index.
                  bindr (wo_find key index s) (\<lambda>entry. Inr (entry, index)))
             else Inr (-1, -1)) (\<lambda>(entry, index).
        if entry = -1 then
          let s = s\<lparr>ws_count := ws_count s + 1\<rparr> in
          bindr (if 4 * ws_count s > 3 * ws_size s
                 then bindr (wo_rehash s) (\<lambda>s. bindr (longHash key (int (ws_size s))) (\<lambda>index. Inr (s, index)))
                 else Inr (s, index)) (\<lambda>(s, index).
            Inr (wo_set_dirty (c\<lparr>wc_state := Some (wo_store (Some (-2)) key value index (int (ws_count s) - 1) s)\<rparr>)))
        else if rd (ws_kv s) (Some (entry + 1)) \<noteq> Some value
        then Inr (wo_set_dirty (c\<lparr>wc_state := Some (s\<lparr>ws_kv := wr (ws_kv s) (Some (entry + 1)) value\<rparr>)\<rparr>))
        else Inr (c, False)))"

definition wo_remove :: "int \<Rightarrow> wo_chunk \<Rightarrow> wo_chunk result" where
  "wo_remove key c = Inl (JsError ''Not implemented yet!!!'')"

subsection \<open>Payloads\<close>

text \<open>The loop over the bytes of a payload, for \<open>load\<close> and \<open>merge\<close>.\<close>

function scan_bytes :: "(int \<Rightarrow> jsnum \<Rightarrow> 'a \<Rightarrow> 'a result) \<Rightarrow> (int \<Rightarrow> jsnum result) \<Rightarrow> jsnum \<Rightarrow> int \<Rightarrow> 'a \<Rightarrow> 'a result" where
  "scan_bytes step src sz cursor s =
     (if js_less cursor sz
      then bindr (src cursor) (\<lambda>b. bindr (step cursor b s) (scan_bytes step src sz (cursor + 1)))
      else Inr s)"
  by pat_completeness auto
termination
  by (relation "measure (\<lambda>(_, _, sz, c, _). case sz of None \<Rightarrow> 0 | Some n \<Rightarrow> nat (n - c))")
     (auto simp: js_less_def split: option.splits)

declare scan_bytes.simps [simp del]

text \<open>The local variables of \<open>load\<close>.\<close>

record wo_locals =
  wl_loopKey :: int
  wl_previousStart :: int
  wl_capacity :: int
  wl_insertIndex :: int
  wl_temp :: "wo_state option"
  wl_initDone :: bool
  wl_extra :: int

text \<open>The pair \<open>loopKey\<close>, \<open>loopValue\<close> goes into the temporary state; after the loop \<open>insertIndex\<close> is not used any more.\<close>

definition wo_load_pair :: "(int \<Rightarrow> jsnum result) \<Rightarrow> int \<Rightarrow> wo_state \<Rightarrow> wo_locals \<Rightarrow> wo_locals result" where
  "wo_load_pair src cursor t l =
     bindr (decodeToLongWithBounds src (wl_previousStart l) cursor) (\<lambda>loopValue.
     bindr (longHash (wl_loopKey l) (wl_capacity l)) (\<lambda>hashIndex.
       Inr (l\<lparr>wl_temp := Some (wo_store None (wl_loopKey l) loopValue hashIndex (wl_insertIndex l) t),
              wl_insertIndex := wl_insertIndex l + 1, wl_loopKey := NULL_LONG\<rparr>)))"

definition wo_load_step :: "(int \<Rightarrow> jsnum result) \<Rightarrow> int \<Rightarrow> jsnum \<Rightarrow> wo_locals \<Rightarrow> wo_locals result" where
  "wo_load_step src cursor b l =
     (if b = Some CHUNK_SEP then
        bindr (if \<not> wl_initDone l
               then bindr (decodeToLongWithBounds src 0 cursor) (\<lambda>size.
                    let capacity = (if size = 0 then 1 else size * 2) in
                    if capacity < 0 then Inl (JsError ''Invalid typed array length'')
                    else Inr (l\<lparr>wl_capacity := capacity, wl_temp := Some (wo_fresh (nat capacity) (nat size)), wl_initDone := True\<rparr>))
               else bindr (decodeToLongWithBounds src (wl_previousStart l) cursor) (\<lambda>extra. Inr (l\<lparr>wl_extra := extra\<rparr>)))
          (\<lambda>l. Inr (l\<lparr>wl_previousStart := cursor + 1\<rparr>))
      else if b = Some CHUNK_SUB_SEP \<and> wl_temp l \<noteq> None then
        bindr (if wl_loopKey l \<noteq> NULL_LONG then wo_load_pair src cursor (the (wl_temp l)) l else Inr l)
          (\<lambda>l. Inr (l\<lparr>wl_previousStart := cursor + 1\<rparr>))
      else if b = Some CHUNK_SUB_SUB_SEP then
        bindr (decodeToLongWithBounds src (wl_previousStart l) cursor) (\<lambda>k.
          Inr (l\<lparr>wl_loopKey := k, wl_previousStart := cursor + 1\<rparr>))
      else Inr l)"

text \<open>\<open>load\<close> on a payload that is not empty.  The cursor at the end of the loop is the size, or 0.\<close>

definition wo_load :: "(int \<Rightarrow> jsnum result) \<Rightarrow> jsnum \<Rightarrow> wo_chunk \<Rightarrow> wo_chunk result" where
  "wo_load src sz c =
     (if sz = Some 0 then Inr c
      else bindr (scan_bytes (wo_load_step src) src sz 0
             \<lparr>wl_loopKey = NULL_LONG, wl_previousStart = -1, wl_capacity = -1, wl_insertIndex = 0, wl_temp = None,
              wl_initDone = False, wl_extra = wc_extra c\<rparr>) (\<lambda>l.
           bindr (case wl_temp l of
                    None \<Rightarrow> Inr l
                  | Some t \<Rightarrow> if wl_loopKey l \<noteq> NULL_LONG
                      then wo_load_pair src (case sz of None \<Rightarrow> 0 | Some n \<Rightarrow> max 0 n) t l else Inr l) (\<lambda>l.
             Inr (c\<lparr>wc_extra := wl_extra l, wc_state := (case wl_temp l of None \<Rightarrow> wc_state c | t \<Rightarrow> t)\<rparr>))))"

definition HeapWorldOrderChunk :: "int \<Rightarrow> int \<Rightarrow> int \<Rightarrow> bool \<Rightarrow> payload \<Rightarrow> wo_chunk result" where
  "HeapWorldOrderChunk world time obj listener initialPayload =
     (let c = \<lparr>wc_world = world, wc_time = time, wc_id = obj, wc_flags = 0, wc_marks = 0, wc_magic = 0,
               wc_extra = NULL_LONG, wc_listener = listener, wc_state = None\<rparr>;
          empty = c\<lparr>wc_state := Some (wo_fresh (nat MAP_INITIAL_CAPACITY) 0)\<rparr>
      in case initialPayload of
           None \<Rightarrow> Inr empty
         | Some (src, sz) \<Rightarrow> if js_less 0 sz then wo_load src sz c else Inr empty)"

text \<open>\<open>merge\<close>: every pair of the payload is put; the count at its head is skipped.\<close>

record wo_merging =
  wm_chunk :: wo_chunk
  wm_loopKey :: int
  wm_previousStart :: int
  wm_initDone :: bool

definition wo_merge_pair :: "(int \<Rightarrow> jsnum result) \<Rightarrow> int \<Rightarrow> wo_merging \<Rightarrow> wo_merging result" where
  "wo_merge_pair src cursor l =
     bindr (decodeToLongWithBounds src (wm_previousStart l) cursor) (\<lambda>loopValue.
     bindr (wo_put (wm_loopKey l) loopValue (wm_chunk l)) (\<lambda>(c, _).
       Inr (l\<lparr>wm_chunk := c, wm_loopKey := NULL_LONG\<rparr>)))"

definition wo_merge_step :: "(int \<Rightarrow> jsnum result) \<Rightarrow> int \<Rightarrow> jsnum \<Rightarrow> wo_merging \<Rightarrow> wo_merging result" where
  "wo_merge_step src cursor b l =
     (if b = Some CHUNK_SEP then
        bindr (if \<not> wm_initDone l then Inr (l\<lparr>wm_initDone := True\<rparr>)
               else bindr (decodeToLongWithBounds src (wm_previousStart l) cursor) (\<lambda>extra.
                    Inr (l\<lparr>wm_chunk := (wm_chunk l)\<lparr>wc_extra := extra\<rparr>\<rparr>)))
          (\<lambda>l. Inr (l\<lparr>wm_previousStart := cursor + 1\<rparr>))
      else if b = Some CHUNK_SUB_SEP then
        bindr (if wm_loopKey l \<noteq> NULL_LONG then wo_merge_pair src cursor l else Inr l)
          (\<lambda>l. Inr (l\<lparr>wm_previousStart := cursor + 1\<rparr>))
      else if b = Some CHUNK_SUB_SUB_SEP then
        bindr (decodeToLongWithBounds src (wm_previousStart l) cursor) (\<lambda>k.
          Inr (l\<lparr>wm_loopKey := k, wm_previousStart := cursor + 1\<rparr>))
      else Inr l)"

definition wo_merge :: "(int \<Rightarrow> jsnum result) \<Rightarrow> jsnum \<Rightarrow> wo_chunk \<Rightarrow> wo_chunk result" where
  "wo_merge src sz c =
     bindr (scan_bytes (wo_merge_step src) src sz 0
       \<lparr>wm_chunk = c, wm_loopKey = NULL_LONG, wm_previousStart = 0, wm_initDone = False\<rparr>) (\<lambda>l.
     bindr (if wm_loopKey l \<noteq> NULL_LONG then wo_merge_pair src (case sz of None \<Rightarrow> 0 | Some n \<Rightarrow> max 0 n) l else Inr l) (\<lambda>l.
       Inr (wm_chunk l)))"

text \<open>\<open>save\<close>\<close>

fun save_pairs :: "bool \<Rightarrow> (int \<times> int) list \<Rightarrow> heap_buffer \<Rightarrow> heap_buffer" where
  "save_pairs isFirst [] buffer = buffer"
| "save_pairs isFirst ((k, v) # ps) buffer =
     save_pairs False ps (encodeLongToBuffer v (hb_write (encodeLongToBuffer k
       (if isFirst then buffer else hb_write buffer CHUNK_SUB_SEP)) CHUNK_SUB_SUB_SEP))"

definition wo_pairs :: "nat \<Rightarrow> wo_state \<Rightarrow> (int \<times> int) list" where
  "wo_pairs n s = map (\<lambda>i. (ws_kv s ! (i * 2), ws_kv s ! (i * 2 + 1))) [0..<n]"

definition wo_save :: "wo_chunk \<Rightarrow> heap_buffer \<Rightarrow> heap_buffer result" where
  "wo_save c buffer =
     (case wc_state c of
        None \<Rightarrow> Inl TypeError
      | Some s \<Rightarrow>
          let buffer = hb_write (encodeLongToBuffer (int (ws_count s)) buffer) CHUNK_SEP;
              buffer = (if wc_extra c \<noteq> NULL_LONG
                then hb_write (encodeLongToBuffer (wc_extra c) buffer) CHUNK_SEP else buffer)
          in Inr (save_pairs True (wo_pairs (ws_count s) s) buffer))"

end
