(* ===== verification/WorldOrderSpec.thy ===== *)
theory WorldOrderSpec
  imports WorldOrder
begin

text \<open>
  The invariant of the world order chunk, what its operations do to the pairs it holds, and the properties.
\<close>

subsection \<open>Invariant\<close>

abbreviation ws_key :: "wo_state \<Rightarrow> nat \<Rightarrow> int" where
  "ws_key s i \<equiv> ws_kv s ! (i * 2)"

text \<open>\<open>wo_table e n s\<close>: the slots below \<open>n\<close> are filled, with distinct keys, and in the chains, which end with \<open>e\<close>.\<close>

definition wo_table :: "int \<Rightarrow> nat \<Rightarrow> wo_state \<Rightarrow> bool" where
  "wo_table e n s \<longleftrightarrow> length (ws_kv s) = 2 * ws_size s \<and> n \<le> ws_size s \<and> inj_on (ws_key s) {0..<n}
     \<and> table longHash hashable e (ws_size s) {0..<n} (ws_key s) (ws_next s) (ws_hash s)
     \<and> (\<forall>i. n \<le> i \<and> i < ws_size s \<longrightarrow> ws_next s ! i = -1)"

definition wo_wf :: "int \<Rightarrow> wo_state \<Rightarrow> bool" where
  "wo_wf e s \<longleftrightarrow> wo_table e (ws_count s) s"

lemma wo_table_lengths:
  assumes "wo_table e n s"
  shows "length (ws_kv s) = 2 * ws_size s" "length (ws_next s) = ws_size s" "length (ws_hash s) = ws_size s"
    "n \<le> ws_size s" "ws_size s < 2 ^ 31"
  using assms by (simp_all add: wo_table_def table_def)

lemma wo_fresh_table: "e < 0 \<Longrightarrow> N < 2 ^ 31 \<Longrightarrow> wo_table e 0 (wo_fresh N n)"
  using key_hash.table_empty [of N e "replicate N (-1)"] by (simp add: wo_table_def wo_fresh_def)

lemma ws_kv_nth: "wo_table e n s \<Longrightarrow> i < n \<Longrightarrow> rd (ws_kv s) (Some (int i * 2)) = Some (ws_key s i)
    \<and> rd (ws_kv s) (Some (int i * 2 + 1)) = Some (ws_kv s ! (i * 2 + 1))"
  using wo_table_lengths [of e n s] by (auto simp: rd_def nat_mult_distrib nat_add_distrib)

lemma length_wo_pairs [simp]: "length (wo_pairs n s) = n"
  by (simp add: wo_pairs_def)

lemma wo_pairs_keys: "map fst (wo_pairs n s) = map (ws_key s) [0..<n]"
  by (simp add: wo_pairs_def comp_def)

lemma wo_pairs_distinct: "wo_table e n s \<Longrightarrow> distinct (map fst (wo_pairs n s))"
  by (simp only: wo_pairs_keys) (simp add: wo_table_def distinct_map)

lemma wo_each_pairs: "wo_wf e s \<Longrightarrow> wo_each s = map (\<lambda>(k, v). (Some k, Some v)) (wo_pairs (ws_count s) s)"
  using ws_kv_nth [of e "ws_count s" s] by (simp add: wo_each_def wo_pairs_def wo_wf_def)

subsection \<open>Lookup\<close>

lemma wo_find:
  assumes "wo_table e n s" "hashable k" "0 < ws_size s"
  shows "\<exists>m. wo_find k (int (slot_of longHash (ws_size s) k)) s = Inr m \<and>
    (if \<exists>i < n. ws_key s i = k then 0 \<le> m \<and> nat m < n \<and> ws_key s (nat m) = k else m = -1)"
proof -
  have t: "table longHash hashable e (ws_size s) {0..<n} (ws_key s) (ws_next s) (ws_hash s)"
    using assms by (simp add: wo_table_def)
  have "rd (ws_kv s) (Some (int i * 2)) = Some k \<longleftrightarrow> ws_key s i = k" if "i \<in> {0..<n}" for i
    using that ws_kv_nth [OF assms(1)] by simp
  from key_hash.table_lookup [OF t assms(2,3), of "\<lambda>m. rd (ws_kv s) (Some (m * 2)) = Some k", OF this]
  obtain m where "chain_find (\<lambda>m. rd (ws_kv s) (Some (m * 2)) = Some k) (ws_next s)
      (rd (ws_hash s) (Some (int (slot_of longHash (ws_size s) k)))) = Some m"
    "if \<exists>i \<in> {0..<n}. ws_key s i = k then 0 \<le> m \<and> nat m \<in> {0..<n} \<and> ws_key s (nat m) = k else m = -1" by blast
  then show ?thesis unfolding wo_find_def by (intro exI [of _ m]) (auto split: if_splits)
qed

lemma wo_hash: "wo_table e n s \<Longrightarrow> hashable k \<Longrightarrow> 0 < ws_size s \<Longrightarrow>
   longHash k (int (ws_size s)) = Inr (int (slot_of longHash (ws_size s) k))"
  using key_hash.slot_of wo_table_lengths(5) by blast

definition wo_abs :: "wo_state \<Rightarrow> int \<rightharpoonup> int" where
  "wo_abs s = map_of (wo_pairs (ws_count s) s)"

lemma wo_abs_iff:
  assumes "wo_wf e s"
  shows "wo_abs s k = Some v \<longleftrightarrow> (\<exists>i < ws_count s. ws_key s i = k \<and> ws_kv s ! (i * 2 + 1) = v)"
proof -
  have "wo_abs s k = Some v \<longleftrightarrow> (k, v) \<in> set (wo_pairs (ws_count s) s)"
    unfolding wo_abs_def using wo_pairs_distinct assms unfolding wo_wf_def by (intro map_of_eq_Some_iff) auto
  also have "\<dots> \<longleftrightarrow> (\<exists>i < ws_count s. ws_key s i = k \<and> ws_kv s ! (i * 2 + 1) = v)" by (auto simp: wo_pairs_def)
  finally show ?thesis .
qed

lemma wo_abs_None: "wo_wf e s \<Longrightarrow> wo_abs s k = None \<longleftrightarrow> (\<forall>i < ws_count s. ws_key s i \<noteq> k)"
  using wo_abs_iff by (metis not_None_eq)

lemma wo_get_abs:
  assumes "wc_state c = Some s" "wo_wf e s" "hashable k"
  shows "wo_get k c = Inr (Some (case wo_abs s k of None \<Rightarrow> NULL_LONG | Some v \<Rightarrow> v))"
proof (cases "ws_size s = 0")
  case True
  then have "ws_count s = 0" using assms(2) wo_table_lengths(4) [of e "ws_count s" s] by (simp add: wo_wf_def)
  then show ?thesis using True assms(1) by (simp add: wo_get_def wo_abs_def wo_pairs_def)
next
  case False
  have t: "wo_table e (ws_count s) s" using assms(2) by (simp add: wo_wf_def)
  obtain m where m: "wo_find k (int (slot_of longHash (ws_size s) k)) s = Inr m"
    "if \<exists>i < ws_count s. ws_key s i = k then 0 \<le> m \<and> nat m < ws_count s \<and> ws_key s (nat m) = k else m = -1"
    using wo_find [OF t assms(3)] False by blast
  have g: "wo_get k c = Inr (if m \<ge> 0 then rd (ws_kv s) (Some (m * 2 + 1)) else Some NULL_LONG)"
    using False assms m(1) wo_hash [OF t] by (simp add: wo_get_def)
  show ?thesis
  proof (cases "\<exists>i < ws_count s. ws_key s i = k")
    case True
    then have i: "0 \<le> m" "nat m < ws_count s" "ws_key s (nat m) = k" using m(2) by simp_all
    then have "wo_abs s k = Some (ws_kv s ! (nat m * 2 + 1))" using wo_abs_iff [OF assms(2)] by auto
    then show ?thesis using g i ws_kv_nth [OF t i(2)] by simp
  next
    case False
    then have "m = -1" "wo_abs s k = None" using m(2) wo_abs_None [OF assms(2)] by (auto split: if_splits)
    then show ?thesis using g by simp
  qed
qed

subsection \<open>Stores and rehashing\<close>

lemma wo_store:
  fixes k v :: int
  assumes s: "wo_table e n s" "hashable k" "\<forall>i < n. ws_key s i \<noteq> k" "n < ws_size s"
    and u: "u = Some e \<or> u = None \<and> e = -1"
  defines "s' \<equiv> wo_store u k v (int (slot_of longHash (ws_size s) k)) (int n) s"
  shows "wo_table e (Suc n) s'" "wo_pairs (Suc n) s' = wo_pairs n s @ [(k, v)]" "ws_size s' = ws_size s" "ws_count s' = ws_count s"
proof -
  note l = wo_table_lengths [OF s(1)]
  let ?kv = "(ws_kv s)[n * 2 := k, n * 2 + 1 := v]"
  have t: "table longHash hashable e (ws_size s) {0..<n} (ws_key s) (ws_next s) (ws_hash s)" "ws_next s ! n = -1"
    using s by (simp_all add: wo_table_def)
  have key: "?kv ! (i * 2) = (if i = n then k else ws_key s i)" "i \<noteq> n \<Longrightarrow> ?kv ! (i * 2 + 1) = ws_kv s ! (i * 2 + 1)"
    "?kv ! (n * 2 + 1) = v" for i
    using s(4) l(1) by (simp_all add: nth_list_update)
  have "u = Some e \<or> u = None \<and> ws_next s ! n = e" using u t(2) by auto
  then obtain nx hs where b: "bucket_link u (int (slot_of longHash (ws_size s) k)) (int n) (ws_next s, ws_hash s) = (nx, hs)"
    "table longHash hashable e (ws_size s) (insert n {0..<n}) (\<lambda>i. if i = n then k else ws_key s i) nx hs"
    "\<forall>j. j \<noteq> n \<longrightarrow> nx ! j = ws_next s ! j"
    using key_hash.table_insert [OF t(1) _ s(4,2), of "\<lambda>i. if i = n then k else ws_key s i" u] by fastforce
  have "wr (wr (ws_kv s) (Some (int n * 2)) k) (Some (int n * 2 + 1)) v = ?kv"
    using s(4) l(1) by (simp add: wr_def nat_mult_distrib nat_add_distrib)
  then have s': "s' = s\<lparr>ws_kv := ?kv, ws_next := nx, ws_hash := hs\<rparr>"
    using b(1) by (simp add: s'_def wo_store_def)
  have ins: "insert n {0..<n} = {0..<Suc n}" by auto
  have tb: "table longHash hashable e (ws_size s) {0..<Suc n} (\<lambda>i. ?kv ! (i * 2)) nx hs"
    using b(2) by (simp only: ins key(1))
  have inj: "inj_on (\<lambda>i. ?kv ! (i * 2)) {0..<Suc n}"
    unfolding key(1)
  proof (rule inj_onI)
    fix i j assume "i \<in> {0..<Suc n}" "j \<in> {0..<Suc n}" "(if i = n then k else ws_key s i) = (if j = n then k else ws_key s j)"
    moreover have "inj_on (ws_key s) {0..<n}" using s(1) by (simp add: wo_table_def)
    ultimately show "i = j" using s(3) by (auto simp: less_Suc_eq dest: inj_onD split: if_splits)
  qed
  have nxt: "\<forall>i. Suc n \<le> i \<and> i < ws_size s \<longrightarrow> nx ! i = -1" using s(1) b(3) by (simp add: wo_table_def)
  have sz: "length ?kv = 2 * ws_size s" "Suc n \<le> ws_size s" using s(4) l(1) by simp_all
  show "wo_table e (Suc n) s'"
    unfolding s' wo_table_def wo_state.simps using sz inj tb nxt by (intro conjI; simp)
  have "wo_pairs n s' = wo_pairs n s" unfolding s' wo_pairs_def using key by (intro map_cong) auto
  then show "wo_pairs (Suc n) s' = wo_pairs n s @ [(k, v)]" using key(1) [of n] key(3) by (simp add: wo_pairs_def s')
  show "ws_size s' = ws_size s" "ws_count s' = ws_count s" by (simp_all add: s')
qed

text \<open>A rehash keeps the slots whose link is not -1.\<close>

lemma wo_rehash_links:
  assumes l: "length (ws_kv s) = 2 * ws_size s" "length (ws_next s) = ws_size s" "2 * ws_size s < 2 ^ 31"
    and k: "\<And>i. i < ws_size s \<Longrightarrow> ws_next s ! i \<noteq> -1 \<Longrightarrow> hashable (ws_key s i)"
  defines "N \<equiv> if ws_size s = 0 then 1 else ws_size s * 2"
  shows "\<exists>s'. wo_rehash s = Inr s' \<and> ws_size s' = N \<and> ws_count s' = ws_count s \<and> (\<forall>n \<le> ws_size s. wo_pairs n s' = wo_pairs n s)
    \<and> length (ws_kv s') = 2 * N
    \<and> table longHash hashable (-2) N {i. i < ws_size s \<and> ws_next s ! i \<noteq> -1} (ws_key s') (ws_next s') (ws_hash s')
    \<and> (\<forall>i < N. i < ws_size s \<and> ws_next s ! i \<noteq> -1 \<or> ws_next s' ! i = -1)"
proof -
  let ?n = "ws_size s" and ?kv = "grown 0 (length (ws_kv s)) (N * 2) (ws_kv s)"
  let ?live = "\<lambda>i. rd (ws_next s) (Some (int i)) \<noteq> Some (-1)"
  let ?hash = "\<lambda>i. hash_elem (rd (ws_kv s) (Some (int i * 2))) (int N)"
  have N: "0 < N" "N < 2 ^ 31" "?n \<le> N" using l(3) by (auto simp: N_def)
  have live: "?live i \<longleftrightarrow> ws_next s ! i \<noteq> -1" if "i < ?n" for i using that l(2) by simp
  have key: "?kv ! (i * 2) = ws_key s i \<and> ?kv ! (i * 2 + 1) = ws_kv s ! (i * 2 + 1)" if "i < ?n" for i
    using that l(1) N(3) by simp
  have h: "hashable (?kv ! (i * 2)) \<and> ?hash i = longHash (?kv ! (i * 2)) (int N)" if i: "i < ?n" "?live i" for i
  proof -
    have "rd (ws_kv s) (Some (int i * 2)) = Some (ws_key s i)" using i(1) l(1) by (simp add: rd_def nat_mult_distrib)
    then show ?thesis using key [OF i(1)] k [OF i(1)] live [OF i(1)] i(2) by simp
  qed
  obtain nx hs where r: "relink (Some (-2)) ?live ?hash [0..<?n] (replicate N (-1), replicate N (-1)) = Inr (nx, hs)"
    "table longHash hashable (-2) N {i. i < ?n \<and> ?live i} (\<lambda>i. ?kv ! (i * 2)) nx hs"
    "\<forall>j < N. j < ?n \<and> ?live j \<or> nx ! j = -1"
    using key_hash.table_relink [OF N, of ?live "\<lambda>i. ?kv ! (i * 2)" ?hash "-2" "Some (-2)", OF h] by auto
  have S: "{i. i < ?n \<and> ?live i} = {i. i < ?n \<and> ws_next s ! i \<noteq> -1}" using live by (intro Collect_cong) blast
  let ?s' = "\<lparr>ws_size = N, ws_kv = ?kv, ws_next = nx, ws_hash = hs, ws_count = ws_count s\<rparr>"
  have "wo_rehash s = Inr ?s'" using r(1) l by (simp add: wo_rehash_def Let_def N_def)
  moreover have "wo_pairs n ?s' = wo_pairs n s" if "n \<le> ?n" for n using key that by (simp add: wo_pairs_def)
  moreover have "\<forall>i < N. i < ?n \<and> ws_next s ! i \<noteq> -1 \<or> nx ! i = -1" using r(3) live by auto
  ultimately show ?thesis using r(2) S l(1) N(3) by (intro exI [of _ ?s']) simp
qed

lemma wo_rehash:
  assumes s: "wo_table e n s" "2 * ws_size s < 2 ^ 31"
  defines "N \<equiv> if ws_size s = 0 then 1 else ws_size s * 2"
  shows "\<exists>s'. wo_rehash s = Inr s' \<and> ws_size s' = N \<and> ws_count s' = ws_count s \<and> wo_pairs n s' = wo_pairs n s
    \<and> length (ws_kv s') = 2 * N \<and> table longHash hashable (-2) N {i. i < n \<and> ws_next s ! i \<noteq> -1} (ws_key s') (ws_next s') (ws_hash s')
    \<and> (\<forall>i < N. i < n \<and> ws_next s ! i \<noteq> -1 \<or> ws_next s' ! i = -1)"
proof -
  note l = wo_table_lengths [OF s(1)]
  have live: "i < ws_size s \<and> ws_next s ! i \<noteq> -1 \<longleftrightarrow> i < n \<and> ws_next s ! i \<noteq> -1" for i
    using l(4) s(1) unfolding wo_table_def by (meson le_less_linear less_le_trans)
  have "hashable (ws_key s i)" if "i < ws_size s" "ws_next s ! i \<noteq> -1" for i
    using s(1) live [of i] that by (simp add: wo_table_def table_def)
  from wo_rehash_links [OF l(1,2) s(2) this, folded N_def] l(4) show ?thesis unfolding live by blast
qed

text \<open>With chains that end with -2 nothing is lost.\<close>

lemma wo_rehash_all:
  assumes s: "wo_table (-2) n s" "2 * ws_size s < 2 ^ 31"
  shows "\<exists>s'. wo_rehash s = Inr s' \<and> ws_size s' = (if ws_size s = 0 then 1 else ws_size s * 2) \<and> ws_count s' = ws_count s
    \<and> wo_pairs n s' = wo_pairs n s \<and> wo_table (-2) n s'"
proof -
  have "ws_next s ! i \<noteq> -1" if "i < n" for i
    using that buckets_link [of "-2" _ "{0..<n}" "ws_next s" "ws_hash s" i] s(1) by (auto simp: wo_table_def table_def)
  then have S: "{i. i < n \<and> ws_next s ! i \<noteq> -1} = {0..<n}" by auto
  obtain s' where s': "wo_rehash s = Inr s'" "ws_size s' = (if ws_size s = 0 then 1 else ws_size s * 2)" "ws_count s' = ws_count s"
    "wo_pairs n s' = wo_pairs n s" "length (ws_kv s') = 2 * ws_size s'"
    "table longHash hashable (-2) (ws_size s') {0..<n} (ws_key s') (ws_next s') (ws_hash s')"
    "\<forall>i < ws_size s'. i < n \<or> ws_next s' ! i = -1"
    using wo_rehash [OF s] unfolding S by auto
  have "map fst (wo_pairs n s') = map fst (wo_pairs n s)" using s'(4) by simp
  then have "inj_on (ws_key s') {0..<n}" using s(1) unfolding wo_pairs_keys wo_table_def
    by (auto simp: inj_on_def)
  moreover have "n \<le> ws_size s'" using wo_table_lengths(4) [OF s(1)] s'(2) by auto
  ultimately have "wo_table (-2) n s'" using s' by (auto simp: wo_table_def)
  then show ?thesis using s' by blast
qed


subsection \<open>put\<close>

definition wo_told :: "wo_chunk \<Rightarrow> bool" where
  "wo_told c \<longleftrightarrow> wc_listener c \<and> js_and (wc_flags c) 1 \<noteq> 1"

lemma wo_put_entry:
  assumes "wo_wf e s" "hashable k" "wc_state c = Some s"
  shows "(if ws_size s \<noteq> 0 then bindr (longHash k (int (ws_size s))) (\<lambda>index. bindr (wo_find k index s) (\<lambda>entry. Inr (entry, index)))
       else Inr (-1, -1)) =
    Inr (if \<exists>i < ws_count s. ws_key s i = k then int (THE i. i < ws_count s \<and> ws_key s i = k) else -1,
         if ws_size s \<noteq> 0 then int (slot_of longHash (ws_size s) k) else -1)"
proof (cases "ws_size s = 0")
  case True
  then show ?thesis using assms(1) wo_table_lengths(4) [of e "ws_count s" s] by (simp add: wo_wf_def)
next
  case False
  have t: "wo_table e (ws_count s) s" using assms(1) by (simp add: wo_wf_def)
  obtain m where m: "wo_find k (int (slot_of longHash (ws_size s) k)) s = Inr m"
    "if \<exists>i < ws_count s. ws_key s i = k then 0 \<le> m \<and> nat m < ws_count s \<and> ws_key s (nat m) = k else m = -1"
    using wo_find [OF t assms(2)] False by blast
  have "(THE i. i < ws_count s \<and> ws_key s i = k) = nat m" if "\<exists>i < ws_count s. ws_key s i = k"
    using that m(2) t by (intro the_equality) (auto simp: wo_table_def inj_on_def)
  then show ?thesis using False wo_hash [OF t assms(2)] m by (auto split: if_splits)
qed

lemma wo_put_new:
  assumes s: "wo_wf (-2) s" "wc_state c = Some s" "hashable k" "wo_abs s k = None" "8 * (ws_count s + 1) \<le> 3 * 2 ^ 31"
  shows "\<exists>s'. wo_put k v c = Inr (c\<lparr>wc_state := Some s', wc_magic := wc_magic c + 1\<rparr>, wo_told c) \<and> wo_wf (-2) s'
    \<and> wo_pairs (ws_count s') s' = wo_pairs (ws_count s) s @ [(k, v)]"
proof -
  have t: "wo_table (-2) (ws_count s) s" using s(1) by (simp add: wo_wf_def)
  have none: "\<not> (\<exists>i < ws_count s. ws_key s i = k)" using s(4) wo_abs_None [OF s(1)] by auto
  define s0 where "s0 = s\<lparr>ws_count := ws_count s + 1\<rparr>"
  have t0: "wo_table (-2) (ws_count s) s0" "ws_size s0 = ws_size s" "wo_pairs (ws_count s) s0 = wo_pairs (ws_count s) s"
    "ws_count s0 = Suc (ws_count s)" using t by (simp_all add: s0_def wo_table_def wo_pairs_def)
  define grow where "grow = (if 4 * ws_count s0 > 3 * ws_size s0
     then bindr (wo_rehash s0) (\<lambda>s. bindr (longHash k (int (ws_size s))) (\<lambda>index. Inr (s, index)))
     else Inr (s0, if ws_size s \<noteq> 0 then int (slot_of longHash (ws_size s) k) else -1))"
  have "\<exists>s1. grow = Inr (s1, int (slot_of longHash (ws_size s1) k)) \<and> wo_table (-2) (ws_count s) s1 \<and> ws_count s1 = Suc (ws_count s)
     \<and> wo_pairs (ws_count s) s1 = wo_pairs (ws_count s) s \<and> ws_count s < ws_size s1"
  proof (cases "4 * ws_count s0 > 3 * ws_size s0")
    case True
    then have "2 * ws_size s0 < 2 ^ 31" using s(5) t0(2,4) by simp
    from wo_rehash_all [OF t0(1) this] obtain s1 where s1: "wo_rehash s0 = Inr s1"
      "ws_size s1 = (if ws_size s0 = 0 then 1 else ws_size s0 * 2)" "ws_count s1 = Suc (ws_count s)"
      "wo_pairs (ws_count s) s1 = wo_pairs (ws_count s) s" "wo_table (-2) (ws_count s) s1" using t0 by auto
    moreover have "ws_count s < ws_size s1" using s1(2) t0(2) wo_table_lengths(4) [OF t] by auto
    ultimately show ?thesis using True wo_hash [OF s1(5) s(3)] by (simp add: grow_def)
  next
    case False
    then show ?thesis using t0 by (intro exI [of _ s0]) (auto simp: grow_def)
  qed
  then obtain s1 where s1: "grow = Inr (s1, int (slot_of longHash (ws_size s1) k))" "wo_table (-2) (ws_count s) s1"
    "ws_count s1 = Suc (ws_count s)" "wo_pairs (ws_count s) s1 = wo_pairs (ws_count s) s" "ws_count s < ws_size s1" by blast
  have free: "\<forall>i < ws_count s. ws_key s1 i \<noteq> k"
    using none s1(4) wo_pairs_keys [of "ws_count s" s1] wo_pairs_keys [of "ws_count s" s] by auto
  let ?s' = "wo_store (Some (-2)) k v (int (slot_of longHash (ws_size s1) k)) (int (ws_count s)) s1"
  note st = wo_store [OF s1(2) s(3) free s1(5), of "Some (-2)" v]
  have "wo_put k v c = bindr grow (\<lambda>(s, index).
      Inr (wo_set_dirty (c\<lparr>wc_state := Some (wo_store (Some (-2)) k v index (int (ws_count s) - 1) s)\<rparr>)))"
    using wo_put_entry [OF s(1,3,2)] none s(2) by (simp add: wo_put_def grow_def s0_def Let_def)
  then have "wo_put k v c = Inr (c\<lparr>wc_state := Some ?s', wc_magic := wc_magic c + 1\<rparr>, wo_told c)"
    using s1(1,3) by (simp add: wo_set_dirty_def wo_told_def)
  moreover have "wo_wf (-2) ?s'" "wo_pairs (ws_count ?s') ?s' = wo_pairs (ws_count s) s @ [(k, v)]"
    using st s1(3,4) by (simp_all add: wo_wf_def)
  ultimately show ?thesis by blast
qed

lemma wo_put_present:
  assumes s: "wo_wf e s" "wc_state c = Some s" "hashable k" "i < ws_count s" "ws_key s i = k"
  shows "wo_put k v c = Inr (if ws_kv s ! (i + 1) = v then (c, False)
    else (c\<lparr>wc_state := Some (s\<lparr>ws_kv := (ws_kv s)[i + 1 := v]\<rparr>), wc_magic := wc_magic c + 1\<rparr>, wo_told c))"
proof -
  have t: "wo_table e (ws_count s) s" using s(1) by (simp add: wo_wf_def)
  have "(THE i. i < ws_count s \<and> ws_key s i = k) = i" using s(4,5) t by (auto simp: wo_table_def inj_on_def)
  moreover have "rd (ws_kv s) (Some (int i + 1)) = Some (ws_kv s ! (i + 1))" "wr (ws_kv s) (Some (int i + 1)) v = (ws_kv s)[i + 1 := v]"
    using s(4) wo_table_lengths [OF t] by (simp_all add: rd_def wr_def nat_add_distrib)
  ultimately show ?thesis using wo_put_entry [OF s(1,3,2)] s(2,4,5)
    by (auto simp: wo_put_def Let_def wo_set_dirty_def wo_told_def)
qed

end
