(* ===== verification/WorldOrderLive.thy ===== *)
theory WorldOrderLive
  imports WorldOrderSpec
begin

text \<open>
  The world order chunk in every state that loads, puts and rehashes leave: the chains may end with -1 (as loaded) or with -2
  (as put), and a world whose link is -1 is lost by a rehash.  \<open>wo_live L s\<close> says which slots are still in the chains.
\<close>

subsection \<open>Chains with different ends\<close>

definition loose :: "int \<Rightarrow> int" where
  "loose m = (if m < 0 then -2 else m)"

lemma loose_simps [simp]: "0 \<le> m \<Longrightarrow> loose m = m" "m < 0 \<Longrightarrow> loose m = -2" "loose (loose m) = loose m"
  by (simp_all add: loose_def)

lemma path_loose: "path nx i xs j \<Longrightarrow> path (map loose nx) i xs (if xs = [] then j else loose j)"
proof (induction xs arbitrary: i)
  case (Cons x xs)
  then show ?case using Cons.IH [of "nx ! x"] by (cases xs) auto
qed simp

lemma buckets_loose:
  assumes "buckets e own S nx hs" "e = -1 \<or> e = -2"
  shows "buckets (-2) own S (map loose nx) hs"
proof -
  have "\<exists>xs j. path (map loose nx) (hs ! b) xs j \<and> chain_end (-2) xs j \<and> set xs = {i \<in> S. own i = b}" if b: "b < length hs" for b
  proof -
    obtain xs j where xs: "path nx (hs ! b) xs j" "chain_end e xs j" "set xs = {i \<in> S. own i = b}"
      by (rule bucketsD [OF assms(1) b])
    have "chain_end (-2) xs (if xs = [] then j else loose j)" using xs(2) assms(2) by (auto simp: chain_end_def)
    then show ?thesis using path_loose [OF xs(1)] xs(3) by blast
  qed
  then show ?thesis using assms(1) by (simp add: buckets_def)
qed

lemma chain_find_start: "chain_find p nx (map_option loose m) = chain_find p nx m"
proof (cases m)
  case (Some j)
  show ?thesis
  proof (cases "0 \<le> j")
    case False
    then show ?thesis using Some by (simp add: chain_find.simps)
  qed (use Some in simp)
qed simp

lemma rd_loose: "rd (map loose nx) m = map_option loose (rd nx m)"
  by (auto simp: rd_def split: option.split)

lemma chain_find_loose_start:
  assumes "chain_find p (map loose nx) (map_option loose m) = Some r"
  shows "chain_find p nx m = Some r"
proof -
  have "\<forall>nx m. nx' = map loose nx \<longrightarrow> m' = map_option loose m \<longrightarrow> chain_find p nx m = Some r" if "chain_find p nx' m' = Some r" for nx' m'
  proof (rule chain_find.raw_induct [OF _ that, where P = "\<lambda>p nx' m' r. \<forall>nx m. nx' = map loose nx \<longrightarrow> m' = map_option loose m \<longrightarrow> chain_find p nx m = Some r"])
    fix find p nx' m' r
    assume ih: "\<And>p nx' m' r. find p nx' m' = Some r \<Longrightarrow> \<forall>nx m. nx' = map loose nx \<longrightarrow> m' = map_option loose m \<longrightarrow> chain_find p nx m = Some r"
      and b: "(case m' of None \<Rightarrow> Some (-1) | Some j \<Rightarrow> if 0 \<le> j then if p j then Some j else find p nx' (rd nx' m') else Some (-1)) = Some r"
    show "\<forall>nx m. nx' = map loose nx \<longrightarrow> m' = map_option loose m \<longrightarrow> chain_find p nx m = Some r"
    proof (intro allI impI)
      fix nx m assume n: "nx' = map loose nx" and m: "m' = map_option loose m"
      show "chain_find p nx m = Some r"
      proof (cases "\<exists>j. m = Some j \<and> 0 \<le> j \<and> \<not> p j")
        case True
        then obtain j where j: "m = Some j" "0 \<le> j" "\<not> p j" by blast
        then have "find p nx' (map_option loose (rd nx (Some j))) = Some r" using b n m by (simp add: rd_loose)
        then have "chain_find p nx (rd nx (Some j)) = Some r" using ih n by blast
        then show ?thesis using j by (subst chain_find.simps) simp
      next
        case False
        then show ?thesis using b m by (subst chain_find.simps) (auto simp: loose_def split: option.splits if_splits)
      qed
    qed
  qed
  then show ?thesis using assms by blast
qed

lemma chain_find_loose: "chain_find p (map loose nx) m = Some r \<Longrightarrow> chain_find p nx m = Some r"
  using chain_find_loose_start chain_find_start by metis

lemma bucket_link_loose:
  assumes "buckets (-2) own S (map loose nx) hs" "b < length hs" "i < length nx" "bucket_link (Some (-2)) (int b) (int i) (nx, hs) = (nx', hs')"
  shows "bucket_link (Some (-2)) (int b) (int i) (map loose nx, hs) = (map loose nx', hs')" "length nx' = length nx"
    "\<forall>j. j \<noteq> i \<longrightarrow> nx' ! j = nx ! j"
proof -
  obtain xs j where "path (map loose nx) (hs ! b) xs j" "chain_end (-2) xs j" by (rule bucketsD [OF assms(1,2)])
  then have "hs ! b = -1 \<or> loose (hs ! b) = hs ! b" by (cases xs) (auto simp: chain_end_def)
  then show "bucket_link (Some (-2)) (int b) (int i) (map loose nx, hs) = (map loose nx', hs')" "length nx' = length nx"
    "\<forall>j. j \<noteq> i \<longrightarrow> nx' ! j = nx ! j"
    using assms(2-4) by (auto simp: bucket_link_def Let_def wrn_def map_update split: if_splits)
qed

subsection \<open>Invariant\<close>

definition wo_linked :: "nat set \<Rightarrow> wo_state \<Rightarrow> bool" where
  "wo_linked L s \<longleftrightarrow> length (ws_kv s) = 2 * ws_size s \<and> inj_on (ws_key s) L
     \<and> table longHash hashable (-2) (ws_size s) L (ws_key s) (map loose (ws_next s)) (ws_hash s)
     \<and> (\<forall>i < ws_size s. i \<notin> L \<longrightarrow> ws_next s ! i = -1)"

definition wo_live :: "nat set \<Rightarrow> wo_state \<Rightarrow> bool" where
  "wo_live L s \<longleftrightarrow> wo_linked L s \<and> ws_count s \<le> ws_size s \<and> L \<subseteq> {0..<ws_count s}"

text \<open>What the chunk holds: the pairs of the slots in the chains.\<close>

definition wo_worlds :: "nat set \<Rightarrow> wo_state \<Rightarrow> int \<rightharpoonup> int" where
  "wo_worlds L s = map_of (map (\<lambda>i. (ws_key s i, ws_kv s ! (i * 2 + 1))) (filter (\<lambda>i. i \<in> L) [0..<ws_count s]))"

text \<open>A chunk that was only loaded, or only put into, has all its worlds.\<close>

lemma wo_wf_live:
  assumes "wo_wf e s" "e = -1 \<or> e = -2"
  shows "wo_live {0..<ws_count s} s" "wo_worlds {0..<ws_count s} s = wo_abs s"
proof -
  have t: "table longHash hashable e (ws_size s) {0..<ws_count s} (ws_key s) (ws_next s) (ws_hash s)"
    using assms(1) by (simp add: wo_wf_def wo_table_def)
  then have "table longHash hashable (-2) (ws_size s) {0..<ws_count s} (ws_key s) (map loose (ws_next s)) (ws_hash s)"
    using buckets_loose [OF _ assms(2)] by (simp add: table_def)
  then show "wo_live {0..<ws_count s} s" using assms(1) by (simp add: wo_live_def wo_linked_def wo_wf_def wo_table_def)
  have "filter (\<lambda>i. i \<in> {0..<ws_count s}) [0..<ws_count s] = [0..<ws_count s]" by (rule filter_True) simp
  then show "wo_worlds {0..<ws_count s} s = wo_abs s" by (simp only: wo_worlds_def wo_abs_def wo_pairs_def)
qed

lemma wo_liveD:
  assumes "wo_live L s"
  shows "length (ws_kv s) = 2 * ws_size s" "length (ws_next s) = ws_size s" "length (ws_hash s) = ws_size s" "ws_count s \<le> ws_size s"
    "ws_size s < 2 ^ 31" "i \<in> L \<Longrightarrow> i < ws_count s \<and> hashable (ws_key s i)"
    "table longHash hashable (-2) (ws_size s) L (ws_key s) (map loose (ws_next s)) (ws_hash s)" "inj_on (ws_key s) L"
  using assms by (auto simp: wo_live_def wo_linked_def table_def)

lemma wo_worlds_iff:
  assumes "wo_live L s"
  shows "wo_worlds L s k = Some v \<longleftrightarrow> (\<exists>i \<in> L. ws_key s i = k \<and> ws_kv s ! (i * 2 + 1) = v)"
proof -
  let ?is = "filter (\<lambda>i. i \<in> L) [0..<ws_count s]"
  have L: "set ?is = L" using assms by (auto simp: wo_live_def)
  then have "distinct (map (ws_key s) ?is)" using assms by (simp add: distinct_map wo_live_def wo_linked_def)
  then have "distinct (map fst (map (\<lambda>i. (ws_key s i, ws_kv s ! (i * 2 + 1))) ?is))" by (simp add: comp_def)
  then have "wo_worlds L s k = Some v \<longleftrightarrow> (k, v) \<in> set (map (\<lambda>i. (ws_key s i, ws_kv s ! (i * 2 + 1))) ?is)"
    unfolding wo_worlds_def by (rule map_of_eq_Some_iff)
  also have "\<dots> \<longleftrightarrow> (\<exists>i \<in> L. ws_key s i = k \<and> ws_kv s ! (i * 2 + 1) = v)" unfolding set_map L by auto
  finally show ?thesis .
qed

lemma wo_worlds_None: "wo_live L s \<Longrightarrow> wo_worlds L s k = None \<longleftrightarrow> (\<forall>i \<in> L. ws_key s i \<noteq> k)"
  using wo_worlds_iff by (metis not_None_eq)

subsection \<open>Lookup\<close>

lemma wo_find_live:
  assumes "wo_live L s" "hashable k" "0 < ws_size s"
  shows "\<exists>m. wo_find k (int (slot_of longHash (ws_size s) k)) s = Inr m \<and>
    (if \<exists>i \<in> L. ws_key s i = k then 0 \<le> m \<and> nat m \<in> L \<and> ws_key s (nat m) = k else m = -1)"
proof -
  let ?p = "\<lambda>m. rd (ws_kv s) (Some (m * 2)) = Some k"
  note l = wo_liveD [OF assms(1)]
  have "?p (int i) \<longleftrightarrow> ws_key s i = k" if "i \<in> L" for i
    using l(1,4) l(6) [OF that] by (simp add: rd_def nat_mult_distrib)
  from key_hash.table_lookup [OF l(7) assms(2,3), of ?p, OF this]
  obtain m where m: "chain_find ?p (map loose (ws_next s)) (rd (ws_hash s) (Some (int (slot_of longHash (ws_size s) k)))) = Some m"
    "if \<exists>i \<in> L. ws_key s i = k then 0 \<le> m \<and> nat m \<in> L \<and> ws_key s (nat m) = k else m = -1" by blast
  have "wo_find k (int (slot_of longHash (ws_size s) k)) s = Inr m"
    using chain_find_loose [OF m(1)] by (simp only: wo_find_def of_loop_simps)
  then show ?thesis using m(2) by blast
qed

lemma wo_get_live:
  assumes "wc_state c = Some s" "wo_live L s" "hashable k"
  shows "wo_get k c = Inr (Some (case wo_worlds L s k of None \<Rightarrow> NULL_LONG | Some v \<Rightarrow> v))"
proof (cases "ws_size s = 0")
  case True
  then have "L = {}" using assms(2) by (auto simp: wo_live_def)
  then show ?thesis using True assms(1) by (simp add: wo_get_def wo_worlds_def)
next
  case False
  note l = wo_liveD [OF assms(2)]
  obtain m where m: "wo_find k (int (slot_of longHash (ws_size s) k)) s = Inr m"
    "if \<exists>i \<in> L. ws_key s i = k then 0 \<le> m \<and> nat m \<in> L \<and> ws_key s (nat m) = k else m = -1"
    using wo_find_live [OF assms(2,3)] False by blast
  have "longHash k (int (ws_size s)) = Inr (int (slot_of longHash (ws_size s) k))"
    using key_hash.slot_of [OF assms(3) _ l(5)] False by simp
  then have g: "wo_get k c = Inr (if m \<ge> 0 then rd (ws_kv s) (Some (m * 2 + 1)) else Some NULL_LONG)"
    using False assms m(1) by (simp add: wo_get_def)
  show ?thesis
  proof (cases "\<exists>i \<in> L. ws_key s i = k")
    case True
    then have i: "0 \<le> m" "nat m \<in> L" "ws_key s (nat m) = k" using m(2) by simp_all
    then have "wo_worlds L s k = Some (ws_kv s ! (nat m * 2 + 1))" using wo_worlds_iff [OF assms(2)] by auto
    moreover have "rd (ws_kv s) (Some (m * 2 + 1)) = Some (ws_kv s ! (nat m * 2 + 1))"
      using i(1) l(1,4) l(6) [OF i(2)] nat_less_iff [OF i(1), of "ws_size s"] by (simp add: rd_def nat_mult_distrib nat_add_distrib)
    ultimately show ?thesis using g i(1) by simp
  next
    case False
    then show ?thesis using g m(2) wo_worlds_None [OF assms(2), of k] by auto
  qed
qed

lemma wo_each_live: "wo_live L s \<Longrightarrow> wo_each s = map (\<lambda>(k, v). (Some k, Some v)) (wo_pairs (ws_count s) s)"
  using wo_liveD(1,4) [of L s] by (auto simp: wo_each_def wo_pairs_def rd_def nat_mult_distrib nat_add_distrib)

subsection \<open>A new world\<close>

lemma wo_store_linked:
  fixes v :: int
  assumes "wo_linked L s" "hashable k" "\<forall>i \<in> L. ws_key s i \<noteq> k" "n \<notin> L" "n < ws_size s"
  defines "s' \<equiv> wo_store (Some (-2)) k v (int (slot_of longHash (ws_size s) k)) (int n) s"
  shows "wo_linked (insert n L) s'" "wo_pairs (Suc n) s' = wo_pairs n s @ [(k, v)]" "ws_size s' = ws_size s" "ws_count s' = ws_count s"
proof -
  let ?b = "slot_of longHash (ws_size s) k" and ?kv = "(ws_kv s)[n * 2 := k, n * 2 + 1 := v]"
  have l: "length (ws_kv s) = 2 * ws_size s" "length (ws_next s) = ws_size s" "length (ws_hash s) = ws_size s"
    and t: "table longHash hashable (-2) (ws_size s) L (ws_key s) (map loose (ws_next s)) (ws_hash s)"
    using assms(1) by (simp_all add: wo_linked_def table_def)
  obtain nx hs where b: "bucket_link (Some (-2)) (int ?b) (int n) (ws_next s, ws_hash s) = (nx, hs)" by fastforce
  have "?b < length (ws_hash s)" using key_hash.slot_of [OF assms(2), of "ws_size s"] t assms(5) l(3) by (simp add: table_def)
  note bl = bucket_link_loose [OF _ this _ b, of "\<lambda>i. slot_of longHash (ws_size s) (ws_key s i)" L]
  have nx: "bucket_link (Some (-2)) (int ?b) (int n) (map loose (ws_next s), ws_hash s) = (map loose nx, hs)"
    "length nx = ws_size s" "\<forall>j. j \<noteq> n \<longrightarrow> nx ! j = ws_next s ! j"
    using bl t assms(5) l(2) by (simp_all add: table_def)
  have key: "?kv ! (i * 2) = (if i = n then k else ws_key s i)" "i \<noteq> n \<Longrightarrow> ?kv ! (i * 2 + 1) = ws_kv s ! (i * 2 + 1)"
    "?kv ! (n * 2 + 1) = v" for i
    using assms(5) l(1) by (simp_all add: nth_list_update)
  have t': "table longHash hashable (-2) (ws_size s) (insert n L) (\<lambda>i. ?kv ! (i * 2)) (map loose nx) hs"
    using key_hash.table_insert [OF t assms(4,5,2), of "\<lambda>i. ?kv ! (i * 2)" "Some (-2)"] nx(1) assms(4) unfolding key(1) by fastforce
  have "wr (wr (ws_kv s) (Some (int n * 2)) k) (Some (int n * 2 + 1)) v = ?kv"
    using assms(5) l(1) by (simp add: wr_def nat_mult_distrib nat_add_distrib)
  then have s': "s' = s\<lparr>ws_kv := ?kv, ws_next := nx, ws_hash := hs\<rparr>" using b by (simp add: s'_def wo_store_def)
  have "inj_on (\<lambda>i. ?kv ! (i * 2)) (insert n L)"
    unfolding key(1) using assms(1,3,4) by (auto simp: wo_linked_def inj_on_def)
  moreover have "\<forall>i < ws_size s. i \<notin> insert n L \<longrightarrow> nx ! i = -1" using assms(1) nx(3) by (simp add: wo_linked_def)
  ultimately show "wo_linked (insert n L) s'" using t' l(1) unfolding s' wo_linked_def by simp
  have "wo_pairs n s' = wo_pairs n s" unfolding s' wo_pairs_def using key by (intro map_cong) auto
  then show "wo_pairs (Suc n) s' = wo_pairs n s @ [(k, v)]" using key(1) [of n] key(3) by (simp add: wo_pairs_def s')
  show "ws_size s' = ws_size s" "ws_count s' = ws_count s" by (simp_all add: s')
qed

text \<open>The slots that are kept when a world is put: a rehash loses those whose link is -1.\<close>

definition wo_kept :: "nat set \<Rightarrow> wo_state \<Rightarrow> nat set" where
  "wo_kept L s = (if 4 * (ws_count s + 1) > 3 * ws_size s then {i \<in> L. ws_next s ! i \<noteq> -1} else L)"

lemma wo_room:
  assumes "wo_live L s" "8 * (ws_count s + 1) \<le> 3 * 2 ^ 31"
  defines "s0 \<equiv> s\<lparr>ws_count := ws_count s + 1\<rparr>"
  shows "\<exists>s1. (if 4 * ws_count s0 > 3 * ws_size s0 then wo_rehash s0 else Inr s0) = Inr s1 \<and> wo_linked (wo_kept L s) s1
     \<and> ws_count s < ws_size s1 \<and> ws_count s1 = ws_count s + 1 \<and> wo_pairs (ws_count s) s1 = wo_pairs (ws_count s) s"
proof (cases "4 * ws_count s0 > 3 * ws_size s0")
  case False
  then show ?thesis using assms(1) by (auto simp: s0_def wo_kept_def wo_live_def wo_linked_def wo_pairs_def)
next
  case True
  note l = wo_liveD [OF assms(1)]
  have out: "i \<in> L" if "i < ws_size s" "ws_next s ! i \<noteq> -1" for i using assms(1) that by (auto simp: wo_live_def wo_linked_def)
  then have K: "{i. i < ws_size s \<and> ws_next s ! i \<noteq> -1} = wo_kept L s"
    using True l(4,6) by (auto simp: wo_kept_def s0_def dest: less_le_trans)
  define N where "N = (if ws_size s = 0 then 1 else ws_size s * 2)"
  have f: "ws_kv s0 = ws_kv s" "ws_next s0 = ws_next s" "ws_size s0 = ws_size s" "ws_count s0 = ws_count s + 1" by (simp_all add: s0_def)
  have "2 * ws_size s < 2 ^ 31" using True assms(2) f by simp
  moreover have "hashable (ws_key s i)" if "i < ws_size s" "ws_next s ! i \<noteq> -1" for i using out [OF that] l(6) by simp
  ultimately obtain s1 where s1: "wo_rehash s0 = Inr s1" "ws_size s1 = N" "ws_count s1 = ws_count s + 1" "\<forall>n \<le> ws_size s. wo_pairs n s1 = wo_pairs n s0"
    "length (ws_kv s1) = 2 * N" "table longHash hashable (-2) N (wo_kept L s) (ws_key s1) (ws_next s1) (ws_hash s1)"
    "\<forall>i < N. i < ws_size s \<and> ws_next s ! i \<noteq> -1 \<or> ws_next s1 ! i = -1"
    using wo_rehash_links [of s0, unfolded f, folded N_def] l(1,2) K by auto
  have gone: "\<forall>i < N. i \<in> wo_kept L s \<or> ws_next s1 ! i = -1" using s1(7) K by blast
  have "wo_pairs (ws_count s) s0 = wo_pairs (ws_count s) s" by (simp add: wo_pairs_def s0_def)
  then have p: "wo_pairs (ws_count s) s1 = wo_pairs (ws_count s) s" using s1(4) l(4) by simp
  then have "ws_key s1 i = ws_key s i" if "i < ws_count s" for i using that by (auto simp: wo_pairs_def)
  moreover have "wo_kept L s \<subseteq> L" by (auto simp: wo_kept_def)
  ultimately have "inj_on (ws_key s1) (wo_kept L s)" using l(6,8) by (auto simp: inj_on_def subset_iff)
  moreover have "table longHash hashable (-2) N (wo_kept L s) (ws_key s1) (map loose (ws_next s1)) (ws_hash s1)"
    using s1(6) buckets_loose [of "-2"] by (simp add: table_def)
  moreover have "ws_count s < N" using l(4) by (auto simp: N_def)
  ultimately show ?thesis using True s1(1-3,5) p gone by (intro exI [of _ s1]) (auto simp: wo_linked_def)
qed

lemma wo_put_live:
  assumes "wc_state c = Some s" "wo_live L s" "hashable k" "\<forall>i \<in> L. ws_key s i \<noteq> k" "8 * (ws_count s + 1) \<le> 3 * 2 ^ 31"
  shows "\<exists>s'. wo_put k v c = Inr (c\<lparr>wc_state := Some s', wc_magic := wc_magic c + 1\<rparr>, wo_told c)
    \<and> wo_live (insert (ws_count s) (wo_kept L s)) s' \<and> wo_pairs (ws_count s') s' = wo_pairs (ws_count s) s @ [(k, v)]"
proof -
  note l = wo_liveD [OF assms(2)]
  let ?n = "ws_count s" and ?K = "wo_kept L s"
  define s0 where "s0 = s\<lparr>ws_count := ?n + 1\<rparr>"
  have hash: "longHash k (int (ws_size t)) = Inr (int (slot_of longHash (ws_size t) k))" if "wo_linked M t" "0 < ws_size t" for M t
    using key_hash.slot_of [OF assms(3) that(2)] that(1) by (simp add: wo_linked_def table_def)
  have entry: "(if ws_size s \<noteq> 0 then bindr (longHash k (int (ws_size s))) (\<lambda>index. bindr (wo_find k index s) (\<lambda>entry. Inr (entry, index)))
       else Inr (-1, -1)) = Inr (-1, if ws_size s \<noteq> 0 then int (slot_of longHash (ws_size s) k) else -1)"
    using wo_find_live [OF assms(2,3)] hash [of L s] assms(2,4) by (auto simp: wo_live_def)
  obtain s1 where s1: "(if 4 * ws_count s0 > 3 * ws_size s0 then wo_rehash s0 else Inr s0) = Inr s1" "wo_linked ?K s1"
    "?n < ws_size s1" "ws_count s1 = ?n + 1" "wo_pairs ?n s1 = wo_pairs ?n s"
    using wo_room [OF assms(2,5), folded s0_def] by blast
  have K: "?K \<subseteq> L" "?n \<notin> ?K" "\<forall>i \<in> ?K. i < ?n" using l(6) by (auto simp: wo_kept_def)
  have "ws_key s1 i = ws_key s i" if "i < ?n" for i using s1(5) that by (auto simp: wo_pairs_def)
  then have free: "\<forall>i \<in> ?K. ws_key s1 i \<noteq> k" using K(1) l(6) assms(4) by (metis subsetD)
  note st = wo_store_linked [OF s1(2) assms(3) free K(2) s1(3), of v]
  let ?s' = "wo_store (Some (-2)) k v (int (slot_of longHash (ws_size s1) k)) (int ?n) s1"
  define grow where "grow = (if 4 * ws_count s0 > 3 * ws_size s0
       then bindr (wo_rehash s0) (\<lambda>s. bindr (longHash k (int (ws_size s))) (\<lambda>index. Inr (s, index)))
       else Inr (s0, if ws_size s \<noteq> 0 then int (slot_of longHash (ws_size s) k) else -1))"
  have g: "grow = Inr (s1, int (slot_of longHash (ws_size s1) k))"
    using s1(1,3) hash [OF s1(2)] by (auto simp: grow_def s0_def split: if_splits)
  have "wo_put k v c = bindr grow (\<lambda>(s, index).
      Inr (wo_set_dirty (c\<lparr>wc_state := Some (wo_store (Some (-2)) k v index (int (ws_count s) - 1) s)\<rparr>)))"
    using assms(1) entry by (simp add: wo_put_def grow_def s0_def Let_def)
  then have "wo_put k v c = Inr (wo_set_dirty (c\<lparr>wc_state := Some ?s'\<rparr>))" using g s1(4) by simp
  moreover have "wo_live (insert ?n ?K) ?s'" using st s1(3,4) K(3) by (auto simp: wo_live_def less_Suc_eq)
  ultimately show ?thesis using st(2,4) s1(4,5) by (auto simp: wo_set_dirty_def wo_told_def)
qed

lemma wo_worlds_put:
  assumes "wo_live L s" "\<forall>i \<in> L. ws_key s i \<noteq> k" "K \<subseteq> L" "wo_pairs (ws_count s') s' = wo_pairs (ws_count s) s @ [(k, v)]"
  shows "wo_worlds (insert (ws_count s) K) s' = (wo_worlds K s)(k \<mapsto> v)"
proof -
  let ?n = "ws_count s" and ?f = "\<lambda>s i. (ws_key s i, ws_kv s ! (i * 2 + 1))"
  have n: "ws_count s' = Suc ?n" using arg_cong [OF assms(4), of length] by simp
  have K: "\<forall>i \<in> K. i < ?n \<and> ws_key s i \<noteq> k" using assms(1-3) wo_liveD(6) [OF assms(1)] by auto
  have at: "?f s' i = (wo_pairs ?n s @ [(k, v)]) ! i" if "i < Suc ?n" for i
    using that unfolding assms(4) [symmetric] n by (simp add: wo_pairs_def del: upt_Suc)
  then have last: "?f s' ?n = (k, v)" using length_wo_pairs [of ?n s] by (metis lessI nth_append_length)
  have "?f s' i = ?f s i" if "i < ?n" for i using at [of i] that by (simp add: nth_append) (simp add: wo_pairs_def)
  moreover have "filter (\<lambda>i. i \<in> insert ?n K) [0..<?n] = filter (\<lambda>i. i \<in> K) [0..<?n]" by (rule filter_cong) auto
  ultimately have "map (?f s') (filter (\<lambda>i. i \<in> insert ?n K) [0..<Suc ?n]) = map (?f s) (filter (\<lambda>i. i \<in> K) [0..<?n]) @ [(k, v)]"
    using last by (simp del: insert_iff) simp
  moreover have "map_of (map (?f s) (filter (\<lambda>i. i \<in> K) [0..<?n])) k = None" using K by (auto simp: map_of_eq_None_iff)
  ultimately show ?thesis unfolding wo_worlds_def n by (simp only: map_of_snoc)
qed

lemma wo_worlds_kept:
  assumes "wo_live L s" "K \<subseteq> L"
  shows "wo_worlds K s x = (if x \<in> ws_key s ` (L - K) then None else wo_worlds L s x)"
proof -
  have K: "wo_worlds K s x = Some v \<longleftrightarrow> (\<exists>i \<in> K. ws_key s i = x \<and> ws_kv s ! (i * 2 + 1) = v)" for v
  proof -
    let ?is = "filter (\<lambda>i. i \<in> K) [0..<ws_count s]"
    have S: "set ?is = K" using assms wo_liveD(6) [OF assms(1)] by auto
    moreover have "inj_on (ws_key s) K" using wo_liveD(8) [OF assms(1)] assms(2) by (rule inj_on_subset)
    ultimately have "distinct (map fst (map (\<lambda>i. (ws_key s i, ws_kv s ! (i * 2 + 1))) ?is))" by (simp add: comp_def distinct_map)
    from map_of_eq_Some_iff [OF this] show ?thesis unfolding wo_worlds_def set_map S by auto
  qed
  have "wo_worlds K s x = Some v \<longleftrightarrow> x \<notin> ws_key s ` (L - K) \<and> wo_worlds L s x = Some v" for v
    unfolding K wo_worlds_iff [OF assms(1)] using assms(2) wo_liveD(8) [OF assms(1)] by (auto simp: inj_on_def)
  then show ?thesis by (metis not_None_eq)
qed


lemma wo_live_all:
  assumes "wo_wf (-2) s" "wo_live L s"
  shows "L = {0..<ws_count s}" "wo_kept L s = L"
proof -
  have t: "wo_table (-2) (ws_count s) s" using assms(1) by (simp add: wo_wf_def)
  have n: "ws_next s ! i \<noteq> -1" if "i < ws_count s" for i
    using that buckets_link [of "-2" _ "{0..<ws_count s}" "ws_next s" "ws_hash s" i] t by (auto simp: wo_table_def table_def)
  have "i \<in> L" if "i < ws_count s" for i
  proof -
    have "i < ws_size s" using that assms(2) by (simp add: wo_live_def)
    then show ?thesis using n [OF that] assms(2) by (auto simp: wo_live_def wo_linked_def)
  qed
  then show "L = {0..<ws_count s}" using assms(2) by (auto simp: wo_live_def)
  then show "wo_kept L s = L" using n by (auto simp: wo_kept_def)
qed

end
