(* ===== verification/WorldOrderChunk.thy ===== *)
theory WorldOrderChunk
  imports WorldOrderLive
begin

text \<open>
  The payload of the world order chunk, and the properties of the chunk.
\<close>

subsection \<open>The loop over the bytes of a payload\<close>

fun scan_list :: "(int \<Rightarrow> jsnum \<Rightarrow> 'a \<Rightarrow> 'a result) \<Rightarrow> int \<Rightarrow> int list \<Rightarrow> 'a \<Rightarrow> 'a result" where
  "scan_list step cursor [] s = Inr s"
| "scan_list step cursor (b # bs) s = bindr (step cursor (Some b) s) (scan_list step (cursor + 1) bs)"

lemma scan_bytes_list:
  "reads src cursor bs \<Longrightarrow> n = cursor + int (length bs) \<Longrightarrow> scan_bytes step src (Some n) cursor s = scan_list step cursor bs s"
proof (induction bs arbitrary: cursor s)
  case Nil
  then show ?case by (simp add: scan_bytes.simps js_less_def)
next
  case (Cons b bs)
  then have "scan_bytes step src (Some n) (cursor + 1) = scan_list step (cursor + 1) bs" by (auto simp: reads_Cons)
  then show ?case using Cons.prems by (subst scan_bytes.simps) (simp add: reads_Cons js_less_def)
qed

lemma bindr_assoc: "bindr (bindr m f) g = bindr m (\<lambda>x. bindr (f x) g)"
  by (cases m) simp_all

lemma scan_list_append: "scan_list step cursor (xs @ ys) s = bindr (scan_list step cursor xs s) (scan_list step (cursor + int (length xs)) ys)"
proof (induction xs arbitrary: cursor s)
  case (Cons x xs)
  have "scan_list step (cursor + 1) (xs @ ys) = (\<lambda>s. bindr (scan_list step (cursor + 1) xs s) (scan_list step (cursor + 1 + int (length xs)) ys))"
    using Cons.IH by (intro ext)
  then show ?case by (simp add: bindr_assoc ac_simps)
qed simp

lemma scan_list_skip: "(\<And>c b s. b \<in> set bs \<Longrightarrow> step c (Some b) s = Inr s) \<Longrightarrow> scan_list step cursor bs s = Inr s"
  by (induction bs arbitrary: cursor) auto

lemma separators_dictionary: "CHUNK_SEP \<notin> set dictionary" "CHUNK_SUB_SUB_SEP \<notin> set dictionary"
  by code_simp+

lemma kb_symbols: "b \<in> set (kb k) \<Longrightarrow> b \<noteq> CHUNK_SEP \<and> b \<noteq> CHUNK_SUB_SEP \<and> b \<noteq> CHUNK_SUB_SUB_SEP"
  using separators_dictionary SUB_SEP_dictionary syms_dictionary [OF sym_int_symbols, of 8 k] by blast

lemma load_skip [simp]: "scan_list (wo_load_step src) cursor (kb k) l = Inr l"
  by (intro scan_list_skip) (use kb_symbols [of _ k] in \<open>simp add: wo_load_step_def\<close>)

subsection \<open>The bytes of save\<close>

abbreviation pb :: "int \<times> int \<Rightarrow> int list" where
  "pb p \<equiv> kb (fst p) @ CHUNK_SUB_SUB_SEP # kb (snd p)"

abbreviation tail_bytes :: "(int \<times> int) list \<Rightarrow> int list" where
  "tail_bytes ps \<equiv> concat (map (\<lambda>p. CHUNK_SUB_SEP # pb p) ps)"

definition pairs_bytes :: "(int \<times> int) list \<Rightarrow> int list" where
  "pairs_bytes ps = (case ps of [] \<Rightarrow> [] | p # ps \<Rightarrow> pb p @ tail_bytes ps)"

definition wo_bytes :: "nat \<Rightarrow> int \<Rightarrow> (int \<times> int) list \<Rightarrow> int list" where
  "wo_bytes n extra ps = (kb (int n) @ [CHUNK_SEP]) @ (if extra \<noteq> NULL_LONG then kb extra @ [CHUNK_SEP] else []) @ pairs_bytes ps"

lemma hb_rel_kb: "hb_rel h bs \<Longrightarrow> hb_rel (encodeLongToBuffer k h) (bs @ kb k)"
  unfolding encode_symbols by (rule hb_rel_syms [OF _ sym_int_symbols])

lemma hb_rel_sep: "hb_rel h bs \<Longrightarrow> c \<in> {CHUNK_SEP, CHUNK_SUB_SEP, CHUNK_SUB_SUB_SEP} \<Longrightarrow> hb_rel (hb_write h c) (bs @ [c])"
  using hb_rel_write [of h bs c] by (auto simp: CHUNK_SEP_def CHUNK_SUB_SEP_def CHUNK_SUB_SUB_SEP_def to_int8_def)

lemma hb_rel_pair: "hb_rel h bs \<Longrightarrow> hb_rel (encodeLongToBuffer v (hb_write (encodeLongToBuffer k h) CHUNK_SUB_SUB_SEP)) (bs @ pb (k, v))"
  using hb_rel_kb [OF hb_rel_sep [OF hb_rel_kb, of h bs CHUNK_SUB_SUB_SEP k], of v] by simp

lemma save_pairs_tail: "hb_rel h bs \<Longrightarrow> hb_rel (save_pairs False ps h) (bs @ tail_bytes ps)"
proof (induction ps arbitrary: h bs)
  case (Cons p ps)
  obtain k v where p: "p = (k, v)" by (cases p)
  have "hb_rel (hb_write h CHUNK_SUB_SEP) (bs @ [CHUNK_SUB_SEP])" using hb_rel_sep [OF Cons.prems] by simp
  from Cons.IH [OF hb_rel_pair [OF this, of v k]] show ?case by (simp add: p)
qed simp

lemma save_pairs_bytes: "hb_rel h bs \<Longrightarrow> hb_rel (save_pairs True ps h) (bs @ pairs_bytes ps)"
proof (cases ps)
  case (Cons p qs)
  assume h: "hb_rel h bs"
  obtain k v where p: "p = (k, v)" by (cases p)
  from save_pairs_tail [OF hb_rel_pair [OF h, of v k], of qs] show ?thesis by (simp add: Cons p pairs_bytes_def)
qed (simp add: pairs_bytes_def)

lemma wo_save_bytes:
  assumes "wc_state c = Some s"
  shows "\<exists>b. wo_save c newHeapBuffer = Inr b \<and> heap_holds b (wo_bytes (ws_count s) (wc_extra c) (wo_pairs (ws_count s) s))"
proof -
  let ?h0 = "hb_write (encodeLongToBuffer (int (ws_count s)) newHeapBuffer) CHUNK_SEP"
  have h0: "hb_rel ?h0 (kb (int (ws_count s)) @ [CHUNK_SEP])"
    using hb_rel_sep [OF hb_rel_kb [OF hb_rel_new], of CHUNK_SEP "int (ws_count s)"] by simp
  let ?h1 = "if wc_extra c \<noteq> NULL_LONG then hb_write (encodeLongToBuffer (wc_extra c) ?h0) CHUNK_SEP else ?h0"
  have "hb_rel ?h1 ((kb (int (ws_count s)) @ [CHUNK_SEP]) @ (if wc_extra c \<noteq> NULL_LONG then kb (wc_extra c) @ [CHUNK_SEP] else []))"
    using h0 hb_rel_sep [OF hb_rel_kb [OF h0], of CHUNK_SEP "wc_extra c"] by simp
  from save_pairs_bytes [OF this, of "wo_pairs (ws_count s) s"]
  have "hb_rel (save_pairs True (wo_pairs (ws_count s) s) ?h1) (wo_bytes (ws_count s) (wc_extra c) (wo_pairs (ws_count s) s))"
    by (simp add: wo_bytes_def)
  moreover have "wo_bytes (ws_count s) (wc_extra c) (wo_pairs (ws_count s) s) \<noteq> []" by (simp add: wo_bytes_def)
  ultimately show ?thesis using assms
    by (auto simp: wo_save_def heap_holds_def hb_rel_def Let_def split: option.splits)
qed

subsection \<open>Load\<close>

text \<open>A key that was read and waits for its value, which ends at \<open>e\<close>.\<close>

definition pending :: "(int \<Rightarrow> jsnum result) \<Rightarrow> int \<Rightarrow> wo_locals \<Rightarrow> int \<times> int \<Rightarrow> nat \<Rightarrow> wo_state \<Rightarrow> bool" where
  "pending src e l p j t \<longleftrightarrow> wl_loopKey l = fst p \<and> fst p \<noteq> NULL_LONG \<and> wl_temp l = Some t \<and> wl_capacity l = int (ws_size t)
     \<and> wl_insertIndex l = int j \<and> wl_initDone l \<and> decodeToLongWithBounds src (wl_previousStart l) e = Inr (snd p)
     \<and> wo_table (-1) j t \<and> hashable (fst p) \<and> (\<forall>i < j. ws_key t i \<noteq> fst p) \<and> j < ws_size t"

lemma pending_pair:
  assumes "pending src e l p j t"
  shows "\<exists>t'. wo_load_pair src e t l = Inr (l\<lparr>wl_temp := Some t', wl_insertIndex := int j + 1, wl_loopKey := NULL_LONG\<rparr>)
    \<and> wo_table (-1) (Suc j) t' \<and> wo_pairs (Suc j) t' = wo_pairs j t @ [p] \<and> ws_size t' = ws_size t \<and> ws_count t' = ws_count t"
proof -
  have t: "wo_table (-1) j t" "hashable (fst p)" "\<forall>i < j. ws_key t i \<noteq> fst p" "j < ws_size t"
    using assms by (simp_all add: pending_def)
  let ?t = "wo_store None (fst p) (snd p) (int (slot_of longHash (ws_size t) (fst p))) (int j) t"
  show ?thesis using assms wo_store [OF t, of None "snd p"] wo_hash [OF t(1,2)]
    by (intro exI [of _ ?t]) (simp add: wo_load_pair_def pending_def)
qed

lemma free_key: "distinct (map fst (wo_pairs j t @ p # ps)) \<Longrightarrow> i < j \<Longrightarrow> ws_key t i \<noteq> fst p"
  by (simp add: wo_pairs_keys) (metis atLeastLessThan_iff imageI zero_le)

lemma load_pairs:
  assumes "reads src q (pb p @ tail_bytes ps)" "wl_loopKey l = NULL_LONG" "wl_previousStart l = q" "wl_temp l = Some t"
    "wl_capacity l = int (ws_size t)" "wl_insertIndex l = int j" "wl_initDone l" "wo_table (-1) j t"
    "j + length (p # ps) \<le> ws_size t" "distinct (map fst (wo_pairs j t @ p # ps))"
    "\<forall>p \<in> set (p # ps). fst p \<noteq> NULL_LONG \<and> hashable (fst p) \<and> \<bar>fst p\<bar> < 2 ^ 53 \<and> \<bar>snd p\<bar> < 2 ^ 53"
  shows "\<exists>l' t' p'. scan_list (wo_load_step src) q (pb p @ tail_bytes ps) l = Inr l'
    \<and> pending src (q + int (length (pb p @ tail_bytes ps))) l' p' (j + length ps) t'
    \<and> wo_pairs (j + length ps) t' @ [p'] = wo_pairs j t @ p # ps \<and> ws_size t' = ws_size t \<and> ws_count t' = ws_count t \<and> wl_extra l' = wl_extra l"
  using assms
proof (induction ps arbitrary: q p l t j)
  case Nil
  let ?q = "q + int (length (kb (fst p))) + 1"
  have r: "reads src q (kb (fst p))" "reads src ?q (kb (snd p))" "src (q + int (length (kb (fst p)))) = Inr (Some CHUNK_SUB_SUB_SEP)"
    using Nil.prems(1) by (simp_all add: reads_append reads_Cons)
  let ?l = "l\<lparr>wl_loopKey := fst p, wl_previousStart := ?q\<rparr>"
  have scan: "scan_list (wo_load_step src) q (pb p) l = Inr ?l"
    using decode_kb [OF r(1) refl] Nil.prems(3,11)
    by (simp add: scan_list_append wo_load_step_def CHUNK_SUB_SUB_SEP_def CHUNK_SEP_def CHUNK_SUB_SEP_def)
  have "\<forall>i < j. ws_key t i \<noteq> fst p" using free_key [OF Nil.prems(10)] by simp
  then have "pending src (q + int (length (pb p))) ?l p j t"
    using decode_kb [OF r(2) refl] Nil.prems by (simp add: pending_def ac_simps)
  then show ?case using scan by (intro exI [of _ ?l] exI [of _ t] exI [of _ p]) simp
next
  case (Cons p2 ps)
  let ?q = "q + int (length (kb (fst p))) + 1" and ?e = "q + int (length (pb p))"
  have r: "reads src q (kb (fst p))" "reads src ?q (kb (snd p))" "reads src (?e + 1) (pb p2 @ tail_bytes ps)"
    using Cons.prems(1) by (simp_all add: reads_append reads_Cons ac_simps)
  let ?l = "l\<lparr>wl_loopKey := fst p, wl_previousStart := ?q\<rparr>"
  have scan: "scan_list (wo_load_step src) q (pb p) l = Inr ?l"
    using decode_kb [OF r(1) refl] Cons.prems(3,11)
    by (simp add: scan_list_append wo_load_step_def CHUNK_SUB_SUB_SEP_def CHUNK_SEP_def CHUNK_SUB_SEP_def)
  have "\<forall>i < j. ws_key t i \<noteq> fst p" using free_key [OF Cons.prems(10)] by simp
  then have "pending src ?e ?l p j t"
    using decode_kb [OF r(2) refl] Cons.prems by (simp add: pending_def ac_simps)
  from pending_pair [OF this] obtain t1 where t1:
    "wo_load_pair src ?e t ?l = Inr (?l\<lparr>wl_temp := Some t1, wl_insertIndex := int j + 1, wl_loopKey := NULL_LONG\<rparr>)"
    "wo_table (-1) (Suc j) t1" "wo_pairs (Suc j) t1 = wo_pairs j t @ [p]" "ws_size t1 = ws_size t" "ws_count t1 = ws_count t" by blast
  let ?l1 = "?l\<lparr>wl_temp := Some t1, wl_insertIndex := int j + 1, wl_loopKey := NULL_LONG, wl_previousStart := ?e + 1\<rparr>"
  have sep: "wo_load_step src ?e (Some CHUNK_SUB_SEP) ?l = Inr ?l1"
    using t1(1) Cons.prems(4,11) by (simp add: wo_load_step_def CHUNK_SUB_SEP_def CHUNK_SEP_def)
  have "\<exists>l' t' p'. scan_list (wo_load_step src) (?e + 1) (pb p2 @ tail_bytes ps) ?l1 = Inr l'
    \<and> pending src (?e + 1 + int (length (pb p2 @ tail_bytes ps))) l' p' (Suc j + length ps) t'
    \<and> wo_pairs (Suc j + length ps) t' @ [p'] = wo_pairs (Suc j) t1 @ p2 # ps \<and> ws_size t' = ws_size t1 \<and> ws_count t' = ws_count t1
    \<and> wl_extra l' = wl_extra ?l1"
    using Cons.prems t1 by (intro Cons.IH [OF r(3)]) simp_all
  moreover have "scan_list (wo_load_step src) q (pb p @ tail_bytes (p2 # ps)) l =
      scan_list (wo_load_step src) (?e + 1) (pb p2 @ tail_bytes ps) ?l1"
    by (subst scan_list_append) (use scan sep in simp)
  ultimately show ?case using t1 by (simp add: ac_simps)
qed


text \<open>The header: the count, and the extra number when it is not \<open>NULL_LONG\<close>.\<close>

definition loaded_head :: "nat \<Rightarrow> int \<Rightarrow> int \<Rightarrow> wo_locals \<Rightarrow> bool" where
  "loaded_head n extra q l \<longleftrightarrow> wl_loopKey l = NULL_LONG \<and> wl_previousStart l = q \<and> wl_initDone l \<and> wl_extra l = extra
     \<and> wl_insertIndex l = 0 \<and> wl_capacity l = int (if n = 0 then 1 else n * 2)
     \<and> wl_temp l = Some (wo_fresh (if n = 0 then 1 else n * 2) n)"

lemma load_head:
  fixes n :: nat and extra :: int
  defines "hd1 \<equiv> kb (int n) @ [CHUNK_SEP]" and "hd2 \<equiv> if extra \<noteq> NULL_LONG then kb extra @ [CHUNK_SEP] else []"
  assumes r: "reads src 0 (hd1 @ hd2)" and n: "n < 2 ^ 53" "\<bar>extra\<bar> < 2 ^ 53"
  shows "\<exists>l. scan_list (wo_load_step src) 0 (hd1 @ hd2)
      \<lparr>wl_loopKey = NULL_LONG, wl_previousStart = -1, wl_capacity = -1, wl_insertIndex = 0, wl_temp = None, wl_initDone = False,
        wl_extra = NULL_LONG\<rparr> = Inr l \<and> loaded_head n extra (int (length (hd1 @ hd2))) l"
proof -
  let ?N = "if n = 0 then 1 else n * 2"
  let ?l0 = "\<lparr>wl_loopKey = NULL_LONG, wl_previousStart = -1, wl_capacity = -1, wl_insertIndex = 0, wl_temp = None, wl_initDone = False,
        wl_extra = NULL_LONG\<rparr>"
  let ?l1 = "\<lparr>wl_loopKey = NULL_LONG, wl_previousStart = int (length hd1), wl_capacity = int ?N, wl_insertIndex = 0,
        wl_temp = Some (wo_fresh ?N n), wl_initDone = True, wl_extra = NULL_LONG\<rparr>"
  have r1: "reads src 0 (kb (int n))" "reads src (int (length hd1)) hd2" using r by (simp_all add: hd1_def reads_append reads_Cons ac_simps)
  have "\<bar>int n\<bar> < 2 ^ 53" using n(1) by simp
  from decode_kb [OF r1(1) refl this]
  have one: "scan_list (wo_load_step src) 0 hd1 ?l0 = Inr ?l1"
    by (cases "n = 0") (simp_all add: hd1_def scan_list_append wo_load_step_def nat_mult_distrib ac_simps)
  show ?thesis
  proof (cases "extra = NULL_LONG")
    case True
    then show ?thesis using one by (simp add: hd2_def loaded_head_def)
  next
    case False
    then have hd2: "hd2 = kb extra @ [CHUNK_SEP]" by (simp add: hd2_def)
    have "reads src (int (length hd1)) (kb extra)" using r1(2) by (simp add: hd2 reads_append)
    from decode_kb [OF this refl n(2)]
    have "scan_list (wo_load_step src) (int (length hd1)) hd2 ?l1 =
       Inr (?l1\<lparr>wl_extra := extra, wl_previousStart := int (length (hd1 @ hd2))\<rparr>)"
      by (simp add: hd2 scan_list_append wo_load_step_def ac_simps)
    then show ?thesis using one by (simp add: scan_list_append loaded_head_def)
  qed
qed

lemma wo_load_bytes:
  assumes src: "reads src 0 (wo_bytes (length ps) extra ps)" "sz = Some (int (length (wo_bytes (length ps) extra ps)))"
    and ps: "distinct (map fst ps)" "2 * length ps < 2 ^ 31" "\<bar>extra\<bar> < 2 ^ 53" "wc_extra c = NULL_LONG"
    "\<forall>p \<in> set ps. fst p \<noteq> NULL_LONG \<and> hashable (fst p) \<and> \<bar>fst p\<bar> < 2 ^ 53 \<and> \<bar>snd p\<bar> < 2 ^ 53"
  shows "\<exists>s. wo_load src sz c = Inr (c\<lparr>wc_extra := extra, wc_state := Some s\<rparr>) \<and> wo_wf (-1) s \<and> wo_pairs (ws_count s) s = ps"
proof -
  let ?n = "length ps"
  define head where "head = (kb (int ?n) @ [CHUNK_SEP]) @ (if extra \<noteq> NULL_LONG then kb extra @ [CHUNK_SEP] else [])"
  define q where "q = int (length head)"
  have bytes: "wo_bytes ?n extra ps = head @ pairs_bytes ps" "wo_bytes ?n extra ps \<noteq> []" by (simp_all add: wo_bytes_def head_def)
  have r: "reads src 0 head" "reads src q (pairs_bytes ps)" using src(1) by (simp_all add: bytes reads_append q_def)
  have "?n < 2 ^ 53" using ps(2) by simp
  then obtain l where l: "scan_list (wo_load_step src) 0 head
      \<lparr>wl_loopKey = NULL_LONG, wl_previousStart = -1, wl_capacity = -1, wl_insertIndex = 0, wl_temp = None, wl_initDone = False,
        wl_extra = NULL_LONG\<rparr> = Inr l" "loaded_head ?n extra q l"
    using load_head [of src ?n extra] r(1) ps(3) unfolding head_def q_def by blast
  have load: "wo_load src sz c = bindr (scan_list (wo_load_step src) q (pairs_bytes ps) l) (\<lambda>l.
       bindr (case wl_temp l of None \<Rightarrow> Inr l
              | Some t \<Rightarrow> if wl_loopKey l \<noteq> NULL_LONG then wo_load_pair src (q + int (length (pairs_bytes ps))) t l else Inr l) (\<lambda>l.
         Inr (c\<lparr>wc_extra := wl_extra l, wc_state := (case wl_temp l of None \<Rightarrow> wc_state c | t \<Rightarrow> t)\<rparr>)))"
  proof -
    have q: "0 < q" "sz = Some (q + int (length (pairs_bytes ps)))" using src(2) bytes(1) by (simp_all add: q_def head_def)
    have m: "max 0 (q + int (length (pairs_bytes ps))) = q + int (length (pairs_bytes ps))" using q(1) by simp
    have "scan_bytes (wo_load_step src) src sz 0 s = bindr (scan_list (wo_load_step src) 0 head s) (scan_list (wo_load_step src) q (pairs_bytes ps))" for s
      using scan_bytes_list [OF src(1), of "q + int (length (pairs_bytes ps))" "wo_load_step src" s] q(2)
      by (simp add: bytes(1) scan_list_append q_def)
    then show ?thesis using q l(1) ps(4) m by (simp add: wo_load_def cong: option.case_cong if_cong)
  qed
  show ?thesis
  proof (cases ps)
    case Nil
    then have "wo_wf (-1) (wo_fresh 1 0)" using wo_fresh_table [of "-1" 1 0] by (simp add: wo_wf_def wo_fresh_def)
    then show ?thesis using Nil load l(2) by (intro exI [of _ "wo_fresh 1 0"]) (simp add: pairs_bytes_def loaded_head_def wo_pairs_def wo_fresh_def)
  next
    case (Cons p qs)
    let ?t = "wo_fresh (?n * 2) ?n"
    have lh: "wl_loopKey l = NULL_LONG" "wl_previousStart l = q" "wl_temp l = Some ?t" "wl_capacity l = int (ws_size ?t)"
      "wl_insertIndex l = int 0" "wl_initDone l" "wl_extra l = extra"
      using l(2) Cons by (simp_all add: loaded_head_def wo_fresh_def)
    have t: "wo_table (-1) 0 ?t" "0 + length (p # qs) \<le> ws_size ?t" "wo_pairs 0 ?t = []"
      using wo_fresh_table [of "-1" "?n * 2" ?n] ps(2) Cons by (simp_all add: wo_fresh_def wo_pairs_def)
    have "reads src q (pb p @ tail_bytes qs)" using r(2) by (simp add: Cons pairs_bytes_def)
    moreover have "distinct (map fst (wo_pairs 0 ?t @ p # qs))" using ps(1) t(3) Cons by simp
    ultimately obtain l' t' p' where l': "scan_list (wo_load_step src) q (pb p @ tail_bytes qs) l = Inr l'"
      "pending src (q + int (length (pb p @ tail_bytes qs))) l' p' (length qs) t'"
      "wo_pairs (length qs) t' @ [p'] = p # qs" "ws_count t' = ?n" "wl_extra l' = extra"
      using load_pairs [of src q p qs l ?t 0] lh t ps(5) Cons by (auto simp: wo_fresh_def)
    obtain t2 where t2: "wo_load_pair src (q + int (length (pb p @ tail_bytes qs))) t' l' =
        Inr (l'\<lparr>wl_temp := Some t2, wl_insertIndex := int (length qs) + 1, wl_loopKey := NULL_LONG\<rparr>)"
      "wo_table (-1) (Suc (length qs)) t2" "wo_pairs (Suc (length qs)) t2 = wo_pairs (length qs) t' @ [p']" "ws_count t2 = ws_count t'"
      using pending_pair [OF l'(2)] by blast
    have "wl_temp l' = Some t'" "wl_loopKey l' \<noteq> NULL_LONG" using l'(2) by (auto simp: pending_def)
    then have "wo_load src sz c = Inr (c\<lparr>wc_extra := extra, wc_state := Some t2\<rparr>)"
      using load l'(1,5) t2(1) by (simp add: Cons pairs_bytes_def)
    then show ?thesis using t2 l'(3,4) Cons by (intro exI [of _ t2]) (simp add: wo_wf_def)
  qed
qed


subsection \<open>Properties\<close>

text \<open>A chunk with the pairs \<open>(1, 10)\<close> and \<open>(2, 20)\<close>, for the witnesses.\<close>

definition wo_sample :: wo_chunk where
  "wo_sample = \<lparr>wc_world = 0, wc_time = 0, wc_id = 0, wc_flags = 0, wc_marks = 0, wc_magic = 0, wc_extra = NULL_LONG,
     wc_listener = True, wc_state = Some (wo_fresh 16 0)\<rparr>"

lemma hashable_2: "hashable 2"
  by code_simp

lemma sample_state: "wo_wf (-2) (wo_fresh 16 0)" "wc_state wo_sample = Some (wo_fresh 16 0)" "wo_abs (wo_fresh 16 0) = Map.empty"
  "ws_count (wo_fresh 16 0) = 0" "wo_pairs 0 s = []"
  using wo_fresh_table [of "-2" 16 0] by (simp_all add: wo_wf_def wo_sample_def wo_abs_def wo_pairs_def wo_fresh_def)

lemma sample_pairs: "\<exists>(c :: wo_chunk) s. wc_state c = Some s \<and> wo_wf (-2) s \<and> wo_pairs (ws_count s) s = [(1, 10), (2, 20)]"
proof -
  obtain s1 where s1: "wo_wf (-2) s1" "wo_pairs (ws_count s1) s1 = [(1, 10)]"
    using wo_put_new [OF sample_state(1,2) hashable_1, of 10] sample_state by auto
  then have "wo_abs s1 2 = None" "ws_count s1 = 1" using length_wo_pairs [of "ws_count s1" s1] by (simp_all add: wo_abs_def)
  then obtain s2 where "wo_wf (-2) s2" "wo_pairs (ws_count s2) s2 = [(1, 10), (2, 20)]"
    using wo_put_new [OF s1(1) _ hashable_2, of "wo_sample\<lparr>wc_state := Some s1\<rparr>" 20] s1(2) by auto
  then show ?thesis by (intro exI [of _ "wo_sample\<lparr>wc_state := Some s2\<rparr>"]) auto
qed

lemma sample_loaded:
  "\<exists>(c :: wo_chunk) s. wc_state c = Some s \<and> wo_wf (-1) s \<and> wo_pairs 1 s = [(1, 10)] \<and> ws_count s = 1 \<and> ws_size s = 2 \<and> ws_next s ! 0 = -1"
proof -
  have t0: "wo_table (-1) 0 (wo_fresh 2 1)" by (rule wo_fresh_table) simp_all
  let ?s = "wo_store None 1 10 (int (slot_of longHash 2 1)) 0 (wo_fresh 2 1)"
  have s: "wo_table (-1) 1 ?s" "wo_pairs 1 ?s = [(1, 10)]" "ws_count ?s = 1" "ws_size ?s = 2"
    using wo_store [OF t0 hashable_1, of None 10] by (simp_all add: wo_fresh_def wo_pairs_def)
  have "slot_of longHash 2 1 < 2" using key_hash.slot_of [OF hashable_1, of 2] by simp
  then have "ws_next ?s ! 0 = -1" by (simp add: wo_store_def bucket_link_def wo_fresh_def)
  with s show ?thesis by (intro exI [of _ "wo_sample\<lparr>wc_state := Some ?s\<rparr>"] exI [of _ ?s]) (simp add: wo_wf_def)
qed

text \<open>Property C14.
  \<open>put\<close> of a world that is not in the chunk, on a chunk in any mixture of loaded and put worlds: the pair is added at the end, the table
  stays valid, the magic number goes up, a listener of a clean chunk is told, and \<open>each\<close> lists the pairs in the order of the puts.
  Every \<open>get\<close> then answers as before, but for the new world and, when the \<open>put\<close> needs a rehash, for the worlds whose link is -1
  (the first one of each bucket of a payload): the rehash takes their slots for empty ones, and \<open>get\<close> answers \<open>NULL_LONG\<close> for
  them.  On a chunk that was never loaded nothing is lost.\<close>

theorem wo_put_refines:
  assumes "wc_state c = Some s" "wo_live L s" "hashable k" "wo_worlds L s k = None" "8 * (ws_count s + 1) \<le> 3 * 2 ^ 31"
  shows "\<exists>c' s' K. wo_put k v c = Inr (c', wo_told c) \<and> wc_state c' = Some s' \<and> wc_magic c' = wc_magic c + 1
     \<and> K = (if 4 * (ws_count s + 1) > 3 * ws_size s then {i \<in> L. ws_next s ! i \<noteq> -1} else L)
     \<and> wo_live (insert (ws_count s) K) s' \<and> wo_worlds (insert (ws_count s) K) s' = (wo_worlds K s)(k \<mapsto> v)
     \<and> wo_size c' = Inr (ws_count s + 1) \<and> wo_each s' = wo_each s @ [(Some k, Some v)]
     \<and> (\<forall>x. hashable x \<longrightarrow> wo_get x c' =
          (if x = k then Inr (Some v) else if x \<in> ws_key s ` (L - K) then Inr (Some NULL_LONG) else wo_get x c))
     \<and> (wo_wf (-2) s \<longrightarrow> K = L \<and> wo_wf (-2) s' \<and> wo_abs s' = (wo_abs s)(k \<mapsto> v))"
proof -
  let ?n = "ws_count s" and ?K = "wo_kept L s"
  have none: "\<forall>i \<in> L. ws_key s i \<noteq> k" using wo_worlds_None [OF assms(2)] assms(4) by simp
  obtain s' where s': "wo_put k v c = Inr (c\<lparr>wc_state := Some s', wc_magic := wc_magic c + 1\<rparr>, wo_told c)" "wo_live (insert ?n ?K) s'"
    "wo_pairs (ws_count s') s' = wo_pairs ?n s @ [(k, v)]"
    using wo_put_live [OF assms(1-3) none assms(5)] by blast
  let ?c = "c\<lparr>wc_state := Some s', wc_magic := wc_magic c + 1\<rparr>"
  have K: "?K \<subseteq> L" by (auto simp: wo_kept_def)
  have m: "wo_worlds (insert ?n ?K) s' = (wo_worlds ?K s)(k \<mapsto> v)" by (rule wo_worlds_put [OF assms(2) none K s'(3)])
  have "wo_get x ?c = (if x = k then Inr (Some v) else if x \<in> ws_key s ` (L - ?K) then Inr (Some NULL_LONG) else wo_get x c)"
    if x: "hashable x" for x
    using wo_get_live [of ?c s', OF _ s'(2) x] wo_get_live [OF assms(1,2) x] m wo_worlds_kept [OF assms(2) K, of x] by simp
  moreover have "wo_size ?c = Inr (?n + 1)" using arg_cong [OF s'(3), of length] by (simp add: wo_size_def)
  moreover have "wo_each s' = wo_each s @ [(Some k, Some v)]" using wo_each_live [OF s'(2)] wo_each_live [OF assms(2)] s'(3) by simp
  moreover have "?K = L \<and> wo_wf (-2) s' \<and> wo_abs s' = (wo_abs s)(k \<mapsto> v)" if w: "wo_wf (-2) s"
  proof -
    note all = wo_live_all [OF w assms(2)]
    have n: "wo_abs s k = None" using assms(4) all wo_wf_live(2) [OF w] by simp
    obtain t where t: "wo_put k v c = Inr (c\<lparr>wc_state := Some t, wc_magic := wc_magic c + 1\<rparr>, wo_told c)" "wo_wf (-2) t"
      using wo_put_new [OF w assms(1,3) n assms(5)] by blast
    have "wc_state ?c = wc_state (c\<lparr>wc_state := Some t, wc_magic := wc_magic c + 1\<rparr>)" using t(1) s'(1) by simp
    then have "wo_wf (-2) s'" using t(2) by simp
    then show ?thesis using all s'(3) n unfolding wo_abs_def by (simp only: map_of_snoc simp_thms)
  qed
  ultimately show ?thesis using s'(1,2) m by (intro exI [of _ ?c] exI [of _ s'] exI [of _ ?K]) (simp add: wo_kept_def)
qed

text \<open>A chunk with one put world, and a loaded chunk, which loses its world at the next put.\<close>

theorem wo_put_refines_witness:
  "(\<exists>c'. wo_put 1 10 wo_sample = Inr (c', True) \<and> wo_get 1 c' = Inr (Some 10))
    \<and> (\<exists>c c' b. wo_get 1 c = Inr (Some 10) \<and> wo_put 2 20 c = Inr (c', b) \<and> wo_get 1 c' = Inr (Some NULL_LONG) \<and> wo_get 2 c' = Inr (Some 20))"
proof
  have t: "wo_told wo_sample" by (simp add: wo_told_def wo_sample_def js_and_0_1)
  have "wo_live {0..<0} (wo_fresh 16 0)" using wo_wf_live(1) [OF sample_state(1)] by (simp add: wo_fresh_def)
  from wo_put_refines [OF sample_state(2) this hashable_1, of 10] t
  show "\<exists>c'. wo_put 1 10 wo_sample = Inr (c', True) \<and> wo_get 1 c' = Inr (Some 10)"
    using hashable_1 by (auto simp: wo_worlds_def wo_fresh_def)
  obtain c :: wo_chunk and s where s: "wc_state c = Some s" "wo_wf (-1) s" "wo_pairs 1 s = [(1, 10)]" "ws_count s = 1" "ws_size s = 2" "ws_next s ! 0 = -1"
    using sample_loaded by blast
  have L: "wo_live {0..<1} s" "wo_worlds {0..<1} s = wo_abs s" using wo_wf_live [OF s(2)] s(4) by simp_all
  have a: "wo_abs s 2 = None" "wo_abs s 1 = Some 10" "ws_key s 0 = 1" using s(3,4) by (simp_all add: wo_abs_def wo_pairs_def)
  have g: "wo_get 1 c = Inr (Some 10)" using wo_get_live [OF s(1) L(1) hashable_1] L(2) a by simp
  have "\<exists>c'. wo_put 2 20 c = Inr (c', wo_told c) \<and> wo_get 2 c' = Inr (Some 20) \<and> wo_get 1 c' = Inr (Some NULL_LONG)"
    using wo_put_refines [OF s(1) L(1) hashable_2, of 20] L(2) a s(4-6) hashable_1 hashable_2 by fastforce
  with g show "\<exists>c c' b. wo_get 1 c = Inr (Some 10) \<and> wo_put 2 20 c = Inr (c', b) \<and> wo_get 1 c' = Inr (Some NULL_LONG) \<and> wo_get 2 c' = Inr (Some 20)"
    by blast
qed

text \<open>Further fact.
  \<open>put\<close> of a world that is there, in slot \<open>i\<close>, writes the word \<open>i + 1\<close> of the array instead of the value of
  the slot at \<open>2 * i + 1\<close>: the update works for the first slot only; for any other slot the value stays the
  old one, and with a new value for the second slot its own key is overwritten.\<close>

theorem wo_put_update:
  assumes "wc_state c = Some s" "wo_wf e s" "hashable k" "i < ws_count s" "ws_key s i = k" "ws_kv s ! (i + 1) \<noteq> v"
  shows "\<exists>c' s'. wo_put k v c = Inr (c', wo_told c) \<and> wc_state c' = Some s' \<and> wc_magic c' = wc_magic c + 1
     \<and> ws_kv s' = (ws_kv s)[i + 1 := v]
     \<and> (i = 0 \<longrightarrow> wo_pairs (ws_count s') s' = (wo_pairs (ws_count s) s)[0 := (k, v)])
     \<and> (i = 1 \<longrightarrow> wo_pairs (ws_count s') s' = (wo_pairs (ws_count s) s)[1 := (v, ws_kv s ! 3)])
     \<and> (i \<ge> 1 \<longrightarrow> snd (wo_pairs (ws_count s') s' ! i) = snd (wo_pairs (ws_count s) s ! i))"
proof -
  let ?s' = "s\<lparr>ws_kv := (ws_kv s)[i + 1 := v]\<rparr>"
  have l: "length (ws_kv s) = 2 * ws_size s" "ws_count s \<le> ws_size s"
    using wo_table_lengths [of e "ws_count s" s] assms(2) by (simp_all add: wo_wf_def)
  have n: "wo_pairs m t ! j = (ws_key t j, ws_kv t ! (j * 2 + 1))" if "j < m" for m j and t :: wo_state
    using that by (simp add: wo_pairs_def)
  have "wo_pairs (ws_count ?s') ?s' = (wo_pairs (ws_count s) s)[0 := (k, v)]" if "i = 0"
  proof (rule nth_equalityI)
    fix j assume "j < length (wo_pairs (ws_count ?s') ?s')"
    then show "wo_pairs (ws_count ?s') ?s' ! j = (wo_pairs (ws_count s) s)[0 := (k, v)] ! j"
      using that assms(4,5) l by (cases j) (simp_all add: n)
  qed simp
  moreover have "wo_pairs (ws_count ?s') ?s' = (wo_pairs (ws_count s) s)[1 := (v, ws_kv s ! 3)]" if "i = 1"
  proof (rule nth_equalityI)
    fix j assume j: "j < length (wo_pairs (ws_count ?s') ?s')"
    have "j * 2 + 1 \<noteq> 2" by presburger
    then show "wo_pairs (ws_count ?s') ?s' ! j = (wo_pairs (ws_count s) s)[1 := (v, ws_kv s ! 3)] ! j"
      using that j assms(4,5) l by (cases "j = 1") (simp_all add: n numeral_eq_Suc)
  qed simp
  moreover have "snd (wo_pairs (ws_count ?s') ?s' ! i) = snd (wo_pairs (ws_count s) s ! i)" if "i \<ge> 1"
    using that assms(4) by (simp add: n)
  ultimately show ?thesis using wo_put_present [OF assms(2,1,3,4,5), of v] assms(6)
    by (intro exI [of _ "c\<lparr>wc_state := Some ?s', wc_magic := wc_magic c + 1\<rparr>"] exI [of _ ?s']) simp
qed

theorem wo_put_update_witness:
  "\<exists>c c' s' b. wo_get 2 c = Inr (Some 20) \<and> wo_put 2 21 c = Inr (c', b) \<and> wc_state c' = Some s'
     \<and> wo_pairs (ws_count s') s' = [(1, 10), (21, 20)]"
proof -
  obtain c :: wo_chunk and s where s: "wc_state c = Some s" "wo_wf (-2) s" "wo_pairs (ws_count s) s = [(1, 10), (2, 20)]"
    using sample_pairs by blast
  have n: "ws_count s = 2" using length_wo_pairs [of "ws_count s" s] s(3) by simp
  then have "map (\<lambda>i. (ws_kv s ! (i * 2), ws_kv s ! (i * 2 + 1))) [0..<2] = [(1, 10), (2, 20)]" using s(3) by (simp add: wo_pairs_def)
  then have kv: "ws_key s 1 = 2" "ws_kv s ! (1 + 1) \<noteq> 21" "ws_kv s ! 3 = 20" by (simp_all add: upt_conv_Cons numeral_eq_Suc)
  have "wo_get 2 c = Inr (Some 20)" using wo_get_abs [OF s(1,2) hashable_2] s(3) by (simp add: wo_abs_def)
  then show ?thesis using wo_put_update [OF s(1,2) hashable_2, of 1 21] n kv s(3) by fastforce
qed

text \<open>Property C23.
  A saved chunk that is loaded by the constructor has the same pairs and the same extra number, and the same
  result for every \<open>get\<close>.  The keys must not be \<open>NULL_LONG\<close>, which marks an absent key in the loop.\<close>

theorem wo_save_load_roundtrip:
  assumes "wc_state c = Some s" "wo_wf e s" "ws_count s < 2 ^ 30" "\<bar>wc_extra c\<bar> < 2 ^ 53"
    "\<forall>p \<in> set (wo_pairs (ws_count s) s). fst p \<noteq> NULL_LONG \<and> \<bar>fst p\<bar> < 2 ^ 53 \<and> \<bar>snd p\<bar> < 2 ^ 53"
  shows "\<exists>b c' s'. wo_save c newHeapBuffer = Inr b \<and> HeapWorldOrderChunk w t i l (Some (hb_read b, hb_size b)) = Inr c'
     \<and> wc_state c' = Some s' \<and> wo_wf (-1) s' \<and> wo_pairs (ws_count s') s' = wo_pairs (ws_count s) s \<and> wc_extra c' = wc_extra c
     \<and> (\<forall>k. hashable k \<longrightarrow> wo_get k c' = wo_get k c)"
proof -
  let ?ps = "wo_pairs (ws_count s) s"
  obtain b where b: "wo_save c newHeapBuffer = Inr b" "heap_holds b (wo_bytes (length ?ps) (wc_extra c) ?ps)"
    using wo_save_bytes [OF assms(1)] by auto
  note src = heap_source.holds_reads [OF b(2)] heap_source.holds_size [OF b(2)]
  have t: "wo_table e (ws_count s) s" using assms(2) by (simp add: wo_wf_def)
  have h: "hashable (fst p)" if p: "p \<in> set ?ps" for p using that t by (auto simp: wo_pairs_def wo_table_def table_def)
  let ?c = "\<lparr>wc_world = w, wc_time = t, wc_id = i, wc_flags = 0, wc_marks = 0, wc_magic = 0, wc_extra = NULL_LONG,
     wc_listener = l, wc_state = None\<rparr>"
  obtain s' where s': "wo_load (hb_read b) (hb_size b) ?c = Inr (?c\<lparr>wc_extra := wc_extra c, wc_state := Some s'\<rparr>)" "wo_wf (-1) s'"
    "wo_pairs (ws_count s') s' = ?ps"
    using wo_load_bytes [OF src wo_pairs_distinct [OF t], of ?c] assms(3-5) h by auto
  have "js_less 0 (hb_size b)" using src(2) by (simp add: js_less_def wo_bytes_def)
  then have "HeapWorldOrderChunk w t i l (Some (hb_read b, hb_size b)) = Inr (?c\<lparr>wc_extra := wc_extra c, wc_state := Some s'\<rparr>)"
    using s'(1) by (simp add: HeapWorldOrderChunk_def)
  moreover have "wo_abs s' = wo_abs s" using s'(3) by (simp add: wo_abs_def)
  ultimately show ?thesis using b(1) s' wo_get_abs [OF assms(1,2)]
    by (simp add: wo_get_abs [OF _ s'(2)])
qed

theorem wo_save_load_roundtrip_witness:
  "\<exists>c b c'. wo_save c newHeapBuffer = Inr b \<and> HeapWorldOrderChunk 0 0 0 True (Some (hb_read b, hb_size b)) = Inr c'
     \<and> wo_get 2 c' = Inr (Some 20)"
proof -
  obtain c :: wo_chunk and s where s: "wc_state c = Some s" "wo_wf (-2) s" "wo_pairs (ws_count s) s = [(1, 10), (2, 20)]"
    using sample_pairs by blast
  let ?c = "c\<lparr>wc_extra := 5\<rparr>"
  have c: "wc_state ?c = Some s" "\<bar>wc_extra ?c\<bar> < 2 ^ 53" "ws_count s < 2 ^ 30"
    "\<forall>p \<in> set (wo_pairs (ws_count s) s). fst p \<noteq> NULL_LONG \<and> \<bar>fst p\<bar> < 2 ^ 53 \<and> \<bar>snd p\<bar> < 2 ^ 53"
    using s length_wo_pairs [of "ws_count s" s] by (simp_all add: NULL_LONG_def)
  have "wo_get 2 ?c = Inr (Some 20)" using wo_get_abs [OF c(1) s(2) hashable_2] s(3) by (simp add: wo_abs_def)
  then show ?thesis using wo_save_load_roundtrip [OF c(1) s(2) c(3,2,4), of 0 0 0 True] hashable_2 by metis
qed

end
