(* ===== verification/ChunkSpace.thy ===== *)
theory ChunkSpace
  imports FixedStack TimeTree Base64
begin

text \<open>
  \<open>HeapChunkSpace\<close>, the cache of chunks: a table of fixed size from the key of a chunk (type, world, time,
  id) to a slot, an LRU of the slots whose chunk nobody holds (\<open>FixedStack\<close>), and the list of the dirty
  slots.  The saving of \<open>CoreGraph\<close> is here too, because \<open>declareDirty\<close> calls it when that list is full.

  A chunk is an object that the cache and its users share: it is a reference (an index) into \<open>cs_store\<close>,
  which holds the part of every chunk that the cache reads and writes (\<open>chunk_head\<close>); the four
  classes of chunks implement \<open>mark\<close>, \<open>unmark\<close> and \<open>setFlags\<close> alike.
\<close>

subsection \<open>Chunks\<close>

type_synonym chunk_key = "int \<times> int \<times> int \<times> int"

record chunk_head =
  ch_key :: chunk_key
  ch_marks :: int
  ch_flags :: int

definition ch_mark :: "chunk_head \<Rightarrow> chunk_head" where
  "ch_mark h = h\<lparr>ch_marks := ch_marks h + 1\<rparr>"

definition ch_unmark :: "chunk_head \<Rightarrow> chunk_head" where
  "ch_unmark h = h\<lparr>ch_marks := ch_marks h - 1\<rparr>"

definition ch_setFlags :: "int \<Rightarrow> int \<Rightarrow> chunk_head \<Rightarrow> chunk_head \<times> bool" where
  "ch_setFlags bitsToEnable bitsToDisable h =
     (let (nval, changed) = chunk_setFlags (ch_flags h) bitsToEnable bitsToDisable in (h\<lparr>ch_flags := nval\<rparr>, changed))"

definition key_hash4 :: "chunk_key \<Rightarrow> int \<Rightarrow> int result" where
  "key_hash4 = (\<lambda>(p0, p1, p2, p3). tripleHash p0 p1 p2 p3)"

subsection \<open>The list of dirty slots\<close>

record dirty_list =
  dl_elements :: "int list"
  dl_next :: nat
  dl_iteration :: nat
  dl_max :: nat

definition newDirtyList :: "nat \<Rightarrow> dirty_list" where
  "newDirtyList maxSize = \<lparr>dl_elements = replicate maxSize 0, dl_next = 0, dl_iteration = 0, dl_max = maxSize\<rparr>"

definition dl_hasNext :: "dirty_list \<Rightarrow> bool" where
  "dl_hasNext d = (dl_iteration d < dl_next d)"

text \<open>\<open>next\<close>: the slot, or \<open>null\<close> at the end.  The counters are atomic, so the loops run once.\<close>

definition dl_step :: "dirty_list \<Rightarrow> jsnum option \<times> dirty_list" where
  "dl_step d =
     (if dl_next d = dl_iteration d then (None, d)
      else (Some (rd (dl_elements d) (Some (int (dl_iteration d)))), d\<lparr>dl_iteration := dl_iteration d + 1\<rparr>))"

definition dl_declareDirty :: "int \<Rightarrow> dirty_list \<Rightarrow> bool \<times> dirty_list" where
  "dl_declareDirty dirtyIndex d =
     (if dl_next d = dl_max d then (False, d)
      else (True, d\<lparr>dl_elements := wr (dl_elements d) (Some (int (dl_next d))) dirtyIndex, dl_next := dl_next d + 1\<rparr>))"

subsection \<open>The state of the cache\<close>

record chunk_space =
  cs_maxEntries :: nat
  cs_saveBatchSize :: nat
  cs_lru :: fixed_stack
  cs_dirty :: dirty_list
  cs_next :: "int list"
  cs_hashLock :: "int list"
  cs_hash :: "int list"
  cs_values :: "nat option list"
  cs_count :: int
  cs_store :: "chunk_head list"

definition newChunkSpace :: "nat \<Rightarrow> nat \<Rightarrow> chunk_space result" where
  "newChunkSpace initialCapacity saveBatchSize =
     (if saveBatchSize > initialCapacity then Inl (JsError ''Save Batch Size can't be bigger than cache size'')
      else Inr \<lparr>cs_maxEntries = initialCapacity, cs_saveBatchSize = saveBatchSize,
        cs_lru = newFixedStack initialCapacity, cs_dirty = newDirtyList saveBatchSize,
        cs_next = replicate initialCapacity (-1), cs_hashLock = replicate initialCapacity (-1),
        cs_hash = replicate initialCapacity (-1), cs_values = replicate initialCapacity None,
        cs_count = 0, cs_store = []\<rparr>)"

text \<open>The chunk of a slot, null for an empty slot or an index outside the array.\<close>

definition cs_at :: "jsnum \<Rightarrow> chunk_space \<Rightarrow> nat option" where
  "cs_at m s = Option.bind (rd (cs_values s) m) (\<lambda>r. r)"

definition cs_match :: "chunk_key \<Rightarrow> chunk_space \<Rightarrow> int \<Rightarrow> bool" where
  "cs_match k s m = (case cs_at (Some m) s of None \<Rightarrow> False | Some r \<Rightarrow> ch_key (cs_store s ! r) = k)"

definition cs_upd :: "nat \<Rightarrow> (chunk_head \<Rightarrow> chunk_head) \<Rightarrow> chunk_space \<Rightarrow> chunk_space" where
  "cs_upd r f s = s\<lparr>cs_store := (cs_store s)[r := f (cs_store s ! r)]\<rparr>"

definition cs_enqueue :: "int \<Rightarrow> chunk_space \<Rightarrow> chunk_space" where
  "cs_enqueue m s = s\<lparr>cs_lru := snd (enqueue (cs_lru s) m)\<rparr>"

text \<open>
  The lookups: \<open>chain_find\<close> is the loop \<open>while (m >= 0)\<close>; \<open>chain_find_ne\<close> is \<open>while (m != -1)\<close>, which never
  leaves an undefined link.
\<close>

partial_function (option) chain_find_ne :: "(int \<Rightarrow> bool) \<Rightarrow> int list \<Rightarrow> jsnum \<Rightarrow> int option" where
  "chain_find_ne p nx m =
     (case m of
        None \<Rightarrow> chain_find_ne p nx (rd nx m)
      | Some j \<Rightarrow> if j \<noteq> -1 then (if p j then Some j else chain_find_ne p nx (rd nx m)) else Some (-1))"

declare chain_find_ne.simps [code]

definition cs_slot :: "chunk_key \<Rightarrow> chunk_space \<Rightarrow> int result" where
  "cs_slot k s = bindr (key_hash4 k (int (cs_maxEntries s))) (\<lambda>index.
     of_loop (chain_find_ne (cs_match k s) (cs_next s) (rd (cs_hash s) (Some index))))"

definition cs_entry :: "chunk_key \<Rightarrow> int \<Rightarrow> chunk_space \<Rightarrow> int result" where
  "cs_entry k hashIndex s = of_loop (chain_find (cs_match k s) (cs_next s) (rd (cs_hash s) (Some hashIndex)))"

subsection \<open>Operations\<close>

text \<open>
  \<open>getAndMark\<close>.  When the chunk was unmarked it has to leave the LRU; if it cannot, null is returned,
  unless the chunk has more than one mark, which sends the loop to the same chunk again.
\<close>

definition cs_getAndMark :: "chunk_key \<Rightarrow> chunk_space \<Rightarrow> (chunk_space \<times> nat option) result" where
  "cs_getAndMark k s = bindr (cs_slot k s) (\<lambda>m.
     if m = -1 then Inr (s, None)
     else case cs_at (Some m) s of
       None \<Rightarrow> Inr (s, None)
     | Some r \<Rightarrow>
         let s = cs_upd r ch_mark s in
         if ch_marks (cs_store s ! r) = 1 then
           (let (ok, lru) = dequeue (cs_lru s) m; s = s\<lparr>cs_lru := lru\<rparr> in
            if ok then Inr (s, Some r)
            else if ch_marks (cs_store s ! r) > 1 then Inr (cs_upd r ch_mark s, Some r)
            else Inr (s, None))
         else Inr (s, Some r))"

definition cs_unmark :: "chunk_key \<Rightarrow> chunk_space \<Rightarrow> chunk_space result" where
  "cs_unmark k s = bindr (cs_slot k s) (\<lambda>m.
     if m = -1 then Inr s
     else case cs_at (Some m) s of
       None \<Rightarrow> Inr s
     | Some r \<Rightarrow>
         let s = cs_upd r ch_unmark s in Inr (if ch_marks (cs_store s ! r) = 0 then cs_enqueue m s else s))"

definition cs_unmarkChunk :: "nat \<Rightarrow> chunk_space \<Rightarrow> chunk_space result" where
  "cs_unmarkChunk r s =
     (let s = cs_upd r ch_unmark s in
      if ch_marks (cs_store s ! r) = 0
      then bindr (cs_slot (ch_key (cs_store s ! r)) s) (\<lambda>m. Inr (if m = -1 then s else cs_enqueue m s))
      else Inr s)"

text \<open>\<open>while (!hashLock.compareAndSet(i, -1, 1)) {}\<close> does not return when the lock is taken.\<close>

definition cs_lock :: "int \<Rightarrow> chunk_space \<Rightarrow> chunk_space result" where
  "cs_lock i s = (if rd (cs_hashLock s) (Some i) = Some (-1)
     then Inr (s\<lparr>cs_hashLock := wr (cs_hashLock s) (Some i) 1\<rparr>) else Inl NoReturn)"

definition cs_unlock :: "int \<Rightarrow> chunk_space \<Rightarrow> chunk_space" where
  "cs_unlock i s = s\<lparr>cs_hashLock := wr (cs_hashLock s) (Some i) (-1)\<rparr>"

text \<open>The loop that finds the slot of the victim and the slot before it in its chain, from \<open>(lst, m)\<close> on.\<close>

partial_function (option) cs_find_last :: "(int \<Rightarrow> bool) \<Rightarrow> int list \<Rightarrow> int \<Rightarrow> jsnum \<Rightarrow> (int \<times> jsnum) option" where
  "cs_find_last p nx lst m =
     (case m of
        None \<Rightarrow> Some (lst, None)
      | Some j \<Rightarrow> if j \<ge> 0 then (if p j then Some (lst, m) else cs_find_last p nx j (rd nx m)) else Some (lst, m))"

declare cs_find_last.simps [code]

definition cs_evict :: "int \<Rightarrow> nat \<Rightarrow> chunk_space \<Rightarrow> chunk_space result" where
  "cs_evict currentVictimIndex victim s =
     (let victimKey = ch_key (cs_store s ! victim) in
      bindr (key_hash4 victimKey (int (cs_maxEntries s))) (\<lambda>indexVictim.
      bindr (cs_lock indexVictim s) (\<lambda>s.
      bindr (of_loop (cs_find_last (cs_match victimKey s) (cs_next s) (-1) (rd (cs_hash s) (Some indexVictim)))) (\<lambda>(lst, m).
        let s = (if lst = -1 then s\<lparr>cs_hash := wrn (cs_hash s) (Some indexVictim) (rd (cs_next s) m)\<rparr>
                 else if m = Some (-1) then s\<lparr>cs_next := wr (cs_next s) (Some lst) (-1)\<rparr>
                 else s\<lparr>cs_next := wrn (cs_next s) (Some lst) (rd (cs_next s) m)\<rparr>);
            s = s\<lparr>cs_next := wr (cs_next s) m (-1),
                  cs_values := wr (cs_values s) (Some currentVictimIndex) None\<rparr>;
            s = cs_unlock indexVictim s
        in Inr (s\<lparr>cs_count := cs_count s - 1\<rparr>)))))"

text \<open>\<open>Thread.sleep\<close> and \<open>System.gc\<close> of the second try do nothing.\<close>

definition cs_victim :: "chunk_space \<Rightarrow> (chunk_space \<times> jsnum) result" where
  "cs_victim s =
     (let (v, lru) = dequeueTail (cs_lru s); s = s\<lparr>cs_lru := lru\<rparr> in
      if v = Some (-1) then
        (let (v, lru) = dequeueTail (cs_lru s); s = s\<lparr>cs_lru := lru\<rparr> in
         if v = Some (-1)
         then Inl (JsError ''mwDB crashed, cache is full, please avoid to much retention of nodes or augment cache capacity!'')
         else Inr (s, v))
      else Inr (s, v))"

text \<open>The object \<open>r\<close> takes the slot \<open>v\<close>, at the head of its bucket.\<close>

definition cs_fill :: "nat \<Rightarrow> int \<Rightarrow> int \<Rightarrow> chunk_space \<Rightarrow> (chunk_space \<times> nat option) result" where
  "cs_fill r v hashIndex s =
     (let s = s\<lparr>cs_values := wr (cs_values s) (Some v) (Some r)\<rparr> in
      bindr (cs_lock hashIndex s) (\<lambda>s.
        let s = s\<lparr>cs_next := wrn (cs_next s) (Some v) (rd (cs_hash s) (Some hashIndex))\<rparr>;
            s = s\<lparr>cs_hash := wr (cs_hash s) (Some hashIndex) v\<rparr>;
            s = cs_unlock hashIndex s
        in Inr (s\<lparr>cs_count := cs_count s + 1\<rparr>, Some r)))"

text \<open>
  \<open>putAndMark\<close> of the object \<open>r\<close>; the result is the object that is in the cache under its key.  The index
  of the victim comes from the LRU, which holds numbers of slots.
\<close>

definition cs_putAndMark :: "nat \<Rightarrow> chunk_space \<Rightarrow> (chunk_space \<times> nat option) result" where
  "cs_putAndMark r s =
     (let s = cs_upd r ch_mark s; k = ch_key (cs_store s ! r) in
      if ch_marks (cs_store s ! r) \<noteq> 1 then Inl (JsError ''Warning, trying to put an unsafe object '')
      else bindr (key_hash4 k (int (cs_maxEntries s))) (\<lambda>hashIndex.
           bindr (cs_entry k hashIndex s) (\<lambda>entry.
             if entry = -1 then
               bindr (cs_victim s) (\<lambda>(s, v).
               bindr (case v of None \<Rightarrow> Inl TypeError | Some v \<Rightarrow> Inr v) (\<lambda>v.
               bindr (case cs_at (Some v) s of None \<Rightarrow> Inr s | Some victim \<Rightarrow> cs_evict v victim s) (\<lambda>s.
               cs_fill r v hashIndex s)))
             else Inr (s, cs_at (Some entry) s))))"

definition cs_detachDirties :: "chunk_space \<Rightarrow> chunk_space \<times> dirty_list" where
  "cs_detachDirties s = (s\<lparr>cs_dirty := newDirtyList (cs_saveBatchSize s)\<rparr>, cs_dirty s)"

definition cs_declareClean :: "nat \<Rightarrow> chunk_space \<Rightarrow> chunk_space result" where
  "cs_declareClean r s =
     (let k = ch_key (cs_store s ! r) in
      bindr (key_hash4 k (int (cs_maxEntries s))) (\<lambda>hashIndex.
      bindr (cs_entry k hashIndex s) (\<lambda>m.
        if m = -1 then Inl (JsError ''Try to declare a non existing object!'')
        else case cs_at (Some m) s of
          None \<Rightarrow> Inl TypeError
        | Some currentM \<Rightarrow>
            let s = cs_upd currentM (\<lambda>h. fst (ch_setFlags 0 1 h)) s;
                s = cs_upd r ch_unmark s
            in Inr (if ch_marks (cs_store s ! r) = 0 then cs_enqueue m s else s))))"

definition cs_size :: "chunk_space \<Rightarrow> int" where
  "cs_size s = cs_count s"

definition cs_available :: "chunk_space \<Rightarrow> int" where
  "cs_available s = fs_size (cs_lru s)"

subsection \<open>Saving\<close>

text \<open>
  \<open>CoreGraph.saveDirtyList\<close>.  \<open>noop\<close> says whether the storage is a \<open>BlackHoleStorage\<close>, and \<open>save_chunk\<close> is
  the \<open>save\<close> method of the chunks: what the stream is after it, and the error that it threw.  The result has
  the stream that is given to the storage.  An error in the \<open>try\<close> block is logged.
\<close>

type_synonym saver = "nat \<Rightarrow> heap_buffer \<Rightarrow> heap_buffer \<times> js_error option"

definition write_key :: "chunk_head \<Rightarrow> heap_buffer \<Rightarrow> heap_buffer" where
  "write_key h stream = (case ch_key h of (t, w, i, k) \<Rightarrow> keyToBuffer stream t w i k)"

definition save_one :: "bool \<Rightarrow> saver \<Rightarrow> nat \<Rightarrow> bool \<times> heap_buffer \<times> chunk_space \<Rightarrow> (bool \<times> heap_buffer \<times> chunk_space) result" where
  "save_one noop save_chunk r = (\<lambda>(isFirst, stream, s).
     let stream = (if noop then stream else write_key (cs_store s ! r) (if isFirst then stream else hb_write stream BUFFER_SEP));
         stream = hb_write stream BUFFER_SEP;
         (stream, err) = (if noop then (stream, None) else save_chunk r stream);
         res = (case err of None \<Rightarrow> cs_declareClean r s | Some e \<Rightarrow> Inl e)
     in case res of
          Inl NoReturn \<Rightarrow> Inl NoReturn
        | Inl e \<Rightarrow> Inr (noop \<and> isFirst, stream, s)
        | Inr s \<Rightarrow> Inr (noop \<and> isFirst, stream, s))"

function save_loop :: "bool \<Rightarrow> saver \<Rightarrow> dirty_list \<Rightarrow> bool \<times> heap_buffer \<times> chunk_space \<Rightarrow> (bool \<times> heap_buffer \<times> chunk_space) result" where
  "save_loop noop save_chunk d (isFirst, stream, s) =
     (if dl_hasNext d then
        let (m, d) = dl_step d in
        bindr (case Option.bind m (\<lambda>m. cs_at m s) of
                 None \<Rightarrow> Inr (isFirst, stream, s)
               | Some r \<Rightarrow> if js_and (ch_flags (cs_store s ! r)) 1 = 1 then save_one noop save_chunk r (isFirst, stream, s)
                            else Inr (isFirst, stream, s)) (save_loop noop save_chunk d)
      else Inr (isFirst, stream, s))"
  by pat_completeness auto
termination
  by (relation "measure (\<lambda>(_, _, d, _). dl_next d - dl_iteration d)") (auto simp: dl_hasNext_def dl_step_def split: if_splits)

declare save_loop.simps [simp del]

definition graph_save :: "bool \<Rightarrow> saver \<Rightarrow> chunk_space \<Rightarrow> (chunk_space \<times> heap_buffer option) result" where
  "graph_save noop save_chunk s =
     (let (s, d) = cs_detachDirties s in
      if dl_next d = 0 then Inr (s, None)
      else bindr (save_loop noop save_chunk d (True, newHeapBuffer, s)) (\<lambda>(_, stream, s). Inr (s, Some stream)))"

text \<open>
  \<open>declareDirty\<close> of the object \<open>r\<close>: the slot is entered in the dirty list; a full list is saved first, as
  often as it takes.
\<close>

partial_function (option) declare_loop :: "bool \<Rightarrow> saver \<Rightarrow> int \<Rightarrow> chunk_space \<Rightarrow> chunk_space option" where
  "declare_loop noop save_chunk m s =
     (let (success, d) = dl_declareDirty m (cs_dirty s); s = s\<lparr>cs_dirty := d\<rparr> in
      if success then Some s
      else case graph_save noop save_chunk s of
          Inl e \<Rightarrow> None
        | Inr (s, _) \<Rightarrow> declare_loop noop save_chunk m s)"

declare declare_loop.simps [code]

definition cs_declareDirty :: "bool \<Rightarrow> saver \<Rightarrow> nat \<Rightarrow> chunk_space \<Rightarrow> chunk_space result" where
  "cs_declareDirty noop save_chunk r s =
     (let k = ch_key (cs_store s ! r) in
      bindr (key_hash4 k (int (cs_maxEntries s))) (\<lambda>hashIndex.
      bindr (cs_entry k hashIndex s) (\<lambda>m.
        if m = -1 then Inl (JsError ''Try to declare a non existing object!'')
        else case cs_at (Some m) s of
          None \<Rightarrow> Inl TypeError
        | Some currentM \<Rightarrow>
            if snd (ch_setFlags 1 0 (cs_store s ! currentM))
            then of_loop (declare_loop noop save_chunk m (cs_upd currentM ch_mark (cs_upd currentM (\<lambda>h. fst (ch_setFlags 1 0 h)) s)))
            else Inr s)))"

end
