(* ===== verification/ChunkSpaceSpec.thy ===== *)
theory ChunkSpaceSpec
  imports ChunkSpace
begin

text \<open>
  The invariant of the cache and what its operations do to its content: the pairs of a key and the object
  cached under it.
\<close>

subsection \<open>Chains\<close>

interpretation ck: hash_slots key_hash4 triple_hashable
  unfolding key_hash4_def by (rule chunk_hash.hash_slots_axioms)

text \<open>On a chain that ends with -1 the two lookup loops agree.\<close>

lemma chain_find_ne_path: "path nx i xs (-1) \<Longrightarrow> chain_find_ne p nx (Some i) = chain_find p nx (Some i)"
proof (induction xs arbitrary: i)
  case Nil
  then show ?case by (simp add: chain_find_ne.simps chain_find.simps)
next
  case (Cons x xs)
  then show ?case by (subst chain_find_ne.simps, subst chain_find.simps) simp
qed

lemma cs_find_last_path:
  "path nx i (us @ x # vs) (-1) \<Longrightarrow> p (int x) \<Longrightarrow> \<forall>u \<in> set us. \<not> p (int u) \<Longrightarrow>
   cs_find_last p nx lst (Some i) = Some (if us = [] then lst else int (List.last us), Some (int x))"
proof (induction us arbitrary: i lst)
  case Nil
  then show ?case by (subst cs_find_last.simps) simp
next
  case (Cons u us)
  then have "cs_find_last p nx lst (Some i) = cs_find_last p nx (int u) (Some (nx ! u))"
    by (subst cs_find_last.simps) simp
  then show ?case using Cons by simp
qed

context hash_slots
begin

lemma table_chain:
  assumes "table h ok (-1) N S key nx hs" "b < N"
  obtains xs where "path nx (hs ! b) xs (-1)" "set xs = {i \<in> S. slot_of h N (key i) = b}"
proof -
  have "buckets (-1) (\<lambda>i. slot_of h N (key i)) S nx hs" "b < length hs" using assms by (simp_all add: table_def)
  from bucketsD [OF this] show thesis using that by (auto simp: chain_end_def)
qed

lemma table_find_ne:
  assumes "table h ok (-1) N S key nx hs" "ok k" "0 < N"
  shows "chain_find_ne p nx (rd hs (Some (int (slot_of h N k)))) = chain_find p nx (rd hs (Some (int (slot_of h N k))))"
proof -
  have b: "slot_of h N k < N" "length hs = N" using assms slot_of [of k N] by (simp_all add: table_def)
  obtain xs where "path nx (hs ! slot_of h N k) xs (-1)" using table_chain [OF assms(1) b(1)] by blast
  then show ?thesis using chain_find_ne_path b by simp
qed

text \<open>The removal of slot \<open>x\<close>, which the loop finds as the only one that satisfies \<open>p\<close>.\<close>

lemma table_remove:
  assumes t: "table h ok (-1) N S key nx hs" "x \<in> S" "0 < N" and p: "\<And>i. i \<in> S \<Longrightarrow> p (int i) \<longleftrightarrow> i = x"
  shows "\<exists>lst. cs_find_last p nx (-1) (rd hs (Some (int (slot_of h N (key x))))) = Some (lst, Some (int x))
    \<and> (lst = -1 \<or> (\<exists>l < N. lst = int l))
    \<and> table h ok (-1) N (S - {x}) key ((if lst = -1 then nx else wrn nx (Some lst) (rd nx (Some (int x))))[x := -1])
        (if lst = -1 then wrn hs (Some (int (slot_of h N (key x)))) (rd nx (Some (int x))) else hs)"
proof -
  let ?b = "slot_of h N (key x)"
  have x: "x < N" "ok (key x)" "length nx = N" "length hs = N" "N < 2 ^ 31" using t by (auto simp: table_def)
  have b: "?b < N" using slot_of [OF x(2) t(3) x(5)] by simp
  obtain xs where xs: "path nx (hs ! ?b) xs (-1)" "set xs = {i \<in> S. slot_of h N (key i) = ?b}" by (rule table_chain [OF t(1) b])
  then have "x \<in> set xs" using t(2) by simp
  then obtain us vs where d: "xs = us @ x # vs" "x \<notin> set us" by (meson split_list_first)
  have S: "set us \<subseteq> S" "\<forall>u \<in> set us. \<not> p (int u)" using xs(2) d p by auto
  define lst where "lst = (if us = [] then -1 else int (List.last us))"
  have f: "cs_find_last p nx (-1) (rd hs (Some (int ?b))) = Some (lst, Some (int x))"
    using cs_find_last_path [of nx "hs ! ?b" us x vs p "-1"] xs(1) d(1) S(2) p [OF t(2)] b x(4) by (simp add: lst_def)
  have l: "us \<noteq> [] \<Longrightarrow> List.last us < N" using S(1) t(1) last_in_set by (fastforce simp: table_def)
  have "buckets (-1) (\<lambda>i. slot_of h N (key i)) S nx hs" "slot_of h N (key x) < length hs" using t(1) b x(4) by (simp_all add: table_def)
  from buckets_remove [OF this, of us vs "-1"] xs(1) d(1)
  have r: "buckets (-1) (\<lambda>i. slot_of h N (key i)) (S - {x}) (if us = [] then nx else nx[List.last us := nx ! x])
      (if us = [] then hs[?b := nx ! x] else hs)" by simp
  then have "buckets (-1) (\<lambda>i. slot_of h N (key i)) (S - {x}) ((if us = [] then nx else nx[List.last us := nx ! x])[x := -1])
      (if us = [] then hs[?b := nx ! x] else hs)" by (subst buckets_outside) simp_all
  moreover have "(if lst = -1 then nx else wrn nx (Some lst) (rd nx (Some (int x)))) = (if us = [] then nx else nx[List.last us := nx ! x])"
    "(if lst = -1 then wrn hs (Some (int ?b)) (rd nx (Some (int x))) else hs) = (if us = [] then hs[?b := nx ! x] else hs)"
    using l x b by (simp_all add: lst_def)
  ultimately have "table h ok (-1) N (S - {x}) key ((if lst = -1 then nx else wrn nx (Some lst) (rd nx (Some (int x))))[x := -1])
        (if lst = -1 then wrn hs (Some (int ?b)) (rd nx (Some (int x))) else hs)"
    using t(1) by (simp add: table_def)
  moreover have "lst = -1 \<or> (\<exists>l < N. lst = int l)" using l by (auto simp: lst_def)
  ultimately show ?thesis using f by blast
qed

end

subsection \<open>The invariant\<close>

definition cs_used :: "chunk_space \<Rightarrow> nat set" where
  "cs_used s = {i. i < length (cs_values s) \<and> cs_values s ! i \<noteq> None}"

definition cs_ref :: "chunk_space \<Rightarrow> nat \<Rightarrow> nat" where
  "cs_ref s i = the (cs_values s ! i)"

definition cs_head :: "chunk_space \<Rightarrow> nat \<Rightarrow> chunk_head" where
  "cs_head s i = cs_store s ! cs_ref s i"

definition cs_key :: "chunk_space \<Rightarrow> nat \<Rightarrow> chunk_key" where
  "cs_key s i = ch_key (cs_head s i)"

text \<open>
  \<open>cs_inv s q\<close>: the LRU holds \<open>q\<close>, the slots that are empty or whose chunk has no mark; the other slots
  are pinned.
\<close>

definition cs_inv :: "chunk_space \<Rightarrow> nat list \<Rightarrow> bool" where
  "cs_inv s q \<longleftrightarrow>
     0 < cs_maxEntries s \<and> length (cs_values s) = cs_maxEntries s \<and> cs_hashLock s = replicate (cs_maxEntries s) (-1)
     \<and> fs_rel (cs_lru s) q \<and> length (fs_next (cs_lru s)) = cs_maxEntries s
     \<and> table key_hash4 triple_hashable (-1) (cs_maxEntries s) (cs_used s) (cs_key s) (cs_next s) (cs_hash s)
     \<and> inj_on (cs_key s) (cs_used s) \<and> (\<forall>i \<in> cs_used s. cs_ref s i < length (cs_store s))
     \<and> (\<forall>i < cs_maxEntries s. i \<in> set q \<longleftrightarrow> i \<notin> cs_used s \<or> ch_marks (cs_head s i) = 0)
     \<and> (\<forall>i \<in> cs_used s. 0 \<le> ch_marks (cs_head s i)) \<and> cs_count s = int (card (cs_used s))"

lemma cs_invD:
  assumes "cs_inv s q"
  shows "0 < cs_maxEntries s" "length (cs_values s) = cs_maxEntries s" "cs_hashLock s = replicate (cs_maxEntries s) (-1)"
    "fs_rel (cs_lru s) q" "length (fs_next (cs_lru s)) = cs_maxEntries s"
    "table key_hash4 triple_hashable (-1) (cs_maxEntries s) (cs_used s) (cs_key s) (cs_next s) (cs_hash s)"
    "inj_on (cs_key s) (cs_used s)" "i \<in> cs_used s \<Longrightarrow> cs_ref s i < length (cs_store s)"
    "i < cs_maxEntries s \<Longrightarrow> i \<in> set q \<longleftrightarrow> i \<notin> cs_used s \<or> ch_marks (cs_head s i) = 0"
    "i \<in> cs_used s \<Longrightarrow> 0 \<le> ch_marks (cs_head s i)" "cs_count s = int (card (cs_used s))"
  using assms unfolding cs_inv_def by simp_all

lemma cs_used_bound: "cs_inv s q \<Longrightarrow> i \<in> cs_used s \<Longrightarrow> i < cs_maxEntries s"
  using cs_invD(2) by (fastforce simp: cs_used_def)

definition cs_content :: "chunk_space \<Rightarrow> (chunk_key \<times> nat) set" where
  "cs_content s = (\<lambda>i. (cs_key s i, cs_ref s i)) ` cs_used s"

lemma cs_used_at: "i \<in> cs_used s \<Longrightarrow> cs_at (Some (int i)) s = Some (cs_ref s i)"
  by (auto simp: cs_used_def cs_at_def cs_ref_def)

lemma cs_unused_at: "i < length (cs_values s) \<Longrightarrow> i \<notin> cs_used s \<Longrightarrow> cs_at (Some (int i)) s = None"
  by (auto simp: cs_used_def cs_at_def)

lemma cs_match_used: "i \<in> cs_used s \<Longrightarrow> cs_match k s (int i) \<longleftrightarrow> cs_key s i = k"
  by (simp add: cs_match_def cs_used_at cs_key_def cs_head_def)

lemma cs_used_finite [simp]: "finite (cs_used s)"
  by (simp add: cs_used_def)

lemma ref_inj: "cs_inv s q \<Longrightarrow> i \<in> cs_used s \<Longrightarrow> j \<in> cs_used s \<Longrightarrow> cs_ref s i = cs_ref s j \<Longrightarrow> i = j"
  using inj_onD [of "cs_key s" "cs_used s" i j] by (simp add: cs_inv_def cs_key_def cs_head_def)

lemma cs_lookup:
  assumes s: "cs_inv s q" "triple_hashable k"
  shows "\<exists>m. cs_slot k s = Inr m \<and> key_hash4 k (int (cs_maxEntries s)) = Inr (int (slot_of key_hash4 (cs_maxEntries s) k))
     \<and> cs_entry k (int (slot_of key_hash4 (cs_maxEntries s) k)) s = Inr m
     \<and> (if \<exists>i \<in> cs_used s. cs_key s i = k then \<exists>i \<in> cs_used s. m = int i \<and> cs_key s i = k else m = -1)"
proof -
  have t: "table key_hash4 triple_hashable (-1) (cs_maxEntries s) (cs_used s) (cs_key s) (cs_next s) (cs_hash s)"
    and n: "0 < cs_maxEntries s" "cs_maxEntries s < 2 ^ 31" using s(1) by (simp_all add: cs_inv_def table_def)
  obtain m where m: "chain_find (cs_match k s) (cs_next s) (rd (cs_hash s) (Some (int (slot_of key_hash4 (cs_maxEntries s) k)))) = Some m"
    "if \<exists>i \<in> cs_used s. cs_key s i = k then 0 \<le> m \<and> nat m \<in> cs_used s \<and> cs_key s (nat m) = k else m = -1"
    using ck.table_lookup [OF t s(2) n(1), of "cs_match k s"] cs_match_used by blast
  have "\<exists>i \<in> cs_used s. m = int i \<and> cs_key s i = k" if "\<exists>i \<in> cs_used s. cs_key s i = k"
    using m(2) that by (auto intro!: bexI [of _ "nat m"])
  then show ?thesis using m ck.slot_of [OF s(2) n] ck.table_find_ne [OF t s(2) n(1), of "cs_match k s"]
    by (intro exI [of _ m]) (auto simp: cs_slot_def cs_entry_def split: if_splits)
qed

subsection \<open>Marks\<close>

text \<open>A change of marks and flags of a cached object, with the LRU that goes with it.\<close>

lemma cs_upd_fields [simp]:
  "cs_used (cs_upd r f s) = cs_used s" "cs_ref (cs_upd r f s) = cs_ref s" "cs_maxEntries (cs_upd r f s) = cs_maxEntries s"
  "cs_values (cs_upd r f s) = cs_values s" "cs_next (cs_upd r f s) = cs_next s" "cs_hash (cs_upd r f s) = cs_hash s"
  "cs_hashLock (cs_upd r f s) = cs_hashLock s" "cs_lru (cs_upd r f s) = cs_lru s" "cs_count (cs_upd r f s) = cs_count s"
  "cs_dirty (cs_upd r f s) = cs_dirty s" "cs_saveBatchSize (cs_upd r f s) = cs_saveBatchSize s"
  "length (cs_store (cs_upd r f s)) = length (cs_store s)"
  by (simp_all add: cs_upd_def cs_used_def cs_ref_def fun_eq_iff)

lemma cs_lru_fields [simp]:
  "cs_used (s\<lparr>cs_lru := l\<rparr>) = cs_used s" "cs_ref (s\<lparr>cs_lru := l\<rparr>) = cs_ref s" "cs_head (s\<lparr>cs_lru := l\<rparr>) = cs_head s"
  "cs_key (s\<lparr>cs_lru := l\<rparr>) = cs_key s" "cs_upd r f (s\<lparr>cs_lru := l\<rparr>) = (cs_upd r f s)\<lparr>cs_lru := l\<rparr>"
  "cs_content (s\<lparr>cs_lru := l\<rparr>) = cs_content s"
  by (simp_all add: cs_used_def cs_ref_def cs_head_def cs_key_def cs_upd_def cs_content_def fun_eq_iff)

lemma cs_upd_head: "r < length (cs_store s) \<Longrightarrow> cs_head (cs_upd r f s) i = (if cs_ref s i = r then f (cs_head s i) else cs_head s i)"
  by (simp add: cs_head_def cs_upd_def cs_ref_def)

lemma cs_upd_store: "r < length (cs_store s) \<Longrightarrow> cs_store (cs_upd r f s) ! r = f (cs_store s ! r)"
  by (simp add: cs_upd_def)

lemma cs_inv_marks:
  assumes s: "cs_inv s q" "i \<in> cs_used s" and f: "\<And>h. ch_key (f h) = ch_key h" "0 \<le> ch_marks (f (cs_head s i))"
    and l: "fs_rel l q'" "length (fs_next l) = cs_maxEntries s" "set q' - {i} = set q - {i}" "i \<in> set q' \<longleftrightarrow> ch_marks (f (cs_head s i)) = 0"
  shows "cs_inv ((cs_upd (cs_ref s i) f s)\<lparr>cs_lru := l\<rparr>) q'"
    "cs_content ((cs_upd (cs_ref s i) f s)\<lparr>cs_lru := l\<rparr>) = cs_content s"
proof -
  let ?s = "cs_upd (cs_ref s i) f s"
  have r: "cs_ref s i < length (cs_store s)" using s by (simp add: cs_inv_def)
  have key: "cs_key ?s = cs_key s" by (rule ext) (simp add: cs_key_def cs_upd_head [OF r] f(1))
  have head: "cs_head ?s j = (if j = i then f (cs_head s i) else cs_head s j)" if "j \<in> cs_used s" for j
    using that ref_inj [OF s(1), of j i] s(2) by (auto simp: cs_upd_head [OF r])
  have "(j \<in> set q') = (j \<notin> cs_used s \<or> ch_marks (cs_head ?s j) = 0)" if "j < cs_maxEntries s" for j
  proof (cases "j = i")
    case True
    then show ?thesis using s(2) l(4) head by simp
  next
    case False
    then have "j \<in> set q' \<longleftrightarrow> j \<in> set q" using l(3) by blast
    then show ?thesis using False that s(1) head [of j] by (auto simp: cs_inv_def)
  qed
  then show "cs_inv (?s\<lparr>cs_lru := l\<rparr>) q'" using s l(1,2) head f(2) key by (simp add: cs_inv_def)
  show "cs_content (?s\<lparr>cs_lru := l\<rparr>) = cs_content s" by (simp add: cs_content_def key)
qed

lemma mark_fields [simp]: "ch_key (ch_mark h) = ch_key h" "ch_marks (ch_mark h) = ch_marks h + 1"
  "ch_key (ch_unmark h) = ch_key h" "ch_marks (ch_unmark h) = ch_marks h - 1" "ch_flags (ch_mark h) = ch_flags h" "ch_flags (ch_unmark h) = ch_flags h"
  by (simp_all add: ch_mark_def ch_unmark_def)

lemma cs_upd_content:
  assumes "r < length (cs_store s)" "\<And>h. ch_key (f h) = ch_key h"
  shows "cs_key (cs_upd r f s) = cs_key s" "cs_content (cs_upd r f s) = cs_content s"
proof -
  show k: "cs_key (cs_upd r f s) = cs_key s" by (rule ext) (simp add: cs_key_def cs_upd_head [OF assms(1)] assms(2))
  show "cs_content (cs_upd r f s) = cs_content s" by (simp add: cs_content_def k)
qed

lemma cs_slot_used:
  assumes "cs_inv s q" "i \<in> cs_used s"
  shows "cs_slot (cs_key s i) s = Inr (int i)" "triple_hashable (cs_key s i)"
    "cs_entry (cs_key s i) (int (slot_of key_hash4 (cs_maxEntries s) (cs_key s i))) s = Inr (int i)"
    "key_hash4 (cs_key s i) (int (cs_maxEntries s)) = Inr (int (slot_of key_hash4 (cs_maxEntries s) (cs_key s i)))"
proof -
  show h: "triple_hashable (cs_key s i)" using cs_invD(6) [OF assms(1)] assms(2) by (simp add: table_def)
  have ex: "\<exists>j \<in> cs_used s. cs_key s j = cs_key s i" using assms(2) by blast
  obtain j where j: "j \<in> cs_used s" "cs_key s j = cs_key s i" "cs_slot (cs_key s i) s = Inr (int j)"
    "cs_entry (cs_key s i) (int (slot_of key_hash4 (cs_maxEntries s) (cs_key s i))) s = Inr (int j)"
    using cs_lookup [OF assms(1) h] unfolding if_P [OF ex] by blast
  then have "j = i" using cs_invD(7) [OF assms(1)] assms(2) by (auto dest: inj_onD)
  then show "cs_slot (cs_key s i) s = Inr (int i)"
    "cs_entry (cs_key s i) (int (slot_of key_hash4 (cs_maxEntries s) (cs_key s i))) s = Inr (int i)" using j by simp_all
  show "key_hash4 (cs_key s i) (int (cs_maxEntries s)) = Inr (int (slot_of key_hash4 (cs_maxEntries s) (cs_key s i)))"
    using cs_lookup [OF assms(1) h] by blast
qed

text \<open>The slot, its object and its place in the LRU, for a cached chunk.\<close>

lemma cs_used_facts:
  assumes "cs_inv s q" "i \<in> cs_used s"
  shows "cs_ref s i < length (cs_store s)" "i \<in> set q \<longleftrightarrow> ch_marks (cs_head s i) = 0" "0 \<le> ch_marks (cs_head s i)"
    "cs_store s ! cs_ref s i = cs_head s i" "distinct q"
  using cs_invD(8-10) [OF assms(1), of i] assms(2) cs_used_bound [OF assms] lru.rel_distinct [OF cs_invD(4) [OF assms(1)]]
  by (simp_all add: cs_head_def)

lemma cs_getAndMark_hit:
  fixes i :: nat
  assumes s: "cs_inv s q" "i \<in> cs_used s"
  defines "r \<equiv> cs_ref s i"
  shows "\<exists>l. cs_getAndMark (cs_key s i) s = Inr ((cs_upd r ch_mark s)\<lparr>cs_lru := l\<rparr>, if q = [i] then None else Some r)
    \<and> (if q = [i] then l = cs_lru s else cs_inv ((cs_upd r ch_mark s)\<lparr>cs_lru := l\<rparr>) (remove1 i q))"
proof -
  note f = cs_used_facts [OF s] and d = cs_invD [OF s(1)]
  have get: "cs_getAndMark (cs_key s i) s = Inr (if ch_marks (cs_head s i) = 0
     then (let (ok, lru) = dequeue (cs_lru s) (int i); s = (cs_upd r ch_mark s)\<lparr>cs_lru := lru\<rparr> in if ok then (s, Some r) else (s, None))
     else (cs_upd r ch_mark s, Some r))"
    using cs_slot_used(1) [OF s] cs_used_at [OF s(2)] f
    by (simp add: cs_getAndMark_def cs_upd_store r_def Let_def split: prod.split)
  consider "i \<notin> set q" | "q = [i]" | "i \<in> set q" "length q \<noteq> 1" by (cases q; cases "tl q") auto
  then show ?thesis
  proof cases
    case 1
    then have "cs_inv ((cs_upd r ch_mark s)\<lparr>cs_lru := cs_lru s\<rparr>) q"
      using cs_inv_marks(1) [OF s, of ch_mark "cs_lru s" q] d f by (simp add: r_def)
    moreover have eq: "(cs_upd r ch_mark s)\<lparr>cs_lru := cs_lru s\<rparr> = cs_upd r ch_mark s" by (simp add: cs_upd_def)
    moreover have "q \<noteq> [i]" "remove1 i q = q" using 1 by (auto simp: remove1_idem)
    ultimately show ?thesis using 1 get f(2) by (intro exI [of _ "cs_lru s"]) (simp only: eq if_False simp_thms)
  next
    case 2
    then have "dequeue (cs_lru s) (int i) = (False, cs_lru s)" using lru.deq_only d(4) by blast
    then show ?thesis using 2 get f(2) by simp
  next
    case 3
    then obtain l where l: "dequeue (cs_lru s) (int i) = (True, l)" "fs_rel l (remove1 i q)" "length (fs_next l) = cs_maxEntries s"
      using lru.deq_member [OF d(4)] d(5) by auto
    have "cs_inv ((cs_upd r ch_mark s)\<lparr>cs_lru := l\<rparr>) (remove1 i q)"
      unfolding r_def using 3 l(2,3) f by (intro cs_inv_marks(1) [OF s]) auto
    then show ?thesis using 3 get f(2) l(1) by (intro exI [of _ l]) auto
  qed
qed

lemma cs_enqueue_inv:
  assumes s: "cs_inv s q" "i \<in> cs_used s" and f: "\<And>h. ch_key (f h) = ch_key h" "ch_marks (f (cs_head s i)) = ch_marks (cs_head s i) - 1"
    and m: "0 < ch_marks (cs_head s i)"
  defines "s1 \<equiv> cs_upd (cs_ref s i) f s"
  defines "s2 \<equiv> if ch_marks (cs_store s1 ! cs_ref s i) = 0 then cs_enqueue (int i) s1 else s1"
  shows "cs_inv s2 (if ch_marks (cs_head s i) = 1 then q @ [i] else q)" "cs_content s2 = cs_content s" "cs_store s2 = cs_store s1"
    "cs_values s2 = cs_values s" "cs_maxEntries s2 = cs_maxEntries s" "cs_dirty s2 = cs_dirty s" "cs_saveBatchSize s2 = cs_saveBatchSize s"
proof -
  note u = cs_used_facts [OF s] and d = cs_invD [OF s(1)]
  have marks: "ch_marks (cs_store s1 ! cs_ref s i) = ch_marks (cs_head s i) - 1"
    using u(1,4) f(2) by (simp add: s1_def cs_upd_store)
  define l where "l = (if ch_marks (cs_head s i) = 1 then snd (enqueue (cs_lru s) (int i)) else cs_lru s)"
  have s2: "s2 = s1\<lparr>cs_lru := l\<rparr>" unfolding s2_def l_def marks by (simp add: cs_enqueue_def s1_def)
  have i: "i \<notin> set q" "i < cs_maxEntries s" using u(2) m cs_used_bound [OF s] by simp_all
  have l: "fs_rel l (if ch_marks (cs_head s i) = 1 then q @ [i] else q)" "length (fs_next l) = cs_maxEntries s"
    using lru.enq_rel [OF d(4), of i] d(4,5) i by (simp_all add: l_def)
  show "cs_inv s2 (if ch_marks (cs_head s i) = 1 then q @ [i] else q)" "cs_content s2 = cs_content s"
    using cs_inv_marks [OF s f(1), of l "if ch_marks (cs_head s i) = 1 then q @ [i] else q"] l i m f(2)
    unfolding s2 s1_def by (simp_all split: if_splits)
  show "cs_store s2 = cs_store s1" "cs_values s2 = cs_values s" "cs_maxEntries s2 = cs_maxEntries s" "cs_dirty s2 = cs_dirty s"
    "cs_saveBatchSize s2 = cs_saveBatchSize s"
    by (simp_all add: s2 s1_def)
qed

end
