(* ===== verification/ChunkSpacePut.thy ===== *)
theory ChunkSpacePut
  imports ChunkSpaceSpec
begin

text \<open>
  \<open>putAndMark\<close> of the cache: eviction of the oldest unmarked chunk and insertion; and the properties of the
  cache.
\<close>

subsection \<open>The table part of the invariant\<close>

definition cs_table :: "chunk_space \<Rightarrow> bool" where
  "cs_table s \<longleftrightarrow>
     0 < cs_maxEntries s \<and> length (cs_values s) = cs_maxEntries s \<and> cs_hashLock s = replicate (cs_maxEntries s) (-1)
     \<and> table key_hash4 triple_hashable (-1) (cs_maxEntries s) (cs_used s) (cs_key s) (cs_next s) (cs_hash s)
     \<and> inj_on (cs_key s) (cs_used s) \<and> (\<forall>i \<in> cs_used s. cs_ref s i < length (cs_store s)) \<and> cs_count s = int (card (cs_used s))"

lemma cs_inv_table:
  "cs_inv s q \<longleftrightarrow> cs_table s \<and> fs_rel (cs_lru s) q \<and> length (fs_next (cs_lru s)) = cs_maxEntries s
     \<and> (\<forall>i < cs_maxEntries s. i \<in> set q \<longleftrightarrow> i \<notin> cs_used s \<or> ch_marks (cs_head s i) = 0)
     \<and> (\<forall>i \<in> cs_used s. 0 \<le> ch_marks (cs_head s i))"
  unfolding cs_inv_def cs_table_def by blast

lemma cs_tableD:
  assumes "cs_table s"
  shows "0 < cs_maxEntries s" "length (cs_values s) = cs_maxEntries s" "cs_hashLock s = replicate (cs_maxEntries s) (-1)"
    "table key_hash4 triple_hashable (-1) (cs_maxEntries s) (cs_used s) (cs_key s) (cs_next s) (cs_hash s)"
    "inj_on (cs_key s) (cs_used s)" "i \<in> cs_used s \<Longrightarrow> cs_ref s i < length (cs_store s)" "cs_count s = int (card (cs_used s))"
    "cs_maxEntries s < 2 ^ 31" "length (cs_next s) = cs_maxEntries s" "length (cs_hash s) = cs_maxEntries s"
  using assms unfolding cs_table_def by (simp_all add: table_def)

lemma cs_slots_cong:
  assumes "cs_values s' = cs_values s" "cs_store s' = cs_store s"
  shows "cs_used s' = cs_used s" "cs_ref s' = cs_ref s" "cs_head s' = cs_head s" "cs_key s' = cs_key s" "cs_content s' = cs_content s"
    "cs_match k s' = cs_match k s"
  using assms by (simp_all add: cs_used_def cs_ref_def [abs_def] cs_head_def [abs_def] cs_key_def [abs_def] cs_content_def
      cs_match_def [abs_def] cs_at_def cong: option.case_cong)

lemma cs_lock_free:
  assumes "cs_hashLock s = replicate (cs_maxEntries s) (-1)" "i < cs_maxEntries s"
  shows "cs_lock (int i) s = Inr (s\<lparr>cs_hashLock := (cs_hashLock s)[i := 1]\<rparr>)"
  using assms by (simp add: cs_lock_def)

lemma lock_restored: "(replicate n (-1 :: int))[i := 1, i := -1] = replicate n (-1)"
  by (simp add: list_update_same_conv) (metis list_update_id list_update_overwrite nth_replicate list_update_beyond length_replicate not_le)

text \<open>The slots after one of them was emptied or filled.\<close>

lemma cs_values_update:
  assumes v: "v < length (cs_values s)" and s': "cs_values s' = (cs_values s)[v := x]" "cs_store s' = cs_store s"
  shows "cs_used s' = (if x = None then cs_used s - {v} else insert v (cs_used s))"
    "i \<noteq> v \<Longrightarrow> cs_ref s' i = cs_ref s i" "i \<noteq> v \<Longrightarrow> cs_head s' i = cs_head s i" "i \<noteq> v \<Longrightarrow> cs_key s' i = cs_key s i"
    "x = Some r \<Longrightarrow> cs_ref s' v = r"
  using assms by (auto simp: cs_used_def cs_ref_def cs_head_def cs_key_def nth_list_update split: if_splits)

lemma cs_evict:
  assumes t: "cs_table s" "v \<in> cs_used s"
  shows "\<exists>s'. cs_evict (int v) (cs_ref s v) s = Inr s' \<and> cs_table s' \<and> cs_values s' = (cs_values s)[v := None]
    \<and> cs_store s' = cs_store s \<and> cs_lru s' = cs_lru s \<and> cs_maxEntries s' = cs_maxEntries s \<and> cs_dirty s' = cs_dirty s
    \<and> cs_saveBatchSize s' = cs_saveBatchSize s"
proof -
  note d = cs_tableD [OF t(1)]
  let ?N = "cs_maxEntries s" and ?k = "cs_key s v"
  let ?b = "slot_of key_hash4 ?N ?k"
  have v: "v < ?N" "triple_hashable ?k" using d(4) t(2) by (simp_all add: table_def)
  have h: "key_hash4 ?k (int ?N) = Inr (int ?b)" "?b < ?N" using ck.slot_of [OF v(2) d(1,8)] by simp_all
  have m: "cs_match ?k s (int i) \<longleftrightarrow> i = v" if "i \<in> cs_used s" for i
    using cs_match_used [OF that] d(5) t(2) that by (auto dest: inj_onD)
  obtain lst where l: "cs_find_last (cs_match ?k s) (cs_next s) (-1) (rd (cs_hash s) (Some (int ?b))) = Some (lst, Some (int v))"
    "lst = -1 \<or> (\<exists>l < ?N. lst = int l)"
    "table key_hash4 triple_hashable (-1) ?N (cs_used s - {v}) (cs_key s)
      ((if lst = -1 then cs_next s else wrn (cs_next s) (Some lst) (rd (cs_next s) (Some (int v))))[v := -1])
      (if lst = -1 then wrn (cs_hash s) (Some (int ?b)) (rd (cs_next s) (Some (int v))) else cs_hash s)"
    using ck.table_remove [OF d(4) t(2) d(1), of "cs_match ?k s", OF m] by blast
  let ?nx = "(if lst = -1 then cs_next s else wrn (cs_next s) (Some lst) (rd (cs_next s) (Some (int v))))[v := -1]"
  let ?hs = "if lst = -1 then wrn (cs_hash s) (Some (int ?b)) (rd (cs_next s) (Some (int v))) else cs_hash s"
  let ?s' = "s\<lparr>cs_next := ?nx, cs_hash := ?hs, cs_values := (cs_values s)[v := None], cs_count := cs_count s - 1\<rparr>"
  have lock: "cs_match ?k (s\<lparr>cs_hashLock := x\<rparr>) = cs_match ?k s" for x by (rule cs_slots_cong) simp_all
  have "cs_evict (int v) (cs_ref s v) s = Inr (s\<lparr>cs_hashLock := (cs_hashLock s)[?b := 1, ?b := -1], cs_next := ?nx, cs_hash := ?hs,
      cs_values := (cs_values s)[v := None], cs_count := cs_count s - 1\<rparr>)"
    using h cs_lock_free [OF d(3) h(2)] l(1,2) v(1) d(2,3,9)
    by (simp add: cs_evict_def cs_key_def [symmetric] cs_head_def [symmetric] lock cs_unlock_def Let_def)
  also have "(cs_hashLock s)[?b := 1, ?b := -1] = cs_hashLock s" using d(3) lock_restored by simp
  finally have e: "cs_evict (int v) (cs_ref s v) s = Inr ?s'" by simp
  note u = cs_values_update [of v s ?s' None] 
  have u1: "cs_used ?s' = cs_used s - {v}" using u(1) v(1) d(2) by simp
  have k: "cs_key ?s' i = cs_key s i" "cs_ref ?s' i = cs_ref s i" if "i \<in> cs_used s - {v}" for i
    using u(2,4) v(1) d(2) that by simp_all
  have "table key_hash4 triple_hashable (-1) ?N (cs_used s - {v}) (cs_key ?s') ?nx ?hs"
    using l(3) table_cong [of "cs_used s - {v}" "cs_key ?s'" "cs_key s"] k(1) by blast
  moreover have "inj_on (cs_key ?s') (cs_used s - {v})" using d(5) k(1) by (auto simp: inj_on_def)
  moreover have "int (card (cs_used s)) - 1 = int (card (cs_used s - {v}))"
    using t(2) card_Suc_Diff1 [of "cs_used s" v] by simp
  ultimately have "cs_table ?s'" using d u1 k(2) unfolding cs_table_def by simp
  then show ?thesis using e by (intro exI [of _ ?s']) simp
qed

lemma cs_fill:
  assumes t: "cs_table s" "v < cs_maxEntries s" "v \<notin> cs_used s" "r < length (cs_store s)"
    and k: "k = ch_key (cs_store s ! r)" "triple_hashable k" "\<forall>i \<in> cs_used s. cs_key s i \<noteq> k"
  shows "\<exists>s'. cs_fill r (int v) (int (slot_of key_hash4 (cs_maxEntries s) k)) s = Inr (s', Some r) \<and> cs_table s'
    \<and> cs_values s' = (cs_values s)[v := Some r]
    \<and> cs_store s' = cs_store s \<and> cs_lru s' = cs_lru s \<and> cs_maxEntries s' = cs_maxEntries s \<and> cs_dirty s' = cs_dirty s
    \<and> cs_saveBatchSize s' = cs_saveBatchSize s"
proof -
  note d = cs_tableD [OF t(1)]
  let ?N = "cs_maxEntries s"
  let ?b = "slot_of key_hash4 ?N k"
  have b: "?b < ?N" using ck.slot_of [OF k(2) d(1,8)] by simp
  let ?nx = "(cs_next s)[v := cs_hash s ! ?b]" and ?hs = "(cs_hash s)[?b := int v]"
  let ?s' = "s\<lparr>cs_next := ?nx, cs_hash := ?hs, cs_values := (cs_values s)[v := Some r], cs_count := cs_count s + 1\<rparr>"
  let ?s0 = "s\<lparr>cs_values := (cs_values s)[v := Some r]\<rparr>"
  have "cs_lock (int ?b) ?s0 = Inr (?s0\<lparr>cs_hashLock := (cs_hashLock s)[?b := 1]\<rparr>)"
    using cs_lock_free [of ?s0 ?b] d(3) b by simp
  then have "cs_fill r (int v) (int ?b) s = Inr (s\<lparr>cs_hashLock := (cs_hashLock s)[?b := 1, ?b := -1], cs_next := ?nx, cs_hash := ?hs,
      cs_values := (cs_values s)[v := Some r], cs_count := cs_count s + 1\<rparr>, Some r)"
    using b t(2) d(2,3,9,10) by (simp add: cs_fill_def cs_unlock_def Let_def)
  also have "(cs_hashLock s)[?b := 1, ?b := -1] = cs_hashLock s" using d(3) lock_restored by simp
  finally have e: "cs_fill r (int v) (int ?b) s = Inr (?s', Some r)" by simp
  note u = cs_values_update [of v s ?s' "Some r"]
  have u1: "cs_used ?s' = insert v (cs_used s)" using u(1) t(2) d(2) by simp
  have kv: "cs_key ?s' v = k" "cs_ref ?s' v = r" using u(5) t(2) d(2) k(1) by (simp_all add: cs_key_def cs_head_def)
  have kk: "cs_key ?s' i = cs_key s i" "cs_ref ?s' i = cs_ref s i" if "i \<in> cs_used s" for i
  proof -
    have "i \<noteq> v" using that t(3) by blast
    then show "cs_key ?s' i = cs_key s i" "cs_ref ?s' i = cs_ref s i" using u(2,4) t(2) d(2) by simp_all
  qed
  have "bucket_link (Some (-1)) (int ?b) (int v) (cs_next s, cs_hash s) = (?nx, ?hs)"
    using b t(2) d(9,10) by (auto simp: bucket_link_def)
  then have "table key_hash4 triple_hashable (-1) ?N (insert v (cs_used s)) (cs_key ?s') ?nx ?hs"
    using ck.table_insert [OF d(4) t(3,2) k(2) kv(1) kk(1), of "Some (-1)"] by auto
  moreover have "inj_on (cs_key ?s') (insert v (cs_used s))"
    using d(5) k(3) kv(1) kk(1) t(3) by (auto simp: inj_on_def)
  ultimately have "cs_table ?s'" using d(1-3,6,7) u1 kv(2) kk(2) t(3,4) unfolding cs_table_def by simp
  then show ?thesis using e by (intro exI [of _ ?s']) simp
qed

subsection \<open>putAndMark\<close>

lemma cs_upd_other:
  assumes s: "cs_inv s q" "\<forall>i \<in> cs_used s. cs_ref s i \<noteq> r"
  shows "cs_inv (cs_upd r f s) q" "cs_content (cs_upd r f s) = cs_content s" "i \<in> cs_used s \<Longrightarrow> cs_head (cs_upd r f s) i = cs_head s i"
    "i \<in> cs_used s \<Longrightarrow> cs_key (cs_upd r f s) i = cs_key s i"
proof -
  show h: "cs_head (cs_upd r f s) i = cs_head s i" if "i \<in> cs_used s" for i
  proof -
    have "r \<noteq> cs_ref s i" using s(2) that by blast
    then show ?thesis by (simp add: cs_head_def) (simp add: cs_upd_def)
  qed
  show k: "cs_key (cs_upd r f s) i = cs_key s i" if "i \<in> cs_used s" for i using h [OF that] by (simp add: cs_key_def)
  have "table key_hash4 triple_hashable (-1) (cs_maxEntries s) (cs_used s) (cs_key (cs_upd r f s)) (cs_next s) (cs_hash s)"
    using cs_invD(6) [OF s(1)] table_cong [of "cs_used s" "cs_key (cs_upd r f s)" "cs_key s"] k by blast
  moreover have "inj_on (cs_key (cs_upd r f s)) (cs_used s)" using cs_invD(7) [OF s(1)] k by (auto simp: inj_on_def)
  moreover have "\<forall>i < cs_maxEntries s. i \<in> set q \<longleftrightarrow> i \<notin> cs_used s \<or> ch_marks (cs_head (cs_upd r f s) i) = 0"
    using cs_invD(9) [OF s(1)] h by metis
  ultimately show "cs_inv (cs_upd r f s) q" using cs_invD(1-5,8,10,11) [OF s(1)] h by (simp add: cs_inv_def)
  show "cs_content (cs_upd r f s) = cs_content s" using k by (simp add: cs_content_def cong: image_cong)
qed

lemma cs_inv_lru_table: "cs_inv s q \<Longrightarrow> cs_table (s\<lparr>cs_lru := l\<rparr>)"
  unfolding cs_inv_def cs_table_def by (simp add: cs_ref_def [abs_def])

lemma cs_put_new:
  assumes s: "cs_inv s (v # q)" and r: "r < length (cs_store s)" "\<forall>i \<in> cs_used s. cs_ref s i \<noteq> r" "ch_marks (cs_store s ! r) = 0"
    and k: "k = ch_key (cs_store s ! r)" "triple_hashable k" "\<forall>i \<in> cs_used s. cs_key s i \<noteq> k"
  shows "\<exists>s'. cs_putAndMark r s = Inr (s', Some r) \<and> cs_inv s' q \<and> cs_values s' = (cs_values s)[v := Some r]
    \<and> cs_store s' = cs_store (cs_upd r ch_mark s) \<and> cs_dirty s' = cs_dirty s \<and> cs_saveBatchSize s' = cs_saveBatchSize s"
proof -
  define s1 where "s1 = cs_upd r ch_mark s"
  have s1: "cs_inv s1 (v # q)" "cs_used s1 = cs_used s" "cs_maxEntries s1 = cs_maxEntries s" "cs_values s1 = cs_values s"
    and h1: "\<And>i. i \<in> cs_used s \<Longrightarrow> cs_key s1 i = cs_key s i"
    using cs_upd_other [OF s r(2)] by (simp_all add: s1_def)
  have r1: "cs_store s1 ! r = ch_mark (cs_store s ! r)" "r < length (cs_store s1)" using r(1) by (simp_all add: s1_def cs_upd_store)
  have k1: "\<forall>i \<in> cs_used s1. cs_key s1 i \<noteq> k" using k(3) s1(2) h1 by auto
  obtain m where m: "key_hash4 k (int (cs_maxEntries s1)) = Inr (int (slot_of key_hash4 (cs_maxEntries s1) k))"
     "cs_entry k (int (slot_of key_hash4 (cs_maxEntries s1) k)) s1 = Inr (-1)"
    using cs_lookup [OF s1(1) k(2)] k1 by auto
  note d = cs_invD [OF s1(1)]
  obtain l where l: "dequeueTail (cs_lru s1) = (Some (int v), l)" "fs_rel l q" "length (fs_next l) = cs_maxEntries s1"
    using lru.deq_tail_oldest [OF d(4)] d(5) by auto
  define s2 where "s2 = s1\<lparr>cs_lru := l\<rparr>"
  have s2: "cs_table s2" "cs_used s2 = cs_used s1" "cs_ref s2 = cs_ref s1" "cs_head s2 = cs_head s1" "cs_values s2 = cs_values s1"
    "cs_key s2 = cs_key s1" using cs_inv_lru_table [OF s1(1)] by (simp_all add: s2_def)
  have v: "v < cs_maxEntries s" "v \<notin> set q" using lru.rel_bound [OF d(4)] lru.rel_distinct [OF d(4)] d(5) s1(3) by auto
  have "\<exists>s3. (case cs_at (Some (int v)) s2 of None \<Rightarrow> Inr s2 | Some victim \<Rightarrow> cs_evict (int v) victim s2) = Inr s3 \<and> cs_table s3
    \<and> cs_values s3 = (cs_values s2)[v := None] \<and> cs_store s3 = cs_store s2 \<and> cs_lru s3 = l \<and> cs_maxEntries s3 = cs_maxEntries s
    \<and> cs_dirty s3 = cs_dirty s \<and> cs_saveBatchSize s3 = cs_saveBatchSize s"
  proof (cases "v \<in> cs_used s2")
    case True
    show ?thesis using cs_evict [OF s2(1) True] cs_used_at [OF True] by (simp add: s2_def s1_def)
  next
    case False
    have "v < length (cs_values s2)" using v(1) s2(5) s1(4) d(2) s1(3) by simp
    then have "(cs_values s2)[v := None] = cs_values s2" using False by (simp add: cs_used_def list_update_same_conv)
    then show ?thesis using False s2(1) cs_unused_at [OF _ False] v(1) d(2) s1(3) by (simp add: s2_def) (simp add: s1_def)
  qed
  then obtain s3 where s3: "(case cs_at (Some (int v)) s2 of None \<Rightarrow> Inr s2 | Some victim \<Rightarrow> cs_evict (int v) victim s2) = Inr s3"
    "cs_table s3" "cs_values s3 = (cs_values s2)[v := None]" "cs_store s3 = cs_store s2" "cs_lru s3 = l"
    "cs_maxEntries s3 = cs_maxEntries s" "cs_dirty s3 = cs_dirty s" "cs_saveBatchSize s3 = cs_saveBatchSize s" by blast
  have vl: "v < length (cs_values s2)" using v(1) s2(5) s1(4) d(2) s1(3) by simp
  note u3 = cs_values_update [OF vl s3(3,4)]
  have used3: "cs_used s3 = cs_used s2 - {v}" using u3(1) by simp
  have k3: "\<forall>i \<in> cs_used s3. cs_key s3 i \<noteq> k" using k1 used3 u3(4) s2(2,6) by auto
  have st: "cs_store s3 ! r = ch_mark (cs_store s ! r)" "r < length (cs_store s3)" using r1 s3(4) by (simp_all add: s2_def)
  obtain s4 where s4: "cs_fill r (int v) (int (slot_of key_hash4 (cs_maxEntries s3) k)) s3 = Inr (s4, Some r)" "cs_table s4"
    "cs_values s4 = (cs_values s3)[v := Some r]" "cs_store s4 = cs_store s3" "cs_lru s4 = cs_lru s3"
    "cs_maxEntries s4 = cs_maxEntries s3" "cs_dirty s4 = cs_dirty s3" "cs_saveBatchSize s4 = cs_saveBatchSize s3"
    using cs_fill [OF s3(2), of v r k] v(1) s3(6) used3 st k(1,2) k3 by auto
  have put: "cs_putAndMark r s = Inr (s4, Some r)"
    using r1(1) r(3) k(1) m l(1) s3(1,6) s4(1) s1(3)
    by (simp add: cs_putAndMark_def s1_def [symmetric] cs_victim_def s2_def [symmetric] Let_def)
  have vl3: "v < length (cs_values s3)" using vl s3(3) by simp
  note u4 = cs_values_update [OF vl3 s4(3,4)]
  have used4: "cs_used s4 = insert v (cs_used s1)" using u4(1) used3 s2(2) by auto
  have head4: "cs_head s4 i = cs_head s1 i" if "i \<noteq> v" for i using u4(3) [OF that] u3(3) [OF that] s2(4) by simp
  have headv: "cs_head s4 v = ch_mark (cs_store s ! r)" using u4(5) s4(4) st(1) by (simp add: cs_head_def)
  have "(i \<in> set q) = (i \<notin> cs_used s4 \<or> ch_marks (cs_head s4 i) = 0)" if i: "i < cs_maxEntries s4" for i
  proof (cases "i = v")
    case True
    then show ?thesis using v(2) used4 headv r(3) by simp
  next
    case False
    then show ?thesis using d(9) [of i] i s4(6) s3(6) s1(3) used4 head4 by simp
  qed
  moreover have "\<forall>i \<in> cs_used s4. 0 \<le> ch_marks (cs_head s4 i)"
  proof
    fix i assume "i \<in> cs_used s4"
    then show "0 \<le> ch_marks (cs_head s4 i)"
      using d(10) [of i] used4 head4 [of i] headv r(3) by (cases "i = v") simp_all
  qed
  ultimately have "cs_inv s4 q" using s4(2,5,6) s3(5,6) l(2,3) s1(3) by (simp add: cs_inv_table)
  moreover have "cs_values s4 = (cs_values s)[v := Some r]" using s4(3) s3(3) s2(5) s1(4) by simp
  moreover have "cs_store s4 = cs_store (cs_upd r ch_mark s)" using s4(4) s3(4) by (simp add: s2_def s1_def)
  ultimately show ?thesis using put s4(7,8) s3(7,8) by (intro exI [of _ s4]) simp
qed

lemma cs_put_full:
  assumes s: "cs_inv s []" and r: "r < length (cs_store s)" "\<forall>i \<in> cs_used s. cs_ref s i \<noteq> r" "ch_marks (cs_store s ! r) = 0"
    and k: "k = ch_key (cs_store s ! r)" "triple_hashable k" "\<forall>i \<in> cs_used s. cs_key s i \<noteq> k"
  shows "cs_putAndMark r s = Inl (JsError ''mwDB crashed, cache is full, please avoid to much retention of nodes or augment cache capacity!'')"
proof -
  define s1 where "s1 = cs_upd r ch_mark s"
  have s1: "cs_inv s1 []" "cs_used s1 = cs_used s" "\<forall>i \<in> cs_used s1. cs_key s1 i \<noteq> k"
    using cs_upd_other [OF s r(2)] k(3) by (simp_all add: s1_def)
  have "key_hash4 k (int (cs_maxEntries s1)) = Inr (int (slot_of key_hash4 (cs_maxEntries s1) k))"
     "cs_entry k (int (slot_of key_hash4 (cs_maxEntries s1) k)) s1 = Inr (-1)"
    using cs_lookup [OF s1(1) k(2)] s1(3) by auto
  moreover have "cs_store s1 ! r = ch_mark (cs_store s ! r)" using r(1) by (simp add: s1_def cs_upd_store)
  moreover have "dequeueTail (cs_lru s1) = (Some (-1), cs_lru s1)" using lru.deq_tail_empty cs_invD(4) [OF s1(1)] by blast
  ultimately show ?thesis using r(3) k(1) by (simp add: cs_putAndMark_def s1_def [symmetric] cs_victim_def Let_def)
qed

end
