(* ===== verification/ChunkSpaceSave.thy ===== *)
theory ChunkSpaceSave
  imports ChunkSpacePut
begin

text \<open>
  Dirty chunks: \<open>declareDirty\<close>, \<open>declareClean\<close> and the saving of the dirty list; and the properties of the
  cache.
\<close>

subsection \<open>Flags\<close>

lemma js_and_1: "js_and x 1 = x mod 2"
proof -
  have "js_and x 1 = take_bit 1 (to_int32 x)" by (simp add: js_and_def take_bit_eq_mask to_int32_def)
  also have "\<dots> = take_bit 1 x" unfolding to_int32_bits by (rule take_bit_signed_take_bit) simp
  finally show ?thesis by (simp add: take_bit_eq_mod)
qed

lemma js_or_even: "js_or x y mod 2 = 0 \<longleftrightarrow> x mod 2 = 0 \<and> y mod 2 = 0"
proof -
  have "odd (js_or x y) \<longleftrightarrow> odd x \<or> odd y" using bit_js_or [of 0 x y] by (simp add: bit_0)
  then show ?thesis by (auto simp: even_iff_mod_2_eq_zero)
qed

lemma js_and_even: "js_and x y mod 2 = 0 \<longleftrightarrow> x mod 2 = 0 \<or> y mod 2 = 0"
proof -
  have "bit (js_and x y) 0 \<longleftrightarrow> bit x 0 \<and> bit y 0" by (simp add: js_and_def bit_simps)
  then show ?thesis by (auto simp: bit_0 even_iff_mod_2_eq_zero)
qed

definition ch_dirty :: "chunk_head \<Rightarrow> bool" where
  "ch_dirty h \<longleftrightarrow> js_and (ch_flags h) 1 = 1"

definition clear_dirty :: "chunk_head \<Rightarrow> chunk_head" where
  "clear_dirty h = fst (ch_setFlags 0 1 h)"

definition raise_dirty :: "chunk_head \<Rightarrow> chunk_head" where
  "raise_dirty h = fst (ch_setFlags 1 0 h)"

lemma dirty_fields [simp]: "ch_key (clear_dirty h) = ch_key h" "ch_marks (clear_dirty h) = ch_marks h"
  "ch_key (raise_dirty h) = ch_key h" "ch_marks (raise_dirty h) = ch_marks h" "ch_dirty (ch_mark h) = ch_dirty h"
  "ch_dirty (ch_unmark h) = ch_dirty h"
  by (simp_all add: clear_dirty_def raise_dirty_def ch_setFlags_def ch_dirty_def split: prod.split)

lemma not_dirty_clear [simp]: "\<not> ch_dirty (clear_dirty h)"
proof -
  have "js_not 1 mod 2 = 0" by code_simp
  then have "js_or (js_and (ch_flags h) (js_not 1)) 0 mod 2 = 0" by (simp add: js_or_even js_and_even)
  then show ?thesis by (simp add: ch_dirty_def clear_dirty_def ch_setFlags_def chunk_setFlags_def js_and_1 Let_def)
qed

lemma dirty_raise [simp]: "ch_dirty (raise_dirty h)"
proof -
  have "js_or x 1 mod 2 \<noteq> 0" for x by (simp add: js_or_even)
  then have "js_or x 1 mod 2 = 1" for x by presburger
  then show ?thesis by (simp add: ch_dirty_def raise_dirty_def ch_setFlags_def chunk_setFlags_def js_and_1 Let_def)
qed

lemma raise_changes: "\<not> ch_dirty h \<Longrightarrow> snd (ch_setFlags 1 0 h)"
proof -
  assume n: "\<not> ch_dirty h"
  have "js_or (js_and (ch_flags h) (js_not 0)) 1 mod 2 \<noteq> 0" by (simp add: js_or_even)
  moreover have "ch_flags h mod 2 = 0" using n by (auto simp: ch_dirty_def js_and_1)
  ultimately have "ch_flags h \<noteq> js_or (js_and (ch_flags h) (js_not 0)) 1" by metis
  then show ?thesis by (simp add: ch_setFlags_def chunk_setFlags_def Let_def)
qed

subsection \<open>declareClean\<close>

abbreviation slot_marks :: "chunk_space \<Rightarrow> nat \<Rightarrow> int" where
  "slot_marks s i \<equiv> ch_marks (cs_head s i)"

abbreviation slot_dirty :: "chunk_space \<Rightarrow> nat \<Rightarrow> bool" where
  "slot_dirty s i \<equiv> ch_dirty (cs_head s i)"

text \<open>What an operation leaves alone.\<close>

definition cs_frame :: "chunk_space \<Rightarrow> chunk_space \<Rightarrow> bool" where
  "cs_frame s s' \<longleftrightarrow> cs_values s' = cs_values s \<and> cs_content s' = cs_content s \<and> length (cs_store s') = length (cs_store s)
     \<and> cs_dirty s' = cs_dirty s \<and> cs_saveBatchSize s' = cs_saveBatchSize s \<and> cs_maxEntries s' = cs_maxEntries s"

lemma cs_frame_refl [simp]: "cs_frame s s"
  by (simp add: cs_frame_def)

lemma cs_frame_trans: "cs_frame s s' \<Longrightarrow> cs_frame s' s'' \<Longrightarrow> cs_frame s s''"
  by (simp add: cs_frame_def)

lemma cs_frame_slots: "cs_frame s s' \<Longrightarrow> cs_used s' = cs_used s" "cs_frame s s' \<Longrightarrow> cs_ref s' = cs_ref s"
  by (simp_all add: cs_frame_def cs_used_def cs_ref_def [abs_def])

lemma cs_upd_upd: "r < length (cs_store s) \<Longrightarrow> cs_upd r g (cs_upd r f s) = cs_upd r (g \<circ> f) s"
  by (simp add: cs_upd_def)

lemma cs_declareClean_spec:
  assumes s: "cs_inv s q" "i \<in> cs_used s" "0 < slot_marks s i"
  shows "\<exists>s' q'. cs_declareClean (cs_ref s i) s = Inr s' \<and> cs_inv s' q' \<and> cs_frame s s'
    \<and> (\<forall>j \<in> cs_used s. slot_marks s' j = slot_marks s j - (if j = i then 1 else 0) \<and> slot_dirty s' j = (slot_dirty s j \<and> j \<noteq> i))"
proof -
  note u = cs_used_facts [OF s(1,2)] and sl = cs_slot_used [OF s(1,2)]
  let ?r = "cs_ref s i" and ?f = "ch_unmark \<circ> clear_dirty"
  have f: "ch_key (?f h) = ch_key h" "ch_marks (?f (cs_head s i)) = slot_marks s i - 1" for h by simp_all
  let ?s1 = "cs_upd ?r ?f s"
  define s2 where "s2 = (if ch_marks (cs_store ?s1 ! ?r) = 0 then cs_enqueue (int i) ?s1 else ?s1)"
  note e = cs_enqueue_inv [OF s(1,2), of ?f, OF f s(3), folded s2_def]
  have "cs_declareClean ?r s = Inr s2"
    using sl(3,4) cs_used_at [OF s(2)] u(1,4)
    by (simp add: cs_declareClean_def cs_key_def [symmetric] cs_upd_upd clear_dirty_def [symmetric, abs_def] s2_def Let_def)
  moreover have "cs_frame s s2" using e by (simp add: cs_frame_def)
  moreover have "cs_head s2 j = (if j = i then ?f (cs_head s j) else cs_head s j)" if "j \<in> cs_used s" for j
  proof -
    have "cs_head s2 j = cs_head ?s1 j" using cs_slots_cong(3) [of s2 ?s1] e(3,4) by simp
    then show ?thesis using cs_upd_head [OF u(1)] ref_inj [OF s(1) that s(2)] by auto
  qed
  ultimately show ?thesis using e(1)
    by (intro exI [of _ s2] exI [of _ "if slot_marks s i = 1 then q @ [i] else q"]) simp
qed

subsection \<open>The saving of a dirty list\<close>

text \<open>
  A saver is steady when it depends on the chunk only whether it throws, and it always returns.  A chunk whose \<open>save\<close> throws is
  skipped by the loop, which logs the error: it stays dirty and marked.
\<close>

definition saver_steady :: "saver \<Rightarrow> bool" where
  "saver_steady save_chunk \<longleftrightarrow> (\<forall>r h. snd (save_chunk r h) = snd (save_chunk r newHeapBuffer) \<and> snd (save_chunk r h) \<noteq> Some NoReturn)"

definition save_throws :: "bool \<Rightarrow> saver \<Rightarrow> nat \<Rightarrow> bool" where
  "save_throws noop save_chunk r \<longleftrightarrow> \<not> noop \<and> snd (save_chunk r newHeapBuffer) \<noteq> None"

text \<open>The slots of \<open>D\<close> that are saved.\<close>

definition saved_slots :: "bool \<Rightarrow> saver \<Rightarrow> chunk_space \<Rightarrow> nat set \<Rightarrow> nat set" where
  "saved_slots noop save_chunk s D = {i \<in> D. \<not> save_throws noop save_chunk (cs_ref s i)}"

definition slots_saved :: "nat set \<Rightarrow> chunk_space \<Rightarrow> chunk_space \<Rightarrow> bool" where
  "slots_saved D s s' \<longleftrightarrow> (\<forall>j \<in> cs_used s. slot_marks s' j = slot_marks s j - (if j \<in> D then 1 else 0) \<and> slot_dirty s' j = (slot_dirty s j \<and> j \<notin> D))"

lemma slots_saved_trans:
  "slots_saved D s s1 \<Longrightarrow> slots_saved D' s1 s' \<Longrightarrow> cs_used s1 = cs_used s \<Longrightarrow> D \<inter> D' = {} \<Longrightarrow> slots_saved (D \<union> D') s s'"
  by (auto simp: slots_saved_def)

lemma save_one_spec:
  assumes s: "cs_inv s q" "i \<in> cs_used s" "0 < slot_marks s i" and sv: "saver_steady save_chunk"
  shows "\<exists>b stream' s' q'. save_one noop save_chunk (cs_ref s i) (isFirst, stream, s) = Inr (b, stream', s') \<and> cs_inv s' q' \<and> cs_frame s s'
    \<and> slots_saved (saved_slots noop save_chunk s {i}) s s'"
proof (cases "save_throws noop save_chunk (cs_ref s i)")
  case True
  then obtain e where e: "snd (save_chunk (cs_ref s i) newHeapBuffer) = Some e" "\<not> noop" by (auto simp: save_throws_def)
  then have "snd (save_chunk (cs_ref s i) h) = Some e" "e \<noteq> NoReturn" for h using sv unfolding saver_steady_def by metis+
  then have "\<exists>b stream'. save_one noop save_chunk (cs_ref s i) (isFirst, stream, s) = Inr (b, stream', s)"
    using e(2) by (cases e) (auto simp: save_one_def Let_def case_prod_beta)
  then show ?thesis using s(1) True by (auto simp: saved_slots_def slots_saved_def)
next
  case False
  obtain s' q' where s': "cs_declareClean (cs_ref s i) s = Inr s'" "cs_inv s' q'" "cs_frame s s'"
    "\<forall>j \<in> cs_used s. slot_marks s' j = slot_marks s j - (if j = i then 1 else 0) \<and> slot_dirty s' j = (slot_dirty s j \<and> j \<noteq> i)"
    using cs_declareClean_spec [OF s] by blast
  have "noop \<or> snd (save_chunk (cs_ref s i) h) = None" for h using sv False unfolding save_throws_def saver_steady_def by metis
  then have "\<exists>b stream'. save_one noop save_chunk (cs_ref s i) (isFirst, stream, s) = Inr (b, stream', s')"
    using s'(1) by (cases noop) (auto simp: save_one_def Let_def case_prod_beta)
  then show ?thesis using s'(2-4) False by (auto simp: saved_slots_def slots_saved_def)
qed

lemma save_loop_spec:
  assumes "cs_inv s q" "saver_steady save_chunk" "map int rs = drop (dl_iteration d) (take (dl_next d) (dl_elements d))"
    "dl_iteration d + length rs = dl_next d" "dl_next d \<le> length (dl_elements d)"
    "set rs \<subseteq> cs_used s" "distinct rs" "\<forall>i \<in> set rs. slot_dirty s i \<and> 0 < slot_marks s i"
  shows "\<exists>b stream' s' q'. save_loop noop save_chunk d (isFirst, stream, s) = Inr (b, stream', s') \<and> cs_inv s' q' \<and> cs_frame s s'
    \<and> slots_saved (saved_slots noop save_chunk s (set rs)) s s'"
  using assms
proof (induction rs arbitrary: d isFirst stream s q)
  case Nil
  then show ?case by (subst save_loop.simps) (auto simp: dl_hasNext_def slots_saved_def saved_slots_def)
next
  case (Cons i rs)
  have lt: "dl_iteration d < dl_next d" using Cons.prems(4) by simp
  have at: "dl_elements d ! dl_iteration d = int i"
    and rest: "map int rs = drop (Suc (dl_iteration d)) (take (dl_next d) (dl_elements d))"
    using Cons.prems(3,5) lt by (simp_all add: Cons_nth_drop_Suc [symmetric])
  let ?d = "d\<lparr>dl_iteration := dl_iteration d + 1\<rparr>" and ?saved = "\<lambda>s. saved_slots noop save_chunk s"
  have step: "dl_step d = (Some (Some (int i)), ?d)" using lt at Cons.prems(5) by (simp add: dl_step_def)
  have i: "i \<in> cs_used s" "slot_dirty s i" "0 < slot_marks s i" using Cons.prems(6,8) by auto
  obtain b stream' s1 q1 where s1: "save_one noop save_chunk (cs_ref s i) (isFirst, stream, s) = Inr (b, stream', s1)" "cs_inv s1 q1"
    "cs_frame s s1" "slots_saved (?saved s {i}) s s1"
    using save_one_spec [OF Cons.prems(1) i(1,3) Cons.prems(2)] by blast
  note fr = cs_frame_slots [OF s1(3)]
  have saved: "?saved s1 D = ?saved s D" for D by (simp add: saved_slots_def fr(2))
  have other: "\<forall>j \<in> set rs. slot_dirty s1 j \<and> 0 < slot_marks s1 j"
  proof
    fix j assume j: "j \<in> set rs"
    then have "j \<noteq> i" "j \<in> cs_used s" "slot_dirty s j" "0 < slot_marks s j" using Cons.prems(6,7,8) by auto
    then show "slot_dirty s1 j \<and> 0 < slot_marks s1 j" using s1(4) by (simp add: slots_saved_def saved_slots_def)
  qed
  have "\<exists>b' stream'' s' q'. save_loop noop save_chunk ?d (b, stream', s1) = Inr (b', stream'', s') \<and> cs_inv s' q' \<and> cs_frame s1 s'
    \<and> slots_saved (?saved s1 (set rs)) s1 s'"
    by (intro Cons.IH [OF s1(2)]) (use Cons.prems rest other fr in simp_all)
  then obtain b' stream'' s' q' where s': "save_loop noop save_chunk ?d (b, stream', s1) = Inr (b', stream'', s')" "cs_inv s' q'" "cs_frame s1 s'"
    "slots_saved (?saved s (set rs)) s1 s'"
    unfolding saved by blast
  have "js_and (ch_flags (cs_store s ! cs_ref s i)) 1 = 1" using i(2) by (simp add: ch_dirty_def cs_head_def)
  then have "save_loop noop save_chunk d (isFirst, stream, s) = Inr (b', stream'', s')"
    using lt step cs_used_at [OF i(1)] s1(1) s'(1) by (subst save_loop.simps) (simp add: dl_hasNext_def)
  moreover have "?saved s {i} \<inter> ?saved s (set rs) = {}" "?saved s (set (i # rs)) = ?saved s {i} \<union> ?saved s (set rs)"
    using Cons.prems(7) by (auto simp: saved_slots_def)
  ultimately show ?case using s'(2) slots_saved_trans [OF s1(4) s'(4) fr(1)] cs_frame_trans [OF s1(3) s'(3)] by metis
qed

text \<open>
  \<open>dirty_inv P s ds\<close>: the dirty list holds the slots \<open>ds\<close>, which are dirty and marked; every dirty slot
  outside \<open>P\<close> is in the list.
\<close>

definition dirty_inv :: "nat set \<Rightarrow> chunk_space \<Rightarrow> nat list \<Rightarrow> bool" where
  "dirty_inv P s ds \<longleftrightarrow> map int ds = take (dl_next (cs_dirty s)) (dl_elements (cs_dirty s)) \<and> dl_iteration (cs_dirty s) = 0
     \<and> dl_next (cs_dirty s) \<le> dl_max (cs_dirty s) \<and> length (dl_elements (cs_dirty s)) = dl_max (cs_dirty s)
     \<and> dl_max (cs_dirty s) = cs_saveBatchSize s \<and> distinct ds \<and> set ds \<subseteq> cs_used s - P
     \<and> (\<forall>i \<in> cs_used s - P. slot_dirty s i \<longleftrightarrow> i \<in> set ds) \<and> (\<forall>i \<in> set ds. 0 < slot_marks s i)"

lemma dirty_inv_length: "dirty_inv P s ds \<Longrightarrow> length ds = dl_next (cs_dirty s)"
proof -
  assume d: "dirty_inv P s ds"
  then have "length (map int ds) = length (take (dl_next (cs_dirty s)) (dl_elements (cs_dirty s)))" by (simp only: dirty_inv_def)
  then show ?thesis using d by (simp add: dirty_inv_def)
qed

lemma graph_save_spec:
  assumes s: "cs_inv s q" "dirty_inv P s ds" and sv: "saver_steady save_chunk"
  shows "\<exists>s' stream q'. graph_save noop save_chunk s = Inr (s', stream) \<and> cs_inv s' q' \<and> cs_values s' = cs_values s \<and> cs_content s' = cs_content s
    \<and> cs_maxEntries s' = cs_maxEntries s \<and> length (cs_store s') = length (cs_store s) \<and> cs_dirty s' = newDirtyList (cs_saveBatchSize s) \<and> cs_saveBatchSize s' = cs_saveBatchSize s
    \<and> slots_saved (saved_slots noop save_chunk s (set ds)) s s'"
proof -
  define s0 where "s0 = s\<lparr>cs_dirty := newDirtyList (cs_saveBatchSize s)\<rparr>"
  have cong: "cs_used s0 = cs_used s" "cs_ref s0 = cs_ref s" "cs_head s0 = cs_head s" "cs_key s0 = cs_key s" "cs_content s0 = cs_content s"
    by (rule cs_slots_cong; simp add: s0_def)+
  have i0: "cs_inv s0 q" using s(1) unfolding cs_inv_def cong by (simp add: s0_def)
  note d = s(2) [unfolded dirty_inv_def] and n = dirty_inv_length [OF s(2)]
  show ?thesis
  proof (cases "ds = []")
    case True
    then have "graph_save noop save_chunk s = Inr (s0, None)" using n by (simp add: graph_save_def cs_detachDirties_def s0_def)
    then show ?thesis using True i0 cong by (intro exI [of _ s0] exI [of _ None] exI [of _ q]) (simp add: s0_def saved_slots_def slots_saved_def)
  next
    case False
    have ds: "\<forall>i \<in> set ds. slot_dirty s0 i \<and> 0 < slot_marks s0 i" "set ds \<subseteq> cs_used s0" using d cong by auto
    then obtain b stream s' q' where s': "save_loop noop save_chunk (cs_dirty s) (True, newHeapBuffer, s0) = Inr (b, stream, s')" "cs_inv s' q'"
      "cs_frame s0 s'" "slots_saved (saved_slots noop save_chunk s (set ds)) s s'"
      using save_loop_spec [OF i0 sv _ _ _ ds(2) _ ds(1), of "cs_dirty s" noop True newHeapBuffer] d n unfolding slots_saved_def saved_slots_def cong by auto
    have "graph_save noop save_chunk s = Inr (s', Some stream)"
      using False n [symmetric] s'(1) by (simp add: graph_save_def cs_detachDirties_def s0_def [symmetric])
    then show ?thesis using s'(2-4) cong(5)
      by (intro exI [of _ s'] exI [of _ "Some stream"] exI [of _ q']) (simp add: cs_frame_def s0_def)
  qed
qed


subsection \<open>declareDirty\<close>

lemma dl_push:
  assumes "dirty_inv P s ds" "i \<in> P" "i \<in> cs_used s" "0 < slot_marks s i" "slot_dirty s i" "length ds < cs_saveBatchSize s"
  shows "\<exists>d. dl_declareDirty (int i) (cs_dirty s) = (True, d) \<and> dirty_inv (P - {i}) (s\<lparr>cs_dirty := d\<rparr>) (ds @ [i])"
proof -
  note d = assms(1) [unfolded dirty_inv_def] and n = dirty_inv_length [OF assms(1)]
  have cong: "cs_used (s\<lparr>cs_dirty := x\<rparr>) = cs_used s" "cs_head (s\<lparr>cs_dirty := x\<rparr>) = cs_head s" for x by (rule cs_slots_cong; simp)+
  let ?d = "(cs_dirty s)\<lparr>dl_elements := (dl_elements (cs_dirty s))[dl_next (cs_dirty s) := int i], dl_next := dl_next (cs_dirty s) + 1\<rparr>"
  have "dl_declareDirty (int i) (cs_dirty s) = (True, ?d)" using d n assms(6) by (simp add: dl_declareDirty_def)
  moreover have "dirty_inv (P - {i}) (s\<lparr>cs_dirty := ?d\<rparr>) (ds @ [i])"
    using d n assms(2-6) unfolding dirty_inv_def cong by (auto simp: take_Suc_conv_app_nth)
  ultimately show ?thesis by blast
qed

lemma dirty_inv_new: "(\<forall>i \<in> cs_used s - P. \<not> slot_dirty s i) \<Longrightarrow> cs_dirty s = newDirtyList (cs_saveBatchSize s) \<Longrightarrow> dirty_inv P s []"
  by (simp add: dirty_inv_def newDirtyList_def)

text \<open>The slots of a full dirty list that the save before the entry of a new one does not clean.\<close>

definition lost_slots :: "bool \<Rightarrow> saver \<Rightarrow> chunk_space \<Rightarrow> nat list \<Rightarrow> nat set" where
  "lost_slots noop save_chunk s ds =
     (if length ds < cs_saveBatchSize s then {} else set ds - saved_slots noop save_chunk s (set ds))"

lemma declare_loop_spec:
  assumes s: "cs_inv s q" "dirty_inv (insert i P) s ds" "i \<in> cs_used s" "slot_dirty s i" "0 < slot_marks s i" "0 < cs_saveBatchSize s"
    and sv: "saver_steady save_chunk"
  shows "\<exists>s' ds' q'. declare_loop noop save_chunk (int i) s = Some s' \<and> cs_inv s' q'
    \<and> dirty_inv (P \<union> lost_slots noop save_chunk s ds - {i}) s' ds' \<and> cs_content s' = cs_content s
    \<and> cs_values s' = cs_values s \<and> i \<in> set ds' \<and> slot_marks s' i = slot_marks s i
    \<and> ds' = (if length ds < cs_saveBatchSize s then ds @ [i] else [i])"
proof -
  have cong: "cs_used (s\<lparr>cs_dirty := x\<rparr>) = cs_used s" "cs_head (s\<lparr>cs_dirty := x\<rparr>) = cs_head s" "cs_content (s\<lparr>cs_dirty := x\<rparr>) = cs_content s"
    "cs_inv (s\<lparr>cs_dirty := x\<rparr>) q = cs_inv s q" for x s q
  proof -
    show c: "cs_used (s\<lparr>cs_dirty := x\<rparr>) = cs_used s" "cs_head (s\<lparr>cs_dirty := x\<rparr>) = cs_head s" "cs_content (s\<lparr>cs_dirty := x\<rparr>) = cs_content s"
      by (rule cs_slots_cong; simp)+
    have "cs_ref (s\<lparr>cs_dirty := x\<rparr>) = cs_ref s" "cs_key (s\<lparr>cs_dirty := x\<rparr>) = cs_key s" by (rule cs_slots_cong; simp)+
    then show "cs_inv (s\<lparr>cs_dirty := x\<rparr>) q = cs_inv s q" unfolding cs_inv_def c by simp
  qed
  note d = s(2) [unfolded dirty_inv_def] and n = dirty_inv_length [OF s(2)]
  show ?thesis
  proof (cases "length ds < cs_saveBatchSize s")
    case True
    obtain x where x: "dl_declareDirty (int i) (cs_dirty s) = (True, x)" "dirty_inv (P - {i}) (s\<lparr>cs_dirty := x\<rparr>) (ds @ [i])"
      using dl_push [OF s(2) _ s(3,5,4) True] by auto
    have lost: "lost_slots noop save_chunk s ds = {}" using True by (simp add: lost_slots_def)
    from x have "declare_loop noop save_chunk (int i) s = Some (s\<lparr>cs_dirty := x\<rparr>)" by (subst declare_loop.simps) simp
    then show ?thesis using x(2) s(1) cong True lost by (intro exI [of _ "s\<lparr>cs_dirty := x\<rparr>"] exI [of _ "ds @ [i]"] exI [of _ q]) simp
  next
    case False
    then have full: "dl_declareDirty (int i) (cs_dirty s) = (False, cs_dirty s)" using d n by (simp add: dl_declareDirty_def)
    obtain s1 st q1 where s1: "graph_save noop save_chunk s = Inr (s1, st)" "cs_inv s1 q1" "cs_values s1 = cs_values s" "cs_content s1 = cs_content s"
      "cs_dirty s1 = newDirtyList (cs_saveBatchSize s)" "cs_saveBatchSize s1 = cs_saveBatchSize s"
      "slots_saved (saved_slots noop save_chunk s (set ds)) s s1"
      using graph_save_spec [OF s(1,2) sv, of noop] by blast
    let ?F = "lost_slots noop save_chunk s ds"
    have F: "?F = set ds - saved_slots noop save_chunk s (set ds)" using False by (simp add: lost_slots_def)
    have sub: "saved_slots noop save_chunk s (set ds) \<subseteq> set ds" by (auto simp: saved_slots_def)
    have u1: "cs_used s1 = cs_used s" using s1(3) by (simp add: cs_used_def)
    have i: "i \<notin> set ds" using d by auto
    have "dirty_inv (insert i P \<union> ?F) s1 []" using s1(5,6,7) d u1 F by (intro dirty_inv_new) (auto simp: slots_saved_def)
    moreover have im: "slot_marks s1 i = slot_marks s i" "slot_dirty s1 i" using s1(7) s(3,4) i sub by (auto simp: slots_saved_def)
    moreover have "insert i P \<union> ?F - {i} = P \<union> ?F - {i}" by auto
    ultimately obtain x where x: "dl_declareDirty (int i) (cs_dirty s1) = (True, x)" "dirty_inv (P \<union> ?F - {i}) (s1\<lparr>cs_dirty := x\<rparr>) [i]"
      using dl_push [of "insert i P \<union> ?F" s1 "[]" i] s(3,5,6) s1(6) u1 by auto
    have "declare_loop noop save_chunk (int i) s1 = Some (s1\<lparr>cs_dirty := x\<rparr>)" using x(1) by (subst declare_loop.simps) simp
    then have "declare_loop noop save_chunk (int i) s = Some (s1\<lparr>cs_dirty := x\<rparr>)"
      using full s1(1) by (subst declare_loop.simps) simp
    then show ?thesis using x(2) s1 cong False im by (intro exI [of _ "s1\<lparr>cs_dirty := x\<rparr>"] exI [of _ "[i]"] exI [of _ q1]) simp
  qed
qed

text \<open>The chunk is pinned by its user and clean; the new mark keeps it pinned until it is saved.\<close>

lemma cs_declareDirty_spec:
  assumes s: "cs_inv s q" "dirty_inv P s ds" "i \<in> cs_used s" "0 < cs_saveBatchSize s" "0 < slot_marks s i" "\<not> slot_dirty s i"
    and sv: "saver_steady save_chunk"
  shows "\<exists>s' ds' q'. cs_declareDirty noop save_chunk (cs_ref s i) s = Inr s' \<and> cs_inv s' q'
    \<and> dirty_inv (P \<union> lost_slots noop save_chunk s ds - {i}) s' ds' \<and> cs_content s' = cs_content s
    \<and> cs_values s' = cs_values s \<and> slot_marks s' i = slot_marks s i + 1 \<and> i \<in> set ds'
    \<and> ds' = (if length ds < cs_saveBatchSize s then ds @ [i] else [i])"
proof -
  note u = cs_used_facts [OF s(1,3)] and sl = cs_slot_used [OF s(1,3)] and d = s(2) [unfolded dirty_inv_def]
  let ?r = "cs_ref s i" and ?f = "ch_mark \<circ> raise_dirty"
  define s1 where "s1 = cs_upd ?r ?f s"
  have "(cs_upd ?r ?f s)\<lparr>cs_lru := cs_lru s\<rparr> = s1" by (simp add: s1_def cs_upd_def)
  then have i1: "cs_inv s1 q" "cs_content s1 = cs_content s"
    using cs_inv_marks [OF s(1,3), of ?f "cs_lru s" q] cs_invD(4,5) [OF s(1)] u(2) s(5) by simp_all
  have head: "cs_head s1 j = (if j = i then ?f (cs_head s j) else cs_head s j)" if "j \<in> cs_used s" for j
    using cs_upd_head [OF u(1)] ref_inj [OF s(1) that s(3)] by (auto simp: s1_def)
  have i: "i \<notin> set ds" using d s(3,6) by auto
  have d1: "dirty_inv (insert i P) s1 ds"
    using d i head unfolding dirty_inv_def by (auto simp: s1_def [symmetric]) (auto simp: s1_def)
  obtain s' ds' q' where s': "declare_loop noop save_chunk (int i) s1 = Some s'" "cs_inv s' q'" "dirty_inv (P \<union> lost_slots noop save_chunk s1 ds - {i}) s' ds'" "cs_content s' = cs_content s1"
    "cs_values s' = cs_values s1" "i \<in> set ds'" "slot_marks s' i = slot_marks s1 i" "ds' = (if length ds < cs_saveBatchSize s1 then ds @ [i] else [i])"
    using declare_loop_spec [OF i1(1) d1 _ _ _ _ sv, of noop] s(3-5) head [OF s(3)] by (auto simp: s1_def)
  have "cs_ref s1 = cs_ref s" unfolding cs_ref_def [abs_def] by (simp add: s1_def)
  then have lost: "lost_slots noop save_chunk s1 ds = lost_slots noop save_chunk s ds"
    by (simp add: lost_slots_def saved_slots_def) (simp add: s1_def)
  have "cs_declareDirty noop save_chunk ?r s = Inr s'"
    using sl(3,4) cs_used_at [OF s(3)] u(1,4) raise_changes [OF s(6)] s'(1)
    by (simp add: cs_declareDirty_def cs_key_def [symmetric] cs_upd_upd raise_dirty_def [symmetric, abs_def] s1_def Let_def)
  then show ?thesis using s'(2-8) [unfolded lost] i1(2) head [OF s(3)] by (intro exI [of _ s'] exI [of _ ds'] exI [of _ q']) (simp add: s1_def)
qed

end
