(* ===== verification/ChunkCache.thy ===== *)
theory ChunkCache
  imports ChunkSpaceSave
begin

text \<open>
  The properties of the chunk cache: what a lookup, an insertion, a release and the marking and saving of dirty
  chunks do to its content, the pairs of a key and the object cached under it.
\<close>

lemma newChunkSpace_inv:
  assumes "0 < n" "n < 2 ^ 31" "b \<le> n"
  shows "\<exists>s. newChunkSpace n b = Inr s \<and> cs_inv (s\<lparr>cs_store := hs\<rparr>) [0..<n] \<and> dirty_inv {} (s\<lparr>cs_store := hs\<rparr>) []
    \<and> cs_content (s\<lparr>cs_store := hs\<rparr>) = {} \<and> cs_used (s\<lparr>cs_store := hs\<rparr>) = {} \<and> cs_saveBatchSize s = b"
proof -
  obtain s where s: "newChunkSpace n b = Inr s" using assms(3) by (simp add: newChunkSpace_def)
  then have s': "s = \<lparr>cs_maxEntries = n, cs_saveBatchSize = b, cs_lru = newFixedStack n, cs_dirty = newDirtyList b,
        cs_next = replicate n (-1), cs_hashLock = replicate n (-1), cs_hash = replicate n (-1), cs_values = replicate n None,
        cs_count = 0, cs_store = []\<rparr>" using assms(3) by (simp add: newChunkSpace_def)
  have u: "cs_used (s\<lparr>cs_store := hs\<rparr>) = {}" by (simp add: cs_used_def s')
  moreover have "cs_inv (s\<lparr>cs_store := hs\<rparr>) [0..<n]"
    unfolding cs_inv_def u using fs_rel_new [of n] ck.table_empty [of n "-1" "replicate n (-1)"] assms by (simp add: s')
  moreover have "dirty_inv {} (s\<lparr>cs_store := hs\<rparr>) []" unfolding dirty_inv_def u by (simp add: s' newDirtyList_def)
  ultimately show ?thesis using s by (simp add: cs_content_def s')
qed

text \<open>A cache of two slots and one object outside it, and the same with the object in it, for the witnesses.\<close>

definition sample_object :: chunk_head where
  "sample_object = \<lparr>ch_key = (0, 0, 0, 0), ch_marks = 0, ch_flags = 0\<rparr>"

lemma triple_hashable_0: "triple_hashable (0, 0, 0, 0)"
  by code_simp

lemma sample_cache: "\<exists>s. cs_inv s [0, 1] \<and> dirty_inv {} s [] \<and> cs_used s = {} \<and> cs_store s = [sample_object] \<and> cs_saveBatchSize s = 1"
proof -
  have "[0..<2] = [0, 1 :: nat]" by (simp add: upt_conv_Cons)
  then show ?thesis using newChunkSpace_inv [of 2 1 "[sample_object]"] by force
qed

lemma sample_filled: "\<exists>s. cs_inv s [1] \<and> dirty_inv {} s [] \<and> 0 \<in> cs_used s \<and> cs_ref s 0 = 0 \<and> slot_marks s 0 = 1 \<and> \<not> slot_dirty s 0
    \<and> cs_key s 0 = (0, 0, 0, 0) \<and> cs_saveBatchSize s = 1"
proof -
  obtain s where s: "cs_inv s [0, 1]" "dirty_inv {} s []" "cs_used s = {}" "cs_store s = [sample_object]" "cs_saveBatchSize s = 1"
    using sample_cache by blast
  have o: "ch_key sample_object = (0, 0, 0, 0)" "ch_marks sample_object = 0" "\<not> ch_dirty sample_object"
    by (simp_all add: sample_object_def ch_dirty_def js_and_1)
  have "\<exists>s'. cs_putAndMark 0 s = Inr (s', Some 0) \<and> cs_inv s' [1] \<and> cs_values s' = (cs_values s)[0 := Some 0]
    \<and> cs_store s' = cs_store (cs_upd 0 ch_mark s) \<and> cs_dirty s' = cs_dirty s \<and> cs_saveBatchSize s' = cs_saveBatchSize s"
    by (rule cs_put_new [OF s(1), of 0 "(0, 0, 0, 0)"]) (use s(3,4) o triple_hashable_0 in simp_all)
  then obtain s' where s': "cs_inv s' [1]" "cs_values s' = (cs_values s)[0 := Some 0]" "cs_store s' = cs_store (cs_upd 0 ch_mark s)"
    "cs_dirty s' = cs_dirty s" "cs_saveBatchSize s' = 1" using s(5) by auto
  have "0 < length (cs_values (cs_upd 0 ch_mark s))" using cs_invD(1,2) [OF s(1)] by simp
  from cs_values_update(1,5) [OF this, of s' "Some 0"] have u: "cs_used s' = {0}" "cs_ref s' 0 = 0" using s'(2,3) s(3) by simp_all
  have h: "cs_head s' 0 = ch_mark sample_object" using u(2) s'(3) s(4) by (simp add: cs_head_def) (simp add: cs_upd_def)
  then have n: "\<not> slot_dirty s' 0" using o(3) by simp
  then have "dirty_inv {} s' []" using s(2) u(1) s'(4,5) s(5) by (simp add: dirty_inv_def)
  then show ?thesis using s'(1,5) u h n o by (intro exI [of _ s']) (simp add: cs_key_def)
qed

lemma sample_saver: "saver_steady (\<lambda>r h. (h, None))" "\<not> save_throws noop (\<lambda>r h. (h, None)) r"
  by (simp_all add: saver_steady_def save_throws_def)

subsection \<open>Properties\<close>

text \<open>Property C6.
  \<open>putAndMark\<close> of an unmarked object whose key is not in the cache marks it and caches it.  It takes the
  oldest slot of the LRU and so evicts at most the chunk of that slot, which nobody holds; everything else
  stays cached.  When every slot is held by a marked chunk it throws the error of a full cache.\<close>

theorem cs_put_refines:
  assumes "cs_inv s q" "r < length (cs_store s)" "\<forall>i \<in> cs_used s. cs_ref s i \<noteq> r" "ch_marks (cs_store s ! r) = 0"
    "triple_hashable (ch_key (cs_store s ! r))" "\<forall>i \<in> cs_used s. cs_key s i \<noteq> ch_key (cs_store s ! r)"
  shows "case q of
      [] \<Rightarrow> cs_putAndMark r s = Inl (JsError ''mwDB crashed, cache is full, please avoid to much retention of nodes or augment cache capacity!'')
    | v # q' \<Rightarrow> \<exists>s'. cs_putAndMark r s = Inr (s', Some r) \<and> cs_inv s' q' \<and> ch_marks (cs_store s' ! r) = 1
        \<and> cs_content s' = insert (ch_key (cs_store s ! r), r) (cs_content s - (if v \<in> cs_used s then {(cs_key s v, cs_ref s v)} else {}))"
proof (cases q)
  case Nil
  then show ?thesis using cs_put_full [of s r] assms by simp
next
  case (Cons v q')
  obtain s' where s': "cs_putAndMark r s = Inr (s', Some r)" "cs_inv s' q'" "cs_values s' = (cs_values s)[v := Some r]"
    "cs_store s' = cs_store (cs_upd r ch_mark s)"
    using cs_put_new [of s v q' r] assms Cons by auto
  have v: "v < length (cs_values s)" using lru.rel_bound [OF cs_invD(4) [OF assms(1)], of v] cs_invD(2,5) [OF assms(1)] Cons by simp
  let ?s1 = "cs_upd r ch_mark s"
  have "v < length (cs_values ?s1)" "cs_values s' = (cs_values ?s1)[v := Some r]" using v s'(3) by simp_all
  note u = cs_values_update [OF this s'(4)]
  have st: "cs_store s' ! r = ch_mark (cs_store s ! r)" using s'(4) assms(2) by (simp add: cs_upd_store)
  have key: "cs_key s' v = ch_key (cs_store s ! r)" "cs_ref s' v = r" using u(5) st by (simp_all add: cs_key_def cs_head_def)
  have other: "(cs_key s' i, cs_ref s' i) = (cs_key s i, cs_ref s i)" if "i \<in> cs_used s - {v}" for i
    using u(2,4) [of i] cs_upd_other(4) [OF assms(1,3), of i ch_mark] that by simp
  have "cs_content s' = insert (ch_key (cs_store s ! r), r) ((\<lambda>i. (cs_key s i, cs_ref s i)) ` (cs_used s - {v}))"
  proof -
    have "cs_used s' = insert v (cs_used s - {v})" using u(1) by auto
    moreover have "(\<lambda>i. (cs_key s' i, cs_ref s' i)) ` (cs_used s - {v}) = (\<lambda>i. (cs_key s i, cs_ref s i)) ` (cs_used s - {v})"
      using other by (intro image_cong) simp_all
    ultimately show ?thesis unfolding cs_content_def by (simp only: image_insert key)
  qed
  also have "(\<lambda>i. (cs_key s i, cs_ref s i)) ` (cs_used s - {v}) = cs_content s - (if v \<in> cs_used s then {(cs_key s v, cs_ref s v)} else {})"
    using cs_invD(7) [OF assms(1)] unfolding cs_content_def by (auto dest: inj_onD)
  finally show ?thesis using s'(1,2) st assms(4) Cons by simp
qed

theorem cs_put_refines_witness:
  "\<exists>s s'. cs_used s = {} \<and> cs_putAndMark 0 s = Inr (s', Some 0) \<and> cs_content s' = {((0, 0, 0, 0), 0)}"
proof -
  obtain s where s: "cs_inv s [0, 1]" "cs_used s = {}" "cs_store s = [sample_object]" using sample_cache by blast
  then show ?thesis using cs_put_refines [OF s(1), of 0] triple_hashable_0
    by (auto simp: sample_object_def cs_content_def)
qed

text \<open>Property C28.
  \<open>getAndMark\<close> of a cached chunk adds a mark to it and returns it, and takes its slot out of the LRU; of an
  absent one it returns null and changes nothing.  But when the chunk is the only element of the LRU, which
  refuses to give it up, the call returns null, as if the chunk were not cached: the mark is left on it and
  its slot in the LRU, where the next insertion evicts it.\<close>

theorem cs_getAndMark_spec:
  assumes "cs_inv s q" "triple_hashable k"
  shows "((\<forall>i \<in> cs_used s. cs_key s i \<noteq> k) \<longrightarrow> cs_getAndMark k s = Inr (s, None))
    \<and> (\<forall>i \<in> cs_used s. cs_key s i = k \<longrightarrow>
        (\<exists>s'. cs_getAndMark k s = Inr (s', if q = [i] then None else Some (cs_ref s i)) \<and> cs_content s' = cs_content s
          \<and> ch_marks (cs_store s' ! cs_ref s i) = slot_marks s i + 1
          \<and> (if q = [i] then cs_lru s' = cs_lru s else cs_inv s' (remove1 i q))))"
proof (intro conjI impI ballI)
  assume "\<forall>i \<in> cs_used s. cs_key s i \<noteq> k"
  then show "cs_getAndMark k s = Inr (s, None)" using cs_lookup [OF assms] by (auto simp: cs_getAndMark_def)
next
  fix i assume i: "i \<in> cs_used s" "cs_key s i = k"
  note u = cs_used_facts [OF assms(1) i(1)]
  obtain l where l: "cs_getAndMark k s = Inr ((cs_upd (cs_ref s i) ch_mark s)\<lparr>cs_lru := l\<rparr>, if q = [i] then None else Some (cs_ref s i))"
    "if q = [i] then l = cs_lru s else cs_inv ((cs_upd (cs_ref s i) ch_mark s)\<lparr>cs_lru := l\<rparr>) (remove1 i q)"
    using cs_getAndMark_hit [OF assms(1) i(1)] i(2) by blast
  let ?s' = "(cs_upd (cs_ref s i) ch_mark s)\<lparr>cs_lru := l\<rparr>"
  have "cs_content ?s' = cs_content s" using cs_upd_content(2) [OF u(1), of ch_mark] by simp
  moreover have "ch_marks (cs_store ?s' ! cs_ref s i) = slot_marks s i + 1" using cs_upd_store [OF u(1), of ch_mark] u(4) by simp
  moreover have "if q = [i] then cs_lru ?s' = cs_lru s else cs_inv ?s' (remove1 i q)" using l(2) by (cases "q = [i]") simp_all
  ultimately show "\<exists>s'. cs_getAndMark k s = Inr (s', if q = [i] then None else Some (cs_ref s i)) \<and> cs_content s' = cs_content s
          \<and> ch_marks (cs_store s' ! cs_ref s i) = slot_marks s i + 1
          \<and> (if q = [i] then cs_lru s' = cs_lru s else cs_inv s' (remove1 i q))" using l(1) by blast
qed

theorem cs_getAndMark_spec_witness:
  "\<exists>s s'. slot_marks s 0 = 1 \<and> cs_getAndMark (0, 0, 0, 0) s = Inr (s', Some 0) \<and> ch_marks (cs_store s' ! 0) = 2"
proof -
  obtain s where s: "cs_inv s [1]" "0 \<in> cs_used s" "cs_ref s 0 = 0" "slot_marks s 0 = 1" "cs_key s 0 = (0, 0, 0, 0)"
    using sample_filled by blast
  then have "\<exists>s'. cs_getAndMark (0, 0, 0, 0) s = Inr (s', Some 0) \<and> ch_marks (cs_store s' ! 0) = 2"
    using cs_getAndMark_spec [OF s(1) triple_hashable_0] by auto
  then show ?thesis using s(4) by blast
qed

text \<open>Property C29.
  \<open>declareDirty\<close> of a clean chunk that somebody holds always returns, also when the dirty list is full and has to
  be saved first, and also when the \<open>save\<close> of a chunk throws: the chunk is then in the dirty list, with one more mark, so that
  it stays cached until it has been saved; the cache and its content stay consistent.  The dirty list holds the dirty chunks but
  for those whose \<open>save\<close> has thrown: they stay dirty and marked, outside the list (\<open>P\<close> before the call,
  \<open>lost_slots\<close> during it).  The batch size must not be 0.\<close>

theorem cs_declareDirty_returns:
  assumes "cs_inv s q" "dirty_inv P s ds" "i \<in> cs_used s" "0 < cs_saveBatchSize s" "0 < slot_marks s i" "\<not> slot_dirty s i" "saver_steady save_chunk"
  shows "\<exists>s' ds' q'. cs_declareDirty noop save_chunk (cs_ref s i) s = Inr s' \<and> cs_inv s' q'
    \<and> dirty_inv (P \<union> lost_slots noop save_chunk s ds - {i}) s' ds' \<and> cs_content s' = cs_content s
    \<and> slot_dirty s' i \<and> slot_marks s' i = slot_marks s i + 1 \<and> ds' = (if length ds < cs_saveBatchSize s then ds @ [i] else [i])"
proof -
  obtain s' ds' q' where s': "cs_declareDirty noop save_chunk (cs_ref s i) s = Inr s'" "cs_inv s' q'"
    "dirty_inv (P \<union> lost_slots noop save_chunk s ds - {i}) s' ds'"
    "cs_content s' = cs_content s" "cs_values s' = cs_values s" "slot_marks s' i = slot_marks s i + 1" "i \<in> set ds'"
    "ds' = (if length ds < cs_saveBatchSize s then ds @ [i] else [i])"
    using cs_declareDirty_spec [OF assms, of noop] by blast
  have "i \<in> cs_used s'" using s'(5) assms(3) by (simp add: cs_used_def)
  then have "slot_dirty s' i" using s'(3,7) by (auto simp: dirty_inv_def)
  then show ?thesis using s'(1-4,6,8) by blast
qed

theorem cs_declareDirty_returns_witness:
  "\<exists>s s'. \<not> slot_dirty s 0 \<and> cs_declareDirty False (\<lambda>r h. (h, None)) 0 s = Inr s' \<and> slot_dirty s' 0 \<and> slot_marks s' 0 = 2"
proof -
  obtain s where s: "cs_inv s [1]" "dirty_inv {} s []" "0 \<in> cs_used s" "cs_ref s 0 = 0" "slot_marks s 0 = 1" "\<not> slot_dirty s 0"
    "cs_saveBatchSize s = 1" using sample_filled by blast
  then show ?thesis using cs_declareDirty_returns [OF s(1-3) _ _ s(6) sample_saver(1), of False] by auto
qed

text \<open>A cache whose only chunk is dirty and in the dirty list, for the witnesses.\<close>

lemma sample_dirty: "\<exists>s q ds. cs_inv s q \<and> dirty_inv {} s ds \<and> 0 \<in> cs_used s \<and> cs_ref s 0 = 0 \<and> slot_marks s 0 = 2 \<and> slot_dirty s 0 \<and> ds = [0]"
proof -
  obtain s where s: "cs_inv s [1]" "dirty_inv {} s []" "0 \<in> cs_used s" "cs_ref s 0 = 0" "slot_marks s 0 = 1" "\<not> slot_dirty s 0"
    "cs_saveBatchSize s = 1" using sample_filled by blast
  have "0 < cs_saveBatchSize s" "0 < slot_marks s 0" using s by simp_all
  from cs_declareDirty_spec [OF s(1-3) this s(6) sample_saver(1), of False] s(5,7)
  obtain s1 ds1 q1 where s1: "cs_inv s1 q1" "dirty_inv {} s1 ds1" "cs_values s1 = cs_values s" "slot_marks s1 0 = 2" "ds1 = [0]"
    by (auto simp: lost_slots_def)
  then have u: "0 \<in> cs_used s1" "cs_ref s1 0 = 0" using s(3,4) by (simp_all add: cs_used_def cs_ref_def)
  then have "slot_dirty s1 0" using s1(2,5) by (simp add: dirty_inv_def)
  then show ?thesis using s1(1,2,4,5) u by blast
qed

end
