(* ===== verification/JavaAtomic.thy ===== *)
theory JavaAtomic
  imports JsLong
begin

text \<open>
  The atomic cells of the Java runtime shim (\<open>java.util.concurrent.atomic\<close>).  A cell is its content; an
  operation returns its result and the new content.  JavaScript runs one operation after the
  other, so a compare-and-set that follows its own read succeeds: \<open>cas_loop\<close> runs once.  The counters of
  \<open>AtomicLong\<close> and \<open>AtomicInteger\<close> are doubles: adding one rounds.
\<close>

subsection \<open>References and flags\<close>

definition ref_compareAndSet :: "'a option \<Rightarrow> 'a option \<Rightarrow> 'a option \<Rightarrow> bool \<times> 'a option" where
  "ref_compareAndSet expect update internal = (if internal = expect then (True, update) else (False, internal))"

definition ref_get :: "'a option \<Rightarrow> 'a option" where
  "ref_get internal = internal"

definition ref_set :: "'a option \<Rightarrow> 'a option \<Rightarrow> 'a option" where
  "ref_set newRef internal = newRef"

definition ref_getAndSet :: "'a option \<Rightarrow> 'a option \<Rightarrow> 'a option \<times> 'a option" where
  "ref_getAndSet newVal internal = (let temp = internal in (temp, newVal))"

definition bool_compareAndSet :: "bool \<Rightarrow> bool \<Rightarrow> bool \<Rightarrow> bool \<times> bool" where
  "bool_compareAndSet expect update internal = (if internal = expect then (True, update) else (False, internal))"

subsection \<open>Counters\<close>

definition long_compareAndSet :: "int \<Rightarrow> int \<Rightarrow> int \<Rightarrow> bool \<times> int" where
  "long_compareAndSet expect update internal = (if internal = expect then (True, update) else (False, internal))"

definition long_get :: "int \<Rightarrow> int" where
  "long_get internal = internal"

definition long_incrementAndGet :: "int \<Rightarrow> int \<times> int" where
  "long_incrementAndGet internal = (let internal = rnd (internal + 1) in (internal, internal))"

definition long_decrementAndGet :: "int \<Rightarrow> int \<times> int" where
  "long_decrementAndGet internal = (let internal = rnd (internal - 1) in (internal, internal))"

definition int_compareAndSet :: "int \<Rightarrow> int \<Rightarrow> int \<Rightarrow> bool \<times> int" where
  "int_compareAndSet expect update internal = (if internal = expect then (True, update) else (False, internal))"

definition int_get :: "int \<Rightarrow> int" where
  "int_get internal = internal"

definition int_getAndSet :: "int \<Rightarrow> int \<Rightarrow> int \<times> int" where
  "int_getAndSet newVal internal = (let temp = internal in (temp, newVal))"

definition int_incrementAndGet :: "int \<Rightarrow> int \<times> int" where
  "int_incrementAndGet internal = (let internal = rnd (internal + 1) in (internal, internal))"

definition int_decrementAndGet :: "int \<Rightarrow> int \<times> int" where
  "int_decrementAndGet internal = (let internal = rnd (internal - 1) in (internal, internal))"

definition int_getAndIncrement :: "int \<Rightarrow> int \<times> int" where
  "int_getAndIncrement internal = (let temp = internal in (temp, rnd (internal + 1)))"

definition int_getAndDecrement :: "int \<Rightarrow> int \<times> int" where
  "int_getAndDecrement internal = (let temp = internal in (temp, rnd (internal - 1)))"

subsection \<open>Arrays of cells\<close>

text \<open>
  The array is an \<open>Int32Array\<close> (that is what \<open>HeapChunkSpace\<close> passes): a store converts to 32 bits, and a
  read outside it is \<open>undefined\<close>, which equals no number.
\<close>

definition ia_set :: "int \<Rightarrow> int \<Rightarrow> int list \<Rightarrow> int list" where
  "ia_set index newVal internal = wr internal (Some index) (to_int32 newVal)"

definition ia_get :: "int \<Rightarrow> int list \<Rightarrow> jsnum" where
  "ia_get index internal = rd internal (Some index)"

definition ia_getAndSet :: "int \<Rightarrow> int \<Rightarrow> int list \<Rightarrow> jsnum \<times> int list" where
  "ia_getAndSet index newVal internal =
     (let temp = rd internal (Some index) in (temp, wr internal (Some index) (to_int32 newVal)))"

definition ia_compareAndSet :: "int \<Rightarrow> int \<Rightarrow> int \<Rightarrow> int list \<Rightarrow> bool \<times> int list" where
  "ia_compareAndSet index expect update internal =
     (if rd internal (Some index) = Some expect then (True, wr internal (Some index) (to_int32 update))
      else (False, internal))"

subsection \<open>The retry loop\<close>

text \<open>
  \<open>do { previous = c.get(); next = f(previous); } while (!c.compareAndSet(previous, next))\<close>, the loop of every
  user of a cell: the previous and the new content.
\<close>

partial_function (option) cas_loop :: "(int \<Rightarrow> int) \<Rightarrow> int \<Rightarrow> (int \<times> int) option" where
  "cas_loop f internal =
     (let previous = long_get internal; next = f previous;
          (success, internal) = long_compareAndSet previous next internal
      in if success then Some (previous, internal) else cas_loop f internal)"

declare cas_loop.simps [code]

lemma cas_loop_once [simp]: "cas_loop f internal = Some (internal, f internal)"
  by (subst cas_loop.simps) (simp add: long_get_def long_compareAndSet_def Let_def)

end
