(* ===== verification/GenChunk.thy ===== *)
theory GenChunk
  imports JavaAtomic TimeTreeChunk
begin

text \<open>
  \<open>HeapGenChunk\<close>, the generator of the identifiers of nodes and worlds: a 16-bit prefix, shifted above
  the 37 bits of the index of the last key, with the payload that stores that index.

  The operations that mark the chunk dirty return whether \<open>declareDirty\<close> of the space was called, as those of
  the other chunks; \<open>space\<close> is false when the chunk has no space.
\<close>

subsection \<open>The chunk\<close>

definition LONG_SIZE :: int where "LONG_SIZE = 53"
definition PREFIX_SIZE :: int where "PREFIX_SIZE = 16"
definition KEY_PREFIX_MASK :: int where "KEY_PREFIX_MASK = 0x1FFFFFFFFF"

record gen_chunk =
  gc_world :: int
  gc_time :: int
  gc_id :: int
  gc_space :: bool
  gc_flags :: int
  gc_marks :: int
  gc_prefix :: long
  gc_index :: int

definition gc_set_dirty :: "gen_chunk \<Rightarrow> bool" where
  "gc_set_dirty c = (gc_space c \<and> js_and (gc_flags c) 1 \<noteq> 1)"

text \<open>A payload with an undefined size has no last byte: reading it fails as reading outside the dictionary does.\<close>

definition decode_payload :: "(int \<Rightarrow> jsnum result) \<Rightarrow> jsnum \<Rightarrow> int result" where
  "decode_payload src sz = (case sz of None \<Rightarrow> Inl TypeError | Some n \<Rightarrow> decodeToLongWithBounds src 0 n)"

definition gc_load :: "payload \<Rightarrow> gen_chunk \<Rightarrow> gen_chunk result" where
  "gc_load payload c =
     (case payload of
        Some (src, sz) \<Rightarrow>
          if js_less 0 sz
          then bindr (decode_payload src sz) (\<lambda>v. Inr (c\<lparr>gc_index := snd (long_compareAndSet (long_get (gc_index c)) v (gc_index c))\<rparr>))
          else Inr (c\<lparr>gc_index := snd (long_compareAndSet (long_get (gc_index c)) 0 (gc_index c))\<rparr>)
      | None \<Rightarrow> Inr (c\<lparr>gc_index := snd (long_compareAndSet (long_get (gc_index c)) 0 (gc_index c))\<rparr>))"

definition HeapGenChunk :: "int \<Rightarrow> int \<Rightarrow> int \<Rightarrow> bool \<Rightarrow> payload \<Rightarrow> gen_chunk result" where
  "HeapGenChunk p_world p_time p_id p_space initialPayload =
     gc_load initialPayload
       \<lparr>gc_world = p_world, gc_time = p_time, gc_id = p_id, gc_space = p_space, gc_flags = 0, gc_marks = 0,
        gc_prefix = shiftLeft (fromNumber p_id False) (LONG_SIZE - PREFIX_SIZE), gc_index = 0\<rparr>"

definition gc_save :: "gen_chunk \<Rightarrow> heap_buffer \<Rightarrow> heap_buffer" where
  "gc_save c buffer = encodeLongToBuffer (long_get (gc_index c)) buffer"

definition gc_merge :: "(int \<Rightarrow> jsnum result) \<Rightarrow> jsnum \<Rightarrow> gen_chunk \<Rightarrow> (gen_chunk \<times> bool) result" where
  "gc_merge src sz c =
     bindr (decode_payload src sz) (\<lambda>toInsert.
       case cas_loop (\<lambda>_. toInsert) (gc_index c) of
         None \<Rightarrow> Inl NoReturn
       | Some (previous, index) \<Rightarrow>
           let c = c\<lparr>gc_index := index\<rparr> in Inr (c, toInsert \<noteq> previous \<and> gc_set_dirty c))"

text \<open>
  \<open>newKey\<close>: the key or the error, the chunk after the call and whether it was declared dirty.  The second
  error is thrown when the index has been taken already.
\<close>

definition newKey :: "gen_chunk \<Rightarrow> int result \<times> gen_chunk \<times> bool" where
  "newKey c =
     (if long_get (gc_index c) = KEY_PREFIX_MASK
      then (Inl (JsError ''Object Index could not be created because it exceeded the capacity of the current prefix. Ask for a new prefix.''), c, False)
      else
        let previousIndex = long_get (gc_index c);
            c = c\<lparr>gc_index := snd (long_compareAndSet previousIndex (rnd (previousIndex + 1)) (gc_index c))\<rparr>;
            told = gc_set_dirty c;
            newIndex = long_get (gc_index c);
            objectKey = toNumber (add (gc_prefix c) (fromNumber newIndex False))
        in if objectKey \<ge> NULL_LONG
           then (Inl (JsError ''Object Index exceeds the maximum JavaScript number capacity. (2^53)''), c, told)
           else (Inr objectKey, c, told))"

fun newKeys :: "nat \<Rightarrow> gen_chunk \<Rightarrow> int list \<times> gen_chunk" where
  "newKeys 0 c = ([], c)"
| "newKeys (Suc n) c =
     (case newKey c of
        (Inr k, c, _) \<Rightarrow> let (ks, c) = newKeys n c in (k # ks, c)
      | (Inl e, c, _) \<Rightarrow> ([], c))"

subsection \<open>The form of a chunk and of a key\<close>

text \<open>\<open>gc_wf p c\<close>: \<open>c\<close> generates keys of the prefix \<open>p\<close>, and its index is one of 37 bits.\<close>

definition gc_wf :: "int \<Rightarrow> gen_chunk \<Rightarrow> bool" where
  "gc_wf p c \<longleftrightarrow> 0 \<le> p \<and> p < 2 ^ 16 \<and> slong (gc_prefix c) (p * 2 ^ 37) \<and> 0 \<le> gc_index c \<and> gc_index c < 2 ^ 37"

lemma gc_wfD:
  assumes "gc_wf p c"
  shows "0 \<le> p" "p \<le> 65535" "0 \<le> gc_index c" "gc_index c \<le> 137438953471"
    and "int32s (gc_prefix c)" "\<not> uns (gc_prefix c)" "lval (gc_prefix c) = p * 137438953472"
  using assms by (auto simp: gc_wf_def)

lemma gc_wf_new:
  assumes "0 \<le> p" "p < 2 ^ 16"
  shows "slong (shiftLeft (fromNumber p False) (LONG_SIZE - PREFIX_SIZE)) (p * 2 ^ 37)"
proof -
  have f: "slong (fromNumber p False) p" using assms by (intro fromNumber_fits) auto
  have "word_of_long (shiftLeft (fromNumber p False) 37) = word_of_int (p * 2 ^ 37)"
    using f word_of_lval [of "fromNumber p False"] by (simp add: word_of_long_shiftLeft push_bit_eq_mult)
  then have "lval (shiftLeft (fromNumber p False) 37) = p * 2 ^ 37" using assms by (intro lvalI) auto
  then show ?thesis using f by (simp add: LONG_SIZE_def PREFIX_SIZE_def)
qed

lemma key_value:
  assumes "gc_wf p c" "0 \<le> i" "i < 2 ^ 37"
  shows "toNumber (add (gc_prefix c) (fromNumber i False)) = p * 2 ^ 37 + i"
proof -
  note w = gc_wfD [OF assms(1)]
  have f: "slong (fromNumber i False) i" using assms by (intro fromNumber_fits) auto
  then have l: "lval (add (gc_prefix c) (fromNumber i False)) = p * 2 ^ 37 + i"
    using w assms by (subst lval_add) auto
  have "\<bar>p * 2 ^ 37 + i\<bar> < 2 ^ 53" using w assms by auto
  then show ?thesis using w l by (subst toNumber_small) auto
qed

lemma newKey_eq:
  assumes "gc_wf p c"
  shows "newKey c =
    (if gc_index c = KEY_PREFIX_MASK
     then (Inl (JsError ''Object Index could not be created because it exceeded the capacity of the current prefix. Ask for a new prefix.''), c, False)
     else if p = 65535 \<and> gc_index c = KEY_PREFIX_MASK - 1
     then (Inl (JsError ''Object Index exceeds the maximum JavaScript number capacity. (2^53)''), c\<lparr>gc_index := gc_index c + 1\<rparr>, gc_set_dirty c)
     else (Inr (p * 2 ^ 37 + (gc_index c + 1)), c\<lparr>gc_index := gc_index c + 1\<rparr>, gc_set_dirty c))"
proof (cases "gc_index c = KEY_PREFIX_MASK")
  case False
  note w = gc_wfD [OF assms]
  have n: "0 \<le> gc_index c + 1" "gc_index c + 1 < 2 ^ 37" using w False by (auto simp: KEY_PREFIX_MASK_def)
  then have r: "rnd (gc_index c + 1) = gc_index c + 1" by (intro rnd_id) auto
  have rm: "rnd KEY_PREFIX_MASK = KEY_PREFIX_MASK" by (rule rnd_id) (simp add: KEY_PREFIX_MASK_def)
  have b: "p * 2 ^ 37 + (gc_index c + 1) \<ge> NULL_LONG \<longleftrightarrow> p = 65535 \<and> gc_index c = KEY_PREFIX_MASK - 1"
    using w n by (auto simp: NULL_LONG_def KEY_PREFIX_MASK_def)
  show ?thesis
    using False b key_value [OF assms n]
    by (auto simp: newKey_def long_get_def long_compareAndSet_def r rm gc_set_dirty_def Let_def)
qed (simp add: newKey_def long_get_def)

lemma gc_wf_index: "gc_wf p c \<Longrightarrow> 0 \<le> i \<Longrightarrow> i < 2 ^ 37 \<Longrightarrow> gc_wf p (c\<lparr>gc_index := i\<rparr>)"
  by (simp add: gc_wf_def)

lemma newKeys_eq:
  assumes "gc_wf p c" "gc_index c + int n < KEY_PREFIX_MASK"
  shows "newKeys n c = (map (\<lambda>j. p * 2 ^ 37 + j) [gc_index c + 1..gc_index c + int n], c\<lparr>gc_index := gc_index c + int n\<rparr>)"
  using assms
proof (induction n arbitrary: c)
  case 0
  then show ?case by simp
next
  case (Suc n)
  note w = gc_wfD [OF Suc.prems(1)]
  let ?c = "c\<lparr>gc_index := gc_index c + 1\<rparr>"
  have m: "gc_index c + 1 < KEY_PREFIX_MASK" using Suc.prems(2) by simp
  have "gc_wf p ?c" using Suc.prems(1) w m by (intro gc_wf_index) (auto simp: KEY_PREFIX_MASK_def)
  then have i: "newKeys n ?c = (map (\<lambda>j. p * 2 ^ 37 + j) [gc_index c + 2..gc_index c + int (Suc n)], c\<lparr>gc_index := gc_index c + int (Suc n)\<rparr>)"
    using Suc.IH [of ?c] Suc.prems(2) by (simp add: algebra_simps)
  have "newKey c = (Inr (p * 2 ^ 37 + (gc_index c + 1)), ?c, gc_set_dirty c)"
    using newKey_eq [OF Suc.prems(1)] m by simp
  moreover have "[gc_index c + 1..gc_index c + int (Suc n)] = (gc_index c + 1) # [gc_index c + 2..gc_index c + int (Suc n)]"
    by (subst upto_rec1) (simp_all add: algebra_simps)
  ultimately show ?case using i by simp
qed

lemma gc_load_saved:
  assumes "hb_rel h []" "\<bar>gc_index c\<bar> < 2 ^ 53"
  shows "gc_load (Some (hb_read (gc_save c h), hb_size (gc_save c h))) c' = Inr (c'\<lparr>gc_index := gc_index c\<rparr>)"
proof -
  let ?ds = "int_symbols 8 (gc_index c)"
  have h: "heap_holds (gc_save c h) (syms ?ds)" "reads (hb_read (gc_save c h)) 0 (syms ?ds)"
    using holds_encoded [OF assms(1) sym_int_symbols length_syms_int(2), of 8 "gc_index c"]
    by (simp_all add: gc_save_def long_get_def encode_symbols)
  have sz: "hb_size (gc_save c h) = Some (int (length ?ds))"
    using heap_source.holds_size [OF h(1)] by simp
  show ?thesis
    using decode_int_symbols [OF h(2) assms(2) refl] length_syms_int(2)
    by (simp add: gc_load_def sz js_less_def decode_payload_def long_get_def long_compareAndSet_def)
qed

subsection \<open>Properties\<close>

text \<open>Property C37.
  The form of keys: a key is the prefix above the 37 bits of the new index, is below the null
  identifier, and the chunk stays one of its prefix with the next index; \<open>newKey\<close> fails only at the last index
  (where nothing changes) and, for the largest prefix, at the index before it (whose key would be the null identifier).\<close>

theorem newKey_form:
  assumes "gc_wf p c" "newKey c = (r, c', told)"
  shows "gc_wf p c' \<and> (case r of
           Inr k \<Rightarrow> k div 2 ^ 37 = p \<and> k mod 2 ^ 37 = gc_index c' \<and> gc_index c' = gc_index c + 1
                  \<and> 0 < k \<and> k < NULL_LONG \<and> told = gc_set_dirty c
         | Inl e \<Rightarrow> gc_index c = KEY_PREFIX_MASK \<and> c' = c \<and> \<not> told
                  \<or> p = 65535 \<and> gc_index c = KEY_PREFIX_MASK - 1 \<and> gc_index c' = KEY_PREFIX_MASK)"
proof -
  note w = gc_wfD [OF assms(1)]
  note e = newKey_eq [OF assms(1)] assms(2)
  show ?thesis
  proof (cases "gc_index c = KEY_PREFIX_MASK")
    case True
    then show ?thesis using e assms(1) by auto
  next
    case False
    define i where "i = gc_index c + 1"
    have i: "0 \<le> i" "i < 2 ^ 37" "0 < i" using w False by (simp_all add: i_def KEY_PREFIX_MASK_def)
    have wf: "gc_wf p (c\<lparr>gc_index := i\<rparr>)" using gc_wf_index [OF assms(1) i(1,2)] .
    show ?thesis
    proof (cases "p = 65535 \<and> gc_index c = KEY_PREFIX_MASK - 1")
      case True
      then have "c' = c\<lparr>gc_index := i\<rparr>" "\<exists>m. r = Inl m" using e False by (auto simp: i_def)
      then show ?thesis using wf True by (auto simp: i_def)
    next
      case not_last: False
      then have n: "c' = c\<lparr>gc_index := i\<rparr>" "r = Inr (p * 2 ^ 37 + i)" "told = gc_set_dirty c"
        using e False by (auto simp: i_def)
      have "(p * 2 ^ 37 + i) div 2 ^ 37 = p" "(p * 2 ^ 37 + i) mod 2 ^ 37 = i" using i by simp_all
      moreover have "0 < p * 2 ^ 37 + i" using i w(1) by simp
      moreover have "p * 2 ^ 37 + i < NULL_LONG"
        using w i not_last by (simp add: NULL_LONG_def KEY_PREFIX_MASK_def i_def) linarith
      ultimately show ?thesis using wf n by (simp add: i_def)
    qed
  qed
qed

text \<open>A new chunk of the prefix \<open>p\<close>.\<close>

lemma new_gen_chunk:
  assumes "0 \<le> p" "p < 2 ^ 16"
  shows "\<exists>c. HeapGenChunk w t p sp None = Inr c \<and> gc_wf p c \<and> gc_index c = 0"
  using gc_wf_new [OF assms] assms
  by (simp add: HeapGenChunk_def gc_load_def long_get_def long_compareAndSet_def gc_wf_def)

theorem newKey_form_witness:
  "\<exists>c c' told. HeapGenChunk 0 0 5 True None = Inr c \<and> newKey c = (Inr 687194767361, c', told) \<and> gc_wf 5 c'"
proof -
  obtain c where c: "HeapGenChunk 0 0 5 True None = Inr c" "gc_wf 5 c" "gc_index c = 0"
    using new_gen_chunk [of 5 0 0 True] by auto
  then have "newKey c = (Inr 687194767361, c\<lparr>gc_index := 1\<rparr>, gc_set_dirty c)"
    by (simp add: newKey_eq KEY_PREFIX_MASK_def)
  then show ?thesis using c newKey_form [OF c(2)] by blast
qed

text \<open>Further fact.
  Keys are never given twice: a new chunk generates \<open>n\<close> keys, is saved, and a chunk loaded from its payload
  generates \<open>m\<close> more: together they are the first \<open>n + m\<close> keys of the prefix, in order.\<close>

theorem newKeys_resume:
  assumes "0 \<le> p" "p < 2 ^ 16" "int (n + m) < KEY_PREFIX_MASK"
    and "HeapGenChunk w t p sp None = Inr c" "buffer = gc_save (snd (newKeys n c)) newHeapBuffer"
  shows "\<exists>c'. HeapGenChunk w t p sp (Some (hb_read buffer, hb_size buffer)) = Inr c'
           \<and> fst (newKeys n c) @ fst (newKeys m c') = map (\<lambda>j. p * 2 ^ 37 + j) [1..int (n + m)]"
proof -
  have c: "gc_wf p c" "gc_index c = 0" using new_gen_chunk [OF assms(1,2), of w t sp] assms(4) by auto
  have k: "newKeys n c = (map (\<lambda>j. p * 2 ^ 37 + j) [1..int n], c\<lparr>gc_index := int n\<rparr>)"
    using newKeys_eq [OF c(1), of n] c(2) assms(3) by simp
  have "gc_load (Some (hb_read buffer, hb_size buffer)) c0 = Inr (c0\<lparr>gc_index := int n\<rparr>)" for c0
    using gc_load_saved [OF hb_rel_new, of "c\<lparr>gc_index := int n\<rparr>" c0] assms(3,5) k
    by (simp add: KEY_PREFIX_MASK_def)
  moreover have "c = \<lparr>gc_world = w, gc_time = t, gc_id = p, gc_space = sp, gc_flags = 0, gc_marks = 0,
        gc_prefix = shiftLeft (fromNumber p False) (LONG_SIZE - PREFIX_SIZE), gc_index = 0\<rparr>"
    using assms(4) by (simp add: HeapGenChunk_def gc_load_def long_get_def long_compareAndSet_def)
  ultimately have c': "HeapGenChunk w t p sp (Some (hb_read buffer, hb_size buffer)) = Inr (c\<lparr>gc_index := int n\<rparr>)"
    by (simp add: HeapGenChunk_def)
  have "gc_wf p (c\<lparr>gc_index := int n\<rparr>)"
    using c(1) assms(3) by (intro gc_wf_index) (auto simp: KEY_PREFIX_MASK_def)
  then have "fst (newKeys m (c\<lparr>gc_index := int n\<rparr>)) = map (\<lambda>j. p * 2 ^ 37 + j) [int n + 1..int (n + m)]"
    using newKeys_eq [of p "c\<lparr>gc_index := int n\<rparr>" m] assms(3) by simp
  moreover have "[1..int (n + m)] = [1..int n] @ [int n + 1..int (n + m)]"
    using upto_split2 [of 1 "int n" "int (n + m)"] by (cases n) auto
  ultimately show ?thesis using c' k by simp
qed

theorem newKeys_resume_witness:
  "\<exists>c c'. HeapGenChunk 0 0 1 True None = Inr c
     \<and> HeapGenChunk 0 0 1 True (Some (hb_read (gc_save (snd (newKeys 2 c)) newHeapBuffer),
          hb_size (gc_save (snd (newKeys 2 c)) newHeapBuffer))) = Inr c'
     \<and> fst (newKeys 2 c) @ fst (newKeys 1 c') = [137438953473, 137438953474, 137438953475]"
proof -
  obtain c where c: "HeapGenChunk 0 0 1 True None = Inr c"
    using new_gen_chunk [of 1 0 0 True] by auto
  have "[1..3 :: int] = [1, 2, 3]" by (simp add: upto_rec1)
  then show ?thesis
    using newKeys_resume [of 1 2 1, OF _ _ _ c refl] c by (auto simp: KEY_PREFIX_MASK_def)
qed

end
