(* ===== verification/Query.thy ===== *)
theory Query
  imports MapObject HashSpec "HOL-Library.Multiset"
begin

text \<open>
  The class \<open>Query\<close>: the flat form of an index query, a list of pairs of an attribute and a value that
  is sorted by attribute and hashed, and \<open>parseQuery\<close>, which reads it from a text \<open>a=1,b=2\<close>.

  A character is its UTF-16 code unit.  The hash is a double and is not reduced, so it may overflow: a number is a
  \<open>dnum\<close>, an integer-valued double, an infinity or NaN.
\<close>

subsection \<open>Numbers\<close>

datatype dnum = DFin int | DInf bool | DNaN

definition d_limit :: int where "d_limit = 2 ^ 1024"

definition to_dnum :: "int \<Rightarrow> dnum" where
  "to_dnum x = (if \<bar>rnd x\<bar> \<ge> d_limit then DInf (x < 0) else DFin (rnd x))"

fun d_neg :: "dnum \<Rightarrow> dnum" where
  "d_neg (DFin x) = DFin (- x)"
| "d_neg (DInf s) = DInf (\<not> s)"
| "d_neg DNaN = DNaN"

fun d_add :: "dnum \<Rightarrow> dnum \<Rightarrow> dnum" where
  "d_add (DFin x) (DFin y) = to_dnum (x + y)"
| "d_add (DFin x) (DInf s) = DInf s"
| "d_add (DInf s) (DFin y) = DInf s"
| "d_add (DInf s) (DInf t) = (if s = t then DInf s else DNaN)"
| "d_add _ _ = DNaN"

fun d_times32 :: "dnum \<Rightarrow> dnum" where
  "d_times32 (DFin x) = to_dnum (x * 32)"
| "d_times32 (DInf s) = DInf s"
| "d_times32 DNaN = DNaN"

text \<open>\<open>((h * 32) - h) + x\<close>\<close>

definition hash_step :: "dnum \<Rightarrow> int \<Rightarrow> dnum" where
  "hash_step h x = d_add (d_add (d_times32 h) (d_neg h)) (DFin x)"

subsection \<open>Strings\<close>

text \<open>The white space and line ends that \<open>trim\<close> takes off.\<close>

definition is_space :: "int \<Rightarrow> bool" where
  "is_space c \<longleftrightarrow> c \<in> set [9, 10, 11, 12, 13, 32, 160, 5760, 8192, 8193, 8194, 8195, 8196, 8197, 8198, 8199,
     8200, 8201, 8202, 8232, 8233, 8239, 8287, 12288, 65279]"

definition trim :: "jsstring \<Rightarrow> jsstring" where
  "trim s = rev (dropWhile is_space (rev (dropWhile is_space s)))"

definition substring :: "jsstring \<Rightarrow> nat \<Rightarrow> nat \<Rightarrow> jsstring" where
  "substring s a b = (if a \<le> b then take (b - a) (drop a s) else take (a - b) (drop b s))"

subsection \<open>The query\<close>

text \<open>An element of \<open>_values\<close> is undefined until it is set.  \<open>_hash\<close> is undefined before \<open>compute\<close>.\<close>

record query =
  q_capacity :: nat
  q_attributes :: "int list"
  q_values :: "jsstring option list"
  q_size :: nat
  q_hash :: "dnum option"

definition newQuery :: query where
  "newQuery = \<lparr>q_capacity = 1, q_attributes = [0], q_values = [None], q_size = 0, q_hash = None\<rparr>"

definition q_add :: "int \<Rightarrow> jsstring \<Rightarrow> query \<Rightarrow> query" where
  "q_add att val q =
     (let q = (if q_size q = q_capacity q then
                 let temp_capacity = q_capacity q * 2
                 in q\<lparr>q_attributes := arraycopy 0 (q_attributes q) 0 (replicate temp_capacity 0) 0 (q_capacity q),
                      q_values := arraycopy None (q_values q) 0 (replicate temp_capacity None) 0 (q_capacity q),
                      q_capacity := temp_capacity\<rparr>
               else q)
      in q\<lparr>q_attributes := wr (q_attributes q) (Some (int (q_size q))) att,
           q_values := wr_js (q_values q) (Some (int (q_size q))) (trim val),
           q_size := q_size q + 1\<rparr>)"

text \<open>One comparison of the bubble sort: elements \<open>j - 1\<close> and \<open>j\<close>; a comparison with \<open>undefined\<close> is false.\<close>

definition q_swap :: "nat \<Rightarrow> query \<Rightarrow> query" where
  "q_swap j q =
     (case (rd (q_attributes q) (Some (int j - 1)), rd (q_attributes q) (Some (int j))) of
        (Some a, Some b) \<Rightarrow>
          if a > b then
            let tempV = rd (q_values q) (Some (int j - 1)); v = rd (q_values q) (Some (int j))
            in q\<lparr>q_attributes := wr (wr (q_attributes q) (Some (int j - 1)) b) (Some (int j)) a,
                 q_values := wr (wr (q_values q) (Some (int j - 1)) (Option.bind v (\<lambda>x. x))) (Some (int j)) (Option.bind tempV (\<lambda>x. x))\<rparr>
          else q
      | _ \<Rightarrow> q)"

definition q_pass :: "nat \<Rightarrow> query \<Rightarrow> query" where
  "q_pass i q = foldl (\<lambda>q j. q_swap j q) q [1..<Suc i]"

definition q_sort :: "query \<Rightarrow> query" where
  "q_sort q = foldl (\<lambda>q i. q_pass i q) q (rev [0..<q_size q])"

definition hash_value :: "jsstring option \<Rightarrow> dnum \<Rightarrow> dnum" where
  "hash_value v h = (case v of None \<Rightarrow> h | Some cs \<Rightarrow> foldl hash_step h cs)"

definition q_compute :: "query \<Rightarrow> query" where
  "q_compute q =
     (let q = q_sort q
      in q\<lparr>q_hash := Some (foldl (\<lambda>h i. hash_value (Option.bind (rd (q_values q) (Some (int i))) (\<lambda>x. x))
             (case rd (q_attributes q) (Some (int i)) of None \<Rightarrow> DNaN | Some a \<Rightarrow> hash_step h a)) (DFin 0) [0..<q_size q])\<rparr>)"

subsection \<open>Parsing\<close>

definition QUERY_SEP :: int where "QUERY_SEP = 44"
definition QUERY_KV_SEP :: int where "QUERY_KV_SEP = 61"

text \<open>\<open>MWGResolver.stringToHash\<close> of a name that is not inserted.\<close>

definition string_to_hash :: "jsstring \<Rightarrow> int result" where
  "string_to_hash name = (case data_hash name of None \<Rightarrow> Inl NoReturn | Some h \<Rightarrow> Inr h)"

text \<open>The loop; \<open>lastElemStart\<close> is never -1, so its test always holds.\<close>

definition parse_add :: "jsstring \<Rightarrow> nat \<Rightarrow> int \<Rightarrow> nat \<Rightarrow> query \<Rightarrow> query" where
  "parse_add src cursor currentKey lastElemStart flatQuery =
     (if currentKey \<noteq> NULL_LONG then q_add currentKey (trim (substring src lastElemStart cursor)) flatQuery
      else flatQuery)"

function parse_loop :: "jsstring \<Rightarrow> nat \<Rightarrow> int \<Rightarrow> nat \<Rightarrow> query \<Rightarrow> query result" where
  "parse_loop src cursor currentKey lastElemStart flatQuery =
     (if cursor < length src then
        if src ! cursor = QUERY_KV_SEP then
          bindr (string_to_hash (trim (substring src lastElemStart cursor))) (\<lambda>currentKey.
            parse_loop src (cursor + 1) currentKey (cursor + 1) flatQuery)
        else if src ! cursor = QUERY_SEP then
          parse_loop src (cursor + 1) NULL_LONG (cursor + 1) (parse_add src cursor currentKey lastElemStart flatQuery)
        else parse_loop src (cursor + 1) currentKey lastElemStart flatQuery
      else Inr (parse_add src cursor currentKey lastElemStart flatQuery))"
  by pat_completeness auto
termination by (relation "measure (\<lambda>(src, cursor, _). length src - cursor)") auto

declare parse_loop.simps [simp del]

definition parseQuery :: "jsstring \<Rightarrow> query result" where
  "parseQuery src = bindr (parse_loop src 0 NULL_LONG 0 newQuery) (\<lambda>flatQuery. Inr (q_compute flatQuery))"

subsection \<open>The pairs of a query\<close>

definition q_inv :: "query \<Rightarrow> bool" where
  "q_inv q \<longleftrightarrow> length (q_attributes q) = q_capacity q \<and> length (q_values q) = q_capacity q
     \<and> 0 < q_capacity q \<and> q_size q \<le> q_capacity q"

definition q_pairs :: "query \<Rightarrow> (int \<times> jsstring option) list" where
  "q_pairs q = zip (take (q_size q) (q_attributes q)) (take (q_size q) (q_values q))"

lemma q_invD:
  assumes "q_inv q"
  shows "length (q_attributes q) = q_capacity q" "length (q_values q) = q_capacity q"
    "0 < q_capacity q" "q_size q \<le> q_capacity q"
  using assms by (simp_all add: q_inv_def)

lemma length_q_pairs [simp]: "q_inv q \<Longrightarrow> length (q_pairs q) = q_size q"
  by (simp add: q_pairs_def q_inv_def)

lemma q_pairs_nth: "q_inv q \<Longrightarrow> i < q_size q \<Longrightarrow> q_pairs q ! i = (q_attributes q ! i, q_values q ! i)"
  by (simp add: q_pairs_def q_inv_def)

lemma newQuery_inv: "q_inv newQuery" "q_pairs newQuery = []"
  by (simp_all add: newQuery_def q_inv_def q_pairs_def)

lemma zip_list_update: "zip (xs[i := a]) (ys[i := b]) = (zip xs ys)[i := (a, b)]"
  by (simp add: update_zip)

lemma take_snoc_update: "n < length xs \<Longrightarrow> take (Suc n) (xs[n := v]) = take n xs @ [v]"
  by (simp add: take_Suc_conv_app_nth)

lemma q_add_pairs:
  assumes "q_inv q"
  shows "q_inv (q_add a v q)" "q_pairs (q_add a v q) = q_pairs q @ [(a, Some (trim v))]"
proof -
  note i = q_invD [OF assms]
  obtain cap atts vals where g: "q_size q < cap" "length atts = cap" "length vals = cap"
    "take (q_size q) atts = take (q_size q) (q_attributes q)" "take (q_size q) vals = take (q_size q) (q_values q)"
    and e: "q_add a v q = q\<lparr>q_attributes := wr atts (Some (int (q_size q))) a,
         q_values := wr_js vals (Some (int (q_size q))) (trim v), q_size := q_size q + 1, q_capacity := cap\<rparr>"
  proof (cases "q_size q = q_capacity q")
    case True
    show ?thesis
      by (rule that [of "q_capacity q * 2" "arraycopy 0 (q_attributes q) 0 (replicate (q_capacity q * 2) 0) 0 (q_capacity q)"
            "arraycopy None (q_values q) 0 (replicate (q_capacity q * 2) None) 0 (q_capacity q)"])
         (use i True in \<open>simp_all add: arraycopy_prefix q_add_def Let_def\<close>)
  next
    case False
    show ?thesis
      by (rule that [of "q_capacity q" "q_attributes q" "q_values q"]) (use i False in \<open>simp_all add: q_add_def Let_def\<close>)
  qed
  have w: "wr_js vals (Some (int (q_size q))) (trim v) = vals[q_size q := Some (trim v)]" using g by (simp add: wr_js_def)
  show "q_inv (q_add a v q)" unfolding e q_inv_def using g w by simp
  show "q_pairs (q_add a v q) = q_pairs q @ [(a, Some (trim v))]"
    unfolding e q_pairs_def using g q_invD(1,2,4) [OF assms] by (simp add: w take_snoc_update zip_append)
qed

subsection \<open>The sort\<close>

definition swap_pairs :: "nat \<Rightarrow> (int \<times> 'a) list \<Rightarrow> (int \<times> 'a) list" where
  "swap_pairs j ps = (if fst (ps ! (j - 1)) > fst (ps ! j) then ps[j - 1 := ps ! j, j := ps ! (j - 1)] else ps)"

lemma q_swap_pairs:
  assumes "q_inv q" "0 < j" "j < q_size q"
  shows "q_inv (q_swap j q)" "q_pairs (q_swap j q) = swap_pairs j (q_pairs q)"
    "q_size (q_swap j q) = q_size q"
proof -
  note i = q_invD [OF assms(1)]
  have j: "int j - 1 = int (j - 1)" "j - 1 < q_capacity q" "j < q_capacity q" using assms i by auto
  let ?a = "q_attributes q" and ?v = "q_values q"
  have e: "q_swap j q = (if ?a ! (j - 1) > ?a ! j
      then q\<lparr>q_attributes := ?a[j - 1 := ?a ! j, j := ?a ! (j - 1)], q_values := ?v[j - 1 := ?v ! j, j := ?v ! (j - 1)]\<rparr> else q)"
    using i j by (simp add: q_swap_def j(1) Let_def)
  show "q_inv (q_swap j q)" "q_size (q_swap j q) = q_size q" using i unfolding e q_inv_def by simp_all
  have "fst (q_pairs q ! (j - 1)) = ?a ! (j - 1)" "fst (q_pairs q ! j) = ?a ! j"
    using q_pairs_nth [OF assms(1)] assms by simp_all
  then show "q_pairs (q_swap j q) = swap_pairs j (q_pairs q)"
    using q_pairs_nth [OF assms(1), of j] q_pairs_nth [OF assms(1), of "j - 1"] assms
    unfolding e swap_pairs_def by (simp add: q_pairs_def take_update_swap zip_list_update)
qed

definition pass_pairs :: "nat \<Rightarrow> (int \<times> 'a) list \<Rightarrow> (int \<times> 'a) list" where
  "pass_pairs i ps = foldl (\<lambda>ps j. swap_pairs j ps) ps [1..<Suc i]"

lemma pass_pairs_simps [simp]: "pass_pairs 0 ps = ps" "pass_pairs (Suc i) ps = swap_pairs (Suc i) (pass_pairs i ps)"
  by (simp_all add: pass_pairs_def)

lemma split_two:
  assumes "Suc i < length ps"
  obtains us x y vs where "ps = us @ x # y # vs" "length us = i"
proof -
  have "ps = take i ps @ ps ! i # ps ! Suc i # drop (Suc (Suc i)) ps"
    using assms by (metis Cons_nth_drop_Suc Suc_lessD append_take_drop_id)
  then show ?thesis using that [of "take i ps" "ps ! i" "ps ! Suc i" "drop (Suc (Suc i)) ps"] assms by simp
qed

lemma swap_two:
  "length us = i \<Longrightarrow> swap_pairs (Suc i) (us @ x # y # vs) = (if fst x > fst y then us @ y # x # vs else us @ x # y # vs)"
  by (simp add: swap_pairs_def nth_append list_update_append)

text \<open>The pass carries the greatest pair of the first \<open>i + 1\<close> to their end, and keeps the order of pairs of equal attributes.\<close>

lemma pass_pairs:
  "i < length ps \<Longrightarrow> length (pass_pairs i ps) = length ps
     \<and> drop (Suc i) (pass_pairs i ps) = drop (Suc i) ps
     \<and> set (take (Suc i) (pass_pairs i ps)) = set (take (Suc i) ps)
     \<and> (\<forall>x \<in> set (take (Suc i) (pass_pairs i ps)). fst x \<le> fst (pass_pairs i ps ! i))
     \<and> mset (pass_pairs i ps) = mset ps
     \<and> (\<forall>k. filter (\<lambda>x. fst x = k) (pass_pairs i ps) = filter (\<lambda>x. fst x = k) ps)"
proof (induction i)
  case 0
  then show ?case by (cases ps) auto
next
  case (Suc i)
  let ?q = "pass_pairs i ps"
  have q: "length ?q = length ps" "drop (Suc i) ?q = drop (Suc i) ps" "set (take (Suc i) ?q) = set (take (Suc i) ps)"
    "\<forall>x \<in> set (take (Suc i) ?q). fst x \<le> fst (?q ! i)" "mset ?q = mset ps"
    "\<forall>k. filter (\<lambda>x. fst x = k) ?q = filter (\<lambda>x. fst x = k) ps"
    using Suc by auto
  obtain us x y vs where s: "?q = us @ x # y # vs" "length us = i"
    using Suc.prems q(1) by (metis split_two)
  obtain z where d: "drop (Suc i) ps = y # vs" "ps ! Suc i = y" "drop (Suc (Suc i)) ps = vs"
    using q(2) s Suc.prems by (auto simp: Cons_nth_drop_Suc [symmetric])
  have t: "set (take (Suc (Suc i)) ps) = insert y (set (take (Suc i) ps))"
    using d(2) Suc.prems by (simp add: take_Suc_conv_app_nth [of "Suc i"])
  have "take (Suc i) ?q = us @ [x]" "?q ! i = x" using s by (simp_all add: nth_append)
  then have m: "\<forall>u \<in> set us. fst u \<le> fst x" and u: "set (take (Suc i) ps) = insert x (set us)"
    using q(3,4) by auto
  note len = q(1) [unfolded s(1)] and ms = q(5) [unfolded s(1)] and fs = q(6) [unfolded s(1)]
  show ?case
  proof (cases "fst x > fst y")
    case True
    then have e: "pass_pairs (Suc i) ps = us @ y # x # vs" using s by (simp add: swap_two)
    have fl: "filter (\<lambda>x. fst x = k) (us @ y # x # vs) = filter (\<lambda>x. fst x = k) (us @ x # y # vs)" for k using True by auto
    have "mset (us @ y # x # vs) = mset ps" unfolding ms [symmetric] by simp
    then show ?thesis unfolding e t u using True m d s(2) len fl fs by (auto simp: nth_append)
  next
    case False
    then have e: "pass_pairs (Suc i) ps = us @ x # y # vs" using s by (simp add: swap_two)
    have "\<forall>z \<in> insert y (insert x (set us)). fst z \<le> fst y" using False m by auto
    then show ?thesis unfolding e t u using d s(2) len ms fs by (auto simp: nth_append)
  qed
qed

definition sort_pairs :: "(int \<times> 'a) list \<Rightarrow> (int \<times> 'a) list" where
  "sort_pairs ps = foldl (\<lambda>ps i. pass_pairs i ps) ps (rev [0..<length ps])"

lemma sort_loop:
  "m \<le> length ps \<Longrightarrow> sorted (map fst (drop m ps)) \<Longrightarrow> \<forall>x \<in> set (take m ps). \<forall>y \<in> set (drop m ps). fst x \<le> fst y \<Longrightarrow>
   sorted (map fst (foldl (\<lambda>ps i. pass_pairs i ps) ps (rev [0..<m])))
   \<and> mset (foldl (\<lambda>ps i. pass_pairs i ps) ps (rev [0..<m])) = mset ps
   \<and> (\<forall>k. filter (\<lambda>x. fst x = k) (foldl (\<lambda>ps i. pass_pairs i ps) ps (rev [0..<m])) = filter (\<lambda>x. fst x = k) ps)"
proof (induction m arbitrary: ps)
  case (Suc m)
  let ?q = "pass_pairs m ps"
  have q: "length ?q = length ps" "drop (Suc m) ?q = drop (Suc m) ps" "set (take (Suc m) ?q) = set (take (Suc m) ps)"
    "\<forall>x \<in> set (take (Suc m) ?q). fst x \<le> fst (?q ! m)" "mset ?q = mset ps"
    "\<forall>k. filter (\<lambda>x. fst x = k) ?q = filter (\<lambda>x. fst x = k) ps"
    using pass_pairs [of m ps] Suc.prems by auto
  have d: "drop m ?q = ?q ! m # drop (Suc m) ps" using q(1,2) Suc.prems(1) by (metis Cons_nth_drop_Suc Suc_le_eq)
  have t: "take (Suc m) ?q = take m ?q @ [?q ! m]" using q(1) Suc.prems(1) by (simp add: take_Suc_conv_app_nth)
  then have sub: "?q ! m \<in> set (take (Suc m) ps)" "set (take m ?q) \<subseteq> set (take (Suc m) ps)" using q(3) by auto
  have "sorted (map fst (drop m ?q))" unfolding d using Suc.prems(2,3) sub(1) by auto
  moreover have "\<forall>x \<in> set (take m ?q). \<forall>y \<in> set (drop m ?q). fst x \<le> fst y"
    unfolding d using Suc.prems(3) sub(2) q(4) t by auto
  ultimately show ?case using Suc.IH [of ?q] q Suc.prems(1) by simp
qed simp

lemma sort_pairs: "sort_pairs ps = sort_key fst ps"
proof -
  have "sorted (map fst (sort_pairs ps)) \<and> mset (sort_pairs ps) = mset ps
      \<and> (\<forall>k. filter (\<lambda>x. fst x = k) (sort_pairs ps) = filter (\<lambda>x. fst x = k) ps)"
    using sort_loop [of "length ps" ps] by (simp add: sort_pairs_def)
  moreover have "(\<lambda>x :: int \<times> 'a. k = fst x) = (\<lambda>x. fst x = k)" for k by auto
  ultimately show ?thesis
    by (intro properties_for_sort_key [symmetric]) simp_all
qed

lemma q_pass_pairs:
  "q_inv q \<Longrightarrow> i < q_size q \<Longrightarrow>
   q_inv (q_pass i q) \<and> q_pairs (q_pass i q) = pass_pairs i (q_pairs q) \<and> q_size (q_pass i q) = q_size q"
proof (induction i)
  case (Suc i)
  have "q_pass (Suc i) q = q_swap (Suc i) (q_pass i q)" by (simp add: q_pass_def)
  then show ?case using Suc q_swap_pairs [of "q_pass i q" "Suc i"] by simp
qed (simp add: q_pass_def)

lemma q_sort_loop:
  "q_inv q \<Longrightarrow> m \<le> q_size q \<Longrightarrow>
   q_inv (foldl (\<lambda>q i. q_pass i q) q (rev [0..<m]))
   \<and> q_pairs (foldl (\<lambda>q i. q_pass i q) q (rev [0..<m])) = foldl (\<lambda>ps i. pass_pairs i ps) (q_pairs q) (rev [0..<m])
   \<and> q_size (foldl (\<lambda>q i. q_pass i q) q (rev [0..<m])) = q_size q"
proof (induction m arbitrary: q)
  case (Suc m)
  then show ?case using q_pass_pairs [of q m] Suc.IH [of "q_pass m q"] by simp
qed simp

lemma q_sort_pairs:
  assumes "q_inv q"
  shows "q_inv (q_sort q)" "q_pairs (q_sort q) = sort_key fst (q_pairs q)" "q_size (q_sort q) = q_size q"
  using q_sort_loop [OF assms, of "q_size q"] assms by (simp_all add: q_sort_def sort_pairs [symmetric] sort_pairs_def)

subsection \<open>The hash\<close>

text \<open>The hash of a sequence of pairs.\<close>

definition hash_pairs :: "(int \<times> jsstring option) list \<Rightarrow> dnum" where
  "hash_pairs ps = foldl (\<lambda>h (a, v). hash_value v (hash_step h a)) (DFin 0) ps"

lemma foldl_nth: "foldl f h xs = foldl (\<lambda>h i. f h (xs ! i)) h [0..<length xs]"
proof (induction xs rule: rev_induct)
  case (snoc x xs)
  have "foldl (\<lambda>h i. f h ((xs @ [x]) ! i)) h [0..<length xs] = foldl (\<lambda>h i. f h (xs ! i)) h [0..<length xs]"
    by (rule foldl_cong) (simp_all add: nth_append)
  then show ?case using snoc by simp
qed simp

lemma q_compute_pairs:
  assumes "q_inv q"
  shows "q_inv (q_compute q)" "q_pairs (q_compute q) = sort_key fst (q_pairs q)"
    "q_hash (q_compute q) = Some (hash_pairs (sort_key fst (q_pairs q)))"
proof -
  note s = q_sort_pairs [OF assms]
  note i = q_invD [OF s(1)]
  have "foldl (\<lambda>h i. hash_value (Option.bind (rd (q_values (q_sort q)) (Some (int i))) (\<lambda>x. x))
             (case rd (q_attributes (q_sort q)) (Some (int i)) of None \<Rightarrow> DNaN | Some a \<Rightarrow> hash_step h a)) (DFin 0) [0..<q_size (q_sort q)]
      = hash_pairs (q_pairs (q_sort q))"
    unfolding hash_pairs_def foldl_nth [of _ _ "q_pairs (q_sort q)"] length_q_pairs [OF s(1)]
    using i by (intro foldl_cong refl) (simp add: q_pairs_nth [OF s(1)])
  then show "q_hash (q_compute q) = Some (hash_pairs (sort_key fst (q_pairs q)))"
    using s by (simp add: q_compute_def Let_def)
  show "q_inv (q_compute q)" "q_pairs (q_compute q) = sort_key fst (q_pairs q)"
    using s by (simp_all add: q_compute_def Let_def q_inv_def q_pairs_def)
qed

lemma q_adds_pairs:
  "q_inv q \<Longrightarrow> q_inv (foldl (\<lambda>q (a, v). q_add a v q) q ps)
     \<and> q_pairs (foldl (\<lambda>q (a, v). q_add a v q) q ps) = q_pairs q @ map (\<lambda>(a, v). (a, Some (trim v))) ps"
  by (induction ps arbitrary: q) (auto simp: q_add_pairs split: prod.splits)

subsection \<open>The meaning of a query text\<close>

fun split_on :: "int \<Rightarrow> jsstring \<Rightarrow> jsstring list" where
  "split_on sep [] = [[]]"
| "split_on sep (c # cs) =
     (if c = sep then [] # split_on sep cs else (c # hd (split_on sep cs)) # tl (split_on sep cs))"

text \<open>
  An element \<open>key=value\<close> between two commas; with several equality signs the last two parts count, with none
  the element is dropped.
\<close>

definition element_pairs :: "jsstring \<Rightarrow> (int \<times> jsstring) list" where
  "element_pairs e =
     (let parts = split_on QUERY_KV_SEP e
      in if length parts \<le> 1 then []
         else [(the (data_hash (trim (last (butlast parts)))), trim (last parts))])"

definition query_pairs :: "jsstring \<Rightarrow> (int \<times> jsstring) list" where
  "query_pairs src = concat (map element_pairs (split_on QUERY_SEP src))"

text \<open>The key texts of the elements, every one of which is hashed.\<close>

definition key_texts :: "jsstring \<Rightarrow> jsstring list" where
  "key_texts src = concat (map (\<lambda>e. map trim (butlast (split_on QUERY_KV_SEP e))) (split_on QUERY_SEP src))"

lemma split_on_ne [simp]: "split_on sep s \<noteq> []"
  by (cases s) auto

lemma split_on_Cons: "\<exists>w ws. split_on sep s = w # ws"
  by (cases "split_on sep s") auto

text \<open>The loop over the characters that are left: \<open>cur\<close> is the text since \<open>lastElemStart\<close>.\<close>

definition pending :: "jsstring \<Rightarrow> int \<Rightarrow> (int \<times> jsstring) list" where
  "pending cur key = (if key \<noteq> NULL_LONG then [(key, trim cur)] else [])"

fun scan_text :: "jsstring \<Rightarrow> int \<Rightarrow> jsstring \<Rightarrow> (int \<times> jsstring) list result" where
  "scan_text cur key [] = Inr (pending cur key)"
| "scan_text cur key (c # cs) =
     (if c = QUERY_KV_SEP then bindr (string_to_hash (trim cur)) (\<lambda>k. scan_text [] k cs)
      else if c = QUERY_SEP then bindr (scan_text [] NULL_LONG cs) (\<lambda>ps. Inr (pending cur key @ ps))
      else scan_text (cur @ [c]) key cs)"

abbreviation adds :: "query \<Rightarrow> (int \<times> jsstring) list \<Rightarrow> query" where
  "adds q ps \<equiv> foldl (\<lambda>q (a, v). q_add a v q) q ps"

lemma parse_add_pending: "b \<le> c \<Longrightarrow> parse_add src c key b q = adds q (pending (take (c - b) (drop b src)) key)"
  by (simp add: parse_add_def pending_def substring_def)

lemma parse_loop_scan:
  "b \<le> c \<Longrightarrow> c \<le> length src \<Longrightarrow>
   parse_loop src c key b q =
     bindr (scan_text (take (c - b) (drop b src)) key (drop c src)) (\<lambda>ps. Inr (adds q ps))"
proof (induction "length src - c" arbitrary: b c key q)
  case 0
  then show ?case by (subst parse_loop.simps) (simp add: parse_add_pending)
next
  case (Suc n)
  then have c: "c < length src" "n = length src - (c + 1)" by auto
  then have d: "drop c src = src ! c # drop (c + 1) src" by (simp add: Cons_nth_drop_Suc)
  have t: "take (c - b) (drop b src) @ [src ! c] = take (c + 1 - b) (drop b src)"
    using c Suc.prems by (simp add: Suc_diff_le take_Suc_conv_app_nth)
  note ih = Suc.hyps(1) [OF c(2)]
  show ?case
  proof (cases "src ! c = QUERY_KV_SEP")
    case True
    have "parse_loop src (c + 1) k (c + 1) q = bindr (scan_text [] k (drop (c + 1) src)) (\<lambda>ps. Inr (adds q ps))" for k
      using ih [of "c + 1" k q] c by simp
    then show ?thesis using True c Suc.prems
      by (subst parse_loop.simps) (cases "string_to_hash (trim (take (c - b) (drop b src)))", simp_all add: d substring_def)
  next
    case kv: False
    show ?thesis
    proof (cases "src ! c = QUERY_SEP")
      case True
      have "parse_loop src (c + 1) NULL_LONG (c + 1) q'
          = bindr (scan_text [] NULL_LONG (drop (c + 1) src)) (\<lambda>ps. Inr (adds q' ps))" for q'
        using ih [of "c + 1" NULL_LONG q'] c by simp
      then show ?thesis using True kv c Suc.prems
        by (subst parse_loop.simps) (cases "scan_text [] NULL_LONG (drop (c + 1) src)", simp_all add: d parse_add_pending)
    next
      case False
      have "parse_loop src (c + 1) key b q
          = bindr (scan_text (take (c + 1 - b) (drop b src)) key (drop (c + 1) src)) (\<lambda>ps. Inr (adds q ps))"
        using ih [of b key q] c Suc.prems by simp
      then show ?thesis using False kv c
        by (subst parse_loop.simps) (simp add: d t)
    qed
  qed
qed

lemma data_hash_not_null: "data_hash s \<noteq> Some NULL_LONG"
proof (cases s)
  case Nil
  then show ?thesis by simp code_simp
next
  case (Cons c cs)
  then show ?thesis using data_hash_word [of c cs] by (auto simp: END_OF_TIME_def NULL_LONG_def)
qed

text \<open>The pair of an element of which \<open>cur\<close> has been read, with the key found so far.\<close>

definition rest_pairs :: "jsstring \<Rightarrow> int \<Rightarrow> jsstring \<Rightarrow> (int \<times> jsstring) list" where
  "rest_pairs cur key e =
     (let parts = split_on QUERY_KV_SEP e
      in if length parts \<le> 1 then pending (cur @ e) key
         else [(the (data_hash (trim (last (butlast ((cur @ hd parts) # tl parts))))), trim (last parts))])"

lemma split_single: "length (split_on sep e) \<le> 1 \<Longrightarrow> split_on sep e = [e]"
proof (induction e)
  case (Cons c e)
  then show ?case using split_on_ne [of sep e] by (cases "split_on sep e") (auto split: if_splits)
qed simp

lemma rest_pairs_start: "rest_pairs [] NULL_LONG e = element_pairs e"
  using split_on_Cons [of QUERY_KV_SEP e] by (auto simp: rest_pairs_def element_pairs_def pending_def Let_def)

lemma rest_pairs_char: "c \<noteq> QUERY_KV_SEP \<Longrightarrow> rest_pairs cur key (c # e) = rest_pairs (cur @ [c]) key e"
  using split_on_Cons [of QUERY_KV_SEP e] by (auto simp: rest_pairs_def Let_def)

lemma rest_pairs_kv:
  assumes "data_hash (trim cur) = Some k"
  shows "rest_pairs cur key (QUERY_KV_SEP # e) = rest_pairs [] k e"
proof -
  have "k \<noteq> NULL_LONG" using assms data_hash_not_null [of "trim cur"] by auto
  then show ?thesis
    using split_on_Cons [of QUERY_KV_SEP e] assms split_single [of QUERY_KV_SEP e]
    by (auto simp: rest_pairs_def Let_def pending_def)
qed

definition rest_keys :: "jsstring \<Rightarrow> jsstring \<Rightarrow> jsstring list" where
  "rest_keys cur e = (let parts = split_on QUERY_KV_SEP e in map trim (butlast ((cur @ hd parts) # tl parts)))"

lemma rest_keys_steps:
  "c \<noteq> QUERY_KV_SEP \<Longrightarrow> rest_keys cur (c # e) = rest_keys (cur @ [c]) e"
  "rest_keys cur (QUERY_KV_SEP # e) = trim cur # rest_keys [] e"
  "rest_keys [] e = map trim (butlast (split_on QUERY_KV_SEP e))"
  using split_on_Cons [of QUERY_KV_SEP e] by (auto simp: rest_keys_def Let_def)

lemma scan_text_split:
  "split_on QUERY_SEP src = e # es \<Longrightarrow>
   \<forall>k \<in> set (rest_keys cur e @ concat (map (rest_keys []) es)). data_hash k \<noteq> None \<Longrightarrow>
   scan_text cur key src = Inr (rest_pairs cur key e @ concat (map element_pairs es))"
proof (induction src arbitrary: cur key e es)
  case Nil
  then show ?case by (auto simp: rest_pairs_def)
next
  case (Cons c src)
  have sep: "QUERY_SEP \<noteq> QUERY_KV_SEP" by (simp add: QUERY_SEP_def QUERY_KV_SEP_def)
  obtain e' es' where s: "split_on QUERY_SEP src = e' # es'" using split_on_Cons by blast
  show ?case
  proof (cases "c = QUERY_SEP")
    case True
    then have e: "e = []" "es = e' # es'" using Cons.prems(1) s by auto
    have "scan_text [] NULL_LONG src = Inr (rest_pairs [] NULL_LONG e' @ concat (map element_pairs es'))"
      using Cons.IH [OF s] Cons.prems(2) e by simp
    then show ?thesis using True e sep by (simp add: rest_pairs_start) (simp add: rest_pairs_def)
  next
    case False
    then have e: "e = c # e'" "es = es'" using Cons.prems(1) s by auto
    show ?thesis
    proof (cases "c = QUERY_KV_SEP")
      case True
      then obtain k where k: "data_hash (trim cur) = Some k" using Cons.prems(2) e by (auto simp: rest_keys_steps)
      have "scan_text [] k src = Inr (rest_pairs [] k e' @ concat (map element_pairs es'))"
        using Cons.IH [OF s] Cons.prems(2) True e by (auto simp: rest_keys_steps)
      then show ?thesis using True e k by (simp add: string_to_hash_def rest_pairs_kv)
    next
      case kv: False
      have "scan_text (cur @ [c]) key src = Inr (rest_pairs (cur @ [c]) key e' @ concat (map element_pairs es'))"
        using Cons.IH [OF s] Cons.prems(2) kv e by (auto simp: rest_keys_steps)
      then show ?thesis using False kv e by (simp add: rest_pairs_char)
    qed
  qed
qed

lemma parse_query_pairs:
  assumes "\<forall>k \<in> set (key_texts src). data_hash k \<noteq> None"
  shows "parseQuery src = Inr (q_compute (adds newQuery (query_pairs src)))"
proof -
  obtain e es where s: "split_on QUERY_SEP src = e # es" using split_on_Cons by blast
  have "scan_text [] NULL_LONG src = Inr (rest_pairs [] NULL_LONG e @ concat (map element_pairs es))"
    using assms s by (intro scan_text_split) (auto simp: key_texts_def rest_keys_steps)
  then show ?thesis
    using parse_loop_scan [of 0 0 src NULL_LONG newQuery] s
    by (simp add: parseQuery_def query_pairs_def rest_pairs_start)
qed

lemma dropWhile_idem: "dropWhile P (dropWhile P xs) = dropWhile P xs"
  by (induction xs) auto

lemma trim_trim [simp]: "trim (trim v) = trim v"
proof -
  define ys where "ys = dropWhile is_space v"
  have r: "rev (trim v) = dropWhile is_space (rev ys)" by (simp add: trim_def ys_def)
  then have "rev ys = takeWhile is_space (rev ys) @ rev (trim v)" by simp
  then have "rev (rev ys) = rev (takeWhile is_space (rev ys) @ rev (trim v))" by (rule arg_cong)
  then have y: "ys = trim v @ rev (takeWhile is_space (rev ys))" by simp
  have d: "dropWhile is_space (trim v) = trim v"
  proof (cases "trim v")
    case (Cons c w)
    then have h: "dropWhile is_space v = c # w @ rev (takeWhile is_space (rev ys))" using y by (simp add: ys_def)
    have "\<not> is_space (hd (dropWhile is_space v))" by (rule hd_dropWhile) (simp add: h del: dropWhile_eq_Nil_conv)
    then have "\<not> is_space c" unfolding h by simp
    then show ?thesis using Cons by simp
  qed simp
  have "trim (trim v) = rev (dropWhile is_space (rev (trim v)))" unfolding trim_def [of "trim v"] d ..
  also have "\<dots> = rev (rev (trim v))" unfolding r dropWhile_idem ..
  finally show ?thesis by simp
qed

lemma query_pairs_trimmed: "(a, v) \<in> set (query_pairs src) \<Longrightarrow> trim v = v"
  by (auto simp: query_pairs_def element_pairs_def Let_def split: if_splits)

text \<open>The hash of a value of positive characters grows by at least 16 with every character until it overflows.\<close>

lemma rnd_lower: "0 \<le> x \<Longrightarrow> (2 ^ 53 - 1) * x \<le> 2 ^ 53 * rnd x"
  by (rule rnd_bounds)

lemma to_dnum_cases:
  assumes "0 \<le> x"
  shows "to_dnum x = DInf False \<or> (\<exists>y. to_dnum x = DFin y \<and> y < d_limit \<and> (2 ^ 53 - 1) * x \<le> 2 ^ 53 * y)"
  using assms rnd_lower [OF assms] rnd_nonneg [OF assms] by (auto simp: to_dnum_def)

definition diverging :: "nat \<Rightarrow> dnum \<Rightarrow> bool" where
  "diverging n h \<longleftrightarrow> h = DNaN \<or> h = DInf False \<or> (\<exists>y. h = DFin y \<and> 16 ^ n \<le> y \<and> y < d_limit)"

lemma hash_step_inf: "hash_step (DInf s) c = DNaN" "hash_step DNaN c = DNaN"
  by (simp_all add: hash_step_def)

lemma hash_step_0: "hash_step (DFin 0) x = to_dnum x"
proof -
  have "rnd 0 = 0" by (rule rnd_id) simp
  then have "to_dnum 0 = DFin 0" by (simp add: to_dnum_def d_limit_def)
  then show ?thesis by (simp add: hash_step_def)
qed

lemma diverging_step:
  assumes "diverging n h" "0 < c \<or> 4 \<le> n \<and> -65536 < c"
  shows "diverging (Suc n) (hash_step h c)"
proof (cases "h = DNaN \<or> h = DInf False")
  case True
  then show ?thesis by (auto simp: diverging_def hash_step_inf)
next
  case False
  then obtain x where "h = DFin x" "16 ^ n \<le> x" using assms(1) by (auto simp: diverging_def)
  moreover have "0 < (16::int) ^ n" by simp
  ultimately have x: "h = DFin x" "16 ^ n \<le> x" "0 < x" by linarith+
  have "(16::int) ^ 4 \<le> 16 ^ n" if "4 \<le> n" using that by (intro power_increasing) simp_all
  then have c: "- x \<le> c" using assms(2) x(2,3) by fastforce
  consider "d_times32 h = DInf False" | y where "d_times32 h = DFin y" "(2 ^ 53 - 1) * (x * 32) \<le> 2 ^ 53 * y"
    using to_dnum_cases [of "x * 32"] x by auto
  then show ?thesis
  proof cases
    case 1
    then show ?thesis using x by (simp add: hash_step_def diverging_def)
  next
    case 2
    then have y: "30 * x \<le> y - x" using x by simp
    consider "d_add (DFin y) (d_neg h) = DInf False"
      | z where "d_add (DFin y) (d_neg h) = DFin z" "(2 ^ 53 - 1) * (y - x) \<le> 2 ^ 53 * z"
      using to_dnum_cases [of "y - x"] x y by auto
    then show ?thesis
    proof cases
      case 1
      then show ?thesis using 2 by (simp add: hash_step_def diverging_def)
    next
      case z: 2
      then have zx: "20 * x \<le> z" using y x by simp
      have "to_dnum (z + c) = DInf False \<or> (\<exists>w. to_dnum (z + c) = DFin w \<and> w < d_limit \<and> (2 ^ 53 - 1) * (z + c) \<le> 2 ^ 53 * w)"
        using to_dnum_cases [of "z + c"] zx x(3) c by simp
      moreover have "16 * x \<le> w" if "(2 ^ 53 - 1) * (z + c) \<le> 2 ^ 53 * w" for w using that zx x(3) c by simp
      ultimately show ?thesis using z 2 x by (fastforce simp: hash_step_def diverging_def)
    qed
  qed
qed

lemma diverging_chars: "diverging n h \<Longrightarrow> \<forall>c \<in> set cs. 0 < c \<or> 4 \<le> n \<and> -65536 < c \<Longrightarrow> diverging (n + length cs) (foldl hash_step h cs)"
proof (induction cs arbitrary: n h)
  case (Cons c cs)
  then show ?case using Cons.IH [of "Suc n" "hash_step h c"] diverging_step [of n h c] by fastforce
qed simp

lemma diverging_less: "diverging n h \<Longrightarrow> diverging 0 h"
proof -
  have "1 \<le> (16::int) ^ n" by simp
  then show "diverging n h \<Longrightarrow> diverging 0 h" unfolding diverging_def using order_trans [of "1 :: int" "16 ^ n"] by auto
qed

text \<open>Any attribute that is not negative, followed by a character.\<close>

lemma diverging_start:
  assumes "0 \<le> a" "0 < c"
  shows "diverging 0 (hash_step (hash_step (DFin 0) a) c)"
proof -
  consider "to_dnum a = DInf False" | y where "to_dnum a = DFin y" "0 \<le> y" "y < d_limit"
    using to_dnum_cases [OF assms(1)] assms(1) by (auto simp: zero_le_mult_iff dest: order_trans)
  then show ?thesis
  proof cases
    case 1
    then show ?thesis by (simp add: hash_step_0 hash_step_inf diverging_def)
  next
    case 2
    show ?thesis
    proof (cases "y = 0")
      case True
      have "1 \<le> w" if "(2 ^ 53 - 1) * c \<le> 2 ^ 53 * w" for w using that assms(2) by simp
      then show ?thesis using to_dnum_cases [of c] assms(2) 2 True by (auto simp: hash_step_0 diverging_def)
    next
      case False
      then have "diverging 0 (to_dnum a)" using 2 by (simp add: diverging_def)
      then show ?thesis using diverging_less [OF diverging_step] assms(2) by (simp add: hash_step_0)
    qed
  qed
qed

lemma nan_chars: "foldl hash_step DNaN cs = DNaN"
  by (induction cs) (simp_all add: hash_step_inf)

lemma diverging_256: "diverging n h \<Longrightarrow> 256 \<le> n \<Longrightarrow> h = DNaN \<or> h = DInf False"
proof -
  assume d: "diverging n h" "256 \<le> n"
  have "d_limit = 16 ^ 256" by (simp add: d_limit_def)
  also have "\<dots> \<le> 16 ^ n" using d(2) by (intro power_increasing) auto
  finally show ?thesis using d(1) by (auto simp: diverging_def)
qed

subsection \<open>Properties\<close>

text \<open>Property C38.
  \<open>parseQuery\<close> reads a text by its grammar: elements between commas, of which the part after the last
  equality sign is the value and the part before it the key, both trimmed; elements without one are dropped.
  The query holds the pairs (hash of the key, value) sorted by hash, the first given first among equals, and the
  hash of that sequence.  (A key whose hash does not return stops the parser.)\<close>

theorem parseQuery_spec:
  assumes "\<forall>k \<in> set (key_texts src). data_hash k \<noteq> None"
  shows "\<exists>q. parseQuery src = Inr q
     \<and> q_pairs q = sort_key fst (map (\<lambda>(a, v). (a, Some v)) (query_pairs src))
     \<and> q_hash q = Some (hash_pairs (q_pairs q)) \<and> q_inv q"
proof -
  have t: "map (\<lambda>(a, v). (a, Some (trim v))) (query_pairs src) = map (\<lambda>(a, v). (a, Some v)) (query_pairs src)"
    by (intro map_cong refl) (auto dest: query_pairs_trimmed)
  let ?q = "adds newQuery (query_pairs src)"
  have "q_inv ?q" "q_pairs ?q = map (\<lambda>(a, v). (a, Some v)) (query_pairs src)"
    using q_adds_pairs [OF newQuery_inv(1), of "query_pairs src"] newQuery_inv(2) unfolding t by auto
  then show ?thesis
    using parse_query_pairs [OF assms] q_compute_pairs [of ?q] by (intro exI [of _ "q_compute ?q"]) simp
qed

text \<open>The key with the character 0, given twice: \<open>\0=2, \0=1,c\<close>.\<close>

theorem parseQuery_spec_witness:
  "\<exists>q x. parseQuery [0, 61, 50, 44, 32, 0, 61, 49, 44, 99] = Inr q
     \<and> data_hash [0] = Some x \<and> q_pairs q = [(x, Some [50]), (x, Some [49])]"
proof -
  have "data_hash [0] \<noteq> None" unfolding data_hash_def data_hash_loop.simps byteTable_0 by code_simp
  then show ?thesis
    using parseQuery_spec [of "[0, 61, 50, 44, 32, 0, 61, 49, 44, 99]"]
    by (auto simp: key_texts_def query_pairs_def element_pairs_def QUERY_SEP_def QUERY_KV_SEP_def trim_def is_space_def)
qed

text \<open>Property C39.
  The hash of a query does not depend on the order in which its attributes are added (as an index adds
  them in the order of the index, and a parsed query in the order of the text), when they are distinct.\<close>

theorem query_order_independent:
  assumes "mset ps = mset ps'" "distinct (map fst ps)"
  shows "q_pairs (q_compute (adds newQuery ps)) = q_pairs (q_compute (adds newQuery ps'))
     \<and> q_hash (q_compute (adds newQuery ps)) = q_hash (q_compute (adds newQuery ps'))"
proof -
  let ?f = "\<lambda>(a, v). (a, Some (trim v))"
  have m: "mset (sort_key fst (map ?f ps')) = mset (map ?f ps)" using assms(1) by simp
  have "map fst (map ?f ps) = map fst ps" by (induction ps) auto
  then have "distinct (map fst (map ?f ps))" using assms(2) by (simp only:)
  then have "inj_on fst (set (map ?f ps))" by (simp only: distinct_map)
  then have "sort_key fst (map ?f ps) = sort_key fst (map ?f ps')"
    by (intro sort_key_inj_key_eq m [symmetric]) simp_all
  then show ?thesis
    using q_adds_pairs [OF newQuery_inv(1), of ps] q_adds_pairs [OF newQuery_inv(1), of ps'] newQuery_inv(2)
      q_compute_pairs [of "adds newQuery ps"] q_compute_pairs [of "adds newQuery ps'"]
    by simp
qed

theorem query_order_independent_witness:
  "q_hash (q_compute (adds newQuery [(7, [65]), (3, [66, 32])])) = q_hash (q_compute (adds newQuery [(3, [66, 32]), (7, [65])]))"
  using query_order_independent [of "[(7, [65]), (3, [66, 32])]" "[(3, [66, 32]), (7, [65])]"] by simp

text \<open>Signs: the hash of a negative attribute is the negative of a hash of negative characters.\<close>

lemma to_dnum_uminus: "to_dnum (- x) = d_neg (to_dnum x)"
proof -
  have "rnd (- x) = - rnd x" by (simp add: rnd_def Let_def sgn_minus)
  moreover have "rnd 0 = 0" by (rule rnd_id) simp
  ultimately show ?thesis by (cases "x = 0") (auto simp: to_dnum_def d_limit_def)
qed

lemma d_add_neg: "d_add (d_neg h) (d_neg g) = d_neg (d_add h g)"
proof (cases "\<exists>x y. h = DFin x \<and> g = DFin y")
  case True
  then obtain x y where "h = DFin x" "g = DFin y" by blast
  then show ?thesis using to_dnum_uminus [of "x + y"] by simp
qed (cases h; cases g; auto)

lemma hash_step_neg: "hash_step (d_neg h) (- c) = d_neg (hash_step h c)"
proof -
  have "to_dnum (- x * 32) = d_neg (to_dnum (x * 32))" for x using to_dnum_uminus [of "x * 32"] by simp
  then have "d_times32 (d_neg h) = d_neg (d_times32 h)" by (cases h) simp_all
  moreover have "DFin (- c) = d_neg (DFin c)" by simp
  ultimately show ?thesis unfolding hash_step_def by (simp only: d_add_neg)
qed

lemma hash_chars_neg: "foldl hash_step (d_neg h) cs = d_neg (foldl hash_step h (map uminus cs))"
proof (induction cs arbitrary: h)
  case (Cons c cs)
  have "hash_step (d_neg h) c = d_neg (hash_step h (- c))" using hash_step_neg [of h "- c"] by simp
  with Cons show ?case by simp
qed simp

lemma diverging_nan:
  assumes "diverging n h" "257 \<le> length cs" "\<forall>c \<in> set cs. 0 < c \<or> 4 \<le> n \<and> -65536 < c"
  shows "foldl hash_step h cs = DNaN"
proof -
  have cs: "cs = take 256 cs @ cs ! 256 # drop 257 cs" using assms(2) id_take_nth_drop [of 256 cs] by simp
  have "diverging (n + 256) (foldl hash_step h (take 256 cs))"
    using diverging_chars [OF assms(1), of "take 256 cs"] assms(2,3) set_take_subset [of 256 cs] by auto
  then have "foldl hash_step h (take 256 cs) \<in> {DNaN, DInf False}" using diverging_256 by fastforce
  then have "foldl hash_step h (take 256 cs @ cs ! 256 # drop 257 cs) = DNaN" by (auto simp: hash_step_inf nan_chars)
  then show ?thesis using cs by simp
qed

lemma hash_value_nan:
  assumes "0 \<le> a \<or> a \<le> -65536" "258 \<le> length cs" "\<forall>c \<in> set cs. 0 < c \<and> c < 65536"
  shows "foldl hash_step (hash_step (DFin 0) a) cs = DNaN"
proof (cases "0 \<le> a")
  case True
  obtain c ds where cs: "cs = c # ds" using assms(2) by (cases cs) auto
  have "diverging 0 (hash_step (hash_step (DFin 0) a) c)" using True assms(3) cs by (intro diverging_start) auto
  from diverging_nan [OF this, of ds] show ?thesis using assms(2,3) cs by simp
next
  case False
  have "diverging 4 (to_dnum (- a))"
    using to_dnum_cases [of "- a"] False assms(1) by (auto simp: diverging_def)
  from diverging_nan [OF this, of "map uminus cs"] have "foldl hash_step (to_dnum (- a)) (map uminus cs) = DNaN"
    using assms(2,3) by auto
  then show ?thesis using hash_chars_neg [of "to_dnum (- a)" cs] to_dnum_uminus [of "- a"] by (simp add: hash_step_0)
qed

lemma trim_replicate: "\<not> is_space c \<Longrightarrow> trim (replicate n c) = replicate n c"
  using dropWhile_replicate [of is_space n c] by (simp add: trim_def)

text \<open>
  Small negative attributes are different: the hash of the attribute -4 stays -4 with every character \<open>x\<close>.
\<close>

lemma hash_fixed: "q_hash (q_compute (q_add (-4) (replicate n 120) newQuery)) = Some (DFin (-4))"
proof -
  have "hash_step (DFin (-4)) 120 = DFin (-4)" "hash_step (DFin 0) (-4) = DFin (-4)" by code_simp+
  then have "foldl hash_step (hash_step (DFin 0) (-4)) (replicate n 120) = DFin (-4)" by (induction n) simp_all
  then show ?thesis
    using q_compute_pairs [of "q_add (-4) (replicate n 120) newQuery"] q_add_pairs [OF newQuery_inv(1), of "-4" "replicate n 120"]
      newQuery_inv(2) trim_replicate [of 120 n]
    by (simp add: hash_pairs_def hash_value_def is_space_def)
qed

text \<open>Property C40.
  The hash is a double that is never reduced, so a long value takes it out of the range of the doubles: it becomes infinite
  and then NaN.  For a query of one attribute, whose key is not negative or at most -65536, and a value of 258 characters or more
  after \<open>trim\<close>, none of them the character 0, the hash is NaN; so all these queries have the same hash.  (Keys between are
  left out: \<open>hash_fixed\<close> shows one whose hash stays finite.)\<close>

theorem long_value_nan:
  assumes "0 \<le> a \<or> a \<le> -65536" "258 \<le> length (trim v)" "\<forall>c \<in> set (trim v). 0 < c \<and> c < 65536"
  shows "q_hash (q_compute (q_add a v newQuery)) = Some DNaN"
  using q_compute_pairs [of "q_add a v newQuery"] q_add_pairs [OF newQuery_inv(1), of a v] newQuery_inv(2) hash_value_nan [OF assms]
  by (simp add: hash_pairs_def hash_value_def)

theorem long_value_nan_witness:
  "q_hash (q_compute (q_add 5 (replicate 300 97) newQuery)) = q_hash (q_compute (q_add (-70000) (replicate 400 98) newQuery))"
proof -
  have t: "trim (replicate 300 97) = replicate 300 97" "trim (replicate 400 98) = replicate 400 98"
    by (rule trim_replicate; simp add: is_space_def)+
  show ?thesis
    using long_value_nan [of 5 "replicate 300 97"] long_value_nan [of "-70000" "replicate 400 98"] unfolding t by simp
qed

end
