(* ===== verification/StateChunk.thy ===== *)
theory StateChunk
  imports LongLongMap StringLongMap LongLongArrayMap ChunkSpaceSpec Query
begin

text \<open>
  \<open>HeapStateChunk\<close>: the attributes of a node at a world and a time, a hash table from the code of an attribute
  to its type and value.

  A clone (\<open>softClone\<close>) shares four of the arrays of the state with its origin: the keys, the links, the heads of
  the buckets and the types.  They always move together, so they are one object, a \<open>sc_table\<close>, held in the
  store \<open>hp_tables\<close> and named by its index.  The array of the values belongs to one chunk.  The three classes of map
  objects have their states in the store too.  Arrays that are values of attributes are copied on the way in and out and never
  changed, so they are values here.
\<close>

subsection \<open>Types and values\<close>

definition BOOL :: int where "BOOL = 1"
definition STRING :: int where "STRING = 2"
definition LONG :: int where "LONG = 3"
definition INT_TYPE :: int where "INT_TYPE = 4"
definition DOUBLE :: int where "DOUBLE = 5"
definition DOUBLE_ARRAY :: int where "DOUBLE_ARRAY = 6"
definition LONG_ARRAY :: int where "LONG_ARRAY = 7"
definition INT_ARRAY :: int where "INT_ARRAY = 8"
definition LONG_LONG_MAP :: int where "LONG_LONG_MAP = 9"
definition LONG_LONG_ARRAY_MAP :: int where "LONG_LONG_ARRAY_MAP = 10"
definition STRING_LONG_MAP :: int where "STRING_LONG_MAP = 11"

lemmas type_defs = BOOL_def STRING_def LONG_def INT_TYPE_def DOUBLE_def DOUBLE_ARRAY_def LONG_ARRAY_def INT_ARRAY_def
  LONG_LONG_MAP_def LONG_LONG_ARRAY_MAP_def STRING_LONG_MAP_def

definition typeName :: "int \<Rightarrow> string" where
  "typeName p_type =
     (if p_type = BOOL then ''boolean''
      else if p_type = STRING then ''string''
      else if p_type = LONG then ''long''
      else if p_type = INT_TYPE then ''int''
      else if p_type = DOUBLE then ''double''
      else if p_type = DOUBLE_ARRAY then ''double[]''
      else if p_type = LONG_ARRAY then ''long[]''
      else if p_type = INT_ARRAY then ''int[]''
      else if p_type = LONG_LONG_MAP then ''map(long->long)''
      else if p_type = LONG_LONG_ARRAY_MAP then ''map(long->long[])''
      else if p_type = STRING_LONG_MAP then ''map(string->long)''
      else ''unknown'')"

text \<open>
  A value.  A map object is held by the array of values only, so it stands there; \<open>EUnsound\<close> is an object that a
  map constructor made of something that is not a map of its class.
\<close>

datatype elem =
    is_bool: EBool bool
  | is_string: EString jsstring
  | is_number: ENumber js_double
  | is_floats: EFloats "js_double list"    \<comment> \<open>\<open>Float64Array\<close>\<close>
  | is_ints: EInts "int list"              \<comment> \<open>\<open>Int32Array\<close>\<close>
  | EStringMap map_object
  | ELongMap map_object
  | EArrayMap map_object
  | EUnsound

text \<open>The error of \<open>set\<close>; the printed value that ends the message is left out.\<close>

definition usage_error :: "int \<Rightarrow> js_error" where
  "usage_error t = JsError (''mwDB usage error, set method called with type '' @ typeName t @ '' while param object is '')"

fun is_object :: "elem \<Rightarrow> bool" where
  "is_object (EBool b) = False"
| "is_object (EString s) = False"
| "is_object (ENumber x) = False"
| "is_object e = True"

text \<open>The tests of \<open>set\<close>: the two maps from numbers are tested to be booleans, as in the code.\<close>

definition set_accepts :: "int \<Rightarrow> elem \<Rightarrow> bool" where
  "set_accepts t e =
     ((t = STRING \<longrightarrow> is_string e) \<and> (t = BOOL \<longrightarrow> is_bool e)
      \<and> (t = DOUBLE \<or> t = LONG \<or> t = INT_TYPE \<longrightarrow> is_number e)
      \<and> (t = DOUBLE_ARRAY \<longrightarrow> is_floats e) \<and> (t = LONG_ARRAY \<longrightarrow> is_floats e)
      \<and> (t = INT_ARRAY \<longrightarrow> is_ints e) \<and> (t = STRING_LONG_MAP \<longrightarrow> is_object e)
      \<and> (t = LONG_LONG_MAP \<longrightarrow> is_bool e) \<and> (t = LONG_LONG_ARRAY_MAP \<longrightarrow> is_bool e))"

text \<open>The copy of an array-like value into a typed array: a value without a length gives an empty one.\<close>

definition char_number :: "int \<Rightarrow> js_double" where
  "char_number c = (if 48 \<le> c \<and> c \<le> 57 then Finite (of_int (c - 48)) else if is_space c then Finite 0 else NotANumber)"

fun to_floats :: "elem \<Rightarrow> js_double list" where
  "to_floats (EFloats xs) = xs"
| "to_floats (EInts xs) = map (\<lambda>x. Finite (of_int x)) xs"
| "to_floats (EString s) = map char_number s"
| "to_floats e = []"

fun double_to_int32 :: "js_double \<Rightarrow> int" where
  "double_to_int32 (Finite q) = to_int32 (if 0 \<le> q then \<lfloor>q\<rfloor> else \<lceil>q\<rceil>)"
| "double_to_int32 x = 0"

fun to_ints :: "elem \<Rightarrow> int list" where
  "to_ints (EInts xs) = xs"
| "to_ints e = map double_to_int32 (to_floats e)"

text \<open>What is stored for a value of a type, and what \<open>get\<close> gives out.\<close>

definition cast_elem :: "int \<Rightarrow> elem \<Rightarrow> elem result" where
  "cast_elem t e =
     (if t \<in> set [BOOL, DOUBLE, LONG, INT_TYPE, STRING, STRING_LONG_MAP, LONG_LONG_MAP, LONG_LONG_ARRAY_MAP] then Inr e
      else if t = DOUBLE_ARRAY \<or> t = LONG_ARRAY then Inr (EFloats (to_floats e))
      else if t = INT_ARRAY then Inr (EInts (to_ints e))
      else Inl (usage_error t))"

definition copy_out :: "jsnum \<Rightarrow> elem \<Rightarrow> elem" where
  "copy_out t e =
     (if t = Some DOUBLE_ARRAY \<or> t = Some LONG_ARRAY then EFloats (to_floats e)
      else if t = Some INT_ARRAY then EInts (to_ints e) else e)"

subsection \<open>The state\<close>

record sc_table =
  tb_k :: "int list"
  tb_next :: "int list"
  tb_hash :: "int list"
  tb_type :: "int list"

record sc_heap =
  hp_tables :: "sc_table list"
  hp_slm :: "slm_state list"
  hp_llm :: "llm_state list"
  hp_lam :: "lam_state list"

record sc_state =
  ss_size :: nat
  ss_table :: nat
  ss_v :: "elem option list"
  ss_count :: nat
  ss_readOnly :: bool

definition tb_of :: "sc_heap \<Rightarrow> sc_state \<Rightarrow> sc_table" where
  "tb_of h s = hp_tables h ! ss_table s"

definition tb_upd :: "(sc_table \<Rightarrow> sc_table) \<Rightarrow> sc_heap \<times> sc_state \<Rightarrow> sc_heap \<times> sc_state" where
  "tb_upd f = (\<lambda>(h, s). (h\<lparr>hp_tables := (hp_tables h)[ss_table s := f (tb_of h s)]\<rparr>, s))"

definition tb_new :: "sc_table \<Rightarrow> sc_heap \<times> sc_state \<Rightarrow> sc_heap \<times> sc_state" where
  "tb_new t = (\<lambda>(h, s). (h\<lparr>hp_tables := hp_tables h @ [t]\<rparr>, s\<lparr>ss_table := length (hp_tables h)\<rparr>))"

definition v_at :: "int \<Rightarrow> sc_state \<Rightarrow> elem option" where
  "v_at m s = Option.bind (rd (ss_v s) (Some m)) (\<lambda>x. x)"

text \<open>A write beyond the end of the JavaScript array extends it.\<close>

definition v_set :: "nat \<Rightarrow> elem option \<Rightarrow> elem option list \<Rightarrow> elem option list" where
  "v_set i e v = (if i < length v then v[i := e] else v @ replicate (i - length v) None @ [e])"

definition deepClone :: "sc_heap \<times> sc_state \<Rightarrow> sc_heap \<times> sc_state" where
  "deepClone = (\<lambda>(h, s). let n = ss_size s; t = tb_of h s in
     tb_new \<lparr>tb_k = grown 0 n n (tb_k t), tb_next = grown 0 n n (tb_next t), tb_hash = grown 0 n n (tb_hash t),
             tb_type = grown 0 n n (tb_type t)\<rparr> (h, s\<lparr>ss_readOnly := False\<rparr>))"

definition softClone :: "sc_state \<Rightarrow> sc_state" where
  "softClone s = (let n = ss_size s in s\<lparr>ss_v := grown None n n (ss_v s), ss_readOnly := True\<rparr>)"

definition empty_table :: "nat \<Rightarrow> sc_table" where
  "empty_table n = \<lparr>tb_k = replicate n 0, tb_next = replicate n (-1), tb_hash = replicate n (-1), tb_type = replicate n 0\<rparr>"

subsection \<open>Reading\<close>

text \<open>The loop \<open>while (m >= 0)\<close> of the reads and the loop \<open>while (m != -1)\<close> of \<open>internal_set\<close>.\<close>

definition sc_entry :: "int \<Rightarrow> int \<Rightarrow> sc_heap \<Rightarrow> sc_state \<Rightarrow> int result" where
  "sc_entry key hashIndex h s =
     of_loop (chain_find (\<lambda>m. rd (tb_k (tb_of h s)) (Some m) = Some key) (tb_next (tb_of h s))
                (rd (tb_hash (tb_of h s)) (Some hashIndex)))"

definition sc_find :: "int \<Rightarrow> int \<Rightarrow> sc_heap \<Rightarrow> sc_state \<Rightarrow> int result" where
  "sc_find key hashIndex h s =
     of_loop (chain_find_ne (\<lambda>m. rd (tb_k (tb_of h s)) (Some m) = Some key) (tb_next (tb_of h s))
                (rd (tb_hash (tb_of h s)) (Some hashIndex)))"

definition ss_get :: "int \<Rightarrow> sc_heap \<Rightarrow> sc_state \<Rightarrow> elem option result" where
  "ss_get key h s =
     (if ss_size s = 0 then Inr None
      else bindr (longHash key (int (ss_size s))) (\<lambda>hashIndex.
           bindr (sc_entry key hashIndex h s) (\<lambda>m.
             Inr (if m \<ge> 0 then map_option (copy_out (rd (tb_type (tb_of h s)) (Some m))) (v_at m s) else None))))"

definition ss_getType :: "int \<Rightarrow> sc_heap \<Rightarrow> sc_state \<Rightarrow> jsnum result" where
  "ss_getType key h s =
     (if ss_size s = 0 then Inr (Some (-1))
      else bindr (longHash key (int (ss_size s))) (\<lambda>hashIndex.
           bindr (sc_entry key hashIndex h s) (\<lambda>m.
             Inr (if m \<ge> 0 then rd (tb_type (tb_of h s)) (Some m) else Some (-1)))))"

definition ss_each :: "sc_heap \<Rightarrow> sc_state \<Rightarrow> (jsnum \<times> jsnum \<times> elem) list" where
  "ss_each h s = concat (map (\<lambda>i. case v_at (int i) s of
       None \<Rightarrow> []
     | Some e \<Rightarrow> [(rd (tb_k (tb_of h s)) (Some (int i)), rd (tb_type (tb_of h s)) (Some (int i)), e)]) [0..<ss_count s])"

subsection \<open>Writing\<close>

text \<open>The larger state: all elements that have a value are entered in new buckets.\<close>

definition ss_grow :: "sc_heap \<times> sc_state \<Rightarrow> (sc_heap \<times> sc_state) result" where
  "ss_grow = (\<lambda>(h, s).
     let n = ss_size s; newLength = (if n = 0 then 1 else n * 2); t = tb_of h s;
         newElementK = (if n > 0 then grown 0 n newLength (tb_k t) else replicate newLength 0);
         newElementV = (if n > 0 then grown None n newLength (ss_v s) else replicate newLength None);
         newElementType = (if n > 0 then grown 0 n newLength (tb_type t) else replicate newLength 0)
     in bindr (relink None (\<lambda>i. newElementV ! i \<noteq> None) (\<lambda>i. hash_elem (rd newElementK (Some (int i))) (int newLength))
                 [0..<length newElementV] (replicate newLength (-1), replicate newLength (-1)))
          (\<lambda>(nx, hs). Inr (tb_new \<lparr>tb_k = newElementK, tb_next = nx, tb_hash = hs, tb_type = newElementType\<rparr>
             (h, s\<lparr>ss_size := newLength, ss_v := newElementV, ss_readOnly := False\<rparr>))))"

definition ss_append :: "int \<Rightarrow> int \<Rightarrow> elem option \<Rightarrow> int \<Rightarrow> sc_heap \<times> sc_state \<Rightarrow> sc_heap \<times> sc_state" where
  "ss_append key t e hashIndex = (\<lambda>(h, s).
     let newIndex = ss_count s;
         (h, s) = tb_upd (\<lambda>tb.
           let (nx, hs) = bucket_link None hashIndex (int newIndex) (tb_next tb, tb_hash tb)
           in tb\<lparr>tb_k := wr (tb_k tb) (Some (int newIndex)) key, tb_next := nx, tb_hash := hs,
                 tb_type := wr (tb_type tb) (Some (int newIndex)) (to_int8 t)\<rparr>) (h, s)
     in (h, s\<lparr>ss_count := newIndex + 1, ss_v := v_set newIndex e (ss_v s)\<rparr>))"

definition ss_replace :: "int \<Rightarrow> int \<Rightarrow> elem option \<Rightarrow> bool \<Rightarrow> sc_heap \<times> sc_state \<Rightarrow> sc_heap \<times> sc_state" where
  "ss_replace entry t e replaceIfPresent = (\<lambda>(h, s).
     if replaceIfPresent \<or> Some t \<noteq> rd (tb_type (tb_of h s)) (Some entry) then
       let s = s\<lparr>ss_v := v_set (nat entry) e (ss_v s)\<rparr>
       in if rd (tb_type (tb_of h s)) (Some entry) \<noteq> Some t
          then tb_upd (\<lambda>tb. tb\<lparr>tb_type := wr (tb_type tb) (Some entry) (to_int8 t)\<rparr>) (deepClone (h, s))
          else (h, s)
     else (h, s))"

definition ss_set :: "int \<Rightarrow> int \<Rightarrow> elem option \<Rightarrow> bool \<Rightarrow> sc_heap \<times> sc_state \<Rightarrow> (sc_heap \<times> sc_state) result" where
  "ss_set key t p_unsafe_elem replaceIfPresent = (\<lambda>(h, s).
     bindr (case p_unsafe_elem of None \<Rightarrow> Inr None | Some e \<Rightarrow> bindr (cast_elem t e) (\<lambda>e. Inr (Some e))) (\<lambda>param_elem.
     bindr (if ss_size s > 0
            then bindr (longHash key (int (ss_size s))) (\<lambda>hashIndex.
                 bindr (sc_find key hashIndex h s) (\<lambda>entry. Inr (entry, hashIndex)))
            else Inr (-1, -1)) (\<lambda>(entry, hashIndex).
       if entry = -1 then
         bindr (if 4 * (ss_count s + 1) > 3 * ss_size s
                then bindr (ss_grow (h, s)) (\<lambda>(h, s).
                     bindr (longHash key (int (ss_size s))) (\<lambda>hashIndex. Inr ((h, s), hashIndex)))
                else Inr (if ss_readOnly s then deepClone (h, s) else (h, s), hashIndex)) (\<lambda>(hs, hashIndex).
           Inr (ss_append key t param_elem hashIndex hs))
       else Inr (ss_replace entry t param_elem replaceIfPresent (h, s)))))"

subsection \<open>The chunk\<close>

record state_chunk =
  sc_world :: int
  sc_time :: int
  sc_id :: int
  sc_flags :: int
  sc_marks :: int
  sc_space :: bool
  sc_inLoadMode :: bool
  sc_state :: sc_state

text \<open>Marking: the result says whether \<open>declareDirty\<close> of the space is called.\<close>

definition sc_set_dirty :: "state_chunk \<Rightarrow> bool" where
  "sc_set_dirty c = (sc_space c \<and> js_and (sc_flags c) 1 \<noteq> 1)"

definition sc_declareDirty :: "state_chunk \<Rightarrow> bool" where
  "sc_declareDirty c = (\<not> sc_inLoadMode c \<and> sc_set_dirty c)"

definition sc_internal_set :: "int \<Rightarrow> int \<Rightarrow> elem option \<Rightarrow> bool \<Rightarrow> sc_heap \<times> state_chunk
    \<Rightarrow> ((sc_heap \<times> state_chunk) \<times> bool) result" where
  "sc_internal_set key t e replaceIfPresent = (\<lambda>(h, c).
     bindr (ss_set key t e replaceIfPresent (h, sc_state c)) (\<lambda>(h, s).
       let c = c\<lparr>sc_state := s\<rparr> in Inr ((h, c), sc_set_dirty c)))"

definition sc_set :: "int \<Rightarrow> int \<Rightarrow> elem option \<Rightarrow> sc_heap \<times> state_chunk \<Rightarrow> ((sc_heap \<times> state_chunk) \<times> bool) result" where
  "sc_set key t e w =
     (case e of
        Some x \<Rightarrow> if set_accepts t x then sc_internal_set key t e True w else Inl (usage_error t)
      | None \<Rightarrow> sc_internal_set key t e True w)"

definition sc_get :: "int \<Rightarrow> sc_heap \<times> state_chunk \<Rightarrow> elem option result" where
  "sc_get key = (\<lambda>(h, c). ss_get key h (sc_state c))"

definition sc_getType :: "int \<Rightarrow> sc_heap \<times> state_chunk \<Rightarrow> jsnum result" where
  "sc_getType key = (\<lambda>(h, c). ss_getType key h (sc_state c))"

definition sc_each :: "sc_heap \<times> state_chunk \<Rightarrow> (jsnum \<times> jsnum \<times> elem) list" where
  "sc_each = (\<lambda>(h, c). ss_each h (sc_state c))"

text \<open>The access by name, through the dictionary; reading does not add the name to it.\<close>

definition sc_getFromKey :: "jsstring \<Rightarrow> sc_heap \<times> state_chunk \<Rightarrow> elem option result" where
  "sc_getFromKey key w = bindr (string_to_hash key) (\<lambda>k. sc_get k w)"

definition sc_getFromKeyWithDefault :: "jsstring \<Rightarrow> elem option \<Rightarrow> sc_heap \<times> state_chunk \<Rightarrow> elem option result" where
  "sc_getFromKeyWithDefault key defaultValue w =
     bindr (sc_getFromKey key w) (\<lambda>r. Inr (if r = None then defaultValue else r))"

definition sc_getTypeFromKey :: "jsstring \<Rightarrow> sc_heap \<times> state_chunk \<Rightarrow> jsnum result" where
  "sc_getTypeFromKey key w = bindr (string_to_hash key) (\<lambda>k. sc_getType k w)"

text \<open>A new map object whose listener is the chunk.\<close>

definition new_map :: "int \<Rightarrow> sc_heap \<Rightarrow> (sc_heap \<times> elem) option" where
  "new_map t h =
     (if t = STRING_LONG_MAP then
        let (st, m) = mo_create (slm_new (nat MAP_INITIAL_CAPACITY)) True (hp_slm h) in Some (h\<lparr>hp_slm := st\<rparr>, EStringMap m)
      else if t = LONG_LONG_MAP then
        let (st, m) = mo_create (llm_new (nat MAP_INITIAL_CAPACITY)) True (hp_llm h) in Some (h\<lparr>hp_llm := st\<rparr>, ELongMap m)
      else if t = LONG_LONG_ARRAY_MAP then
        let (st, m) = mo_create (lam_new (nat MAP_INITIAL_CAPACITY)) True (hp_lam h) in Some (h\<lparr>hp_lam := st\<rparr>, EArrayMap m)
      else None)"

text \<open>The result, the state and whether the chunk was declared dirty.\<close>

definition sc_getOrCreate :: "int \<Rightarrow> int \<Rightarrow> sc_heap \<times> state_chunk \<Rightarrow> (elem option \<times> (sc_heap \<times> state_chunk) \<times> bool) result" where
  "sc_getOrCreate key t = (\<lambda>(h, c).
     bindr (sc_get key (h, c)) (\<lambda>previousObject.
     bindr (sc_getType key (h, c)) (\<lambda>previousType.
       if previousObject \<noteq> None \<and> previousType = Some t then Inr (previousObject, (h, c), False)
       else bindr (case new_map t h of
                     None \<Rightarrow> Inr ((h, c), False)
                   | Some (h, m) \<Rightarrow> sc_internal_set key t (Some m) False (h, c)) (\<lambda>(w, told).
            bindr (sc_get key w) (\<lambda>r. Inr (r, w, told))))))"

subsection \<open>Construction\<close>

text \<open>The maps of a clone are map objects of their own that share the states of the maps of the origin.\<close>

definition wrap_map :: "jsnum \<Rightarrow> elem \<Rightarrow> elem" where
  "wrap_map t e =
     (if t = Some LONG_LONG_MAP then (case e of ELongMap m \<Rightarrow> ELongMap (mo_copy True m) | _ \<Rightarrow> EUnsound)
      else if t = Some LONG_LONG_ARRAY_MAP then (case e of EArrayMap m \<Rightarrow> EArrayMap (mo_copy True m) | _ \<Rightarrow> EUnsound)
      else if t = Some STRING_LONG_MAP then (case e of EStringMap m \<Rightarrow> EStringMap (mo_copy True m) | _ \<Rightarrow> EUnsound)
      else e)"

definition wrap_maps :: "sc_heap \<Rightarrow> sc_state \<Rightarrow> sc_state" where
  "wrap_maps h s =
     foldl (\<lambda>s i. case v_at (int i) s of
         None \<Rightarrow> s
       | Some e \<Rightarrow> s\<lparr>ss_v := v_set i (Some (wrap_map (rd (tb_type (tb_of h s)) (Some (int i))) e)) (ss_v s)\<rparr>) s [0..<ss_count s]"

text \<open>The constructor without a payload: a clone of the origin, or an empty chunk.\<close>

definition HeapStateChunk :: "int \<Rightarrow> int \<Rightarrow> int \<Rightarrow> bool \<Rightarrow> state_chunk option \<Rightarrow> sc_heap \<Rightarrow> sc_heap \<times> state_chunk" where
  "HeapStateChunk p_world p_time p_id p_space origin h =
     (let (h, s) = (case origin of
            Some o' \<Rightarrow> (h, wrap_maps h (softClone (sc_state o')))
          | None \<Rightarrow>
              let n = nat MAP_INITIAL_CAPACITY
              in tb_new (empty_table n) (h, \<lparr>ss_size = n, ss_table = 0, ss_v = replicate n None, ss_count = 0, ss_readOnly = False\<rparr>))
      in (h, \<lparr>sc_world = p_world, sc_time = p_time, sc_id = p_id, sc_flags = 0, sc_marks = 0, sc_space = p_space,
              sc_inLoadMode = False, sc_state = s\<rparr>))"

end
