(* ===== verification/StateChunkSpec.thy ===== *)
theory StateChunkSpec
  imports StateChunk
begin

text \<open>
  The invariant of the state of a \<open>HeapStateChunk\<close>, the map it stands for, and what reading, growing, cloning and
  writing do to both.
\<close>

subsection \<open>The invariant and the map\<close>

text \<open>
  \<open>S\<close> are the slots in the buckets.  A slot with a value is one of them; a slot whose value was set to null stays in
  its bucket until the table grows.
\<close>

definition ss_slots :: "sc_table \<Rightarrow> nat \<Rightarrow> elem option list \<Rightarrow> nat \<Rightarrow> nat set \<Rightarrow> bool" where
  "ss_slots t n v cnt S \<longleftrightarrow>
     {i. i < cnt \<and> v ! i \<noteq> None} \<subseteq> S \<and> S \<subseteq> {..<cnt} \<and> inj_on ((!) (tb_k t)) S
     \<and> table longHash hashable (-1) n S ((!) (tb_k t)) (tb_next t) (tb_hash t)
     \<and> (\<forall>i < n. i \<notin> S \<longrightarrow> tb_next t ! i = -1)"

definition ss_wf :: "sc_heap \<Rightarrow> sc_state \<Rightarrow> bool" where
  "ss_wf h s \<longleftrightarrow> ss_table s < length (hp_tables h)
     \<and> length (tb_k (tb_of h s)) = ss_size s \<and> length (tb_type (tb_of h s)) = ss_size s \<and> length (ss_v s) = ss_size s
     \<and> ss_count s \<le> ss_size s \<and> (\<forall>i < ss_size s. ss_count s \<le> i \<longrightarrow> ss_v s ! i = None)
     \<and> (\<exists>S. ss_slots (tb_of h s) (ss_size s) (ss_v s) (ss_count s) S)"

lemma ss_wfD:
  assumes "ss_wf h s"
  shows "ss_table s < length (hp_tables h)" "length (tb_k (tb_of h s)) = ss_size s" "length (tb_type (tb_of h s)) = ss_size s"
    "length (ss_v s) = ss_size s" "ss_count s \<le> ss_size s" "\<forall>i < ss_size s. ss_count s \<le> i \<longrightarrow> ss_v s ! i = None"
    "length (tb_next (tb_of h s)) = ss_size s" "length (tb_hash (tb_of h s)) = ss_size s" "ss_size s < 2 ^ 31"
  using assms by (auto simp: ss_wf_def ss_slots_def table_def)

definition tv_pairs :: "sc_table \<Rightarrow> elem option list \<Rightarrow> nat \<Rightarrow> (int \<times> int \<times> elem) list" where
  "tv_pairs t v cnt = map (\<lambda>i. (tb_k t ! i, tb_type t ! i, the (v ! i))) (filter (\<lambda>i. v ! i \<noteq> None) [0..<cnt])"

definition ss_pairs :: "sc_heap \<Rightarrow> sc_state \<Rightarrow> (int \<times> int \<times> elem) list" where
  "ss_pairs h s = tv_pairs (tb_of h s) (ss_v s) (ss_count s)"

definition ss_abs :: "sc_heap \<Rightarrow> sc_state \<Rightarrow> int \<rightharpoonup> int \<times> elem" where
  "ss_abs h s = map_of (ss_pairs h s)"

lemma ss_pairs_distinct:
  assumes "ss_wf h s"
  shows "distinct (map fst (ss_pairs h s))"
proof -
  obtain S where S: "ss_slots (tb_of h s) (ss_size s) (ss_v s) (ss_count s) S" using assms by (auto simp: ss_wf_def)
  then have "inj_on ((!) (tb_k (tb_of h s))) {i. i < ss_count s \<and> ss_v s ! i \<noteq> None}"
    unfolding ss_slots_def by (blast intro: inj_on_subset)
  then show ?thesis
    by (simp add: ss_pairs_def tv_pairs_def comp_def distinct_map inj_on_def)
qed

lemma ss_abs_iff:
  assumes "ss_wf h s"
  shows "ss_abs h s k = Some (t, e) \<longleftrightarrow>
     (\<exists>i < ss_count s. tb_k (tb_of h s) ! i = k \<and> tb_type (tb_of h s) ! i = t \<and> ss_v s ! i = Some e)"
proof -
  have "ss_abs h s k = Some (t, e) \<longleftrightarrow> (k, t, e) \<in> set (ss_pairs h s)"
    unfolding ss_abs_def by (rule map_of_eq_Some_iff [OF ss_pairs_distinct [OF assms]])
  also have "\<dots> \<longleftrightarrow> (\<exists>i < ss_count s. tb_k (tb_of h s) ! i = k \<and> tb_type (tb_of h s) ! i = t \<and> ss_v s ! i = Some e)"
    by (force simp: ss_pairs_def tv_pairs_def)
  finally show ?thesis .
qed

lemma ss_abs_None:
  assumes "ss_wf h s"
  shows "ss_abs h s k = None \<longleftrightarrow> (\<forall>i < ss_count s. tb_k (tb_of h s) ! i = k \<longrightarrow> ss_v s ! i = None)"
proof -
  have "ss_abs h s k = None \<longleftrightarrow> (\<forall>t e. ss_abs h s k \<noteq> Some (t, e))" by (cases "ss_abs h s k") auto
  then show ?thesis unfolding ss_abs_iff [OF assms] by (metis not_None_eq)
qed

lemma ss_each_pairs:
  assumes "ss_wf h s"
  shows "ss_each h s = map (\<lambda>(k, t, e). (Some k, Some t, e)) (ss_pairs h s)"
proof -
  note w = ss_wfD [OF assms]
  have "concat (map (\<lambda>i. case v_at (int i) s of None \<Rightarrow> [] | Some e \<Rightarrow>
            [(rd (tb_k (tb_of h s)) (Some (int i)), rd (tb_type (tb_of h s)) (Some (int i)), e)]) [0..<n])
      = map (\<lambda>(k, t, e). (Some k, Some t, e)) (tv_pairs (tb_of h s) (ss_v s) n)" if "n \<le> ss_size s" for n
    using that
  proof (induction n)
    case (Suc n)
    then show ?case using w by (cases "ss_v s ! n") (simp_all add: tv_pairs_def v_at_def)
  qed (simp add: tv_pairs_def)
  then show ?thesis using w(5) by (simp add: ss_each_def ss_pairs_def)
qed

subsection \<open>Lookup\<close>

lemma ss_lookup:
  assumes "ss_slots (tb_of h s) (ss_size s) (ss_v s) (ss_count s) S" "ss_wf h s" "hashable k" "0 < ss_size s"
  shows "\<exists>m. sc_entry k (int (slot_of longHash (ss_size s) k)) h s = Inr m
      \<and> sc_find k (int (slot_of longHash (ss_size s) k)) h s = Inr m
      \<and> (if \<exists>i \<in> S. tb_k (tb_of h s) ! i = k then 0 \<le> m \<and> nat m \<in> S \<and> tb_k (tb_of h s) ! nat m = k else m = -1)"
proof -
  note w = ss_wfD [OF assms(2)]
  have t: "table longHash hashable (-1) (ss_size s) S ((!) (tb_k (tb_of h s))) (tb_next (tb_of h s)) (tb_hash (tb_of h s))"
    and S: "S \<subseteq> {..<ss_count s}" using assms(1) by (simp_all add: ss_slots_def)
  have "rd (tb_k (tb_of h s)) (Some (int i)) = Some k \<longleftrightarrow> tb_k (tb_of h s) ! i = k" if "i \<in> S" for i
    using that S w by (subst rd_nat) (auto simp: subset_eq)
  from key_hash.table_lookup [OF t assms(3,4), of "\<lambda>m. rd (tb_k (tb_of h s)) (Some m) = Some k", OF this]
  obtain m where m: "chain_find (\<lambda>m. rd (tb_k (tb_of h s)) (Some m) = Some k) (tb_next (tb_of h s))
      (rd (tb_hash (tb_of h s)) (Some (int (slot_of longHash (ss_size s) k)))) = Some m"
    "if \<exists>i \<in> S. tb_k (tb_of h s) ! i = k then 0 \<le> m \<and> nat m \<in> S \<and> tb_k (tb_of h s) ! nat m = k else m = -1" by blast
  show ?thesis using m key_hash.table_find_ne [OF t assms(3,4)] by (intro exI [of _ m]) (simp add: sc_entry_def sc_find_def)
qed

lemma ss_hash: "ss_wf h s \<Longrightarrow> hashable k \<Longrightarrow> 0 < ss_size s \<Longrightarrow>
   longHash k (int (ss_size s)) = Inr (int (slot_of longHash (ss_size s) k))"
  using key_hash.slot_of ss_wfD(9) by blast

lemma ss_get_abs:
  assumes "ss_wf h s" "hashable k"
  shows "ss_get k h s = Inr (map_option (\<lambda>(t, e). copy_out (Some t) e) (ss_abs h s k))"
proof (cases "ss_size s = 0")
  case True
  then show ?thesis using ss_wfD(5) [OF assms(1)] by (simp add: ss_get_def ss_abs_def ss_pairs_def tv_pairs_def)
next
  case False
  note w = ss_wfD [OF assms(1)]
  obtain S where S: "ss_slots (tb_of h s) (ss_size s) (ss_v s) (ss_count s) S" using assms by (auto simp: ss_wf_def)
  obtain m where m: "sc_entry k (int (slot_of longHash (ss_size s) k)) h s = Inr m"
    "if \<exists>i \<in> S. tb_k (tb_of h s) ! i = k then 0 \<le> m \<and> nat m \<in> S \<and> tb_k (tb_of h s) ! nat m = k else m = -1"
    using ss_lookup [OF S assms] False by blast
  have g: "ss_get k h s = Inr (if m \<ge> 0 then map_option (copy_out (rd (tb_type (tb_of h s)) (Some m))) (v_at m s) else None)"
    using False ss_hash [OF assms] m(1) by (simp add: ss_get_def)
  show ?thesis
  proof (cases "\<exists>i \<in> S. tb_k (tb_of h s) ! i = k")
    case True
    then have i: "0 \<le> m" "nat m \<in> S" "tb_k (tb_of h s) ! nat m = k" using m(2) by simp_all
    then have c: "nat m < ss_count s" using S by (auto simp: ss_slots_def)
    then have r: "rd (tb_type (tb_of h s)) (Some m) = Some (tb_type (tb_of h s) ! nat m)" "v_at m s = ss_v s ! nat m"
      using i(1) w by (auto simp: rd_Some v_at_def)
    show ?thesis
    proof (cases "ss_v s ! nat m")
      case None
      have "ss_v s ! i = None" if "i < ss_count s" "tb_k (tb_of h s) ! i = k" for i
      proof (rule ccontr)
        assume "ss_v s ! i \<noteq> None"
        then have "i \<in> S" using S that by (auto simp: ss_slots_def)
        then have "i = nat m" using S that i by (auto simp: ss_slots_def dest: inj_onD)
        then show False using None \<open>ss_v s ! i \<noteq> None\<close> by simp
      qed
      then show ?thesis using g i(1) r None ss_abs_None [OF assms(1), of k] by simp
    next
      case (Some e)
      then have "ss_abs h s k = Some (tb_type (tb_of h s) ! nat m, e)" using ss_abs_iff [OF assms(1)] c i by blast
      then show ?thesis using g i(1) r Some by simp
    qed
  next
    case False
    then have "m = -1" "ss_abs h s k = None"
      using m(2) ss_abs_None [OF assms(1)] S by (auto simp: ss_slots_def split: if_splits)
    then show ?thesis using g by simp
  qed
qed

text \<open>The type of the slot of a key, with a value or not.\<close>

lemma ss_getType_slot:
  assumes S: "ss_slots (tb_of h s) (ss_size s) (ss_v s) (ss_count s) S" and s: "ss_wf h s" and k: "hashable k"
  shows "i \<in> S \<Longrightarrow> tb_k (tb_of h s) ! i = k \<Longrightarrow> ss_getType k h s = Inr (Some (tb_type (tb_of h s) ! i))"
    and "\<not> (\<exists>i \<in> S. tb_k (tb_of h s) ! i = k) \<Longrightarrow> ss_getType k h s = Inr (Some (-1))"
proof -
  note w = ss_wfD [OF s]
  assume i: "i \<in> S" "tb_k (tb_of h s) ! i = k"
  then have n: "0 < ss_size s" using S w(5) by (auto simp: ss_slots_def)
  obtain m where m: "sc_entry k (int (slot_of longHash (ss_size s) k)) h s = Inr m" "0 \<le> m" "nat m \<in> S" "tb_k (tb_of h s) ! nat m = k"
    using ss_lookup [OF S s k n] bexI [of "\<lambda>i. tb_k (tb_of h s) ! i = k", OF i(2,1)] by (auto simp only: if_True split: if_splits)
  then have "nat m = i" using S i by (auto simp: ss_slots_def dest: inj_onD)
  moreover have "nat m < ss_size s" using S m(3) w(5) by (auto simp: ss_slots_def subset_eq)
  ultimately show "ss_getType k h s = Inr (Some (tb_type (tb_of h s) ! i))"
    using n m(1,2) ss_hash [OF s k n] w(3) by (auto simp: ss_getType_def rd_Some)
next
  assume a: "\<not> (\<exists>i \<in> S. tb_k (tb_of h s) ! i = k)"
  show "ss_getType k h s = Inr (Some (-1))"
  proof (cases "ss_size s = 0")
    case False
    then have "sc_entry k (int (slot_of longHash (ss_size s) k)) h s = Inr (-1)"
      using ss_lookup [OF S s k] a by auto
    then show ?thesis using False ss_hash [OF s k] by (simp add: ss_getType_def)
  qed (simp add: ss_getType_def)
qed

subsection \<open>Cloning\<close>

lemma tb_new_of [simp]: "tb_new t (h, s) = (h', s') \<Longrightarrow> tb_of h' s' = t"
  by (auto simp: tb_new_def tb_of_def)

lemma deepClone_eq:
  assumes "ss_wf h s"
  shows "deepClone (h, s) = (h\<lparr>hp_tables := hp_tables h @ [tb_of h s]\<rparr>,
           s\<lparr>ss_table := length (hp_tables h), ss_readOnly := False\<rparr>)"
  using ss_wfD [OF assms] by (simp add: deepClone_def tb_new_def Let_def)

lemma ss_wf_cong:
  assumes "ss_wf h s" "ss_table s' < length (hp_tables h')" "tb_of h' s' = tb_of h s" "ss_v s' = ss_v s" "ss_size s' = ss_size s"
    "ss_count s' = ss_count s"
  shows "ss_wf h' s' \<and> ss_abs h' s' = ss_abs h s \<and> ss_pairs h' s' = ss_pairs h s"
  using assms by (simp add: ss_wf_def ss_abs_def ss_pairs_def)

subsection \<open>Growing\<close>

lemma tv_pairs_cong:
  "(\<And>i. i < n \<Longrightarrow> v' ! i = v ! i \<and> (v ! i \<noteq> None \<longrightarrow> tb_k t' ! i = tb_k t ! i \<and> tb_type t' ! i = tb_type t ! i)) \<Longrightarrow>
   tv_pairs t' v' n = tv_pairs t v n"
proof -
  assume a: "\<And>i. i < n \<Longrightarrow> v' ! i = v ! i \<and> (v ! i \<noteq> None \<longrightarrow> tb_k t' ! i = tb_k t ! i \<and> tb_type t' ! i = tb_type t ! i)"
  have "filter (\<lambda>i. v' ! i \<noteq> None) [0..<n] = filter (\<lambda>i. v ! i \<noteq> None) [0..<n]" using a by (intro filter_cong) auto
  then show ?thesis unfolding tv_pairs_def using a by (intro map_cong) auto
qed

lemma ss_grow:
  assumes s: "ss_wf h s" and room: "2 * ss_size s < 2 ^ 31"
  shows "\<exists>h' s'. ss_grow (h, s) = Inr (h', s') \<and> ss_wf h' s' \<and> ss_abs h' s' = ss_abs h s
    \<and> ss_slots (tb_of h' s') (ss_size s') (ss_v s') (ss_count s') {i. i < ss_count s' \<and> ss_v s' ! i \<noteq> None}
    \<and> ss_size s' = (if ss_size s = 0 then 1 else ss_size s * 2) \<and> ss_count s' = ss_count s \<and> \<not> ss_readOnly s'
    \<and> ss_table s' = length (hp_tables h) \<and> (\<exists>t. h' = h\<lparr>hp_tables := hp_tables h @ [t]\<rparr>)"
proof -
  note w = ss_wfD [OF s]
  define n where "n = ss_size s"
  define N where "N = (if n = 0 then 1 else n * 2)"
  define t where "t = tb_of h s"
  define K where "K = (if n > 0 then grown 0 n N (tb_k t) else replicate N 0)"
  define V where "V = (if n > 0 then grown None n N (ss_v s) else replicate N None)"
  define T where "T = (if n > 0 then grown 0 n N (tb_type t) else replicate N 0)"
  obtain S where S: "ss_slots t n (ss_v s) (ss_count s) S" using s by (auto simp: ss_wf_def t_def n_def)
  have N: "0 < N" "n \<le> N" "N < 2 ^ 31" "n = 0 \<or> n > 0" using room by (auto simp: N_def n_def)
  have len: "length K = N" "length V = N" "length T = N" using w N(2) by (auto simp: K_def V_def T_def t_def n_def)
  have at: "K ! i = tb_k t ! i" "V ! i = ss_v s ! i" "T ! i = tb_type t ! i" if "i < n" for i
    using that w N(2) by (auto simp: K_def V_def T_def t_def n_def)
  have out: "V ! i = None" if "ss_count s \<le> i" "i < N" for i
  proof (cases "i < n")
    case True
    then show ?thesis using at(2) [OF True] w(6) that by (simp add: n_def)
  next
    case False
    then show ?thesis using that w(4) N by (auto simp: V_def n_def)
  qed
  let ?L = "{i. i < ss_count s \<and> V ! i \<noteq> None}"
  have LS: "?L \<subseteq> S" using S at(2) w(5) by (auto simp: ss_slots_def n_def)
  have live: "{i. i < N \<and> V ! i \<noteq> None} = ?L" using out w(5) N(2) by (auto simp: n_def not_less) (metis leI option.distinct(1))
  have keyS: "hashable (tb_k t ! i)" if "i \<in> S" for i using S that by (simp add: ss_slots_def table_def)
  have Ln: "i < n" if "i \<in> ?L" for i using that w(5) by (auto simp: n_def)
  have hash: "hashable (K ! i) \<and> hash_elem (rd K (Some (int i))) (int N) = longHash (K ! i) (int N)"
    if "i < N" "V ! i \<noteq> None" for i
  proof -
    have "i \<in> ?L" using that live by blast
    then have "i \<in> S" "i < n" using LS Ln by blast+
    then show ?thesis using keyS at(1) len(1) that(1) by simp
  qed
  obtain nx hs where r: "relink None (\<lambda>i. V ! i \<noteq> None) (\<lambda>i. hash_elem (rd K (Some (int i))) (int N)) [0..<N]
        (replicate N (-1), replicate N (-1)) = Inr (nx, hs)"
    "table longHash hashable (-1) N ?L ((!) K) nx hs" "\<forall>j < N. j < N \<and> V ! j \<noteq> None \<or> nx ! j = -1"
    using key_hash.table_relink [of N N "\<lambda>i. V ! i \<noteq> None" "(!) K" "\<lambda>i. hash_elem (rd K (Some (int i))) (int N)" "-1" None]
      N hash unfolding live by auto
  define t' where "t' = \<lparr>tb_k = K, tb_next = nx, tb_hash = hs, tb_type = T\<rparr>"
  define h' where "h' = h\<lparr>hp_tables := hp_tables h @ [t']\<rparr>"
  define s' where "s' = s\<lparr>ss_size := N, ss_v := V, ss_readOnly := False, ss_table := length (hp_tables h)\<rparr>"
  have g: "ss_grow (h, s) = Inr (h', s')"
    unfolding ss_grow_def prod.case Let_def n_def [symmetric] t_def [symmetric]
    unfolding N_def [symmetric] unfolding K_def [symmetric] V_def [symmetric] T_def [symmetric] len(2) r(1)
    by (simp add: tb_new_def h'_def s'_def t'_def)
  have tb: "tb_of h' s' = t'" by (simp add: tb_of_def h'_def s'_def)
  have sl: "ss_slots t' N V (ss_count s) ?L"
    unfolding ss_slots_def
  proof (intro conjI)
    have "inj_on ((!) (tb_k t)) ?L" using S LS by (auto simp: ss_slots_def intro: inj_on_subset)
    then show "inj_on ((!) (tb_k t')) ?L" using at(1) Ln by (simp add: t'_def inj_on_def)
    show "table longHash hashable (-1) N ?L ((!) (tb_k t')) (tb_next t') (tb_hash t')" using r(2) by (simp add: t'_def)
    show "\<forall>i < N. i \<notin> ?L \<longrightarrow> tb_next t' ! i = -1" using r(3) live by (auto simp: t'_def)
  qed auto
  have "ss_wf h' s'"
    unfolding ss_wf_def tb
  proof (intro conjI)
    show "\<exists>S. ss_slots t' (ss_size s') (ss_v s') (ss_count s') S" using sl by (auto simp: s'_def)
  qed (use len w(5) N(2) out in \<open>auto simp: s'_def h'_def t'_def n_def\<close>)
  moreover have "ss_pairs h' s' = ss_pairs h s"
    unfolding ss_pairs_def tb unfolding t_def [symmetric]
    using at w(5) by (auto simp: s'_def t'_def n_def intro!: tv_pairs_cong)
  moreover have "ss_size s' = (if ss_size s = 0 then 1 else ss_size s * 2)" by (simp add: s'_def N_def n_def)
  moreover have "ss_v s' = V" "ss_count s' = ss_count s" "\<not> ss_readOnly s'" "ss_table s' = length (hp_tables h)" "ss_size s' = N"
    by (simp_all add: s'_def)
  moreover have "\<exists>t. h' = h\<lparr>hp_tables := hp_tables h @ [t]\<rparr>" unfolding h'_def by blast
  ultimately show ?thesis
    using g sl tb by (intro exI [of _ h'] exI [of _ s']) (simp add: ss_abs_def)
qed

subsection \<open>Writing\<close>

lemma tb_upd_own:
  assumes "ss_table s < length (hp_tables h)"
  shows "tb_upd f (h, s) = (h\<lparr>hp_tables := (hp_tables h)[ss_table s := f (tb_of h s)]\<rparr>, s)"
    "tb_of (h\<lparr>hp_tables := (hp_tables h)[ss_table s := f (tb_of h s)]\<rparr>) s = f (tb_of h s)"
  using assms by (simp_all add: tb_upd_def tb_of_def)

text \<open>A new slot for a key that has none.\<close>

lemma ss_append:
  fixes h :: sc_heap and s :: sc_state and t :: int and e :: "elem option"
  assumes s: "ss_wf h s" "ss_slots (tb_of h s) (ss_size s) (ss_v s) (ss_count s) S"
    and k: "hashable k" "\<forall>i \<in> S. tb_k (tb_of h s) ! i \<noteq> k" and room: "ss_count s < ss_size s"
  defines "w \<equiv> ss_append k t e (int (slot_of longHash (ss_size s) k)) (h, s)"
  shows "ss_wf (fst w) (snd w) \<and> ss_abs (fst w) (snd w) = (case e of None \<Rightarrow> ss_abs h s | Some x \<Rightarrow> (ss_abs h s)(k \<mapsto> (to_int8 t, x)))
    \<and> ss_table (snd w) = ss_table s \<and> ss_readOnly (snd w) = ss_readOnly s \<and> ss_size (snd w) = ss_size s
    \<and> (\<exists>t'. fst w = h\<lparr>hp_tables := (hp_tables h)[ss_table s := t']\<rparr>)"
proof -
  note l = ss_wfD [OF s(1)]
  define tb where "tb = tb_of h s"
  define n where "n = ss_size s"
  define c where "c = ss_count s"
  have S: "{i. i < c \<and> ss_v s ! i \<noteq> None} \<subseteq> S" "S \<subseteq> {..<c}" "inj_on ((!) (tb_k tb)) S"
    "table longHash hashable (-1) n S ((!) (tb_k tb)) (tb_next tb) (tb_hash tb)" "\<forall>i < n. i \<notin> S \<longrightarrow> tb_next tb ! i = -1"
    using s(2) by (simp_all add: ss_slots_def tb_def n_def c_def)
  have c: "c < n" "c \<notin> S" using room S(2) by (auto simp: c_def n_def)
  define K where "K = (tb_k tb)[c := k]"
  have K: "K ! c = k" "\<And>j. j \<in> S \<Longrightarrow> K ! j = tb_k tb ! j" "length K = n"
    using c l(2) by (auto simp: K_def tb_def n_def nth_list_update)
  obtain nx hs where b: "bucket_link None (int (slot_of longHash n k)) (int c) (tb_next tb, tb_hash tb) = (nx, hs)"
    "table longHash hashable (-1) n (insert c S) ((!) K) nx hs" "\<forall>j. j \<noteq> c \<longrightarrow> nx ! j = tb_next tb ! j"
    using key_hash.table_insert [OF S(4) c(2,1) k(1), of "(!) K" None] K S(5) c by auto
  define T where "T = (tb_type tb)[c := to_int8 t]"
  define tb' where "tb' = tb\<lparr>tb_k := K, tb_next := nx, tb_hash := hs, tb_type := T\<rparr>"
  define h' where "h' = h\<lparr>hp_tables := (hp_tables h)[ss_table s := tb']\<rparr>"
  define v where "v = (ss_v s)[c := e]"
  define s' where "s' = s\<lparr>ss_count := c + 1, ss_v := v\<rparr>"
  have len: "length (tb_k tb) = n" "length (tb_type tb) = n" "length (ss_v s) = n" using l by (simp_all add: tb_def n_def)
  have w: "w = (h', s')"
    using b(1) c(1) len l(1)
    by (simp add: w_def ss_append_def Let_def tb_upd_own c_def [symmetric] n_def [symmetric] tb_def [symmetric]
        h'_def s'_def tb'_def K_def T_def v_set_def v_def)
  have tb_w: "tb_of h' s' = tb'" using l(1) by (simp add: tb_of_def h'_def s'_def)
  have v: "v ! c = e" "\<And>i. i \<noteq> c \<Longrightarrow> v ! i = ss_v s ! i" "length v = n" using c(1) len by (auto simp: v_def)
  have T: "T ! c = to_int8 t" "\<And>i. i \<noteq> c \<Longrightarrow> T ! i = tb_type tb ! i" "length T = n" using c(1) len by (auto simp: T_def)
  have "ss_slots tb' n v (c + 1) (insert c S)"
    unfolding ss_slots_def
  proof (intro conjI)
    show "{i. i < c + 1 \<and> v ! i \<noteq> None} \<subseteq> insert c S"
    proof
      fix i assume "i \<in> {i. i < c + 1 \<and> v ! i \<noteq> None}"
      then show "i \<in> insert c S" using S(1) v(2) [of i] by (cases "i = c") auto
    qed
    have "\<forall>i \<in> S. K ! i \<noteq> k" using K(2) k(2) by (simp add: tb_def)
    then show "inj_on ((!) (tb_k tb')) (insert c S)" using S(3) K c(2) by (auto simp: tb'_def inj_on_def)
    show "table longHash hashable (-1) n (insert c S) ((!) (tb_k tb')) (tb_next tb') (tb_hash tb')" using b(2) by (simp add: tb'_def)
    show "\<forall>i < n. i \<notin> insert c S \<longrightarrow> tb_next tb' ! i = -1" using b(3) S(5) by (simp add: tb'_def)
    show "insert c S \<subseteq> {..<c + 1}" using S(2) by auto
  qed
  then have "\<exists>S. ss_slots tb' (ss_size s') (ss_v s') (ss_count s') S" by (auto simp: s'_def n_def)
  moreover have "ss_v s' ! i = None" if "i < ss_size s'" "ss_count s' \<le> i" for i
    using that l(6) v(2) [of i] by (simp add: s'_def c_def)
  ultimately have wf: "ss_wf h' s'"
    unfolding ss_wf_def tb_w using c(1) l(1) K(3) T(3) v(3) by (simp add: s'_def h'_def tb'_def n_def)
  have pre: "tv_pairs tb' v c = tv_pairs tb (ss_v s) c"
    using v(2) T(2) K(2) S(1) by (intro tv_pairs_cong) (auto simp: tb'_def)
  have "tv_pairs tb' v (c + 1) = tv_pairs tb' v c @ (case e of None \<Rightarrow> [] | Some x \<Rightarrow> [(k, to_int8 t, x)])"
    using v(1) T(1) K(1) by (simp add: tv_pairs_def tb'_def split: option.split)
  moreover have "ss_pairs h' s' = tv_pairs tb' v (c + 1)" "ss_pairs h s = tv_pairs tb (ss_v s) c"
    unfolding ss_pairs_def tb_w tb_def [symmetric] c_def [symmetric] by (simp_all add: s'_def)
  ultimately have p: "ss_pairs h' s' = ss_pairs h s @ (case e of None \<Rightarrow> [] | Some x \<Rightarrow> [(k, to_int8 t, x)])"
    unfolding pre by simp
  have "ss_abs h s k = None"
    using ss_abs_None [OF s(1), of k] k(2) S(1) by (auto simp: tb_def c_def)
  then have "ss_abs h' s' = (case e of None \<Rightarrow> ss_abs h s | Some x \<Rightarrow> (ss_abs h s)(k \<mapsto> (to_int8 t, x)))"
    unfolding ss_abs_def p by (cases e) (simp_all add: map_of_snoc del: map_of_append)
  then show ?thesis unfolding w using wf by (simp add: s'_def h'_def) blast
qed

lemma option_pair_eqI: "(\<And>u x. a = Some (u, x) \<longleftrightarrow> b = Some (u, x)) \<Longrightarrow> a = b"
  by (cases a; cases b) auto

text \<open>A new value for a slot.\<close>

lemma ss_value:
  assumes s: "ss_wf h s" "ss_slots (tb_of h s) (ss_size s) (ss_v s) (ss_count s) S" and i: "i \<in> S"
    and t: "ss_table s' < length (hp_tables h')" "ss_size s' = ss_size s" "ss_count s' = ss_count s" "ss_v s' = (ss_v s)[i := e]"
    "tb_of h' s' = (tb_of h s)\<lparr>tb_type := (tb_type (tb_of h s))[i := t]\<rparr>"
  shows "ss_wf h' s' \<and> ss_abs h' s' = (ss_abs h s)(tb_k (tb_of h s) ! i := map_option (\<lambda>x. (t, x)) e)"
proof -
  note l = ss_wfD [OF s(1)]
  let ?tb = "tb_of h s"
  have S: "{i. i < ss_count s \<and> ss_v s ! i \<noteq> None} \<subseteq> S" "S \<subseteq> {..<ss_count s}" "inj_on ((!) (tb_k ?tb)) S"
    using s(2) by (simp_all add: ss_slots_def)
  have ic: "i < ss_count s" "i < ss_size s" using i S(2) l(5) by auto
  have v: "ss_v s' ! i = e" "\<And>j. j \<noteq> i \<Longrightarrow> ss_v s' ! j = ss_v s ! j" using t(4) ic(2) l(4) by auto
  have "{j. j < ss_count s \<and> ss_v s' ! j \<noteq> None} \<subseteq> S"
  proof
    fix j assume "j \<in> {j. j < ss_count s \<and> ss_v s' ! j \<noteq> None}"
    then show "j \<in> S" using S(1) i v(2) [of j] by (cases "j = i") auto
  qed
  then have "ss_slots (tb_of h' s') (ss_size s') (ss_v s') (ss_count s') S"
    using s(2) t by (simp add: ss_slots_def)
  moreover have "ss_v s' ! j = None" if "j < ss_size s'" "ss_count s' \<le> j" for j
    using that l(6) v(2) [of j] ic t by simp
  ultimately have wf: "ss_wf h' s'" unfolding ss_wf_def using l t by auto
  have "ss_abs h' s' k = ((ss_abs h s)(tb_k ?tb ! i := map_option (\<lambda>x. (t, x)) e)) k" for k
  proof -
    have iff: "ss_abs h' s' k = Some (u, x) \<longleftrightarrow> ((ss_abs h s)(tb_k ?tb ! i := map_option (\<lambda>x. (t, x)) e)) k = Some (u, x)" for u x
    proof -
      have "ss_abs h' s' k = Some (u, x) \<longleftrightarrow>
          (\<exists>j < ss_count s. tb_k ?tb ! j = k \<and> (tb_type ?tb)[i := t] ! j = u \<and> ss_v s' ! j = Some x)"
        unfolding ss_abs_iff [OF wf] using t by simp
      also have "\<dots> \<longleftrightarrow> ((ss_abs h s)(tb_k ?tb ! i := map_option (\<lambda>x. (t, x)) e)) k = Some (u, x)"
      proof (cases "k = tb_k ?tb ! i")
        case True
        have "j = i" if "j < ss_count s" "tb_k ?tb ! j = k" "ss_v s' ! j \<noteq> None" for j
        proof (rule ccontr)
          assume "j \<noteq> i"
          then have "j \<in> S" using that v(2) [of j] S(1) by auto
          then show False using \<open>j \<noteq> i\<close> i S(3) that(2) True by (auto dest: inj_onD)
        qed
        then have "(\<exists>j < ss_count s. tb_k ?tb ! j = k \<and> (tb_type ?tb)[i := t] ! j = u \<and> ss_v s' ! j = Some x)
            \<longleftrightarrow> tb_k ?tb ! i = k \<and> (tb_type ?tb)[i := t] ! i = u \<and> ss_v s' ! i = Some x"
          using ic(1) by (metis option.distinct(1))
        also have "\<dots> \<longleftrightarrow> t = u \<and> e = Some x" using ic l(3) v(1) True by simp
        finally have "(\<exists>j < ss_count s. tb_k ?tb ! j = k \<and> (tb_type ?tb)[i := t] ! j = u \<and> ss_v s' ! j = Some x)
            \<longleftrightarrow> t = u \<and> e = Some x" .
        then show ?thesis using True by (cases e) auto
      next
        case False
        have "(\<exists>j < ss_count s. tb_k ?tb ! j = k \<and> (tb_type ?tb)[i := t] ! j = u \<and> ss_v s' ! j = Some x)
            \<longleftrightarrow> (\<exists>j < ss_count s. tb_k ?tb ! j = k \<and> tb_type ?tb ! j = u \<and> ss_v s ! j = Some x)"
          using False v(2) by (metis nth_list_update_neq)
        then show ?thesis using False ss_abs_iff [OF s(1), of k u x] by simp
      qed
      finally show ?thesis .
    qed
    show ?thesis using iff by (rule option_pair_eqI)
  qed
  then show ?thesis using wf by blast
qed

text \<open>
  What a write leaves alone: the states of the maps, and the tables of other states; a state whose table is
  read-only moves to a table of its own before it is changed.
\<close>

definition sc_frame :: "sc_heap \<Rightarrow> sc_state \<Rightarrow> sc_heap \<Rightarrow> sc_state \<Rightarrow> bool" where
  "sc_frame h s h' s' \<longleftrightarrow>
     length (hp_tables h) \<le> length (hp_tables h')
     \<and> (\<forall>r < length (hp_tables h). r \<noteq> ss_table s \<or> ss_readOnly s \<longrightarrow> hp_tables h' ! r = hp_tables h ! r)
     \<and> hp_slm h' = hp_slm h \<and> hp_llm h' = hp_llm h \<and> hp_lam h' = hp_lam h
     \<and> (ss_table s' = ss_table s \<and> ss_readOnly s' = ss_readOnly s \<or> length (hp_tables h) \<le> ss_table s' \<and> \<not> ss_readOnly s')"

lemma sc_frame_refl [simp]: "ss_table s' = ss_table s \<Longrightarrow> ss_readOnly s' = ss_readOnly s \<Longrightarrow> sc_frame h s h s'"
  by (simp add: sc_frame_def)

lemma sc_frame_new:
  "ss_table s' = length (hp_tables h) \<Longrightarrow> \<not> ss_readOnly s' \<Longrightarrow> sc_frame h s (h\<lparr>hp_tables := hp_tables h @ [t]\<rparr>) s'"
  by (simp add: sc_frame_def nth_append)

lemma sc_frame_own:
  "\<not> ss_readOnly s \<Longrightarrow> ss_table s' = ss_table s \<Longrightarrow> \<not> ss_readOnly s' \<Longrightarrow>
   sc_frame h s (h\<lparr>hp_tables := (hp_tables h)[ss_table s := t]\<rparr>) s'"
  by (simp add: sc_frame_def nth_list_update)

lemma sc_frame_trans:
  assumes "sc_frame h s h' s'" "sc_frame h' s' h'' s''" "ss_table s' < length (hp_tables h')"
  shows "sc_frame h s h'' s''"
  using assms unfolding sc_frame_def by (auto dest: le_trans less_le_trans)

text \<open>The copy of a table before a write.\<close>

lemma ss_own_table:
  assumes "ss_wf h s"
  defines "w \<equiv> if ss_readOnly s then deepClone (h, s) else (h, s)"
  shows "ss_wf (fst w) (snd w) \<and> ss_abs (fst w) (snd w) = ss_abs h s \<and> tb_of (fst w) (snd w) = tb_of h s
    \<and> ss_v (snd w) = ss_v s \<and> ss_size (snd w) = ss_size s \<and> ss_count (snd w) = ss_count s
    \<and> \<not> ss_readOnly (snd w) \<and> sc_frame h s (fst w) (snd w)"
proof (cases "ss_readOnly s")
  case True
  let ?h = "h\<lparr>hp_tables := hp_tables h @ [tb_of h s]\<rparr>" and ?s = "s\<lparr>ss_table := length (hp_tables h), ss_readOnly := False\<rparr>"
  have w: "w = (?h, ?s)" unfolding w_def using True deepClone_eq [OF assms(1)] by simp
  have t: "tb_of ?h ?s = tb_of h s" by (simp add: tb_of_def)
  have "ss_wf ?h ?s \<and> ss_abs ?h ?s = ss_abs h s \<and> ss_pairs ?h ?s = ss_pairs h s" by (rule ss_wf_cong [OF assms(1)]) (simp_all add: t)
  moreover have "sc_frame h s ?h ?s" by (rule sc_frame_new) simp_all
  ultimately show ?thesis unfolding w using t by simp
next
  case False
  then show ?thesis using assms(1) by (simp add: w_def)
qed

lemma ss_set_absent:
  assumes s: "ss_wf h s" "ss_slots (tb_of h s) (ss_size s) (ss_v s) (ss_count s) S"
    and k: "hashable k" "\<forall>i \<in> S. tb_k (tb_of h s) ! i \<noteq> k" and room: "2 * ss_size s < 2 ^ 31"
  shows "\<exists>h' s'. bindr (if 4 * (ss_count s + 1) > 3 * ss_size s
                then bindr (ss_grow (h, s)) (\<lambda>(h, s).
                     bindr (longHash k (int (ss_size s))) (\<lambda>hashIndex. Inr ((h, s), hashIndex)))
                else Inr (if ss_readOnly s then deepClone (h, s) else (h, s), int (slot_of longHash (ss_size s) k)))
             (\<lambda>(hs, hashIndex). Inr (ss_append k t e hashIndex hs)) = Inr (h', s')
     \<and> ss_wf h' s' \<and> ss_abs h' s' = (case e of None \<Rightarrow> ss_abs h s | Some x \<Rightarrow> (ss_abs h s)(k \<mapsto> (to_int8 t, x)))
     \<and> sc_frame h s h' s'"
proof -
  obtain h1 s1 S1 where one: "(if 4 * (ss_count s + 1) > 3 * ss_size s
                then bindr (ss_grow (h, s)) (\<lambda>(h, s).
                     bindr (longHash k (int (ss_size s))) (\<lambda>hashIndex. Inr ((h, s), hashIndex)))
                else Inr (if ss_readOnly s then deepClone (h, s) else (h, s), int (slot_of longHash (ss_size s) k)))
        = Inr ((h1, s1), int (slot_of longHash (ss_size s1) k))"
    and w1: "ss_wf h1 s1" "ss_slots (tb_of h1 s1) (ss_size s1) (ss_v s1) (ss_count s1) S1"
      "\<forall>i \<in> S1. tb_k (tb_of h1 s1) ! i \<noteq> k" "ss_count s1 < ss_size s1" "ss_abs h1 s1 = ss_abs h s" "\<not> ss_readOnly s1"
      "sc_frame h s h1 s1"
  proof (cases "4 * (ss_count s + 1) > 3 * ss_size s")
    case True
    obtain h1 s1 where g: "ss_grow (h, s) = Inr (h1, s1)" "ss_wf h1 s1" "ss_abs h1 s1 = ss_abs h s"
      "ss_slots (tb_of h1 s1) (ss_size s1) (ss_v s1) (ss_count s1) {i. i < ss_count s1 \<and> ss_v s1 ! i \<noteq> None}"
      "ss_size s1 = (if ss_size s = 0 then 1 else ss_size s * 2)" "ss_count s1 = ss_count s" "\<not> ss_readOnly s1"
      "ss_table s1 = length (hp_tables h)" "\<exists>t. h1 = h\<lparr>hp_tables := hp_tables h @ [t]\<rparr>"
      using ss_grow [OF s(1) room] by blast
    have "0 < ss_size s1" "ss_count s1 < ss_size s1" using g(5,6) ss_wfD(5) [OF s(1)] by (simp_all split: if_splits)
    moreover have "tb_k (tb_of h1 s1) ! i \<noteq> k" if "i \<in> {i. i < ss_count s1 \<and> ss_v s1 ! i \<noteq> None}" for i
    proof
      assume e: "tb_k (tb_of h1 s1) ! i = k"
      have "\<not> (\<forall>j < ss_count s1. tb_k (tb_of h1 s1) ! j = k \<longrightarrow> ss_v s1 ! j = None)"
        using that e by (intro notI) (drule spec [of _ i], simp)
      then have "ss_abs h s k \<noteq> None" using ss_abs_None [OF g(2), of k] g(3) by simp
      then obtain j where "j < ss_count s" "tb_k (tb_of h s) ! j = k" "ss_v s ! j \<noteq> None"
        unfolding ss_abs_None [OF s(1)] by auto
      then show False using k(2) s(2) unfolding ss_slots_def by blast
    qed
    moreover have "sc_frame h s h1 s1" using g(7-9) sc_frame_new by blast
    ultimately show ?thesis
      using True g ss_hash [OF g(2) k(1)]
      by (intro that [of h1 s1 "{i. i < ss_count s1 \<and> ss_v s1 ! i \<noteq> None}"]) simp_all
  next
    case False
    obtain h1 s1 where w: "(if ss_readOnly s then deepClone (h, s) else (h, s)) = (h1, s1)" by (metis surj_pair)
    have o: "ss_wf h1 s1" "ss_abs h1 s1 = ss_abs h s" "tb_of h1 s1 = tb_of h s" "ss_v s1 = ss_v s" "ss_size s1 = ss_size s"
      "ss_count s1 = ss_count s" "\<not> ss_readOnly s1" "sc_frame h s h1 s1"
      using ss_own_table [OF s(1)] unfolding w by simp_all
    show ?thesis using False w o s(2) k(2) by (intro that [of h1 s1 S]) simp_all
  qed
  define w where "w = ss_append k t e (int (slot_of longHash (ss_size s1) k)) (h1, s1)"
  have a: "ss_wf (fst w) (snd w)" "ss_abs (fst w) (snd w) = (case e of None \<Rightarrow> ss_abs h1 s1 | Some x \<Rightarrow> (ss_abs h1 s1)(k \<mapsto> (to_int8 t, x)))"
    "ss_table (snd w) = ss_table s1" "ss_readOnly (snd w) = ss_readOnly s1" "\<exists>t'. fst w = h1\<lparr>hp_tables := (hp_tables h1)[ss_table s1 := t']\<rparr>"
    using ss_append [OF w1(1,2) k(1) w1(3,4), of t e] unfolding w_def [symmetric] by simp_all
  have "sc_frame h1 s1 (fst w) (snd w)" using a(3-5) w1(6) sc_frame_own by metis
  then have "sc_frame h s (fst w) (snd w)" by (rule sc_frame_trans [OF w1(7)]) (rule ss_wfD(1) [OF w1(1)])
  then show ?thesis
    unfolding one using a(1) a(2) [unfolded w1(5)] by (intro exI [of _ "fst w"] exI [of _ "snd w"]) (simp add: w_def)
qed

lemma ss_replace_spec:
  assumes s: "ss_wf h s" "ss_slots (tb_of h s) (ss_size s) (ss_v s) (ss_count s) S" and m: "0 \<le> m" "nat m \<in> S"
    and t: "to_int8 t = t"
  shows "\<exists>h' s'. ss_replace m t e r (h, s) = (h', s') \<and> ss_wf h' s' \<and> sc_frame h s h' s'
     \<and> ss_abs h' s' = (if r \<or> tb_type (tb_of h s) ! nat m \<noteq> t
                       then (ss_abs h s)(tb_k (tb_of h s) ! nat m := map_option (\<lambda>x. (t, x)) e) else ss_abs h s)"
proof -
  note l = ss_wfD [OF s(1)]
  let ?tb = "tb_of h s" and ?i = "nat m"
  have i: "?i < ss_count s" "?i < ss_size s" using s(2) m l(5) by (auto simp: ss_slots_def subset_eq)
  then have ty: "rd (tb_type ?tb) (Some m) = Some (tb_type ?tb ! ?i)" using m(1) l(3) by (simp add: rd_Some)
  let ?s = "s\<lparr>ss_v := (ss_v s)[?i := e]\<rparr>"
  have vs: "v_set ?i e (ss_v s) = (ss_v s)[?i := e]" using i l(4) by (simp add: v_set_def)
  have tb: "tb_of h ?s = ?tb" by (simp add: tb_of_def)
  show ?thesis
  proof (cases "tb_type ?tb ! ?i = t")
    case True
    have id: "(tb_type ?tb)[?i := t] = tb_type ?tb" using True by auto
    have "ss_wf h ?s \<and> ss_abs h ?s = (ss_abs h s)(tb_k ?tb ! ?i := map_option (\<lambda>x. (t, x)) e)"
      using l(1) by (intro ss_value [OF s m(2)]) (simp_all add: tb id)
    moreover have "ss_replace m t e r (h, s) = (if r then (h, ?s) else (h, s))"
      using True ty vs by (simp add: ss_replace_def tb Let_def)
    ultimately show ?thesis using True s(1) by (cases r) simp_all
  next
    case False
    let ?h' = "h\<lparr>hp_tables := hp_tables h @ [?tb\<lparr>tb_type := (tb_type ?tb)[?i := t]\<rparr>]\<rparr>"
      and ?s' = "s\<lparr>ss_v := (ss_v s)[?i := e], ss_table := length (hp_tables h), ss_readOnly := False\<rparr>"
    have tb': "tb_of ?h' ?s' = ?tb\<lparr>tb_type := (tb_type ?tb)[?i := t]\<rparr>" by (simp add: tb_of_def)
    have d: "deepClone (h, ?s) = (h\<lparr>hp_tables := hp_tables h @ [?tb]\<rparr>, ?s')"
      using l by (simp add: deepClone_def tb_new_def Let_def tb)
    have "wr (tb_type ?tb) (Some m) (to_int8 t) = (tb_type ?tb)[?i := t]" 
      using wr_nat [of ?i "tb_type ?tb" t] i(2) l(3) m(1) t by simp
    then have "ss_replace m t e r (h, s) = (?h', ?s')"
      using False ty vs by (simp add: ss_replace_def Let_def tb d tb_upd_def) (simp add: tb_of_def)
    moreover have "ss_wf ?h' ?s' \<and> ss_abs ?h' ?s' = (ss_abs h s)(tb_k ?tb ! ?i := map_option (\<lambda>x. (t, x)) e)"
      by (rule ss_value [OF s m(2)]) (simp_all add: tb')
    moreover have "sc_frame h s ?h' ?s'" by (rule sc_frame_new) simp_all
    ultimately show ?thesis using False by simp
  qed
qed

text \<open>\<open>internal_set\<close>; the value is the one that is stored, \<open>None\<close> for null.\<close>

definition stored :: "int \<Rightarrow> elem option \<Rightarrow> elem option \<Rightarrow> bool" where
  "stored t p e \<longleftrightarrow> (case p of None \<Rightarrow> e = None | Some x \<Rightarrow> \<exists>y. cast_elem t x = Inr y \<and> e = Some y)"

lemma ss_set_spec:
  assumes s: "ss_wf h s" and k: "hashable k" and room: "2 * ss_size s < 2 ^ 31" and e: "stored t p e" and t: "to_int8 t = t" "0 \<le> t"
  shows "\<exists>h' s'. ss_set k t p r (h, s) = Inr (h', s') \<and> ss_wf h' s' \<and> sc_frame h s h' s'
     \<and> ss_abs h' s' = (if r \<or> ss_getType k h s \<noteq> Inr (Some t) then (ss_abs h s)(k := map_option (\<lambda>x. (t, x)) e) else ss_abs h s)"
proof -
  obtain S where S: "ss_slots (tb_of h s) (ss_size s) (ss_v s) (ss_count s) S" using s by (auto simp: ss_wf_def)
  have c: "(case p of None \<Rightarrow> Inr None | Some x \<Rightarrow> bindr (cast_elem t x) (\<lambda>e. Inr (Some e))) = Inr e"
    using e by (auto simp: stored_def split: option.splits)
  define A where "A = (\<lambda>hashIndex. bindr (if 4 * (ss_count s + 1) > 3 * ss_size s
                then bindr (ss_grow (h, s)) (\<lambda>(h, s).
                     bindr (longHash k (int (ss_size s))) (\<lambda>hashIndex. Inr ((h, s), hashIndex)))
                else Inr (if ss_readOnly s then deepClone (h, s) else (h, s), hashIndex)) (\<lambda>(hs, hashIndex).
           Inr (ss_append k t e hashIndex hs)))"
  have set: "ss_set k t p r (h, s) =
      bindr (if ss_size s > 0
            then bindr (longHash k (int (ss_size s))) (\<lambda>hashIndex.
                 bindr (sc_find k hashIndex h s) (\<lambda>entry. Inr (entry, hashIndex)))
            else Inr (-1, -1)) (\<lambda>(entry, hashIndex). if entry = -1 then A hashIndex else Inr (ss_replace entry t e r (h, s)))"
    unfolding ss_set_def prod.case c bindr_simps A_def ..
  show ?thesis
  proof (cases "\<exists>i \<in> S. tb_k (tb_of h s) ! i = k")
    case False
    have A: "\<exists>h' s'. A (int (slot_of longHash (ss_size s) k)) = Inr (h', s') \<and> ss_wf h' s'
        \<and> ss_abs h' s' = (case e of None \<Rightarrow> ss_abs h s | Some x \<Rightarrow> (ss_abs h s)(k \<mapsto> (to_int8 t, x))) \<and> sc_frame h s h' s'"
      unfolding A_def using False by (intro ss_set_absent [OF s S k _ room]) auto
    have "ss_set k t p r (h, s) = A (int (slot_of longHash (ss_size s) k))"
    proof (cases "ss_size s = 0")
      case True
      then have "A x = A y" for x y by (simp add: A_def)
      then show ?thesis using True unfolding set by simp
    next
      case n: False
      then have "sc_find k (int (slot_of longHash (ss_size s) k)) h s = Inr (-1)"
        using ss_lookup [OF S s k] False by auto
      then show ?thesis using n ss_hash [OF s k] unfolding set by simp
    qed
    moreover have "ss_abs h s k = None"
      unfolding ss_abs_None [OF s] using False S unfolding ss_slots_def by blast
    then have "(case e of None \<Rightarrow> ss_abs h s | Some x \<Rightarrow> (ss_abs h s)(k \<mapsto> (to_int8 t, x)))
        = (ss_abs h s)(k := map_option (\<lambda>x. (t, x)) e)" using t by (cases e) auto
    moreover have "ss_getType k h s \<noteq> Inr (Some t)" using ss_getType_slot(2) [OF S s k False] t(2) by simp
    ultimately show ?thesis using A by auto
  next
    case True
    then have n: "0 < ss_size s" using S ss_wfD(5) [OF s] by (auto simp: ss_slots_def)
    obtain m where m: "sc_find k (int (slot_of longHash (ss_size s) k)) h s = Inr m" "0 \<le> m" "nat m \<in> S" "tb_k (tb_of h s) ! nat m = k"
      using ss_lookup [OF S s k n] True by auto
    have "ss_set k t p r (h, s) = Inr (ss_replace m t e r (h, s))"
      unfolding set using n ss_hash [OF s k n] m(1,2) by simp
    moreover have "ss_getType k h s = Inr (Some (tb_type (tb_of h s) ! nat m))"
      by (rule ss_getType_slot(1) [OF S s k m(3,4)])
    moreover have "\<exists>h' s'. ss_replace m t e r (h, s) = (h', s') \<and> ss_wf h' s' \<and> sc_frame h s h' s'
      \<and> ss_abs h' s' = (if r \<or> tb_type (tb_of h s) ! nat m \<noteq> t then (ss_abs h s)(k := map_option (\<lambda>x. (t, x)) e) else ss_abs h s)"
      using ss_replace_spec [OF s S m(2,3) t(1), of e r] unfolding m(4) .
    ultimately show ?thesis by auto
  qed
qed

end
