(* ===== verification/StateChunkMap.thy ===== *)
theory StateChunkMap
  imports StateChunkSpec
begin

text \<open>
  The properties of \<open>HeapStateChunk\<close>: a chunk is a map from the codes of the attributes to types and values, writing
  to a clone leaves its origin alone, and two cases in which the code does not keep to that.
\<close>

subsection \<open>Chunks\<close>

definition sc_wf :: "sc_heap \<times> state_chunk \<Rightarrow> bool" where
  "sc_wf = (\<lambda>(h, c). ss_wf h (sc_state c))"

definition sc_map :: "sc_heap \<times> state_chunk \<Rightarrow> int \<rightharpoonup> int \<times> elem" where
  "sc_map = (\<lambda>(h, c). ss_abs h (sc_state c))"

text \<open>There is room for one more attribute: the arrays stay shorter than \<open>2 ^ 31\<close> when they are doubled.\<close>

definition sc_room :: "sc_heap \<times> state_chunk \<Rightarrow> bool" where
  "sc_room = (\<lambda>(h, c). 2 * ss_size (sc_state c) < 2 ^ 31)"

definition known_type :: "int \<Rightarrow> bool" where
  "known_type t \<longleftrightarrow> 1 \<le> t \<and> t \<le> 11"

lemma known_type_int8: "known_type t \<Longrightarrow> to_int8 t = t" "known_type t \<Longrightarrow> 0 \<le> t"
  by (simp_all add: known_type_def to_int8_def)

text \<open>What \<open>set\<close> accepts is stored and given out as it is.\<close>

lemma accepted_stored:
  assumes "known_type t" "\<forall>x. e = Some x \<longrightarrow> set_accepts t x"
  shows "stored t e e \<and> map_option (copy_out (Some t)) e = e"
proof (cases e)
  case (Some x)
  have "t = 1 \<or> t = 2 \<or> t = 3 \<or> t = 4 \<or> t = 5 \<or> t = 6 \<or> t = 7 \<or> t = 8 \<or> t = 9 \<or> t = 10 \<or> t = 11"
    using assms(1) unfolding known_type_def by presburger
  then consider "t = DOUBLE_ARRAY \<or> t = LONG_ARRAY" | "t = INT_ARRAY"
    | "t \<in> set [BOOL, DOUBLE, LONG, INT_TYPE, STRING, STRING_LONG_MAP, LONG_LONG_MAP, LONG_LONG_ARRAY_MAP]"
    by (auto simp: type_defs)
  then show ?thesis
  proof cases
    case 1
    moreover have "set_accepts t x" using assms(2) Some by simp
    ultimately have "is_floats x" unfolding set_accepts_def by blast
    then obtain xs where "x = EFloats xs" by (cases x) simp_all
    then show ?thesis using \<open>t = DOUBLE_ARRAY \<or> t = LONG_ARRAY\<close> Some by (auto simp: stored_def cast_elem_def copy_out_def type_defs)
  next
    case 2
    moreover have "set_accepts t x" using assms(2) Some by simp
    ultimately have "is_ints x" unfolding set_accepts_def by blast
    then obtain xs where "x = EInts xs" by (cases x) simp_all
    then show ?thesis using \<open>t = INT_ARRAY\<close> Some by (auto simp: stored_def cast_elem_def copy_out_def type_defs)
  next
    case 3
    then show ?thesis using Some by (auto simp: stored_def cast_elem_def copy_out_def type_defs)
  qed
qed (simp add: stored_def)

lemma sc_get_map: "sc_wf w \<Longrightarrow> hashable k \<Longrightarrow> sc_get k w = Inr (map_option (\<lambda>(t, e). copy_out (Some t) e) (sc_map w k))"
  by (auto simp: sc_wf_def sc_get_def sc_map_def ss_get_abs)

lemma sc_each_map: "sc_wf w \<Longrightarrow> set (sc_each w) = {(Some k, Some t, e) | k t e. sc_map w k = Some (t, e)}"
proof -
  assume w: "sc_wf w"
  obtain h c where e: "w = (h, c)" by (cases w)
  then have s: "ss_wf h (sc_state c)" using w by (simp add: sc_wf_def)
  have "set (sc_each w) = (\<lambda>(k, t, e). (Some k, Some t, e)) ` set (ss_pairs h (sc_state c))"
    using ss_each_pairs [OF s] e by (simp add: sc_each_def)
  also have "\<dots> = {(Some k, Some t, e) | k t e. (k, t, e) \<in> set (ss_pairs h (sc_state c))}" by force
  also have "\<dots> = {(Some k, Some t, e) | k t e. sc_map w k = Some (t, e)}"
    using map_of_eq_Some_iff [OF ss_pairs_distinct [OF s]] e by (simp add: sc_map_def ss_abs_def)
  finally show ?thesis .
qed

lemma sc_internal_set:
  assumes w: "sc_wf (h, c)" "sc_room (h, c)" and k: "hashable k" and t: "known_type t" "stored t p e"
  shows "\<exists>h' c'. sc_internal_set k t p r (h, c) = Inr ((h', c'), sc_set_dirty c) \<and> sc_wf (h', c')
     \<and> sc_frame h (sc_state c) h' (sc_state c') \<and> c' = c\<lparr>sc_state := sc_state c'\<rparr>
     \<and> sc_map (h', c') = (if r \<or> sc_getType k (h, c) \<noteq> Inr (Some t)
                          then (sc_map (h, c))(k := map_option (\<lambda>x. (t, x)) e) else sc_map (h, c))"
proof -
  have s: "ss_wf h (sc_state c)" "2 * ss_size (sc_state c) < 2 ^ 31" using w by (simp_all add: sc_wf_def sc_room_def)
  obtain h' s' where r: "ss_set k t p r (h, sc_state c) = Inr (h', s')" "ss_wf h' s'" "sc_frame h (sc_state c) h' s'"
    "ss_abs h' s' = (if r \<or> ss_getType k h (sc_state c) \<noteq> Inr (Some t)
       then (ss_abs h (sc_state c))(k := map_option (\<lambda>x. (t, x)) e) else ss_abs h (sc_state c))"
    using ss_set_spec [OF s(1) k s(2) t(2) known_type_int8 [OF t(1)]] by blast
  have "sc_internal_set k t p r (h, c) = Inr ((h', c\<lparr>sc_state := s'\<rparr>), sc_set_dirty c)"
    using r(1) by (simp add: sc_internal_set_def sc_set_dirty_def)
  then show ?thesis
    using r by (intro exI [of _ h'] exI [of _ "c\<lparr>sc_state := s'\<rparr>"]) (simp add: sc_wf_def sc_map_def sc_getType_def)
qed

lemma sc_set_eq: "\<forall>x. e = Some x \<longrightarrow> set_accepts t x \<Longrightarrow> sc_set k t e w = sc_internal_set k t e True w"
  by (simp add: sc_set_def split: option.split)

lemma sc_new:
  "\<exists>h' c. HeapStateChunk w tm i sp None h = (h', c) \<and> sc_wf (h', c) \<and> sc_room (h', c) \<and> sc_map (h', c) = Map.empty
     \<and> h' = h\<lparr>hp_tables := hp_tables h @ [empty_table 16]\<rparr>
     \<and> sc_state c = \<lparr>ss_size = 16, ss_table = length (hp_tables h), ss_v = replicate 16 None, ss_count = 0, ss_readOnly = False\<rparr>"
proof -
  let ?s = "\<lparr>ss_size = 16, ss_table = length (hp_tables h), ss_v = replicate 16 None, ss_count = 0, ss_readOnly = False\<rparr>"
  let ?h = "h\<lparr>hp_tables := hp_tables h @ [empty_table 16]\<rparr>"
  have tb: "tb_of ?h ?s = empty_table 16" by (simp add: tb_of_def)
  have "ss_slots (empty_table 16) 16 (replicate 16 None) 0 {}"
    using key_hash.table_empty [of 16 "-1" "replicate 16 (-1)"] by (simp add: ss_slots_def empty_table_def)
  then have "ss_wf ?h ?s" unfolding ss_wf_def tb by (auto simp: empty_table_def)
  moreover have "ss_abs ?h ?s = Map.empty" by (simp add: ss_abs_def ss_pairs_def tv_pairs_def)
  ultimately show ?thesis
    by (simp add: HeapStateChunk_def Let_def MAP_INITIAL_CAPACITY_def tb_new_def sc_wf_def sc_room_def sc_map_def)
qed

subsection \<open>Clones\<close>

lemma tb_of_v [simp]: "tb_of h (s\<lparr>ss_v := v\<rparr>) = tb_of h s" "tb_of h (s\<lparr>ss_v := v, ss_readOnly := b\<rparr>) = tb_of h s"
  by (simp_all add: tb_of_def)

definition wrapped :: "sc_table \<Rightarrow> nat \<Rightarrow> elem option list \<Rightarrow> elem option list" where
  "wrapped t n v = map (\<lambda>j. if j < n then map_option (wrap_map (Some (tb_type t ! j))) (v ! j) else v ! j) [0..<length v]"

lemma wrapped_nth [simp]:
  "length (wrapped t n v) = length v"
  "j < length v \<Longrightarrow> wrapped t n v ! j = (if j < n then map_option (wrap_map (Some (tb_type t ! j))) (v ! j) else v ! j)"
  by (simp_all add: wrapped_def)

lemma wrap_maps_loop:
  "n \<le> length (ss_v s) \<Longrightarrow> length (tb_type (tb_of h s)) = length (ss_v s) \<Longrightarrow>
   foldl (\<lambda>s i. case v_at (int i) s of
         None \<Rightarrow> s
       | Some e \<Rightarrow> s\<lparr>ss_v := v_set i (Some (wrap_map (rd (tb_type (tb_of h s)) (Some (int i))) e)) (ss_v s)\<rparr>) s [0..<n]
   = s\<lparr>ss_v := wrapped (tb_of h s) n (ss_v s)\<rparr>"
proof (induction n)
  case 0
  have "wrapped (tb_of h s) 0 (ss_v s) = ss_v s" by (rule nth_equalityI) simp_all
  then show ?case by simp
next
  case (Suc n)
  then have n: "n < length (ss_v s)" by simp
  let ?w = "wrapped (tb_of h s) n (ss_v s)" and ?w' = "wrapped (tb_of h s) (Suc n) (ss_v s)"
  have at: "v_at (int n) (s\<lparr>ss_v := ?w\<rparr>) = ss_v s ! n" using n by (simp add: v_at_def)
  have "?w' = (case ss_v s ! n of None \<Rightarrow> ?w | Some e \<Rightarrow> ?w[n := Some (wrap_map (Some (tb_type (tb_of h s) ! n)) e)])"
    using n by (intro nth_equalityI) (auto simp: nth_list_update less_Suc_eq split: option.split)
  then show ?case using Suc n by (simp add: at v_set_def split: option.split)
qed

lemma clone_state:
  assumes "ss_wf h s"
  shows "wrap_maps h (softClone s) = s\<lparr>ss_v := wrapped (tb_of h s) (ss_count s) (ss_v s), ss_readOnly := True\<rparr>"
proof -
  note w = ss_wfD [OF assms]
  have "softClone s = s\<lparr>ss_readOnly := True\<rparr>" using w(4) by (simp add: softClone_def)
  moreover have "tb_of h (s\<lparr>ss_readOnly := True\<rparr>) = tb_of h s" by (simp add: tb_of_def)
  ultimately show ?thesis
    using wrap_maps_loop [of "ss_count s" "s\<lparr>ss_readOnly := True\<rparr>" h] w by (simp add: wrap_maps_def)
qed

lemma sc_clone:
  assumes "sc_wf (h, c)" "HeapStateChunk w tm i sp (Some c) h = (h', c')"
  shows "h' = h" "sc_wf (h, c')" "ss_readOnly (sc_state c')" "ss_table (sc_state c') = ss_table (sc_state c)"
    "ss_size (sc_state c') = ss_size (sc_state c)"
    "sc_map (h, c') = (\<lambda>k. map_option (\<lambda>(t, e). (t, wrap_map (Some t) e)) (sc_map (h, c) k))"
proof -
  let ?s = "sc_state c" and ?t = "tb_of h (sc_state c)"
  have s: "ss_wf h ?s" using assms(1) by (simp add: sc_wf_def)
  note w = ss_wfD [OF s]
  let ?s' = "?s\<lparr>ss_v := wrapped ?t (ss_count ?s) (ss_v ?s), ss_readOnly := True\<rparr>"
  have e: "h' = h" "sc_state c' = ?s'" using assms(2) clone_state [OF s] by (auto simp: HeapStateChunk_def)
  then show "h' = h" "ss_readOnly (sc_state c')" "ss_table (sc_state c') = ss_table (sc_state c)"
    "ss_size (sc_state c') = ss_size (sc_state c)" by simp_all
  obtain S where S: "ss_slots ?t (ss_size ?s) (ss_v ?s) (ss_count ?s) S" using s by (auto simp: ss_wf_def)
  have "{i. i < ss_count ?s \<and> wrapped ?t (ss_count ?s) (ss_v ?s) ! i \<noteq> None} = {i. i < ss_count ?s \<and> ss_v ?s ! i \<noteq> None}"
    using w(4,5) by auto
  then have "ss_slots ?t (ss_size ?s) (wrapped ?t (ss_count ?s) (ss_v ?s)) (ss_count ?s) S" using S by (simp add: ss_slots_def)
  moreover have "wrapped ?t (ss_count ?s) (ss_v ?s) ! i = None" if "i < ss_size ?s" "ss_count ?s \<le> i" for i
    using that w(4,6) by simp
  ultimately have wf: "ss_wf h ?s'" unfolding ss_wf_def using w by auto
  then show "sc_wf (h, c')" using e by (simp add: sc_wf_def)
  have "ss_abs h ?s' k = map_option (\<lambda>(t, e). (t, wrap_map (Some t) e)) (ss_abs h ?s k)" for k
  proof (rule option_pair_eqI)
    fix u x
    have "ss_abs h ?s' k = Some (u, x) \<longleftrightarrow>
       (\<exists>i < ss_count ?s. tb_k ?t ! i = k \<and> tb_type ?t ! i = u \<and> map_option (wrap_map (Some (tb_type ?t ! i))) (ss_v ?s ! i) = Some x)"
      unfolding ss_abs_iff [OF wf] using w(4,5) by (simp cong: conj_cong)
    also have "\<dots> \<longleftrightarrow> (\<exists>y. ss_abs h ?s k = Some (u, y) \<and> x = wrap_map (Some u) y)"
      unfolding ss_abs_iff [OF s] by auto
    also have "\<dots> \<longleftrightarrow> map_option (\<lambda>(t, e). (t, wrap_map (Some t) e)) (ss_abs h ?s k) = Some (u, x)" by auto
    finally show "ss_abs h ?s' k = Some (u, x) \<longleftrightarrow> map_option (\<lambda>(t, e). (t, wrap_map (Some t) e)) (ss_abs h ?s k) = Some (u, x)" .
  qed
  then show "sc_map (h, c') = (\<lambda>k. map_option (\<lambda>(t, e). (t, wrap_map (Some t) e)) (sc_map (h, c) k))"
    using e by (auto simp: sc_map_def)
qed

text \<open>Reading depends on the table and the values only.\<close>

lemma same_table:
  assumes "hp_tables h' ! ss_table s = hp_tables h ! ss_table s"
  shows "ss_get k h' s = ss_get k h s" "ss_getType k h' s = ss_getType k h s" "ss_each h' s = ss_each h s"
proof -
  have e: "tb_of h' s = tb_of h s" using assms by (simp add: tb_of_def)
  show "ss_get k h' s = ss_get k h s" "ss_getType k h' s = ss_getType k h s" "ss_each h' s = ss_each h s"
    unfolding ss_get_def ss_getType_def ss_each_def sc_entry_def e by (rule refl)+
qed

subsection \<open>Properties\<close>

text \<open>Property C3.
  \<open>set\<close> of a value that it accepts (or null): the chunk stands for the map in which the attribute has the type and
  the value (or no value), through growth, type changes and the copy of a shared table; reading it gives that value,
  reading another attribute what it gave before, \<open>each\<close> visits exactly the attributes of the map, and the chunk is declared
  dirty unless it is dirty already.\<close>

theorem sc_set_refines:
  assumes "sc_wf (h, c)" "sc_room (h, c)" "hashable k" "known_type t" "\<forall>x. e = Some x \<longrightarrow> set_accepts t x"
  shows "\<exists>h' c'. sc_set k t e (h, c) = Inr ((h', c'), sc_set_dirty c) \<and> sc_wf (h', c')
     \<and> sc_map (h', c') = (sc_map (h, c))(k := map_option (\<lambda>x. (t, x)) e)
     \<and> sc_get k (h', c') = Inr e
     \<and> (\<forall>k'. hashable k' \<and> k' \<noteq> k \<longrightarrow> sc_get k' (h', c') = sc_get k' (h, c))
     \<and> set (sc_each (h', c')) = {(Some k', Some t', e') | k' t' e'. sc_map (h', c') k' = Some (t', e')}"
proof -
  note st = accepted_stored [OF assms(4,5)]
  obtain h' c' where r: "sc_internal_set k t e True (h, c) = Inr ((h', c'), sc_set_dirty c)" "sc_wf (h', c')"
    "sc_map (h', c') = (sc_map (h, c))(k := map_option (\<lambda>x. (t, x)) e)"
    using sc_internal_set [OF assms(1-4), of e e True] st by auto
  have "sc_get k (h', c') = Inr e"
    using sc_get_map [OF r(2) assms(3)] r(3) st by (cases e) simp_all
  moreover have "sc_get k' (h', c') = sc_get k' (h, c)" if "hashable k'" "k' \<noteq> k" for k'
    using sc_get_map [OF r(2) that(1)] sc_get_map [OF assms(1) that(1)] r(3) that(2) by simp
  ultimately show ?thesis
    using r sc_set_eq [OF assms(5), of k "(h, c)"] sc_each_map [OF r(2)]
    by (intro exI [of _ h'] exI [of _ c']) simp
qed

theorem sc_set_refines_witness:
  "\<exists>h c h' c'. HeapStateChunk 0 0 7 True None \<lparr>hp_tables = [], hp_slm = [], hp_llm = [], hp_lam = []\<rparr> = (h, c)
     \<and> sc_set 1 STRING (Some (EString [72, 105])) (h, c) = Inr ((h', c'), sc_set_dirty c)
     \<and> sc_get 1 (h', c') = Inr (Some (EString [72, 105]))
     \<and> sc_map (h', c') = [1 \<mapsto> (STRING, EString [72, 105])]"
proof -
  obtain h c where n: "HeapStateChunk 0 0 7 True None \<lparr>hp_tables = [], hp_slm = [], hp_llm = [], hp_lam = []\<rparr> = (h, c)"
    "sc_wf (h, c)" "sc_room (h, c)" "sc_map (h, c) = Map.empty"
    using sc_new [of 0 0 7 True] by metis
  have "known_type STRING" "\<forall>x. Some (EString [72, 105]) = Some x \<longrightarrow> set_accepts STRING x"
    by (simp_all add: known_type_def set_accepts_def type_defs)
  then show ?thesis
    using sc_set_refines [OF n(2,3) hashable_1, of STRING "Some (EString [72, 105])"] n(1,4) by fastforce
qed

text \<open>Property C11.
  Copy on write: a clone begins with the attributes of its origin, its maps being map objects of its own that share the
  states; setting an attribute of the clone then changes nothing that the origin reads.\<close>

theorem sc_clone_isolated:
  assumes "sc_wf (h, c)" "sc_room (h, c)" "HeapStateChunk w tm i sp (Some c) h = (h0, c')"
    and "hashable k" "known_type t" "\<forall>x. e = Some x \<longrightarrow> set_accepts t x"
  shows "sc_map (h0, c') = (\<lambda>k. map_option (\<lambda>(t, e). (t, wrap_map (Some t) e)) (sc_map (h, c) k))
     \<and> (\<exists>h1 c1. sc_set k t e (h0, c') = Inr ((h1, c1), sc_set_dirty c')
        \<and> sc_map (h1, c1) = (sc_map (h0, c'))(k := map_option (\<lambda>x. (t, x)) e)
        \<and> (\<forall>k'. sc_get k' (h1, c) = sc_get k' (h, c) \<and> sc_getType k' (h1, c) = sc_getType k' (h, c))
        \<and> sc_each (h1, c) = sc_each (h, c))"
proof -
  note cl = sc_clone [OF assms(1,3)]
  have room: "sc_room (h, c')" using assms(2) cl(5) by (simp add: sc_room_def)
  obtain h1 c1 where r: "sc_internal_set k t e True (h, c') = Inr ((h1, c1), sc_set_dirty c')"
    "sc_map (h1, c1) = (sc_map (h, c'))(k := map_option (\<lambda>x. (t, x)) e)" "sc_frame h (sc_state c') h1 (sc_state c1)"
    using sc_internal_set [OF cl(2) room assms(4,5), of e e True] accepted_stored [OF assms(5,6)] by auto
  have "ss_table (sc_state c) < length (hp_tables h)" using assms(1) ss_wfD(1) by (simp add: sc_wf_def)
  then have "hp_tables h1 ! ss_table (sc_state c) = hp_tables h ! ss_table (sc_state c)"
    using r(3) cl(3) by (simp add: sc_frame_def)
  note same = same_table [OF this]
  show ?thesis
    using r(1,2) cl(1,6) sc_set_eq [OF assms(6), of k "(h, c')"] same
    by (simp add: sc_get_def sc_getType_def sc_each_def)
qed

abbreviation no_heap :: sc_heap where
  "no_heap \<equiv> \<lparr>hp_tables = [], hp_slm = [], hp_llm = [], hp_lam = []\<rparr>"

theorem sc_clone_isolated_witness:
  "\<exists>h c h0 c' h1 c1. HeapStateChunk 0 0 7 True None no_heap = (h, c) \<and> HeapStateChunk 0 5 7 True (Some c) h = (h0, c')
     \<and> sc_set 1 BOOL (Some (EBool True)) (h0, c') = Inr ((h1, c1), sc_set_dirty c')
     \<and> sc_map (h1, c1) = [1 \<mapsto> (BOOL, EBool True)] \<and> sc_get 1 (h1, c) = Inr None \<and> sc_each (h1, c) = sc_each (h, c)"
proof -
  obtain h c where n: "HeapStateChunk 0 0 7 True None no_heap = (h, c)"
    "sc_wf (h, c)" "sc_room (h, c)" "sc_map (h, c) = Map.empty"
    using sc_new [of 0 0 7 True] by metis
  obtain h0 c' where cl: "HeapStateChunk 0 5 7 True (Some c) h = (h0, c')" by (metis surj_pair)
  have "known_type BOOL" "\<forall>x. Some (EBool True) = Some x \<longrightarrow> set_accepts BOOL x"
    by (auto simp: known_type_def set_accepts_def type_defs)
  then obtain h1 c1 where r: "sc_set 1 BOOL (Some (EBool True)) (h0, c') = Inr ((h1, c1), sc_set_dirty c')"
    "sc_map (h1, c1) = [1 \<mapsto> (BOOL, EBool True)]" "sc_get 1 (h1, c) = sc_get 1 (h, c)" "sc_each (h1, c) = sc_each (h, c)"
    using sc_clone_isolated [OF n(2,3) cl hashable_1, of BOOL "Some (EBool True)"] n(4) by auto
  have "sc_get 1 (h, c) = Inr None" using sc_get_map [OF n(2) hashable_1] n(4) by simp
  then show ?thesis
    using n(1) cl r
    by (intro exI [of _ h] exI [of _ c] exI [of _ h0] exI [of _ c'] exI [of _ h1] exI [of _ c1]) simp
qed

text \<open>
  The first attribute of an empty chunk goes to slot 0, in place: the table may be that of a clone too.
\<close>

lemma first_attribute:
  assumes "hashable k" "ss_table s < length (hp_tables h)" "tb_of h s = empty_table 16" "ss_size s = 16" "ss_count s = 0"
    "\<not> ss_readOnly s" "ss_v s = replicate 16 None" "cast_elem t x = Inr x"
  shows "ss_set k t (Some x) True (h, s) = Inr (h\<lparr>hp_tables := (hp_tables h)[ss_table s :=
       (empty_table 16)\<lparr>tb_k := (replicate 16 0)[0 := k], tb_hash := (replicate 16 (-1))[slot_of longHash 16 k := 0],
          tb_type := (replicate 16 0)[0 := to_int8 t]\<rparr>]\<rparr>,
       s\<lparr>ss_count := 1, ss_v := (replicate 16 None)[0 := Some x]\<rparr>)"
proof -
  have b: "longHash k 16 = Inr (int (slot_of longHash 16 k))" "slot_of longHash 16 k < 16"
    using key_hash.slot_of [of k 16] assms(1) by auto
  have r: "rd (replicate 16 (-1)) (Some (int (slot_of longHash 16 k))) = Some (-1 :: int)" using b(2) by (subst rd_nat) simp_all
  have f: "sc_find k (int (slot_of longHash 16 k)) h s = Inr (-1)"
    using r by (simp add: sc_find_def assms(3) empty_table_def chain_find_ne.simps)
  have "ss_append k t (Some x) (int (slot_of longHash 16 k)) (h, s) = (h\<lparr>hp_tables := (hp_tables h)[ss_table s :=
       (empty_table 16)\<lparr>tb_k := (replicate 16 0)[0 := k], tb_hash := (replicate 16 (-1))[slot_of longHash 16 k := 0],
          tb_type := (replicate 16 0)[0 := to_int8 t]\<rparr>]\<rparr>,
       s\<lparr>ss_count := 1, ss_v := (replicate 16 None)[0 := Some x]\<rparr>)"
    using r b(2) assms by (simp add: ss_append_def tb_upd_def bucket_link_def empty_table_def v_set_def wr_def)
  then show ?thesis using b(1) f assms by (simp add: ss_set_def)
qed

text \<open>Further fact.
  The other direction is not protected: an origin goes on writing to the table that it shares with its clone.  When
  an attribute is added to an (empty) origin and then set on the clone, the clone takes the slot of the origin for its own
  without counting it: reading the attribute gives the value, but \<open>each\<close> does not visit it and \<open>_elementCount\<close> stays 0,
  so it is never saved.\<close>

theorem sc_origin_write_hides:
  assumes "hashable k" "known_type t" "set_accepts t x1" "set_accepts t x2"
    and "HeapStateChunk w tm i sp None h = (h0, c)" "HeapStateChunk w tm' i sp (Some c) h0 = (h1, c')"
  shows "\<exists>h2 c2 h3 c3. sc_set k t (Some x1) (h1, c) = Inr ((h2, c2), sc_set_dirty c)
     \<and> sc_set k t (Some x2) (h2, c') = Inr ((h3, c3), sc_set_dirty c')
     \<and> sc_get k (h3, c3) = Inr (Some x2) \<and> sc_each (h3, c3) = [] \<and> ss_count (sc_state c3) = 0"
proof -
  let ?b = "slot_of longHash 16 k"
  let ?s = "\<lparr>ss_size = 16, ss_table = length (hp_tables h), ss_v = replicate 16 None, ss_count = 0, ss_readOnly = False\<rparr>"
  have o: "sc_wf (h0, c)" "h0 = h\<lparr>hp_tables := hp_tables h @ [empty_table 16]\<rparr>" "sc_state c = ?s"
    using sc_new [of w tm i sp h] assms(5) by auto
  have tb0: "tb_of h0 ?s = empty_table 16" by (simp add: o(2) tb_of_def)
  have cl: "h1 = h0" "sc_state c' = ?s\<lparr>ss_readOnly := True\<rparr>"
  proof -
    have "wrapped (empty_table 16) 0 (replicate 16 None) = replicate 16 None" by (rule nth_equalityI) simp_all
    then have "wrap_maps h0 (softClone ?s) = ?s\<lparr>ss_readOnly := True\<rparr>"
      using clone_state [of h0 ?s] o(1) by (simp add: sc_wf_def o(3) tb0)
    then show "h1 = h0" "sc_state c' = ?s\<lparr>ss_readOnly := True\<rparr>" using assms(6) o(3) by (auto simp: HeapStateChunk_def)
  qed
  have cast: "cast_elem t x1 = Inr x1" "cast_elem t x2 = Inr x2" "copy_out (Some t) x2 = x2"
    using accepted_stored [OF assms(2), of "Some x1"] accepted_stored [OF assms(2), of "Some x2"] assms(3,4)
    by (auto simp: stored_def)
  define tb where "tb = (empty_table 16)\<lparr>tb_k := (replicate 16 0)[0 := k], tb_hash := (replicate 16 (-1))[?b := 0],
          tb_type := (replicate 16 0)[0 := t]\<rparr>"
  define h2 where "h2 = h0\<lparr>hp_tables := (hp_tables h0)[length (hp_tables h) := tb]\<rparr>"
  define c2 where "c2 = c\<lparr>sc_state := ?s\<lparr>ss_count := 1, ss_v := (replicate 16 None)[0 := Some x1]\<rparr>\<rparr>"
  have "ss_set k t (Some x1) True (h0, ?s) = Inr (h2, ?s\<lparr>ss_count := 1, ss_v := (replicate 16 None)[0 := Some x1]\<rparr>)"
    using first_attribute [of k ?s h0 t x1] assms(1) cast(1) known_type_int8 [OF assms(2)]
    by (simp add: tb0 h2_def tb_def) (simp add: o(2))
  then have one: "sc_set k t (Some x1) (h1, c) = Inr ((h2, c2), sc_set_dirty c)"
    using assms(3) by (simp add: sc_set_def sc_internal_set_def o(3) cl(1) c2_def sc_set_dirty_def)
  define s' where "s' = ?s\<lparr>ss_readOnly := True\<rparr>"
  define s3 where "s3 = s'\<lparr>ss_v := (replicate 16 None)[0 := Some x2]\<rparr>"
  have s': "ss_size s' = 16" "ss_count s' = 0" "ss_v s' = replicate 16 None" "sc_state c' = s'"
    and s3: "ss_size s3 = 16" "ss_count s3 = 0" "ss_v s3 = (replicate 16 None)[0 := Some x2]" by (simp_all add: s'_def s3_def cl(2))
  have tb2: "tb_of h2 s' = tb" "tb_of h2 s3 = tb" by (simp_all add: tb_of_def h2_def o(2) s'_def s3_def)
  have b: "longHash k 16 = Inr (int ?b)" "?b < 16" using key_hash.slot_of [of k 16] assms(1) by auto
  have hd: "rd (tb_hash tb) (Some (int ?b)) = Some 0" "rd (tb_k tb) (Some 0) = Some k" "rd (tb_type tb) (Some 0) = Some t"
    using b(2) by (simp_all add: tb_def rd_def)
  have f: "sc_find k (int ?b) h2 s' = Inr 0" "sc_entry k (int ?b) h2 s3 = Inr 0"
    unfolding sc_find_def sc_entry_def tb2 hd(1) using hd(2) by (simp_all add: chain_find_ne.simps chain_find.simps)
  have "ss_replace 0 t (Some x2) True (h2, s') = (h2, s3)"
    unfolding ss_replace_def prod.case Let_def tb_of_v tb2 hd(3) by (simp add: s'(3) s3_def v_set_def)
  then have "ss_set k t (Some x2) True (h2, s') = Inr (h2, s3)"
    using b(1) f(1) cast(2) s' by (simp add: ss_set_def)
  then have two: "sc_set k t (Some x2) (h2, c') = Inr ((h2, c'\<lparr>sc_state := s3\<rparr>), sc_set_dirty c')"
    using assms(4) by (simp add: sc_set_def sc_internal_set_def s'(4) sc_set_dirty_def)
  have "ss_get k h2 s3 = Inr (Some x2)"
    using b(1) f(2) hd(3) cast(3) by (simp add: ss_get_def tb2 v_at_def s3)
  moreover have "ss_each h2 s3 = []" by (simp add: ss_each_def s3)
  ultimately show ?thesis
    using one two s3(2)
    by (intro exI [of _ h2] exI [of _ c2] exI [of _ h2] exI [of _ "c'\<lparr>sc_state := s3\<rparr>"]) (simp add: sc_get_def sc_each_def)
qed

theorem sc_origin_write_hides_witness:
  "\<exists>h0 c h1 c' h2 c2 h3 c3. HeapStateChunk 0 0 7 True None no_heap = (h0, c) \<and> HeapStateChunk 0 5 7 True (Some c) h0 = (h1, c')
     \<and> sc_set 1 STRING (Some (EString [65])) (h1, c) = Inr ((h2, c2), sc_set_dirty c)
     \<and> sc_set 1 STRING (Some (EString [66])) (h2, c') = Inr ((h3, c3), sc_set_dirty c')
     \<and> sc_get 1 (h3, c3) = Inr (Some (EString [66])) \<and> sc_each (h3, c3) = []"
proof -
  obtain h0 c where n: "HeapStateChunk 0 0 7 True None no_heap = (h0, c)" by (metis surj_pair)
  obtain h1 c' where cl: "HeapStateChunk 0 5 7 True (Some c) h0 = (h1, c')" by (metis surj_pair)
  have "known_type STRING" "set_accepts STRING (EString [65])" "set_accepts STRING (EString [66])"
    by (simp_all add: known_type_def set_accepts_def type_defs)
  from sc_origin_write_hides [OF hashable_1 this n cl] show ?thesis using n cl by blast
qed

subsection \<open>\<open>getOrCreate\<close>\<close>

lemma ss_getType_abs:
  assumes s: "ss_wf h s" and k: "hashable k" and e: "ss_abs h s k = Some (t, e)"
  shows "ss_getType k h s = Inr (Some t)"
proof -
  obtain S where S: "ss_slots (tb_of h s) (ss_size s) (ss_v s) (ss_count s) S" using s by (auto simp: ss_wf_def)
  obtain i where i: "i < ss_count s" "tb_k (tb_of h s) ! i = k" "tb_type (tb_of h s) ! i = t" "ss_v s ! i \<noteq> None"
    using e unfolding ss_abs_iff [OF s] by auto
  then have "i \<in> S" using S by (auto simp: ss_slots_def)
  then show ?thesis using ss_getType_slot(1) [OF S s k] i by simp
qed

lemma ss_getType_total:
  assumes s: "ss_wf h s" and k: "hashable k"
  shows "\<exists>t. ss_getType k h s = Inr t"
proof -
  obtain S where S: "ss_slots (tb_of h s) (ss_size s) (ss_v s) (ss_count s) S" using s by (auto simp: ss_wf_def)
  show ?thesis
    using ss_getType_slot(1) [OF S s k] ss_getType_slot(2) [OF S s k] by (cases "\<exists>i \<in> S. tb_k (tb_of h s) ! i = k") blast+
qed

lemma same_tables:
  assumes "hp_tables h1 = hp_tables h"
  shows "sc_wf (h1, c) = sc_wf (h, c)" "sc_map (h1, c) = sc_map (h, c)" "sc_getType k (h1, c) = sc_getType k (h, c)"
proof -
  have e: "tb_of h1 (sc_state c) = tb_of h (sc_state c)" using assms by (simp add: tb_of_def)
  show "sc_wf (h1, c) = sc_wf (h, c)" "sc_map (h1, c) = sc_map (h, c)" "sc_getType k (h1, c) = sc_getType k (h, c)"
    unfolding sc_wf_def sc_map_def sc_getType_def prod.case ss_wf_def ss_abs_def ss_pairs_def ss_getType_def sc_entry_def e assms
    by (rule refl)+
qed

definition map_types :: "int set" where
  "map_types = {STRING_LONG_MAP, LONG_LONG_MAP, LONG_LONG_ARRAY_MAP}"

lemma map_type_known: "t \<in> map_types \<Longrightarrow> known_type t"
  by (auto simp: map_types_def known_type_def type_defs)

lemma map_type_stored: "t \<in> map_types \<Longrightarrow> stored t e e" "t \<in> map_types \<Longrightarrow> copy_out (Some t) x = x"
  by (auto simp: map_types_def stored_def cast_elem_def copy_out_def type_defs split: option.split)

lemma new_map_some:
  assumes "t \<in> map_types"
  shows "\<exists>h1 m. new_map t h = Some (h1, m) \<and> hp_tables h1 = hp_tables h"
  using assms by (auto simp: map_types_def new_map_def type_defs split: prod.split)

text \<open>Further fact.
  \<open>getOrCreate\<close> of a map: when the attribute has a value of the type already, that value, and nothing changes; when
  its slot has another type or there is none, a new map object of the class, listening to the chunk, is stored under
  the type and returned, and the other attributes stay; when the slot has the type but its value was set to null, nothing is
  stored and null is returned, so the caller gets no map.\<close>

theorem sc_getOrCreate_spec:
  assumes w: "sc_wf (h, c)" "sc_room (h, c)" and k: "hashable k" and t: "t \<in> map_types"
  shows "if \<exists>e. sc_map (h, c) k = Some (t, e)
         then sc_getOrCreate k t (h, c) = Inr (map_option snd (sc_map (h, c) k), (h, c), False)
         else \<exists>h1 m w. new_map t h = Some (h1, m) \<and> sc_wf w
           \<and> (if sc_getType k (h, c) = Inr (Some t)
              then sc_getOrCreate k t (h, c) = Inr (None, w, sc_set_dirty c) \<and> sc_map w = sc_map (h, c)
              else sc_getOrCreate k t (h, c) = Inr (Some m, w, sc_set_dirty c) \<and> sc_map w = (sc_map (h, c))(k \<mapsto> (t, m)))"
proof (cases "\<exists>e. sc_map (h, c) k = Some (t, e)")
  case True
  then obtain e where e: "sc_map (h, c) k = Some (t, e)" by blast
  have "sc_getType k (h, c) = Inr (Some t)"
    using ss_getType_abs [of h "sc_state c" k t e] w(1) k e by (simp add: sc_wf_def sc_map_def sc_getType_def)
  then show ?thesis using True e sc_get_map [OF w(1) k] map_type_stored(2) [OF t] by (simp add: sc_getOrCreate_def)
next
  case False
  obtain h1 m where n: "new_map t h = Some (h1, m)" "hp_tables h1 = hp_tables h" using new_map_some [OF t] by blast
  note same = same_tables [OF n(2)]
  have w1: "sc_wf (h1, c)" "sc_room (h1, c)" using w same(1) by (simp_all add: sc_room_def)
  obtain h' c' where r: "sc_internal_set k t (Some m) False (h1, c) = Inr ((h', c'), sc_set_dirty c)" "sc_wf (h', c')"
    "sc_map (h', c') = (if sc_getType k (h, c) \<noteq> Inr (Some t) then (sc_map (h, c))(k \<mapsto> (t, m)) else sc_map (h, c))"
    using sc_internal_set [OF w1 k map_type_known [OF t], of "Some m" "Some m" False] map_type_stored(1) [OF t] same by auto
  have ty: "sc_map (h, c) k = None" if "sc_getType k (h, c) = Inr (Some t)"
    using ss_getType_abs [of h "sc_state c" k] w(1) k that False
    by (cases "sc_map (h, c) k") (auto simp: sc_wf_def sc_map_def sc_getType_def)
  obtain old where old: "sc_getType k (h, c) = Inr old"
    using ss_getType_total [of h "sc_state c" k] w(1) k by (auto simp: sc_wf_def sc_getType_def)
  have get: "sc_get k (h', c') = Inr (if sc_getType k (h, c) = Inr (Some t) then None else Some m)"
    using sc_get_map [OF r(2) k] r(3) map_type_stored(2) [OF t] ty by simp
  have "sc_getOrCreate k t (h, c) = Inr (if sc_getType k (h, c) = Inr (Some t) then None else Some m, (h', c'), sc_set_dirty c)"
  proof (cases "old = Some t")
    case True
    then show ?thesis using ty old r(1) get n(1) sc_get_map [OF w(1) k] by (simp add: sc_getOrCreate_def)
  next
    case F: False
    then show ?thesis using old r(1) get n(1) sc_get_map [OF w(1) k] by (simp add: sc_getOrCreate_def)
  qed
  then show ?thesis
    using False n(1) r(2,3)
    by (simp del: not_ex) (intro exI [of _ h'] exI [of _ c'], simp)
qed

theorem sc_getOrCreate_spec_witness:
  "\<exists>h c h1 m w. HeapStateChunk 0 0 7 True None no_heap = (h, c) \<and> new_map LONG_LONG_MAP h = Some (h1, m)
     \<and> sc_getOrCreate 1 LONG_LONG_MAP (h, c) = Inr (Some m, w, sc_set_dirty c) \<and> sc_map w = [1 \<mapsto> (LONG_LONG_MAP, m)]"
proof -
  obtain h c where n: "HeapStateChunk 0 0 7 True None no_heap = (h, c)" "sc_wf (h, c)" "sc_room (h, c)" "sc_map (h, c) = Map.empty"
    "h = no_heap\<lparr>hp_tables := hp_tables no_heap @ [empty_table 16]\<rparr>"
    "sc_state c = \<lparr>ss_size = 16, ss_table = length (hp_tables no_heap), ss_v = replicate 16 None, ss_count = 0, ss_readOnly = False\<rparr>"
    using sc_new [of 0 0 7 True no_heap] by blast
  obtain S where S: "ss_slots (tb_of h (sc_state c)) (ss_size (sc_state c)) (ss_v (sc_state c)) (ss_count (sc_state c)) S"
    using n(2) by (auto simp: sc_wf_def ss_wf_def)
  have "S = {}" using S n(6) by (auto simp: ss_slots_def)
  then have "sc_getType 1 (h, c) = Inr (Some (-1))"
    using ss_getType_slot(2) [OF S _ hashable_1] n(2) by (simp add: sc_getType_def sc_wf_def)
  moreover have "LONG_LONG_MAP \<in> map_types" "LONG_LONG_MAP \<noteq> -1" by (simp_all add: map_types_def type_defs)
  ultimately show ?thesis
    using sc_getOrCreate_spec [OF n(2,3) hashable_1, of LONG_LONG_MAP] n(1,4) by auto
qed

end
