(* ===== verification/StateChunkSave.thy ===== *)
theory StateChunkSave
  imports StateChunkMap WorldOrder
begin

text \<open>
  The payload of \<open>HeapStateChunk\<close>: \<open>save\<close>, \<open>load\<close> and \<open>merge\<close>.  A value whose type is not the type of its
  attribute, which only the unchecked \<open>setFromKey\<close> can store, is not followed into the encoders.
\<close>

definition CHUNK_SUB_SUB_SUB_SEP :: int where "CHUNK_SUB_SUB_SUB_SEP = 37"
definition BOOL_TRUE :: int where "BOOL_TRUE = 49"
definition BOOL_FALSE :: int where "BOOL_FALSE = 48"

subsection \<open>Save\<close>

text \<open>The integer encoders on any number: the symbols of the integer part of its absolute value, and its sign.\<close>

definition encode_number :: "int \<Rightarrow> js_double \<Rightarrow> heap_buffer \<Rightarrow> heap_buffer" where
  "encode_number i x buffer =
     (let (neg, tmp) = (case x of Finite q \<Rightarrow> (q < 0, \<lfloor>\<bar>q\<bar>\<rfloor>) | Infinite s \<Rightarrow> (s < 0, 0) | NotANumber \<Rightarrow> (False, 0))
      in hb_write (encode_loop i tmp True buffer) (dict (js_and tmp 0x1F * 2 + (if neg then 1 else 0))))"

definition js_number :: "jsnum \<Rightarrow> js_double" where
  "js_number v = (case v of None \<Rightarrow> NotANumber | Some k \<Rightarrow> Finite (of_int k))"

text \<open>
  The eight bytes of a double, lowest first: sign, exponent and mantissa.  The exponent of \<open>n / d\<close> is the
  difference of the lengths of \<open>n\<close> and \<open>d\<close> or one less.
\<close>

definition log2_rat :: "rat \<Rightarrow> int" where
  "log2_rat q = (case quotient_of q of (n, d) \<Rightarrow>
     let e = int (floorlog 2 (nat n)) - int (floorlog 2 (nat d)) in if q < pow2 e then e - 1 else e)"

definition double_fields :: "js_double \<Rightarrow> int \<times> int \<times> int" where
  "double_fields x =
     (case x of
        Finite q \<Rightarrow>
          let a = \<bar>q\<bar>; e = log2_rat a; s = (if q < 0 then 1 else 0) in
          if a = 0 then (0, 0, 0)
          else if e < -1022 then (s, 0, \<lfloor>a * pow2 1074\<rfloor>)
          else (s, e + 1023, \<lfloor>(a / pow2 e - 1) * pow2 52\<rfloor>)
      | Infinite s \<Rightarrow> (if s < 0 then 1 else 0, 2047, 0)
      | NotANumber \<Rightarrow> (0, 2047, 2 ^ 51))"

definition double_bytes :: "js_double \<Rightarrow> int list" where
  "double_bytes x = (case double_fields x of (s, e, m) \<Rightarrow>
     let w = (s * 2048 + e) * 2 ^ 52 + m in map (\<lambda>i. w div 2 ^ (8 * i) mod 256) [0..<8])"

definition encode_elems :: "('a \<Rightarrow> heap_buffer \<Rightarrow> heap_buffer) \<Rightarrow> 'a list \<Rightarrow> heap_buffer \<Rightarrow> heap_buffer" where
  "encode_elems enc xs buffer =
     foldl (\<lambda>buffer x. enc x (hb_write buffer CHUNK_SUB_SUB_SEP)) (encodeIntToBuffer (int (length xs)) buffer) xs"

definition encode_pairs :: "('k \<Rightarrow> heap_buffer \<Rightarrow> heap_buffer) \<Rightarrow> int \<Rightarrow> ('k \<times> jsnum) list \<Rightarrow> heap_buffer \<Rightarrow> heap_buffer" where
  "encode_pairs enc n kvs buffer =
     foldl (\<lambda>buffer (k, v). encode_number 47 (js_number v) (hb_write (enc k (hb_write buffer CHUNK_SUB_SUB_SEP)) CHUNK_SUB_SUB_SUB_SEP))
       (encodeLongToBuffer n buffer) kvs"

definition js_truthy :: "elem \<Rightarrow> bool" where
  "js_truthy e = (case e of EBool b \<Rightarrow> b | EString s \<Rightarrow> s \<noteq> [] | ENumber x \<Rightarrow> x \<noteq> Finite 0 \<and> x \<noteq> NotANumber | _ \<Rightarrow> True)"

text \<open>
  The value of an attribute; the result has the error that was thrown.  A map of another class answers to \<open>size\<close> and
  \<open>each\<close> too; its keys are numbers, and the encoder of strings writes nothing for a number.
\<close>

definition save_value :: "sc_heap \<Rightarrow> jsnum \<Rightarrow> elem \<Rightarrow> heap_buffer \<Rightarrow> heap_buffer \<times> js_error option" where
  "save_value h t e buffer =
     (let fail = (buffer, Some TypeError) in
      if t = Some STRING then (case e of EString s \<Rightarrow> (encodeStringToBuffer s buffer, None) | _ \<Rightarrow> fail)
      else if t = Some BOOL then (hb_write buffer (if js_truthy e then BOOL_TRUE else BOOL_FALSE), None)
      else if t = Some LONG then (case e of ENumber x \<Rightarrow> (encode_number 47 x buffer, None) | _ \<Rightarrow> fail)
      else if t = Some DOUBLE then (case e of ENumber x \<Rightarrow> (encodeDoubleToBuffer (double_bytes x) buffer, None) | _ \<Rightarrow> fail)
      else if t = Some INT_TYPE then (case e of ENumber x \<Rightarrow> (encode_number 29 x buffer, None) | _ \<Rightarrow> fail)
      else if t = Some DOUBLE_ARRAY then (encode_elems (\<lambda>x. encodeDoubleToBuffer (double_bytes x)) (to_floats e) buffer, None)
      else if t = Some LONG_ARRAY then (encode_elems (encode_number 47) (to_floats e) buffer, None)
      else if t = Some INT_ARRAY then (encode_elems encodeIntToBuffer (to_ints e) buffer, None)
      else if t = Some STRING_LONG_MAP then
        (case e of
           EStringMap m \<Rightarrow> let s = hp_slm h ! mo_state m in (encode_pairs encodeStringToBuffer (int (slm_size s)) (slm_each s) buffer, None)
         | ELongMap m \<Rightarrow> let s = hp_llm h ! mo_state m in (encode_pairs (\<lambda>k b. b) (int (llm_size s)) (llm_each s) buffer, None)
         | EArrayMap m \<Rightarrow> let s = hp_lam h ! mo_state m in (encode_pairs (\<lambda>k b. b) (lam_size s) (lam_each s) buffer, None)
         | _ \<Rightarrow> fail)
      else if t = Some LONG_LONG_MAP then
        (case e of ELongMap m \<Rightarrow> let s = hp_llm h ! mo_state m
           in (encode_pairs (\<lambda>k. encode_number 47 (js_number k)) (int (llm_size s)) (llm_each s) buffer, None) | _ \<Rightarrow> fail)
      else if t = Some LONG_LONG_ARRAY_MAP then
        (case e of EArrayMap m \<Rightarrow> let s = hp_lam h ! mo_state m
           in (encode_pairs (\<lambda>k. encode_number 47 (js_number k)) (lam_size s) (lam_each s) buffer, None) | _ \<Rightarrow> fail)
      else (buffer, None))"

definition save_attribute :: "sc_heap \<Rightarrow> jsnum \<times> jsnum \<times> elem \<Rightarrow> heap_buffer \<Rightarrow> heap_buffer \<times> js_error option" where
  "save_attribute h = (\<lambda>(k, t, e) buffer.
     save_value h t e (hb_write (encode_number 29 (js_number t)
       (hb_write (encode_number 47 (js_number k) (hb_write buffer CHUNK_SEP)) CHUNK_SUB_SEP)) CHUNK_SUB_SEP))"

fun save_attributes :: "sc_heap \<Rightarrow> (jsnum \<times> jsnum \<times> elem) list \<Rightarrow> heap_buffer \<Rightarrow> heap_buffer \<times> js_error option" where
  "save_attributes h [] buffer = (buffer, None)"
| "save_attributes h (a # as) buffer =
     (case save_attribute h a buffer of (buffer, None) \<Rightarrow> save_attributes h as buffer | r \<Rightarrow> r)"

definition sc_save :: "sc_heap \<Rightarrow> state_chunk \<Rightarrow> heap_buffer \<Rightarrow> heap_buffer \<times> js_error option" where
  "sc_save h c buffer = save_attributes h (ss_each h (sc_state c)) (encodeIntToBuffer (int (ss_count (sc_state c))) buffer)"

subsection \<open>Load\<close>

text \<open>
  The local variables.  \<open>ld_table\<close> and \<open>ld_v\<close> are the new arrays, which are null until the first separator of a load.  The
  current array of each type goes with the slots of \<open>ld_v\<close> that hold the same object, since a write to it is seen
  there.  Numbers decoded by \<open>decodeToInt\<close> are rationals.
\<close>

record ld_vars =
  ld_table :: "sc_table option"
  ld_v :: "elem option list"
  ld_number :: "rat option"
  ld_capacity :: nat
  ld_index :: nat
  ld_previousStart :: int
  ld_elemKey :: int
  ld_elemType :: "rat option"
  ld_first :: bool
  ld_doubleArr :: "(js_double list \<times> nat list) option"
  ld_longArr :: "(js_double list \<times> nat list) option"
  ld_intArr :: "(int list \<times> nat list) option"
  ld_stringLongMap :: "map_object option"
  ld_longLongMap :: "map_object option"
  ld_longLongArrayMap :: "map_object option"
  ld_subSize :: int
  ld_subIndex :: nat
  ld_mapLongKey :: int
  ld_mapStringKey :: "jsstring option"

text \<open>The heap, the chunk, whether it was declared dirty, and the local variables.\<close>

type_synonym load_state = "(sc_heap \<times> state_chunk) \<times> bool \<times> ld_vars"

definition ld_type :: "int \<Rightarrow> ld_vars \<Rightarrow> bool" where
  "ld_type t l = (ld_elemType l = Some (of_int t))"

definition rat_number :: "rat option \<Rightarrow> js_double" where
  "rat_number r = (case r of None \<Rightarrow> NotANumber | Some q \<Rightarrow> Finite q)"

text \<open>The length of a new typed array: NaN is 0, a fraction is cut off, a negative length is an error.\<close>

definition array_length :: "rat option \<Rightarrow> nat result" where
  "array_length r =
     (let n = (case r of None \<Rightarrow> 0 | Some q \<Rightarrow> if 0 \<le> q then \<lfloor>q\<rfloor> else \<lceil>q\<rceil>)
      in if n < 0 then Inl (JsError ''Invalid typed array length'') else Inr (nat n))"

text \<open>\<open>new Array\<close> does not take a fraction or NaN.\<close>

definition plain_length :: "rat option \<Rightarrow> nat result" where
  "plain_length r =
     bindr (array_length r) (\<lambda>n. if r = Some (of_nat n) then Inr n else Inl (JsError ''Invalid array length''))"

text \<open>The slots \<open>al\<close> hold the array that was written.\<close>

definition write_through :: "nat list \<Rightarrow> elem \<Rightarrow> elem option list \<Rightarrow> elem option list" where
  "write_through al e v = foldl (\<lambda>v i. v[i := Some e]) v al"

text \<open>A decoded number goes to the current array, at \<open>ld_subIndex\<close>.\<close>

definition put_double :: "js_double \<Rightarrow> ld_vars \<Rightarrow> ld_vars result" where
  "put_double x l = (case ld_doubleArr l of
       None \<Rightarrow> Inl TypeError
     | Some (xs, al) \<Rightarrow> let xs = wr xs (Some (int (ld_subIndex l))) x
         in Inr (l\<lparr>ld_doubleArr := Some (xs, al), ld_v := write_through al (EFloats xs) (ld_v l)\<rparr>))"

definition put_long :: "int \<Rightarrow> ld_vars \<Rightarrow> ld_vars result" where
  "put_long x l = (case ld_longArr l of
       None \<Rightarrow> Inl TypeError
     | Some (xs, al) \<Rightarrow> let xs = wr xs (Some (int (ld_subIndex l))) (Finite (of_int x))
         in Inr (l\<lparr>ld_longArr := Some (xs, al), ld_v := write_through al (EFloats xs) (ld_v l)\<rparr>))"

definition put_int :: "rat option \<Rightarrow> ld_vars \<Rightarrow> ld_vars result" where
  "put_int x l = (case ld_intArr l of
       None \<Rightarrow> Inl TypeError
     | Some (xs, al) \<Rightarrow> let xs = wr xs (Some (int (ld_subIndex l))) (double_to_int32 (rat_number x))
         in Inr (l\<lparr>ld_intArr := Some (xs, al), ld_v := write_through al (EInts xs) (ld_v l)\<rparr>))"

text \<open>
  A put to the current map; its listener is the chunk, which is in load mode and so is not declared dirty.
\<close>

definition put_string_map :: "jsstring \<Rightarrow> int \<Rightarrow> sc_heap \<times> ld_vars \<Rightarrow> (sc_heap \<times> ld_vars) result" where
  "put_string_map k x = (\<lambda>(h, l). case ld_stringLongMap l of
       None \<Rightarrow> Inl TypeError
     | Some m \<Rightarrow> let ((st, m), r) = slm_put k x (hp_slm h, m)
         in bindr r (\<lambda>_. Inr (h\<lparr>hp_slm := st\<rparr>, l\<lparr>ld_stringLongMap := Some m\<rparr>)))"

definition put_long_map :: "int \<Rightarrow> int \<Rightarrow> sc_heap \<times> ld_vars \<Rightarrow> (sc_heap \<times> ld_vars) result" where
  "put_long_map k x = (\<lambda>(h, l). case ld_longLongMap l of
       None \<Rightarrow> Inl TypeError
     | Some m \<Rightarrow> let ((st, m), r) = llm_put k x (hp_llm h, m)
         in bindr r (\<lambda>_. Inr (h\<lparr>hp_llm := st\<rparr>, l\<lparr>ld_longLongMap := Some m\<rparr>)))"

definition put_array_map :: "int \<Rightarrow> int \<Rightarrow> sc_heap \<times> ld_vars \<Rightarrow> (sc_heap \<times> ld_vars) result" where
  "put_array_map k x = (\<lambda>(h, l). case ld_longLongArrayMap l of
       None \<Rightarrow> Inl TypeError
     | Some m \<Rightarrow> let ((st, m), r) = lam_put k x (hp_lam h, m)
         in bindr r (\<lambda>_. Inr (h\<lparr>hp_lam := st\<rparr>, l\<lparr>ld_longLongArrayMap := Some m\<rparr>)))"

text \<open>
  The value that ends at \<open>cursor\<close>; null when there is none.  Only at the end of the payload (\<open>atEnd\<close>) a missing array is
  made, of the length that was read.
\<close>

definition end_array :: "bool \<Rightarrow> 'a \<Rightarrow> ('a list \<times> nat list) option \<Rightarrow> rat option result \<Rightarrow> ('a list \<times> nat list) option result" where
  "end_array atEnd z arr len =
     (if atEnd \<and> arr = None then bindr len (\<lambda>n. bindr (array_length n) (\<lambda>n. Inr (Some (replicate n z, [])))) else Inr None)"

definition load_value :: "bool \<Rightarrow> (int \<Rightarrow> jsnum result) \<Rightarrow> int \<Rightarrow> sc_heap \<times> ld_vars \<Rightarrow> ((sc_heap \<times> ld_vars) \<times> elem option) result" where
  "load_value atEnd src cursor = (\<lambda>(h, l).
     let p = ld_previousStart l;
         toLong = decodeToLongWithBounds src p cursor;
         toInt = decodeToIntWithBounds src p cursor
     in if ld_type BOOL l then bindr (src p) (\<lambda>b.
          Inr ((h, l), if b = Some BOOL_FALSE then Some (EBool False) else if b = Some BOOL_TRUE then Some (EBool True) else None))
        else if ld_type STRING l then bindr (decodeToStringWithBounds src p cursor) (\<lambda>s. Inr ((h, l), Some (EString s)))
        else if ld_type DOUBLE l then bindr (decodeToDoubleWithBounds src p cursor) (\<lambda>x. Inr ((h, l), Some (ENumber x)))
        else if ld_type LONG l then bindr toLong (\<lambda>x. Inr ((h, l), Some (ENumber (Finite (of_int x)))))
        else if ld_type INT_TYPE l then bindr toInt (\<lambda>x. Inr ((h, l), Some (ENumber (rat_number x))))
        else if ld_type DOUBLE_ARRAY l then bindr (end_array atEnd (Finite 0) (ld_doubleArr l) toInt) (\<lambda>new.
          bindr (if new \<noteq> None then Inr (l\<lparr>ld_doubleArr := new\<rparr>)
                 else bindr (decodeToDoubleWithBounds src p cursor) (\<lambda>x. put_double x l)) (\<lambda>l.
            Inr ((h, l), map_option (\<lambda>(xs, al). EFloats xs) (ld_doubleArr l))))
        else if ld_type LONG_ARRAY l then bindr (end_array atEnd (Finite 0) (ld_longArr l) toInt) (\<lambda>new.
          bindr (if new \<noteq> None then Inr (l\<lparr>ld_longArr := new\<rparr>)
                 else bindr toLong (\<lambda>x. put_long x l)) (\<lambda>l.
            Inr ((h, l), map_option (\<lambda>(xs, al). EFloats xs) (ld_longArr l))))
        else if ld_type INT_ARRAY l then bindr (end_array atEnd 0 (ld_intArr l) toInt) (\<lambda>new.
          bindr (if new \<noteq> None then Inr (l\<lparr>ld_intArr := new\<rparr>)
                 else bindr toInt (\<lambda>x. put_int x l)) (\<lambda>l.
            Inr ((h, l), map_option (\<lambda>(xs, al). EInts xs) (ld_intArr l))))
        else if ld_type STRING_LONG_MAP l then
          bindr (case ld_mapStringKey l of None \<Rightarrow> Inr (h, l) | Some k \<Rightarrow> bindr toLong (\<lambda>x. put_string_map k x (h, l))) (\<lambda>(h, l).
            Inr ((h, l), map_option EStringMap (ld_stringLongMap l)))
        else if ld_type LONG_LONG_MAP l then
          bindr (if ld_mapLongKey l \<noteq> NULL_LONG then bindr toLong (\<lambda>x. put_long_map (ld_mapLongKey l) x (h, l)) else Inr (h, l)) (\<lambda>(h, l).
            Inr ((h, l), map_option ELongMap (ld_longLongMap l)))
        else if ld_type LONG_LONG_ARRAY_MAP l then
          bindr (if ld_mapLongKey l \<noteq> NULL_LONG then bindr toLong (\<lambda>x. put_array_map (ld_mapLongKey l) x (h, l)) else Inr (h, l)) (\<lambda>(h, l).
            Inr ((h, l), map_option EArrayMap (ld_longLongArrayMap l)))
        else Inr ((h, l), None))"

text \<open>An attribute goes to the new arrays; the slot is noted for a current array.\<close>

definition note_slot :: "bool \<Rightarrow> nat \<Rightarrow> ('a \<times> nat list) option \<Rightarrow> ('a \<times> nat list) option" where
  "note_slot b i arr = (if b then map_option (\<lambda>(xs, al). (xs, i # al)) arr else arr)"

definition load_insert :: "elem \<Rightarrow> ld_vars \<Rightarrow> ld_vars result" where
  "load_insert e l = (case ld_table l of
       None \<Rightarrow> Inl TypeError
     | Some tb \<Rightarrow>
         let i = ld_index l; t = (case ld_elemType l of None \<Rightarrow> 0 | Some q \<Rightarrow> \<lfloor>q\<rfloor>) in
         bindr (longHash (ld_elemKey l) (int (ld_capacity l))) (\<lambda>hashIndex.
           let (nx, hs) = bucket_link None hashIndex (int i) (tb_next tb, tb_hash tb)
           in Inr (l\<lparr>ld_table := Some \<lparr>tb_k = wr (tb_k tb) (Some (int i)) (ld_elemKey l), tb_next = nx, tb_hash = hs,
                                      tb_type = wr (tb_type tb) (Some (int i)) (to_int8 t)\<rparr>,
                    ld_v := v_set i (Some e) (ld_v l), ld_index := i + 1,
                    ld_doubleArr := note_slot (ld_type DOUBLE_ARRAY l) i (ld_doubleArr l),
                    ld_longArr := note_slot (ld_type LONG_ARRAY l) i (ld_longArr l),
                    ld_intArr := note_slot (ld_type INT_ARRAY l) i (ld_intArr l)\<rparr>)))"

definition load_attribute :: "bool \<Rightarrow> bool \<Rightarrow> (int \<Rightarrow> jsnum result) \<Rightarrow> int \<Rightarrow> load_state \<Rightarrow> load_state result" where
  "load_attribute isMerge atEnd src cursor = (\<lambda>((h, c), told, l).
     if ld_type (-1) l then Inr ((h, c), told, l)
     else bindr (load_value atEnd src cursor (h, l)) (\<lambda>((h, l), toInsert).
       case toInsert of
         None \<Rightarrow> Inr ((h, c), told, l)
       | Some e \<Rightarrow>
           if isMerge
           then bindr (sc_internal_set (ld_elemKey l) (case ld_elemType l of None \<Rightarrow> 0 | Some q \<Rightarrow> \<lfloor>q\<rfloor>) (Some e) True (h, c))
                  (\<lambda>(w, b). Inr (w, told \<or> b, l))
           else bindr (load_insert e l) (\<lambda>l. Inr ((h, c), told, l))))"

text \<open>The separators.\<close>

definition load_begin :: "bool \<Rightarrow> (int \<Rightarrow> jsnum result) \<Rightarrow> int \<Rightarrow> ld_vars \<Rightarrow> ld_vars result" where
  "load_begin isMerge src cursor l =
     bindr (decodeToIntWithBounds src 0 cursor) (\<lambda>stateChunkSize.
     bindr (if isMerge then Inr l
            else let newStateChunkSize = (if stateChunkSize = Some 0 then Some 1 else map_option (\<lambda>q. q * 2) stateChunkSize)
                 in bindr (plain_length newStateChunkSize) (\<lambda>n.
                      Inr (l\<lparr>ld_number := stateChunkSize, ld_table := Some (empty_table n), ld_v := replicate n None, ld_capacity := n\<rparr>)))
       (\<lambda>l. Inr (l\<lparr>ld_first := False, ld_previousStart := cursor + 1\<rparr>)))"

definition load_sep :: "bool \<Rightarrow> (int \<Rightarrow> jsnum result) \<Rightarrow> int \<Rightarrow> load_state \<Rightarrow> load_state result" where
  "load_sep isMerge src cursor = (\<lambda>(w, told, l).
     if ld_first l then bindr (load_begin isMerge src cursor l) (\<lambda>l. Inr (w, told, l))
     else bindr (load_attribute isMerge False src cursor (w, told, l)) (\<lambda>(w, told, l).
       Inr (w, told, l\<lparr>ld_previousStart := cursor + 1, ld_elemKey := NULL_LONG, ld_elemType := Some (-1), ld_subSize := -1,
                      ld_subIndex := 0, ld_mapLongKey := NULL_LONG, ld_mapStringKey := None\<rparr>)))"

definition load_sub_sep :: "(int \<Rightarrow> jsnum result) \<Rightarrow> int \<Rightarrow> ld_vars \<Rightarrow> ld_vars result" where
  "load_sub_sep src cursor l =
     (if ld_elemKey l = NULL_LONG
      then bindr (decodeToLongWithBounds src (ld_previousStart l) cursor) (\<lambda>k.
             Inr (l\<lparr>ld_elemKey := k, ld_previousStart := cursor + 1\<rparr>))
      else if ld_type (-1) l
      then bindr (decodeToIntWithBounds src (ld_previousStart l) cursor) (\<lambda>t.
             Inr (l\<lparr>ld_elemType := t, ld_previousStart := cursor + 1\<rparr>))
      else Inr l)"

text \<open>The first \<open>CHUNK_SUB_SUB_SEP\<close> of a value ends its size: a new array or a new map of this capacity.\<close>

definition load_size :: "sc_heap \<times> ld_vars \<Rightarrow> (sc_heap \<times> ld_vars) result" where
  "load_size = (\<lambda>(h, l).
     let len = array_length (Some (of_int (ld_subSize l)))
     in if ld_type DOUBLE_ARRAY l then bindr len (\<lambda>n. Inr (h, l\<lparr>ld_doubleArr := Some (replicate n (Finite 0), [])\<rparr>))
        else if ld_type LONG_ARRAY l then bindr len (\<lambda>n. Inr (h, l\<lparr>ld_longArr := Some (replicate n (Finite 0), [])\<rparr>))
        else if ld_type INT_ARRAY l then bindr len (\<lambda>n. Inr (h, l\<lparr>ld_intArr := Some (replicate n 0, [])\<rparr>))
        else if ld_type STRING_LONG_MAP l then bindr len (\<lambda>n.
          let (st, m) = mo_create (slm_new n) True (hp_slm h) in Inr (h\<lparr>hp_slm := st\<rparr>, l\<lparr>ld_stringLongMap := Some m\<rparr>))
        else if ld_type LONG_LONG_MAP l then bindr len (\<lambda>n.
          let (st, m) = mo_create (llm_new n) True (hp_llm h) in Inr (h\<lparr>hp_llm := st\<rparr>, l\<lparr>ld_longLongMap := Some m\<rparr>))
        else if ld_type LONG_LONG_ARRAY_MAP l then bindr len (\<lambda>n.
          let (st, m) = mo_create (lam_new n) True (hp_lam h) in Inr (h\<lparr>hp_lam := st\<rparr>, l\<lparr>ld_longLongArrayMap := Some m\<rparr>))
        else Inr (h, l))"

definition next_index :: "ld_vars \<Rightarrow> ld_vars" where
  "next_index l = l\<lparr>ld_subIndex := ld_subIndex l + 1\<rparr>"

text \<open>The value for the pending key of a map ends here.\<close>

definition load_pair :: "(int \<Rightarrow> jsnum result) \<Rightarrow> int \<Rightarrow> sc_heap \<times> ld_vars \<Rightarrow> (sc_heap \<times> ld_vars) result" where
  "load_pair src cursor = (\<lambda>(h, l).
     let toLong = decodeToLongWithBounds src (ld_previousStart l) cursor in
     if ld_type STRING_LONG_MAP l then
       (case ld_mapStringKey l of None \<Rightarrow> Inr (h, l)
        | Some k \<Rightarrow> bindr toLong (\<lambda>x. bindr (put_string_map k x (h, l)) (\<lambda>(h, l). Inr (h, l\<lparr>ld_mapStringKey := None\<rparr>))))
     else if ld_mapLongKey l = NULL_LONG then Inr (h, l)
     else if ld_type LONG_LONG_MAP l then
       bindr toLong (\<lambda>x. bindr (put_long_map (ld_mapLongKey l) x (h, l)) (\<lambda>(h, l). Inr (h, l\<lparr>ld_mapLongKey := NULL_LONG\<rparr>)))
     else if ld_type LONG_LONG_ARRAY_MAP l then
       bindr toLong (\<lambda>x. bindr (put_array_map (ld_mapLongKey l) x (h, l)) (\<lambda>(h, l). Inr (h, l\<lparr>ld_mapLongKey := NULL_LONG\<rparr>)))
     else Inr (h, l))"

definition load_sub_sub_sep :: "(int \<Rightarrow> jsnum result) \<Rightarrow> int \<Rightarrow> sc_heap \<times> ld_vars \<Rightarrow> (sc_heap \<times> ld_vars) result" where
  "load_sub_sub_sep src cursor = (\<lambda>(h, l).
     let p = ld_previousStart l in
     bindr (if ld_subSize l = -1
            then bindr (decodeToLongWithBounds src p cursor) (\<lambda>n. load_size (h, l\<lparr>ld_subSize := n\<rparr>))
            else if ld_type DOUBLE_ARRAY l
            then bindr (decodeToDoubleWithBounds src p cursor) (\<lambda>x. bindr (put_double x l) (\<lambda>l. Inr (h, next_index l)))
            else if ld_type LONG_ARRAY l
            then bindr (decodeToLongWithBounds src p cursor) (\<lambda>x. bindr (put_long x l) (\<lambda>l. Inr (h, next_index l)))
            else if ld_type INT_ARRAY l
            then bindr (decodeToIntWithBounds src p cursor) (\<lambda>x. bindr (put_int x l) (\<lambda>l. Inr (h, next_index l)))
            else load_pair src cursor (h, l)) (\<lambda>(h, l). Inr (h, l\<lparr>ld_previousStart := cursor + 1\<rparr>)))"

text \<open>\<open>CHUNK_SUB_SUB_SUB_SEP\<close> ends a key of a map, or a value when a key is pending.\<close>

definition load_key_sep :: "(int \<Rightarrow> jsnum result) \<Rightarrow> int \<Rightarrow> sc_heap \<times> ld_vars \<Rightarrow> (sc_heap \<times> ld_vars) result" where
  "load_key_sep src cursor = (\<lambda>(h, l).
     let p = ld_previousStart l in
     bindr (if ld_type STRING_LONG_MAP l \<and> ld_mapStringKey l = None
            then bindr (decodeToStringWithBounds src p cursor) (\<lambda>k. Inr (h, l\<lparr>ld_mapStringKey := Some k\<rparr>))
            else if (ld_type LONG_LONG_MAP l \<or> ld_type LONG_LONG_ARRAY_MAP l) \<and> ld_mapLongKey l = NULL_LONG
            then bindr (decodeToLongWithBounds src p cursor) (\<lambda>k. Inr (h, l\<lparr>ld_mapLongKey := k\<rparr>))
            else load_pair src cursor (h, l)) (\<lambda>(h, l). Inr (h, l\<lparr>ld_previousStart := cursor + 1\<rparr>)))"

definition load_byte :: "bool \<Rightarrow> (int \<Rightarrow> jsnum result) \<Rightarrow> int \<Rightarrow> jsnum \<Rightarrow> load_state \<Rightarrow> load_state result" where
  "load_byte isMerge src cursor b = (\<lambda>((h, c), told, l).
     if b = Some CHUNK_SEP then load_sep isMerge src cursor ((h, c), told, l)
     else if b = Some CHUNK_SUB_SEP then bindr (load_sub_sep src cursor l) (\<lambda>l. Inr ((h, c), told, l))
     else if b = Some CHUNK_SUB_SUB_SEP then bindr (load_sub_sub_sep src cursor (h, l)) (\<lambda>(h, l). Inr ((h, c), told, l))
     else if b = Some CHUNK_SUB_SUB_SUB_SEP then bindr (load_key_sep src cursor (h, l)) (\<lambda>(h, l). Inr ((h, c), told, l))
     else Inr ((h, c), told, l))"

text \<open>
  \<open>load\<close>, with the result of an error only.  Without a separator the new state has no arrays, which are empty ones
  here; the length 0 keeps them from being read.
\<close>

definition ld_start :: ld_vars where
  "ld_start = \<lparr>ld_table = None, ld_v = [], ld_number = Some 0, ld_capacity = 0, ld_index = 0, ld_previousStart = -1,
     ld_elemKey = NULL_LONG, ld_elemType = Some (-1), ld_first = True, ld_doubleArr = None, ld_longArr = None, ld_intArr = None,
     ld_stringLongMap = None, ld_longLongMap = None, ld_longLongArrayMap = None, ld_subSize = -1, ld_subIndex = 0,
     ld_mapLongKey = NULL_LONG, ld_mapStringKey = None\<rparr>"

definition loaded_state :: "sc_heap \<times> ld_vars \<Rightarrow> sc_heap \<times> sc_state" where
  "loaded_state = (\<lambda>(h, l).
     tb_new (case ld_table l of None \<Rightarrow> empty_table 0 | Some tb \<Rightarrow> tb)
       (h, \<lparr>ss_size = ld_capacity l, ss_table = 0, ss_v = ld_v l,
            ss_count = (case ld_number l of None \<Rightarrow> 0 | Some q \<Rightarrow> nat \<lfloor>q\<rfloor>), ss_readOnly = False\<rparr>))"

definition sc_load :: "payload \<Rightarrow> bool \<Rightarrow> sc_heap \<times> state_chunk \<Rightarrow> ((sc_heap \<times> state_chunk) \<times> bool) result" where
  "sc_load payload isMerge = (\<lambda>(h, c).
     case payload of
       None \<Rightarrow> Inr ((h, c), False)
     | Some (src, sz) \<Rightarrow>
         if sz = Some 0 then Inr ((h, c), False)
         else bindr (scan_bytes (load_byte isMerge src) src sz 0 ((h, c\<lparr>sc_inLoadMode := True\<rparr>), False, ld_start)) (\<lambda>s.
              bindr (load_attribute isMerge True src (case sz of None \<Rightarrow> 0 | Some n \<Rightarrow> max 0 n) s) (\<lambda>((h, c), told, l).
                let (h, s) = (if isMerge then (h, sc_state c) else loaded_state (h, l))
                in Inr ((h, c\<lparr>sc_inLoadMode := False, sc_state := s\<rparr>), told))))"

definition sc_merge :: "payload \<Rightarrow> sc_heap \<times> state_chunk \<Rightarrow> ((sc_heap \<times> state_chunk) \<times> bool) result" where
  "sc_merge buffer = sc_load buffer True"

text \<open>The constructor with a payload; the state of the new object is undefined until it is loaded.\<close>

definition HeapStateChunkLoad :: "int \<Rightarrow> int \<Rightarrow> int \<Rightarrow> bool \<Rightarrow> payload \<Rightarrow> state_chunk option \<Rightarrow> sc_heap \<Rightarrow> (sc_heap \<times> state_chunk) result" where
  "HeapStateChunkLoad p_world p_time p_id p_space initialPayload origin h =
     (case initialPayload of
        None \<Rightarrow> Inr (HeapStateChunk p_world p_time p_id p_space origin h)
      | Some (src, sz) \<Rightarrow>
          if js_less 0 sz
          then bindr (sc_load initialPayload False (h, \<lparr>sc_world = p_world, sc_time = p_time, sc_id = p_id, sc_flags = 0,
                 sc_marks = 0, sc_space = p_space, sc_inLoadMode = False,
                 sc_state = \<lparr>ss_size = 0, ss_table = 0, ss_v = [], ss_count = 0, ss_readOnly = False\<rparr>\<rparr>)) (\<lambda>(w, _). Inr w)
          else Inr (HeapStateChunk p_world p_time p_id p_space origin h))"

end
