(* ===== verification/Graph.thy ===== *)
theory Graph
  imports ChunkCache GenChunk StateChunkSave
begin

text \<open>
  The state of a graph: the cache of chunks (\<open>HeapChunkSpace\<close>) with the four classes of chunks in it, and the nodes.
  The resolver and the nodes are programs over this state.

  A chunk is a reference into two lists: \<open>cs_store\<close> of the cache holds its key, its marks and its flags, \<open>db_body\<close> its
  content.  The marks and flags inside a content are not used here: a content reads the flags of its head
  (\<open>with_flags\<close>).  The storage answers a request at once (\<open>ge_get\<close>), as \<open>BlackHoleStorage\<close> does; what is put into it is not
  followed.  An operation of the cache that throws leaves the cache as it was.
\<close>

subsection \<open>Constants\<close>

definition STATE_CHUNK :: int where "STATE_CHUNK = 0"
definition TIME_TREE_CHUNK :: int where "TIME_TREE_CHUNK = 1"
definition WORLD_ORDER_CHUNK :: int where "WORLD_ORDER_CHUNK = 2"
definition GEN_CHUNK :: int where "GEN_CHUNK = 3"

lemmas chunk_types = STATE_CHUNK_def TIME_TREE_CHUNK_def WORLD_ORDER_CHUNK_def GEN_CHUNK_def

definition END_OF_TIME :: int where "END_OF_TIME = 0x1FFFFFFFFFFFFE"
definition BEGINNING_OF_TIME :: int where "BEGINNING_OF_TIME = - 0x1FFFFFFFFFFFFE"

subsection \<open>The state\<close>

datatype chunk_body =
    StateBody state_chunk
  | TreeBody time_tree
  | OrderBody wo_chunk
  | GenBody gen_chunk

text \<open>The six numbers of \<open>_previousResolveds\<close>.\<close>

record resolved =
  rs_world :: int
  rs_superTime :: int
  rs_time :: int
  rs_worldMagic :: int
  rs_superTimeMagic :: int
  rs_timeMagic :: int

record node =
  nd_world :: int
  nd_time :: int
  nd_id :: int
  nd_resolved :: "resolved option"

record mwdb =
  db_space :: chunk_space
  db_body :: "chunk_body list"
  db_heap :: sc_heap
  db_nodes :: "node list"
  db_dictionary :: "nat option"    \<comment> \<open>the field of the resolver\<close>
  db_connected :: bool
  db_lock :: bool
  db_prefix :: int
  db_nodeKeys :: "nat option"
  db_worldKeys :: "nat option"

text \<open>
  Whether the storage is a \<open>BlackHoleStorage\<close>, its answer to a request, and what its \<open>put\<close> calls back with
  (\<open>None\<close>: it does not call back).
\<close>

record graph_env =
  ge_noop :: bool
  ge_get :: "heap_buffer \<Rightarrow> heap_buffer result"
  ge_put :: "heap_buffer \<Rightarrow> bool option"

subsection \<open>Programs over the state\<close>

text \<open>A program returns the state also when it throws, because the callers catch errors and go on.\<close>

type_synonym 'a op = "mwdb \<Rightarrow> mwdb \<times> 'a result"

definition ret :: "'a \<Rightarrow> 'a op" where
  "ret a db = (db, Inr a)"

definition throw :: "js_error \<Rightarrow> 'a op" where
  "throw e db = (db, Inl e)"

definition seqo :: "'a op \<Rightarrow> ('a \<Rightarrow> 'b op) \<Rightarrow> 'b op" where
  "seqo m f db = (case m db of (db, Inl e) \<Rightarrow> (db, Inl e) | (db, Inr a) \<Rightarrow> f a db)"

definition of_result :: "'a result \<Rightarrow> 'a op" where
  "of_result r db = (db, r)"

definition get_db :: "(mwdb \<Rightarrow> 'a) \<Rightarrow> 'a op" where
  "get_db f db = (db, Inr (f db))"

definition upd_db :: "(mwdb \<Rightarrow> mwdb) \<Rightarrow> unit op" where
  "upd_db f db = (f db, Inr ())"

text \<open>\<open>try { m } catch { console.error }\<close>: an error is logged and the result is \<open>x\<close>.\<close>

definition try_log :: "'a op \<Rightarrow> 'a \<Rightarrow> 'a op" where
  "try_log m x db = (case m db of
     (db, Inl NoReturn) \<Rightarrow> (db, Inl NoReturn) | (db, Inl e) \<Rightarrow> (db, Inr x) | (db, Inr a) \<Rightarrow> (db, Inr a))"

lemma seqo_simps [simp]:
  "seqo (ret a) f = f a"
  "seqo (throw e) k = throw e"
  "seqo (of_result (Inr b)) g = g b"
  "seqo (of_result (Inl e)) l = throw e"
  "seqo (get_db h) m db = m (h db) db"
  "seqo (upd_db u) n db = n () (u db)"
  by (simp_all add: fun_eq_iff seqo_def ret_def throw_def of_result_def get_db_def upd_db_def)

text \<open>An operation of the cache.\<close>

definition on_space :: "(chunk_space \<Rightarrow> (chunk_space \<times> 'a) result) \<Rightarrow> 'a op" where
  "on_space f db = (case f (db_space db) of Inl e \<Rightarrow> (db, Inl e) | Inr (s, a) \<Rightarrow> (db\<lparr>db_space := s\<rparr>, Inr a))"

definition with_unit :: "'a result \<Rightarrow> ('a \<times> unit) result" where
  "with_unit r = bindr r (\<lambda>s. Inr (s, ()))"

definition db_getAndMark :: "int \<Rightarrow> int \<Rightarrow> int \<Rightarrow> int \<Rightarrow> nat option op" where
  "db_getAndMark t w i k = on_space (cs_getAndMark (t, w, i, k))"

definition db_unmark :: "int \<Rightarrow> int \<Rightarrow> int \<Rightarrow> int \<Rightarrow> unit op" where
  "db_unmark t w i k = on_space (\<lambda>s. with_unit (cs_unmark (t, w, i, k) s))"

definition db_unmarkChunk :: "nat \<Rightarrow> unit op" where
  "db_unmarkChunk r = on_space (\<lambda>s. with_unit (cs_unmarkChunk r s))"

definition db_putAndMark :: "nat \<Rightarrow> nat option op" where
  "db_putAndMark r = on_space (cs_putAndMark r)"

text \<open>The \<open>save\<close> method of a chunk, which \<open>declareDirty\<close> may call for the chunks of a full dirty list.\<close>

definition db_saver :: "mwdb \<Rightarrow> saver" where
  "db_saver db r stream =
     (case db_body db ! r of
        StateBody c \<Rightarrow> sc_save (db_heap db) c stream
      | TreeBody t \<Rightarrow> (tt_save t stream, None)
      | OrderBody c \<Rightarrow> (case wo_save c stream of Inl e \<Rightarrow> (stream, Some e) | Inr b \<Rightarrow> (b, None))
      | GenBody g \<Rightarrow> (gc_save g stream, None))"

definition db_declareDirty :: "graph_env \<Rightarrow> nat \<Rightarrow> unit op" where
  "db_declareDirty env r db = on_space (\<lambda>s. with_unit (cs_declareDirty (ge_noop env) (db_saver db) r s)) db"

subsection \<open>The content of a chunk\<close>

definition set_body :: "nat \<Rightarrow> chunk_body \<Rightarrow> unit op" where
  "set_body r b = upd_db (\<lambda>db. db\<lparr>db_body := (db_body db)[r := b]\<rparr>)"

definition head_flags :: "nat \<Rightarrow> mwdb \<Rightarrow> int" where
  "head_flags r db = ch_flags (cs_store (db_space db) ! r)"

definition with_flags :: "int \<Rightarrow> chunk_body \<Rightarrow> chunk_body" where
  "with_flags f b =
     (case b of
        StateBody c \<Rightarrow> StateBody (c\<lparr>sc_flags := f\<rparr>)
      | TreeBody t \<Rightarrow> TreeBody (t\<lparr>tt_flags := f\<rparr>)
      | OrderBody c \<Rightarrow> OrderBody (c\<lparr>wc_flags := f\<rparr>)
      | GenBody g \<Rightarrow> GenBody (g\<lparr>gc_flags := f\<rparr>))"

definition body :: "nat \<Rightarrow> chunk_body op" where
  "body r = get_db (\<lambda>db. with_flags (head_flags r db) (db_body db ! r))"

text \<open>A method that only one class has is a \<open>TypeError\<close> on the others.\<close>

definition the_tree :: "nat \<Rightarrow> time_tree op" where
  "the_tree r = seqo (body r) (\<lambda>b. case b of TreeBody t \<Rightarrow> ret t | _ \<Rightarrow> throw TypeError)"

definition the_order :: "nat \<Rightarrow> wo_chunk op" where
  "the_order r = seqo (body r) (\<lambda>b. case b of OrderBody c \<Rightarrow> ret c | _ \<Rightarrow> throw TypeError)"

definition the_state :: "nat \<Rightarrow> state_chunk op" where
  "the_state r = seqo (body r) (\<lambda>b. case b of StateBody c \<Rightarrow> ret c | _ \<Rightarrow> throw TypeError)"

definition the_gen :: "nat \<Rightarrow> gen_chunk op" where
  "the_gen r = seqo (body r) (\<lambda>b. case b of GenBody g \<Rightarrow> ret g | _ \<Rightarrow> throw TypeError)"

text \<open>The chunk calls \<open>declareDirty\<close> of the cache after the change.\<close>

definition told :: "graph_env \<Rightarrow> nat \<Rightarrow> bool \<Rightarrow> unit op" where
  "told env r b = (if b then db_declareDirty env r else ret ())"

definition tree_insert :: "graph_env \<Rightarrow> nat \<Rightarrow> int \<Rightarrow> unit op" where
  "tree_insert env r k = seqo (the_tree r) (\<lambda>t. seqo (of_result (tt_insert k t)) (\<lambda>(t, b).
     seqo (set_body r (TreeBody t)) (\<lambda>_. told env r b)))"

definition tree_unsafe_insert :: "nat \<Rightarrow> int \<Rightarrow> unit op" where
  "tree_unsafe_insert r k = seqo (the_tree r) (\<lambda>t. seqo (of_result (tt_unsafe_insert k t)) (\<lambda>t. set_body r (TreeBody t)))"

definition tree_clearAt :: "graph_env \<Rightarrow> nat \<Rightarrow> int \<Rightarrow> unit op" where
  "tree_clearAt env r k = seqo (the_tree r) (\<lambda>t. seqo (of_result (tt_clearAt k t)) (\<lambda>(t, b).
     seqo (set_body r (TreeBody t)) (\<lambda>_. told env r b)))"

definition order_put :: "graph_env \<Rightarrow> nat \<Rightarrow> int \<Rightarrow> int \<Rightarrow> unit op" where
  "order_put env r k v = seqo (the_order r) (\<lambda>c. seqo (of_result (wo_put k v c)) (\<lambda>(c, b).
     seqo (set_body r (OrderBody c)) (\<lambda>_. told env r b)))"

definition order_setExtra :: "nat \<Rightarrow> int \<Rightarrow> unit op" where
  "order_setExtra r x = seqo (the_order r) (\<lambda>c. set_body r (OrderBody (wo_setExtra x c)))"

text \<open>An operation of a state chunk, with the heap that the state chunks share.\<close>

definition on_state :: "graph_env \<Rightarrow> nat \<Rightarrow> (sc_heap \<times> state_chunk \<Rightarrow> ('a \<times> (sc_heap \<times> state_chunk) \<times> bool) result) \<Rightarrow> 'a op" where
  "on_state env r f = seqo (the_state r) (\<lambda>c. seqo (get_db db_heap) (\<lambda>h. seqo (of_result (f (h, c))) (\<lambda>(a, (h, c), b).
     seqo (upd_db (\<lambda>db. db\<lparr>db_heap := h\<rparr>)) (\<lambda>_. seqo (set_body r (StateBody c)) (\<lambda>_. seqo (told env r b) (\<lambda>_. ret a))))))"

subsection \<open>Creation\<close>

text \<open>\<open>create\<close>: a new object; the origin of a state chunk may be null.\<close>

definition alloc :: "chunk_key \<Rightarrow> chunk_body \<Rightarrow> nat op" where
  "alloc key b = seqo (get_db (\<lambda>db. length (cs_store (db_space db)))) (\<lambda>r.
     seqo (upd_db (\<lambda>db. db\<lparr>db_space := (db_space db)\<lparr>cs_store := cs_store (db_space db) @ [\<lparr>ch_key = key, ch_marks = 0, ch_flags = 0\<rparr>]\<rparr>,
                           db_body := db_body db @ [b]\<rparr>)) (\<lambda>_. ret r))"

definition create :: "int \<Rightarrow> int \<Rightarrow> int \<Rightarrow> int \<Rightarrow> payload \<Rightarrow> nat option \<Rightarrow> nat option op" where
  "create p_type p_world p_time p_id p_initialPayload origin =
     (let new = (\<lambda>b. seqo (alloc (p_type, p_world, p_time, p_id) b) (\<lambda>r. ret (Some r)))
      in if p_type = STATE_CHUNK then
           seqo (case origin of None \<Rightarrow> ret None | Some r \<Rightarrow> seqo (the_state r) (\<lambda>c. ret (Some c))) (\<lambda>o'.
           seqo (get_db db_heap) (\<lambda>h.
           seqo (of_result (HeapStateChunkLoad p_world p_time p_id True p_initialPayload o' h)) (\<lambda>(h, c).
           seqo (upd_db (\<lambda>db. db\<lparr>db_heap := h\<rparr>)) (\<lambda>_. new (StateBody c)))))
         else if p_type = WORLD_ORDER_CHUNK then
           seqo (of_result (HeapWorldOrderChunk p_world p_time p_id True p_initialPayload)) (\<lambda>c. new (OrderBody c))
         else if p_type = TIME_TREE_CHUNK then
           seqo (of_result (HeapTimeTreeChunk p_world p_time p_id True p_initialPayload)) (\<lambda>t. new (TreeBody t))
         else if p_type = GEN_CHUNK then
           seqo (of_result (HeapGenChunk p_world p_time p_id True p_initialPayload)) (\<lambda>g. new (GenBody g))
         else ret None)"

text \<open>
  \<open>create\<close> and \<open>putAndMark\<close> of an empty chunk, as the resolver does it everywhere; \<open>freeChunk\<close> of an object that was not
  taken does nothing.
\<close>

definition the_chunk :: "nat option \<Rightarrow> nat op" where
  "the_chunk r = (case r of None \<Rightarrow> throw TypeError | Some r \<Rightarrow> ret r)"

definition create_put :: "int \<Rightarrow> int \<Rightarrow> int \<Rightarrow> int \<Rightarrow> nat option \<Rightarrow> nat op" where
  "create_put t w i k origin =
     seqo (create t w i k None origin) (\<lambda>r. seqo (the_chunk r) (\<lambda>r. seqo (db_putAndMark r) the_chunk))"

subsection \<open>The storage without content\<close>

text \<open>\<open>BlackHoleStorage.get\<close>: one separator less than there are keys.\<close>

definition blackhole_get :: "heap_buffer \<Rightarrow> heap_buffer result" where
  "blackhole_get keys =
     bindr (it_collect (Suc (case hb_size keys of None \<Rightarrow> 0 | Some n \<Rightarrow> nat n + 1)) keys (newBufferIterator keys)) (\<lambda>vs.
       Inr (foldl hb_write newHeapBuffer (replicate (length vs - 1) BUFFER_SEP)))"

definition blackhole_env :: graph_env where
  "blackhole_env = \<lparr>ge_noop = True, ge_get = blackhole_get, ge_put = (\<lambda>_. Some True)\<rparr>"

end
