(* ===== verification/Resolver.thy ===== *)
theory Resolver
  imports Graph
begin

text \<open>
  \<open>MWGResolver\<close>: which chunk holds the state of a node at a world and a time.  A node has a world order chunk (the
  worlds in which it was changed, each with the time from which on it differs), per world a time tree of super times, per
  super time a time tree of times, and per time a state chunk.  Every operation marks the chunks that it takes from the cache and
  releases them.

  The locks of the chunks do nothing in JavaScript, and the tracker of nodes neither; there are no node factories.
\<close>

definition DEAD_NODE_ERROR :: string where
  "DEAD_NODE_ERROR = ''This Node has been tagged destroyed, please don't use it anymore!''"

definition dead_node :: "int \<Rightarrow> js_error" where
  "dead_node i = JsError (DEAD_NODE_ERROR @ '' node id: '' @ show_int i)"

definition order_key :: "int \<Rightarrow> nat option op" where
  "order_key i = db_getAndMark WORLD_ORDER_CHUNK NULL_LONG NULL_LONG i"

text \<open>A number that is used as the next key or bound; with \<open>undefined\<close> the next call throws.\<close>

definition defined :: "jsnum result \<Rightarrow> int result" where
  "defined r = bindr r (\<lambda>v. case v of None \<Rightarrow> Inl TypeError | Some x \<Rightarrow> Inr x)"

fun all_defined :: "jsnum list \<Rightarrow> int list result" where
  "all_defined [] = Inr []"
| "all_defined (v # vs) = bindr (defined (Inr v)) (\<lambda>x. bindr (all_defined vs) (\<lambda>xs. Inr (x # xs)))"

definition node_at :: "nat \<Rightarrow> node op" where
  "node_at n = get_db (\<lambda>db. db_nodes db ! n)"

definition set_resolved :: "nat \<Rightarrow> resolved option \<Rightarrow> unit op" where
  "set_resolved n r = upd_db (\<lambda>db. db\<lparr>db_nodes := (db_nodes db)[n := (db_nodes db ! n)\<lparr>nd_resolved := r\<rparr>]\<rparr>)"

definition new_node_object :: "node \<Rightarrow> nat op" where
  "new_node_object nd = seqo (get_db (\<lambda>db. length (db_nodes db))) (\<lambda>n.
     seqo (upd_db (\<lambda>db. db\<lparr>db_nodes := db_nodes db @ [nd]\<rparr>)) (\<lambda>_. ret n))"

text \<open>One after the other; the results are dropped.\<close>

fun do_all :: "unit op list \<Rightarrow> unit op" where
  "do_all [] = ret ()"
| "do_all (m # ms) = seqo m (\<lambda>_. do_all ms)"

definition unmark_all :: "nat list \<Rightarrow> unit op" where
  "unmark_all rs = do_all (map db_unmarkChunk rs)"

text \<open>\<open>unmarkChunk\<close> of what may be null.\<close>

definition unmark_ref :: "nat option \<Rightarrow> unit op" where
  "unmark_ref r = seqo (the_chunk r) db_unmarkChunk"

subsection \<open>Life of a node\<close>

definition init :: "unit op" where
  "init = seqo (db_getAndMark STATE_CHUNK NULL_LONG 0 0) (\<lambda>r. upd_db (\<lambda>db. db\<lparr>db_dictionary := r\<rparr>))"

definition initNode :: "graph_env \<Rightarrow> nat \<Rightarrow> int \<Rightarrow> unit op" where
  "initNode env n codeType = seqo (node_at n) (\<lambda>nd.
     let w = nd_world nd; t = nd_time nd; i = nd_id nd in
     seqo (create_put STATE_CHUNK w t i None) (\<lambda>cacheEntry.
     seqo (db_declareDirty env cacheEntry) (\<lambda>_.
     seqo (create_put TIME_TREE_CHUNK w NULL_LONG i None) (\<lambda>superTimeTree.
     seqo (tree_insert env superTimeTree t) (\<lambda>_.
     seqo (create_put TIME_TREE_CHUNK w t i None) (\<lambda>timeTree.
     seqo (tree_insert env timeTree t) (\<lambda>_.
     seqo (create_put WORLD_ORDER_CHUNK NULL_LONG NULL_LONG i None) (\<lambda>objectWorldOrder.
     seqo (order_put env objectWorldOrder w t) (\<lambda>_.
     seqo (order_setExtra objectWorldOrder codeType) (\<lambda>_.
     seqo (order_key NULL_LONG) (\<lambda>_. ret ())))))))))))"

definition initWorld :: "graph_env \<Rightarrow> int \<Rightarrow> int \<Rightarrow> unit op" where
  "initWorld env parentWorld childWorld =
     seqo (order_key NULL_LONG) (\<lambda>r. seqo (the_chunk r) (\<lambda>worldOrder.
     seqo (order_put env worldOrder childWorld parentWorld) (\<lambda>_. db_unmarkChunk worldOrder)))"

text \<open>The result is the type of the node.\<close>

definition markNodeAndGetType :: "nat \<Rightarrow> int op" where
  "markNodeAndGetType n = seqo (node_at n) (\<lambda>nd.
     let w = nd_world nd; t = nd_time nd; i = nd_id nd in
     case nd_resolved nd of
       None \<Rightarrow> throw (dead_node i)
     | Some initPreviouslyResolved \<Rightarrow>
         seqo (db_getAndMark STATE_CHUNK w t i) (\<lambda>_.
         seqo (db_getAndMark TIME_TREE_CHUNK w NULL_LONG i) (\<lambda>_.
         seqo (db_getAndMark TIME_TREE_CHUNK w (rs_superTime initPreviouslyResolved) i) (\<lambda>_.
         seqo (order_key i) (\<lambda>worldOrderChunk.
         seqo (order_key NULL_LONG) (\<lambda>_.
         seqo (the_chunk worldOrderChunk) (\<lambda>r. seqo (the_order r) (\<lambda>c. ret (wc_extra c)))))))))"

definition freeNode :: "nat \<Rightarrow> unit op" where
  "freeNode n = seqo (node_at n) (\<lambda>nd.
     let i = nd_id nd in
     seqo (set_resolved n None) (\<lambda>_.
       case nd_resolved nd of
         None \<Rightarrow> ret ()
       | Some p \<Rightarrow> do_all
           [db_unmark STATE_CHUNK (rs_world p) (rs_time p) i,
            db_unmark TIME_TREE_CHUNK (rs_world p) NULL_LONG i,
            db_unmark TIME_TREE_CHUNK (rs_world p) (rs_superTime p) i,
            db_unmark WORLD_ORDER_CHUNK NULL_LONG NULL_LONG i,
            db_unmark WORLD_ORDER_CHUNK NULL_LONG NULL_LONG NULL_LONG]))"

subsection \<open>Worlds\<close>

text \<open>
  The loop over the ancestors of a world; \<open>Some None\<close> is leaving it at the end of the chain.  The global order has
  \<open>NULL_LONG\<close> for a world without a parent, and for \<open>NULL_LONG\<close> itself.
\<close>

partial_function (option) resolve_world_loop ::
    "(int \<Rightarrow> int result) \<Rightarrow> (int \<Rightarrow> int result) \<Rightarrow> int \<Rightarrow> int \<Rightarrow> int \<Rightarrow> int \<Rightarrow> int option result option" where
  "resolve_world_loop parent divergence timeToResolve currentUniverse previousUniverse divergenceTime =
     (if currentUniverse = previousUniverse then Some (Inr None)
      else if divergenceTime \<noteq> NULL_LONG \<and> divergenceTime \<le> timeToResolve then Some (Inr (Some currentUniverse))
      else case parent currentUniverse of
          Inl e \<Rightarrow> Some (Inl e)
        | Inr u \<Rightarrow> (case divergence u of
              Inl e \<Rightarrow> Some (Inl e)
            | Inr d \<Rightarrow> resolve_world_loop parent divergence timeToResolve u currentUniverse d))"

declare resolve_world_loop.simps [code]

definition order_get :: "wo_chunk \<Rightarrow> int \<Rightarrow> int result" where
  "order_get c k = defined (wo_get k c)"

definition resolve_world :: "wo_chunk \<Rightarrow> wo_chunk \<Rightarrow> int \<Rightarrow> int \<Rightarrow> int result" where
  "resolve_world globalWorldOrder nodeWorldOrder timeToResolve originWorld =
     bindr (order_get nodeWorldOrder originWorld) (\<lambda>divergenceTime.
     case resolve_world_loop (order_get globalWorldOrder) (order_get nodeWorldOrder) timeToResolve originWorld NULL_LONG divergenceTime of
       None \<Rightarrow> Inl NoReturn
     | Some r \<Rightarrow> bindr r (\<lambda>w. Inr (case w of None \<Rightarrow> originWorld | Some u \<Rightarrow> u)))"

subsection \<open>Loading\<close>

definition view_payload :: "heap_buffer \<Rightarrow> buffer_view \<Rightarrow> payload" where
  "view_payload b v = Some (bv_read b v, Some (bv_size v))"

definition getOrLoadAndMark :: "graph_env \<Rightarrow> int \<Rightarrow> int \<Rightarrow> int \<Rightarrow> int \<Rightarrow> nat option op" where
  "getOrLoadAndMark env t w i k =
     (if w = END_OF_TIME \<and> i = END_OF_TIME \<and> k = END_OF_TIME then ret None
      else seqo (db_getAndMark t w i k) (\<lambda>cached.
        if cached \<noteq> None then ret cached
        else seqo (of_result (ge_get env (keyToBuffer newHeapBuffer t w i k))) (\<lambda>payloads.
          let it = newBufferIterator payloads in
          if it_hasNext it then
            seqo (of_result (it_next payloads it)) (\<lambda>(view, _).
              case view of
                None \<Rightarrow> throw TypeError
              | Some v \<Rightarrow>
                  if bv_size v > 0 then
                    seqo (create t w i k (view_payload payloads v) None) (\<lambda>res.
                    seqo (the_chunk res) (\<lambda>r. seqo (db_putAndMark r) (\<lambda>_. ret (Some r))))
                  else ret None)
          else ret None)))"

text \<open>The first pass takes from the cache; the keys that are missing there are asked for at once.\<close>

fun mark_all :: "(int \<times> int \<times> int \<times> int) list \<Rightarrow> (nat option \<times> bool) list op" where
  "mark_all [] = ret []"
| "mark_all ((t, w, i, k) # ks) =
     seqo (if w = END_OF_TIME \<and> i = END_OF_TIME \<and> k = END_OF_TIME then ret (None, False)
           else seqo (db_getAndMark t w i k) (\<lambda>r. ret (r, r = None))) (\<lambda>x.
     seqo (mark_all ks) (\<lambda>xs. ret (x # xs)))"

fun keys_buffer :: "bool \<Rightarrow> (int \<times> int \<times> int \<times> int) list \<Rightarrow> heap_buffer \<Rightarrow> heap_buffer" where
  "keys_buffer isFirst [] b = b"
| "keys_buffer isFirst ((t, w, i, k) # ks) b =
     keys_buffer False ks (keyToBuffer (if isFirst then b else hb_write b BUFFER_SEP) t w i k)"

text \<open>
  The answers, in the order of the keys that were asked for; \<open>buffer_fuel\<close> rounds are enough, since the cursor of the
  iterator moves on.  A chunk that is made of an answer is neither put into the cache nor marked.  Answers beyond the keys
  are dropped.
\<close>

fun it_views :: "nat \<Rightarrow> heap_buffer \<Rightarrow> buffer_iterator \<Rightarrow> buffer_view list result" where
  "it_views 0 origin it = Inl NoReturn"
| "it_views (Suc n) origin it =
     (if it_hasNext it then
        bindr (it_next origin it) (\<lambda>(v, it'). case v of
            None \<Rightarrow> Inl TypeError
          | Some v \<Rightarrow> bindr (it_views n origin it') (\<lambda>vs. Inr (v # vs)))
      else Inr [])"

definition buffer_fuel :: "heap_buffer \<Rightarrow> nat" where
  "buffer_fuel b = Suc (case hb_size b of None \<Rightarrow> 0 | Some n \<Rightarrow> nat n + 1)"

fun load_all :: "heap_buffer \<Rightarrow> (nat \<times> int \<times> int \<times> int \<times> int) list \<Rightarrow> buffer_view list \<Rightarrow> nat option list \<Rightarrow> nat option list op" where
  "load_all b ((j, t, w, i, k) # ks) (v # vs) res =
     seqo (if bv_size v > 0 then create t w i k (view_payload b v) None else ret None) (\<lambda>r. load_all b ks vs (res[j := r]))"
| "load_all b ks vs res = ret res"

definition getOrLoadAndMarkAll :: "graph_env \<Rightarrow> (int \<times> int \<times> int \<times> int) list \<Rightarrow> nat option list op" where
  "getOrLoadAndMarkAll env keys =
     seqo (mark_all keys) (\<lambda>rs.
       let toLoad = map fst (filter (\<lambda>(_, _, b). b) (zip [0..<length keys] rs)) in
       if toLoad = [] then ret (map fst rs)
       else seqo (of_result (ge_get env (keys_buffer True (map ((!) keys) toLoad) newHeapBuffer))) (\<lambda>fromDbBuffers.
            seqo (of_result (it_views (buffer_fuel fromDbBuffers) fromDbBuffers (newBufferIterator fromDbBuffers))) (\<lambda>views.
              load_all fromDbBuffers (zip toLoad (map ((!) keys) toLoad)) views (map fst rs))))"

text \<open>
  \<open>lookup\<close>: the node, or null with every mark released.  An error is logged and the callback is not called, which is
  \<open>None\<close> here.
\<close>

definition new_resolved :: "nat \<Rightarrow> nat \<Rightarrow> nat \<Rightarrow> int \<Rightarrow> int \<Rightarrow> int \<Rightarrow> resolved op" where
  "new_resolved orderRef superRef treeRef w st t =
     seqo (the_order orderRef) (\<lambda>o'. seqo (the_tree superRef) (\<lambda>s. seqo (the_tree treeRef) (\<lambda>tt.
       ret \<lparr>rs_world = w, rs_superTime = st, rs_time = t, rs_worldMagic = wc_magic o', rs_superTimeMagic = tt_magic s,
            rs_timeMagic = tt_magic tt\<rparr>)))"

definition previousOrEqual :: "nat \<Rightarrow> int \<Rightarrow> int op" where
  "previousOrEqual r t = seqo (the_tree r) (\<lambda>tt. of_result (defined (tt_previousOrEqual t tt)))"

definition lookup_job :: "graph_env \<Rightarrow> int \<Rightarrow> int \<Rightarrow> int \<Rightarrow> nat option op" where
  "lookup_job env world time i =
     (let failed = (\<lambda>rs. seqo (unmark_all rs) (\<lambda>_. ret None)) in
      seqo (getOrLoadAndMark env WORLD_ORDER_CHUNK NULL_LONG NULL_LONG NULL_LONG) (\<lambda>g. case g of None \<Rightarrow> failed [] | Some theGlobalWorldOrder \<Rightarrow>
      seqo (getOrLoadAndMark env WORLD_ORDER_CHUNK NULL_LONG NULL_LONG i) (\<lambda>w. case w of None \<Rightarrow> failed [theGlobalWorldOrder] | Some theNodeWorldOrder \<Rightarrow>
      seqo (the_order theGlobalWorldOrder) (\<lambda>gc. seqo (the_order theNodeWorldOrder) (\<lambda>nc.
      seqo (of_result (resolve_world gc nc time world)) (\<lambda>closestWorld.
      seqo (getOrLoadAndMark env TIME_TREE_CHUNK closestWorld NULL_LONG i) (\<lambda>s. case s of None \<Rightarrow> failed [theNodeWorldOrder, theGlobalWorldOrder] | Some theNodeSuperTimeTree \<Rightarrow>
      seqo (previousOrEqual theNodeSuperTimeTree time) (\<lambda>closestSuperTime.
      if closestSuperTime = NULL_LONG then failed [theNodeSuperTimeTree, theNodeWorldOrder, theGlobalWorldOrder] else
      seqo (getOrLoadAndMark env TIME_TREE_CHUNK closestWorld closestSuperTime i) (\<lambda>tr. case tr of None \<Rightarrow> failed [theNodeSuperTimeTree, theNodeWorldOrder, theGlobalWorldOrder] | Some theNodeTimeTree \<Rightarrow>
      seqo (previousOrEqual theNodeTimeTree time) (\<lambda>closestTime.
      if closestTime = NULL_LONG then failed [theNodeTimeTree, theNodeSuperTimeTree, theNodeWorldOrder, theGlobalWorldOrder] else
      seqo (getOrLoadAndMark env STATE_CHUNK closestWorld closestTime i) (\<lambda>ob. case ob of None \<Rightarrow> failed [theNodeTimeTree, theNodeSuperTimeTree, theNodeWorldOrder, theGlobalWorldOrder] | Some theObjectChunk \<Rightarrow>
      seqo (new_resolved theNodeWorldOrder theNodeSuperTimeTree theNodeTimeTree closestWorld closestSuperTime closestTime) (\<lambda>r.
      seqo (new_node_object \<lparr>nd_world = world, nd_time = time, nd_id = i, nd_resolved = Some r\<rparr>) (\<lambda>n. ret (Some n))))))))))))))"

definition lookup :: "graph_env \<Rightarrow> int \<Rightarrow> int \<Rightarrow> int \<Rightarrow> nat option option op" where
  "lookup env world time i = try_log (seqo (lookup_job env world time i) (\<lambda>n. ret (Some n))) None"

subsection \<open>Time trees that are full\<close>

definition SCALE_1 :: nat where "SCALE_1 = 1000"
definition SCALE_2 :: nat where "SCALE_2 = 10000"
definition SCALE_3 :: nat where "SCALE_3 = 100000"
definition SCALE_4 :: nat where "SCALE_4 = 1000000"

definition split_threshold :: "nat \<Rightarrow> nat" where
  "split_threshold superTreeSize =
     (let threshold = SCALE_1 * 2;
          threshold = (if superTreeSize > threshold then SCALE_2 * 2 else threshold);
          threshold = (if superTreeSize > threshold then SCALE_3 * 2 else threshold)
      in if superTreeSize > threshold then SCALE_4 * 2 else threshold)"

definition range_times :: "int \<Rightarrow> int \<Rightarrow> int \<Rightarrow> nat \<Rightarrow> int list op" where
  "range_times startKey endKey maxElements r =
     seqo (the_tree r) (\<lambda>t. of_result (bindr (tt_range startKey endKey maxElements t) all_defined))"

text \<open>The later half of the times, from the last on; \<open>size() / 2\<close> has no fraction, as the thresholds are even.\<close>

definition later_half :: "nat \<Rightarrow> int list op" where
  "later_half r = seqo (the_tree r) (\<lambda>t. range_times BEGINNING_OF_TIME END_OF_TIME (int (tt_size t div 2)) r)"

definition median_point :: "int list \<Rightarrow> int" where
  "median_point ts = (if ts = [] then -1 else last ts)"

subsection \<open>A state at another time\<close>

text \<open>
  \<open>newState\<close>, in three parts: what is done before the new state chunk is there, the insertion of the time, and the whole.  An
  error is logged, and what was assigned to \<open>resultState\<close> until then is returned.
\<close>

definition newState_begin :: "nat \<Rightarrow> nat \<Rightarrow> int \<Rightarrow> int \<Rightarrow> (nat option + resolved \<times> nat) op" where
  "newState_begin n nodeWorldOrder world time = seqo (node_at n) (\<lambda>nd.
     let i = nd_id nd in
     case nd_resolved nd of
       None \<Rightarrow> throw (JsError DEAD_NODE_ERROR)
     | Some previousResolveds \<Rightarrow>
         if time < rs_timeMagic previousResolveds
         then throw (JsError ''New state cannot be used to create state before the previously resolved state'')
         else if rs_world previousResolveds = world \<and> rs_time previousResolveds = time then
           seqo (db_getAndMark STATE_CHUNK world time i) (\<lambda>resultState.
           seqo (unmark_ref resultState) (\<lambda>_. seqo (db_unmarkChunk nodeWorldOrder) (\<lambda>_. ret (Inl resultState))))
         else seqo (create_put STATE_CHUNK world time i None) (\<lambda>r. ret (Inr (previousResolveds, r))))"

definition newState_split :: "graph_env \<Rightarrow> nat \<Rightarrow> nat \<Rightarrow> nat \<Rightarrow> nat \<Rightarrow> resolved \<Rightarrow> int \<Rightarrow> int \<Rightarrow> int \<Rightarrow> unit op" where
  "newState_split env n nodeWorldOrder nodeSuperTimeTree nodeTimeTree previousResolveds i world time =
     seqo (later_half nodeTimeTree) (\<lambda>ts.
     let medianPoint = median_point ts in
     seqo (create_put TIME_TREE_CHUNK world medianPoint i None) (\<lambda>rightTree.
     seqo (do_all (map (tree_insert env rightTree) ts)) (\<lambda>_.
     seqo (tree_insert env nodeSuperTimeTree medianPoint) (\<lambda>_.
     seqo (tree_clearAt env nodeTimeTree medianPoint) (\<lambda>_.
       if time < medianPoint then
         seqo (unmark_all [rightTree, nodeSuperTimeTree, nodeTimeTree]) (\<lambda>_.
         seqo (new_resolved nodeWorldOrder nodeSuperTimeTree nodeTimeTree world (rs_superTime previousResolveds) time) (\<lambda>r.
           set_resolved n (Some r)))
       else
         seqo (unmark_all [nodeTimeTree, nodeTimeTree, nodeSuperTimeTree]) (\<lambda>_.
         seqo (new_resolved nodeWorldOrder rightTree nodeTimeTree world medianPoint time) (\<lambda>r.
           set_resolved n (Some r))))))))"

definition newState_world :: "graph_env \<Rightarrow> nat \<Rightarrow> nat \<Rightarrow> resolved \<Rightarrow> int \<Rightarrow> int \<Rightarrow> int \<Rightarrow> unit op" where
  "newState_world env n nodeWorldOrder previousResolveds i world time =
     seqo (create_put TIME_TREE_CHUNK world NULL_LONG i None) (\<lambda>newSuperTimeTree.
     seqo (tree_insert env newSuperTimeTree time) (\<lambda>_.
     seqo (create_put TIME_TREE_CHUNK world time i None) (\<lambda>newTimeTree.
     seqo (tree_insert env newTimeTree time) (\<lambda>_.
     seqo (order_put env nodeWorldOrder world time) (\<lambda>_.
     seqo (new_resolved nodeWorldOrder newSuperTimeTree newTimeTree world time time) (\<lambda>r.
     seqo (set_resolved n (Some r)) (\<lambda>_.
       do_all [db_unmark TIME_TREE_CHUNK (rs_world previousResolveds) NULL_LONG i,
               db_unmark TIME_TREE_CHUNK (rs_world previousResolveds) (rs_superTime previousResolveds) i])))))))"

text \<open>The result is false when a tree is missing, and null is returned.\<close>

definition newState_insert :: "graph_env \<Rightarrow> nat \<Rightarrow> nat \<Rightarrow> resolved \<Rightarrow> int \<Rightarrow> int \<Rightarrow> int \<Rightarrow> bool op" where
  "newState_insert env n nodeWorldOrder previousResolveds i world time =
     seqo (if rs_world previousResolveds = world then ret True
           else seqo (the_order nodeWorldOrder) (\<lambda>c. seqo (of_result (wo_get world c)) (\<lambda>d. ret (d \<noteq> Some NULL_LONG)))) (\<lambda>present.
     seqo (if present then
       seqo (db_getAndMark TIME_TREE_CHUNK (rs_world previousResolveds) NULL_LONG i) (\<lambda>s. case s of
         None \<Rightarrow> seqo (unmark_all [nodeWorldOrder]) (\<lambda>_. ret False)
       | Some nodeSuperTimeTree \<Rightarrow>
       seqo (db_getAndMark TIME_TREE_CHUNK (rs_world previousResolveds) (rs_superTime previousResolveds) i) (\<lambda>t. case t of
         None \<Rightarrow> seqo (unmark_all [nodeSuperTimeTree, nodeWorldOrder]) (\<lambda>_. ret False)
       | Some nodeTimeTree \<Rightarrow>
       seqo (the_tree nodeSuperTimeTree) (\<lambda>st.
       let threshold = split_threshold (tt_size st) in
       seqo (tree_insert env nodeTimeTree time) (\<lambda>_.
       seqo (the_tree nodeTimeTree) (\<lambda>tr.
         if tt_size tr = threshold then
           seqo (newState_split env n nodeWorldOrder nodeSuperTimeTree nodeTimeTree previousResolveds i world time) (\<lambda>_. ret True)
         else
           seqo (new_resolved nodeWorldOrder nodeSuperTimeTree nodeTimeTree world (rs_superTime previousResolveds) time) (\<lambda>r.
           seqo (set_resolved n (Some r)) (\<lambda>_.
           seqo (unmark_all [nodeSuperTimeTree, nodeTimeTree]) (\<lambda>_. ret True))))))))
     else seqo (newState_world env n nodeWorldOrder previousResolveds i world time) (\<lambda>_. ret True)) (\<lambda>ok.
       if ok then
         seqo (db_unmark STATE_CHUNK (rs_world previousResolveds) (rs_time previousResolveds) i) (\<lambda>_.
         seqo (db_unmarkChunk nodeWorldOrder) (\<lambda>_. ret True))
       else ret False))"

definition newState :: "graph_env \<Rightarrow> nat \<Rightarrow> int \<Rightarrow> int \<Rightarrow> nat option op" where
  "newState env n world time = seqo (node_at n) (\<lambda>nd.
     seqo (order_key (nd_id nd)) (\<lambda>o'. case o' of
       None \<Rightarrow> ret None
     | Some nodeWorldOrder \<Rightarrow>
         seqo (try_log (newState_begin n nodeWorldOrder world time) (Inl None)) (\<lambda>b. case b of
           Inl res \<Rightarrow> ret res
         | Inr (previousResolveds, resultState) \<Rightarrow>
             seqo (try_log (newState_insert env n nodeWorldOrder previousResolveds (nd_id nd) world time) True) (\<lambda>ok.
               ret (if ok then Some resultState else None)))))"

subsection \<open>The state of a node\<close>

text \<open>What the first part of \<open>resolveState\<close> finds: the resolution, the trees, and whether they have to be released at the end.\<close>

record resolution =
  rn_world :: int
  rn_superTime :: int
  rn_time :: int
  rn_superTree :: nat
  rn_tree :: nat
  rn_cleanSuper :: bool
  rn_cleanTree :: bool

definition same_magics :: "resolved \<Rightarrow> nat \<Rightarrow> nat \<Rightarrow> nat \<Rightarrow> bool op" where
  "same_magics p nodeWorldOrder nodeSuperTimeTree nodeTimeTree =
     seqo (new_resolved nodeWorldOrder nodeSuperTimeTree nodeTimeTree (rs_world p) (rs_superTime p) (rs_time p)) (\<lambda>r. ret (r = p))"

definition cache_miss :: js_error where
  "cache_miss = JsError ''Simultaneous rePhasing leading to cache miss!!!''"

text \<open>The new tree replaces the old one, which is released twice: its mark of this call and the one of the node.\<close>

definition resolve_now :: "nat \<Rightarrow> nat \<Rightarrow> resolved \<Rightarrow> int \<Rightarrow> int \<Rightarrow> int \<Rightarrow> nat \<Rightarrow> nat \<Rightarrow> resolution op" where
  "resolve_now globalWorldOrder nodeWorldOrder p i nodeWorld nodeTime nodeSuperTimeTree nodeTimeTree =
     seqo (the_order globalWorldOrder) (\<lambda>gc. seqo (the_order nodeWorldOrder) (\<lambda>nc.
     seqo (of_result (resolve_world gc nc nodeTime nodeWorld)) (\<lambda>resolvedWorld.
     seqo (if resolvedWorld \<noteq> rs_world p then
             seqo (db_getAndMark TIME_TREE_CHUNK resolvedWorld NULL_LONG i) (\<lambda>r. case r of
               None \<Rightarrow> throw cache_miss
             | Some temp \<Rightarrow> seqo (unmark_all [nodeSuperTimeTree, nodeSuperTimeTree]) (\<lambda>_. ret temp))
           else ret nodeSuperTimeTree) (\<lambda>superTree.
     seqo (previousOrEqual superTree nodeTime) (\<lambda>resolvedSuperTime.
     seqo (if rs_superTime p \<noteq> resolvedSuperTime then
             seqo (db_getAndMark TIME_TREE_CHUNK resolvedWorld resolvedSuperTime i) (\<lambda>r. case r of
               None \<Rightarrow> throw (JsError ''Simultaneous rephasing leading to cache miss!!!'')
             | Some temp \<Rightarrow> seqo (unmark_all [nodeTimeTree, nodeTimeTree]) (\<lambda>_. ret temp))
           else ret nodeTimeTree) (\<lambda>tree.
     seqo (previousOrEqual tree nodeTime) (\<lambda>resolvedTime.
       ret \<lparr>rn_world = resolvedWorld, rn_superTime = resolvedSuperTime, rn_time = resolvedTime, rn_superTree = superTree,
            rn_tree = tree, rn_cleanSuper = (resolvedWorld = rs_world p), rn_cleanTree = (resolvedSuperTime = rs_superTime p)\<rparr>)))))))"

definition resolve_trees :: "nat \<Rightarrow> nat \<Rightarrow> resolved \<Rightarrow> int \<Rightarrow> int \<Rightarrow> int \<Rightarrow> nat \<Rightarrow> nat \<Rightarrow> resolution op" where
  "resolve_trees globalWorldOrder nodeWorldOrder p i nodeWorld nodeTime nodeSuperTimeTree nodeTimeTree =
     seqo (same_magics p nodeWorldOrder nodeSuperTimeTree nodeTimeTree) (\<lambda>same.
       if same then
         ret \<lparr>rn_world = rs_world p, rn_superTime = rs_superTime p, rn_time = rs_time p, rn_superTree = nodeSuperTimeTree,
              rn_tree = nodeTimeTree, rn_cleanSuper = True, rn_cleanTree = True\<rparr>
       else resolve_now globalWorldOrder nodeWorldOrder p i nodeWorld nodeTime nodeSuperTimeTree nodeTimeTree)"

text \<open>With dephasing: the state chunk of the resolution.  The magic numbers are those read before (\<open>m\<close>).\<close>

definition set_magics :: "resolved \<Rightarrow> int \<Rightarrow> int \<Rightarrow> int \<Rightarrow> resolved" where
  "set_magics m w st t = m\<lparr>rs_world := w, rs_superTime := st, rs_time := t\<rparr>"

definition dephased_state :: "nat \<Rightarrow> resolved \<Rightarrow> resolved \<Rightarrow> int \<Rightarrow> resolution \<Rightarrow> nat op" where
  "dephased_state n p m i rn =
     seqo (db_getAndMark STATE_CHUNK (rn_world rn) (rn_time rn) i) (\<lambda>r. case r of
       None \<Rightarrow> throw cache_miss
     | Some resultStateChunk \<Rightarrow>
         let moved = (rn_world rn \<noteq> rs_world p \<or> rn_time rn \<noteq> rs_time p) in
         seqo (if moved then db_unmark STATE_CHUNK (rs_world p) (rs_time p) i else db_unmarkChunk resultStateChunk) (\<lambda>_.
         seqo (if moved \<or> rn_superTime rn \<noteq> rs_superTime p
               then set_resolved n (Some (set_magics m (rn_world rn) (rn_superTime rn) (rn_time rn))) else ret ()) (\<lambda>_.
           ret resultStateChunk)))"

text \<open>Without: the time of the node goes into the trees.  The result is whether the time tree has to be released at the end.\<close>

definition phase_split :: "graph_env \<Rightarrow> nat \<Rightarrow> resolved \<Rightarrow> int \<Rightarrow> int \<Rightarrow> int \<Rightarrow> resolution \<Rightarrow> bool op" where
  "phase_split env n m i nodeWorld nodeTime rn =
     seqo (later_half (rn_tree rn)) (\<lambda>ts.
     let medianPoint = median_point ts in
     seqo (create_put TIME_TREE_CHUNK nodeWorld medianPoint i None) (\<lambda>rightTree.
     seqo (do_all (map (tree_unsafe_insert rightTree) ts)) (\<lambda>_.
     seqo (db_declareDirty env rightTree) (\<lambda>_.
     seqo (tree_insert env (rn_superTree rn) medianPoint) (\<lambda>_.
     seqo (tree_clearAt env (rn_tree rn) medianPoint) (\<lambda>_.
     seqo (the_tree (rn_superTree rn)) (\<lambda>st. seqo (the_tree (rn_tree rn)) (\<lambda>tr. seqo (the_tree rightTree) (\<lambda>rt.
       if nodeTime < medianPoint then
         seqo (db_unmarkChunk rightTree) (\<lambda>_.
         seqo (set_resolved n (Some ((set_magics m nodeWorld (rn_superTime rn) nodeTime)
                 \<lparr>rs_superTimeMagic := tt_magic st, rs_timeMagic := tt_magic tr\<rparr>))) (\<lambda>_. ret (rn_cleanTree rn)))
       else
         seqo (db_unmarkChunk (rn_tree rn)) (\<lambda>_.
         seqo (set_resolved n (Some ((set_magics m nodeWorld medianPoint nodeTime)
                 \<lparr>rs_superTimeMagic := tt_magic rt, rs_timeMagic := tt_magic tr\<rparr>))) (\<lambda>_. ret True)))))))))))"

definition phase_world :: "graph_env \<Rightarrow> nat \<Rightarrow> nat \<Rightarrow> int \<Rightarrow> int \<Rightarrow> int \<Rightarrow> resolution \<Rightarrow> unit op" where
  "phase_world env n nodeWorldOrder i nodeWorld nodeTime rn =
     seqo (create_put TIME_TREE_CHUNK nodeWorld NULL_LONG i None) (\<lambda>newSuperTimeTree.
     seqo (tree_insert env newSuperTimeTree nodeTime) (\<lambda>_.
     seqo (create_put TIME_TREE_CHUNK nodeWorld nodeTime i None) (\<lambda>newTimeTree.
     seqo (tree_insert env newTimeTree nodeTime) (\<lambda>_.
     seqo (order_put env nodeWorldOrder nodeWorld nodeTime) (\<lambda>_.
     seqo (new_resolved nodeWorldOrder newSuperTimeTree newTimeTree nodeWorld nodeTime nodeTime) (\<lambda>r.
     seqo (set_resolved n (Some r)) (\<lambda>_. unmark_all [rn_superTree rn, rn_tree rn])))))))"

definition phase_insert :: "graph_env \<Rightarrow> nat \<Rightarrow> nat \<Rightarrow> resolved \<Rightarrow> int \<Rightarrow> int \<Rightarrow> int \<Rightarrow> resolution \<Rightarrow> bool op" where
  "phase_insert env n nodeWorldOrder m i nodeWorld nodeTime rn =
     seqo (if rn_world rn = nodeWorld then ret True
           else seqo (the_order nodeWorldOrder) (\<lambda>c. seqo (of_result (wo_get nodeWorld c)) (\<lambda>d. ret (d \<noteq> Some NULL_LONG)))) (\<lambda>present.
       if present then
         seqo (the_tree (rn_superTree rn)) (\<lambda>st.
         let threshold = split_threshold (tt_size st) in
         seqo (tree_insert env (rn_tree rn) nodeTime) (\<lambda>_.
         seqo (the_tree (rn_tree rn)) (\<lambda>tr.
           if tt_size tr = threshold then phase_split env n m i nodeWorld nodeTime rn
           else seqo (set_resolved n (Some ((set_magics m nodeWorld (rn_superTime rn) nodeTime)\<lparr>rs_timeMagic := tt_magic tr\<rparr>))) (\<lambda>_.
                ret (rn_cleanTree rn)))))
       else seqo (phase_world env n nodeWorldOrder i nodeWorld nodeTime rn) (\<lambda>_. ret (rn_cleanTree rn)))"

text \<open>
  The new state chunk is a clone of the state chunk of the resolution.  What \<open>putAndMark\<close> returns is not used; when it
  or a later step throws, the new chunk is returned all the same.
\<close>

definition phased_state :: "graph_env \<Rightarrow> nat \<Rightarrow> nat \<Rightarrow> resolved \<Rightarrow> int \<Rightarrow> int \<Rightarrow> int \<Rightarrow> resolution \<Rightarrow> (nat \<times> bool) op" where
  "phased_state env n nodeWorldOrder m i nodeWorld nodeTime rn =
     seqo (db_getAndMark STATE_CHUNK (rn_world rn) (rn_time rn) i) (\<lambda>previousNodeState.
     seqo (create STATE_CHUNK nodeWorld nodeTime i None previousNodeState) (\<lambda>c. seqo (the_chunk c) (\<lambda>resultStateChunk.
     seqo (try_log
       (seqo (db_putAndMark resultStateChunk) (\<lambda>_.
        seqo (db_declareDirty env resultStateChunk) (\<lambda>_.
        seqo (unmark_ref previousNodeState) (\<lambda>_. seqo (unmark_ref previousNodeState) (\<lambda>_.
          phase_insert env n nodeWorldOrder m i nodeWorld nodeTime rn))))) (rn_cleanTree rn)) (\<lambda>cleanTree.
       ret (resultStateChunk, cleanTree)))))"

text \<open>The \<open>try\<close> block; the result is the state chunk and the chunks to release.\<close>

definition resolve_locked :: "graph_env \<Rightarrow> nat \<Rightarrow> bool \<Rightarrow> nat \<Rightarrow> nat \<Rightarrow> resolved \<Rightarrow> int \<Rightarrow> int \<Rightarrow> int \<Rightarrow> nat \<Rightarrow> nat \<Rightarrow> (nat option \<times> nat list) op" where
  "resolve_locked env n allowDephasing globalWorldOrder nodeWorldOrder p i nodeWorld nodeTime nodeSuperTimeTree nodeTimeTree =
     seqo (new_resolved nodeWorldOrder nodeSuperTimeTree nodeTimeTree (rs_world p) (rs_superTime p) (rs_time p)) (\<lambda>m.
     seqo (try_log (seqo (resolve_trees globalWorldOrder nodeWorldOrder p i nodeWorld nodeTime nodeSuperTimeTree nodeTimeTree) (\<lambda>rn. ret (Some rn))) None)
       (\<lambda>rn. case rn of
         None \<Rightarrow> ret (None, [])
       | Some rn \<Rightarrow>
           let clean = (\<lambda>b. (if rn_cleanSuper rn then [rn_superTree rn] else []) @ (if b then [rn_tree rn] else [])) in
           try_log (if allowDephasing
                    then seqo (dephased_state n p m i rn) (\<lambda>r. ret (Some r, clean (rn_cleanTree rn)))
                    else seqo (phased_state env n nodeWorldOrder m i nodeWorld nodeTime rn) (\<lambda>(r, b). ret (Some r, clean b)))
             (None, clean (rn_cleanTree rn))))"

text \<open>The state chunk that the node had resolved already, when it is exact and cached; it is not left marked.\<close>

definition exact_state :: "resolved \<Rightarrow> int \<Rightarrow> int \<Rightarrow> int \<Rightarrow> nat option op" where
  "exact_state p nodeWorld nodeTime i =
     (if rs_world p = nodeWorld \<and> rs_time p = nodeTime then db_getAndMark STATE_CHUNK nodeWorld nodeTime i else ret None)"

definition resolveState :: "graph_env \<Rightarrow> nat \<Rightarrow> bool \<Rightarrow> nat option op" where
  "resolveState env n allowDephasing = seqo (node_at n) (\<lambda>nd.
     let nodeWorld = nd_world nd; nodeTime = nd_time nd; i = nd_id nd in
     case nd_resolved nd of
       None \<Rightarrow> throw (dead_node i)
     | Some p \<Rightarrow>
         let give_back = (\<lambda>rs res. seqo (unmark_all rs) (\<lambda>_. ret res)) in
         seqo (exact_state p nodeWorld nodeTime i) (\<lambda>cur. case cur of Some c \<Rightarrow> give_back [c] cur | None \<Rightarrow>
         seqo (order_key i) (\<lambda>o'. case o' of None \<Rightarrow> ret None | Some nodeWorldOrder \<Rightarrow>
         seqo (db_getAndMark TIME_TREE_CHUNK (rs_world p) NULL_LONG i) (\<lambda>s. case s of None \<Rightarrow> give_back [nodeWorldOrder] None | Some nodeSuperTimeTree \<Rightarrow>
         seqo (db_getAndMark TIME_TREE_CHUNK (rs_world p) (rs_superTime p) i) (\<lambda>t. case t of None \<Rightarrow> give_back [nodeSuperTimeTree, nodeWorldOrder] None | Some nodeTimeTree \<Rightarrow>
         seqo (same_magics p nodeWorldOrder nodeSuperTimeTree nodeTimeTree) (\<lambda>same.
         if allowDephasing \<and> same then
           seqo (db_getAndMark STATE_CHUNK (rs_world p) (rs_time p) i) (\<lambda>currentNodeState.
             give_back ([nodeWorldOrder, nodeSuperTimeTree, nodeTimeTree] @ (case currentNodeState of None \<Rightarrow> [] | Some c \<Rightarrow> [c])) currentNodeState)
         else
         seqo (order_key NULL_LONG) (\<lambda>g. case g of None \<Rightarrow> give_back [nodeWorldOrder, nodeSuperTimeTree, nodeTimeTree] None | Some globalWorldOrder \<Rightarrow>
         seqo (exact_state p nodeWorld nodeTime i) (\<lambda>cur. case cur of
           Some c \<Rightarrow> give_back [globalWorldOrder, nodeWorldOrder, nodeSuperTimeTree, nodeTimeTree, c] cur
         | None \<Rightarrow>
             seqo (resolve_locked env n allowDephasing globalWorldOrder nodeWorldOrder p i nodeWorld nodeTime nodeSuperTimeTree nodeTimeTree) (\<lambda>(res, clean).
               give_back (clean @ [globalWorldOrder, nodeWorldOrder]) res)))))))))"

end
