(* ===== verification/ResolverTimes.thy ===== *)
theory ResolverTimes
  imports Resolver
begin

text \<open>
  \<open>MWGResolver\<close>, continued: the time points of a node, and the dictionary of names.  The arrays that the code grows by
  doubling while it collects are lists here.
\<close>

subsection \<open>Time points\<close>

text \<open>The worlds between the world of the node and the first one that covers the beginning of the search.\<close>

partial_function (option) collect_worlds ::
    "(int \<Rightarrow> int result) \<Rightarrow> (int \<Rightarrow> int result) \<Rightarrow> int \<Rightarrow> int \<Rightarrow> int \<Rightarrow> int list result option" where
  "collect_worlds parent divergence beginningOfSearch endOfSearch currentWorld =
     (if currentWorld = NULL_LONG then Some (Inr [])
      else case divergence currentWorld of
          Inl e \<Rightarrow> Some (Inl e)
        | Inr divergenceTimepoint \<Rightarrow>
            if divergenceTimepoint \<noteq> NULL_LONG \<and> divergenceTimepoint \<le> beginningOfSearch then Some (Inr [currentWorld])
            else (case parent currentWorld of
                Inl e \<Rightarrow> Some (Inl e)
              | Inr w \<Rightarrow> Option.bind (collect_worlds parent divergence beginningOfSearch endOfSearch w)
                  (\<lambda>r. Some (if divergenceTimepoint \<noteq> NULL_LONG \<and> divergenceTimepoint \<le> endOfSearch
                             then bindr r (\<lambda>ws. Inr (currentWorld # ws)) else r))))"

declare collect_worlds.simps [code]

text \<open>A reference is used when its method is called, so a null one is an error only then.\<close>

definition get_through :: "nat option \<Rightarrow> int \<Rightarrow> mwdb \<Rightarrow> int result" where
  "get_through r k db = snd (seqo (the_chunk r) (\<lambda>r. seqo (the_order r) (\<lambda>c. of_result (order_get c k))) db)"

text \<open>The super times of the worlds, each with the world of its tree; a time that equals the upper bound is left out.\<close>

fun super_times :: "nat option \<Rightarrow> (int \<times> nat option) list \<Rightarrow> int \<Rightarrow> (int \<times> int) list op" where
  "super_times objectWorldOrder [] previousDivergenceTime = ret []"
| "super_times objectWorldOrder ((w, timeTree) # ts) previousDivergenceTime =
     seqo (case timeTree of
         None \<Rightarrow> ret ([], previousDivergenceTime)
       | Some r \<Rightarrow>
           seqo (get_db (get_through objectWorldOrder w)) (\<lambda>d. seqo (of_result d) (\<lambda>currentDivergenceTime.
           seqo (range_times currentDivergenceTime previousDivergenceTime END_OF_TIME r) (\<lambda>xs.
           seqo (the_tree r) (\<lambda>tree.
             ret (map (Pair (tt_world tree)) (filter (\<lambda>t. t \<noteq> previousDivergenceTime) xs), currentDivergenceTime)))))) (\<lambda>(xs, d).
     seqo (unmark_ref timeTree) (\<lambda>_.
     seqo (super_times objectWorldOrder ts d) (\<lambda>ys. ret (xs @ ys))))"

text \<open>The times of the trees; the upper bound changes with the world of the next tree.\<close>

fun tree_times :: "nat option \<Rightarrow> int \<Rightarrow> ((int \<times> int) \<times> nat option) list \<Rightarrow> int \<Rightarrow> int list op" where
  "tree_times objectWorldOrder beginningOfSearch [] previousDivergenceTime = ret []"
| "tree_times objectWorldOrder beginningOfSearch (((w, st), timeTree) # ts) previousDivergenceTime =
     seqo (case timeTree of
         None \<Rightarrow> ret ([], previousDivergenceTime)
       | Some r \<Rightarrow>
           seqo (get_db (get_through objectWorldOrder w)) (\<lambda>d. seqo (of_result d) (\<lambda>d.
           let currentDivergenceTime = (if d < beginningOfSearch then beginningOfSearch else d) in
           seqo (range_times currentDivergenceTime previousDivergenceTime END_OF_TIME r) (\<lambda>xs.
             ret (filter (\<lambda>t. t \<noteq> previousDivergenceTime) xs,
                  case ts of [] \<Rightarrow> previousDivergenceTime
                  | ((w', _), _) # _ \<Rightarrow> if w' \<noteq> w then currentDivergenceTime else previousDivergenceTime))))) (\<lambda>(xs, d).
     seqo (unmark_ref timeTree) (\<lambda>_.
     seqo (tree_times objectWorldOrder beginningOfSearch ts d) (\<lambda>ys. ret (xs @ ys))))"

definition resolveTimepointsFromSuperTimes ::
    "graph_env \<Rightarrow> nat option \<Rightarrow> nat option \<Rightarrow> int \<Rightarrow> int \<Rightarrow> int \<Rightarrow> (int \<times> int) list \<Rightarrow> int list op" where
  "resolveTimepointsFromSuperTimes env globalWorldOrder objectWorldOrder i beginningOfSearch endOfSearch collected =
     seqo (getOrLoadAndMarkAll env (map (\<lambda>(w, st). (TIME_TREE_CHUNK, w, st, i)) collected)) (\<lambda>timeTrees.
     seqo (tree_times objectWorldOrder beginningOfSearch (zip collected timeTrees) endOfSearch) (\<lambda>collectedTimes.
     seqo (unmark_ref objectWorldOrder) (\<lambda>_. seqo (unmark_ref globalWorldOrder) (\<lambda>_. ret collectedTimes))))"

definition resolveTimepointsFromWorlds ::
    "graph_env \<Rightarrow> nat option \<Rightarrow> nat option \<Rightarrow> int \<Rightarrow> int \<Rightarrow> int \<Rightarrow> int list \<Rightarrow> int list op" where
  "resolveTimepointsFromWorlds env globalWorldOrder objectWorldOrder i beginningOfSearch endOfSearch collectedWorlds =
     seqo (getOrLoadAndMarkAll env (map (\<lambda>w. (TIME_TREE_CHUNK, w, NULL_LONG, i)) collectedWorlds)) (\<lambda>superTimeTrees.
     seqo (super_times objectWorldOrder (zip collectedWorlds superTimeTrees) endOfSearch) (\<lambda>collected.
       resolveTimepointsFromSuperTimes env globalWorldOrder objectWorldOrder i beginningOfSearch endOfSearch collected))"

definition resolveTimepoints :: "graph_env \<Rightarrow> nat \<Rightarrow> int \<Rightarrow> int \<Rightarrow> int list op" where
  "resolveTimepoints env n beginningOfSearch endOfSearch = seqo (node_at n) (\<lambda>nd.
     let i = nd_id nd in
     seqo (getOrLoadAndMarkAll env [(WORLD_ORDER_CHUNK, NULL_LONG, NULL_LONG, NULL_LONG), (WORLD_ORDER_CHUNK, NULL_LONG, NULL_LONG, i)]) (\<lambda>orders.
     let globalWorldOrder = orders ! 0; objectWorldOrder = orders ! 1 in
     seqo (get_db (\<lambda>db. collect_worlds (\<lambda>w. get_through globalWorldOrder w db) (\<lambda>w. get_through objectWorldOrder w db)
                          beginningOfSearch endOfSearch (nd_world nd))) (\<lambda>c.
     seqo (case c of None \<Rightarrow> throw NoReturn | Some r \<Rightarrow> of_result r) (\<lambda>collectedWorlds.
       resolveTimepointsFromWorlds env globalWorldOrder objectWorldOrder i beginningOfSearch endOfSearch collectedWorlds))))"

subsection \<open>The dictionary\<close>

text \<open>
  The map object of the dictionary stands in slot 0 of its chunk; a put that replaces the state of the map is seen through the
  object, so the object is written back into the slots that hold it.
\<close>

definition replace_elem :: "elem \<Rightarrow> elem \<Rightarrow> state_chunk \<Rightarrow> state_chunk" where
  "replace_elem e e' c = c\<lparr>sc_state := (sc_state c)\<lparr>ss_v := map (\<lambda>x. if x = Some e then Some e' else x) (ss_v (sc_state c))\<rparr>\<rparr>"

definition get_index :: "sc_heap \<times> state_chunk \<Rightarrow> (elem option \<times> (sc_heap \<times> state_chunk) \<times> bool) result" where
  "get_index w = bindr (sc_get 0 w) (\<lambda>dictionaryIndex.
     if dictionaryIndex = None then sc_getOrCreate 0 STRING_LONG_MAP w else Inr (dictionaryIndex, w, False))"

definition string_map :: "elem option \<Rightarrow> map_object result" where
  "string_map e = (case e of Some (EStringMap m) \<Rightarrow> Inr m | _ \<Rightarrow> Inl TypeError)"

definition put_name :: "jsstring \<Rightarrow> int \<Rightarrow> sc_heap \<times> state_chunk \<Rightarrow> (unit \<times> (sc_heap \<times> state_chunk) \<times> bool) result" where
  "put_name name hash = (\<lambda>w.
     bindr (get_index w) (\<lambda>(dictionaryIndex, (h, c), told).
     bindr (string_map dictionaryIndex) (\<lambda>m.
     bindr (slm_containsHash hash (hp_slm h ! mo_state m)) (\<lambda>known.
       if known then Inr ((), (h, c), told)
       else let ((st, m'), r) = slm_put name hash (hp_slm h, m)
            in bindr r (\<lambda>changed.
                 Inr ((), (h\<lparr>hp_slm := st\<rparr>, replace_elem (EStringMap m) (EStringMap m') c), told \<or> changed \<and> sc_declareDirty c))))))"

definition stringToHash :: "graph_env \<Rightarrow> jsstring \<Rightarrow> bool \<Rightarrow> int op" where
  "stringToHash env name insertIfNotExists =
     seqo (of_result (string_to_hash name)) (\<lambda>hash.
       if insertIfNotExists then
         seqo (get_db db_dictionary) (\<lambda>d. seqo (the_chunk d) (\<lambda>dictionary.
         seqo (on_state env dictionary (put_name name hash)) (\<lambda>_. ret hash)))
       else ret hash)"

definition hashToString :: "int \<Rightarrow> jsstring option op" where
  "hashToString key =
     seqo (get_db db_dictionary) (\<lambda>d. seqo (the_chunk d) (\<lambda>dictionary.
     seqo (the_state dictionary) (\<lambda>c. seqo (get_db db_heap) (\<lambda>h.
     seqo (of_result (sc_get 0 (h, c))) (\<lambda>dictionaryIndex.
       if dictionaryIndex = None then ret None
       else seqo (of_result (string_map dictionaryIndex)) (\<lambda>m. of_result (slm_getByHash key (hp_slm h ! mo_state m))))))))"

end
