(* ===== verification/ResolverWorld.thy ===== *)
theory ResolverWorld
  imports ResolverTimes WorldOrderChunk
begin

text \<open>
  The resolution of worlds: \<open>resolve_world\<close> against the lineage of a world, the list of the worlds from it to the
  root of its branch, as the global world order has it.
\<close>

subsection \<open>Lineage\<close>

text \<open>A root has no parent, or is its own parent, or has the parent \<open>NULL_LONG\<close>.\<close>

inductive lineage :: "(int \<rightharpoonup> int) \<Rightarrow> int \<Rightarrow> int list \<Rightarrow> bool" for parents where
  none: "lineage parents NULL_LONG []"
| root: "w \<noteq> NULL_LONG \<Longrightarrow> parents w = None \<Longrightarrow> lineage parents w [w]"
| self: "w \<noteq> NULL_LONG \<Longrightarrow> parents w = Some w \<Longrightarrow> lineage parents w [w]"
| child: "w \<noteq> NULL_LONG \<Longrightarrow> parents w = Some p \<Longrightarrow> p \<noteq> w \<Longrightarrow> lineage parents p ws \<Longrightarrow> lineage parents w (w # ws)"

inductive_simps lineage_none [simp]: "lineage parents NULL_LONG ws"
inductive_cases lineageE: "lineage parents w ws"

lemma lineage_head: "lineage parents w ws \<Longrightarrow> w = NULL_LONG \<and> ws = [] \<or> w \<noteq> NULL_LONG \<and> (\<exists>us. ws = w # us)"
  by (auto elim: lineageE)

text \<open>The nearest world of a lineage that the node had been changed in by a time; \<open>w\<close> when there is none.\<close>

definition covers :: "(int \<rightharpoonup> int) \<Rightarrow> int \<Rightarrow> int \<Rightarrow> bool" where
  "covers divergence t u = (case divergence u of None \<Rightarrow> False | Some d \<Rightarrow> d \<noteq> NULL_LONG \<and> d \<le> t)"

definition nearest_world :: "(int \<rightharpoonup> int) \<Rightarrow> int \<Rightarrow> int \<Rightarrow> int list \<Rightarrow> int" where
  "nearest_world divergence t w ws = (case find (covers divergence t) ws of None \<Rightarrow> w | Some u \<Rightarrow> u)"

subsection \<open>The loop\<close>

definition or_null :: "int option \<Rightarrow> int" where
  "or_null x = (case x of None \<Rightarrow> NULL_LONG | Some v \<Rightarrow> v)"

lemma covers_or_null: "covers divergence t u \<longleftrightarrow> or_null (divergence u) \<noteq> NULL_LONG \<and> or_null (divergence u) \<le> t"
  by (simp add: covers_def or_null_def split: option.splits)

lemma world_loop_end: "resolve_world_loop P D t u u d = Some (Inr None)"
  by (simp add: resolve_world_loop.simps)

lemma world_loop_step:
  assumes "u \<noteq> previous"
  shows "resolve_world_loop P D t u previous d =
    (if d \<noteq> NULL_LONG \<and> d \<le> t then Some (Inr (Some u))
     else case P u of Inl e \<Rightarrow> Some (Inl e) | Inr p \<Rightarrow> (case D p of Inl e \<Rightarrow> Some (Inl e) | Inr d' \<Rightarrow> resolve_world_loop P D t p u d'))"
  using assms by (subst resolve_world_loop.simps) simp

lemma world_loop:
  assumes "lineage parents u ws" "ws \<noteq> []" "u \<noteq> previous" "\<forall>x \<in> insert NULL_LONG (set ws). P x = Inr (or_null (parents x)) \<and> D x = Inr (or_null (divergence x))"
    "parents NULL_LONG = None" "divergence NULL_LONG = None"
  shows "resolve_world_loop P D t u previous (or_null (divergence u)) = Some (Inr (find (covers divergence t) ws))"
  using assms
proof (induction arbitrary: previous rule: lineage.induct)
  case (root w)
  have n: "or_null None = NULL_LONG" "P NULL_LONG = Inr NULL_LONG" "D NULL_LONG = Inr NULL_LONG" using root.prems by (simp_all add: or_null_def)
  have "P w = Inr NULL_LONG" using root.prems(3) root.hyps(2) by (simp add: or_null_def)
  then show ?case using root.hyps(1) root.prems(2,3) n
    by (simp add: world_loop_step world_loop_end covers_or_null del: insert_iff)
next
  case (self w)
  have "P w = Inr w" using self.prems(3) self.hyps(2) by (simp add: or_null_def)
  then show ?case using self.hyps(1) self.prems(2,3)
    by (simp add: world_loop_step world_loop_end covers_or_null del: insert_iff)
next
  case (child w p ws)
  have P: "P w = Inr p" "D p = Inr (or_null (divergence p))"
    using child.prems(3) child.hyps(2) lineage_head [OF child.hyps(4)] by (auto simp: or_null_def)
  show ?case
  proof (cases "ws = []")
    case True
    then have "p = NULL_LONG" using lineage_head [OF child.hyps(4)] by simp
    moreover have "P NULL_LONG = Inr NULL_LONG" "D NULL_LONG = Inr NULL_LONG" "or_null None = NULL_LONG"
      using child.prems by (simp_all add: or_null_def)
    ultimately show ?thesis using P child.hyps(1) child.prems(2,5) True
      by (simp add: world_loop_step world_loop_end covers_or_null)
  next
    case False
    then have "resolve_world_loop P D t p w (or_null (divergence p)) = Some (Inr (find (covers divergence t) ws))"
      using child.hyps(3) child.prems by (intro child.IH) auto
    then show ?thesis using P child.prems(2) by (simp add: world_loop_step covers_or_null [abs_def])
  qed
qed simp

lemma order_get:
  assumes "wc_state c = Some s" "wo_wf e s" "hashable k"
  shows "order_get c k = Inr (or_null (wo_abs s k))"
  using wo_get_abs [OF assms] by (simp add: order_get_def defined_def or_null_def)

lemma hashable_null: "hashable NULL_LONG"
  by code_simp

lemma resolve_world_nearest:
  assumes "wc_state gc = Some gs" "wo_wf e gs" "wc_state nc = Some ns" "wo_wf e' ns"
    and "lineage (wo_abs gs) w ws" "\<forall>u \<in> set ws. hashable u" "wo_abs gs NULL_LONG = None" "wo_abs ns NULL_LONG = None"
  shows "resolve_world gc nc t w = Inr (nearest_world (wo_abs ns) t w ws)"
proof (cases "ws = []")
  case True
  then have "w = NULL_LONG" using lineage_head [OF assms(5)] by simp
  then show ?thesis using True order_get [OF assms(3) assms(4) hashable_null] by (simp add: resolve_world_def world_loop_end nearest_world_def)
next
  case False
  have w: "w \<in> set ws" "w \<noteq> NULL_LONG" using False lineage_head [OF assms(5)] by auto
  have "resolve_world_loop (order_get gc) (order_get nc) t w NULL_LONG (or_null (wo_abs ns w)) = Some (Inr (find (covers (wo_abs ns) t) ws))"
    using assms(6) hashable_null order_get [OF assms(1,2)] order_get [OF assms(3,4)]
    by (intro world_loop [OF assms(5) False w(2)] assms(7,8)) auto
  then show ?thesis using order_get [OF assms(3,4)] assms(6) w(1) by (simp add: resolve_world_def nearest_world_def)
qed

end
