(* ===== verification/ResolverLookup.thy ===== *)
theory ResolverLookup
  imports ResolverWorld ChunkCache
begin

text \<open>
  \<open>lookup\<close> when all chunks that it needs are cached: what it resolves, which chunks it leaves marked, and that
  it releases all of them when the node does not exist at that world and time.
\<close>

subsection \<open>Marks\<close>

text \<open>The second database is the first one with the marks of every chunk \<open>r\<close> moved by \<open>d r\<close>.\<close>

definition moved :: "(nat \<Rightarrow> int) \<Rightarrow> mwdb \<Rightarrow> mwdb \<Rightarrow> bool" where
  "moved d db db' \<longleftrightarrow> db_body db' = db_body db \<and> db_heap db' = db_heap db \<and> db_dictionary db' = db_dictionary db \<and> db_nodes db' = db_nodes db
     \<and> db_connected db' = db_connected db \<and> db_lock db' = db_lock db \<and> db_prefix db' = db_prefix db
     \<and> db_nodeKeys db' = db_nodeKeys db \<and> db_worldKeys db' = db_worldKeys db
     \<and> cs_content (db_space db') = cs_content (db_space db) \<and> length (cs_store (db_space db')) = length (cs_store (db_space db))
     \<and> (\<forall>r < length (cs_store (db_space db)). cs_store (db_space db') ! r =
          (cs_store (db_space db) ! r)\<lparr>ch_marks := ch_marks (cs_store (db_space db) ! r) + d r\<rparr>)"

definition one :: "nat \<Rightarrow> nat \<Rightarrow> int" where
  "one r = (\<lambda>x. if x = r then 1 else 0)"

lemma moved_refl: "moved (\<lambda>_. 0) db db"
  by (simp add: moved_def)

lemma moved_trans: "moved d db db' \<Longrightarrow> moved e db' db'' \<Longrightarrow> moved (\<lambda>r. d r + e r) db db''"
  by (auto simp: moved_def)

text \<open>A consistent cache with more than \<open>n\<close> slots that are free or hold a chunk without marks.\<close>

definition roomy :: "nat \<Rightarrow> mwdb \<Rightarrow> bool" where
  "roomy n db \<longleftrightarrow> (\<exists>q. cs_inv (db_space db) q \<and> n < length q)"

definition cached :: "mwdb \<Rightarrow> chunk_key \<Rightarrow> nat \<Rightarrow> bool" where
  "cached db k r \<longleftrightarrow> (k, r) \<in> cs_content (db_space db)"

definition marks_of :: "mwdb \<Rightarrow> nat \<Rightarrow> int" where
  "marks_of db r = ch_marks (cs_store (db_space db) ! r)"

lemma cached_slot:
  assumes "cached db k r"
  obtains i where "i \<in> cs_used (db_space db)" "cs_key (db_space db) i = k" "cs_ref (db_space db) i = r"
  using assms by (auto simp: cached_def cs_content_def)

lemma cached_bound: "cached db k r \<Longrightarrow> roomy n db \<Longrightarrow> r < length (cs_store (db_space db)) \<and> 0 \<le> marks_of db r"
  using cs_used_facts(1,3,4) by (fastforce elim!: cached_slot simp: roomy_def marks_of_def)

lemma cached_moved: "moved d db db' \<Longrightarrow> cached db' k r \<longleftrightarrow> cached db k r"
  by (simp add: moved_def cached_def)

lemma cached_inj: "cached db k r \<Longrightarrow> cached db k' r \<Longrightarrow> roomy n db \<Longrightarrow> k = k'"
  by (elim cached_slot) (auto simp: roomy_def cs_key_def cs_head_def)

lemma getAndMark_cached:
  assumes "cached db (t, w, i, k) r" "roomy (Suc n) db"
  shows "\<exists>db'. db_getAndMark t w i k db = (db', Inr (Some r)) \<and> moved (one r) db db' \<and> roomy n db'"
proof -
  obtain q where q: "cs_inv (db_space db) q" "Suc n < length q" using assms(2) by (auto simp: roomy_def)
  obtain j where j: "j \<in> cs_used (db_space db)" "cs_key (db_space db) j = (t, w, i, k)" "cs_ref (db_space db) j = r"
    using assms(1) by (rule cached_slot)
  have "q \<noteq> [j]" using q(2) by auto
  with cs_getAndMark_hit [OF q(1) j(1)] obtain l where
    l: "cs_getAndMark (t, w, i, k) (db_space db) = Inr ((cs_upd r ch_mark (db_space db))\<lparr>cs_lru := l\<rparr>, Some r)"
    "cs_inv ((cs_upd r ch_mark (db_space db))\<lparr>cs_lru := l\<rparr>) (remove1 j q)" unfolding j by auto
  let ?s = "(cs_upd r ch_mark (db_space db))\<lparr>cs_lru := l\<rparr>"
  have r: "r < length (cs_store (db_space db))" using cs_used_facts(1) [OF q(1) j(1)] j(3) by simp
  have "n < length (remove1 j q)" using q(2) by (auto simp: length_remove1)
  then have "roomy n (db\<lparr>db_space := ?s\<rparr>)" using l(2) by (auto simp: roomy_def)
  moreover have "moved (one r) db (db\<lparr>db_space := ?s\<rparr>)"
    using cs_upd_content(2) [OF r, of ch_mark] by (auto simp: moved_def one_def cs_upd_def ch_mark_def nth_list_update)
  ultimately show ?thesis using l(1) by (auto simp: db_getAndMark_def on_space_def)
qed

lemma getOrLoad_cached:
  assumes "cached db (t, w, i, k) r" "roomy (Suc n) db" "w \<noteq> END_OF_TIME \<or> i \<noteq> END_OF_TIME \<or> k \<noteq> END_OF_TIME"
  shows "\<exists>db'. getOrLoadAndMark env t w i k db = (db', Inr (Some r)) \<and> moved (one r) db db' \<and> roomy n db'"
  using getAndMark_cached [OF assms(1,2)] assms(3)
  by (auto simp: getOrLoadAndMark_def seqo_def ret_def split: prod.splits)

lemma cs_match_upd: "r < length (cs_store s) \<Longrightarrow> cs_match k (cs_upd r ch_unmark s) = cs_match k s"
  by (auto simp: cs_match_def cs_at_def cs_upd_def nth_list_update fun_eq_iff split: option.splits)

lemma unmark_cached:
  assumes "cached db k r" "roomy n db" "0 < marks_of db r"
  shows "\<exists>db'. db_unmarkChunk r db = (db', Inr ()) \<and> (case k of (t, w, x, i) \<Rightarrow> db_unmark t w x i db = (db', Inr ()))
    \<and> moved (\<lambda>x. - one r x) db db' \<and> roomy n db'"
proof -
  obtain q where q: "cs_inv (db_space db) q" "n < length q" using assms(2) by (auto simp: roomy_def)
  obtain j where j: "j \<in> cs_used (db_space db)" "cs_key (db_space db) j = k" "cs_ref (db_space db) j = r"
    using assms(1) by (rule cached_slot)
  note u = cs_used_facts [OF q(1) j(1)]
  have m: "0 < ch_marks (cs_head (db_space db) j)" using assms(3) u(4) j(3) by (simp add: marks_of_def)
  define s1 where "s1 = cs_upd r ch_unmark (db_space db)"
  define s2 where "s2 = (if ch_marks (cs_store s1 ! r) = 0 then cs_enqueue (int j) s1 else s1)"
  note e = cs_enqueue_inv [OF q(1) j(1), of ch_unmark, OF _ _ m, unfolded j(3), folded s1_def, folded s2_def]
  have r: "r < length (cs_store (db_space db))" using u(1) j(3) by simp
  have "cs_slot k s1 = cs_slot k (db_space db)"
    by (simp add: s1_def cs_slot_def cs_match_upd [OF r])
  then have "cs_slot (ch_key (cs_store s1 ! r)) s1 = Inr (int j)"
    using cs_slot_used(1) [OF q(1) j(1)] u(4) j(2,3) r by (simp add: s1_def cs_upd_store cs_key_def)
  then have "cs_unmarkChunk r (db_space db) = Inr s2"
    by (simp add: cs_unmarkChunk_def s1_def [symmetric] s2_def Let_def)
  moreover have "cs_unmark k (db_space db) = Inr s2"
    using cs_slot_used(1) [OF q(1) j(1)] cs_used_at [OF j(1)] j(2,3) by (simp add: cs_unmark_def s1_def [symmetric] s2_def Let_def)
  moreover have "roomy n (db\<lparr>db_space := s2\<rparr>)" using e(1) q(2) by (cases "slot_marks (db_space db) j = 1") (auto simp: roomy_def intro: exI [of _ "q @ [j]"])
  moreover have "moved (\<lambda>x. - one r x) db (db\<lparr>db_space := s2\<rparr>)"
    using e(2,3) by (auto simp: moved_def one_def s1_def cs_upd_def ch_unmark_def nth_list_update)
  ultimately show ?thesis
    by (cases k) (auto simp: db_unmarkChunk_def db_unmark_def on_space_def with_unit_def intro!: exI [of _ "db\<lparr>db_space := s2\<rparr>"])
qed


subsection \<open>Several chunks\<close>

definition times :: "nat list \<Rightarrow> nat \<Rightarrow> int" where
  "times rs r = int (count_list rs r)"

lemma times_simps [simp]: "times [] = (\<lambda>_. 0)" "times (r # rs) = (\<lambda>x. one r x + times rs x)"
  by (simp_all add: times_def one_def fun_eq_iff)

lemma moved_one_times: "moved (one r) db db' \<Longrightarrow> moved (times rs) db0 db \<Longrightarrow> moved (times (r # rs)) db0 db'"
  using moved_trans [of "times rs" db0 db "one r" db'] by (simp add: add.commute)

lemma seqo_step: "m db = (db', Inr a) \<Longrightarrow> seqo m f db = f a db'"
  by (simp add: seqo_def)

lemma marks_moved: "moved d db db' \<Longrightarrow> r < length (cs_store (db_space db)) \<Longrightarrow> marks_of db' r = marks_of db r + d r"
  by (simp add: moved_def marks_of_def)

lemma unmark_all_cached:
  assumes "roomy n db" "\<forall>r \<in> set rs. \<exists>k. cached db k r" "\<forall>r. times rs r \<le> marks_of db r \<or> r \<notin> set rs"
  shows "\<exists>db'. unmark_all rs db = (db', Inr ()) \<and> moved (\<lambda>x. - times rs x) db db' \<and> roomy n db'"
  using assms
proof (induction rs arbitrary: db)
  case Nil
  then show ?case using moved_refl by (auto simp: unmark_all_def ret_def)
next
  case (Cons r rs)
  obtain k where k: "cached db k r" using Cons.prems(2) by auto
  have "times (r # rs) r \<le> marks_of db r" using Cons.prems(3) by (metis list.set_intros(1))
  then have "0 < marks_of db r" by (simp add: one_def) (simp add: times_def)
  from unmark_cached [OF k Cons.prems(1) this] obtain db1 where
    db1: "db_unmarkChunk r db = (db1, Inr ())" "moved (\<lambda>x. - one r x) db db1" "roomy n db1" by blast
  have "times rs x \<le> marks_of db1 x \<or> x \<notin> set rs" for x
  proof (cases "x \<in> set rs")
    case True
    then have "x < length (cs_store (db_space db))" using Cons.prems(2) cached_bound Cons.prems(1) by fastforce
    then have "marks_of db1 x = marks_of db x - one r x" using marks_moved [OF db1(2)] by simp
    moreover have "times (r # rs) x \<le> marks_of db x" using Cons.prems(3) True by (meson list.set_intros(2))
    ultimately show ?thesis by simp
  qed simp
  then obtain db2 where db2: "unmark_all rs db1 = (db2, Inr ())" "moved (\<lambda>x. - times rs x) db1 db2" "roomy n db2"
    using Cons.IH [OF db1(3)] Cons.prems(2) cached_moved [OF db1(2)] by auto
  have "moved (\<lambda>x. - times (r # rs) x) db db2" using moved_trans [OF db1(2) db2(2)] by simp
  moreover have "unmark_all (r # rs) db = (db2, Inr ())" using db1(1) db2(1) by (simp add: unmark_all_def seqo_def)
  ultimately show ?case using db2(3) by blast
qed

text \<open>What was marked in between and is released again leaves the marks as they were.\<close>

lemma release:
  assumes "moved (times rs) db0 db" "roomy n db0" "roomy n' db" "\<forall>r \<in> set rs. \<exists>k. cached db0 k r"
  shows "\<exists>db'. unmark_all rs db = (db', Inr ()) \<and> moved (\<lambda>_. 0) db0 db' \<and> roomy n' db'"
proof -
  have "times rs r \<le> marks_of db r \<or> r \<notin> set rs" for r
    using marks_moved [OF assms(1), of r] cached_bound [OF _ assms(2), of _ r] assms(4) by force
  then obtain db' where db': "unmark_all rs db = (db', Inr ())" "moved (\<lambda>x. - times rs x) db db'" "roomy n' db'"
    using unmark_all_cached [OF assms(3)] assms(4) cached_moved [OF assms(1)] by blast
  then show ?thesis using moved_trans [OF assms(1) db'(2)] by auto
qed

subsection \<open>Cached orders and trees\<close>

definition order_at :: "mwdb \<Rightarrow> int \<Rightarrow> nat \<Rightarrow> wo_chunk \<Rightarrow> wo_state \<Rightarrow> bool" where
  "order_at db i r c s \<longleftrightarrow> cached db (WORLD_ORDER_CHUNK, NULL_LONG, NULL_LONG, i) r \<and> db_body db ! r = OrderBody c
     \<and> wc_state c = Some s \<and> (\<exists>e. wo_wf e s) \<and> wo_abs s NULL_LONG = None"

definition tree_at :: "mwdb \<Rightarrow> int \<Rightarrow> int \<Rightarrow> int \<Rightarrow> nat \<Rightarrow> time_tree \<Rightarrow> bool" where
  "tree_at db w t i r tr \<longleftrightarrow> cached db (TIME_TREE_CHUNK, w, t, i) r \<and> db_body db ! r = TreeBody tr \<and> tt_inv tr"

lemma at_moved:
  "moved d db db' \<Longrightarrow> order_at db' i r c s \<longleftrightarrow> order_at db i r c s"
  "moved d db db' \<Longrightarrow> tree_at db' w t i r tr \<longleftrightarrow> tree_at db w t i r tr"
  by (simp_all add: order_at_def tree_at_def cached_moved) (simp_all add: moved_def)

lemma the_order_at: "order_at db i r c s \<Longrightarrow> the_order r db = (db, Inr (c\<lparr>wc_flags := head_flags r db\<rparr>))"
  by (simp add: order_at_def the_order_def body_def with_flags_def ret_def)

lemma the_tree_at: "tree_at db w t i r tr \<Longrightarrow> the_tree r db = (db, Inr (tr\<lparr>tt_flags := head_flags r db\<rparr>))"
  by (simp add: tree_at_def the_tree_def body_def with_flags_def ret_def)

lemma set_flags [simp]: "tt_list (s\<lparr>tt_flags := n\<rparr>) = tt_list s" "tt_inv (s\<lparr>tt_flags := n\<rparr>) = tt_inv s"
proof -
  have "linked (s\<lparr>tt_flags := n\<rparr>) t p = linked s t p" for t p
    by (induction t arbitrary: p) (simp_all add: LF_def RF_def PF_def)
  then show "tt_inv (s\<lparr>tt_flags := n\<rparr>) = tt_inv s"
    by (simp add: tt_inv_def tt_tree_def placed_def tt_fits_def CF_def [abs_def] tt_color_def)
qed (simp add: tt_list_def)

lemma previousOrEqual_at:
  "tree_at db w t i r tr \<Longrightarrow> previousOrEqual r k db = (db, Inr (latest_upto k (set (tt_list tr))))"
  using the_tree_at [of db w t i r tr] previousOrEqual_latest [of "tr\<lparr>tt_flags := head_flags r db\<rparr>" k]
  by (simp add: tree_at_def previousOrEqual_def seqo_def of_result_def defined_def)

subsection \<open>The lookup\<close>

text \<open>The part of \<open>lookup\<close> up to the world: both orders are marked.\<close>

lemma lookup_orders:
  assumes "roomy (Suc (Suc m)) db" "order_at db NULL_LONG g gc gs" "order_at db i n nc ns"
    and "lineage (wo_abs gs) world ws" "\<forall>u \<in> set ws. hashable u"
  obtains db1 db2 gc' nc' where
    "getOrLoadAndMark env WORLD_ORDER_CHUNK NULL_LONG NULL_LONG NULL_LONG db = (db1, Inr (Some g))"
    "getOrLoadAndMark env WORLD_ORDER_CHUNK NULL_LONG NULL_LONG i db1 = (db2, Inr (Some n))"
    "the_order g db2 = (db2, Inr gc')" "the_order n db2 = (db2, Inr nc')"
    "resolve_world gc' nc' time world = Inr (nearest_world (wo_abs ns) time world ws)"
    "moved (times [n, g]) db db2" "roomy m db2"
proof -
  have ne: "NULL_LONG \<noteq> END_OF_TIME" by (simp add: NULL_LONG_def END_OF_TIME_def)
  obtain db1 where 1: "getOrLoadAndMark env WORLD_ORDER_CHUNK NULL_LONG NULL_LONG NULL_LONG db = (db1, Inr (Some g))"
    "moved (times [g]) db db1" "roomy (Suc m) db1"
    using getOrLoad_cached [OF _ assms(1), of WORLD_ORDER_CHUNK NULL_LONG NULL_LONG NULL_LONG g env] assms(2) ne
    by (auto simp: order_at_def)
  have n1: "order_at db1 i n nc ns" using at_moved(1) [OF 1(2)] assms(3) by simp
  obtain db2 where 2: "getOrLoadAndMark env WORLD_ORDER_CHUNK NULL_LONG NULL_LONG i db1 = (db2, Inr (Some n))"
    "moved (one n) db1 db2" "roomy m db2"
    using getOrLoad_cached [OF _ 1(3), of WORLD_ORDER_CHUNK NULL_LONG NULL_LONG i n env] n1 ne by (auto simp: order_at_def)
  have m: "moved (times [n, g]) db db2" using moved_one_times [OF 2(2) 1(2)] .
  then have o': "order_at db2 NULL_LONG g gc gs" "order_at db2 i n nc ns" using at_moved(1) assms(2,3) by blast+
  obtain e e' where e: "wo_wf e gs" "wo_wf e' ns" using assms(2,3) by (auto simp: order_at_def)
  have "resolve_world (gc\<lparr>wc_flags := head_flags g db2\<rparr>) (nc\<lparr>wc_flags := head_flags n db2\<rparr>) time world
      = Inr (nearest_world (wo_abs ns) time world ws)"
    using assms(2,3) by (intro resolve_world_nearest [OF _ e(1) _ e(2) assms(4,5)]) (simp_all add: order_at_def)
  then show thesis using that 1(1) 2(1,3) m the_order_at [OF o'(1)] the_order_at [OF o'(2)] by blast
qed

text \<open>The next chunk of a lookup, which is marked beside those that were taken before.\<close>

lemma lookup_next:
  assumes "cached db0 (t, w, k, i) r" "moved (times rs) db0 db" "roomy (Suc m) db" "i \<noteq> END_OF_TIME"
  obtains db' where "getOrLoadAndMark env t w k i db = (db', Inr (Some r))" "moved (times (r # rs)) db0 db'" "roomy m db'"
  using getOrLoad_cached [of db t w k i r m env] assms moved_one_times cached_moved [OF assms(2)] by blast

lemma lookup_found:
  assumes "roomy (m + 5) db" "order_at db NULL_LONG g gc gs" "order_at db i n nc ns"
    and "lineage (wo_abs gs) world ws" "\<forall>u \<in> set ws. hashable u" "i \<noteq> END_OF_TIME"
    and W: "W = nearest_world (wo_abs ns) time world ws"
    and S: "tree_at db W NULL_LONG i s st" "ST = latest_upto time (set (tt_list st))" "ST \<noteq> NULL_LONG"
    and T: "tree_at db W ST i t tt" "TM = latest_upto time (set (tt_list tt))" "TM \<noteq> NULL_LONG"
    and ob: "cached db (STATE_CHUNK, W, TM, i) ob"
  shows "\<exists>db'. moved (times [ob, t, s, n, g]) db db' \<and> roomy m db' \<and>
     lookup env world time i db = (db'\<lparr>db_nodes := db_nodes db @ [\<lparr>nd_world = world, nd_time = time, nd_id = i,
         nd_resolved = Some \<lparr>rs_world = W, rs_superTime = ST, rs_time = TM, rs_worldMagic = wc_magic nc,
           rs_superTimeMagic = tt_magic st, rs_timeMagic = tt_magic tt\<rparr>\<rparr>]\<rparr>, Inr (Some (Some (length (db_nodes db)))))"
proof -
  have "roomy (Suc (Suc (m + 3))) db" using assms(1) by (simp add: numeral_eq_Suc)
  from lookup_orders [OF this assms(2-5), of env time] obtain db1 db2 gc' nc' where
    o': "getOrLoadAndMark env WORLD_ORDER_CHUNK NULL_LONG NULL_LONG NULL_LONG db = (db1, Inr (Some g))"
    "getOrLoadAndMark env WORLD_ORDER_CHUNK NULL_LONG NULL_LONG i db1 = (db2, Inr (Some n))"
    "the_order g db2 = (db2, Inr gc')" "the_order n db2 = (db2, Inr nc')"
    "resolve_world gc' nc' time world = Inr W" "moved (times [n, g]) db db2" "roomy (m + 3) db2" unfolding W by blast
  have r2: "roomy (Suc (m + 2)) db2" using o'(7) by (simp add: numeral_eq_Suc)
  obtain db3 where 3: "getOrLoadAndMark env TIME_TREE_CHUNK W NULL_LONG i db2 = (db3, Inr (Some s))"
    "moved (times [s, n, g]) db db3" "roomy (Suc (Suc m)) db3"
    using lookup_next [OF _ o'(6) r2 assms(6), of TIME_TREE_CHUNK W NULL_LONG s env] S(1) by (auto simp: tree_at_def numeral_2_eq_2)
  obtain db4 where 4: "getOrLoadAndMark env TIME_TREE_CHUNK W ST i db3 = (db4, Inr (Some t))"
    "moved (times [t, s, n, g]) db db4" "roomy (Suc m) db4"
    using lookup_next [OF _ 3(2,3) assms(6), of TIME_TREE_CHUNK W ST t env] T(1) by (auto simp: tree_at_def)
  obtain db5 where 5: "getOrLoadAndMark env STATE_CHUNK W TM i db4 = (db5, Inr (Some ob))"
    "moved (times [ob, t, s, n, g]) db db5" "roomy m db5"
    using lookup_next [OF ob 4(2,3) assms(6), of env] by auto
  have p: "previousOrEqual s time db3 = (db3, Inr ST)" "previousOrEqual t time db4 = (db4, Inr TM)"
    using previousOrEqual_at S(1,2) T(1,2) at_moved(2) [OF 3(2)] at_moved(2) [OF 4(2)] by blast+
  have n: "new_resolved n s t W ST TM db5 = (db5, Inr \<lparr>rs_world = W, rs_superTime = ST, rs_time = TM,
      rs_worldMagic = wc_magic nc, rs_superTimeMagic = tt_magic st, rs_timeMagic = tt_magic tt\<rparr>)"
    using the_order_at [of db5 i n nc ns] the_tree_at [of db5 W NULL_LONG i s st] the_tree_at [of db5 W ST i t tt]
      at_moved [OF 5(2)] assms(3) S(1) T(1) by (simp add: new_resolved_def seqo_def ret_def)
  have nodes: "db_nodes db5 = db_nodes db" using 5(2) by (simp add: moved_def)
  have "lookup_job env world time i db = (db5\<lparr>db_nodes := db_nodes db @ [\<lparr>nd_world = world, nd_time = time, nd_id = i,
         nd_resolved = Some \<lparr>rs_world = W, rs_superTime = ST, rs_time = TM, rs_worldMagic = wc_magic nc,
           rs_superTimeMagic = tt_magic st, rs_timeMagic = tt_magic tt\<rparr>\<rparr>]\<rparr>, Inr (Some (length (db_nodes db))))"
    using S(3) T(3) by (simp add: lookup_job_def seqo_def o'(1-5) of_result_def 3(1) p 4(1) 5(1) n new_node_object_def get_db_def upd_db_def nodes ret_def)
  then show ?thesis using 5(2,3) by (intro exI [of _ db5]) (simp add: lookup_def try_log_def seqo_def ret_def)
qed

text \<open>Nothing is there at that time: everything is released.\<close>

lemma unmark_all_then:
  assumes "moved (times rs) db0 db" "roomy n db0" "roomy n' db" "\<forall>r \<in> set rs. \<exists>k. cached db0 k r"
  shows "\<exists>db'. seqo (unmark_all rs) (\<lambda>_. ret x) db = (db', Inr x) \<and> moved (\<lambda>_. 0) db0 db' \<and> roomy n' db'"
  using release [OF assms] by (auto simp: seqo_def ret_def)

lemma lookup_nothing:
  assumes "roomy 5 db" "order_at db NULL_LONG g gc gs" "order_at db i n nc ns"
    and "lineage (wo_abs gs) world ws" "\<forall>u \<in> set ws. hashable u" "i \<noteq> END_OF_TIME"
    and W: "W = nearest_world (wo_abs ns) time world ws"
    and S: "tree_at db W NULL_LONG i s st" "ST = latest_upto time (set (tt_list st))"
    and T: "ST \<noteq> NULL_LONG \<Longrightarrow> tree_at db W ST i t tt \<and> latest_upto time (set (tt_list tt)) = NULL_LONG"
  shows "\<exists>db'. lookup env world time i db = (db', Inr (Some None)) \<and> moved (\<lambda>_. 0) db db' \<and> roomy 1 db'"
proof -
  have "roomy (Suc (Suc 3)) db" using assms(1) by simp
  from lookup_orders [OF this assms(2-5), of env time] obtain db1 db2 gc' nc' where
    o': "getOrLoadAndMark env WORLD_ORDER_CHUNK NULL_LONG NULL_LONG NULL_LONG db = (db1, Inr (Some g))"
    "getOrLoadAndMark env WORLD_ORDER_CHUNK NULL_LONG NULL_LONG i db1 = (db2, Inr (Some n))"
    "the_order g db2 = (db2, Inr gc')" "the_order n db2 = (db2, Inr nc')"
    "resolve_world gc' nc' time world = Inr W" "moved (times [n, g]) db db2" "roomy 3 db2" unfolding W by blast
  have r2: "roomy (Suc 2) db2" using o'(7) by simp
  obtain db3 where 3: "getOrLoadAndMark env TIME_TREE_CHUNK W NULL_LONG i db2 = (db3, Inr (Some s))"
    "moved (times [s, n, g]) db db3" "roomy (Suc 1) db3"
    using lookup_next [OF _ o'(6) r2 assms(6), of TIME_TREE_CHUNK W NULL_LONG s env] S(1) by (auto simp: tree_at_def numeral_2_eq_2)
  have p: "previousOrEqual s time db3 = (db3, Inr ST)" using previousOrEqual_at S at_moved(2) [OF 3(2)] by blast
  have c: "\<forall>r \<in> {s, n, g}. \<exists>k. cached db k r" using S(1) assms(2,3) unfolding tree_at_def order_at_def by blast
  note steps = lookup_job_def seqo_def o'(1-5) of_result_def 3(1) p
  have "\<exists>db'. lookup_job env world time i db = (db', Inr None) \<and> moved (\<lambda>_. 0) db db' \<and> roomy 1 db'"
  proof (cases "ST = NULL_LONG")
    case True
    obtain db' where "unmark_all [s, n, g] db3 = (db', Inr ())" "moved (\<lambda>_. 0) db db'" "roomy (Suc 1) db'"
      using release [OF 3(2) assms(1) 3(3)] c by auto
    then show ?thesis using True by (auto simp: steps ret_def roomy_def intro: Suc_lessD)
  next
    case False
    note T' = T [OF False]
    obtain db4 where 4: "getOrLoadAndMark env TIME_TREE_CHUNK W ST i db3 = (db4, Inr (Some t))"
      "moved (times [t, s, n, g]) db db4" "roomy 1 db4"
      using lookup_next [OF _ 3(2,3) assms(6), of TIME_TREE_CHUNK W ST t env] T' by (auto simp: tree_at_def)
    have p4: "previousOrEqual t time db4 = (db4, Inr NULL_LONG)" using previousOrEqual_at T' at_moved(2) [OF 4(2)] by metis
    obtain db' where "unmark_all [t, s, n, g] db4 = (db', Inr ())" "moved (\<lambda>_. 0) db db'" "roomy 1 db'"
      using release [OF 4(2) assms(1) 4(3)] c T' by (auto simp: tree_at_def)
    then show ?thesis using False by (auto simp: steps 4(1) p4 ret_def)
  qed
  then show ?thesis by (auto simp: lookup_def try_log_def seqo_def ret_def)
qed

subsection \<open>Releasing a node\<close>

lemma unmark_next:
  assumes "cached db0 (t, w, x, i) r" "moved (times (r # rs)) db0 db" "roomy n db" "roomy m db0"
  obtains db' where "db_unmark t w x i db = (db', Inr ())" "moved (times rs) db0 db'" "roomy n db'"
proof -
  have c: "cached db (t, w, x, i) r" using assms(1) cached_moved [OF assms(2)] by simp
  have "0 < marks_of db r"
    using marks_moved [OF assms(2), of r] cached_bound [OF assms(1,4)] by (simp add: one_def) (simp add: times_def)
  from unmark_cached [OF c assms(3) this] obtain db' where
    db': "db_unmark t w x i db = (db', Inr ())" "moved (\<lambda>x. - one r x) db db'" "roomy n db'" by auto
  have "moved (times rs) db0 db'" using moved_trans [OF assms(2) db'(2)] by simp
  then show thesis using that db' by blast
qed

text \<open>A change of the nodes goes through the cache operations unseen.\<close>

lemma unmark_nodes:
  "db_unmark t w x i (db\<lparr>db_nodes := ns\<rparr>) = (case db_unmark t w x i db of (db', r) \<Rightarrow> (db'\<lparr>db_nodes := ns\<rparr>, r))"
  by (simp add: db_unmark_def on_space_def split: sum.splits prod.splits)

lemma free_node:
  assumes "roomy m db0" "moved (times [ob, t, s, n, g]) db0 db" "roomy k db"
    and "order_at db0 NULL_LONG g gc gs" "order_at db0 i n nc ns" "tree_at db0 W NULL_LONG i s st" "tree_at db0 W ST i t tt"
    and "cached db0 (STATE_CHUNK, W, TM, i) ob"
    and nd: "nd_id nd = i" "nd_resolved nd = Some p" "rs_world p = W" "rs_superTime p = ST" "rs_time p = TM"
  shows "\<exists>db'. moved (\<lambda>_. 0) db0 db' \<and> roomy k db'
     \<and> freeNode (length nds) (db\<lparr>db_nodes := nds @ [nd]\<rparr>) = (db'\<lparr>db_nodes := nds @ [nd\<lparr>nd_resolved := None\<rparr>]\<rparr>, Inr ())"
proof -
  note c = assms(4-7) [unfolded order_at_def tree_at_def]
  obtain db1 where 1: "db_unmark STATE_CHUNK W TM i db = (db1, Inr ())" "moved (times [t, s, n, g]) db0 db1" "roomy k db1"
    by (rule unmark_next [OF assms(8,2,3,1)])
  have c': "cached db0 (TIME_TREE_CHUNK, W, NULL_LONG, i) s" "cached db0 (TIME_TREE_CHUNK, W, ST, i) t"
    "cached db0 (WORLD_ORDER_CHUNK, NULL_LONG, NULL_LONG, i) n" "cached db0 (WORLD_ORDER_CHUNK, NULL_LONG, NULL_LONG, NULL_LONG) g"
    using c by simp_all
  have "moved (times [s, t, n, g]) db0 db1" using 1(2) by (simp add: add.left_commute)
  from unmark_next [OF c'(1) this 1(3) assms(1)] obtain db2 where
    2: "db_unmark TIME_TREE_CHUNK W NULL_LONG i db1 = (db2, Inr ())" "moved (times [t, n, g]) db0 db2" "roomy k db2" .
  from unmark_next [OF c'(2) 2(2,3) assms(1)] obtain db3 where
    3: "db_unmark TIME_TREE_CHUNK W ST i db2 = (db3, Inr ())" "moved (times [n, g]) db0 db3" "roomy k db3" .
  from unmark_next [OF c'(3) 3(2,3) assms(1)] obtain db4 where
    4: "db_unmark WORLD_ORDER_CHUNK NULL_LONG NULL_LONG i db3 = (db4, Inr ())" "moved (times [g]) db0 db4" "roomy k db4" .
  from unmark_next [OF c'(4) 4(2,3) assms(1)] obtain db5 where
    5: "db_unmark WORLD_ORDER_CHUNK NULL_LONG NULL_LONG NULL_LONG db4 = (db5, Inr ())" "moved (times []) db0 db5" "roomy k db5" .
  show ?thesis using 5(2,3) nd
    by (intro exI [of _ db5])
       (simp add: freeNode_def node_at_def set_resolved_def seqo_def get_db_def upd_db_def unmark_nodes 1(1) 2(1) 3(1) 4(1) 5(1) ret_def)
qed

end
