(* ===== verification/ResolverSpec.thy ===== *)
theory ResolverSpec
  imports ResolverLookup
begin

text \<open>
  The properties of the resolver: which world and time a lookup finds, that it takes and gives back its marks in balance, and
  what the resolved node gives access to.
\<close>

subsection \<open>The state of a resolved node\<close>

lemma exact_found:
  assumes "roomy (Suc m) db" "db_nodes db ! n = nd" "nd_resolved nd = Some p" "rs_world p = nd_world nd" "rs_time p = nd_time nd"
    and "cached db (STATE_CHUNK, nd_world nd, nd_time nd, nd_id nd) ob"
  shows "\<exists>db'. resolveState env n b db = (db', Inr (Some ob)) \<and> moved (\<lambda>_. 0) db db' \<and> roomy m db'"
proof -
  obtain db1 where 1: "db_getAndMark STATE_CHUNK (nd_world nd) (nd_time nd) (nd_id nd) db = (db1, Inr (Some ob))"
    "moved (one ob) db db1" "roomy m db1" using getAndMark_cached [OF assms(6), of m] assms(1) by auto
  have "moved (times [ob]) db db1" using 1(2) by simp
  from release [OF this assms(1) 1(3)] assms(6) obtain db2 where
    2: "unmark_all [ob] db1 = (db2, Inr ())" "moved (\<lambda>_. 0) db db2" "roomy m db2" by auto
  then show ?thesis using 1(1) assms(2-5)
    by (auto simp: resolveState_def node_at_def exact_state_def seqo_def ret_def get_db_def Let_def)
qed

text \<open>The trees and the order have the magic numbers that the node has seen.\<close>

lemma unchanged_found:
  assumes "roomy 4 db" "db_nodes db ! k = nd" "nd_resolved nd = Some p" "nd_id nd = i"
    and "\<not> (rs_world p = nd_world nd \<and> rs_time p = nd_time nd)"
    and "order_at db i n nc ns" "tree_at db (rs_world p) NULL_LONG i s st" "tree_at db (rs_world p) (rs_superTime p) i t tt"
    and "cached db (STATE_CHUNK, rs_world p, rs_time p, i) ob"
    and "wc_magic nc = rs_worldMagic p" "tt_magic st = rs_superTimeMagic p" "tt_magic tt = rs_timeMagic p"
  shows "\<exists>db'. resolveState env k True db = (db', Inr (Some ob)) \<and> moved (\<lambda>_. 0) db db' \<and> roomy 0 db'"
proof -
  have c: "cached db (WORLD_ORDER_CHUNK, NULL_LONG, NULL_LONG, i) n" "cached db (TIME_TREE_CHUNK, rs_world p, NULL_LONG, i) s"
    "cached db (TIME_TREE_CHUNK, rs_world p, rs_superTime p, i) t" using assms(6-8) by (simp_all add: order_at_def tree_at_def)
  have more: "\<exists>db'. db_getAndMark ty w x i db1 = (db', Inr (Some r)) \<and> moved (times (r # rs)) db db' \<and> roomy m db'"
    if "cached db (ty, w, x, i) r" "moved (times rs) db db1" "roomy (Suc m) db1" for ty w x r rs db1 m
    using getAndMark_cached [of db1 ty w x i r m] that moved_one_times [OF _ that(2)] cached_moved [OF that(2)] by blast
  obtain db1 where 1: "db_getAndMark WORLD_ORDER_CHUNK NULL_LONG NULL_LONG i db = (db1, Inr (Some n))" "moved (times [n]) db db1" "roomy 3 db1"
    using more [OF c(1), of "[]" db 3] moved_refl assms(1) by auto
  obtain db2 where 2: "db_getAndMark TIME_TREE_CHUNK (rs_world p) NULL_LONG i db1 = (db2, Inr (Some s))" "moved (times [s, n]) db db2" "roomy 2 db2"
    using more [OF c(2) 1(2), of 2] 1(3) by auto
  obtain db3 where 3: "db_getAndMark TIME_TREE_CHUNK (rs_world p) (rs_superTime p) i db2 = (db3, Inr (Some t))"
    "moved (times [t, s, n]) db db3" "roomy 1 db3" using more [OF c(3) 2(2), of 1] 2(3) by (auto simp: numeral_2_eq_2)
  obtain db4 where 4: "db_getAndMark STATE_CHUNK (rs_world p) (rs_time p) i db3 = (db4, Inr (Some ob))"
    "moved (times [ob, t, s, n]) db db4" "roomy 0 db4" using more [OF assms(9) 3(2), of 0] 3(3) by auto
  have same: "same_magics p n s t db3 = (db3, Inr True)"
    using the_order_at [of db3 i n nc ns] the_tree_at [of db3 "rs_world p" NULL_LONG i s st] the_tree_at [of db3 "rs_world p" "rs_superTime p" i t tt]
      at_moved [OF 3(2)] assms(6-8,10-12) by (simp add: same_magics_def new_resolved_def seqo_def ret_def)
  have "moved (times [n, s, t, ob]) db db4" using 4(2) by (simp add: add.commute add.left_commute)
  from release [OF this assms(1) 4(3)] c assms(9) obtain db5 where
    5: "unmark_all [n, s, t, ob] db4 = (db5, Inr ())" "moved (\<lambda>_. 0) db db5" "roomy 0 db5" by auto
  have "exact_state p (nd_world nd) (nd_time nd) i db = (db, Inr None)" using assms(5) by (auto simp: exact_state_def ret_def)
  then show ?thesis using 5 assms(2-4)
    by (intro exI [of _ db5])
       (simp add: resolveState_def node_at_def order_key_def seqo_def ret_def get_db_def Let_def 1(1) 2(1) 3(1) 4(1) same)
qed

subsection \<open>Dead nodes\<close>

lemma db_unmark_nodes: "db_nodes (fst (db_unmark t w x i db)) = db_nodes db"
  by (simp add: db_unmark_def on_space_def split: sum.splits prod.splits)

lemma do_all_nodes: "\<forall>m \<in> set ms. \<forall>db. db_nodes (fst (m db)) = db_nodes db \<Longrightarrow> db_nodes (fst (do_all ms db)) = db_nodes db"
proof (induction ms arbitrary: db)
  case (Cons m ms)
  obtain db' r where m: "m db = (db', r)" by (cases "m db")
  then have "db_nodes db' = db_nodes db" using Cons.prems by (metis fst_conv list.set_intros(1))
  moreover have "db_nodes (fst (do_all ms db')) = db_nodes db'" using Cons by simp
  ultimately show ?case using m by (cases r) (simp_all add: seqo_def)
qed (simp add: ret_def)

lemma freeNode_nodes: "db_nodes (fst (freeNode n db)) = (db_nodes db)[n := (db_nodes db ! n)\<lparr>nd_resolved := None\<rparr>]"
proof (cases "nd_resolved (db_nodes db ! n)")
  case None
  then show ?thesis by (simp add: freeNode_def node_at_def set_resolved_def seqo_def ret_def get_db_def upd_db_def)
next
  case (Some p)
  have "db_nodes (fst (do_all
     [db_unmark STATE_CHUNK (rs_world p) (rs_time p) i, db_unmark TIME_TREE_CHUNK (rs_world p) NULL_LONG i,
      db_unmark TIME_TREE_CHUNK (rs_world p) (rs_superTime p) i, db_unmark WORLD_ORDER_CHUNK NULL_LONG NULL_LONG i,
      db_unmark WORLD_ORDER_CHUNK NULL_LONG NULL_LONG NULL_LONG] db')) = db_nodes db'" for i db'
    by (intro do_all_nodes) (simp add: db_unmark_nodes)
  then show ?thesis using Some
    by (simp only: freeNode_def node_at_def set_resolved_def seqo_simps Let_def option.case) simp
qed

subsection \<open>A database for the witnesses\<close>

text \<open>A cache of \<open>N\<close> slots that holds the given keys, each with one mark and the dirty flag.\<close>

lemma fill_cache:
  assumes "distinct ks" "\<forall>k \<in> set ks. triple_hashable k" "length ks \<le> N" "0 < N" "N < 2 ^ 31" "m \<le> length ks"
  shows "\<exists>s. cs_inv s [m..<N] \<and> cs_used s = {0..<m} \<and> (\<forall>j < m. cs_ref s j = j) \<and> map ch_key (cs_store s) = ks
    \<and> (\<forall>j. m \<le> j \<and> j < length ks \<longrightarrow> ch_marks (cs_store s ! j) = 0) \<and> length (cs_values s) = N
    \<and> (\<forall>j < length ks. ch_flags (cs_store s ! j) = 1)"
  using assms(6)
proof (induction m)
  case 0
  obtain s where "newChunkSpace N N = Inr s" "cs_inv (s\<lparr>cs_store := map (\<lambda>k. \<lparr>ch_key = k, ch_marks = 0, ch_flags = 1\<rparr>) ks\<rparr>) [0..<N]"
    "cs_used (s\<lparr>cs_store := map (\<lambda>k. \<lparr>ch_key = k, ch_marks = 0, ch_flags = 1\<rparr>) ks\<rparr>) = {}"
    using newChunkSpace_inv [OF assms(4,5)] by blast
  moreover from this(1) have "length (cs_values s) = N" by (auto simp: newChunkSpace_def)
  ultimately show ?case
    by (intro exI [of _ "s\<lparr>cs_store := map (\<lambda>k. \<lparr>ch_key = k, ch_marks = 0, ch_flags = 1\<rparr>) ks\<rparr>"]) (simp add: comp_def)
next
  case (Suc m)
  then obtain s where s: "cs_inv s [m..<N]" "cs_used s = {0..<m}" "\<forall>j < m. cs_ref s j = j" "map ch_key (cs_store s) = ks"
    "\<forall>j. m \<le> j \<and> j < length ks \<longrightarrow> ch_marks (cs_store s ! j) = 0" "length (cs_values s) = N"
    "\<forall>j < length ks. ch_flags (cs_store s ! j) = 1" by auto
  have l: "length (cs_store s) = length ks" using arg_cong [OF s(4), of length] by simp
  have key: "ch_key (cs_store s ! j) = ks ! j" if "j < length ks" for j using s(4) that by (metis l nth_map)
  have ck: "cs_key s j = ks ! j" if "j < m" for j using s(3) that key Suc.prems by (simp add: cs_key_def cs_head_def)
  have v: "[m..<N] = m # [Suc m..<N]" using Suc.prems assms(3) by (simp add: upt_conv_Cons)
  have "\<exists>s'. cs_putAndMark m s = Inr (s', Some m) \<and> cs_inv s' [Suc m..<N] \<and> cs_values s' = (cs_values s)[m := Some m]
    \<and> cs_store s' = cs_store (cs_upd m ch_mark s) \<and> cs_dirty s' = cs_dirty s \<and> cs_saveBatchSize s' = cs_saveBatchSize s"
  proof (rule cs_put_new [OF s(1) [unfolded v], of m "ks ! m"])
    show "\<forall>i \<in> cs_used s. cs_key s i \<noteq> ks ! m"
      using s(2) ck assms(1) Suc.prems by (simp add: nth_eq_iff_index_eq)
  qed (use s(2,3,5) l key Suc.prems assms(2) in auto)
  then obtain s' where s': "cs_inv s' [Suc m..<N]" "cs_values s' = (cs_values s)[m := Some m]" "cs_store s' = cs_store (cs_upd m ch_mark s)" by blast
  have n: "m < length (cs_values (cs_upd m ch_mark s))" using s(6) Suc.prems assms(3) by simp
  have "cs_used s' = {0..<Suc m}" "\<forall>j < Suc m. cs_ref s' j = j"
    using cs_values_update(1,2,5) [OF n, of s' "Some m"] s'(2,3) s(2,3) by (auto simp: less_Suc_eq)
  moreover have "map ch_key (cs_store s') = ks"
    using s(4) by (simp add: s'(3) cs_upd_def map_update) (metis l Suc.prems Suc_le_lessD key list_update_id)
  moreover have "\<forall>j. Suc m \<le> j \<and> j < length ks \<longrightarrow> ch_marks (cs_store s' ! j) = 0"
    using s(5) by (simp add: s'(3) cs_upd_def)
  moreover have "length (cs_values s') = N" using s(6) by (simp add: s'(2))
  moreover have "\<forall>j < length ks. ch_flags (cs_store s' ! j) = 1"
    using s(7) l Suc.prems by (auto simp: s'(3) cs_upd_def ch_mark_def nth_list_update)
  ultimately show ?case using s'(1) by blast
qed

lemma filled_cache:
  assumes "distinct ks" "\<forall>k \<in> set ks. triple_hashable k" "length ks \<le> N" "0 < N" "N < 2 ^ 31"
  shows "\<exists>s. cs_inv s [length ks..<N] \<and> (\<forall>j < length ks. (ks ! j, j) \<in> cs_content s \<and> ch_flags (cs_store s ! j) = 1)"
proof -
  obtain s where s: "cs_inv s [length ks..<N]" "cs_used s = {0..<length ks}" "\<forall>j < length ks. cs_ref s j = j" "map ch_key (cs_store s) = ks"
    "\<forall>j < length ks. ch_flags (cs_store s ! j) = 1"
    using fill_cache [OF assms, of "length ks"] by auto
  have "(ks ! j, j) \<in> cs_content s" if "j < length ks" for j
  proof -
    have "j < length (cs_store s)" using that arg_cong [OF s(4), of length] by simp
    then have "cs_key s j = ks ! j" using s(3,4) that by (metis cs_key_def cs_head_def nth_map)
    then show ?thesis using that s(2,3) unfolding cs_content_def by (intro image_eqI [of _ _ j]) simp_all
  qed
  then show ?thesis using s(1,5) by blast
qed

text \<open>
  The world 2 has the parent 1, and the node 7 was changed in world 1 at the times 3, 5 and 8; its super time tree has the
  time 3 only.
\<close>

lemma sample_order:
  assumes "hashable k"
  shows "\<exists>(c :: wo_chunk) s. wc_state c = Some s \<and> wo_wf (-2) s \<and> wo_abs s = [k \<mapsto> v]"
proof -
  obtain s where "wo_wf (-2) s" "wo_pairs (ws_count s) s = [(k, v)]"
    using wo_put_new [OF sample_state(1,2) assms, of v] sample_state by auto
  then show ?thesis by (intro exI [of _ "wo_sample\<lparr>wc_state := Some s\<rparr>"]) (simp add: wo_abs_def)
qed

lemma sample_key_0: "triple_hashable (2, NULL_LONG, NULL_LONG, NULL_LONG)"
  by code_simp

lemma sample_key_1: "triple_hashable (2, NULL_LONG, NULL_LONG, 7)"
  by code_simp

lemma sample_key_2: "triple_hashable (1, 1, NULL_LONG, 7)"
  by code_simp

lemma sample_key_3: "triple_hashable (1, 1, 3, 7)"
  by code_simp

lemma sample_key_4: "triple_hashable (0, 1, 5, 7)"
  by code_simp

lemma sample_keys:
  "distinct ([(2, NULL_LONG, NULL_LONG, NULL_LONG), (2, NULL_LONG, NULL_LONG, 7), (1, 1, NULL_LONG, 7), (1, 1, 3, 7), (0, 1, 5, 7)] :: chunk_key list)"
  "\<forall>k \<in> set [(2, NULL_LONG, NULL_LONG, NULL_LONG), (2, NULL_LONG, NULL_LONG, 7), (1, 1, NULL_LONG, 7), (1, 1, 3, 7), (0, 1, 5, 7)]. triple_hashable k"
  by (simp_all add: NULL_LONG_def del: One_nat_def) (simp_all add: sample_key_0 [unfolded NULL_LONG_def] sample_key_1 [unfolded NULL_LONG_def]
      sample_key_2 [unfolded NULL_LONG_def] sample_key_3 sample_key_4)

lemma sample_lineage: "lineage [2 \<mapsto> 1] 2 [2, 1]"
  by (intro lineage.child [of _ _ 1] lineage.root) (simp_all add: NULL_LONG_def)

lemma sample_nearest: "nearest_world [1 \<mapsto> 3] 7 2 [2, 1] = 1" "nearest_world [1 \<mapsto> 3] 2 2 [2, 1] = 2"
  by (simp_all add: nearest_world_def covers_def NULL_LONG_def)

lemma sample_latest: "latest_upto 7 {3} = 3" "latest_upto 7 {5, 3, 8} = 5" "latest_upto 2 {3} = NULL_LONG"
proof -
  have "{t :: int. t = 3 \<and> t \<le> 7} = {3}" "{t :: int. (t = 5 \<or> t = 3 \<or> t = 8) \<and> t \<le> 7} = {5, 3}" by auto
  then show "latest_upto 7 {3} = 3" "latest_upto 7 {5, 3, 8} = 5" "latest_upto 2 {3} = NULL_LONG" by (simp_all add: latest_upto_def)
qed

definition sample_db :: "mwdb \<Rightarrow> bool" where
  "sample_db db \<longleftrightarrow> roomy 9 db \<and> db_nodes db = [] \<and> cached db (STATE_CHUNK, 1, 5, 7) 4
     \<and> (\<exists>gc gs. order_at db NULL_LONG 0 gc gs \<and> wo_abs gs = [2 \<mapsto> 1]) \<and> (\<exists>nc ns. order_at db 7 1 nc ns \<and> wo_abs ns = [1 \<mapsto> 3])
     \<and> (\<exists>st. tree_at db 1 NULL_LONG 7 2 st \<and> tt_list st = [3]) \<and> (\<exists>tt. tree_at db 1 3 7 3 tt \<and> tt_list tt = [5, 3, 8])"

lemma sample_db: "\<exists>db. sample_db db"
proof -
  let ?ks = "[(2, NULL_LONG, NULL_LONG, NULL_LONG), (2, NULL_LONG, NULL_LONG, 7), (1, 1, NULL_LONG, 7), (1, 1, 3, 7), (0, 1, 5, 7)] :: chunk_key list"
  obtain s where s: "cs_inv s [length ?ks..<15]" "\<forall>j < length ?ks. (?ks ! j, j) \<in> cs_content s"
    using filled_cache [OF sample_keys, of 15] by auto
  obtain gc :: wo_chunk and gs where g: "wc_state gc = Some gs" "wo_wf (-2) gs" "wo_abs gs = [2 \<mapsto> 1]" using sample_order [OF hashable_2, of 1] by auto
  obtain nc :: wo_chunk and ns where n: "wc_state nc = Some ns" "wo_wf (-2) ns" "wo_abs ns = [1 \<mapsto> 3]" using sample_order [OF hashable_1, of 3] by auto
  obtain st where st: "tt_inv st" "tt_list st = [3]"
    using insert_steps [OF new_time_tree_inv(1), of "[3]" 0 0 0 True] new_time_tree_inv(2) [of 0 0 0 True] by (auto simp: add_key_def)
  obtain tt where tt: "tt_inv tt" "tt_list tt = [5, 3, 8]" using sample_tree by blast
  define db where "db = \<lparr>db_space = s, db_body = [OrderBody gc, OrderBody nc, TreeBody st, TreeBody tt], db_heap = no_heap, db_nodes = [],
    db_dictionary = None, db_connected = False, db_lock = False, db_prefix = 0, db_nodeKeys = None, db_worldKeys = None\<rparr>"
  have c: "cached db (?ks ! j) j" if "j < 5" for j using s(2) that by (simp add: cached_def db_def)
  have "cached db (2, NULL_LONG, NULL_LONG, NULL_LONG) 0" "cached db (2, NULL_LONG, NULL_LONG, 7) 1" "cached db (1, 1, NULL_LONG, 7) 2"
    "cached db (1, 1, 3, 7) 3" "cached db (0, 1, 5, 7) 4"
    using c [of 0] c [of 1] c [of 2] c [of 3] c [of 4] by simp_all
  moreover have "length ?ks = 5" by simp
  then have "cs_inv s [5..<15]" using s(1) by (simp only:)
  then have "roomy 9 db" by (auto simp: roomy_def db_def intro!: exI [of _ "[5..<15]"])
  ultimately have "sample_db db" unfolding sample_db_def order_at_def tree_at_def using g n st tt
    by (auto simp: chunk_types NULL_LONG_def db_def)
  then show ?thesis by blast
qed

subsection \<open>Properties\<close>

text \<open>Property C7.
  \<open>resolve_world\<close> ends on every finite lineage, also when a world is its own parent, and finds the nearest world, from the given
  one towards the root, in which the node had been changed by the given time; the given world when there is none.\<close>

theorem resolve_world_spec:
  assumes "wc_state gc = Some gs" "wo_wf e gs" "wc_state nc = Some ns" "wo_wf e' ns"
    and "lineage (wo_abs gs) w ws" "\<forall>u \<in> set ws. hashable u" "wo_abs gs NULL_LONG = None" "wo_abs ns NULL_LONG = None"
  shows "resolve_world gc nc t w = Inr (case find (\<lambda>u. \<exists>d. wo_abs ns u = Some d \<and> d \<noteq> NULL_LONG \<and> d \<le> t) ws of None \<Rightarrow> w | Some u \<Rightarrow> u)"
proof -
  have "covers (wo_abs ns) t = (\<lambda>u. \<exists>d. wo_abs ns u = Some d \<and> d \<noteq> NULL_LONG \<and> d \<le> t)"
    by (simp add: fun_eq_iff covers_def split: option.splits)
  then show ?thesis using resolve_world_nearest [OF assms, of t] by (simp add: nearest_world_def)
qed

theorem resolve_world_spec_witness:
  "\<exists>gc nc. wo_get 2 gc = Inr (Some 1) \<and> wo_get 1 nc = Inr (Some 3) \<and> resolve_world gc nc 7 2 = Inr 1 \<and> resolve_world gc nc 2 2 = Inr 2"
proof -
  obtain gc :: wo_chunk and gs where g: "wc_state gc = Some gs" "wo_wf (-2) gs" "wo_abs gs = [2 \<mapsto> 1]" using sample_order [OF hashable_2, of 1] by auto
  obtain nc :: wo_chunk and ns where n: "wc_state nc = Some ns" "wo_wf (-2) ns" "wo_abs ns = [1 \<mapsto> 3]" using sample_order [OF hashable_1, of 3] by auto
  have "lineage (wo_abs gs) 2 [2, 1]" using g(3) sample_lineage by simp
  moreover have "\<forall>u \<in> set [2, 1]. hashable u" using hashable_1 hashable_2 by simp
  moreover have "wo_abs gs NULL_LONG = None" "wo_abs ns NULL_LONG = None" using g(3) n(3) by (simp_all add: NULL_LONG_def)
  ultimately have "resolve_world gc nc t 2 = Inr (case find (\<lambda>u. \<exists>d. wo_abs ns u = Some d \<and> d \<noteq> NULL_LONG \<and> d \<le> t) [2, 1] of None \<Rightarrow> 2 | Some u \<Rightarrow> u)" for t
    by (rule resolve_world_spec [OF g(1,2) n(1,2)])
  then show ?thesis using wo_get_abs [OF g(1,2) hashable_2] wo_get_abs [OF n(1,2) hashable_1] g(3) n(3)
    by (intro exI [of _ gc] exI [of _ nc]) (simp add: NULL_LONG_def)
qed

text \<open>Property C1.
  A lookup whose chunks are all cached resolves the node at the nearest world of the lineage, the latest super time of that
  world and the latest time of the tree of that super time that are not after the given time; the new node holds these three and the
  magic numbers of the order and the trees.  It adds exactly one mark to each of the five chunks that it leaves with the node, and
  changes nothing else of the cache.\<close>

theorem lookup_refines:
  assumes "roomy (m + 5) db" "order_at db NULL_LONG g gc gs" "order_at db i n nc ns"
    and "lineage (wo_abs gs) world ws" "\<forall>u \<in> set ws. hashable u" "i \<noteq> END_OF_TIME"
    and "W = nearest_world (wo_abs ns) time world ws"
    and "tree_at db W NULL_LONG i s st" "ST = latest_upto time (set (tt_list st))" "ST \<noteq> NULL_LONG"
    and "tree_at db W ST i t tt" "TM = latest_upto time (set (tt_list tt))" "TM \<noteq> NULL_LONG"
    and "cached db (STATE_CHUNK, W, TM, i) ob"
  shows "\<exists>db'. moved (times [ob, t, s, n, g]) db db' \<and> roomy m db' \<and>
     lookup env world time i db = (db'\<lparr>db_nodes := db_nodes db @ [\<lparr>nd_world = world, nd_time = time, nd_id = i,
         nd_resolved = Some \<lparr>rs_world = W, rs_superTime = ST, rs_time = TM, rs_worldMagic = wc_magic nc,
           rs_superTimeMagic = tt_magic st, rs_timeMagic = tt_magic tt\<rparr>\<rparr>]\<rparr>, Inr (Some (Some (length (db_nodes db)))))"
  by (rule lookup_found) (fact assms)+

theorem lookup_refines_witness:
  "\<exists>db db' r. sample_db db \<and> lookup blackhole_env 2 7 7 db = (db', Inr (Some (Some 0)))
     \<and> db_nodes db' = [\<lparr>nd_world = 2, nd_time = 7, nd_id = 7, nd_resolved = Some r\<rparr>] \<and> rs_world r = 1 \<and> rs_superTime r = 3 \<and> rs_time r = 5"
proof -
  obtain db gc gs nc ns st tt where db: "sample_db db" "roomy 9 db" "db_nodes db = []" "cached db (STATE_CHUNK, 1, 5, 7) 4"
    "order_at db NULL_LONG 0 gc gs" "wo_abs gs = [2 \<mapsto> 1]" "order_at db 7 1 nc ns" "wo_abs ns = [1 \<mapsto> 3]"
    "tree_at db 1 NULL_LONG 7 2 st" "tt_list st = [3]" "tree_at db 1 3 7 3 tt" "tt_list tt = [5, 3, 8]"
    using sample_db unfolding sample_db_def by blast
  have n: "7 \<noteq> END_OF_TIME" "3 \<noteq> NULL_LONG" "5 \<noteq> NULL_LONG" by (simp_all add: END_OF_TIME_def NULL_LONG_def)
  have "roomy (4 + 5) db" "lineage (wo_abs gs) 2 [2, 1]" "\<forall>u \<in> set [2, 1]. hashable u" "1 = nearest_world (wo_abs ns) 7 2 [2, 1]"
    "3 = latest_upto 7 (set (tt_list st))" "5 = latest_upto 7 (set (tt_list tt))"
    using db sample_lineage hashable_1 hashable_2 sample_nearest sample_latest by simp_all
  from lookup_refines [OF this(1) db(5,7) this(2,3) n(1) this(4) db(9) this(5) n(2) db(11) this(6) n(3) db(4), of blackhole_env]
  show ?thesis using db(1,3) by fastforce
qed

text \<open>Property C27.
  A lookup of a node that does not exist yet at the given time (no super time, or no time in its tree, is early enough) calls back
  with null and releases every chunk that it had marked: all marks are as before.\<close>

theorem lookup_releases:
  assumes "roomy 5 db" "order_at db NULL_LONG g gc gs" "order_at db i n nc ns"
    and "lineage (wo_abs gs) world ws" "\<forall>u \<in> set ws. hashable u" "i \<noteq> END_OF_TIME"
    and "W = nearest_world (wo_abs ns) time world ws"
    and "tree_at db W NULL_LONG i s st" "ST = latest_upto time (set (tt_list st))"
    and "ST \<noteq> NULL_LONG \<Longrightarrow> tree_at db W ST i t tt \<and> latest_upto time (set (tt_list tt)) = NULL_LONG"
  shows "\<exists>db'. lookup env world time i db = (db', Inr (Some None)) \<and> moved (\<lambda>_. 0) db db'"
  using lookup_nothing [OF assms] by blast

theorem lookup_releases_witness: "\<exists>db db'. sample_db db \<and> lookup blackhole_env 1 2 7 db = (db', Inr (Some None)) \<and> marks_of db' 0 = marks_of db 0"
proof -
  obtain db gc gs nc ns st where db: "sample_db db" "roomy 9 db" "order_at db NULL_LONG 0 gc gs" "wo_abs gs = [2 \<mapsto> 1]"
    "order_at db 7 1 nc ns" "wo_abs ns = [1 \<mapsto> 3]" "tree_at db 1 NULL_LONG 7 2 st" "tt_list st = [3]"
    using sample_db unfolding sample_db_def by blast
  have n: "7 \<noteq> END_OF_TIME" by (simp add: END_OF_TIME_def)
  have "lineage (wo_abs gs) 1 [1]" using db(4) by (intro lineage.root) (simp_all add: NULL_LONG_def)
  moreover have "roomy 5 db" using db(2) by (auto simp: roomy_def)
  moreover have "1 = nearest_world (wo_abs ns) 2 1 [1]" "NULL_LONG = latest_upto 2 (set (tt_list st))" "\<forall>u \<in> set [1]. hashable u"
    using db(6,8) hashable_1 sample_latest by (simp_all add: nearest_world_def covers_def)
  ultimately obtain db' where "lookup blackhole_env 1 2 7 db = (db', Inr (Some None))" "moved (\<lambda>_. 0) db db'"
    using lookup_releases [of db 0 gc gs 7 1 nc ns 1 "[1]" 1 2 2 st NULL_LONG] db(3,5,7) n by blast
  moreover have "0 < length (cs_store (db_space db))" using db(3) cached_bound [OF _ db(2)] by (auto simp: order_at_def)
  ultimately show ?thesis using marks_moved [of "\<lambda>_. 0" db db' 0] db(1) by auto
qed

text \<open>Property C5.
  Freeing the node that a lookup has found gives back exactly the marks that the lookup took: a lookup followed by \<open>free\<close> leaves the
  marks, the content and the bodies of the cache as they were, and the node is dead.\<close>

theorem lookup_free_balance:
  assumes "roomy 5 db" "order_at db NULL_LONG g gc gs" "order_at db i n nc ns"
    and "lineage (wo_abs gs) world ws" "\<forall>u \<in> set ws. hashable u" "i \<noteq> END_OF_TIME"
    and "W = nearest_world (wo_abs ns) time world ws"
    and "tree_at db W NULL_LONG i s st" "ST = latest_upto time (set (tt_list st))" "ST \<noteq> NULL_LONG"
    and "tree_at db W ST i t tt" "TM = latest_upto time (set (tt_list tt))" "TM \<noteq> NULL_LONG"
    and "cached db (STATE_CHUNK, W, TM, i) ob"
  shows "\<exists>db'. moved (\<lambda>_. 0) db db' \<and>
     seqo (lookup env world time i) (\<lambda>x. case x of Some (Some k) \<Rightarrow> freeNode k | _ \<Rightarrow> ret ()) db
       = (db'\<lparr>db_nodes := db_nodes db @ [\<lparr>nd_world = world, nd_time = time, nd_id = i, nd_resolved = None\<rparr>]\<rparr>, Inr ())"
proof -
  have "roomy (0 + 5) db" using assms(1) by simp
  from lookup_found [OF this assms(2-14), of env] obtain db1 where
    1: "moved (times [ob, t, s, n, g]) db db1" "roomy 0 db1" and
    l: "lookup env world time i db = (db1\<lparr>db_nodes := db_nodes db @ [\<lparr>nd_world = world, nd_time = time, nd_id = i,
         nd_resolved = Some \<lparr>rs_world = W, rs_superTime = ST, rs_time = TM, rs_worldMagic = wc_magic nc,
           rs_superTimeMagic = tt_magic st, rs_timeMagic = tt_magic tt\<rparr>\<rparr>]\<rparr>, Inr (Some (Some (length (db_nodes db)))))" by blast
  show ?thesis
    using free_node [OF assms(1) 1 assms(2,3,8,11,14), of "\<lparr>nd_world = world, nd_time = time, nd_id = i,
         nd_resolved = Some \<lparr>rs_world = W, rs_superTime = ST, rs_time = TM, rs_worldMagic = wc_magic nc,
           rs_superTimeMagic = tt_magic st, rs_timeMagic = tt_magic tt\<rparr>\<rparr>" _ "db_nodes db"]
    by (auto simp: seqo_def l)
qed

theorem lookup_free_balance_witness:
  "\<exists>db db'. sample_db db \<and> moved (\<lambda>_. 0) db db' \<and> seqo (lookup blackhole_env 2 7 7) (\<lambda>x. case x of Some (Some k) \<Rightarrow> freeNode k | _ \<Rightarrow> ret ()) db
     = (db'\<lparr>db_nodes := [\<lparr>nd_world = 2, nd_time = 7, nd_id = 7, nd_resolved = None\<rparr>]\<rparr>, Inr ())"
proof -
  obtain db gc gs nc ns st tt where db: "sample_db db" "roomy 9 db" "db_nodes db = []" "cached db (STATE_CHUNK, 1, 5, 7) 4"
    "order_at db NULL_LONG 0 gc gs" "wo_abs gs = [2 \<mapsto> 1]" "order_at db 7 1 nc ns" "wo_abs ns = [1 \<mapsto> 3]"
    "tree_at db 1 NULL_LONG 7 2 st" "tt_list st = [3]" "tree_at db 1 3 7 3 tt" "tt_list tt = [5, 3, 8]"
    using sample_db unfolding sample_db_def by blast
  have n: "7 \<noteq> END_OF_TIME" "3 \<noteq> NULL_LONG" "5 \<noteq> NULL_LONG" by (simp_all add: END_OF_TIME_def NULL_LONG_def)
  have r: "roomy 5 db" using db(2) by (auto simp: roomy_def)
  have "lineage (wo_abs gs) 2 [2, 1]" "\<forall>u \<in> set [2, 1]. hashable u" "1 = nearest_world (wo_abs ns) 7 2 [2, 1]"
    "3 = latest_upto 7 (set (tt_list st))" "5 = latest_upto 7 (set (tt_list tt))"
    using db sample_lineage hashable_1 hashable_2 sample_nearest sample_latest by simp_all
  from lookup_free_balance [OF r db(5,7) this(1,2) n(1) this(3) db(9) this(4) n(2) db(11) this(5) n(3) db(4), of blackhole_env]
  show ?thesis using db(1,3) by auto
qed

text \<open>Property C26.
  As long as the order and the trees of a resolved node have the magic numbers that the node has seen, \<open>resolveState\<close> with
  dephasing returns the state chunk of the recorded world and time, without any search, and leaves all marks as they were.\<close>

theorem resolveState_unchanged:
  assumes "roomy 4 db" "db_nodes db ! k = nd" "nd_resolved nd = Some p" "nd_id nd = i"
    and "order_at db i n nc ns" "tree_at db (rs_world p) NULL_LONG i s st" "tree_at db (rs_world p) (rs_superTime p) i t tt"
    and "cached db (STATE_CHUNK, rs_world p, rs_time p, i) ob"
    and "wc_magic nc = rs_worldMagic p" "tt_magic st = rs_superTimeMagic p" "tt_magic tt = rs_timeMagic p"
  shows "\<exists>db'. resolveState env k True db = (db', Inr (Some ob)) \<and> moved (\<lambda>_. 0) db db'"
proof (cases "rs_world p = nd_world nd \<and> rs_time p = nd_time nd")
  case True
  have "roomy 1 db" using assms(1) by (auto simp: roomy_def)
  then show ?thesis using exact_found [of 0 db k nd p ob env True] assms(2-4,8) True by auto
next
  case False
  then show ?thesis using unchanged_found [OF assms(1-4) _ assms(5-11)] by blast
qed

theorem resolveState_unchanged_witness:
  "\<exists>db db' nd. db_nodes db = [nd] \<and> nd_time nd = 7 \<and> resolveState blackhole_env 0 True db = (db', Inr (Some 4))"
proof -
  obtain db nc ns st tt where db: "roomy 9 db" "cached db (STATE_CHUNK, 1, 5, 7) 4"
    "order_at db 7 1 nc ns" "tree_at db 1 NULL_LONG 7 2 st" "tree_at db 1 3 7 3 tt"
    using sample_db unfolding sample_db_def by blast
  let ?p = "\<lparr>rs_world = 1, rs_superTime = 3, rs_time = 5, rs_worldMagic = wc_magic nc, rs_superTimeMagic = tt_magic st, rs_timeMagic = tt_magic tt\<rparr>"
  let ?nd = "\<lparr>nd_world = 1, nd_time = 7, nd_id = 7, nd_resolved = Some ?p\<rparr>"
  let ?db = "db\<lparr>db_nodes := [?nd]\<rparr>"
  have "roomy 4 ?db" "order_at ?db 7 1 nc ns" "tree_at ?db 1 NULL_LONG 7 2 st" "tree_at ?db 1 3 7 3 tt" "cached ?db (STATE_CHUNK, 1, 5, 7) 4"
    using db by (auto simp: roomy_def order_at_def tree_at_def cached_def)
  then have "\<exists>db'. resolveState blackhole_env 0 True ?db = (db', Inr (Some 4)) \<and> moved (\<lambda>_. 0) ?db db'"
    by (intro resolveState_unchanged [of ?db 0 ?nd ?p 7 1 nc ns 2 st 3 tt 4]) simp_all
  then show ?thesis by (metis node.select_convs(2) mwdb.select_convs(4) mwdb.surjective mwdb.update_convs(4))
qed

text \<open>Further fact.
  A node that was freed is dead: every access to its state throws the error of a destroyed node and changes nothing, and
  freeing it again has no effect.\<close>

theorem freed_node_is_dead:
  assumes "freeNode n db = (db1, Inr ())" "n < length (db_nodes db)"
  shows "nd_resolved (db_nodes db1 ! n) = None \<and> resolveState env n b db1 = (db1, Inl (dead_node (nd_id (db_nodes db ! n))))
    \<and> markNodeAndGetType n db1 = (db1, Inl (dead_node (nd_id (db_nodes db ! n)))) \<and> freeNode n db1 = (db1, Inr ())"
proof -
  have "db_nodes db1 = (db_nodes db)[n := (db_nodes db ! n)\<lparr>nd_resolved := None\<rparr>]"
    using freeNode_nodes [of n db] assms(1) by simp
  then have nd: "db_nodes db1 ! n = (db_nodes db ! n)\<lparr>nd_resolved := None\<rparr>" using assms(2) by simp
  then have "(db_nodes db1)[n := (db_nodes db1 ! n)\<lparr>nd_resolved := None\<rparr>] = db_nodes db1"
    by (simp add: list_update_same_conv assms(2)) (metis list_update_id)
  then show ?thesis using nd
    by (simp add: resolveState_def markNodeAndGetType_def freeNode_def node_at_def set_resolved_def throw_def seqo_def ret_def
        get_db_def upd_db_def Let_def)
qed

theorem freed_node_is_dead_witness:
  "\<exists>db db1. freeNode 0 db = (db1, Inr ()) \<and> resolveState blackhole_env 0 True db1 = (db1, Inl (dead_node 7))"
proof -
  obtain db :: mwdb where db: "db_nodes db = [\<lparr>nd_world = 1, nd_time = 7, nd_id = 7, nd_resolved = None\<rparr>]"
    by (metis mwdb.select_convs(4))
  then have "freeNode 0 db = (db, Inr ())"
    by (simp add: freeNode_def node_at_def set_resolved_def seqo_def ret_def get_db_def upd_db_def)
  then show ?thesis using freed_node_is_dead [of 0 db db blackhole_env True] db by fastforce
qed

end
