(* ===== verification/NumberText.thy ===== *)
theory NumberText
  imports StateChunkSave
begin

text \<open>
  The text of a value: \<open>Number.prototype.toString\<close> of the language, with the shortest digits that are read back as the same
  double, and \<open>toString\<close> of the other values of attributes.  A text is a list of code units.
\<close>

subsection \<open>Numbers\<close>

definition units :: "string \<Rightarrow> jsstring" where
  "units s = map (\<lambda>c. int (of_char c)) s"

definition int_text :: "int \<Rightarrow> jsstring" where
  "int_text i = units (show_int i)"

text \<open>The double that is nearest to a rational, ties to the even mantissa.\<close>

definition round_even :: "rat \<Rightarrow> int" where
  "round_even q = (let f = \<lfloor>q\<rfloor>; d = q - of_int f in
     if d < 1 / 2 \<or> d = 1 / 2 \<and> even f then f else f + 1)"

definition nearest_double :: "rat \<Rightarrow> rat" where
  "nearest_double q = (if q = 0 then 0 else
     let ulp = pow2 (max (log2_rat \<bar>q\<bar>) (-1022) - 52) in of_int (round_even (q / ulp)) * ulp)"

definition pow10 :: "int \<Rightarrow> rat" where
  "pow10 n = (if 0 \<le> n then 10 ^ nat n else 1 / 10 ^ nat (- n))"

text \<open>The \<open>n\<close> with \<open>10 ^ (n - 1) \<le> q < 10 ^ n\<close>.\<close>

definition point_of :: "rat \<Rightarrow> int" where
  "point_of q = (case quotient_of q of (a, b) \<Rightarrow>
     let e = int (length (show_int a)) - int (length (show_int b)) in if pow10 e \<le> q then e + 1 else e)"

text \<open>With \<open>k\<close> digits: the two numbers around \<open>q\<close>, the nearer one first; the first that is read back as \<open>q\<close>.\<close>

definition digits_with :: "rat \<Rightarrow> int \<Rightarrow> nat \<Rightarrow> int option" where
  "digits_with q n k =
     (let u = pow10 (n - int k); f = \<lfloor>q / u\<rfloor>;
          cs = (if q / u - of_int f \<le> 1 / 2 then [f, f + 1] else [f + 1, f])
      in find (\<lambda>s. nearest_double (of_int s * u) = q) cs)"

fun shortest :: "rat \<Rightarrow> int \<Rightarrow> nat list \<Rightarrow> int \<times> int" where
  "shortest q n [] = (\<lfloor>q / pow10 (n - 17)\<rfloor>, 17)"
| "shortest q n (k # ks) =
     (case digits_with q n k of
        Some s \<Rightarrow> (s, int k)
      | None \<Rightarrow> shortest q n ks)"

text \<open>The digits and the position of the point; \<open>10 ^ k\<close> is the digit 1, one place further.\<close>

definition decimal :: "rat \<Rightarrow> jsstring \<times> int" where
  "decimal q =
     (let n = point_of q; (s, k) = shortest q n [1..<18]
      in if s = 10 ^ nat k then ([49], n + 1) else (int_text s, n))"

definition positive_text :: "rat \<Rightarrow> jsstring" where
  "positive_text q =
     (let (ds, n) = decimal q; k = int (length ds) in
      if k \<le> n \<and> n \<le> 21 then ds @ replicate (nat (n - k)) 48
      else if 0 < n \<and> n \<le> 21 then take (nat n) ds @ [46] @ drop (nat n) ds
      else if -6 < n \<and> n \<le> 0 then [48, 46] @ replicate (nat (- n)) 48 @ ds
      else let e = n - 1; exponent = [101] @ (if e < 0 then [45] else [43]) @ int_text \<bar>e\<bar>
           in if k = 1 then ds @ exponent else take 1 ds @ [46] @ drop 1 ds @ exponent)"

definition number_text :: "js_double \<Rightarrow> jsstring" where
  "number_text x =
     (case x of
        Finite q \<Rightarrow> if q = 0 then [48] else if q < 0 then 45 # positive_text (- q) else positive_text q
      | Infinite s \<Rightarrow> units (if s < 0 then ''-Infinity'' else ''Infinity'')
      | NotANumber \<Rightarrow> units ''NaN'')"

subsection \<open>Values\<close>

text \<open>Typed arrays are joined with commas; the maps have no \<open>toString\<close> of their own.\<close>

fun joined :: "jsstring list \<Rightarrow> jsstring" where
  "joined [] = []"
| "joined [x] = x"
| "joined (x # xs) = x @ [44] @ joined xs"

definition elem_text :: "elem \<Rightarrow> jsstring" where
  "elem_text e =
     (case e of
        EBool b \<Rightarrow> units (if b then ''true'' else ''false'')
      | EString s \<Rightarrow> s
      | ENumber x \<Rightarrow> number_text x
      | EFloats xs \<Rightarrow> joined (map number_text xs)
      | EInts xs \<Rightarrow> joined (map int_text xs)
      | _ \<Rightarrow> units ''[object Object]'')"

end
