(* ===== verification/Node.thy ===== *)
theory Node
  imports ResolverTimes NumberText
begin

text \<open>
  \<open>AbstractNode\<close> (and \<open>CoreNode\<close>, which adds nothing): the attributes, relations and indexes of a node, as programs over the
  state of the graph.  A method with a callback returns what the callback is called with, \<open>None\<close> when it is not called.

  The values that are printed into error messages are left out.  Two things are not followed, and stop the model with the error
  \<open>not_followed\<close>: an identifier of a node that is not an integer (as in a relation over an attribute with fractions), and an index
  key that is infinite or NaN.
\<close>

definition CACHE_MISS_ERROR :: string where "CACHE_MISS_ERROR = ''Cache miss error''"

definition not_followed :: js_error where "not_followed = JsError ''not followed''"

subsection \<open>Counters\<close>

text \<open>\<open>CoreDeferCounter\<close>: \<open>count\<close> and \<open>then\<close> say whether the callback is called; the expected number may be undefined.\<close>

record defer_counter =
  dc_counter :: jsnum
  dc_nb_down :: int
  dc_end :: bool    \<comment> \<open>\<open>_end\<close> is set\<close>

definition newCounter :: "jsnum \<Rightarrow> defer_counter" where
  "newCounter nb = \<lparr>dc_counter = nb, dc_nb_down = 0, dc_end = False\<rparr>"

definition dc_count :: "defer_counter \<Rightarrow> (bool \<times> defer_counter) result" where
  "dc_count c =
     (case cas_loop (\<lambda>previous. previous + 1) (dc_nb_down c) of
        None \<Rightarrow> Inl NoReturn
      | Some (previous, down) \<Rightarrow> Inr (Some (previous + 1) = dc_counter c \<and> dc_end c, c\<lparr>dc_nb_down := down\<rparr>))"

definition dc_then :: "defer_counter \<Rightarrow> bool \<times> defer_counter" where
  "dc_then c = (Some (dc_nb_down c) = dc_counter c, c\<lparr>dc_end := True\<rparr>)"

text \<open>The nodes of all lookups that call back, collected under a counter; \<open>then\<close> comes last.\<close>

fun lookup_each :: "graph_env \<Rightarrow> int \<Rightarrow> int \<Rightarrow> int list \<Rightarrow> nat option list \<Rightarrow> defer_counter \<Rightarrow> (nat option list \<times> defer_counter) op" where
  "lookup_each env world time [] found c = ret (found, c)"
| "lookup_each env world time (i # ids) found c =
     seqo (lookup env world time i) (\<lambda>r. case r of
       None \<Rightarrow> lookup_each env world time ids found c
     | Some n \<Rightarrow> seqo (of_result (dc_count c)) (\<lambda>(_, c). lookup_each env world time ids (found @ [n]) c))"

definition lookup_all :: "graph_env \<Rightarrow> int \<Rightarrow> int \<Rightarrow> int list \<Rightarrow> jsnum \<Rightarrow> nat option list option op" where
  "lookup_all env world time ids nb =
     seqo (lookup_each env world time ids [] (newCounter nb)) (\<lambda>(found, c). ret (if fst (dc_then c) then Some found else None))"

definition non_null :: "'a option list \<Rightarrow> 'a list" where
  "non_null xs = concat (map (\<lambda>x. case x of None \<Rightarrow> [] | Some y \<Rightarrow> [y]) xs)"

subsection \<open>The state chunk of a node\<close>

definition state_get :: "nat \<Rightarrow> int \<Rightarrow> elem option op" where
  "state_get r key = seqo (the_state r) (\<lambda>c. seqo (get_db db_heap) (\<lambda>h. of_result (sc_get key (h, c))))"

definition state_getType :: "nat \<Rightarrow> int \<Rightarrow> jsnum op" where
  "state_getType r key = seqo (the_state r) (\<lambda>c. seqo (get_db db_heap) (\<lambda>h. of_result (sc_getType key (h, c))))"

definition state_set :: "graph_env \<Rightarrow> nat \<Rightarrow> int \<Rightarrow> int \<Rightarrow> elem option \<Rightarrow> unit op" where
  "state_set env r key t e = on_state env r (\<lambda>w. bindr (sc_set key t e w) (\<lambda>(w, b). Inr ((), w, b)))"

definition state_getOrCreate :: "graph_env \<Rightarrow> nat \<Rightarrow> int \<Rightarrow> int \<Rightarrow> elem option op" where
  "state_getOrCreate env r key t = on_state env r (sc_getOrCreate key t)"

text \<open>\<open>setFromKey\<close> and \<open>getOrCreateFromKey\<close>: the name enters the dictionary, and the value of \<open>setFromKey\<close> is not tested.\<close>

definition state_setFromKey :: "graph_env \<Rightarrow> nat \<Rightarrow> jsstring \<Rightarrow> int \<Rightarrow> elem option \<Rightarrow> unit op" where
  "state_setFromKey env r key t e =
     seqo (stringToHash env key True) (\<lambda>k. on_state env r (\<lambda>w. bindr (sc_internal_set k t e True w) (\<lambda>(w, b). Inr ((), w, b))))"

definition state_getOrCreateFromKey :: "graph_env \<Rightarrow> nat \<Rightarrow> jsstring \<Rightarrow> int \<Rightarrow> elem option op" where
  "state_getOrCreateFromKey env r key t = seqo (stringToHash env key True) (\<lambda>k. state_getOrCreate env r k t)"

definition unphasedState :: "graph_env \<Rightarrow> nat \<Rightarrow> nat option op" where
  "unphasedState env n = resolveState env n True"

definition phasedState :: "graph_env \<Rightarrow> nat \<Rightarrow> nat option op" where
  "phasedState env n = resolveState env n False"

definition node_newState :: "graph_env \<Rightarrow> nat \<Rightarrow> int \<Rightarrow> nat option op" where
  "node_newState env n time = seqo (node_at n) (\<lambda>nd. newState env n (nd_world nd) time)"

text \<open>The state that a method needs, or the error \<open>CACHE_MISS_ERROR\<close>.\<close>

definition needed :: "nat option \<Rightarrow> nat op" where
  "needed r = (case r of None \<Rightarrow> throw (JsError CACHE_MISS_ERROR) | Some r \<Rightarrow> ret r)"

subsection \<open>Attributes\<close>

definition node_get :: "graph_env \<Rightarrow> nat \<Rightarrow> jsstring \<Rightarrow> elem option op" where
  "node_get env n propertyName =
     seqo (resolveState env n True) (\<lambda>resolved. case resolved of
       None \<Rightarrow> ret None
     | Some r \<Rightarrow> seqo (stringToHash env propertyName False) (state_get r))"

definition node_setProperty :: "graph_env \<Rightarrow> nat \<Rightarrow> jsstring \<Rightarrow> int \<Rightarrow> elem option \<Rightarrow> unit op" where
  "node_setProperty env n propertyName propertyType propertyValue =
     seqo (resolveState env n False) (\<lambda>preciseState. seqo (needed preciseState) (\<lambda>r.
     seqo (stringToHash env propertyName True) (\<lambda>key. state_set env r key propertyType propertyValue)))"

text \<open>The type that \<open>set\<close> chooses; a number that is not an integer is a double, also an infinite one or NaN.\<close>

definition property_type :: "elem option \<Rightarrow> int result" where
  "property_type propertyValue =
     (case propertyValue of
        Some (EString s) \<Rightarrow> Inr STRING
      | Some (ENumber x) \<Rightarrow> (case x of
            Finite q \<Rightarrow> if q \<noteq> of_int \<lfloor>q\<rfloor> then Inr DOUBLE else Inr LONG
          | _ \<Rightarrow> Inr DOUBLE)
      | Some (EBool b) \<Rightarrow> Inr BOOL
      | Some (EInts xs) \<Rightarrow> Inr LONG_ARRAY
      | Some (EFloats xs) \<Rightarrow> Inr DOUBLE_ARRAY
      | _ \<Rightarrow> Inl (JsError ''Invalid property type: , please use a Type listed in org.mwg.Type''))"

definition node_set :: "graph_env \<Rightarrow> nat \<Rightarrow> jsstring \<Rightarrow> elem option \<Rightarrow> unit op" where
  "node_set env n propertyName propertyValue =
     seqo (of_result (property_type propertyValue)) (\<lambda>t. node_setProperty env n propertyName t propertyValue)"

text \<open>\<open>map\<close>, with the chunk that holds the map: a put into the map is told to that chunk.\<close>

definition node_map_at :: "graph_env \<Rightarrow> nat \<Rightarrow> jsstring \<Rightarrow> int \<Rightarrow> (nat \<times> elem option) op" where
  "node_map_at env n propertyName propertyType =
     seqo (resolveState env n False) (\<lambda>preciseState. seqo (needed preciseState) (\<lambda>r.
     seqo (stringToHash env propertyName True) (\<lambda>key. seqo (state_getOrCreate env r key propertyType) (\<lambda>e. ret (r, e)))))"

definition node_map :: "graph_env \<Rightarrow> nat \<Rightarrow> jsstring \<Rightarrow> int \<Rightarrow> elem option op" where
  "node_map env n propertyName propertyType = seqo (node_map_at env n propertyName propertyType) (\<lambda>(_, e). ret e)"

definition node_type :: "graph_env \<Rightarrow> nat \<Rightarrow> jsstring \<Rightarrow> jsnum op" where
  "node_type env n propertyName =
     seqo (resolveState env n True) (\<lambda>resolved. case resolved of
       None \<Rightarrow> ret (Some (-1))
     | Some r \<Rightarrow> seqo (stringToHash env propertyName False) (state_getType r))"

definition removeProperty :: "graph_env \<Rightarrow> nat \<Rightarrow> jsstring \<Rightarrow> unit op" where
  "removeProperty env n attributeName = node_setProperty env n attributeName INT_TYPE None"

definition setPropertyWithType :: "graph_env \<Rightarrow> nat \<Rightarrow> jsstring \<Rightarrow> int \<Rightarrow> elem option \<Rightarrow> int \<Rightarrow> unit op" where
  "setPropertyWithType env n propertyName propertyType propertyValue propertyTargetType =
     (if propertyType \<noteq> propertyTargetType
      then throw (JsError (''Property  has a type mismatch, provided '' @ typeName propertyType @ '' expected: '' @ typeName propertyTargetType))
      else node_setProperty env n propertyName propertyType propertyValue)"

subsection \<open>Relations\<close>

text \<open>The length of an array or a string; the length of any other object is undefined.\<close>

fun elem_length :: "elem \<Rightarrow> nat option" where
  "elem_length (EFloats xs) = Some (length xs)"
| "elem_length (EInts xs) = Some (length xs)"
| "elem_length (EString s) = Some (length s)"
| "elem_length e = None"

fun integers :: "js_double list \<Rightarrow> int list result" where
  "integers [] = Inr []"
| "integers (Finite q # xs) =
     (if q = of_int \<lfloor>q\<rfloor> then bindr (integers xs) (\<lambda>is. Inr (\<lfloor>q\<rfloor> # is)) else Inl not_followed)"
| "integers (x # xs) = Inl not_followed"

definition elem_ids :: "elem \<Rightarrow> int list result" where
  "elem_ids e = (case e of EFloats xs \<Rightarrow> integers xs | EInts xs \<Rightarrow> Inr xs | EString s \<Rightarrow> Inl not_followed | _ \<Rightarrow> Inr [])"

text \<open>\<open>rel\<close> with a callback; without one it does nothing.\<close>

definition node_rel :: "graph_env \<Rightarrow> nat \<Rightarrow> jsstring \<Rightarrow> bool \<Rightarrow> nat list option op" where
  "node_rel env n relationName callback =
     (if \<not> callback then ret None
      else seqo (node_at n) (\<lambda>nd. seqo (resolveState env n True) (\<lambda>resolved. case resolved of
        None \<Rightarrow> ret None
      | Some r \<Rightarrow>
          seqo (stringToHash env relationName False) (\<lambda>key. seqo (state_get r key) (\<lambda>flatRefs. case flatRefs of
            None \<Rightarrow> ret (Some [])
          | Some e \<Rightarrow>
              if elem_length e = Some 0 then ret (Some [])
              else seqo (of_result (elem_ids e)) (\<lambda>ids.
                   seqo (lookup_all env (nd_world nd) (nd_time nd) ids (map_option int (elem_length e))) (\<lambda>found.
                     ret (map_option non_null found))))))))"

text \<open>The new array: the copy of a value that has no length is empty, and the identifier is written beyond its end.\<close>

definition add_id :: "int \<Rightarrow> elem option \<Rightarrow> js_double list" where
  "add_id i previous =
     (case previous of
        None \<Rightarrow> [Finite (of_int i)]
      | Some e \<Rightarrow> (case elem_length e of None \<Rightarrow> [] | Some _ \<Rightarrow> to_floats e @ [Finite (of_int i)]))"

definition node_add :: "graph_env \<Rightarrow> nat \<Rightarrow> jsstring \<Rightarrow> nat \<Rightarrow> unit op" where
  "node_add env n relationName relatedNode =
     seqo (resolveState env n False) (\<lambda>preciseState. seqo (stringToHash env relationName True) (\<lambda>relationKey.
     seqo (needed preciseState) (\<lambda>r. seqo (state_get r relationKey) (\<lambda>previous. seqo (node_at relatedNode) (\<lambda>related.
       state_set env r relationKey LONG_ARRAY (Some (EFloats (add_id (nd_id related) previous))))))))"

text \<open>The first position of the identifier.\<close>

definition id_index :: "int \<Rightarrow> js_double list \<Rightarrow> nat option" where
  "id_index i xs = find (\<lambda>j. xs ! j = Finite (of_int i)) [0..<length xs]"

definition node_remove :: "graph_env \<Rightarrow> nat \<Rightarrow> jsstring \<Rightarrow> nat \<Rightarrow> unit op" where
  "node_remove env n relationName relatedNode =
     seqo (resolveState env n False) (\<lambda>preciseState. seqo (stringToHash env relationName False) (\<lambda>relationKey.
     seqo (needed preciseState) (\<lambda>r. seqo (state_get r relationKey) (\<lambda>previous. seqo (node_at relatedNode) (\<lambda>related.
       case previous of
         None \<Rightarrow> ret ()
       | Some e \<Rightarrow>
           let xs = to_floats e in
           case id_index (nd_id related) xs of
             None \<Rightarrow> ret ()
           | Some indexToRemove \<Rightarrow>
               if length xs - 1 = 0 then state_set env r relationKey LONG_ARRAY None
               else let newArray = replicate (length xs - 1) (Finite 0);
                        newArray = arraycopy (Finite 0) xs 0 newArray 0 indexToRemove;
                        newArray = arraycopy (Finite 0) xs (indexToRemove + 1) newArray indexToRemove (length xs - indexToRemove - 1)
                    in state_set env r relationKey LONG_ARRAY (Some (EFloats newArray)))))))"

subsection \<open>Time\<close>

definition node_free :: "nat \<Rightarrow> unit op" where
  "node_free n = freeNode n"

definition timeDephasing :: "graph_env \<Rightarrow> nat \<Rightarrow> int op" where
  "timeDephasing env n =
     seqo (resolveState env n True) (\<lambda>state. seqo (needed state) (\<lambda>r. seqo (node_at n) (\<lambda>nd.
     seqo (the_state r) (\<lambda>c. ret (rnd (nd_time nd - sc_time c))))))"

definition forcePhase :: "graph_env \<Rightarrow> nat \<Rightarrow> unit op" where
  "forcePhase env n = seqo (resolveState env n False) (\<lambda>_. ret ())"

definition timepoints :: "graph_env \<Rightarrow> nat \<Rightarrow> int \<Rightarrow> int \<Rightarrow> int list op" where
  "timepoints env n beginningOfSearch endOfSearch = resolveTimepoints env n beginningOfSearch endOfSearch"

definition jump :: "graph_env \<Rightarrow> nat \<Rightarrow> int \<Rightarrow> nat option option op" where
  "jump env n targetTime = seqo (node_at n) (\<lambda>nd. lookup env (nd_world nd) targetTime (nd_id nd))"

end
