(* ===== verification/NodeIndex.thy ===== *)
theory NodeIndex
  imports Node
begin

text \<open>
  The second half of \<open>AbstractNode\<close>: the indexes, which are maps from the hash of a query to the identifiers of
  nodes, and \<open>toString\<close>.  A map of another class in the place of an index is not followed.
\<close>

subsection \<open>Maps of a state\<close>

text \<open>\<open>put\<close> and \<open>remove\<close> of a map that the state chunk \<open>r\<close> holds and listens to.\<close>

definition array_map_put :: "graph_env \<Rightarrow> nat \<Rightarrow> map_object \<Rightarrow> int \<Rightarrow> int \<Rightarrow> unit op" where
  "array_map_put env r m key value =
     seqo (the_state r) (\<lambda>c. seqo (get_db db_heap) (\<lambda>h.
       let ((st, m'), res) = lam_put key value (hp_lam h, m) in
       seqo (upd_db (\<lambda>db. db\<lparr>db_heap := h\<lparr>hp_lam := st\<rparr>\<rparr>)) (\<lambda>_.
       seqo (set_body r (StateBody (replace_elem (EArrayMap m) (EArrayMap m') c))) (\<lambda>_.
       seqo (of_result res) (\<lambda>b. told env r (b \<and> sc_declareDirty c))))))"

definition array_map_remove :: "map_object \<Rightarrow> int \<Rightarrow> int \<Rightarrow> unit op" where
  "array_map_remove m key value =
     seqo (get_db db_heap) (\<lambda>h.
       let ((st, _), res) = lam_remove key value (hp_lam h, m) in
       seqo (upd_db (\<lambda>db. db\<lparr>db_heap := h\<lparr>hp_lam := st\<rparr>\<rparr>)) (\<lambda>_. of_result res))"

definition long_map_put :: "graph_env \<Rightarrow> nat \<Rightarrow> map_object \<Rightarrow> int \<Rightarrow> int \<Rightarrow> unit op" where
  "long_map_put env r m key value =
     seqo (the_state r) (\<lambda>c. seqo (get_db db_heap) (\<lambda>h.
       let ((st, m'), res) = llm_put key value (hp_llm h, m) in
       seqo (upd_db (\<lambda>db. db\<lparr>db_heap := h\<lparr>hp_llm := st\<rparr>\<rparr>)) (\<lambda>_.
       seqo (set_body r (StateBody (replace_elem (ELongMap m) (ELongMap m') c))) (\<lambda>_.
       seqo (of_result res) (\<lambda>b. told env r (b \<and> sc_declareDirty c))))))"

text \<open>A method of a map, called on what the attribute holds.\<close>

definition as_array_map :: "elem option \<Rightarrow> map_object op" where
  "as_array_map e =
     (case e of
        Some (EArrayMap m) \<Rightarrow> ret m
      | Some (ELongMap m) \<Rightarrow> throw not_followed
      | Some (EStringMap m) \<Rightarrow> throw not_followed
      | _ \<Rightarrow> throw TypeError)"

definition as_long_map :: "elem option \<Rightarrow> map_object op" where
  "as_long_map e =
     (case e of
        Some (ELongMap m) \<Rightarrow> ret m
      | Some (EArrayMap m) \<Rightarrow> throw not_followed
      | Some (EStringMap m) \<Rightarrow> throw not_followed
      | _ \<Rightarrow> throw TypeError)"

definition array_map_get :: "map_object \<Rightarrow> int \<Rightarrow> jsnum list op" where
  "array_map_get m key = seqo (get_db db_heap) (\<lambda>h. of_result (lam_get key (hp_lam h ! mo_state m)))"

definition long_map_get :: "map_object \<Rightarrow> int \<Rightarrow> jsnum op" where
  "long_map_get m key = seqo (get_db db_heap) (\<lambda>h. of_result (llm_get key (hp_llm h ! mo_state m)))"

text \<open>The key of a computed query.\<close>

definition index_key :: "query \<Rightarrow> int result" where
  "index_key q = (case q_hash q of Some (DFin x) \<Rightarrow> Inr x | _ \<Rightarrow> Inl not_followed)"

fun known_ids :: "jsnum list \<Rightarrow> int list result" where
  "known_ids [] = Inr []"
| "known_ids (None # vs) = Inl not_followed"
| "known_ids (Some i # vs) = bindr (known_ids vs) (\<lambda>is. Inr (i # is))"

subsection \<open>Search\<close>

text \<open>Whether a node has the values of the query; an attribute of the query without a value must be missing.\<close>

fun exact_match :: "nat option \<Rightarrow> (int \<times> jsstring option) list \<Rightarrow> bool op" where
  "exact_match resolvedState [] = ret True"
| "exact_match resolvedState ((att, val) # ps) =
     (case resolvedState of
        None \<Rightarrow> throw TypeError
      | Some r \<Rightarrow> seqo (state_get r att) (\<lambda>obj.
          case val of
            None \<Rightarrow> if obj \<noteq> None then ret False else exact_match resolvedState ps
          | Some v \<Rightarrow> (case obj of
                None \<Rightarrow> ret False
              | Some e \<Rightarrow> if v \<noteq> elem_text e then ret False else exact_match resolvedState ps)))"

fun exact_nodes :: "graph_env \<Rightarrow> query \<Rightarrow> nat list \<Rightarrow> nat list op" where
  "exact_nodes env q [] = ret []"
| "exact_nodes env q (n # ns) =
     seqo (resolveState env n True) (\<lambda>resolvedState. seqo (exact_match resolvedState (q_pairs q)) (\<lambda>exact.
     seqo (exact_nodes env q ns) (\<lambda>rest. ret (if exact then n # rest else rest))))"

definition findAt :: "graph_env \<Rightarrow> nat \<Rightarrow> jsstring \<Rightarrow> int \<Rightarrow> int \<Rightarrow> jsstring \<Rightarrow> nat list option op" where
  "findAt env n indexName world time query =
     seqo (resolveState env n False) (\<lambda>currentNodeState. seqo (needed currentNodeState) (\<lambda>r.
     seqo (stringToHash env indexName False) (\<lambda>key. seqo (state_get r key) (\<lambda>indexMap.
       if indexMap = None then ret (Some [])
       else seqo (of_result (parseQuery query)) (\<lambda>flatQuery.
            seqo (as_array_map indexMap) (\<lambda>m. seqo (of_result (index_key flatQuery)) (\<lambda>hash.
            seqo (array_map_get m hash) (\<lambda>foundId. seqo (of_result (known_ids foundId)) (\<lambda>ids.
            seqo (lookup_all env world time ids (Some (int (length foundId)))) (\<lambda>found. case found of
              None \<Rightarrow> ret None
            | Some ns \<Rightarrow> seqo (exact_nodes env flatQuery (non_null ns)) (\<lambda>resultSet. ret (Some resultSet))))))))))))"

text \<open>\<open>find\<close> hands over the time in the place of the world and the world in the place of the time, as in the code.\<close>

definition node_find :: "graph_env \<Rightarrow> nat \<Rightarrow> jsstring \<Rightarrow> jsstring \<Rightarrow> nat list option op" where
  "node_find env n indexName query =
     seqo (node_at n) (\<lambda>nd. findAt env n indexName (nd_time nd) (nd_world nd) query)"

text \<open>The array of the results has \<open>null\<close> for a node that was not found.\<close>

definition allAt :: "graph_env \<Rightarrow> nat \<Rightarrow> jsstring \<Rightarrow> int \<Rightarrow> int \<Rightarrow> nat option list option op" where
  "allAt env n indexName world time =
     seqo (resolveState env n False) (\<lambda>currentNodeState. seqo (needed currentNodeState) (\<lambda>r.
     seqo (stringToHash env indexName False) (\<lambda>key. seqo (state_get r key) (\<lambda>indexMap.
       if indexMap = None then ret (Some [])
       else seqo (as_array_map indexMap) (\<lambda>m. seqo (get_db db_heap) (\<lambda>h.
            let s = hp_lam h ! mo_state m in
            seqo (of_result (known_ids (map snd (lam_each s)))) (\<lambda>ids.
              lookup_all env world time ids (Some (lam_size s)))))))))"

definition node_all :: "graph_env \<Rightarrow> nat \<Rightarrow> jsstring \<Rightarrow> nat option list option op" where
  "node_all env n indexName = seqo (node_at n) (\<lambda>nd. allAt env n indexName (nd_world nd) (nd_time nd))"

subsection \<open>Indexing\<close>

text \<open>
  The query of the key attributes of a node.  A missing attribute is given to \<open>Query.add\<close> as \<open>null\<close>, which calls
  \<open>trim\<close> on it.
\<close>

definition query_add :: "int \<Rightarrow> jsstring option \<Rightarrow> query \<Rightarrow> query result" where
  "query_add att val q = (case val of None \<Rightarrow> Inl TypeError | Some v \<Rightarrow> Inr (q_add att v q))"

fun key_query :: "graph_env \<Rightarrow> bool \<Rightarrow> nat option \<Rightarrow> jsstring list \<Rightarrow> query \<Rightarrow> query op" where
  "key_query env insertIfNotExists toIndexNodeState [] q = ret q"
| "key_query env insertIfNotExists toIndexNodeState (k # ks) q =
     seqo (stringToHash env k insertIfNotExists) (\<lambda>attKey.
     seqo (case toIndexNodeState of None \<Rightarrow> throw TypeError | Some r \<Rightarrow> state_get r attKey) (\<lambda>attValue.
     seqo (of_result (query_add attKey (map_option elem_text attValue) q)) (\<lambda>q.
       key_query env insertIfNotExists toIndexNodeState ks q)))"

definition node_index :: "graph_env \<Rightarrow> nat \<Rightarrow> jsstring \<Rightarrow> nat \<Rightarrow> jsstring \<Rightarrow> bool op" where
  "node_index env n indexName nodeToIndex flatKeyAttributes =
     seqo (resolveState env n True) (\<lambda>currentNodeState. seqo (needed currentNodeState) (\<lambda>r.
     seqo (stringToHash env indexName True) (\<lambda>key. seqo (state_getOrCreate env r key LONG_LONG_ARRAY_MAP) (\<lambda>indexMap.
     seqo (resolveState env nodeToIndex True) (\<lambda>toIndexNodeState.
     seqo (key_query env True toIndexNodeState (split_on QUERY_SEP flatKeyAttributes) newQuery) (\<lambda>q.
     let flatQuery = q_compute q in
     seqo (as_array_map indexMap) (\<lambda>m. seqo (of_result (index_key flatQuery)) (\<lambda>hash.
     seqo (node_at nodeToIndex) (\<lambda>nd. seqo (array_map_put env r m hash (nd_id nd)) (\<lambda>_. ret True))))))))))"

definition node_unindex :: "graph_env \<Rightarrow> nat \<Rightarrow> jsstring \<Rightarrow> nat \<Rightarrow> jsstring \<Rightarrow> bool op" where
  "node_unindex env n indexName nodeToIndex flatKeyAttributes =
     seqo (resolveState env n True) (\<lambda>currentNodeState. seqo (needed currentNodeState) (\<lambda>r.
     seqo (stringToHash env indexName False) (\<lambda>key. seqo (state_get r key) (\<lambda>indexMap.
       if indexMap = None then ret True
       else seqo (resolveState env nodeToIndex True) (\<lambda>toIndexNodeState.
            seqo (key_query env False toIndexNodeState (split_on QUERY_SEP flatKeyAttributes) newQuery) (\<lambda>q.
            let flatQuery = q_compute q in
            seqo (as_array_map indexMap) (\<lambda>m. seqo (of_result (index_key flatQuery)) (\<lambda>hash.
            seqo (node_at nodeToIndex) (\<lambda>nd. seqo (array_map_remove m hash (nd_id nd)) (\<lambda>_. ret True))))))))))"

subsection \<open>Printing\<close>

definition array_text :: "elem \<Rightarrow> jsstring" where
  "array_text e =
     (case e of
        EFloats xs \<Rightarrow> joined (map number_text xs)
      | EInts xs \<Rightarrow> joined (map int_text xs)
      | EString s \<Rightarrow> joined (map (\<lambda>c. [c]) s)
      | _ \<Rightarrow> [])"

text \<open>A boolean is printed as 0 when it is true; text is not escaped; of a map only the name is printed.\<close>

definition value_text :: "jsnum \<Rightarrow> elem \<Rightarrow> jsstring" where
  "value_text elemType e =
     (if elemType = Some BOOL then units (if js_truthy e then ''0'' else ''1'')
      else if elemType = Some STRING then [34] @ elem_text e @ [34]
      else if elemType = Some LONG \<or> elemType = Some INT_TYPE \<or> elemType = Some DOUBLE then elem_text e
      else if elemType = Some DOUBLE_ARRAY \<or> elemType = Some LONG_ARRAY \<or> elemType = Some INT_ARRAY
      then [91] @ array_text e @ [93]
      else [])"

fun print_entries :: "(jsnum \<times> jsnum \<times> elem) list \<Rightarrow> jsstring \<Rightarrow> jsstring op" where
  "print_entries [] builder = ret builder"
| "print_entries ((attributeKey, elemType, e) # es) builder =
     seqo (case attributeKey of None \<Rightarrow> throw not_followed | Some k \<Rightarrow> hashToString k) (\<lambda>name.
       print_entries es (builder @ [44, 34] @ (case name of None \<Rightarrow> units ''null'' | Some s \<Rightarrow> s) @ [34, 58] @ value_text elemType e))"

text \<open>The closing brace is printed only with a state.\<close>

definition node_toString :: "graph_env \<Rightarrow> nat \<Rightarrow> jsstring op" where
  "node_toString env n =
     seqo (node_at n) (\<lambda>nd.
       let builder = [123, 34] @ units ''world'' @ [34, 58] @ int_text (nd_world nd) @ [44, 34] @ units ''time'' @ [34, 58]
             @ int_text (nd_time nd) @ [44, 34] @ units ''id'' @ [34, 58] @ int_text (nd_id nd)
       in seqo (resolveState env n True) (\<lambda>state. case state of
            None \<Rightarrow> ret builder
          | Some r \<Rightarrow>
              seqo (the_state r) (\<lambda>c. seqo (get_db db_heap) (\<lambda>h.
              seqo (print_entries (sc_each (h, c)) builder) (\<lambda>builder. ret (builder @ [125]))))))"

end
