(* ===== verification/CoreGraph.thy ===== *)
theory CoreGraph
  imports NodeIndex
begin

text \<open>
  \<open>CoreGraph\<close> as its users call it: connection and disconnection, nodes and worlds, the named indexes; and the builder
  with the two storages that the library brings.  There are no factories of typed nodes.

  The scheduler runs a job at once.  A function that is called back by \<open>lookup\<close> runs inside the \<open>try\<close> block of \<open>lookup\<close>: what
  it throws is logged, and the result is \<open>None\<close>.
\<close>

definition DISCONNECTED_ERROR :: string where
  "DISCONNECTED_ERROR = ''Please connect your graph, prior to any usage of it''"

definition INDEX_ATTRIBUTE :: jsstring where "INDEX_ATTRIBUTE = units ''index''"

definition connected :: "unit op" where
  "connected = seqo (get_db db_connected) (\<lambda>b. if b then ret () else throw (JsError DISCONNECTED_ERROR))"

subsection \<open>Worlds and nodes\<close>

text \<open>\<open>newKey\<close> of a generator of the cache; without a connection there is none.\<close>

definition next_key :: "graph_env \<Rightarrow> nat option \<Rightarrow> int op" where
  "next_key env keys = seqo (the_chunk keys) (\<lambda>r. seqo (the_gen r) (\<lambda>g.
     let (key, g, b) = newKey g in
     seqo (set_body r (GenBody g)) (\<lambda>_. seqo (told env r b) (\<lambda>_. of_result key))))"

definition diverge :: "graph_env \<Rightarrow> int \<Rightarrow> int op" where
  "diverge env world =
     seqo (get_db db_worldKeys) (\<lambda>keys. seqo (next_key env keys) (\<lambda>childWorld.
     seqo (initWorld env world childWorld) (\<lambda>_. ret childWorld)))"

definition fresh_resolved :: "int \<Rightarrow> int \<Rightarrow> resolved" where
  "fresh_resolved world time =
     \<lparr>rs_world = world, rs_superTime = time, rs_time = time, rs_worldMagic = NULL_LONG, rs_superTimeMagic = NULL_LONG,
      rs_timeMagic = NULL_LONG\<rparr>"

definition CoreNode :: "int \<Rightarrow> int \<Rightarrow> int \<Rightarrow> resolved \<Rightarrow> node" where
  "CoreNode p_world p_time p_id currentResolution =
     \<lparr>nd_world = p_world, nd_time = p_time, nd_id = p_id, nd_resolved = Some currentResolution\<rparr>"

definition newNode :: "graph_env \<Rightarrow> int \<Rightarrow> int \<Rightarrow> nat op" where
  "newNode env world time =
     seqo connected (\<lambda>_. seqo (get_db db_nodeKeys) (\<lambda>keys. seqo (next_key env keys) (\<lambda>i.
     seqo (new_node_object (CoreNode world time i (fresh_resolved world time))) (\<lambda>n.
     seqo (initNode env n NULL_LONG) (\<lambda>_. ret n)))))"

definition newTypedNode :: "graph_env \<Rightarrow> int \<Rightarrow> int \<Rightarrow> jsstring \<Rightarrow> nat op" where
  "newTypedNode env world time nodeType =
     seqo connected (\<lambda>_. seqo (stringToHash env nodeType False) (\<lambda>extraCode.
     seqo (get_db db_nodeKeys) (\<lambda>keys. seqo (next_key env keys) (\<lambda>i.
     seqo (new_node_object (CoreNode world time i (fresh_resolved world time))) (\<lambda>n.
     seqo (initNode env n extraCode) (\<lambda>_. ret n))))))"

definition cloneNode :: "nat \<Rightarrow> nat op" where
  "cloneNode origin =
     seqo connected (\<lambda>_. seqo (node_at origin) (\<lambda>nd. case nd_resolved nd of
       None \<Rightarrow> throw (dead_node (nd_id nd))
     | Some initPreviouslyResolved \<Rightarrow> seqo (markNodeAndGetType origin) (\<lambda>_.
         new_node_object (CoreNode (nd_world nd) (nd_time nd) (nd_id nd) initPreviouslyResolved))))"

definition graph_lookup :: "graph_env \<Rightarrow> int \<Rightarrow> int \<Rightarrow> int \<Rightarrow> nat option option op" where
  "graph_lookup env world time i = seqo connected (\<lambda>_. lookup env world time i)"

subsection \<open>Saving\<close>

text \<open>What \<open>save\<close> calls back with: \<open>Some None\<close> is \<open>null\<close>, when nothing was dirty.\<close>

definition graph_save_all :: "graph_env \<Rightarrow> bool option option op" where
  "graph_save_all env db = seqo (on_space (graph_save (ge_noop env) (db_saver db))) (\<lambda>stream.
     ret (case stream of None \<Rightarrow> Some None | Some b \<Rightarrow> map_option Some (ge_put env b))) db"

subsection \<open>Connection\<close>

text \<open>The loop at the start of \<open>connect\<close> and \<open>disconnect\<close>, on the lock: it waits for a lock that is free to be taken.\<close>

partial_function (option) lock_loop :: "bool \<Rightarrow> bool option" where
  "lock_loop lock =
     (let (success, lock) = bool_compareAndSet False True lock in if success then lock_loop lock else Some lock)"

declare lock_loop.simps [code]

definition wait_lock :: "unit op" where
  "wait_lock = seqo (get_db db_lock) (\<lambda>lock. case lock_loop lock of
     None \<Rightarrow> throw NoReturn
   | Some lock \<Rightarrow> upd_db (\<lambda>db. db\<lparr>db_lock := lock\<rparr>))"

definition set_lock :: "bool \<Rightarrow> unit op" where
  "set_lock b = upd_db (\<lambda>db. db\<lparr>db_lock := b\<rparr>)"

text \<open>The prefix that the storage has given; one that is not an integer is not followed.\<close>

definition decode_prefix :: "heap_buffer \<Rightarrow> int result" where
  "decode_prefix prefixBuf =
     (case hb_size prefixBuf of
        None \<Rightarrow> Inl not_followed
      | Some n \<Rightarrow> bindr (decodeToIntWithBounds (hb_read prefixBuf) 0 n) (\<lambda>v. case v of
          None \<Rightarrow> Inl not_followed
        | Some q \<Rightarrow> if q = of_int \<lfloor>q\<rfloor> then Inr \<lfloor>q\<rfloor> else Inl not_followed))"

definition connection_keys :: "int \<Rightarrow> heap_buffer" where
  "connection_keys prefix =
     (let b = keyToBuffer newHeapBuffer GEN_CHUNK BEGINNING_OF_TIME NULL_LONG prefix;
          b = keyToBuffer (hb_write b BUFFER_SEP) GEN_CHUNK END_OF_TIME NULL_LONG prefix;
          b = keyToBuffer (hb_write b BUFFER_SEP) WORLD_ORDER_CHUNK NULL_LONG NULL_LONG NULL_LONG;
          b = keyToBuffer (hb_write b BUFFER_SEP) STATE_CHUNK NULL_LONG 0 0
      in hb_write b BUFFER_SEP)"

fun next_views :: "nat \<Rightarrow> heap_buffer \<Rightarrow> buffer_iterator \<Rightarrow> buffer_view option list result" where
  "next_views 0 payloads it = Inr []"
| "next_views (Suc n) payloads it =
     bindr (it_next payloads it) (\<lambda>(v, it). bindr (next_views n payloads it) (\<lambda>vs. Inr (v # vs)))"

text \<open>One of the four chunks of a connection, from its view when there is something in it.\<close>

definition connect_create :: "int \<Rightarrow> int \<Rightarrow> int \<Rightarrow> int \<Rightarrow> heap_buffer \<Rightarrow> buffer_view option \<Rightarrow> nat op" where
  "connect_create t w i k payloads view =
     (case view of
        None \<Rightarrow> throw TypeError
      | Some v \<Rightarrow> seqo (create t w i k (if bv_size v > 0 then view_payload payloads v else None) None) the_chunk)"

definition connect_chunks :: "int \<Rightarrow> heap_buffer \<Rightarrow> buffer_view option list \<Rightarrow> unit op" where
  "connect_chunks prefix payloads views =
     seqo (connect_create WORLD_ORDER_CHUNK NULL_LONG NULL_LONG NULL_LONG payloads (views ! 2)) (\<lambda>globalWorldOrder.
     seqo (db_putAndMark globalWorldOrder) (\<lambda>_.
     seqo (connect_create STATE_CHUNK NULL_LONG 0 0 payloads (views ! 3)) (\<lambda>globalDictionaryChunk.
     seqo (db_putAndMark globalDictionaryChunk) (\<lambda>_.
     seqo (connect_create GEN_CHUNK END_OF_TIME NULL_LONG prefix payloads (views ! 1)) (\<lambda>worldKeyCalculator.
     seqo (upd_db (\<lambda>db. db\<lparr>db_worldKeys := Some worldKeyCalculator\<rparr>)) (\<lambda>_.
     seqo (db_putAndMark worldKeyCalculator) (\<lambda>_.
     seqo (connect_create GEN_CHUNK BEGINNING_OF_TIME NULL_LONG prefix payloads (views ! 0)) (\<lambda>nodeKeyCalculator.
     seqo (upd_db (\<lambda>db. db\<lparr>db_nodeKeys := Some nodeKeyCalculator\<rparr>)) (\<lambda>_.
     seqo (db_putAndMark nodeKeyCalculator) (\<lambda>_. init))))))))))"

text \<open>
  \<open>connect\<close>, with the buffer that the \<open>lock\<close> of the storage calls back with.  The result is what the callback gets, \<open>None\<close>
  for \<open>null\<close> when the graph was connected already.
\<close>

definition connect :: "graph_env \<Rightarrow> heap_buffer \<Rightarrow> bool option op" where
  "connect env prefixBuf =
     seqo wait_lock (\<lambda>_. seqo (get_db db_connected) (\<lambda>b.
       if b then seqo (set_lock True) (\<lambda>_. ret None)
       else
         seqo (upd_db (\<lambda>db. db\<lparr>db_connected := True\<rparr>)) (\<lambda>_.
         seqo (of_result (decode_prefix prefixBuf)) (\<lambda>prefix.
         seqo (upd_db (\<lambda>db. db\<lparr>db_prefix := prefix\<rparr>)) (\<lambda>_.
         seqo (of_result (ge_get env (connection_keys prefix))) (\<lambda>payloads.
         seqo (of_result (next_views 4 payloads (newBufferIterator payloads))) (\<lambda>views.
         seqo (try_log (seqo (connect_chunks prefix payloads views) (\<lambda>_. ret True)) False) (\<lambda>noError.
         seqo (set_lock True) (\<lambda>_. ret (Some noError))))))))))"

text \<open>
  \<open>disconnect\<close>: \<open>Some None\<close> is a callback with \<open>null\<close>, \<open>None\<close> no callback, when the storage does not answer the \<open>put\<close>.  The
  \<open>free\<close> of the cache is empty; the two calls of the storage at the end call back.
\<close>

definition disconnect :: "graph_env \<Rightarrow> bool option option op" where
  "disconnect env =
     seqo wait_lock (\<lambda>_. seqo (get_db db_connected) (\<lambda>b.
       if b then
         seqo (upd_db (\<lambda>db. db\<lparr>db_connected := False\<rparr>)) (\<lambda>_.
         seqo (graph_save_all env) (\<lambda>result. case result of
           None \<Rightarrow> ret None
         | Some _ \<Rightarrow> seqo (set_lock True) (\<lambda>_. ret (Some (Some True)))))
       else seqo (set_lock True) (\<lambda>_. ret (Some None))))"

subsection \<open>Named indexes\<close>

text \<open>
  \<open>getIndexOrCreate\<close> calls \<open>callback\<close> with the index node.  The index nodes are in a map of a node whose identifier is
  \<open>END_OF_TIME\<close>.
\<close>

definition create_index :: "graph_env \<Rightarrow> int \<Rightarrow> int \<Rightarrow> nat \<Rightarrow> elem option \<Rightarrow> int \<Rightarrow> nat op" where
  "create_index env world time r globalIndexContent indexNameCoded =
     seqo (newNode env world time) (\<lambda>newIndexNode.
     seqo (node_map env newIndexNode INDEX_ATTRIBUTE LONG_LONG_ARRAY_MAP) (\<lambda>_.
     seqo (node_at newIndexNode) (\<lambda>nd. seqo (as_long_map globalIndexContent) (\<lambda>m.
     seqo (long_map_put env r m indexNameCoded (nd_id nd)) (\<lambda>_. ret newIndexNode)))))"

text \<open>The content of the global index node, with the chunk that holds it.\<close>

definition global_index :: "graph_env \<Rightarrow> int \<Rightarrow> int \<Rightarrow> nat option \<Rightarrow> (nat \<times> elem option) op" where
  "global_index env world time globalIndexNodeUnsafe =
     (case globalIndexNodeUnsafe of
        None \<Rightarrow>
          seqo (new_node_object (CoreNode world time END_OF_TIME (fresh_resolved world time))) (\<lambda>g.
          seqo (initNode env g NULL_LONG) (\<lambda>_. node_map_at env g INDEX_ATTRIBUTE LONG_LONG_MAP))
      | Some g \<Rightarrow>
          seqo (resolveState env g True) (\<lambda>resolved. case resolved of
            None \<Rightarrow> throw TypeError
          | Some r \<Rightarrow> seqo (stringToHash env INDEX_ATTRIBUTE False) (\<lambda>key. seqo (state_get r key) (\<lambda>e. ret (r, e)))))"

definition call_back :: "('a \<Rightarrow> 'b op) \<Rightarrow> 'a op \<Rightarrow> 'b option op" where
  "call_back callback job = try_log (seqo job (\<lambda>n. seqo (callback n) (\<lambda>x. ret (Some x)))) None"

definition getIndexOrCreate :: "graph_env \<Rightarrow> int \<Rightarrow> int \<Rightarrow> jsstring \<Rightarrow> bool \<Rightarrow> (nat option \<Rightarrow> 'a op) \<Rightarrow> 'a option op" where
  "getIndexOrCreate env world time indexName createIfNull callback =
     seqo (stringToHash env indexName createIfNull) (\<lambda>indexNameCoded.
     try_log (seqo (lookup_job env world time END_OF_TIME) (\<lambda>globalIndexNodeUnsafe.
       if globalIndexNodeUnsafe = None \<and> \<not> createIfNull then seqo (callback None) (\<lambda>x. ret (Some x))
       else seqo (global_index env world time globalIndexNodeUnsafe) (\<lambda>(r, globalIndexContent).
            seqo (as_long_map globalIndexContent) (\<lambda>m. seqo (long_map_get m indexNameCoded) (\<lambda>indexId.
              if indexId = Some NULL_LONG then
                (if createIfNull
                 then seqo (create_index env world time r globalIndexContent indexNameCoded) (\<lambda>newIndexNode.
                      seqo (callback (Some newIndexNode)) (\<lambda>x. ret (Some x)))
                 else seqo (callback None) (\<lambda>x. ret (Some x)))
              else seqo (of_result (known_ids [indexId])) (\<lambda>ids.
                   call_back callback (lookup_job env world time (hd ids)))))))) None)"

definition graph_index :: "graph_env \<Rightarrow> jsstring \<Rightarrow> nat \<Rightarrow> jsstring \<Rightarrow> bool option op" where
  "graph_index env indexName toIndexNode flatKeyAttributes =
     seqo (node_at toIndexNode) (\<lambda>nd.
     getIndexOrCreate env (nd_world nd) (nd_time nd) indexName True (\<lambda>foundIndex. case foundIndex of
       None \<Rightarrow> throw (JsError ''Index creation failed, cache is probably full !!!'')
     | Some f \<Rightarrow> seqo (node_index env f INDEX_ATTRIBUTE toIndexNode flatKeyAttributes) (\<lambda>result.
                 seqo (node_free f) (\<lambda>_. ret result))))"

text \<open>The callback of \<open>unindex\<close> is not called when there is no index.\<close>

definition graph_unindex :: "graph_env \<Rightarrow> jsstring \<Rightarrow> nat \<Rightarrow> jsstring \<Rightarrow> bool option op" where
  "graph_unindex env indexName toIndexNode flatKeyAttributes =
     seqo (node_at toIndexNode) (\<lambda>nd.
     seqo (getIndexOrCreate env (nd_world nd) (nd_time nd) indexName False (\<lambda>foundIndex. case foundIndex of
       None \<Rightarrow> ret None
     | Some f \<Rightarrow> seqo (node_unindex env f INDEX_ATTRIBUTE toIndexNode flatKeyAttributes) (\<lambda>result.
                 seqo (node_free f) (\<lambda>_. ret (Some result))))) (\<lambda>x. ret (Option.bind x (\<lambda>y. y))))"

definition graph_find :: "graph_env \<Rightarrow> int \<Rightarrow> int \<Rightarrow> jsstring \<Rightarrow> jsstring \<Rightarrow> nat list option op" where
  "graph_find env world time indexName query =
     seqo (getIndexOrCreate env world time indexName False (\<lambda>foundIndex. case foundIndex of
       None \<Rightarrow> ret (Some [])
     | Some f \<Rightarrow> seqo (findAt env f INDEX_ATTRIBUTE world time query) (\<lambda>collectedNodes. case collectedNodes of
         None \<Rightarrow> ret None
       | Some ns \<Rightarrow> seqo (node_free f) (\<lambda>_. ret (Some ns))))) (\<lambda>x. ret (Option.bind x (\<lambda>y. y)))"

definition graph_all :: "graph_env \<Rightarrow> int \<Rightarrow> int \<Rightarrow> jsstring \<Rightarrow> nat option list option op" where
  "graph_all env world time indexName =
     seqo (getIndexOrCreate env world time indexName False (\<lambda>foundIndex. case foundIndex of
       None \<Rightarrow> ret (Some [])
     | Some f \<Rightarrow> seqo (allAt env f INDEX_ATTRIBUTE world time) (\<lambda>collectedNodes. case collectedNodes of
         None \<Rightarrow> ret None
       | Some ns \<Rightarrow> seqo (node_free f) (\<lambda>_. ret (Some ns))))) (\<lambda>x. ret (Option.bind x (\<lambda>y. y)))"

subsection \<open>Storages and the builder\<close>

text \<open>\<open>BlackHoleStorage.lock\<close>: the buffer, and the next prefix.\<close>

definition blackhole_lock :: "int \<Rightarrow> heap_buffer \<times> int" where
  "blackhole_lock prefix = (encodeIntToBuffer prefix newHeapBuffer, prefix + 1)"

text \<open>\<open>ReadOnlyStorage\<close>: it passes everything on but \<open>put\<close> and \<open>remove\<close>, which do not call back.\<close>

definition ReadOnlyStorage :: "graph_env \<Rightarrow> graph_env" where
  "ReadOnlyStorage toWrap = toWrap\<lparr>ge_noop := False, ge_put := (\<lambda>_. None)\<rparr>"

record graph_builder =
  gb_storage :: "graph_env option"
  gb_readOnly :: bool
  gb_gc :: bool
  gb_memorySize :: int
  gb_saveBatchSize :: int

definition builder :: graph_builder where
  "builder = \<lparr>gb_storage = None, gb_readOnly = False, gb_gc = False, gb_memorySize = -1, gb_saveBatchSize = -1\<rparr>"

definition withStorage :: "graph_env \<Rightarrow> graph_builder \<Rightarrow> graph_builder" where
  "withStorage p_storage b = b\<lparr>gb_storage := Some p_storage\<rparr>"

definition readOnly :: "graph_builder \<Rightarrow> graph_builder" where
  "readOnly b = b\<lparr>gb_readOnly := True\<rparr>"

definition withGC :: "graph_builder \<Rightarrow> graph_builder" where
  "withGC b = b\<lparr>gb_gc := True\<rparr>"

definition withMemorySize :: "int \<Rightarrow> graph_builder \<Rightarrow> graph_builder" where
  "withMemorySize size' b = b\<lparr>gb_memorySize := size'\<rparr>"

definition withAutoSave :: "int \<Rightarrow> graph_builder \<Rightarrow> graph_builder" where
  "withAutoSave batchSize b = b\<lparr>gb_saveBatchSize := batchSize\<rparr>"

text \<open>A negative size is no length of an array; the sizes are compared first.\<close>

definition createSpace :: "int \<Rightarrow> int \<Rightarrow> chunk_space result" where
  "createSpace memorySize autoSaveSize =
     (if autoSaveSize > memorySize then Inl (JsError ''Save Batch Size can't be bigger than cache size'')
      else if memorySize < 0 \<or> autoSaveSize < 0 then Inl (JsError ''RangeError'')
      else newChunkSpace (nat memorySize) (nat autoSaveSize))"

text \<open>A new graph: the storage and the state.\<close>

definition newGraph :: "graph_env option \<Rightarrow> bool \<Rightarrow> bool \<Rightarrow> int \<Rightarrow> int \<Rightarrow> (graph_env \<times> mwdb) result" where
  "newGraph p_storage p_readOnly p_usingGC p_memorySize p_autoSaveSize =
     (let storage = (case p_storage of None \<Rightarrow> blackhole_env | Some s \<Rightarrow> s);
          storage = (if p_readOnly then ReadOnlyStorage storage else storage)
      in if p_usingGC then Inl (JsError ''Not implemented yet !!!'')
         else let memorySize = (if p_memorySize = -1 then 100000 else p_memorySize);
                  autoSaveSize = (if p_autoSaveSize = -1 then memorySize else p_autoSaveSize)
              in bindr (createSpace memorySize autoSaveSize) (\<lambda>space.
                   Inr (storage, \<lparr>db_space = space, db_body = [], db_heap = \<lparr>hp_tables = [], hp_slm = [], hp_llm = [], hp_lam = []\<rparr>,
                     db_nodes = [], db_dictionary = None, db_connected = False, db_lock = False, db_prefix = 0,
                     db_nodeKeys = None, db_worldKeys = None\<rparr>)))"

definition build :: "graph_builder \<Rightarrow> (graph_env \<times> mwdb) result" where
  "build b = newGraph (gb_storage b) (gb_readOnly b) (gb_gc b) (gb_memorySize b) (gb_saveBatchSize b)"

end
