(* ===== verification/GraphSave.thy ===== *)
theory GraphSave
  imports CoreGraph WorldOrderChunk
begin

text \<open>
  \<open>CoreGraph.save\<close> with the \<open>save\<close> methods of the chunks: which chunks a save leaves clean.
\<close>

subsection \<open>Which chunks can be saved\<close>

text \<open>
  What an attribute of a type holds after \<open>set\<close>, \<open>getOrCreate\<close>, a clone or a load: a value that \<open>set\<close> accepts, or a map of the
  type.  (\<open>set\<close> accepts booleans for the maps from numbers, and any object for the maps from strings.)
\<close>

definition stored_as :: "jsnum \<Rightarrow> elem \<Rightarrow> bool" where
  "stored_as t e =
     (case t of
        None \<Rightarrow> True
      | Some t \<Rightarrow> set_accepts t e
          \<or> t = LONG_LONG_MAP \<and> (case e of ELongMap m \<Rightarrow> True | _ \<Rightarrow> e = EUnsound)
          \<or> t = LONG_LONG_ARRAY_MAP \<and> (case e of EArrayMap m \<Rightarrow> True | _ \<Rightarrow> e = EUnsound))"

text \<open>The values among them that \<open>save\<close> can write: a value of the type of a map must answer to \<open>size\<close> and \<open>each\<close>.\<close>

definition savable :: "jsnum \<Rightarrow> elem \<Rightarrow> bool" where
  "savable t e =
     (t = Some STRING_LONG_MAP \<or> t = Some LONG_LONG_MAP \<or> t = Some LONG_LONG_ARRAY_MAP \<longrightarrow>
        (case e of EStringMap m \<Rightarrow> True | ELongMap m \<Rightarrow> True | EArrayMap m \<Rightarrow> True | _ \<Rightarrow> False))"

definition stored_body :: "sc_heap \<Rightarrow> chunk_body \<Rightarrow> bool" where
  "stored_body h b = (case b of StateBody c \<Rightarrow> list_all (\<lambda>(k, t, e). stored_as t e) (ss_each h (sc_state c)) | _ \<Rightarrow> True)"

definition savable_body :: "sc_heap \<Rightarrow> chunk_body \<Rightarrow> bool" where
  "savable_body h b =
     (case b of
        StateBody c \<Rightarrow> list_all (\<lambda>(k, t, e). savable t e) (ss_each h (sc_state c))
      | OrderBody c \<Rightarrow> wc_state c \<noteq> None
      | _ \<Rightarrow> True)"

lemma save_value_steady: "snd (save_value h t e b) = snd (save_value h t e b')" "snd (save_value h t e b) \<noteq> Some NoReturn"
  by (cases e; simp add: save_value_def Let_def)+

lemma save_value_error: "stored_as t e \<Longrightarrow> snd (save_value h t e b) = (if savable t e then None else Some TypeError)"
  by (cases e; cases t) (auto simp: save_value_def savable_def stored_as_def set_accepts_def type_defs Let_def)

lemma save_attribute_value:
  "snd (save_attribute h (k, t, e) b) = snd (save_value h t e newHeapBuffer)"
  unfolding save_attribute_def prod.case by (rule save_value_steady)

lemma save_attributes_Cons_error:
  "snd (save_attributes h (a # as) b) =
    (case snd (save_attribute h a b) of None \<Rightarrow> snd (save_attributes h as (fst (save_attribute h a b))) | e \<Rightarrow> e)"
  by (cases "save_attribute h a b"; cases "snd (save_attribute h a b)") simp_all

lemma save_attributes_steady:
  "snd (save_attributes h as b) = snd (save_attributes h as newHeapBuffer) \<and> snd (save_attributes h as b) \<noteq> Some NoReturn"
proof (induction as arbitrary: b)
  case (Cons a as)
  obtain k t e where a: "a = (k, t, e)" by (metis prod_cases3)
  have v: "snd (save_attribute h a b) = snd (save_value h t e newHeapBuffer)" for b unfolding a by (rule save_attribute_value)
  show ?case
  proof (cases "snd (save_value h t e newHeapBuffer)")
    case None
    then show ?thesis using Cons.IH unfolding save_attributes_Cons_error v by (metis option.simps(4))
  next
    case (Some x)
    then show ?thesis using save_value_steady(2) [of h t e newHeapBuffer] unfolding save_attributes_Cons_error v by simp
  qed
qed simp

lemma save_attributes_error:
  "list_all (\<lambda>(k, t, e). stored_as t e) as \<Longrightarrow>
   snd (save_attributes h as b) = (if list_all (\<lambda>(k, t, e). savable t e) as then None else Some TypeError)"
proof (induction as arbitrary: b)
  case (Cons a as)
  obtain k t e where a: "a = (k, t, e)" by (metis prod_cases3)
  have s: "snd (save_attribute h a b) = (if savable t e then None else Some TypeError)"
    using Cons.prems by (simp add: a save_attribute_def save_value_error)
  show ?case
  proof (cases "save_attribute h a b")
    case (Pair b' r)
    then show ?thesis using s Cons.IH Cons.prems a by (cases r) (auto split: if_splits)
  qed
qed simp

text \<open>The \<open>save\<close> of a chunk does not throw.\<close>

definition can_save :: "mwdb \<Rightarrow> nat \<Rightarrow> bool" where
  "can_save db r \<longleftrightarrow> snd (db_saver db r newHeapBuffer) = None"

lemma can_save_body: "stored_body (db_heap db) (db_body db ! r) \<Longrightarrow> can_save db r = savable_body (db_heap db) (db_body db ! r)"
  by (cases "db_body db ! r")
    (simp_all add: can_save_def db_saver_def stored_body_def savable_body_def sc_save_def save_attributes_error wo_save_def Let_def split: option.split)

lemma db_saver_steady: "saver_steady (db_saver db)"
proof -
  have "snd (db_saver db r b) = snd (db_saver db r newHeapBuffer) \<and> snd (db_saver db r b) \<noteq> Some NoReturn" for r b
  proof (cases "db_body db ! r")
    case (StateBody c)
    then show ?thesis using save_attributes_steady by (simp add: db_saver_def sc_save_def) metis
  qed (simp_all add: db_saver_def wo_save_def Let_def split: option.split)
  then show ?thesis unfolding saver_steady_def by blast
qed

text \<open>Property C13.
  \<open>CoreGraph.save\<close> cleans the dirty chunks whose \<open>save\<close> does not throw: afterwards the dirty list is empty, every such chunk of the
  list is clean and has lost the mark of \<open>declareDirty\<close>, nothing else has changed its marks or its flag, nothing has left the
  cache, and the callback gets the answer of the storage, or null when nothing was dirty.  A chunk whose \<open>save\<close> throws is logged and
  passed over: it stays dirty, marked, and outside the dirty list, where no later save finds it (\<open>P\<close> are those of earlier saves).  In a
  graph whose attributes are as \<open>set\<close>, \<open>getOrCreate\<close>, clones and loads store them, the \<open>save\<close> of exactly two kinds of chunks
  throws: of a state that holds something else than a map under the type of a map, and of a world order whose payload had no
  separator.  With the black hole storage no \<open>save\<close> is called, and all are cleaned.\<close>

theorem graph_save_cleans:
  assumes "cs_inv (db_space db) q" "dirty_inv P (db_space db) ds"
  shows "\<exists>s' q' stream. graph_save_all env db = (db\<lparr>db_space := s'\<rparr>, Inr (if ds = [] then Some None else map_option Some (ge_put env stream)))
    \<and> cs_inv s' q' \<and> cs_content s' = cs_content (db_space db) \<and> dl_next (cs_dirty s') = 0
    \<and> (\<forall>i \<in> cs_used (db_space db).
         let saved = i \<in> set ds \<and> (ge_noop env \<or> can_save db (cs_ref (db_space db) i))
         in slot_dirty s' i = (slot_dirty (db_space db) i \<and> \<not> saved) \<and> slot_marks s' i = slot_marks (db_space db) i - (if saved then 1 else 0))
    \<and> dirty_inv (P \<union> {i \<in> set ds. \<not> ge_noop env \<and> \<not> can_save db (cs_ref (db_space db) i)}) s' []
    \<and> (\<forall>r. stored_body (db_heap db) (db_body db ! r) \<longrightarrow> can_save db r = savable_body (db_heap db) (db_body db ! r))"
proof -
  let ?s = "db_space db" and ?noop = "ge_noop env"
  let ?saved = "saved_slots ?noop (db_saver db) ?s (set ds)"
  have saved: "i \<in> ?saved \<longleftrightarrow> i \<in> set ds \<and> (?noop \<or> can_save db (cs_ref ?s i))" for i
    by (auto simp: saved_slots_def save_throws_def can_save_def)
  obtain s' stream q' where s': "graph_save ?noop (db_saver db) ?s = Inr (s', stream)" "cs_inv s' q'" "cs_values s' = cs_values ?s"
    "cs_content s' = cs_content ?s" "cs_dirty s' = newDirtyList (cs_saveBatchSize ?s)" "cs_saveBatchSize s' = cs_saveBatchSize ?s"
    "slots_saved ?saved ?s s'"
    using graph_save_spec [OF assms(1,2) db_saver_steady, of ?noop db] by blast
  have st: "stream = None \<longleftrightarrow> ds = []"
    using s'(1) dirty_inv_length [OF assms(2)]
    by (auto simp: graph_save_def cs_detachDirties_def bindr_def split: if_splits sum.splits)
  have call: "graph_save_all env db = (db\<lparr>db_space := s'\<rparr>, Inr (case stream of None \<Rightarrow> Some None | Some b \<Rightarrow> map_option Some (ge_put env b)))"
    using s'(1) by (simp add: graph_save_all_def seqo_def on_space_def ret_def)
  have u: "cs_used s' = cs_used ?s" using s'(3) by (simp add: cs_used_def)
  have "dirty_inv (P \<union> {i \<in> set ds. \<not> ?noop \<and> \<not> can_save db (cs_ref ?s i)}) s' []"
    using s'(5-7) assms(2) saved unfolding dirty_inv_def [of P] slots_saved_def by (intro dirty_inv_new) (auto simp: u)
  moreover have "dl_next (cs_dirty s') = 0" by (simp add: s'(5) newDirtyList_def)
  moreover have "\<forall>i \<in> cs_used ?s.
         let sv = i \<in> set ds \<and> (?noop \<or> can_save db (cs_ref ?s i))
         in slot_dirty s' i = (slot_dirty ?s i \<and> \<not> sv) \<and> slot_marks s' i = slot_marks ?s i - (if sv then 1 else 0)"
    using s'(7) unfolding slots_saved_def saved Let_def by auto
  ultimately show ?thesis using call s'(2,4) st can_save_body
    by (intro exI [of _ s'] exI [of _ q'] exI [of _ "the stream"]) (auto split: option.split)
qed

text \<open>One dirty chunk: a world order that can be saved, and one that cannot.\<close>

theorem graph_save_cleans_witness:
  "\<exists>db db' r. slot_dirty (db_space db) 0 \<and> slot_marks (db_space db) 0 = 2
     \<and> graph_save_all (blackhole_env\<lparr>ge_noop := False\<rparr>) db = (db', Inr r) \<and> \<not> slot_dirty (db_space db') 0 \<and> slot_marks (db_space db') 0 = 1
     \<and> (\<exists>c db2 r2. graph_save_all (blackhole_env\<lparr>ge_noop := False\<rparr>) (db\<lparr>db_body := [OrderBody c]\<rparr>) = (db2, Inr r2)
          \<and> slot_dirty (db_space db2) 0 \<and> slot_marks (db_space db2) 0 = 2 \<and> dl_next (cs_dirty (db_space db2)) = 0)"
proof -
  obtain s q ds where s: "cs_inv s q" "dirty_inv {} s ds" "0 \<in> cs_used s" "cs_ref s 0 = 0" "slot_marks s 0 = 2" "slot_dirty s 0" "ds = [0]"
    using sample_dirty by blast
  let ?env = "blackhole_env\<lparr>ge_noop := False\<rparr>"
  obtain db :: mwdb where db: "db_space db = s" by (metis mwdb.select_convs(1))
  have i: "0 \<in> set ds" using s(2,3,6) by (simp add: dirty_inv_def)
  define good where "good = db\<lparr>db_body := [OrderBody wo_sample]\<rparr>"
  define bad where "bad = db\<lparr>db_body := [OrderBody (wo_sample\<lparr>wc_state := None\<rparr>)]\<rparr>"
  have p: "db_space good = s" "db_space bad = s" "can_save good 0" "\<not> can_save bad 0"
    by (simp_all add: good_def bad_def db can_save_def db_saver_def wo_save_def wo_sample_def Let_def)
  have "\<exists>db' r. graph_save_all ?env good = (db', Inr r) \<and> \<not> slot_dirty (db_space db') 0 \<and> slot_marks (db_space db') 0 = 1"
    using graph_save_cleans [of good q "{}" ds ?env] s p i by fastforce
  moreover have "\<exists>db' r. graph_save_all ?env bad = (db', Inr r) \<and> slot_dirty (db_space db') 0 \<and> slot_marks (db_space db') 0 = 2
     \<and> dl_next (cs_dirty (db_space db')) = 0"
    using graph_save_cleans [of bad q "{}" ds ?env] s p i by (fastforce simp: Let_def blackhole_env_def)
  moreover have "bad = good\<lparr>db_body := [OrderBody (wo_sample\<lparr>wc_state := None\<rparr>)]\<rparr>" by (simp add: good_def bad_def)
  ultimately show ?thesis using s(5,6) p(1) by metis
qed

end
