(* ===== verification/NodeState.thy ===== *)
theory NodeState
  imports CoreGraph ResolverSpec
begin

text \<open>
  The lemmas on a node whose state chunk is its own: resolution leaves everything as it is, and the operations on attributes
  and relations change that chunk only.
\<close>

subsection \<open>The size of a state after a write\<close>

lemma ss_append_size: "ss_size (snd (ss_append k t e i w)) = ss_size (snd w)"
  by (cases w) (simp add: ss_append_def tb_upd_def Let_def)

lemma ss_replace_size: "ss_size (snd (ss_replace m t e r w)) = ss_size (snd w)"
  by (cases w) (simp add: ss_replace_def tb_upd_def deepClone_def tb_new_def Let_def)

lemma ss_grow_size: "ss_grow w = Inr w' \<Longrightarrow> ss_size (snd w') = (if ss_size (snd w) = 0 then 1 else ss_size (snd w) * 2)"
  by (cases w) (auto simp: ss_grow_def Let_def bindr_def tb_new_def split: sum.splits prod.splits)

lemma ss_set_size:
  assumes "ss_set k t e r w = Inr w'"
  shows "ss_size (snd w') \<le> max 1 (2 * ss_size (snd w))"
proof -
  obtain h s where w: "w = (h, s)" by (cases w)
  obtain entry hi where 1: "(if ss_size s > 0
            then bindr (longHash k (int (ss_size s))) (\<lambda>hashIndex.
                 bindr (sc_find k hashIndex h s) (\<lambda>entry. Inr (entry, hashIndex)))
            else Inr (-1, -1)) = Inr (entry, hi)" using assms w by (auto simp: ss_set_def bindr_def split: sum.splits)
  show ?thesis
  proof (cases "entry = -1")
    case False
    then obtain e' where "w' = ss_replace entry t e' r (h, s)"
      using assms 1 w by (auto simp: ss_set_def bindr_def split: sum.splits prod.splits)
    then show ?thesis using ss_replace_size w by simp
  next
    case True
    then obtain e' hs hj where q: "(if 4 * (ss_count s + 1) > 3 * ss_size s
                then bindr (ss_grow (h, s)) (\<lambda>(h, s).
                     bindr (longHash k (int (ss_size s))) (\<lambda>hashIndex. Inr ((h, s), hashIndex)))
                else Inr (if ss_readOnly s then deepClone (h, s) else (h, s), hi)) = Inr (hs, hj)" "w' = ss_append k t e' hj hs"
      using assms 1 w by (auto simp: ss_set_def bindr_def split: sum.splits prod.splits)
    have "ss_size (snd hs) \<le> max 1 (2 * ss_size s)"
    proof (cases "4 * (ss_count s + 1) > 3 * ss_size s")
      case True
      then obtain h' s' where g: "ss_grow (h, s) = Inr (h', s')" "hs = (h', s')"
        using q(1) by (auto simp: bindr_def split: sum.splits prod.splits)
      then show ?thesis using ss_grow_size [OF g(1)] by (auto split: if_splits)
    next
      case False
      then have "hs = (if ss_readOnly s then deepClone (h, s) else (h, s))" using q(1) by auto
      then show ?thesis by (auto simp: deepClone_def tb_new_def Let_def)
    qed
    then show ?thesis using q(2) ss_append_size w by simp
  qed
qed

subsection \<open>The state chunk of a node\<close>

definition holds_state :: "mwdb \<Rightarrow> nat \<Rightarrow> state_chunk \<Rightarrow> bool" where
  "holds_state db r c \<longleftrightarrow> r < length (db_body db) \<and> db_body db ! r = StateBody c \<and> sc_wf (db_heap db, c)"

text \<open>The chunk \<open>c\<close> at \<open>r\<close> is in the dirty list: writing to it declares nothing.\<close>

definition state_at :: "mwdb \<Rightarrow> nat \<Rightarrow> state_chunk \<Rightarrow> bool" where
  "state_at db r c \<longleftrightarrow> holds_state db r c \<and> js_and (head_flags r db) 1 = 1"

text \<open>The node \<open>n\<close> is resolved exactly to the chunk \<open>r\<close>, which is in the cache.\<close>

definition exact_node :: "mwdb \<Rightarrow> nat \<Rightarrow> nat \<Rightarrow> bool" where
  "exact_node db n r \<longleftrightarrow> (\<exists>p. nd_resolved (db_nodes db ! n) = Some p \<and> rs_world p = nd_world (db_nodes db ! n)
     \<and> rs_time p = nd_time (db_nodes db ! n)
     \<and> cached db (STATE_CHUNK, nd_world (db_nodes db ! n), nd_time (db_nodes db ! n), nd_id (db_nodes db ! n)) r)"

text \<open>The dictionary with its map \<open>m\<close> of names and room for \<open>n\<close> more of them; the names that it knows.\<close>

definition dictionary_room :: "nat \<Rightarrow> mwdb \<Rightarrow> nat \<Rightarrow> state_chunk \<Rightarrow> map_object \<Rightarrow> bool" where
  "dictionary_room n db d c m \<longleftrightarrow> db_dictionary db = Some d \<and> state_at db d c
     \<and> sc_map (db_heap db, c) 0 = Some (STRING_LONG_MAP, EStringMap m) \<and> mo_state m < length (hp_slm (db_heap db))
     \<and> slm_wf (hp_slm (db_heap db) ! mo_state m) \<and> slm_room n (hp_slm (db_heap db) ! mo_state m) \<and> mo_aligned m \<and> mo_listener m"

definition dictionary_at :: "mwdb \<Rightarrow> nat \<Rightarrow> state_chunk \<Rightarrow> map_object \<Rightarrow> bool" where
  "dictionary_at = dictionary_room 1"

definition known_names :: "mwdb \<Rightarrow> map_object \<Rightarrow> int \<rightharpoonup> jsstring \<times> int" where
  "known_names db m = slm_abs (hp_slm (db_heap db) ! mo_state m)"

lemma exact_resolve:
  assumes "exact_node db n r" "roomy (Suc m) db"
  shows "\<exists>db'. resolveState env n b db = (db', Inr (Some r)) \<and> moved (\<lambda>_. 0) db db' \<and> roomy m db'"
  using assms exact_found [OF assms(2) refl] unfolding exact_node_def by blast

lemma flags_moved:
  assumes "moved d db db'" "cached db k r" "roomy m db"
  shows "head_flags r db' = head_flags r db"
  using assms cached_bound [OF assms(2,3)] by (simp add: moved_def head_flags_def)

lemma exact_moved: "moved d db db' \<Longrightarrow> exact_node db' n r \<longleftrightarrow> exact_node db n r"
  unfolding exact_node_def by (simp add: cached_moved) (simp add: moved_def)

lemma state_moved:
  assumes "moved d db db'" "cached db k r" "roomy m db"
  shows "state_at db' r c \<longleftrightarrow> state_at db r c"
  using assms(1) flags_moved [OF assms] by (simp add: state_at_def holds_state_def moved_def)

lemma the_state_at:
  "r < length (db_body db) \<Longrightarrow> db_body db ! r = StateBody c \<Longrightarrow> the_state r db = (db, Inr (c\<lparr>sc_flags := head_flags r db\<rparr>))"
  by (simp add: the_state_def body_def with_flags_def ret_def)

lemma not_told:
  assumes "js_and (sc_flags c) 1 = 1"
  shows "\<not> sc_set_dirty c" "\<not> sc_declareDirty c"
  using assms by (simp_all add: sc_set_dirty_def sc_declareDirty_def)

lemma sc_flags_irrelevant [simp]:
  "sc_wf (h, c\<lparr>sc_flags := f\<rparr>) = sc_wf (h, c)" "sc_map (h, c\<lparr>sc_flags := f\<rparr>) = sc_map (h, c)"
  "sc_room (h, c\<lparr>sc_flags := f\<rparr>) = sc_room (h, c)" "sc_get k (h, c\<lparr>sc_flags := f\<rparr>) = sc_get k (h, c)"
  "sc_getType k (h, c\<lparr>sc_flags := f\<rparr>) = sc_getType k (h, c)"
  by (simp_all add: sc_wf_def sc_map_def sc_room_def sc_get_def sc_getType_def)

lemma state_get_at:
  "r < length (db_body db) \<Longrightarrow> db_body db ! r = StateBody c \<Longrightarrow> state_get r k db = (db, sc_get k (db_heap db, c))"
  by (simp add: state_get_def seqo_def the_state_at get_db_def of_result_def)

text \<open>An operation on a dirty state that succeeds.\<close>

lemma on_state_dirty:
  assumes "r < length (db_body db)" "db_body db ! r = StateBody c"
    and "f (db_heap db, c\<lparr>sc_flags := head_flags r db\<rparr>) = Inr (a, (h, c'), False)"
  shows "on_state env r f db = (db\<lparr>db_heap := h, db_body := (db_body db)[r := StateBody c']\<rparr>, Inr a)"
  using assms by (simp add: on_state_def seqo_def the_state_at get_db_def of_result_def upd_db_def set_body_def told_def ret_def)

subsection \<open>Names\<close>

lemma hashable_0: "hashable 0"
  by code_simp

text \<open>The map object of a slot is replaced by another: the slots, the keys and the types stay.\<close>

lemma replaced_elem:
  assumes "sc_wf (h, c)"
  shows "sc_wf (h, replace_elem e e' c)"
    "sc_map (h, replace_elem e e' c) k = map_option (\<lambda>(t, x). (t, if x = e then e' else x)) (sc_map (h, c) k)"
proof -
  let ?s = "sc_state c" and ?g = "\<lambda>x. if x = Some e then Some e' else x"
  let ?s' = "?s\<lparr>ss_v := map ?g (ss_v ?s)\<rparr>"
  have w: "ss_wf h ?s" using assms by (simp add: sc_wf_def)
  note l = ss_wfD [OF w]
  have n: "i < ss_count ?s \<Longrightarrow> map ?g (ss_v ?s) ! i = ?g (ss_v ?s ! i)" for i using l(4,5) by simp
  have t: "tb_of h ?s' = tb_of h ?s" by (simp add: tb_of_def)
  have "{i. i < ss_count ?s \<and> map ?g (ss_v ?s) ! i \<noteq> None} = {i. i < ss_count ?s \<and> ss_v ?s ! i \<noteq> None}"
    using n by (auto split: if_splits)
  then have w': "ss_wf h ?s'" using w l(4) unfolding ss_wf_def t ss_slots_def by simp
  then show "sc_wf (h, replace_elem e e' c)" by (simp add: sc_wf_def replace_elem_def)
  have "filter (\<lambda>i. map ?g (ss_v ?s) ! i \<noteq> None) [0..<ss_count ?s] = filter (\<lambda>i. ss_v ?s ! i \<noteq> None) [0..<ss_count ?s]"
    using n by (intro filter_cong) (auto split: if_splits)
  then have "ss_pairs h ?s' = map (\<lambda>(k, p). (k, (\<lambda>(t, x). (t, if x = e then e' else x)) p)) (ss_pairs h ?s)"
    using n by (auto simp: ss_pairs_def tv_pairs_def t)
  then show "sc_map (h, replace_elem e e' c) k = map_option (\<lambda>(t, x). (t, if x = e then e' else x)) (sc_map (h, c) k)"
    by (simp add: sc_map_def ss_abs_def replace_elem_def map_of_map)
qed

text \<open>A known name leaves the map of names as it is, a new one is put into it; the tables of the states stay.\<close>

definition enter_name :: "jsstring \<Rightarrow> (int \<rightharpoonup> jsstring \<times> int) \<Rightarrow> int \<rightharpoonup> jsstring \<times> int" where
  "enter_name name f = (if f (key_hash_of name) = None then f(key_hash_of name \<mapsto> (name, key_hash_of name)) else f)"

definition renamed :: "mwdb \<Rightarrow> slm_state list \<Rightarrow> nat \<Rightarrow> state_chunk \<Rightarrow> mwdb" where
  "renamed db st d c = db\<lparr>db_heap := (db_heap db)\<lparr>hp_slm := st\<rparr>, db_body := (db_body db)[d := StateBody c]\<rparr>"

lemma name_put:
  assumes m: "mo_state m < length st" "slm_wf (st ! mo_state m)" "slm_room (Suc n) (st ! mo_state m)" "mo_aligned m" "mo_listener m"
    and k: "string_ok name" "slm_abs (st ! mo_state m) (key_hash_of name) = None"
  shows "\<exists>st' m' changed. slm_put name (key_hash_of name) (st, m) = ((st', m'), Inr changed) \<and> mo_state m' < length st'
     \<and> slm_wf (st' ! mo_state m') \<and> slm_room n (st' ! mo_state m') \<and> mo_aligned m' \<and> mo_listener m'
     \<and> slm_abs (st' ! mo_state m') = enter_name name (slm_abs (st ! mo_state m))"
proof -
  obtain s' eff where s: "slm_modify name (key_hash_of name) (st ! mo_state m) = Inr (s', eff)" "slm_wf s'" "slm_room n s'"
    "slm_abs s' = enter_name name (slm_abs (st ! mo_state m))"
    using slm_modify_refines [OF m(2) k(1) m(3), of "key_hash_of name"] k(2) by (auto simp: str_put_def enter_name_def)
  obtain st' m' out where p: "slm_put name (key_hash_of name) (st, m) = ((st', m'), out)"
    by (cases "slm_put name (key_hash_of name) (st, m)") auto
  note q = mo_put_state [OF m(1) _ p [unfolded slm_put_def], of s' eff]
  show ?thesis using p s q m(4,5) by (auto simp: mo_notify_def)
qed

lemma name_entered:
  assumes d: "dictionary_room (Suc n) db d c m" and k: "string_ok name"
  shows "\<exists>st c' m'. stringToHash env name True db = (renamed db st d c', Inr (key_hash_of name))
     \<and> dictionary_room n (renamed db st d c') d c' m' \<and> known_names (renamed db st d c') m' = enter_name name (known_names db m)"
proof -
  let ?h = "db_heap db" and ?c = "c\<lparr>sc_flags := head_flags d db\<rparr>" and ?s = "hp_slm (db_heap db) ! mo_state m" and ?k = "key_hash_of name"
  have k': "string_to_hash name = Inr ?k" "hashable ?k" using k by (auto simp: string_ok_def string_to_hash_def split: option.splits)
  note a = d [unfolded dictionary_room_def state_at_def holds_state_def]
  have g: "sc_get 0 (?h, ?c) = Inr (Some (EStringMap m))"
    using sc_get_map [of "(?h, c)" 0] a hashable_0 by (simp add: copy_out_def type_defs)
  have i: "get_index (?h, ?c) = Inr (Some (EStringMap m), (?h, ?c), False)" using g by (simp add: get_index_def)
  have z: "0 < sl_stateSize ?s" using a by (simp add: slm_room_def)
  have known: "slm_containsHash ?k ?s = Inr (slm_abs ?s ?k \<noteq> None)" using slm_reads(2) [of ?s ?k] a k'(2) z by simp
  have nd: "\<not> sc_declareDirty ?c" by (rule not_told) (use a in simp)
  have "\<exists>st c' m'. put_name name ?k (?h, ?c) = Inr ((), (?h\<lparr>hp_slm := st\<rparr>, c'), False) \<and> sc_wf (?h, c')
      \<and> sc_map (?h, c') 0 = Some (STRING_LONG_MAP, EStringMap m') \<and> mo_state m' < length st \<and> slm_wf (st ! mo_state m')
      \<and> slm_room n (st ! mo_state m') \<and> mo_aligned m' \<and> mo_listener m' \<and> slm_abs (st ! mo_state m') = enter_name name (slm_abs ?s)"
  proof (cases "slm_abs ?s ?k = None")
    case False
    then show ?thesis using known i a
      by (intro exI [of _ "hp_slm ?h"] exI [of _ ?c] exI [of _ m]) (auto simp: put_name_def string_map_def enter_name_def slm_room_def)
  next
    case True
    obtain st m' changed where p: "slm_put name ?k (hp_slm ?h, m) = ((st, m'), Inr changed)" "mo_state m' < length st"
      "slm_wf (st ! mo_state m')" "slm_room n (st ! mo_state m')" "mo_aligned m'" "mo_listener m'"
      "slm_abs (st ! mo_state m') = enter_name name (slm_abs ?s)"
      using name_put [of m "hp_slm ?h" n name] a k True by blast
    have w: "sc_wf (?h, ?c)" using a by simp
    show ?thesis using p known i True nd a replaced_elem [OF w, of "EStringMap m" "EStringMap m'"]
      by (intro exI [of _ st] exI [of _ "replace_elem (EStringMap m) (EStringMap m') ?c"] exI [of _ m'])
         (simp add: put_name_def string_map_def)
  qed
  then obtain st c' m' where p: "put_name name ?k (?h, ?c) = Inr ((), (?h\<lparr>hp_slm := st\<rparr>, c'), False)" "sc_wf (?h, c')"
    and q: "sc_map (?h, c') 0 = Some (STRING_LONG_MAP, EStringMap m')" "mo_state m' < length st" "slm_wf (st ! mo_state m')"
      "slm_room n (st ! mo_state m')" "mo_aligned m'" "mo_listener m'" "slm_abs (st ! mo_state m') = enter_name name (slm_abs ?s)" by blast
  have "on_state env d (put_name name ?k) db = (renamed db st d c', Inr ())"
    unfolding renamed_def by (rule on_state_dirty [where c = c]) (use a p in simp_all)
  then have "stringToHash env name True db = (renamed db st d c', Inr ?k)" using a k'(1)
    by (simp add: stringToHash_def the_chunk_def seqo_def get_db_def ret_def of_result_def)
  moreover have "dictionary_room n (renamed db st d c') d c' m'"
    using a p(2) q same_tables(1,2) [of "?h\<lparr>hp_slm := st\<rparr>" ?h c']
    by (simp add: dictionary_room_def state_at_def holds_state_def renamed_def head_flags_def)
  ultimately show ?thesis using q(7) by (auto simp: known_names_def renamed_def)
qed

lemma name_inserted:
  assumes "dictionary_at db d c m" "string_ok name"
  shows "\<exists>st c'. stringToHash env name True db = (db\<lparr>db_heap := (db_heap db)\<lparr>hp_slm := st\<rparr>, db_body := (db_body db)[d := StateBody c']\<rparr>,
           Inr (key_hash_of name))"
  using name_entered [of 0 db d c m name env] assms by (auto simp: dictionary_at_def renamed_def)

lemma name_read: "string_ok name \<Longrightarrow> stringToHash env name False db = (db, Inr (key_hash_of name))"
  by (auto simp: stringToHash_def string_to_hash_def string_ok_def seqo_def of_result_def ret_def split: option.splits)

subsection \<open>A node with a state of its own\<close>

definition own :: "mwdb \<Rightarrow> nat \<Rightarrow> nat \<Rightarrow> state_chunk \<Rightarrow> nat \<Rightarrow> bool" where
  "own db n r c k \<longleftrightarrow> exact_node db n r \<and> state_at db r c \<and> roomy k db"

lemma own_resolve:
  assumes "own db n r c (Suc k)"
  shows "\<exists>db'. resolveState env n b db = (db', Inr (Some r)) \<and> own db' n r c k \<and> moved (\<lambda>_. 0) db db'"
proof -
  have o: "exact_node db n r" "state_at db r c" "roomy (Suc k) db" using assms by (simp_all add: own_def)
  obtain db' where r: "resolveState env n b db = (db', Inr (Some r))" "moved (\<lambda>_. 0) db db'" "roomy k db'"
    using exact_resolve [OF o(1,3)] by blast
  obtain kr where "cached db kr r" using o(1) by (auto simp: exact_node_def)
  then have "state_at db' r c" using state_moved [OF r(2) _ o(3)] o(2) by blast
  then show ?thesis using r o(1) exact_moved [OF r(2)] by (auto simp: own_def)
qed

lemma dictionary_moved:
  "moved d db db' \<Longrightarrow> roomy m db \<Longrightarrow> cached db kd r \<Longrightarrow> dictionary_at db' r c x \<longleftrightarrow> dictionary_at db r c x"
  unfolding dictionary_at_def dictionary_room_def using state_moved [of d db db' kd r m c] by (simp add: moved_def)

lemma own_name:
  assumes "own db n r c k" "dictionary_at db d cd m" "d \<noteq> r" "string_ok name"
  shows "\<exists>db'. stringToHash env name True db = (db', Inr (key_hash_of name)) \<and> own db' n r c k \<and> db_nodes db' = db_nodes db
     \<and> sc_map (db_heap db', c) = sc_map (db_heap db, c) \<and> sc_get x (db_heap db', c) = sc_get x (db_heap db, c)"
proof -
  obtain st cd' where n: "stringToHash env name True db =
      (db\<lparr>db_heap := (db_heap db)\<lparr>hp_slm := st\<rparr>, db_body := (db_body db)[d := StateBody cd']\<rparr>, Inr (key_hash_of name))"
    using name_inserted [OF assms(2,4)] by blast
  let ?h = "(db_heap db)\<lparr>hp_slm := st\<rparr>"
  have e: "tb_of ?h s = tb_of (db_heap db) s" for s by (simp add: tb_of_def)
  have "sc_get x (?h, c) = sc_get x (db_heap db, c)" unfolding sc_get_def prod.case ss_get_def sc_entry_def e ..
  then show ?thesis unfolding n using assms(1,3) same_tables(1,2) [of ?h "db_heap db"]
    by (simp add: own_def exact_node_def cached_def state_at_def holds_state_def head_flags_def roomy_def)
qed

lemma own_set:
  assumes "own db n r c k" "sc_room (db_heap db, c)" "hashable key" "known_type t" "\<forall>x. e = Some x \<longrightarrow> set_accepts t x"
  shows "\<exists>db' c'. state_set env r key t e db = (db', Inr ()) \<and> own db' n r c' k \<and> db_nodes db' = db_nodes db
     \<and> ss_size (sc_state c') \<le> max 1 (2 * ss_size (sc_state c)) \<and> sc_get key (db_heap db', c') = Inr e
     \<and> (\<forall>key'. hashable key' \<and> key' \<noteq> key \<longrightarrow> sc_get key' (db_heap db', c') = sc_get key' (db_heap db, c))"
proof -
  let ?c = "c\<lparr>sc_flags := head_flags r db\<rparr>"
  have s: "r < length (db_body db)" "db_body db ! r = StateBody c" "sc_wf (db_heap db, c)" "js_and (head_flags r db) 1 = 1"
    using assms(1) by (simp_all add: own_def state_at_def holds_state_def)
  obtain h' c' where i: "sc_internal_set key t e True (db_heap db, ?c) = Inr ((h', c'), sc_set_dirty ?c)" "sc_wf (h', c')"
    "sc_map (h', c') = (sc_map (db_heap db, c))(key := map_option (\<lambda>x. (t, x)) e)"
    using sc_internal_set [of "db_heap db" ?c key t e e True] s(3) assms(2-4) accepted_stored [OF assms(4,5)] by auto
  have "\<not> sc_set_dirty ?c" by (rule not_told) (use s(4) in simp)
  then have f: "sc_set key t e (db_heap db, ?c) = Inr ((h', c'), False)" using i(1) sc_set_eq [OF assms(5), of key "(db_heap db, ?c)"] by simp
  have "state_set env r key t e db = (db\<lparr>db_heap := h', db_body := (db_body db)[r := StateBody c']\<rparr>, Inr ())"
    unfolding state_set_def by (rule on_state_dirty [where c = c]) (use s f in simp_all)
  moreover have "sc_get key (h', c') = Inr e"
    using sc_get_map [OF i(2) assms(3)] i(3) accepted_stored [OF assms(4,5)] by (cases e) simp_all
  moreover have "sc_get key' (h', c') = sc_get key' (db_heap db, c)" if "hashable key'" "key' \<noteq> key" for key'
    using sc_get_map [OF i(2) that(1)] sc_get_map [OF s(3) that(1)] i(3) that(2) by simp
  moreover have "ss_set key t e True (db_heap db, sc_state c) = Inr (h', sc_state c')"
    using i(1) by (auto simp: sc_internal_set_def bindr_def Let_def split: sum.splits prod.splits)
  then have "ss_size (sc_state c') \<le> max 1 (2 * ss_size (sc_state c))" using ss_set_size by fastforce
  ultimately show ?thesis using i(2) assms(1) s
    by (intro exI [of _ "db\<lparr>db_heap := h', db_body := (db_body db)[r := StateBody c']\<rparr>"] exI [of _ c'])
       (simp add: own_def exact_node_def cached_def state_at_def holds_state_def head_flags_def roomy_def)
qed

lemma own_get: "own db n r c k \<Longrightarrow> state_get r key db = (db, sc_get key (db_heap db, c))"
  by (intro state_get_at) (simp_all add: own_def state_at_def holds_state_def)

lemma own_node_get:
  assumes "own db n r c (Suc k)" "string_ok name"
  shows "\<exists>db'. node_get env n name db = (db', sc_get (key_hash_of name) (db_heap db, c)) \<and> own db' n r c k \<and> moved (\<lambda>_. 0) db db'"
proof -
  obtain db' where r: "resolveState env n True db = (db', Inr (Some r))" "own db' n r c k" "moved (\<lambda>_. 0) db db'"
    using own_resolve [OF assms(1)] by blast
  then show ?thesis using name_read [OF assms(2), of env db'] own_get [OF r(2)]
    by (intro exI [of _ db']) (simp add: node_get_def seqo_def moved_def)
qed

lemma own_setProperty:
  assumes "own db n r c (Suc k)" "sc_room (db_heap db, c)" "dictionary_at db d cd m" "cached db kd d" "d \<noteq> r" "string_ok name"
    and "known_type t" "\<forall>x. e = Some x \<longrightarrow> set_accepts t x"
  shows "\<exists>db' c'. node_setProperty env n name t e db = (db', Inr ()) \<and> own db' n r c' k
     \<and> sc_get (key_hash_of name) (db_heap db', c') = Inr e
     \<and> (\<forall>key. hashable key \<and> key \<noteq> key_hash_of name \<longrightarrow> sc_get key (db_heap db', c') = sc_get key (db_heap db, c))"
proof -
  let ?k = "key_hash_of name"
  obtain db1 where 1: "resolveState env n False db = (db1, Inr (Some r))" "own db1 n r c k" "moved (\<lambda>_. 0) db db1"
    using own_resolve [OF assms(1)] by blast
  have "roomy (Suc k) db" using assms(1) by (simp add: own_def)
  then have d: "dictionary_at db1 d cd m" using dictionary_moved [OF 1(3) _ assms(4)] assms(3) by blast
  have h: "db_heap db1 = db_heap db" using 1(3) by (simp add: moved_def)
  obtain db2 where 2: "stringToHash env name True db1 = (db2, Inr ?k)" "own db2 n r c k" "sc_map (db_heap db2, c) = sc_map (db_heap db, c)"
    using own_name [OF 1(2) d assms(5,6)] h by metis
  have w: "sc_wf (db_heap db2, c)" "sc_wf (db_heap db, c)" using 2(2) assms(1) by (simp_all add: own_def state_at_def holds_state_def)
  obtain db3 c' where 3: "state_set env r ?k t e db2 = (db3, Inr ())" "own db3 n r c' k" "sc_get ?k (db_heap db3, c') = Inr e"
    "\<forall>key'. hashable key' \<and> key' \<noteq> ?k \<longrightarrow> sc_get key' (db_heap db3, c') = sc_get key' (db_heap db2, c)"
    using own_set [OF 2(2) _ _ assms(7,8), of ?k env] string_okD [OF assms(6)] assms(2) by (auto simp: sc_room_def)
  have "sc_get key (db_heap db2, c) = sc_get key (db_heap db, c)" if "hashable key" for key
    using sc_get_map [OF w(1) that] sc_get_map [OF w(2) that] 2(3) by simp
  then show ?thesis using 1(1) 2(1) 3
    by (intro exI [of _ db3] exI [of _ c']) (simp add: node_setProperty_def needed_def seqo_def ret_def)
qed

subsection \<open>Relations\<close>

lemma id_index_Some: "id_index i xs = Some j \<Longrightarrow> j < length xs \<and> remove1 (Finite (of_int i)) xs = take j xs @ drop (Suc j) xs"
proof -
  assume "id_index i xs = Some j"
  then have j: "j < length xs" "xs ! j = Finite (of_int i)" "\<forall>m < j. xs ! m \<noteq> Finite (of_int i)"
    by (auto simp: id_index_def find_Some_iff)
  have "xs = take j xs @ xs ! j # drop (Suc j) xs" using j(1) by (simp add: id_take_nth_drop)
  moreover have "Finite (of_int i) \<notin> set (take j xs)" using j(3) by (auto simp: in_set_conv_nth)
  ultimately have "remove1 (Finite (of_int i)) xs = take j xs @ remove1 (Finite (of_int i)) (xs ! j # drop (Suc j) xs)"
    by (metis remove1_append)
  then show ?thesis using j(1,2) by simp
qed

lemma id_index_None: "id_index i xs = None \<longleftrightarrow> Finite (of_int i) \<notin> set xs"
  by (auto simp: id_index_def find_None_iff in_set_conv_nth)

lemma copy_without:
  assumes "j < length xs"
  shows "arraycopy u xs (int j + 1) (arraycopy u xs 0 (replicate (length xs - 1) u) 0 j) (int j) (length xs - j - 1)
    = take j xs @ drop (Suc j) xs"
proof -
  have 1: "arraycopy u xs 0 (replicate (length xs - 1) u) 0 j = take j xs @ replicate (length xs - 1 - j) u"
    using arraycopy_append [of "take j xs" j "replicate (length xs - 1) u" u "[]" "drop j xs" "[]"] assms by simp
  have l: "int j + 1 = int (length (take (Suc j) xs))" "int j = int (length (take j xs))" using assms by simp_all
  have "arraycopy u xs (int j + 1) (take j xs @ replicate (length xs - 1 - j) u) (int j) (length xs - j - 1)
    = take j xs @ drop (Suc j) xs"
    unfolding l using arraycopy_append [of "drop (Suc j) xs" "length xs - j - 1" "replicate (length xs - 1 - j) u" u "take (Suc j) xs" "[]" "take j xs"] assms
    by (simp add: add.commute)
  then show ?thesis unfolding 1 .
qed
text \<open>What comes before the read of the relation.\<close>

lemma own_relation:
  assumes "own db n r c (Suc k)" "b \<Longrightarrow> dictionary_at db d cd m \<and> cached db kd d \<and> d \<noteq> r" "string_ok name"
  shows "\<exists>db1 db2. resolveState env n False db = (db1, Inr (Some r)) \<and> stringToHash env name b db1 = (db2, Inr (key_hash_of name))
     \<and> own db2 n r c k \<and> db_nodes db2 = db_nodes db \<and> (\<forall>key. hashable key \<longrightarrow> sc_get key (db_heap db2, c) = sc_get key (db_heap db, c))"
proof -
  obtain db1 where 1: "resolveState env n False db = (db1, Inr (Some r))" "own db1 n r c k" "moved (\<lambda>_. 0) db db1"
    using own_resolve [OF assms(1)] by blast
  have same: "db_heap db1 = db_heap db" "db_nodes db1 = db_nodes db" using 1(3) by (simp_all add: moved_def)
  show ?thesis
  proof (cases b)
    case False
    then show ?thesis using 1 same name_read [OF assms(3), of env db1] by (intro exI [of _ db1]) simp
  next
    case True
    note d = assms(2) [OF True]
    have "roomy (Suc k) db" using assms(1) by (simp add: own_def)
    then have "dictionary_at db1 d cd m" using dictionary_moved [OF 1(3)] d by blast
    from own_name [OF 1(2) this _ assms(3), of env] d obtain db2 where
      2: "stringToHash env name True db1 = (db2, Inr (key_hash_of name))" "own db2 n r c k" "db_nodes db2 = db_nodes db1"
        "sc_map (db_heap db2, c) = sc_map (db_heap db1, c)" by blast
    have w: "sc_wf (db_heap db2, c)" "sc_wf (db_heap db1, c)" using 1(2) 2(2) by (simp_all add: own_def state_at_def holds_state_def)
    have "sc_get key (db_heap db2, c) = sc_get key (db_heap db, c)" if "hashable key" for key
      using sc_get_map [OF w(1) that] sc_get_map [OF w(2) that] 2(4) same by simp
    then show ?thesis using 1(1) 2 same True by (intro exI [of _ db1] exI [of _ db2]) simp
  qed
qed

lemma long_array_ok: "known_type LONG_ARRAY" "set_accepts LONG_ARRAY (EFloats xs)"
  by (simp_all add: known_type_def set_accepts_def type_defs)

lemma own_add:
  assumes "own db n r c (Suc k)" "sc_room (db_heap db, c)" "dictionary_at db d cd m" "cached db kd d" "d \<noteq> r" "string_ok name"
    and "sc_get (key_hash_of name) (db_heap db, c) = Inr previous" "nd_id (db_nodes db ! x) = i"
  shows "\<exists>db' c'. node_add env n name x db = (db', Inr ()) \<and> own db' n r c' k \<and> db_nodes db' = db_nodes db
     \<and> ss_size (sc_state c') \<le> max 1 (2 * ss_size (sc_state c)) \<and> sc_get (key_hash_of name) (db_heap db', c') = Inr (Some (EFloats (add_id i previous)))"
proof -
  let ?k = "key_hash_of name"
  have k: "hashable ?k" using string_okD [OF assms(6)] by simp
  obtain db1 db2 where 1: "resolveState env n False db = (db1, Inr (Some r))" "stringToHash env name True db1 = (db2, Inr ?k)"
    "own db2 n r c k" "db_nodes db2 = db_nodes db" "sc_get ?k (db_heap db2, c) = Inr previous"
    using own_relation [OF assms(1) _ assms(6), of True d cd m kd env] assms(3-5,7) k by auto
  obtain db3 c' where 3: "state_set env r ?k LONG_ARRAY (Some (EFloats (add_id i previous))) db2 = (db3, Inr ())" "own db3 n r c' k"
    "db_nodes db3 = db_nodes db2" "ss_size (sc_state c') \<le> max 1 (2 * ss_size (sc_state c))"
    "sc_get ?k (db_heap db3, c') = Inr (Some (EFloats (add_id i previous)))"
    using own_set [OF 1(3) _ k long_array_ok(1), of "Some (EFloats (add_id i previous))" env] long_array_ok(2) assms(2)
    by (auto simp: sc_room_def)
  then show ?thesis using 1 own_get [OF 1(3), of ?k] assms(8)
    by (intro exI [of _ db3] exI [of _ c'])
       (simp add: node_add_def needed_def node_at_def get_db_def seqo_def ret_def)
qed

text \<open>The identifier is there: its first occurrence is taken out, and an empty array is not kept.\<close>

lemma own_remove:
  assumes "own db n r c (Suc k)" "sc_room (db_heap db, c)" "string_ok name"
    and "sc_get (key_hash_of name) (db_heap db, c) = Inr (Some (EFloats xs))" "Finite (of_int i) \<in> set xs" "nd_id (db_nodes db ! x) = i"
  shows "\<exists>db' c'. node_remove env n name x db = (db', Inr ()) \<and> own db' n r c' k \<and> db_nodes db' = db_nodes db
     \<and> sc_get (key_hash_of name) (db_heap db', c') = Inr (let ys = remove1 (Finite (of_int i)) xs in if ys = [] then None else Some (EFloats ys))"
proof -
  let ?k = "key_hash_of name"
  have k: "hashable ?k" using string_okD [OF assms(3)] by simp
  obtain db1 db2 where 1: "resolveState env n False db = (db1, Inr (Some r))" "stringToHash env name False db1 = (db2, Inr ?k)"
    "own db2 n r c k" "db_nodes db2 = db_nodes db" "sc_get ?k (db_heap db2, c) = Inr (Some (EFloats xs))"
    using own_relation [OF assms(1) _ assms(3), of False _ _ _ _ env] assms(4) k by auto
  obtain j where j: "id_index i xs = Some j" using assms(5) id_index_None [of i xs] by auto
  note j' = id_index_Some [OF j]
  define ys where "ys = remove1 (Finite (of_int i)) xs"
  define e where "e = (if ys = [] then None else Some (EFloats ys))"
  have ys: "ys = take j xs @ drop (Suc j) xs" "length ys = length xs - 1" using j' assms(5) by (simp_all add: ys_def length_remove1)
  have ok: "\<forall>x. e = Some x \<longrightarrow> set_accepts LONG_ARRAY x" using long_array_ok(2) by (auto simp: e_def)
  have room: "sc_room (db_heap db2, c)" using assms(2) by (simp add: sc_room_def)
  obtain db3 c' where 3: "state_set env r ?k LONG_ARRAY e db2 = (db3, Inr ())" "own db3 n r c' k" "db_nodes db3 = db_nodes db2"
    "sc_get ?k (db_heap db3, c') = Inr e"
    using own_set [OF 1(3) room k long_array_ok(1) ok, of env] by blast
  have "arraycopy (Finite 0) xs (int j + 1) (arraycopy (Finite 0) xs 0 (replicate (length xs - 1) (Finite 0)) 0 j) (int j) (length xs - j - 1) = ys"
    using copy_without [of j xs "Finite 0"] j' ys(1) by simp
  then have w: "length xs \<le> Suc 0 \<Longrightarrow> e = None" "\<not> length xs \<le> Suc 0 \<Longrightarrow> e = Some (EFloats
      (arraycopy (Finite 0) xs (1 + int j) (arraycopy (Finite 0) xs 0 (replicate (length xs - Suc 0) (Finite 0)) 0 j) (int j) (length xs - Suc j)))"
    using ys(2) by (auto simp: e_def add.commute)
  have "node_remove env n name x db = (db3, Inr ())"
    using 1(1,2,4,5) own_get [OF 1(3), of ?k] assms(6) j 3(1) w
    by (cases "length xs \<le> Suc 0") (simp_all add: node_remove_def needed_def node_at_def get_db_def seqo_def ret_def Let_def)
  then show ?thesis using 3 1(4) by (intro exI [of _ db3] exI [of _ c']) (simp add: e_def ys_def Let_def)
qed

end
