(* ===== verification/NodeSpec.thy ===== *)
theory NodeSpec
  imports NodeState
begin

text \<open>
  The properties of nodes: what an attribute is after it was set, relations, the collecting of lookups, the filter of a search and
  the key of an index, and the lock of the graph.
\<close>

subsection \<open>Lookups that call back\<close>

text \<open>The lookups one after the other: per identifier what the callback was called with, \<open>None\<close> when it was not called.\<close>

fun lookup_seq :: "graph_env \<Rightarrow> int \<Rightarrow> int \<Rightarrow> int list \<Rightarrow> nat option option list op" where
  "lookup_seq env world time [] = ret []"
| "lookup_seq env world time (i # ids) =
     seqo (lookup env world time i) (\<lambda>r. seqo (lookup_seq env world time ids) (\<lambda>rs. ret (r # rs)))"

definition answered :: "'a option list \<Rightarrow> 'a list" where
  "answered rs = map the (filter (\<lambda>r. r \<noteq> None) rs)"

lemma dc_count_up: "dc_count c = Inr (Some (dc_nb_down c + 1) = dc_counter c \<and> dc_end c, c\<lparr>dc_nb_down := dc_nb_down c + 1\<rparr>)"
  by (simp add: dc_count_def)

lemma lookup_each_seq:
  "lookup_each env w t ids found c db = (case lookup_seq env w t ids db of (db', Inl e) \<Rightarrow> (db', Inl e)
     | (db', Inr rs) \<Rightarrow> (db', Inr (found @ answered rs, c\<lparr>dc_nb_down := dc_nb_down c + int (length (answered rs))\<rparr>)))"
proof (induction ids arbitrary: found c db)
  case Nil
  then show ?case by (simp add: ret_def answered_def)
next
  case (Cons i ids)
  show ?case
  proof (cases "lookup env w t i db")
    case (Pair db1 res)
    show ?thesis
    proof (cases res)
      case (Inr r)
      then show ?thesis using Pair
        by (cases r) (auto simp: seqo_def Cons.IH dc_count_up of_result_def ret_def answered_def split: prod.split sum.split)
    qed (use Pair in \<open>simp add: seqo_def\<close>)
  qed
qed

lemma answered_all: "length (answered rs) = length rs \<longleftrightarrow> None \<notin> set rs"
  by (induction rs) (auto simp: answered_def, metis Suc_n_not_le_n length_filter_le length_map)

lemma lookup_seq_length: "lookup_seq env w t ids db = (db', Inr rs) \<Longrightarrow> length rs = length ids"
  by (induction ids arbitrary: db db' rs) (auto simp: ret_def seqo_def split: prod.splits sum.splits)

subsection \<open>Queries and states\<close>

text \<open>The text of an attribute of a chunk.\<close>

definition attribute_text :: "mwdb \<Rightarrow> state_chunk \<Rightarrow> int \<Rightarrow> jsstring option" where
  "attribute_text db c k = map_option (\<lambda>(t, e). elem_text (copy_out (Some t) e)) (sc_map (db_heap db, c) k)"

lemma state_get_text:
  assumes "holds_state db r c" "hashable k"
  shows "state_get r k db = (db, Inr (map_option (\<lambda>(t, e). copy_out (Some t) e) (sc_map (db_heap db, c) k)))"
  using assms state_get_at [of r db c k] sc_get_map [of "(db_heap db, c)" k] by (simp add: holds_state_def)

lemma exact_match_text:
  assumes "holds_state db r c" "\<forall>p \<in> set ps. hashable (fst p)"
  shows "exact_match (Some r) ps db = (db, Inr (\<forall>p \<in> set ps. attribute_text db c (fst p) = snd p))"
  using assms(2)
proof (induction ps)
  case Nil
  then show ?case by (simp add: ret_def)
next
  case (Cons p ps)
  obtain a v where p: "p = (a, v)" by (cases p)
  have g: "state_get r a db = (db, Inr (map_option (\<lambda>(t, e). copy_out (Some t) e) (sc_map (db_heap db, c) a)))"
    using state_get_text [OF assms(1)] Cons.prems p by simp
  show ?case using Cons p g
    by (cases v; cases "sc_map (db_heap db, c) a") (auto simp: seqo_def ret_def attribute_text_def)
qed

text \<open>The names that are looked up: up to the first attribute that the state does not have.\<close>

fun asked_names :: "(jsstring \<Rightarrow> bool) \<Rightarrow> jsstring list \<Rightarrow> jsstring list" where
  "asked_names has [] = []"
| "asked_names has (k # ks) = k # (if has k then asked_names has ks else [])"

text \<open>The query of the names \<open>ks\<close>, or the error of a missing attribute.\<close>

definition queried :: "(int \<Rightarrow> jsstring option) \<Rightarrow> jsstring list \<Rightarrow> query \<Rightarrow> query result" where
  "queried txt ks q = (if \<exists>k \<in> set ks. txt (key_hash_of k) = None then Inl TypeError
     else Inr (adds q (map (\<lambda>k. (key_hash_of k, the (txt (key_hash_of k)))) ks)))"

lemma key_query_step:
  assumes "stringToHash env k b db = (db1, Inr (key_hash_of k))" "holds_state db1 r c" "hashable (key_hash_of k)"
  shows "key_query env b (Some r) (k # ks) q db = (case attribute_text db1 c (key_hash_of k) of None \<Rightarrow> (db1, Inl TypeError)
     | Some v \<Rightarrow> key_query env b (Some r) ks (q_add (key_hash_of k) v q) db1)"
  using assms(1) state_get_text [OF assms(2,3)]
  by (cases "sc_map (db_heap db1, c) (key_hash_of k)") (auto simp: seqo_def of_result_def query_add_def attribute_text_def)

lemma key_query_read:
  assumes "holds_state db r c" "\<forall>k \<in> set ks. string_ok k"
  shows "key_query env False (Some r) ks q db = (db, queried (attribute_text db c) ks q)"
  using assms(2)
proof (induction ks arbitrary: q)
  case (Cons k ks)
  then show ?case using key_query_step [OF name_read assms(1)] string_okD
    by (auto simp: queried_def split: option.split)
qed (simp add: ret_def queried_def)

lemma dictionary_room_less: "dictionary_room m db d c x \<Longrightarrow> n \<le> m \<Longrightarrow> dictionary_room n db d c x"
  by (auto simp: dictionary_room_def slm_room_def)

lemma renamed_state:
  assumes "holds_state db r c" "d \<noteq> r"
  shows "holds_state (renamed db st d c') r c" "attribute_text (renamed db st d c') c = attribute_text db c"
    "hp_lam (db_heap (renamed db st d c')) = hp_lam (db_heap db)"
  using assms same_tables(1,2) [of "(db_heap db)\<lparr>hp_slm := st\<rparr>" "db_heap db" c]
  by (simp_all add: holds_state_def renamed_def attribute_text_def fun_eq_iff)

lemma key_query_enter:
  assumes "holds_state db r c" "\<forall>k \<in> set ks. string_ok k" "dictionary_room (length ks) db d cd m" "d \<noteq> r"
  shows "\<exists>db' cd' m'. key_query env True (Some r) ks q db = (db', queried (attribute_text db c) ks q)
     \<and> holds_state db' r c \<and> attribute_text db' c = attribute_text db c \<and> hp_lam (db_heap db') = hp_lam (db_heap db)
     \<and> dictionary_room 0 db' d cd' m'
     \<and> known_names db' m' = fold enter_name (asked_names (\<lambda>k. attribute_text db c (key_hash_of k) \<noteq> None) ks) (known_names db m)"
  using assms(1-3)
proof (induction ks arbitrary: q db cd m)
  case Nil
  then show ?case by (intro exI [of _ db] exI [of _ cd] exI [of _ m]) (simp add: ret_def queried_def)
next
  case (Cons k ks)
  have k: "string_ok k" and ks: "\<forall>k \<in> set ks. string_ok k" using Cons.prems(2) by simp_all
  obtain st c1 m1 where n: "stringToHash env k True db = (renamed db st d c1, Inr (key_hash_of k))"
    "dictionary_room (length ks) (renamed db st d c1) d c1 m1"
    "known_names (renamed db st d c1) m1 = enter_name k (known_names db m)"
    using name_entered [OF _ k] Cons.prems(3) by (metis length_Cons)
  let ?db = "renamed db st d c1"
  note h = renamed_state [OF Cons.prems(1) assms(4), of st c1]
  note s = key_query_step [OF n(1) h(1) string_okD [OF k, THEN conjunct2], of ks q, unfolded h(2)]
  show ?case
  proof (cases "attribute_text db c (key_hash_of k)")
    case None
    then show ?thesis using s h n(2,3) dictionary_room_less [OF n(2), of 0]
      by (intro exI [of _ ?db] exI [of _ c1] exI [of _ m1]) (simp add: queried_def del: key_query.simps)
  next
    case (Some v)
    obtain db' cd' m' where i: "key_query env True (Some r) ks (q_add (key_hash_of k) v q) ?db
        = (db', queried (attribute_text db c) ks (q_add (key_hash_of k) v q))"
      "holds_state db' r c" "attribute_text db' c = attribute_text db c" "hp_lam (db_heap db') = hp_lam (db_heap db)"
      "dictionary_room 0 db' d cd' m'" "known_names db' m' = fold enter_name (asked_names (\<lambda>k. attribute_text db c (key_hash_of k) \<noteq> None) ks) (known_names ?db m1)"
      using Cons.IH [OF h(1) ks n(2), of "q_add (key_hash_of k) v q"] unfolding h(2,3) by blast
    show ?thesis using s Some i n(3)
      by (intro exI [of _ db'] exI [of _ cd'] exI [of _ m']) (simp add: queried_def del: key_query.simps)
  qed
qed

subsection \<open>A node that lacks a key attribute\<close>

lemma own_moved:
  assumes "own db n r c j" "moved (\<lambda>_. 0) db db'" "roomy k db'"
  shows "own db' n r c k"
proof -
  obtain kr where "cached db kr r" using assms(1) by (auto simp: own_def exact_node_def)
  then have "state_at db' r c" using state_moved [OF assms(2)] assms(1) unfolding own_def by blast
  then show ?thesis using exact_moved [OF assms(2)] assms(1,3) by (simp add: own_def)
qed

lemma own_renamed:
  assumes "own db n r c k" "d \<noteq> r"
  shows "own (renamed db st d c') n r c k"
  using assms same_tables(1) [of "(db_heap db)\<lparr>hp_slm := st\<rparr>" "db_heap db" c]
  by (simp add: own_def exact_node_def cached_def state_at_def holds_state_def head_flags_def roomy_def renamed_def)

text \<open>The fields of the database that the bodies are kept beside.\<close>

lemma own_other_body:
  assumes "own db n r c k" "r' \<noteq> r"
  shows "own (db\<lparr>db_body := (db_body db)[r' := b]\<rparr>) n r c k"
  using assms by (simp add: own_def exact_node_def cached_def state_at_def holds_state_def head_flags_def roomy_def)

lemma dictionary_other:
  "moved (\<lambda>_. 0) db db' \<Longrightarrow> roomy j db \<Longrightarrow> cached db kd d \<Longrightarrow> dictionary_room i db' d c m \<longleftrightarrow> dictionary_room i db d c m"
  "r \<noteq> d \<Longrightarrow> dictionary_room i (db\<lparr>db_body := (db_body db)[r := b]\<rparr>) d c m \<longleftrightarrow> dictionary_room i db d c m"
  unfolding dictionary_room_def using state_moved [of "\<lambda>_. 0" db db' kd d j c]
  by (simp_all add: moved_def state_at_def holds_state_def head_flags_def)

text \<open>An index that is there is found again by \<open>getOrCreate\<close>.\<close>

lemma own_index:
  assumes "own db n r c k" "sc_room (db_heap db, c)" "hashable key" "sc_map (db_heap db, c) key = Some (LONG_LONG_ARRAY_MAP, e)"
  shows "state_getOrCreate env r key LONG_LONG_ARRAY_MAP db
     = (db\<lparr>db_body := (db_body db)[r := StateBody (c\<lparr>sc_flags := head_flags r db\<rparr>)]\<rparr>, Inr (Some e))"
proof -
  have s: "r < length (db_body db)" "db_body db ! r = StateBody c" "sc_wf (db_heap db, c)"
    using assms(1) by (simp_all add: own_def state_at_def holds_state_def)
  have "sc_getOrCreate key LONG_LONG_ARRAY_MAP (db_heap db, c\<lparr>sc_flags := head_flags r db\<rparr>)
      = Inr (Some e, (db_heap db, c\<lparr>sc_flags := head_flags r db\<rparr>), False)"
    using sc_getOrCreate_spec [of "db_heap db" "c\<lparr>sc_flags := head_flags r db\<rparr>" key LONG_LONG_ARRAY_MAP] s assms(2-4)
    by (simp add: map_types_def)
  from on_state_dirty [where f = "sc_getOrCreate key LONG_LONG_ARRAY_MAP", OF s(1,2) this] show ?thesis
    by (simp add: state_getOrCreate_def)
qed

text \<open>Further fact.
  Indexing a node that lacks a key attribute in an index that is there: the whole call fails with the \<open>TypeError\<close> of the key query, the
  arrays of every index are as before, and the dictionary has the name of the index and the key names up to the missing one.\<close>

lemma node_index_missing_key:
  assumes n: "own db n r c (Suc (Suc k))" "sc_room (db_heap db, c)" "sc_map (db_heap db, c) (key_hash_of indexName) = Some (LONG_LONG_ARRAY_MAP, e)"
    and x: "own db x r' c' (Suc (Suc k))" "r \<noteq> r'"
    and d: "dictionary_room (Suc (length ks)) db d cd m" "cached db kd d" "d \<noteq> r" "d \<noteq> r'"
    and ks: "ks = split_on QUERY_SEP flatKeyAttributes" "\<forall>k \<in> set ks. string_ok k" "string_ok indexName"
    and miss: "\<exists>k \<in> set ks. attribute_text db c' (key_hash_of k) = None"
  shows "\<exists>db' cd' m'. node_index env n indexName x flatKeyAttributes db = (db', Inl TypeError)
     \<and> hp_lam (db_heap db') = hp_lam (db_heap db) \<and> dictionary_room 0 db' d cd' m'
     \<and> known_names db' m' = fold enter_name
         (indexName # asked_names (\<lambda>k. attribute_text db c' (key_hash_of k) \<noteq> None) ks) (known_names db m)"
proof -
  obtain db1 where 1: "resolveState env n True db = (db1, Inr (Some r))" "own db1 n r c (Suc k)" "moved (\<lambda>_. 0) db db1"
    using own_resolve [OF n(1)] by blast
  have ro: "roomy (Suc (Suc k)) db" "roomy (Suc k) db1" using n(1) 1(2) by (simp_all add: own_def)
  have h1: "db_heap db1 = db_heap db" using 1(3) by (simp add: moved_def)
  have x1: "own db1 x r' c' (Suc k)" by (rule own_moved [OF x(1) 1(3) ro(2)])
  have d1: "dictionary_room (Suc (length ks)) db1 d cd m" using dictionary_other(1) [OF 1(3) ro(1) d(2)] d(1) by simp
  obtain st c1 m1 where 2: "stringToHash env indexName True db1 = (renamed db1 st d c1, Inr (key_hash_of indexName))"
    "dictionary_room (length ks) (renamed db1 st d c1) d c1 m1"
    "known_names (renamed db1 st d c1) m1 = enter_name indexName (known_names db1 m)"
    using name_entered [OF d1 ks(3)] by blast
  let ?db2 = "renamed db1 st d c1"
  have n2: "own ?db2 n r c (Suc k)" and x2: "own ?db2 x r' c' (Suc k)" using own_renamed 1(2) x1 d(3,4) by blast+
  have m2: "sc_map (db_heap ?db2, y) = sc_map (db_heap db, y)" for y
    using same_tables(2) [of "db_heap ?db2" "db_heap db"] h1 by (simp add: renamed_def)
  define db3 where "db3 = ?db2\<lparr>db_body := (db_body ?db2)[r := StateBody (c\<lparr>sc_flags := head_flags r ?db2\<rparr>)]\<rparr>"
  have 3: "state_getOrCreate env r (key_hash_of indexName) LONG_LONG_ARRAY_MAP ?db2 = (db3, Inr (Some e))"
    unfolding db3_def using own_index [OF n2 _ _ n(3) [folded m2]] n(2) string_okD [OF ks(3)] by (simp add: sc_room_def)
  have x3: "own db3 x r' c' (Suc k)" unfolding db3_def by (rule own_other_body [OF x2 x(2)])
  have d3: "dictionary_room (length ks) db3 d c1 m1" unfolding db3_def using dictionary_other(2) d(3) 2(2) by simp
  obtain db4 where 4: "resolveState env x True db3 = (db4, Inr (Some r'))" "own db4 x r' c' k" "moved (\<lambda>_. 0) db3 db4"
    using own_resolve [OF x3] by blast
  have "cached db3 kd d" using d(2) cached_moved [OF 1(3)] by (simp add: db3_def renamed_def cached_def)
  moreover have "roomy (Suc k) db3" using x3 by (simp add: own_def)
  ultimately have d4: "dictionary_room (length ks) db4 d c1 m1" using dictionary_other(1) [OF 4(3)] d3 by blast
  have h4: "db_heap db4 = db_heap ?db2" using 4(3) by (simp add: moved_def db3_def)
  have t4: "attribute_text db4 c' = attribute_text db c'" using m2 [of c'] unfolding attribute_text_def h4 by simp
  have k4: "known_names db4 m1 = enter_name indexName (known_names db m)"
    using 2(3) h4 h1 by (simp add: known_names_def)
  have s4: "holds_state db4 r' c'" using 4(2) by (simp add: own_def state_at_def)
  obtain db5 cd5 m5 where 5: "key_query env True (Some r') ks newQuery db4 = (db5, Inl TypeError)"
    "hp_lam (db_heap db5) = hp_lam (db_heap db4)" "dictionary_room 0 db5 d cd5 m5"
    "known_names db5 m5 = fold enter_name (asked_names (\<lambda>k. attribute_text db c' (key_hash_of k) \<noteq> None) ks) (known_names db4 m1)"
    using key_query_enter [OF s4 ks(2) d4 d(4), of env newQuery] miss unfolding t4 by (auto simp only: queried_def if_True)
  have "node_index env n indexName x flatKeyAttributes db = (db5, Inl TypeError)"
    unfolding node_index_def ks(1) [symmetric] using 1(1) 2(1) 3 4(1) 5(1) by (simp add: seqo_def needed_def ret_def)
  moreover have "hp_lam (db_heap db4) = hp_lam (db_heap db)" using h4 h1 by (simp add: renamed_def)
  ultimately show ?thesis using 5(2-4) k4 by auto
qed

subsection \<open>A database for the witnesses\<close>

text \<open>A node, resolved exactly to a state without attributes, and a dictionary without names; both chunks are dirty.\<close>

definition sample_graph :: "mwdb \<Rightarrow> state_chunk \<Rightarrow> state_chunk \<Rightarrow> map_object \<Rightarrow> bool" where
  "sample_graph db c cd m \<longleftrightarrow> own db 0 0 c 5 \<and> ss_size (sc_state c) = 16 \<and> sc_map (db_heap db, c) = Map.empty
     \<and> dictionary_at db 1 cd m \<and> cached db (STATE_CHUNK, NULL_LONG, 0, 0) 1 \<and> length (db_nodes db) = 1 \<and> nd_id (db_nodes db ! 0) = 7"

lemma sample_key_5: "triple_hashable (0, NULL_LONG, 0, 0)"
  by code_simp

lemma sample_graph: "\<exists>db c cd m. sample_graph db c cd m"
proof -
  let ?ks = "[(0, 1, 5, 7), (0, NULL_LONG, 0, 0)] :: chunk_key list"
  have "distinct ?ks" "\<forall>k \<in> set ?ks. triple_hashable k" "length ?ks \<le> 10" "0 < (10 :: nat)" "(10 :: nat) < 2 ^ 31"
    using sample_key_4 sample_key_5 by simp_all
  then obtain s where s: "cs_inv s [length ?ks..<10]" "\<forall>j < length ?ks. (?ks ! j, j) \<in> cs_content s \<and> ch_flags (cs_store s ! j) = 1"
    using filled_cache [of ?ks 10] by blast
  let ?m = "\<lparr>mo_listener = True, mo_state = 0, mo_aligned = True\<rparr>" and ?h = "no_heap\<lparr>hp_slm := [slm_new 16]\<rparr>"
  obtain h1 c where c: "sc_wf (h1, c)" "sc_map (h1, c) = Map.empty" "h1 = ?h\<lparr>hp_tables := hp_tables ?h @ [empty_table 16]\<rparr>"
    "sc_state c = \<lparr>ss_size = 16, ss_table = length (hp_tables ?h), ss_v = replicate 16 None, ss_count = 0, ss_readOnly = False\<rparr>"
    using sc_new [of 1 5 7 True ?h] by blast
  obtain h2 d where d: "sc_wf (h2, d)" "sc_room (h2, d)" "sc_map (h2, d) = Map.empty" "h2 = h1\<lparr>hp_tables := hp_tables h1 @ [empty_table 16]\<rparr>"
    "sc_state d = \<lparr>ss_size = 16, ss_table = length (hp_tables h1), ss_v = replicate 16 None, ss_count = 0, ss_readOnly = False\<rparr>"
    using sc_new [of NULL_LONG 0 0 True h1] by blast
  have t: "STRING_LONG_MAP \<in> map_types" by (simp add: map_types_def)
  obtain h3 d' where d': "sc_wf (h3, d')" "sc_map (h3, d') = [0 \<mapsto> (STRING_LONG_MAP, EStringMap ?m)]" "sc_frame h2 (sc_state d) h3 (sc_state d')"
    using sc_internal_set [OF d(1,2) hashable_0 map_type_known [OF t] map_type_stored(1) [OF t, of "Some (EStringMap ?m)"], of True] d(3) by auto
  have h3: "hp_tables h3 ! 0 = hp_tables h1 ! 0" "hp_slm h3 = [slm_new 16]" "0 < length (hp_tables h3)"
    using d'(3) c(3) d(4,5) by (auto simp: sc_frame_def)
  have "tb_of h3 (sc_state c) = tb_of h1 (sc_state c)" using h3(1) c(4) by (simp add: tb_of_def)
  then have c3: "sc_wf (h3, c)" "sc_map (h3, c) = Map.empty"
    using c h3(3) by (auto simp: sc_wf_def sc_map_def ss_wf_def ss_abs_def ss_pairs_def)
  let ?p = "\<lparr>rs_world = 1, rs_superTime = 5, rs_time = 5, rs_worldMagic = 0, rs_superTimeMagic = 0, rs_timeMagic = 0\<rparr>"
  define db where "db = \<lparr>db_space = s, db_body = [StateBody c, StateBody d'], db_heap = h3,
    db_nodes = [\<lparr>nd_world = 1, nd_time = 5, nd_id = 7, nd_resolved = Some ?p\<rparr>], db_dictionary = Some 1, db_connected = True, db_lock = True,
    db_prefix = 0, db_nodeKeys = None, db_worldKeys = None\<rparr>"
  have k: "cached db (0, 1, 5, 7) 0" "cached db (0, NULL_LONG, 0, 0) 1" "head_flags 0 db = 1" "head_flags 1 db = 1"
    using s(2) by (auto simp: cached_def db_def head_flags_def dest: spec [of _ 0] spec [of _ 1])
  have "js_and 1 1 = 1" by code_simp
  moreover have "length ?ks = 2" by simp
  then have "cs_inv s [2..<10]" using s(1) by (simp only:)
  then have "roomy 5 db" by (auto simp: roomy_def db_def intro!: exI [of _ "[2..<10]"])
  moreover have "slm_wf (slm_new 16)" by (rule slm_new_wf) simp
  moreover have "slm_room 1 (slm_new 16)" by (simp add: slm_room_def slm_new_def)
  ultimately have "sample_graph db c d' ?m"
    unfolding sample_graph_def own_def exact_node_def dictionary_at_def dictionary_room_def state_at_def holds_state_def
    using k c(4) c3 d'(1,2) h3 by (simp add: STATE_CHUNK_def) (simp add: db_def)
  then show ?thesis by blast
qed

lemma sample_texts: "string_ok [0]" "known_type STRING" "\<forall>x. Some (EString [72]) = Some x \<longrightarrow> set_accepts STRING x"
  by (rule string_ok_0, simp_all add: known_type_def set_accepts_def type_defs)

lemma sample_graph_parts:
  assumes "sample_graph db c cd m"
  shows "own db 0 0 c 5" "ss_size (sc_state c) = 16" "sc_room (db_heap db, c)" "sc_map (db_heap db, c) = Map.empty" "dictionary_at db 1 cd m"
    "cached db (STATE_CHUNK, NULL_LONG, 0, 0) 1" "nd_id (db_nodes db ! 0) = 7" "holds_state db 0 c"
  using assms by (simp_all add: sample_graph_def sc_room_def own_def state_at_def)

subsection \<open>Properties\<close>

text \<open>Property C2.
  Setting an attribute of a node and reading it: the node has the value that was set, the other attributes are what they were,
  and the nodes of the graph stay as they are.  (The node has a state of its own that is not saved yet; the dictionary learns the name.)\<close>

theorem set_then_get:
  assumes "own db n r c (Suc (Suc k))" "sc_room (db_heap db, c)" "dictionary_at db d cd m" "cached db kd d" "d \<noteq> r" "string_ok name"
    and "known_type t" "\<forall>x. e = Some x \<longrightarrow> set_accepts t x"
  shows "\<exists>db'. node_setProperty env n name t e db = (db', Inr ()) \<and> snd (node_get env n name db') = Inr e
     \<and> (\<forall>other. string_ok other \<and> key_hash_of other \<noteq> key_hash_of name \<longrightarrow> snd (node_get env n other db') = snd (node_get env n other db))"
proof -
  obtain db' c' where s: "node_setProperty env n name t e db = (db', Inr ())" "own db' n r c' (Suc k)"
    "sc_get (key_hash_of name) (db_heap db', c') = Inr e"
    "\<forall>key. hashable key \<and> key \<noteq> key_hash_of name \<longrightarrow> sc_get key (db_heap db', c') = sc_get key (db_heap db, c)"
    using own_setProperty [OF assms] by blast
  have "snd (node_get env n other db') = snd (node_get env n other db)" if "string_ok other" "key_hash_of other \<noteq> key_hash_of name" for other
    using own_node_get [OF s(2) that(1), of env] own_node_get [OF assms(1) that(1), of env] s(4) string_okD [OF that(1)] that(2) by auto
  then show ?thesis using s own_node_get [OF s(2) assms(6), of env] by auto
qed

theorem set_then_get_witness:
  "\<exists>db c cd m db'. sample_graph db c cd m \<and> node_setProperty blackhole_env 0 [0] STRING (Some (EString [72])) db = (db', Inr ())
     \<and> snd (node_get blackhole_env 0 [0] db') = Inr (Some (EString [72]))"
proof -
  obtain db c cd m where g: "sample_graph db c cd m" using sample_graph by blast
  note p = sample_graph_parts [OF g]
  have "own db 0 0 c (Suc (Suc 3))" using p(1) by (simp add: eval_nat_numeral)
  from set_then_get [OF this p(3,5,6) _ sample_texts, of blackhole_env] g show ?thesis by auto
qed

text \<open>Property C32.
  What \<open>set\<close> makes of a value: strings, numbers, booleans and \<open>Float64Array\<close>s get a type that accepts them, by the rule of the
  code for numbers; an \<open>Int32Array\<close> gets the type of a long array, which accepts no \<open>Int32Array\<close>, so setting one fails on
  every node; anything else is refused before the node is looked at.\<close>

theorem set_dispatch:
  "case v of
     Some (EInts xs) \<Rightarrow> \<exists>e. snd (node_set env n name v db) = Inl e
   | Some (EString s) \<Rightarrow> node_set env n name v = node_setProperty env n name STRING v \<and> set_accepts STRING (EString s)
   | Some (EBool b) \<Rightarrow> node_set env n name v = node_setProperty env n name BOOL v \<and> set_accepts BOOL (EBool b)
   | Some (EFloats ys) \<Rightarrow> node_set env n name v = node_setProperty env n name DOUBLE_ARRAY v \<and> set_accepts DOUBLE_ARRAY (EFloats ys)
   | Some (ENumber x) \<Rightarrow> (let t = (if \<exists>i. x = Finite (of_int i) then LONG else DOUBLE)
        in node_set env n name v = node_setProperty env n name t v \<and> set_accepts t (ENumber x))
   | _ \<Rightarrow> \<exists>e. node_set env n name v db = (db, Inl e)"
proof (cases "\<exists>xs. v = Some (EInts xs)")
  case True
  then obtain xs where v: "v = Some (EInts xs)" by blast
  have "\<exists>e. snd (state_set env r key LONG_ARRAY v db1) = Inl e" for r key db1
    by (simp add: v state_set_def on_state_def the_state_def body_def sc_set_def set_accepts_def type_defs seqo_def ret_def throw_def of_result_def
        get_db_def split: prod.split sum.split chunk_body.split)
  then show ?thesis
    by (auto simp: v node_set_def property_type_def node_setProperty_def needed_def seqo_def throw_def ret_def
        split: prod.split sum.split option.split)
next
  case False
  have i: "(\<exists>i. q = of_int i) \<longleftrightarrow> q = of_int \<lfloor>q\<rfloor>" for q :: rat by (metis floor_of_int)
  show ?thesis
  proof (cases v)
    case (Some e)
    then show ?thesis using False
      by (cases e) (auto simp: node_set_def property_type_def set_accepts_def type_defs throw_def Let_def i split: js_double.splits)
  qed (simp add: node_set_def property_type_def throw_def)
qed

text \<open>Property C9.
  Relations: a node added to a relation of another one is its last element, and removing it gives the relation back, which is no attribute
  at all when it is empty.  (The relation did not hold the node; there is room for the attribute twice.)\<close>

theorem add_then_remove:
  assumes "own db n r c (Suc (Suc (Suc k)))" "4 * ss_size (sc_state c) < 2 ^ 31" "dictionary_at db d cd m" "cached db kd d" "d \<noteq> r" "string_ok name"
    and "snd (node_get env n name db) = Inr previous" "previous = (if xs = [] then None else Some (EFloats xs))"
    and "Finite (of_int (nd_id (db_nodes db ! x))) \<notin> set xs"
  shows "\<exists>db1. node_add env n name x db = (db1, Inr ())
     \<and> snd (node_get env n name db1) = Inr (Some (EFloats (xs @ [Finite (of_int (nd_id (db_nodes db ! x)))])))
     \<and> (\<exists>db2. node_remove env n name x db1 = (db2, Inr ()) \<and> snd (node_get env n name db2) = Inr previous)"
proof -
  let ?i = "nd_id (db_nodes db ! x)" and ?k = "key_hash_of name"
  have room: "sc_room (db_heap db, c)" using assms(2) by (simp add: sc_room_def)
  have p: "sc_get ?k (db_heap db, c) = Inr previous" using own_node_get [OF assms(1,6), of env] assms(7) by auto
  have a: "add_id ?i previous = xs @ [Finite (of_int ?i)]" by (simp add: assms(8) add_id_def)
  obtain db1 c1 where 1: "node_add env n name x db = (db1, Inr ())" "own db1 n r c1 (Suc (Suc k))" "db_nodes db1 = db_nodes db"
    "ss_size (sc_state c1) \<le> max 1 (2 * ss_size (sc_state c))" "sc_get ?k (db_heap db1, c1) = Inr (Some (EFloats (xs @ [Finite (of_int ?i)])))"
    using own_add [OF assms(1) room assms(3-6) p, of x ?i env] unfolding a by blast
  have "sc_room (db_heap db1, c1)" using 1(4) assms(2) by (auto simp: sc_room_def)
  from own_remove [OF 1(2) this assms(6) 1(5), of ?i x env] 1(3) obtain db2 c2 where
    2: "node_remove env n name x db1 = (db2, Inr ())" "own db2 n r c2 (Suc k)"
      "sc_get ?k (db_heap db2, c2) = Inr (let ys = remove1 (Finite (of_int ?i)) (xs @ [Finite (of_int ?i)]) in if ys = [] then None else Some (EFloats ys))"
    by auto
  have "remove1 (Finite (of_int ?i)) (xs @ [Finite (of_int ?i)]) = xs" using assms(9) by (simp add: remove1_append)
  then have "sc_get ?k (db_heap db2, c2) = Inr previous" using 2(3) assms(8) by (simp add: Let_def)
  then show ?thesis
    using 1(1,5) 2(1) own_node_get [OF 1(2) assms(6), of env] own_node_get [OF 2(2) assms(6), of env] by auto
qed

theorem add_then_remove_witness:
  "\<exists>db c cd m db1 db2. sample_graph db c cd m \<and> node_add blackhole_env 0 [0] 0 db = (db1, Inr ())
     \<and> snd (node_get blackhole_env 0 [0] db1) = Inr (Some (EFloats [Finite 7]))
     \<and> node_remove blackhole_env 0 [0] 0 db1 = (db2, Inr ()) \<and> snd (node_get blackhole_env 0 [0] db2) = Inr None"
proof -
  obtain db c cd m where g: "sample_graph db c cd m" using sample_graph by blast
  note p = sample_graph_parts [OF g]
  have o: "own db 0 0 c (Suc (Suc (Suc 2)))" "own db 0 0 c (Suc 4)" using p(1) by (simp_all add: eval_nat_numeral)
  have "hashable (key_hash_of [0])" using string_okD [OF string_ok_0] by simp
  then have "sc_get (key_hash_of [0]) (db_heap db, c) = Inr None"
    using sc_get_map [of "(db_heap db, c)"] p(4,8) by (simp add: holds_state_def)
  then have "snd (node_get blackhole_env 0 [0] db) = Inr None" using own_node_get [OF o(2) string_ok_0, of blackhole_env] by auto
  from add_then_remove [OF o(1) _ p(5,6) _ string_ok_0 this, of "[]" 0] g p(2,7) show ?thesis by fastforce
qed

text \<open>Property C10.
  \<open>rel\<close>, \<open>findAt\<close> and \<open>allAt\<close> collect their nodes with a counter: the callback is called, with all nodes in the order of the
  identifiers, exactly when every one of the lookups has called back; one that logged an error is enough for the caller never to hear anything.\<close>

theorem lookup_all_calls_back:
  "lookup_all env world time ids (Some (int (length ids))) =
     seqo (lookup_seq env world time ids) (\<lambda>rs. ret (if None \<in> set rs then None else Some (map the rs)))"
proof (rule ext)
  fix db
  show "lookup_all env world time ids (Some (int (length ids))) db =
     seqo (lookup_seq env world time ids) (\<lambda>rs. ret (if None \<in> set rs then None else Some (map the rs))) db"
  proof (cases "lookup_seq env world time ids db")
    case (Pair db' res)
    then show ?thesis
    proof (cases res)
      case (Inr rs)
      have "None \<notin> set rs \<Longrightarrow> answered rs = map the rs" unfolding answered_def by (metis (mono_tags, lifting) filter_True)
      then show ?thesis using Pair Inr answered_all [of rs] lookup_seq_length [of env world time ids db db' rs]
        by (auto simp: lookup_all_def seqo_def lookup_each_seq newCounter_def dc_then_def ret_def)
    qed (simp add: lookup_all_def seqo_def lookup_each_seq)
  qed
qed

text \<open>Property C17.
  The filter of a search keeps a node exactly when every attribute of the query has the given text in the state of the node, and every attribute
  that the query names without a value is missing there.\<close>

theorem exact_match_spec:
  assumes "holds_state db r c" "\<forall>(a, v) \<in> set (q_pairs q). hashable a"
  shows "exact_match (Some r) (q_pairs q) db = (db, Inr (\<forall>(a, v) \<in> set (q_pairs q). attribute_text db c a = v))"
  using exact_match_text [OF assms(1), of "q_pairs q"] assms(2) by (auto simp: case_prod_beta)

theorem exact_match_spec_witness:
  "\<exists>db c cd m. sample_graph db c cd m \<and> exact_match (Some 0) (q_pairs (adds newQuery [(1, [72])])) db = (db, Inr False)"
proof -
  obtain db c cd m where g: "sample_graph db c cd m" using sample_graph by blast
  have q: "q_pairs (adds newQuery [(1, [72])]) = [(1, Some [72])]"
    using q_adds_pairs [OF newQuery_inv(1), of "[(1, [72])]"] newQuery_inv(2) by (simp add: trim_def is_space_def)
  have "attribute_text db c 1 = None" using sample_graph_parts(4) [OF g] by (simp add: attribute_text_def)
  then show ?thesis
    using exact_match_spec [OF sample_graph_parts(8) [OF g], of "adds newQuery [(1, [72])]"] hashable_1 g unfolding q by auto
qed

text \<open>Property C19.
  The loop of \<open>index\<close> and of \<open>unindex\<close> over the key attributes.  With all of them present the query has their texts in the order of
  the names; when one of them is missing, \<open>Query.add\<close> is given \<open>null\<close> and the whole call fails with a \<open>TypeError\<close>.  The loop of
  \<open>unindex\<close>, with the flag \<open>False\<close>, changes nothing; that of \<open>index\<close>, with the flag \<open>True\<close>, gives the same outcome and enters in
  the dictionary the names up to the first missing attribute, that one included, a known name staying as it is, and it leaves the
  attributes of the indexed node alone.  The dictionary has room for the names and is not the state that is read.\<close>

theorem key_query_spec:
  assumes "holds_state db r c" "\<forall>k \<in> set ks. string_ok k" "enter \<Longrightarrow> dictionary_room (length ks) db d cd m \<and> d \<noteq> r"
  shows "\<exists>db'. key_query env enter (Some r) ks newQuery db =
       (db', if \<exists>k \<in> set ks. attribute_text db c (key_hash_of k) = None then Inl TypeError
             else Inr (adds newQuery (map (\<lambda>k. (key_hash_of k, the (attribute_text db c (key_hash_of k)))) ks)))
     \<and> holds_state db' r c \<and> attribute_text db' c = attribute_text db c
     \<and> (if enter then \<exists>cd' m'. dictionary_room 0 db' d cd' m' \<and> known_names db' m'
              = fold enter_name (asked_names (\<lambda>k. attribute_text db c (key_hash_of k) \<noteq> None) ks) (known_names db m)
        else db' = db)"
proof (cases enter)
  case True
  then show ?thesis using key_query_enter [OF assms(1,2), of d cd m env newQuery] assms(3) by (auto simp only: queried_def if_True)
next
  case False
  then show ?thesis using key_query_read [OF assms(1,2), of env newQuery] assms(1) by (simp add: queried_def del: key_query.simps)
qed

theorem key_query_spec_witness:
  "\<exists>db c cd m db' cd' m'. sample_graph db c cd m \<and> key_query blackhole_env False (Some 0) [[0]] newQuery db = (db, Inl TypeError)
     \<and> key_query blackhole_env True (Some 0) [[0]] newQuery db = (db', Inl TypeError)
     \<and> dictionary_room 0 db' 1 cd' m' \<and> known_names db' m' = enter_name [0] (known_names db m)"
proof -
  obtain db c cd m where g: "sample_graph db c cd m" using sample_graph by blast
  note p = sample_graph_parts [OF g]
  have t: "attribute_text db c (key_hash_of [0]) = None" using p(4) by (simp add: attribute_text_def)
  have d: "dictionary_room (length [[0 :: int]]) db 1 cd m \<and> (1 :: nat) \<noteq> 0" using p(5) by (simp add: dictionary_at_def)
  have s: "\<forall>k \<in> set [[0]]. string_ok k" using string_ok_0 by simp
  have f: "fold enter_name (asked_names (\<lambda>k. attribute_text db c (key_hash_of k) \<noteq> None) [[0]]) (known_names db m)
      = enter_name [0] (known_names db m)" by simp
  show ?thesis using key_query_spec [OF p(8) s, of False 1 cd m blackhole_env] key_query_spec [OF p(8) s, of True 1 cd m blackhole_env, OF d] t g
    unfolding f by (simp del: key_query.simps) blast
qed

lemma lock_loop_ends: "lock_loop l = Some True"
  by (cases l) (simp_all add: lock_loop.simps bool_compareAndSet_def)

lemma wait_lock_any: "wait_lock db = (db\<lparr>db_lock := True\<rparr>, Inr ())"
  by (simp add: wait_lock_def seqo_def get_db_def lock_loop_ends upd_db_def)

text \<open>Further fact.
  The lock of \<open>connect\<close> and \<open>disconnect\<close> locks nothing: both behave the same whether it is taken or free, and never wait.\<close>

theorem lock_has_no_effect:
  "lock_loop l = Some True \<and> connect env prefixBuf (db\<lparr>db_lock := l\<rparr>) = connect env prefixBuf db
     \<and> disconnect env (db\<lparr>db_lock := l\<rparr>) = disconnect env db"
  by (simp add: lock_loop_ends connect_def disconnect_def seqo_def wait_lock_any)

end
