(* ===== verification/JavaCollections.thy ===== *)
theory JavaCollections
  imports NodeIndex
begin

text \<open>
  The collections, strings and helpers of the Java runtime shim (\<open>java.lang\<close>, \<open>java.util\<close>), which are thin layers over
  objects and arrays of JavaScript, and inherit their ways: an object lists the keys that are array indexes first, in
  ascending order, and then the others in the order in which they came; a property that an object does not have is looked up in
  its prototype; the key \<open>__proto__\<close> is no ordinary key.
\<close>

subsection \<open>Objects as dictionaries\<close>

text \<open>The own properties of an object in the order of their creation; a key occurs once.\<close>

type_synonym 'v js_object = "(jsstring \<times> 'v) list"

text \<open>The canonical text of an integer below \<open>2 ^ 32 - 1\<close> is an array index.\<close>

definition key_index :: "jsstring \<Rightarrow> int option" where
  "key_index s =
     (if s \<noteq> [] \<and> list_all (\<lambda>c. 48 \<le> c \<and> c \<le> 57) s \<and> (hd s \<noteq> 48 \<or> s = [48]) then
        let n = foldl (\<lambda>n c. 10 * n + (c - 48)) 0 s in if n < 2 ^ 32 - 1 then Some n else None
      else None)"

definition own_keys :: "'v js_object \<Rightarrow> jsstring list" where
  "own_keys ob =
     (let ks = map fst ob
      in sort_key (\<lambda>k. the (key_index k)) (filter (\<lambda>k. key_index k \<noteq> None) ks) @ filter (\<lambda>k. key_index k = None) ks)"

definition has_own :: "jsstring \<Rightarrow> 'v js_object \<Rightarrow> bool" where
  "has_own k ob \<longleftrightarrow> k \<in> set (map fst ob)"

fun obj_set :: "jsstring \<Rightarrow> 'v \<Rightarrow> 'v js_object \<Rightarrow> 'v js_object" where
  "obj_set k v [] = [(k, v)]"
| "obj_set k v ((k', v') # ob) = (if k' = k then (k, v) # ob else (k', v') # obj_set k v ob)"

definition obj_delete :: "jsstring \<Rightarrow> 'v js_object \<Rightarrow> 'v js_object" where
  "obj_delete k ob = filter (\<lambda>(k', v). k' \<noteq> k) ob"

definition own_values :: "'v js_object \<Rightarrow> 'v list" where
  "own_values ob = map (\<lambda>k. the (map_of ob k)) (own_keys ob)"

text \<open>The properties that every object inherits.\<close>

definition PROTO :: jsstring where "PROTO = units ''__proto__''"

definition object_prototype :: "jsstring list" where
  "object_prototype = map units [''constructor'', ''__defineGetter__'', ''__defineSetter__'', ''hasOwnProperty'',
     ''__lookupGetter__'', ''__lookupSetter__'', ''isPrototypeOf'', ''propertyIsEnumerable'', ''toString'', ''valueOf'',
     ''toLocaleString'']"

subsection \<open>HashSet\<close>

text \<open>The values that are put into sets.\<close>

datatype js_prim = PUndefined | PNumber js_double | PString jsstring

fun prim_text :: "js_prim \<Rightarrow> jsstring" where
  "prim_text PUndefined = units ''undefined''"
| "prim_text (PNumber x) = number_text x"
| "prim_text (PString s) = s"

fun prim_truthy :: "js_prim \<Rightarrow> bool" where
  "prim_truthy PUndefined = False"
| "prim_truthy (PNumber x) = (x \<noteq> Finite 0 \<and> x \<noteq> NotANumber)"
| "prim_truthy (PString s) = (s \<noteq> [])"

type_synonym hash_set = "js_prim js_object"    \<comment> \<open>the field \<open>content\<close>\<close>

definition newHashSet :: hash_set where "newHashSet = []"

text \<open>A primitive value that is assigned to \<open>__proto__\<close> is ignored.\<close>

definition hs_add :: "js_prim \<Rightarrow> hash_set \<Rightarrow> hash_set" where
  "hs_add val content = (if prim_text val = PROTO then content else obj_set (prim_text val) val content)"

definition hs_clear :: "hash_set \<Rightarrow> hash_set" where
  "hs_clear content = []"

text \<open>\<open>hasOwnProperty\<close> is found in the content itself when it was added.\<close>

definition hs_contains :: "js_prim \<Rightarrow> hash_set \<Rightarrow> bool result" where
  "hs_contains val content =
     (if has_own (units ''hasOwnProperty'') content then Inl TypeError else Inr (has_own (prim_text val) content))"

definition hs_containsAll :: "hash_set \<Rightarrow> bool" where
  "hs_containsAll content = False"

text \<open>\<open>toArray\<close> of a set is its content object, which has no length.\<close>

datatype collection = SetOf hash_set | ListOf "js_prim list"

definition hs_addAll :: "collection \<Rightarrow> hash_set \<Rightarrow> bool \<times> hash_set" where
  "hs_addAll vals content =
     (case vals of SetOf s \<Rightarrow> (True, content) | ListOf tempArray \<Rightarrow> (True, fold hs_add tempArray content))"

definition hs_remove :: "js_prim \<Rightarrow> hash_set \<Rightarrow> bool \<times> hash_set" where
  "hs_remove val content =
     (let k = prim_text val;
          b = (case map_of content k of Some v \<Rightarrow> prim_truthy v | None \<Rightarrow> k \<in> set (PROTO # object_prototype))
      in (b, obj_delete k content))"

definition hs_removeAll :: "hash_set \<Rightarrow> bool" where
  "hs_removeAll content = False"

definition hs_size :: "hash_set \<Rightarrow> nat" where
  "hs_size content = length (own_keys content)"

definition hs_isEmpty :: "hash_set \<Rightarrow> bool" where
  "hs_isEmpty content \<longleftrightarrow> hs_size content = 0"

definition hs_toArray :: "hash_set \<Rightarrow> hash_set" where
  "hs_toArray content = content"

text \<open>The values that \<open>forEach\<close> calls its function on, in this order.\<close>

definition hs_forEach :: "hash_set \<Rightarrow> js_prim list" where
  "hs_forEach content = own_values content"

text \<open>A property of the content; \<open>Inl\<close> is the name of an inherited one.\<close>

definition hs_get :: "js_prim \<Rightarrow> hash_set \<Rightarrow> jsstring + js_prim" where
  "hs_get ix content =
     (let k = prim_text ix in
      case map_of content k of
        Some v \<Rightarrow> Inr v
      | None \<Rightarrow> if k \<in> set (PROTO # object_prototype) then Inl k else Inr PUndefined)"

subsection \<open>Iterators\<close>

text \<open>\<open>Itr\<close>, for a collection that is given by its methods \<open>size\<close> and \<open>get\<close>.\<close>

record itr =
  it_cursor :: nat
  it_lastRet :: int

definition newItr :: itr where "newItr = \<lparr>it_cursor = 0, it_lastRet = -1\<rparr>"

definition itr_hasNext :: "nat \<Rightarrow> itr \<Rightarrow> bool" where
  "itr_hasNext sz it \<longleftrightarrow> it_cursor it \<noteq> sz"

definition itr_next :: "(nat \<Rightarrow> 'v result) \<Rightarrow> itr \<Rightarrow> ('v \<times> itr) result" where
  "itr_next get it =
     (let i = it_cursor it in
      case get i of
        Inr v \<Rightarrow> Inr (v, \<lparr>it_cursor = i + 1, it_lastRet = int i\<rparr>)
      | Inl NoReturn \<Rightarrow> Inl NoReturn
      | Inl e \<Rightarrow> Inl (JsError ''no such element exception''))"

text \<open>The iterator of a set asks for the keys 0, 1 and so on.\<close>

definition hs_itr_next :: "hash_set \<Rightarrow> itr \<Rightarrow> ((jsstring + js_prim) \<times> itr) result" where
  "hs_itr_next content = itr_next (\<lambda>i. Inr (hs_get (PNumber (Finite (of_nat i))) content))"

subsection \<open>Lists\<close>

text \<open>\<open>AbstractList\<close>, \<open>ArrayList\<close> and \<open>LinkedList\<close>: an array; \<open>None\<close> is an undefined element.\<close>

type_synonym 'v js_list = "'v option list"

definition newList :: "'v js_list" where "newList = []"

text \<open>The start of a \<open>splice\<close>: a negative one counts from the end, and what is not a number is 0.\<close>

definition splice_start :: "int option \<Rightarrow> nat \<Rightarrow> nat" where
  "splice_start start n =
     (let s = (case start of None \<Rightarrow> 0 | Some s \<Rightarrow> s)
      in if s < 0 then nat (max (int n + s) 0) else min (nat s) n)"

text \<open>The first parameter is an index; a call with the collection alone leaves \<open>vals\<close> undefined.\<close>

definition al_addAll :: "'v js_list option \<Rightarrow> 'v js_list \<Rightarrow> (bool \<times> 'v js_list) result" where
  "al_addAll vals content =
     (case vals of None \<Rightarrow> Inl TypeError | Some tempArray \<Rightarrow> Inr (False, content @ tempArray))"

definition al_clear :: "'v js_list \<Rightarrow> 'v js_list" where
  "al_clear content = []"

definition al_poll :: "'v js_list \<Rightarrow> 'v option \<times> 'v js_list" where
  "al_poll content = (case content of [] \<Rightarrow> (None, []) | v # vs \<Rightarrow> (v, vs))"

text \<open>An element in the place of the index counts as a number; an object counts as 0.\<close>

definition al_remove :: "int option \<Rightarrow> 'v js_list \<Rightarrow> bool \<times> 'v js_list" where
  "al_remove indexOrElem content =
     (let i = splice_start indexOrElem (length content) in (True, take i content @ drop (i + 1) content))"

definition al_removeAll :: "'v js_list \<Rightarrow> bool \<times> 'v js_list" where
  "al_removeAll content = (True, [])"

definition al_toArray :: "'v js_list \<Rightarrow> 'v js_list" where
  "al_toArray content = content"

definition al_size :: "'v js_list \<Rightarrow> nat" where
  "al_size content = length content"

text \<open>With one argument the element is the parameter \<open>index\<close>, whose number is \<open>to_int\<close> of it.\<close>

definition al_add :: "('v \<Rightarrow> int option) \<Rightarrow> 'v option \<Rightarrow> 'v option \<Rightarrow> 'v js_list \<Rightarrow> 'v js_list" where
  "al_add to_int index elem content =
     (case elem of
        Some e \<Rightarrow> let i = splice_start (Option.bind index to_int) (length content) in take i content @ [Some e] @ drop i content
      | None \<Rightarrow> content @ [index])"

text \<open>The index of \<open>get\<close> and \<open>set\<close> is not negative (another one would be an ordinary property of the array).\<close>

definition al_get :: "nat \<Rightarrow> 'v js_list \<Rightarrow> 'v option" where
  "al_get index content = (if index < length content then content ! index else None)"

definition al_set :: "nat \<Rightarrow> 'v option \<Rightarrow> 'v js_list \<Rightarrow> 'v option \<times> 'v js_list" where
  "al_set index element content =
     (element, if index < length content then content[index := element]
               else content @ replicate (index - length content) None @ [element])"

definition al_indexOf :: "'v \<Rightarrow> 'v js_list \<Rightarrow> int" where
  "al_indexOf element content =
     (case find (\<lambda>i. content ! i = Some element) [0..<length content] of None \<Rightarrow> -1 | Some i \<Rightarrow> int i)"

definition al_lastIndexOf :: "'v \<Rightarrow> 'v js_list \<Rightarrow> int" where
  "al_lastIndexOf element content =
     (case find (\<lambda>i. content ! i = Some element) (rev [0..<length content]) of None \<Rightarrow> -1 | Some i \<Rightarrow> int i)"

definition al_contains :: "'v \<Rightarrow> 'v js_list \<Rightarrow> bool" where
  "al_contains val content \<longleftrightarrow> al_indexOf val content \<noteq> -1"

definition al_containsAll :: "'v js_list \<Rightarrow> bool" where
  "al_containsAll content = False"

definition al_isEmpty :: "'v js_list \<Rightarrow> bool" where
  "al_isEmpty content \<longleftrightarrow> length content = 0"

text \<open>\<open>Collections.swap\<close>: \<open>set\<close> returns the new element, not the old one.\<close>

definition swap :: "nat \<Rightarrow> nat \<Rightarrow> 'v js_list \<Rightarrow> 'v js_list" where
  "swap i j l = (let (y, l) = al_set j (al_get i l) l in snd (al_set i y l))"

text \<open>\<open>Arrays\<close>\<close>

definition arrays_fill :: "nat \<Rightarrow> nat \<Rightarrow> 'v \<Rightarrow> 'v js_list \<Rightarrow> 'v js_list" where
  "arrays_fill begin' nbElem param data = fold (\<lambda>i data. wr_js data (Some (int i)) param) [begin'..<begin' + nbElem] data"

definition arrays_copyOf :: "'v js_list \<Rightarrow> nat \<Rightarrow> 'v js_list" where
  "arrays_copyOf original newLength =
     arraycopy None original 0 (replicate newLength None) 0 (min (length original) newLength)"

text \<open>\<open>Stack\<close>\<close>

definition st_pop :: "'v list \<Rightarrow> 'v option \<times> 'v list" where
  "st_pop content = (if content = [] then (None, []) else (Some (last content), butlast content))"

definition st_push :: "'v \<Rightarrow> 'v list \<Rightarrow> 'v list" where
  "st_push t content = content @ [t]"

definition st_isEmpty :: "'v list \<Rightarrow> bool" where
  "st_isEmpty content \<longleftrightarrow> length content = 0"

definition st_peek :: "'v list \<Rightarrow> 'v option" where
  "st_peek content = (if content = [] then None else Some (last content))"

subsection \<open>HashMap\<close>

text \<open>
  The entries are properties of the map object itself, next to the methods of the prototype: a key with the name of
  a method reads as that method until it is put, and then hides it.  The key \<open>__proto__\<close> is not followed.
\<close>

type_synonym 'v hash_map = "'v js_object"

datatype 'v js_prop = Undefined | Own 'v | Inherited jsstring

definition map_prototype :: "jsstring list" where
  "map_prototype = map units [''get'', ''put'', ''containsKey'', ''remove'', ''keySet'', ''isEmpty'', ''values'', ''clear'', ''size'']
     @ object_prototype"

definition newHashMap :: "'v hash_map" where "newHashMap = []"

text \<open>A call of the method of this name.\<close>

definition call_method :: "string \<Rightarrow> 'v hash_map \<Rightarrow> 'a result \<Rightarrow> 'a result" where
  "call_method name m r = (if has_own (units name) m then Inl TypeError else r)"

definition hm_read :: "jsstring \<Rightarrow> 'v hash_map \<Rightarrow> 'v js_prop result" where
  "hm_read key m =
     (if key = PROTO then Inl not_followed
      else Inr (case map_of m key of
        Some v \<Rightarrow> Own v
      | None \<Rightarrow> if key \<in> set map_prototype then Inherited key else Undefined))"

definition hm_get :: "jsstring \<Rightarrow> 'v hash_map \<Rightarrow> 'v js_prop result" where
  "hm_get key m = call_method ''get'' m (hm_read key m)"

definition hm_put :: "jsstring \<Rightarrow> 'v \<Rightarrow> 'v hash_map \<Rightarrow> ('v js_prop \<times> 'v hash_map) result" where
  "hm_put key val m = call_method ''put'' m (bindr (hm_read key m) (\<lambda>previous_val. Inr (previous_val, obj_set key val m)))"

definition hm_containsKey :: "jsstring \<Rightarrow> 'v hash_map \<Rightarrow> bool result" where
  "hm_containsKey key m = call_method ''containsKey'' m (call_method ''hasOwnProperty'' m (Inr (has_own key m)))"

definition hm_remove :: "jsstring \<Rightarrow> 'v hash_map \<Rightarrow> ('v js_prop \<times> 'v hash_map) result" where
  "hm_remove key m = call_method ''remove'' m (bindr (hm_read key m) (\<lambda>tmp. Inr (tmp, obj_delete key m)))"

definition hm_keySet :: "'v hash_map \<Rightarrow> hash_set result" where
  "hm_keySet m = call_method ''keySet'' m (call_method ''hasOwnProperty'' m (Inr (fold (\<lambda>p. hs_add (PString p)) (own_keys m) newHashSet)))"

definition hm_isEmpty :: "'v hash_map \<Rightarrow> bool result" where
  "hm_isEmpty m = call_method ''isEmpty'' m (Inr (length (own_keys m) = 0))"

definition hm_values :: "('v \<Rightarrow> js_prim) \<Rightarrow> 'v hash_map \<Rightarrow> hash_set result" where
  "hm_values prim m =
     call_method ''values'' m (call_method ''hasOwnProperty'' m (Inr (fold (\<lambda>v. hs_add (prim v)) (own_values m) newHashSet)))"

definition hm_clear :: "'v hash_map \<Rightarrow> 'v hash_map result" where
  "hm_clear m = call_method ''clear'' m (call_method ''hasOwnProperty'' m (Inr (fold obj_delete (own_keys m) m)))"

definition hm_size :: "'v hash_map \<Rightarrow> nat result" where
  "hm_size m = call_method ''size'' m (Inr (length (own_keys m)))"

subsection \<open>Strings\<close>

text \<open>\<open>slice\<close>, where a negative position counts from the end.\<close>

definition slice_pos :: "int \<Rightarrow> nat \<Rightarrow> nat" where
  "slice_pos p n = (if p < 0 then nat (max (int n + p) 0) else min (nat p) n)"

definition js_slice :: "jsstring \<Rightarrow> int \<Rightarrow> int \<Rightarrow> jsstring" where
  "js_slice s a b = (let a = slice_pos a (length s); b = slice_pos b (length s) in take (b - a) (drop a s))"

record string_builder =
  sb_buffer :: jsstring
  sb_length :: nat

definition newStringBuilder :: string_builder where
  "newStringBuilder = \<lparr>sb_buffer = [], sb_length = 0\<rparr>"

definition sb_append :: "jsstring \<Rightarrow> string_builder \<Rightarrow> string_builder" where
  "sb_append val b = (let buffer = sb_buffer b @ val in \<lparr>sb_buffer = buffer, sb_length = length buffer\<rparr>)"

text \<open>\<open>insert\<close> leaves \<open>length\<close> as it was.\<close>

definition sb_insert :: "int \<Rightarrow> jsstring \<Rightarrow> string_builder \<Rightarrow> string_builder" where
  "sb_insert position val b =
     (let s = sb_buffer b; n = int (length s)
      in b\<lparr>sb_buffer := js_slice s 0 position @ val @ js_slice s position n\<rparr>)"

definition sb_toString :: "string_builder \<Rightarrow> jsstring" where
  "sb_toString b = sb_buffer b"

definition string_valueOf :: "jsstring \<Rightarrow> (int \<times> int) option \<Rightarrow> jsstring" where
  "string_valueOf data part = (case part of None \<Rightarrow> data | Some (offset, n) \<Rightarrow> js_slice data offset (offset + n))"

text \<open>\<open>hashCode\<close>: a double that is not reduced; a string keeps no property, so the hash is computed again at every call.\<close>

fun d_times31 :: "dnum \<Rightarrow> dnum" where
  "d_times31 (DFin x) = to_dnum (31 * x)"
| "d_times31 (DInf s) = DInf s"
| "d_times31 DNaN = DNaN"

definition string_hashCode :: "jsstring \<Rightarrow> dnum" where
  "string_hashCode str = foldl (\<lambda>h c. d_add (d_times31 h) (DFin c)) (DFin 0) str"

definition string_isEmpty :: "jsstring \<Rightarrow> bool" where
  "string_isEmpty str \<longleftrightarrow> length str = 0"

fun string_join :: "jsstring \<Rightarrow> jsstring list \<Rightarrow> jsstring" where
  "string_join delimiter [] = []"
| "string_join delimiter [x] = x"
| "string_join delimiter (x # xs) = x @ delimiter @ string_join delimiter xs"

end
