(* ===== verification/Task.thy ===== *)
theory Task
  imports CoreGraph JavaCollections
begin

text \<open>
  Tasks: a \<open>CoreTask\<close> is an array of actions, and an execution of it is a \<open>CoreTaskContext\<close>, with the result of every action, a
  world, a time and variables.  This theory has the values, the tasks and how they are built and parsed, and the contexts;
  \<open>TaskRun\<close> has the actions and their execution.

  Functions of the user are named by numbers, and what they do is given by the environment \<open>task_env\<close>; so is \<open>RegExp\<close>.  A list or
  another object with an iterator is no value here; values printed into error messages are left out.
\<close>

subsection \<open>Values, actions and states\<close>

text \<open>The values of results and variables; \<open>TNull\<close> is null or undefined, and \<open>TMethod\<close> a method of the prototype of maps.\<close>

datatype task_value =
    TNull
  | TElem elem
  | TNode nat
  | TContext nat
  | TMethod jsstring
  | TArray "task_value list"

text \<open>The functions that are wrapped in an action with protection (\<open>then\<close>), and those without.\<close>

datatype task_function =
    UserFunction nat
  | ForeachThen nat         \<comment> \<open>the closure of \<open>foreachThen\<close>\<close>

datatype task_callback =
    UserAsync nat
  | ExecuteThen nat         \<comment> \<open>the closure of \<open>executeThen\<close>\<close>
  | ResultTo nat            \<comment> \<open>the closure of \<open>ActionIfThen\<close> and \<open>ActionTrigger\<close>, with their context\<close>
  | ForeachNext nat         \<comment> \<open>\<open>recursiveAction[0]\<close> of \<open>ActionForeach\<close>, with the variables of the call\<close>
  | ForeachParNext nat      \<comment> \<open>the closure of \<open>ActionForeachPar\<close>\<close>

datatype task_action =
    ActionAsVar jsstring
  | ActionForeach nat
  | ActionForeachPar nat
  | ActionFrom task_value
  | ActionFromIndex jsstring jsstring
  | ActionFromIndexAll jsstring
  | ActionFromVar jsstring
  | ActionIfThen nat nat
  | ActionMap nat
  | ActionNoop
  | ActionSave
  | ActionSelect nat
  | ActionTime int
  | ActionTraverse jsstring
  | ActionTraverseIndex jsstring "jsstring option"
  | ActionTraverseOrKeep jsstring
  | ActionTrigger nat
  | ActionWhileDo nat nat
  | ActionWith jsstring jsstring
  | ActionWithout jsstring jsstring
  | ActionWorld int
  | ActionThen task_function          \<comment> \<open>\<open>ActionWrapper\<close> with \<open>_syncProtection\<close>\<close>
  | ActionThenAsync task_callback     \<comment> \<open>\<open>ActionWrapper\<close> without it\<close>
  | ActionClean                       \<comment> \<open>the last action of an execution\<close>

datatype action_factory =
    TraverseFactory
  | TraverseOrKeepFactory
  | FromIndexAllFactory
  | FromIndexFactory
  | WithFactory
  | WithoutFactory
  | UserFactory nat

record core_task =
  ct_actions :: "task_action option list"
  ct_actionCursor :: nat

record task_context =
  tc_world :: int
  tc_time :: int
  tc_parentContext :: "nat option"
  tc_initialResult :: task_value
  tc_variables :: "task_value hash_map"
  tc_results :: "task_value list"
  tc_actions :: "task_action list"
  tc_currentTaskId :: int

text \<open>The variables that the closures of one call of \<open>ActionForeach\<close> or \<open>ActionForeachPar\<close> share.\<close>

record foreach_loop =
  fl_context :: nat
  fl_subTask :: nat
  fl_castedResult :: "task_value list"
  fl_cursor :: int
  fl_results :: "task_value list"
  fl_counter :: defer_counter
  fl_finalI :: nat

record task_state =
  ts_db :: mwdb
  ts_registry :: "action_factory hash_map"
  ts_tasks :: "core_task list"
  ts_contexts :: "task_context list"
  ts_loops :: "foreach_loop list"

subsection \<open>Programs over the state\<close>

type_synonym 'a top = "task_state \<Rightarrow> task_state \<times> 'a result"

definition tret :: "'a \<Rightarrow> 'a top" where
  "tret a s = (s, Inr a)"

definition tthrow :: "js_error \<Rightarrow> 'a top" where
  "tthrow e s = (s, Inl e)"

definition tseq :: "'a top \<Rightarrow> ('a \<Rightarrow> 'b top) \<Rightarrow> 'b top" where
  "tseq m f s = (case m s of (s, Inl e) \<Rightarrow> (s, Inl e) | (s, Inr a) \<Rightarrow> f a s)"

definition tresult :: "'a result \<Rightarrow> 'a top" where
  "tresult r s = (s, r)"

definition tget :: "(task_state \<Rightarrow> 'a) \<Rightarrow> 'a top" where
  "tget f s = (s, Inr (f s))"

definition tupd :: "(task_state \<Rightarrow> task_state) \<Rightarrow> unit top" where
  "tupd f s = (f s, Inr ())"

definition on_db :: "'a op \<Rightarrow> 'a top" where
  "on_db m s = (case m (ts_db s) of (db, r) \<Rightarrow> (s\<lparr>ts_db := db\<rparr>, r))"

lemma tseq_simps [simp]:
  "tseq (tret a) f = f a"
  "tseq (tthrow e) k = tthrow e"
  "tseq (tresult (Inr b)) g = g b"
  "tseq (tresult (Inl e)) l = tthrow e"
  "tseq (tget h) m s = m (h s) s"
  "tseq (tupd u) n s = n () (u s)"
  by (simp_all add: fun_eq_iff tseq_def tret_def tthrow_def tresult_def tget_def tupd_def)

text \<open>What the user and the language bring: the functions by their numbers, and \<open>RegExp\<close>, undefined on a text that is no pattern.\<close>

record task_env =
  te_graph :: graph_env
  te_regexp :: "jsstring \<Rightarrow> (jsstring \<Rightarrow> bool) option"
  te_filter :: "nat \<Rightarrow> nat \<Rightarrow> bool op"
  te_map :: "nat \<Rightarrow> nat \<Rightarrow> task_value op"
  te_cond :: "nat \<Rightarrow> nat \<Rightarrow> bool top"
  te_then :: "nat \<Rightarrow> nat \<Rightarrow> unit top"
  te_async :: "nat \<Rightarrow> nat \<Rightarrow> bool top"             \<comment> \<open>whether it calls \<open>next\<close>, as its last call\<close>
  te_value :: "nat \<Rightarrow> task_value \<Rightarrow> unit top"
  te_factory :: "nat \<Rightarrow> jsstring list \<Rightarrow> task_action top"

subsection \<open>Building tasks\<close>

definition newTask :: "nat top" where
  "newTask = tseq (tget (\<lambda>s. length (ts_tasks s))) (\<lambda>t.
     tseq (tupd (\<lambda>s. s\<lparr>ts_tasks := ts_tasks s @ [\<lparr>ct_actions = replicate 10 None, ct_actionCursor = 0\<rparr>]\<rparr>)) (\<lambda>_. tret t))"

definition add_action :: "task_action \<Rightarrow> core_task \<Rightarrow> core_task" where
  "add_action task t =
     (let t = (if ct_actionCursor t = length (ct_actions t) then
                 let temp_actions = replicate (length (ct_actions t) * 2) None
                 in t\<lparr>ct_actions := arraycopy None (ct_actions t) 0 temp_actions 0 (length (ct_actions t))\<rparr>
               else t)
      in t\<lparr>ct_actions := (ct_actions t)[ct_actionCursor t := Some task], ct_actionCursor := ct_actionCursor t + 1\<rparr>)"

text \<open>A method that adds an action and returns the task.\<close>

definition with_action :: "nat \<Rightarrow> task_action \<Rightarrow> nat top" where
  "with_action t a = tseq (tupd (\<lambda>s. s\<lparr>ts_tasks := (ts_tasks s)[t := add_action a (ts_tasks s ! t)]\<rparr>)) (\<lambda>_. tret t)"

text \<open>\<open>protect\<close> clones the nodes in a value.\<close>

fun protect :: "task_value \<Rightarrow> task_value op" and protect_all :: "task_value list \<Rightarrow> task_value list op" where
  "protect (TNode n) = seqo (cloneNode n) (\<lambda>m. ret (TNode m))"
| "protect (TArray vs) = seqo (protect_all vs) (\<lambda>vs. ret (TArray vs))"
| "protect v = ret v"
| "protect_all [] = ret []"
| "protect_all (v # vs) = seqo (protect v) (\<lambda>v. seqo (protect_all vs) (\<lambda>vs. ret (v # vs)))"

definition not_implemented :: "'a top" where
  "not_implemented = tthrow (JsError ''Not implemented yet'')"

definition task_world :: "nat \<Rightarrow> int \<Rightarrow> nat top" where
  "task_world t world = with_action t (ActionWorld world)"

definition task_time :: "nat \<Rightarrow> int \<Rightarrow> nat top" where
  "task_time t time = with_action t (ActionTime time)"

definition task_fromIndex :: "nat \<Rightarrow> jsstring \<Rightarrow> jsstring \<Rightarrow> nat top" where
  "task_fromIndex t indexName query = with_action t (ActionFromIndex indexName query)"

definition task_fromIndexAll :: "nat \<Rightarrow> jsstring \<Rightarrow> nat top" where
  "task_fromIndexAll t indexName = with_action t (ActionFromIndexAll indexName)"

text \<open>\<open>new RegExp\<close> of the pattern, before the action is made.\<close>

definition check_regexp :: "task_env \<Rightarrow> jsstring \<Rightarrow> unit top" where
  "check_regexp te pattern = (case te_regexp te pattern of None \<Rightarrow> tthrow (JsError ''SyntaxError'') | Some _ \<Rightarrow> tret ())"

definition task_selectWith :: "task_env \<Rightarrow> nat \<Rightarrow> jsstring \<Rightarrow> jsstring \<Rightarrow> nat top" where
  "task_selectWith te t name pattern = tseq (check_regexp te pattern) (\<lambda>_. with_action t (ActionWith name pattern))"

definition task_selectWithout :: "task_env \<Rightarrow> nat \<Rightarrow> jsstring \<Rightarrow> jsstring \<Rightarrow> nat top" where
  "task_selectWithout te t name pattern = tseq (check_regexp te pattern) (\<lambda>_. with_action t (ActionWithout name pattern))"

definition task_asVar :: "nat \<Rightarrow> jsstring \<Rightarrow> nat top" where
  "task_asVar t variableName = with_action t (ActionAsVar variableName)"

definition task_fromVar :: "nat \<Rightarrow> jsstring \<Rightarrow> nat top" where
  "task_fromVar t variableName = with_action t (ActionFromVar variableName)"

definition task_select :: "nat \<Rightarrow> nat \<Rightarrow> nat top" where
  "task_select t filter' = with_action t (ActionSelect filter')"

definition task_selectWhere :: "nat \<Rightarrow> nat \<Rightarrow> nat top" where
  "task_selectWhere t subTask = not_implemented"

definition task_traverse :: "nat \<Rightarrow> jsstring \<Rightarrow> nat top" where
  "task_traverse t relationName = with_action t (ActionTraverse relationName)"

definition task_traverseOrKeep :: "nat \<Rightarrow> jsstring \<Rightarrow> nat top" where
  "task_traverseOrKeep t relationName = with_action t (ActionTraverseOrKeep relationName)"

definition task_traverseIndex :: "nat \<Rightarrow> jsstring \<Rightarrow> jsstring \<Rightarrow> nat top" where
  "task_traverseIndex t indexName query = with_action t (ActionTraverseIndex indexName (Some query))"

definition task_traverseIndexAll :: "nat \<Rightarrow> jsstring \<Rightarrow> nat top" where
  "task_traverseIndexAll t indexName = with_action t (ActionTraverseIndex indexName None)"

definition task_map :: "nat \<Rightarrow> nat \<Rightarrow> nat top" where
  "task_map t mapFunction = with_action t (ActionMap mapFunction)"

definition task_flatMap :: "nat \<Rightarrow> nat \<Rightarrow> nat top" where
  "task_flatMap t flatMapFunction = not_implemented"

definition task_group :: "nat \<Rightarrow> nat \<Rightarrow> nat top" where
  "task_group t groupFunction = not_implemented"

definition task_groupWhere :: "nat \<Rightarrow> nat \<Rightarrow> nat top" where
  "task_groupWhere t groupSubTask = not_implemented"

definition task_from :: "nat \<Rightarrow> task_value \<Rightarrow> nat top" where
  "task_from t inputValue = tseq (on_db (protect inputValue)) (\<lambda>v. with_action t (ActionFrom v))"

definition task_wait :: "nat \<Rightarrow> nat \<Rightarrow> nat top" where
  "task_wait t subTask = with_action t (ActionTrigger subTask)"

definition task_ifThen :: "nat \<Rightarrow> nat \<Rightarrow> nat \<Rightarrow> nat top" where
  "task_ifThen t cond then' = with_action t (ActionIfThen cond then')"

definition task_whileDo :: "nat \<Rightarrow> nat \<Rightarrow> nat \<Rightarrow> nat top" where
  "task_whileDo t cond then' = not_implemented"

definition task_then :: "nat \<Rightarrow> nat \<Rightarrow> nat top" where
  "task_then t p_action = with_action t (ActionThen (UserFunction p_action))"

definition task_thenAsync :: "nat \<Rightarrow> nat \<Rightarrow> nat top" where
  "task_thenAsync t p_action = with_action t (ActionThenAsync (UserAsync p_action))"

definition task_foreach :: "nat \<Rightarrow> nat \<Rightarrow> nat top" where
  "task_foreach t subTask = with_action t (ActionForeach subTask)"

definition task_foreachPar :: "nat \<Rightarrow> nat \<Rightarrow> nat top" where
  "task_foreachPar t subTask = with_action t (ActionForeachPar subTask)"

definition task_foreachThen :: "nat \<Rightarrow> nat \<Rightarrow> nat top" where
  "task_foreachThen t action =
     tseq newTask (\<lambda>task. tseq (with_action task (ActionThen (ForeachThen action))) (\<lambda>task. task_foreach t task))"

definition task_save :: "nat \<Rightarrow> nat top" where
  "task_save t = with_action t ActionSave"

subsection \<open>Actions by name\<close>

text \<open>\<open>CoreTaskActionRegistry\<close>\<close>

definition registry_add :: "jsstring \<Rightarrow> action_factory \<Rightarrow> action_factory hash_map \<Rightarrow> action_factory hash_map result" where
  "registry_add name action r = bindr (hm_put name action r) (\<lambda>(_, r). Inr r)"

definition registry_remove :: "jsstring \<Rightarrow> action_factory hash_map \<Rightarrow> action_factory hash_map result" where
  "registry_remove name r = bindr (hm_remove name r) (\<lambda>(_, r). Inr r)"

definition registry_get :: "jsstring \<Rightarrow> action_factory hash_map \<Rightarrow> action_factory js_prop result" where
  "registry_get name r = hm_get name r"

definition newRegistry :: "action_factory hash_map result" where
  "newRegistry =
     foldl (\<lambda>r (name, f). bindr r (registry_add (units name) f)) (Inr newHashMap)
       [(''traverse'', TraverseFactory), (''traverseOrKeep'', TraverseOrKeepFactory), (''fromIndexAll'', FromIndexAllFactory),
        (''fromIndex'', FromIndexFactory), (''with'', WithFactory), (''without'', WithoutFactory)]"

definition need_params :: "nat \<Rightarrow> string \<Rightarrow> jsstring list \<Rightarrow> task_action top \<Rightarrow> task_action top" where
  "need_params n message params action = (if length params \<noteq> n then tthrow (JsError message) else action)"

definition make_action :: "task_env \<Rightarrow> action_factory \<Rightarrow> jsstring list \<Rightarrow> task_action top" where
  "make_action te f params =
     (case f of
        TraverseFactory \<Rightarrow> need_params 1 ''traverse action need one parameter'' params (tret (ActionTraverse (params ! 0)))
      | TraverseOrKeepFactory \<Rightarrow>
          need_params 1 ''traverseOrKeep action need one parameter'' params (tret (ActionTraverseOrKeep (params ! 0)))
      | FromIndexAllFactory \<Rightarrow>
          need_params 1 ''fromIndexAll action need one parameter'' params (tret (ActionFromIndexAll (params ! 0)))
      | FromIndexFactory \<Rightarrow>
          need_params 2 ''fromIndex action need two parameter'' params (tret (ActionFromIndex (params ! 0) (params ! 1)))
      | WithFactory \<Rightarrow> need_params 2 ''with action need two parameter'' params
          (tseq (check_regexp te (params ! 1)) (\<lambda>_. tret (ActionWith (params ! 0) (params ! 1))))
      | WithoutFactory \<Rightarrow> need_params 2 ''without action need two parameter'' params
          (tseq (check_regexp te (params ! 1)) (\<lambda>_. tret (ActionWithout (params ! 0) (params ! 1))))
      | UserFactory k \<Rightarrow> te_factory te k params)"

text \<open>The parameters between the commas, without the empty ones; the array of the code has room to grow.\<close>

definition add_param :: "jsstring \<Rightarrow> jsstring list \<Rightarrow> jsstring list" where
  "add_param param params = (if length param > 0 then params @ [param] else params)"

function params_loop :: "jsstring \<Rightarrow> nat \<Rightarrow> nat \<Rightarrow> jsstring list \<Rightarrow> jsstring list" where
  "params_loop flatParams cursor previous params =
     (if cursor < length flatParams then
        if flatParams ! cursor = QUERY_SEP then
          params_loop flatParams (cursor + 1) (cursor + 1) (add_param (substring flatParams previous cursor) params)
        else params_loop flatParams (cursor + 1) previous params
      else add_param (substring flatParams previous cursor) params)"
  by pat_completeness auto
termination by (relation "measure (\<lambda>(flatParams, cursor, _). length flatParams - cursor)") auto

declare params_loop.simps [simp del]

definition add_named :: "task_env \<Rightarrow> nat \<Rightarrow> jsstring option \<Rightarrow> jsstring list \<Rightarrow> nat top" where
  "add_named te t name params =
     tseq (tget ts_registry) (\<lambda>r. tseq (tresult (registry_get (case name of None \<Rightarrow> units ''null'' | Some n \<Rightarrow> n) r)) (\<lambda>actionFactory.
       case actionFactory of
         Undefined \<Rightarrow> tthrow (JsError ''Unknown task action: '')
       | Inherited _ \<Rightarrow> tthrow not_followed
       | Own f \<Rightarrow> tseq (make_action te f params) (with_action t)))"

definition task_action_named :: "task_env \<Rightarrow> nat \<Rightarrow> jsstring option \<Rightarrow> jsstring \<Rightarrow> nat top" where
  "task_action_named te t name flatParams = add_named te t name (params_loop flatParams 0 0 [])"

definition TASK_SEP :: int where "TASK_SEP = 46"
definition TASK_PARAM_OPEN :: int where "TASK_PARAM_OPEN = 40"
definition TASK_PARAM_CLOSE :: int where "TASK_PARAM_CLOSE = 41"

function task_parse_loop :: "task_env \<Rightarrow> nat \<Rightarrow> jsstring \<Rightarrow> nat \<Rightarrow> nat \<Rightarrow> jsstring option \<Rightarrow> unit top" where
  "task_parse_loop te t flat cursor previous actionName =
     (if cursor < length flat then
        if flat ! cursor = TASK_SEP then task_parse_loop te t flat (cursor + 1) (cursor + 1) None
        else if flat ! cursor = TASK_PARAM_OPEN then
          task_parse_loop te t flat (cursor + 1) (cursor + 1) (Some (substring flat previous cursor))
        else if flat ! cursor = TASK_PARAM_CLOSE then
          tseq (task_action_named te t actionName (substring flat previous cursor)) (\<lambda>_.
            task_parse_loop te t flat (cursor + 1) (cursor + 1) None)
        else task_parse_loop te t flat (cursor + 1) previous actionName
      else tret ())"
  by pat_completeness auto
termination by (relation "measure (\<lambda>(te, t, flat, cursor, _). length flat - cursor)") auto

declare task_parse_loop.simps [simp del]

definition task_parse :: "task_env \<Rightarrow> nat \<Rightarrow> jsstring \<Rightarrow> nat top" where
  "task_parse te t flat = tseq (task_parse_loop te t flat 0 0 None) (\<lambda>_. tret t)"

subsection \<open>Contexts\<close>

definition the_context :: "nat \<Rightarrow> task_context top" where
  "the_context c = tget (\<lambda>s. ts_contexts s ! c)"

definition upd_context :: "nat \<Rightarrow> (task_context \<Rightarrow> task_context) \<Rightarrow> unit top" where
  "upd_context c f = tupd (\<lambda>s. s\<lparr>ts_contexts := (ts_contexts s)[c := f (ts_contexts s ! c)]\<rparr>)"

definition newContext :: "nat option \<Rightarrow> task_value \<Rightarrow> task_action list \<Rightarrow> nat top" where
  "newContext p_parentContext p_initialResult p_actions =
     tseq (tget (\<lambda>s. length (ts_contexts s))) (\<lambda>c.
     tseq (tupd (\<lambda>s. s\<lparr>ts_contexts := ts_contexts s @
       [\<lparr>tc_world = 0, tc_time = 0, tc_parentContext = p_parentContext, tc_initialResult = p_initialResult,
         tc_variables = newHashMap, tc_results = replicate (length p_actions) TNull, tc_actions = p_actions,
         tc_currentTaskId = 0\<rparr>]\<rparr>)) (\<lambda>_. tret c))"

definition getWorld :: "nat \<Rightarrow> int top" where
  "getWorld c = tseq (the_context c) (\<lambda>x. tret (tc_world x))"

definition setWorld :: "nat \<Rightarrow> int \<Rightarrow> unit top" where
  "setWorld c p_world = upd_context c (\<lambda>x. x\<lparr>tc_world := p_world\<rparr>)"

definition getTime :: "nat \<Rightarrow> int top" where
  "getTime c = tseq (the_context c) (\<lambda>x. tret (tc_time x))"

definition setTime :: "nat \<Rightarrow> int \<Rightarrow> unit top" where
  "setTime c p_time = upd_context c (\<lambda>x. x\<lparr>tc_time := p_time\<rparr>)"

text \<open>
  Calls that go from context to context have fuel, the number of contexts: a longer run comes to a context again, and does
  not return.
\<close>

fun get_variable :: "nat \<Rightarrow> task_context list \<Rightarrow> nat \<Rightarrow> jsstring \<Rightarrow> task_value result" where
  "get_variable 0 cs c name = Inl NoReturn"
| "get_variable (Suc f) cs c name =
     bindr (hm_get name (tc_variables (cs ! c))) (\<lambda>res.
       case res of
         Own v \<Rightarrow> if v \<noteq> TNull then Inr v
                  else (case tc_parentContext (cs ! c) of None \<Rightarrow> Inr TNull | Some p \<Rightarrow> get_variable f cs p name)
       | Inherited m \<Rightarrow> Inr (TMethod m)
       | Undefined \<Rightarrow> (case tc_parentContext (cs ! c) of None \<Rightarrow> Inr TNull | Some p \<Rightarrow> get_variable f cs p name))"

definition getVariable :: "nat \<Rightarrow> jsstring \<Rightarrow> task_value top" where
  "getVariable c name = tseq (tget ts_contexts) (\<lambda>cs. tresult (get_variable (length cs) cs c name))"

definition getVariablesKeys :: "nat \<Rightarrow> jsstring list top" where
  "getVariablesKeys c = tseq (the_context c) (\<lambda>x. tresult (
     bindr (hm_size (tc_variables x)) (\<lambda>_. bindr (hm_keySet (tc_variables x)) (\<lambda>ks. Inr (map prim_text (hs_forEach ks))))))"

definition setVariable :: "nat \<Rightarrow> jsstring \<Rightarrow> task_value \<Rightarrow> unit top" where
  "setVariable c name val =
     tseq (the_context c) (\<lambda>x.
     tseq (tresult (if val \<noteq> TNull then hm_put name val (tc_variables x) else hm_remove name (tc_variables x))) (\<lambda>(_, m).
       upd_context c (\<lambda>x. x\<lparr>tc_variables := m\<rparr>)))"

definition addToVariable :: "nat \<Rightarrow> jsstring \<Rightarrow> task_value \<Rightarrow> unit top" where
  "addToVariable c name val =
     tseq (the_context c) (\<lambda>x. tseq (tresult (hm_get name (tc_variables x))) (\<lambda>res.
       let new = (case res of
                    Undefined \<Rightarrow> TArray [val]
                  | Own TNull \<Rightarrow> TArray [val]
                  | Own (TArray previous) \<Rightarrow> TArray (previous @ [val])
                  | Own v \<Rightarrow> TArray [v, val]
                  | Inherited m \<Rightarrow> TArray [TMethod m, val])
       in tseq (tresult (hm_put name new (tc_variables x))) (\<lambda>(_, m). upd_context c (\<lambda>x. x\<lparr>tc_variables := m\<rparr>))))"

definition merge_variable :: "nat \<Rightarrow> nat \<Rightarrow> jsstring \<Rightarrow> unit top" where
  "merge_variable c actionResult variableName = tseq (getVariable actionResult variableName) (setVariable c variableName)"

fun each :: "('a \<Rightarrow> unit top) \<Rightarrow> 'a list \<Rightarrow> unit top" where
  "each f [] = tret ()"
| "each f (x # xs) = tseq (f x) (\<lambda>_. each f xs)"

definition mergeVariables :: "nat \<Rightarrow> nat \<Rightarrow> unit top" where
  "mergeVariables c actionResult = tseq (getVariablesKeys actionResult) (each (merge_variable c actionResult))"

text \<open>\<open>arrayInstanceOf\<close> looks at the first element only.\<close>

fun context_array :: "task_value list \<Rightarrow> bool" where
  "context_array [] = True"
| "context_array (TContext c # vs) = True"
| "context_array (v # vs) = False"

fun merge_element :: "nat \<Rightarrow> task_value \<Rightarrow> unit top" where
  "merge_element c (TContext d) = mergeVariables c d"
| "merge_element c v = tthrow TypeError"

definition setResult :: "nat \<Rightarrow> task_value \<Rightarrow> unit top" where
  "setResult c actionResult =
     tseq (case actionResult of
             TContext d \<Rightarrow> mergeVariables c d
           | TArray vs \<Rightarrow> if context_array vs then each (merge_element c) vs else tret ()
           | _ \<Rightarrow> tret ()) (\<lambda>_.
     upd_context c (\<lambda>x. x\<lparr>tc_results := wr (tc_results x) (Some (tc_currentTaskId x)) actionResult\<rparr>))"

fun all_previous :: "(nat \<Rightarrow> task_value result) \<Rightarrow> task_value list \<Rightarrow> task_value list result" where
  "all_previous previous [] = Inr []"
| "all_previous previous (TContext c # vs) =
     bindr (previous c) (\<lambda>r. bindr (all_previous previous vs) (\<lambda>rs. Inr (if r \<noteq> TNull then r # rs else rs)))"
| "all_previous previous (v # vs) = Inl TypeError"

fun previous_result :: "nat \<Rightarrow> task_context list \<Rightarrow> nat \<Rightarrow> task_value result" where
  "previous_result 0 cs c = Inl NoReturn"
| "previous_result (Suc f) cs c =
     (let x = cs ! c in
      if tc_currentTaskId x = 0 then Inr (tc_initialResult x)
      else case rd (tc_results x) (Some (tc_currentTaskId x - 1)) of
        None \<Rightarrow> Inr TNull
      | Some (TContext d) \<Rightarrow> previous_result f cs d
      | Some (TArray vs) \<Rightarrow> if context_array vs then bindr (all_previous (previous_result f cs) vs) (\<lambda>rs. Inr (TArray rs))
                           else Inr (TArray vs)
      | Some v \<Rightarrow> Inr v)"

definition getPreviousResult :: "nat \<Rightarrow> task_value top" where
  "getPreviousResult c = tseq (tget ts_contexts) (\<lambda>cs. tresult (previous_result (length cs) cs c))"

subsection \<open>Cleaning\<close>

text \<open>\<open>clean\<close> frees the nodes of the initial result and of all results, also those of the contexts among them.\<close>

fun cleanObj :: "(nat \<Rightarrow> unit top) \<Rightarrow> task_value \<Rightarrow> unit top"
  and clean_elements :: "(nat \<Rightarrow> unit top) \<Rightarrow> task_value list \<Rightarrow> unit top" where
  "cleanObj clean (TNode n) = on_db (node_free n)"
| "cleanObj clean (TContext c) = clean c"
| "cleanObj clean (TArray vs) = clean_elements clean vs"
| "cleanObj clean v = tret ()"
| "clean_elements clean [] = tret ()"
| "clean_elements clean (v # vs) = tseq (cleanObj clean v) (\<lambda>_. clean_elements clean vs)"

definition clean_result :: "(nat \<Rightarrow> unit top) \<Rightarrow> nat \<Rightarrow> nat \<Rightarrow> unit top" where
  "clean_result clean c i =
     tseq (the_context c) (\<lambda>x. tseq (cleanObj clean (tc_results x ! i)) (\<lambda>_.
       upd_context c (\<lambda>x. x\<lparr>tc_results := (tc_results x)[i := TNull]\<rparr>)))"

fun clean_context :: "nat \<Rightarrow> nat \<Rightarrow> unit top" where
  "clean_context 0 c = tthrow NoReturn"
| "clean_context (Suc f) c =
     tseq (the_context c) (\<lambda>x.
     tseq (if tc_initialResult x \<noteq> TNull then
             tseq (cleanObj (clean_context f) (tc_initialResult x)) (\<lambda>_. upd_context c (\<lambda>x. x\<lparr>tc_initialResult := TNull\<rparr>))
           else tret ()) (\<lambda>_.
     each (clean_result (clean_context f) c) [0..<length (tc_results x)]))"

definition clean :: "nat \<Rightarrow> unit top" where
  "clean c = tseq (tget (\<lambda>s. length (ts_contexts s))) (\<lambda>f. clean_context f c)"

end
