(* ===== verification/TaskRun.thy ===== *)
theory TaskRun
  imports Task
begin

text \<open>
  The actions of tasks and their execution.  An action ends by calling \<open>next\<close> of its context, which evaluates the next action:
  everything that is left to do is a stack of frames, and \<open>run_frames\<close> takes one after the other.  A frame \<open>Catch\<close> is the end of
  the \<open>try\<close> block in which a lookup calls back: an error above it is logged, and the execution goes on below it.

  A run may go on for ever, as when a task is its own sub task; then \<open>run_frames\<close> is \<open>None\<close>.
\<close>

subsection \<open>Selecting and mapping\<close>

text \<open>
  \<open>filterArray\<close> of \<open>ActionSelect\<close> and of \<open>ActionMap\<close>, with the elements that were collected so far; an array that becomes empty is
  dropped.  The three ways in which the code copies the elements at the end give the same array.
\<close>

fun select_array :: "(nat \<Rightarrow> bool op) \<Rightarrow> task_value list \<Rightarrow> task_value list \<Rightarrow> task_value list op" where
  "select_array f [] filteredResult = ret filteredResult"
| "select_array f (TArray ys # xs) filteredResult =
     seqo (select_array f ys []) (\<lambda>filtered.
       select_array f xs (if length filtered > 0 then filteredResult @ [TArray filtered] else filteredResult))"
| "select_array f (TNode n # xs) filteredResult =
     seqo (f n) (\<lambda>b. select_array f xs (if b then filteredResult @ [TNode n] else filteredResult))"
| "select_array f (v # xs) filteredResult = select_array f xs (filteredResult @ [v])"

fun map_array :: "(nat \<Rightarrow> task_value op) \<Rightarrow> task_value list \<Rightarrow> task_value list \<Rightarrow> task_value list op" where
  "map_array f [] filteredResult = ret filteredResult"
| "map_array f (TArray ys # xs) filteredResult =
     seqo (map_array f ys []) (\<lambda>filtered.
       map_array f xs (if length filtered > 0 then filteredResult @ [TArray filtered] else filteredResult))"
| "map_array f (TNode n # xs) filteredResult = seqo (f n) (\<lambda>v. map_array f xs (filteredResult @ [v]))"
| "map_array f (v # xs) filteredResult = map_array f xs (filteredResult @ [v])"

text \<open>The filters of \<open>ActionWith\<close> and \<open>ActionWithout\<close>.\<close>

definition pattern_test :: "task_env \<Rightarrow> jsstring \<Rightarrow> elem \<Rightarrow> bool" where
  "pattern_test te pattern e = (case te_regexp te pattern of None \<Rightarrow> False | Some test \<Rightarrow> test (elem_text e))"

definition with_filter :: "task_env \<Rightarrow> jsstring \<Rightarrow> jsstring \<Rightarrow> nat \<Rightarrow> bool op" where
  "with_filter te name pattern n =
     seqo (node_get (te_graph te) n name) (\<lambda>currentName.
       ret (case currentName of None \<Rightarrow> False | Some e \<Rightarrow> pattern_test te pattern e))"

definition without_filter :: "task_env \<Rightarrow> jsstring \<Rightarrow> jsstring \<Rightarrow> nat \<Rightarrow> bool op" where
  "without_filter te name pattern n =
     seqo (node_get (te_graph te) n name) (\<lambda>currentName.
       ret (case currentName of None \<Rightarrow> True | Some e \<Rightarrow> \<not> pattern_test te pattern e))"

text \<open>The result of a selection or a mapping; for \<open>null\<close> no result is set.\<close>

definition select_result :: "(nat \<Rightarrow> bool op) \<Rightarrow> task_value \<Rightarrow> task_value option op" where
  "select_result f previousResult =
     (case previousResult of
        TNull \<Rightarrow> ret None
      | TArray xs \<Rightarrow> seqo (select_array f xs []) (\<lambda>ys. ret (Some (TArray ys)))
      | TNode n \<Rightarrow> seqo (f n) (\<lambda>b. ret (Some (if b then TNode n else TArray [])))
      | v \<Rightarrow> ret (Some v))"

definition map_result :: "(nat \<Rightarrow> task_value op) \<Rightarrow> task_value \<Rightarrow> task_value option op" where
  "map_result f previousResult =
     (case previousResult of
        TNull \<Rightarrow> ret None
      | TArray xs \<Rightarrow> seqo (map_array f xs []) (\<lambda>ys. ret (Some (TArray ys)))
      | TNode n \<Rightarrow> seqo (f n) (\<lambda>v. ret (Some v))
      | v \<Rightarrow> ret (Some v))"

subsection \<open>Traversing\<close>

text \<open>The identifiers that a node contributes: its relation, or itself when it has none and is to be kept.\<close>

definition node_targets :: "graph_env \<Rightarrow> jsstring \<Rightarrow> bool \<Rightarrow> nat \<Rightarrow> hash_set \<Rightarrow> hash_set op" where
  "node_targets env name keep loop toLoad =
     seqo (node_get env loop name) (\<lambda>rel. case rel of
       Some (EFloats interResult) \<Rightarrow> ret (fold (\<lambda>x. hs_add (PNumber x)) interResult toLoad)
     | _ \<Rightarrow> if keep then seqo (node_at loop) (\<lambda>nd. ret (hs_add (PNumber (Finite (of_int (nd_id nd)))) toLoad))
           else ret toLoad)"

fun collectArray :: "graph_env \<Rightarrow> jsstring \<Rightarrow> bool \<Rightarrow> task_value list \<Rightarrow> hash_set \<Rightarrow> hash_set op" where
  "collectArray env name keep [] toLoad = ret toLoad"
| "collectArray env name keep (TArray ys # xs) toLoad =
     seqo (collectArray env name keep ys toLoad) (collectArray env name keep xs)"
| "collectArray env name keep (TNode n # xs) toLoad = seqo (node_targets env name keep n toLoad) (collectArray env name keep xs)"
| "collectArray env name keep (v # xs) toLoad = collectArray env name keep xs toLoad"

definition targets :: "graph_env \<Rightarrow> jsstring \<Rightarrow> bool \<Rightarrow> task_value \<Rightarrow> hash_set op" where
  "targets env name keep previousResult =
     (case previousResult of
        TArray xs \<Rightarrow> collectArray env name keep xs newHashSet
      | TNode n \<Rightarrow> node_targets env name keep n newHashSet
      | _ \<Rightarrow> ret newHashSet)"

fun prim_numbers :: "js_prim list \<Rightarrow> js_double list" where
  "prim_numbers [] = []"
| "prim_numbers (PNumber x # vs) = x # prim_numbers vs"
| "prim_numbers (v # vs) = NotANumber # prim_numbers vs"

definition node_value :: "nat option \<Rightarrow> task_value" where
  "node_value n = (case n of None \<Rightarrow> TNull | Some n \<Rightarrow> TNode n)"

text \<open>The lookups of a set of identifiers; \<open>None\<close> when not all of them call back.\<close>

definition load_targets :: "graph_env \<Rightarrow> int \<Rightarrow> int \<Rightarrow> hash_set \<Rightarrow> task_value list option op" where
  "load_targets env world time toLoad =
     (let ids = prim_numbers (hs_forEach toLoad) in
      seqo (of_result (integers ids)) (\<lambda>ids.
      seqo (if ids = [] then ret () else connected) (\<lambda>_.
      seqo (lookup_all env world time ids (Some (int (hs_size toLoad)))) (\<lambda>found.
        ret (map_option (map node_value) found)))))"

definition traverse :: "graph_env \<Rightarrow> jsstring \<Rightarrow> bool \<Rightarrow> int \<Rightarrow> int \<Rightarrow> task_value \<Rightarrow> task_value list option op" where
  "traverse env name keep world time previousResult =
     seqo (targets env name keep previousResult) (load_targets env world time)"

text \<open>\<open>ActionTraverseIndex\<close>\<close>

fun getNodes :: "task_value list \<Rightarrow> nat list" where
  "getNodes [] = []"
| "getNodes (TNode n # xs) = n # getNodes xs"
| "getNodes (TArray ys # xs) = getNodes ys @ getNodes xs"
| "getNodes (v # xs) = getNodes xs"

definition indexed_nodes :: "task_value \<Rightarrow> nat list" where
  "indexed_nodes previousResult = (case previousResult of TNode n \<Rightarrow> [n] | TArray xs \<Rightarrow> getNodes xs | _ \<Rightarrow> [])"

text \<open>The sizes of the indexes only set the length of an array; a value without a size is an error.\<close>

definition has_size :: "elem \<Rightarrow> bool" where
  "has_size e = (case e of EStringMap m \<Rightarrow> True | ELongMap m \<Rightarrow> True | EArrayMap m \<Rightarrow> True | _ \<Rightarrow> False)"

fun countNbNodeToLoad :: "graph_env \<Rightarrow> jsstring \<Rightarrow> nat list \<Rightarrow> unit op" where
  "countNbNodeToLoad env indexName [] = ret ()"
| "countNbNodeToLoad env indexName (n # ns) =
     seqo (node_get env n indexName) (\<lambda>indexed. case indexed of
       None \<Rightarrow> countNbNodeToLoad env indexName ns
     | Some e \<Rightarrow> if has_size e then countNbNodeToLoad env indexName ns else throw TypeError)"

definition search_index :: "graph_env \<Rightarrow> nat \<Rightarrow> jsstring \<Rightarrow> int \<Rightarrow> int \<Rightarrow> jsstring option \<Rightarrow> nat list option op" where
  "search_index env node indexName world time query =
     (case query of
        Some q \<Rightarrow> findAt env node indexName world time q
      | None \<Rightarrow> seqo (allAt env node indexName world time) (\<lambda>ns. ret (map_option non_null ns)))"

fun search_each :: "graph_env \<Rightarrow> jsstring \<Rightarrow> int \<Rightarrow> int \<Rightarrow> jsstring option \<Rightarrow> nat list \<Rightarrow> nat list \<Rightarrow> defer_counter \<Rightarrow> (nat list \<times> defer_counter) op" where
  "search_each env indexName world time query [] resultNodes counter = ret (resultNodes, counter)"
| "search_each env indexName world time query (n # ns) resultNodes counter =
     seqo (search_index env n indexName world time query) (\<lambda>res. case res of
       None \<Rightarrow> search_each env indexName world time query ns resultNodes counter
     | Some found \<Rightarrow> seqo (of_result (dc_count counter)) (\<lambda>(_, counter).
         search_each env indexName world time query ns (resultNodes @ found) counter))"

definition traverse_index :: "graph_env \<Rightarrow> jsstring \<Rightarrow> jsstring option \<Rightarrow> int \<Rightarrow> int \<Rightarrow> task_value \<Rightarrow> nat list option op" where
  "traverse_index env indexName query world time previousResult =
     (let toLoad = indexed_nodes previousResult in
      seqo (countNbNodeToLoad env indexName toLoad) (\<lambda>_.
      seqo (search_each env indexName world time query toLoad [] (newCounter (Some (int (length toLoad))))) (\<lambda>(resultNodes, counter).
        ret (if fst (dc_then counter) then Some resultNodes else None))))"

subsection \<open>Starting an execution\<close>

datatype frame =
    Eval nat          \<comment> \<open>evaluate the current action of a context\<close>
  | NextOf nat        \<comment> \<open>call \<open>next\<close> of a context\<close>
  | ParLoop nat nat   \<comment> \<open>the loop of \<open>ActionForeachPar\<close>, from an index on\<close>
  | Catch

definition core_actions :: "core_task \<Rightarrow> task_action list" where
  "core_actions t = map the (take (ct_actionCursor t) (ct_actions t))"

text \<open>\<open>executeThenAsync\<close> up to the dispatch, which evaluates the first action of the new context.\<close>

definition executeThenAsync :: "nat \<Rightarrow> nat option \<Rightarrow> task_value \<Rightarrow> task_callback option \<Rightarrow> nat top" where
  "executeThenAsync t parent initialResult p_finalAction =
     tseq (tget (\<lambda>s. core_actions (ts_tasks s ! t))) (\<lambda>actions.
     let final = (case p_finalAction of Some f \<Rightarrow> ActionThenAsync f | None \<Rightarrow> ActionNoop);
         final_actions = actions @ [final, ActionClean]
     in tseq (on_db (protect initialResult)) (\<lambda>v. tseq (newContext parent v final_actions) (\<lambda>c.
        case parent of
          None \<Rightarrow> tret c
        | Some p \<Rightarrow> tseq (getWorld p) (\<lambda>w. tseq (setWorld c w) (\<lambda>_. tseq (getTime p) (\<lambda>t. tseq (setTime c t) (\<lambda>_. tret c)))))))"

definition sub_task :: "nat \<Rightarrow> nat \<Rightarrow> task_value \<Rightarrow> task_callback \<Rightarrow> frame list top" where
  "sub_task t parent v final = tseq (executeThenAsync t (Some parent) v (Some final)) (\<lambda>c. tret [Eval c])"

subsection \<open>Loops over elements\<close>

text \<open>\<open>ActionForeach.convert\<close>: the values of the enumerable properties.\<close>

definition convert :: "task_value \<Rightarrow> task_value list result" where
  "convert elem =
     (case elem of
        TNull \<Rightarrow> Inr []
      | TArray xs \<Rightarrow> Inr xs
      | TElem (EString s) \<Rightarrow> Inr (map (\<lambda>c. TElem (EString [c])) s)
      | TElem (EFloats xs) \<Rightarrow> Inr (map (\<lambda>x. TElem (ENumber x)) xs)
      | TElem (EInts xs) \<Rightarrow> Inr (map (\<lambda>x. TElem (ENumber (Finite (of_int x)))) xs)
      | TElem (ENumber x) \<Rightarrow> Inr []
      | TElem (EBool b) \<Rightarrow> Inr []
      | TMethod m \<Rightarrow> Inr []
      | _ \<Rightarrow> Inl not_followed)"

definition new_loop :: "foreach_loop \<Rightarrow> nat top" where
  "new_loop l = tseq (tget (\<lambda>s. length (ts_loops s))) (\<lambda>i. tseq (tupd (\<lambda>s. s\<lparr>ts_loops := ts_loops s @ [l]\<rparr>)) (\<lambda>_. tret i))"

definition the_loop :: "nat \<Rightarrow> foreach_loop top" where
  "the_loop l = tget (\<lambda>s. ts_loops s ! l)"

definition set_loop :: "nat \<Rightarrow> foreach_loop \<Rightarrow> unit top" where
  "set_loop l x = tupd (\<lambda>s. s\<lparr>ts_loops := (ts_loops s)[l := x]\<rparr>)"

text \<open>An element of an array of the program; beyond the end it is undefined.\<close>

definition element :: "task_value list \<Rightarrow> int \<Rightarrow> task_value" where
  "element xs i = (case rd xs (Some i) of None \<Rightarrow> TNull | Some v \<Rightarrow> v)"

text \<open>A write at the end of an array extends it.\<close>

definition set_element :: "task_value list \<Rightarrow> int \<Rightarrow> task_value \<Rightarrow> task_value list" where
  "set_element xs i v = (if i = int (length xs) then xs @ [v] else wr xs (Some i) v)"

text \<open>\<open>setResult\<close> and \<open>next\<close>\<close>

definition result_next :: "nat \<Rightarrow> task_value \<Rightarrow> frame list top" where
  "result_next c v = tseq (setResult c v) (\<lambda>_. tret [NextOf c])"

definition start_loop :: "nat \<Rightarrow> nat \<Rightarrow> (nat \<times> task_value list) top" where
  "start_loop c subTask =
     tseq (getPreviousResult c) (\<lambda>v. tseq (tresult (convert v)) (\<lambda>castedResult.
     tseq (new_loop \<lparr>fl_context = c, fl_subTask = subTask, fl_castedResult = castedResult, fl_cursor = 0,
        fl_results = replicate (length castedResult) TNull, fl_counter = newCounter (Some (int (length castedResult))), fl_finalI = 0\<rparr>)
       (\<lambda>l. tret (l, castedResult))))"

text \<open>The first element is taken without looking whether there is one.\<close>

definition eval_foreach :: "nat \<Rightarrow> nat \<Rightarrow> frame list top" where
  "eval_foreach c subTask =
     tseq (start_loop c subTask) (\<lambda>(l, castedResult). sub_task subTask c (element castedResult 0) (ForeachNext l))"

definition foreach_next :: "nat \<Rightarrow> nat \<Rightarrow> frame list top" where
  "foreach_next l subTaskFinalContext =
     tseq (the_loop l) (\<lambda>x.
     let (current, cursor) = int_getAndIncrement (fl_cursor x);
         results = set_element (fl_results x) current (TContext subTaskFinalContext);
         nextCursot = current + 1
     in tseq (set_loop l (x\<lparr>fl_cursor := cursor, fl_results := results\<rparr>)) (\<lambda>_.
        if nextCursot = int (length results) then result_next (fl_context x) (TArray results)
        else sub_task (fl_subTask x) (fl_context x) (element (fl_castedResult x) nextCursot) (ForeachNext l)))"

definition eval_foreachPar :: "nat \<Rightarrow> nat \<Rightarrow> frame list top" where
  "eval_foreachPar c subTask =
     tseq (start_loop c subTask) (\<lambda>(l, castedResult). tseq (the_loop l) (\<lambda>x.
     let (b, counter) = dc_then (fl_counter x)
     in tseq (set_loop l (x\<lparr>fl_counter := counter\<rparr>)) (\<lambda>_.
        if b then tseq (result_next c (TArray (fl_results x))) (\<lambda>fs. tret (fs @ [ParLoop l 0]))
        else tret [ParLoop l 0])))"

definition par_loop :: "nat \<Rightarrow> nat \<Rightarrow> frame list top" where
  "par_loop l i =
     tseq (the_loop l) (\<lambda>x.
     if i < length (fl_castedResult x) then
       tseq (set_loop l (x\<lparr>fl_finalI := i\<rparr>)) (\<lambda>_.
       tseq (sub_task (fl_subTask x) (fl_context x) (fl_castedResult x ! i) (ForeachParNext l)) (\<lambda>fs. tret (fs @ [ParLoop l (i + 1)])))
     else tret [])"

definition foreachPar_next :: "nat \<Rightarrow> nat \<Rightarrow> frame list top" where
  "foreachPar_next l subTaskFinalContext =
     tseq (the_loop l) (\<lambda>x.
     let results = (fl_results x)[fl_finalI x := TContext subTaskFinalContext]
     in tseq (tresult (dc_count (fl_counter x))) (\<lambda>(b, counter).
        tseq (set_loop l (x\<lparr>fl_results := results, fl_counter := counter\<rparr>)) (\<lambda>_.
        if b then result_next (fl_context x) (TArray results) else tret [])))"

subsection \<open>The actions\<close>

definition run_function :: "task_env \<Rightarrow> nat \<Rightarrow> task_function \<Rightarrow> unit top" where
  "run_function te c f =
     (case f of
        UserFunction k \<Rightarrow> te_then te k c
      | ForeachThen k \<Rightarrow> tseq (getPreviousResult c) (\<lambda>v. if v \<noteq> TNull then te_value te k v else tret ()))"

definition run_callback :: "task_env \<Rightarrow> nat \<Rightarrow> task_callback \<Rightarrow> frame list top" where
  "run_callback te c f =
     (case f of
        UserAsync k \<Rightarrow> tseq (te_async te k c) (\<lambda>b. tret (if b then [NextOf c] else []))
      | ExecuteThen k \<Rightarrow> tseq (te_then te k c) (\<lambda>_. tret [NextOf c])
      | ResultTo parent \<Rightarrow> result_next parent (TContext c)
      | ForeachNext l \<Rightarrow> foreach_next l c
      | ForeachParNext l \<Rightarrow> foreachPar_next l c)"

text \<open>The result of an action that may not come, and then the next action.\<close>

definition maybe_next :: "nat \<Rightarrow> task_value option \<Rightarrow> frame list top" where
  "maybe_next c r = (case r of None \<Rightarrow> tret [] | Some v \<Rightarrow> result_next c v)"

text \<open>\<open>select\<close> and \<open>map\<close> call \<open>next\<close> without a result for null.\<close>

definition transform :: "nat \<Rightarrow> (task_value \<Rightarrow> task_value option op) \<Rightarrow> frame list top" where
  "transform c f =
     tseq (getPreviousResult c) (\<lambda>v. tseq (on_db (f v)) (\<lambda>r.
       case r of None \<Rightarrow> tret [NextOf c] | Some v \<Rightarrow> result_next c v))"

definition keep_result :: "nat \<Rightarrow> frame list top" where
  "keep_result c = tseq (getPreviousResult c) (result_next c)"

definition eval_action :: "task_env \<Rightarrow> nat \<Rightarrow> task_action \<Rightarrow> frame list top" where
  "eval_action te c a =
     (let env = te_graph te in
      case a of
        ActionAsVar name \<Rightarrow>
          tseq (getPreviousResult c) (\<lambda>v. tseq (setResult c v) (\<lambda>_. tseq (setVariable c name v) (\<lambda>_. tret [NextOf c])))
      | ActionForeach subTask \<Rightarrow> eval_foreach c subTask
      | ActionForeachPar subTask \<Rightarrow> eval_foreachPar c subTask
      | ActionFrom val \<Rightarrow> result_next c val
      | ActionFromIndex indexName query \<Rightarrow>
          tseq (the_context c) (\<lambda>x. tseq (on_db (graph_find env (tc_world x) (tc_time x) indexName query)) (\<lambda>ns.
          tseq (maybe_next c (map_option (\<lambda>ns. TArray (map TNode ns)) ns)) (\<lambda>fs. tret (fs @ [Catch]))))
      | ActionFromIndexAll indexName \<Rightarrow>
          tseq (the_context c) (\<lambda>x. tseq (on_db (graph_all env (tc_world x) (tc_time x) indexName)) (\<lambda>ns.
          tseq (maybe_next c (map_option (\<lambda>ns. TArray (map node_value ns)) ns)) (\<lambda>fs. tret (fs @ [Catch]))))
      | ActionFromVar name \<Rightarrow> tseq (getVariable c name) (result_next c)
      | ActionIfThen cond action \<Rightarrow>
          tseq (te_cond te cond c) (\<lambda>b.
          if b then tseq (getPreviousResult c) (\<lambda>v. sub_task action c v (ResultTo c)) else keep_result c)
      | ActionMap k \<Rightarrow> transform c (map_result (te_map te k))
      | ActionNoop \<Rightarrow> keep_result c
      | ActionSave \<Rightarrow> tseq (on_db (graph_save_all env)) (\<lambda>r. tret (case r of None \<Rightarrow> [] | Some _ \<Rightarrow> [NextOf c]))
      | ActionSelect k \<Rightarrow> transform c (select_result (te_filter te k))
      | ActionTime time \<Rightarrow> tseq (setTime c time) (\<lambda>_. keep_result c)
      | ActionTraverse name \<Rightarrow>
          tseq (getPreviousResult c) (\<lambda>v. tseq (the_context c) (\<lambda>x.
          if v = TNull then tret [NextOf c]
          else tseq (on_db (traverse env name False (tc_world x) (tc_time x) v)) (\<lambda>r. maybe_next c (map_option TArray r))))
      | ActionTraverseIndex indexName query \<Rightarrow>
          tseq (getPreviousResult c) (\<lambda>v. tseq (the_context c) (\<lambda>x.
          if v = TNull then tret []
          else tseq (on_db (traverse_index env indexName query (tc_world x) (tc_time x) v)) (\<lambda>r.
               maybe_next c (map_option (\<lambda>ns. TArray (map TNode ns)) r))))
      | ActionTraverseOrKeep name \<Rightarrow>
          tseq (getPreviousResult c) (\<lambda>v. tseq (the_context c) (\<lambda>x.
          if v = TNull then tret [NextOf c]
          else tseq (on_db (traverse env name True (tc_world x) (tc_time x) v)) (\<lambda>r. maybe_next c (map_option TArray r))))
      | ActionTrigger subTask \<Rightarrow> tseq (getPreviousResult c) (\<lambda>v. sub_task subTask c v (ResultTo c))
      | ActionWhileDo cond then' \<Rightarrow> tret []
      | ActionWith name pattern \<Rightarrow> transform c (select_result (with_filter te name pattern))
      | ActionWithout name pattern \<Rightarrow> transform c (select_result (without_filter te name pattern))
      | ActionWorld world \<Rightarrow> tseq (setWorld c world) (\<lambda>_. keep_result c)
      | ActionThen f \<Rightarrow> tseq (run_function te c f) (\<lambda>_. tret [NextOf c])
      | ActionThenAsync f \<Rightarrow> run_callback te c f
      | ActionClean \<Rightarrow> tseq (clean c) (\<lambda>_. tret []))"

subsection \<open>The execution\<close>

definition eval_current :: "task_env \<Rightarrow> nat \<Rightarrow> frame list top" where
  "eval_current te c =
     tseq (the_context c) (\<lambda>x.
       case rd (tc_actions x) (Some (tc_currentTaskId x)) of None \<Rightarrow> tthrow TypeError | Some a \<Rightarrow> eval_action te c a)"

definition next_action :: "task_env \<Rightarrow> nat \<Rightarrow> frame list top" where
  "next_action te c =
     tseq (the_context c) (\<lambda>x.
     tseq (upd_context c (\<lambda>x. x\<lparr>tc_currentTaskId := snd (int_incrementAndGet (tc_currentTaskId x))\<rparr>)) (\<lambda>_. eval_current te c))"

fun task_step :: "task_env \<Rightarrow> frame \<Rightarrow> frame list top" where
  "task_step te (Eval c) = eval_current te c"
| "task_step te (NextOf c) = next_action te c"
| "task_step te (ParLoop l i) = par_loop l i"
| "task_step te Catch = tret []"

text \<open>The frames below the nearest \<open>try\<close> block; without one the error leaves the execution.\<close>

definition unwind :: "js_error \<Rightarrow> frame list \<Rightarrow> frame list option" where
  "unwind e fs =
     (if e = NoReturn then None
      else case dropWhile (\<lambda>f. f \<noteq> Catch) fs of [] \<Rightarrow> None | _ # fs \<Rightarrow> Some fs)"

partial_function (option) run_frames :: "task_env \<Rightarrow> frame list \<Rightarrow> task_state \<Rightarrow> (task_state \<times> unit result) option" where
  "run_frames te fs s =
     (case fs of
        [] \<Rightarrow> Some (s, Inr ())
      | f # fs \<Rightarrow>
          (case task_step te f s of
             (s, Inr gs) \<Rightarrow> run_frames te (gs @ fs) s
           | (s, Inl e) \<Rightarrow> (case unwind e fs of None \<Rightarrow> Some (s, Inl e) | Some fs \<Rightarrow> run_frames te fs s)))"

declare run_frames.simps [code]

definition execute_with :: "task_env \<Rightarrow> nat \<Rightarrow> task_value \<Rightarrow> task_callback option \<Rightarrow> task_state \<Rightarrow> (task_state \<times> unit result) option" where
  "execute_with te t initialResult f s =
     (case executeThenAsync t None initialResult f s of
        (s, Inl e) \<Rightarrow> Some (s, Inl e)
      | (s, Inr c) \<Rightarrow> run_frames te [Eval c] s)"

definition execute :: "task_env \<Rightarrow> nat \<Rightarrow> task_state \<Rightarrow> (task_state \<times> unit result) option" where
  "execute te t = execute_with te t TNull None"

definition executeThen :: "task_env \<Rightarrow> nat \<Rightarrow> nat \<Rightarrow> task_state \<Rightarrow> (task_state \<times> unit result) option" where
  "executeThen te t p_action = execute_with te t TNull (Some (ExecuteThen p_action))"

end
