(* ===== verification/CollectionsSpec.thy ===== *)
theory CollectionsSpec
  imports JavaCollections
begin

text \<open>
  What the collections of the runtime shim keep of their contracts: the map is a map as long as no key is the name of one
  of its methods, and the set is a set of texts.
\<close>

subsection \<open>Objects\<close>

lemma map_of_obj_set [simp]: "map_of (obj_set k v ob) = (map_of ob)(k \<mapsto> v)"
  by (induction k v ob rule: obj_set.induct) (auto simp: fun_eq_iff)

lemma keys_obj_set [simp]: "fst ` set (obj_set k v ob) = insert k (fst ` set ob)"
  by (induction k v ob rule: obj_set.induct) auto

lemma distinct_obj_set: "distinct (map fst ob) \<Longrightarrow> distinct (map fst (obj_set k v ob))"
  by (induction k v ob rule: obj_set.induct) auto

lemma map_of_obj_delete [simp]: "map_of (obj_delete k ob) = (map_of ob)(k := None)"
  by (induction ob) (auto simp: obj_delete_def fun_eq_iff)

lemma keys_obj_delete [simp]: "fst ` set (obj_delete k ob) = fst ` set ob - {k}"
  by (auto simp: obj_delete_def)

lemma distinct_obj_delete: "distinct (map fst ob) \<Longrightarrow> distinct (map fst (obj_delete k ob))"
  by (induction ob) (auto simp: obj_delete_def)

lemma set_own_keys [simp]: "set (own_keys ob) = fst ` set ob"
  by (auto simp: own_keys_def Let_def)

lemma distinct_own_keys: "distinct (map fst ob) \<Longrightarrow> distinct (own_keys ob)"
  by (auto simp: own_keys_def Let_def)

lemma length_own_keys: "distinct (map fst ob) \<Longrightarrow> length (own_keys ob) = card (dom (map_of ob))"
  by (metis distinct_own_keys distinct_card dom_map_of_conv_image_fst set_own_keys)

lemma has_own_iff: "has_own k ob \<longleftrightarrow> k \<in> dom (map_of ob)"
  by (simp add: has_own_def dom_map_of_conv_image_fst)

subsection \<open>Sets\<close>

definition set_wf :: "hash_set \<Rightarrow> bool" where
  "set_wf s \<longleftrightarrow> distinct (map fst s) \<and> (\<forall>(k, v) \<in> set s. k = prim_text v)"

lemma set_wf_new [simp]: "set_wf newHashSet"
  by (simp add: set_wf_def newHashSet_def)

lemma set_obj_set: "distinct (map fst ob) \<Longrightarrow> set (obj_set k v ob) = insert (k, v) {x \<in> set ob. fst x \<noteq> k}"
  by (induction k v ob rule: obj_set.induct) (auto simp: rev_image_eqI)

lemma set_wf_add: "set_wf s \<Longrightarrow> set_wf (hs_add v s)"
  by (auto simp: set_wf_def hs_add_def distinct_obj_set set_obj_set)

lemma set_wf_fold: "set_wf s \<Longrightarrow> set_wf (fold hs_add vs s)"
  by (induction vs arbitrary: s) (auto intro: set_wf_add)

lemma keys_fold_add:
  "PROTO \<notin> prim_text ` set vs \<Longrightarrow> fst ` set (fold hs_add vs s) = fst ` set s \<union> prim_text ` set vs"
proof (induction vs arbitrary: s)
  case (Cons v vs)
  then show ?case by (auto simp: hs_add_def)
qed simp

lemma forEach_texts: "set_wf s \<Longrightarrow> map prim_text (hs_forEach s) = own_keys s"
proof -
  assume wf: "set_wf s"
  have "prim_text (the (map_of s k)) = k" if "k \<in> fst ` set s" for k
  proof -
    from that obtain v where "map_of s k = Some v" by (metis domD dom_map_of_conv_image_fst)
    moreover from this have "(k, v) \<in> set s" by (rule map_of_SomeD)
    ultimately show ?thesis using wf by (auto simp: set_wf_def)
  qed
  then show ?thesis by (auto simp: hs_forEach_def own_values_def intro!: map_idI)
qed

lemma forEach_values: "set_wf s \<Longrightarrow> set (hs_forEach s) = snd ` set s"
proof -
  assume wf: "set_wf s"
  have "the (map_of s k) = v" if "(k, v) \<in> set s" for k v
    using that wf by (simp add: set_wf_def)
  then show ?thesis by (force simp: hs_forEach_def own_values_def)
qed

lemma values_fold_add: "snd ` set (fold hs_add vs s) \<subseteq> snd ` set s \<union> set vs" if "set_wf s"
  using that
proof (induction vs arbitrary: s)
  case (Cons v vs)
  have "snd ` set (hs_add v s) \<subseteq> insert v (snd ` set s)"
    using Cons.prems by (auto simp: hs_add_def set_obj_set set_wf_def)
  with Cons.IH [OF set_wf_add [OF Cons.prems], of v] show ?case by auto
qed simp

lemma hash_set_elements:
  assumes "inj_on prim_text (set vs)" and "PROTO \<notin> prim_text ` set vs"
  shows "set (hs_forEach (fold hs_add vs newHashSet)) = set vs" (is "set (hs_forEach ?s) = _")
    and "distinct (hs_forEach (fold hs_add vs newHashSet)) \<and> hs_size (fold hs_add vs newHashSet) = card (set vs)"
proof -
  have wf: "set_wf ?s" by (simp add: set_wf_fold)
  have texts: "map prim_text (hs_forEach ?s) = own_keys ?s" by (rule forEach_texts [OF wf])
  have keys: "set (own_keys ?s) = prim_text ` set vs"
    using keys_fold_add [OF assms(2), of newHashSet] by (simp add: newHashSet_def)
  have sub: "set (hs_forEach ?s) \<subseteq> set vs"
    using values_fold_add [of newHashSet vs] forEach_values [OF wf] by (simp add: newHashSet_def set_wf_def)
  have "prim_text ` set (hs_forEach ?s) = prim_text ` set vs"
    using texts keys by (metis set_map)
  with sub show eq: "set (hs_forEach ?s) = set vs"
    using inj_on_image_eq_iff [OF assms(1) sub subset_refl] \<open>prim_text ` set (hs_forEach ?s) = prim_text ` set vs\<close> by blast
  have "distinct (map prim_text (hs_forEach ?s))" using texts wf by (simp add: distinct_own_keys set_wf_def)
  then have d: "distinct (hs_forEach ?s)" by (simp add: distinct_map)
  moreover have "hs_size ?s = length (hs_forEach ?s)" by (simp add: hs_size_def hs_forEach_def own_values_def)
  ultimately show "distinct (hs_forEach ?s) \<and> hs_size ?s = card (set vs)"
    using eq by (metis distinct_card)
qed

text \<open>Further fact.
  A \<open>HashSet\<close> of values with different texts holds exactly the values that were added, each once, whatever the order in which they
  come back.\<close>

theorem hash_set_refines:
  assumes "inj_on prim_text (set vs)" and "PROTO \<notin> prim_text ` set vs"
  shows "let s = fold hs_add vs newHashSet; xs = hs_forEach s in
     set xs = set vs \<and> distinct xs \<and> hs_size s = card (set vs) \<and> hs_isEmpty s = (vs = [])"
  using hash_set_elements [OF assms] by (auto simp: Let_def hs_isEmpty_def)

theorem hash_set_refines_witness:
  "set (hs_forEach (fold hs_add [PString [98], PString [97], PString [98]] newHashSet)) = {PString [97], PString [98]}
     \<and> hs_size (fold hs_add [PString [98], PString [97], PString [98]] newHashSet) = 2"
proof -
  have "inj_on prim_text (set [PString [98], PString [97], PString [98]])" by (auto simp: inj_on_def)
  from hash_set_refines [OF this] show ?thesis
    by (simp add: PROTO_def units_def Let_def insert_commute card_insert_if)
qed

subsection \<open>Maps\<close>

definition ordinary :: "jsstring \<Rightarrow> bool" where
  "ordinary k \<longleftrightarrow> k \<notin> set (PROTO # map_prototype)"

definition map_wf :: "'v hash_map \<Rightarrow> bool" where
  "map_wf m \<longleftrightarrow> distinct (map fst m) \<and> (\<forall>k \<in> dom (map_of m). ordinary k)"

lemma map_wf_new: "map_wf newHashMap"
  by (simp add: map_wf_def newHashMap_def)

lemma not_ordinary_methods:
  "\<not> ordinary (units ''get'')" "\<not> ordinary (units ''put'')" "\<not> ordinary (units ''containsKey'')" "\<not> ordinary (units ''remove'')"
  "\<not> ordinary (units ''keySet'')" "\<not> ordinary (units ''size'')" "\<not> ordinary (units ''hasOwnProperty'')"
  "\<not> ordinary (units ''isEmpty'')" "\<not> ordinary (units ''clear'')" "\<not> ordinary (units ''values'')"
  by (simp_all add: ordinary_def map_prototype_def object_prototype_def)

lemma call_method_wf:
  "map_wf m \<Longrightarrow> \<not> ordinary (units name) \<Longrightarrow> call_method name m r = r"
  by (auto simp: call_method_def has_own_iff map_wf_def)

definition prop_of :: "'v option \<Rightarrow> 'v js_prop" where
  "prop_of v = (case v of None \<Rightarrow> Undefined | Some v \<Rightarrow> Own v)"

lemma hm_read_ordinary: "ordinary k \<Longrightarrow> hm_read k m = Inr (prop_of (map_of m k))"
  by (auto simp: hm_read_def ordinary_def prop_of_def split: option.splits)

text \<open>Property C33.
  A \<open>HashMap\<close> without the names of methods among its keys is a map: \<open>get\<close>, \<open>put\<close>, \<open>remove\<close>, \<open>containsKey\<close>, \<open>size\<close> and
  \<open>keySet\<close> do on the object what they do on a partial function, and keep it such a map.\<close>

theorem hash_map_refines:
  assumes m: "map_wf m" and k: "ordinary k"
  shows "hm_get k m = Inr (prop_of (map_of m k))
    \<and> (\<exists>m'. hm_put k v m = Inr (prop_of (map_of m k), m') \<and> map_wf m' \<and> map_of m' = (map_of m)(k \<mapsto> v))
    \<and> (\<exists>m'. hm_remove k m = Inr (prop_of (map_of m k), m') \<and> map_wf m' \<and> map_of m' = (map_of m)(k := None))
    \<and> hm_containsKey k m = Inr (k \<in> dom (map_of m)) \<and> hm_size m = Inr (card (dom (map_of m)))
    \<and> (\<exists>s. hm_keySet m = Inr s \<and> set (hs_forEach s) = PString ` dom (map_of m))"
proof -
  note calls = call_method_wf [OF m not_ordinary_methods(1)] call_method_wf [OF m not_ordinary_methods(2)]
    call_method_wf [OF m not_ordinary_methods(3)] call_method_wf [OF m not_ordinary_methods(4)]
    call_method_wf [OF m not_ordinary_methods(5)] call_method_wf [OF m not_ordinary_methods(6)]
    call_method_wf [OF m not_ordinary_methods(7)]
  have "map_wf (obj_set k v m)" "map_wf (obj_delete k m)"
    using m k by (auto simp: map_wf_def distinct_obj_set distinct_obj_delete)
  moreover have "set (hs_forEach (fold hs_add (map PString (own_keys m)) newHashSet)) = set (map PString (own_keys m))"
  proof (rule hash_set_elements)
    show "inj_on prim_text (set (map PString (own_keys m)))" by (auto simp: inj_on_def)
    show "PROTO \<notin> prim_text ` set (map PString (own_keys m))"
      using m by (auto simp: map_wf_def dom_map_of_conv_image_fst ordinary_def)
  qed
  moreover have "length (own_keys m) = card (dom (map_of m))" using m by (simp add: map_wf_def length_own_keys)
  ultimately show ?thesis
    by (auto simp: hm_get_def hm_put_def hm_remove_def hm_containsKey_def hm_size_def hm_keySet_def calls hm_read_ordinary [OF k]
        has_own_iff fold_map comp_def dom_map_of_conv_image_fst)
qed

theorem hash_map_refines_witness:
  "hm_get [97] [([97], 7 :: int)] = Inr (Own 7) \<and> hm_size [([97], 7 :: int)] = Inr 1"
proof -
  have o': "ordinary [97]" by (simp add: ordinary_def PROTO_def map_prototype_def object_prototype_def units_def)
  then have "map_wf [([97], 7 :: int)]" by (simp add: map_wf_def)
  from hash_map_refines [OF this o', of 0] show ?thesis by (simp add: prop_of_def)
qed

text \<open>\<open>Collections.swap\<close> copies the first element over the second.\<close>

lemma swap_copies: "i < length l \<Longrightarrow> j < length l \<Longrightarrow> swap i j l = l[j := l ! i]"
  by (auto simp: swap_def al_set_def al_get_def list_update_swap nth_list_update intro!: nth_equalityI)

end
