(* ===== verification/TaskText.thy ===== *)
theory TaskText
  imports TaskRun CollectionsSpec
begin

text \<open>Building tasks: the array of actions grows with them, and the text of a task is parsed to its actions.\<close>

subsection \<open>The array of actions\<close>

definition task_wf :: "core_task \<Rightarrow> bool" where
  "task_wf t \<longleftrightarrow> ct_actionCursor t \<le> length (ct_actions t) \<and> 0 < length (ct_actions t)
     \<and> (\<forall>i < ct_actionCursor t. ct_actions t ! i \<noteq> None)"

lemma new_task_wf: "task_wf \<lparr>ct_actions = replicate 10 None, ct_actionCursor = 0\<rparr>"
  by (simp add: task_wf_def)

lemma add_action_core:
  assumes "task_wf t"
  shows "core_actions (add_action a t) = core_actions t @ [a]" and "task_wf (add_action a t)"
proof -
  define xs where "xs = (if ct_actionCursor t = length (ct_actions t) then ct_actions t @ replicate (length (ct_actions t)) None else ct_actions t)"
  have len: "ct_actionCursor t < length xs" and same: "\<forall>i < ct_actionCursor t. xs ! i = ct_actions t ! i"
    and take: "take (ct_actionCursor t) xs = take (ct_actionCursor t) (ct_actions t)"
    using assms by (auto simp: xs_def task_wf_def nth_append)
  have eq: "add_action a t = t\<lparr>ct_actions := xs[ct_actionCursor t := Some a], ct_actionCursor := ct_actionCursor t + 1\<rparr>"
    by (simp add: add_action_def xs_def arraycopy_prefix)
  show "core_actions (add_action a t) = core_actions t @ [a]"
    using len take by (simp add: eq core_actions_def take_Suc_conv_app_nth)
  show "task_wf (add_action a t)"
    using assms len same by (auto simp: eq task_wf_def nth_list_update less_Suc_eq)
qed

lemma with_action_eq:
  "with_action t a s = (s\<lparr>ts_tasks := (ts_tasks s)[t := add_action a (ts_tasks s ! t)]\<rparr>, Inr t)"
  by (simp add: with_action_def tret_def)

subsection \<open>The parameters\<close>

lemma substring_snoc:
  "b \<le> c \<Longrightarrow> c < length src \<Longrightarrow> substring src b c @ [src ! c] = substring src b (Suc c)"
  by (simp add: substring_def take_Suc_conv_app_nth Suc_diff_le)

lemma split_on_app:
  "\<forall>c \<in> set w. c \<noteq> sep \<Longrightarrow> split_on sep (w @ s) = (w @ hd (split_on sep s)) # tl (split_on sep s)"
  by (induction w) auto

lemma split_on_none: "\<forall>c \<in> set w. c \<noteq> sep \<Longrightarrow> split_on sep w = [w]"
  using split_on_app [of w sep "[]"] by simp

lemma params_loop_split:
  "b \<le> c \<Longrightarrow> c \<le> length src \<Longrightarrow> \<forall>x \<in> set (substring src b c). x \<noteq> QUERY_SEP \<Longrightarrow>
   params_loop src c b ps = ps @ filter (\<lambda>p. p \<noteq> []) (split_on QUERY_SEP (substring src b c @ drop c src))"
proof (induction "length src - c" arbitrary: b c ps)
  case 0
  then show ?case by (simp add: params_loop.simps [of _ c] add_param_def split_on_none)
next
  case (Suc n)
  then have c: "c < length src" and d: "drop c src = src ! c # drop (Suc c) src" by (auto simp: Cons_nth_drop_Suc)
  show ?case
  proof (cases "src ! c = QUERY_SEP")
    case True
    have "substring src (Suc c) (Suc c) = []" by (simp add: substring_def)
    with True Suc c d show ?thesis
      by (simp add: params_loop.simps [of _ c] add_param_def split_on_app [OF Suc.prems(3)])
  next
    case False
    have "\<forall>x \<in> set (substring src b (Suc c)). x \<noteq> QUERY_SEP"
      using Suc.prems(1,3) False c by (simp flip: substring_snoc)
    with Suc c d False show ?thesis
      by (simp add: params_loop.simps [of _ c]) (simp flip: substring_snoc)
  qed
qed

lemma params_loop_all: "params_loop src 0 0 [] = filter (\<lambda>p. p \<noteq> []) (split_on QUERY_SEP src)"
  using params_loop_split [of 0 0 src "[]"] by (simp add: substring_def)

text \<open>A text that the grammar of tasks leaves alone.\<close>

definition plain_text :: "jsstring \<Rightarrow> bool" where
  "plain_text s \<longleftrightarrow> s \<noteq> [] \<and> set s \<inter> {QUERY_SEP, TASK_SEP, TASK_PARAM_OPEN, TASK_PARAM_CLOSE} = {}"

definition params_text :: "jsstring list \<Rightarrow> jsstring" where
  "params_text ps = string_join [QUERY_SEP] ps"

lemma params_of_text: "\<forall>p \<in> set ps. plain_text p \<Longrightarrow> params_loop (params_text ps) 0 0 [] = ps"
proof -
  have "split_on QUERY_SEP (params_text ps) = ps" if "ps \<noteq> []" "\<forall>p \<in> set ps. plain_text p"
    using that
  proof (induction ps)
    case (Cons p ps)
    have "\<forall>c \<in> set p. c \<noteq> QUERY_SEP" using Cons.prems by (auto simp: plain_text_def)
    note app = split_on_app [OF this]
    show ?case
    proof (cases ps)
      case Nil
      then show ?thesis using app [of "[]"] by (simp add: params_text_def)
    next
      case (Cons q qs)
      with Cons.IH Cons.prems app show ?thesis by (simp add: params_text_def)
    qed
  qed simp
  moreover assume "\<forall>p \<in> set ps. plain_text p"
  ultimately show ?thesis
    by (cases "ps = []") (auto simp: params_loop_all plain_text_def params_text_def intro!: filter_True)
qed

lemma set_params_text: "c \<in> set (params_text ps) \<Longrightarrow> c = QUERY_SEP \<or> (\<exists>p \<in> set ps. c \<in> set p)"
proof (induction ps)
  case (Cons p ps)
  then show ?case by (cases ps) (auto simp: params_text_def)
qed (simp add: params_text_def)

subsection \<open>The text of a task\<close>

definition call_text :: "jsstring \<times> jsstring list \<Rightarrow> jsstring" where
  "call_text c = fst c @ [TASK_PARAM_OPEN] @ params_text (snd c) @ [TASK_PARAM_CLOSE]"

definition task_text :: "(jsstring \<times> jsstring list) list \<Rightarrow> jsstring" where
  "task_text cs = string_join [TASK_SEP] (map call_text cs)"

definition calm :: "int \<Rightarrow> bool" where
  "calm c \<longleftrightarrow> c \<notin> {TASK_SEP, TASK_PARAM_OPEN, TASK_PARAM_CLOSE}"

lemma skip_calm:
  "\<forall>c \<in> set w. calm c \<Longrightarrow>
   task_parse_loop te t (pre @ w @ post) (length pre) p n = task_parse_loop te t (pre @ w @ post) (length (pre @ w)) p n"
proof (induction w arbitrary: pre)
  case (Cons c w)
  have "task_parse_loop te t (pre @ (c # w) @ post) (length pre) p n
      = task_parse_loop te t (pre @ (c # w) @ post) (length (pre @ [c])) p n"
    using Cons.prems by (simp add: task_parse_loop.simps [of _ _ _ "length pre"] calm_def nth_append)
  also have "\<dots> = task_parse_loop te t ((pre @ [c]) @ w @ post) (length ((pre @ [c]) @ w)) p n"
    using Cons.IH [of "pre @ [c]"] Cons.prems by simp
  finally show ?case by simp
qed simp

lemma parse_call:
  assumes "plain_text (fst a)" and "\<forall>p \<in> set (snd a). plain_text p"
  shows "task_parse_loop te t (pre @ call_text a @ post) (length pre) (length pre) n
    = tseq (add_named te t (Some (fst a)) (snd a)) (\<lambda>_.
        task_parse_loop te t (pre @ call_text a @ post) (length (pre @ call_text a)) (length (pre @ call_text a)) None)"
proof -
  let ?src = "pre @ call_text a @ post"
  let ?open = "pre @ fst a @ [TASK_PARAM_OPEN]"
  let ?close = "?open @ params_text (snd a)"
  have name: "\<forall>c \<in> set (fst a). calm c" using assms(1) by (auto simp: plain_text_def calm_def)
  have params: "\<forall>c \<in> set (params_text (snd a)). calm c"
    using assms(2) by (auto simp: plain_text_def calm_def QUERY_SEP_def TASK_SEP_def TASK_PARAM_OPEN_def TASK_PARAM_CLOSE_def
        dest!: set_params_text)
  have "task_parse_loop te t ?src (length pre) (length pre) n
      = task_parse_loop te t ?src (length (pre @ fst a)) (length pre) n"
    using skip_calm [OF name, of te t pre "[TASK_PARAM_OPEN] @ params_text (snd a) @ [TASK_PARAM_CLOSE] @ post"]
    by (simp add: call_text_def)
  also have "\<dots> = task_parse_loop te t ?src (length ?open) (length ?open) (Some (fst a))"
    by (subst task_parse_loop.simps)
      (simp add: call_text_def nth_append substring_def TASK_SEP_def TASK_PARAM_OPEN_def TASK_PARAM_CLOSE_def)
  also have "\<dots> = task_parse_loop te t ?src (length ?close) (length ?open) (Some (fst a))"
    using skip_calm [OF params, of te t ?open "[TASK_PARAM_CLOSE] @ post"] by (simp add: call_text_def)
  also have "\<dots> = tseq (task_action_named te t (Some (fst a)) (params_text (snd a))) (\<lambda>_.
        task_parse_loop te t ?src (length (pre @ call_text a)) (length (pre @ call_text a)) None)"
    by (subst task_parse_loop.simps)
      (simp add: call_text_def nth_append substring_def TASK_SEP_def TASK_PARAM_OPEN_def TASK_PARAM_CLOSE_def)
  finally show ?thesis by (simp add: task_action_named_def params_of_text [OF assms(2)])
qed

lemma parse_calls:
  assumes "\<forall>a \<in> set cs. plain_text (fst a) \<and> (\<forall>p \<in> set (snd a). plain_text p)"
  shows "task_parse_loop te t (pre @ task_text cs) (length pre) (length pre) None
    = each (\<lambda>a. tseq (add_named te t (Some (fst a)) (snd a)) (\<lambda>_. tret ())) cs"
  using assms
proof (induction cs arbitrary: pre)
  case Nil
  then show ?case by (simp add: task_text_def task_parse_loop.simps)
next
  case (Cons a cs)
  show ?case
  proof (cases cs)
    case Nil
    with Cons.prems parse_call [of a te t pre "[]" None] show ?thesis
      by (simp add: task_text_def task_parse_loop.simps [of _ _ _ "length pre + length (call_text a)"] fun_eq_iff tseq_def tret_def
          split: sum.splits prod.splits)
  next
    case (Cons b bs)
    let ?pre = "pre @ call_text a @ [TASK_SEP]"
    have eq: "task_text (a # cs) = call_text a @ [TASK_SEP] @ task_text cs" using Cons by (simp add: task_text_def)
    have "task_parse_loop te t (pre @ task_text (a # cs)) (length (pre @ call_text a)) (length (pre @ call_text a)) None
        = task_parse_loop te t (?pre @ task_text cs) (length ?pre) (length ?pre) None"
      by (subst task_parse_loop.simps) (simp add: eq nth_append)
    with Cons.IH [of ?pre] Cons.prems parse_call [of a te t pre "[TASK_SEP] @ task_text cs" None] show ?thesis
      by (simp add: eq fun_eq_iff tseq_def tret_def split: sum.splits prod.splits)
  qed
qed

subsection \<open>The built-in actions\<close>

fun action_call :: "task_action \<Rightarrow> (jsstring \<times> jsstring list) option" where
  "action_call (ActionTraverse name) = Some (units ''traverse'', [name])"
| "action_call (ActionTraverseOrKeep name) = Some (units ''traverseOrKeep'', [name])"
| "action_call (ActionFromIndexAll indexName) = Some (units ''fromIndexAll'', [indexName])"
| "action_call (ActionFromIndex indexName query) = Some (units ''fromIndex'', [indexName, query])"
| "action_call (ActionWith name pattern) = Some (units ''with'', [name, pattern])"
| "action_call (ActionWithout name pattern) = Some (units ''without'', [name, pattern])"
| "action_call a = None"

fun patterns :: "task_action \<Rightarrow> jsstring list" where
  "patterns (ActionWith name pattern) = [pattern]"
| "patterns (ActionWithout name pattern) = [pattern]"
| "patterns a = []"

definition printable :: "task_env \<Rightarrow> task_action \<Rightarrow> bool" where
  "printable te a \<longleftrightarrow>
     (case action_call a of None \<Rightarrow> False
      | Some (name, ps) \<Rightarrow> (\<forall>p \<in> set ps. plain_text p) \<and> (\<forall>p \<in> set (patterns a). te_regexp te p \<noteq> None))"

definition actions_text :: "task_action list \<Rightarrow> jsstring" where
  "actions_text as = task_text (map (\<lambda>a. the (action_call a)) as)"

definition builtin :: "action_factory hash_map" where
  "builtin = [(units ''traverse'', TraverseFactory), (units ''traverseOrKeep'', TraverseOrKeepFactory),
      (units ''fromIndexAll'', FromIndexAllFactory), (units ''fromIndex'', FromIndexFactory), (units ''with'', WithFactory),
      (units ''without'', WithoutFactory)]"

lemma newRegistry_builtin: "newRegistry = Inr builtin"
  by (simp add: builtin_def newRegistry_def registry_add_def hm_put_def newHashMap_def call_method_def has_own_def hm_read_def
      PROTO_def units_def)

lemma registry_builtin:
  assumes "newRegistry = Inr r"
  shows "registry_get (units ''traverse'') r = Inr (Own TraverseFactory)"
    "registry_get (units ''traverseOrKeep'') r = Inr (Own TraverseOrKeepFactory)"
    "registry_get (units ''fromIndexAll'') r = Inr (Own FromIndexAllFactory)"
    "registry_get (units ''fromIndex'') r = Inr (Own FromIndexFactory)"
    "registry_get (units ''with'') r = Inr (Own WithFactory)"
    "registry_get (units ''without'') r = Inr (Own WithoutFactory)"
proof -
  have "r = builtin" using assms by (simp add: newRegistry_builtin)
  then show "registry_get (units ''traverse'') r = Inr (Own TraverseFactory)"
    "registry_get (units ''traverseOrKeep'') r = Inr (Own TraverseOrKeepFactory)"
    "registry_get (units ''fromIndexAll'') r = Inr (Own FromIndexAllFactory)"
    "registry_get (units ''fromIndex'') r = Inr (Own FromIndexFactory)"
    "registry_get (units ''with'') r = Inr (Own WithFactory)"
    "registry_get (units ''without'') r = Inr (Own WithoutFactory)"
    by (simp_all add: builtin_def registry_get_def hm_get_def call_method_def has_own_def hm_read_def PROTO_def units_def)
qed

lemma plain_names:
  "plain_text (units ''traverse'')" "plain_text (units ''traverseOrKeep'')" "plain_text (units ''fromIndexAll'')"
  "plain_text (units ''fromIndex'')" "plain_text (units ''with'')" "plain_text (units ''without'')"
  by (simp_all add: plain_text_def units_def QUERY_SEP_def TASK_SEP_def TASK_PARAM_OPEN_def TASK_PARAM_CLOSE_def)

lemma printable_plain:
  "printable te a \<Longrightarrow> plain_text (fst (the (action_call a))) \<and> (\<forall>p \<in> set (snd (the (action_call a))). plain_text p)"
  by (cases a) (auto simp: printable_def plain_names)

lemma add_named_builtin:
  assumes "newRegistry = Inr (ts_registry s)" and "printable te a"
  shows "add_named te t (Some (fst (the (action_call a)))) (snd (the (action_call a))) s = with_action t a s"
  using assms
  by (cases a) (auto simp: printable_def add_named_def registry_builtin make_action_def need_params_def check_regexp_def)

lemma each_add:
  assumes "newRegistry = Inr (ts_registry s)" and "\<forall>a \<in> set as. printable te a" and "t < length (ts_tasks s)"
    and "task_wf (ts_tasks s ! t)"
  shows "\<exists>task. each (\<lambda>a. tseq (add_named te t (Some (fst a)) (snd a)) (\<lambda>_. tret ())) (map (\<lambda>a. the (action_call a)) as) s
      = (s\<lparr>ts_tasks := (ts_tasks s)[t := task]\<rparr>, Inr ())
    \<and> core_actions task = core_actions (ts_tasks s ! t) @ as \<and> task_wf task"
  using assms
proof (induction as arbitrary: s)
  case Nil
  then show ?case by (intro exI [of _ "ts_tasks s ! t"]) (simp add: tret_def)
next
  case (Cons a as)
  let ?s = "s\<lparr>ts_tasks := (ts_tasks s)[t := add_action a (ts_tasks s ! t)]\<rparr>"
  have one: "tseq (tseq (add_named te t (Some (fst (the (action_call a)))) (snd (the (action_call a)))) (\<lambda>_. tret ())) f s = f () ?s"
    for f :: "unit \<Rightarrow> 'c top"
    using add_named_builtin [OF Cons.prems(1), of te a t] Cons.prems(2) by (simp add: tseq_def with_action_eq tret_def)
  note add = add_action_core [OF Cons.prems(4), of a]
  obtain task where "each (\<lambda>a. tseq (add_named te t (Some (fst a)) (snd a)) (\<lambda>_. tret ())) (map (\<lambda>a. the (action_call a)) as) ?s
      = (?s\<lparr>ts_tasks := (ts_tasks ?s)[t := task]\<rparr>, Inr ())"
    "core_actions task = core_actions (ts_tasks ?s ! t) @ as" "task_wf task"
    using Cons.IH [of ?s] Cons.prems add by auto
  with Cons.prems add show ?case
    by (intro exI [of _ task]) (simp add: one)
qed

end
