(* ===== verification/TaskMachine.thy ===== *)
theory TaskMachine
  imports TaskText
begin

text \<open>
  The execution of actions that only work on the locals of a context: its world, its time, its variables and the previous result.
  \<open>local_effect\<close> is the reference; the machine of frames does the same, one context for itself.
\<close>

subsection \<open>The reference\<close>

type_synonym locals = "int \<times> int \<times> task_value hash_map \<times> task_value"

text \<open>A value that is no context and no array of contexts.\<close>

definition plain_value :: "task_value \<Rightarrow> bool" where
  "plain_value v = (case v of TContext c \<Rightarrow> False | TArray vs \<Rightarrow> vs = [] \<or> \<not> context_array vs | _ \<Rightarrow> True)"

fun local_effect :: "task_action \<Rightarrow> locals \<Rightarrow> locals" where
  "local_effect (ActionWorld world) (w, t, m, v) = (world, t, m, v)"
| "local_effect (ActionTime time) (w, t, m, v) = (w, time, m, v)"
| "local_effect (ActionFrom x) (w, t, m, v) = (w, t, m, x)"
| "local_effect (ActionAsVar name) (w, t, m, v) = (w, t, if v \<noteq> TNull then obj_set name v m else obj_delete name m, v)"
| "local_effect (ActionFromVar name) (w, t, m, v) = (w, t, m, case map_of m name of None \<Rightarrow> TNull | Some x \<Rightarrow> x)"
| "local_effect a l = l"

text \<open>Variables are read through the parents, so they are for a context that is \<open>lone\<close> (\<open>b\<close>).\<close>

fun local_action :: "bool \<Rightarrow> task_action \<Rightarrow> bool" where
  "local_action b (ActionWorld world) = True"
| "local_action b (ActionTime time) = True"
| "local_action b (ActionFrom x) = plain_value x"
| "local_action b (ActionAsVar name) = (b \<and> ordinary name)"
| "local_action b (ActionFromVar name) = (b \<and> ordinary name)"
| "local_action b ActionNoop = True"
| "local_action b a = False"

text \<open>The locals of a context of the machine.\<close>

definition has_locals :: "task_context \<Rightarrow> locals \<Rightarrow> bool" where
  "has_locals x l = (case l of (w, t, m, v) \<Rightarrow>
     tc_world x = w \<and> tc_time x = t \<and> tc_variables x = m \<and> length (tc_results x) = length (tc_actions x)
     \<and> 0 \<le> tc_currentTaskId x \<and> tc_currentTaskId x \<le> int (length (tc_results x))
     \<and> (if tc_currentTaskId x = 0 then tc_initialResult x else tc_results x ! nat (tc_currentTaskId x - 1)) = v
     \<and> plain_value v \<and> map_wf m \<and> (\<forall>y \<in> ran (map_of m). plain_value y \<and> y \<noteq> TNull))"

lemma has_localsD:
  assumes "has_locals x (w, t, m, v)"
  shows "plain_value v" "map_wf m" "\<forall>y \<in> ran (map_of m). plain_value y \<and> y \<noteq> TNull" "tc_world x = w" "tc_time x = t"
    "tc_variables x = m" "length (tc_results x) = length (tc_actions x)" "0 \<le> tc_currentTaskId x"
  using assms unfolding has_locals_def prod.case by blast+

lemma has_locals_upd:
  assumes "has_locals x (w, t, m, v)"
  shows "has_locals (x\<lparr>tc_time := t'\<rparr>) (w, t', m, v)" and "has_locals (x\<lparr>tc_world := w'\<rparr>) (w', t, m, v)"
  using assms unfolding has_locals_def prod.case by (auto split: if_splits)

subsection \<open>Steps\<close>

lemma run_frames_Nil [simp]: "run_frames te [] s = Some (s, Inr ())"
  by (simp add: run_frames.simps)

lemma run_frames_step: "task_step te f s = (s', Inr gs) \<Longrightarrow> run_frames te (f # fs) s = run_frames te (gs @ fs) s'"
  by (subst run_frames.simps) simp

lemma context_simps [simp]:
  "the_context c s = (s, Inr (ts_contexts s ! c))"
  "upd_context c f s = (s\<lparr>ts_contexts := (ts_contexts s)[c := f (ts_contexts s ! c)]\<rparr>, Inr ())"
  by (simp_all add: the_context_def upd_context_def tget_def tupd_def)

lemma tseq_run: "m s = (s', Inr a) \<Longrightarrow> tseq m f s = f a s'"
  by (simp add: tseq_def)

text \<open>Frames after a \<open>next\<close>: the identifier of the current action is one higher.\<close>

definition bump :: "nat \<Rightarrow> task_state \<Rightarrow> task_state" where
  "bump c s = s\<lparr>ts_contexts := (ts_contexts s)[c := (ts_contexts s ! c)\<lparr>tc_currentTaskId := rnd (tc_currentTaskId (ts_contexts s ! c) + 1)\<rparr>]\<rparr>"

lemma run_next: "run_frames te (NextOf c # fs) s = run_frames te (Eval c # fs) (bump c s)"
proof -
  have "task_step te (NextOf c) s = task_step te (Eval c) (bump c s)"
    by (simp add: next_action_def tseq_def bump_def int_incrementAndGet_def Let_def)
  then show ?thesis by (simp add: run_frames.simps [of te "_ # _"])
qed

lemma previous_result_plain:
  assumes "has_locals (cs ! c) (w, t, m, v)"
  shows "previous_result (Suc f) cs c = Inr v"
proof (cases "tc_currentTaskId (cs ! c) = 0")
  case True
  with assms show ?thesis by (simp add: has_locals_def)
next
  case False
  with assms have "rd (tc_results (cs ! c)) (Some (tc_currentTaskId (cs ! c) - 1)) = Some v"
    by (simp add: has_locals_def rd_Some)
  moreover note has_localsD(1) [OF assms]
  ultimately show ?thesis using False by (cases v) (auto simp: plain_value_def)
qed

lemma previous_plain:
  assumes "c < length (ts_contexts s)" and "has_locals (ts_contexts s ! c) (w, t, m, v)"
  shows "getPreviousResult c s = (s, Inr v)"
proof -
  from assms(1) obtain f where "length (ts_contexts s) = Suc f" by (cases "length (ts_contexts s)") auto
  with previous_result_plain [OF assms(2)] show ?thesis
    by (simp add: getPreviousResult_def tresult_def del: previous_result.simps)
qed

text \<open>The context after a plain result was set.\<close>

definition put_result :: "task_context \<Rightarrow> task_value \<Rightarrow> task_context" where
  "put_result x v = x\<lparr>tc_results := wr (tc_results x) (Some (tc_currentTaskId x)) v\<rparr>"

abbreviation put_context :: "nat \<Rightarrow> task_context \<Rightarrow> task_state \<Rightarrow> task_state" where
  "put_context c x s \<equiv> s\<lparr>ts_contexts := (ts_contexts s)[c := x]\<rparr>"

lemma setResult_plain:
  "plain_value v \<Longrightarrow> setResult c v s = (put_context c (put_result (ts_contexts s ! c) v) s, Inr ())"
  by (auto simp: setResult_def plain_value_def tseq_def tret_def put_result_def split: task_value.splits)

lemma result_next_plain:
  "plain_value v \<Longrightarrow> result_next c v s = (put_context c (put_result (ts_contexts s ! c) v) s, Inr [NextOf c])"
  by (simp add: result_next_def tseq_def setResult_plain tret_def)

lemma keep_result_plain:
  assumes "c < length (ts_contexts s)" and "has_locals (ts_contexts s ! c) (w, t, m, v)"
  shows "keep_result c s = (put_context c (put_result (ts_contexts s ! c) v) s, Inr [NextOf c])"
proof -
  note has_localsD(1) [OF assms(2)]
  then show ?thesis by (simp add: keep_result_def tseq_def previous_plain [OF assms] result_next_plain)
qed

text \<open>The locals after a result was set and \<open>next\<close> was called.\<close>

definition next_context :: "task_context \<Rightarrow> locals \<Rightarrow> task_context" where
  "next_context x l = (case l of (w, t, m, v) \<Rightarrow>
     (put_result x v)\<lparr>tc_world := w, tc_time := t, tc_variables := m, tc_currentTaskId := tc_currentTaskId x + 1\<rparr>)"

lemma next_context_locals:
  assumes "has_locals x l" and "tc_currentTaskId x < int (length (tc_actions x))" and "l' = (w, t, m, v)"
    and "plain_value v" "map_wf m" "\<forall>y \<in> ran (map_of m). plain_value y \<and> y \<noteq> TNull"
  shows "has_locals (next_context x l') l'"
  using assms by (auto simp: has_locals_def next_context_def put_result_def wr_def nat_add_distrib)

text \<open>One action.\<close>

lemma local_value:
  assumes "has_locals x (w, t, m, v)" and "local_action b a"
  shows "case local_effect a (w, t, m, v) of (w', t', m', v') \<Rightarrow>
     plain_value v' \<and> map_wf m' \<and> (\<forall>y \<in> ran (map_of m'). plain_value y \<and> y \<noteq> TNull)"
proof -
  note d = has_localsD [OF assms(1)]
  have "map_wf (obj_set name v m)" "map_wf (obj_delete name m)" if "ordinary name" for name
    using d(2) that by (auto simp: map_wf_def distinct_obj_set distinct_obj_delete)
  moreover have "plain_value TNull" by (simp add: plain_value_def)
  moreover have "\<forall>y \<in> ran ((map_of m)(name \<mapsto> v)). plain_value y \<and> y \<noteq> TNull" if "v \<noteq> TNull" for name
    using d(1,3) that by (auto simp: ran_def)
  moreover have "\<forall>y \<in> ran ((map_of m)(name := None)). plain_value y \<and> y \<noteq> TNull" for name
    using d(3) by (auto simp: ran_def)
  ultimately show ?thesis
    using assms(2) d(1,2,3) by (cases a) (auto split: option.splits intro: ranI)
qed

lemma setVariable_ordinary:
  assumes "ordinary name" and "map_wf (tc_variables (ts_contexts s ! c))"
  shows "setVariable c name v s = (put_context c ((ts_contexts s ! c)\<lparr>tc_variables :=
     if v \<noteq> TNull then obj_set name v (tc_variables (ts_contexts s ! c)) else obj_delete name (tc_variables (ts_contexts s ! c))\<rparr>) s, Inr ())"
  using assms not_ordinary_methods
  by (simp add: setVariable_def tseq_def tresult_def hm_put_def hm_remove_def call_method_wf hm_read_ordinary)

text \<open>A context that has no parent, or whose parent has no variables and no parent.\<close>

definition lone :: "nat \<Rightarrow> task_state \<Rightarrow> bool" where
  "lone c s \<longleftrightarrow> (case tc_parentContext (ts_contexts s ! c) of None \<Rightarrow> True
     | Some p \<Rightarrow> p \<noteq> c \<and> p < length (ts_contexts s) \<and> tc_variables (ts_contexts s ! p) = newHashMap \<and> tc_parentContext (ts_contexts s ! p) = None)"

lemma lone_put: "c < length (ts_contexts s) \<Longrightarrow> tc_parentContext x = tc_parentContext (ts_contexts s ! c) \<Longrightarrow> lone c (put_context c x s) = lone c s"
  by (auto simp: lone_def split: option.split)

lemma hm_get_new: "ordinary name \<Longrightarrow> hm_get name newHashMap = Inr Undefined"
  by (simp add: hm_get_def call_method_def has_own_def hm_read_ordinary prop_of_def newHashMap_def)

lemma getVariable_ordinary:
  assumes "ordinary name" and "c < length (ts_contexts s)" and "has_locals (ts_contexts s ! c) (w, t, m, v)" and "lone c s"
  shows "getVariable c name s = (s, Inr (case map_of m name of None \<Rightarrow> TNull | Some x \<Rightarrow> x))"
proof -
  let ?cs = "ts_contexts s"
  obtain f where f: "length ?cs = Suc f" using assms(2) by (cases "length ?cs") auto
  have "hm_get name (tc_variables (?cs ! c)) = Inr (prop_of (map_of m name))"
    using has_localsD [OF assms(3)] assms(1) by (simp add: hm_get_def call_method_wf [OF _ not_ordinary_methods(1)] hm_read_ordinary)
  moreover have "get_variable f ?cs p name = Inr TNull" if p: "tc_parentContext (?cs ! c) = Some p" for p
  proof -
    have l: "p \<noteq> c" "p < length ?cs" "tc_variables (?cs ! p) = newHashMap" "tc_parentContext (?cs ! p) = None"
      using assms(4) p by (simp_all add: lone_def)
    then obtain f' where "f = Suc f'" using assms(2) f by (cases f) auto
    then show ?thesis using l assms(1) by (simp add: hm_get_new)
  qed
  ultimately have "get_variable (length ?cs) ?cs c name = Inr (case map_of m name of None \<Rightarrow> TNull | Some x \<Rightarrow> x)"
    using f has_localsD(3) [OF assms(3)] by (auto simp: prop_of_def ranI split: option.splits)
  then show ?thesis by (simp add: getVariable_def tseq_def tget_def tresult_def)
qed

lemma eval_local:
  assumes "c < length (ts_contexts s)" and "x = ts_contexts s ! c" and "has_locals x l" and "local_action b a"
    and "b \<Longrightarrow> lone c s" and "tc_currentTaskId x < int (length (tc_actions x))"
  shows "eval_action te c a s = (put_context c ((next_context x (local_effect a l))\<lparr>tc_currentTaskId := tc_currentTaskId x\<rparr>) s, Inr [NextOf c])"
proof -
  obtain w t m v where l: "l = (w, t, m, v)" by (metis prod_cases4)
  note lo = assms(3) [unfolded l assms(2)]
  note d = has_localsD [OF lo]
  note prev = previous_plain [OF assms(1) lo] and keep = keep_result_plain [OF assms(1)]
  show ?thesis
  proof (cases a)
    case (ActionAsVar name)
    with assms(4) have "ordinary name" by simp
    with ActionAsVar d assms(1,2) prev show ?thesis
      by (cases "ts_contexts s ! c") (simp add: eval_action_def l tseq_def setResult_plain setVariable_ordinary put_result_def next_context_def tret_def)
  next
    case (ActionFrom y)
    with assms(2,4) d show ?thesis by (cases "ts_contexts s ! c") (simp add: eval_action_def l result_next_plain next_context_def put_result_def)
  next
    case (ActionFromVar name)
    with assms(4,5) have "ordinary name" "lone c s" by simp_all
    note get = getVariable_ordinary [OF this(1) assms(1) lo this(2)]
    have "plain_value (case map_of m name of None \<Rightarrow> TNull | Some x \<Rightarrow> x)"
      using d(3) by (auto simp: plain_value_def ranI split: option.split)
    with ActionFromVar get assms(2) d show ?thesis
      by (cases "ts_contexts s ! c") (simp add: eval_action_def l tseq_def result_next_plain next_context_def put_result_def)
  next
    case ActionNoop
    with keep [OF lo] assms(2) d show ?thesis by (cases "ts_contexts s ! c") (simp add: eval_action_def l next_context_def put_result_def)
  next
    case (ActionTime time)
    let ?s = "put_context c ((ts_contexts s ! c)\<lparr>tc_time := time\<rparr>) s"
    have "has_locals (ts_contexts ?s ! c) (w, time, m, v)" using has_locals_upd [OF lo] assms(1) by simp
    from keep_result_plain [OF _ this] assms(1,2) d ActionTime show ?thesis
      by (cases "ts_contexts s ! c") (simp add: eval_action_def l setTime_def tseq_def next_context_def put_result_def)
  next
    case (ActionWorld world)
    let ?s = "put_context c ((ts_contexts s ! c)\<lparr>tc_world := world\<rparr>) s"
    have "has_locals (ts_contexts ?s ! c) (world, t, m, v)" using has_locals_upd [OF lo] assms(1) by simp
    from keep_result_plain [OF _ this] assms(1,2) d ActionWorld show ?thesis
      by (cases "ts_contexts s ! c") (simp add: eval_action_def l setWorld_def tseq_def next_context_def put_result_def)
  qed (use assms(4) in auto)
qed

subsection \<open>Runs\<close>

lemma local_step:
  assumes "c < length (ts_contexts s)" and "x = ts_contexts s ! c" and "has_locals x l" and "local_action b a"
    and "b \<Longrightarrow> lone c s" and "tc_currentTaskId x < int (length (tc_actions x))"
    and "tc_actions x ! nat (tc_currentTaskId x) = a" and "tc_currentTaskId x + 1 < 2 ^ 53"
  shows "run_frames te (Eval c # fs) s = run_frames te (Eval c # fs) (put_context c (next_context x (local_effect a l)) s)"
    and "has_locals (next_context x (local_effect a l)) (local_effect a l)"
proof -
  obtain w t m v where l: "l = (w, t, m, v)" by (metis prod_cases4)
  have id0: "0 \<le> tc_currentTaskId x" using has_localsD(8) assms(3) l by blast
  obtain w' t' m' v' where l': "local_effect a l = (w', t', m', v')" by (metis prod_cases4)
  let ?x = "(next_context x (local_effect a l))\<lparr>tc_currentTaskId := tc_currentTaskId x\<rparr>"
  have "task_step te (Eval c) s = (put_context c ?x s, Inr [NextOf c])"
    using eval_local [OF assms(1-6)] id0 assms(2,6,7) by (simp add: eval_current_def tseq_def rd_Some)
  moreover have "bump c (put_context c ?x s) = put_context c (next_context x (local_effect a l)) s"
    using assms(1,8) id0 by (simp add: bump_def rnd_id l' next_context_def put_result_def)
  ultimately show "run_frames te (Eval c # fs) s = run_frames te (Eval c # fs) (put_context c (next_context x (local_effect a l)) s)"
    by (simp add: run_frames_step run_next)
  from local_value [OF assms(3) [unfolded l] assms(4)] show "has_locals (next_context x (local_effect a l)) (local_effect a l)"
    using l l' assms(6) by (intro next_context_locals [OF assms(3)]) (auto split: prod.splits)
qed

lemma next_context_parts [simp]:
  "tc_actions (next_context x l) = tc_actions x" "tc_parentContext (next_context x l) = tc_parentContext x"
  "tc_currentTaskId (next_context x l) = tc_currentTaskId x + 1"
  by (cases l; simp add: next_context_def put_result_def)+

text \<open>A run of local actions changes only its context, and leaves in it the locals of the reference.\<close>

lemma local_run:
  assumes "c < length (ts_contexts s)" and "x = ts_contexts s ! c" and "has_locals x l" and "\<forall>a \<in> set as. local_action b a"
    and "b \<Longrightarrow> lone c s" and "drop (nat (tc_currentTaskId x)) (tc_actions x) = as @ rest"
    and "int (length (tc_actions x)) < 2 ^ 53"
  shows "\<exists>x'. (\<forall>fs. run_frames te (Eval c # fs) s = run_frames te (Eval c # fs) (put_context c x' s))
    \<and> has_locals x' (fold local_effect as l) \<and> tc_actions x' = tc_actions x \<and> tc_parentContext x' = tc_parentContext x
    \<and> tc_currentTaskId x' = tc_currentTaskId x + int (length as)"
  using assms
proof (induction as arbitrary: s x l)
  case Nil
  then show ?case by (intro exI [of _ x]) simp
next
  case (Cons a as)
  let ?i = "nat (tc_currentTaskId x)" and ?x = "next_context x (local_effect a l)"
  let ?s = "put_context c ?x s"
  have id0: "0 \<le> tc_currentTaskId x" using has_localsD(8) Cons.prems(3) by (metis prod_cases4)
  have lt: "?i < length (tc_actions x)" using Cons.prems(6) by (metis append_Cons drop_eq_Nil2 list.discI not_le)
  have a: "tc_actions x ! ?i = a" and d: "drop (Suc ?i) (tc_actions x) = as @ rest"
    using Cons.prems(6) lt by (simp_all add: Cons_nth_drop_Suc [symmetric])
  note step = local_step [OF Cons.prems(1-3) _ Cons.prems(5) _ a]
  have run: "run_frames te (Eval c # fs) s = run_frames te (Eval c # fs) ?s" and lo: "has_locals ?x (local_effect a l)" for fs
    using step Cons.prems(4,7) lt id0 by auto
  have "nat (tc_currentTaskId x + 1) = Suc ?i" using id0 by simp
  then obtain x' where "\<forall>fs. run_frames te (Eval c # fs) ?s = run_frames te (Eval c # fs) (put_context c x' ?s)"
    "has_locals x' (fold local_effect as (local_effect a l))" "tc_actions x' = tc_actions x"
    "tc_parentContext x' = tc_parentContext x" "tc_currentTaskId x' = tc_currentTaskId x + 1 + int (length as)"
    using Cons.IH [of ?s ?x "local_effect a l"] Cons.prems(1,2,4,5,7) d lo lone_put [of c s ?x] by auto
  with run show ?case by (intro exI [of _ x']) simp
qed

end
