(* ===== verification/TaskForeach.thy ===== *)
theory TaskForeach
  imports TaskMachine
begin

text \<open>
  The loop of \<open>ActionForeach\<close> over a sub task of local actions: one context after the other, each at the value of its element, and at
  the end the array of the contexts, whose previous result is the array of their results.
\<close>

subsection \<open>Values without nodes\<close>

fun nodeless :: "task_value \<Rightarrow> bool" where
  "nodeless (TNode n) = False"
| "nodeless (TArray vs) = list_all nodeless vs"
| "nodeless v = True"

lemma protect_nodeless:
  "nodeless v \<Longrightarrow> protect v db = (db, Inr v)"
  "list_all nodeless vs \<Longrightarrow> protect_all vs db = (db, Inr vs)"
  by (induction v and vs rule: protect_protect_all.induct) (simp_all add: seqo_def ret_def)

subsection \<open>A new context\<close>

definition fresh_context :: "nat option \<Rightarrow> task_value \<Rightarrow> task_action list \<Rightarrow> int \<Rightarrow> int \<Rightarrow> task_context" where
  "fresh_context p v as w t =
     \<lparr>tc_world = w, tc_time = t, tc_parentContext = p, tc_initialResult = v, tc_variables = newHashMap,
      tc_results = replicate (length as) TNull, tc_actions = as, tc_currentTaskId = 0\<rparr>"

lemma fresh_locals: "plain_value v \<Longrightarrow> has_locals (fresh_context p v as w t) (w, t, newHashMap, v)"
  by (simp add: has_locals_def fresh_context_def map_wf_new) (simp add: newHashMap_def)

lemma on_db_nodeless: "nodeless v \<Longrightarrow> on_db (protect v) s = (s, Inr v)"
  by (simp add: on_db_def protect_nodeless)

definition final_action :: "task_callback option \<Rightarrow> task_action" where
  "final_action f = (case f of Some f \<Rightarrow> ActionThenAsync f | None \<Rightarrow> ActionNoop)"

lemma execute_top:
  assumes "nodeless v"
  shows "executeThenAsync t None v f s =
    (s\<lparr>ts_contexts := ts_contexts s @ [fresh_context None v (core_actions (ts_tasks s ! t) @ [final_action f, ActionClean]) 0 0]\<rparr>,
     Inr (length (ts_contexts s)))"
  using on_db_nodeless [OF assms, of s]
  by (simp add: executeThenAsync_def Let_def newContext_def fresh_context_def final_action_def tseq_def tget_def tupd_def tret_def)

lemma execute_sub:
  assumes "nodeless v" and "c < length (ts_contexts s)"
  shows "executeThenAsync t (Some c) v f s =
    (s\<lparr>ts_contexts := ts_contexts s @ [fresh_context (Some c) v (core_actions (ts_tasks s ! t) @ [final_action f, ActionClean])
        (tc_world (ts_contexts s ! c)) (tc_time (ts_contexts s ! c))]\<rparr>, Inr (length (ts_contexts s)))"
  using on_db_nodeless [OF assms(1), of s] assms(2)
  by (simp add: executeThenAsync_def Let_def newContext_def fresh_context_def final_action_def tseq_def tget_def tupd_def tret_def
      getWorld_def getTime_def setWorld_def setTime_def nth_append)

subsection \<open>The loop\<close>

text \<open>What the sub task makes of a value.\<close>

definition sub_result :: "task_action list \<Rightarrow> int \<Rightarrow> int \<Rightarrow> task_value \<Rightarrow> task_value" where
  "sub_result as w t v = (case fold local_effect as (w, t, newHashMap, v) of (_, _, _, v') \<Rightarrow> v')"

text \<open>The variables of the loop after \<open>j\<close> rounds, and the state, with the contexts \<open>ds\<close> of the sub task.\<close>

definition loop_results :: "nat \<Rightarrow> nat \<Rightarrow> nat \<Rightarrow> task_value list" where
  "loop_results m n j = map TContext [m..<m + j] @ replicate (n - j) TNull"

definition loop_after :: "nat \<Rightarrow> nat \<Rightarrow> task_value list \<Rightarrow> nat \<Rightarrow> nat \<Rightarrow> foreach_loop" where
  "loop_after c u xs m j =
     \<lparr>fl_context = c, fl_subTask = u, fl_castedResult = xs, fl_cursor = int j, fl_results = loop_results m (length xs) j,
      fl_counter = newCounter (Some (int (length xs))), fl_finalI = 0\<rparr>"

definition loop_state :: "task_state \<Rightarrow> nat \<Rightarrow> nat \<Rightarrow> task_value list \<Rightarrow> nat \<Rightarrow> task_context list \<Rightarrow> task_state" where
  "loop_state s c u xs j ds =
     s\<lparr>ts_contexts := ts_contexts s @ ds, ts_loops := ts_loops s @ [loop_after c u xs (length (ts_contexts s)) j]\<rparr>"

lemma set_element_results:
  "j < n \<or> n = 0 \<and> j = 0 \<Longrightarrow> set_element (loop_results m n j) (int j) (TContext (m + j)) = loop_results m n (Suc j)"
proof -
  assume j: "j < n \<or> n = 0 \<and> j = 0"
  show ?thesis
  proof (cases "j < n")
    case True
    then have "replicate (n - j) TNull = TNull # replicate (n - Suc j) TNull" by (metis Suc_diff_Suc replicate_Suc)
    with True show ?thesis by (simp add: loop_results_def set_element_def wr_def list_update_append)
  next
    case False
    with j show ?thesis by (simp add: loop_results_def set_element_def)
  qed
qed

text \<open>A context of the sub task at its final action.\<close>

definition sub_done :: "nat \<Rightarrow> task_action list \<Rightarrow> int \<Rightarrow> int \<Rightarrow> task_value \<Rightarrow> task_context \<Rightarrow> bool" where
  "sub_done l as w t y d \<longleftrightarrow> has_locals d (fold local_effect as (w, t, newHashMap, y))
     \<and> tc_actions d = as @ [ActionThenAsync (ForeachNext l), ActionClean] \<and> tc_currentTaskId d = int (length as)"

text \<open>The variables of a context of the sub task when it has ended.\<close>

definition sub_vars :: "task_action list \<Rightarrow> int \<Rightarrow> int \<Rightarrow> task_value \<Rightarrow> jsstring \<rightharpoonup> task_value" where
  "sub_vars as w t v = (case fold local_effect as (w, t, newHashMap, v) of (_, _, m, _) \<Rightarrow> map_of m)"

lemma sub_done_variables:
  assumes "sub_done l as w t y d"
  shows "map_wf (tc_variables d)" "TNull \<notin> ran (map_of (tc_variables d))" "map_of (tc_variables d) = sub_vars as w t y"
proof -
  obtain w' t' m' v' where l: "fold local_effect as (w, t, newHashMap, y) = (w', t', m', v')" by (metis prod_cases4)
  then have "has_locals d (w', t', m', v')" using assms by (simp add: sub_done_def)
  from has_localsD(2,3,6) [OF this] l
  show "map_wf (tc_variables d)" "TNull \<notin> ran (map_of (tc_variables d))" "map_of (tc_variables d) = sub_vars as w t y"
    by (auto simp: sub_vars_def)
qed

text \<open>The start of a round, and the run of its context up to the final action.\<close>

lemma round_start:
  assumes "c < length (ts_contexts s)" and "has_locals (ts_contexts s ! c) (w, t, vm, v)" and "nodeless y"
    and "core_actions (ts_tasks s ! u) = as"
  shows "sub_task u c y (ForeachNext l) (loop_state s c u xs j ds)
    = (loop_state s c u xs j (ds @ [fresh_context (Some c) y (as @ [ActionThenAsync (ForeachNext l), ActionClean]) w t]),
       Inr [Eval (length (ts_contexts s) + length ds)])"
proof -
  let ?s = "loop_state s c u xs j ds"
  have c: "c < length (ts_contexts ?s)" "ts_contexts ?s ! c = ts_contexts s ! c" using assms(1) by (simp_all add: loop_state_def nth_append)
  have "tc_world (ts_contexts s ! c) = w" "tc_time (ts_contexts s ! c) = t" using has_localsD [OF assms(2)] by simp_all
  with execute_sub [OF assms(3) c(1)] c assms(4) show ?thesis
    by (simp add: sub_task_def tseq_def tret_def loop_state_def final_action_def)
qed

lemma round_run:
  assumes "plain_value y" and "\<forall>a \<in> set as. local_action True a" and "length as + 2 < 2 ^ 53"
    and "c < length (ts_contexts s)" and "tc_variables (ts_contexts s ! c) = newHashMap" and "tc_parentContext (ts_contexts s ! c) = None"
  shows "\<exists>d. sub_done l as w t y d \<and> (\<forall>fs. run_frames te (Eval (length (ts_contexts s) + length ds) # fs)
       (loop_state s c u xs j (ds @ [fresh_context (Some c) y (as @ [ActionThenAsync (ForeachNext l), ActionClean]) w t]))
     = run_frames te (Eval (length (ts_contexts s) + length ds) # fs) (loop_state s c u xs j (ds @ [d])))"
proof -
  let ?x = "fresh_context (Some c) y (as @ [ActionThenAsync (ForeachNext l), ActionClean]) w t"
  let ?s = "loop_state s c u xs j (ds @ [?x])" and ?d = "length (ts_contexts s) + length ds"
  have x: "?x = ts_contexts ?s ! ?d" "?d < length (ts_contexts ?s)" by (simp_all add: loop_state_def nth_append)
  have parts: "tc_currentTaskId ?x = 0" "tc_actions ?x = as @ [ActionThenAsync (ForeachNext l), ActionClean]"
    by (simp_all add: fresh_context_def)
  have "drop (nat (tc_currentTaskId ?x)) (tc_actions ?x) = as @ [ActionThenAsync (ForeachNext l), ActionClean]"
    by (simp add: parts)
  note run = local_run [OF x(2) x(1) fresh_locals [OF assms(1)] assms(2) _ this, of te]
  have "lone ?d ?s" using assms(4-6) by (simp add: lone_def loop_state_def nth_append fresh_context_def)
  from run [OF this]
  obtain x' where x': "\<forall>fs. run_frames te (Eval ?d # fs) ?s = run_frames te (Eval ?d # fs) (put_context ?d x' ?s)"
    "has_locals x' (fold local_effect as (w, t, newHashMap, y))" "tc_actions x' = tc_actions ?x"
    "tc_currentTaskId x' = tc_currentTaskId ?x + int (length as)"
    using assms(3) parts(2) by auto
  have "put_context ?d x' ?s = loop_state s c u xs j (ds @ [x'])" by (simp add: loop_state_def list_update_append)
  with x' parts show ?thesis by (intro exI [of _ x']) (simp add: sub_done_def)
qed

text \<open>The end of a round.\<close>

lemma eval_final:
  assumes "sub_done l as w t y d" and "ts_contexts s ! e = d"
  shows "task_step te (Eval e) s = foreach_next l e s"
proof -
  have "rd (tc_actions d) (Some (tc_currentTaskId d)) = Some (ActionThenAsync (ForeachNext l))"
    using assms(1) by (simp add: sub_done_def rd_Some nth_append)
  then show ?thesis using assms(2) by (simp add: eval_current_def tseq_def eval_action_def run_callback_def Let_def)
qed

lemma round_end:
  assumes "j < length xs \<or> length xs = 0 \<and> j = 0" and "int (length xs) < 2 ^ 53 - 1"
  shows "foreach_next (length (ts_loops s)) (length (ts_contexts s) + j) (loop_state s c u xs j ds)
    = (if Suc j < length xs then sub_task u c (xs ! Suc j) (ForeachNext (length (ts_loops s))) (loop_state s c u xs (Suc j) ds)
       else result_next c (TArray (loop_results (length (ts_contexts s)) (length xs) (Suc j))) (loop_state s c u xs (Suc j) ds))"
proof -
  let ?m = "length (ts_contexts s)" and ?l = "length (ts_loops s)"
  have cursor: "int_getAndIncrement (int j) = (int j, int (Suc j))"
    using assms by (auto simp: int_getAndIncrement_def rnd_id)
  have len: "length (loop_results ?m (length xs) (Suc j)) = max (Suc j) (length xs)"
    by (simp add: loop_results_def)
  have "set_loop ?l ((loop_after c u xs ?m j)\<lparr>fl_cursor := int (Suc j), fl_results := loop_results ?m (length xs) (Suc j)\<rparr>)
      (loop_state s c u xs j ds) = (loop_state s c u xs (Suc j) ds, Inr ())"
    by (simp add: set_loop_def tupd_def loop_state_def loop_after_def)
  moreover have "the_loop ?l (loop_state s c u xs j ds) = (loop_state s c u xs j ds, Inr (loop_after c u xs ?m j))"
    by (simp add: the_loop_def tget_def loop_state_def)
  moreover have "nat (int j + 1) = Suc j" by simp
  ultimately show ?thesis
    using assms(1) cursor len set_element_results [of j "length xs" ?m]
    by (auto simp: foreach_next_def tseq_def loop_after_def element_def rd_Some Let_def max_def simp del: of_nat_Suc)
qed

text \<open>All rounds: the contexts of the sub task are at their final actions, and the result is set.\<close>

lemma foreach_rounds:
  assumes "c < length (ts_contexts s)" and "has_locals (ts_contexts s ! c) (w, t, newHashMap, v)"
    and "core_actions (ts_tasks s ! u) = as" and "\<forall>a \<in> set as. local_action True a" and "length as + 2 < 2 ^ 53"
    and "int (length xs) < 2 ^ 53 - 1" and "\<forall>y \<in> set xs. nodeless y \<and> plain_value y"
    and "ys = (if xs = [] then [TNull] else xs)" and "tc_parentContext (ts_contexts s ! c) = None"
    and "j < length ys" and "length ds = j" and "\<forall>i < j. sub_done (length (ts_loops s)) as w t (ys ! i) (ds ! i)"
  shows "\<exists>ds'. length ds' = length ys \<and> (\<forall>i < length ys. sub_done (length (ts_loops s)) as w t (ys ! i) (ds' ! i))
    \<and> (\<forall>fs g s'. result_next c (TArray (loop_results (length (ts_contexts s)) (length xs) (length ys))) (loop_state s c u xs (length ys) ds') = (s', Inr g)
       \<longrightarrow> run_frames te (Eval (length (ts_contexts s) + j) # fs)
           (loop_state s c u xs j (ds @ [fresh_context (Some c) (ys ! j) (as @ [ActionThenAsync (ForeachNext (length (ts_loops s))), ActionClean]) w t]))
         = run_frames te (g @ fs) s')"
  using assms(10-12)
proof (induction "length ys - j" arbitrary: j ds)
  case 0
  then show ?case by simp
next
  case (Suc n)
  let ?m = "length (ts_contexts s)" and ?l = "length (ts_loops s)"
  have "ys ! j \<in> set ys" using Suc.prems(1) by simp
  then have y: "plain_value (ys ! j)" using assms(7,8) by (auto simp: plain_value_def split: if_splits)
  obtain d where d: "sub_done ?l as w t (ys ! j) d"
    and run: "\<forall>fs. run_frames te (Eval (?m + j) # fs) (loop_state s c u xs j (ds @ [fresh_context (Some c) (ys ! j) (as @ [ActionThenAsync (ForeachNext ?l), ActionClean]) w t]))
      = run_frames te (Eval (?m + j) # fs) (loop_state s c u xs j (ds @ [d]))"
    using round_run [OF y assms(4,5,1) has_localsD(6) [OF assms(2)] assms(9), of ?l w t te ds u xs j] Suc.prems(2) by auto
  have at: "ts_contexts (loop_state s c u xs j (ds @ [d])) ! (?m + j) = d"
    using Suc.prems(2) by (simp add: loop_state_def nth_append)
  note final = eval_final [OF d at, of te]
  have j: "j < length xs \<or> length xs = 0 \<and> j = 0" using Suc.prems(1) assms(8) by (auto split: if_splits)
  note ending = round_end [OF j assms(6), of s c u "ds @ [d]"]
  have all: "\<forall>i < Suc j. sub_done ?l as w t (ys ! i) ((ds @ [d]) ! i)"
    using Suc.prems(2,3) d by (auto simp: nth_append less_Suc_eq)
  show ?case
  proof (cases "Suc j < length ys")
    case True
    then have xs: "ys = xs" using assms(8) by (auto split: if_splits)
    have less: "nodeless (xs ! Suc j)" using True xs assms(7) by simp
    have "task_step te (Eval (?m + j)) (loop_state s c u xs j (ds @ [d]))
        = (loop_state s c u xs (Suc j) ((ds @ [d]) @ [fresh_context (Some c) (ys ! Suc j) (as @ [ActionThenAsync (ForeachNext ?l), ActionClean]) w t]),
           Inr [Eval (?m + Suc j)])"
      using final ending True xs round_start [OF assms(1,2) less assms(3), of ?l xs "Suc j" "ds @ [d]"] Suc.prems(2) by simp
    from run_frames_step [OF this] run
    have step: "run_frames te (Eval (?m + j) # fs) (loop_state s c u xs j (ds @ [fresh_context (Some c) (ys ! j) (as @ [ActionThenAsync (ForeachNext ?l), ActionClean]) w t]))
      = run_frames te (Eval (?m + Suc j) # fs) (loop_state s c u xs (Suc j)
          ((ds @ [d]) @ [fresh_context (Some c) (ys ! Suc j) (as @ [ActionThenAsync (ForeachNext ?l), ActionClean]) w t]))" for fs
      by simp
    have "n = length ys - Suc j" using Suc.hyps(2) by simp
    from Suc.hyps(1) [OF this True, of "ds @ [d]"] all Suc.prems(2) show ?thesis unfolding step by simp
  next
    case False
    then have len: "length ys = Suc j" using Suc.prems(1) by simp
    then have "\<not> Suc j < length xs" using assms(8) by (auto split: if_splits)
    with final ending run len show ?thesis
      using all Suc.prems(2) by (intro exI [of _ "ds @ [d]"]) (auto simp del: task_step.simps intro!: run_frames_step)
  qed
qed

subsection \<open>The result\<close>

text \<open>The variables of the sub task are merged into those of the loop.\<close>

lemma getVariablesKeys_wf:
  assumes "map_wf (tc_variables (ts_contexts s ! e))"
  shows "\<exists>ks. getVariablesKeys e s = (s, Inr ks) \<and> set ks = dom (map_of (tc_variables (ts_contexts s ! e)))"
proof -
  let ?m = "tc_variables (ts_contexts s ! e)"
  let ?set = "fold hs_add (map PString (own_keys ?m)) newHashSet"
  have "PROTO \<notin> set (own_keys ?m)" using assms by (auto simp: map_wf_def ordinary_def dom_map_of_conv_image_fst)
  then have "set (own_keys ?set) = dom (map_of ?m)"
    using keys_fold_add [of "map PString (own_keys ?m)" newHashSet]
    by (auto simp: newHashSet_def dom_map_of_conv_image_fst image_image)
  moreover have "map prim_text (hs_forEach ?set) = own_keys ?set" by (intro forEach_texts set_wf_fold) simp
  moreover have "getVariablesKeys e s = (s, Inr (map prim_text (hs_forEach ?set)))"
    by (simp add: getVariablesKeys_def tseq_def tresult_def hm_size_def hm_keySet_def call_method_wf [OF assms] not_ordinary_methods
        fold_map comp_def)
  ultimately show ?thesis by simp
qed

lemma getVariable_own:
  assumes "map_wf (tc_variables (ts_contexts s ! e))" and "map_of (tc_variables (ts_contexts s ! e)) k = Some v" and "v \<noteq> TNull"
    and "e < length (ts_contexts s)"
  shows "getVariable e k s = (s, Inr v)"
proof -
  obtain f where "length (ts_contexts s) = Suc f" using assms(4) by (cases "length (ts_contexts s)") auto
  moreover have "ordinary k" using assms(1,2) by (auto simp: map_wf_def)
  then have "hm_get k (tc_variables (ts_contexts s ! e)) = Inr (Own v)"
    using assms(2) by (simp add: hm_get_def call_method_wf [OF assms(1) not_ordinary_methods(1)] hm_read_ordinary prop_of_def)
  ultimately show ?thesis using assms(3) by (simp add: getVariable_def tseq_def tget_def tresult_def)
qed

definition put_vars :: "nat \<Rightarrow> task_value hash_map \<Rightarrow> task_state \<Rightarrow> task_state" where
  "put_vars c m s = put_context c ((ts_contexts s ! c)\<lparr>tc_variables := m\<rparr>) s"

lemma put_vars_at:
  assumes "c < length (ts_contexts s)"
  shows "ts_contexts (put_vars c m s) ! e = (if e = c then (ts_contexts s ! c)\<lparr>tc_variables := m\<rparr> else ts_contexts s ! e)"
    and "length (ts_contexts (put_vars c m s)) = length (ts_contexts s)" and "put_vars c m' (put_vars c m s) = put_vars c m' s"
  using assms by (simp_all add: put_vars_def nth_list_update)

lemma put_vars_same: "put_vars c (tc_variables (ts_contexts s ! c)) s = s"
  by (simp add: put_vars_def)

lemma merge_keys:
  assumes "map_wf (tc_variables (ts_contexts s ! e))" and "TNull \<notin> ran (map_of (tc_variables (ts_contexts s ! e)))"
    and "e < length (ts_contexts s)" and "c < length (ts_contexts s)" and "e \<noteq> c" and "map_wf (tc_variables (ts_contexts s ! c))"
    and "set ks \<subseteq> dom (map_of (tc_variables (ts_contexts s ! e)))"
  shows "\<exists>m. each (merge_variable c e) ks s = (put_vars c m s, Inr ()) \<and> map_wf m
    \<and> map_of m = (\<lambda>k. if k \<in> set ks then map_of (tc_variables (ts_contexts s ! e)) k else map_of (tc_variables (ts_contexts s ! c)) k)"
  using assms
proof (induction ks arbitrary: s)
  case Nil
  then show ?case using put_vars_same [of c s] by (intro exI [of _ "tc_variables (ts_contexts s ! c)"]) (simp add: tret_def)
next
  case (Cons k ks)
  obtain v where v: "map_of (tc_variables (ts_contexts s ! e)) k = Some v" "v \<noteq> TNull" using Cons.prems(2,7) by (auto simp: ran_def)
  have k: "ordinary k" using v(1) Cons.prems(1) by (auto simp: map_wf_def)
  let ?m = "obj_set k v (tc_variables (ts_contexts s ! c))"
  have one: "merge_variable c e k s = (put_vars c ?m s, Inr ())"
    using getVariable_own [OF Cons.prems(1) v Cons.prems(3)] setVariable_ordinary [OF k Cons.prems(6), of v] v(2)
    by (simp add: merge_variable_def tseq_def put_vars_def)
  have "map_wf ?m" using Cons.prems(6) k by (auto simp: map_wf_def distinct_obj_set)
  moreover have at: "ts_contexts (put_vars c ?m s) ! e = ts_contexts s ! e" "tc_variables (ts_contexts (put_vars c ?m s) ! c) = ?m"
    "length (ts_contexts (put_vars c ?m s)) = length (ts_contexts s)"
    using put_vars_at [OF Cons.prems(4)] Cons.prems(5) by simp_all
  moreover note ih = Cons.IH [of "put_vars c ?m s", unfolded at]
  ultimately obtain m where m: "each (merge_variable c e) ks (put_vars c ?m s) = (put_vars c m (put_vars c ?m s), Inr ())" "map_wf m"
    "map_of m = (\<lambda>j. if j \<in> set ks then map_of (tc_variables (ts_contexts s ! e)) j else map_of ?m j)"
    using ih [OF Cons.prems(1-5)] Cons.prems(7) by auto
  have "map_of m = (\<lambda>j. if j \<in> set (k # ks) then map_of (tc_variables (ts_contexts s ! e)) j else map_of (tc_variables (ts_contexts s ! c)) j)"
    using m(3) v(1) by (auto simp: fun_eq_iff)
  then show ?case using one m(1,2) put_vars_at(3) [OF Cons.prems(4)] by (intro exI [of _ m]) (simp add: tseq_def)
qed

lemma merge_context:
  assumes "map_wf (tc_variables (ts_contexts s ! e))" and "TNull \<notin> ran (map_of (tc_variables (ts_contexts s ! e)))"
    and "e < length (ts_contexts s)" and "c < length (ts_contexts s)" and "e \<noteq> c" and "map_wf (tc_variables (ts_contexts s ! c))"
  shows "\<exists>m. mergeVariables c e s = (put_vars c m s, Inr ()) \<and> map_wf m
    \<and> map_of m = map_of (tc_variables (ts_contexts s ! c)) ++ map_of (tc_variables (ts_contexts s ! e))"
proof -
  obtain ks where ks: "getVariablesKeys e s = (s, Inr ks)" "set ks = dom (map_of (tc_variables (ts_contexts s ! e)))"
    using getVariablesKeys_wf [OF assms(1)] by blast
  from merge_keys [OF assms, of ks] ks(2) obtain m where m: "each (merge_variable c e) ks s = (put_vars c m s, Inr ())" "map_wf m"
    "map_of m = (\<lambda>k. if k \<in> set ks then map_of (tc_variables (ts_contexts s ! e)) k else map_of (tc_variables (ts_contexts s ! c)) k)" by blast
  have "map_of m = map_of (tc_variables (ts_contexts s ! c)) ++ map_of (tc_variables (ts_contexts s ! e))"
    unfolding m(3) ks(2) by (auto simp: fun_eq_iff map_add_def split: option.split)
  then show ?thesis using m(1,2) ks(1) by (auto simp: mergeVariables_def tseq_def)
qed

lemma merge_contexts:
  assumes "c < length (ts_contexts s)" and "map_wf (tc_variables (ts_contexts s ! c))"
    and "\<forall>e \<in> set es. e < length (ts_contexts s) \<and> e \<noteq> c \<and> map_wf (tc_variables (ts_contexts s ! e)) \<and> TNull \<notin> ran (map_of (tc_variables (ts_contexts s ! e)))"
  shows "\<exists>m. each (merge_element c) (map TContext es) s = (put_vars c m s, Inr ())
    \<and> map_of m = foldl (++) (map_of (tc_variables (ts_contexts s ! c))) (map (\<lambda>e. map_of (tc_variables (ts_contexts s ! e))) es)"
  using assms
proof (induction es arbitrary: s)
  case Nil
  then show ?case using put_vars_same [of c s] by (intro exI [of _ "tc_variables (ts_contexts s ! c)"]) (simp add: tret_def)
next
  case (Cons e es)
  obtain m where m: "mergeVariables c e s = (put_vars c m s, Inr ())" "map_wf m"
    "map_of m = map_of (tc_variables (ts_contexts s ! c)) ++ map_of (tc_variables (ts_contexts s ! e))"
    using merge_context [of s e c] Cons.prems by auto
  note at = put_vars_at [OF Cons.prems(1), of m]
  have same: "map (\<lambda>e. map_of (tc_variables (ts_contexts (put_vars c m s) ! e))) es = map (\<lambda>e. map_of (tc_variables (ts_contexts s ! e))) es"
    using Cons.prems(3) at(1) by simp
  obtain m' where "each (merge_element c) (map TContext es) (put_vars c m s) = (put_vars c m' (put_vars c m s), Inr ())"
    "map_of m' = foldl (++) (map_of m) (map (\<lambda>e. map_of (tc_variables (ts_contexts s ! e))) es)"
    using Cons.IH [of "put_vars c m s"] Cons.prems m(2) at unfolding same by auto
  then show ?case using m(1,3) put_vars_at(3) [OF Cons.prems(1)] by (intro exI [of _ m']) (simp add: tseq_def)
qed

lemma context_array_map: "context_array (map TContext es)"
  by (cases es) auto

lemma result_next_contexts:
  assumes "c < length (ts_contexts s)" and "map_wf (tc_variables (ts_contexts s ! c))"
    and "\<forall>e \<in> set es. e < length (ts_contexts s) \<and> e \<noteq> c \<and> map_wf (tc_variables (ts_contexts s ! e)) \<and> TNull \<notin> ran (map_of (tc_variables (ts_contexts s ! e)))"
  shows "\<exists>m. result_next c (TArray (map TContext es)) s
      = (put_context c (put_result ((ts_contexts s ! c)\<lparr>tc_variables := m\<rparr>) (TArray (map TContext es))) s, Inr [NextOf c])
    \<and> map_of m = foldl (++) (map_of (tc_variables (ts_contexts s ! c))) (map (\<lambda>e. map_of (tc_variables (ts_contexts s ! e))) es)"
proof -
  obtain m where m: "each (merge_element c) (map TContext es) s = (put_vars c m s, Inr ())"
    "map_of m = foldl (++) (map_of (tc_variables (ts_contexts s ! c))) (map (\<lambda>e. map_of (tc_variables (ts_contexts s ! e))) es)"
    using merge_contexts [OF assms] by blast
  then show ?thesis using assms(1)
    by (intro exI [of _ m]) (simp add: result_next_def setResult_def tseq_def tret_def put_result_def context_array_map put_vars_def)
qed

lemma all_previous_contexts:
  "\<forall>e \<in> set es. previous e = Inr (g e) \<Longrightarrow> all_previous previous (map TContext es) = Inr (filter (\<lambda>v. v \<noteq> TNull) (map g es))"
  by (induction es) auto

lemma sub_done_previous:
  "sub_done l as w t y (cs ! e) \<Longrightarrow> previous_result (Suc f) cs e = Inr (sub_result as w t y)"
proof -
  obtain w' t' m' v' where l: "fold local_effect as (w, t, newHashMap, y) = (w', t', m', v')" by (metis prod_cases4)
  assume "sub_done l as w t y (cs ! e)"
  with l have "has_locals (cs ! e) (w', t', m', v')" by (simp add: sub_done_def)
  with l show ?thesis by (simp add: previous_result_plain sub_result_def del: previous_result.simps)
qed

text \<open>The previous result of a context whose last result is the array of the contexts of the sub task.\<close>

lemma foreach_previous:
  assumes "\<forall>i < n. sub_done l as w t (ys ! i) (cs ! (m + i))" and "length ys = n" and "2 \<le> length cs"
    and "tc_currentTaskId (cs ! c) \<noteq> 0"
    and "rd (tc_results (cs ! c)) (Some (tc_currentTaskId (cs ! c) - 1)) = Some (TArray (map TContext [m..<m + n]))"
  shows "previous_result (length cs) cs c = Inr (TArray (filter (\<lambda>v. v \<noteq> TNull) (map (sub_result as w t) ys)))"
proof -
  define f where "f = length cs - 2"
  have f: "length cs = Suc (Suc f)" using assms(3) by (simp add: f_def)
  have "previous_result (Suc f) cs e = Inr (sub_result as w t (ys ! (e - m)))" if "e \<in> set [m..<m + n]" for e
  proof -
    from that obtain i where "e = m + i" "i < n" by (auto simp: nat_le_iff_add)
    with sub_done_previous [OF assms(1) [rule_format]] show ?thesis by simp
  qed
  then have "all_previous (previous_result (Suc f) cs) (map TContext [m..<m + n])
      = Inr (filter (\<lambda>v. v \<noteq> TNull) (map (\<lambda>e. sub_result as w t (ys ! (e - m))) [m..<m + n]))"
    by (intro all_previous_contexts) simp
  also have "map (\<lambda>e. sub_result as w t (ys ! (e - m))) [m..<m + n] = map (sub_result as w t) ys"
    by (rule nth_equalityI) (simp_all add: assms(2))
  finally have all: "all_previous (previous_result (Suc f) cs) (map TContext [m..<m + n])
      = Inr (filter (\<lambda>v. v \<noteq> TNull) (map (sub_result as w t) ys))" .
  show ?thesis
    unfolding f using assms(4,5) all by (subst previous_result.simps(2)) (simp add: context_array_map Let_def del: previous_result.simps)
qed

text \<open>The first round, and the step after the last one.\<close>

lemma foreach_begin:
  assumes "c < length (ts_contexts s)" and "x = ts_contexts s ! c" and "has_locals x (w, t, vm, v)" and "convert v = Inr xs"
    and "tc_currentTaskId x < int (length (tc_actions x))" and "tc_actions x ! nat (tc_currentTaskId x) = ActionForeach u"
    and "core_actions (ts_tasks s ! u) = as" and "nodeless (ys ! 0)" and "element xs 0 = ys ! 0"
  shows "run_frames te (Eval c # fs) s = run_frames te (Eval (length (ts_contexts s) + 0) # fs) (loop_state s c u xs 0
     ([] @ [fresh_context (Some c) (ys ! 0) (as @ [ActionThenAsync (ForeachNext (length (ts_loops s))), ActionClean]) w t]))"
proof -
  note lo = assms(3) [unfolded assms(2)]
  have start: "start_loop c u s = (loop_state s c u xs 0 [], Inr (length (ts_loops s), xs))"
    using previous_plain [OF assms(1) lo] assms(4)
    by (simp add: start_loop_def tseq_def tresult_def new_loop_def tget_def tupd_def tret_def loop_state_def loop_after_def loop_results_def)
  have "task_step te (Eval c) s = eval_foreach c u s"
    using assms(2,5,6) has_localsD(8) [OF assms(3)] by (simp add: eval_current_def tseq_def rd_Some eval_action_def Let_def)
  also have "\<dots> = (loop_state s c u xs 0
      ([] @ [fresh_context (Some c) (ys ! 0) (as @ [ActionThenAsync (ForeachNext (length (ts_loops s))), ActionClean]) w t]),
      Inr [Eval (length (ts_contexts s) + 0)])"
    using start assms(8,9) round_start [OF assms(1) lo assms(8,7), of "length (ts_loops s)" xs 0 "[]"] by (simp add: eval_foreach_def tseq_def)
  finally show ?thesis by (simp add: run_frames_step)
qed

lemma foreach_end:
  assumes "c < length (ts_contexts s)" and "tc_variables (ts_contexts s ! c) = newHashMap" and "length ys = length ds"
    and "\<forall>i < length ds. sub_done l as w t (ys ! i) (ds ! i)" and "length xs \<le> length ds"
  shows "\<exists>vm. result_next c (TArray (loop_results (length (ts_contexts s)) (length xs) (length ds))) (loop_state s c u xs k ds)
      = (put_context c (put_result ((ts_contexts s ! c)\<lparr>tc_variables := vm\<rparr>)
           (TArray (map TContext [length (ts_contexts s)..<length (ts_contexts s) + length ds]))) (loop_state s c u xs k ds), Inr [NextOf c])
    \<and> map_of vm = foldl (++) Map.empty (map (sub_vars as w t) ys)"
proof -
  let ?m = "length (ts_contexts s)" and ?s = "loop_state s c u xs k ds"
  have at: "ts_contexts ?s ! (?m + i) = ds ! i" for i by (simp add: loop_state_def nth_append)
  have c: "c < length (ts_contexts ?s)" "ts_contexts ?s ! c = ts_contexts s ! c" using assms(1) by (simp_all add: loop_state_def nth_append)
  have e: "e < length (ts_contexts ?s) \<and> e \<noteq> c \<and> map_wf (tc_variables (ts_contexts ?s ! e))
      \<and> TNull \<notin> ran (map_of (tc_variables (ts_contexts ?s ! e)))" if "e \<in> set [?m..<?m + length ds]" for e
  proof -
    from that obtain i where "e = ?m + i" "i < length ds" by (auto simp: nat_le_iff_add)
    then show ?thesis using sub_done_variables(1,2) [OF assms(4) [rule_format]] at assms(1) by (simp add: loop_state_def)
  qed
  have "map (\<lambda>e. map_of (tc_variables (ts_contexts ?s ! e))) [?m..<?m + length ds] = map (sub_vars as w t) ys"
    using sub_done_variables(3) [OF assms(4) [rule_format]] at assms(3) by (intro nth_equalityI) simp_all
  moreover have "map_wf (tc_variables (ts_contexts ?s ! c))" "map_of (tc_variables (ts_contexts ?s ! c)) = Map.empty"
    using assms(2) c(2) map_wf_new by (simp_all add: newHashMap_def)
  moreover have "loop_results ?m (length xs) (length ds) = map TContext [?m..<?m + length ds]" using assms(5) by (simp add: loop_results_def)
  ultimately show ?thesis using result_next_contexts [OF c(1) _ ballI [OF e]] c(2) by metis
qed

text \<open>The whole loop.\<close>

lemma foreach_run:
  assumes "c < length (ts_contexts s)" and "x = ts_contexts s ! c" and "has_locals x (w, t, newHashMap, v)" and "convert v = Inr xs"
    and "tc_currentTaskId x < int (length (tc_actions x))" and "tc_actions x ! nat (tc_currentTaskId x) = ActionForeach u"
    and "core_actions (ts_tasks s ! u) = as" and "\<forall>a \<in> set as. local_action True a" and "length as + 2 < 2 ^ 53"
    and "int (length xs) < 2 ^ 53 - 1" and "tc_currentTaskId x + 1 < 2 ^ 53" and "\<forall>y \<in> set xs. nodeless y \<and> plain_value y"
    and "ys = (if xs = [] then [TNull] else xs)" and "tc_parentContext x = None"
  shows "\<exists>s'. (\<forall>fs. run_frames te (Eval c # fs) s = run_frames te (Eval c # fs) s')
    \<and> length (ts_contexts s') = length (ts_contexts s) + length ys
    \<and> tc_currentTaskId (ts_contexts s' ! c) = tc_currentTaskId x + 1 \<and> tc_actions (ts_contexts s' ! c) = tc_actions x
    \<and> getPreviousResult c s' = (s', Inr (TArray (filter (\<lambda>v. v \<noteq> TNull) (map (sub_result as w t) ys))))
    \<and> map_of (tc_variables (ts_contexts s' ! c)) = foldl (++) Map.empty (map (sub_vars as w t) ys) \<and> ts_db s' = ts_db s"
proof -
  let ?m = "length (ts_contexts s)" and ?l = "length (ts_loops s)" and ?n = "length ys"
  note lo = assms(3) [unfolded assms(2)]
  have id0: "0 \<le> tc_currentTaskId x" using has_localsD(8) [OF assms(3)] .
  have len: "length (tc_results x) = length (tc_actions x)" using has_localsD(7) [OF assms(3)] .
  have first: "element xs 0 = ys ! 0" "nodeless (ys ! 0)" using assms(12,13) by (simp_all add: element_def rd_def)
  have n: "0 < ?n" using assms(13) by simp
  note begins = foreach_begin [OF assms(1-7) first(2,1), of te]
  obtain ds where ds: "length ds = ?n" "\<forall>i < ?n. sub_done ?l as w t (ys ! i) (ds ! i)"
    and ends: "\<forall>fs g s'. result_next c (TArray (loop_results ?m (length xs) ?n)) (loop_state s c u xs ?n ds) = (s', Inr g)
       \<longrightarrow> run_frames te (Eval (?m + 0) # fs)
           (loop_state s c u xs 0 ([] @ [fresh_context (Some c) (ys ! 0) (as @ [ActionThenAsync (ForeachNext ?l), ActionClean]) w t]))
         = run_frames te (g @ fs) s'"
    using foreach_rounds [OF assms(1) lo assms(7,8,9,10,12,13) assms(14) [unfolded assms(2)] n, of "[]" te] by auto
  let ?s = "loop_state s c u xs ?n ds"
  have le: "length xs \<le> ?n" using assms(13) by simp
  obtain vm where vm: "result_next c (TArray (loop_results ?m (length xs) ?n)) ?s
      = (put_context c (put_result (x\<lparr>tc_variables := vm\<rparr>) (TArray (map TContext [?m..<?m + ?n]))) ?s, Inr [NextOf c])"
    "map_of vm = foldl (++) Map.empty (map (sub_vars as w t) ys)"
    using foreach_end [OF assms(1) has_localsD(6) [OF lo], of ys ds ?l as w t xs u ?n] ds le unfolding assms(2) by metis
  from begins ends vm(1) have runs: "run_frames te (Eval c # fs) s
      = run_frames te (Eval c # fs) (bump c (put_context c (put_result (x\<lparr>tc_variables := vm\<rparr>) (TArray (map TContext [?m..<?m + ?n]))) ?s))" for fs
    by (simp add: run_next)
  define y where "y = (put_result (x\<lparr>tc_variables := vm\<rparr>) (TArray (map TContext [?m..<?m + ?n])))\<lparr>tc_currentTaskId := tc_currentTaskId x + 1\<rparr>"
  have "bump c (put_context c (put_result (x\<lparr>tc_variables := vm\<rparr>) (TArray (map TContext [?m..<?m + ?n]))) ?s) = put_context c y ?s" (is "?b = ?s'")
    using assms(1,11) id0 by (simp add: bump_def loop_state_def list_update_append nth_append rnd_id y_def put_result_def)
  with runs have runs': "\<forall>fs. run_frames te (Eval c # fs) s = run_frames te (Eval c # fs) ?s'" by simp
  have at: "ts_contexts ?s' ! c = y" "ts_contexts ?s' ! (?m + i) = ds ! i" if "i < ?n" for i
    using assms(1) that by (simp_all add: loop_state_def nth_append nth_list_update)
  have "rd (tc_results y) (Some (tc_currentTaskId y - 1)) = Some (TArray (map TContext [?m..<?m + ?n]))" "tc_currentTaskId y \<noteq> 0"
    using id0 assms(5) len by (simp_all add: y_def put_result_def rd_def wr_def)
  moreover have "0 < ?m" using assms(1) by linarith
  then have "2 \<le> ?m + ?n" using n by linarith
  then have "2 \<le> length (ts_contexts ?s')" using ds(1) by (simp add: loop_state_def)
  ultimately have "getPreviousResult c ?s' = (?s', Inr (TArray (filter (\<lambda>v. v \<noteq> TNull) (map (sub_result as w t) ys))))"
    using foreach_previous [of ?n ?l as w t ys "ts_contexts ?s'" ?m c] ds(2) at(1) [OF n] at(2)
    by (simp add: getPreviousResult_def tresult_def)
  with runs' at(1) [OF n] ds(1) vm(2) show ?thesis
    by (intro exI [of _ ?s']) (simp add: loop_state_def y_def put_result_def)
qed

subsection \<open>The final action\<close>

lemma final_async:
  assumes "rd (tc_actions (ts_contexts s ! c)) (Some (tc_currentTaskId (ts_contexts s ! c))) = Some (ActionThenAsync (UserAsync k))"
    and "te_async te k c s = (s2, Inr False)"
  shows "run_frames te [Eval c] s = Some (s2, Inr ())"
proof -
  have "task_step te (Eval c) s = (s2, Inr [])"
    using assms by (simp add: eval_current_def tseq_def eval_action_def run_callback_def Let_def tret_def)
  then show ?thesis by (simp add: run_frames_step del: task_step.simps)
qed

end
