(* ===== verification/TaskSpec.thy ===== *)
theory TaskSpec
  imports TaskForeach
begin

text \<open>
  What tasks do: parsing gives back the actions that were printed, a selection keeps the nodes that the filter accepts, an execution of
  actions on values, variables, worlds and times is that of a reference evaluator, and a loop over elements runs its sub task for every
  element.
\<close>

text \<open>Property C16.
  The text of a list of built-in actions is parsed to these actions, added to the task in order.\<close>

theorem task_parse_print:
  assumes "newRegistry = Inr (ts_registry s)" and "\<forall>a \<in> set as. printable te a" and "t < length (ts_tasks s)"
    and "task_wf (ts_tasks s ! t)"
  shows "\<exists>task. task_parse te t (actions_text as) s = (s\<lparr>ts_tasks := (ts_tasks s)[t := task]\<rparr>, Inr t)
    \<and> core_actions task = core_actions (ts_tasks s ! t) @ as \<and> task_wf task"
proof -
  have "\<forall>a \<in> set as. plain_text (fst (the (action_call a))) \<and> (\<forall>p \<in> set (snd (the (action_call a))). plain_text p)"
    using assms(2) printable_plain by blast
  then have "task_parse_loop te t (actions_text as) 0 0 None
      = each (\<lambda>a. tseq (add_named te t (Some (fst a)) (snd a)) (\<lambda>_. tret ())) (map (\<lambda>a. the (action_call a)) as)"
    using parse_calls [of "map (\<lambda>a. the (action_call a)) as" te t "[]"] by (simp add: actions_text_def)
  with each_add [OF assms] show ?thesis by (auto simp: task_parse_def tseq_def tret_def)
qed

definition sample_env :: task_env where
  "sample_env = \<lparr>te_graph = blackhole_env, te_regexp = (\<lambda>p. Some (\<lambda>s. s = p)), te_filter = (\<lambda>k n. ret True),
     te_map = (\<lambda>k n. ret (TNode n)), te_cond = (\<lambda>k c. tret True), te_then = (\<lambda>k c. tret ()), te_async = (\<lambda>k c. tret False),
     te_value = (\<lambda>k v. tret ()), te_factory = (\<lambda>k ps. tret ActionNoop)\<rparr>"

theorem task_parse_print_witness:
  "\<forall>db. let s = \<lparr>ts_db = db, ts_registry = builtin, ts_tasks = [\<lparr>ct_actions = replicate 10 None, ct_actionCursor = 0\<rparr>],
            ts_contexts = [], ts_loops = []\<rparr>
     in \<exists>task. task_parse sample_env 0 (actions_text [ActionTraverse [107], ActionWith [110] [120]]) s = (s\<lparr>ts_tasks := [task]\<rparr>, Inr 0)
        \<and> core_actions task = [ActionTraverse [107], ActionWith [110] [120]]"
proof -
  have "\<forall>a \<in> set [ActionTraverse [107], ActionWith [110] [120]]. printable sample_env a"
    by (simp add: printable_def plain_text_def sample_env_def QUERY_SEP_def TASK_SEP_def TASK_PARAM_OPEN_def TASK_PARAM_CLOSE_def)
  note parsed = task_parse_print [OF _ this, of _ 0]
  show ?thesis
  proof
    fix db
    show "let s = \<lparr>ts_db = db, ts_registry = builtin, ts_tasks = [\<lparr>ct_actions = replicate 10 None, ct_actionCursor = 0\<rparr>],
            ts_contexts = [], ts_loops = []\<rparr>
     in \<exists>task. task_parse sample_env 0 (actions_text [ActionTraverse [107], ActionWith [110] [120]]) s = (s\<lparr>ts_tasks := [task]\<rparr>, Inr 0)
        \<and> core_actions task = [ActionTraverse [107], ActionWith [110] [120]]"
      using parsed [of "\<lparr>ts_db = db, ts_registry = builtin, ts_tasks = [\<lparr>ct_actions = replicate 10 None, ct_actionCursor = 0\<rparr>],
            ts_contexts = [], ts_loops = []\<rparr>"] new_task_wf
      by (auto simp: newRegistry_builtin Let_def) (auto simp: core_actions_def)
  qed
qed

subsection \<open>Selection\<close>

fun kept :: "(nat \<Rightarrow> bool) \<Rightarrow> task_value \<Rightarrow> task_value list" where
  "kept p (TNode n) = (if p n then [TNode n] else [])"
| "kept p (TArray ys) = (let zs = concat (map (kept p) ys) in if zs = [] then [] else [TArray zs])"
| "kept p v = [v]"

text \<open>The values that are neither nodes nor arrays.\<close>

fun other_values :: "task_value list \<Rightarrow> task_value list" where
  "other_values [] = []"
| "other_values (TNode n # xs) = other_values xs"
| "other_values (TArray ys # xs) = other_values ys @ other_values xs"
| "other_values (v # xs) = v # other_values xs"

lemma getNodes_append [simp]: "getNodes (xs @ ys) = getNodes xs @ getNodes ys"
  by (induction xs rule: getNodes.induct) auto

lemma other_values_append [simp]: "other_values (xs @ ys) = other_values xs @ other_values ys"
  by (induction xs rule: other_values.induct) auto

lemma select_array_kept:
  "\<forall>n. f n db = (db, Inr (p n)) \<Longrightarrow> select_array f xs acc db = (db, Inr (acc @ concat (map (kept p) xs)))"
  by (induction f xs acc rule: select_array.induct) (simp_all add: seqo_def ret_def Let_def)

lemma kept_contents:
  "getNodes (concat (map (kept p) xs)) = filter p (getNodes xs) \<and> other_values (concat (map (kept p) xs)) = other_values xs"
proof (induction xs rule: getNodes.induct)
  case (3 ys xs)
  show ?case
  proof (cases "concat (map (kept p) ys) = []")
    case True
    with 3 have "filter p (getNodes ys) = []" "other_values ys = []" by (metis getNodes.simps(1) other_values.simps(1))+
    with True 3 show ?thesis by (simp add: Let_def)
  next
    case False
    with 3 show ?thesis by (simp add: Let_def del: concat_eq_Nil_conv)
  qed
qed simp_all

text \<open>Property C18.
  \<open>filterArray\<close> of a selection keeps exactly the nodes that the filter accepts, in their order and nesting, drops the arrays that
  become empty, and leaves every other value.\<close>

theorem select_array_spec:
  assumes "\<forall>n. f n db = (db, Inr (p n))"
  shows "\<exists>ys. select_array f xs [] db = (db, Inr ys) \<and> ys = concat (map (kept p) xs)
    \<and> getNodes ys = filter p (getNodes xs) \<and> other_values ys = other_values xs"
  using select_array_kept [of f db p xs "[]"] assms kept_contents by simp

theorem select_array_spec_witness:
  "\<forall>db. \<exists>ys. select_array (\<lambda>n. ret (n < 2)) [TNode 1, TArray [TNode 5, TNode 0], TArray [TNode 7], TNull] [] db = (db, Inr ys)
     \<and> getNodes ys = [1, 0] \<and> other_values ys = [TNull]"
proof
  fix db
  show "\<exists>ys. select_array (\<lambda>n. ret (n < 2)) [TNode 1, TArray [TNode 5, TNode 0], TArray [TNode 7], TNull] [] db = (db, Inr ys)
     \<and> getNodes ys = [1, 0] \<and> other_values ys = [TNull]"
    using select_array_spec [of "\<lambda>n. ret (n < 2)" db "\<lambda>n. n < 2" "[TNode 1, TArray [TNode 5, TNode 0], TArray [TNode 7], TNull]"]
    by (simp add: ret_def)
qed

subsection \<open>Executions\<close>

text \<open>Property C15.
  The execution of a task of actions on locals ends, and its final action finds the locals of the reference evaluator: the previous
  result, the variables, the world and the time, with the graph untouched.\<close>

theorem task_run_refines:
  assumes "\<forall>a \<in> set (core_actions (ts_tasks s ! t)). local_action True a" and "nodeless v" and "plain_value v"
    and "length (core_actions (ts_tasks s ! t)) + 2 < 2 ^ 53"
  shows "\<exists>x s1. s1 = s\<lparr>ts_contexts := ts_contexts s @ [x]\<rparr>
    \<and> has_locals x (fold local_effect (core_actions (ts_tasks s ! t)) (0, 0, newHashMap, v))
    \<and> getPreviousResult (length (ts_contexts s)) s1
        = (s1, Inr (snd (snd (snd (fold local_effect (core_actions (ts_tasks s ! t)) (0, 0, newHashMap, v))))))
    \<and> (\<forall>s2. te_async te k (length (ts_contexts s)) s1 = (s2, Inr False)
         \<longrightarrow> execute_with te t v (Some (UserAsync k)) s = Some (s2, Inr ()))"
proof -
  let ?as = "core_actions (ts_tasks s ! t)" and ?c = "length (ts_contexts s)"
  let ?x = "fresh_context None v (?as @ [ActionThenAsync (UserAsync k), ActionClean]) 0 0"
  let ?s = "s\<lparr>ts_contexts := ts_contexts s @ [?x]\<rparr>"
  have x: "?x = ts_contexts ?s ! ?c" "?c < length (ts_contexts ?s)" by simp_all
  have parts: "tc_currentTaskId ?x = 0" "tc_parentContext ?x = None" "tc_actions ?x = ?as @ [ActionThenAsync (UserAsync k), ActionClean]"
    by (simp_all add: fresh_context_def)
  have "drop (nat (tc_currentTaskId ?x)) (tc_actions ?x) = ?as @ [ActionThenAsync (UserAsync k), ActionClean]" by (simp add: parts)
  note run = local_run [OF x(2) x(1) fresh_locals [OF assms(3)] assms(1) _ this, of te]
  have "lone ?c ?s" by (simp add: lone_def parts)
  from run [OF this]
  obtain x' where x': "\<forall>fs. run_frames te (Eval ?c # fs) ?s = run_frames te (Eval ?c # fs) (put_context ?c x' ?s)"
    "has_locals x' (fold local_effect ?as (0, 0, newHashMap, v))" "tc_actions x' = tc_actions ?x"
    "tc_currentTaskId x' = int (length ?as)"
    using assms(4) parts by auto
  let ?s1 = "s\<lparr>ts_contexts := ts_contexts s @ [x']\<rparr>"
  have put: "put_context ?c x' ?s = ?s1" by simp
  obtain w' t' m' v' where l: "fold local_effect ?as (0, 0, newHashMap, v) = (w', t', m', v')" by (metis prod_cases4)
  have "getPreviousResult ?c ?s1 = (?s1, Inr v')" using previous_plain [of ?c ?s1] x'(2) l by simp
  moreover have "execute_with te t v (Some (UserAsync k)) s = Some (s2, Inr ())" if "te_async te k ?c ?s1 = (s2, Inr False)" for s2
  proof -
    have "run_frames te [Eval ?c] ?s1 = Some (s2, Inr ())"
      using that x'(3,4) parts(3) by (intro final_async) (simp_all add: rd_Some nth_append)
    with x'(1) put show ?thesis by (simp add: execute_with_def execute_top [OF assms(2)] final_action_def)
  qed
  ultimately show ?thesis using x'(2) l by (intro exI [of _ x'] exI [of _ ?s1]) simp
qed

definition sample_state :: "mwdb \<Rightarrow> task_state" where
  "sample_state db =
     \<lparr>ts_db = db, ts_registry = builtin,
      ts_tasks = [\<lparr>ct_actions = [Some (ActionForeach 1)], ct_actionCursor = 1\<rparr>,
        \<lparr>ct_actions = [Some (ActionWorld 3), Some (ActionAsVar [113])], ct_actionCursor = 2\<rparr>,
        \<lparr>ct_actions = [Some (ActionAsVar [113]), Some (ActionFrom TNull), Some (ActionFromVar [113])], ct_actionCursor = 3\<rparr>],
      ts_contexts = [], ts_loops = []\<rparr>"

lemma sample_actions:
  "core_actions (ts_tasks (sample_state db) ! 0) = [ActionForeach 1]"
  "core_actions (ts_tasks (sample_state db) ! 1) = [ActionWorld 3, ActionAsVar [113]]"
  "core_actions (ts_tasks (sample_state db) ! 2) = [ActionAsVar [113], ActionFrom TNull, ActionFromVar [113]]"
  by (simp_all add: sample_state_def core_actions_def)

lemma ordinary_q: "ordinary [113]"
  by (simp add: ordinary_def PROTO_def map_prototype_def object_prototype_def units_def)

theorem task_run_refines_witness:
  "\<forall>db. \<exists>s1. getPreviousResult 0 s1 = (s1, Inr (TElem (EString [65])))
     \<and> execute_with sample_env 2 (TElem (EString [65])) (Some (UserAsync 0)) (sample_state db) = Some (s1, Inr ())"
proof
  fix db
  let ?s = "sample_state db" and ?v = "TElem (EString [65])"
  have "\<forall>a \<in> set (core_actions (ts_tasks ?s ! 2)). local_action True a" using ordinary_q by (simp add: sample_actions plain_value_def)
  from task_run_refines [OF this, of ?v sample_env 0] show "\<exists>s1. getPreviousResult 0 s1 = (s1, Inr ?v)
     \<and> execute_with sample_env 2 ?v (Some (UserAsync 0)) ?s = Some (s1, Inr ())"
    by (simp add: sample_actions plain_value_def newHashMap_def)
      (auto simp: sample_env_def tret_def sample_state_def)
qed

text \<open>Property C8.
  A task whose one action is \<open>foreach\<close>, over a sub task whose actions are those of the reference evaluator (\<open>local_action\<close>: world, time, from, the
  variables of ordinary names, noop), on a value without nodes and contexts: the sub task runs on one element after the other, each in a
  context of its own that starts with no variables; the execution ends and its final action finds the array of the results of the sub task
  that are not null, the variables of all the contexts merged in the order of the elements, and the graph untouched.  On an
  empty array or null the sub task runs once, on undefined.\<close>

theorem foreach_spec:
  assumes "core_actions (ts_tasks s ! t) = [ActionForeach u]" and "\<forall>a \<in> set (core_actions (ts_tasks s ! u)). local_action True a"
    and "length (core_actions (ts_tasks s ! u)) + 2 < 2 ^ 53"
    and "nodeless v" and "plain_value v" and "convert v = Inr xs" and "\<forall>y \<in> set xs. nodeless y \<and> plain_value y"
    and "int (length xs) < 2 ^ 53 - 1"
  shows "\<exists>s1 ys. ys = (if xs = [] then [TNull] else xs)
    \<and> getPreviousResult (length (ts_contexts s)) s1 = (s1, Inr (TArray (filter (\<lambda>r. r \<noteq> TNull)
         (map (sub_result (core_actions (ts_tasks s ! u)) 0 0) ys))))
    \<and> map_of (tc_variables (ts_contexts s1 ! length (ts_contexts s)))
        = foldl (++) Map.empty (map (sub_vars (core_actions (ts_tasks s ! u)) 0 0) ys)
    \<and> length (ts_contexts s1) = length (ts_contexts s) + 1 + length ys \<and> ts_db s1 = ts_db s
    \<and> (\<forall>s2. te_async te k (length (ts_contexts s)) s1 = (s2, Inr False)
         \<longrightarrow> execute_with te t v (Some (UserAsync k)) s = Some (s2, Inr ()))"
proof -
  let ?c = "length (ts_contexts s)" and ?as = "core_actions (ts_tasks s ! u)"
  let ?x = "fresh_context None v [ActionForeach u, ActionThenAsync (UserAsync k), ActionClean] 0 0"
  let ?s = "s\<lparr>ts_contexts := ts_contexts s @ [?x]\<rparr>"
  have x: "?x = ts_contexts ?s ! ?c" "?c < length (ts_contexts ?s)" by simp_all
  have parts: "tc_currentTaskId ?x = 0" "tc_actions ?x = [ActionForeach u, ActionThenAsync (UserAsync k), ActionClean]"
    "tc_parentContext ?x = None"
    by (simp_all add: fresh_context_def)
  have "core_actions (ts_tasks ?s ! u) = ?as" by simp
  from foreach_run [OF x(2) x(1) fresh_locals [OF assms(5)] assms(6) _ _ this assms(2,3,8) _ assms(7) refl parts(3), of te]
  obtain s1 where s1: "\<forall>fs. run_frames te (Eval ?c # fs) ?s = run_frames te (Eval ?c # fs) s1"
    "length (ts_contexts s1) = ?c + 1 + length (if xs = [] then [TNull] else xs)"
    "tc_currentTaskId (ts_contexts s1 ! ?c) = 1" "tc_actions (ts_contexts s1 ! ?c) = tc_actions ?x"
    "getPreviousResult ?c s1 = (s1, Inr (TArray (filter (\<lambda>r. r \<noteq> TNull) (map (sub_result ?as 0 0) (if xs = [] then [TNull] else xs)))))"
    "map_of (tc_variables (ts_contexts s1 ! ?c)) = foldl (++) Map.empty (map (sub_vars ?as 0 0) (if xs = [] then [TNull] else xs))"
    "ts_db s1 = ts_db s"
    by (auto simp: parts)
  have "execute_with te t v (Some (UserAsync k)) s = Some (s2, Inr ())" if "te_async te k ?c s1 = (s2, Inr False)" for s2
    using s1(1) final_async [of s1 ?c k te s2] that s1(3,4) parts(2)
    by (simp add: execute_with_def execute_top [OF assms(4)] final_action_def assms(1) rd_Some)
  with s1 show ?thesis by (intro exI [of _ s1]) auto
qed

theorem foreach_spec_witness:
  "\<forall>db. \<exists>s1. getPreviousResult 0 s1 = (s1, Inr (TArray [TElem (EString [65]), TElem (EString [66])]))
     \<and> map_of (tc_variables (ts_contexts s1 ! 0)) [113] = Some (TElem (EString [66])) \<and> length (ts_contexts s1) = 3
     \<and> execute_with sample_env 0 (TElem (EString [65, 66])) (Some (UserAsync 0)) (sample_state db) = Some (s1, Inr ())"
proof
  fix db
  let ?s = "sample_state db" and ?v = "TElem (EString [65, 66])"
  have "\<forall>a \<in> set (core_actions (ts_tasks ?s ! 1)). local_action True a" using ordinary_q by (simp only: sample_actions) simp
  from foreach_spec [OF sample_actions(1) this, of ?v "[TElem (EString [65]), TElem (EString [66])]" sample_env 0]
  show "\<exists>s1. getPreviousResult 0 s1 = (s1, Inr (TArray [TElem (EString [65]), TElem (EString [66])]))
     \<and> map_of (tc_variables (ts_contexts s1 ! 0)) [113] = Some (TElem (EString [66])) \<and> length (ts_contexts s1) = 3
     \<and> execute_with sample_env 0 ?v (Some (UserAsync 0)) ?s = Some (s1, Inr ())"
    by (simp add: sample_actions sample_actions(2) [simplified] plain_value_def convert_def sub_result_def sub_vars_def newHashMap_def)
      (auto simp: sample_env_def tret_def sample_state_def map_add_def)
qed

end
