(* ===== verification/Spec2Isabelle.thy ===== *)
theory Spec2Isabelle
  imports FixedStack HashSpec Base64Spec LongLongMap StringLongMap LongLongArrayMap WorldOrderChunk ChunkCache GenChunk ResolverSpec
    GraphSave NodeSpec TaskSpec
begin

text \<open>
  A verification development for the JavaScript core of mwDB, a database of nodes that have a state per world (a
  branch of what-if analysis) and per time.  The modelled program is \<open>src/plugins/debug/src/vivagraph/mwg.js\<close>; names in
  the theories are those of the file.

  \<^bold>\<open>The program.\<close>  A node is a view on chunks: one world order chunk (the worlds in which the node was changed, each with
  the time from which on it differs from its parent), a time tree per world of super times, a time tree per super time, and a
  state chunk per time with the attributes of the node.  Chunks live in a cache of fixed size (\<open>HeapChunkSpace\<close>); whoever uses
  a chunk marks it, an unmarked chunk waits in a least-recently-used queue and may be evicted, a changed chunk is dirty and stays
  marked until \<open>CoreGraph.save\<close> has written it.  \<open>MWGResolver\<close> finds the chunks of a node: \<open>resolve_world\<close> climbs from a world to
  its ancestors, the time trees give the latest time.  Chunks are written to a storage as text, in a base 64 of its own.

  \<^bold>\<open>Conventions\<close> (\<open>Prelude\<close>).  A number that may be \<open>undefined\<close> is a \<open>jsnum\<close>; numbers of the program are integers (\<open>int\<close>)
  where it keeps them below \<open>2 ^ 53\<close>, and doubles (\<open>js_double\<close>, \<open>dnum\<close>, rounded by \<open>rnd\<close>) where rounding shows.  Typed arrays
  are lists with \<open>rd\<close>, \<open>wr\<close> and \<open>wrn\<close>, which say what happens out of range.  A result is \<open>Inr\<close> of a value or \<open>Inl\<close> of an
  error; every \<open>throw\<close>, every call on null and every access that is a \<open>TypeError\<close> is a branch.  \<open>NoReturn\<close> is a call that does
  not return: a loop that may run for ever is a \<open>partial_function (option)\<close>, whose \<open>None\<close> is turned into it.  There is no fuel, except
  in the calls between the contexts of tasks and in the iteration over the views of a buffer, where \<open>buffer_fuel\<close> is the number of bytes and one more, and every round moves the cursor.
  Objects that are shared and mutated live in stores (lists indexed by references): the states of maps and of state chunks, the
  chunks of the cache, the nodes.

  \<^bold>\<open>Theories\<close>, in the order in which they build on each other:
  \<^item> \<open>FixedStack\<close>: the queue of the cache; every run of its operations is that of a list queue (locale \<open>queue\<close>).
  \<^item> \<open>JsLong\<close>, \<open>LongWord\<close>, \<open>LongMul\<close>, \<open>LongDiv\<close>: the class \<open>Long\<close>, against 64-bit words.
  \<^item> \<open>Hashing\<close>, \<open>HashSpec\<close>: \<open>longHash\<close>, \<open>tripleHash\<close> and the hash of strings, against references on words; the locale
    \<open>hash_slots\<close> is what the hash tables need of a hash.
  \<^item> \<open>Buffers\<close>: \<open>HeapBuffer\<close> and its iterator refine byte sequences and their segments.
  \<^item> \<open>Base64\<close>, \<open>Base64Spec\<close>: the codec of numbers, doubles, strings and chunk keys, with its round trips.
  \<^item> \<open>HashChain\<close>, \<open>MapObject\<close>, \<open>LongLongMap\<close>, \<open>StringLongMap\<close>, \<open>LongLongArrayMap\<close>: the tables with chains that all maps of the
    program share, map objects with copy on write, and the three maps; the maps refine abstract maps (locale \<open>number_map\<close>).
  \<^item> \<open>TimeTree\<close>, \<open>TimeTreeShape\<close>, \<open>TimeTreeSpec\<close>, \<open>TimeTreeChunk\<close>: the red-black tree of times: its invariant, insertion,
    searches, ranges, clearing and payload.
  \<^item> \<open>WorldOrder\<close>, \<open>WorldOrderSpec\<close>, \<open>WorldOrderLive\<close>, \<open>WorldOrderChunk\<close>: the map of worlds and its payload; \<open>wo_wf\<close> is the
    invariant of a chunk that was only loaded or only put to, \<open>wo_live\<close> that of every mixture, with the slots that a rehash forgets.
  \<^item> \<open>ChunkSpace\<close>, \<open>ChunkSpaceSpec\<close>, \<open>ChunkSpacePut\<close>, \<open>ChunkSpaceSave\<close>, \<open>ChunkCache\<close>: the cache: lookups, marks, eviction, the
    dirty list and \<open>CoreGraph.save\<close>; the invariant \<open>cs_inv\<close> ties the table, the marks and the queue together, \<open>dirty_inv\<close> the dirty
    chunks, the dirty list and the chunks whose \<open>save\<close> has thrown.  The \<open>save\<close> of a chunk is a parameter there (\<open>saver_steady\<close>: whether
    it throws does not depend on what is in the buffer); it is \<open>db_saver\<close> in a graph.
  \<^item> \<open>JavaAtomic\<close>, \<open>GenChunk\<close>: atomic cells, and the generator of identifiers.
  \<^item> \<open>Query\<close>: the index queries, their sort and their hash.
  \<^item> \<open>StateChunk\<close>, \<open>StateChunkSpec\<close>, \<open>StateChunkMap\<close>, \<open>StateChunkSave\<close>: the attributes of a node: types, copies of values, clones
    that share arrays until the first write, and the payload.
  \<^item> \<open>Graph\<close>: the state of a graph (\<open>mwdb\<close>: the cache, the content of the chunks, the shared states, the nodes), the programs
    over it (\<open>op\<close>: a program returns the state also when it throws, because the callers catch errors), and the creation of chunks.
  \<^item> \<open>Resolver\<close>, \<open>ResolverTimes\<close>: \<open>MWGResolver\<close>; \<open>ResolverWorld\<close>, \<open>ResolverLookup\<close>, \<open>ResolverSpec\<close>: its properties, with the
    lineage of a world and the latest time as the abstract specification, and the marks that an operation leaves (\<open>moved\<close>).
  \<^item> \<open>NumberText\<close>: the text of a number, as \<open>Number.prototype.toString\<close> gives it (the shortest digits that are read back as
    the number), and the texts of strings and values.
  \<^item> \<open>Node\<close>, \<open>NodeIndex\<close>: \<open>AbstractNode\<close>: attributes, relations, phases and jumps; the local indexes, their searches and
    \<open>toString\<close>.  Several lookups at once go through \<open>CoreDeferCounter\<close>, a \<open>defer_counter\<close> of callbacks.  An identifier that is not
    an integer and an index key that is not finite end in the error \<open>not_followed\<close>: what follows there is not modelled.
  \<^item> \<open>CoreGraph\<close>: the operations of the class \<open>CoreGraph\<close>, \<open>ReadOnlyStorage\<close>, \<open>GraphBuilder\<close> and \<open>Builder\<close>.  The connection reads and
    writes the four keys of the storage (\<open>connection_keys\<close>); the answers to a put are a parameter (\<open>ge_put\<close>: \<open>None\<close> is a storage that
    does not call back).  \<open>GraphSave\<close>: what \<open>CoreGraph.save\<close> leaves dirty, with the \<open>save\<close> methods of the chunks themselves
    (\<open>db_saver_steady\<close> discharges the assumption on them).
  \<^item> \<open>NodeState\<close>, \<open>NodeSpec\<close>: what the operations on a node do to its state chunk, when the node is resolved to a state at its own
    world and time (\<open>exact_node\<close>: its state is then already dirty, as \<open>newNode\<close> and \<open>phasedState\<close> leave it), and which names a call
    enters in the dictionary (\<open>dictionary_room\<close>, \<open>known_names\<close>).
  \<^item> \<open>JavaCollections\<close>, \<open>CollectionsSpec\<close>: the sets, lists, maps, stacks and strings of the runtime shim, as objects and arrays of
    JavaScript (keys in the order of the language, inherited properties); a \<open>HashMap\<close> without the names of methods is a map.
  \<^item> \<open>Task\<close>, \<open>TaskRun\<close>: tasks.  A \<open>task_state\<close> holds the graph, the tasks, the contexts of their executions and the variables that the
    closures of loops share.  \<open>Task\<close> has the building and parsing of tasks and the contexts; \<open>TaskRun\<close> the actions and the
    execution, a machine with a stack of frames: \<open>eval\<close> and \<open>next\<close> call each other, and a frame \<open>Catch\<close> is the \<open>try\<close> block of
    a lookup that calls back.  \<open>run_frames\<close> is \<open>None\<close> when the execution does not end.  The functions of the user and \<open>RegExp\<close> are
    parameters (\<open>task_env\<close>).  Calls from context to context have fuel, the number of contexts: a longer run comes to one again.
  \<^item> \<open>TaskText\<close>, \<open>TaskMachine\<close>, \<open>TaskForeach\<close>, \<open>TaskSpec\<close>: the text of a task is parsed to its actions; an execution of actions on
    values and variables is that of a reference evaluator (\<open>local_effect\<close>); \<open>foreach\<close> with a sub task of such actions runs it on
    every element and merges the variables.

  \<^bold>\<open>Defects\<close> that the development shows are stated as theorems about what the code does where that was within reach (for example
  \<open>wo_put_update\<close>, \<open>wo_put_refines\<close>, \<open>sc_origin_write_hides\<close>, \<open>tt_merge_first_only\<close>, \<open>graph_save_cleans\<close>, \<open>long_value_nan\<close>); the
  others are comments at the definitions.

  \<^bold>\<open>Assumptions.\<close>  The program is run by one thread and its storage answers at once, as \<open>BlackHoleStorage\<close> does: the loops on
  atomic cells run once and the locks of chunks do nothing.
  The answers of the storage are parameters (\<open>ge_get\<close>, \<open>ge_put\<close>).  There are no node factories, and the node tracker does
  nothing.  Bounds in hypotheses are those of the program: keys below \<open>2 ^ 53\<close> in absolute value, arrays shorter than
  \<open>2 ^ 31\<close>.  \<open>hashable\<close> keys are those whose hash does not meet the one product on which \<open>Long.multiply\<close> does not return; it
  is executable.

  \<^bold>\<open>Not modelled.\<close>
  Factories of typed nodes, which are code of the user; the scheduler and the node tracker, which do nothing; the choice of
  off-heap memory, which has no effect here, since both kinds of buffer are heap buffers; random numbers; the client of the
  websocket; the browser pages and the vendored libraries, which are not part of the core.  The storage behind the graph is not
  code of the file.
\<close>

end
